(* ===== verification/Prelude.thy ===== *)
theory Prelude
  imports Main "HOL-Library.Char_ord" "HOL-Library.List_Lexorder" "HOL-Library.AList"
    "HOL-Library.Sublist"
begin

text \<open>
  What every component shares: results that carry an error, the tables of the SQLite
  stores, the Python list and string operations the code calls, and the way a store runs a
  sequence of transactions.

  A Python exception is a value \<open>Inl e\<close>. A text is a list of characters; a character
  stands for one code point, so the model covers texts over U+0000 to U+00FF.
  A point in time is a whole number of microseconds since the epoch, in UTC; the code
  stores the ISO text of the same instant, whose order as a text is the order in time.
\<close>

named_theorems outcome_simps "facts that take apart a computation which may raise"
named_theorems table_simps "facts about reading and writing the rows of a table"
named_theorems str_simps "facts about the Python string operations"

type_synonym time = int

section \<open>Results that may be an exception\<close>

definition ebind :: "'e + 'a \<Rightarrow> ('a \<Rightarrow> 'e + 'b) \<Rightarrow> 'e + 'b" where
  "ebind m f = (case m of Inl e \<Rightarrow> Inl e | Inr x \<Rightarrow> f x)"

definition raise_if :: "bool \<Rightarrow> 'e \<Rightarrow> 'e + unit" where
  "raise_if c e = (if c then Inl e else Inr ())"

fun mapE :: "('a \<Rightarrow> 'e + 'b) \<Rightarrow> 'a list \<Rightarrow> 'e + 'b list" where
  "mapE f [] = Inr []"
| "mapE f (x # xs) = ebind (f x) (\<lambda>y. ebind (mapE f xs) (\<lambda>ys. Inr (y # ys)))"

fun foldE :: "('a \<Rightarrow> 's \<Rightarrow> 'e + 's) \<Rightarrow> 'a list \<Rightarrow> 's \<Rightarrow> 'e + 's" where
  "foldE f [] s = Inr s"
| "foldE f (x # xs) s = ebind (f x s) (foldE f xs)"

fun forE :: "('a \<Rightarrow> 'e + unit) \<Rightarrow> 'a list \<Rightarrow> 'e + unit" where
  "forE f [] = Inr ()"
| "forE f (x # xs) = ebind (f x) (\<lambda>_. forE f xs)"

lemma ebind_Inl [simp]: "ebind (Inl e) f = Inl e"
  by (simp add: ebind_def)

lemma ebind_Inr [simp]: "ebind (Inr x) f = f x"
  by (simp add: ebind_def)

lemma ebind_eq_Inr [outcome_simps]: "ebind m f = Inr y \<longleftrightarrow> (\<exists>x. m = Inr x \<and> f x = Inr y)"
  by (cases m) auto

lemma ebind_cong [fundef_cong]:
  "m = m' \<Longrightarrow> (\<And>x. m' = Inr x \<Longrightarrow> f x = f' x) \<Longrightarrow> ebind m f = ebind m' f'"
  by (cases m') auto

lemma raise_if_eq_Inr [outcome_simps]: "raise_if c e = Inr u \<longleftrightarrow> \<not> c"
  by (simp add: raise_if_def)

lemma raise_if_eq_Inl [outcome_simps]: "raise_if c e = Inl e' \<longleftrightarrow> c \<and> e' = e"
  by (auto simp: raise_if_def)

lemma raise_if_simps [simp]: "raise_if True e = Inl e" "raise_if False e = Inr ()"
  by (simp_all add: raise_if_def)

lemma forE_eq_Inr [outcome_simps]: "forE f xs = Inr u \<longleftrightarrow> (\<forall>x \<in> set xs. f x = Inr ())"
  by (induction xs) (auto simp: outcome_simps)

lemma mapE_eq_Inr: "mapE f xs = Inr ys \<longleftrightarrow> list_all2 (\<lambda>x y. f x = Inr y) xs ys"
  by (induction xs arbitrary: ys) (auto simp: outcome_simps list_all2_Cons1)

lemma foldE_invariant:
  assumes "foldE f xs s = Inr s'" and "P s"
    and "\<And>x t t'. x \<in> set xs \<Longrightarrow> P t \<Longrightarrow> f x t = Inr t' \<Longrightarrow> P t'"
  shows "P s'"
  using assms by (induction xs arbitrary: s) (auto simp: outcome_simps)

section \<open>Tables\<close>

text \<open>
  A table is the list of its rows in insertion order. \<open>UPDATE ... WHERE P\<close> is
  \<open>tbl_update\<close>, \<open>fetchone\<close> is \<open>List.find\<close>, and an \<open>INSERT\<close> checks the
  primary key: a duplicate is sqlite3's IntegrityError, here \<open>None\<close>.
\<close>

definition tbl_update :: "('r \<Rightarrow> bool) \<Rightarrow> ('r \<Rightarrow> 'r) \<Rightarrow> 'r list \<Rightarrow> 'r list" where
  "tbl_update P f rows = map (\<lambda>r. if P r then f r else r) rows"

definition tbl_count :: "('r \<Rightarrow> bool) \<Rightarrow> 'r list \<Rightarrow> nat" where
  "tbl_count P rows = length (filter P rows)"

definition tbl_insert :: "('r \<Rightarrow> 'k) \<Rightarrow> 'r \<Rightarrow> 'r list \<Rightarrow> 'r list option" where
  "tbl_insert key r rows = (if key r \<in> set (map key rows) then None else Some (rows @ [r]))"

abbreviation tbl_get :: "('r \<Rightarrow> 'k) \<Rightarrow> 'k \<Rightarrow> 'r list \<Rightarrow> 'r option" where
  "tbl_get key k rows \<equiv> List.find (\<lambda>r. key r = k) rows"

lemma find_Some_mem: "List.find P xs = Some x \<Longrightarrow> x \<in> set xs \<and> P x"
  by (induction xs) (auto split: if_splits)

lemma tbl_get_mem: "tbl_get key k rows = Some r \<Longrightarrow> r \<in> set rows \<and> key r = k"
  by (drule find_Some_mem) simp

lemma tbl_get_eqI:
  "distinct (map key rows) \<Longrightarrow> r \<in> set rows \<Longrightarrow> key r = k \<Longrightarrow> tbl_get key k rows = Some r"
  by (induction rows) force+

lemma set_tbl_update [table_simps]:
  "set (tbl_update P f rows) = (\<lambda>r. if P r then f r else r) ` set rows"
  by (simp add: tbl_update_def)

lemma keys_tbl_update [table_simps]:
  "(\<And>r. key (f r) = key r) \<Longrightarrow> map key (tbl_update P f rows) = map key rows"
  by (simp add: tbl_update_def comp_def)

lemma tbl_get_update [table_simps]:
  "(\<And>r. key (f r) = key r) \<Longrightarrow>
   tbl_get key k (tbl_update P f rows) = map_option (\<lambda>r. if P r then f r else r) (tbl_get key k rows)"
  by (induction rows) (auto simp: tbl_update_def)

lemma tbl_get_map:
  "(\<And>r. key (f r) = key r) \<Longrightarrow> tbl_get key k (map f rows) = map_option f (tbl_get key k rows)"
  by (induction rows) auto

lemma tbl_get_None: "tbl_get key k rows = None \<longleftrightarrow> k \<notin> set (map key rows)"
  by (induction rows) auto

lemma tbl_get_append [table_simps]:
  "tbl_get key k (rows @ [r]) =
     (case tbl_get key k rows of None \<Rightarrow> if key r = k then Some r else None | Some x \<Rightarrow> Some x)"
  by (induction rows) auto

lemma tbl_insert_Some [table_simps]:
  "tbl_insert key r rows = Some rows' \<longleftrightarrow> key r \<notin> set (map key rows) \<and> rows' = rows @ [r]"
  by (auto simp: tbl_insert_def)

lemma distinct_same_key:
  "distinct (map key rows) \<Longrightarrow> r \<in> set rows \<Longrightarrow> s \<in> set rows \<Longrightarrow> key r = key s \<Longrightarrow> r = s"
  by (simp add: distinct_map inj_on_def)

lemma filter_single:
  assumes "distinct xs" and "x \<in> set xs" and "P x" and "\<And>y. y \<in> set xs \<Longrightarrow> P y \<Longrightarrow> y = x"
  shows "filter P xs = [x]"
  using assms
proof (induction xs)
  case (Cons y ys)
  show ?case
  proof (cases "y = x")
    case True
    with Cons.prems(1) have "x \<notin> set ys" by simp
    then have "filter P ys = []" using Cons.prems(4) unfolding filter_empty_conv by (metis list.set_intros(2))
    then show ?thesis using True Cons.prems(3) by simp
  next
    case False
    then have "\<not> P y" using Cons.prems(4)[of y] by fastforce
    moreover have "filter P ys = [x]"
      using Cons.IH Cons.prems False by (metis distinct.simps(2) list.set_intros(2) set_ConsD)
    ultimately show ?thesis by simp
  qed
qed simp

section \<open>Lists and dictionaries\<close>

fun py_fromkeys :: "'a list \<Rightarrow> 'a list" where
  "py_fromkeys [] = []"
| "py_fromkeys (x # xs) = x # filter (\<lambda>y. y \<noteq> x) (py_fromkeys xs)"

abbreviation sorted_set :: "'a::linorder list \<Rightarrow> 'a list" where
  "sorted_set xs \<equiv> sort (remdups xs)"

lemma set_py_fromkeys [simp]: "set (py_fromkeys xs) = set xs"
  by (induction xs) auto

lemma distinct_py_fromkeys [simp]: "distinct (py_fromkeys xs)"
  by (induction xs) auto

lemma set_sorted_set: "set (sorted_set xs) = set xs"
  by simp

section \<open>Python strings\<close>

definition is_space :: "char \<Rightarrow> bool" where
  "is_space c = (let n = of_char c :: nat in
     (9 \<le> n \<and> n \<le> 13) \<or> (28 \<le> n \<and> n \<le> 32) \<or> n = 133 \<or> n = 160)"

definition py_strip :: "string \<Rightarrow> string" where
  "py_strip s = rev (dropWhile is_space (rev (dropWhile is_space s)))"

definition is_blank :: "string \<Rightarrow> bool" where
  "is_blank s \<longleftrightarrow> py_strip s = []"

definition lower_char :: "char \<Rightarrow> char" where
  "lower_char c = (let n = of_char c :: nat in
     if (65 \<le> n \<and> n \<le> 90) \<or> (192 \<le> n \<and> n \<le> 222 \<and> n \<noteq> 215) then char_of (n + 32) else c)"

definition py_lower :: "string \<Rightarrow> string" where
  "py_lower = map lower_char"

definition is_digit_char :: "char \<Rightarrow> bool" where
  "is_digit_char c = (let n = of_char c :: nat in 48 \<le> n \<and> n \<le> 57)"

text \<open>\<open>str.isdigit\<close> also accepts the superscript digits, which \<open>int()\<close> rejects.\<close>

definition py_isdigit :: "string \<Rightarrow> bool" where
  "py_isdigit s \<longleftrightarrow> s \<noteq> [] \<and>
     list_all (\<lambda>c. is_digit_char c \<or> (of_char c :: nat) \<in> {178, 179, 185}) s"

definition digit_value :: "char \<Rightarrow> nat" where
  "digit_value c = of_char c - 48"

text \<open>\<open>int(s)\<close> for a text that passed \<open>isdigit\<close>: \<open>None\<close> is Python's ValueError.\<close>

definition int_of_digits :: "string \<Rightarrow> nat option" where
  "int_of_digits s = (if s \<noteq> [] \<and> list_all is_digit_char s
     then Some (foldl (\<lambda>n c. 10 * n + digit_value c) 0 s) else None)"

abbreviation startswith :: "string \<Rightarrow> string \<Rightarrow> bool" where
  "startswith s p \<equiv> prefix p s"

abbreviation endswith :: "string \<Rightarrow> string \<Rightarrow> bool" where
  "endswith s p \<equiv> suffix p s"

fun split_char :: "char \<Rightarrow> string \<Rightarrow> string list" where
  "split_char c [] = [[]]"
| "split_char c (x # xs) =
     (if x = c then [] # split_char c xs
      else (case split_char c xs of [] \<Rightarrow> [[x]] | w # ws \<Rightarrow> (x # w) # ws))"

text \<open>\<open>s.split(m, 1)\<close> at the first occurrence of \<open>m\<close>, \<open>s.rsplit(m, 1)\<close> at the last.\<close>

fun split_first :: "string \<Rightarrow> string \<Rightarrow> (string \<times> string) option" where
  "split_first m [] = (if m = [] then Some ([], []) else None)"
| "split_first m (c # cs) =
     (if prefix m (c # cs) then Some ([], drop (length m) (c # cs))
      else map_option (\<lambda>(a, b). (c # a, b)) (split_first m cs))"

definition split_last :: "string \<Rightarrow> string \<Rightarrow> (string \<times> string) option" where
  "split_last m s = map_option (\<lambda>(a, b). (rev b, rev a)) (split_first (rev m) (rev s))"

function replace_all :: "string \<Rightarrow> string \<Rightarrow> string \<Rightarrow> string" where
  "replace_all old new s =
     (case s of [] \<Rightarrow> []
      | c # cs \<Rightarrow> if old \<noteq> [] \<and> prefix old s then new @ replace_all old new (drop (length old) s)
                 else c # replace_all old new cs)"
  by pat_completeness auto
termination
  by (relation "measure (\<lambda>(old, new, s). length s)") auto

declare replace_all.simps [simp del]

text \<open>\<open>bool(v)\<close> and \<open>v or d\<close> for a text that may be absent.\<close>

definition filled :: "string option \<Rightarrow> bool" where
  "filled v \<longleftrightarrow> v \<noteq> None \<and> v \<noteq> Some []"

definition or_text :: "string option \<Rightarrow> string \<Rightarrow> string" where
  "or_text v d = (case v of None \<Rightarrow> d | Some s \<Rightarrow> if s = [] then d else s)"

text \<open>Decimal digits of a number, as \<open>str(n)\<close> prints it.\<close>

fun nat_text :: "nat \<Rightarrow> string" where
  "nat_text n = (if n < 10 then [char_of (48 + n)] else nat_text (n div 10) @ [char_of (48 + n mod 10)])"

declare nat_text.simps [simp del]

text \<open>\<open>table.get(key, default)\<close> on a literal table.\<close>

definition get_default :: "'v \<Rightarrow> ('k \<times> 'v) list \<Rightarrow> 'k \<Rightarrow> 'v" where
  "get_default d tbl k = (case map_of tbl k of None \<Rightarrow> d | Some v \<Rightarrow> v)"

lemma get_default_in:
  "get_default d tbl k \<in> insert d (snd ` set tbl)"
  by (auto simp: get_default_def split: option.splits dest: map_of_SomeD intro: rev_image_eqI)

lemma split_first_append:
  assumes "split_first m s = Some (a, b)"
  shows "s = a @ m @ b"
  using assms
  by (induction m s arbitrary: a b rule: split_first.induct)
     (auto split: if_splits simp: prefix_def)

lemma split_last_append: "split_last m s = Some (a, b) \<Longrightarrow> s = a @ m @ b"
  by (auto simp: split_last_def dest!: split_first_append)
     (metis append_assoc rev_append rev_rev_ident)

lemma is_blank_Nil [simp]: "is_blank []"
  by (simp add: is_blank_def py_strip_def)

lemma py_strip_idem [simp]: "py_strip (py_strip s) = py_strip s"
proof -
  have d: "dropWhile is_space (dropWhile is_space t) = dropWhile is_space t" for t
    by (induction t) auto
  have k: "dropWhile is_space (rev (dropWhile is_space (rev t))) = rev (dropWhile is_space (rev t))"
    if "dropWhile is_space t = t" for t
  proof (cases "rev (dropWhile is_space (rev t))")
    case (Cons c cs)
    have "suffix (dropWhile is_space (rev t)) (rev t)"
      by (rule suffix_dropWhile)
    then have "prefix (rev (dropWhile is_space (rev t))) t"
      by (simp add: suffix_to_prefix)
    then obtain ys where "t = (c # cs) @ ys"
      using Cons by (auto simp: prefix_def)
    then have "dropWhile is_space (c # cs @ ys) = c # cs @ ys"
      using that by simp
    then have "\<not> is_space c"
      using length_dropWhile_le[of is_space "cs @ ys"] by (auto split: if_splits)
    then show ?thesis
      using Cons by simp
  next
    case Nil
    then show ?thesis
      by (simp only: Nil) simp
  qed
  show ?thesis
    unfolding py_strip_def by (simp add: k[OF d] d)
qed

section \<open>Transactions in sequence\<close>

text \<open>
  An operation of a store runs in one SQLite transaction: on success its writes are
  committed, on an exception they are rolled back and the tables stay as they were. The
  stores take the write lock first (\<open>BEGIN IMMEDIATE\<close>), so the transactions of
  concurrent callers happen one after another: any interleaving is a list of operations.
\<close>

definition commit :: "'e + ('r \<times> 'db) \<Rightarrow> 'db \<Rightarrow> 'db" where
  "commit out db = (case out of Inl _ \<Rightarrow> db | Inr (_, db') \<Rightarrow> db')"

fun run :: "('op \<Rightarrow> 'db \<Rightarrow> 'e + ('r \<times> 'db)) \<Rightarrow> 'op list \<Rightarrow> 'db \<Rightarrow> 'db" where
  "run exec [] db = db"
| "run exec (op # ops) db = run exec ops (commit (exec op db) db)"

text \<open>How many operations of a run, among those that satisfy \<open>p\<close>, succeeded.\<close>

fun successes :: "('op \<Rightarrow> 'db \<Rightarrow> 'e + ('r \<times> 'db)) \<Rightarrow> ('op \<Rightarrow> bool) \<Rightarrow> 'op list \<Rightarrow> 'db \<Rightarrow> nat" where
  "successes exec p [] db = 0"
| "successes exec p (op # ops) db =
     (case exec op db of
        Inl _ \<Rightarrow> successes exec p ops db
      | Inr (_, db') \<Rightarrow> (if p op then 1 else 0) + successes exec p ops db')"

lemma commit_Inl [simp]: "commit (Inl e) db = db"
  by (simp add: commit_def)

lemma commit_Inr [simp]: "commit (Inr (r, db')) db = db'"
  by (simp add: commit_def)

lemma run_append [simp]: "run exec (xs @ ys) db = run exec ys (run exec xs db)"
  by (induction xs arbitrary: db) auto

lemma returns: "isl m = False \<Longrightarrow> \<exists>r db. m = Inr (r, db)"
  by (cases m) auto

end
