(* ===== verification/PyValues.thy ===== *)
theory PyValues
  imports Prelude Complex_Main "HOL-Library.Multiset"
begin

text \<open>
  The Python values that come out of \<open>json.loads\<close>: what a plan proposal, the
  arguments of a capability and the columns that hold JSON text are made of. A dictionary
  is the list of its items in insertion order; a float is the rational number it denotes
  (finite floats only). A column of JSON text is modelled by the value the text denotes:
  \<open>json.dumps(v, sort_keys=True, separators=(",", ":"))\<close> is \<open>canon v\<close>, the
  value with the keys of every object sorted, and \<open>json.loads\<close> of it is that value.
\<close>

datatype json =
    JNull
  | JBool bool
  | JInt int
  | JFloat rat
  | JStr string
  | JList "json list"
  | JDict "(string \<times> json) list"

fun truthy :: "json \<Rightarrow> bool" where
  "truthy JNull = False"
| "truthy (JBool b) = b"
| "truthy (JInt n) = (n \<noteq> 0)"
| "truthy (JFloat r) = (r \<noteq> 0)"
| "truthy (JStr s) = (s \<noteq> [])"
| "truthy (JList xs) = (xs \<noteq> [])"
| "truthy (JDict d) = (d \<noteq> [])"

fun num_value :: "json \<Rightarrow> rat option" where
  "num_value (JBool b) = Some (if b then 1 else 0)"
| "num_value (JInt n) = Some (of_int n)"
| "num_value (JFloat r) = Some r"
| "num_value _ = None"

text \<open>Python's \<open>==\<close>: numbers and booleans by value, dictionaries whatever their order.\<close>

fun py_eq :: "json \<Rightarrow> json \<Rightarrow> bool"
  and py_eq_list :: "json list \<Rightarrow> json list \<Rightarrow> bool"
  and py_eq_items :: "(string \<times> json) list \<Rightarrow> (string \<times> json) list \<Rightarrow> bool" where
  "py_eq JNull w = (w = JNull)"
| "py_eq (JStr s) w = (w = JStr s)"
| "py_eq (JList xs) w = (case w of JList ys \<Rightarrow> py_eq_list xs ys | _ \<Rightarrow> False)"
| "py_eq (JDict d) w = (case w of JDict e \<Rightarrow> length d = length e \<and> py_eq_items d e | _ \<Rightarrow> False)"
| "py_eq v w = (num_value v = num_value w)"
| "py_eq_list [] ys = (ys = [])"
| "py_eq_list (x # xs) ys = (case ys of [] \<Rightarrow> False | y # ys' \<Rightarrow> py_eq x y \<and> py_eq_list xs ys')"
| "py_eq_items [] e = True"
| "py_eq_items ((k, v) # d) e =
     (case map_of e k of None \<Rightarrow> False | Some w \<Rightarrow> py_eq v w \<and> py_eq_items d e)"

fun canon :: "json \<Rightarrow> json" where
  "canon (JList xs) = JList (map canon xs)"
| "canon (JDict d) = JDict (sort_key fst (map (\<lambda>(k, v). (k, canon v)) d))"
| "canon v = v"

abbreviation items_get :: "(string \<times> json) list \<Rightarrow> string \<Rightarrow> json option" where
  "items_get d k \<equiv> map_of d k"

text \<open>\<open>d.get(k)\<close>: \<open>JNull\<close> when the key is absent.\<close>

definition dget :: "(string \<times> json) list \<Rightarrow> string \<Rightarrow> json" where
  "dget d k = (case map_of d k of None \<Rightarrow> JNull | Some v \<Rightarrow> v)"

definition json_keys :: "(string \<times> json) list \<Rightarrow> string list" where
  "json_keys d = map fst d"

lemma dget_absent: "k \<notin> set (map fst d) \<Longrightarrow> dget d k = JNull"
  by (simp add: dget_def map_of_eq_None_iff[THEN iffD2])

lemma map_of_sort_key:
  "distinct (map fst d) \<Longrightarrow> map_of (sort_key fst d) = map_of d"
proof (rule map_of_inject_set [THEN iffD2])
  assume d: "distinct (map fst d)"
  show "distinct (map fst d)" by fact
  show "set (sort_key fst d) = set d" by simp
  have "mset (map fst (sort_key fst d)) = mset (map fst d)"
    by simp
  then show "distinct (map fst (sort_key fst d))"
    using d mset_eq_imp_distinct_iff by blast
qed

text \<open>Sorting the keys changes no lookup.\<close>

lemma canon_lookup:
  assumes "distinct (map fst d)" and "canon (JDict d) = JDict d'"
  shows "map_of d' k = map_option canon (map_of d k)"
proof -
  have d': "d' = sort_key fst (map (\<lambda>(k, v). (k, canon v)) d)"
    using assms(2) by simp
  have "map fst (map (\<lambda>(k, v). (k, canon v)) d) = map fst d"
    by (simp add: comp_def case_prod_beta)
  then have "distinct (map fst (map (\<lambda>(k, v). (k, canon v)) d))"
    using assms(1) by (simp only:)
  then have "map_of d' k = map_of (map (\<lambda>(k, v). (k, canon v)) d) k"
    by (simp only: d' map_of_sort_key)
  also have "\<dots> = map_option canon (map_of d k)"
    by (simp add: map_of_map)
  finally show ?thesis .
qed

end
