(* ===== verification/InputValidation.thy ===== *)
theory InputValidation
  imports PyValues
begin

text \<open>
  The shared validation primitives of \<open>agentbridge/core/input_validation.py\<close>: the
  three validation profiles, the issues they report and the order in which they look for
  them. A schema holds the keywords the code reads, with the types the registered schemas
  give them; an absent keyword is \<open>None\<close> or its default. The lemmas relate the checks
  to a declarative reading of a schema and show what the profiles have in common.
\<close>

section \<open>Schemas and issues\<close>

datatype schema_type = TName string | TAny "string list"

datatype schema = Schema
  (sc_type: "schema_type option")
  (sc_properties: "(string \<times> schema) list option")
  (sc_required: "string list")
  (sc_closed: bool)
  (sc_enum: "json list option")
  (sc_min_length: int)
  (sc_max_length: "int option")
  (sc_minimum: "rat option")
  (sc_maximum: "rat option")
  (sc_items: "schema option")

definition any_schema :: schema where
  "any_schema = Schema None None [] False None 0 None None None None"

definition typed_schema :: "string \<Rightarrow> schema" where
  "typed_schema t = Schema (Some (TName t)) None [] False None 0 None None None None"

definition properties_of :: "schema \<Rightarrow> (string \<times> schema) list" where
  "properties_of s = (case sc_properties s of None \<Rightarrow> [] | Some ps \<Rightarrow> ps)"

datatype profile = CapabilityProfile | PlanProfile | TransformProfile

datatype issue_kind =
  Missing | Unexpected | Overlap | TypeIssue | EnumIssue | MinLength | MaxLength | Minimum | Maximum

record schema_issue =
  si_kind :: issue_kind
  si_path :: string
  si_expected :: "schema_type option"
  si_fields :: "string list"

definition field_issue :: "issue_kind \<Rightarrow> string \<Rightarrow> string list \<Rightarrow> schema_issue" where
  "field_issue k p fs = \<lparr>si_kind = k, si_path = p, si_expected = None, si_fields = fs\<rparr>"

section \<open>The checks\<close>

definition matches_type_name :: "json \<Rightarrow> string \<Rightarrow> bool" where
  "matches_type_name v name =
     (if name = ''string'' then (case v of JStr _ \<Rightarrow> True | _ \<Rightarrow> False)
      else if name = ''object'' then (case v of JDict _ \<Rightarrow> True | _ \<Rightarrow> False)
      else if name = ''array'' then (case v of JList _ \<Rightarrow> True | _ \<Rightarrow> False)
      else if name = ''boolean'' then (case v of JBool _ \<Rightarrow> True | _ \<Rightarrow> False)
      else if name = ''integer'' then (case v of JInt _ \<Rightarrow> True | _ \<Rightarrow> False)
      else if name = ''number'' then (case v of JInt _ \<Rightarrow> True | JFloat _ \<Rightarrow> True | _ \<Rightarrow> False)
      else if name = ''null'' then v = JNull
      else True)"

fun matches_json_type :: "json \<Rightarrow> schema_type \<Rightarrow> bool" where
  "matches_json_type v (TName t) = matches_type_name v t"
| "matches_json_type v (TAny ts) = list_ex (matches_type_name v) ts"

definition object_fields_issue ::
  "profile \<Rightarrow> string \<Rightarrow> string list \<Rightarrow> schema \<Rightarrow> (string \<times> json) list \<Rightarrow> schema_issue option" where
  "object_fields_issue profile path bound schema value =
     (let keys = map fst value; props = map fst (properties_of schema) in
      if profile = PlanProfile then
        let unexpected = sorted_set (filter (\<lambda>k. k \<notin> set props) (keys @ bound));
            missing = sorted_set (filter (\<lambda>k. k \<notin> set keys \<and> k \<notin> set bound) (sc_required schema));
            overlap = sorted_set (filter (\<lambda>k. k \<in> set bound) keys)
        in if sc_closed schema \<and> unexpected \<noteq> [] then Some (field_issue Unexpected path unexpected)
           else if missing \<noteq> [] then Some (field_issue Missing path missing)
           else if overlap \<noteq> [] then Some (field_issue Overlap path overlap)
           else None
      else
        let missing = filter (\<lambda>k. k \<notin> set keys) (sc_required schema);
            unexpected = sorted_set (filter (\<lambda>k. k \<notin> set props) keys)
        in if missing \<noteq> [] then Some (field_issue Missing path missing)
           else if sc_closed schema \<and> unexpected \<noteq> [] then Some (field_issue Unexpected path unexpected)
           else None)"

definition item_path :: "string \<Rightarrow> nat \<Rightarrow> string" where
  "item_path path i = path @ ''['' @ nat_text i @ '']''"

definition is_number :: "json \<Rightarrow> bool" where
  "is_number v = (case v of JInt _ \<Rightarrow> True | JFloat _ \<Rightarrow> True | _ \<Rightarrow> False)"

definition plan_bounds_issue :: "string \<Rightarrow> schema \<Rightarrow> json \<Rightarrow> schema_issue option" where
  "plan_bounds_issue path s v =
     (case v of
        JStr t \<Rightarrow>
          if int (length t) < sc_min_length s then Some (field_issue MinLength path [])
          else (case sc_max_length s of
                  Some m \<Rightarrow> if int (length t) > m then Some (field_issue MaxLength path []) else None
                | None \<Rightarrow> None)
      | _ \<Rightarrow>
          if is_number v then
            (case (num_value v, sc_minimum s, sc_maximum s) of
               (Some x, lo, hi) \<Rightarrow>
                 if (case lo of Some l \<Rightarrow> x < l | None \<Rightarrow> False) then Some (field_issue Minimum path [])
                 else if (case hi of Some h \<Rightarrow> x > h | None \<Rightarrow> False) then Some (field_issue Maximum path [])
                 else None
             | _ \<Rightarrow> None)
          else None)"

definition type_issue :: "string \<Rightarrow> schema \<Rightarrow> json \<Rightarrow> schema_issue option" where
  "type_issue path s v =
     (case sc_type s of
        Some t \<Rightarrow> if matches_json_type v t then None
                  else Some \<lparr>si_kind = TypeIssue, si_path = path, si_expected = Some t, si_fields = []\<rparr>
      | None \<Rightarrow> None)"

definition enum_issue :: "string \<Rightarrow> schema \<Rightarrow> json \<Rightarrow> schema_issue option" where
  "enum_issue path s v =
     (case sc_enum s of
        Some vs \<Rightarrow> if list_ex (py_eq v) vs then None else Some (field_issue EnumIssue path [])
      | None \<Rightarrow> None)"

definition or_issue :: "schema_issue option \<Rightarrow> schema_issue option \<Rightarrow> schema_issue option" where
  "or_issue a b = (case a of Some i \<Rightarrow> Some i | None \<Rightarrow> b)"

fun schema_value_issue :: "profile \<Rightarrow> string \<Rightarrow> schema \<Rightarrow> json \<Rightarrow> schema_issue option"
  and dict_items_issue :: "profile \<Rightarrow> string option \<Rightarrow> (string \<times> schema) list \<Rightarrow> (string \<times> json) list \<Rightarrow> schema_issue option"
  and list_items_issue :: "profile \<Rightarrow> string \<Rightarrow> nat \<Rightarrow> schema \<Rightarrow> json list \<Rightarrow> schema_issue option" where
  "schema_value_issue profile path s v =
     or_issue (type_issue path s v)
       (if profile = CapabilityProfile then None
        else or_issue (enum_issue path s v)
          (if profile = PlanProfile then plan_bounds_issue path s v
           else (case v of
                   JDict d \<Rightarrow>
                     or_issue (object_fields_issue profile path [] s d)
                       (dict_items_issue profile (Some path) (properties_of s) d)
                 | JList xs \<Rightarrow>
                     (case sc_items s of
                        Some item \<Rightarrow> list_items_issue profile path 0 item xs
                      | None \<Rightarrow> None)
                 | _ \<Rightarrow> None)))"
| "dict_items_issue profile prefix_path props [] = None"
| "dict_items_issue profile prefix_path props ((name, item) # rest) =
     or_issue
       (case map_of props name of
          Some definition \<Rightarrow>
            schema_value_issue profile
              (case prefix_path of None \<Rightarrow> name | Some p \<Rightarrow> p @ ''.'' @ name) definition item
        | None \<Rightarrow> None)
       (dict_items_issue profile prefix_path props rest)"
| "list_items_issue profile path i s [] = None"
| "list_items_issue profile path i s (x # xs) =
     or_issue (schema_value_issue profile (item_path path i) s x)
       (list_items_issue profile path (Suc i) s xs)"

declare schema_value_issue.simps [simp del]

definition object_input_issue ::
  "profile \<Rightarrow> string list \<Rightarrow> schema \<Rightarrow> (string \<times> json) list \<Rightarrow> schema_issue option" where
  "object_input_issue profile bound schema value =
     or_issue (object_fields_issue profile [] bound schema value)
       (dict_items_issue profile None (properties_of schema) value)"

section \<open>Lemmas\<close>

lemma or_issue_None [simp]: "or_issue a b = None \<longleftrightarrow> a = None \<and> b = None"
  by (simp add: or_issue_def split: option.splits)

lemma or_issue_simps [simp]: "or_issue None b = b" "or_issue (Some i) b = Some i"
  by (simp_all add: or_issue_def)

lemma or_issue_assoc: "or_issue (or_issue a b) c = or_issue a (or_issue b c)"
  by (cases a) simp_all

lemma sorted_set_Nil [simp]: "sorted_set xs = [] \<longleftrightarrow> xs = []"
  by (metis remdups_eq_nil_iff set_sort set_empty)

definition member_issue :: "profile \<Rightarrow> string option \<Rightarrow> (string \<times> schema) list \<Rightarrow> string \<times> json \<Rightarrow> schema_issue option" where
  "member_issue profile prefix_path props = (\<lambda>(name, item).
     case map_of props name of
       Some definition \<Rightarrow>
         schema_value_issue profile
           (case prefix_path of None \<Rightarrow> name | Some p \<Rightarrow> p @ ''.'' @ name) definition item
     | None \<Rightarrow> None)"

lemma dict_items_issue_None:
  "dict_items_issue profile pre props d = None \<longleftrightarrow>
   (\<forall>m \<in> set d. member_issue profile pre props m = None)"
  by (induction d) (auto simp: member_issue_def)

lemma dict_items_issue_append:
  "dict_items_issue profile pre props (d @ e) =
   or_issue (dict_items_issue profile pre props d) (dict_items_issue profile pre props e)"
  by (induction d) (auto simp: or_issue_assoc)

lemma list_items_issue_None:
  "list_items_issue profile path i s xs = None \<longleftrightarrow>
   (\<forall>j < length xs. schema_value_issue profile (item_path path (i + j)) s (xs ! j) = None)"
proof (induction xs arbitrary: i)
  case (Cons x xs)
  show ?case
    by (simp add: Cons.IH All_less_Suc2)
qed simp

text \<open>What a schema asks of a value, read off its keywords, with no path and no order of checks.\<close>

fun conforms :: "schema \<Rightarrow> json \<Rightarrow> bool" where
  "conforms s v =
     ((case sc_type s of None \<Rightarrow> True | Some t \<Rightarrow> matches_json_type v t) \<and>
      (case sc_enum s of None \<Rightarrow> True | Some vs \<Rightarrow> list_ex (py_eq v) vs) \<and>
      (case v of
         JDict d \<Rightarrow>
           set (sc_required s) \<subseteq> fst ` set d \<and>
           (sc_closed s \<longrightarrow> fst ` set d \<subseteq> fst ` set (properties_of s)) \<and>
           list_all (\<lambda>(k, x). case map_of (properties_of s) k of None \<Rightarrow> True | Some t \<Rightarrow> conforms t x) d
       | JList xs \<Rightarrow> (case sc_items s of None \<Rightarrow> True | Some t \<Rightarrow> list_all (conforms t) xs)
       | _ \<Rightarrow> True))"

declare conforms.simps [simp del]

lemma type_issue_None:
  "type_issue p s v = None \<longleftrightarrow> (case sc_type s of None \<Rightarrow> True | Some t \<Rightarrow> matches_json_type v t)"
  by (simp add: type_issue_def split: option.splits)

lemma enum_issue_None:
  "enum_issue p s v = None \<longleftrightarrow> (case sc_enum s of None \<Rightarrow> True | Some vs \<Rightarrow> list_ex (py_eq v) vs)"
  by (simp add: enum_issue_def split: option.splits)

lemma object_fields_issue_None:
  "object_fields_issue TransformProfile p [] s d = None \<longleftrightarrow>
     set (sc_required s) \<subseteq> fst ` set d \<and> (sc_closed s \<longrightarrow> fst ` set d \<subseteq> fst ` set (properties_of s))"
  by (auto simp: object_fields_issue_def Let_def filter_empty_conv)

lemma plan_fields_issue_None:
  "object_fields_issue PlanProfile p bound s d = None \<longleftrightarrow>
     (sc_closed s \<longrightarrow> fst ` set d \<union> set bound \<subseteq> fst ` set (properties_of s)) \<and>
     set (sc_required s) \<subseteq> fst ` set d \<union> set bound \<and> fst ` set d \<inter> set bound = {}"
  by (auto simp: object_fields_issue_def Let_def filter_empty_conv)

text \<open>A value passes the nested validation that transform inputs go through exactly when it
  conforms to the schema read declaratively: the order of the checks, the first-issue return
  and the paths that are reported have no effect on what is accepted.\<close>

theorem transform_validation_iff_conforms:
  "schema_value_issue TransformProfile path s v = None \<longleftrightarrow> conforms s v"
proof (induction v arbitrary: path s)
  case (JList xs)
  show ?case
    by (subst schema_value_issue.simps, subst conforms.simps)
       (auto simp: type_issue_None enum_issue_None list_items_issue_None JList list_all_length
         split: option.splits)
next
  case (JDict d)
  have "member_issue TransformProfile (Some path) (properties_of s) (k, x) = None \<longleftrightarrow>
      (case map_of (properties_of s) k of None \<Rightarrow> True | Some t \<Rightarrow> conforms t x)"
    if "(k, x) \<in> set d" for k x
    using JDict[OF that] by (auto simp: member_issue_def split: option.splits)
  then show ?case
    by (subst schema_value_issue.simps, subst conforms.simps)
       (auto simp: type_issue_None enum_issue_None dict_items_issue_None object_fields_issue_None
         list_all_iff)
qed (simp_all add: schema_value_issue.simps conforms.simps type_issue_None enum_issue_None)

text \<open>A step that passed validation at planning time, when some of its input fields were only
  bound to the outputs of earlier steps, can fail the validation at run time only through the
  bound values: with their values filled in, the first issue found is the first issue of those
  values, and no field is missing, unexpected or given twice.\<close>

theorem plan_runtime_validation:
  assumes "object_input_issue PlanProfile (map fst bound_values) s arguments = None"
  shows "object_input_issue PlanProfile [] s (arguments @ bound_values) =
         dict_items_issue PlanProfile None (properties_of s) bound_values"
proof -
  have "object_fields_issue PlanProfile [] [] s (arguments @ bound_values) = None"
    using assms by (auto simp: object_input_issue_def plan_fields_issue_None)
  then show ?thesis
    using assms by (simp add: object_input_issue_def dict_items_issue_append)
qed

definition demo_step_schema :: schema where
  "demo_step_schema = Schema (Some (TName ''object''))
     (Some [(''content'', typed_schema ''string''), (''hours'', typed_schema ''number'')])
     [''content'', ''hours''] True None 0 None None None None"

lemma transform_implies_capability:
  "schema_value_issue TransformProfile path s v = None \<Longrightarrow>
   schema_value_issue CapabilityProfile path s v = None"
  by (simp add: schema_value_issue.simps[of _ path s v])

end
