(* ===== verification/TaskStateRules.thy ===== *)
theory TaskStateRules
  imports Prelude
begin

text \<open>
  The pure task state decisions of \<open>agentbridge/core/task_state_rules.py\<close>: how an
  observed operation, interaction, plan event or batch moves the status of a task. The
  statuses are the texts the code uses; a lookup with a default is \<open>get_default\<close>.
  The lemmas show which observations can leave a terminal status and which cannot.
\<close>

section \<open>Status tables\<close>

definition task_statuses :: "string list" where
  "task_statuses = [''active'', ''waiting_user'', ''running'', ''succeeded'', ''failed'',
     ''outcome_unknown'', ''canceled'', ''expired'', ''superseded'', ''partially_succeeded'']"

definition active_task_statuses :: "string list" where
  "active_task_statuses = [''active'', ''waiting_user'', ''running'']"

definition terminal_task_statuses :: "string list" where
  "terminal_task_statuses = filter (\<lambda>s. s \<notin> set active_task_statuses) task_statuses"

definition batch_states :: "string list" where
  "batch_states = [''running'', ''waiting_user'', ''paused'', ''succeeded'',
     ''partially_succeeded'', ''failed'', ''outcome_unknown'', ''canceled'', ''expired'']"

definition active_batch_states :: "string list" where
  "active_batch_states = [''running'', ''waiting_user'', ''paused'']"

definition batch_item_states :: "string list" where
  "batch_item_states = [''queued'', ''preparing'', ''waiting_user'', ''succeeded'', ''failed'',
     ''outcome_unknown'', ''canceled'', ''expired'', ''skipped'', ''superseded'']"

definition task_status_for_operation :: "string \<Rightarrow> string" where
  "task_status_for_operation = get_default ''active''
     [(''pending'', ''running''), (''running'', ''running''),
      (''requires_user_action'', ''waiting_user''), (''succeeded'', ''succeeded''),
      (''failed'', ''failed''), (''unknown'', ''outcome_unknown'')]"

definition event_type_for_operation :: "string \<Rightarrow> string" where
  "event_type_for_operation = get_default ''task.operation.updated''
     [(''pending'', ''task.operation.running''), (''running'', ''task.operation.running''),
      (''requires_user_action'', ''task.operation.requires_user_action''),
      (''succeeded'', ''task.operation.succeeded''), (''failed'', ''task.operation.failed''),
      (''unknown'', ''task.operation.outcome_unknown'')]"

definition task_status_for_interaction :: "string \<Rightarrow> string \<Rightarrow> bool \<Rightarrow> string" where
  "task_status_for_interaction state itype has_current_operation =
     (if state = ''completed'' \<and> itype = ''credential'' \<and> \<not> has_current_operation
      then ''succeeded''
      else get_default ''active''
        [(''pending'', ''waiting_user''), (''processing'', ''waiting_user''),
         (''completed'', ''active''), (''declined'', ''canceled''), (''expired'', ''expired''),
         (''failed'', ''failed''), (''superseded'', ''superseded'')] state)"

definition event_type_for_interaction :: "string \<Rightarrow> string" where
  "event_type_for_interaction = get_default ''task.interaction.updated''
     [(''pending'', ''task.interaction.waiting''), (''processing'', ''task.interaction.waiting''),
      (''completed'', ''task.interaction.completed''), (''declined'', ''task.canceled''),
      (''expired'', ''task.interaction.expired''), (''failed'', ''task.interaction.failed''),
      (''superseded'', ''task.interaction.superseded'')]"

section \<open>Observations\<close>

text \<open>The columns of a task row that the decisions read.\<close>

record task_view =
  tv_status :: string
  tv_current_operation_id :: "string option"
  tv_current_interaction_id :: "string option"

definition interaction_may_update_task :: "task_view \<Rightarrow> string \<Rightarrow> bool \<Rightarrow> bool" where
  "interaction_may_update_task task interaction_id newly_linked =
     (if tv_status task \<in> set terminal_task_statuses then False
      else if newly_linked then True
      else tv_current_interaction_id task = Some interaction_id)"

record decision =
  d_status :: string
  d_event_type :: string
  d_update_task :: bool
  d_emit_event :: bool
  d_observation_changed :: bool

definition operation_observation ::
  "string \<Rightarrow> string \<Rightarrow> string option \<Rightarrow> bool \<Rightarrow> decision" where
  "operation_observation task_status operation_status batch_state newly_linked =
     (let status =
        (case batch_state of
           None \<Rightarrow> task_status_for_operation operation_status
         | Some b \<Rightarrow>
             if b \<in> set active_batch_states
             then (if b \<in> {''waiting_user'', ''paused''} then ''waiting_user'' else ''running'')
             else b)
      in \<lparr>d_status = status,
          d_event_type = event_type_for_operation operation_status,
          d_update_task = (task_status \<noteq> ''outcome_unknown'' \<or> status = ''outcome_unknown''),
          d_emit_event = (newly_linked \<or> task_status \<noteq> status),
          d_observation_changed = False\<rparr>)"

definition interaction_observation ::
  "task_view \<Rightarrow> string \<Rightarrow> string \<Rightarrow> string \<Rightarrow> bool \<Rightarrow> string option \<Rightarrow> decision" where
  "interaction_observation task interaction_id state itype newly_linked previous_state =
     (let status = task_status_for_interaction state itype
            (case tv_current_operation_id task of None \<Rightarrow> False | Some i \<Rightarrow> i \<noteq> []);
          event_type = event_type_for_interaction state;
          changed = (newly_linked \<or> previous_state \<noteq> Some state);
          previous_text = (case previous_state of None \<Rightarrow> [] | Some p \<Rightarrow> p);
          event_changed = (newly_linked \<or> event_type_for_interaction previous_text \<noteq> event_type);
          may_update = interaction_may_update_task task interaction_id newly_linked
      in \<lparr>d_status = status, d_event_type = event_type,
          d_update_task = (may_update \<and> changed),
          d_emit_event = (may_update \<and> changed \<and> event_changed),
          d_observation_changed = changed\<rparr>)"

definition plan_task_status :: "string \<Rightarrow> string option \<Rightarrow> string option" where
  "plan_task_status task_status event_type =
     (if task_status \<notin> set active_task_statuses then None
      else if event_type \<in> {Some ''plan.step.waiting'', Some ''plan.authorization.waiting''}
      then Some ''waiting_user'' else Some ''running'')"

datatype transition = Apply | Reuse | Reject

definition terminal_transition :: "string \<Rightarrow> string \<Rightarrow> transition" where
  "terminal_transition task_status target_status =
     (if task_status = target_status then Reuse
      else if task_status \<in> set active_task_statuses then Apply else Reject)"

definition batch_failure_status :: "string \<Rightarrow> int \<Rightarrow> string" where
  "batch_failure_status item_state succeeded_count =
     (if item_state = ''outcome_unknown'' then ''outcome_unknown''
      else if succeeded_count \<noteq> 0 then ''partially_succeeded''
      else if item_state \<in> {''canceled'', ''expired''} then item_state
      else ''failed'')"

definition batch_task_status :: "string \<Rightarrow> string" where
  "batch_task_status = get_default ''active''
     [(''waiting_user'', ''waiting_user''), (''running'', ''running''), (''paused'', ''waiting_user''),
      (''partially_succeeded'', ''partially_succeeded''), (''outcome_unknown'', ''outcome_unknown''),
      (''failed'', ''failed''), (''canceled'', ''canceled''), (''expired'', ''expired''),
      (''succeeded'', ''succeeded'')]"

text \<open>\<open>None\<close> as the error is Python's ValueError for an unknown status.\<close>

definition task_finished_at :: "string \<Rightarrow> time \<Rightarrow> unit + time option" where
  "task_finished_at status now =
     (if status \<notin> set task_statuses then Inl ()
      else Inr (if status \<in> set terminal_task_statuses then Some now else None))"

section \<open>Lemmas\<close>

lemmas status_tables = task_statuses_def active_task_statuses_def terminal_task_statuses_def
  active_batch_states_def batch_states_def

lemma task_terminal_iff: "s \<in> set task_statuses \<Longrightarrow>
   s \<in> set terminal_task_statuses \<longleftrightarrow> s \<notin> set active_task_statuses"
  by (simp add: terminal_task_statuses_def)

lemma task_status_for_operation_in: "task_status_for_operation s \<in> set task_statuses"
  using get_default_in[of "''active''" _ s]
  by (fastforce simp: task_status_for_operation_def task_statuses_def get_default_def
      split: option.splits if_splits)

lemma task_status_for_interaction_in: "task_status_for_interaction s i h \<in> set task_statuses"
  by (simp add: task_status_for_interaction_def task_statuses_def get_default_def)

lemma batch_task_status_in: "batch_task_status s \<in> set task_statuses"
  by (simp add: batch_task_status_def task_statuses_def get_default_def)

section \<open>Properties\<close>

text \<open>
  Every status that a decision writes is a known task status, so that computing the
  finishing time of the task never raises: for an observed operation whose batch, if any, is
  in a known state, for an interaction, for a batch, and for a batch item that failed.
\<close>

theorem decided_statuses_are_known:
  fixes now :: time
  assumes "batch = None \<or> (\<exists>b \<in> set batch_states. batch = Some b)"
  shows "{d_status (operation_observation ts os batch new), d_status (interaction_observation task i st ity new prev),
      batch_task_status b'} \<subseteq> {s. \<exists>fin. task_finished_at s now = Inr fin \<and> (fin = None \<longleftrightarrow> s \<in> set active_task_statuses)}"
proof -
  have known: "\<exists>fin. task_finished_at s now = Inr fin \<and> (fin = None \<longleftrightarrow> s \<in> set active_task_statuses)" if "s \<in> set task_statuses" for s
    using that by (simp add: task_finished_at_def terminal_task_statuses_def)
  have "d_status (operation_observation ts os batch new) \<in> set task_statuses"
  proof (cases batch)
    case None
    then show ?thesis by (simp add: operation_observation_def Let_def task_status_for_operation_in)
  next
    case (Some b)
    then have "b \<in> set batch_states" using assms by auto
    then show ?thesis
      using Some by (auto simp: operation_observation_def Let_def status_tables)
  qed
  moreover have "d_status (interaction_observation task i st ity new prev) \<in> set task_statuses"
    by (simp add: interaction_observation_def Let_def task_status_for_interaction_in)
  ultimately show ?thesis using known batch_task_status_in by auto
qed

theorem decided_statuses_are_known_witness:
  "d_status (operation_observation ''active'' ''running'' (Some ''paused'') False) = ''waiting_user'' \<and>
   (\<exists>fin. task_finished_at ''waiting_user'' 5 = Inr fin)"
proof -
  have 1: "Some ''paused'' = None \<or> (\<exists>b \<in> set batch_states. Some ''paused'' = Some b)"
    by (simp add: batch_states_def)
  have "d_status (operation_observation ''active'' ''running'' (Some ''paused'') False) = ''waiting_user''" by code_simp
  then show ?thesis
    using decided_statuses_are_known[OF 1, where ts = "''active''" and os = "''running''" and new = False and now = 5] by simp blast
qed

text \<open>
  What reopens a task that has ended. A plan event, an interaction and a terminal request
  never move a task that is in a terminal status; only an observed operation may, and when the
  outcome of the task is unknown, not even that, except to confirm that it is unknown.
\<close>

theorem only_operations_reopen_ended_tasks:
  assumes "tv_status task \<in> set terminal_task_statuses"
  shows "plan_task_status (tv_status task) ev = None \<and>
    \<not> d_update_task (interaction_observation task i st ity new prev) \<and>
    \<not> d_emit_event (interaction_observation task i st ity new prev) \<and>
    terminal_transition (tv_status task) target \<noteq> Apply \<and>
    (d_update_task (operation_observation (tv_status task) os batch new) \<longleftrightarrow>
       tv_status task = ''outcome_unknown'' \<longrightarrow>
       d_status (operation_observation (tv_status task) os batch new) = ''outcome_unknown'')"
proof -
  have "tv_status task \<notin> set active_task_statuses" using assms by (simp add: terminal_task_statuses_def)
  then show ?thesis
    using assms
    by (auto simp: plan_task_status_def interaction_observation_def interaction_may_update_task_def
        terminal_transition_def operation_observation_def Let_def)
qed

text \<open>
  A repeated observation is silent. Observing an interaction again in the same state, when it was
  linked before, neither updates the task nor emits an event, and an operation observed again
  with the status the task already shows emits no event.
\<close>

theorem repeated_observations_are_silent:
  "\<not> d_update_task (interaction_observation task i st ity False (Some st)) \<and>
   \<not> d_emit_event (interaction_observation task i st ity False (Some st)) \<and>
   \<not> d_emit_event (operation_observation (d_status (operation_observation ts os batch new)) os batch False)"
  by (simp add: interaction_observation_def operation_observation_def Let_def)

end
