(* ===== verification/Ledger.thy ===== *)
theory Ledger
  imports Prelude
begin

text \<open>
  The contracts that the persistent stores offer to the code that calls them. A store
  executes operations on its tables, one transaction each; its records have an identity and
  a status that moves only along the edges of a state machine. \<open>ledger\<close> states that
  contract and derives what it means for whole sequences of transactions; \<open>one_shot\<close>
  adds the operation that spends a record and derives that a record is spent at most once,
  whatever else is executed before, between and after.
\<close>

section \<open>Sequences of transactions\<close>

locale transactional =
  fixes exec :: "'op \<Rightarrow> 'db \<Rightarrow> 'e + ('r \<times> 'db)"
    and inv :: "'db \<Rightarrow> bool"
  assumes inv_exec: "inv db \<Longrightarrow> exec op db = Inr (r, db') \<Longrightarrow> inv db'"
begin

lemma inv_commit: "inv db \<Longrightarrow> inv (commit (exec op db) db)"
  by (auto simp: commit_def split: sum.splits intro: inv_exec)

lemma inv_run: "inv db \<Longrightarrow> inv (run exec ops db)"
  by (induction ops arbitrary: db) (auto intro: inv_commit)

end

section \<open>Records with a status\<close>

locale ledger = transactional exec inv
  for exec :: "'op \<Rightarrow> 'db \<Rightarrow> 'e + ('r \<times> 'db)" and inv :: "'db \<Rightarrow> bool" +
  fixes status :: "'db \<Rightarrow> 'id \<Rightarrow> 's option"
    and edge :: "'s \<Rightarrow> 's \<Rightarrow> bool"
  assumes status_exec:
    "inv db \<Longrightarrow> exec op db = Inr (r, db') \<Longrightarrow> status db k = Some s \<Longrightarrow>
     \<exists>s'. status db' k = Some s' \<and> edge\<^sup>*\<^sup>* s s'"
begin

lemma status_commit:
  assumes "inv db" and "status db k = Some s"
  shows "\<exists>s'. status (commit (exec op db) db) k = Some s' \<and> edge\<^sup>*\<^sup>* s s'"
proof (cases "exec op db")
  case (Inr p)
  then show ?thesis
    using status_exec[OF assms(1), of op "fst p" "snd p" k s] assms(2) by (cases p) auto
qed (use assms in auto)

lemma status_run:
  assumes "inv db" and "status db k = Some s"
  shows "\<exists>s'. status (run exec ops db) k = Some s' \<and> edge\<^sup>*\<^sup>* s s'"
  using assms
proof (induction ops arbitrary: db s)
  case (Cons op ops)
  from status_commit[OF Cons.prems] obtain s1
    where s1: "status (commit (exec op db) db) k = Some s1" "edge\<^sup>*\<^sup>* s s1"
    by blast
  from Cons.IH[OF inv_commit[OF Cons.prems(1)] s1(1)] s1(2)
  show ?case by (auto intro: rtranclp_trans)
qed auto

lemma final_stuck: "edge\<^sup>*\<^sup>* s s' \<Longrightarrow> (\<And>t. \<not> edge s t) \<Longrightarrow> s' = s"
  by (metis converse_rtranclpE)

lemma final_run:
  "inv db \<Longrightarrow> status db k = Some s \<Longrightarrow> (\<And>t. \<not> edge s t) \<Longrightarrow> status (run exec ops db) k = Some s"
  using status_run final_stuck by metis

end

section \<open>Records that are spent once\<close>

text \<open>
  \<open>spent\<close> holds of the states from which there is no way back to \<open>ready\<close>.
\<close>

locale one_shot = ledger exec inv status edge
  for exec :: "'op \<Rightarrow> 'db \<Rightarrow> 'e + ('r \<times> 'db)" and inv :: "'db \<Rightarrow> bool"
    and status :: "'db \<Rightarrow> 'id \<Rightarrow> 's option" and edge :: "'s \<Rightarrow> 's \<Rightarrow> bool" +
  fixes spends :: "'op \<Rightarrow> 'id \<Rightarrow> bool"
    and ready :: 's and spent :: "'s \<Rightarrow> bool"
  assumes spend_exec:
    "inv db \<Longrightarrow> spends op k \<Longrightarrow> exec op db = Inr (r, db') \<Longrightarrow>
     status db k = Some ready \<and> (\<exists>s. status db' k = Some s \<and> spent s)"
    and spent_closed: "spent s \<Longrightarrow> edge s t \<Longrightarrow> spent t"
    and ready_not_spent: "\<not> spent ready"
begin

lemma spent_stays: "edge\<^sup>*\<^sup>* s t \<Longrightarrow> spent s \<Longrightarrow> spent t"
  by (induction rule: rtranclp_induct) (auto intro: spent_closed)

lemma spent_blocks:
  "inv db \<Longrightarrow> status db k = Some s \<Longrightarrow> spent s \<Longrightarrow> spends op k \<Longrightarrow> \<exists>e. exec op db = Inl e"
  using spend_exec ready_not_spent by (cases "exec op db") fastforce+

lemma no_more_spending:
  "inv db \<Longrightarrow> status db k = Some s \<Longrightarrow> spent s \<Longrightarrow> successes exec (\<lambda>op. spends op k) ops db = 0"
proof (induction ops arbitrary: db s)
  case (Cons op ops)
  show ?case
  proof (cases "exec op db")
    case (Inl e)
    then show ?thesis using Cons by simp
  next
    case (Inr p)
    then obtain r db' where out: "exec op db = Inr (r, db')" by (cases p) auto
    obtain s' where "status db' k = Some s'" "spent s'"
      using status_exec[OF Cons.prems(1) out Cons.prems(2)] spent_stays Cons.prems(3) by blast
    moreover have "\<not> spends op k"
      using spent_blocks[OF Cons.prems, of op] out by auto
    ultimately show ?thesis
      using out Cons.IH[OF inv_exec[OF Cons.prems(1) out]] by simp
  qed
qed simp

theorem spent_at_most_once:
  "inv db \<Longrightarrow> successes exec (\<lambda>op. spends op k) ops db \<le> 1"
proof (induction ops arbitrary: db)
  case (Cons op ops)
  show ?case
  proof (cases "exec op db")
    case (Inl e)
    then show ?thesis using Cons by simp
  next
    case (Inr p)
    then obtain r db' where out: "exec op db = Inr (r, db')" by (cases p) auto
    note inv' = inv_exec[OF Cons.prems out]
    show ?thesis
    proof (cases "spends op k")
      case True
      then obtain s where "status db' k = Some s" "spent s"
        using spend_exec[OF Cons.prems True out] by blast
      then show ?thesis using no_more_spending[OF inv'] out by simp
    next
      case False
      then show ?thesis using Cons.IH[OF inv'] out by simp
    qed
  qed
qed simp

end

section \<open>Work that is metered\<close>

text \<open>
  Work that is metered: every operation that works on a record raises its meter, no operation lowers it, and it is bounded.
\<close>

fun worked :: "('op \<Rightarrow> 'db \<Rightarrow> 'e + ('r \<times> 'db)) \<Rightarrow> ('op \<Rightarrow> 'r \<Rightarrow> bool) \<Rightarrow> 'op list \<Rightarrow> 'db \<Rightarrow> nat" where
  "worked exec p [] db = 0"
| "worked exec p (op # ops) db =
     (case exec op db of
        Inl _ \<Rightarrow> worked exec p ops db
      | Inr (r, db') \<Rightarrow> (if p op r then 1 else 0) + worked exec p ops db')"

locale metered = transactional exec inv
  for exec :: "'op \<Rightarrow> 'db \<Rightarrow> 'e + ('r \<times> 'db)" and inv :: "'db \<Rightarrow> bool" +
  fixes meter :: "'db \<Rightarrow> 'id \<Rightarrow> nat" and works :: "'op \<Rightarrow> 'r \<Rightarrow> 'id \<Rightarrow> bool" and bound :: nat
  assumes meter_exec: "inv db \<Longrightarrow> exec op db = Inr (r, db') \<Longrightarrow> meter db k + (if works op r k then 1 else 0) \<le> meter db' k"
    and meter_bound: "inv db \<Longrightarrow> meter db k \<le> bound"
begin

lemma metered_work: "inv db \<Longrightarrow> meter db k + worked exec (\<lambda>op r. works op r k) ops db \<le> bound"
proof (induction ops arbitrary: db)
  case (Cons op ops)
  show ?case
  proof (cases "exec op db")
    case (Inr p)
    then obtain r db' where e: "exec op db = Inr (r, db')" by (cases p) auto
    show ?thesis using Cons.IH[OF inv_exec[OF Cons.prems e]] meter_exec[OF Cons.prems e, of k] e by auto
  qed (use Cons in simp)
qed (use meter_bound in simp)

end

end
