(* ===== verification/Urls.thy ===== *)
theory Urls
  imports PyValues
begin

text \<open>
  What the stores use of the Python standard library on texts: \<open>urllib.parse.urlparse\<close>,
  \<open>hmac.compare_digest\<close> and the SHA-256 digests. The digest functions and the test
  that a bracketed host is an IP literal are members of \<open>py_env\<close>, an argument of the
  operations that use them.
\<close>

record py_env =
  sha_text :: "string \<Rightarrow> string"
  sha_json :: "json \<Rightarrow> string"
  ip_literal :: "string \<Rightarrow> bool"

text \<open>\<open>_token_hash\<close> and \<open>_json_hash\<close> of the stores.\<close>

definition token_hash :: "py_env \<Rightarrow> string \<Rightarrow> string" where
  "token_hash env t = sha_text env t"

definition json_hash :: "py_env \<Rightarrow> json \<Rightarrow> string" where
  "json_hash env v = ''sha256:'' @ sha_json env v"

definition is_ascii :: "string \<Rightarrow> bool" where
  "is_ascii s = list_all (\<lambda>c. (of_char c :: nat) < 128) s"

text \<open>\<open>hmac.compare_digest\<close> on two texts; \<open>None\<close> is its TypeError for a text that is not ASCII.\<close>

definition compare_digest :: "string \<Rightarrow> string \<Rightarrow> bool option" where
  "compare_digest a b = (if is_ascii a \<and> is_ascii b then Some (a = b) else None)"

record parsed_url =
  pu_scheme :: string
  pu_netloc :: string
  pu_path :: string
  pu_query :: string
  pu_fragment :: string

definition scheme_char :: "char \<Rightarrow> bool" where
  "scheme_char c = (let n = of_char c :: nat in
     (48 \<le> n \<and> n \<le> 57) \<or> (65 \<le> n \<and> n \<le> 90) \<or> (97 \<le> n \<and> n \<le> 122) \<or> c \<in> set ''+-.'')"

definition ascii_letter :: "char \<Rightarrow> bool" where
  "ascii_letter c = (let n = of_char c :: nat in (65 \<le> n \<and> n \<le> 90) \<or> (97 \<le> n \<and> n \<le> 122))"

definition url_clean :: "string \<Rightarrow> string" where
  "url_clean s = filter (\<lambda>c. (of_char c :: nat) \<notin> {9, 10, 13}) (dropWhile (\<lambda>c. (of_char c :: nat) \<le> 32) s)"

definition take_scheme :: "string \<Rightarrow> string \<times> string" where
  "take_scheme url =
     (case split_first '':'' url of
        Some (c # cs, rest) \<Rightarrow>
          if ascii_letter c \<and> list_all scheme_char (c # cs) then (py_lower (c # cs), rest) else ([], url)
      | _ \<Rightarrow> ([], url))"

definition take_netloc :: "string \<Rightarrow> string \<times> string" where
  "take_netloc url =
     (if prefix ''//'' url then
        (takeWhile (\<lambda>c. c \<notin> set ''/?#'') (drop 2 url), dropWhile (\<lambda>c. c \<notin> set ''/?#'') (drop 2 url))
      else ([], url))"

definition split_or_all :: "string \<Rightarrow> string \<Rightarrow> string \<times> string" where
  "split_or_all m s = (case split_first m s of None \<Rightarrow> (s, []) | Some p \<Rightarrow> p)"

text \<open>The path without the parameters of its last segment, which \<open>urlparse\<close> splits off.\<close>

definition drop_params :: "string \<Rightarrow> string" where
  "drop_params path =
     (case split_last ''/'' path of
        None \<Rightarrow> fst (split_or_all '';'' path)
      | Some (a, b) \<Rightarrow> a @ ''/'' @ fst (split_or_all '';'' b))"

definition uses_params :: "string \<Rightarrow> bool" where
  "uses_params s \<longleftrightarrow> s \<in> set [[], ''ftp'', ''hdl'', ''prospero'', ''http'', ''imap'', ''https'', ''shttp'',
     ''rtsp'', ''rtsps'', ''rtspu'', ''sip'', ''sips'', ''mms'', ''sftp'', ''tel'']"

definition brackets_ok :: "py_env \<Rightarrow> string \<Rightarrow> bool" where
  "brackets_ok env netloc =
     (if CHR ''['' \<in> set netloc \<and> CHR '']'' \<in> set netloc
      then ip_literal env (fst (split_or_all '']'' (snd (split_or_all ''['' netloc))))
      else CHR ''['' \<notin> set netloc \<and> CHR '']'' \<notin> set netloc)"

text \<open>\<open>None\<close> is the ValueError of \<open>urlparse\<close>.\<close>

definition urlparse :: "py_env \<Rightarrow> string \<Rightarrow> parsed_url option" where
  "urlparse env value =
     (let (scheme, rest) = take_scheme (url_clean value);
          (netloc, rest') = take_netloc rest;
          (before_fragment, fragment) = split_or_all ''#'' rest';
          (path, query) = split_or_all ''?'' before_fragment
      in if \<not> brackets_ok env netloc then None
         else Some \<lparr>pu_scheme = scheme, pu_netloc = netloc,
                    pu_path = (if uses_params scheme then drop_params path else path),
                    pu_query = query, pu_fragment = fragment\<rparr>)"

text \<open>\<open>parsed.username or parsed.password\<close> as a truth value.\<close>

definition has_credentials :: "parsed_url \<Rightarrow> bool" where
  "has_credentials u =
     (case split_last ''@'' (pu_netloc u) of
        None \<Rightarrow> False
      | Some (userinfo, _) \<Rightarrow> userinfo \<noteq> [] \<and> userinfo \<noteq> '':'')"

definition rstrip_slash :: "string \<Rightarrow> string" where
  "rstrip_slash s = rev (dropWhile (\<lambda>c. c = CHR ''/'') (rev s))"

definition is_http :: "parsed_url \<Rightarrow> bool" where
  "is_http u \<longleftrightarrow> pu_scheme u \<in> {''http'', ''https''} \<and> pu_netloc u \<noteq> []"

definition normal_url :: "parsed_url \<Rightarrow> string" where
  "normal_url u = py_lower (pu_scheme u) @ ''://'' @ py_lower (pu_netloc u)"

text \<open>
  \<open>_validate_card_base_url\<close> of the authorization and of the field submission store;
  \<open>None\<close> is the ValueError.
\<close>

definition validate_card_base_url :: "py_env \<Rightarrow> string \<Rightarrow> string option" where
  "validate_card_base_url env value =
     (case urlparse env value of
        None \<Rightarrow> None
      | Some u \<Rightarrow>
          if \<not> is_http u then None
          else if has_credentials u \<or> pu_query u \<noteq> [] \<or> pu_fragment u \<noteq> [] then None
          else Some (normal_url u @ rstrip_slash (pu_path u)))"

text \<open>The check of the CSRF token against the cookie and the card session, shared by the two card stores.\<close>

definition csrf_ok :: "string \<Rightarrow> string \<Rightarrow> string \<Rightarrow> string \<Rightarrow> bool option" where
  "csrf_ok token cookie stored supplied =
     (if cookie = [] then Some False
      else case compare_digest token cookie of
             None \<Rightarrow> None
           | Some False \<Rightarrow> Some False
           | Some True \<Rightarrow> compare_digest stored supplied)"

definition is_object :: "json \<Rightarrow> bool" where
  "is_object v = (case v of JDict _ \<Rightarrow> True | _ \<Rightarrow> False)"

section \<open>Lemmas\<close>

lemma rstrip_slash_last: "rstrip_slash s \<noteq> [] \<Longrightarrow> last (rstrip_slash s) \<noteq> CHR ''/''"
  by (auto simp: rstrip_slash_def last_rev hd_dropWhile[where P = "\<lambda>c. c = CHR ''/''"])

lemma split_first_fresh:
  "c \<notin> set a \<Longrightarrow> split_first (c # m) (a @ (c # m) @ b) = Some (a, b)"
  by (induction a) auto

lemma split_last_fresh:
  assumes "c \<notin> set b"
  shows "split_last (ms @ [c]) (a @ ms @ c # b) = Some (a, b)"
  using split_first_fresh[of c "rev b" "rev ms" "rev a"] assms
  by (simp add: split_last_def)

lemma compare_digest_True [outcome_simps]:
  "compare_digest a b = Some True \<longleftrightarrow> a = b \<and> is_ascii a"
  by (auto simp: compare_digest_def)

end
