(* ===== verification/AuthChallenges.thy ===== *)
theory AuthChallenges
  imports Ledger Urls
begin

text \<open>
  The authentication challenges of \<open>agentbridge/core/auth_challenges.py\<close>: a login form of
  a legacy system (or an interactive browser login) that a user completes on a card. A challenge
  is claimed once with the CSRF token of its card, then completed or failed once.
\<close>

section \<open>Table\<close>

datatype ac_state = AcPending | AcProcessing | AcSucceeded | AcFailed | AcExpired | AcSuperseded

record ac_field =
  af_name :: string
  af_label :: string
  af_input_type :: string
  af_autocomplete :: string
  af_required :: bool

record ac_row =
  ac_id :: string
  ac_type :: string
  ac_user :: string
  ac_system :: string
  ac_system_name :: string
  ac_session :: string
  ac_principal :: "string option"
  ac_origin :: string
  ac_fingerprint :: string
  ac_nonce :: string
  ac_fields :: "ac_field list"
  ac_card_url :: string
  ac_csrf_hash :: "string option"
  ac_state :: ac_state
  ac_error :: "(string \<times> string) option"
  ac_result :: "json option"
  ac_created_at :: time
  ac_updated_at :: time
  ac_expires_at :: time
  ac_claimed_at :: "time option"
  ac_completed_at :: "time option"

type_synonym ac_db = "ac_row list"

datatype ac_error = AcValueError | AcTypeError | AcNotFound | AcStateError | AcAccessDenied | AcSqlIntegrityError

text \<open>\<open>_challenge_from_row\<close> drops the CSRF column.\<close>

definition challenge_from_row :: "ac_row \<Rightarrow> ac_row" where
  "challenge_from_row row = row\<lparr>ac_csrf_hash := None\<rparr>"

definition ac_active :: "ac_row \<Rightarrow> bool" where
  "ac_active r \<longleftrightarrow> ac_state r \<in> {AcPending, AcProcessing}"

section \<open>Validation of a request\<close>

text \<open>
  A field as the caller gives it: each member absent or a text; \<open>required\<close> absent or a
  value of which only the truth counts.
\<close>

record ac_field_in =
  fi_name :: "string option"
  fi_label :: "string option"
  fi_input_type :: "string option"
  fi_autocomplete :: "string option"
  fi_required :: "bool option"

definition or_default :: "string option \<Rightarrow> string \<Rightarrow> string" where
  "or_default v d = (case v of None \<Rightarrow> d | Some s \<Rightarrow> if s = [] then d else s)"

definition ascii_lower :: "char \<Rightarrow> bool" where
  "ascii_lower c = (let n = of_char c :: nat in 97 \<le> n \<and> n \<le> 122)"

text \<open>\<open>re.fullmatch("[a-z][a-z0-9_]{0,63}", name)\<close>\<close>

definition field_name_ok :: "string \<Rightarrow> bool" where
  "field_name_ok name = (case name of [] \<Rightarrow> False
     | c # cs \<Rightarrow> ascii_lower c \<and> length cs \<le> 63 \<and>
         list_all (\<lambda>d. ascii_lower d \<or> is_digit_char d \<or> d = CHR ''_'') cs)"

fun ac_normalize_fields :: "string list \<Rightarrow> ac_field_in list \<Rightarrow> ac_error + ac_field list" where
  "ac_normalize_fields seen [] = Inr []"
| "ac_normalize_fields seen (f # fs) =
     (let name = or_default (fi_name f) []; input_type = or_default (fi_input_type f) [] in
      if \<not> field_name_ok name \<or> name \<in> set seen then Inl AcValueError
      else if input_type \<notin> {''text'', ''password'', ''otp''} then Inl AcValueError
      else ebind (ac_normalize_fields (name # seen) fs) (\<lambda>rest.
        Inr (\<lparr>af_name = name, af_label = take 80 (or_default (fi_label f) name),
               af_input_type = input_type, af_autocomplete = take 80 (or_default (fi_autocomplete f) ''off''),
               af_required = (case fi_required f of None \<Rightarrow> True | Some b \<Rightarrow> b)\<rparr> # rest)))"

definition ac_validate_fields :: "ac_field_in list \<Rightarrow> bool \<Rightarrow> ac_error + ac_field list" where
  "ac_validate_fields fs allow_empty =
     (if fs = [] \<and> \<not> allow_empty then Inl AcValueError else ac_normalize_fields [] fs)"

definition ac_validate_origin :: "py_env \<Rightarrow> string \<Rightarrow> ac_error + string" where
  "ac_validate_origin env value =
     (case urlparse env value of
        None \<Rightarrow> Inl AcValueError
      | Some u \<Rightarrow>
          if \<not> is_http u then Inl AcValueError
          else if pu_path u \<notin> {[], ''/''} \<or> pu_query u \<noteq> [] \<or> pu_fragment u \<noteq> [] then Inl AcValueError
          else Inr (normal_url u))"

definition ac_validate_card_base_url :: "py_env \<Rightarrow> string \<Rightarrow> ac_error + string" where
  "ac_validate_card_base_url env value =
     (case urlparse env value of
        None \<Rightarrow> Inl AcValueError
      | Some u \<Rightarrow>
          if \<not> is_http u then Inl AcValueError
          else if pu_query u \<noteq> [] \<or> pu_fragment u \<noteq> [] then Inl AcValueError
          else Inr (normal_url u @ rstrip_slash (pu_path u)))"

section \<open>Reading and expiring\<close>

definition ac_select :: "string \<Rightarrow> ac_db \<Rightarrow> ac_error + ac_row" where
  "ac_select i db = (case tbl_get ac_id i db of None \<Rightarrow> Inl AcNotFound | Some r \<Rightarrow> Inr r)"

definition ac_expire_row :: "time \<Rightarrow> ac_row \<Rightarrow> ac_row" where
  "ac_expire_row now r = r\<lparr>ac_state := AcExpired, ac_csrf_hash := None,
     ac_error := Some (''CHALLENGE_EXPIRED'', ''Authentication challenge expired.''),
     ac_completed_at := Some now, ac_updated_at := now\<rparr>"

definition ac_expire_if_needed :: "time \<Rightarrow> ac_row \<Rightarrow> ac_db \<Rightarrow> ac_error + (ac_row \<times> ac_db)" where
  "ac_expire_if_needed now row db =
     (if ac_active row \<and> ac_expires_at row \<le> now then
        let db' = tbl_update (\<lambda>r. ac_id r = ac_id row) (ac_expire_row now) db
        in ebind (ac_select (ac_id row) db') (\<lambda>r. Inr (r, db'))
      else Inr (row, db))"

definition ac_current :: "time \<Rightarrow> string \<Rightarrow> ac_db \<Rightarrow> ac_error + (ac_row \<times> ac_db)" where
  "ac_current now i db = ebind (ac_select i db) (\<lambda>row. ac_expire_if_needed now row db)"

section \<open>Operations\<close>

record ac_request =
  aq_user :: string
  aq_system :: string
  aq_session :: string
  aq_origin :: string
  aq_fingerprint :: string
  aq_nonce :: "string option"
  aq_fields :: "ac_field_in list"
  aq_card_base_url :: string
  aq_system_name :: string
  aq_principal :: "string option"
  aq_ttl_seconds :: int
  aq_type :: string

definition text_or_empty :: "string option \<Rightarrow> string" where
  "text_or_empty v = (case v of None \<Rightarrow> [] | Some s \<Rightarrow> s)"

text \<open>\<open>_challenge_contract_matches\<close>; the card address is compared up to its last segment.\<close>

definition challenge_contract_matches ::
  "ac_request \<Rightarrow> string \<Rightarrow> ac_field list \<Rightarrow> string \<Rightarrow> ac_row \<Rightarrow> bool" where
  "challenge_contract_matches req origin fs base row \<longleftrightarrow>
     ac_type row = aq_type req \<and> ac_user row = aq_user req \<and> ac_system row = aq_system req \<and>
     ac_system_name row = aq_system_name req \<and>
     text_or_empty (ac_principal row) = text_or_empty (aq_principal req) \<and>
     ac_origin row = origin \<and> ac_fingerprint row = aq_fingerprint req \<and> ac_fields row = fs \<and>
     (case split_last ''/'' (ac_card_url row) of None \<Rightarrow> ac_card_url row | Some (a, _) \<Rightarrow> a) = base @ ''/auth''"

definition ac_new_row ::
  "time \<Rightarrow> string \<Rightarrow> string \<Rightarrow> ac_request \<Rightarrow> string \<Rightarrow> ac_field list \<Rightarrow> string \<Rightarrow> ac_row" where
  "ac_new_row now token nonce_token req origin fs base =
     \<lparr>ac_id = token, ac_type = aq_type req, ac_user = aq_user req, ac_system = aq_system req,
      ac_system_name = aq_system_name req, ac_session = aq_session req, ac_principal = aq_principal req,
      ac_origin = origin, ac_fingerprint = aq_fingerprint req,
      ac_nonce = or_default (aq_nonce req) nonce_token, ac_fields = fs,
      ac_card_url = base @ ''/auth/'' @ token, ac_csrf_hash = None, ac_state = AcPending,
      ac_error = None, ac_result = None, ac_created_at = now, ac_updated_at = now,
      ac_expires_at = now + aq_ttl_seconds req * 1000000, ac_claimed_at = None, ac_completed_at = None\<rparr>"

text \<open>
  The active challenges of the session are read newest first; each is expired when due, with a
  clock reading of its own: \<open>ticks n\<close> is the one taken for the row in position \<open>n\<close>.
\<close>

fun ac_expire_all :: "(nat \<Rightarrow> time) \<Rightarrow> nat \<Rightarrow> ac_row list \<Rightarrow> ac_db \<Rightarrow> ac_error + (ac_row list \<times> ac_db)" where
  "ac_expire_all ticks n [] db = Inr ([], db)"
| "ac_expire_all ticks n (row # rows) db =
     ebind (ac_expire_if_needed (ticks n) row db) (\<lambda>(row', db').
     ebind (ac_expire_all ticks (Suc n) rows db') (\<lambda>(rows', db''). Inr (row' # rows', db'')))"

definition ac_session_rows :: "string \<Rightarrow> ac_db \<Rightarrow> ac_row list" where
  "ac_session_rows session db =
     sort_key (\<lambda>r. - ac_created_at r) (filter (\<lambda>r. ac_session r = session \<and> ac_active r) db)"

definition ac_supersede_pending :: "time \<Rightarrow> string \<Rightarrow> ac_db \<Rightarrow> ac_db" where
  "ac_supersede_pending now session =
     tbl_update (\<lambda>r. ac_session r = session \<and> ac_state r = AcPending)
       (\<lambda>r. r\<lparr>ac_state := AcSuperseded, ac_updated_at := now, ac_completed_at := Some now\<rparr>)"

definition ac_store ::
  "bool \<Rightarrow> time \<Rightarrow> (nat \<Rightarrow> time) \<Rightarrow> string \<Rightarrow> string \<Rightarrow> ac_request \<Rightarrow> string \<Rightarrow> string \<Rightarrow> ac_field list
   \<Rightarrow> ac_db \<Rightarrow> ac_error + ((ac_row \<times> bool) \<times> ac_db)" where
  "ac_store reuse_active now ticks token nonce_token req origin base fs db =
     ebind (ac_expire_all ticks 0 (ac_session_rows (aq_session req) db) db) (\<lambda>(rows, db1).
     let active = filter ac_active rows in
     (case (if reuse_active then List.find (challenge_contract_matches req origin fs base) active else None) of
        Some row \<Rightarrow> Inr ((challenge_from_row row, True), db1)
      | None \<Rightarrow>
          if list_ex (\<lambda>r. ac_state r = AcProcessing) active then Inl AcStateError
          else (case tbl_insert ac_id (ac_new_row now token nonce_token req origin fs base)
                       (ac_supersede_pending now (aq_session req) db1) of
                  None \<Rightarrow> Inl AcSqlIntegrityError
                | Some db2 \<Rightarrow> ebind (ac_select token db2) (\<lambda>r. Inr ((challenge_from_row r, False), db2)))))"

definition ac_create ::
  "py_env \<Rightarrow> bool \<Rightarrow> time \<Rightarrow> (nat \<Rightarrow> time) \<Rightarrow> string \<Rightarrow> string \<Rightarrow> ac_request \<Rightarrow> ac_db
   \<Rightarrow> ac_error + ((ac_row \<times> bool) \<times> ac_db)" where
  "ac_create env reuse_active now ticks token nonce_token req db =
     ebind (raise_if (aq_user req = [] \<or> aq_system req = [] \<or> aq_session req = []) AcValueError) (\<lambda>_.
     ebind (ac_validate_origin env (aq_origin req)) (\<lambda>origin.
     ebind (ac_validate_card_base_url env (aq_card_base_url req)) (\<lambda>base.
     ebind (raise_if (aq_type req \<notin> {''legacy_form_login'', ''interactive_browser_login''}) AcValueError) (\<lambda>_.
     ebind (ac_validate_fields (aq_fields req) (aq_type req = ''interactive_browser_login'')) (\<lambda>fs.
     ebind (raise_if (aq_fingerprint req = []) AcValueError) (\<lambda>_.
     ebind (raise_if (aq_ttl_seconds req < 30 \<or> aq_ttl_seconds req > 900) AcValueError) (\<lambda>_.
     ac_store reuse_active now ticks token nonce_token req origin base fs db)))))))"

definition ac_get :: "time \<Rightarrow> string \<Rightarrow> ac_db \<Rightarrow> ac_error + (ac_row \<times> ac_db)" where
  "ac_get now i db = ebind (ac_current now i db) (\<lambda>(row, db'). Inr (challenge_from_row row, db'))"

definition ac_issue_csrf ::
  "py_env \<Rightarrow> string \<Rightarrow> time \<Rightarrow> time \<Rightarrow> string \<Rightarrow> ac_db \<Rightarrow> ac_error + (string \<times> ac_db)" where
  "ac_issue_csrf env token now now2 i db =
     ebind (ac_current now2 i db) (\<lambda>(row, db1).
     if ac_state row \<noteq> AcPending then Inl AcStateError
     else Inr (token, tbl_update (\<lambda>r. ac_id r = i)
            (\<lambda>r. r\<lparr>ac_csrf_hash := Some (token_hash env token), ac_updated_at := now\<rparr>) db1))"

definition ac_claim ::
  "py_env \<Rightarrow> time \<Rightarrow> time \<Rightarrow> string \<Rightarrow> string \<Rightarrow> string \<Rightarrow> ac_db \<Rightarrow> ac_error + (ac_row \<times> ac_db)" where
  "ac_claim env now now2 i csrf_token csrf_cookie db =
     ebind (ac_current now2 i db) (\<lambda>(row, db1).
     if ac_state row \<noteq> AcPending then Inl AcStateError
     else let expected = text_or_empty (ac_csrf_hash row);
              supplied = (if csrf_token = [] then [] else token_hash env csrf_token)
     in if expected = [] then Inl AcAccessDenied
     else (case csrf_ok csrf_token csrf_cookie expected supplied of
             None \<Rightarrow> Inl AcTypeError
           | Some False \<Rightarrow> Inl AcAccessDenied
           | Some True \<Rightarrow>
               if tbl_count (\<lambda>r. ac_id r = i \<and> ac_state r = AcPending) db1 \<noteq> 1 then Inl AcStateError
               else let db2 = tbl_update (\<lambda>r. ac_id r = i \<and> ac_state r = AcPending)
                      (\<lambda>r. r\<lparr>ac_state := AcProcessing, ac_csrf_hash := None, ac_claimed_at := Some now,
                              ac_updated_at := now\<rparr>) db1
               in ebind (ac_select i db2) (\<lambda>r. Inr (challenge_from_row r, db2))))"

definition ac_finish ::
  "time \<Rightarrow> string \<Rightarrow> ac_state \<Rightarrow> json option \<Rightarrow> (string \<times> string) option \<Rightarrow> ac_db \<Rightarrow> ac_error + (ac_row \<times> ac_db)" where
  "ac_finish now i state result error db =
     ebind (ac_select i db) (\<lambda>row.
     if ac_state row \<noteq> AcProcessing then Inl AcStateError
     else let db' = tbl_update (\<lambda>r. ac_id r = i)
                 (\<lambda>r. r\<lparr>ac_state := state, ac_result := map_option canon result, ac_error := error,
                         ac_completed_at := Some now, ac_updated_at := now\<rparr>) db
          in ebind (ac_select i db') (\<lambda>r. Inr (challenge_from_row r, db')))"

definition ac_complete :: "time \<Rightarrow> string \<Rightarrow> json \<Rightarrow> ac_db \<Rightarrow> ac_error + (ac_row \<times> ac_db)" where
  "ac_complete now i result db = ac_finish now i AcSucceeded (Some result) None db"

definition ac_fail :: "time \<Rightarrow> string \<Rightarrow> string \<Rightarrow> string \<Rightarrow> ac_db \<Rightarrow> ac_error + (ac_row \<times> ac_db)" where
  "ac_fail now i code msg db =
     (if code = [] \<or> msg = [] then Inl AcValueError
      else ac_finish now i AcFailed None (Some (code, msg)) db)"

section \<open>The store as a transition system\<close>

datatype ac_op =
    AcCreate bool time "nat \<Rightarrow> time" string string ac_request
  | AcGet time string
  | AcIssueCsrf string time time string
  | AcClaim time time string string string
  | AcComplete time string json
  | AcFail time string string string

datatype ac_out = AcChallenge ac_row | AcCreated ac_row bool | AcToken string

definition ac_wrap :: "('a \<Rightarrow> ac_out) \<Rightarrow> ac_error + ('a \<times> ac_db) \<Rightarrow> ac_error + (ac_out \<times> ac_db)" where
  "ac_wrap f out = ebind out (\<lambda>(a, db). Inr (f a, db))"

fun ac_exec :: "py_env \<Rightarrow> ac_op \<Rightarrow> ac_db \<Rightarrow> ac_error + (ac_out \<times> ac_db)" where
  "ac_exec env (AcCreate reuse now ticks token nonce_token req) db =
     ac_wrap (\<lambda>(r, b). AcCreated r b) (ac_create env reuse now ticks token nonce_token req db)"
| "ac_exec env (AcGet now i) db = ac_wrap AcChallenge (ac_get now i db)"
| "ac_exec env (AcIssueCsrf token now now2 i) db = ac_wrap AcToken (ac_issue_csrf env token now now2 i db)"
| "ac_exec env (AcClaim now now2 i token cookie) db = ac_wrap AcChallenge (ac_claim env now now2 i token cookie db)"
| "ac_exec env (AcComplete now i result) db = ac_wrap AcChallenge (ac_complete now i result db)"
| "ac_exec env (AcFail now i code msg) db = ac_wrap AcChallenge (ac_fail now i code msg db)"

section \<open>Lemmas\<close>

definition ac_contract :: "ac_row \<Rightarrow> string list \<times> string option \<times> ac_field list \<times> time \<times> time" where
  "ac_contract r = ([ac_type r, ac_user r, ac_system r, ac_system_name r, ac_session r, ac_origin r,
      ac_fingerprint r, ac_nonce r, ac_card_url r], ac_principal r, ac_fields r, ac_created_at r, ac_expires_at r)"

inductive ac_edge :: "ac_state \<Rightarrow> ac_state \<Rightarrow> bool" where
  claim: "ac_edge AcPending AcProcessing"
| expire_pending: "ac_edge AcPending AcExpired"
| supersede: "ac_edge AcPending AcSuperseded"
| complete: "ac_edge AcProcessing AcSucceeded"
| fail: "ac_edge AcProcessing AcFailed"
| expire_processing: "ac_edge AcProcessing AcExpired"

inductive_simps ac_edge_simps [simp]: "ac_edge s AcPending" "ac_edge s AcProcessing"
  "ac_edge AcSucceeded s" "ac_edge AcFailed s" "ac_edge AcExpired s" "ac_edge AcSuperseded s"

definition ac_row_ok :: "ac_row \<Rightarrow> bool" where
  "ac_row_ok r \<longleftrightarrow>
     ac_created_at r + 30000000 \<le> ac_expires_at r \<and> ac_expires_at r \<le> ac_created_at r + 900000000 \<and>
     (ac_state r = AcPending \<longrightarrow> ac_claimed_at r = None) \<and>
     (ac_state r \<in> {AcProcessing, AcSucceeded, AcFailed} \<longrightarrow> ac_csrf_hash r = None \<and> ac_claimed_at r \<noteq> None) \<and>
     (ac_completed_at r = None \<longleftrightarrow> ac_active r) \<and>
     (ac_result r \<noteq> None \<longleftrightarrow> ac_state r = AcSucceeded) \<and>
     (ac_error r \<noteq> None \<longleftrightarrow> ac_state r \<in> {AcFailed, AcExpired})"

text \<open>What an operation may do to a row: the contract stands, the state moves, the columns stay consistent.\<close>

definition ac_step :: "ac_row \<Rightarrow> ac_row \<Rightarrow> bool" where
  "ac_step r r' \<longleftrightarrow> ac_id r' = ac_id r \<and> ac_contract r' = ac_contract r \<and>
     ac_edge\<^sup>*\<^sup>* (ac_state r) (ac_state r') \<and> (ac_row_ok r \<longrightarrow> ac_row_ok r')"

definition ac_rewrites :: "ac_db \<Rightarrow> ac_db \<Rightarrow> bool" where
  "ac_rewrites db db' \<longleftrightarrow> list_all2 ac_step db db'"

definition ac_one_active :: "ac_db \<Rightarrow> bool" where
  "ac_one_active db \<longleftrightarrow> (\<forall>r \<in> set db. \<forall>r' \<in> set db.
     ac_active r \<longrightarrow> ac_active r' \<longrightarrow> ac_session r = ac_session r' \<longrightarrow> ac_id r = ac_id r')"

definition ac_inv :: "ac_db \<Rightarrow> bool" where
  "ac_inv db \<longleftrightarrow> distinct (map ac_id db) \<and> ac_one_active db \<and> (\<forall>r \<in> set db. ac_row_ok r)"

lemma ac_step_refl [simp]: "ac_step r r"
  by (simp add: ac_step_def)

lemma ac_step_session: "ac_step r r' \<Longrightarrow> ac_session r' = ac_session r"
  by (simp add: ac_step_def ac_contract_def)

lemma ac_edges_active: "ac_edge\<^sup>*\<^sup>* s t \<Longrightarrow> t \<in> {AcPending, AcProcessing} \<Longrightarrow> s \<in> {AcPending, AcProcessing}"
  by (induction rule: converse_rtranclp_induct) (auto elim: ac_edge.cases)

lemma ac_step_active: "ac_step r r' \<Longrightarrow> ac_active r' \<Longrightarrow> ac_active r"
  using ac_edges_active unfolding ac_step_def ac_active_def by blast

lemma ac_step_edge:
  "ac_id r' = ac_id r \<Longrightarrow> ac_contract r' = ac_contract r \<Longrightarrow> ac_edge (ac_state r) (ac_state r') \<Longrightarrow>
   (ac_row_ok r \<Longrightarrow> ac_row_ok r') \<Longrightarrow> ac_step r r'"
  by (auto simp: ac_step_def)

lemma ac_rewrites_refl [simp]: "ac_rewrites db db"
  by (simp add: ac_rewrites_def list_all2_refl)

lemma ac_step_trans: "ac_step r r' \<Longrightarrow> ac_step r' r'' \<Longrightarrow> ac_step r r''"
  unfolding ac_step_def by auto

lemma ac_rewrites_trans: "ac_rewrites a b \<Longrightarrow> ac_rewrites b c \<Longrightarrow> ac_rewrites a c"
  unfolding ac_rewrites_def by (rule list_all2_trans[of ac_step ac_step ac_step]) (rule ac_step_trans)

lemma ac_rewrites_update:
  "(\<And>r. r \<in> set db \<Longrightarrow> P r \<Longrightarrow> ac_step r (f r)) \<Longrightarrow> ac_rewrites db (tbl_update P f db)"
  by (simp add: ac_rewrites_def tbl_update_def list_all2_map2 list_all2_same)

lemma ac_rewrites_ids: "ac_rewrites db db' \<Longrightarrow> map ac_id db' = map ac_id db"
  unfolding ac_rewrites_def by (induction rule: list_all2_induct) (simp_all add: ac_step_def)

lemma ac_rewrites_get:
  "ac_rewrites db db' \<Longrightarrow> tbl_get ac_id k db = Some r \<Longrightarrow> \<exists>r'. tbl_get ac_id k db' = Some r' \<and> ac_step r r'"
  unfolding ac_rewrites_def
  by (induction rule: list_all2_induct) (auto simp: ac_step_def split: if_splits)

lemma ac_rewrites_mem: "ac_rewrites db db' \<Longrightarrow> r' \<in> set db' \<Longrightarrow> \<exists>r \<in> set db. ac_step r r'"
  unfolding ac_rewrites_def list_all2_conv_all_nth in_set_conv_nth[of r'] by (metis nth_mem)

lemma ac_rewrites_inv:
  assumes inv: "ac_inv db" and rw: "ac_rewrites db db'"
  shows "ac_inv db'"
proof -
  have "ac_id r' = ac_id s'"
    if "r' \<in> set db'" "s' \<in> set db'" "ac_active r'" "ac_active s'" "ac_session r' = ac_session s'" for r' s'
  proof -
    from ac_rewrites_mem[OF rw that(1)] obtain r where r: "r \<in> set db" "ac_step r r'" by blast
    from ac_rewrites_mem[OF rw that(2)] obtain s where s: "s \<in> set db" "ac_step s s'" by blast
    have "ac_id r = ac_id s"
      using inv r s that ac_step_active[OF r(2)] ac_step_active[OF s(2)] ac_step_session[OF r(2)] ac_step_session[OF s(2)]
      unfolding ac_inv_def ac_one_active_def by metis
    then show ?thesis using r(2) s(2) by (simp add: ac_step_def)
  qed
  then have "ac_one_active db'" unfolding ac_one_active_def by blast
  moreover have "\<forall>r' \<in> set db'. ac_row_ok r'"
    using inv ac_rewrites_mem[OF rw] unfolding ac_inv_def ac_step_def by blast
  ultimately show ?thesis
    using inv by (simp add: ac_inv_def ac_rewrites_ids[OF rw])
qed

lemma ac_select_Inr [outcome_simps]: "ac_select i db = Inr r \<longleftrightarrow> tbl_get ac_id i db = Some r"
  by (simp add: ac_select_def split: option.splits)

lemma ac_row_unique: "ac_inv db \<Longrightarrow> r \<in> set db \<Longrightarrow> s \<in> set db \<Longrightarrow> ac_id r = ac_id s \<Longrightarrow> r = s"
  using distinct_same_key[of ac_id db r s] by (simp add: ac_inv_def)

lemma ac_expire_step: "ac_active r \<Longrightarrow> ac_step r (ac_expire_row now r)"
  by (rule ac_step_edge)
     (auto simp: ac_expire_row_def ac_contract_def ac_row_ok_def ac_active_def intro: ac_edge.intros)

lemma ac_expire_cases:
  assumes inv: "ac_inv db" and mem: "row \<in> set db"
    and run: "ac_expire_if_needed now row db = Inr (row', db')"
  shows "ac_rewrites db db' \<and> row' \<in> set db' \<and> ac_id row' = ac_id row \<and>
    (ac_active row' \<longrightarrow> db' = db \<and> row' = row \<and> now < ac_expires_at row)"
proof (cases "ac_active row \<and> ac_expires_at row \<le> now")
  case True
  then have db': "db' = tbl_update (\<lambda>r. ac_id r = ac_id row) (ac_expire_row now) db"
    and row': "tbl_get ac_id (ac_id row) db' = Some row'"
    using run by (auto simp: ac_expire_if_needed_def Let_def outcome_simps)
  have get: "tbl_get ac_id (ac_id row) db = Some row"
    using inv mem by (auto simp: ac_inv_def intro: tbl_get_eqI)
  have keep: "ac_id (ac_expire_row now r) = ac_id r" for r
    by (simp add: ac_expire_row_def)
  have "row' = ac_expire_row now row"
    using row' get by (simp add: db' tbl_get_update keep)
  moreover have "ac_rewrites db db'"
    unfolding db' using ac_row_unique[OF inv] mem True by (intro ac_rewrites_update) (metis ac_expire_step)
  ultimately show ?thesis
    using tbl_get_mem[OF row'] by (simp add: ac_expire_row_def ac_active_def)
next
  case False
  then show ?thesis
    using run mem by (auto simp: ac_expire_if_needed_def split: if_splits)
qed

lemma ac_current_cases:
  assumes inv: "ac_inv db" and run: "ac_current now i db = Inr (row, db')"
  shows "ac_rewrites db db' \<and> row \<in> set db' \<and> ac_id row = i \<and>
    (ac_active row \<longrightarrow> db' = db \<and> tbl_get ac_id i db = Some row \<and> now < ac_expires_at row)"
proof -
  from run obtain r where r: "tbl_get ac_id i db = Some r" "ac_expire_if_needed now r db = Inr (row, db')"
    by (auto simp: ac_current_def outcome_simps)
  show ?thesis
    using ac_expire_cases[OF inv _ r(2)] tbl_get_mem[OF r(1)] r(1) by auto
qed

lemma ac_claim_Inr:
  assumes inv: "ac_inv db" and run: "ac_claim env now now2 i token cookie db = Inr (v, db')"
  shows "\<exists>row. tbl_get ac_id i db = Some row \<and> ac_state row = AcPending \<and> now2 < ac_expires_at row \<and>
    token = cookie \<and> token \<noteq> [] \<and> ac_csrf_hash row = Some (token_hash env token) \<and>
    db' = tbl_update (\<lambda>r. ac_id r = i \<and> ac_state r = AcPending)
            (\<lambda>r. r\<lparr>ac_state := AcProcessing, ac_csrf_hash := None, ac_claimed_at := Some now,
                    ac_updated_at := now\<rparr>) db"
proof -
  from run obtain row db1 where cur: "ac_current now2 i db = Inr (row, db1)"
    by (auto simp: ac_claim_def outcome_simps)
  have "ac_state row = AcPending"
    using run cur by (auto simp: ac_claim_def split: if_splits)
  moreover from this ac_current_cases[OF inv cur] have "db1 = db" "tbl_get ac_id i db = Some row" "now2 < ac_expires_at row"
    by (auto simp: ac_active_def)
  ultimately show ?thesis
    using run cur
    by (auto simp: ac_claim_def outcome_simps Let_def csrf_ok_def text_or_empty_def
        split: if_splits option.splits bool.splits)
qed

lemma ac_finish_Inr:
  assumes run: "ac_finish now i state result error db = Inr (v, db')"
  shows "\<exists>row. tbl_get ac_id i db = Some row \<and> ac_state row = AcProcessing \<and>
    db' = tbl_update (\<lambda>r. ac_id r = i) (\<lambda>r. r\<lparr>ac_state := state, ac_result := map_option canon result,
        ac_error := error, ac_completed_at := Some now, ac_updated_at := now\<rparr>) db"
  using run by (auto simp: ac_finish_def outcome_simps Let_def split: if_splits)

lemma ac_finish_rewrites:
  assumes inv: "ac_inv db" and run: "ac_finish now i state result error db = Inr (v, db')"
    and "state = AcSucceeded \<and> result \<noteq> None \<and> error = None \<or> state = AcFailed \<and> result = None \<and> error \<noteq> None"
  shows "ac_rewrites db db'"
proof -
  from ac_finish_Inr[OF run] obtain row where row: "tbl_get ac_id i db = Some row" "ac_state row = AcProcessing"
    and db': "db' = tbl_update (\<lambda>r. ac_id r = i) (\<lambda>r. r\<lparr>ac_state := state, ac_result := map_option canon result,
        ac_error := error, ac_completed_at := Some now, ac_updated_at := now\<rparr>) db" by blast
  have "r = row" if "r \<in> set db" "ac_id r = i" for r
    using ac_row_unique[OF inv that(1)] tbl_get_mem[OF row(1)] that(2) by auto
  then show ?thesis
    unfolding db' using row(2) assms(3)
    by (intro ac_rewrites_update ac_step_edge)
       (auto simp: ac_contract_def ac_row_ok_def ac_active_def intro: ac_edge.intros)
qed

text \<open>The active challenges of a session: none, or exactly one.\<close>

definition ac_none_active :: "string \<Rightarrow> ac_db \<Rightarrow> bool" where
  "ac_none_active s db \<longleftrightarrow> (\<forall>r \<in> set db. ac_session r = s \<longrightarrow> \<not> ac_active r)"

definition ac_only_active :: "string \<Rightarrow> ac_db \<Rightarrow> ac_row \<Rightarrow> bool" where
  "ac_only_active s db row \<longleftrightarrow> row \<in> set db \<and> ac_session row = s \<and> ac_active row \<and>
     (\<forall>r \<in> set db. ac_session r = s \<longrightarrow> ac_active r \<longrightarrow> r = row)"

lemma ac_one_activeD:
  assumes "ac_inv db" "r \<in> set db" "s \<in> set db" "ac_active r" "ac_active s" "ac_session r = ac_session s"
  shows "r = s"
proof -
  have "ac_id r = ac_id s"
    using assms unfolding ac_inv_def ac_one_active_def by blast
  then show ?thesis using ac_row_unique[OF assms(1-3)] by blast
qed

lemma ac_only_activeD: "ac_only_active s db row \<Longrightarrow> r \<in> set db \<Longrightarrow> ac_session r = s \<Longrightarrow> ac_active r \<Longrightarrow> r = row"
  unfolding ac_only_active_def by blast

lemma ac_session_rows_single:
  assumes "ac_inv db"
  shows "ac_session_rows s db = [] \<and> ac_none_active s db \<or>
    (\<exists>row. ac_session_rows s db = [row] \<and> ac_only_active s db row)"
proof (cases "filter (\<lambda>r. ac_session r = s \<and> ac_active r) db")
  case Nil
  then show ?thesis by (auto simp: ac_session_rows_def filter_empty_conv ac_none_active_def)
next
  case (Cons row rest)
  then have row: "row \<in> set db" "ac_session row = s" "ac_active row"
    using filter_set[of "\<lambda>r. ac_session r = s \<and> ac_active r" db] by (auto simp: filter_eq_Cons_iff)
  have only: "r = row" if "r \<in> set db" "ac_session r = s" "ac_active r" for r
    using ac_one_activeD[OF assms that(1) row(1) that(3) row(3)] that row by simp
  have "distinct db" using assms by (simp add: ac_inv_def distinct_map)
  then have "filter (\<lambda>r. ac_session r = s \<and> ac_active r) db = [row]"
    using row(1) conjI[OF row(2,3)] by (rule filter_single) (elim conjE, rule only, assumption+)
  then have "ac_session_rows s db = [row]"
    unfolding ac_session_rows_def by simp
  moreover have "ac_only_active s db row"
    using row only unfolding ac_only_active_def by blast
  ultimately show ?thesis by blast
qed

lemma ac_expire_all_Inr:
  assumes inv: "ac_inv db" and run: "ac_expire_all ticks 0 (ac_session_rows s db) db = Inr (rows, db1)"
  shows "ac_rewrites db db1 \<and>
    (filter ac_active rows = [] \<and> ac_none_active s db1 \<or>
     (\<exists>row. filter ac_active rows = [row] \<and> db1 = db \<and> ac_only_active s db row \<and> ticks 0 < ac_expires_at row))"
  using ac_session_rows_single[OF inv, of s]
proof (elim disjE exE conjE)
  assume "ac_session_rows s db = []" "ac_none_active s db"
  then show ?thesis using run by simp
next
  fix row
  assume row: "ac_session_rows s db = [row]" and only: "ac_only_active s db row"
  then have mem: "row \<in> set db" "ac_active row" by (simp_all add: ac_only_active_def)
  from run row obtain row' where e: "ac_expire_if_needed (ticks 0) row db = Inr (row', db1)" and rows: "rows = [row']"
    by (auto simp: outcome_simps)
  note c = ac_expire_cases[OF inv mem(1) e]
  show ?thesis
  proof (cases "ac_active row'")
    case True
    with c have "db1 = db" "row' = row" "ticks 0 < ac_expires_at row" by blast+
    then show ?thesis using rows mem only by simp
  next
    case False
    have "\<not> ac_active r'" if r': "r' \<in> set db1" "ac_session r' = s" for r'
    proof
      assume act: "ac_active r'"
      from ac_rewrites_mem[OF conjunct1[OF c] r'(1)] obtain r where r: "r \<in> set db" "ac_step r r'" by blast
      have "r = row"
        using ac_only_activeD[OF only r(1) _ ac_step_active[OF r(2) act]] ac_step_session[OF r(2)] r'(2) by simp
      then have "ac_id r' = ac_id row'"
        using r(2) c by (simp add: ac_step_def)
      then have "r' = row'"
        using ac_row_unique[OF ac_rewrites_inv[OF inv conjunct1[OF c]] r'(1)] c by blast
      then show False using False act by simp
    qed
    then have "ac_none_active s db1" unfolding ac_none_active_def by blast
    then show ?thesis using c rows False by simp
  qed
qed

lemma ac_supersede_rewrites: "ac_rewrites db (ac_supersede_pending now s db)"
  unfolding ac_supersede_pending_def
  by (intro ac_rewrites_update ac_step_edge)
     (auto simp: ac_contract_def ac_row_ok_def ac_active_def intro: ac_edge.intros)

lemma ac_supersede_none_active:
  assumes "\<And>r. r \<in> set db \<Longrightarrow> ac_session r = s \<Longrightarrow> ac_state r \<noteq> AcProcessing"
  shows "ac_none_active s (ac_supersede_pending now s db)"
  unfolding ac_none_active_def
proof (intro ballI impI)
  let ?f = "\<lambda>r. r\<lparr>ac_state := AcSuperseded, ac_updated_at := now, ac_completed_at := Some now\<rparr>"
  fix r assume r: "r \<in> set (ac_supersede_pending now s db)" "ac_session r = s"
  from r(1) obtain q where q: "q \<in> set db" "r = (if ac_session q = s \<and> ac_state q = AcPending then ?f q else q)"
    unfolding ac_supersede_pending_def tbl_update_def set_map by (elim imageE)
  show "\<not> ac_active r"
    using q(2) r(2) assms[OF q(1)] by (cases "ac_session q = s \<and> ac_state q = AcPending") (auto simp: ac_active_def)
qed

lemma ac_new_row_ok:
  "30 \<le> aq_ttl_seconds req \<Longrightarrow> aq_ttl_seconds req \<le> 900 \<Longrightarrow> ac_row_ok (ac_new_row now token nt req origin fs base)"
  by (simp add: ac_row_ok_def ac_new_row_def ac_active_def)

text \<open>A creation either hands back the active challenge of the session or replaces what was pending.\<close>

lemma ac_store_Inr:
  assumes inv: "ac_inv db"
    and run: "ac_store reuse now ticks token nt req origin base fs db = Inr ((v, reused), db')"
  shows "reused \<and> reuse \<and> ac_rewrites db db' \<and>
      (\<exists>row. v = challenge_from_row row \<and> ac_only_active (aq_session req) db' row \<and>
         challenge_contract_matches req origin fs base row) \<or>
    \<not> reused \<and> (\<exists>db1. ac_rewrites db db1 \<and> token \<notin> set (map ac_id db) \<and>
      ac_none_active (aq_session req) db1 \<and>
      db' = db1 @ [ac_new_row now token nt req origin fs base])"
proof -
  let ?s = "aq_session req"
  from run obtain rows db1 where e: "ac_expire_all ticks 0 (ac_session_rows ?s db) db = Inr (rows, db1)"
    by (auto simp: ac_store_def outcome_simps)
  note c = ac_expire_all_Inr[OF inv e]
  have id: "ac_id (ac_new_row now token nt req origin fs base) = token" by (simp add: ac_new_row_def)
  define found where "found = (if reuse then List.find (challenge_contract_matches req origin fs base) (filter ac_active rows) else None)"
  have rest: "(case found of Some row \<Rightarrow> Inr ((challenge_from_row row, True), db1)
      | None \<Rightarrow>
          if list_ex (\<lambda>r. ac_state r = AcProcessing) (filter ac_active rows) then Inl AcStateError
          else (case tbl_insert ac_id (ac_new_row now token nt req origin fs base)
                       (ac_supersede_pending now ?s db1) of
                  None \<Rightarrow> Inl AcSqlIntegrityError
                | Some db2 \<Rightarrow> ebind (ac_select token db2) (\<lambda>r. Inr ((challenge_from_row r, False), db2))))
      = Inr ((v, reused), db')"
    using run e by (simp add: ac_store_def found_def Let_def)
  show ?thesis
  proof (cases found)
    case (Some row)
    then have "row \<in> set (filter ac_active rows)" "challenge_contract_matches req origin fs base row" "reuse"
      unfolding found_def by (auto split: if_splits dest: find_Some_mem)
    moreover from rest Some have "v = challenge_from_row row" "reused" "db' = db1" by simp_all
    ultimately show ?thesis using c by (elim conjE disjE exE) (simp_all, blast)
  next
    case None
    let ?db2 = "ac_supersede_pending now ?s db1"
    from None rest have np: "\<not> list_ex (\<lambda>r. ac_state r = AcProcessing) (filter ac_active rows)"
      and fresh: "token \<notin> set (map ac_id ?db2)" and r: "\<not> reused"
      and db': "db' = ?db2 @ [ac_new_row now token nt req origin fs base]"
      by (auto simp: outcome_simps tbl_insert_Some id split: if_splits option.splits)
    have idle: "ac_state r \<noteq> AcProcessing" if r: "r \<in> set db1" "ac_session r = ?s" for r
    proof
      assume p: "ac_state r = AcProcessing"
      then have act: "ac_active r" by (simp add: ac_active_def)
      from c show False
      proof (elim conjE disjE exE)
        assume "ac_none_active ?s db1"
        then show False using r act unfolding ac_none_active_def by blast
      next
        fix row assume "filter ac_active rows = [row]" "db1 = db" and only: "ac_only_active ?s db row"
        then have "ac_state row \<noteq> AcProcessing" using np by simp
        then show False using ac_only_activeD[OF only _ r(2) act] r(1) p \<open>db1 = db\<close> by simp
      qed
    qed
    have none: "ac_none_active ?s ?db2"
      by (rule ac_supersede_none_active) (rule idle)
    have rw: "ac_rewrites db ?db2"
      using ac_rewrites_trans[OF conjunct1[OF c] ac_supersede_rewrites] .
    show ?thesis
      using r none rw fresh db' ac_rewrites_ids[OF rw] by metis
  qed
qed

lemma ac_create_Inr:
  assumes "ac_create env reuse now ticks token nt req db = Inr (out, db')"
  shows "\<exists>origin base fs. 30 \<le> aq_ttl_seconds req \<and> aq_ttl_seconds req \<le> 900 \<and>
    ac_validate_origin env (aq_origin req) = Inr origin \<and>
    ac_validate_card_base_url env (aq_card_base_url req) = Inr base \<and>
    ac_store reuse now ticks token nt req origin base fs db = Inr (out, db')"
  using assms by (auto simp: ac_create_def outcome_simps)

lemma ac_append_inv:
  assumes inv: "ac_inv db" and new: "ac_id row \<notin> set (map ac_id db)" and ok: "ac_row_ok row"
    and none: "ac_none_active (ac_session row) db"
  shows "ac_inv (db @ [row])"
proof -
  have "ac_id r = ac_id r'"
    if "r \<in> set (db @ [row])" "r' \<in> set (db @ [row])" "ac_active r" "ac_active r'" "ac_session r = ac_session r'" for r r'
  proof (cases "r = row"; cases "r' = row")
    assume "r = row" "r' \<noteq> row"
    then show ?thesis using that none unfolding ac_none_active_def by auto
  next
    assume "r \<noteq> row" "r' = row"
    then show ?thesis using that none unfolding ac_none_active_def by auto
  next
    assume "r \<noteq> row" "r' \<noteq> row"
    then show ?thesis using ac_one_activeD[OF inv, of r r'] that by simp
  qed simp
  then have "ac_one_active (db @ [row])" unfolding ac_one_active_def by blast
  then show ?thesis using inv new ok by (simp add: ac_inv_def)
qed

lemma ac_create_inv:
  assumes inv: "ac_inv db" and run: "ac_create env reuse now ticks token nt req db = Inr ((v, reused), db')"
  shows "ac_inv db' \<and> (\<forall>k r. tbl_get ac_id k db = Some r \<longrightarrow> (\<exists>r'. tbl_get ac_id k db' = Some r' \<and> ac_step r r'))"
proof -
  from ac_create_Inr[OF run] obtain origin base fs where ttl: "30 \<le> aq_ttl_seconds req" "aq_ttl_seconds req \<le> 900"
    and st: "ac_store reuse now ticks token nt req origin base fs db = Inr ((v, reused), db')" by blast
  let ?new = "ac_new_row now token nt req origin fs base"
  have sel: "ac_id ?new = token" "ac_session ?new = aq_session req" by (simp_all add: ac_new_row_def)
  from ac_store_Inr[OF inv st] show ?thesis
  proof (elim disjE conjE exE)
    assume "ac_rewrites db db'"
    then show ?thesis using ac_rewrites_inv[OF inv] ac_rewrites_get by blast
  next
    fix db1
    assume a: "ac_rewrites db db1" "token \<notin> set (map ac_id db)" "db' = db1 @ [?new]"
      "ac_none_active (aq_session req) db1"
    have "ac_inv db'"
      unfolding a(3) using a ac_rewrites_inv[OF inv a(1)] ac_new_row_ok[OF ttl] sel ac_rewrites_ids[OF a(1)]
      by (intro ac_append_inv) simp_all
    then show ?thesis
      using ac_rewrites_get[OF a(1)] unfolding a(3) by (fastforce simp: tbl_get_append)
  qed
qed

lemma ac_exec_facts:
  assumes inv: "ac_inv db" and run: "ac_exec env op db = Inr (v, db')"
  shows "ac_inv db' \<and> (\<forall>k r. tbl_get ac_id k db = Some r \<longrightarrow> (\<exists>r'. tbl_get ac_id k db' = Some r' \<and> ac_step r r'))"
proof -
  have rewriting: ?thesis if "ac_rewrites db db'"
    using that ac_rewrites_inv[OF inv] ac_rewrites_get by blast
  show ?thesis
  proof (cases op)
    case (AcCreate reuse now ticks token nt req)
    with run obtain w b where "ac_create env reuse now ticks token nt req db = Inr ((w, b), db')"
      by (auto simp: ac_wrap_def outcome_simps)
    then show ?thesis using ac_create_inv[OF inv] by blast
  next
    case (AcGet now i)
    with run ac_current_cases[OF inv] show ?thesis
      by (intro rewriting) (auto simp: ac_wrap_def outcome_simps ac_get_def)
  next
    case (AcIssueCsrf token now now2 i)
    with run obtain row db1 where cur: "ac_current now2 i db = Inr (row, db1)" and p: "ac_state row = AcPending"
      and db': "db' = tbl_update (\<lambda>r. ac_id r = i)
            (\<lambda>r. r\<lparr>ac_csrf_hash := Some (token_hash env token), ac_updated_at := now\<rparr>) db1"
      by (auto simp: ac_wrap_def outcome_simps ac_issue_csrf_def split: if_splits)
    from ac_current_cases[OF inv cur] p have same: "db1 = db" and get: "tbl_get ac_id i db = Some row"
      by (auto simp: ac_active_def)
    have st: "ac_step r (r\<lparr>ac_csrf_hash := Some (token_hash env token), ac_updated_at := now\<rparr>)"
      if "ac_state r = AcPending" for r
      using that by (simp add: ac_step_def ac_contract_def ac_row_ok_def ac_active_def)
    have "ac_state r = AcPending" if "r \<in> set db" "ac_id r = i" for r
      using ac_row_unique[OF inv that(1)] tbl_get_mem[OF get] that(2) p by blast
    then have "ac_rewrites db db'"
      unfolding db' same by (intro ac_rewrites_update st)
    then show ?thesis by (rule rewriting)
  next
    case (AcClaim now now2 i token cookie)
    with run obtain w where "ac_claim env now now2 i token cookie db = Inr (w, db')"
      by (auto simp: ac_wrap_def outcome_simps)
    from ac_claim_Inr[OF inv this] have db': "db' = tbl_update (\<lambda>r. ac_id r = i \<and> ac_state r = AcPending)
            (\<lambda>r. r\<lparr>ac_state := AcProcessing, ac_csrf_hash := None, ac_claimed_at := Some now,
                    ac_updated_at := now\<rparr>) db" by blast
    show ?thesis
      unfolding db' by (intro rewriting[unfolded db'] ac_rewrites_update ac_step_edge)
         (auto simp: ac_contract_def ac_row_ok_def ac_active_def intro: ac_edge.intros)
  next
    case (AcComplete now i result)
    with run obtain w where "ac_finish now i AcSucceeded (Some result) None db = Inr (w, db')"
      by (auto simp: ac_wrap_def outcome_simps ac_complete_def)
    from ac_finish_rewrites[OF inv this] show ?thesis by (intro rewriting) simp
  next
    case (AcFail now i code msg)
    with run obtain w where "ac_finish now i AcFailed None (Some (code, msg)) db = Inr (w, db')"
      by (auto simp: ac_wrap_def outcome_simps ac_fail_def split: if_splits)
    from ac_finish_rewrites[OF inv this] show ?thesis by (intro rewriting) simp
  qed
qed

section \<open>The store keeps the ledger contract\<close>

definition ac_status :: "ac_db \<Rightarrow> string \<Rightarrow> ac_state option" where
  "ac_status db k = map_option ac_state (tbl_get ac_id k db)"

fun ac_claims :: "ac_op \<Rightarrow> string \<Rightarrow> bool" where
  "ac_claims (AcClaim now now2 i token cookie) k \<longleftrightarrow> i = k"
| "ac_claims _ k \<longleftrightarrow> False"

fun ac_finishes :: "ac_op \<Rightarrow> string \<Rightarrow> bool" where
  "ac_finishes (AcComplete now i result) k \<longleftrightarrow> i = k"
| "ac_finishes (AcFail now i code msg) k \<longleftrightarrow> i = k"
| "ac_finishes _ k \<longleftrightarrow> False"

lemma ac_status_finish:
  assumes "ac_finish now i state result error db = Inr (v, db')"
  shows "ac_status db i = Some AcProcessing \<and> ac_status db' i = Some state"
  using ac_finish_Inr[OF assms] by (auto simp: ac_status_def table_simps dest: tbl_get_mem)

interpretation ac: one_shot "ac_exec env" ac_inv ac_status ac_edge ac_claims AcPending "\<lambda>s. s \<noteq> AcPending"
proof (unfold_locales, goal_cases)
  case (1 db op r db')
  then show ?case using ac_exec_facts by blast
next
  case (2 db op v db' k s)
  then obtain r where "tbl_get ac_id k db = Some r" "ac_state r = s"
    by (auto simp: ac_status_def)
  with ac_exec_facts[OF 2(1,2)] show ?case by (fastforce simp: ac_status_def ac_step_def)
next
  case (3 db op k r db')
  then obtain now now2 token cookie where "op = AcClaim now now2 k token cookie" by (cases op) auto
  with 3(3) obtain w where "ac_claim env now now2 k token cookie db = Inr (w, db')"
    by (auto simp: ac_wrap_def outcome_simps)
  from ac_claim_Inr[OF 3(1) this] show ?case
    by (auto simp: ac_status_def table_simps dest: tbl_get_mem)
qed (auto elim: ac_edge.cases)

interpretation ac_finishing: one_shot "ac_exec env" ac_inv ac_status ac_edge ac_finishes AcProcessing
  "\<lambda>s. s \<notin> {AcPending, AcProcessing}"
proof (unfold_locales, goal_cases)
  case (1 db op k r db')
  then show ?case
    by (cases op) (auto simp: ac_wrap_def outcome_simps ac_complete_def ac_fail_def split: if_splits dest!: ac_status_finish)
qed (auto elim: ac_edge.cases)

lemma ac_inv_empty: "ac_inv []"
  by (simp add: ac_inv_def ac_one_active_def)

section \<open>Properties\<close>

definition ac_demo_env :: py_env where
  "ac_demo_env = \<lparr>sha_text = (\<lambda>s. ''t'' @ s), sha_json = (\<lambda>v. ''0''), ip_literal = (\<lambda>_. False)\<rparr>"

definition ac_demo_request :: ac_request where
  "ac_demo_request = \<lparr>aq_user = ''ann'', aq_system = ''oa'', aq_session = ''s'', aq_origin = ''https://oa'',
     aq_fingerprint = ''fp'', aq_nonce = None,
     aq_fields = [\<lparr>fi_name = Some ''login'', fi_label = None, fi_input_type = Some ''text'',
                   fi_autocomplete = None, fi_required = None\<rparr>],
     aq_card_base_url = ''https://h/card'', aq_system_name = ''OA'', aq_principal = None,
     aq_ttl_seconds = 300, aq_type = ''legacy_form_login''\<rparr>"

text \<open>
  In every state the challenge store can reach, identifiers are unique, every session has at
  most one active (pending or processing) challenge, a challenge lives 30 to 900 seconds, the
  CSRF digest is gone once a challenge is claimed, and result, error and completion time are
  present exactly in the states they belong to.
\<close>

theorem ac_reachable_states_sound:
  "ac_inv (run (ac_exec env) ops [])"
  by (rule ac.inv_run[OF ac_inv_empty])

text \<open>
  C20: In any sequence of transactions a challenge is claimed at most once and finished
  (completed or failed) at most once.
\<close>

theorem ac_claimed_and_finished_at_most_once:
  "successes (ac_exec env) (\<lambda>op. ac_claims op k) ops [] \<le> 1 \<and>
   successes (ac_exec env) (\<lambda>op. ac_finishes op k) ops [] \<le> 1"
  by (rule conjI[OF ac.spent_at_most_once[OF ac_inv_empty] ac_finishing.spent_at_most_once[OF ac_inv_empty]])

text \<open>
  Asking again for the same challenge is idempotent. After a challenge was created or
  reused in a sound state, repeating the request before it expires returns the same challenge,
  marked as reused, and leaves the store as it is; the random tokens drawn meanwhile are not
  used. (The identifier of the challenge contains no slash, as \<open>token_urlsafe\<close> promises.)
\<close>

theorem ac_create_or_reuse_idempotent:
  assumes inv: "ac_inv db" and slash: "CHR ''/'' \<notin> set token"
    and run: "ac_create env True now ticks token nt req db = Inr ((v, reused), db')"
    and again: "ticks' 0 < ac_expires_at v"
  shows "ac_create env True now' ticks' token' nt' req db' = Inr ((v, True), db')"
proof -
  from ac_create_Inr[OF run] obtain origin base fs where
    ok: "ac_create env True now' ticks' token' nt' req db' = ac_store True now' ticks' token' nt' req origin base fs db'"
    and st: "ac_store True now ticks token nt req origin base fs db = Inr ((v, reused), db')"
    using run by (auto simp: ac_create_def outcome_simps)
  have inv': "ac_inv db'" using ac_create_inv[OF inv run] by blast
  let ?new = "ac_new_row now token nt req origin fs base"
  have sel: "ac_session ?new = aq_session req" "ac_active ?new" "ac_id ?new = token"
    by (simp_all add: ac_new_row_def ac_active_def)
  have match: "challenge_contract_matches req origin fs base ?new"
    using split_last_fresh[OF slash, of "[]" "base @ ''/auth''"]
    by (simp add: challenge_contract_matches_def ac_new_row_def)
  obtain row where v: "v = challenge_from_row row" and only: "ac_only_active (aq_session req) db' row"
    and m: "challenge_contract_matches req origin fs base row"
    using ac_store_Inr[OF inv st]
  proof (elim disjE conjE exE, goal_cases)
    case (1 row)
    then show ?case by blast
  next
    case (2 db1)
    have mem: "?new \<in> set db'" using 2 by simp
    have "r = ?new" if "r \<in> set db'" "ac_session r = aq_session req" "ac_active r" for r
      using ac_one_activeD[OF inv' that(1) mem that(3) sel(2)] that(2) sel(1) by simp
    then have "ac_only_active (aq_session req) db' ?new"
      unfolding ac_only_active_def using mem sel by blast
    moreover have "v = challenge_from_row ?new"
    proof -
      have "tbl_get ac_id token db' = Some ?new"
        using inv' mem sel(3) by (auto simp: ac_inv_def intro: tbl_get_eqI)
      moreover have "\<exists>r. tbl_get ac_id token db' = Some r \<and> v = challenge_from_row r"
        using st 2(2) by (auto simp: ac_store_def Let_def outcome_simps split: option.splits if_splits)
      ultimately show ?thesis by auto
    qed
    ultimately show ?case using 2(1) match by blast
  qed
  have mem: "row \<in> set db'" "ac_active row" using only by (simp_all add: ac_only_active_def)
  have rows: "ac_session_rows (aq_session req) db' = [row]"
    using ac_session_rows_single[OF inv', of "aq_session req"]
  proof (elim disjE conjE exE)
    assume "ac_none_active (aq_session req) db'"
    then show ?thesis using only by (auto simp: ac_none_active_def ac_only_active_def)
  next
    fix r assume r: "ac_session_rows (aq_session req) db' = [r]" "ac_only_active (aq_session req) db' r"
    have "r = row"
      using r(2) by (intro ac_only_activeD[OF only]) (simp_all add: ac_only_active_def)
    then show ?thesis using r(1) by simp
  qed
  have "ticks' 0 < ac_expires_at row"
    using again unfolding v by (simp add: challenge_from_row_def)
  then show ?thesis
    unfolding ok ac_store_def rows using mem m v
    by (simp add: ac_expire_if_needed_def Let_def)
qed

text \<open>
  A claim succeeds only for the pending, unexpired challenge whose stored digest is that of
  the token presented in the form and in the cookie; it moves the challenge to processing and
  uses the token up, and a later claim with any token fails.
\<close>

theorem ac_claim_needs_token_and_uses_it:
  assumes inv: "ac_inv db" and run: "ac_claim env now now2 i token cookie db = Inr (v, db')"
  shows "(\<exists>row. tbl_get ac_id i db = Some row \<and> ac_state row = AcPending \<and> now2 < ac_expires_at row \<and>
      ac_csrf_hash row = Some (token_hash env token) \<and> token = cookie \<and> token \<noteq> []) \<and>
    ac_status db' i = Some AcProcessing \<and>
    (\<forall>n n2 t c. \<exists>e. ac_claim env n n2 i t c db' = Inl e)"
proof -
  from ac_claim_Inr[OF inv run] obtain row where row: "tbl_get ac_id i db = Some row" "ac_state row = AcPending"
    "now2 < ac_expires_at row" "ac_csrf_hash row = Some (token_hash env token)" "token = cookie" "token \<noteq> []"
    by blast
  have op: "ac_exec env (AcClaim now now2 i token cookie) db = Inr (AcChallenge v, db')"
    using run by (simp add: ac_wrap_def)
  have inv': "ac_inv db'" using ac_exec_facts[OF inv op] by blast
  have st: "ac_status db' i = Some AcProcessing"
    using ac_claim_Inr[OF inv run] by (auto simp: ac_status_def table_simps dest: tbl_get_mem)
  have "\<exists>e. ac_claim env n n2 i t c db' = Inl e" for n n2 t c
  proof (rule ccontr)
    assume "\<nexists>e. ac_claim env n n2 i t c db' = Inl e"
    then obtain w db'' where "ac_claim env n n2 i t c db' = Inr (w, db'')"
      by (metis sum.exhaust surj_pair)
    from ac_claim_Inr[OF inv' this] st show False by (auto simp: ac_status_def)
  qed
  with row st show ?thesis by blast
qed

end
