(* ===== verification/FieldSubmissions.thy ===== *)
theory FieldSubmissions
  imports Ledger Urls
begin

text \<open>
  The field submission store of \<open>agentbridge/core/field_submissions.py\<close>: a form is
  created for a capability, shown as a card, filled in once by its user and consumed once by
  the operation that asked for it. The tables have the shape of the authorization store; what
  is protected here is the schema of the form and, from the submission on, its values.
\<close>

section \<open>Tables\<close>

datatype fs_state = FsPending | FsSubmitted | FsConsumed | FsExpired | FsSuperseded

datatype fsp_state = FspActive | FspExpired | FspSubmitted

datatype fss_state = FssPending | FssConsumed | FssExpired

record fs_row =
  fs_id :: string
  fs_user :: string
  fs_system :: string
  fs_session :: string
  fs_capability :: string
  fs_version :: string
  fs_create_operation :: string
  fs_supersession_key :: string
  fs_schema :: json
  fs_schema_hash :: string
  fs_values :: "json option"
  fs_values_hash :: "string option"
  fs_card_url :: string
  fs_csrf_hash :: "string option"
  fs_state :: fs_state
  fs_consume_operation :: "string option"
  fs_created_at :: time
  fs_updated_at :: time
  fs_expires_at :: time
  fs_submitted_at :: "time option"
  fs_consumed_at :: "time option"

record fsp_row =
  fsp_id :: string
  fsp_form :: string
  fsp_user :: string
  fsp_endpoint :: string
  fsp_card_url :: string
  fsp_state :: fsp_state
  fsp_created_at :: time
  fsp_updated_at :: time
  fsp_expires_at :: time
  fsp_opened_at :: "time option"
  fsp_submitted_at :: "time option"

record fss_row =
  fss_id :: string
  fss_form :: string
  fss_presentation :: "string option"
  fss_endpoint :: "string option"
  fss_csrf_hash :: string
  fss_state :: fss_state
  fss_created_at :: time
  fss_expires_at :: time
  fss_consumed_at :: "time option"

record 'x fs_db =
  fs_forms :: "fs_row list"
  fs_presentations :: "fsp_row list"
  fs_sessions :: "fss_row list"
  fs_other :: 'x

definition fs_empty :: "'x \<Rightarrow> 'x fs_db" where
  "fs_empty x = \<lparr>fs_forms = [], fs_presentations = [], fs_sessions = [], fs_other = x\<rparr>"

text \<open>The columns the trigger \<open>immutable_field_submission_contract\<close> protects.\<close>

definition fs_contract :: "fs_row \<Rightarrow> string list \<times> json \<times> string \<times> time \<times> time" where
  "fs_contract r =
     ([fs_user r, fs_system r, fs_session r, fs_capability r, fs_version r, fs_create_operation r,
       fs_supersession_key r, fs_card_url r],
      fs_schema r, fs_schema_hash r, fs_created_at r, fs_expires_at r)"

datatype 'e fs_error =
  FsValueError | FsTypeError | FsNotFound | FsStateError | FsAccessDenied
  | FsIntegrityError | FsSqlIntegrityError | FsCallback 'e

section \<open>Row results and addresses\<close>

datatype fs_view = FsView (fv_row: fs_row) (fv_values: "json option")

definition submission_from_row :: "bool \<Rightarrow> fs_row \<Rightarrow> fs_view" where
  "submission_from_row include_values row =
     FsView (row\<lparr>fs_values := None, fs_values_hash := None, fs_csrf_hash := None\<rparr>)
       (if include_values then fs_values row else None)"

text \<open>\<open>_card_base_url\<close> splits at the first \<open>/input/\<close>; \<open>[0]\<close> is the whole text when there is none.\<close>

definition fs_card_base_url :: "string \<Rightarrow> string" where
  "fs_card_base_url card_url =
     rstrip_slash (case split_first ''/input/'' card_url of None \<Rightarrow> card_url | Some (a, _) \<Rightarrow> a)"

section \<open>Reading, checking and expiring\<close>

definition fs_select :: "string \<Rightarrow> 'x fs_db \<Rightarrow> 'e fs_error + fs_row" where
  "fs_select i db = (case tbl_get fs_id i (fs_forms db) of None \<Rightarrow> Inl FsNotFound | Some r \<Rightarrow> Inr r)"

definition fs_select_presentation :: "string \<Rightarrow> string \<Rightarrow> 'x fs_db \<Rightarrow> 'e fs_error + fsp_row" where
  "fs_select_presentation i p db =
     (case List.find (\<lambda>r. fsp_form r = i \<and> fsp_id r = p) (fs_presentations db) of
        None \<Rightarrow> Inl FsNotFound | Some r \<Rightarrow> Inr r)"

definition fs_check_digest :: "string \<Rightarrow> string \<Rightarrow> 'e fs_error + unit" where
  "fs_check_digest stored computed =
     (case compare_digest stored computed of
        None \<Rightarrow> Inl FsTypeError | Some False \<Rightarrow> Inl FsIntegrityError | Some True \<Rightarrow> Inr ())"

definition fs_verify_integrity :: "py_env \<Rightarrow> bool \<Rightarrow> fs_row \<Rightarrow> 'e fs_error + unit" where
  "fs_verify_integrity env include_values row =
     ebind (fs_check_digest (fs_schema_hash row) (json_hash env (fs_schema row))) (\<lambda>_.
     case fs_values row of
       None \<Rightarrow> Inr ()
     | Some v \<Rightarrow>
         if \<not> include_values then Inr ()
         else fs_check_digest (case fs_values_hash row of None \<Rightarrow> [] | Some h \<Rightarrow> h) (json_hash env v))"

definition fs_set_forms :: "(fs_row \<Rightarrow> bool) \<Rightarrow> (fs_row \<Rightarrow> fs_row) \<Rightarrow> 'x fs_db \<Rightarrow> 'x fs_db" where
  "fs_set_forms P f db = db\<lparr>fs_forms := tbl_update P f (fs_forms db)\<rparr>"

definition fs_expire_presentations :: "time \<Rightarrow> (string \<Rightarrow> bool) \<Rightarrow> 'x fs_db \<Rightarrow> 'x fs_db" where
  "fs_expire_presentations now P db = db\<lparr>fs_presentations :=
     tbl_update (\<lambda>r. fsp_state r = FspActive \<and> P (fsp_form r))
       (\<lambda>r. r\<lparr>fsp_state := FspExpired, fsp_updated_at := now\<rparr>) (fs_presentations db)\<rparr>"

definition fs_expire_sessions :: "(string \<Rightarrow> bool) \<Rightarrow> 'x fs_db \<Rightarrow> 'x fs_db" where
  "fs_expire_sessions P db = db\<lparr>fs_sessions :=
     tbl_update (\<lambda>r. fss_state r = FssPending \<and> P (fss_form r))
       (\<lambda>r. r\<lparr>fss_state := FssExpired\<rparr>) (fs_sessions db)\<rparr>"

text \<open>The updates that end a form by expiry (\<open>_expire_if_needed\<close>) and by \<open>supersede\<close> differ in the state only.\<close>

definition fs_end :: "fs_state \<Rightarrow> time \<Rightarrow> string \<Rightarrow> 'x fs_db \<Rightarrow> 'x fs_db" where
  "fs_end state now i db =
     fs_expire_sessions (\<lambda>j. j = i) (fs_expire_presentations now (\<lambda>j. j = i)
       (fs_set_forms (\<lambda>r. fs_id r = i)
         (\<lambda>r. r\<lparr>fs_state := state, fs_csrf_hash := None, fs_updated_at := now\<rparr>) db))"

definition fs_expire_if_needed ::
  "time \<Rightarrow> fs_row \<Rightarrow> 'x fs_db \<Rightarrow> 'e fs_error + (fs_row \<times> 'x fs_db)" where
  "fs_expire_if_needed now row db =
     (if fs_state row \<in> {FsPending, FsSubmitted} \<and> fs_expires_at row \<le> now then
        let db' = fs_end FsExpired now (fs_id row) db
        in ebind (fs_select (fs_id row) db') (\<lambda>r. Inr (r, db'))
      else Inr (row, db))"

definition fs_current :: "time \<Rightarrow> string \<Rightarrow> 'x fs_db \<Rightarrow> 'e fs_error + (fs_row \<times> 'x fs_db)" where
  "fs_current now i db = ebind (fs_select i db) (\<lambda>row. fs_expire_if_needed now row db)"

section \<open>Operations\<close>

record fs_request =
  fr_user :: string
  fr_system :: string
  fr_session :: string
  fr_capability :: string
  fr_version :: string
  fr_create_operation :: string
  fr_supersession_key :: string
  fr_schema :: json
  fr_card_base_url :: string
  fr_ttl_seconds :: int

definition has_fields :: "json \<Rightarrow> bool" where
  "has_fields schema = (case schema of
     JDict d \<Rightarrow> (case dget d ''fields'' of JList fl \<Rightarrow> fl \<noteq> [] | _ \<Rightarrow> False) | _ \<Rightarrow> False)"

definition fs_supersede_matching ::
  "time \<Rightarrow> string \<Rightarrow> string \<Rightarrow> string \<Rightarrow> 'x fs_db \<Rightarrow> 'x fs_db" where
  "fs_supersede_matching now user capability skey db =
     (let db1 = fs_set_forms
            (\<lambda>r. fs_user r = user \<and> fs_capability r = capability \<and> fs_supersession_key r = skey \<and>
                 fs_state r \<in> {FsPending, FsSubmitted})
            (\<lambda>r. r\<lparr>fs_state := FsSuperseded, fs_csrf_hash := None, fs_updated_at := now\<rparr>) db;
          superseded = map fs_id (filter (\<lambda>r. fs_user r = user \<and> fs_capability r = capability \<and>
            fs_state r = FsSuperseded) (fs_forms db1))
      in fs_expire_sessions (\<lambda>j. j \<in> set superseded)
           (fs_expire_presentations now (\<lambda>j. j \<in> set superseded) db1))"

definition fs_new_row :: "py_env \<Rightarrow> time \<Rightarrow> string \<Rightarrow> string \<Rightarrow> fs_request \<Rightarrow> fs_row" where
  "fs_new_row env now token base_url req =
     \<lparr>fs_id = token, fs_user = fr_user req, fs_system = fr_system req,
      fs_session = fr_session req, fs_capability = fr_capability req,
      fs_version = fr_version req, fs_create_operation = fr_create_operation req,
      fs_supersession_key = py_strip (fr_supersession_key req),
      fs_schema = canon (fr_schema req), fs_schema_hash = json_hash env (canon (fr_schema req)),
      fs_values = None, fs_values_hash = None,
      fs_card_url = base_url @ ''/input/'' @ token, fs_csrf_hash = None,
      fs_state = FsPending, fs_consume_operation = None, fs_created_at = now,
      fs_updated_at = now, fs_expires_at = now + fr_ttl_seconds req * 1000000,
      fs_submitted_at = None, fs_consumed_at = None\<rparr>"

definition fs_create ::
  "py_env \<Rightarrow> time \<Rightarrow> string \<Rightarrow> fs_request \<Rightarrow> 'x fs_db \<Rightarrow> 'e fs_error + (fs_view \<times> 'x fs_db)" where
  "fs_create env now token req db =
     ebind (raise_if (list_ex is_blank [fr_user req, fr_system req, fr_session req, fr_capability req,
         fr_version req, fr_create_operation req]) FsValueError) (\<lambda>_.
     ebind (raise_if (\<not> is_object (fr_schema req)) FsTypeError) (\<lambda>_.
     ebind (raise_if (\<not> has_fields (fr_schema req)) FsValueError) (\<lambda>_.
     ebind (raise_if (fr_ttl_seconds req < 30 \<or> fr_ttl_seconds req > 1800) FsValueError) (\<lambda>_.
     let skey = py_strip (fr_supersession_key req) in
     ebind (raise_if (length skey > 128) FsValueError) (\<lambda>_.
     case validate_card_base_url env (fr_card_base_url req) of
       None \<Rightarrow> Inl FsValueError
     | Some base_url \<Rightarrow>
         let db1 = fs_supersede_matching now (fr_user req) (fr_capability req) skey db
         in (case tbl_insert fs_id (fs_new_row env now token base_url req) (fs_forms db1) of
               None \<Rightarrow> Inl FsSqlIntegrityError
             | Some rows \<Rightarrow>
                 let db2 = db1\<lparr>fs_forms := rows\<rparr> in
                 ebind (fs_select token db2) (\<lambda>r. Inr (submission_from_row False r, db2))))))))"

definition fs_get ::
  "py_env \<Rightarrow> time \<Rightarrow> string \<Rightarrow> bool \<Rightarrow> 'x fs_db \<Rightarrow> 'e fs_error + (fs_view \<times> 'x fs_db)" where
  "fs_get env now i include_values db =
     ebind (fs_current now i db) (\<lambda>(row, db').
     ebind (fs_verify_integrity env include_values row) (\<lambda>_.
     Inr (submission_from_row include_values row, db')))"

definition fsp_state_for :: "fs_state \<Rightarrow> fsp_state" where
  "fsp_state_for s = (if s = FsPending then FspActive
     else if s \<in> {FsExpired, FsSuperseded} then FspExpired else FspSubmitted)"

definition fsp_new_row :: "time \<Rightarrow> string \<Rightarrow> string \<Rightarrow> string \<Rightarrow> string \<Rightarrow> fs_row \<Rightarrow> fsp_row" where
  "fsp_new_row now token i user endpoint form =
     \<lparr>fsp_id = token, fsp_form = i, fsp_user = user, fsp_endpoint = endpoint,
      fsp_card_url = fs_card_base_url (fs_card_url form) @ ''/input/'' @ i @ ''/present/'' @ token,
      fsp_state = fsp_state_for (fs_state form), fsp_created_at = now,
      fsp_updated_at = now, fsp_expires_at = fs_expires_at form,
      fsp_opened_at = None, fsp_submitted_at = None\<rparr>"

definition fs_create_presentation ::
  "time \<Rightarrow> time \<Rightarrow> string \<Rightarrow> string \<Rightarrow> string \<Rightarrow> string \<Rightarrow> 'x fs_db \<Rightarrow> 'e fs_error + (fsp_row \<times> 'x fs_db)" where
  "fs_create_presentation now now2 token i user endpoint db =
     (let user = py_strip user; endpoint = py_strip endpoint in
      if user = [] \<or> endpoint = [] then Inl FsValueError
      else ebind (fs_current now2 i db) (\<lambda>(form, db1).
        if fs_user form \<noteq> user then Inl FsNotFound
        else case List.find (\<lambda>r. fsp_form r = i \<and> fsp_endpoint r = endpoint) (fs_presentations db1) of
          Some existing \<Rightarrow> Inr (existing, db1)
        | None \<Rightarrow>
            (case tbl_insert fsp_id (fsp_new_row now token i user endpoint form) (fs_presentations db1) of
               None \<Rightarrow> Inl FsSqlIntegrityError
             | Some rows \<Rightarrow>
                 let db2 = db1\<lparr>fs_presentations := rows\<rparr> in
                 ebind (fs_select_presentation i token db2) (\<lambda>r. Inr (r, db2)))))"

definition fs_get_presentation ::
  "string \<Rightarrow> string \<Rightarrow> 'x fs_db \<Rightarrow> 'e fs_error + (fsp_row \<times> 'x fs_db)" where
  "fs_get_presentation i p db = ebind (fs_select_presentation i p db) (\<lambda>r. Inr (r, db))"

definition fs_insert_session :: "fss_row \<Rightarrow> 'x fs_db \<Rightarrow> 'e fs_error + 'x fs_db" where
  "fs_insert_session row db =
     (if fss_csrf_hash row \<in> set (map fss_csrf_hash (fs_sessions db)) then Inl FsSqlIntegrityError
      else case tbl_insert fss_id row (fs_sessions db) of
             None \<Rightarrow> Inl FsSqlIntegrityError
           | Some rows \<Rightarrow> Inr (db\<lparr>fs_sessions := rows\<rparr>))"

definition fs_issue_csrf ::
  "py_env \<Rightarrow> string \<Rightarrow> time \<Rightarrow> time \<Rightarrow> string \<Rightarrow> string \<Rightarrow> string option \<Rightarrow> 'x fs_db
   \<Rightarrow> 'e fs_error + (string \<times> 'x fs_db)" where
  "fs_issue_csrf env token now now2 session_token i presentation db =
     ebind (fs_current now2 i db) (\<lambda>(row, db1).
     ebind (fs_verify_integrity env False row) (\<lambda>_.
     if fs_state row \<noteq> FsPending then Inl FsStateError
     else ebind (case presentation of
                   None \<Rightarrow> Inr (None, db1)
                 | Some p \<Rightarrow> ebind (fs_select_presentation i p db1) (\<lambda>pr.
                     Inr (Some (fsp_endpoint pr), db1\<lparr>fs_presentations :=
                       tbl_update (\<lambda>r. fsp_id r = p)
                         (\<lambda>r. r\<lparr>fsp_opened_at := (case fsp_opened_at r of None \<Rightarrow> Some now | Some t \<Rightarrow> Some t),
                                 fsp_updated_at := now\<rparr>) (fs_presentations db1)\<rparr>)))
       (\<lambda>(endpoint, db2).
         ebind (fs_insert_session
           \<lparr>fss_id = session_token, fss_form = i, fss_presentation = presentation,
            fss_endpoint = endpoint, fss_csrf_hash = token_hash env token, fss_state = FssPending,
            fss_created_at = now, fss_expires_at = fs_expires_at row, fss_consumed_at = None\<rparr> db2)
           (\<lambda>db3. Inr (token, db3)))))"

definition fs_find_session ::
  "string \<Rightarrow> string option \<Rightarrow> string \<Rightarrow> 'x fs_db \<Rightarrow> fss_row option" where
  "fs_find_session i presentation h db =
     List.find (\<lambda>r. fss_form r = i \<and> fss_presentation r = presentation \<and> fss_csrf_hash r = h \<and>
       fss_state r = FssPending) (fs_sessions db)"

definition fs_mark_submitted :: "time \<Rightarrow> string \<Rightarrow> json \<Rightarrow> string \<Rightarrow> 'x fs_db \<Rightarrow> 'x fs_db" where
  "fs_mark_submitted now i vals vhash db =
     (let db1 = fs_set_forms (\<lambda>r. fs_id r = i \<and> fs_state r = FsPending)
            (\<lambda>r. r\<lparr>fs_state := FsSubmitted, fs_values := Some vals, fs_values_hash := Some vhash,
                    fs_csrf_hash := None, fs_submitted_at := Some now, fs_updated_at := now\<rparr>) db
      in db1\<lparr>fs_sessions :=
               tbl_update (\<lambda>r. fss_form r = i \<and> fss_state r = FssPending)
                 (\<lambda>r. r\<lparr>fss_state := FssConsumed, fss_consumed_at := Some now\<rparr>) (fs_sessions db1),
             fs_presentations :=
               tbl_update (\<lambda>r. fsp_form r = i)
                 (\<lambda>r. r\<lparr>fsp_state := FspSubmitted, fsp_submitted_at := Some now, fsp_updated_at := now\<rparr>)
                 (fs_presentations db1)\<rparr>)"

text \<open>
  The trigger \<open>immutable_submitted_field_values\<close> aborts the update when the row it
  changes already holds values.
\<close>

definition fs_submit ::
  "py_env \<Rightarrow> time \<Rightarrow> time \<Rightarrow> string \<Rightarrow> string \<Rightarrow> string \<Rightarrow> json \<Rightarrow> string option \<Rightarrow> 'x fs_db
   \<Rightarrow> 'e fs_error + (fs_view \<times> 'x fs_db)" where
  "fs_submit env now now2 i csrf_token csrf_cookie vals presentation db =
     (if \<not> is_object vals then Inl FsTypeError
      else ebind (fs_current now2 i db) (\<lambda>(row, db1).
      ebind (fs_verify_integrity env False row) (\<lambda>_.
      if fs_state row \<noteq> FsPending then Inl FsStateError
      else let supplied = (if csrf_token = [] then [] else token_hash env csrf_token) in
      ebind (case presentation of None \<Rightarrow> Inr () | Some p \<Rightarrow>
               ebind (fs_select_presentation i p db1) (\<lambda>_. Inr ())) (\<lambda>_.
      case fs_find_session i presentation supplied db1 of
        None \<Rightarrow> Inl FsAccessDenied
      | Some session \<Rightarrow>
          (case csrf_ok csrf_token csrf_cookie (fss_csrf_hash session) supplied of
             None \<Rightarrow> Inl FsTypeError
           | Some False \<Rightarrow> Inl FsAccessDenied
           | Some True \<Rightarrow>
               if list_ex (\<lambda>r. fs_id r = i \<and> fs_state r = FsPending \<and>
                    (fs_values r \<noteq> None \<or> fs_values_hash r \<noteq> None)) (fs_forms db1)
               then Inl FsSqlIntegrityError
               else let db2 = fs_mark_submitted now i (canon vals) (json_hash env (canon vals)) db1
               in if tbl_count (\<lambda>r. fs_id r = i \<and> fs_state r = FsPending) (fs_forms db1) \<noteq> 1
                  then Inl FsStateError
                  else ebind (fs_select i db2) (\<lambda>r.
                       ebind (fs_verify_integrity env True r) (\<lambda>_.
                       Inr (submission_from_row False r, db2))))))))"

definition fs_run_callback :: "('x \<Rightarrow> 'e + 'x) option \<Rightarrow> 'x fs_db \<Rightarrow> 'e fs_error + 'x fs_db" where
  "fs_run_callback cb db =
     (case cb of None \<Rightarrow> Inr db
      | Some f \<Rightarrow> (case f (fs_other db) of Inl e \<Rightarrow> Inl (FsCallback e) | Inr x \<Rightarrow> Inr (db\<lparr>fs_other := x\<rparr>)))"

definition fs_supersede ::
  "time \<Rightarrow> string \<Rightarrow> string \<Rightarrow> bool \<Rightarrow> ('x \<Rightarrow> 'e + 'x) option \<Rightarrow> 'x fs_db \<Rightarrow> 'e fs_error + (unit \<times> 'x fs_db)" where
  "fs_supersede now i user pending_only before db =
     ebind (fs_select i db) (\<lambda>row.
     if fs_user row \<noteq> user then Inl FsAccessDenied
     else if pending_only \<and> fs_state row \<notin> {FsPending, FsSuperseded} then Inl FsStateError
     else if fs_state row \<notin> {FsPending, FsSubmitted} then Inr ((), db)
     else ebind (fs_run_callback before db) (\<lambda>db1. Inr ((), fs_end FsSuperseded now i db1)))"

record fs_binding =
  fb_user :: string
  fb_system :: string
  fb_session :: string
  fb_capability :: string
  fb_version :: string

definition fs_bound_to :: "fs_row \<Rightarrow> fs_binding \<Rightarrow> bool" where
  "fs_bound_to row b \<longleftrightarrow> fs_user row = fb_user b \<and> fs_system row = fb_system b \<and>
     fs_session row = fb_session b \<and> fs_capability row = fb_capability b \<and> fs_version row = fb_version b"

definition fs_mark_consumed :: "time \<Rightarrow> string \<Rightarrow> string \<Rightarrow> 'x fs_db \<Rightarrow> 'x fs_db" where
  "fs_mark_consumed now i consume_operation =
     fs_set_forms (\<lambda>r. fs_id r = i \<and> fs_state r = FsSubmitted)
       (\<lambda>r. r\<lparr>fs_state := FsConsumed, fs_consume_operation := Some consume_operation,
               fs_consumed_at := Some now, fs_updated_at := now\<rparr>)"

definition fs_consume ::
  "py_env \<Rightarrow> time \<Rightarrow> time \<Rightarrow> string \<Rightarrow> fs_binding \<Rightarrow> string \<Rightarrow> 'x fs_db
   \<Rightarrow> 'e fs_error + (fs_view \<times> 'x fs_db)" where
  "fs_consume env now now2 i b consume_operation db =
     ebind (fs_current now2 i db) (\<lambda>(row, db1).
     if fs_state row \<noteq> FsSubmitted then Inl FsStateError
     else if \<not> fs_bound_to row b then Inl FsAccessDenied
     else ebind (fs_verify_integrity env True row) (\<lambda>_.
       let db2 = fs_mark_consumed now i consume_operation db1
       in if tbl_count (\<lambda>r. fs_id r = i \<and> fs_state r = FsSubmitted) (fs_forms db1) \<noteq> 1
          then Inl FsStateError
          else ebind (fs_select i db2) (\<lambda>r. Inr (submission_from_row True r, db2))))"

section \<open>The store as a transition system\<close>

datatype ('x, 'e) fs_op =
    FsCreate time string fs_request
  | FsGet time string bool
  | FsCreatePresentation time time string string string string
  | FsGetPresentation string string
  | FsIssueCsrf string time time string string "string option"
  | FsSubmit time time string string string json "string option"
  | FsSupersede time string string bool "('x \<Rightarrow> 'e + 'x) option"
  | FsConsume time time string fs_binding string

datatype fs_result = FsForm fs_view | FsPresentation fsp_row | FsToken string | FsUnit

definition fs_wrap :: "('a \<Rightarrow> fs_result) \<Rightarrow> 'e fs_error + ('a \<times> 'x fs_db) \<Rightarrow> 'e fs_error + (fs_result \<times> 'x fs_db)" where
  "fs_wrap f out = ebind out (\<lambda>(a, db). Inr (f a, db))"

fun fs_exec :: "py_env \<Rightarrow> ('x, 'e) fs_op \<Rightarrow> 'x fs_db \<Rightarrow> 'e fs_error + (fs_result \<times> 'x fs_db)" where
  "fs_exec env (FsCreate now token req) db = fs_wrap FsForm (fs_create env now token req db)"
| "fs_exec env (FsGet now i include_values) db = fs_wrap FsForm (fs_get env now i include_values db)"
| "fs_exec env (FsCreatePresentation now now2 token i user endpoint) db =
     fs_wrap FsPresentation (fs_create_presentation now now2 token i user endpoint db)"
| "fs_exec env (FsGetPresentation i p) db = fs_wrap FsPresentation (fs_get_presentation i p db)"
| "fs_exec env (FsIssueCsrf token now now2 sid i p) db =
     fs_wrap FsToken (fs_issue_csrf env token now now2 sid i p db)"
| "fs_exec env (FsSubmit now now2 i token cookie vals p) db =
     fs_wrap FsForm (fs_submit env now now2 i token cookie vals p db)"
| "fs_exec env (FsSupersede now i user po cb) db = fs_wrap (\<lambda>_. FsUnit) (fs_supersede now i user po cb db)"
| "fs_exec env (FsConsume now now2 i b oid) db = fs_wrap FsForm (fs_consume env now now2 i b oid db)"

section \<open>Lemmas\<close>

definition fs_live :: "fs_row \<Rightarrow> bool" where
  "fs_live r \<longleftrightarrow> fs_state r \<in> {FsPending, FsSubmitted}"

definition fs_status :: "'x fs_db \<Rightarrow> string \<Rightarrow> fs_state option" where
  "fs_status db i = map_option fs_state (tbl_get fs_id i (fs_forms db))"

text \<open>The moves a form can make in one operation.\<close>

inductive fs_edge :: "fs_state \<Rightarrow> fs_state \<Rightarrow> bool" where
  submit: "fs_edge FsPending FsSubmitted"
| expire_pending: "fs_edge FsPending FsExpired"
| supersede_pending: "fs_edge FsPending FsSuperseded"
| consume: "fs_edge FsSubmitted FsConsumed"
| expire_submitted: "fs_edge FsSubmitted FsExpired"
| supersede_submitted: "fs_edge FsSubmitted FsSuperseded"

inductive_cases fs_edge_from_consumed [elim!]: "fs_edge FsConsumed s"
inductive_simps fs_edge_simps [simp]: "fs_edge s FsPending" "fs_edge s FsSubmitted" "fs_edge s FsConsumed"

lemma fs_set_forms_sel [simp]:
  "fs_forms (fs_set_forms P f db) = tbl_update P f (fs_forms db)"
  "fs_presentations (fs_set_forms P f db) = fs_presentations db"
  "fs_sessions (fs_set_forms P f db) = fs_sessions db"
  "fs_other (fs_set_forms P f db) = fs_other db"
  by (simp_all add: fs_set_forms_def)

lemma fs_expire_presentations_sel [simp]:
  "fs_presentations (fs_expire_presentations now K db) =
     tbl_update (\<lambda>r. fsp_state r = FspActive \<and> K (fsp_form r))
       (\<lambda>r. r\<lparr>fsp_state := FspExpired, fsp_updated_at := now\<rparr>) (fs_presentations db)"
  "fs_forms (fs_expire_presentations now K db) = fs_forms db"
  "fs_sessions (fs_expire_presentations now K db) = fs_sessions db"
  "fs_other (fs_expire_presentations now K db) = fs_other db"
  by (simp_all add: fs_expire_presentations_def)

lemma fs_expire_sessions_sel [simp]:
  "fs_sessions (fs_expire_sessions K db) =
     tbl_update (\<lambda>r. fss_state r = FssPending \<and> K (fss_form r)) (\<lambda>r. r\<lparr>fss_state := FssExpired\<rparr>)
       (fs_sessions db)"
  "fs_forms (fs_expire_sessions K db) = fs_forms db"
  "fs_presentations (fs_expire_sessions K db) = fs_presentations db"
  "fs_other (fs_expire_sessions K db) = fs_other db"
  by (simp_all add: fs_expire_sessions_def)

lemma fs_select_Inr [outcome_simps]:
  "fs_select i db = Inr r \<longleftrightarrow> tbl_get fs_id i (fs_forms db) = Some r"
  by (simp add: fs_select_def split: option.splits)

text \<open>An operation that goes on only with a live form never works on an expired one.\<close>

lemma fs_current_live:
  assumes "fs_current now i db = (Inr (row, db') :: 'e fs_error + fs_row \<times> 'x fs_db)" and "fs_live row"
  shows "db' = db \<and> tbl_get fs_id i (fs_forms db) = Some row \<and> now < fs_expires_at row"
proof -
  from assms(1) obtain row0 where r0: "tbl_get fs_id i (fs_forms db) = Some row0"
    and e: "fs_expire_if_needed now row0 db = (Inr (row, db') :: 'e fs_error + fs_row \<times> 'x fs_db)"
    by (auto simp: fs_current_def outcome_simps)
  have [simp]: "fs_id row0 = i" using tbl_get_mem[OF r0] by simp
  show ?thesis
    using e assms(2) r0
    by (auto simp: fs_expire_if_needed_def fs_end_def Let_def outcome_simps fs_live_def
        table_simps split: if_splits)
qed

text \<open>Otherwise the row is the one stored, expired first when it was due.\<close>

lemma fs_current_cases:
  assumes "fs_current now i db = (Inr (row, db') :: 'e fs_error + fs_row \<times> 'x fs_db)"
  obtains "db' = db" "tbl_get fs_id i (fs_forms db) = Some row"
  | row0 where "db' = fs_end FsExpired now i db" "tbl_get fs_id i (fs_forms db) = Some row0" "fs_live row0"
      "tbl_get fs_id i (fs_forms db') = Some row" "fs_state row = FsExpired"
proof -
  from assms obtain row0 where r0: "tbl_get fs_id i (fs_forms db) = Some row0"
    and e: "fs_expire_if_needed now row0 db = (Inr (row, db') :: 'e fs_error + fs_row \<times> 'x fs_db)"
    by (auto simp: fs_current_def outcome_simps)
  have i: "fs_id row0 = i" using tbl_get_mem[OF r0] by simp
  show ?thesis
  proof (cases "fs_live row0 \<and> fs_expires_at row0 \<le> now")
    case True
    with e i have "db' = fs_end FsExpired now i db" "tbl_get fs_id i (fs_forms db') = Some row"
      by (auto simp: fs_expire_if_needed_def fs_live_def Let_def outcome_simps)
    moreover from this r0 i have "fs_state row = FsExpired"
      by (auto simp: fs_end_def table_simps)
    ultimately show ?thesis using that(2) r0 True by blast
  next
    case False
    with e have "db' = db" "row = row0"
      by (auto simp: fs_expire_if_needed_def fs_live_def split: if_splits)
    then show ?thesis using that(1) r0 by simp
  qed
qed

lemma fs_verify_Inr [outcome_simps]:
  "fs_verify_integrity env b row = Inr u \<longleftrightarrow>
     fs_schema_hash row = json_hash env (fs_schema row) \<and> is_ascii (fs_schema_hash row) \<and>
     (\<forall>v. b \<longrightarrow> fs_values row = Some v \<longrightarrow>
        (case fs_values_hash row of None \<Rightarrow> [] | Some h \<Rightarrow> h) = json_hash env v \<and> is_ascii (json_hash env v))"
  by (auto simp: fs_verify_integrity_def fs_check_digest_def outcome_simps compare_digest_def
      split: option.splits if_splits bool.splits)

lemma fs_submit_Inr:
  assumes "fs_submit env now now2 i token cookie vals p db = Inr (v, db')"
  shows "\<exists>row session. tbl_get fs_id i (fs_forms db) = Some row \<and> fs_state row = FsPending \<and>
    now2 < fs_expires_at row \<and> token = cookie \<and> cookie \<noteq> [] \<and>
    fs_find_session i p (token_hash env token) db = Some session \<and> is_object vals \<and>
    \<not> list_ex (\<lambda>r. fs_id r = i \<and> fs_state r = FsPending \<and>
                    (fs_values r \<noteq> None \<or> fs_values_hash r \<noteq> None)) (fs_forms db) \<and>
    db' = fs_mark_submitted now i (canon vals) (json_hash env (canon vals)) db"
  using assms
  by (auto simp: fs_submit_def outcome_simps Let_def csrf_ok_def fs_live_def
      split: if_splits option.splits bool.splits dest!: fs_current_live)

lemma fs_issue_csrf_Inr:
  assumes "fs_issue_csrf env token now now2 sid i p db = Inr (t, db')"
  shows "\<exists>row. tbl_get fs_id i (fs_forms db) = Some row \<and> fs_state row = FsPending \<and>
    now2 < fs_expires_at row \<and> t = token \<and> fs_forms db' = fs_forms db \<and> fs_other db' = fs_other db \<and>
    token_hash env token \<notin> set (map fss_csrf_hash (fs_sessions db)) \<and>
    (\<exists>e. fs_sessions db' = fs_sessions db @
      [\<lparr>fss_id = sid, fss_form = i, fss_presentation = p, fss_endpoint = e,
        fss_csrf_hash = token_hash env token, fss_state = FssPending, fss_created_at = now,
        fss_expires_at = fs_expires_at row, fss_consumed_at = None\<rparr>]) \<and>
    map (\<lambda>q. (fsp_id q, fsp_form q, fsp_state q)) (fs_presentations db') =
    map (\<lambda>q. (fsp_id q, fsp_form q, fsp_state q)) (fs_presentations db)"
  using assms
  by (auto simp: fs_issue_csrf_def outcome_simps table_simps Let_def fs_live_def fs_insert_session_def
      tbl_update_def split: if_splits option.splits dest!: fs_current_live)

lemma fs_consume_Inr:
  assumes "fs_consume env now now2 i b oid db = Inr (v, db')"
  shows "\<exists>row. tbl_get fs_id i (fs_forms db) = Some row \<and> fs_state row = FsSubmitted \<and>
    now2 < fs_expires_at row \<and> fs_bound_to row b \<and>
    db' = fs_mark_consumed now i oid db \<and> fv_values v = fs_values row"
proof -
  obtain row where row: "tbl_get fs_id i (fs_forms db) = Some row" "fs_state row = FsSubmitted"
      "now2 < fs_expires_at row" "fs_bound_to row b"
    and db': "db' = fs_mark_consumed now i oid db"
    and sel: "\<exists>r. tbl_get fs_id i (fs_forms db') = Some r \<and> v = submission_from_row True r"
    using assms
    by (auto simp: fs_consume_def outcome_simps Let_def fs_live_def
        split: if_splits dest!: fs_current_live)
  from sel row(1) db' have "fv_values v = fs_values row"
    by (auto simp: fs_mark_consumed_def table_simps submission_from_row_def)
  with row db' show ?thesis by blast
qed

subsection \<open>Invariant\<close>

definition fs_keys :: "'x fs_db \<Rightarrow> bool" where
  "fs_keys db \<longleftrightarrow> distinct (map fs_id (fs_forms db)) \<and> distinct (map fsp_id (fs_presentations db)) \<and>
     distinct (map fss_csrf_hash (fs_sessions db))"

text \<open>Only a pending form has open card sessions and active presentations.\<close>

definition fs_cards_closed :: "'x fs_db \<Rightarrow> bool" where
  "fs_cards_closed db \<longleftrightarrow>
     (\<forall>s \<in> set (fs_sessions db). fss_state s = FssPending \<longrightarrow> fs_status db (fss_form s) = Some FsPending) \<and>
     (\<forall>p \<in> set (fs_presentations db). fsp_state p = FspActive \<longrightarrow> fs_status db (fsp_form p) = Some FsPending)"

definition fs_slot :: "fs_row \<Rightarrow> string \<times> string \<times> string" where
  "fs_slot r = (fs_user r, fs_capability r, fs_supersession_key r)"

text \<open>At most one live form per user, capability and supersession key.\<close>

definition fs_one_live :: "'x fs_db \<Rightarrow> bool" where
  "fs_one_live db \<longleftrightarrow>
     (\<forall>r \<in> set (fs_forms db). \<forall>r' \<in> set (fs_forms db).
        fs_live r \<longrightarrow> fs_live r' \<longrightarrow> fs_slot r = fs_slot r' \<longrightarrow> fs_id r = fs_id r')"

text \<open>A form has no values before its submission and, from then on, values with their digest.\<close>

definition fs_values_ok :: "py_env \<Rightarrow> fs_row \<Rightarrow> bool" where
  "fs_values_ok env r \<longleftrightarrow>
     (fs_state r = FsPending \<longrightarrow> fs_values r = None \<and> fs_values_hash r = None) \<and>
     (fs_state r \<in> {FsSubmitted, FsConsumed} \<longrightarrow> fs_values r \<noteq> None) \<and>
     (\<forall>v. fs_values r = Some v \<longrightarrow> fs_values_hash r = Some (json_hash env v) \<and> is_object v)"

definition fs_sound :: "py_env \<Rightarrow> 'x fs_db \<Rightarrow> bool" where
  "fs_sound env db \<longleftrightarrow>
     (\<forall>r \<in> set (fs_forms db). fs_schema_hash r = json_hash env (fs_schema r) \<and> fs_values_ok env r \<and>
        fs_created_at r + 30000000 \<le> fs_expires_at r \<and> fs_expires_at r \<le> fs_created_at r + 1800000000)"

definition fs_inv :: "py_env \<Rightarrow> 'x fs_db \<Rightarrow> bool" where
  "fs_inv env db \<longleftrightarrow> fs_keys db \<and> fs_cards_closed db \<and> fs_one_live db \<and> fs_sound env db"

lemmas fs_inv_defs = fs_inv_def fs_keys_def fs_cards_closed_def fs_one_live_def fs_sound_def

lemma fs_inv_empty: "fs_inv env (fs_empty x)"
  by (simp add: fs_inv_defs fs_empty_def)

text \<open>
  Most operations rewrite the rows of the three tables in place. Such a rewrite keeps the
  invariant when no row comes to life and every card of a form that stops being
  pending is closed.
\<close>

definition fs_rewrite ::
  "(fs_row \<Rightarrow> fs_row) \<Rightarrow> (fsp_row \<Rightarrow> fsp_row) \<Rightarrow> (fss_row \<Rightarrow> fss_row) \<Rightarrow> 'x fs_db \<Rightarrow> 'x fs_db \<Rightarrow> bool" where
  "fs_rewrite f g h db db' \<longleftrightarrow>
     fs_forms db' = map f (fs_forms db) \<and> fs_presentations db' = map g (fs_presentations db) \<and>
     fs_sessions db' = map h (fs_sessions db)"

lemma fs_rewrite_status:
  assumes "fs_rewrite f g h db db'" and "\<And>r. fs_id (f r) = fs_id r"
  shows "fs_status db' k = map_option (\<lambda>r. fs_state (f r)) (tbl_get fs_id k (fs_forms db))"
  using assms by (simp add: fs_rewrite_def fs_status_def tbl_get_map option.map_comp comp_def)

lemma fs_rewrite_inv:
  assumes inv: "fs_inv env db" and rw: "fs_rewrite f g h db db'"
    and f: "\<And>r. fs_id (f r) = fs_id r \<and> fs_contract (f r) = fs_contract r"
    and live: "\<And>r. fs_live (f r) \<Longrightarrow> fs_live r"
    and vals: "\<And>r. r \<in> set (fs_forms db) \<Longrightarrow> fs_values_ok env r \<Longrightarrow> fs_values_ok env (f r)"
    and g: "\<And>p. fsp_id (g p) = fsp_id p \<and> fsp_form (g p) = fsp_form p"
    and h: "\<And>s. fss_csrf_hash (h s) = fss_csrf_hash s \<and> fss_form (h s) = fss_form s"
    and g_closed: "\<And>p r. fsp_state (g p) = FspActive \<Longrightarrow> r \<in> set (fs_forms db) \<Longrightarrow> fs_id r = fsp_form p \<Longrightarrow>
        fs_state r = FsPending \<Longrightarrow> fs_state (f r) = FsPending"
    and g_open: "\<And>p. fsp_state (g p) = FspActive \<Longrightarrow> fsp_state p = FspActive"
    and h_closed: "\<And>s r. fss_state (h s) = FssPending \<Longrightarrow> r \<in> set (fs_forms db) \<Longrightarrow> fs_id r = fss_form s \<Longrightarrow>
        fs_state r = FsPending \<Longrightarrow> fs_state (f r) = FsPending"
    and h_open: "\<And>s. fss_state (h s) = FssPending \<Longrightarrow> fss_state s = FssPending"
  shows "fs_inv env db'"
proof -
  have rows: "fs_forms db' = map f (fs_forms db)" "fs_presentations db' = map g (fs_presentations db)"
    "fs_sessions db' = map h (fs_sessions db)"
    using rw by (simp_all add: fs_rewrite_def)
  have status: "fs_status db' k = map_option (\<lambda>r. fs_state (f r)) (tbl_get fs_id k (fs_forms db))" for k
    using fs_rewrite_status[OF rw] f by blast
  have pend: "fs_status db' k = Some FsPending"
    if "fs_status db k = Some FsPending"
      and "\<And>r. r \<in> set (fs_forms db) \<Longrightarrow> fs_id r = k \<Longrightarrow> fs_state r = FsPending \<Longrightarrow> fs_state (f r) = FsPending" for k
  proof -
    from that(1) obtain r where r: "tbl_get fs_id k (fs_forms db) = Some r" "fs_state r = FsPending"
      by (auto simp: fs_status_def)
    with that(2) tbl_get_mem[OF r(1)] show ?thesis by (simp add: status)
  qed
  have contract: "fs_schema_hash (f r) = fs_schema_hash r" "fs_schema (f r) = fs_schema r"
    "fs_created_at (f r) = fs_created_at r" "fs_expires_at (f r) = fs_expires_at r"
    "fs_slot (f r) = fs_slot r" for r
    using f[of r] by (auto simp: fs_contract_def fs_slot_def)
  have ids: "fs_id (f r) = fs_id r" for r
    using f by blast
  have "fs_keys db'"
    using inv f g h by (simp add: fs_inv_defs rows comp_def)
  moreover have "fs_cards_closed db'"
    using inv g_open h_open g_closed h_closed g h
    by (fastforce simp: fs_inv_def fs_cards_closed_def rows intro!: pend)
  moreover have one: "fs_id r = fs_id r'"
    if "r \<in> set (fs_forms db)" "r' \<in> set (fs_forms db)" "fs_live r" "fs_live r'" "fs_slot r = fs_slot r'" for r r'
    using inv that unfolding fs_inv_def fs_one_live_def by blast
  then have "fs_one_live db'"
    unfolding fs_one_live_def rows by (clarsimp simp: ids contract) (blast intro: one live)
  moreover have "fs_sound env db'"
    using inv vals by (auto simp: fs_inv_def fs_sound_def rows contract)
  ultimately show ?thesis by (simp add: fs_inv_def)
qed

lemma fs_end_rows:
  "fs_forms (fs_end state now i db) = tbl_update (\<lambda>r. fs_id r = i)
     (\<lambda>r. r\<lparr>fs_state := state, fs_csrf_hash := None, fs_updated_at := now\<rparr>) (fs_forms db)"
  "fs_presentations (fs_end state now i db) = tbl_update (\<lambda>r. fsp_state r = FspActive \<and> fsp_form r = i)
     (\<lambda>r. r\<lparr>fsp_state := FspExpired, fsp_updated_at := now\<rparr>) (fs_presentations db)"
  "fs_sessions (fs_end state now i db) = tbl_update (\<lambda>r. fss_state r = FssPending \<and> fss_form r = i)
     (\<lambda>r. r\<lparr>fss_state := FssExpired\<rparr>) (fs_sessions db)"
  by (simp_all add: fs_end_def)

lemma fs_mark_submitted_rows:
  "fs_forms (fs_mark_submitted now i v h db) = tbl_update (\<lambda>r. fs_id r = i \<and> fs_state r = FsPending)
     (\<lambda>r. r\<lparr>fs_state := FsSubmitted, fs_values := Some v, fs_values_hash := Some h,
             fs_csrf_hash := None, fs_submitted_at := Some now, fs_updated_at := now\<rparr>) (fs_forms db)"
  "fs_presentations (fs_mark_submitted now i v h db) = tbl_update (\<lambda>r. fsp_form r = i)
     (\<lambda>r. r\<lparr>fsp_state := FspSubmitted, fsp_submitted_at := Some now, fsp_updated_at := now\<rparr>) (fs_presentations db)"
  "fs_sessions (fs_mark_submitted now i v h db) = tbl_update (\<lambda>r. fss_form r = i \<and> fss_state r = FssPending)
     (\<lambda>r. r\<lparr>fss_state := FssConsumed, fss_consumed_at := Some now\<rparr>) (fs_sessions db)"
  by (simp_all add: fs_mark_submitted_def Let_def)

lemmas fs_rows = fs_end_rows fs_mark_submitted_rows tbl_update_def

lemma fs_end_inv:
  "fs_inv env db \<Longrightarrow> state \<in> {FsExpired, FsSuperseded} \<Longrightarrow> fs_inv env (fs_end state now i db)"
  by (erule fs_rewrite_inv, (unfold fs_rewrite_def fs_rows, intro conjI; rule refl))
     (auto simp: fs_contract_def fs_live_def fs_values_ok_def split: if_splits)

lemma is_object_canon [simp]: "is_object (canon v) = is_object v"
  by (cases v) (simp_all add: is_object_def)

lemma fs_mark_submitted_inv:
  "fs_inv env db \<Longrightarrow> is_object v \<Longrightarrow> fs_inv env (fs_mark_submitted now i (canon v) (json_hash env (canon v)) db)"
  by (erule fs_rewrite_inv, (unfold fs_rewrite_def fs_rows, intro conjI; rule refl))
     (auto simp: fs_contract_def fs_live_def fs_values_ok_def split: if_splits)

lemma fs_mark_consumed_inv: "fs_inv env db \<Longrightarrow> fs_inv env (fs_mark_consumed now i oid db)"
  by (erule fs_rewrite_inv[where g = id and h = id and f = "\<lambda>r. if fs_id r = i \<and> fs_state r = FsSubmitted
        then r\<lparr>fs_state := FsConsumed, fs_consume_operation := Some oid,
               fs_consumed_at := Some now, fs_updated_at := now\<rparr> else r"])
     (auto simp: fs_rewrite_def fs_mark_consumed_def tbl_update_def fs_contract_def fs_live_def
       fs_values_ok_def split: if_splits)

lemma fs_current_inv: "fs_inv env db \<Longrightarrow> fs_current now i db = Inr (row, db') \<Longrightarrow> fs_inv env db'"
  by (erule fs_current_cases) (auto intro: fs_end_inv)

lemma fs_other_inv [simp]: "fs_inv env (db\<lparr>fs_other := x\<rparr>) = fs_inv env db"
  by (simp add: fs_inv_defs fs_status_def)

lemma fs_supersede_matching_rows:
  "fs_forms (fs_supersede_matching now user capability skey db) =
     tbl_update (\<lambda>r. fs_user r = user \<and> fs_capability r = capability \<and> fs_supersession_key r = skey \<and>
                      fs_state r \<in> {FsPending, FsSubmitted})
       (\<lambda>r. r\<lparr>fs_state := FsSuperseded, fs_csrf_hash := None, fs_updated_at := now\<rparr>) (fs_forms db)"
  by (simp add: fs_supersede_matching_def Let_def)

text \<open>Every form that creation displaces is in the list whose cards it closes.\<close>

lemma fs_superseded_ids:
  assumes "r \<in> set rows" "fs_user r = user" "fs_capability r = capability" "fs_supersession_key r = skey"
    "fs_state r \<in> {FsPending, FsSubmitted}"
  shows "fs_id r \<in> set (map fs_id (filter (\<lambda>r. fs_user r = user \<and> fs_capability r = capability \<and>
            fs_state r = FsSuperseded) (map (\<lambda>r. if fs_user r = user \<and> fs_capability r = capability \<and>
              fs_supersession_key r = skey \<and> fs_state r \<in> {FsPending, FsSubmitted}
            then r\<lparr>fs_state := FsSuperseded, fs_csrf_hash := None, fs_updated_at := now\<rparr> else r) rows)))"
proof -
  let ?f = "\<lambda>r. r\<lparr>fs_state := FsSuperseded, fs_csrf_hash := None, fs_updated_at := now\<rparr>"
  have "fs_user (?f r) = user \<and> fs_capability (?f r) = capability \<and> fs_state (?f r) = FsSuperseded \<and> fs_id (?f r) = fs_id r"
    using assms by simp
  then show ?thesis
    using assms unfolding set_map set_filter
    by (intro image_eqI[where x = "?f r"] CollectI conjI image_eqI[where x = r]) simp_all
qed

lemma fs_supersede_matching_inv:
  assumes inv: "fs_inv env db"
  shows "fs_inv env (fs_supersede_matching now user capability skey db)"
proof -
  let ?P = "\<lambda>r. fs_user r = user \<and> fs_capability r = capability \<and> fs_supersession_key r = skey \<and>
                 fs_state r \<in> {FsPending, FsSubmitted}"
  let ?F = "\<lambda>r. if ?P r then r\<lparr>fs_state := FsSuperseded, fs_csrf_hash := None, fs_updated_at := now\<rparr> else r"
  define S where "S = set (map fs_id (filter (\<lambda>r. fs_user r = user \<and> fs_capability r = capability \<and>
            fs_state r = FsSuperseded) (map ?F (fs_forms db))))"
  have S: "fs_id r \<in> S" if "r \<in> set (fs_forms db)" "?P r" for r
    unfolding S_def using that by (intro fs_superseded_ids) simp_all
  have rw: "fs_rewrite ?F
     (\<lambda>p. if fsp_state p = FspActive \<and> fsp_form p \<in> S then p\<lparr>fsp_state := FspExpired, fsp_updated_at := now\<rparr> else p)
     (\<lambda>s. if fss_state s = FssPending \<and> fss_form s \<in> S then s\<lparr>fss_state := FssExpired\<rparr> else s)
     db (fs_supersede_matching now user capability skey db)"
    unfolding fs_rewrite_def fs_supersede_matching_def Let_def fs_set_forms_sel
         fs_expire_presentations_sel fs_expire_sessions_sel tbl_update_def S_def
    by (intro conjI; rule refl)
  have keep: "fs_state (?F r) = FsPending"
    if "r \<in> set (fs_forms db)" "fs_id r \<notin> S" "fs_state r = FsPending" for r
    using S[OF that(1)] that(2,3) by (cases "?P r") simp_all
  show ?thesis
  proof (rule fs_rewrite_inv[OF inv rw], goal_cases)
    case 1 show ?case by (simp add: fs_contract_def)
  next
    case 2 then show ?case by (simp add: fs_live_def split: if_splits)
  next
    case 3 then show ?case by (auto simp: fs_values_ok_def)
  next
    case (6 p r)
    then have "fs_id r \<notin> S" by (auto split: if_splits)
    with 6 show ?case using keep by blast
  next
    case (8 s r)
    then have "fs_id r \<notin> S" by (auto split: if_splits)
    with 8 show ?case using keep by blast
  qed (simp_all split: if_splits)
qed

lemma fs_supersede_matching_clears:
  assumes "r \<in> set (fs_forms (fs_supersede_matching now user capability skey db))"
    and "fs_slot r = (user, capability, skey)"
  shows "\<not> fs_live r"
proof -
  let ?P = "\<lambda>r. fs_user r = user \<and> fs_capability r = capability \<and> fs_supersession_key r = skey \<and>
                 fs_state r \<in> {FsPending, FsSubmitted}"
  from assms(1) obtain q where r: "r = (if ?P q then q\<lparr>fs_state := FsSuperseded, fs_csrf_hash := None,
      fs_updated_at := now\<rparr> else q)"
    unfolding fs_supersede_matching_rows tbl_update_def set_map by (rule imageE)
  show ?thesis
  proof (cases "?P q")
    case True
    then show ?thesis using r by (simp add: fs_live_def)
  next
    case False
    then have "r = q" using r by presburger
    then show ?thesis using False assms(2) by (auto simp: fs_live_def fs_slot_def)
  qed
qed

lemma fs_status_append:
  "fs_status db k = Some s \<Longrightarrow> fs_status (db\<lparr>fs_forms := fs_forms db @ [row]\<rparr>) k = Some s"
  by (auto simp: fs_status_def table_simps)

lemma fs_insert_form_inv:
  assumes inv: "fs_inv env db" and new: "fs_id row \<notin> set (map fs_id (fs_forms db))"
    and slot: "\<And>r. r \<in> set (fs_forms db) \<Longrightarrow> fs_slot r = fs_slot row \<Longrightarrow> \<not> fs_live r"
    and sound: "fs_schema_hash row = json_hash env (fs_schema row)" "fs_values_ok env row"
      "fs_created_at row + 30000000 \<le> fs_expires_at row" "fs_expires_at row \<le> fs_created_at row + 1800000000"
  shows "fs_inv env (db\<lparr>fs_forms := fs_forms db @ [row]\<rparr>)"
proof -
  have one: "fs_id r = fs_id r'"
    if "r \<in> set (fs_forms db)" "r' \<in> set (fs_forms db)" "fs_live r" "fs_live r'" "fs_slot r = fs_slot r'" for r r'
    using inv that unfolding fs_inv_def fs_one_live_def by blast
  have both: "fs_id r = fs_id r'"
    if "r \<in> set (fs_forms db @ [row])" "r' \<in> set (fs_forms db @ [row])" "fs_live r" "fs_live r'"
       "fs_slot r = fs_slot r'" for r r'
  proof (cases "r = row"; cases "r' = row")
    assume "r = row" "r' \<noteq> row"
    then show ?thesis using that slot[of r'] by auto
  next
    assume "r \<noteq> row" "r' = row"
    then show ?thesis using that slot[of r] by auto
  next
    assume "r \<noteq> row" "r' \<noteq> row"
    then show ?thesis using that one[of r r'] by simp
  qed simp
  have rows: "fs_forms (db\<lparr>fs_forms := fs_forms db @ [row]\<rparr>) = fs_forms db @ [row]"
    by simp
  have "fs_one_live (db\<lparr>fs_forms := fs_forms db @ [row]\<rparr>)"
    unfolding fs_one_live_def rows by (intro ballI impI) (rule both)
  moreover have "fs_cards_closed (db\<lparr>fs_forms := fs_forms db @ [row]\<rparr>)"
    using inv by (auto simp: fs_inv_def fs_cards_closed_def intro!: fs_status_append)
  moreover have "fs_keys (db\<lparr>fs_forms := fs_forms db @ [row]\<rparr>)"
    using inv new by (simp add: fs_inv_def fs_keys_def)
  moreover have "fs_sound env (db\<lparr>fs_forms := fs_forms db @ [row]\<rparr>)"
    using inv sound by (auto simp: fs_inv_def fs_sound_def)
  ultimately show ?thesis by (simp add: fs_inv_def)
qed

text \<open>The parts of the invariant that read only the forms.\<close>

lemma fs_forms_only:
  assumes "fs_forms db' = fs_forms db"
  shows "fs_one_live db' = fs_one_live db" "fs_sound env db' = fs_sound env db" "fs_status db' = fs_status db"
  unfolding fs_one_live_def fs_sound_def fs_status_def assms by (rule refl)+

lemma fs_new_row_sel [simp]:
  "fs_id (fs_new_row env now token base req) = token"
  "fs_state (fs_new_row env now token base req) = FsPending"
  "fs_slot (fs_new_row env now token base req) = (fr_user req, fr_capability req, py_strip (fr_supersession_key req))"
  "fs_values_ok env (fs_new_row env now token base req)"
  "fs_schema (fs_new_row env now token base req) = canon (fr_schema req)"
  "fs_schema_hash (fs_new_row env now token base req) = json_hash env (canon (fr_schema req))"
  "fs_created_at (fs_new_row env now token base req) = now"
  "fs_expires_at (fs_new_row env now token base req) = now + fr_ttl_seconds req * 1000000"
  by (simp_all add: fs_new_row_def fs_slot_def fs_values_ok_def)

lemma fs_create_Inr:
  assumes "fs_create env now token req db = Inr (v, db')"
  shows "\<exists>base. token \<notin> set (map fs_id (fs_forms db)) \<and> 30 \<le> fr_ttl_seconds req \<and> fr_ttl_seconds req \<le> 1800 \<and>
    validate_card_base_url env (fr_card_base_url req) = Some base \<and>
    (let db1 = fs_supersede_matching now (fr_user req) (fr_capability req) (py_strip (fr_supersession_key req)) db
     in db' = db1\<lparr>fs_forms := fs_forms db1 @ [fs_new_row env now token base req]\<rparr>)"
proof -
  have keys: "map fs_id (fs_forms (fs_supersede_matching now u c k db)) = map fs_id (fs_forms db)" for u c k
    by (simp add: fs_supersede_matching_rows table_simps)
  then have ids: "fs_id ` set (fs_forms (fs_supersede_matching now u c k db)) = fs_id ` set (fs_forms db)" for u c k
    by (metis list.set_map)
  show ?thesis
    using assms
    by (auto simp: fs_create_def outcome_simps Let_def tbl_insert_Some ids split: option.splits)
qed

lemma fs_create_inv:
  assumes "fs_inv env db" and "fs_create env now token req db = Inr (v, db')"
  shows "fs_inv env db'"
proof -
  let ?db1 = "fs_supersede_matching now (fr_user req) (fr_capability req) (py_strip (fr_supersession_key req)) db"
  from fs_create_Inr[OF assms(2)] obtain base where
    new: "token \<notin> set (map fs_id (fs_forms db))" "30 \<le> fr_ttl_seconds req" "fr_ttl_seconds req \<le> 1800"
    and db': "db' = ?db1\<lparr>fs_forms := fs_forms ?db1 @ [fs_new_row env now token base req]\<rparr>"
    by (auto simp: Let_def)
  have "map fs_id (fs_forms ?db1) = map fs_id (fs_forms db)"
    by (simp add: fs_supersede_matching_rows table_simps)
  then show ?thesis
    unfolding db' using new fs_supersede_matching_inv[OF assms(1)]
    by (intro fs_insert_form_inv) (auto dest: fs_supersede_matching_clears)
qed

lemma fs_create_presentation_cases:
  assumes "fs_create_presentation now now2 token i user endpoint db = (Inr (p, db') :: 'e fs_error + fsp_row \<times> 'x fs_db)"
  shows "\<exists>form db1. fs_current now2 i db = (Inr (form, db1) :: 'e fs_error + fs_row \<times> 'x fs_db) \<and>
    fs_user form = py_strip user \<and>
    (db' = db1 \<or> (token \<notin> set (map fsp_id (fs_presentations db1)) \<and>
        db' = db1\<lparr>fs_presentations := fs_presentations db1 @
          [fsp_new_row now token i (py_strip user) (py_strip endpoint) form]\<rparr>))"
proof -
  have [simp]: "fsp_id (fsp_new_row now token i u e form) = token" for u e form
    by (simp add: fsp_new_row_def)
  show ?thesis
    using assms unfolding fs_create_presentation_def Let_def
    by (auto simp: outcome_simps tbl_insert_Some split: if_splits option.splits)
qed

lemma fs_insert_presentation_inv:
  assumes inv: "fs_inv env db" and new: "fsp_id row \<notin> set (map fsp_id (fs_presentations db))"
    and st: "fsp_state row = FspActive \<Longrightarrow> fs_status db (fsp_form row) = Some FsPending"
  shows "fs_inv env (db\<lparr>fs_presentations := fs_presentations db @ [row]\<rparr>)"
proof -
  let ?db = "db\<lparr>fs_presentations := fs_presentations db @ [row]\<rparr>"
  have "fs_forms ?db = fs_forms db" by simp
  note same = fs_forms_only[OF this]
  have "fs_cards_closed ?db"
    using inv st unfolding fs_cards_closed_def same fs_inv_def by auto
  then show ?thesis
    using inv new unfolding fs_inv_def same by (simp add: fs_keys_def)
qed

lemma fs_create_presentation_inv:
  assumes "fs_inv env db"
    and "fs_create_presentation now now2 token i user endpoint db = (Inr (p, db') :: 'e fs_error + fsp_row \<times> 'x fs_db)"
  shows "fs_inv env db'"
proof -
  from fs_create_presentation_cases[OF assms(2)] obtain form db1 where
    cur: "fs_current now2 i db = (Inr (form, db1) :: 'e fs_error + fs_row \<times> 'x fs_db)"
    and rest: "db' = db1 \<or> (token \<notin> set (map fsp_id (fs_presentations db1)) \<and>
        db' = db1\<lparr>fs_presentations := fs_presentations db1 @
          [fsp_new_row now token i (py_strip user) (py_strip endpoint) form]\<rparr>)"
    by blast
  have inv1: "fs_inv env db1" using fs_current_inv[OF assms(1) cur] .
  have st: "fs_status db1 i = Some (fs_state form)"
    using cur by (rule fs_current_cases) (auto simp: fs_status_def)
  show ?thesis
  proof (cases "db' = db1")
    case False
    then have new: "token \<notin> set (map fsp_id (fs_presentations db1))"
      and db': "db' = db1\<lparr>fs_presentations := fs_presentations db1 @
          [fsp_new_row now token i (py_strip user) (py_strip endpoint) form]\<rparr>"
      using rest by simp_all
    show ?thesis
      unfolding db' using new
      by (intro fs_insert_presentation_inv[OF inv1])
         (auto simp: fsp_new_row_def fsp_state_for_def st split: if_splits)
  qed (use inv1 in simp)
qed

lemma fs_issue_csrf_inv:
  assumes inv: "fs_inv env db" and run: "fs_issue_csrf env token now now2 sid i p db = Inr (t, db')"
  shows "fs_inv env db'"
proof -
  from fs_issue_csrf_Inr[OF run] obtain row s where
    row: "tbl_get fs_id i (fs_forms db) = Some row" "fs_state row = FsPending"
    and rows: "fs_forms db' = fs_forms db" "fs_sessions db' = fs_sessions db @ [s]"
    and s: "fss_form s = i" "fss_csrf_hash s \<notin> set (map fss_csrf_hash (fs_sessions db))"
    and pres: "map (\<lambda>q. (fsp_id q, fsp_form q, fsp_state q)) (fs_presentations db') =
      map (\<lambda>q. (fsp_id q, fsp_form q, fsp_state q)) (fs_presentations db)"
    by force
  have status: "fs_status db' = fs_status db"
    using rows(1) by (simp add: fs_status_def fun_eq_iff)
  have ids: "map fsp_id (fs_presentations db') = map fsp_id (fs_presentations db)"
    using arg_cong[OF pres, of "map fst"] by (simp add: comp_def)
  have old: "\<exists>q' \<in> set (fs_presentations db). fsp_form q' = fsp_form q \<and> fsp_state q' = fsp_state q"
    if "q \<in> set (fs_presentations db')" for q
  proof -
    have "(fsp_id q, fsp_form q, fsp_state q) \<in> set (map (\<lambda>q. (fsp_id q, fsp_form q, fsp_state q)) (fs_presentations db))"
      unfolding pres[symmetric] using that by simp
    then show ?thesis by auto
  qed
  have "fs_status db i = Some FsPending"
    using row by (simp add: fs_status_def)
  then have "fss_state x = FssPending \<longrightarrow> fs_status db (fss_form x) = Some FsPending"
    if "x \<in> set (fs_sessions db')" for x
    using that inv s(1) unfolding rows(2) fs_inv_def fs_cards_closed_def by auto
  moreover have "fsp_state q = FspActive \<longrightarrow> fs_status db (fsp_form q) = Some FsPending"
    if "q \<in> set (fs_presentations db')" for q
    using old[OF that] inv unfolding fs_inv_def fs_cards_closed_def by metis
  ultimately have "fs_cards_closed db'"
    unfolding fs_cards_closed_def status by blast
  then show ?thesis
    using inv s rows ids fs_forms_only[OF rows(1)] by (simp add: fs_inv_def fs_keys_def)
qed

subsection \<open>What one operation does to a form\<close>

text \<open>
  The row of a form before and after an operation: the contract stands, values once present
  stand, and the state moves.
\<close>

definition fs_moves :: "fs_row \<Rightarrow> fs_row \<Rightarrow> bool" where
  "fs_moves r r' \<longleftrightarrow> fs_contract r' = fs_contract r \<and> (fs_values r \<noteq> None \<longrightarrow> fs_values r' = fs_values r) \<and>
     fs_edge\<^sup>*\<^sup>* (fs_state r) (fs_state r')"

lemma fs_moves_refl [simp]: "fs_moves r r"
  by (simp add: fs_moves_def)

lemma fs_moves_edge:
  "fs_contract r' = fs_contract r \<Longrightarrow> (fs_values r \<noteq> None \<Longrightarrow> fs_values r' = fs_values r) \<Longrightarrow>
   fs_edge (fs_state r) (fs_state r') \<Longrightarrow> fs_moves r r'"
  by (auto simp: fs_moves_def)

lemma fs_live_edges:
  "fs_live r \<Longrightarrow> fs_edge (fs_state r) FsExpired" "fs_live r \<Longrightarrow> fs_edge (fs_state r) FsSuperseded"
  by (auto simp: fs_live_def intro: fs_edge.intros)

lemma fs_update_moves:
  assumes "tbl_get fs_id k rows = Some r"
    and "\<And>r. fs_id (f r) = fs_id r" and "P r \<Longrightarrow> fs_moves r (f r)"
  shows "\<exists>r'. tbl_get fs_id k (tbl_update P f rows) = Some r' \<and> fs_moves r r'"
  using assms by (simp add: table_simps)

lemmas fs_map_moves = fs_update_moves[unfolded tbl_update_def]

lemma fs_current_row:
  assumes "fs_current now i db = (Inr (row, db') :: 'e fs_error + fs_row \<times> 'x fs_db)"
    and "tbl_get fs_id k (fs_forms db) = Some r"
  shows "\<exists>r'. tbl_get fs_id k (fs_forms db') = Some r' \<and> fs_moves r r'"
  using assms(1)
proof (rule fs_current_cases)
  fix row0
  assume db': "db' = fs_end FsExpired now i db" and r0: "tbl_get fs_id i (fs_forms db) = Some row0" "fs_live row0"
  show ?thesis
    unfolding db' fs_end_rows
    by (rule fs_update_moves[OF assms(2)])
       (use r0 assms(2) tbl_get_mem[OF assms(2)] in \<open>auto simp: fs_contract_def intro!: fs_moves_edge fs_live_edges\<close>)
qed (use assms(2) in auto)

lemma fs_create_row:
  assumes "fs_create env now token req db = Inr (v, db')" and "tbl_get fs_id k (fs_forms db) = Some r"
  shows "\<exists>r'. tbl_get fs_id k (fs_forms db') = Some r' \<and> fs_moves r r'"
proof -
  let ?db1 = "fs_supersede_matching now (fr_user req) (fr_capability req) (py_strip (fr_supersession_key req)) db"
  have "\<exists>r'. tbl_get fs_id k (fs_forms ?db1) = Some r' \<and> fs_moves r r'"
    unfolding fs_supersede_matching_rows
    by (rule fs_update_moves[OF assms(2)])
       (auto simp: fs_contract_def intro!: fs_moves_edge intro: fs_edge.intros)
  then show ?thesis
    using fs_create_Inr[OF assms(1)] by (auto simp: Let_def table_simps)
qed

lemma fs_consume_row:
  assumes "fs_consume env now now2 i b oid db = Inr (v, db')" and "tbl_get fs_id k (fs_forms db) = Some r"
  shows "\<exists>r'. tbl_get fs_id k (fs_forms db') = Some r' \<and> fs_moves r r'"
proof -
  from fs_consume_Inr[OF assms(1)] have db': "db' = fs_mark_consumed now i oid db"
    by blast
  show ?thesis
    unfolding db' fs_mark_consumed_def fs_set_forms_sel
    by (rule fs_update_moves)
       (use assms(2) in \<open>auto simp: fs_contract_def intro!: fs_moves_edge fs_edge.intros\<close>)
qed

lemma fs_submit_row:
  assumes "fs_submit env now now2 i token cookie vals p db = Inr (v, db')"
    and r: "tbl_get fs_id k (fs_forms db) = Some r"
  shows "\<exists>r'. tbl_get fs_id k (fs_forms db') = Some r' \<and> fs_moves r r'"
proof -
  from fs_submit_Inr[OF assms(1)] have
    fresh: "\<not> list_ex (\<lambda>r. fs_id r = i \<and> fs_state r = FsPending \<and>
                    (fs_values r \<noteq> None \<or> fs_values_hash r \<noteq> None)) (fs_forms db)"
    and db': "db' = fs_mark_submitted now i (canon vals) (json_hash env (canon vals)) db" by blast+
  have "fs_values r = None" if "fs_id r = i" "fs_state r = FsPending"
    using fresh that tbl_get_mem[OF r] by (auto simp: list_ex_iff)
  then show ?thesis
    unfolding db' fs_rows
    by (intro fs_map_moves[OF r]) (auto simp: fs_contract_def intro!: fs_moves_edge fs_edge.intros)
qed

lemma fs_supersede_Inr:
  assumes "fs_supersede now i user po cb db = Inr (u, db')"
  shows "\<exists>row. tbl_get fs_id i (fs_forms db) = Some row \<and> fs_user row = user \<and>
    (db' = db \<and> \<not> fs_live row \<or>
     (\<exists>x. fs_live row \<and> fs_run_callback cb db = (Inr (db\<lparr>fs_other := x\<rparr>) :: 'e fs_error + 'x fs_db) \<and>
        db' = fs_end FsSuperseded now i (db\<lparr>fs_other := x\<rparr>)))"
proof -
  have cb: "\<exists>x. db2 = db\<lparr>fs_other := x\<rparr>" if "fs_run_callback cb db = (Inr db2 :: 'e fs_error + 'x fs_db)" for db2 :: "'x fs_db"
    using that by (cases db) (auto simp: fs_run_callback_def split: option.splits sum.splits)
  show ?thesis
    using assms by (auto simp: fs_supersede_def outcome_simps fs_live_def split: if_splits dest: cb)
qed

lemma fs_supersede_row:
  assumes "fs_supersede now i user po cb db = (Inr (u, db') :: 'e fs_error + unit \<times> 'x fs_db)"
    and r: "tbl_get fs_id k (fs_forms db) = Some r"
  shows "\<exists>r'. tbl_get fs_id k (fs_forms db') = Some r' \<and> fs_moves r r'"
proof -
  from fs_supersede_Inr[OF assms(1)] obtain row where row: "tbl_get fs_id i (fs_forms db) = Some row"
    and or: "db' = db \<or> fs_live row \<and> (\<exists>x. db' = fs_end FsSuperseded now i (db\<lparr>fs_other := x\<rparr>))" by blast
  show ?thesis
  proof (cases "db' = db")
    case False
    with or obtain x where live: "fs_live row" and db': "db' = fs_end FsSuperseded now i (db\<lparr>fs_other := x\<rparr>)"
      by blast
    show ?thesis
      unfolding db' fs_rows fs_db.select_convs fs_db.update_convs
      by (rule fs_map_moves)
         (use r row live tbl_get_mem[OF r] in \<open>auto simp: fs_contract_def intro!: fs_moves_edge fs_live_edges\<close>)
  qed (use r in simp)
qed

lemma fs_wrap_Inr [outcome_simps]: "fs_wrap f out = Inr (v, db) \<longleftrightarrow> (\<exists>a. out = Inr (a, db) \<and> v = f a)"
  by (auto simp: fs_wrap_def outcome_simps)

lemma fs_exec_row:
  fixes db :: "'x fs_db" and op :: "('x, 'e) fs_op"
  assumes "fs_exec env op db = Inr (v, db')" and r: "tbl_get fs_id k (fs_forms db) = Some r"
  shows "\<exists>r'. tbl_get fs_id k (fs_forms db') = Some r' \<and> fs_moves r r'"
proof (cases op)
  case (FsCreatePresentation now now2 token i user endpoint)
  with assms(1) obtain p where
    "fs_create_presentation now now2 token i user endpoint db = (Inr (p, db') :: 'e fs_error + fsp_row \<times> 'x fs_db)"
    by (auto simp: outcome_simps)
  from fs_create_presentation_cases[OF this] obtain form db1 where
    cur: "fs_current now2 i db = (Inr (form, db1) :: 'e fs_error + fs_row \<times> 'x fs_db)"
    and "fs_forms db' = fs_forms db1" by auto
  with fs_current_row[OF cur r] show ?thesis by simp
next
  case (FsIssueCsrf token now now2 sid i p)
  with assms show ?thesis by (auto simp: outcome_simps dest!: fs_issue_csrf_Inr)
next
  case (FsGet now i ip)
  with assms show ?thesis by (auto simp: outcome_simps fs_get_def dest: fs_current_row)
next
  case (FsGetPresentation i p)
  with assms show ?thesis by (auto simp: outcome_simps fs_get_presentation_def)
qed (use assms in \<open>auto simp: outcome_simps dest: fs_create_row fs_consume_row fs_submit_row fs_supersede_row\<close>)

lemma fs_exec_inv: "fs_inv env db \<Longrightarrow> fs_exec env op db = Inr (v, db') \<Longrightarrow> fs_inv env db'"
proof (cases op)
  case (FsSubmit now now2 i token cookie vals p)
  assume "fs_inv env db" "fs_exec env op db = Inr (v, db')"
  with FsSubmit show ?thesis
    by (auto simp: outcome_simps intro!: fs_mark_submitted_inv dest!: fs_submit_Inr)
next
  case (FsConsume now now2 i b oid)
  assume "fs_inv env db" "fs_exec env op db = Inr (v, db')"
  with FsConsume show ?thesis
    by (auto simp: outcome_simps intro!: fs_mark_consumed_inv dest!: fs_consume_Inr)
next
  case (FsSupersede now i user po cb)
  assume "fs_inv env db" "fs_exec env op db = Inr (v, db')"
  with FsSupersede show ?thesis
    by (auto simp: outcome_simps intro!: fs_end_inv dest!: fs_supersede_Inr)
qed (auto simp: outcome_simps fs_get_def fs_get_presentation_def
      intro: fs_current_inv fs_create_inv fs_create_presentation_inv fs_issue_csrf_inv)

section \<open>The store keeps the ledger contract\<close>

definition fs_contract_of :: "'x fs_db \<Rightarrow> string \<Rightarrow> (string list \<times> json \<times> string \<times> time \<times> time) option" where
  "fs_contract_of db k = map_option fs_contract (tbl_get fs_id k (fs_forms db))"

definition fs_values_of :: "'x fs_db \<Rightarrow> string \<Rightarrow> json option" where
  "fs_values_of db k = Option.bind (tbl_get fs_id k (fs_forms db)) fs_values"

fun fs_consumes :: "('x, 'e) fs_op \<Rightarrow> string \<Rightarrow> bool" where
  "fs_consumes (FsConsume now now2 i b oid) k \<longleftrightarrow> i = k"
| "fs_consumes _ k \<longleftrightarrow> False"

fun fs_submits :: "('x, 'e) fs_op \<Rightarrow> string \<Rightarrow> bool" where
  "fs_submits (FsSubmit now now2 i token cookie vals p) k \<longleftrightarrow> i = k"
| "fs_submits _ k \<longleftrightarrow> False"

lemma fs_not_pending_closed: "s \<noteq> FsPending \<Longrightarrow> fs_edge s t \<Longrightarrow> t \<noteq> FsPending"
  by (auto elim: fs_edge.cases)

interpretation fs: one_shot "fs_exec env" "fs_inv env" fs_status fs_edge fs_consumes FsSubmitted "\<lambda>s. s = FsConsumed"
proof (unfold_locales, goal_cases)
  case (1 db op r db')
  then show ?case by (rule fs_exec_inv)
next
  case (2 db op v db' k s)
  then obtain r where "tbl_get fs_id k (fs_forms db) = Some r" "fs_state r = s"
    by (auto simp: fs_status_def)
  with fs_exec_row[OF 2(2)] show ?case by (fastforce simp: fs_status_def fs_moves_def)
next
  case (3 db op k r db')
  then obtain now now2 b oid where "op = FsConsume now now2 k b oid" by (cases op) auto
  with 3(3) show ?case
    by (auto simp: outcome_simps fs_status_def fs_mark_consumed_def table_simps dest!: fs_consume_Inr
        dest: tbl_get_mem)
qed auto

interpretation fs_submission: one_shot "fs_exec env" "fs_inv env" fs_status fs_edge fs_submits FsPending "\<lambda>s. s \<noteq> FsPending"
proof (unfold_locales, goal_cases)
  case (1 db op k r db')
  then obtain now now2 token cookie vals p where "op = FsSubmit now now2 k token cookie vals p" by (cases op) auto
  with 1(3) show ?case
    by (auto simp: outcome_simps fs_status_def fs_rows tbl_get_map dest!: fs_submit_Inr dest: tbl_get_mem)
qed (auto dest: fs_not_pending_closed)

interpretation fs_fixed: ledger "fs_exec env" "fs_inv env" fs_contract_of "\<lambda>_ _. False"
  by unfold_locales (auto simp: fs_contract_of_def fs_moves_def dest: fs_exec_row)

interpretation fs_filled: ledger "fs_exec env" "fs_inv env" fs_values_of "\<lambda>_ _. False"
  by unfold_locales (fastforce simp: fs_values_of_def fs_moves_def bind_eq_Some_conv dest: fs_exec_row)

section \<open>Properties\<close>

definition fs_demo_env :: py_env where
  "fs_demo_env = \<lparr>sha_text = (\<lambda>s. ''t'' @ s), sha_json = (\<lambda>v. if v = JDict [] then ''0'' else ''1''),
     ip_literal = (\<lambda>_. False)\<rparr>"

definition fs_demo_request :: fs_request where
  "fs_demo_request = \<lparr>fr_user = ''ann'', fr_system = ''oa'', fr_session = ''s'', fr_capability = ''leave.form'',
     fr_version = ''1'', fr_create_operation = ''op'', fr_supersession_key = [],
     fr_schema = JDict [(''fields'', JList [JStr ''days''])], fr_card_base_url = ''https://h/card'',
     fr_ttl_seconds = 600\<rparr>"

definition fs_demo_binding :: fs_binding where
  "fs_demo_binding = \<lparr>fb_user = ''ann'', fb_system = ''oa'', fb_session = ''s'', fb_capability = ''leave.form'',
     fb_version = ''1''\<rparr>"

definition fs_demo_open :: "(nat, unit) fs_op list" where
  "fs_demo_open = [FsCreate 0 ''f'' fs_demo_request, FsIssueCsrf ''tok'' 1 1 ''sid'' ''f'' None]"

definition fs_demo_submit :: "(nat, unit) fs_op list" where
  "fs_demo_submit = [FsSubmit 2 2 ''f'' ''tok'' ''tok'' (JDict [(''days'', JInt 3)]) None]"

text \<open>
  In every state the form store can reach, identifiers and CSRF digests are unique, only
  a pending form has open card sessions or active presentations, at most one form per user,
  capability and supersession key is pending or submitted, a form holds values with their
  digest exactly from its submission on, and it lives 30 seconds to 30 minutes.
\<close>

theorem fs_reachable_states_sound:
  "fs_inv env (run (fs_exec env) ops (fs_empty x))"
  by (rule fs.inv_run) (simp add: fs_inv_defs fs_empty_def)

text \<open>
  In any sequence of transactions a form is submitted successfully at most once and
  consumed successfully at most once.
\<close>

theorem fs_submitted_and_consumed_at_most_once:
  "successes (fs_exec env) (\<lambda>op. fs_submits op k) ops (fs_empty x) \<le> 1 \<and>
   successes (fs_exec env) (\<lambda>op. fs_consumes op k) ops (fs_empty x) \<le> 1"
  by (rule conjI[OF fs_submission.spent_at_most_once[OF fs_inv_empty] fs.spent_at_most_once[OF fs_inv_empty]])

text \<open>
  C19: What is consumed is what the user submitted. After a successful submission, whatever
  transactions follow, a successful consumption of that form returns the canonical form of the
  submitted values, and the submission was made on an open card session of that form, with a
  token that agrees with the cookie.
\<close>

theorem fs_consumes_what_was_submitted:
  assumes "fs_inv env db"
    and "fs_submit env now now2 i token cookie vals p db = (Inr (v0, db0) :: 'e fs_error + fs_view \<times> 'x fs_db)"
    and "fs_consume env n n2 i b oid (run (fs_exec env) ops db0) = (Inr (v, db') :: 'e fs_error + fs_view \<times> 'x fs_db)"
  shows "fv_values v = Some (canon vals) \<and> is_object vals \<and> token = cookie \<and>
    (\<exists>s \<in> set (fs_sessions db). fss_form s = i \<and> fss_presentation s = p \<and> fss_state s = FssPending \<and>
       fss_csrf_hash s = token_hash env token)"
proof -
  from fs_submit_Inr[OF assms(2)] obtain row s where
    row: "tbl_get fs_id i (fs_forms db) = Some row" "fs_state row = FsPending" "is_object vals" "token = cookie"
    and s: "fs_find_session i p (token_hash env token) db = Some s"
    and db0: "db0 = fs_mark_submitted now i (canon vals) (json_hash env (canon vals)) db" by blast
  have inv0: "fs_inv env db0"
    unfolding db0 by (rule fs_mark_submitted_inv[OF assms(1) row(3)])
  have "fs_values_of db0 i = Some (canon vals)"
    using row tbl_get_mem[OF row(1)] unfolding db0 fs_values_of_def fs_rows by (simp add: tbl_get_map)
  from fs_filled.final_run[OF inv0 this] have "fs_values_of (run (fs_exec env) ops db0) i = Some (canon vals)"
    by blast
  moreover obtain r where "tbl_get fs_id i (fs_forms (run (fs_exec env) ops db0)) = Some r" "fv_values v = fs_values r"
    using fs_consume_Inr[OF assms(3)] by blast
  ultimately show ?thesis
    using row find_Some_mem[OF s[unfolded fs_find_session_def]] by (auto simp: fs_values_of_def)
qed

theorem fs_consumes_what_was_submitted_witness:
  "fv_values (fst (projr (fs_consume fs_demo_env 4 4 ''f'' fs_demo_binding ''c''
      (run (fs_exec fs_demo_env) fs_demo_submit (run (fs_exec fs_demo_env) fs_demo_open (fs_empty 0)))
      :: unit fs_error + fs_view \<times> nat fs_db))) = Some (JDict [(''days'', JInt 3)])"
proof -
  let ?db = "run (fs_exec fs_demo_env) fs_demo_open (fs_empty 0)"
  let ?sub = "fs_submit fs_demo_env 2 2 ''f'' ''tok'' ''tok'' (JDict [(''days'', JInt 3)]) None ?db
     :: unit fs_error + fs_view \<times> nat fs_db"
  let ?out = "fs_consume fs_demo_env 4 4 ''f'' fs_demo_binding ''c''
     (run (fs_exec fs_demo_env) fs_demo_submit ?db) :: unit fs_error + fs_view \<times> nat fs_db"
  have 1: "isl ?sub = False" by code_simp
  have 2: "isl ?out = False" by code_simp
  have 3: "fs_inv fs_demo_env ?db" by (rule fs.inv_run[OF fs_inv_empty])
  obtain v0 db0 where sub: "?sub = Inr (v0, db0)" using returns[OF 1] by blast
  then have db0: "run (fs_exec fs_demo_env) fs_demo_submit ?db = db0"
    by (simp add: fs_wrap_def fs_demo_submit_def)
  obtain v db' where out: "?out = Inr (v, db')" using returns[OF 2] by blast
  have "fs_consume fs_demo_env 4 4 ''f'' fs_demo_binding ''c''
     (run (fs_exec fs_demo_env) ([] :: (nat, unit) fs_op list) db0) = (Inr (v, db') :: unit fs_error + fs_view \<times> nat fs_db)"
    using out unfolding db0 by simp
  from fs_consumes_what_was_submitted[OF 3 sub this] have "fv_values v = Some (canon (JDict [(''days'', JInt 3)]))"
    by blast
  moreover have "canon (JDict [(''days'', JInt 3)]) = JDict [(''days'', JInt 3)]" by code_simp
  ultimately show ?thesis
    unfolding out by simp
qed

text \<open>
  A form's card address leads back to the base address it was created with when that
  address contains no \<open>/input/\<close>; the presentation addresses are built on the result.
\<close>

theorem fs_card_url_roundtrip:
  assumes "split_first ''/input/'' (base @ ''/input'') = None" and "rstrip_slash base = base"
  shows "fs_card_base_url (fs_card_url (fs_new_row env now token base req)) = base"
proof -
  have "split_first m (a @ m @ b) = Some (a, b)"
    if "split_first m (a @ butlast m) = None" "m \<noteq> []" for m a b :: string
    using that
  proof (induction a)
    case Nil
    then show ?case by (cases m) auto
  next
    case (Cons c a)
    have "\<not> prefix m (c # a @ m @ b)"
    proof
      assume p: "prefix m (c # a @ m @ b)"
      have "c # a @ m @ b = (c # a @ butlast m) @ last m # b"
        using Cons.prems(2) by simp
      with p have "prefix m ((c # a @ butlast m) @ last m # b)" by simp
      moreover have "length m \<le> length (c # a @ butlast m)"
        by simp
      ultimately have "prefix m (c # a @ butlast m)"
        by (metis prefix_length_prefix prefixI)
      then show False using Cons.prems(1) by simp
    qed
    moreover have "split_first m (a @ butlast m) = None"
      using Cons.prems(1) by (auto split: if_splits)
    ultimately show ?case using Cons by simp
  qed
  from this[of "''/input/''" base token] assms show ?thesis
    by (simp add: fs_card_base_url_def fs_new_row_def)
qed

text \<open>
  Under a base address whose path contains \<open>/input/\<close>, the recovered base address is
  cut at the first occurrence: the presentation addresses of such a form leave out the rest of
  the configured path. (The authorization store splits at the last occurrence.)
\<close>

theorem fs_card_base_url_cut_short:
  "fs_card_base_url (fs_card_url (fs_new_row env now token ''https://h/input/cards'' req)) = ''https://h''"
  by (simp add: fs_card_base_url_def fs_new_row_def rstrip_slash_def)

end
