(* ===== verification/WriteAuthorizations.thy ===== *)
theory WriteAuthorizations
  imports Ledger Urls
begin

text \<open>
  The write authorization store of \<open>agentbridge/core/write_authorizations.py\<close>: the
  authorizations themselves, the presentations that show one of them on an endpoint, and
  the card sessions that carry the CSRF token of an open card. An operation takes the clock
  readings and the random tokens it consumes as arguments, in the order the code takes them.
  The type parameter is the rest of the database, which the callbacks run inside the
  store's transaction may read and write.
\<close>

section \<open>Tables\<close>

datatype wa_state = WaPending | WaApproved | WaRejected | WaConsumed | WaExpired | WaSuperseded

datatype wap_state = WapActive | WapExpired | WapDecided

datatype was_state = WasPending | WasConsumed | WasExpired

record wa_row =
  wa_id :: string
  wa_user :: string
  wa_system :: string
  wa_session :: string
  wa_capability :: string
  wa_version :: string
  wa_prepare_operation :: string
  wa_supersession_key :: string
  wa_plan :: json
  wa_plan_hash :: string
  wa_summary :: json
  wa_card_url :: string
  wa_csrf_hash :: "string option"
  wa_state :: wa_state
  wa_commit_operation :: "string option"
  wa_created_at :: time
  wa_updated_at :: time
  wa_expires_at :: time
  wa_decided_at :: "time option"
  wa_consumed_at :: "time option"
  wa_decided_endpoint :: "string option"

record wap_row =
  wap_id :: string
  wap_auth :: string
  wap_user :: string
  wap_endpoint :: string
  wap_card_url :: string
  wap_state :: wap_state
  wap_created_at :: time
  wap_updated_at :: time
  wap_expires_at :: time
  wap_opened_at :: "time option"
  wap_decided_at :: "time option"

record was_row =
  was_id :: string
  was_auth :: string
  was_presentation :: "string option"
  was_endpoint :: "string option"
  was_csrf_hash :: string
  was_state :: was_state
  was_created_at :: time
  was_expires_at :: time
  was_consumed_at :: "time option"

record 'x wa_db =
  wa_auths :: "wa_row list"
  wa_presentations :: "wap_row list"
  wa_sessions :: "was_row list"
  wa_other :: 'x

definition wa_empty :: "'x \<Rightarrow> 'x wa_db" where
  "wa_empty x = \<lparr>wa_auths = [], wa_presentations = [], wa_sessions = [], wa_other = x\<rparr>"

text \<open>The columns the trigger \<open>immutable_write_authorization_plan\<close> protects.\<close>

definition wa_contract :: "wa_row \<Rightarrow> string list \<times> json \<times> string \<times> json \<times> time \<times> time" where
  "wa_contract r =
     ([wa_user r, wa_system r, wa_session r, wa_capability r, wa_version r, wa_prepare_operation r,
       wa_supersession_key r, wa_card_url r],
      wa_plan r, wa_plan_hash r, wa_summary r, wa_created_at r, wa_expires_at r)"

datatype 'e wa_error =
  WaValueError | WaTypeError | WaNotFound | WaStateError | WaAccessDenied
  | WaIntegrityError | WaSqlIntegrityError | WaCallback 'e

section \<open>Row results\<close>

text \<open>\<open>_authorization_from_row\<close> drops the plan and the CSRF column, and adds the plan back on request.\<close>

datatype wa_view = WaView (wv_row: wa_row) (wv_plan: "json option")

definition authorization_from_row :: "bool \<Rightarrow> wa_row \<Rightarrow> wa_view" where
  "authorization_from_row include_plan row =
     WaView (row\<lparr>wa_plan := JNull, wa_csrf_hash := None\<rparr>) (if include_plan then Some (wa_plan row) else None)"

definition wa_card_base_url :: "string \<Rightarrow> string option" where
  "wa_card_base_url card_url = map_option fst (split_last ''/authorize/'' card_url)"

section \<open>Reading and expiring\<close>

definition wa_select :: "string \<Rightarrow> 'x wa_db \<Rightarrow> 'e wa_error + wa_row" where
  "wa_select i db = (case tbl_get wa_id i (wa_auths db) of None \<Rightarrow> Inl WaNotFound | Some r \<Rightarrow> Inr r)"

definition wa_select_presentation :: "string \<Rightarrow> string \<Rightarrow> 'x wa_db \<Rightarrow> 'e wa_error + wap_row" where
  "wa_select_presentation i p db =
     (case List.find (\<lambda>r. wap_auth r = i \<and> wap_id r = p) (wa_presentations db) of
        None \<Rightarrow> Inl WaNotFound | Some r \<Rightarrow> Inr r)"

definition wa_set_auths :: "(wa_row \<Rightarrow> bool) \<Rightarrow> (wa_row \<Rightarrow> wa_row) \<Rightarrow> 'x wa_db \<Rightarrow> 'x wa_db" where
  "wa_set_auths P f db = db\<lparr>wa_auths := tbl_update P f (wa_auths db)\<rparr>"

definition wa_expire_presentations :: "time \<Rightarrow> (string \<Rightarrow> bool) \<Rightarrow> 'x wa_db \<Rightarrow> 'x wa_db" where
  "wa_expire_presentations now P db = db\<lparr>wa_presentations :=
     tbl_update (\<lambda>r. wap_state r = WapActive \<and> P (wap_auth r))
       (\<lambda>r. r\<lparr>wap_state := WapExpired, wap_updated_at := now\<rparr>) (wa_presentations db)\<rparr>"

definition wa_expire_sessions :: "(string \<Rightarrow> bool) \<Rightarrow> 'x wa_db \<Rightarrow> 'x wa_db" where
  "wa_expire_sessions P db = db\<lparr>wa_sessions :=
     tbl_update (\<lambda>r. was_state r = WasPending \<and> P (was_auth r))
       (\<lambda>r. r\<lparr>was_state := WasExpired\<rparr>) (wa_sessions db)\<rparr>"

text \<open>The three updates that end an authorization: its row, its active presentations, its open card sessions.\<close>

definition wa_mark_expired :: "time \<Rightarrow> string \<Rightarrow> 'x wa_db \<Rightarrow> 'x wa_db" where
  "wa_mark_expired now i db =
     wa_expire_sessions (\<lambda>j. j = i) (wa_expire_presentations now (\<lambda>j. j = i)
       (wa_set_auths (\<lambda>r. wa_id r = i)
         (\<lambda>r. r\<lparr>wa_state := WaExpired, wa_csrf_hash := None,
                 wa_decided_at := (case wa_decided_at r of None \<Rightarrow> Some now | Some t \<Rightarrow> Some t),
                 wa_updated_at := now\<rparr>) db))"

definition wa_expire_if_needed ::
  "time \<Rightarrow> wa_row \<Rightarrow> 'x wa_db \<Rightarrow> 'e wa_error + (wa_row \<times> 'x wa_db)" where
  "wa_expire_if_needed now row db =
     (if wa_state row \<in> {WaPending, WaApproved} \<and> wa_expires_at row \<le> now then
        let db' = wa_mark_expired now (wa_id row) db
        in ebind (wa_select (wa_id row) db') (\<lambda>r. Inr (r, db'))
      else Inr (row, db))"

text \<open>The first lines of most operations: the row of an identifier, expired when it is due.\<close>

definition wa_current :: "time \<Rightarrow> string \<Rightarrow> 'x wa_db \<Rightarrow> 'e wa_error + (wa_row \<times> 'x wa_db)" where
  "wa_current now i db = ebind (wa_select i db) (\<lambda>row. wa_expire_if_needed now row db)"

section \<open>Operations\<close>

record wa_request =
  wr_user :: string
  wr_system :: string
  wr_session :: string
  wr_capability :: string
  wr_version :: string
  wr_prepare_operation :: string
  wr_supersession_key :: string
  wr_plan :: json
  wr_summary :: json
  wr_card_base_url :: string
  wr_ttl_seconds :: int

definition wa_supersede_matching ::
  "time \<Rightarrow> string \<Rightarrow> string \<Rightarrow> string \<Rightarrow> 'x wa_db \<Rightarrow> 'x wa_db" where
  "wa_supersede_matching now user capability skey db =
     (let db1 = wa_set_auths
            (\<lambda>r. wa_user r = user \<and> wa_capability r = capability \<and> wa_supersession_key r = skey \<and>
                 wa_state r \<in> {WaPending, WaApproved})
            (\<lambda>r. r\<lparr>wa_state := WaSuperseded, wa_csrf_hash := None, wa_updated_at := now,
                    wa_decided_at := Some now\<rparr>) db;
          superseded = map wa_id (filter (\<lambda>r. wa_user r = user \<and> wa_capability r = capability \<and>
            wa_state r = WaSuperseded) (wa_auths db1))
      in wa_expire_sessions (\<lambda>j. j \<in> set superseded)
           (wa_expire_presentations now (\<lambda>j. j \<in> set superseded) db1))"

definition wa_new_row :: "py_env \<Rightarrow> time \<Rightarrow> string \<Rightarrow> string \<Rightarrow> wa_request \<Rightarrow> wa_row" where
  "wa_new_row env now token base_url req =
     \<lparr>wa_id = token, wa_user = wr_user req, wa_system = wr_system req,
      wa_session = wr_session req, wa_capability = wr_capability req,
      wa_version = wr_version req, wa_prepare_operation = wr_prepare_operation req,
      wa_supersession_key = py_strip (wr_supersession_key req),
      wa_plan = canon (wr_plan req), wa_plan_hash = json_hash env (canon (wr_plan req)),
      wa_summary = canon (wr_summary req),
      wa_card_url = base_url @ ''/authorize/'' @ token, wa_csrf_hash = None,
      wa_state = WaPending, wa_commit_operation = None, wa_created_at = now,
      wa_updated_at = now, wa_expires_at = now + wr_ttl_seconds req * 1000000,
      wa_decided_at = None, wa_consumed_at = None, wa_decided_endpoint = None\<rparr>"

definition wa_create ::
  "py_env \<Rightarrow> time \<Rightarrow> string \<Rightarrow> wa_request \<Rightarrow> 'x wa_db \<Rightarrow> 'e wa_error + (wa_view \<times> 'x wa_db)" where
  "wa_create env now token req db =
     ebind (raise_if (list_ex is_blank [wr_user req, wr_system req, wr_session req, wr_capability req,
         wr_version req, wr_prepare_operation req]) WaValueError) (\<lambda>_.
     ebind (raise_if (\<not> is_object (wr_plan req) \<or> \<not> is_object (wr_summary req)) WaTypeError) (\<lambda>_.
     ebind (raise_if (wr_ttl_seconds req < 30 \<or> wr_ttl_seconds req > 1800) WaValueError) (\<lambda>_.
     let skey = py_strip (wr_supersession_key req) in
     ebind (raise_if (length skey > 128) WaValueError) (\<lambda>_.
     case validate_card_base_url env (wr_card_base_url req) of
       None \<Rightarrow> Inl WaValueError
     | Some base_url \<Rightarrow>
         let db1 = wa_supersede_matching now (wr_user req) (wr_capability req) skey db
         in (case tbl_insert wa_id (wa_new_row env now token base_url req) (wa_auths db1) of
               None \<Rightarrow> Inl WaSqlIntegrityError
             | Some rows \<Rightarrow>
                 let db2 = db1\<lparr>wa_auths := rows\<rparr> in
                 ebind (wa_select token db2) (\<lambda>r. Inr (authorization_from_row False r, db2)))))))"

definition wa_get ::
  "time \<Rightarrow> string \<Rightarrow> bool \<Rightarrow> 'x wa_db \<Rightarrow> 'e wa_error + (wa_view \<times> 'x wa_db)" where
  "wa_get now i include_plan db =
     ebind (wa_current now i db) (\<lambda>(row, db'). Inr (authorization_from_row include_plan row, db'))"

definition wap_state_for :: "wa_state \<Rightarrow> wap_state" where
  "wap_state_for s = (if s = WaPending then WapActive
     else if s \<in> {WaExpired, WaSuperseded} then WapExpired else WapDecided)"

definition wap_new_row :: "time \<Rightarrow> string \<Rightarrow> string \<Rightarrow> string \<Rightarrow> string \<Rightarrow> string \<Rightarrow> wa_row \<Rightarrow> wap_row" where
  "wap_new_row now token i user endpoint base auth =
     \<lparr>wap_id = token, wap_auth = i, wap_user = user, wap_endpoint = endpoint,
      wap_card_url = base @ ''/authorize/'' @ i @ ''/present/'' @ token,
      wap_state = wap_state_for (wa_state auth), wap_created_at = now,
      wap_updated_at = now, wap_expires_at = wa_expires_at auth,
      wap_opened_at = None, wap_decided_at = None\<rparr>"

definition wa_create_presentation ::
  "time \<Rightarrow> time \<Rightarrow> string \<Rightarrow> string \<Rightarrow> string \<Rightarrow> string \<Rightarrow> 'x wa_db \<Rightarrow> 'e wa_error + (wap_row \<times> 'x wa_db)" where
  "wa_create_presentation now now2 token i user endpoint db =
     (let user = py_strip user; endpoint = py_strip endpoint in
      if user = [] \<or> endpoint = [] then Inl WaValueError
      else ebind (wa_current now2 i db) (\<lambda>(auth, db1).
        if wa_user auth \<noteq> user then Inl WaNotFound
        else case List.find (\<lambda>r. wap_auth r = i \<and> wap_endpoint r = endpoint) (wa_presentations db1) of
          Some existing \<Rightarrow> Inr (existing, db1)
        | None \<Rightarrow>
            (case wa_card_base_url (wa_card_url auth) of
               None \<Rightarrow> Inl WaIntegrityError
             | Some base \<Rightarrow>
                 (case tbl_insert wap_id (wap_new_row now token i user endpoint base auth)
                         (wa_presentations db1) of
                    None \<Rightarrow> Inl WaSqlIntegrityError
                  | Some rows \<Rightarrow>
                      let db2 = db1\<lparr>wa_presentations := rows\<rparr> in
                      ebind (wa_select_presentation i token db2) (\<lambda>r. Inr (r, db2))))))"

definition wa_get_presentation ::
  "string \<Rightarrow> string \<Rightarrow> 'x wa_db \<Rightarrow> 'e wa_error + (wap_row \<times> 'x wa_db)" where
  "wa_get_presentation i p db = ebind (wa_select_presentation i p db) (\<lambda>r. Inr (r, db))"

definition wa_insert_session :: "was_row \<Rightarrow> 'x wa_db \<Rightarrow> 'e wa_error + 'x wa_db" where
  "wa_insert_session row db =
     (if was_csrf_hash row \<in> set (map was_csrf_hash (wa_sessions db)) then Inl WaSqlIntegrityError
      else case tbl_insert was_id row (wa_sessions db) of
             None \<Rightarrow> Inl WaSqlIntegrityError
           | Some rows \<Rightarrow> Inr (db\<lparr>wa_sessions := rows\<rparr>))"

definition wa_issue_csrf ::
  "py_env \<Rightarrow> string \<Rightarrow> time \<Rightarrow> time \<Rightarrow> string \<Rightarrow> string \<Rightarrow> string option \<Rightarrow> 'x wa_db
   \<Rightarrow> 'e wa_error + (string \<times> 'x wa_db)" where
  "wa_issue_csrf env token now now2 session_token i presentation db =
     ebind (wa_current now2 i db) (\<lambda>(row, db1).
     if wa_state row \<noteq> WaPending then Inl WaStateError
     else ebind (case presentation of
                   None \<Rightarrow> Inr (None, db1)
                 | Some p \<Rightarrow> ebind (wa_select_presentation i p db1) (\<lambda>pr.
                     Inr (Some (wap_endpoint pr), db1\<lparr>wa_presentations :=
                       tbl_update (\<lambda>r. wap_id r = p)
                         (\<lambda>r. r\<lparr>wap_opened_at := (case wap_opened_at r of None \<Rightarrow> Some now | Some t \<Rightarrow> Some t),
                                 wap_updated_at := now\<rparr>) (wa_presentations db1)\<rparr>)))
       (\<lambda>(endpoint, db2).
         ebind (wa_insert_session
           \<lparr>was_id = session_token, was_auth = i, was_presentation = presentation,
            was_endpoint = endpoint, was_csrf_hash = token_hash env token, was_state = WasPending,
            was_created_at = now, was_expires_at = wa_expires_at row, was_consumed_at = None\<rparr> db2)
           (\<lambda>db3. Inr (token, db3))))"

definition wa_find_session ::
  "string \<Rightarrow> string option \<Rightarrow> string \<Rightarrow> 'x wa_db \<Rightarrow> was_row option" where
  "wa_find_session i presentation h db =
     List.find (\<lambda>r. was_auth r = i \<and> was_presentation r = presentation \<and> was_csrf_hash r = h \<and>
       was_state r = WasPending) (wa_sessions db)"

definition wa_mark_decided :: "time \<Rightarrow> string \<Rightarrow> wa_state \<Rightarrow> string option \<Rightarrow> 'x wa_db \<Rightarrow> 'x wa_db" where
  "wa_mark_decided now i state endpoint db =
     (let db1 = wa_set_auths (\<lambda>r. wa_id r = i \<and> wa_state r = WaPending)
            (\<lambda>r. r\<lparr>wa_state := state, wa_csrf_hash := None, wa_decided_at := Some now,
                    wa_updated_at := now, wa_decided_endpoint := endpoint\<rparr>) db
      in db1\<lparr>wa_sessions :=
               tbl_update (\<lambda>r. was_auth r = i \<and> was_state r = WasPending)
                 (\<lambda>r. r\<lparr>was_state := WasConsumed, was_consumed_at := Some now\<rparr>) (wa_sessions db1),
             wa_presentations :=
               tbl_update (\<lambda>r. wap_auth r = i)
                 (\<lambda>r. r\<lparr>wap_state := WapDecided, wap_decided_at := Some now, wap_updated_at := now\<rparr>)
                 (wa_presentations db1)\<rparr>)"

definition wa_decide ::
  "py_env \<Rightarrow> time \<Rightarrow> time \<Rightarrow> string \<Rightarrow> string \<Rightarrow> string \<Rightarrow> string \<Rightarrow> string option \<Rightarrow> 'x wa_db
   \<Rightarrow> 'e wa_error + (wa_view \<times> 'x wa_db)" where
  "wa_decide env now now2 i decision csrf_token csrf_cookie presentation db =
     (if decision \<noteq> ''approve'' \<and> decision \<noteq> ''reject'' then Inl WaValueError
      else ebind (wa_current now2 i db) (\<lambda>(row, db1).
      if wa_state row \<noteq> WaPending then Inl WaStateError
      else let supplied = (if csrf_token = [] then [] else token_hash env csrf_token) in
      ebind (case presentation of None \<Rightarrow> Inr () | Some p \<Rightarrow>
               ebind (wa_select_presentation i p db1) (\<lambda>_. Inr ())) (\<lambda>_.
      case wa_find_session i presentation supplied db1 of
        None \<Rightarrow> Inl WaAccessDenied
      | Some session \<Rightarrow>
          (case csrf_ok csrf_token csrf_cookie (was_csrf_hash session) supplied of
             None \<Rightarrow> Inl WaTypeError
           | Some False \<Rightarrow> Inl WaAccessDenied
           | Some True \<Rightarrow>
               let state = (if decision = ''approve'' then WaApproved else WaRejected);
                   db2 = wa_mark_decided now i state (was_endpoint session) db1
               in if tbl_count (\<lambda>r. wa_id r = i \<and> wa_state r = WaPending) (wa_auths db1) \<noteq> 1
                  then Inl WaStateError
                  else ebind (wa_select i db2) (\<lambda>r. Inr (authorization_from_row False r, db2))))))"

definition wa_run_callback :: "('x \<Rightarrow> 'e + 'x) option \<Rightarrow> 'x wa_db \<Rightarrow> 'e wa_error + 'x wa_db" where
  "wa_run_callback cb db =
     (case cb of None \<Rightarrow> Inr db
      | Some f \<Rightarrow> (case f (wa_other db) of Inl e \<Rightarrow> Inl (WaCallback e) | Inr x \<Rightarrow> Inr (db\<lparr>wa_other := x\<rparr>)))"

definition wa_mark_superseded :: "time \<Rightarrow> string \<Rightarrow> 'x wa_db \<Rightarrow> 'x wa_db" where
  "wa_mark_superseded now i db =
     wa_expire_sessions (\<lambda>j. j = i) (wa_expire_presentations now (\<lambda>j. j = i)
       (wa_set_auths (\<lambda>r. wa_id r = i)
         (\<lambda>r. r\<lparr>wa_state := WaSuperseded, wa_csrf_hash := None, wa_updated_at := now\<rparr>) db))"

definition wa_supersede ::
  "time \<Rightarrow> string \<Rightarrow> string \<Rightarrow> bool \<Rightarrow> ('x \<Rightarrow> 'e + 'x) option \<Rightarrow> 'x wa_db \<Rightarrow> 'e wa_error + (unit \<times> 'x wa_db)" where
  "wa_supersede now i user pending_only before db =
     ebind (wa_select i db) (\<lambda>row.
     if wa_user row \<noteq> user then Inl WaAccessDenied
     else if pending_only \<and> wa_state row \<notin> {WaPending, WaSuperseded} then Inl WaStateError
     else if wa_state row \<notin> {WaPending, WaApproved} then Inr ((), db)
     else ebind (wa_run_callback before db) (\<lambda>db1. Inr ((), wa_mark_superseded now i db1)))"

record wa_binding =
  wb_user :: string
  wb_system :: string
  wb_session :: string
  wb_capability :: string
  wb_version :: string

definition wa_bound_to :: "wa_row \<Rightarrow> wa_binding \<Rightarrow> bool" where
  "wa_bound_to row b \<longleftrightarrow> wa_user row = wb_user b \<and> wa_system row = wb_system b \<and>
     wa_session row = wb_session b \<and> wa_capability row = wb_capability b \<and> wa_version row = wb_version b"

definition wa_mark_consumed :: "time \<Rightarrow> string \<Rightarrow> string \<Rightarrow> 'x wa_db \<Rightarrow> 'x wa_db" where
  "wa_mark_consumed now i commit_operation =
     wa_set_auths (\<lambda>r. wa_id r = i \<and> wa_state r = WaApproved)
       (\<lambda>r. r\<lparr>wa_state := WaConsumed, wa_commit_operation := Some commit_operation,
               wa_consumed_at := Some now, wa_updated_at := now\<rparr>)"

definition wa_consume ::
  "py_env \<Rightarrow> time \<Rightarrow> time \<Rightarrow> string \<Rightarrow> wa_binding \<Rightarrow> string \<Rightarrow> ('x \<Rightarrow> 'e + 'x) option \<Rightarrow> 'x wa_db
   \<Rightarrow> 'e wa_error + (wa_view \<times> 'x wa_db)" where
  "wa_consume env now now2 i b commit_operation before db =
     ebind (wa_current now2 i db) (\<lambda>(row, db1).
     if wa_state row \<noteq> WaApproved then Inl WaStateError
     else if \<not> wa_bound_to row b then Inl WaAccessDenied
     else (case compare_digest (wa_plan_hash row) (json_hash env (wa_plan row)) of
             None \<Rightarrow> Inl WaTypeError
           | Some False \<Rightarrow> Inl WaIntegrityError
           | Some True \<Rightarrow>
               ebind (wa_run_callback before db1) (\<lambda>db2.
               let db3 = wa_mark_consumed now i commit_operation db2
               in if tbl_count (\<lambda>r. wa_id r = i \<and> wa_state r = WaApproved) (wa_auths db2) \<noteq> 1
                  then Inl WaStateError
                  else ebind (wa_select i db3) (\<lambda>r. Inr (authorization_from_row True r, db3)))))"

section \<open>The store as a transition system\<close>

datatype ('x, 'e) wa_op =
    WaCreate time string wa_request
  | WaGet time string bool
  | WaCreatePresentation time time string string string string
  | WaGetPresentation string string
  | WaIssueCsrf string time time string string "string option"
  | WaDecide time time string string string string "string option"
  | WaSupersede time string string bool "('x \<Rightarrow> 'e + 'x) option"
  | WaConsume time time string wa_binding string "('x \<Rightarrow> 'e + 'x) option"

datatype wa_result = WaAuth wa_view | WaPresentation wap_row | WaToken string | WaUnit

definition wa_wrap :: "('a \<Rightarrow> wa_result) \<Rightarrow> 'e wa_error + ('a \<times> 'x wa_db) \<Rightarrow> 'e wa_error + (wa_result \<times> 'x wa_db)" where
  "wa_wrap f out = ebind out (\<lambda>(a, db). Inr (f a, db))"

fun wa_exec :: "py_env \<Rightarrow> ('x, 'e) wa_op \<Rightarrow> 'x wa_db \<Rightarrow> 'e wa_error + (wa_result \<times> 'x wa_db)" where
  "wa_exec env (WaCreate now token req) db = wa_wrap WaAuth (wa_create env now token req db)"
| "wa_exec env (WaGet now i include_plan) db = wa_wrap WaAuth (wa_get now i include_plan db)"
| "wa_exec env (WaCreatePresentation now now2 token i user endpoint) db =
     wa_wrap WaPresentation (wa_create_presentation now now2 token i user endpoint db)"
| "wa_exec env (WaGetPresentation i p) db = wa_wrap WaPresentation (wa_get_presentation i p db)"
| "wa_exec env (WaIssueCsrf token now now2 sid i p) db =
     wa_wrap WaToken (wa_issue_csrf env token now now2 sid i p db)"
| "wa_exec env (WaDecide now now2 i d token cookie p) db =
     wa_wrap WaAuth (wa_decide env now now2 i d token cookie p db)"
| "wa_exec env (WaSupersede now i user po cb) db = wa_wrap (\<lambda>_. WaUnit) (wa_supersede now i user po cb db)"
| "wa_exec env (WaConsume now now2 i b oid cb) db = wa_wrap WaAuth (wa_consume env now now2 i b oid cb db)"

section \<open>Lemmas\<close>

definition wa_live :: "wa_row \<Rightarrow> bool" where
  "wa_live r \<longleftrightarrow> wa_state r \<in> {WaPending, WaApproved}"

definition wa_status :: "'x wa_db \<Rightarrow> string \<Rightarrow> wa_state option" where
  "wa_status db i = map_option wa_state (tbl_get wa_id i (wa_auths db))"

text \<open>The moves an authorization can make in one operation.\<close>

inductive wa_edge :: "wa_state \<Rightarrow> wa_state \<Rightarrow> bool" where
  approve: "wa_edge WaPending WaApproved"
| reject: "wa_edge WaPending WaRejected"
| expire_pending: "wa_edge WaPending WaExpired"
| supersede_pending: "wa_edge WaPending WaSuperseded"
| consume: "wa_edge WaApproved WaConsumed"
| expire_approved: "wa_edge WaApproved WaExpired"
| supersede_approved: "wa_edge WaApproved WaSuperseded"

inductive_cases wa_edge_from_consumed [elim!]: "wa_edge WaConsumed s"
inductive_cases wa_edge_from_rejected [elim!]: "wa_edge WaRejected s"
inductive_cases wa_edge_from_expired [elim!]: "wa_edge WaExpired s"
inductive_cases wa_edge_from_superseded [elim!]: "wa_edge WaSuperseded s"
inductive_simps wa_edge_simps [simp]: "wa_edge s WaPending" "wa_edge s WaApproved" "wa_edge s WaConsumed"

lemma wa_set_auths_sel [simp]:
  "wa_auths (wa_set_auths P f db) = tbl_update P f (wa_auths db)"
  "wa_presentations (wa_set_auths P f db) = wa_presentations db"
  "wa_sessions (wa_set_auths P f db) = wa_sessions db"
  "wa_other (wa_set_auths P f db) = wa_other db"
  by (simp_all add: wa_set_auths_def)

lemma wa_expire_presentations_sel [simp]:
  "wa_presentations (wa_expire_presentations now K db) =
     tbl_update (\<lambda>r. wap_state r = WapActive \<and> K (wap_auth r))
       (\<lambda>r. r\<lparr>wap_state := WapExpired, wap_updated_at := now\<rparr>) (wa_presentations db)"
  "wa_auths (wa_expire_presentations now K db) = wa_auths db"
  "wa_sessions (wa_expire_presentations now K db) = wa_sessions db"
  "wa_other (wa_expire_presentations now K db) = wa_other db"
  by (simp_all add: wa_expire_presentations_def)

lemma wa_expire_sessions_sel [simp]:
  "wa_sessions (wa_expire_sessions K db) =
     tbl_update (\<lambda>r. was_state r = WasPending \<and> K (was_auth r)) (\<lambda>r. r\<lparr>was_state := WasExpired\<rparr>)
       (wa_sessions db)"
  "wa_auths (wa_expire_sessions K db) = wa_auths db"
  "wa_presentations (wa_expire_sessions K db) = wa_presentations db"
  "wa_other (wa_expire_sessions K db) = wa_other db"
  by (simp_all add: wa_expire_sessions_def)

lemma wa_select_Inr [outcome_simps]:
  "wa_select i db = Inr r \<longleftrightarrow> tbl_get wa_id i (wa_auths db) = Some r"
  by (simp add: wa_select_def split: option.splits)

text \<open>An operation that goes on only with a live authorization never works on an expired one.\<close>

lemma wa_current_live:
  assumes "wa_current now i db = (Inr (row, db') :: 'e wa_error + wa_row \<times> 'x wa_db)" and "wa_live row"
  shows "db' = db \<and> tbl_get wa_id i (wa_auths db) = Some row \<and> now < wa_expires_at row"
proof -
  from assms(1) obtain row0 where r0: "tbl_get wa_id i (wa_auths db) = Some row0"
    and e: "wa_expire_if_needed now row0 db = (Inr (row, db') :: 'e wa_error + wa_row \<times> 'x wa_db)"
    by (auto simp: wa_current_def outcome_simps)
  have [simp]: "wa_id row0 = i" using tbl_get_mem[OF r0] by simp
  show ?thesis
    using e assms(2) r0
    by (auto simp: wa_expire_if_needed_def wa_mark_expired_def Let_def outcome_simps wa_live_def
        table_simps split: if_splits)
qed

text \<open>Otherwise the row is the one stored, expired first when it was due.\<close>

lemma wa_current_cases:
  assumes "wa_current now i db = (Inr (row, db') :: 'e wa_error + wa_row \<times> 'x wa_db)"
  obtains "db' = db" "tbl_get wa_id i (wa_auths db) = Some row"
  | row0 where "db' = wa_mark_expired now i db" "tbl_get wa_id i (wa_auths db) = Some row0" "wa_live row0"
      "tbl_get wa_id i (wa_auths db') = Some row" "wa_state row = WaExpired"
proof -
  from assms obtain row0 where r0: "tbl_get wa_id i (wa_auths db) = Some row0"
    and e: "wa_expire_if_needed now row0 db = (Inr (row, db') :: 'e wa_error + wa_row \<times> 'x wa_db)"
    by (auto simp: wa_current_def outcome_simps)
  have i: "wa_id row0 = i" using tbl_get_mem[OF r0] by simp
  show ?thesis
  proof (cases "wa_live row0 \<and> wa_expires_at row0 \<le> now")
    case True
    with e i have "db' = wa_mark_expired now i db" "tbl_get wa_id i (wa_auths db') = Some row"
      by (auto simp: wa_expire_if_needed_def wa_live_def Let_def outcome_simps)
    moreover from this r0 i have "wa_state row = WaExpired"
      by (auto simp: wa_mark_expired_def table_simps)
    ultimately show ?thesis using that(2) r0 True by blast
  next
    case False
    with e have "db' = db" "row = row0"
      by (auto simp: wa_expire_if_needed_def wa_live_def split: if_splits)
    then show ?thesis using that(1) r0 by simp
  qed
qed

lemma wa_decide_Inr:
  assumes "wa_decide env now now2 i d token cookie p db = Inr (v, db')"
  shows "\<exists>row session. tbl_get wa_id i (wa_auths db) = Some row \<and> wa_state row = WaPending \<and>
    now2 < wa_expires_at row \<and> token = cookie \<and> cookie \<noteq> [] \<and>
    wa_find_session i p (token_hash env token) db = Some session \<and>
    d \<in> {''approve'', ''reject''} \<and>
    db' = wa_mark_decided now i (if d = ''approve'' then WaApproved else WaRejected) (was_endpoint session) db"
  using assms
  by (auto simp: wa_decide_def outcome_simps Let_def csrf_ok_def wa_live_def
      split: if_splits option.splits bool.splits dest!: wa_current_live)

lemma wa_issue_csrf_Inr:
  assumes "wa_issue_csrf env token now now2 sid i p db = Inr (t, db')"
  shows "\<exists>row. tbl_get wa_id i (wa_auths db) = Some row \<and> wa_state row = WaPending \<and>
    now2 < wa_expires_at row \<and> t = token \<and> wa_auths db' = wa_auths db \<and> wa_other db' = wa_other db \<and>
    token_hash env token \<notin> set (map was_csrf_hash (wa_sessions db)) \<and>
    (\<exists>e. wa_sessions db' = wa_sessions db @
      [\<lparr>was_id = sid, was_auth = i, was_presentation = p, was_endpoint = e,
        was_csrf_hash = token_hash env token, was_state = WasPending, was_created_at = now,
        was_expires_at = wa_expires_at row, was_consumed_at = None\<rparr>]) \<and>
    map (\<lambda>q. (wap_id q, wap_auth q, wap_state q)) (wa_presentations db') =
    map (\<lambda>q. (wap_id q, wap_auth q, wap_state q)) (wa_presentations db)"
  using assms
  by (auto simp: wa_issue_csrf_def outcome_simps table_simps Let_def wa_live_def wa_insert_session_def
      tbl_update_def split: if_splits option.splits dest!: wa_current_live)

lemma wa_consume_Inr:
  assumes "wa_consume env now now2 i b oid cb db = Inr (v, db')"
  shows "\<exists>row x. tbl_get wa_id i (wa_auths db) = Some row \<and> wa_state row = WaApproved \<and>
    now2 < wa_expires_at row \<and> wa_bound_to row b \<and> wa_plan_hash row = json_hash env (wa_plan row) \<and>
    wa_run_callback cb db = (Inr (db\<lparr>wa_other := x\<rparr>) :: 'e wa_error + 'x wa_db) \<and>
    db' = wa_mark_consumed now i oid (db\<lparr>wa_other := x\<rparr>) \<and> wv_plan v = Some (wa_plan row)"
proof -
  have cb: "\<exists>x. db2 = db\<lparr>wa_other := x\<rparr>" if "wa_run_callback cb db = (Inr db2 :: 'e wa_error + 'x wa_db)" for db db2 :: "'x wa_db"
    using that by (cases db) (auto simp: wa_run_callback_def split: option.splits sum.splits)
  obtain row db2 where row: "tbl_get wa_id i (wa_auths db) = Some row" "wa_state row = WaApproved"
      "now2 < wa_expires_at row" "wa_bound_to row b" "wa_plan_hash row = json_hash env (wa_plan row)"
    and db2: "wa_run_callback cb db = (Inr db2 :: 'e wa_error + 'x wa_db)"
    and db': "db' = wa_mark_consumed now i oid db2"
    and sel: "\<exists>r. tbl_get wa_id i (wa_auths db') = Some r \<and> v = authorization_from_row True r"
    using assms
    by (auto simp: wa_consume_def outcome_simps Let_def wa_live_def
        split: if_splits option.splits bool.splits dest!: wa_current_live)
  from cb[OF db2] obtain x where x: "db2 = db\<lparr>wa_other := x\<rparr>" by blast
  with sel row(1) db' have "wv_plan v = Some (wa_plan row)"
    by (auto simp: wa_mark_consumed_def table_simps authorization_from_row_def)
  with row db2 db' x show ?thesis by blast
qed

subsection \<open>Invariant\<close>

definition wa_keys :: "'x wa_db \<Rightarrow> bool" where
  "wa_keys db \<longleftrightarrow> distinct (map wa_id (wa_auths db)) \<and> distinct (map wap_id (wa_presentations db)) \<and>
     distinct (map was_csrf_hash (wa_sessions db))"

text \<open>Only a pending authorization has open card sessions and active presentations.\<close>

definition wa_cards_closed :: "'x wa_db \<Rightarrow> bool" where
  "wa_cards_closed db \<longleftrightarrow>
     (\<forall>s \<in> set (wa_sessions db). was_state s = WasPending \<longrightarrow> wa_status db (was_auth s) = Some WaPending) \<and>
     (\<forall>p \<in> set (wa_presentations db). wap_state p = WapActive \<longrightarrow> wa_status db (wap_auth p) = Some WaPending)"

definition wa_slot :: "wa_row \<Rightarrow> string \<times> string \<times> string" where
  "wa_slot r = (wa_user r, wa_capability r, wa_supersession_key r)"

text \<open>At most one live authorization per user, capability and supersession key.\<close>

definition wa_one_live :: "'x wa_db \<Rightarrow> bool" where
  "wa_one_live db \<longleftrightarrow>
     (\<forall>r \<in> set (wa_auths db). \<forall>r' \<in> set (wa_auths db).
        wa_live r \<longrightarrow> wa_live r' \<longrightarrow> wa_slot r = wa_slot r' \<longrightarrow> wa_id r = wa_id r')"

definition wa_sound :: "py_env \<Rightarrow> 'x wa_db \<Rightarrow> bool" where
  "wa_sound env db \<longleftrightarrow>
     (\<forall>r \<in> set (wa_auths db). wa_plan_hash r = json_hash env (wa_plan r) \<and>
        wa_created_at r + 30000000 \<le> wa_expires_at r \<and> wa_expires_at r \<le> wa_created_at r + 1800000000)"

definition wa_inv :: "py_env \<Rightarrow> 'x wa_db \<Rightarrow> bool" where
  "wa_inv env db \<longleftrightarrow> wa_keys db \<and> wa_cards_closed db \<and> wa_one_live db \<and> wa_sound env db"

lemmas wa_inv_defs = wa_inv_def wa_keys_def wa_cards_closed_def wa_one_live_def wa_sound_def

lemma wa_inv_empty: "wa_inv env (wa_empty x)"
  by (simp add: wa_inv_defs wa_empty_def)

text \<open>
  Most operations rewrite the rows of the three tables in place. Such a rewrite keeps the
  invariant when no row comes to life and every card of an authorization that stops being
  pending is closed.
\<close>

definition wa_rewrite ::
  "(wa_row \<Rightarrow> wa_row) \<Rightarrow> (wap_row \<Rightarrow> wap_row) \<Rightarrow> (was_row \<Rightarrow> was_row) \<Rightarrow> 'x wa_db \<Rightarrow> 'x wa_db \<Rightarrow> bool" where
  "wa_rewrite f g h db db' \<longleftrightarrow>
     wa_auths db' = map f (wa_auths db) \<and> wa_presentations db' = map g (wa_presentations db) \<and>
     wa_sessions db' = map h (wa_sessions db)"

lemma wa_rewrite_status:
  assumes "wa_rewrite f g h db db'" and "\<And>r. wa_id (f r) = wa_id r"
  shows "wa_status db' k = map_option (\<lambda>r. wa_state (f r)) (tbl_get wa_id k (wa_auths db))"
  using assms by (simp add: wa_rewrite_def wa_status_def tbl_get_map option.map_comp comp_def)

lemma wa_rewrite_inv:
  assumes inv: "wa_inv env db" and rw: "wa_rewrite f g h db db'"
    and f: "\<And>r. wa_id (f r) = wa_id r \<and> wa_contract (f r) = wa_contract r"
    and live: "\<And>r. wa_live (f r) \<Longrightarrow> wa_live r"
    and g: "\<And>p. wap_id (g p) = wap_id p \<and> wap_auth (g p) = wap_auth p"
    and h: "\<And>s. was_csrf_hash (h s) = was_csrf_hash s \<and> was_auth (h s) = was_auth s"
    and g_closed: "\<And>p r. wap_state (g p) = WapActive \<Longrightarrow> r \<in> set (wa_auths db) \<Longrightarrow> wa_id r = wap_auth p \<Longrightarrow>
        wa_state r = WaPending \<Longrightarrow> wa_state (f r) = WaPending"
    and g_open: "\<And>p. wap_state (g p) = WapActive \<Longrightarrow> wap_state p = WapActive"
    and h_closed: "\<And>s r. was_state (h s) = WasPending \<Longrightarrow> r \<in> set (wa_auths db) \<Longrightarrow> wa_id r = was_auth s \<Longrightarrow>
        wa_state r = WaPending \<Longrightarrow> wa_state (f r) = WaPending"
    and h_open: "\<And>s. was_state (h s) = WasPending \<Longrightarrow> was_state s = WasPending"
  shows "wa_inv env db'"
proof -
  have rows: "wa_auths db' = map f (wa_auths db)" "wa_presentations db' = map g (wa_presentations db)"
    "wa_sessions db' = map h (wa_sessions db)"
    using rw by (simp_all add: wa_rewrite_def)
  have status: "wa_status db' k = map_option (\<lambda>r. wa_state (f r)) (tbl_get wa_id k (wa_auths db))" for k
    using wa_rewrite_status[OF rw] f by blast
  have pend: "wa_status db' k = Some WaPending"
    if "wa_status db k = Some WaPending"
      and "\<And>r. r \<in> set (wa_auths db) \<Longrightarrow> wa_id r = k \<Longrightarrow> wa_state r = WaPending \<Longrightarrow> wa_state (f r) = WaPending" for k
  proof -
    from that(1) obtain r where r: "tbl_get wa_id k (wa_auths db) = Some r" "wa_state r = WaPending"
      by (auto simp: wa_status_def)
    with that(2) tbl_get_mem[OF r(1)] show ?thesis by (simp add: status)
  qed
  have contract: "wa_plan_hash (f r) = wa_plan_hash r" "wa_plan (f r) = wa_plan r"
    "wa_created_at (f r) = wa_created_at r" "wa_expires_at (f r) = wa_expires_at r"
    "wa_slot (f r) = wa_slot r" for r
    using f[of r] by (auto simp: wa_contract_def wa_slot_def)
  have ids: "wa_id (f r) = wa_id r" for r
    using f by blast
  have "wa_keys db'"
    using inv f g h by (simp add: wa_inv_defs rows comp_def)
  moreover have "wa_cards_closed db'"
    using inv g_open h_open g_closed h_closed g h
    by (fastforce simp: wa_inv_def wa_cards_closed_def rows intro!: pend)
  moreover have one: "wa_id r = wa_id r'"
    if "r \<in> set (wa_auths db)" "r' \<in> set (wa_auths db)" "wa_live r" "wa_live r'" "wa_slot r = wa_slot r'" for r r'
    using inv that unfolding wa_inv_def wa_one_live_def by blast
  then have "wa_one_live db'"
    unfolding wa_one_live_def rows by (clarsimp simp: ids contract) (blast intro: one live)
  moreover have "wa_sound env db'"
    using inv by (auto simp: wa_inv_def wa_sound_def rows contract)
  ultimately show ?thesis by (simp add: wa_inv_def)
qed

lemma wa_mark_expired_rows:
  "wa_auths (wa_mark_expired now i db) = tbl_update (\<lambda>r. wa_id r = i)
     (\<lambda>r. r\<lparr>wa_state := WaExpired, wa_csrf_hash := None,
             wa_decided_at := (case wa_decided_at r of None \<Rightarrow> Some now | Some t \<Rightarrow> Some t),
             wa_updated_at := now\<rparr>) (wa_auths db)"
  "wa_presentations (wa_mark_expired now i db) = tbl_update (\<lambda>r. wap_state r = WapActive \<and> wap_auth r = i)
     (\<lambda>r. r\<lparr>wap_state := WapExpired, wap_updated_at := now\<rparr>) (wa_presentations db)"
  "wa_sessions (wa_mark_expired now i db) = tbl_update (\<lambda>r. was_state r = WasPending \<and> was_auth r = i)
     (\<lambda>r. r\<lparr>was_state := WasExpired\<rparr>) (wa_sessions db)"
  by (simp_all add: wa_mark_expired_def)

lemma wa_mark_superseded_rows:
  "wa_auths (wa_mark_superseded now i db) = tbl_update (\<lambda>r. wa_id r = i)
     (\<lambda>r. r\<lparr>wa_state := WaSuperseded, wa_csrf_hash := None, wa_updated_at := now\<rparr>) (wa_auths db)"
  "wa_presentations (wa_mark_superseded now i db) = tbl_update (\<lambda>r. wap_state r = WapActive \<and> wap_auth r = i)
     (\<lambda>r. r\<lparr>wap_state := WapExpired, wap_updated_at := now\<rparr>) (wa_presentations db)"
  "wa_sessions (wa_mark_superseded now i db) = tbl_update (\<lambda>r. was_state r = WasPending \<and> was_auth r = i)
     (\<lambda>r. r\<lparr>was_state := WasExpired\<rparr>) (wa_sessions db)"
  by (simp_all add: wa_mark_superseded_def)

lemma wa_mark_decided_rows:
  "wa_auths (wa_mark_decided now i s e db) = tbl_update (\<lambda>r. wa_id r = i \<and> wa_state r = WaPending)
     (\<lambda>r. r\<lparr>wa_state := s, wa_csrf_hash := None, wa_decided_at := Some now,
             wa_updated_at := now, wa_decided_endpoint := e\<rparr>) (wa_auths db)"
  "wa_presentations (wa_mark_decided now i s e db) = tbl_update (\<lambda>r. wap_auth r = i)
     (\<lambda>r. r\<lparr>wap_state := WapDecided, wap_decided_at := Some now, wap_updated_at := now\<rparr>) (wa_presentations db)"
  "wa_sessions (wa_mark_decided now i s e db) = tbl_update (\<lambda>r. was_auth r = i \<and> was_state r = WasPending)
     (\<lambda>r. r\<lparr>was_state := WasConsumed, was_consumed_at := Some now\<rparr>) (wa_sessions db)"
  by (simp_all add: wa_mark_decided_def Let_def)

lemmas wa_rows = wa_mark_expired_rows wa_mark_superseded_rows wa_mark_decided_rows
  tbl_update_def

lemma wa_mark_expired_inv: "wa_inv env db \<Longrightarrow> wa_inv env (wa_mark_expired now i db)"
  by (erule wa_rewrite_inv, (unfold wa_rewrite_def wa_rows, intro conjI; rule refl))
     (auto simp: wa_contract_def wa_live_def split: if_splits)

lemma wa_mark_superseded_inv: "wa_inv env db \<Longrightarrow> wa_inv env (wa_mark_superseded now i db)"
  by (erule wa_rewrite_inv, (unfold wa_rewrite_def wa_rows, intro conjI; rule refl))
     (auto simp: wa_contract_def wa_live_def split: if_splits)

lemma wa_mark_decided_inv:
  "wa_inv env db \<Longrightarrow> wa_inv env (wa_mark_decided now i s e db)"
  by (erule wa_rewrite_inv, (unfold wa_rewrite_def wa_rows, intro conjI; rule refl))
     (auto simp: wa_contract_def wa_live_def split: if_splits)

lemma wa_mark_consumed_inv: "wa_inv env db \<Longrightarrow> wa_inv env (wa_mark_consumed now i oid db)"
  by (erule wa_rewrite_inv[where g = id and h = id and f = "\<lambda>r. if wa_id r = i \<and> wa_state r = WaApproved
        then r\<lparr>wa_state := WaConsumed, wa_commit_operation := Some oid,
               wa_consumed_at := Some now, wa_updated_at := now\<rparr> else r"])
     (auto simp: wa_rewrite_def wa_mark_consumed_def tbl_update_def wa_contract_def wa_live_def split: if_splits)

lemma wa_current_inv: "wa_inv env db \<Longrightarrow> wa_current now i db = Inr (row, db') \<Longrightarrow> wa_inv env db'"
  by (erule wa_current_cases) (auto intro: wa_mark_expired_inv)

lemma wa_other_inv [simp]: "wa_inv env (db\<lparr>wa_other := x\<rparr>) = wa_inv env db"
  by (simp add: wa_inv_defs wa_status_def)

lemma wa_supersede_matching_rows:
  "wa_auths (wa_supersede_matching now user capability skey db) =
     tbl_update (\<lambda>r. wa_user r = user \<and> wa_capability r = capability \<and> wa_supersession_key r = skey \<and>
                      wa_state r \<in> {WaPending, WaApproved})
       (\<lambda>r. r\<lparr>wa_state := WaSuperseded, wa_csrf_hash := None, wa_updated_at := now,
               wa_decided_at := Some now\<rparr>) (wa_auths db)"
  by (simp add: wa_supersede_matching_def Let_def)

text \<open>Every authorization that creation displaces is in the list whose cards it closes.\<close>

lemma wa_superseded_ids:
  assumes "r \<in> set rows" "wa_user r = user" "wa_capability r = capability" "wa_supersession_key r = skey"
    "wa_state r \<in> {WaPending, WaApproved}"
  shows "wa_id r \<in> set (map wa_id (filter (\<lambda>r. wa_user r = user \<and> wa_capability r = capability \<and>
            wa_state r = WaSuperseded) (map (\<lambda>r. if wa_user r = user \<and> wa_capability r = capability \<and>
              wa_supersession_key r = skey \<and> wa_state r \<in> {WaPending, WaApproved}
            then r\<lparr>wa_state := WaSuperseded, wa_csrf_hash := None, wa_updated_at := now,
                    wa_decided_at := Some now\<rparr> else r) rows)))"
proof -
  let ?f = "\<lambda>r. r\<lparr>wa_state := WaSuperseded, wa_csrf_hash := None, wa_updated_at := now,
                    wa_decided_at := Some now\<rparr>"
  have "wa_user (?f r) = user \<and> wa_capability (?f r) = capability \<and> wa_state (?f r) = WaSuperseded \<and> wa_id (?f r) = wa_id r"
    using assms by simp
  then show ?thesis
    using assms unfolding set_map set_filter
    by (intro image_eqI[where x = "?f r"] CollectI conjI image_eqI[where x = r]) simp_all
qed

lemma wa_supersede_matching_inv:
  assumes inv: "wa_inv env db"
  shows "wa_inv env (wa_supersede_matching now user capability skey db)"
proof -
  let ?P = "\<lambda>r. wa_user r = user \<and> wa_capability r = capability \<and> wa_supersession_key r = skey \<and>
                 wa_state r \<in> {WaPending, WaApproved}"
  let ?F = "\<lambda>r. if ?P r then r\<lparr>wa_state := WaSuperseded, wa_csrf_hash := None, wa_updated_at := now,
                    wa_decided_at := Some now\<rparr> else r"
  define S where "S = set (map wa_id (filter (\<lambda>r. wa_user r = user \<and> wa_capability r = capability \<and>
            wa_state r = WaSuperseded) (map ?F (wa_auths db))))"
  have S: "wa_id r \<in> S" if "r \<in> set (wa_auths db)" "?P r" for r
    unfolding S_def using that by (intro wa_superseded_ids) simp_all
  have rw: "wa_rewrite ?F
     (\<lambda>p. if wap_state p = WapActive \<and> wap_auth p \<in> S then p\<lparr>wap_state := WapExpired, wap_updated_at := now\<rparr> else p)
     (\<lambda>s. if was_state s = WasPending \<and> was_auth s \<in> S then s\<lparr>was_state := WasExpired\<rparr> else s)
     db (wa_supersede_matching now user capability skey db)"
    unfolding wa_rewrite_def wa_supersede_matching_def Let_def wa_set_auths_sel
         wa_expire_presentations_sel wa_expire_sessions_sel tbl_update_def S_def
    by (intro conjI; rule refl)
  have keep: "wa_state (?F r) = WaPending"
    if "r \<in> set (wa_auths db)" "wa_id r \<notin> S" "wa_state r = WaPending" for r
    using S[OF that(1)] that(2,3) by (cases "?P r") simp_all
  show ?thesis
  proof (rule wa_rewrite_inv[OF inv rw], goal_cases)
    case 1 show ?case by (simp add: wa_contract_def)
  next
    case 2 then show ?case by (simp add: wa_live_def split: if_splits)
  next
    case (5 p r)
    then have "wa_id r \<notin> S" by (auto split: if_splits)
    with 5 show ?case using keep by blast
  next
    case (7 s r)
    then have "wa_id r \<notin> S" by (auto split: if_splits)
    with 7 show ?case using keep by blast
  qed (simp_all split: if_splits)
qed

lemma wa_supersede_matching_clears:
  assumes "r \<in> set (wa_auths (wa_supersede_matching now user capability skey db))"
    and "wa_slot r = (user, capability, skey)"
  shows "\<not> wa_live r"
proof -
  let ?P = "\<lambda>r. wa_user r = user \<and> wa_capability r = capability \<and> wa_supersession_key r = skey \<and>
                 wa_state r \<in> {WaPending, WaApproved}"
  from assms(1) obtain q where r: "r = (if ?P q then q\<lparr>wa_state := WaSuperseded, wa_csrf_hash := None,
      wa_updated_at := now, wa_decided_at := Some now\<rparr> else q)"
    unfolding wa_supersede_matching_rows tbl_update_def set_map by (rule imageE)
  show ?thesis
  proof (cases "?P q")
    case True
    then show ?thesis using r by (simp add: wa_live_def)
  next
    case False
    then have "r = q" using r by presburger
    then show ?thesis using False assms(2) by (auto simp: wa_live_def wa_slot_def)
  qed
qed

lemma wa_status_append:
  "wa_status db k = Some s \<Longrightarrow> wa_status (db\<lparr>wa_auths := wa_auths db @ [row]\<rparr>) k = Some s"
  by (auto simp: wa_status_def table_simps)

lemma wa_insert_auth_inv:
  assumes inv: "wa_inv env db" and new: "wa_id row \<notin> set (map wa_id (wa_auths db))"
    and slot: "\<And>r. r \<in> set (wa_auths db) \<Longrightarrow> wa_slot r = wa_slot row \<Longrightarrow> \<not> wa_live r"
    and sound: "wa_plan_hash row = json_hash env (wa_plan row)"
      "wa_created_at row + 30000000 \<le> wa_expires_at row" "wa_expires_at row \<le> wa_created_at row + 1800000000"
  shows "wa_inv env (db\<lparr>wa_auths := wa_auths db @ [row]\<rparr>)"
proof -
  have one: "wa_id r = wa_id r'"
    if "r \<in> set (wa_auths db)" "r' \<in> set (wa_auths db)" "wa_live r" "wa_live r'" "wa_slot r = wa_slot r'" for r r'
    using inv that unfolding wa_inv_def wa_one_live_def by blast
  have both: "wa_id r = wa_id r'"
    if "r \<in> set (wa_auths db @ [row])" "r' \<in> set (wa_auths db @ [row])" "wa_live r" "wa_live r'"
       "wa_slot r = wa_slot r'" for r r'
  proof (cases "r = row"; cases "r' = row")
    assume "r = row" "r' \<noteq> row"
    then show ?thesis using that slot[of r'] by auto
  next
    assume "r \<noteq> row" "r' = row"
    then show ?thesis using that slot[of r] by auto
  next
    assume "r \<noteq> row" "r' \<noteq> row"
    then show ?thesis using that one[of r r'] by simp
  qed simp
  have rows: "wa_auths (db\<lparr>wa_auths := wa_auths db @ [row]\<rparr>) = wa_auths db @ [row]"
    by simp
  have "wa_one_live (db\<lparr>wa_auths := wa_auths db @ [row]\<rparr>)"
    unfolding wa_one_live_def rows by (intro ballI impI) (rule both)
  moreover have "wa_cards_closed (db\<lparr>wa_auths := wa_auths db @ [row]\<rparr>)"
    using inv by (auto simp: wa_inv_def wa_cards_closed_def intro!: wa_status_append)
  moreover have "wa_keys (db\<lparr>wa_auths := wa_auths db @ [row]\<rparr>)"
    using inv new by (simp add: wa_inv_def wa_keys_def)
  moreover have "wa_sound env (db\<lparr>wa_auths := wa_auths db @ [row]\<rparr>)"
    using inv sound by (auto simp: wa_inv_def wa_sound_def)
  ultimately show ?thesis by (simp add: wa_inv_def)
qed

text \<open>The parts of the invariant that read only the authorizations.\<close>

lemma wa_auths_only:
  assumes "wa_auths db' = wa_auths db"
  shows "wa_one_live db' = wa_one_live db" "wa_sound env db' = wa_sound env db" "wa_status db' = wa_status db"
  unfolding wa_one_live_def wa_sound_def wa_status_def assms by (rule refl)+

lemma wa_new_row_sel [simp]:
  "wa_id (wa_new_row env now token base req) = token"
  "wa_state (wa_new_row env now token base req) = WaPending"
  "wa_slot (wa_new_row env now token base req) = (wr_user req, wr_capability req, py_strip (wr_supersession_key req))"
  "wa_plan (wa_new_row env now token base req) = canon (wr_plan req)"
  "wa_plan_hash (wa_new_row env now token base req) = json_hash env (canon (wr_plan req))"
  "wa_created_at (wa_new_row env now token base req) = now"
  "wa_expires_at (wa_new_row env now token base req) = now + wr_ttl_seconds req * 1000000"
  by (simp_all add: wa_new_row_def wa_slot_def)

lemma wa_create_Inr:
  assumes "wa_create env now token req db = Inr (v, db')"
  shows "\<exists>base. token \<notin> set (map wa_id (wa_auths db)) \<and> 30 \<le> wr_ttl_seconds req \<and> wr_ttl_seconds req \<le> 1800 \<and>
    validate_card_base_url env (wr_card_base_url req) = Some base \<and>
    (let db1 = wa_supersede_matching now (wr_user req) (wr_capability req) (py_strip (wr_supersession_key req)) db
     in db' = db1\<lparr>wa_auths := wa_auths db1 @ [wa_new_row env now token base req]\<rparr>)"
proof -
  have keys: "map wa_id (wa_auths (wa_supersede_matching now u c k db)) = map wa_id (wa_auths db)" for u c k
    by (simp add: wa_supersede_matching_rows table_simps)
  then have ids: "wa_id ` set (wa_auths (wa_supersede_matching now u c k db)) = wa_id ` set (wa_auths db)" for u c k
    by (metis list.set_map)
  show ?thesis
    using assms
    by (auto simp: wa_create_def outcome_simps Let_def tbl_insert_Some ids split: option.splits)
qed

lemma wa_create_inv:
  assumes "wa_inv env db" and "wa_create env now token req db = Inr (v, db')"
  shows "wa_inv env db'"
proof -
  let ?db1 = "wa_supersede_matching now (wr_user req) (wr_capability req) (py_strip (wr_supersession_key req)) db"
  from wa_create_Inr[OF assms(2)] obtain base where
    new: "token \<notin> set (map wa_id (wa_auths db))" "30 \<le> wr_ttl_seconds req" "wr_ttl_seconds req \<le> 1800"
    and db': "db' = ?db1\<lparr>wa_auths := wa_auths ?db1 @ [wa_new_row env now token base req]\<rparr>"
    by (auto simp: Let_def)
  have "map wa_id (wa_auths ?db1) = map wa_id (wa_auths db)"
    by (simp add: wa_supersede_matching_rows table_simps)
  then show ?thesis
    unfolding db' using new wa_supersede_matching_inv[OF assms(1)]
    by (intro wa_insert_auth_inv) (auto dest: wa_supersede_matching_clears)
qed

lemma wa_create_presentation_cases:
  assumes "wa_create_presentation now now2 token i user endpoint db = (Inr (p, db') :: 'e wa_error + wap_row \<times> 'x wa_db)"
  shows "\<exists>auth db1. wa_current now2 i db = (Inr (auth, db1) :: 'e wa_error + wa_row \<times> 'x wa_db) \<and>
    wa_user auth = py_strip user \<and>
    (db' = db1 \<or> (\<exists>base. token \<notin> set (map wap_id (wa_presentations db1)) \<and>
        db' = db1\<lparr>wa_presentations := wa_presentations db1 @
          [wap_new_row now token i (py_strip user) (py_strip endpoint) base auth]\<rparr>))"
proof -
  have [simp]: "wap_id (wap_new_row now token i u e base auth) = token" for u e base auth
    by (simp add: wap_new_row_def)
  show ?thesis
    using assms unfolding wa_create_presentation_def Let_def
    by (auto simp: outcome_simps tbl_insert_Some split: if_splits option.splits)
qed

lemma wa_insert_presentation_inv:
  assumes inv: "wa_inv env db" and new: "wap_id row \<notin> set (map wap_id (wa_presentations db))"
    and st: "wap_state row = WapActive \<Longrightarrow> wa_status db (wap_auth row) = Some WaPending"
  shows "wa_inv env (db\<lparr>wa_presentations := wa_presentations db @ [row]\<rparr>)"
proof -
  let ?db = "db\<lparr>wa_presentations := wa_presentations db @ [row]\<rparr>"
  have "wa_auths ?db = wa_auths db" by simp
  note same = wa_auths_only[OF this]
  have "wa_cards_closed ?db"
    using inv st unfolding wa_cards_closed_def same wa_inv_def by auto
  then show ?thesis
    using inv new unfolding wa_inv_def same by (simp add: wa_keys_def)
qed

lemma wa_create_presentation_inv:
  assumes "wa_inv env db"
    and "wa_create_presentation now now2 token i user endpoint db = (Inr (p, db') :: 'e wa_error + wap_row \<times> 'x wa_db)"
  shows "wa_inv env db'"
proof -
  from wa_create_presentation_cases[OF assms(2)] obtain auth db1 where
    cur: "wa_current now2 i db = (Inr (auth, db1) :: 'e wa_error + wa_row \<times> 'x wa_db)"
    and rest: "db' = db1 \<or> (\<exists>base. token \<notin> set (map wap_id (wa_presentations db1)) \<and>
        db' = db1\<lparr>wa_presentations := wa_presentations db1 @
          [wap_new_row now token i (py_strip user) (py_strip endpoint) base auth]\<rparr>)"
    by blast
  have inv1: "wa_inv env db1" using wa_current_inv[OF assms(1) cur] .
  have st: "wa_status db1 i = Some (wa_state auth)"
    using cur by (rule wa_current_cases) (auto simp: wa_status_def)
  show ?thesis
  proof (cases "db' = db1")
    case False
    then obtain base where new: "token \<notin> set (map wap_id (wa_presentations db1))"
      and db': "db' = db1\<lparr>wa_presentations := wa_presentations db1 @
          [wap_new_row now token i (py_strip user) (py_strip endpoint) base auth]\<rparr>"
      using rest by blast
    show ?thesis
      unfolding db' using new
      by (intro wa_insert_presentation_inv[OF inv1])
         (auto simp: wap_new_row_def wap_state_for_def st split: if_splits)
  qed (use inv1 in simp)
qed

lemma wa_issue_csrf_inv:
  assumes inv: "wa_inv env db" and run: "wa_issue_csrf env token now now2 sid i p db = Inr (t, db')"
  shows "wa_inv env db'"
proof -
  from wa_issue_csrf_Inr[OF run] obtain row s where
    row: "tbl_get wa_id i (wa_auths db) = Some row" "wa_state row = WaPending"
    and rows: "wa_auths db' = wa_auths db" "wa_sessions db' = wa_sessions db @ [s]"
    and s: "was_auth s = i" "was_csrf_hash s \<notin> set (map was_csrf_hash (wa_sessions db))"
    and pres: "map (\<lambda>q. (wap_id q, wap_auth q, wap_state q)) (wa_presentations db') =
      map (\<lambda>q. (wap_id q, wap_auth q, wap_state q)) (wa_presentations db)"
    by force
  have status: "wa_status db' = wa_status db"
    using rows(1) by (simp add: wa_status_def fun_eq_iff)
  have ids: "map wap_id (wa_presentations db') = map wap_id (wa_presentations db)"
    using arg_cong[OF pres, of "map fst"] by (simp add: comp_def)
  have old: "\<exists>q' \<in> set (wa_presentations db). wap_auth q' = wap_auth q \<and> wap_state q' = wap_state q"
    if "q \<in> set (wa_presentations db')" for q
  proof -
    have "(wap_id q, wap_auth q, wap_state q) \<in> set (map (\<lambda>q. (wap_id q, wap_auth q, wap_state q)) (wa_presentations db))"
      unfolding pres[symmetric] using that by simp
    then show ?thesis by auto
  qed
  have "wa_status db i = Some WaPending"
    using row by (simp add: wa_status_def)
  then have "was_state x = WasPending \<longrightarrow> wa_status db (was_auth x) = Some WaPending"
    if "x \<in> set (wa_sessions db')" for x
    using that inv s(1) unfolding rows(2) wa_inv_def wa_cards_closed_def by auto
  moreover have "wap_state q = WapActive \<longrightarrow> wa_status db (wap_auth q) = Some WaPending"
    if "q \<in> set (wa_presentations db')" for q
    using old[OF that] inv unfolding wa_inv_def wa_cards_closed_def by metis
  ultimately have "wa_cards_closed db'"
    unfolding wa_cards_closed_def status by blast
  then show ?thesis
    using inv s rows ids wa_auths_only[OF rows(1)] by (simp add: wa_inv_def wa_keys_def)
qed

subsection \<open>What one operation does to an authorization\<close>

text \<open>The row of an authorization before and after an operation: the contract stands, the state moves.\<close>

definition wa_moves :: "wa_row \<Rightarrow> wa_row \<Rightarrow> bool" where
  "wa_moves r r' \<longleftrightarrow> wa_contract r' = wa_contract r \<and> wa_edge\<^sup>*\<^sup>* (wa_state r) (wa_state r')"

lemma wa_moves_refl [simp]: "wa_moves r r"
  by (simp add: wa_moves_def)

lemma wa_moves_edge: "wa_contract r' = wa_contract r \<Longrightarrow> wa_edge (wa_state r) (wa_state r') \<Longrightarrow> wa_moves r r'"
  by (auto simp: wa_moves_def)

lemma wa_live_edges:
  "wa_live r \<Longrightarrow> wa_edge (wa_state r) WaExpired" "wa_live r \<Longrightarrow> wa_edge (wa_state r) WaSuperseded"
  by (auto simp: wa_live_def intro: wa_edge.intros)

lemma wa_update_moves:
  assumes "tbl_get wa_id k rows = Some r"
    and "\<And>r. wa_id (f r) = wa_id r" and "P r \<Longrightarrow> wa_moves r (f r)"
  shows "\<exists>r'. tbl_get wa_id k (tbl_update P f rows) = Some r' \<and> wa_moves r r'"
  using assms by (simp add: table_simps)

lemmas wa_map_moves = wa_update_moves[unfolded tbl_update_def]

lemma wa_current_row:
  assumes "wa_current now i db = (Inr (row, db') :: 'e wa_error + wa_row \<times> 'x wa_db)"
    and "tbl_get wa_id k (wa_auths db) = Some r"
  shows "\<exists>r'. tbl_get wa_id k (wa_auths db') = Some r' \<and> wa_moves r r'"
  using assms(1)
proof (rule wa_current_cases)
  fix row0
  assume db': "db' = wa_mark_expired now i db" and r0: "tbl_get wa_id i (wa_auths db) = Some row0" "wa_live row0"
  show ?thesis
    unfolding db' wa_mark_expired_rows
    by (rule wa_update_moves[OF assms(2)])
       (use r0 assms(2) tbl_get_mem[OF assms(2)] in \<open>auto simp: wa_contract_def intro!: wa_moves_edge wa_live_edges\<close>)
qed (use assms(2) in auto)

lemma wa_create_row:
  assumes "wa_create env now token req db = Inr (v, db')" and "tbl_get wa_id k (wa_auths db) = Some r"
  shows "\<exists>r'. tbl_get wa_id k (wa_auths db') = Some r' \<and> wa_moves r r'"
proof -
  let ?db1 = "wa_supersede_matching now (wr_user req) (wr_capability req) (py_strip (wr_supersession_key req)) db"
  have "\<exists>r'. tbl_get wa_id k (wa_auths ?db1) = Some r' \<and> wa_moves r r'"
    unfolding wa_supersede_matching_rows
    by (rule wa_update_moves[OF assms(2)])
       (auto simp: wa_contract_def intro!: wa_moves_edge intro: wa_edge.intros)
  then show ?thesis
    using wa_create_Inr[OF assms(1)] by (auto simp: Let_def table_simps)
qed

lemma wa_consume_row:
  assumes "wa_consume env now now2 i b oid cb db = Inr (v, db')" and "tbl_get wa_id k (wa_auths db) = Some r"
  shows "\<exists>r'. tbl_get wa_id k (wa_auths db') = Some r' \<and> wa_moves r r'"
proof -
  from wa_consume_Inr[OF assms(1)] obtain x where db': "db' = wa_mark_consumed now i oid (db\<lparr>wa_other := x\<rparr>)"
    by blast
  show ?thesis
    unfolding db' wa_mark_consumed_def wa_set_auths_sel wa_db.select_convs wa_db.update_convs
    by (rule wa_update_moves)
       (use assms(2) in \<open>auto simp: wa_contract_def intro!: wa_moves_edge wa_edge.intros\<close>)
qed

lemma wa_decide_row:
  assumes "wa_decide env now now2 i d token cookie p db = Inr (v, db')" and "tbl_get wa_id k (wa_auths db) = Some r"
  shows "\<exists>r'. tbl_get wa_id k (wa_auths db') = Some r' \<and> wa_moves r r'"
proof -
  from wa_decide_Inr[OF assms(1)] obtain e where
    db': "db' = wa_mark_decided now i (if d = ''approve'' then WaApproved else WaRejected) e db" by blast
  show ?thesis
    unfolding db' wa_rows
    by (rule wa_map_moves[OF assms(2)])
       (auto simp: wa_contract_def intro!: wa_moves_edge wa_edge.intros)
qed

lemma wa_supersede_Inr:
  assumes "wa_supersede now i user po cb db = Inr (u, db')"
  shows "\<exists>row. tbl_get wa_id i (wa_auths db) = Some row \<and> wa_user row = user \<and>
    (db' = db \<and> \<not> wa_live row \<or>
     (\<exists>x. wa_live row \<and> wa_run_callback cb db = (Inr (db\<lparr>wa_other := x\<rparr>) :: 'e wa_error + 'x wa_db) \<and>
        db' = wa_mark_superseded now i (db\<lparr>wa_other := x\<rparr>)))"
proof -
  have cb: "\<exists>x. db2 = db\<lparr>wa_other := x\<rparr>" if "wa_run_callback cb db = (Inr db2 :: 'e wa_error + 'x wa_db)" for db2 :: "'x wa_db"
    using that by (cases db) (auto simp: wa_run_callback_def split: option.splits sum.splits)
  show ?thesis
    using assms by (auto simp: wa_supersede_def outcome_simps wa_live_def split: if_splits dest: cb)
qed

lemma wa_supersede_row:
  assumes "wa_supersede now i user po cb db = (Inr (u, db') :: 'e wa_error + unit \<times> 'x wa_db)"
    and r: "tbl_get wa_id k (wa_auths db) = Some r"
  shows "\<exists>r'. tbl_get wa_id k (wa_auths db') = Some r' \<and> wa_moves r r'"
proof -
  from wa_supersede_Inr[OF assms(1)] obtain row where row: "tbl_get wa_id i (wa_auths db) = Some row"
    and or: "db' = db \<or> wa_live row \<and> (\<exists>x. db' = wa_mark_superseded now i (db\<lparr>wa_other := x\<rparr>))" by blast
  show ?thesis
  proof (cases "db' = db")
    case False
    with or obtain x where live: "wa_live row" and db': "db' = wa_mark_superseded now i (db\<lparr>wa_other := x\<rparr>)"
      by blast
    show ?thesis
      unfolding db' wa_rows wa_db.select_convs wa_db.update_convs
      by (rule wa_map_moves)
         (use r row live tbl_get_mem[OF r] in \<open>auto simp: wa_contract_def intro!: wa_moves_edge wa_live_edges\<close>)
  qed (use r in simp)
qed

lemma wa_wrap_Inr [outcome_simps]: "wa_wrap f out = Inr (v, db) \<longleftrightarrow> (\<exists>a. out = Inr (a, db) \<and> v = f a)"
  by (auto simp: wa_wrap_def outcome_simps)

lemma wa_exec_row:
  fixes db :: "'x wa_db" and op :: "('x, 'e) wa_op"
  assumes "wa_exec env op db = Inr (v, db')" and r: "tbl_get wa_id k (wa_auths db) = Some r"
  shows "\<exists>r'. tbl_get wa_id k (wa_auths db') = Some r' \<and> wa_moves r r'"
proof (cases op)
  case (WaCreatePresentation now now2 token i user endpoint)
  with assms(1) obtain p where
    "wa_create_presentation now now2 token i user endpoint db = (Inr (p, db') :: 'e wa_error + wap_row \<times> 'x wa_db)"
    by (auto simp: outcome_simps)
  from wa_create_presentation_cases[OF this] obtain auth db1 where
    cur: "wa_current now2 i db = (Inr (auth, db1) :: 'e wa_error + wa_row \<times> 'x wa_db)"
    and "wa_auths db' = wa_auths db1" by auto
  with wa_current_row[OF cur r] show ?thesis by simp
next
  case (WaIssueCsrf token now now2 sid i p)
  with assms show ?thesis by (auto simp: outcome_simps dest!: wa_issue_csrf_Inr)
next
  case (WaGet now i ip)
  with assms show ?thesis by (auto simp: outcome_simps wa_get_def dest: wa_current_row)
next
  case (WaGetPresentation i p)
  with assms show ?thesis by (auto simp: outcome_simps wa_get_presentation_def)
qed (use assms in \<open>auto simp: outcome_simps dest: wa_create_row wa_consume_row wa_decide_row wa_supersede_row\<close>)

lemma wa_exec_inv: "wa_inv env db \<Longrightarrow> wa_exec env op db = Inr (v, db') \<Longrightarrow> wa_inv env db'"
proof (cases op)
  case (WaDecide now now2 i d token cookie p)
  assume "wa_inv env db" "wa_exec env op db = Inr (v, db')"
  with WaDecide show ?thesis
    by (auto simp: outcome_simps intro!: wa_mark_decided_inv dest!: wa_decide_Inr)
next
  case (WaConsume now now2 i b oid cb)
  assume "wa_inv env db" "wa_exec env op db = Inr (v, db')"
  with WaConsume show ?thesis
    by (auto simp: outcome_simps intro!: wa_mark_consumed_inv dest!: wa_consume_Inr)
next
  case (WaSupersede now i user po cb)
  assume "wa_inv env db" "wa_exec env op db = Inr (v, db')"
  with WaSupersede show ?thesis
    by (auto simp: outcome_simps intro!: wa_mark_superseded_inv dest!: wa_supersede_Inr)
qed (auto simp: outcome_simps wa_get_def wa_get_presentation_def
      intro: wa_current_inv wa_create_inv wa_create_presentation_inv wa_issue_csrf_inv)

section \<open>The store keeps the ledger contract\<close>

definition wa_contract_of :: "'x wa_db \<Rightarrow> string \<Rightarrow> (string list \<times> json \<times> string \<times> json \<times> time \<times> time) option" where
  "wa_contract_of db k = map_option wa_contract (tbl_get wa_id k (wa_auths db))"

fun wa_consumes :: "('x, 'e) wa_op \<Rightarrow> string \<Rightarrow> bool" where
  "wa_consumes (WaConsume now now2 i b oid cb) k \<longleftrightarrow> i = k"
| "wa_consumes _ k \<longleftrightarrow> False"

fun wa_decides :: "('x, 'e) wa_op \<Rightarrow> string \<Rightarrow> bool" where
  "wa_decides (WaDecide now now2 i d token cookie p) k \<longleftrightarrow> i = k"
| "wa_decides _ k \<longleftrightarrow> False"

lemma wa_not_pending_closed: "s \<noteq> WaPending \<Longrightarrow> wa_edge s t \<Longrightarrow> t \<noteq> WaPending"
  by (auto elim: wa_edge.cases)

interpretation wa: one_shot "wa_exec env" "wa_inv env" wa_status wa_edge wa_consumes WaApproved "\<lambda>s. s = WaConsumed"
proof (unfold_locales, goal_cases)
  case (1 db op r db')
  then show ?case by (rule wa_exec_inv)
next
  case (2 db op v db' k s)
  then obtain r where "tbl_get wa_id k (wa_auths db) = Some r" "wa_state r = s"
    by (auto simp: wa_status_def)
  with wa_exec_row[OF 2(2)] show ?case by (fastforce simp: wa_status_def wa_moves_def)
next
  case (3 db op k r db')
  then obtain now now2 b oid cb where "op = WaConsume now now2 k b oid cb" by (cases op) auto
  with 3(3) show ?case
    by (auto simp: outcome_simps wa_status_def wa_mark_consumed_def table_simps dest!: wa_consume_Inr
        dest: tbl_get_mem)
qed auto

interpretation wa_decision: one_shot "wa_exec env" "wa_inv env" wa_status wa_edge wa_decides WaPending "\<lambda>s. s \<noteq> WaPending"
proof (unfold_locales, goal_cases)
  case (1 db op k r db')
  then obtain now now2 d token cookie p where "op = WaDecide now now2 k d token cookie p" by (cases op) auto
  with 1(3) show ?case
    by (auto simp: outcome_simps wa_status_def wa_rows tbl_get_map dest!: wa_decide_Inr dest: tbl_get_mem)
qed (auto dest: wa_not_pending_closed)

interpretation wa_fixed: ledger "wa_exec env" "wa_inv env" wa_contract_of "\<lambda>_ _. False"
  by unfold_locales (auto simp: wa_contract_of_def wa_moves_def dest: wa_exec_row)

subsection \<open>How an authorization becomes approved\<close>

fun wa_approves :: "('x, 'e) wa_op \<Rightarrow> string \<Rightarrow> bool" where
  "wa_approves (WaDecide now now2 i d token cookie p) k \<longleftrightarrow> i = k \<and> d = ''approve''"
| "wa_approves _ k \<longleftrightarrow> False"

lemma wa_update_not_approved:
  assumes "tbl_get wa_id k (tbl_update P f rows) = Some r'" and "wa_state r' = WaApproved"
    and "\<And>r. wa_id (f r) = wa_id r" and "\<And>r. wa_state (f r) \<noteq> WaApproved"
  shows "tbl_get wa_id k rows = Some r'"
  using assms by (auto simp: table_simps split: if_splits)

lemmas wa_map_not_approved = wa_update_not_approved[unfolded tbl_update_def]

lemma wa_status_approved: "wa_status db k = Some s \<longleftrightarrow> (\<exists>r. tbl_get wa_id k (wa_auths db) = Some r \<and> wa_state r = s)"
  by (simp add: wa_status_def)

lemma wa_current_not_approved:
  assumes "wa_current now i db = (Inr (row, db') :: 'e wa_error + wa_row \<times> 'x wa_db)"
    and "wa_status db' k = Some WaApproved"
  shows "wa_status db k = Some WaApproved"
  using assms(1)
  by (rule wa_current_cases)
     (use assms(2) in \<open>auto simp: wa_status_approved wa_mark_expired_rows dest: wa_update_not_approved\<close>)

lemma wa_create_not_approved:
  assumes "wa_create env now token req db = Inr (v, db')" and "wa_status db' k = Some WaApproved"
  shows "wa_status db k = Some WaApproved"
  using assms(2) wa_create_Inr[OF assms(1)]
  by (auto simp: Let_def wa_status_approved tbl_get_append wa_supersede_matching_rows
      split: option.splits if_splits dest!: wa_update_not_approved)

lemma wa_decide_not_approved:
  assumes "wa_decide env now now2 i d token cookie p db = Inr (v, db')"
    and "wa_status db' k = Some WaApproved" and "wa_status db k \<noteq> Some WaApproved"
  shows "i = k \<and> d = ''approve''"
proof -
  define s where "s = (if d = ''approve'' then WaApproved else WaRejected)"
  from wa_decide_Inr[OF assms(1)] obtain e where db': "db' = wa_mark_decided now i s e db"
    unfolding s_def by blast
  from assms(2) obtain r where r: "tbl_get wa_id k (wa_auths db) = Some r"
    and st: "(if wa_id r = i \<and> wa_state r = WaPending then s else wa_state r) = WaApproved"
    unfolding db' wa_status_def wa_rows by (auto simp: tbl_get_map if_distrib[of wa_state] cong: if_cong)
  have "wa_id r = k" "wa_state r \<noteq> WaApproved"
    using tbl_get_mem[OF r] r assms(3) by (auto simp: wa_status_def)
  with st have "i = k" "s = WaApproved" by (auto split: if_splits)
  then show ?thesis unfolding s_def by (auto split: if_splits)
qed

lemma wa_exec_not_approved:
  fixes db :: "'x wa_db" and op :: "('x, 'e) wa_op"
  assumes "wa_exec env op db = Inr (v, db')" and "wa_status db' k = Some WaApproved"
    and "wa_status db k \<noteq> Some WaApproved"
  shows "wa_approves op k"
proof (cases op)
  case (WaCreatePresentation now now2 token i user endpoint)
  with assms(1) obtain p where
    "wa_create_presentation now now2 token i user endpoint db = (Inr (p, db') :: 'e wa_error + wap_row \<times> 'x wa_db)"
    by (auto simp: outcome_simps)
  from wa_create_presentation_cases[OF this] obtain auth db1 where
    cur: "wa_current now2 i db = (Inr (auth, db1) :: 'e wa_error + wa_row \<times> 'x wa_db)"
    and "wa_auths db' = wa_auths db1" by auto
  with assms(2) have "wa_status db1 k = Some WaApproved" by (simp add: wa_status_def)
  with wa_current_not_approved[OF cur] assms(3) show ?thesis by simp
next
  case (WaIssueCsrf token now now2 sid i p)
  with assms show ?thesis by (auto simp: outcome_simps wa_status_def dest!: wa_issue_csrf_Inr)
next
  case (WaDecide now now2 i d token cookie p)
  with assms show ?thesis
    by (auto simp: outcome_simps dest: wa_decide_not_approved)
next
  case (WaConsume now now2 i b oid cb)
  with assms show ?thesis
    by (auto simp: outcome_simps wa_status_approved wa_mark_consumed_def
        dest!: wa_consume_Inr wa_update_not_approved)
next
  case (WaSupersede now i user po cb)
  with assms show ?thesis
    by (auto simp: outcome_simps wa_status_approved wa_rows dest!: wa_supersede_Inr wa_map_not_approved)
qed (use assms in \<open>auto simp: outcome_simps wa_get_def wa_get_presentation_def
      dest: wa_current_not_approved wa_create_not_approved\<close>)

lemma wa_run_approved:
  "wa_status (run (wa_exec env) ops db) k = Some WaApproved \<Longrightarrow> wa_status db k \<noteq> Some WaApproved \<Longrightarrow>
   1 \<le> successes (wa_exec env) (\<lambda>op. wa_approves op k) ops db"
proof (induction ops arbitrary: db)
  case (Cons op ops)
  show ?case
  proof (cases "wa_exec env op db")
    case (Inl e)
    then show ?thesis using Cons by simp
  next
    case (Inr p)
    then obtain v db' where out: "wa_exec env op db = Inr (v, db')" by (cases p) auto
    show ?thesis
    proof (cases "wa_status db' k = Some WaApproved")
      case True
      then show ?thesis using wa_exec_not_approved[OF out] Cons.prems(2) out by simp
    next
      case False
      then show ?thesis using Cons.IH[of db'] Cons.prems(1) out by simp
    qed
  qed
qed simp

lemma wa_create_status:
  assumes "wa_create env now token req db = Inr (v, db')"
  shows "\<exists>base. tbl_get wa_id token (wa_auths db') = Some (wa_new_row env now token base req)"
proof -
  have "map wa_id (wa_auths (wa_supersede_matching now u c k db)) = map wa_id (wa_auths db)" for u c k
    by (simp add: wa_supersede_matching_rows table_simps)
  then show ?thesis
    using wa_create_Inr[OF assms]
    by (auto simp: Let_def tbl_get_append split: option.splits dest!: tbl_get_mem)
       (metis image_eqI list.set_map)+
qed

section \<open>Properties\<close>

text \<open>A run of the store: an authorization is created, shown, approved and consumed.\<close>

definition wa_demo_env :: py_env where
  "wa_demo_env = \<lparr>sha_text = (\<lambda>s. ''t'' @ s), sha_json = (\<lambda>v. if v = JDict [] then ''0'' else ''1''),
     ip_literal = (\<lambda>_. False)\<rparr>"

definition wa_demo_request :: wa_request where
  "wa_demo_request = \<lparr>wr_user = ''ann'', wr_system = ''oa'', wr_session = ''s'', wr_capability = ''leave.submit'',
     wr_version = ''1'', wr_prepare_operation = ''op'', wr_supersession_key = [],
     wr_plan = JDict [(''days'', JInt 3)], wr_summary = JDict [], wr_card_base_url = ''https://h/card/'',
     wr_ttl_seconds = 600\<rparr>"

definition wa_demo_binding :: wa_binding where
  "wa_demo_binding = \<lparr>wb_user = ''ann'', wb_system = ''oa'', wb_session = ''s'', wb_capability = ''leave.submit'',
     wb_version = ''1''\<rparr>"

definition wa_demo_open :: "(nat, unit) wa_op list" where
  "wa_demo_open = [WaCreate 0 ''a'' wa_demo_request, WaIssueCsrf ''tok'' 1 1 ''sid'' ''a'' None]"

definition wa_demo_approve :: "(nat, unit) wa_op list" where
  "wa_demo_approve = [WaDecide 2 2 ''a'' ''approve'' ''tok'' ''tok'' None]"

text \<open>
  C3: In every state the store can reach, identifiers and CSRF digests are unique, only a
  pending authorization has open card sessions or active presentations, at most one
  authorization per user, capability and supersession key is pending or approved, and every
  stored plan has the digest computed when it was created and a life of 30 seconds to 30 minutes.
\<close>

theorem wa_reachable_states_sound:
  "wa_inv env (run (wa_exec env) ops (wa_empty x))"
  by (rule wa.inv_run[OF wa_inv_empty])

text \<open>
  C4: In any sequence of transactions, whatever the clock readings and callers, an
  authorization is consumed successfully at most once.
\<close>

theorem wa_consumed_at_most_once:
  "successes (wa_exec env) (\<lambda>op. wa_consumes op k) ops (wa_empty x) \<le> 1"
  by (rule wa.spent_at_most_once[OF wa_inv_empty])

text \<open>In any sequence of transactions an authorization is decided (approved or rejected) at most once.\<close>

theorem wa_decided_at_most_once:
  "successes (wa_exec env) (\<lambda>op. wa_decides op k) ops (wa_empty x) \<le> 1"
  by (rule wa_decision.spent_at_most_once[OF wa_inv_empty])

text \<open>
  C1: The execution of a write gets exactly what was proposed and approved. When an
  authorization created from a request is consumed after any transactions, then the plan
  handed out is the canonical plan of the request, the user, system, session, capability and
  version of the consumer are those of the request, the authorization has not expired, and one
  of the transactions in between was a successful approval of that authorization.
\<close>

theorem wa_consumes_what_was_approved:
  assumes "wa_inv env db" and "wa_create env now token req db = Inr (v0, db0)"
    and "wa_consume env n n2 token b oid cb (run (wa_exec env) ops db0) = Inr (v, db')"
  shows "wv_plan v = Some (canon (wr_plan req)) \<and>
    [wb_user b, wb_system b, wb_session b, wb_capability b, wb_version b] =
      [wr_user req, wr_system req, wr_session req, wr_capability req, wr_version req] \<and>
    n2 < now + wr_ttl_seconds req * 1000000 \<and>
    successes (wa_exec env) (\<lambda>op. wa_approves op token) ops db0 \<ge> 1"
proof -
  let ?db = "run (wa_exec env) ops db0"
  note inv0 = wa_create_inv[OF assms(1,2)]
  obtain base where r0: "tbl_get wa_id token (wa_auths db0) = Some (wa_new_row env now token base req)"
    using wa_create_status[OF assms(2)] by blast
  obtain row where row: "tbl_get wa_id token (wa_auths ?db) = Some row" "wa_state row = WaApproved"
      "n2 < wa_expires_at row" "wa_bound_to row b" "wv_plan v = Some (wa_plan row)"
    using wa_consume_Inr[OF assms(3)] by blast
  have "wa_contract_of db0 token = Some (wa_contract (wa_new_row env now token base req))"
    using r0 by (simp add: wa_contract_of_def)
  from wa_fixed.final_run[OF inv0 this, of ops] have "wa_contract row = wa_contract (wa_new_row env now token base req)"
    using r0 row(1) by (simp add: wa_contract_of_def)
  moreover have "1 \<le> successes (wa_exec env) (\<lambda>op. wa_approves op token) ops db0"
    using r0 row(1,2) by (intro wa_run_approved) (simp_all add: wa_status_def)
  ultimately show ?thesis
    using row by (simp add: wa_contract_def wa_new_row_def wa_bound_to_def)
qed

theorem wa_consumes_what_was_approved_witness:
  "wv_plan (fst (projr (wa_consume wa_demo_env 3 3 ''a'' wa_demo_binding ''c'' (Some (\<lambda>n. Inr (Suc n)))
     (run (wa_exec wa_demo_env) (wa_demo_open @ wa_demo_approve) (wa_empty 0))
       :: unit wa_error + wa_view \<times> nat wa_db)))
   = Some (canon (wr_plan wa_demo_request))"
proof -
  let ?db0 = "snd (projr (wa_create wa_demo_env 0 ''a'' wa_demo_request (wa_empty 0) :: unit wa_error + wa_view \<times> nat wa_db))"
  let ?ops = "tl wa_demo_open @ wa_demo_approve"
  let ?out = "wa_consume wa_demo_env 3 3 ''a'' wa_demo_binding ''c'' (Some (\<lambda>n. Inr (Suc n)))
     (run (wa_exec wa_demo_env) ?ops ?db0) :: unit wa_error + wa_view \<times> nat wa_db"
  have 1: "isl (wa_create wa_demo_env 0 ''a'' wa_demo_request (wa_empty (0::nat)) :: unit wa_error + wa_view \<times> nat wa_db) = False"
    by code_simp
  have 2: "isl ?out = False"
    by code_simp
  have 3: "run (wa_exec wa_demo_env) (wa_demo_open @ wa_demo_approve) (wa_empty 0) = run (wa_exec wa_demo_env) ?ops ?db0"
    by code_simp
  obtain v0 db0 where c: "wa_create wa_demo_env 0 ''a'' wa_demo_request (wa_empty 0) = (Inr (v0, db0) :: unit wa_error + wa_view \<times> nat wa_db)"
    using returns[OF 1] by blast
  obtain v db' where out: "?out = Inr (v, db')"
    using returns[OF 2] by blast
  have "?db0 = db0"
    unfolding c by simp
  then have "wv_plan v = Some (canon (wr_plan wa_demo_request))"
    using wa_consumes_what_was_approved[OF wa_inv_empty c] out by metis
  then show ?thesis
    unfolding 3 out by simp
qed

text \<open>
  Consumption is refused exactly for the documented reasons. In every sound state whose
  plan digests are ASCII texts (SHA-256 digests are), consuming an authorization succeeds if
  and only if it exists, is approved, is not expired at the second clock reading, is bound to
  the consumer's user, system, session, capability and version, and the callback run in the
  same transaction succeeds.
\<close>

theorem wa_consume_succeeds_iff:
  fixes cb :: "('x \<Rightarrow> 'e + 'x) option"
  assumes "wa_inv env db" and "\<forall>r \<in> set (wa_auths db). is_ascii (wa_plan_hash r)"
  shows "(\<exists>v db'. wa_consume env now now2 i b oid cb db = Inr (v, db')) \<longleftrightarrow>
    (\<exists>row. tbl_get wa_id i (wa_auths db) = Some row \<and> wa_state row = WaApproved \<and>
       now2 < wa_expires_at row \<and> wa_bound_to row b \<and>
       (\<forall>f. cb = Some f \<longrightarrow> (\<exists>x. f (wa_other db) = Inr x)))" (is "?ok \<longleftrightarrow> ?guards")
proof
  assume ?ok
  then obtain v db' where "wa_consume env now now2 i b oid cb db = Inr (v, db')" by blast
  from wa_consume_Inr[OF this] show ?guards
    by (auto simp: wa_run_callback_def split: option.splits sum.splits)
next
  assume ?guards
  then obtain row where row: "tbl_get wa_id i (wa_auths db) = Some row" "wa_state row = WaApproved"
      "now2 < wa_expires_at row" "wa_bound_to row b"
    and cb: "\<exists>x. wa_run_callback cb db = (Inr (db\<lparr>wa_other := x\<rparr>) :: 'e wa_error + 'x wa_db)"
    by (cases cb; cases db) (fastforce simp: wa_run_callback_def)+
  have mem: "row \<in> set (wa_auths db)" "wa_id row = i"
    using tbl_get_mem[OF row(1)] by auto
  have "wa_plan_hash row = json_hash env (wa_plan row)" "is_ascii (wa_plan_hash row)"
    using assms mem by (auto simp: wa_inv_def wa_sound_def)
  then have digest: "compare_digest (wa_plan_hash row) (json_hash env (wa_plan row)) = Some True"
    by (simp add: compare_digest_def)
  have cur: "wa_current now2 i db = (Inr (row, db) :: 'e wa_error + wa_row \<times> 'x wa_db)"
    using row by (simp add: wa_current_def wa_select_def wa_expire_if_needed_def)
  have "filter (\<lambda>r. wa_id r = i \<and> wa_state r = WaApproved) (wa_auths db) = [row]"
    by (rule filter_single) (use assms(1) mem row in \<open>auto simp: wa_inv_def wa_keys_def distinct_map dest: inj_onD\<close>)
  then show ?ok
    using cb by (auto simp: wa_consume_def cur row digest tbl_count_def Let_def wa_select_def
        wa_mark_consumed_def table_simps split: option.splits)
qed

text \<open>
  Only an open card approves. When an operation makes an authorization approved, it is an
  approval of that authorization, pending and unexpired until then, by a caller whose token and
  cookie agree and whose token has the digest of an open card session of that authorization
  and presentation.
\<close>

theorem wa_approval_needs_open_card:
  fixes db :: "'x wa_db" and op :: "('x, 'e) wa_op"
  assumes "wa_exec env op db = Inr (v, db')"
    and "wa_status db' k = Some WaApproved" and "wa_status db k \<noteq> Some WaApproved"
  shows "\<exists>now now2 token p s row. op = WaDecide now now2 k ''approve'' token token p \<and> token \<noteq> [] \<and>
    tbl_get wa_id k (wa_auths db) = Some row \<and> wa_state row = WaPending \<and> now2 < wa_expires_at row \<and>
    s \<in> set (wa_sessions db) \<and> was_auth s = k \<and> was_presentation s = p \<and> was_state s = WasPending \<and>
    was_csrf_hash s = token_hash env token"
proof -
  have "wa_approves op k"
    by (rule wa_exec_not_approved[OF assms])
  then obtain now now2 token cookie p where op: "op = WaDecide now now2 k ''approve'' token cookie p"
    by (cases op) auto
  with assms(1) obtain a where "wa_decide env now now2 k ''approve'' token cookie p db = (Inr (a, db') :: 'e wa_error + wa_view \<times> 'x wa_db)"
    by (auto simp: outcome_simps)
  from wa_decide_Inr[OF this] obtain row s where
    row: "tbl_get wa_id k (wa_auths db) = Some row" "wa_state row = WaPending" "now2 < wa_expires_at row"
    and tok: "token = cookie" "cookie \<noteq> []" and s: "wa_find_session k p (token_hash env token) db = Some s"
    by blast
  then show ?thesis
    unfolding op using find_Some_mem[OF s[unfolded wa_find_session_def]] by auto
qed

text \<open>
  The card address of an authorization leads back to the base address it was created
  with, whatever the base address contains, as long as the random token has no slash.
\<close>

theorem wa_card_url_roundtrip:
  assumes "CHR ''/'' \<notin> set token"
  shows "wa_card_base_url (wa_card_url (wa_new_row env now token base req)) = Some base"
  using split_last_fresh[OF assms, of "''/authorize''" base]
  by (simp add: wa_card_base_url_def wa_new_row_def)

end
