(* ===== verification/Operations.thy ===== *)
theory Operations
  imports Ledger Urls
begin

text \<open>
  The operation store of \<open>agentbridge/core/operations.py\<close>: one row per capability call,
  created once per idempotency key and then moved by the executor through its statuses. Creation
  looks for the key before it takes the write lock: \<open>seen\<close> is the table at that moment,
  \<open>db\<close> the table when the row is inserted.
\<close>

section \<open>Table\<close>

datatype op_status = OpPending | OpRunning | OpSucceeded | OpFailed | OpUnknown | OpRequiresUserAction

record op_row =
  op_id :: string
  op_request :: string
  op_user :: string
  op_capability :: string
  op_version :: string
  op_summary :: json
  op_input_hash :: string
  op_key :: "string option"
  op_status :: op_status
  op_result :: "json option"
  op_error_code :: "string option"
  op_error_message :: "string option"
  op_next_action :: "json option"
  op_created_at :: time
  op_updated_at :: time
  op_finished_at :: "time option"

type_synonym op_db = "op_row list"

datatype op_error = OpValueError | OpKeyError | OpConflict | OpSqlIntegrityError

text \<open>\<open>_operation_from_row\<close> adds the error of the row, with defaults for its parts.\<close>

datatype op_view = OpView (ov_row: op_row) (ov_error: "(string \<times> string) option")

definition operation_from_row :: "op_row \<Rightarrow> op_view" where
  "operation_from_row row = OpView row
     (if filled (op_error_code row) \<or> filled (op_error_message row)
      then Some (or_text (op_error_code row) ''OPERATION_ERROR'',
                 or_text (op_error_message row) ''Operation failed.'')
      else None)"

section \<open>Operations\<close>

record op_request =
  oq_user :: string
  oq_capability :: string
  oq_version :: string
  oq_summary :: json
  oq_identity :: "json option"
  oq_key :: "string option"
  oq_request :: "string option"

definition normalized_key :: "string option \<Rightarrow> string option" where
  "normalized_key k = (case k of None \<Rightarrow> None
     | Some s \<Rightarrow> if s = [] \<or> py_strip s = [] then None else Some (py_strip s))"

definition op_input_hash_of :: "py_env \<Rightarrow> op_request \<Rightarrow> string" where
  "op_input_hash_of env req =
     sha_json env (canon (case oq_identity req of None \<Rightarrow> oq_summary req | Some v \<Rightarrow> v))"

definition op_matches :: "string \<Rightarrow> string \<Rightarrow> string \<Rightarrow> string \<Rightarrow> op_row \<Rightarrow> bool" where
  "op_matches user capability version key r \<longleftrightarrow> op_user r = user \<and> op_capability r = capability \<and>
     op_version r = version \<and> op_key r = Some key"

definition op_find_row :: "string \<Rightarrow> string \<Rightarrow> string \<Rightarrow> string option \<Rightarrow> op_db \<Rightarrow> op_row option" where
  "op_find_row user capability version key db =
     (case key of None \<Rightarrow> None | Some k \<Rightarrow> List.find (op_matches user capability version k) db)"

definition op_reuse :: "op_row \<Rightarrow> string \<Rightarrow> op_error + (op_view \<times> bool)" where
  "op_reuse row input_hash =
     (if op_input_hash row \<noteq> input_hash then Inl OpConflict else Inr (operation_from_row row, True))"

definition op_new_row :: "py_env \<Rightarrow> time \<Rightarrow> string \<Rightarrow> string \<Rightarrow> op_request \<Rightarrow> op_row" where
  "op_new_row env now uuid uuid2 req =
     \<lparr>op_id = uuid, op_request = or_text (oq_request req) uuid2, op_user = oq_user req,
      op_capability = oq_capability req, op_version = oq_version req,
      op_summary = canon (oq_summary req), op_input_hash = op_input_hash_of env req,
      op_key = normalized_key (oq_key req), op_status = OpPending, op_result = None,
      op_error_code = None, op_error_message = None, op_next_action = None,
      op_created_at = now, op_updated_at = now, op_finished_at = None\<rparr>"

text \<open>The insertion checks the primary key and the unique index over the rows with an idempotency key.\<close>

definition op_insert :: "op_row \<Rightarrow> op_db \<Rightarrow> op_db option" where
  "op_insert row db =
     (if op_key row \<noteq> None \<and>
         op_find_row (op_user row) (op_capability row) (op_version row) (op_key row) db \<noteq> None
      then None else tbl_insert op_id row db)"

definition op_create ::
  "py_env \<Rightarrow> op_db \<Rightarrow> time \<Rightarrow> string \<Rightarrow> string \<Rightarrow> op_request \<Rightarrow> op_db
   \<Rightarrow> op_error + ((op_view \<times> bool) \<times> op_db)" where
  "op_create env seen now uuid uuid2 req db =
     (if oq_user req = [] then Inl OpValueError
      else let input_hash = op_input_hash_of env req;
               find_in = op_find_row (oq_user req) (oq_capability req) (oq_version req) (normalized_key (oq_key req))
      in (case find_in seen of
            Some existing \<Rightarrow> ebind (op_reuse existing input_hash) (\<lambda>r. Inr (r, db))
          | None \<Rightarrow>
              (case op_insert (op_new_row env now uuid uuid2 req) db of
                 None \<Rightarrow>
                   (case find_in db of
                      None \<Rightarrow> Inl OpSqlIntegrityError
                    | Some existing \<Rightarrow> ebind (op_reuse existing input_hash) (\<lambda>r. Inr (r, db)))
               | Some db' \<Rightarrow>
                   (case tbl_get op_id uuid db' of
                      None \<Rightarrow> Inl OpKeyError
                    | Some row \<Rightarrow> Inr ((operation_from_row row, False), db')))))"

definition op_set ::
  "time \<Rightarrow> op_status \<Rightarrow> json option \<Rightarrow> string option \<Rightarrow> string option \<Rightarrow> json option \<Rightarrow> bool \<Rightarrow> op_row \<Rightarrow> op_row" where
  "op_set now status result code msg next_action finished r =
     r\<lparr>op_status := status, op_result := result, op_error_code := code, op_error_message := msg,
       op_next_action := next_action, op_updated_at := now,
       op_finished_at := (if finished then Some now else None)\<rparr>"

definition op_update :: "string \<Rightarrow> (op_row \<Rightarrow> op_row) \<Rightarrow> op_db \<Rightarrow> op_error + (op_view \<times> op_db)" where
  "op_update i f db =
     (if tbl_count (\<lambda>r. op_id r = i) db \<noteq> 1 then Inl OpKeyError
      else let db' = tbl_update (\<lambda>r. op_id r = i) f db
           in (case tbl_get op_id i db' of
                 None \<Rightarrow> Inl OpKeyError
               | Some row \<Rightarrow> Inr (operation_from_row row, db')))"

definition op_mark_running :: "time \<Rightarrow> string \<Rightarrow> op_db \<Rightarrow> op_error + (op_view \<times> op_db)" where
  "op_mark_running now i = op_update i (op_set now OpRunning None None None None False)"

definition op_mark_succeeded :: "time \<Rightarrow> string \<Rightarrow> json \<Rightarrow> op_db \<Rightarrow> op_error + (op_view \<times> op_db)" where
  "op_mark_succeeded now i result = op_update i (op_set now OpSucceeded (Some (canon result)) None None None True)"

definition op_mark_failed :: "time \<Rightarrow> string \<Rightarrow> string \<Rightarrow> string \<Rightarrow> op_db \<Rightarrow> op_error + (op_view \<times> op_db)" where
  "op_mark_failed now i code msg = op_update i (op_set now OpFailed None (Some code) (Some msg) None True)"

definition op_mark_unknown :: "time \<Rightarrow> string \<Rightarrow> string \<Rightarrow> string \<Rightarrow> op_db \<Rightarrow> op_error + (op_view \<times> op_db)" where
  "op_mark_unknown now i code msg = op_update i (op_set now OpUnknown None (Some code) (Some msg) None True)"

definition op_mark_requires_user_action ::
  "time \<Rightarrow> string \<Rightarrow> string \<Rightarrow> string \<Rightarrow> json \<Rightarrow> op_db \<Rightarrow> op_error + (op_view \<times> op_db)" where
  "op_mark_requires_user_action now i code msg next_action =
     op_update i (op_set now OpRequiresUserAction None (Some code) (Some msg) (Some (canon next_action)) True)"

definition op_get :: "string \<Rightarrow> op_db \<Rightarrow> op_error + op_view" where
  "op_get i db = (case tbl_get op_id i db of None \<Rightarrow> Inl OpKeyError | Some r \<Rightarrow> Inr (operation_from_row r))"

definition op_find_idempotent :: "string \<Rightarrow> string \<Rightarrow> string \<Rightarrow> string \<Rightarrow> op_db \<Rightarrow> op_view option" where
  "op_find_idempotent user capability version key db =
     (let k = py_strip key in
      if k = [] then None
      else map_option operation_from_row (op_find_row user capability version (Some k) db))"

definition op_list :: "string option \<Rightarrow> int \<Rightarrow> op_db \<Rightarrow> op_view list" where
  "op_list user limit db =
     (let rows = (if filled user then filter (\<lambda>r. Some (op_user r) = user) db else db)
      in map operation_from_row
           (take (nat (min (max limit 1) 1000)) (sort_key (\<lambda>r. - op_created_at r) rows)))"

section \<open>The store as a transition system\<close>

datatype op_op =
    OpCreate op_db time string string op_request
  | OpMarkRunning time string
  | OpMarkSucceeded time string json
  | OpMarkFailed time string string string
  | OpMarkUnknown time string string string
  | OpMarkRequiresUserAction time string string string json

definition op_wrap :: "op_error + (op_view \<times> op_db) \<Rightarrow> op_error + ((op_view \<times> bool) \<times> op_db)" where
  "op_wrap out = ebind out (\<lambda>(v, db). Inr ((v, True), db))"

fun op_exec :: "py_env \<Rightarrow> op_op \<Rightarrow> op_db \<Rightarrow> op_error + ((op_view \<times> bool) \<times> op_db)" where
  "op_exec env (OpCreate seen now uuid uuid2 req) db = op_create env seen now uuid uuid2 req db"
| "op_exec env (OpMarkRunning now i) db = op_wrap (op_mark_running now i db)"
| "op_exec env (OpMarkSucceeded now i result) db = op_wrap (op_mark_succeeded now i result db)"
| "op_exec env (OpMarkFailed now i code msg) db = op_wrap (op_mark_failed now i code msg db)"
| "op_exec env (OpMarkUnknown now i code msg) db = op_wrap (op_mark_unknown now i code msg db)"
| "op_exec env (OpMarkRequiresUserAction now i code msg na) db =
     op_wrap (op_mark_requires_user_action now i code msg na db)"

section \<open>Lemmas\<close>

definition op_identity :: "op_row \<Rightarrow> string list \<times> string option \<times> json \<times> time" where
  "op_identity r = ([op_id r, op_request r, op_user r, op_capability r, op_version r, op_input_hash r],
     op_key r, op_summary r, op_created_at r)"

definition op_row_ok :: "op_row \<Rightarrow> bool" where
  "op_row_ok r \<longleftrightarrow>
     (op_finished_at r = None \<longleftrightarrow> op_status r \<in> {OpPending, OpRunning}) \<and>
     (op_result r \<noteq> None \<longleftrightarrow> op_status r = OpSucceeded) \<and>
     (op_next_action r \<noteq> None \<longleftrightarrow> op_status r = OpRequiresUserAction) \<and>
     (op_error_code r \<noteq> None \<longleftrightarrow> op_status r \<in> {OpFailed, OpUnknown, OpRequiresUserAction}) \<and>
     (\<forall>k. op_key r = Some k \<longrightarrow> k \<noteq> [] \<and> py_strip k = k)"

definition op_same_key :: "op_row \<Rightarrow> op_row \<Rightarrow> bool" where
  "op_same_key r s \<longleftrightarrow> op_key r \<noteq> None \<and> op_key r = op_key s \<and> op_user r = op_user s \<and>
     op_capability r = op_capability s \<and> op_version r = op_version s"

definition op_inv :: "op_db \<Rightarrow> bool" where
  "op_inv db \<longleftrightarrow> distinct (map op_id db) \<and> (\<forall>r \<in> set db. op_row_ok r) \<and>
     (\<forall>r \<in> set db. \<forall>s \<in> set db. op_same_key r s \<longrightarrow> op_id r = op_id s)"

lemma op_inv_empty: "op_inv []"
  by (simp add: op_inv_def)

lemma op_same_keyD:
  assumes "op_inv db" "r \<in> set db" "s \<in> set db" "op_same_key r s"
  shows "r = s"
proof -
  have "op_id r = op_id s" using assms unfolding op_inv_def by blast
  moreover have "distinct (map op_id db)" using assms(1) unfolding op_inv_def by blast
  ultimately show ?thesis using distinct_same_key[OF _ assms(2,3)] by blast
qed

lemma op_set_identity [simp]: "op_identity (op_set now st res code msg na fin r) = op_identity r"
  by (simp add: op_set_def op_identity_def)

lemma op_update_inv:
  assumes inv: "op_inv db" and f: "\<And>r. op_identity (f r) = op_identity r" "\<And>r. op_row_ok r \<Longrightarrow> op_row_ok (f r)"
  shows "op_inv (tbl_update P f db)"
proof -
  let ?g = "\<lambda>r. if P r then f r else r"
  have id: "op_id (?g r) = op_id r" "op_same_key (?g r) (?g s) = op_same_key r s" for r s
    using f(1)[of r] f(1)[of s] by (auto simp: op_identity_def op_same_key_def)
  have "op_id (?g r) = op_id (?g s)" if "r \<in> set db" "s \<in> set db" "op_same_key (?g r) (?g s)" for r s
  proof -
    have "r = s" using op_same_keyD[OF inv that(1,2)] that(3) unfolding id .
    then show ?thesis by (simp only:)
  qed
  then have "\<forall>r \<in> set (tbl_update P f db). \<forall>s \<in> set (tbl_update P f db). op_same_key r s \<longrightarrow> op_id r = op_id s"
    unfolding tbl_update_def set_map by blast
  moreover have "map op_id (tbl_update P f db) = map op_id db"
    unfolding tbl_update_def map_map comp_def id ..
  moreover have "\<forall>r \<in> set (tbl_update P f db). op_row_ok r"
    using inv f(2) by (auto simp: tbl_update_def op_inv_def)
  ultimately show ?thesis using inv by (simp add: op_inv_def)
qed

lemma op_find_row_Some: "op_find_row u c v k db = Some r \<Longrightarrow>
  r \<in> set db \<and> op_user r = u \<and> op_capability r = c \<and> op_version r = v \<and> op_key r = k \<and> k \<noteq> None"
  by (auto simp: op_find_row_def op_matches_def split: option.splits dest: find_Some_mem)

lemma op_find_row_None: "op_find_row u c v (Some k) db = None \<Longrightarrow> r \<in> set db \<Longrightarrow> \<not> op_matches u c v k r"
  by (simp add: op_find_row_def find_None_iff)

lemma op_insert_inv:
  assumes inv: "op_inv db" and ins: "op_insert row db = Some db'" and ok: "op_row_ok row"
  shows "op_inv db' \<and> db' = db @ [row] \<and> op_id row \<notin> set (map op_id db)"
proof -
  have new: "op_id row \<notin> set (map op_id db)" and db': "db' = db @ [row]"
    using ins by (auto simp: op_insert_def tbl_insert_Some split: if_splits)
  have fresh: "\<not> op_same_key r row \<and> \<not> op_same_key row r" if "r \<in> set db" for r
  proof (cases "op_key row")
    case (Some k)
    then have "op_find_row (op_user row) (op_capability row) (op_version row) (Some k) db = None"
      using ins by (auto simp: op_insert_def split: if_splits)
    from op_find_row_None[OF this that] Some show ?thesis
      by (auto simp: op_same_key_def op_matches_def)
  qed (auto simp: op_same_key_def)
  have "op_id r = op_id s" if "r \<in> set db'" "s \<in> set db'" "op_same_key r s" for r s
    using that fresh op_same_keyD[OF inv] unfolding db' by auto
  then have "\<forall>r \<in> set db'. \<forall>s \<in> set db'. op_same_key r s \<longrightarrow> op_id r = op_id s" by blast
  then show ?thesis using inv new ok db' by (simp add: op_inv_def)
qed

lemma op_new_row_sel [simp]:
  "op_id (op_new_row env now uuid uuid2 req) = uuid"
  "op_user (op_new_row env now uuid uuid2 req) = oq_user req"
  "op_capability (op_new_row env now uuid uuid2 req) = oq_capability req"
  "op_version (op_new_row env now uuid uuid2 req) = oq_version req"
  "op_key (op_new_row env now uuid uuid2 req) = normalized_key (oq_key req)"
  "op_input_hash (op_new_row env now uuid uuid2 req) = op_input_hash_of env req"
  "op_row_ok (op_new_row env now uuid uuid2 req)"
  by (auto simp: op_new_row_def op_row_ok_def normalized_key_def split: option.splits if_splits)

lemma op_create_Inr:
  assumes inv: "op_inv db" and run: "op_create env seen now uuid uuid2 req db = Inr ((v, reused), db')"
  shows "op_inv db' \<and> ov_row v \<in> set (if reused then seen @ db else db') \<and>
    op_input_hash (ov_row v) = op_input_hash_of env req \<and> op_user (ov_row v) = oq_user req \<and>
    op_capability (ov_row v) = oq_capability req \<and> op_version (ov_row v) = oq_version req \<and>
    op_key (ov_row v) = normalized_key (oq_key req) \<and>
    (if reused then db' = db else db' = db @ [ov_row v])"
proof -
  let ?find = "op_find_row (oq_user req) (oq_capability req) (oq_version req) (normalized_key (oq_key req))"
  let ?new = "op_new_row env now uuid uuid2 req"
  have reuse: ?thesis
    if r: "?find rows = Some row" "op_reuse row (op_input_hash_of env req) = Inr (v, reused)" "db' = db"
      and sub: "set rows \<subseteq> set (seen @ db)" for rows row
    using op_find_row_Some[OF r(1)] r(2,3) sub inv
    by (auto simp: op_reuse_def operation_from_row_def split: if_splits)
  show ?thesis
  proof (cases "?find seen")
    case (Some row)
    then have "op_reuse row (op_input_hash_of env req) = Inr (v, reused)" "db' = db"
      using run by (auto simp: op_create_def Let_def outcome_simps split: if_splits)
    with Some show ?thesis by (intro reuse[of seen row]) auto
  next
    case seen: None
    show ?thesis
    proof (cases "op_insert ?new db")
      case None
      then obtain row where "?find db = Some row" "op_reuse row (op_input_hash_of env req) = Inr (v, reused)" "db' = db"
        using run seen by (auto simp: op_create_def Let_def outcome_simps split: if_splits option.splits)
      then show ?thesis by (intro reuse[of db row]) auto
    next
      case (Some db1)
      have ins: "op_inv db1" "db1 = db @ [?new]" "uuid \<notin> set (map op_id db)"
        using op_insert_inv[OF inv Some op_new_row_sel(7)] unfolding op_new_row_sel by blast+
      then have "tbl_get op_id uuid db1 = Some ?new"
        by (auto simp: tbl_get_append tbl_get_None[THEN iffD2])
      then show ?thesis
        using run seen Some ins by (auto simp: op_create_def Let_def operation_from_row_def split: if_splits)
    qed
  qed
qed

lemma op_update_Inr: "op_update i f db = Inr (v, db') \<Longrightarrow> db' = tbl_update (\<lambda>r. op_id r = i) f db"
  by (auto simp: op_update_def Let_def split: if_splits option.splits)

lemma op_exec_cases:
  assumes inv: "op_inv db" and run: "op_exec env op db = Inr (out, db')"
  shows "op_inv db' \<and> (\<exists>f new. db' = map f db @ new \<and> (\<forall>r. op_identity (f r) = op_identity r))"
proof -
  have marks: ?thesis
    if "op_update i (op_set now st res code msg na fin) db = Inr (v, db')"
      and "\<And>r. op_row_ok r \<Longrightarrow> op_row_ok (op_set now st res code msg na fin r)"
    for i now st res code msg na fin v
  proof -
    note db' = op_update_Inr[OF that(1)]
    have "op_inv db'" unfolding db' by (rule op_update_inv[OF inv]) (simp, rule that(2))
    moreover have "\<exists>f new. db' = map f db @ new \<and> (\<forall>r. op_identity (f r) = op_identity r)"
      unfolding db' tbl_update_def
      by (rule exI[of _ "\<lambda>r. if op_id r = i then op_set now st res code msg na fin r else r"], rule exI[of _ "[]"]) simp
    ultimately show ?thesis by blast
  qed
  show ?thesis
  proof (cases op)
    case (OpCreate seen now uuid uuid2 req)
    obtain v reused where out: "out = (v, reused)" by (cases out)
    from op_create_Inr[OF inv, of env seen now uuid uuid2 req v reused db'] run OpCreate out
    have "op_inv db' \<and> (db' = map id db @ [] \<or> db' = map id db @ [ov_row v])" by (auto split: if_splits)
    then show ?thesis by (metis id_apply)
  next
    case (OpMarkRunning now i)
    with run obtain v where "op_update i (op_set now OpRunning None None None None False) db = Inr (v, db')"
      by (auto simp: op_wrap_def outcome_simps op_mark_running_def)
    from marks[OF this] show ?thesis by (simp add: op_set_def op_row_ok_def)
  next
    case (OpMarkSucceeded now i result)
    with run obtain v where "op_update i (op_set now OpSucceeded (Some (canon result)) None None None True) db = Inr (v, db')"
      by (auto simp: op_wrap_def outcome_simps op_mark_succeeded_def)
    from marks[OF this] show ?thesis by (simp add: op_set_def op_row_ok_def)
  next
    case (OpMarkFailed now i code msg)
    with run obtain v where "op_update i (op_set now OpFailed None (Some code) (Some msg) None True) db = Inr (v, db')"
      by (auto simp: op_wrap_def outcome_simps op_mark_failed_def)
    from marks[OF this] show ?thesis by (simp add: op_set_def op_row_ok_def)
  next
    case (OpMarkUnknown now i code msg)
    with run obtain v where "op_update i (op_set now OpUnknown None (Some code) (Some msg) None True) db = Inr (v, db')"
      by (auto simp: op_wrap_def outcome_simps op_mark_unknown_def)
    from marks[OF this] show ?thesis by (simp add: op_set_def op_row_ok_def)
  next
    case (OpMarkRequiresUserAction now i code msg na)
    with run obtain v where "op_update i (op_set now OpRequiresUserAction None (Some code) (Some msg) (Some (canon na)) True) db = Inr (v, db')"
      by (auto simp: op_wrap_def outcome_simps op_mark_requires_user_action_def)
    from marks[OF this] show ?thesis by (simp add: op_set_def op_row_ok_def)
  qed
qed

definition op_identity_of :: "op_db \<Rightarrow> string \<Rightarrow> (string list \<times> string option \<times> json \<times> time) option" where
  "op_identity_of db k = map_option op_identity (tbl_get op_id k db)"

interpretation op_ledger: ledger "op_exec env" op_inv op_identity_of "\<lambda>_ _. False"
proof (unfold_locales, goal_cases)
  case (1 db op r db')
  then show ?case using op_exec_cases by blast
next
  case (2 db op out db' k s)
  from op_exec_cases[OF 2(1,2)] obtain f new where db': "db' = map f db @ new"
    and f: "\<And>r. op_identity (f r) = op_identity r" by blast
  have id: "op_id (f r) = op_id r" for r
    using f[of r] by (simp add: op_identity_def)
  from 2(3) obtain r where "tbl_get op_id k db = Some r" "op_identity r = s"
    by (auto simp: op_identity_of_def)
  moreover have "tbl_get op_id k (xs @ new) = tbl_get op_id k xs" if "tbl_get op_id k xs = Some y" for xs y
    using that by (induction xs) auto
  ultimately show ?case
    by (simp add: op_identity_of_def db' tbl_get_map id f)
qed

section \<open>Properties\<close>

definition op_demo_env :: py_env where
  "op_demo_env = \<lparr>sha_text = (\<lambda>s. s), sha_json = (\<lambda>v. if v = JNull then ''0'' else ''1''), ip_literal = (\<lambda>_. False)\<rparr>"

definition op_demo_request :: op_request where
  "op_demo_request = \<lparr>oq_user = ''ann'', oq_capability = ''leave.submit'', oq_version = ''1'',
     oq_summary = JDict [], oq_identity = None, oq_key = Some '' k1 '', oq_request = None\<rparr>"

text \<open>
  In every state the operation store can reach, with lookups made on any stale table before
  the write lock, operation identifiers are unique, at most one operation exists per user,
  capability, version and idempotency key, the key is a trimmed non-empty text, and result,
  error, next action and finishing time are present exactly in the statuses they belong to.
\<close>

theorem op_reachable_states_sound:
  "op_inv (run (op_exec env) ops [])"
  by (rule op_ledger.inv_run[OF op_inv_empty])

lemma op_find_row_unique:
  assumes inv: "op_inv db" and r: "r \<in> set db" "op_key r = Some k"
  shows "op_find_row (op_user r) (op_capability r) (op_version r) (Some k) db = Some r"
proof (cases "op_find_row (op_user r) (op_capability r) (op_version r) (Some k) db")
  case None
  from op_find_row_None[OF this r(1)] r(2) show ?thesis by (simp add: op_matches_def)
next
  case (Some s)
  from op_find_row_Some[OF Some] have "s = r"
    using op_same_keyD[OF inv _ r(1), of s] r(2) by (simp add: op_same_key_def)
  with Some show ?thesis by simp
qed

text \<open>
  An idempotency key stands for one operation for good. When a request with a key was
  answered with an operation, then after any further transactions a request of the same user,
  capability, version and key is answered with that operation, marked as reused, when its input
  digest is the same, and refused as a conflict otherwise; in both cases nothing is inserted.
  This also holds when the early lookup of the second request still saw no such operation, so
  that it learns of it from the unique index.
\<close>

lemma op_idempotency_key_stands:
  assumes inv: "op_inv db"
    and run: "op_create env db now uuid uuid2 req db = Inr ((v, reused), db0)"
    and key: "normalized_key (oq_key req) = Some k"
    and same: "oq_user req' = oq_user req" "oq_capability req' = oq_capability req"
      "oq_version req' = oq_version req" "normalized_key (oq_key req') = Some k"
    and user: "oq_user req \<noteq> []"
    and stale: "op_find_row (oq_user req) (oq_capability req) (oq_version req) (Some k) seen
        \<in> {None, op_find_row (oq_user req) (oq_capability req) (oq_version req) (Some k) (run (op_exec env) ops db0)}"
  shows "\<exists>row. op_id row = op_id (ov_row v) \<and>
    op_create env seen now' uuid' uuid2' req' (run (op_exec env) ops db0) =
      (if op_input_hash_of env req' = op_input_hash_of env req
       then Inr ((operation_from_row row, True), run (op_exec env) ops db0) else Inl OpConflict)"
proof -
  let ?db = "run (op_exec env) ops db0"
  note c = op_create_Inr[OF inv run]
  have inv0: "op_inv db0" using c by blast
  have mem: "ov_row v \<in> set db0" using c by (auto split: if_splits)
  have "op_identity_of db0 (op_id (ov_row v)) = Some (op_identity (ov_row v))"
    using inv0 mem by (auto simp: op_identity_of_def op_inv_def intro: tbl_get_eqI)
  from op_ledger.final_run[OF inv0 this, of env ops] obtain row where
    row: "tbl_get op_id (op_id (ov_row v)) ?db = Some row" "op_identity row = op_identity (ov_row v)"
    by (auto simp: op_identity_of_def)
  have cols: "op_id row = op_id (ov_row v)" "op_user row = oq_user req" "op_capability row = oq_capability req"
    "op_version row = oq_version req" "op_key row = Some k" "op_input_hash row = op_input_hash_of env req"
    using row(2) c key by (simp_all add: op_identity_def)
  have "row \<in> set ?db" using tbl_get_mem[OF row(1)] by simp
  from op_find_row_unique[OF op_ledger.inv_run[OF inv0] this cols(5)]
  have find: "op_find_row (oq_user req) (oq_capability req) (oq_version req) (Some k) ?db = Some row"
    unfolding cols .
  have ins: "op_insert (op_new_row env now' uuid' uuid2' req') ?db = None"
    using find same by (simp add: op_insert_def)
  have reuse: "op_reuse row h = (if h = op_input_hash_of env req then Inr (operation_from_row row, True) else Inl OpConflict)" for h
    using cols(6) by (auto simp: op_reuse_def)
  show ?thesis
  proof (intro exI conjI)
    show "op_id row = op_id (ov_row v)" by (rule cols(1))
    show "op_create env seen now' uuid' uuid2' req' ?db =
      (if op_input_hash_of env req' = op_input_hash_of env req
       then Inr ((operation_from_row row, True), ?db) else Inl OpConflict)"
      using stale find ins reuse same user by (auto simp: op_create_def Let_def)
  qed
qed

end
