(* ===== verification/Interactions.thy ===== *)
theory Interactions
  imports Ledger Urls
begin

text \<open>
  The interaction store of \<open>agentbridge/core/interactions.py\<close>: an immutable row with an
  opaque identifier for each trusted card (credential, business input, execution authorization),
  and the envelope that projects the state of the card's record for the agent.
\<close>

section \<open>Table\<close>

record in_row =
  in_id :: string
  in_type :: string
  in_user :: string
  in_system :: string
  in_session :: string
  in_operation :: "string option"
  in_resource :: string
  in_title :: string
  in_message :: string
  in_display :: json
  in_resume :: json
  in_created_at :: string
  in_expires_at :: string

type_synonym in_db = "in_row list"

datatype in_error = InValueError | InTypeError | InNotFound | InIntegrityError | InSqlIntegrityError

definition interaction_types :: "string list" where
  "interaction_types = [''credential'', ''business_input'', ''execution_authorization'']"

section \<open>Operations\<close>

definition has_kind :: "json \<Rightarrow> bool" where
  "has_kind v = (case v of JDict d \<Rightarrow> truthy (dget d ''kind'') | _ \<Rightarrow> False)"

definition in_select :: "string \<Rightarrow> in_db \<Rightarrow> in_error + in_row" where
  "in_select i db = (case tbl_get in_id i db of None \<Rightarrow> Inl InNotFound | Some r \<Rightarrow> Inr r)"

text \<open>The row a registration asks for, whose identifier is drawn only when the row is new.\<close>

definition in_verify_existing :: "in_row \<Rightarrow> in_row \<Rightarrow> in_error + unit" where
  "in_verify_existing row want =
     raise_if ((in_user row, in_system row, in_session row, in_operation row, in_title row, in_message row,
                in_display row, in_resume row, in_created_at row, in_expires_at row) \<noteq>
               (in_user want, in_system want, in_session want, in_operation want, in_title want, in_message want,
                in_display want, in_resume want, in_created_at want, in_expires_at want)) InIntegrityError"

definition in_want :: "string \<Rightarrow> in_row \<Rightarrow> in_row" where
  "in_want token req = req\<lparr>in_id := token, in_display := canon (in_display req), in_resume := canon (in_resume req)\<rparr>"

definition in_register :: "string \<Rightarrow> in_row \<Rightarrow> in_db \<Rightarrow> in_error + (in_row \<times> in_db)" where
  "in_register token req db =
     ebind (raise_if (in_type req \<notin> set interaction_types) InValueError) (\<lambda>_.
     ebind (raise_if (list_ex is_blank [in_user req, in_system req, in_session req, in_resource req,
         in_title req, in_message req, in_created_at req, in_expires_at req]) InValueError) (\<lambda>_.
     ebind (raise_if (\<not> is_object (in_display req)) InTypeError) (\<lambda>_.
     ebind (raise_if (\<not> has_kind (in_resume req)) InValueError) (\<lambda>_.
     let want = in_want token req in
     (case List.find (\<lambda>r. in_type r = in_type req \<and> in_resource r = in_resource req) db of
        Some existing \<Rightarrow> ebind (in_verify_existing existing want) (\<lambda>_. Inr (existing, db))
      | None \<Rightarrow>
          (case tbl_insert in_id want db of
             None \<Rightarrow> Inl InSqlIntegrityError
           | Some db' \<Rightarrow> ebind (in_select token db') (\<lambda>r. Inr (r, db'))))))))"

definition in_get :: "string \<Rightarrow> string \<Rightarrow> in_db \<Rightarrow> in_error + in_row" where
  "in_get i user db = ebind (in_select i db) (\<lambda>row. if in_user row \<noteq> user then Inl InNotFound else Inr row)"

definition in_find_by_resource :: "string \<Rightarrow> string \<Rightarrow> string \<Rightarrow> in_db \<Rightarrow> in_error + in_row" where
  "in_find_by_resource type resource user db =
     (case List.find (\<lambda>r. in_type r = type \<and> in_resource r = resource) db of
        None \<Rightarrow> Inl InNotFound
      | Some row \<Rightarrow> if in_user row \<noteq> user then Inl InNotFound else Inr row)"

definition in_list :: "string \<Rightarrow> int \<Rightarrow> in_db \<Rightarrow> in_error + in_row list" where
  "in_list user limit db =
     (if limit < 1 \<or> limit > 500 then Inl InValueError
      else Inr (take (nat limit) (rev (sort_key in_created_at (filter (\<lambda>r. in_user r = user) db)))))"

definition in_list_all :: "int \<Rightarrow> in_db \<Rightarrow> in_error + in_row list" where
  "in_list_all limit db =
     (if limit < 1 \<or> limit > 500 then Inl InValueError
      else Inr (take (nat limit) (rev (sort_key in_created_at db))))"

section \<open>The envelope\<close>

definition projection_mappings :: "(string \<times> (string \<times> (string \<times> bool \<times> bool)) list) list" where
  "projection_mappings =
    [(''credential'',
       [(''pending'', (''pending'', False, False)), (''processing'', (''processing'', False, False)),
        (''succeeded'', (''completed'', True, False)), (''failed'', (''failed'', False, True)),
        (''expired'', (''expired'', False, True)), (''superseded'', (''superseded'', False, True))]),
     (''business_input'',
       [(''pending'', (''pending'', False, False)), (''submitted'', (''completed'', True, False)),
        (''consumed'', (''completed'', False, True)), (''expired'', (''expired'', False, True)),
        (''superseded'', (''superseded'', False, True))]),
     (''execution_authorization'',
       [(''pending'', (''pending'', False, False)), (''approved'', (''completed'', True, False)),
        (''rejected'', (''declined'', False, True)), (''consumed'', (''completed'', False, True)),
        (''expired'', (''expired'', False, True)), (''superseded'', (''superseded'', False, True))])]"

text \<open>The state shown, whether the interaction is ready to resume, and whether resuming is over.\<close>

definition project_state :: "string \<Rightarrow> string \<Rightarrow> in_error + (string \<times> bool \<times> bool)" where
  "project_state type resource_state =
     (case map_of projection_mappings type of
        None \<Rightarrow> Inl InIntegrityError
      | Some m \<Rightarrow> (case map_of m resource_state of None \<Rightarrow> Inl InIntegrityError | Some p \<Rightarrow> Inr p))"

definition opt_text :: "string option \<Rightarrow> json" where
  "opt_text v = (case v of None \<Rightarrow> JNull | Some s \<Rightarrow> JStr s)"

definition build_interaction_envelope :: "in_row \<Rightarrow> string \<Rightarrow> string \<Rightarrow> in_error + json" where
  "build_interaction_envelope row resource_state card_url =
     ebind (project_state (in_type row) resource_state) (\<lambda>(state, ready, completed).
     Inr (JDict
       [(''schemaVersion'', JStr ''agentbridge.interaction.v1''),
        (''interactionId'', JStr (in_id row)),
        (''type'', JStr (in_type row)),
        (''state'', JStr state),
        (''title'', JStr (in_title row)),
        (''message'', JStr (in_message row)),
        (''operationId'', opt_text (in_operation row)),
        (''presentation'', JDict [(''owner'', JStr ''agentbridge''), (''preferred'', JStr ''embedded_secure_web_app''),
           (''fallback'', JStr ''url''), (''url'', JStr card_url), (''modelMustNotCollectValues'', JBool True)]),
        (''display'', in_display row),
        (''expiresAt'', JStr (in_expires_at row)),
        (''poll'', JDict [(''tool'', JStr ''agentbridge_interaction_get''), (''recommendedIntervalSeconds'', JInt 2)]),
        (''resume'', JDict [(''tool'', JStr ''agentbridge_interaction_resume''), (''ready'', JBool ready),
           (''completed'', JBool completed)])]))"

section \<open>Lemmas\<close>

text \<open>The only operation that writes is the registration, of which a run is a list.\<close>

fun in_exec :: "string \<times> in_row \<Rightarrow> in_db \<Rightarrow> in_error + (in_row \<times> in_db)" where
  "in_exec (token, req) db = in_register token req db"

definition in_resource_key :: "in_row \<Rightarrow> string \<times> string" where
  "in_resource_key r = (in_type r, in_resource r)"

definition in_inv :: "in_db \<Rightarrow> bool" where
  "in_inv db \<longleftrightarrow> distinct (map in_id db) \<and> distinct (map in_resource_key db) \<and>
     (\<forall>r \<in> set db. in_type r \<in> set interaction_types \<and> \<not> is_blank (in_user r))"

definition in_row_of :: "in_db \<Rightarrow> string \<Rightarrow> in_row option" where
  "in_row_of db k = tbl_get in_id k db"

lemma in_inv_empty: "in_inv []"
  by (simp add: in_inv_def)

lemma in_register_Inr:
  assumes "in_register token req db = Inr (r, db')"
  shows "in_type req \<in> set interaction_types \<and> \<not> is_blank (in_user req) \<and> has_kind (in_resume req) \<and>
    (db' = db \<and> r \<in> set db \<and> in_resource_key r = in_resource_key req \<and> r = in_want (in_id r) req \<or>
     in_resource_key req \<notin> set (map in_resource_key db) \<and> token \<notin> set (map in_id db) \<and>
     db' = db @ [r] \<and> r = in_want token req)"
proof -
  let ?want = "in_want token req"
  have checks: "in_type req \<in> set interaction_types \<and> \<not> is_blank (in_user req) \<and> has_kind (in_resume req)"
    using assms by (simp add: in_register_def outcome_simps)
  have rest: "(case List.find (\<lambda>r. in_type r = in_type req \<and> in_resource r = in_resource req) db of
        Some existing \<Rightarrow> ebind (in_verify_existing existing ?want) (\<lambda>_. Inr (existing, db))
      | None \<Rightarrow>
          (case tbl_insert in_id ?want db of
             None \<Rightarrow> Inl InSqlIntegrityError
           | Some db' \<Rightarrow> ebind (in_select token db') (\<lambda>r. Inr (r, db')))) = Inr (r, db')"
    using assms by (simp add: in_register_def outcome_simps Let_def)
  show ?thesis
  proof (cases "List.find (\<lambda>r. in_type r = in_type req \<and> in_resource r = in_resource req) db")
    case (Some row)
    with rest have "row = r" "db' = db" "in_verify_existing r ?want = Inr ()"
      by (auto simp: outcome_simps)
    moreover from this(3) find_Some_mem[OF Some] \<open>row = r\<close> have "r = in_want (in_id r) req"
      by (simp add: in_verify_existing_def outcome_simps in_want_def)
    ultimately show ?thesis
      using checks find_Some_mem[OF Some] by (auto simp: in_resource_key_def)
  next
    case None
    with rest have "token \<notin> set (map in_id db)" "db' = db @ [?want]"
      by (auto simp: tbl_insert_Some outcome_simps in_want_def split: option.splits)
    moreover have "tbl_get in_id token (db @ [?want]) = Some ?want"
      using calculation(1) by (auto simp: tbl_get_append tbl_get_None[THEN iffD2] in_want_def)
    moreover have "in_resource_key req \<notin> set (map in_resource_key db)"
      using None by (auto simp: find_None_iff in_resource_key_def)
    ultimately show ?thesis
      using checks rest None by (auto simp: tbl_insert_Some outcome_simps in_select_def in_want_def split: option.splits)
  qed
qed

lemma in_want_sel [simp]:
  "in_id (in_want token req) = token" "in_type (in_want token req) = in_type req"
  "in_user (in_want token req) = in_user req" "in_resource_key (in_want token req) = in_resource_key req"
  by (simp_all add: in_want_def in_resource_key_def)

lemma in_register_inv:
  assumes "in_inv db" and "in_register token req db = Inr (r, db')"
  shows "in_inv db' \<and> (\<forall>k x. in_row_of db k = Some x \<longrightarrow> in_row_of db' k = Some x)"
  using in_register_Inr[OF assms(2)] assms(1)
proof (elim conjE disjE)
  assume a: "in_type req \<in> set interaction_types" "\<not> is_blank (in_user req)"
    "in_resource_key req \<notin> set (map in_resource_key db)" "token \<notin> set (map in_id db)"
    "db' = db @ [r]" "r = in_want token req" "in_inv db"
  have "in_inv db'"
    unfolding a(5,6) using a(1-4,7) by (simp add: in_inv_def)
  then show ?thesis
    by (auto simp: a(5) in_row_of_def tbl_get_append)
qed auto

interpretation interaction: ledger in_exec in_inv in_row_of "\<lambda>_ _. False"
proof (unfold_locales, goal_cases)
  case (1 db op r db')
  then show ?case using in_register_inv by (cases op) auto
next
  case (2 db op r db' k s)
  then show ?case using in_register_inv by (cases op) auto
qed

section \<open>Properties\<close>

definition in_demo_request :: in_row where
  "in_demo_request = \<lparr>in_id = [], in_type = ''credential'', in_user = ''ann'', in_system = ''oa'', in_session = ''s'',
     in_operation = None, in_resource = ''c'', in_title = ''Login'', in_message = ''Please log in'', in_display = JDict [],
     in_resume = JDict [(''kind'', JStr ''session'')], in_created_at = ''2026-01-01'', in_expires_at = ''2026-01-02''\<rparr>"

text \<open>
  A card is represented by one interaction for good. In a sound store, once a registration
  succeeded, then after any further registrations a registration for the same card can succeed
  only by repeating every column of the contract, and then returns the very same row and
  inserts nothing.
\<close>

theorem in_registration_stands:
  assumes inv: "in_inv db" and run: "in_register token req db = Inr (r, db0)"
    and again: "in_register token' req' (run in_exec ops db0) = Inr (r', db')"
    and same: "in_resource_key req' = in_resource_key req"
  shows "r' = r \<and> db' = run in_exec ops db0 \<and> in_want (in_id r) req' = in_want (in_id r) req"
proof -
  let ?db = "run in_exec ops db0"
  have inv0: "in_inv db0" using in_register_inv[OF inv run] by blast
  have r: "r \<in> set db0" "in_resource_key r = in_resource_key req" "r = in_want (in_id r) req"
    using in_register_Inr[OF run] by auto
  have inv1: "in_inv ?db" by (rule interaction.inv_run[OF inv0])
  have "in_row_of db0 (in_id r) = Some r"
    using inv0 r(1) by (auto simp: in_row_of_def in_inv_def intro: tbl_get_eqI)
  from interaction.final_run[OF inv0 this, of ops] have mem: "r \<in> set ?db"
    by (auto simp: in_row_of_def dest: tbl_get_mem)
  have key: "in_resource_key req' \<in> set (map in_resource_key ?db)"
    using imageI[OF mem, of in_resource_key] r(2) same by simp
  with in_register_Inr[OF again] have a: "db' = ?db" "r' \<in> set ?db" "in_resource_key r' = in_resource_key req'"
    "r' = in_want (in_id r') req'"
    by (simp_all only:) blast+
  have "r' = r"
    using distinct_same_key[of in_resource_key ?db, OF _ a(2) mem] inv1 a(3) r(2) same by (simp add: in_inv_def)
  with a r(3) show ?thesis by metis
qed

end
