(* ===== verification/TaskPlans.thy ===== *)
theory TaskPlans
  imports Interactions
begin

text \<open>
  The task plan store of \<open>agentbridge/core/task_plans.py\<close>: the compiled plans of a task and
  their steps. The runtime begins one step at a time, records its outcome, and completes,
  fails or cancels the plan; the consumption of an execution authorization marks the plan in the
  same transaction, which a cancellation respects. The store shares its database with the
  interaction store, whose table the guard joins.
\<close>

section \<open>Compiled plans\<close>

record compiled_step =
  cs_key :: string
  cs_ordinal :: int
  cs_kind :: string
  cs_title :: "string option"
  cs_capability :: "string option"
  cs_transform :: "string option"
  cs_version :: "string option"
  cs_depends :: "string list"
  cs_arguments :: json
  cs_bindings :: json
  cs_effect :: string
  cs_system :: string

record compiled_plan =
  cp_goal :: string
  cp_hash :: string
  cp_steps :: "compiled_step list"
  cp_risk :: json
  cp_schema :: "string option"
  cp_temporal :: json
  cp_authority :: json

section \<open>Tables\<close>

datatype tp_state = PlValidated | PlRunning | PlWaitingUser | PlSucceeded | PlFailed | PlOutcomeUnknown | PlCanceled

datatype ts_state = StQueued | StRunning | StWaitingUser | StSucceeded | StFailed | StOutcomeUnknown | StCanceled | StSkipped

definition active_plan_states :: "tp_state set" where
  "active_plan_states = {PlValidated, PlRunning, PlWaitingUser}"

definition terminal_plan_states :: "tp_state set" where
  "terminal_plan_states = {PlSucceeded, PlFailed, PlOutcomeUnknown, PlCanceled}"

definition active_step_states :: "ts_state set" where
  "active_step_states = {StQueued, StRunning, StWaitingUser}"

record tp_plan =
  tp_id :: string
  tp_task :: string
  tp_user :: string
  tp_source :: string
  tp_goal :: string
  tp_summary :: json
  tp_hash :: string
  tp_revision :: nat
  tp_state :: tp_state
  tp_current :: "string option"
  tp_risk :: json
  tp_lease :: "int option"
  tp_key :: "string option"
  tp_terminal_reason :: "string option"
  tp_created_at :: time
  tp_updated_at :: time
  tp_finished_at :: "time option"
  tp_schema :: "string option"
  tp_temporal :: "json option"
  tp_authority :: "json option"
  tp_projection :: "json option"
  tp_effect_outcome :: "string option"
  tp_key_prefix :: "string option"
  tp_commit_operation :: "string option"

record ts_row =
  ts_id :: string
  ts_plan :: string
  ts_key :: string
  ts_ordinal :: int
  ts_kind :: string
  ts_title :: string
  ts_capability :: "string option"
  ts_transform :: "string option"
  ts_version :: string
  ts_depends :: "string list"
  ts_arguments :: json
  ts_bindings :: json
  ts_effect :: string
  ts_system :: string
  ts_state :: ts_state
  ts_attempts :: nat
  ts_operation :: "string option"
  ts_interaction :: "string option"
  ts_input_hash :: "string option"
  ts_output_hash :: "string option"
  ts_error_code :: "string option"
  ts_error_message :: "string option"
  ts_started_at :: "time option"
  ts_updated_at :: time
  ts_finished_at :: "time option"

record tp_db =
  tp_plans :: "tp_plan list"
  tp_steps :: "ts_row list"
  tp_interactions :: in_db

datatype 'e tp_error =
  TpValueError | TpNotFound | TpConflict | TpIntegrityError | TpCommitInProgress | TpSqlIntegrityError | TpValidation 'e

section \<open>Rows, selections and snapshots\<close>

text \<open>The public form of a step hides its arguments.\<close>

definition step_from_row :: "bool \<Rightarrow> ts_row \<Rightarrow> ts_row" where
  "step_from_row include_private row = (if include_private then row else row\<lparr>ts_arguments := JNull\<rparr>)"

record tp_snapshot =
  sn_plan :: tp_plan
  sn_steps :: "ts_row list"
  sn_counts :: "(ts_state \<times> nat) list"

definition plan_steps :: "string \<Rightarrow> tp_db \<Rightarrow> ts_row list" where
  "plan_steps p db = sort_key ts_ordinal (filter (\<lambda>s. ts_plan s = p) (tp_steps db))"

definition state_counts :: "ts_row list \<Rightarrow> (ts_state \<times> nat) list" where
  "state_counts rows =
     foldl (\<lambda>m s. AList.update (ts_state s) (Suc (get_default 0 m (ts_state s))) m) [] rows"

definition tp_snapshot_of :: "tp_db \<Rightarrow> tp_plan \<Rightarrow> tp_snapshot" where
  "tp_snapshot_of db plan =
     (let rows = map (step_from_row False) (plan_steps (tp_id plan) db)
      in \<lparr>sn_plan = plan, sn_steps = rows, sn_counts = state_counts rows\<rparr>)"

definition tp_select :: "string \<Rightarrow> tp_db \<Rightarrow> 'e tp_error + tp_plan" where
  "tp_select p db = (case tbl_get tp_id p (tp_plans db) of None \<Rightarrow> Inl TpNotFound | Some r \<Rightarrow> Inr r)"

definition tp_select_owned :: "string \<Rightarrow> string \<Rightarrow> tp_db \<Rightarrow> 'e tp_error + tp_plan" where
  "tp_select_owned p user db = ebind (tp_select p db) (\<lambda>r. if tp_user r \<noteq> user then Inl TpNotFound else Inr r)"

definition ts_select :: "string \<Rightarrow> string \<Rightarrow> tp_db \<Rightarrow> 'e tp_error + ts_row" where
  "ts_select p k db = (case List.find (\<lambda>s. ts_plan s = p \<and> ts_key s = k) (tp_steps db) of
     None \<Rightarrow> Inl TpIntegrityError | Some s \<Rightarrow> Inr s)"

definition tp_set_plan :: "string \<Rightarrow> (tp_plan \<Rightarrow> tp_plan) \<Rightarrow> tp_db \<Rightarrow> tp_db" where
  "tp_set_plan p f db = db\<lparr>tp_plans := tbl_update (\<lambda>r. tp_id r = p) f (tp_plans db)\<rparr>"

definition tp_set_steps :: "(ts_row \<Rightarrow> bool) \<Rightarrow> (ts_row \<Rightarrow> ts_row) \<Rightarrow> tp_db \<Rightarrow> tp_db" where
  "tp_set_steps P f db = db\<lparr>tp_steps := tbl_update P f (tp_steps db)\<rparr>"

definition tp_result :: "string \<Rightarrow> tp_db \<Rightarrow> 'e tp_error + (tp_snapshot \<times> tp_db)" where
  "tp_result p db = ebind (tp_select p db) (\<lambda>r. Inr (tp_snapshot_of db r, db))"

section \<open>Creating a plan\<close>

definition required_text :: "string option \<Rightarrow> nat \<Rightarrow> 'e tp_error + string" where
  "required_text v maximum =
     (let s = py_strip (or_text v []) in
      if s = [] then Inl TpValueError else if length s > maximum then Inl TpValueError else Inr s)"

record tp_request =
  tq_user :: string
  tq_task :: string
  tq_plan :: compiled_plan
  tq_source :: string
  tq_lease :: "int option"
  tq_key :: "string option"

definition ts_new_row :: "time \<Rightarrow> string \<Rightarrow> string \<Rightarrow> compiled_step \<Rightarrow> ts_row" where
  "ts_new_row now uuid plan step =
     \<lparr>ts_id = uuid, ts_plan = plan, ts_key = cs_key step, ts_ordinal = cs_ordinal step,
      ts_kind = cs_kind step, ts_title = take 240 (or_text (cs_title step) (cs_key step)),
      ts_capability = cs_capability step, ts_transform = cs_transform step,
      ts_version = take 40 (or_text (cs_version step) ''1''), ts_depends = cs_depends step,
      ts_arguments = (if truthy (cs_arguments step) then canon (cs_arguments step) else JDict []),
      ts_bindings = (if truthy (cs_bindings step) then canon (cs_bindings step) else JDict []),
      ts_effect = cs_effect step, ts_system = cs_system step, ts_state = StQueued, ts_attempts = 0,
      ts_operation = None, ts_interaction = None, ts_input_hash = None, ts_output_hash = None,
      ts_error_code = None, ts_error_message = None, ts_started_at = None, ts_updated_at = now,
      ts_finished_at = None\<rparr>"

text \<open>The insertions check the primary key and the unique pairs (plan, key) and (plan, ordinal).\<close>

definition ts_insert :: "ts_row \<Rightarrow> ts_row list \<Rightarrow> 'e tp_error + ts_row list" where
  "ts_insert row rows =
     (if list_ex (\<lambda>s. ts_id s = ts_id row \<or>
           ts_plan s = ts_plan row \<and> (ts_key s = ts_key row \<or> ts_ordinal s = ts_ordinal row)) rows
      then Inl TpSqlIntegrityError else Inr (rows @ [row]))"

text \<open>\<open>uuids n\<close> is the identifier drawn for the step in position \<open>n\<close>.\<close>

definition ts_insert_all ::
  "time \<Rightarrow> string \<Rightarrow> (nat \<Rightarrow> string) \<Rightarrow> compiled_step list \<Rightarrow> ts_row list \<Rightarrow> 'e tp_error + ts_row list" where
  "ts_insert_all now plan uuids steps =
     foldE (\<lambda>(n, step). ts_insert (ts_new_row now (uuids n) plan step)) (enumerate 0 steps)"

definition tp_new_row ::
  "time \<Rightarrow> string \<Rightarrow> nat \<Rightarrow> string \<Rightarrow> string \<Rightarrow> string \<Rightarrow> string \<Rightarrow> string \<Rightarrow> string option \<Rightarrow> tp_request \<Rightarrow> tp_plan" where
  "tp_new_row now uuid revision user task source goal h key req =
     \<lparr>tp_id = uuid, tp_task = task, tp_user = user, tp_source = source, tp_goal = goal,
      tp_summary = canon (JDict [(''schemaVersion'', JStr ''agentbridge.task-plan.summary.v1''),
        (''goal'', JStr goal), (''stepCount'', JInt (int (length (cp_steps (tq_plan req)))))]),
      tp_hash = h, tp_revision = revision, tp_state = PlValidated, tp_current = None,
      tp_risk = (if truthy (cp_risk (tq_plan req)) then canon (cp_risk (tq_plan req)) else JDict []),
      tp_lease = tq_lease req, tp_key = key, tp_terminal_reason = None, tp_created_at = now,
      tp_updated_at = now, tp_finished_at = None,
      tp_schema = Some (or_text (cp_schema (tq_plan req)) ''agentbridge.task-plan.proposal.v1''),
      tp_temporal = Some (canon (cp_temporal (tq_plan req))),
      tp_authority = Some (canon (cp_authority (tq_plan req))),
      tp_projection = None, tp_effect_outcome = None,
      tp_key_prefix = Some (''task-plan:'' @ uuid @ '':'' @ nat_text revision),
      tp_commit_operation = None\<rparr>"

definition tp_next_revision :: "string \<Rightarrow> tp_plan list \<Rightarrow> nat" where
  "tp_next_revision task plans = Suc (foldl max 0 (map tp_revision (filter (\<lambda>r. tp_task r = task) plans)))"

definition tp_store ::
  "time \<Rightarrow> string \<Rightarrow> (nat \<Rightarrow> string) \<Rightarrow> string \<Rightarrow> string \<Rightarrow> string \<Rightarrow> string \<Rightarrow> string \<Rightarrow> string option \<Rightarrow> tp_request \<Rightarrow> tp_db
   \<Rightarrow> 'e tp_error + ((tp_snapshot \<times> bool) \<times> tp_db)" where
  "tp_store now uuid uuids user task source goal h key req db =
     (case (if key = None then None
            else List.find (\<lambda>r. tp_user r = user \<and> tp_task r = task \<and> tp_key r = key) (tp_plans db)) of
        Some existing \<Rightarrow>
          if tp_hash existing \<noteq> h then Inl TpConflict else Inr ((tp_snapshot_of db existing, True), db)
      | None \<Rightarrow>
          if list_ex (\<lambda>r. tp_task r = task \<and> tp_state r \<in> active_plan_states) (tp_plans db) then Inl TpConflict
          else (case tbl_insert tp_id
                  (tp_new_row now uuid (tp_next_revision task (tp_plans db)) user task source goal h key req) (tp_plans db) of
                  None \<Rightarrow> Inl TpSqlIntegrityError
                | Some plans \<Rightarrow>
                    ebind (ts_insert_all now uuid uuids (cp_steps (tq_plan req)) (tp_steps db)) (\<lambda>steps.
                    let db' = db\<lparr>tp_plans := plans, tp_steps := steps\<rparr> in
                    ebind (tp_select uuid db') (\<lambda>row. Inr ((tp_snapshot_of db' row, False), db')))))"

definition tp_create ::
  "time \<Rightarrow> string \<Rightarrow> (nat \<Rightarrow> string) \<Rightarrow> tp_request \<Rightarrow> tp_db \<Rightarrow> 'e tp_error + ((tp_snapshot \<times> bool) \<times> tp_db)" where
  "tp_create now uuid uuids req db =
     ebind (required_text (Some (tq_user req)) 256) (\<lambda>user.
     ebind (required_text (Some (tq_task req)) 128) (\<lambda>task.
     ebind (required_text (Some (tq_source req)) 80) (\<lambda>source.
     ebind (raise_if (source \<notin> {''agent_host'', ''template'', ''central_planner''}) TpValueError) (\<lambda>_.
     ebind (required_text (Some (cp_goal (tq_plan req))) 500) (\<lambda>goal.
     ebind (required_text (Some (cp_hash (tq_plan req))) 64) (\<lambda>h.
     ebind (raise_if (cp_steps (tq_plan req) = []) TpValueError) (\<lambda>_.
     let stripped = py_strip (or_text (tq_key req) []);
         key = (if stripped = [] then None else Some stripped) in
     ebind (raise_if (key \<noteq> None \<and> length stripped > 256) TpValueError) (\<lambda>_.
     tp_store now uuid uuids user task source goal h key req db))))))))"

section \<open>Reading\<close>

definition tp_get :: "string \<Rightarrow> string \<Rightarrow> tp_db \<Rightarrow> 'e tp_error + tp_snapshot" where
  "tp_get p user db = ebind (tp_select_owned p user db) (\<lambda>r. Inr (tp_snapshot_of db r))"

text \<open>\<open>ORDER BY revision DESC LIMIT 1\<close>\<close>

definition latest_revision :: "tp_plan list \<Rightarrow> tp_plan option" where
  "latest_revision rows = (case sort_key (\<lambda>r. - int (tp_revision r)) rows of [] \<Rightarrow> None | r # _ \<Rightarrow> Some r)"

definition tp_get_for_task :: "string \<Rightarrow> string \<Rightarrow> bool \<Rightarrow> tp_db \<Rightarrow> tp_snapshot option" where
  "tp_get_for_task task user active_only db =
     map_option (tp_snapshot_of db) (latest_revision
       (filter (\<lambda>r. tp_task r = task \<and> tp_user r = user \<and>
          (active_only \<longrightarrow> tp_state r \<in> active_plan_states)) (tp_plans db)))"

definition plans_with_interaction :: "string \<Rightarrow> string \<Rightarrow> tp_db \<Rightarrow> (tp_plan \<times> ts_row) list" where
  "plans_with_interaction i user db =
     concat (map (\<lambda>r. map (Pair r) (filter (\<lambda>s. ts_plan s = tp_id r \<and> ts_interaction s = Some i) (tp_steps db)))
       (filter (\<lambda>r. tp_user r = user) (tp_plans db)))"

definition tp_find_by_interaction :: "string \<Rightarrow> string \<Rightarrow> tp_db \<Rightarrow> tp_snapshot option" where
  "tp_find_by_interaction i user db =
     map_option (tp_snapshot_of db) (latest_revision (map fst (plans_with_interaction i user db)))"

definition tp_step_for_interaction :: "string \<Rightarrow> string \<Rightarrow> tp_db \<Rightarrow> 'e tp_error + (tp_snapshot \<times> ts_row) option" where
  "tp_step_for_interaction i user db =
     (case sort_key (\<lambda>(r, s). - int (tp_revision r)) (plans_with_interaction i user db) of
        [] \<Rightarrow> Inr None
      | (r, s) # _ \<Rightarrow> ebind (tp_select_owned (ts_plan s) user db) (\<lambda>plan.
          Inr (Some (tp_snapshot_of db plan, step_from_row True s))))"

definition tp_step_output_operation :: "string \<Rightarrow> string \<Rightarrow> string \<Rightarrow> tp_db \<Rightarrow> 'e tp_error + string" where
  "tp_step_output_operation p user k db =
     ebind (tp_select_owned p user db) (\<lambda>_.
     ebind (ts_select p k db) (\<lambda>s.
     if ts_state s \<noteq> StSucceeded \<or> \<not> filled (ts_operation s) then Inl TpIntegrityError
     else Inr (or_text (ts_operation s) [])))"

definition tp_list :: "string option \<Rightarrow> int \<Rightarrow> tp_db \<Rightarrow> tp_snapshot list" where
  "tp_list user limit db =
     (let rows = (if filled user then filter (\<lambda>r. Some (tp_user r) = user) (tp_plans db) else tp_plans db)
      in map (tp_snapshot_of db) (take (nat (min (max limit 1) 500)) (sort_key (\<lambda>r. - tp_updated_at r) rows)))"

text \<open>Plans waiting for their user come last, then the oldest update, then the oldest creation first.\<close>

definition tp_recovery_candidates :: "int \<Rightarrow> tp_db \<Rightarrow> tp_snapshot list" where
  "tp_recovery_candidates limit db =
     (let rows = filter (\<lambda>r. tp_state r \<in> active_plan_states) (tp_plans db);
          sorted = sort_key (\<lambda>r. if tp_state r = PlWaitingUser then 1 else 0 :: nat)
            (sort_key tp_updated_at (sort_key tp_created_at rows))
      in map (tp_snapshot_of db) (take (nat (min (max limit 1) 500)) sorted))"

text \<open>\<open>step_idempotency_key\<close>; \<open>None\<close> in the prefix column identifies plans of before the migration.\<close>

definition step_idempotency_key :: "tp_plan \<Rightarrow> ts_row \<Rightarrow> string" where
  "step_idempotency_key plan step =
     or_text (tp_key_prefix plan) (''task-plan:'' @ tp_hash plan) @ '':'' @ ts_key step @ '':attempt:'' @
     nat_text (ts_attempts step)"

section \<open>Running a plan\<close>

definition step_ready :: "ts_row list \<Rightarrow> ts_row \<Rightarrow> bool" where
  "step_ready rows s \<longleftrightarrow> ts_state s = StQueued \<and>
     list_all (\<lambda>d. map_of (rev (map (\<lambda>r. (ts_key r, ts_state r)) rows)) d = Some StSucceeded) (ts_depends s)"

text \<open>The result is the step with whether this call started it; \<open>None\<close> when there is nothing to run.\<close>

definition tp_begin_next_step ::
  "time \<Rightarrow> string \<Rightarrow> string \<Rightarrow> tp_db \<Rightarrow> 'e tp_error + ((ts_row \<times> bool) option \<times> tp_db)" where
  "tp_begin_next_step now p user db =
     ebind (tp_select_owned p user db) (\<lambda>plan.
     if tp_state plan \<in> terminal_plan_states then Inr (None, db)
     else ebind (if filled (tp_current plan)
                 then ebind (ts_select p (or_text (tp_current plan) []) db) (\<lambda>s. Inr (Some s)) else Inr None) (\<lambda>current.
     case (case current of Some s \<Rightarrow> if ts_state s \<in> {StRunning, StWaitingUser} then Some s else None | None \<Rightarrow> None) of
       Some s \<Rightarrow> Inr (Some (step_from_row True s, False), db)
     | None \<Rightarrow>
         let rows = plan_steps p db in
         (case List.find (step_ready rows) rows of
            None \<Rightarrow> Inr (None, db)
          | Some selected \<Rightarrow>
              let db1 = tp_set_steps (\<lambda>s. ts_id s = ts_id selected \<and> ts_state s = StQueued)
                    (\<lambda>s. s\<lparr>ts_state := StRunning, ts_attempts := Suc (ts_attempts s),
                            ts_started_at := (case ts_started_at s of None \<Rightarrow> Some now | Some t \<Rightarrow> Some t),
                            ts_updated_at := now, ts_error_code := None, ts_error_message := None\<rparr>) db;
                  db2 = tp_set_plan p
                    (\<lambda>r. r\<lparr>tp_state := PlRunning, tp_current := Some (ts_key selected), tp_updated_at := now\<rparr>) db1
              in ebind (ts_select p (ts_key selected) db2) (\<lambda>s. Inr (Some (step_from_row True s, True), db2)))))"

definition coalesce :: "'a option \<Rightarrow> 'a option \<Rightarrow> 'a option" where
  "coalesce a b = (case a of None \<Rightarrow> b | Some x \<Rightarrow> Some x)"

definition tp_update_step ::
  "time \<Rightarrow> string \<Rightarrow> string \<Rightarrow> string \<Rightarrow> ts_state \<Rightarrow> tp_state \<Rightarrow> string \<Rightarrow> string option \<Rightarrow> string option
   \<Rightarrow> string option \<Rightarrow> bool \<Rightarrow> bool \<Rightarrow> tp_db \<Rightarrow> 'e tp_error + (tp_snapshot \<times> tp_db)" where
  "tp_update_step now p user k state plan_state operation interaction input_hash output_hash terminal clear_current db =
     ebind (tp_select_owned p user db) (\<lambda>plan.
     if tp_state plan \<in> terminal_plan_states then Inr (tp_snapshot_of db plan, db)
     else ebind (ts_select p k db) (\<lambda>step.
     if ts_state step \<notin> {StRunning, StWaitingUser} then Inl TpIntegrityError
     else let db1 = tp_set_steps (\<lambda>s. ts_id s = ts_id step)
                (\<lambda>s. s\<lparr>ts_state := state, ts_operation := Some operation, ts_interaction := interaction,
                        ts_input_hash := coalesce input_hash (ts_input_hash s),
                        ts_output_hash := coalesce output_hash (ts_output_hash s),
                        ts_error_code := None, ts_error_message := None, ts_updated_at := now,
                        ts_finished_at := (if terminal then Some now else None)\<rparr>) db;
              db2 = tp_set_plan p
                (\<lambda>r. r\<lparr>tp_state := plan_state, tp_current := (if clear_current then None else Some k),
                        tp_updated_at := now,
                        tp_commit_operation := (if state = StWaitingUser then None else tp_commit_operation r)\<rparr>) db1
          in tp_result p db2))"

definition tp_mark_step_waiting ::
  "time \<Rightarrow> string \<Rightarrow> string \<Rightarrow> string \<Rightarrow> string \<Rightarrow> string \<Rightarrow> string option \<Rightarrow> tp_db
   \<Rightarrow> 'e tp_error + (tp_snapshot \<times> tp_db)" where
  "tp_mark_step_waiting now p user k operation interaction input_hash =
     tp_update_step now p user k StWaitingUser PlWaitingUser operation (Some interaction) input_hash None False False"

definition tp_mark_step_succeeded ::
  "time \<Rightarrow> string \<Rightarrow> string \<Rightarrow> string \<Rightarrow> string \<Rightarrow> string option \<Rightarrow> string option \<Rightarrow> tp_db
   \<Rightarrow> 'e tp_error + (tp_snapshot \<times> tp_db)" where
  "tp_mark_step_succeeded now p user k operation input_hash output_hash =
     tp_update_step now p user k StSucceeded PlRunning operation None input_hash output_hash True True"

definition short_effect :: "string option \<Rightarrow> string option" where
  "short_effect v = (let s = take 80 (or_text v []) in if s = [] then None else Some s)"

text \<open>A failed step takes its plan with it, with the same state on both.\<close>

definition tp_mark_step_failed ::
  "time \<Rightarrow> string \<Rightarrow> string \<Rightarrow> string \<Rightarrow> string option \<Rightarrow> string \<Rightarrow> string \<Rightarrow> string \<Rightarrow> string option \<Rightarrow> tp_db
   \<Rightarrow> 'e tp_error + (tp_snapshot \<times> tp_db)" where
  "tp_mark_step_failed now p user k operation state code msg effect_outcome db =
     (if state \<notin> {''failed'', ''outcome_unknown''} then Inl TpValueError
      else ebind (tp_select_owned p user db) (\<lambda>plan.
      if tp_state plan \<in> terminal_plan_states then Inr (tp_snapshot_of db plan, db)
      else ebind (ts_select p k db) (\<lambda>_.
      let db1 = tp_set_steps (\<lambda>s. ts_plan s = p \<and> ts_key s = k)
            (\<lambda>s. s\<lparr>ts_state := (if state = ''failed'' then StFailed else StOutcomeUnknown),
                    ts_operation := coalesce operation (ts_operation s), ts_interaction := None,
                    ts_error_code := Some (take 120 code), ts_error_message := Some (take 500 msg),
                    ts_updated_at := now, ts_finished_at := Some now\<rparr>) db;
          db2 = tp_set_steps (\<lambda>s. ts_plan s = p \<and> ts_state s = StQueued)
            (\<lambda>s. s\<lparr>ts_state := StCanceled, ts_updated_at := now, ts_finished_at := Some now\<rparr>) db1;
          db3 = tp_set_plan p
            (\<lambda>r. r\<lparr>tp_state := (if state = ''failed'' then PlFailed else PlOutcomeUnknown),
                    tp_terminal_reason := Some (take 120 code), tp_current := Some k,
                    tp_effect_outcome := short_effect effect_outcome, tp_updated_at := now,
                    tp_finished_at := Some now\<rparr>) db2
      in tp_result p db3)))"

text \<open>What both resets do to the step and to the plan.\<close>

definition ts_requeue :: "time \<Rightarrow> ts_row \<Rightarrow> ts_row" where
  "ts_requeue now s = s\<lparr>ts_state := StQueued, ts_operation := None, ts_interaction := None,
     ts_input_hash := None, ts_output_hash := None, ts_updated_at := now, ts_finished_at := None\<rparr>"

definition tp_requeue :: "time \<Rightarrow> tp_plan \<Rightarrow> tp_plan" where
  "tp_requeue now r = r\<lparr>tp_state := PlRunning, tp_current := None, tp_updated_at := now\<rparr>"

definition tp_reset_step_after_session ::
  "time \<Rightarrow> string \<Rightarrow> string \<Rightarrow> string \<Rightarrow> tp_db \<Rightarrow> 'e tp_error + (tp_snapshot \<times> tp_db)" where
  "tp_reset_step_after_session now p user interaction db =
     ebind (tp_select_owned p user db) (\<lambda>plan.
     if tp_state plan \<in> terminal_plan_states then Inr (tp_snapshot_of db plan, db)
     else (case List.find (\<lambda>s. ts_plan s = p \<and> ts_interaction s = Some interaction) (tp_steps db) of
             None \<Rightarrow> Inl TpIntegrityError
           | Some step \<Rightarrow>
               tp_result p (tp_set_plan p (tp_requeue now)
                 (tp_set_steps (\<lambda>s. ts_id s = ts_id step) (ts_requeue now) db))))"

definition tp_reset_running_step_for_recovery ::
  "time \<Rightarrow> string \<Rightarrow> string \<Rightarrow> string \<Rightarrow> nat \<Rightarrow> tp_db \<Rightarrow> 'e tp_error + (tp_snapshot \<times> tp_db)" where
  "tp_reset_running_step_for_recovery now p user k expected_attempts db =
     ebind (tp_select_owned p user db) (\<lambda>plan.
     if tp_state plan \<in> terminal_plan_states then Inr (tp_snapshot_of db plan, db)
     else ebind (ts_select p k db) (\<lambda>step.
     if tp_current plan \<noteq> Some k \<or> ts_state step \<noteq> StRunning \<or> ts_attempts step \<noteq> expected_attempts
     then Inr (tp_snapshot_of db plan, db)
     else tp_result p (tp_set_plan p (tp_requeue now)
            (tp_set_steps (\<lambda>s. ts_id s = ts_id step)
               (\<lambda>s. (ts_requeue now s)\<lparr>ts_error_code := None, ts_error_message := None\<rparr>) db))))"

definition tp_complete ::
  "time \<Rightarrow> string \<Rightarrow> string \<Rightarrow> string \<Rightarrow> bool \<Rightarrow> string option \<Rightarrow> tp_db \<Rightarrow> 'e tp_error + (tp_snapshot \<times> tp_db)" where
  "tp_complete now p user reason skip_queued effect_outcome db =
     ebind (tp_select_owned p user db) (\<lambda>plan.
     if tp_state plan = PlSucceeded then Inr (tp_snapshot_of db plan, db)
     else if tp_state plan \<in> terminal_plan_states then Inl TpIntegrityError
     else let db1 = (if skip_queued
                then tp_set_steps (\<lambda>s. ts_plan s = p \<and> ts_state s = StQueued)
                  (\<lambda>s. s\<lparr>ts_state := StSkipped, ts_updated_at := now, ts_finished_at := Some now\<rparr>) db
                else db)
          in if tbl_count (\<lambda>s. ts_plan s = p \<and> ts_state s \<in> active_step_states) (tp_steps db1) \<noteq> 0
             then Inl TpIntegrityError
             else tp_result p (tp_set_plan p
               (\<lambda>r. r\<lparr>tp_state := PlSucceeded, tp_terminal_reason := Some (take 120 reason),
                       tp_effect_outcome := short_effect effect_outcome, tp_current := None,
                       tp_updated_at := now, tp_finished_at := Some now\<rparr>) db1))"

definition tp_set_result_projection ::
  "time \<Rightarrow> string \<Rightarrow> string \<Rightarrow> json \<Rightarrow> tp_db \<Rightarrow> 'e tp_error + (tp_snapshot \<times> tp_db)" where
  "tp_set_result_projection now p user projection db =
     ebind (tp_select_owned p user db) (\<lambda>_.
     tp_result p (tp_set_plan p
       (\<lambda>r. r\<lparr>tp_projection := Some (canon projection), tp_updated_at := now\<rparr>) db))"

definition tp_cancel ::
  "time \<Rightarrow> string \<Rightarrow> string \<Rightarrow> string \<Rightarrow> tp_db \<Rightarrow> 'e tp_error + (tp_snapshot \<times> tp_db)" where
  "tp_cancel now p user reason db =
     ebind (tp_select_owned p user db) (\<lambda>plan.
     if tp_state plan \<in> terminal_plan_states then Inr (tp_snapshot_of db plan, db)
     else if filled (tp_commit_operation plan) then Inl TpCommitInProgress
     else tp_result p (tp_set_plan p
            (\<lambda>r. r\<lparr>tp_state := PlCanceled, tp_terminal_reason := Some (take 120 reason), tp_current := None,
                    tp_updated_at := now, tp_finished_at := Some now\<rparr>)
            (tp_set_steps (\<lambda>s. ts_plan s = p \<and> ts_state s \<in> active_step_states)
               (\<lambda>s. s\<lparr>ts_state := StCanceled, ts_updated_at := now, ts_finished_at := Some now\<rparr>) db)))"

text \<open>
  The guard that runs inside the transaction that consumes an authorization. The join takes a
  plan of the user with a step whose interaction is the one of the authorization.
\<close>

definition authorized_plan :: "string \<Rightarrow> string \<Rightarrow> tp_db \<Rightarrow> tp_plan option" where
  "authorized_plan authorization user db =
     List.find (\<lambda>r. tp_user r = user \<and>
       list_ex (\<lambda>s. ts_plan s = tp_id r \<and>
         list_ex (\<lambda>i. ts_interaction s = Some (in_id i) \<and> in_resource i = authorization \<and>
           in_type i = ''execution_authorization'') (tp_interactions db)) (tp_steps db)) (tp_plans db)"

definition tp_guard ::
  "time \<Rightarrow> string \<Rightarrow> string \<Rightarrow> string \<Rightarrow> (tp_snapshot \<Rightarrow> 'e + unit) \<Rightarrow> tp_db \<Rightarrow> 'e tp_error + tp_db" where
  "tp_guard now authorization user operation validate db =
     (case authorized_plan authorization user db of
        None \<Rightarrow> Inr db
      | Some row \<Rightarrow>
          if tp_state row \<notin> active_plan_states then Inl TpIntegrityError
          else if filled (tp_commit_operation row) then Inl TpCommitInProgress
          else (case validate (tp_snapshot_of db row) of
                  Inl e \<Rightarrow> Inl (TpValidation e)
                | Inr _ \<Rightarrow>
                    Inr (tp_set_steps (\<lambda>s. ts_plan s = tp_id row \<and> Some (ts_key s) = tp_current row)
                           (\<lambda>s. s\<lparr>ts_state := StRunning, ts_updated_at := now\<rparr>)
                      (tp_set_plan (tp_id row)
                         (\<lambda>r. r\<lparr>tp_commit_operation := Some operation, tp_state := PlRunning, tp_updated_at := now\<rparr>) db))))"

section \<open>The store as a transition system\<close>

datatype 'e tp_op =
    TpCreate time string "nat \<Rightarrow> string" tp_request
  | TpRegister string in_row
  | TpBegin time string string
  | TpWaiting time string string string string string "string option"
  | TpSucceeded time string string string string "string option" "string option"
  | TpFailed time string string string "string option" string string string "string option"
  | TpResetSession time string string string
  | TpResetRecovery time string string string nat
  | TpComplete time string string string bool "string option"
  | TpProjection time string string json
  | TpCancel time string string string
  | TpGuard time string string string "tp_snapshot \<Rightarrow> 'e + unit"

definition tp_done :: "'e tp_error + ('a \<times> tp_db) \<Rightarrow> 'e tp_error + (unit \<times> tp_db)" where
  "tp_done out = ebind out (\<lambda>(_, db). Inr ((), db))"

text \<open>The interaction store writes its own table of the same database.\<close>

definition tp_register :: "string \<Rightarrow> in_row \<Rightarrow> tp_db \<Rightarrow> 'e tp_error + (unit \<times> tp_db)" where
  "tp_register token req db =
     (case in_register token req (tp_interactions db) of
        Inl _ \<Rightarrow> Inl TpValueError | Inr (_, rows) \<Rightarrow> Inr ((), db\<lparr>tp_interactions := rows\<rparr>))"

text \<open>The runtime stores only plans that the validator compiled; their step keys are not empty.\<close>

definition compiled_keys_ok :: "compiled_plan \<Rightarrow> bool" where
  "compiled_keys_ok plan \<longleftrightarrow> list_all (\<lambda>s. cs_key s \<noteq> []) (cp_steps plan)"

fun tp_exec :: "'e tp_op \<Rightarrow> tp_db \<Rightarrow> 'e tp_error + (unit \<times> tp_db)" where
  "tp_exec (TpCreate now uuid uuids req) db =
     (if compiled_keys_ok (tq_plan req) then tp_done (tp_create now uuid uuids req db) else Inl TpValueError)"
| "tp_exec (TpRegister token req) db = tp_register token req db"
| "tp_exec (TpBegin now p user) db = tp_done (tp_begin_next_step now p user db)"
| "tp_exec (TpWaiting now p user k oid iid h) db = tp_done (tp_mark_step_waiting now p user k oid iid h db)"
| "tp_exec (TpSucceeded now p user k oid h h') db = tp_done (tp_mark_step_succeeded now p user k oid h h' db)"
| "tp_exec (TpFailed now p user k oid st code msg eff) db =
     tp_done (tp_mark_step_failed now p user k oid st code msg eff db)"
| "tp_exec (TpResetSession now p user iid) db = tp_done (tp_reset_step_after_session now p user iid db)"
| "tp_exec (TpResetRecovery now p user k n) db = tp_done (tp_reset_running_step_for_recovery now p user k n db)"
| "tp_exec (TpComplete now p user reason skip eff) db = tp_done (tp_complete now p user reason skip eff db)"
| "tp_exec (TpProjection now p user v) db = tp_done (tp_set_result_projection now p user v db)"
| "tp_exec (TpCancel now p user reason) db = tp_done (tp_cancel now p user reason db)"
| "tp_exec (TpGuard now a user oid v) db = ebind (tp_guard now a user oid v db) (\<lambda>db'. Inr ((), db'))"

section \<open>Lemmas\<close>

subsection \<open>What holds of one plan and its steps\<close>

abbreviation in_progress :: "ts_row \<Rightarrow> bool" where
  "in_progress s \<equiv> ts_state s \<in> {StRunning, StWaitingUser}"

text \<open>
  While a plan is active: the step in progress is the current one; a step in progress or
  succeeded has all its dependencies succeeded; only a step in progress holds an interaction;
  no step has failed, was canceled or was skipped.
\<close>

definition one_in_progress :: "tp_plan \<Rightarrow> ts_row list \<Rightarrow> bool" where
  "one_in_progress r ss \<longleftrightarrow>
     (\<forall>s \<in> set ss. in_progress s \<longrightarrow> tp_current r = Some (ts_key s)) \<and>
     (\<forall>k. tp_current r = Some k \<longrightarrow> (\<exists>s \<in> set ss. ts_key s = k \<and> in_progress s))"

definition step_succeeded :: "ts_row list \<Rightarrow> string \<Rightarrow> bool" where
  "step_succeeded ss k \<longleftrightarrow> (\<exists>t \<in> set ss. ts_key t = k \<and> ts_state t = StSucceeded)"

definition in_order :: "ts_row list \<Rightarrow> bool" where
  "in_order ss \<longleftrightarrow> (\<forall>s \<in> set ss. in_progress s \<or> ts_state s = StSucceeded \<longrightarrow>
     (\<forall>d \<in> set (ts_depends s). step_succeeded ss d))"

definition bound_in_progress :: "ts_row list \<Rightarrow> bool" where
  "bound_in_progress ss \<longleftrightarrow> (\<forall>s \<in> set ss. ts_interaction s \<noteq> None \<longrightarrow> in_progress s)"

definition only_live :: "ts_row list \<Rightarrow> bool" where
  "only_live ss \<longleftrightarrow> (\<forall>s \<in> set ss. ts_state s \<in> {StQueued, StRunning, StWaitingUser, StSucceeded})"

definition plan_ok :: "tp_plan \<Rightarrow> ts_row list \<Rightarrow> bool" where
  "plan_ok r ss \<longleftrightarrow>
     distinct (map ts_key ss) \<and> distinct (map ts_ordinal ss) \<and> [] \<notin> set (map ts_key ss) \<and>
     (tp_finished_at r = None \<longleftrightarrow> tp_state r \<in> active_plan_states) \<and>
     (tp_state r \<in> active_plan_states \<longrightarrow> one_in_progress r ss \<and> in_order ss \<and> bound_in_progress ss \<and> only_live ss) \<and>
     (tp_state r \<notin> active_plan_states \<longrightarrow> (\<forall>s \<in> set ss. ts_state s \<noteq> StQueued)) \<and>
     (tp_state r \<in> {PlSucceeded, PlCanceled} \<longrightarrow> (\<forall>s \<in> set ss. ts_state s \<notin> active_step_states))"

lemmas plan_ok_defs = plan_ok_def one_in_progress_def in_order_def bound_in_progress_def only_live_def step_succeeded_def

lemma terminal_iff: "s \<in> terminal_plan_states \<longleftrightarrow> s \<notin> active_plan_states"
  by (cases s) (simp_all add: terminal_plan_states_def active_plan_states_def)

definition ts_contract :: "ts_row \<Rightarrow> string list \<times> int \<times> string option list \<times> string list \<times> json \<times> json" where
  "ts_contract s = ([ts_id s, ts_plan s, ts_key s, ts_kind s, ts_title s, ts_version s, ts_effect s, ts_system s],
     ts_ordinal s, [ts_capability s, ts_transform s], ts_depends s, ts_arguments s, ts_bindings s)"

definition tp_contract ::
  "tp_plan \<Rightarrow> string list \<times> json \<times> nat \<times> json \<times> int option \<times> string option list \<times> time \<times> json option list" where
  "tp_contract r = ([tp_id r, tp_task r, tp_user r, tp_source r, tp_goal r, tp_hash r], tp_summary r, tp_revision r,
     tp_risk r, tp_lease r, [tp_key r, tp_schema r, tp_key_prefix r], tp_created_at r, [tp_temporal r, tp_authority r])"

text \<open>One change of a plan and its steps.\<close>

definition plan_move :: "tp_plan \<Rightarrow> ts_row list \<Rightarrow> tp_plan \<Rightarrow> ts_row list \<Rightarrow> bool" where
  "plan_move r ss r' ss' \<longleftrightarrow> tp_contract r' = tp_contract r \<and> map ts_contract ss' = map ts_contract ss \<and>
     (tp_state r \<in> active_plan_states \<or>
        tp_state r' = tp_state r \<and> tp_terminal_reason r' = tp_terminal_reason r \<and>
        tp_finished_at r' = tp_finished_at r \<and> ss' = ss) \<and>
     (plan_ok r ss \<longrightarrow> plan_ok r' ss')"

lemma plan_move_refl [simp]: "plan_move r ss r ss"
  by (simp add: plan_move_def)

text \<open>The change of one step of an active plan, and of its plan row.\<close>

lemma ts_contract_sel:
  assumes "ts_contract s' = ts_contract s"
  shows "ts_id s' = ts_id s" "ts_plan s' = ts_plan s" "ts_key s' = ts_key s" "ts_ordinal s' = ts_ordinal s"
    "ts_depends s' = ts_depends s"
  using assms by (simp_all add: ts_contract_def)

lemma plan_keys_kept:
  assumes "plan_ok r ss" and "\<And>s. ts_contract (h s) = ts_contract s"
  shows "distinct (map ts_key (map h ss)) \<and> distinct (map ts_ordinal (map h ss)) \<and> [] \<notin> set (map ts_key (map h ss))"
proof -
  have keys: "map ts_key (map h ss) = map ts_key ss" "map ts_ordinal (map h ss) = map ts_ordinal ss"
    using ts_contract_sel[OF assms(2)] by simp_all
  show ?thesis unfolding keys using assms(1) unfolding plan_ok_def by blast
qed

lemma plan_step_unique:
  assumes "plan_ok r ss" "s \<in> set ss" "t \<in> set ss" "ts_key s = ts_key t"
  shows "s = t"
  using distinct_same_key[of ts_key ss s t] assms unfolding plan_ok_def by blast

lemma in_progress_current:
  assumes "plan_ok r ss" "tp_state r \<in> active_plan_states" "s \<in> set ss" "in_progress s"
  shows "tp_current r = Some (ts_key s)"
  using assms unfolding plan_ok_def one_in_progress_def by blast

lemma in_progress_unique:
  assumes "plan_ok r ss" "tp_state r \<in> active_plan_states" "s \<in> set ss" "in_progress s" "t \<in> set ss" "in_progress t"
  shows "t = s"
  using in_progress_current[OF assms(1-4)] in_progress_current[OF assms(1,2,5,6)]
    plan_step_unique[OF assms(1,5,3)] by simp

text \<open>The step in progress is replaced by one that is in progress, succeeded or queued again.\<close>

lemma plan_ok_progress:
  assumes ok: "plan_ok r ss" and act: "tp_state r \<in> active_plan_states" and s: "s \<in> set ss" "in_progress s"
    and c: "ts_contract s' = ts_contract s"
    and r': "tp_state r' \<in> active_plan_states" "tp_finished_at r' = tp_finished_at r"
    and st: "ts_state s' \<in> {StRunning, StWaitingUser, StSucceeded, StQueued}"
    and cur: "tp_current r' = (if in_progress s' then Some (ts_key s) else None)"
    and bound: "in_progress s' \<or> ts_interaction s' = None"
    and h: "\<And>t. t \<in> set ss \<Longrightarrow> h t = (if t = s then s' else t)"
  shows "plan_ok r' (map h ss)"
proof -
  note sel = ts_contract_sel[OF c]
  have hc: "ts_contract (h t) = ts_contract t" if "t \<in> set ss" for t
    using h[OF that] c by simp
  have keys: "map ts_key (map h ss) = map ts_key ss" "map ts_ordinal (map h ss) = map ts_ordinal ss"
    using ts_contract_sel[OF hc] by simp_all
  have ht: "h t = t" if "t \<in> set ss" "t \<noteq> s" for t using h[OF that(1)] that(2) by simp
  have hs: "h s = s'" using h[OF s(1)] by simp
  have rest: "\<not> in_progress t" if "t \<in> set ss" "t \<noteq> s" for t
    using in_progress_unique[OF ok act s that(1)] that(2) by blast
  have succ: "step_succeeded (map h ss) d" if d: "step_succeeded ss d" for d
  proof -
    from d obtain t where t: "t \<in> set ss" "ts_key t = d" "ts_state t = StSucceeded"
      unfolding step_succeeded_def by blast
    then have "t \<noteq> s" using s(2) by auto
    then have "t \<in> set (map h ss)" using ht t(1) by (metis image_eqI list.set_map)
    then show ?thesis using t unfolding step_succeeded_def by blast
  qed
  have deps: "step_succeeded ss d" if "t \<in> set ss" "in_progress t \<or> ts_state t = StSucceeded" "d \<in> set (ts_depends t)" for t d
    using ok act that unfolding plan_ok_def in_order_def by blast
  have "one_in_progress r' (map h ss)"
    unfolding one_in_progress_def
  proof (intro conjI ballI impI allI)
    fix x assume x: "x \<in> set (map h ss)" "in_progress x"
    then obtain t where t: "t \<in> set ss" "x = h t" by auto
    have "t = s" using rest[OF t(1)] ht[OF t(1)] x(2) t(2) by metis
    then show "tp_current r' = Some (ts_key x)"
      using cur hs x(2) t(2) sel(3) by simp
  next
    fix k assume "tp_current r' = Some k"
    then have "in_progress s'" "k = ts_key s" using cur by (auto split: if_splits)
    moreover have "s' \<in> set (map h ss)" using hs s(1) by (metis image_eqI list.set_map)
    ultimately show "\<exists>x\<in>set (map h ss). ts_key x = k \<and> in_progress x" using sel(3) by metis
  qed
  moreover have "in_order (map h ss)"
    unfolding in_order_def
  proof (intro ballI impI)
    fix x d assume x: "x \<in> set (map h ss)" "in_progress x \<or> ts_state x = StSucceeded" "d \<in> set (ts_depends x)"
    then obtain t where t: "t \<in> set ss" "x = h t" by auto
    have "step_succeeded ss d"
    proof (cases "t = s")
      case True
      then have "d \<in> set (ts_depends s)" using x(3) t hs sel(5) by simp
      then show ?thesis using deps[OF s(1)] s(2) by blast
    next
      case False
      then show ?thesis using deps[OF t(1)] x(2,3) t(2) ht[OF t(1)] by simp
    qed
    then show "step_succeeded (map h ss) d" by (rule succ)
  qed
  moreover have "bound_in_progress (map h ss)"
    unfolding bound_in_progress_def
  proof (intro ballI impI)
    fix x assume x: "x \<in> set (map h ss)" "ts_interaction x \<noteq> None"
    then obtain t where t: "t \<in> set ss" "x = h t" by auto
    show "in_progress x"
    proof (cases "t = s")
      case True
      then show ?thesis using bound x t hs by auto
    next
      case False
      then show ?thesis using ok act x t ht[OF t(1)] unfolding plan_ok_def bound_in_progress_def by metis
    qed
  qed
  moreover have "only_live (map h ss)"
    unfolding only_live_def
  proof
    fix x assume "x \<in> set (map h ss)"
    then obtain t where t: "t \<in> set ss" "x = h t" by auto
    then show "ts_state x \<in> {StQueued, StRunning, StWaitingUser, StSucceeded}"
      using ok act st hs ht[OF t(1)] unfolding plan_ok_def only_live_def by (cases "t = s") auto
  qed
  moreover have "tp_state r' \<notin> {PlSucceeded, PlCanceled}"
    using r'(1) by (auto simp: active_plan_states_def)
  ultimately show ?thesis
    using ok act r' unfolding plan_ok_def keys by simp
qed

text \<open>A queued step whose dependencies have succeeded is started while no step is in progress.\<close>

lemma plan_ok_start:
  assumes ok: "plan_ok r ss" and act: "tp_state r \<in> active_plan_states" and s: "s \<in> set ss" "ts_state s = StQueued"
    and none: "\<And>t. t \<in> set ss \<Longrightarrow> \<not> in_progress t" and deps: "\<forall>d \<in> set (ts_depends s). step_succeeded ss d"
    and c: "ts_contract s' = ts_contract s" and st: "in_progress s'"
    and r': "tp_state r' \<in> active_plan_states" "tp_finished_at r' = tp_finished_at r" "tp_current r' = Some (ts_key s)"
    and h: "\<And>t. t \<in> set ss \<Longrightarrow> h t = (if t = s then s' else t)"
  shows "plan_ok r' (map h ss)"
proof -
  note sel = ts_contract_sel[OF c]
  have hc: "ts_contract (h t) = ts_contract t" if "t \<in> set ss" for t
    using h[OF that] c by simp
  have keys: "map ts_key (map h ss) = map ts_key ss" "map ts_ordinal (map h ss) = map ts_ordinal ss"
    using ts_contract_sel[OF hc] by simp_all
  have ht: "h t = t" if "t \<in> set ss" "t \<noteq> s" for t using h[OF that(1)] that(2) by simp
  have hs: "h s = s'" using h[OF s(1)] by simp
  have succ: "step_succeeded (map h ss) d" if d: "step_succeeded ss d" for d
  proof -
    from d obtain t where t: "t \<in> set ss" "ts_key t = d" "ts_state t = StSucceeded"
      unfolding step_succeeded_def by blast
    then have "t \<noteq> s" using s(2) by auto
    then have "t \<in> set (map h ss)" using ht t(1) by (metis image_eqI list.set_map)
    then show ?thesis using t unfolding step_succeeded_def by blast
  qed
  have old: "step_succeeded ss d" if "t \<in> set ss" "in_progress t \<or> ts_state t = StSucceeded" "d \<in> set (ts_depends t)" for t d
    using ok act that unfolding plan_ok_def in_order_def by blast
  have "one_in_progress r' (map h ss)"
    unfolding one_in_progress_def
  proof (intro conjI ballI impI allI)
    fix x assume x: "x \<in> set (map h ss)" "in_progress x"
    then obtain t where t: "t \<in> set ss" "x = h t" by auto
    have "t = s" using none[OF t(1)] ht[OF t(1)] x(2) t(2) by metis
    then show "tp_current r' = Some (ts_key x)"
      using r'(3) hs t(2) sel(3) by simp
  next
    fix k assume "tp_current r' = Some k"
    moreover have "s' \<in> set (map h ss)" using hs s(1) by (metis image_eqI list.set_map)
    ultimately show "\<exists>x\<in>set (map h ss). ts_key x = k \<and> in_progress x" using r'(3) st sel(3) by force
  qed
  moreover have "in_order (map h ss)"
    unfolding in_order_def
  proof (intro ballI impI)
    fix x d assume x: "x \<in> set (map h ss)" "in_progress x \<or> ts_state x = StSucceeded" "d \<in> set (ts_depends x)"
    then obtain t where t: "t \<in> set ss" "x = h t" by auto
    have "step_succeeded ss d"
    proof (cases "t = s")
      case True
      then have "d \<in> set (ts_depends s)" using x(3) t hs sel(5) by simp
      then show ?thesis using deps by blast
    next
      case False
      then show ?thesis using old[OF t(1)] x(2,3) t(2) ht[OF t(1)] by simp
    qed
    then show "step_succeeded (map h ss) d" by (rule succ)
  qed
  moreover have "bound_in_progress (map h ss)"
    unfolding bound_in_progress_def
  proof (intro ballI impI)
    fix x assume x: "x \<in> set (map h ss)" "ts_interaction x \<noteq> None"
    then obtain t where t: "t \<in> set ss" "x = h t" by auto
    show "in_progress x"
    proof (cases "t = s")
      case True
      then show ?thesis using st t hs by auto
    next
      case False
      then show ?thesis using ok act x t ht[OF t(1)] unfolding plan_ok_def bound_in_progress_def by metis
    qed
  qed
  moreover have "only_live (map h ss)"
    unfolding only_live_def
  proof
    fix x assume "x \<in> set (map h ss)"
    then obtain t where t: "t \<in> set ss" "x = h t" by auto
    then show "ts_state x \<in> {StQueued, StRunning, StWaitingUser, StSucceeded}"
      using ok act st hs ht[OF t(1)] unfolding plan_ok_def only_live_def by (cases "t = s") auto
  qed
  moreover have "tp_state r' \<notin> {PlSucceeded, PlCanceled}"
    using r'(1) by (auto simp: active_plan_states_def)
  ultimately show ?thesis
    using ok act r' unfolding plan_ok_def keys by simp
qed

text \<open>A plan ends: nothing stays queued, and nothing stays active when it succeeded or was canceled.\<close>

lemma plan_ok_end:
  assumes ok: "plan_ok r ss" and c: "\<And>s. s \<in> set ss \<Longrightarrow> ts_contract (h s) = ts_contract s"
    and r': "tp_state r' \<notin> active_plan_states" "tp_finished_at r' \<noteq> None"
    and q: "\<And>s. s \<in> set ss \<Longrightarrow> ts_state (h s) \<noteq> StQueued"
    and act: "\<And>s. tp_state r' \<in> {PlSucceeded, PlCanceled} \<Longrightarrow> s \<in> set ss \<Longrightarrow> ts_state (h s) \<notin> active_step_states"
  shows "plan_ok r' (map h ss)"
proof -
  have keys: "map ts_key (map h ss) = map ts_key ss" "map ts_ordinal (map h ss) = map ts_ordinal ss"
    using ts_contract_sel[OF c] by simp_all
  have "\<forall>s \<in> set (map h ss). ts_state s \<noteq> StQueued" using q by simp
  moreover have "tp_state r' \<in> {PlSucceeded, PlCanceled} \<longrightarrow> (\<forall>s \<in> set (map h ss). ts_state s \<notin> active_step_states)"
    using act by simp
  ultimately show ?thesis
    using ok r' unfolding plan_ok_def keys by blast
qed

subsection \<open>The tables\<close>

definition own_steps :: "tp_db \<Rightarrow> tp_plan \<Rightarrow> ts_row list" where
  "own_steps db r = filter (\<lambda>s. ts_plan s = tp_id r) (tp_steps db)"

definition tp_keyed :: "tp_plan \<Rightarrow> tp_plan \<Rightarrow> bool" where
  "tp_keyed r q \<longleftrightarrow> tp_key r \<noteq> None \<and> tp_key r = tp_key q \<and> tp_user r = tp_user q \<and> tp_task r = tp_task q"

definition tp_exclusive :: "tp_plan list \<Rightarrow> bool" where
  "tp_exclusive rs \<longleftrightarrow> (\<forall>r \<in> set rs. \<forall>q \<in> set rs.
     (tp_state r \<in> active_plan_states \<and> tp_state q \<in> active_plan_states \<and> tp_task r = tp_task q \<or> tp_keyed r q)
     \<longrightarrow> tp_id r = tp_id q)"

definition tp_inv :: "tp_db \<Rightarrow> bool" where
  "tp_inv db \<longleftrightarrow> distinct (map tp_id (tp_plans db)) \<and> distinct (map ts_id (tp_steps db)) \<and>
     (\<forall>s \<in> set (tp_steps db). ts_plan s \<in> set (map tp_id (tp_plans db))) \<and>
     tp_exclusive (tp_plans db) \<and> (\<forall>r \<in> set (tp_plans db). plan_ok r (own_steps db r)) \<and>
     in_inv (tp_interactions db)"

lemma tp_plan_unique: "tp_inv db \<Longrightarrow> r \<in> set (tp_plans db) \<Longrightarrow> q \<in> set (tp_plans db) \<Longrightarrow> tp_id r = tp_id q \<Longrightarrow> r = q"
  using distinct_same_key[of tp_id "tp_plans db" r q] unfolding tp_inv_def by blast

lemma ts_row_unique: "tp_inv db \<Longrightarrow> s \<in> set (tp_steps db) \<Longrightarrow> t \<in> set (tp_steps db) \<Longrightarrow> ts_id s = ts_id t \<Longrightarrow> s = t"
  using distinct_same_key[of ts_id "tp_steps db" s t] unfolding tp_inv_def by blast

text \<open>A database in which only the plan \<open>r\<close> and its steps were changed.\<close>

definition tp_touch :: "tp_db \<Rightarrow> tp_plan \<Rightarrow> tp_plan \<Rightarrow> (ts_row \<Rightarrow> ts_row) \<Rightarrow> tp_db \<Rightarrow> bool" where
  "tp_touch db r r' h db' \<longleftrightarrow> r \<in> set (tp_plans db) \<and>
     tp_plans db' = map (\<lambda>q. if tp_id q = tp_id r then r' else q) (tp_plans db) \<and>
     tp_steps db' = map h (tp_steps db) \<and> tp_interactions db' = tp_interactions db \<and>
     (\<forall>s \<in> set (tp_steps db). (ts_plan s \<noteq> tp_id r \<longrightarrow> h s = s) \<and> ts_contract (h s) = ts_contract s) \<and>
     plan_move r (own_steps db r) r' (map h (own_steps db r))"

lemma tp_contract_sel:
  assumes "tp_contract r' = tp_contract r"
  shows "tp_id r' = tp_id r" "tp_task r' = tp_task r" "tp_user r' = tp_user r" "tp_key r' = tp_key r"
  using assms by (simp_all add: tp_contract_def)

lemma tp_touch_own:
  assumes t: "tp_touch db r r' h db'" and q: "q \<in> set (tp_plans db)"
  shows "own_steps db' (if tp_id q = tp_id r then r' else q) =
    (if tp_id q = tp_id r then map h (own_steps db r) else own_steps db q)"
proof -
  have rid: "tp_id r' = tp_id r" using t tp_contract_sel(1) unfolding tp_touch_def plan_move_def by blast
  have plan: "ts_plan (h s) = ts_plan s" if "s \<in> set (tp_steps db)" for s
    using t that ts_contract_sel(2) unfolding tp_touch_def by blast
  have "filter (\<lambda>s. ts_plan s = k) (map h (tp_steps db)) = map h (filter (\<lambda>s. ts_plan s = k) (tp_steps db))" for k
    using plan by (simp add: filter_map comp_def cong: filter_cong)
  moreover have "map h (filter (\<lambda>s. ts_plan s = k) (tp_steps db)) = filter (\<lambda>s. ts_plan s = k) (tp_steps db)"
    if "k \<noteq> tp_id r" for k
    using t that unfolding tp_touch_def by (intro map_idI) auto
  moreover have "tp_steps db' = map h (tp_steps db)" using t unfolding tp_touch_def by blast
  ultimately show ?thesis
    unfolding own_steps_def by (simp add: rid)
qed

lemma tp_touch_inv:
  assumes inv: "tp_inv db" and t: "tp_touch db r r' h db'"
  shows "tp_inv db'"
proof -
  let ?f = "\<lambda>q. if tp_id q = tp_id r then r' else q"
  have plans: "tp_plans db' = map ?f (tp_plans db)" and steps: "tp_steps db' = map h (tp_steps db)"
    and r: "r \<in> set (tp_plans db)" and ints: "tp_interactions db' = tp_interactions db"
    and move: "plan_move r (own_steps db r) r' (map h (own_steps db r))"
    using t unfolding tp_touch_def by blast+
  have con: "tp_contract r' = tp_contract r" using move unfolding plan_move_def by blast
  have f: "tp_contract (?f q) = tp_contract q" if "q \<in> set (tp_plans db)" for q
    using con tp_plan_unique[OF inv that r] by auto
  have act: "tp_state q \<in> active_plan_states" if "q \<in> set (tp_plans db)" "tp_state (?f q) \<in> active_plan_states" for q
    using that move tp_plan_unique[OF inv that(1) r] unfolding plan_move_def by (auto split: if_splits)
  have fid: "tp_id (?f q) = tp_id q" if "q \<in> set (tp_plans db)" for q using tp_contract_sel(1)[OF f[OF that]] .
  have ids: "map tp_id (tp_plans db') = map tp_id (tp_plans db)"
    unfolding plans map_map comp_def using fid by (intro map_cong refl) simp
  have hc: "ts_contract (h s) = ts_contract s" if "s \<in> set (tp_steps db)" for s
    using t that unfolding tp_touch_def by blast
  have sids: "map ts_id (tp_steps db') = map ts_id (tp_steps db)"
    unfolding steps map_map comp_def using ts_contract_sel(1)[OF hc] by (intro map_cong refl) simp
  have "tp_exclusive (tp_plans db')"
    unfolding tp_exclusive_def
  proof (intro ballI impI)
    fix a b assume a: "a \<in> set (tp_plans db')" and b: "b \<in> set (tp_plans db')"
      and ab: "tp_state a \<in> active_plan_states \<and> tp_state b \<in> active_plan_states \<and> tp_task a = tp_task b \<or> tp_keyed a b"
    from a b obtain x y where x: "x \<in> set (tp_plans db)" "a = ?f x" and y: "y \<in> set (tp_plans db)" "b = ?f y"
      unfolding plans by auto
    note cx = tp_contract_sel[OF f[OF x(1)]] and cy = tp_contract_sel[OF f[OF y(1)]]
    have "tp_state x \<in> active_plan_states \<and> tp_state y \<in> active_plan_states \<and> tp_task x = tp_task y \<or> tp_keyed x y"
      using ab act[OF x(1)] act[OF y(1)] cx cy unfolding x(2) y(2) tp_keyed_def by metis
    then have "tp_id x = tp_id y"
      using inv x(1) y(1) unfolding tp_inv_def tp_exclusive_def by blast
    then show "tp_id a = tp_id b" unfolding x(2) y(2) fid[OF x(1)] fid[OF y(1)] .
  qed
  moreover have "plan_ok a (own_steps db' a)" if a: "a \<in> set (tp_plans db')" for a
  proof -
    from a obtain q where q: "q \<in> set (tp_plans db)" "a = ?f q" unfolding plans by auto
    have okq: "plan_ok q (own_steps db q)" using inv q(1) unfolding tp_inv_def by blast
    show ?thesis
    proof (cases "tp_id q = tp_id r")
      case True
      then have "q = r" using tp_plan_unique[OF inv q(1) r] by blast
      then show ?thesis
        using tp_touch_own[OF t q(1)] True okq move unfolding plan_move_def q(2) by simp
    next
      case False
      then show ?thesis using tp_touch_own[OF t q(1)] okq unfolding q(2) by simp
    qed
  qed
  moreover have "ts_plan s \<in> set (map tp_id (tp_plans db'))" if s: "s \<in> set (tp_steps db')" for s
  proof -
    from s obtain t where t: "t \<in> set (tp_steps db)" "s = h t" unfolding steps by auto
    then have "ts_plan s = ts_plan t" using ts_contract_sel(2)[OF hc] by simp
    then show ?thesis using inv t(1) unfolding ids tp_inv_def by simp
  qed
  ultimately show ?thesis
    using inv unfolding tp_inv_def ids sids ints by blast
qed

subsection \<open>Every operation changes one plan\<close>

lemma tp_select_owned_Inr [outcome_simps]:
  "tp_select_owned p user db = Inr r \<longleftrightarrow> tbl_get tp_id p (tp_plans db) = Some r \<and> tp_user r = user"
  by (auto simp: tp_select_owned_def tp_select_def outcome_simps split: option.splits)

lemma ts_select_Inr [outcome_simps]:
  "ts_select p k db = Inr s \<longleftrightarrow> List.find (\<lambda>s. ts_plan s = p \<and> ts_key s = k) (tp_steps db) = Some s"
  by (simp add: ts_select_def split: option.splits)

lemma tp_result_Inr [outcome_simps]:
  "tp_result p db = Inr (sn, db') \<longleftrightarrow>
     db' = db \<and> (\<exists>r. tbl_get tp_id p (tp_plans db) = Some r \<and> sn = tp_snapshot_of db r)"
  by (auto simp: tp_result_def tp_select_def outcome_simps split: option.splits)

lemma tp_set_sel [simp]:
  "tp_plans (tp_set_plan p f db) = tbl_update (\<lambda>r. tp_id r = p) f (tp_plans db)"
  "tp_steps (tp_set_plan p f db) = tp_steps db" "tp_interactions (tp_set_plan p f db) = tp_interactions db"
  "tp_plans (tp_set_steps P g db) = tp_plans db" "tp_interactions (tp_set_steps P g db) = tp_interactions db"
  "tp_steps (tp_set_steps P g db) = tbl_update P g (tp_steps db)"
  by (simp_all add: tp_set_plan_def tp_set_steps_def)

definition marker_kept :: "tp_plan \<Rightarrow> tp_plan \<Rightarrow> bool" where
  "marker_kept r r' \<longleftrightarrow> (tp_state r \<in> active_plan_states \<and> filled (tp_commit_operation r) \<longrightarrow>
     tp_commit_operation r' = tp_commit_operation r \<and> tp_state r' \<noteq> PlCanceled)"

definition tp_change :: "bool \<Rightarrow> string \<Rightarrow> tp_db \<Rightarrow> tp_db \<Rightarrow> bool" where
  "tp_change marked p db db' \<longleftrightarrow>
     db' = db \<or> (\<exists>r r' h. tp_id r = p \<and> tp_touch db r r' h db' \<and> (marked \<longrightarrow> marker_kept r r'))"

lemma tp_change_refl [simp]: "tp_change b p db db"
  by (simp add: tp_change_def)

lemma plan_moveI:
  assumes "tp_state r \<in> active_plan_states" "tp_contract r' = tp_contract r"
    and "\<And>s. s \<in> set ss \<Longrightarrow> ts_contract (h s) = ts_contract s" and "plan_ok r ss \<Longrightarrow> plan_ok r' (map h ss)"
  shows "plan_move r ss r' (map h ss)"
  using assms by (simp add: plan_move_def)

lemma tp_changeI:
  assumes inv: "tp_inv db" and get: "tbl_get tp_id p (tp_plans db) = Some r"
    and act: "tp_state r \<in> active_plan_states"
    and db1: "tp_plans db1 = tp_plans db" "tp_steps db1 = map h (tp_steps db)" "tp_interactions db1 = tp_interactions db"
    and loc: "\<And>s. s \<in> set (tp_steps db) \<Longrightarrow> (ts_plan s \<noteq> p \<longrightarrow> h s = s) \<and> ts_contract (h s) = ts_contract s"
    and con: "tp_contract (f r) = tp_contract r"
    and ok: "plan_ok r (own_steps db r) \<Longrightarrow> plan_ok (f r) (map h (own_steps db r))"
    and mark: "b \<Longrightarrow> marker_kept r (f r)"
  shows "tp_change b p db (tp_set_plan p f db1)"
proof -
  have r: "r \<in> set (tp_plans db)" "tp_id r = p" using tbl_get_mem[OF get] by auto
  have "tbl_update (\<lambda>q. tp_id q = p) f (tp_plans db) = map (\<lambda>q. if tp_id q = tp_id r then f r else q) (tp_plans db)"
    unfolding tbl_update_def using tp_plan_unique[OF inv _ r(1)] r(2) by (intro map_cong refl) auto
  moreover have "plan_move r (own_steps db r) (f r) (map h (own_steps db r))"
    using loc by (intro plan_moveI act con ok) (auto simp: own_steps_def)
  ultimately have "tp_touch db r (f r) h (tp_set_plan p f db1)"
    using r loc db1 unfolding tp_touch_def by auto
  then show ?thesis using r(2) mark unfolding tp_change_def by blast
qed

text \<open>The own steps of a selected plan, and updates addressed by the identifier of a step.\<close>

lemma own_step_select:
  assumes "ts_select p k db = (Inr s :: 'e tp_error + ts_row)" and "tp_id r = p"
  shows "s \<in> set (own_steps db r) \<and> ts_key s = k"
  using assms find_Some_mem by (fastforce simp: own_steps_def outcome_simps)

lemma own_step_mem: "s \<in> set (own_steps db r) \<longleftrightarrow> s \<in> set (tp_steps db) \<and> ts_plan s = tp_id r"
  by (simp add: own_steps_def)

lemma tp_inv_plan_ok: "tp_inv db \<Longrightarrow> tbl_get tp_id p (tp_plans db) = Some r \<Longrightarrow> plan_ok r (own_steps db r)"
  unfolding tp_inv_def by (blast dest: tbl_get_mem)

lemma step_update_local:
  assumes inv: "tp_inv db" and s: "s \<in> set (own_steps db r)" and g: "\<And>s. ts_contract (g s) = ts_contract s"
    and h: "h = (\<lambda>t. if ts_id t = ts_id s \<and> Q t then g t else t)" and t: "t \<in> set (tp_steps db)"
  shows "(ts_plan t \<noteq> tp_id r \<longrightarrow> h t = t) \<and> ts_contract (h t) = ts_contract t"
  using ts_row_unique[OF inv t] s g unfolding h own_step_mem by auto

lemma step_update_own:
  assumes inv: "tp_inv db" and s: "s \<in> set (own_steps db r)" "Q s" and t: "t \<in> set (own_steps db r)"
  shows "(if ts_id t = ts_id s \<and> Q t then g t else t) = (if t = s then g s else t)"
  using ts_row_unique[OF inv, of t s] s t unfolding own_step_mem by auto

lemma tp_change_step:
  assumes inv: "tp_inv db" and plan: "tbl_get tp_id p (tp_plans db) = Some r" and act: "tp_state r \<in> active_plan_states"
    and own: "step \<in> set (own_steps db r)" "Q step"
    and gc: "\<And>s. ts_contract (g s) = ts_contract s" and con: "tp_contract (f r) = tp_contract r"
    and ok: "\<And>h. plan_ok r (own_steps db r) \<Longrightarrow>
      (\<And>t. t \<in> set (own_steps db r) \<Longrightarrow> h t = (if t = step then g step else t)) \<Longrightarrow> plan_ok (f r) (map h (own_steps db r))"
    and mark: "b \<Longrightarrow> marker_kept r (f r)"
  shows "tp_change b p db (tp_set_plan p f (tp_set_steps (\<lambda>s. ts_id s = ts_id step \<and> Q s) g db))"
proof -
  let ?h = "\<lambda>t. if ts_id t = ts_id step \<and> Q t then g t else t"
  have pid: "tp_id r = p" using tbl_get_mem[OF plan] by simp
  show ?thesis
  proof (rule tp_changeI[OF inv plan act, where h = ?h])
    show "tp_steps (tp_set_steps (\<lambda>s. ts_id s = ts_id step \<and> Q s) g db) = map ?h (tp_steps db)"
      by (simp add: tbl_update_def)
  next
    fix s assume "s \<in> set (tp_steps db)"
    from step_update_local[OF inv own(1) gc refl this, of Q]
    show "(ts_plan s \<noteq> p \<longrightarrow> ?h s = s) \<and> ts_contract (?h s) = ts_contract s"
      unfolding pid .
  next
    assume ok': "plan_ok r (own_steps db r)"
    show "plan_ok (f r) (map ?h (own_steps db r))"
      by (rule ok[OF ok']) (rule step_update_own[where Q = Q, OF inv own])
  qed (simp_all add: con mark)
qed

lemma tp_change_all:
  assumes inv: "tp_inv db" and plan: "tbl_get tp_id p (tp_plans db) = Some r" and act: "tp_state r \<in> active_plan_states"
    and P: "\<And>s. P s \<Longrightarrow> ts_plan s = p"
    and gc: "\<And>s. ts_contract (g s) = ts_contract s" and con: "tp_contract (f r) = tp_contract r"
    and ok: "plan_ok r (own_steps db r) \<Longrightarrow> plan_ok (f r) (map (\<lambda>t. if P t then g t else t) (own_steps db r))"
    and mark: "b \<Longrightarrow> marker_kept r (f r)"
  shows "tp_change b p db (tp_set_plan p f (tp_set_steps P g db))"
proof (rule tp_changeI[OF inv plan act, where h = "\<lambda>t. if P t then g t else t"])
  show "tp_steps (tp_set_steps P g db) = map (\<lambda>t. if P t then g t else t) (tp_steps db)"
    by (simp add: tbl_update_def)
qed (use P in \<open>auto simp: gc con mark intro: ok\<close>)

lemma tp_update_step_change:
  assumes inv: "tp_inv db" and st: "state = StSucceeded \<and> plan_state = PlRunning \<and> interaction = None \<and> clear \<or>
      state = StWaitingUser \<and> plan_state = PlWaitingUser \<and> \<not> clear"
    and run: "tp_update_step now p user k state plan_state oid interaction ih oh term clear db
      = (Inr (sn, db') :: 'e tp_error + tp_snapshot \<times> tp_db)"
  shows "tp_change (state \<noteq> StWaitingUser) p db db'"
proof -
  obtain plan where plan: "tbl_get tp_id p (tp_plans db) = Some plan"
    using run by (auto simp: tp_update_step_def outcome_simps)
  have pid: "tp_id plan = p" using tbl_get_mem[OF plan] by simp
  show ?thesis
  proof (cases "tp_state plan \<in> terminal_plan_states")
    case True
    then have "db' = db" using run plan by (auto simp: tp_update_step_def outcome_simps)
    then show ?thesis by simp
  next
    case False
    then have act: "tp_state plan \<in> active_plan_states" by (simp add: terminal_iff)
    let ?g = "\<lambda>s. s\<lparr>ts_state := state, ts_operation := Some oid, ts_interaction := interaction,
                        ts_input_hash := coalesce ih (ts_input_hash s),
                        ts_output_hash := coalesce oh (ts_output_hash s),
                        ts_error_code := None, ts_error_message := None, ts_updated_at := now,
                        ts_finished_at := (if term then Some now else None)\<rparr>"
    let ?f = "\<lambda>r. r\<lparr>tp_state := plan_state, tp_current := (if clear then None else Some k),
                        tp_updated_at := now,
                        tp_commit_operation := (if state = StWaitingUser then None else tp_commit_operation r)\<rparr>"
    from run plan False obtain step where step: "ts_select p k db = (Inr step :: 'e tp_error + ts_row)"
      and prog: "in_progress step" and db': "db' = tp_set_plan p ?f (tp_set_steps (\<lambda>s. ts_id s = ts_id step) ?g db)"
      by (auto simp: tp_update_step_def outcome_simps Let_def split: if_splits)
    note own = own_step_select[OF step pid]
    let ?h = "\<lambda>t. if ts_id t = ts_id step \<and> True then ?g t else t"
    have gc: "ts_contract (?g s) = ts_contract s" for s by (simp add: ts_contract_def)
    show ?thesis
      unfolding db'
    proof (rule tp_changeI[OF inv plan act, where h = ?h])
      show "tp_steps (tp_set_steps (\<lambda>s. ts_id s = ts_id step) ?g db) = map ?h (tp_steps db)"
        by (simp add: tbl_update_def)
    next
      fix s assume "s \<in> set (tp_steps db)"
      from step_update_local[OF inv conjunct1[OF own] gc refl this, of "\<lambda>_. True"]
      show "(ts_plan s \<noteq> p \<longrightarrow> ?h s = s) \<and> ts_contract (?h s) = ts_contract s"
        unfolding pid .
    next
      assume ok: "plan_ok plan (own_steps db plan)"
      show "plan_ok (?f plan) (map ?h (own_steps db plan))"
      proof (rule plan_ok_progress[OF ok act conjunct1[OF own] prog, of "?g step"])
        show "?h t = (if t = step then ?g step else t)" if "t \<in> set (own_steps db plan)" for t
          by (rule step_update_own[OF inv conjunct1[OF own] TrueI that])
        show "tp_state (?f plan) \<in> active_plan_states" "ts_state (?g step) \<in> {StRunning, StWaitingUser, StSucceeded, StQueued}"
          "in_progress (?g step) \<or> ts_interaction (?g step) = None"
          "tp_current (?f plan) = (if in_progress (?g step) then Some (ts_key step) else None)"
          using st conjunct2[OF own] by (elim disjE conjE; simp add: active_plan_states_def)+
      qed (simp_all add: ts_contract_def)
    next
      show "marker_kept plan (?f plan)" if "state \<noteq> StWaitingUser"
        using that st by (auto simp: marker_kept_def)
    qed (simp_all add: tp_contract_def)
  qed
qed

lemma tp_set_steps_True: "tp_set_steps (\<lambda>s. ts_id s = i) g db = tp_set_steps (\<lambda>s. ts_id s = i \<and> True) g db"
  by simp

lemma tp_requeue_ok:
  assumes ok: "plan_ok r ss" and act: "tp_state r \<in> active_plan_states" and s: "s \<in> set ss" "in_progress s"
    and g: "ts_contract s' = ts_contract s" "ts_state s' = StQueued" "ts_interaction s' = None"
    and h: "\<And>t. t \<in> set ss \<Longrightarrow> h t = (if t = s then s' else t)"
  shows "plan_ok (tp_requeue now r) (map h ss)"
  by (rule plan_ok_progress[OF ok act s g(1) _ _ _ _ _ h])
     (simp_all add: g tp_requeue_def active_plan_states_def)

lemma tp_reset_session_change:
  assumes inv: "tp_inv db"
    and run: "tp_reset_step_after_session now p user i db = (Inr (sn, db') :: 'e tp_error + tp_snapshot \<times> tp_db)"
  shows "tp_change True p db db'"
proof -
  obtain plan where plan: "tbl_get tp_id p (tp_plans db) = Some plan"
    using run by (auto simp: tp_reset_step_after_session_def outcome_simps)
  have pid: "tp_id plan = p" using tbl_get_mem[OF plan] by simp
  show ?thesis
  proof (cases "tp_state plan \<in> terminal_plan_states")
    case True
    then have "db' = db" using run plan by (auto simp: tp_reset_step_after_session_def outcome_simps)
    then show ?thesis by simp
  next
    case False
    then have act: "tp_state plan \<in> active_plan_states" by (simp add: terminal_iff)
    from run plan False obtain step where
      f: "List.find (\<lambda>s. ts_plan s = p \<and> ts_interaction s = Some i) (tp_steps db) = Some step"
      and db': "db' = tp_set_plan p (tp_requeue now) (tp_set_steps (\<lambda>s. ts_id s = ts_id step \<and> True) (ts_requeue now) db)"
      by (auto simp: tp_reset_step_after_session_def outcome_simps split: option.splits)
    have own: "step \<in> set (own_steps db plan)" "ts_interaction step = Some i"
      using find_Some_mem[OF f] pid by (auto simp: own_step_mem)
    have prog: "in_progress step"
      using tp_inv_plan_ok[OF inv plan] act own unfolding plan_ok_def bound_in_progress_def by blast
    show ?thesis
      unfolding db'
    proof (rule tp_change_step[OF inv plan act own(1)])
      fix h assume ok: "plan_ok plan (own_steps db plan)"
        and h: "\<And>t. t \<in> set (own_steps db plan) \<Longrightarrow> h t = (if t = step then ts_requeue now step else t)"
      show "plan_ok (tp_requeue now plan) (map h (own_steps db plan))"
        by (rule tp_requeue_ok[OF ok act own(1) prog _ _ _ h]) (simp_all add: ts_requeue_def ts_contract_def)
    qed (simp_all add: ts_requeue_def ts_contract_def tp_requeue_def tp_contract_def marker_kept_def)
  qed
qed

lemma tp_reset_recovery_change:
  assumes inv: "tp_inv db"
    and run: "tp_reset_running_step_for_recovery now p user k n db = (Inr (sn, db') :: 'e tp_error + tp_snapshot \<times> tp_db)"
  shows "tp_change True p db db'"
proof -
  obtain plan where plan: "tbl_get tp_id p (tp_plans db) = Some plan"
    using run by (auto simp: tp_reset_running_step_for_recovery_def outcome_simps)
  have pid: "tp_id plan = p" using tbl_get_mem[OF plan] by simp
  show ?thesis
  proof (cases "db' = db")
    case False
    with run plan have nt: "tp_state plan \<notin> terminal_plan_states"
      by (auto simp: tp_reset_running_step_for_recovery_def outcome_simps)
    then have act: "tp_state plan \<in> active_plan_states" by (simp add: terminal_iff)
    let ?g = "\<lambda>s. (ts_requeue now s)\<lparr>ts_error_code := None, ts_error_message := None\<rparr>"
    from run plan nt False obtain step where step: "ts_select p k db = (Inr step :: 'e tp_error + ts_row)"
      and st: "ts_state step = StRunning"
      and db': "db' = tp_set_plan p (tp_requeue now) (tp_set_steps (\<lambda>s. ts_id s = ts_id step \<and> True) ?g db)"
      by (auto simp: tp_reset_running_step_for_recovery_def outcome_simps split: if_splits)
    note own = conjunct1[OF own_step_select[OF step pid]]
    have prog: "in_progress step" using st by simp
    show ?thesis
      unfolding db'
    proof (rule tp_change_step[OF inv plan act own])
      fix h assume ok: "plan_ok plan (own_steps db plan)"
        and h: "\<And>t. t \<in> set (own_steps db plan) \<Longrightarrow> h t = (if t = step then ?g step else t)"
      show "plan_ok (tp_requeue now plan) (map h (own_steps db plan))"
        by (rule tp_requeue_ok[OF ok act own prog _ _ _ h]) (simp_all add: ts_requeue_def ts_contract_def)
    qed (simp_all add: ts_requeue_def ts_contract_def tp_requeue_def tp_contract_def marker_kept_def)
  qed simp
qed

lemma tp_complete_change:
  assumes inv: "tp_inv db"
    and run: "tp_complete now p user reason skip eff db = (Inr (sn, db') :: 'e tp_error + tp_snapshot \<times> tp_db)"
  shows "tp_change True p db db'"
proof -
  obtain plan where plan: "tbl_get tp_id p (tp_plans db) = Some plan"
    using run by (auto simp: tp_complete_def outcome_simps)
  show ?thesis
  proof (cases "db' = db")
    case False
    with run plan have nt: "tp_state plan \<notin> terminal_plan_states"
      by (auto simp: tp_complete_def outcome_simps terminal_plan_states_def split: if_splits)
    then have act: "tp_state plan \<in> active_plan_states" by (simp add: terminal_iff)
    let ?P = "\<lambda>s. skip \<and> ts_plan s = p \<and> ts_state s = StQueued"
    let ?g = "\<lambda>s. s\<lparr>ts_state := StSkipped, ts_updated_at := now, ts_finished_at := Some now\<rparr>"
    let ?f = "\<lambda>r. r\<lparr>tp_state := PlSucceeded, tp_terminal_reason := Some (take 120 reason),
                       tp_effect_outcome := short_effect eff, tp_current := None,
                       tp_updated_at := now, tp_finished_at := Some now\<rparr>"
    have sk: "(if skip then tp_set_steps (\<lambda>s. ts_plan s = p \<and> ts_state s = StQueued) ?g db else db) = tp_set_steps ?P ?g db"
      by (simp add: tp_set_steps_def tbl_update_def)
    have ns: "tp_state plan \<noteq> PlSucceeded" using nt by (auto simp: terminal_plan_states_def)
    from run plan nt ns have cnt: "tbl_count (\<lambda>s. ts_plan s = p \<and> ts_state s \<in> active_step_states) (tp_steps (tp_set_steps ?P ?g db)) = 0"
      and db': "db' = tp_set_plan p ?f (tp_set_steps ?P ?g db)"
      unfolding tp_complete_def Let_def sk by (auto simp: outcome_simps simp del: tp_set_sel split: if_splits)
    have pid: "tp_id plan = p" using tbl_get_mem[OF plan] by simp
    have none: "ts_state (if ?P s then ?g s else s) \<notin> active_step_states" if "s \<in> set (own_steps db plan)" for s
      using cnt that pid by (auto simp: tbl_count_def filter_empty_conv own_step_mem tbl_update_def split: if_splits)
    show ?thesis
      unfolding db'
    proof (rule tp_change_all[OF inv plan act])
      assume ok: "plan_ok plan (own_steps db plan)"
      show "plan_ok (?f plan) (map (\<lambda>t. if ?P t then ?g t else t) (own_steps db plan))"
        by (rule plan_ok_end[OF ok])
           (use none in \<open>auto simp: ts_contract_def active_plan_states_def active_step_states_def\<close>)
    qed (simp_all add: ts_contract_def tp_contract_def marker_kept_def)
  qed simp
qed

lemma tp_cancel_Inr:
  assumes run: "tp_cancel now p user reason db = (Inr (sn, db') :: 'e tp_error + tp_snapshot \<times> tp_db)"
  shows "\<exists>plan. tbl_get tp_id p (tp_plans db) = Some plan \<and> tp_user plan = user \<and>
    (tp_state plan \<in> terminal_plan_states \<and> db' = db \<or>
     tp_state plan \<in> active_plan_states \<and> \<not> filled (tp_commit_operation plan) \<and>
     db' = tp_set_plan p
            (\<lambda>r. r\<lparr>tp_state := PlCanceled, tp_terminal_reason := Some (take 120 reason), tp_current := None,
                    tp_updated_at := now, tp_finished_at := Some now\<rparr>)
            (tp_set_steps (\<lambda>s. ts_plan s = p \<and> ts_state s \<in> active_step_states)
               (\<lambda>s. s\<lparr>ts_state := StCanceled, ts_updated_at := now, ts_finished_at := Some now\<rparr>) db))"
  using run by (auto simp: tp_cancel_def outcome_simps terminal_iff split: if_splits)

lemma tp_cancel_change:
  assumes inv: "tp_inv db"
    and run: "tp_cancel now p user reason db = (Inr (sn, db') :: 'e tp_error + tp_snapshot \<times> tp_db)"
  shows "tp_change True p db db'"
proof -
  from tp_cancel_Inr[OF run] obtain plan where plan: "tbl_get tp_id p (tp_plans db) = Some plan"
    and or: "db' = db \<or> tp_state plan \<in> active_plan_states \<and> \<not> filled (tp_commit_operation plan) \<and>
     db' = tp_set_plan p
            (\<lambda>r. r\<lparr>tp_state := PlCanceled, tp_terminal_reason := Some (take 120 reason), tp_current := None,
                    tp_updated_at := now, tp_finished_at := Some now\<rparr>)
            (tp_set_steps (\<lambda>s. ts_plan s = p \<and> ts_state s \<in> active_step_states)
               (\<lambda>s. s\<lparr>ts_state := StCanceled, ts_updated_at := now, ts_finished_at := Some now\<rparr>) db)" by blast
  have pid: "tp_id plan = p" using tbl_get_mem[OF plan] by simp
  show ?thesis
  proof (cases "db' = db")
    case False
    let ?P = "\<lambda>s. ts_plan s = p \<and> ts_state s \<in> active_step_states"
    let ?g = "\<lambda>s. s\<lparr>ts_state := StCanceled, ts_updated_at := now, ts_finished_at := Some now\<rparr>"
    let ?f = "\<lambda>r. r\<lparr>tp_state := PlCanceled, tp_terminal_reason := Some (take 120 reason), tp_current := None,
                    tp_updated_at := now, tp_finished_at := Some now\<rparr>"
    from False or have act: "tp_state plan \<in> active_plan_states" and nc: "\<not> filled (tp_commit_operation plan)"
      and db': "db' = tp_set_plan p ?f (tp_set_steps ?P ?g db)" by blast+
    show ?thesis
      unfolding db'
    proof (rule tp_change_all[OF inv plan act])
      assume ok: "plan_ok plan (own_steps db plan)"
      have none: "ts_state (if ?P s then ?g s else s) \<notin> active_step_states" if "s \<in> set (own_steps db plan)" for s
        using that pid by (auto simp: own_step_mem active_step_states_def)
      show "plan_ok (?f plan) (map (\<lambda>t. if ?P t then ?g t else t) (own_steps db plan))"
        by (rule plan_ok_end[OF ok])
           (use none in \<open>auto simp: ts_contract_def active_plan_states_def active_step_states_def\<close>)
    qed (use nc in \<open>simp_all add: ts_contract_def tp_contract_def marker_kept_def\<close>)
  qed simp
qed

lemma tp_begin_Inr:
  assumes inv: "tp_inv db"
    and run: "tp_begin_next_step now p user db = (Inr (out, db') :: 'e tp_error + (ts_row \<times> bool) option \<times> tp_db)"
  shows "\<exists>plan. tbl_get tp_id p (tp_plans db) = Some plan \<and> tp_user plan = user \<and>
    (db' = db \<and> (out = None \<or> (\<exists>s. out = Some (s, False) \<and> tp_state plan \<in> active_plan_states \<and>
        s \<in> set (own_steps db plan) \<and> in_progress s)) \<or>
     tp_state plan \<in> active_plan_states \<and> (\<forall>t \<in> set (own_steps db plan). \<not> in_progress t) \<and>
     (\<exists>s. s \<in> set (own_steps db plan) \<and> ts_state s = StQueued \<and>
       (\<forall>d \<in> set (ts_depends s). step_succeeded (own_steps db plan) d) \<and>
       (\<exists>s'. out = Some (s', True) \<and> ts_id s' = ts_id s \<and> ts_state s' = StRunning \<and> ts_attempts s' = Suc (ts_attempts s) \<and>
         s' \<in> set (tp_steps db') \<and> ts_plan s' = p \<and> ts_key s' = ts_key s) \<and>
       db' = tp_set_plan p
          (\<lambda>r. r\<lparr>tp_state := PlRunning, tp_current := Some (ts_key s), tp_updated_at := now\<rparr>)
          (tp_set_steps (\<lambda>t. ts_id t = ts_id s \<and> ts_state t = StQueued)
             (\<lambda>t. t\<lparr>ts_state := StRunning, ts_attempts := Suc (ts_attempts t),
                     ts_started_at := (case ts_started_at t of None \<Rightarrow> Some now | Some u \<Rightarrow> Some u),
                     ts_updated_at := now, ts_error_code := None, ts_error_message := None\<rparr>) db)))"
proof -
  obtain plan where plan: "tbl_get tp_id p (tp_plans db) = Some plan" "tp_user plan = user"
    using run by (auto simp: tp_begin_next_step_def outcome_simps)
  have pid: "tp_id plan = p" using tbl_get_mem[OF plan(1)] by simp
  note ok = tp_inv_plan_ok[OF inv plan(1)]
  show ?thesis
  proof (cases "tp_state plan \<in> terminal_plan_states")
    case True
    then show ?thesis using run plan by (auto simp: tp_begin_next_step_def outcome_simps)
  next
    case False
    then have act: "tp_state plan \<in> active_plan_states" by (simp add: terminal_iff)
    show ?thesis
    proof (cases "tp_current plan")
      case (Some k)
      then obtain c where c: "c \<in> set (own_steps db plan)" "ts_key c = k" "in_progress c"
        using ok act unfolding plan_ok_def one_in_progress_def by blast
      have "[] \<notin> set (map ts_key (own_steps db plan))" using ok unfolding plan_ok_def by blast
      then have "k \<noteq> []" using imageI[OF c(1), of ts_key] c(2) by auto
      then have fl: "filled (tp_current plan)" using Some by (simp add: filled_def)
      with run plan False obtain c' where c': "ts_select p k db = (Inr c' :: 'e tp_error + ts_row)"
        using Some by (auto simp: tp_begin_next_step_def outcome_simps or_text_def \<open>k \<noteq> []\<close>)
      have "c' = c"
        using plan_step_unique[OF ok _ c(1)] own_step_select[OF c' pid] c(2) by simp
      then have "db' = db \<and> out = Some (c, False)"
        using run plan False fl Some c c' \<open>k \<noteq> []\<close>
        by (auto simp: tp_begin_next_step_def or_text_def step_from_row_def outcome_simps)
      then show ?thesis using plan c act by blast
    next
      case None
      then have none: "\<forall>t \<in> set (own_steps db plan). \<not> in_progress t"
        using in_progress_current[OF ok act] by fastforce
      let ?rows = "plan_steps p db"
      have rows: "set ?rows = set (own_steps db plan)"
        by (simp add: plan_steps_def own_steps_def pid)
      show ?thesis
      proof (cases "List.find (step_ready ?rows) ?rows")
        case None
        then show ?thesis
          using run plan False \<open>tp_current plan = None\<close>
          by (auto simp: tp_begin_next_step_def outcome_simps filled_def Let_def)
      next
        case (Some s)
        have s: "s \<in> set (own_steps db plan)" "step_ready ?rows s"
          using find_Some_mem[OF Some] rows by auto
        have deps: "step_succeeded (own_steps db plan) d" if "d \<in> set (ts_depends s)" for d
        proof -
          from s(2) that have "map_of (rev (map (\<lambda>r. (ts_key r, ts_state r)) ?rows)) d = Some StSucceeded"
            by (auto simp: step_ready_def list_all_iff)
          from map_of_SomeD[OF this] show ?thesis
            using rows by (auto simp: step_succeeded_def)
        qed
        let ?db = "tp_set_plan p
          (\<lambda>r. r\<lparr>tp_state := PlRunning, tp_current := Some (ts_key s), tp_updated_at := now\<rparr>)
          (tp_set_steps (\<lambda>t. ts_id t = ts_id s \<and> ts_state t = StQueued)
             (\<lambda>t. t\<lparr>ts_state := StRunning, ts_attempts := Suc (ts_attempts t),
                     ts_started_at := (case ts_started_at t of None \<Rightarrow> Some now | Some u \<Rightarrow> Some u),
                     ts_updated_at := now, ts_error_code := None, ts_error_message := None\<rparr>) db)"
        from run plan False Some \<open>tp_current plan = None\<close> obtain s' where
          sel: "ts_select p (ts_key s) ?db = (Inr s' :: 'e tp_error + ts_row)" and out: "out = Some (s', True)" and db': "db' = ?db"
          by (auto simp: tp_begin_next_step_def outcome_simps filled_def Let_def step_from_row_def)
        have q: "ts_state s = StQueued" using s(2) by (simp add: step_ready_def)
        have sel': "s' \<in> set (tp_steps ?db)" "ts_plan s' = p" "ts_key s' = ts_key s"
          using sel find_Some_mem by (fastforce simp: outcome_simps)+
        from sel'(1) obtain t where t: "t \<in> set (tp_steps db)" "s' = (if ts_id t = ts_id s \<and> ts_state t = StQueued then
            t\<lparr>ts_state := StRunning, ts_attempts := Suc (ts_attempts t),
                     ts_started_at := (case ts_started_at t of None \<Rightarrow> Some now | Some u \<Rightarrow> Some u),
                     ts_updated_at := now, ts_error_code := None, ts_error_message := None\<rparr> else t)"
          by (auto simp: tbl_update_def)
        have "ts_plan t = p" "ts_key t = ts_key s"
          using t(2) sel'(2,3) by (auto split: if_splits)
        then have "t = s"
          using plan_step_unique[OF ok _ s(1)] t(1) pid by (simp add: own_step_mem)
        then have "ts_id s' = ts_id s \<and> ts_state s' = StRunning \<and> ts_attempts s' = Suc (ts_attempts s)"
          using t(2) q by simp
        then have "ts_id s' = ts_id s \<and> ts_state s' = StRunning \<and> ts_attempts s' = Suc (ts_attempts s) \<and>
            s' \<in> set (tp_steps db') \<and> ts_plan s' = p \<and> ts_key s' = ts_key s"
          using sel' unfolding db' by blast
        then show ?thesis
          using plan act none s(1) q deps out db' by blast
      qed
    qed
  qed
qed

lemma tp_begin_change:
  assumes inv: "tp_inv db"
    and run: "tp_begin_next_step now p user db = (Inr (out, db') :: 'e tp_error + (ts_row \<times> bool) option \<times> tp_db)"
  shows "tp_change True p db db'"
proof (cases "db' = db")
  case False
  from tp_begin_Inr[OF inv run] False obtain plan s where plan: "tbl_get tp_id p (tp_plans db) = Some plan"
    and act: "tp_state plan \<in> active_plan_states" and none: "\<forall>t \<in> set (own_steps db plan). \<not> in_progress t"
    and s: "s \<in> set (own_steps db plan)" "ts_state s = StQueued" "\<forall>d \<in> set (ts_depends s). step_succeeded (own_steps db plan) d"
    and db': "db' = tp_set_plan p
          (\<lambda>r. r\<lparr>tp_state := PlRunning, tp_current := Some (ts_key s), tp_updated_at := now\<rparr>)
          (tp_set_steps (\<lambda>t. ts_id t = ts_id s \<and> ts_state t = StQueued)
             (\<lambda>t. t\<lparr>ts_state := StRunning, ts_attempts := Suc (ts_attempts t),
                     ts_started_at := (case ts_started_at t of None \<Rightarrow> Some now | Some u \<Rightarrow> Some u),
                     ts_updated_at := now, ts_error_code := None, ts_error_message := None\<rparr>) db)"
    by blast
  show ?thesis
    unfolding db'
  proof (rule tp_change_step[where Q = "\<lambda>t. ts_state t = StQueued", OF inv plan act s(1,2)])
    fix h assume ok: "plan_ok plan (own_steps db plan)"
      and h: "\<And>t. t \<in> set (own_steps db plan) \<Longrightarrow> h t = (if t = s then s\<lparr>ts_state := StRunning, ts_attempts := Suc (ts_attempts s),
                     ts_started_at := (case ts_started_at s of None \<Rightarrow> Some now | Some u \<Rightarrow> Some u),
                     ts_updated_at := now, ts_error_code := None, ts_error_message := None\<rparr> else t)"
    show "plan_ok (plan\<lparr>tp_state := PlRunning, tp_current := Some (ts_key s), tp_updated_at := now\<rparr>) (map h (own_steps db plan))"
      by (rule plan_ok_start[OF ok act s(1,2) _ s(3) _ _ _ _ _ h])
         (use none in \<open>simp_all add: ts_contract_def active_plan_states_def\<close>)
  qed (simp_all add: ts_contract_def tp_contract_def marker_kept_def)
qed simp

lemma tp_failed_change:
  assumes inv: "tp_inv db"
    and run: "tp_mark_step_failed now p user k oid st code msg eff db = (Inr (sn, db') :: 'e tp_error + tp_snapshot \<times> tp_db)"
  shows "tp_change True p db db'"
proof -
  obtain plan where plan: "tbl_get tp_id p (tp_plans db) = Some plan"
    using run by (auto simp: tp_mark_step_failed_def outcome_simps split: if_splits)
  show ?thesis
  proof (cases "tp_state plan \<in> terminal_plan_states")
    case True
    then have "db' = db" using run plan by (auto simp: tp_mark_step_failed_def outcome_simps split: if_splits)
    then show ?thesis by simp
  next
    case False
    then have act: "tp_state plan \<in> active_plan_states" by (simp add: terminal_iff)
    let ?g1 = "\<lambda>s. s\<lparr>ts_state := (if st = ''failed'' then StFailed else StOutcomeUnknown),
                    ts_operation := coalesce oid (ts_operation s), ts_interaction := None,
                    ts_error_code := Some (take 120 code), ts_error_message := Some (take 500 msg),
                    ts_updated_at := now, ts_finished_at := Some now\<rparr>"
    let ?h1 = "\<lambda>s. if ts_plan s = p \<and> ts_key s = k then ?g1 s else s"
    let ?h2 = "\<lambda>s. if ts_plan s = p \<and> ts_state s = StQueued then
                 s\<lparr>ts_state := StCanceled, ts_updated_at := now, ts_finished_at := Some now\<rparr> else s"
    let ?f = "\<lambda>r. r\<lparr>tp_state := (if st = ''failed'' then PlFailed else PlOutcomeUnknown),
                    tp_terminal_reason := Some (take 120 code), tp_current := Some k,
                    tp_effect_outcome := short_effect eff, tp_updated_at := now,
                    tp_finished_at := Some now\<rparr>"
    let ?db1 = "tp_set_steps (\<lambda>s. ts_plan s = p \<and> ts_state s = StQueued)
            (\<lambda>s. s\<lparr>ts_state := StCanceled, ts_updated_at := now, ts_finished_at := Some now\<rparr>)
            (tp_set_steps (\<lambda>s. ts_plan s = p \<and> ts_key s = k) ?g1 db)"
    have db': "db' = tp_set_plan p ?f ?db1"
      using run plan False by (auto simp: tp_mark_step_failed_def outcome_simps Let_def split: if_splits)
    have pid: "tp_id plan = p" using tbl_get_mem[OF plan] by simp
    have con: "ts_contract (?h2 (?h1 s)) = ts_contract s" for s
      by (simp add: ts_contract_def)
    show ?thesis
      unfolding db'
    proof (rule tp_changeI[OF inv plan act, where h = "?h2 \<circ> ?h1"])
      show "tp_steps ?db1 = map (?h2 \<circ> ?h1) (tp_steps db)"
        by (simp only: tp_set_sel tbl_update_def map_map)
    next
      fix s show "(ts_plan s \<noteq> p \<longrightarrow> (?h2 \<circ> ?h1) s = s) \<and> ts_contract ((?h2 \<circ> ?h1) s) = ts_contract s"
        using con[of s] by (simp add: comp_def)
    next
      assume ok: "plan_ok plan (own_steps db plan)"
      show "plan_ok (?f plan) (map (?h2 \<circ> ?h1) (own_steps db plan))"
      proof (rule plan_ok_end[OF ok])
        fix s assume s: "s \<in> set (own_steps db plan)"
        show "ts_contract ((?h2 \<circ> ?h1) s) = ts_contract s" using con[of s] by (simp only: comp_def)
        show "ts_state ((?h2 \<circ> ?h1) s) \<noteq> StQueued" using s pid by (simp add: own_step_mem)
      next
        fix s assume "tp_state (?f plan) \<in> {PlSucceeded, PlCanceled}"
        then show "ts_state ((?h2 \<circ> ?h1) s) \<notin> active_step_states" by (cases "st = ''failed''") simp_all
      qed (simp_all add: active_plan_states_def)
    next
      show "marker_kept plan (?f plan)" by (simp add: marker_kept_def)
    qed (simp_all add: tp_contract_def)
  qed
qed

lemma tp_guard_Inr:
  assumes "tp_guard now a user oid v db = (Inr db' :: 'e tp_error + tp_db)"
  shows "authorized_plan a user db = None \<and> db' = db \<or>
    (\<exists>row. authorized_plan a user db = Some row \<and> tp_state row \<in> active_plan_states \<and>
      \<not> filled (tp_commit_operation row) \<and> (\<exists>u. v (tp_snapshot_of db row) = Inr u) \<and>
      db' = tp_set_plan (tp_id row)
               (\<lambda>r. r\<lparr>tp_commit_operation := Some oid, tp_state := PlRunning, tp_updated_at := now\<rparr>)
             (tp_set_steps (\<lambda>s. ts_plan s = tp_id row \<and> Some (ts_key s) = tp_current row)
               (\<lambda>s. s\<lparr>ts_state := StRunning, ts_updated_at := now\<rparr>) db))"
  using assms
  by (auto simp: tp_guard_def tp_set_plan_def tp_set_steps_def split: option.splits sum.splits if_splits)

lemma authorized_plan_row:
  assumes inv: "tp_inv db" and a: "authorized_plan a user db = Some row"
  shows "tbl_get tp_id (tp_id row) (tp_plans db) = Some row \<and> row \<in> set (tp_plans db) \<and> tp_user row = user"
proof -
  have "row \<in> set (tp_plans db) \<and> tp_user row = user"
    using find_Some_mem[OF a[unfolded authorized_plan_def]] by blast
  moreover have "distinct (map tp_id (tp_plans db))" using inv unfolding tp_inv_def by blast
  ultimately show ?thesis by (auto intro: tbl_get_eqI)
qed

lemma plan_ok_same:
  assumes "plan_ok r ss" "tp_state r \<in> active_plan_states" "tp_state r' \<in> active_plan_states"
    "tp_finished_at r' = tp_finished_at r" "tp_current r' = tp_current r"
  shows "plan_ok r' ss"
proof -
  have "tp_state r' \<notin> {PlSucceeded, PlCanceled}" using assms(3) by (auto simp: active_plan_states_def)
  then show ?thesis using assms unfolding plan_ok_def one_in_progress_def by simp
qed

lemma tp_guard_change:
  assumes inv: "tp_inv db" and run: "tp_guard now a user oid v db = (Inr db' :: 'e tp_error + tp_db)"
  shows "\<exists>p. tp_change True p db db'"
  using tp_guard_Inr[OF run]
proof (elim disjE exE conjE)
  fix row assume row: "authorized_plan a user db = Some row" and act: "tp_state row \<in> active_plan_states"
    and nc: "\<not> filled (tp_commit_operation row)"
    and db': "db' = tp_set_plan (tp_id row)
               (\<lambda>r. r\<lparr>tp_commit_operation := Some oid, tp_state := PlRunning, tp_updated_at := now\<rparr>)
             (tp_set_steps (\<lambda>s. ts_plan s = tp_id row \<and> Some (ts_key s) = tp_current row)
               (\<lambda>s. s\<lparr>ts_state := StRunning, ts_updated_at := now\<rparr>) db)"
  have plan: "tbl_get tp_id (tp_id row) (tp_plans db) = Some row" using authorized_plan_row[OF inv row] by blast
  let ?P = "\<lambda>s. ts_plan s = tp_id row \<and> Some (ts_key s) = tp_current row"
  let ?g = "\<lambda>s. s\<lparr>ts_state := StRunning, ts_updated_at := now\<rparr>"
  let ?f = "\<lambda>r. r\<lparr>tp_commit_operation := Some oid, tp_state := PlRunning, tp_updated_at := now\<rparr>"
  have "tp_change True (tp_id row) db db'"
    unfolding db'
  proof (rule tp_change_all[OF inv plan act])
    assume ok: "plan_ok row (own_steps db row)"
    show "plan_ok (?f row) (map (\<lambda>t. if ?P t then ?g t else t) (own_steps db row))"
    proof (cases "tp_current row")
      case None
      then have "map (\<lambda>t. if ?P t then ?g t else t) (own_steps db row) = own_steps db row"
        by (intro map_idI) simp
      moreover have "plan_ok (?f row) (own_steps db row)"
        by (rule plan_ok_same[OF ok act]) (simp_all add: active_plan_states_def)
      ultimately show ?thesis by simp
    next
      case (Some k)
      then obtain c where c: "c \<in> set (own_steps db row)" "ts_key c = k" "in_progress c"
        using ok act unfolding plan_ok_def one_in_progress_def by blast
      show ?thesis
      proof (rule plan_ok_progress[OF ok act c(1,3), of "?g c"])
        fix t assume t: "t \<in> set (own_steps db row)"
        have "?P t \<longleftrightarrow> t = c"
          using plan_step_unique[OF ok t c(1)] t c(1,2) Some by (auto simp: own_step_mem)
        then show "(if ?P t then ?g t else t) = (if t = c then ?g c else t)" by auto
      qed (use Some c in \<open>simp_all add: ts_contract_def active_plan_states_def\<close>)
    qed
  qed (use nc in \<open>simp_all add: ts_contract_def tp_contract_def marker_kept_def\<close>)
  then show ?thesis by blast
qed (use tp_change_refl in blast)

subsection \<open>Creating a plan keeps the invariant\<close>

lemma ts_new_row_sel [simp]:
  "ts_id (ts_new_row now uuid plan step) = uuid" "ts_plan (ts_new_row now uuid plan step) = plan"
  "ts_key (ts_new_row now uuid plan step) = cs_key step" "ts_ordinal (ts_new_row now uuid plan step) = cs_ordinal step"
  "ts_state (ts_new_row now uuid plan step) = StQueued" "ts_interaction (ts_new_row now uuid plan step) = None"
  by (simp_all add: ts_new_row_def)

definition ts_keys_ok :: "ts_row list \<Rightarrow> bool" where
  "ts_keys_ok rows \<longleftrightarrow> distinct (map ts_id rows) \<and>
     (\<forall>p. distinct (map ts_key (filter (\<lambda>s. ts_plan s = p) rows)) \<and>
          distinct (map ts_ordinal (filter (\<lambda>s. ts_plan s = p) rows)))"

lemma ts_insert_ok:
  assumes "ts_keys_ok rows" and "ts_insert row rows = (Inr rows' :: 'e tp_error + ts_row list)"
  shows "ts_keys_ok rows' \<and> rows' = rows @ [row]"
proof -
  have new: "ts_id s \<noteq> ts_id row" "ts_plan s = ts_plan row \<Longrightarrow> ts_key s \<noteq> ts_key row \<and> ts_ordinal s \<noteq> ts_ordinal row"
    if "s \<in> set rows" for s
    using assms(2) that by (auto simp: ts_insert_def list_ex_iff split: if_splits)
  have rows': "rows' = rows @ [row]" using assms(2) by (auto simp: ts_insert_def split: if_splits)
  have "ts_id row \<notin> ts_id ` set rows" using new(1) by fastforce
  then have "distinct (map ts_id rows')" using assms(1) unfolding rows' ts_keys_ok_def by simp
  moreover have "distinct (map ts_key (filter (\<lambda>s. ts_plan s = p) rows')) \<and>
      distinct (map ts_ordinal (filter (\<lambda>s. ts_plan s = p) rows'))" for p
  proof (cases "ts_plan row = p")
    case True
    then have "ts_key row \<notin> ts_key ` set (filter (\<lambda>s. ts_plan s = p) rows)"
      "ts_ordinal row \<notin> ts_ordinal ` set (filter (\<lambda>s. ts_plan s = p) rows)"
      using new(2) by fastforce+
    then show ?thesis using assms(1) True unfolding rows' ts_keys_ok_def by simp
  next
    case False
    then show ?thesis using assms(1) unfolding rows' ts_keys_ok_def by simp
  qed
  ultimately show ?thesis using rows' unfolding ts_keys_ok_def by blast
qed

lemma ts_insert_all_ok:
  assumes "foldE (\<lambda>(n, step). ts_insert (ts_new_row now (uuids n) plan step)) xs rows = (Inr rows' :: 'e tp_error + ts_row list)"
    and "ts_keys_ok rows"
  shows "ts_keys_ok rows' \<and> rows' = rows @ map (\<lambda>(n, step). ts_new_row now (uuids n) plan step) xs"
  using assms
proof (induction xs arbitrary: rows)
  case (Cons x xs)
  obtain n step where x: "x = (n, step)" by (cases x)
  from Cons.prems(1) obtain rows1 where r1: "ts_insert (ts_new_row now (uuids n) plan step) rows = (Inr rows1 :: 'e tp_error + ts_row list)"
    and rest: "foldE (\<lambda>(n, step). ts_insert (ts_new_row now (uuids n) plan step)) xs rows1 = (Inr rows' :: 'e tp_error + ts_row list)"
    by (auto simp: x outcome_simps)
  note a = ts_insert_ok[OF Cons.prems(2) r1]
  note ih = Cons.IH[OF rest conjunct1[OF a]]
  show ?case
  proof (intro conjI)
    show "ts_keys_ok rows'" using ih by blast
    have "rows' = rows1 @ map (\<lambda>(n, step). ts_new_row now (uuids n) plan step) xs" using ih by blast
    also have "rows1 = rows @ [ts_new_row now (uuids n) plan step]" using a by blast
    finally show "rows' = rows @ map (\<lambda>(n, step). ts_new_row now (uuids n) plan step) (x # xs)" by (simp add: x)
  qed
qed simp

lemma tp_create_Inr:
  assumes "tp_create now uuid uuids req db = (Inr ((sn, reused), db') :: 'e tp_error + (tp_snapshot \<times> bool) \<times> tp_db)"
  shows "\<exists>user task source goal h key.
    tp_store now uuid uuids user task source goal h key req db = (Inr ((sn, reused), db') :: 'e tp_error + (tp_snapshot \<times> bool) \<times> tp_db) \<and>
    user = py_strip (tq_user req) \<and> task = py_strip (tq_task req) \<and> h = py_strip (cp_hash (tq_plan req)) \<and>
    key = (if py_strip (or_text (tq_key req) []) = [] then None else Some (py_strip (or_text (tq_key req) [])))"
  using assms
  by (auto simp: tp_create_def outcome_simps required_text_def Let_def or_text_def split: if_splits)

lemma tp_store_Inr:
  assumes "tp_store now uuid uuids user task source goal h key req db = (Inr ((sn, reused), db') :: 'e tp_error + (tp_snapshot \<times> bool) \<times> tp_db)"
  shows "reused \<and> db' = db \<or>
    \<not> reused \<and> (\<forall>r \<in> set (tp_plans db). \<not> (key \<noteq> None \<and> tp_user r = user \<and> tp_task r = task \<and> tp_key r = key)) \<and>
    (\<forall>r \<in> set (tp_plans db). tp_task r = task \<longrightarrow> tp_state r \<notin> active_plan_states) \<and>
    uuid \<notin> set (map tp_id (tp_plans db)) \<and>
    (\<exists>steps. ts_insert_all now uuid uuids (cp_steps (tq_plan req)) (tp_steps db) = (Inr steps :: 'e tp_error + ts_row list) \<and>
      db' = db\<lparr>tp_plans := tp_plans db @ [tp_new_row now uuid (tp_next_revision task (tp_plans db)) user task source goal h key req],
              tp_steps := steps\<rparr>)"
proof -
  let ?new = "tp_new_row now uuid (tp_next_revision task (tp_plans db)) user task source goal h key req"
  have id: "tp_id ?new = uuid" by (simp add: tp_new_row_def)
  show ?thesis
  proof (cases "if key = None then None
            else List.find (\<lambda>r. tp_user r = user \<and> tp_task r = task \<and> tp_key r = key) (tp_plans db)")
    case (Some e)
    then show ?thesis using assms unfolding tp_store_def Some by (simp split: if_splits)
  next
    case None
    have nokey: "\<forall>r \<in> set (tp_plans db). \<not> (key \<noteq> None \<and> tp_user r = user \<and> tp_task r = task \<and> tp_key r = key)"
      using None by (auto simp: find_None_iff split: if_splits)
    from assms have rest: "\<not> list_ex (\<lambda>r. tp_task r = task \<and> tp_state r \<in> active_plan_states) (tp_plans db)"
      "(case tbl_insert tp_id ?new (tp_plans db) of
                  None \<Rightarrow> Inl TpSqlIntegrityError
                | Some plans \<Rightarrow>
                    ebind (ts_insert_all now uuid uuids (cp_steps (tq_plan req)) (tp_steps db)) (\<lambda>steps.
                    let db' = db\<lparr>tp_plans := plans, tp_steps := steps\<rparr> in
                    ebind (tp_select uuid db') (\<lambda>row. Inr ((tp_snapshot_of db' row, False), db'))))
        = (Inr ((sn, reused), db') :: 'e tp_error + (tp_snapshot \<times> bool) \<times> tp_db)"
      unfolding tp_store_def None by (simp_all split: if_splits)
    show ?thesis
      using rest(2) nokey rest(1)
      by (auto simp: tbl_insert_Some id outcome_simps Let_def list_ex_iff split: option.splits)
  qed
qed

lemma tp_inv_keys:
  assumes inv: "tp_inv db"
  shows "ts_keys_ok (tp_steps db)"
  unfolding ts_keys_ok_def
proof (intro conjI allI)
  show "distinct (map ts_id (tp_steps db))" using inv unfolding tp_inv_def by blast
  fix p
  have "distinct (map ts_key (filter (\<lambda>s. ts_plan s = p) (tp_steps db))) \<and>
        distinct (map ts_ordinal (filter (\<lambda>s. ts_plan s = p) (tp_steps db)))"
  proof (cases "p \<in> set (map tp_id (tp_plans db))")
    case True
    then obtain r where "r \<in> set (tp_plans db)" "tp_id r = p" by auto
    then show ?thesis using inv unfolding tp_inv_def plan_ok_def own_steps_def by blast
  next
    case False
    then have "filter (\<lambda>s. ts_plan s = p) (tp_steps db) = []"
      using inv unfolding tp_inv_def by (auto simp: filter_empty_conv)
    then show ?thesis by simp
  qed
  then show "distinct (map ts_key (filter (\<lambda>s. ts_plan s = p) (tp_steps db)))"
    "distinct (map ts_ordinal (filter (\<lambda>s. ts_plan s = p) (tp_steps db)))" by blast+
qed

text \<open>The rows of the steps of a new plan.\<close>

definition compiled_rows :: "time \<Rightarrow> string \<Rightarrow> (nat \<Rightarrow> string) \<Rightarrow> compiled_step list \<Rightarrow> ts_row list" where
  "compiled_rows now uuid uuids steps = map (\<lambda>(n, step). ts_new_row now (uuids n) uuid step) (enumerate 0 steps)"

lemma compiled_row:
  assumes "s \<in> set (compiled_rows now uuid uuids steps)"
  shows "\<exists>n. \<exists>c \<in> set steps. s = ts_new_row now (uuids n) uuid c"
proof -
  from assms obtain n c where c: "(n, c) \<in> set (enumerate 0 steps)" "s = ts_new_row now (uuids n) uuid c"
    unfolding compiled_rows_def by auto
  from c(1) have "c \<in> set steps" unfolding enumerate_eq_zip by (rule set_zip_rightD)
  then show ?thesis using c(2) by blast
qed

lemma compiled_row_fields:
  "s \<in> set (compiled_rows now uuid uuids steps) \<Longrightarrow> ts_plan s = uuid \<and> ts_state s = StQueued \<and> ts_interaction s = None"
  by (drule compiled_row) auto

lemma inserted_rows:
  assumes inv: "tp_inv db" and fresh: "uuid \<notin> set (map tp_id (tp_plans db))"
    and ins: "ts_insert_all now uuid uuids cs (tp_steps db) = (Inr steps :: 'e tp_error + ts_row list)"
  shows "steps = tp_steps db @ compiled_rows now uuid uuids cs \<and> ts_keys_ok steps \<and>
    filter (\<lambda>s. ts_plan s = uuid) steps = compiled_rows now uuid uuids cs \<and>
    (p \<noteq> uuid \<longrightarrow> filter (\<lambda>s. ts_plan s = p) steps = filter (\<lambda>s. ts_plan s = p) (tp_steps db))"
proof -
  have st: "ts_keys_ok steps" "steps = tp_steps db @ compiled_rows now uuid uuids cs"
    using ts_insert_all_ok[OF ins[unfolded ts_insert_all_def] tp_inv_keys[OF inv]] unfolding compiled_rows_def by blast+
  have "filter (\<lambda>s. ts_plan s = uuid) (tp_steps db) = []"
    using inv fresh unfolding tp_inv_def by (auto simp: filter_empty_conv)
  moreover have "filter (\<lambda>s. ts_plan s = uuid) (compiled_rows now uuid uuids cs) = compiled_rows now uuid uuids cs"
    using compiled_row_fields by (auto simp: filter_id_conv)
  moreover have "filter (\<lambda>s. ts_plan s = p) (compiled_rows now uuid uuids cs) = []" if "p \<noteq> uuid"
    using compiled_row_fields that by (fastforce simp: filter_empty_conv)
  ultimately show ?thesis using st by simp
qed

lemma tp_created:
  assumes inv: "tp_inv db"
    and run: "tp_create now uuid uuids req db = (Inr ((sn, False), db') :: 'e tp_error + (tp_snapshot \<times> bool) \<times> tp_db)"
  shows "\<exists>r. tbl_get tp_id uuid (tp_plans db') = Some r \<and> tp_user r = py_strip (tq_user req) \<and>
    own_steps db' r = compiled_rows now uuid uuids (cp_steps (tq_plan req))"
proof -
  from tp_create_Inr[OF run] obtain task source goal h key where
    "tp_store now uuid uuids (py_strip (tq_user req)) task source goal h key req db = (Inr ((sn, False), db') :: 'e tp_error + (tp_snapshot \<times> bool) \<times> tp_db)"
    by blast
  from tp_store_Inr[OF this] obtain steps where fresh: "uuid \<notin> set (map tp_id (tp_plans db))"
    and ins: "ts_insert_all now uuid uuids (cp_steps (tq_plan req)) (tp_steps db) = (Inr steps :: 'e tp_error + ts_row list)"
    and db': "db' = db\<lparr>tp_plans := tp_plans db @ [tp_new_row now uuid (tp_next_revision task (tp_plans db)) (py_strip (tq_user req)) task source goal h key req],
              tp_steps := steps\<rparr>" by blast
  let ?new = "tp_new_row now uuid (tp_next_revision task (tp_plans db)) (py_strip (tq_user req)) task source goal h key req"
  have new: "tp_id ?new = uuid" "tp_user ?new = py_strip (tq_user req)" by (simp_all add: tp_new_row_def)
  have "filter (\<lambda>s. ts_plan s = uuid) steps = compiled_rows now uuid uuids (cp_steps (tq_plan req))"
    using inserted_rows[OF inv fresh ins] by blast
  moreover have "tbl_get tp_id uuid (tp_plans db') = Some ?new"
    using fresh tbl_get_None[of tp_id uuid "tp_plans db"] new(1) by (simp add: db' tbl_get_append)
  ultimately show ?thesis using new by (auto simp: own_steps_def db')
qed

lemma tp_create_inv:
  assumes inv: "tp_inv db" and keys: "compiled_keys_ok (tq_plan req)"
    and run: "tp_create now uuid uuids req db = (Inr ((sn, reused), db') :: 'e tp_error + (tp_snapshot \<times> bool) \<times> tp_db)"
  shows "tp_inv db' \<and> (\<forall>r \<in> set (tp_plans db). r \<in> set (tp_plans db') \<and> own_steps db' r = own_steps db r)"
proof -
  from tp_create_Inr[OF run] obtain user task source goal h key where
    "tp_store now uuid uuids user task source goal h key req db = (Inr ((sn, reused), db') :: 'e tp_error + (tp_snapshot \<times> bool) \<times> tp_db)"
    by blast
  from tp_store_Inr[OF this] show ?thesis
  proof (elim disjE conjE exE)
    assume "db' = db" then show ?thesis using inv by simp
  next
    fix steps
    assume nokey: "\<forall>r \<in> set (tp_plans db). \<not> (key \<noteq> None \<and> tp_user r = user \<and> tp_task r = task \<and> tp_key r = key)"
      and idle: "\<forall>r \<in> set (tp_plans db). tp_task r = task \<longrightarrow> tp_state r \<notin> active_plan_states"
      and fresh: "uuid \<notin> set (map tp_id (tp_plans db))"
      and ins: "ts_insert_all now uuid uuids (cp_steps (tq_plan req)) (tp_steps db) = (Inr steps :: 'e tp_error + ts_row list)"
      and db': "db' = db\<lparr>tp_plans := tp_plans db @ [tp_new_row now uuid (tp_next_revision task (tp_plans db)) user task source goal h key req],
              tp_steps := steps\<rparr>"
    let ?new = "tp_new_row now uuid (tp_next_revision task (tp_plans db)) user task source goal h key req"
    let ?rows = "compiled_rows now uuid uuids (cp_steps (tq_plan req))"
    have new: "tp_id ?new = uuid" "tp_task ?new = task" "tp_user ?new = user" "tp_key ?new = key"
      "tp_state ?new = PlValidated" "tp_finished_at ?new = None" "tp_current ?new = None"
      by (simp_all add: tp_new_row_def)
    note ins' = inserted_rows[OF inv fresh ins]
    have kok: "ts_keys_ok steps" using ins'[of uuid] by blast
    have "steps = tp_steps db @ ?rows" using ins'[of uuid] by blast
    then have st': "tp_steps db' = tp_steps db @ ?rows" by (simp add: db')
    have rows: "ts_plan s = uuid \<and> ts_state s = StQueued \<and> ts_interaction s = None \<and> ts_key s \<noteq> []" if "s \<in> set ?rows" for s
      using compiled_row_fields[OF that] compiled_row[OF that] keys by (auto simp: compiled_keys_ok_def list_all_iff)
    have same: "own_steps db' r = own_steps db r" if r: "r \<in> set (tp_plans db)" for r
    proof -
      have "tp_id r \<noteq> uuid" using r fresh by auto
      then have "filter (\<lambda>s. ts_plan s = tp_id r) steps = filter (\<lambda>s. ts_plan s = tp_id r) (tp_steps db)"
        using ins'[of "tp_id r"] by blast
      then show ?thesis by (simp add: own_steps_def db')
    qed
    have "filter (\<lambda>s. ts_plan s = uuid) steps = ?rows" using ins'[of uuid] by blast
    then have own: "own_steps db' ?new = ?rows" by (simp add: own_steps_def new(1) db')
    have "distinct (map ts_key (own_steps db' ?new)) \<and> distinct (map ts_ordinal (own_steps db' ?new))"
      using kok unfolding ts_keys_ok_def own_steps_def by (simp add: db')
    moreover have "[] \<notin> set (map ts_key (own_steps db' ?new))"
    proof
      assume "[] \<in> set (map ts_key (own_steps db' ?new))"
      then obtain s where s: "s \<in> set (own_steps db' ?new)" "ts_key s = []" by force
      from rows[OF s(1)[unfolded own]] s(2) show False by blast
    qed
    moreover have "one_in_progress ?new (own_steps db' ?new) \<and> in_order (own_steps db' ?new) \<and> bound_in_progress (own_steps db' ?new) \<and>
      only_live (own_steps db' ?new)"
      unfolding own one_in_progress_def in_order_def bound_in_progress_def only_live_def new(7) using rows by fastforce
    ultimately have newok: "plan_ok ?new (own_steps db' ?new)"
      unfolding plan_ok_def new(5,6) by (simp add: active_plan_states_def)
    have "tp_exclusive (tp_plans db')"
      unfolding tp_exclusive_def
    proof (intro ballI impI)
      fix a b assume ab: "a \<in> set (tp_plans db')" "b \<in> set (tp_plans db')"
        "tp_state a \<in> active_plan_states \<and> tp_state b \<in> active_plan_states \<and> tp_task a = tp_task b \<or> tp_keyed a b"
      have cross: "\<not> (tp_state x \<in> active_plan_states \<and> tp_task x = task) \<and> \<not> tp_keyed x ?new \<and> \<not> tp_keyed ?new x"
        if "x \<in> set (tp_plans db)" for x
        using idle nokey that unfolding tp_keyed_def new by metis
      have "a \<in> set (tp_plans db) \<or> a = ?new" "b \<in> set (tp_plans db) \<or> b = ?new" using ab(1,2) by (auto simp: db')
      then show "tp_id a = tp_id b"
        using ab(3) cross inv new(2) unfolding tp_inv_def tp_exclusive_def by metis
    qed
    moreover have "\<forall>r \<in> set (tp_plans db'). plan_ok r (own_steps db' r)"
    proof
      fix r assume "r \<in> set (tp_plans db')"
      then consider "r \<in> set (tp_plans db)" | "r = ?new" by (auto simp: db')
      then show "plan_ok r (own_steps db' r)"
      proof cases
        case 1
        then show ?thesis using inv same[OF 1] unfolding tp_inv_def by simp
      qed (use newok in simp)
    qed
    moreover have "\<forall>s \<in> set (tp_steps db'). ts_plan s \<in> set (map tp_id (tp_plans db'))"
    proof
      fix s assume "s \<in> set (tp_steps db')"
      then consider "s \<in> set (tp_steps db)" | "s \<in> set ?rows" unfolding st' set_append by blast
      then show "ts_plan s \<in> set (map tp_id (tp_plans db'))"
      proof cases
        case 1
        then show ?thesis using inv unfolding tp_inv_def db' by auto
      next
        case 2
        then show ?thesis using rows[OF 2] new(1) by (simp add: db')
      qed
    qed
    moreover have "distinct (map tp_id (tp_plans db'))" "in_inv (tp_interactions db')"
      using inv fresh new(1) unfolding tp_inv_def db' by auto
    moreover have "distinct (map ts_id (tp_steps db'))"
      using kok unfolding ts_keys_ok_def by (simp add: db')
    ultimately have "tp_inv db'" unfolding tp_inv_def by blast
    then show ?thesis using same by (auto simp: db')
  qed
qed

subsection \<open>Every transaction\<close>

text \<open>
  Each plan is kept and moves by \<open>plan_move\<close>; the commit marker of a plan that is not in
  \<open>M\<close> is kept as long as the plan is active.
\<close>

definition tp_moved :: "(string \<Rightarrow> bool) \<Rightarrow> tp_db \<Rightarrow> tp_db \<Rightarrow> bool" where
  "tp_moved M db db' \<longleftrightarrow> (\<forall>r \<in> set (tp_plans db). \<exists>r' \<in> set (tp_plans db').
     plan_move r (own_steps db r) r' (own_steps db' r') \<and> (\<not> M (tp_id r) \<longrightarrow> marker_kept r r'))"

lemma marker_kept_refl [simp]: "marker_kept r r"
  by (auto simp: marker_kept_def active_plan_states_def)

lemma tp_moved_same: "(\<And>r. r \<in> set (tp_plans db) \<Longrightarrow> r \<in> set (tp_plans db') \<and> own_steps db' r = own_steps db r) \<Longrightarrow> tp_moved M db db'"
  unfolding tp_moved_def by (metis plan_move_refl marker_kept_refl)

lemma tp_change_moved:
  assumes inv: "tp_inv db" and ch: "tp_change b p db db'" and M: "\<not> b \<Longrightarrow> M p"
  shows "tp_inv db' \<and> tp_moved M db db'"
  using ch unfolding tp_change_def
proof (elim disjE exE conjE)
  assume "db' = db" then show ?thesis using inv by (auto intro: tp_moved_same)
next
  fix r r' h assume p: "tp_id r = p" and t: "tp_touch db r r' h db'" and m: "b \<longrightarrow> marker_kept r r'"
  have r: "r \<in> set (tp_plans db)" and plans: "tp_plans db' = map (\<lambda>q. if tp_id q = tp_id r then r' else q) (tp_plans db)"
    and move: "plan_move r (own_steps db r) r' (map h (own_steps db r))"
    using t unfolding tp_touch_def by blast+
  have "tp_moved M db db'"
    unfolding tp_moved_def
  proof
    fix q assume q: "q \<in> set (tp_plans db)"
    let ?q = "if tp_id q = tp_id r then r' else q"
    have mem: "?q \<in> set (tp_plans db')" unfolding plans using q by auto
    note own = tp_touch_own[OF t q]
    show "\<exists>q' \<in> set (tp_plans db'). plan_move q (own_steps db q) q' (own_steps db' q') \<and> (\<not> M (tp_id q) \<longrightarrow> marker_kept q q')"
    proof (cases "tp_id q = tp_id r")
      case True
      then have q: "q = r" by (rule tp_plan_unique[OF inv q r])
      have "r' \<in> set (tp_plans db')" "own_steps db' r' = map h (own_steps db r)" using mem own q by simp_all
      moreover have "\<not> M (tp_id r) \<longrightarrow> marker_kept r r'" using m M p by blast
      ultimately show ?thesis using move q by metis
    next
      case False
      then show ?thesis using mem own by (intro bexI[of _ q]) auto
    qed
  qed
  then show ?thesis using tp_touch_inv[OF inv t] by blast
qed

lemma tp_register_Inr:
  assumes "tp_inv db" "tp_register token req db = (Inr (u, db') :: 'e tp_error + unit \<times> tp_db)"
  shows "tp_inv db' \<and> tp_plans db' = tp_plans db \<and> tp_steps db' = tp_steps db"
proof -
  obtain r rows where reg: "in_register token req (tp_interactions db) = Inr (r, rows)"
    and db': "db' = db\<lparr>tp_interactions := rows\<rparr>"
    using assms(2) by (auto simp: tp_register_def split: sum.splits)
  have "in_inv rows" using in_register_inv[OF _ reg] assms(1) unfolding tp_inv_def by blast
  then show ?thesis using assms(1) by (simp add: db' tp_inv_def own_steps_def)
qed

text \<open>Only a step that starts waiting for its user gives the marker of its plan back.\<close>

fun clears_marker :: "'e tp_op \<Rightarrow> string \<Rightarrow> bool" where
  "clears_marker (TpWaiting now p user k oid iid h) q = (q = p)"
| "clears_marker _ q = False"

lemma tp_projection_Inr:
  assumes "tp_set_result_projection now p user v db = (Inr (sn, db') :: 'e tp_error + tp_snapshot \<times> tp_db)"
  shows "db' = tp_set_plan p (\<lambda>r. r\<lparr>tp_projection := Some (canon v), tp_updated_at := now\<rparr>) db"
  using assms by (auto simp: tp_set_result_projection_def outcome_simps)

lemma tp_projection_ok:
  assumes "plan_ok r ss"
  shows "plan_ok (r\<lparr>tp_projection := v, tp_updated_at := t\<rparr>) ss"
  using assms unfolding plan_ok_def one_in_progress_def by simp

lemma tp_projection_change:
  assumes inv: "tp_inv db"
    and run: "tp_set_result_projection now p user v db = (Inr (sn, db') :: 'e tp_error + tp_snapshot \<times> tp_db)"
  shows "tp_change True p db db'"
proof -
  let ?f = "\<lambda>r. r\<lparr>tp_projection := Some (canon v), tp_updated_at := now\<rparr>"
  obtain plan where plan: "tbl_get tp_id p (tp_plans db) = Some plan"
    using run by (auto simp: tp_set_result_projection_def outcome_simps)
  have r: "plan \<in> set (tp_plans db)" "tp_id plan = p" using tbl_get_mem[OF plan] by auto
  have "tbl_update (\<lambda>q. tp_id q = p) ?f (tp_plans db) = map (\<lambda>q. if tp_id q = tp_id plan then ?f plan else q) (tp_plans db)"
    unfolding tbl_update_def using tp_plan_unique[OF inv _ r(1)] r(2) by (intro map_cong refl) auto
  moreover have "plan_move plan (own_steps db plan) (?f plan) (map id (own_steps db plan))"
    using tp_projection_ok by (simp add: plan_move_def tp_contract_def)
  ultimately have "tp_touch db plan (?f plan) id db'"
    unfolding tp_projection_Inr[OF run] tp_touch_def using r by simp
  moreover have "marker_kept plan (?f plan)" by (auto simp: marker_kept_def active_plan_states_def)
  ultimately show ?thesis using r(2) unfolding tp_change_def by blast
qed

lemma tp_waiting_change:
  assumes inv: "tp_inv db"
    and run: "tp_mark_step_waiting now p user k oid iid h db = (Inr (sn, db') :: 'e tp_error + tp_snapshot \<times> tp_db)"
  shows "tp_change False p db db'"
  using tp_update_step_change[OF inv _ run[unfolded tp_mark_step_waiting_def]] by simp

lemma tp_succeeded_change:
  assumes inv: "tp_inv db"
    and run: "tp_mark_step_succeeded now p user k oid h h' db = (Inr (sn, db') :: 'e tp_error + tp_snapshot \<times> tp_db)"
  shows "tp_change True p db db'"
  using tp_update_step_change[OF inv _ run[unfolded tp_mark_step_succeeded_def]] by simp

lemma tp_done_Inr: "tp_done out = Inr (u, db') \<Longrightarrow> \<exists>x. out = Inr (x, db')"
  by (auto simp: tp_done_def outcome_simps)

lemma tp_exec_moved:
  fixes op :: "'e tp_op"
  assumes inv: "tp_inv db" and run: "tp_exec op db = Inr (u, db')"
  shows "tp_inv db' \<and> tp_moved (clears_marker op) db db'"
proof -
  have ch: "tp_inv db' \<and> tp_moved (clears_marker op) db db'" if "tp_change True p db db'" for p
    by (rule tp_change_moved[OF inv that]) simp
  show ?thesis
  proof (cases op)
    case (TpCreate now uuid uuids req)
    with run obtain sn reused where c: "compiled_keys_ok (tq_plan req)"
      "tp_create now uuid uuids req db = (Inr ((sn, reused), db') :: 'e tp_error + (tp_snapshot \<times> bool) \<times> tp_db)"
      by (auto dest!: tp_done_Inr split: if_splits)
    from tp_create_inv[OF inv c] show ?thesis by (auto intro: tp_moved_same)
  next
    case (TpRegister token req)
    then have "tp_register token req db = (Inr (u, db') :: 'e tp_error + unit \<times> tp_db)" using run by simp
    from tp_register_Inr[OF inv this] show ?thesis
      by (auto intro!: tp_moved_same simp: own_steps_def)
  next
    case (TpBegin now p user)
    then have "tp_change True p db db'" using run by (auto dest!: tp_done_Inr intro: tp_begin_change[OF inv])
    then show ?thesis by (rule ch)
  next
    case (TpWaiting now p user k oid iid h)
    then have "tp_change False p db db'" using run by (auto dest!: tp_done_Inr intro: tp_waiting_change[OF inv])
    then show ?thesis by (rule tp_change_moved[OF inv]) (simp add: TpWaiting)
  next
    case (TpSucceeded now p user k oid h h')
    then have "tp_change True p db db'" using run by (auto dest!: tp_done_Inr intro: tp_succeeded_change[OF inv])
    then show ?thesis by (rule ch)
  next
    case (TpFailed now p user k oid st code msg eff)
    then have "tp_change True p db db'" using run by (auto dest!: tp_done_Inr intro: tp_failed_change[OF inv])
    then show ?thesis by (rule ch)
  next
    case (TpResetSession now p user iid)
    then have "tp_change True p db db'" using run by (auto dest!: tp_done_Inr intro: tp_reset_session_change[OF inv])
    then show ?thesis by (rule ch)
  next
    case (TpResetRecovery now p user k n)
    then have "tp_change True p db db'" using run by (auto dest!: tp_done_Inr intro: tp_reset_recovery_change[OF inv])
    then show ?thesis by (rule ch)
  next
    case (TpComplete now p user reason skip eff)
    then have "tp_change True p db db'" using run by (auto dest!: tp_done_Inr intro: tp_complete_change[OF inv])
    then show ?thesis by (rule ch)
  next
    case (TpProjection now p user v)
    then have "tp_change True p db db'" using run by (auto dest!: tp_done_Inr intro: tp_projection_change[OF inv])
    then show ?thesis by (rule ch)
  next
    case (TpCancel now p user reason)
    then have "tp_change True p db db'" using run by (auto dest!: tp_done_Inr intro: tp_cancel_change[OF inv])
    then show ?thesis by (rule ch)
  next
    case (TpGuard now a user oid v)
    then have "tp_guard now a user oid v db = Inr db'" using run by (auto simp: outcome_simps)
    then show ?thesis using ch tp_guard_change[OF inv] by blast
  qed
qed

subsection \<open>Sequences of transactions\<close>

type_synonym tp_view =
  "(string list \<times> json \<times> nat \<times> json \<times> int option \<times> string option list \<times> time \<times> json option list)
   \<times> (tp_state \<times> string option \<times> time option) \<times> ts_row list"

definition tp_view_of :: "tp_plan \<Rightarrow> ts_row list \<Rightarrow> tp_view" where
  "tp_view_of r ss = (tp_contract r, (tp_state r, tp_terminal_reason r, tp_finished_at r), ss)"

definition tp_status :: "tp_db \<Rightarrow> string \<Rightarrow> tp_view option" where
  "tp_status db k = map_option (\<lambda>r. tp_view_of r (own_steps db r)) (tbl_get tp_id k (tp_plans db))"

text \<open>The contract of a plan and of its steps stands; nothing leaves a terminal state.\<close>

definition tp_edge :: "tp_view \<Rightarrow> tp_view \<Rightarrow> bool" where
  "tp_edge v w \<longleftrightarrow> fst w = fst v \<and> map ts_contract (snd (snd w)) = map ts_contract (snd (snd v)) \<and>
     fst (fst (snd v)) \<in> active_plan_states"

lemma tp_edge_contract: "tp_edge\<^sup>*\<^sup>* v w \<Longrightarrow> fst w = fst v \<and> map ts_contract (snd (snd w)) = map ts_contract (snd (snd v))"
  by (induction rule: rtranclp_induct) (simp_all add: tp_edge_def)

lemma plan_move_edge:
  assumes "plan_move r ss r' ss'"
  shows "tp_edge\<^sup>*\<^sup>* (tp_view_of r ss) (tp_view_of r' ss')"
proof (cases "tp_state r \<in> active_plan_states")
  case True
  then have "tp_edge (tp_view_of r ss) (tp_view_of r' ss')"
    using assms by (simp add: tp_edge_def tp_view_of_def plan_move_def)
  then show ?thesis by blast
next
  case False
  then have "tp_view_of r' ss' = tp_view_of r ss"
    using assms by (simp add: tp_view_of_def plan_move_def)
  then show ?thesis by simp
qed

lemma tp_inv_get: "tp_inv db \<Longrightarrow> r \<in> set (tp_plans db) \<Longrightarrow> tbl_get tp_id (tp_id r) (tp_plans db) = Some r"
  unfolding tp_inv_def by (blast intro: tbl_get_eqI)

lemma tp_moved_get:
  assumes inv': "tp_inv db'" and mv: "tp_moved M db db'" and get: "tbl_get tp_id k (tp_plans db) = Some r"
  shows "\<exists>r'. tbl_get tp_id k (tp_plans db') = Some r' \<and> plan_move r (own_steps db r) r' (own_steps db' r') \<and>
    (\<not> M k \<longrightarrow> marker_kept r r')"
proof -
  have r: "r \<in> set (tp_plans db)" "tp_id r = k" using tbl_get_mem[OF get] by auto
  from mv r obtain r' where r': "r' \<in> set (tp_plans db')" "plan_move r (own_steps db r) r' (own_steps db' r')"
    "\<not> M k \<longrightarrow> marker_kept r r'" unfolding tp_moved_def by blast
  have "tp_id r' = k" using r'(2) tp_contract_sel(1) r(2) unfolding plan_move_def by metis
  then show ?thesis using tp_inv_get[OF inv' r'(1)] r'(2,3) by auto
qed

interpretation tp_ledger: ledger "tp_exec :: 'e tp_op \<Rightarrow> _" tp_inv tp_status tp_edge
proof (unfold_locales, goal_cases)
  case (1 db op r db')
  then show ?case using tp_exec_moved by blast
next
  case (2 db op u db' k s)
  from 2(3) obtain r where get: "tbl_get tp_id k (tp_plans db) = Some r" and s: "s = tp_view_of r (own_steps db r)"
    by (auto simp: tp_status_def)
  from tp_exec_moved[OF 2(1,2)] have inv': "tp_inv db'" and mv: "tp_moved (clears_marker op) db db'" by blast+
  from tp_moved_get[OF inv' mv get] obtain r' where
    "tbl_get tp_id k (tp_plans db') = Some r'" "plan_move r (own_steps db r) r' (own_steps db' r')" by blast
  then show ?case using plan_move_edge s by (auto simp: tp_status_def)
qed

text \<open>A marked plan that is not waiting for its user again keeps its marker and is not canceled.\<close>

definition tp_committed :: "string \<Rightarrow> tp_db \<Rightarrow> bool" where
  "tp_committed k db \<longleftrightarrow> (\<exists>r. tbl_get tp_id k (tp_plans db) = Some r \<and> tp_state r \<noteq> PlCanceled \<and>
     (tp_state r \<in> active_plan_states \<longrightarrow> filled (tp_commit_operation r)))"

lemma tp_committed_exec:
  assumes "tp_inv db" "tp_committed k db" "tp_exec op db = Inr (u, db')" "\<not> clears_marker op k"
  shows "tp_committed k db'"
proof -
  from assms(2) obtain r where get: "tbl_get tp_id k (tp_plans db) = Some r" and nc: "tp_state r \<noteq> PlCanceled"
    and m: "tp_state r \<in> active_plan_states \<longrightarrow> filled (tp_commit_operation r)"
    unfolding tp_committed_def by blast
  from tp_exec_moved[OF assms(1,3)] have inv': "tp_inv db'" and mv: "tp_moved (clears_marker op) db db'" by blast+
  from tp_moved_get[OF inv' mv get] obtain r' where r': "tbl_get tp_id k (tp_plans db') = Some r'"
    and pm: "plan_move r (own_steps db r) r' (own_steps db' r')" and mk: "marker_kept r r'" using assms(4) by blast
  have "tp_state r' \<noteq> PlCanceled \<and> (tp_state r' \<in> active_plan_states \<longrightarrow> filled (tp_commit_operation r'))"
    using pm mk m nc unfolding plan_move_def marker_kept_def by (cases "tp_state r \<in> active_plan_states") auto
  then show ?thesis using r' unfolding tp_committed_def by blast
qed

lemma tp_committed_run:
  assumes "tp_inv db" "tp_committed k db" "list_all (\<lambda>op. \<not> clears_marker op k) ops"
  shows "tp_committed k (run tp_exec ops db)"
  using assms
proof (induction ops arbitrary: db)
  case (Cons op ops)
  have "tp_committed k (commit (tp_exec op db) db)"
  proof (cases "tp_exec op db")
    case (Inr x)
    then show ?thesis using tp_committed_exec[OF Cons.prems(1,2), of op "fst x" "snd x"] Cons.prems(3) by (cases x) simp
  qed (use Cons.prems in simp)
  then show ?case using Cons.IH[OF tp_ledger.inv_commit[OF Cons.prems(1)]] Cons.prems(3) by simp
qed simp

lemma tp_committed_cancel:
  assumes "tp_committed k db"
  shows "(\<exists>e. tp_cancel now k user reason db = Inl e) \<or> (\<exists>sn. tp_cancel now k user reason db = Inr (sn, db))"
  using assms
  by (auto simp: tp_committed_def tp_cancel_def tp_select_owned_def tp_select_def terminal_iff)

subsection \<open>Progress\<close>

definition deps_earlier :: "ts_row list \<Rightarrow> bool" where
  "deps_earlier ss \<longleftrightarrow> (\<forall>s \<in> set ss. \<forall>d \<in> set (ts_depends s). \<exists>t \<in> set ss. ts_key t = d \<and> ts_ordinal t < ts_ordinal s)"

lemma plan_steps_own: "tp_id r = p \<Longrightarrow> plan_steps p db = sort_key ts_ordinal (own_steps db r)"
  by (simp add: plan_steps_def own_steps_def)

lemma step_readyI:
  assumes ok: "plan_ok r ss" and q: "ts_state s = StQueued" and d: "\<And>d. d \<in> set (ts_depends s) \<Longrightarrow> step_succeeded ss d"
  shows "step_ready (sort_key ts_ordinal ss) s"
proof -
  let ?tbl = "rev (map (\<lambda>r. (ts_key r, ts_state r)) (sort_key ts_ordinal ss))"
  have "mset (map fst ?tbl) = mset (map ts_key ss)" by (simp add: comp_def rev_map)
  moreover have "distinct (map ts_key ss)" using ok unfolding plan_ok_def by blast
  ultimately have "distinct (map fst ?tbl)" by (metis mset_eq_imp_distinct_iff)
  then have "map_of ?tbl k = Some StSucceeded" if "step_succeeded ss k" for k
    using that by (auto simp: step_succeeded_def intro!: map_of_is_SomeI rev_image_eqI)
  then show ?thesis using q d by (simp add: step_ready_def list_all_iff)
qed

lemma first_queued_ready:
  assumes ok: "plan_ok r ss" and act: "tp_state r \<in> active_plan_states" and none: "\<And>t. t \<in> set ss \<Longrightarrow> \<not> in_progress t"
    and deps: "deps_earlier ss" and s: "s \<in> set ss" "ts_state s \<noteq> StSucceeded"
  shows "\<exists>t \<in> set ss. step_ready (sort_key ts_ordinal ss) t"
proof -
  let ?Q = "{t \<in> set ss. ts_state t \<noteq> StSucceeded}"
  have live: "ts_state t \<in> {StQueued, StSucceeded}" if "t \<in> set ss" for t
    using ok act none[OF that] that unfolding plan_ok_def only_live_def by auto
  have "finite ?Q" "?Q \<noteq> {}" using s by auto
  then obtain t where t: "t \<in> ?Q" and least: "\<And>x. x \<in> ?Q \<Longrightarrow> ts_ordinal t \<le> ts_ordinal x"
    using arg_min_if_finite(1)[of ?Q ts_ordinal] arg_min_least[of ?Q _ ts_ordinal] by blast
  have "step_ready (sort_key ts_ordinal ss) t"
  proof (rule step_readyI[OF ok])
    show "ts_state t = StQueued" using t live by auto
    fix d assume "d \<in> set (ts_depends t)"
    then obtain x where x: "x \<in> set ss" "ts_key x = d" "ts_ordinal x < ts_ordinal t"
      using deps t unfolding deps_earlier_def by blast
    then have "x \<notin> ?Q" using least[of x] by auto
    then show "step_succeeded ss d" using x(1,2) unfolding step_succeeded_def by blast
  qed
  then show ?thesis using t by blast
qed

lemma ts_select_own:
  assumes ok: "plan_ok r (own_steps db r)" and s: "s \<in> set (own_steps db r)"
  shows "ts_select (tp_id r) (ts_key s) db = (Inr s :: 'e tp_error + ts_row)"
proof -
  have "List.find (\<lambda>t. ts_plan t = tp_id r \<and> ts_key t = ts_key s) (tp_steps db) \<noteq> None"
    using s unfolding find_None_iff own_step_mem by blast
  then obtain c where c: "List.find (\<lambda>t. ts_plan t = tp_id r \<and> ts_key t = ts_key s) (tp_steps db) = Some c" by blast
  then have "c \<in> set (own_steps db r)" "ts_key c = ts_key s"
    using find_Some_mem by (fastforce simp: own_step_mem)+
  then have "c = s" using plan_step_unique[OF ok _ s] by blast
  then show ?thesis using c by (simp add: ts_select_def)
qed

lemma tp_begin_returns:
  assumes inv: "tp_inv db" and plan: "tbl_get tp_id p (tp_plans db) = Some plan" and user: "tp_user plan = user"
    and act: "tp_state plan \<in> active_plan_states"
    and work: "(\<exists>s \<in> set (own_steps db plan). in_progress s) \<or>
      (\<exists>s \<in> set (own_steps db plan). step_ready (sort_key ts_ordinal (own_steps db plan)) s)"
  shows "\<exists>s b db'. tp_begin_next_step now p user db = (Inr (Some (s, b), db') :: 'e tp_error + (ts_row \<times> bool) option \<times> tp_db)"
proof -
  have pid: "tp_id plan = p" using tbl_get_mem[OF plan] by simp
  note ok = tp_inv_plan_ok[OF inv plan]
  have nt: "tp_state plan \<notin> terminal_plan_states" using act by (simp add: terminal_iff)
  have sel: "tp_select_owned p user db = (Inr plan :: 'e tp_error + tp_plan)"
    using plan user by (simp add: outcome_simps)
  show ?thesis
  proof (cases "tp_current plan")
    case (Some k)
    then obtain c where c: "c \<in> set (own_steps db plan)" "ts_key c = k" "in_progress c"
      using ok act unfolding plan_ok_def one_in_progress_def by blast
    have "[] \<notin> set (map ts_key (own_steps db plan))" using ok unfolding plan_ok_def by blast
    then have "k \<noteq> []" using imageI[OF c(1), of ts_key] c(2) by auto
    then show ?thesis
      using ts_select_own[OF ok c(1), where 'e = 'e] c(2,3) pid Some nt sel
      by (intro exI[of _ "step_from_row True c"] exI[of _ False] exI[of _ db])
         (simp add: tp_begin_next_step_def filled_def or_text_def)
  next
    case None
    then have "\<not> in_progress s" if "s \<in> set (own_steps db plan)" for s
      using in_progress_current[OF ok act that] by fastforce
    then obtain s0 where s0: "s0 \<in> set (own_steps db plan)" "step_ready (plan_steps p db) s0"
      using work unfolding plan_steps_own[OF pid] by blast
    have rows: "set (plan_steps p db) = set (own_steps db plan)" unfolding plan_steps_own[OF pid] by simp
    have "List.find (step_ready (plan_steps p db)) (plan_steps p db) \<noteq> None"
      using s0 rows unfolding find_None_iff by blast
    then obtain s where f: "List.find (step_ready (plan_steps p db)) (plan_steps p db) = Some s" by blast
    have s: "s \<in> set (own_steps db plan)" using find_Some_mem[OF f] rows by blast
    have "\<exists>x. ts_select p (ts_key s) (tp_set_plan p f (tp_set_steps P g db)) = (Inr x :: 'e tp_error + ts_row)"
      if g: "\<And>t. ts_plan (g t) = ts_plan t \<and> ts_key (g t) = ts_key t" for f P g
    proof -
      have "(if P s then g s else s) \<in> set (tp_steps (tp_set_plan p f (tp_set_steps P g db)))"
        using s unfolding own_step_mem tp_set_sel set_tbl_update by blast
      moreover have "ts_plan (if P s then g s else s) = p \<and> ts_key (if P s then g s else s) = ts_key s"
        using s g pid unfolding own_step_mem by simp
      ultimately have "List.find (\<lambda>t. ts_plan t = p \<and> ts_key t = ts_key s)
          (tp_steps (tp_set_plan p f (tp_set_steps P g db))) \<noteq> None"
        unfolding find_None_iff by blast
      then show ?thesis by (auto simp: ts_select_def)
    qed
    note upd = this[of "\<lambda>t. t\<lparr>ts_state := StRunning, ts_attempts := Suc (ts_attempts t),
                     ts_started_at := (case ts_started_at t of None \<Rightarrow> Some now | Some u \<Rightarrow> Some u),
                     ts_updated_at := now, ts_error_code := None, ts_error_message := None\<rparr>"
      "\<lambda>r. r\<lparr>tp_state := PlRunning, tp_current := Some (ts_key s), tp_updated_at := now\<rparr>"
      "\<lambda>t. ts_id t = ts_id s \<and> ts_state t = StQueued"]
    then obtain x where "ts_select p (ts_key s) (tp_set_plan p
          (\<lambda>r. r\<lparr>tp_state := PlRunning, tp_current := Some (ts_key s), tp_updated_at := now\<rparr>)
          (tp_set_steps (\<lambda>t. ts_id t = ts_id s \<and> ts_state t = StQueued)
             (\<lambda>t. t\<lparr>ts_state := StRunning, ts_attempts := Suc (ts_attempts t),
                     ts_started_at := (case ts_started_at t of None \<Rightarrow> Some now | Some u \<Rightarrow> Some u),
                     ts_updated_at := now, ts_error_code := None, ts_error_message := None\<rparr>) db)) = (Inr x :: 'e tp_error + ts_row)"
      by auto
    then show ?thesis
      using None nt sel f
      by (intro exI[of _ "step_from_row True x"] exI[of _ True] exI)
         (simp add: tp_begin_next_step_def filled_def Let_def)
  qed
qed

lemma tp_begin_idle:
  assumes plan: "tbl_get tp_id p (tp_plans db) = Some plan" and user: "tp_user plan = user"
    and inv: "tp_inv db" and act: "tp_state plan \<in> active_plan_states"
    and all_done: "\<And>s. s \<in> set (own_steps db plan) \<Longrightarrow> ts_state s = StSucceeded"
  shows "tp_begin_next_step now p user db = (Inr (None, db) :: 'e tp_error + (ts_row \<times> bool) option \<times> tp_db)"
    and "\<exists>sn db'. tp_complete now p user reason False eff db = (Inr (sn, db') :: 'e tp_error + tp_snapshot \<times> tp_db) \<and>
      tp_state (sn_plan sn) = PlSucceeded"
proof -
  have pid: "tp_id plan = p" using tbl_get_mem[OF plan] by simp
  note ok = tp_inv_plan_ok[OF inv plan]
  have nt: "tp_state plan \<notin> terminal_plan_states" using act by (simp add: terminal_iff)
  have sel: "tp_select_owned p user db = (Inr plan :: 'e tp_error + tp_plan)"
    using plan user by (simp add: outcome_simps)
  have cur: "tp_current plan = None"
    using ok act all_done unfolding plan_ok_def one_in_progress_def by (metis insertE singletonD ts_state.distinct not_Some_eq)
  have "List.find (step_ready (plan_steps p db)) (plan_steps p db) = None"
    unfolding find_None_iff plan_steps_own[OF pid] using all_done by (auto simp: step_ready_def)
  then show "tp_begin_next_step now p user db = (Inr (None, db) :: 'e tp_error + (ts_row \<times> bool) option \<times> tp_db)"
    using sel nt cur by (simp add: tp_begin_next_step_def filled_def Let_def)
  have "filter (\<lambda>s. ts_plan s = p \<and> ts_state s \<in> active_step_states) (tp_steps db) = []"
    unfolding filter_empty_conv using all_done pid by (auto simp: own_step_mem active_step_states_def)
  moreover have "tp_state plan \<noteq> PlSucceeded" using act by (auto simp: active_plan_states_def)
  moreover have "tbl_get tp_id p (tbl_update (\<lambda>r. tp_id r = p) f (tp_plans db)) = Some (f plan)" if "\<And>r. tp_id (f r) = tp_id r" for f
    using plan pid that by (simp add: tbl_get_update)
  ultimately show "\<exists>sn db'. tp_complete now p user reason False eff db = (Inr (sn, db') :: 'e tp_error + tp_snapshot \<times> tp_db) \<and>
      tp_state (sn_plan sn) = PlSucceeded"
    using sel nt by (simp add: tp_complete_def tbl_count_def tp_result_def tp_select_def tp_snapshot_of_def Let_def)
qed


subsection \<open>Idempotency keys of the steps\<close>

lemma foldl_digits_nat_text:
  "foldl (\<lambda>m c. 10 * m + digit_value c) 0 (nat_text n) = n \<and> list_all is_digit_char (nat_text n) \<and> nat_text n \<noteq> []"
proof (induction n rule: nat_text.induct)
  case (1 n)
  have d: "is_digit_char (char_of (48 + k)) \<and> digit_value (char_of (48 + k)) = k" if "k < 10" for k
    using that by (simp add: is_digit_char_def digit_value_def Let_def)
  show ?case
  proof (cases "n < 10")
    case True
    then show ?thesis using d by (subst (1 2 3) nat_text.simps) simp
  next
    case False
    then show ?thesis using 1 d[of "n mod 10"] by (subst (1 2 3) nat_text.simps) simp
  qed
qed

lemma int_of_digits_nat_text: "int_of_digits (nat_text n) = Some n"
  using foldl_digits_nat_text[of n] by (simp add: int_of_digits_def)

lemma append_last_marker:
  assumes "a @ c # d = a' @ c # d'" and "c \<notin> set d" and "c \<notin> set d'"
  shows "a = a' \<and> d = d'"
proof -
  have tw: "takeWhile (\<lambda>x. x \<noteq> c) (rev (x @ c # y)) = rev y" if "c \<notin> set y" for x y
    using that by (simp add: takeWhile_tail) (metis (mono_tags) set_rev takeWhile_eq_all_conv)
  have "rev d = rev d'" using tw[OF assms(2), of a] tw[OF assms(3), of a'] assms(1) by simp
  then show ?thesis using assms(1) by simp
qed

lemma step_idempotency_key_split:
  assumes "step_idempotency_key plan s = step_idempotency_key plan t"
  shows "ts_key s = ts_key t \<and> ts_attempts s = ts_attempts t"
proof -
  have colon: "CHR '':'' \<notin> set (nat_text n)" for n
    using foldl_digits_nat_text[of n] by (auto simp: list_all_iff is_digit_char_def Let_def)
  let ?p = "or_text (tp_key_prefix plan) (''task-plan:'' @ tp_hash plan) @ '':''"
  have "(?p @ ts_key s @ '':attempt'') @ CHR '':'' # nat_text (ts_attempts s) =
        (?p @ ts_key t @ '':attempt'') @ CHR '':'' # nat_text (ts_attempts t)"
    using assms by (simp add: step_idempotency_key_def)
  from append_last_marker[OF this colon colon]
  have "ts_key s = ts_key t" "nat_text (ts_attempts s) = nat_text (ts_attempts t)" by simp_all
  then show ?thesis using int_of_digits_nat_text by (metis option.inject)
qed

section \<open>Properties\<close>

definition tp_empty :: tp_db where
  "tp_empty = \<lparr>tp_plans = [], tp_steps = [], tp_interactions = []\<rparr>"

lemma tp_inv_empty: "tp_inv tp_empty"
  by (simp add: tp_inv_def tp_empty_def tp_exclusive_def in_inv_def)

text \<open>A plan with two steps, the second of which depends on the first.\<close>

definition tp_demo_step :: "string \<Rightarrow> int \<Rightarrow> string list \<Rightarrow> compiled_step" where
  "tp_demo_step key ordinal depends =
     \<lparr>cs_key = key, cs_ordinal = ordinal, cs_kind = ''capability'', cs_title = None, cs_capability = Some ''leave.submit'',
      cs_transform = None, cs_version = Some ''1'', cs_depends = depends, cs_arguments = JDict [], cs_bindings = JDict [],
      cs_effect = ''write'', cs_system = ''oa''\<rparr>"

definition tp_demo_request :: tp_request where
  "tp_demo_request = \<lparr>tq_user = ''ann'', tq_task = ''t1'',
     tq_plan = \<lparr>cp_goal = ''leave'', cp_hash = ''h1'', cp_steps = [tp_demo_step ''a'' 1 [], tp_demo_step ''b'' 2 [''a'']],
       cp_risk = JDict [], cp_schema = None, cp_temporal = JDict [], cp_authority = JDict []\<rparr>,
     tq_source = ''agent_host'', tq_lease = None, tq_key = Some ''k1''\<rparr>"

definition tp_demo_create :: "string tp_op" where
  "tp_demo_create = TpCreate 0 ''p1'' (\<lambda>n. if n = 0 then ''s0'' else ''s1'') tp_demo_request"

definition tp_demo_db :: tp_db where
  "tp_demo_db = run tp_exec [tp_demo_create] tp_empty"

lemma tp_demo_inv: "tp_inv tp_demo_db"
  unfolding tp_demo_db_def by (rule tp_ledger.inv_run[OF tp_inv_empty])

text \<open>
  C2: In every state the plan store can reach: a task has at most one active plan; a plan key of
  a user's task stands for one plan; step keys and ordinals are unique within a plan. While a
  plan is active it has no finishing time, at most one of its steps is running or waiting and
  that step is the current one, every step that was started has all its dependencies succeeded,
  only a step in progress holds an interaction, and no step has failed or was canceled. Once a
  plan has ended nothing in it is queued, and nothing is active if it succeeded or was canceled.
\<close>

theorem tp_reachable_states_sound:
  "tp_inv (run (tp_exec :: 'e tp_op \<Rightarrow> _) ops tp_empty)"
  by (rule tp_ledger.inv_run[OF tp_inv_empty])

lemma tp_view_stands:
  assumes inv: "tp_inv db" and plan: "tbl_get tp_id p (tp_plans db) = Some r"
  shows "\<exists>r'. tbl_get tp_id p (tp_plans (run (tp_exec :: 'e tp_op \<Rightarrow> _) ops db)) = Some r' \<and>
    tp_edge\<^sup>*\<^sup>* (tp_view_of r (own_steps db r)) (tp_view_of r' (own_steps (run tp_exec ops db) r'))"
proof -
  have st: "tp_status db p = Some (tp_view_of r (own_steps db r))" using plan by (simp add: tp_status_def)
  show ?thesis using tp_ledger.status_run[OF inv st, of ops] by (auto simp: tp_status_def)
qed

text \<open>
  C18: What was compiled stands, and what has ended stays ended. In a sound store, after any
  further transactions, a plan still has the task, user, goal, hash, revision, risk, authority and
  key it was created with, and its steps their keys, order, dependencies, capabilities, arguments
  and effects; and if the plan had ended, its state, reason and finishing time and every column
  of its steps are unchanged.
\<close>

theorem tp_contract_stands_and_end_is_final:
  assumes inv: "tp_inv db" and plan: "tbl_get tp_id p (tp_plans db) = Some r"
  shows "\<exists>r'. tbl_get tp_id p (tp_plans (run (tp_exec :: 'e tp_op \<Rightarrow> _) ops db)) = Some r' \<and>
    tp_contract r' = tp_contract r \<and>
    map ts_contract (own_steps (run tp_exec ops db) r') = map ts_contract (own_steps db r) \<and>
    (tp_state r \<in> terminal_plan_states \<longrightarrow> tp_state r' = tp_state r \<and> tp_terminal_reason r' = tp_terminal_reason r \<and>
       tp_finished_at r' = tp_finished_at r \<and> own_steps (run tp_exec ops db) r' = own_steps db r)"
proof -
  let ?db = "run (tp_exec :: 'e tp_op \<Rightarrow> _) ops db" and ?v = "tp_view_of r (own_steps db r)"
  obtain r' where r': "tbl_get tp_id p (tp_plans ?db) = Some r'" "tp_edge\<^sup>*\<^sup>* ?v (tp_view_of r' (own_steps ?db r'))"
    using tp_view_stands[OF inv plan, of ops] by blast
  have "tp_view_of r' (own_steps ?db r') = ?v" if "tp_state r \<in> terminal_plan_states"
    using tp_ledger.final_stuck[OF r'(2)] that by (simp add: tp_edge_def tp_view_of_def terminal_iff)
  then show ?thesis
    using r'(1) tp_edge_contract[OF r'(2)] by (auto simp: tp_view_of_def)
qed

theorem tp_contract_stands_and_end_is_final_witness:
  "\<exists>r r'. tbl_get tp_id ''p1'' (tp_plans tp_demo_db) = Some r \<and>
     tbl_get tp_id ''p1'' (tp_plans (run tp_exec [TpBegin 1 ''p1'' ''ann'' :: string tp_op] tp_demo_db)) = Some r' \<and>
     tp_contract r' = tp_contract r"
proof -
  have "tbl_get tp_id ''p1'' (tp_plans tp_demo_db) \<noteq> None" by code_simp
  then obtain r where r: "tbl_get tp_id ''p1'' (tp_plans tp_demo_db) = Some r" by blast
  from tp_contract_stands_and_end_is_final[OF tp_demo_inv r, of "[TpBegin 1 ''p1'' ''ann'' :: string tp_op]"] r
  show ?thesis by blast
qed

text \<open>
  C17: Steps run one at a time and in dependency order. When the store hands a step to the
  runtime, that step is the only one of its plan in progress, all its dependencies have
  succeeded, and the plan is active and belongs to the caller; either the step was already in progress and
  nothing was written, or no step was in progress, the step was queued, and its attempts
  increased by one.
\<close>

theorem tp_begin_starts_one_ready_step:
  assumes inv: "tp_inv db"
    and run: "tp_begin_next_step now p user db = (Inr (Some (s, started), db') :: 'e tp_error + (ts_row \<times> bool) option \<times> tp_db)"
  shows "\<exists>plan plan'. tbl_get tp_id p (tp_plans db) = Some plan \<and> tbl_get tp_id p (tp_plans db') = Some plan' \<and>
    tp_user plan = user \<and> tp_state plan' \<in> active_plan_states \<and>
    filter in_progress (own_steps db' plan') = [s] \<and>
    (\<forall>d \<in> set (ts_depends s). step_succeeded (own_steps db' plan') d) \<and>
    (if started then filter in_progress (own_steps db plan) = [] \<and>
       (\<exists>q \<in> set (own_steps db plan). ts_id q = ts_id s \<and> ts_state q = StQueued \<and> ts_attempts s = Suc (ts_attempts q))
     else db' = db)"
proof -
  have inv': "tp_inv db'" using tp_change_moved[OF inv tp_begin_change[OF inv run]] by blast
  have core: "filter in_progress (own_steps db' plan') = [s] \<and> (\<forall>d \<in> set (ts_depends s). step_succeeded (own_steps db' plan') d)"
    if plan': "tbl_get tp_id p (tp_plans db') = Some plan'" and act: "tp_state plan' \<in> active_plan_states"
      and s: "s \<in> set (own_steps db' plan')" "in_progress s" for plan'
  proof
    note ok = tp_inv_plan_ok[OF inv' plan']
    have "distinct (own_steps db' plan')"
      using ok unfolding plan_ok_def distinct_map by blast
    then show "filter in_progress (own_steps db' plan') = [s]"
      using in_progress_unique[OF ok act s] s by (intro filter_single) blast+
    show "\<forall>d \<in> set (ts_depends s). step_succeeded (own_steps db' plan') d"
      using ok act s unfolding plan_ok_def in_order_def by blast
  qed
  let ?upd = "\<lambda>q. tp_set_plan p (\<lambda>r. r\<lparr>tp_state := PlRunning, tp_current := Some (ts_key q), tp_updated_at := now\<rparr>)
      (tp_set_steps (\<lambda>t. ts_id t = ts_id q \<and> ts_state t = StQueued)
             (\<lambda>t. t\<lparr>ts_state := StRunning, ts_attempts := Suc (ts_attempts t),
                     ts_started_at := (case ts_started_at t of None \<Rightarrow> Some now | Some u \<Rightarrow> Some u),
                     ts_updated_at := now, ts_error_code := None, ts_error_message := None\<rparr>) db)"
  from tp_begin_Inr[OF inv run] obtain plan where plan: "tbl_get tp_id p (tp_plans db) = Some plan" "tp_user plan = user"
    and cases: "db' = db \<and> (\<exists>x. Some (s, started) = Some (x, False) \<and> tp_state plan \<in> active_plan_states \<and>
        x \<in> set (own_steps db plan) \<and> in_progress x) \<or>
     (\<forall>t \<in> set (own_steps db plan). \<not> in_progress t) \<and>
     (\<exists>q. q \<in> set (own_steps db plan) \<and> ts_state q = StQueued \<and>
       (\<exists>x. Some (s, started) = Some (x, True) \<and> ts_id x = ts_id q \<and> ts_state x = StRunning \<and>
         ts_attempts x = Suc (ts_attempts q) \<and> x \<in> set (tp_steps db') \<and> ts_plan x = p \<and> ts_key x = ts_key q) \<and>
       db' = ?upd q)" by blast
  have pid: "tp_id plan = p" using tbl_get_mem[OF plan(1)] by simp
  from cases show ?thesis
  proof (elim disjE conjE exE)
    fix x assume "db' = db" "Some (s, started) = Some (x, False)" "tp_state plan \<in> active_plan_states"
      "x \<in> set (own_steps db plan)" "in_progress x"
    then show ?thesis using plan core by auto
  next
    fix q x assume out: "Some (s, started) = Some (x, True)" and none: "\<forall>t \<in> set (own_steps db plan). \<not> in_progress t"
      and q: "q \<in> set (own_steps db plan)" "ts_state q = StQueued" "ts_id x = ts_id q" "ts_attempts x = Suc (ts_attempts q)"
      and x: "ts_state x = StRunning" "x \<in> set (tp_steps db')" "ts_plan x = p" and db': "db' = ?upd q"
    let ?plan = "plan\<lparr>tp_state := PlRunning, tp_current := Some (ts_key q), tp_updated_at := now\<rparr>"
    have plan': "tbl_get tp_id p (tp_plans db') = Some ?plan" using plan(1) pid db' by (simp add: tbl_get_update)
    have act: "tp_state ?plan \<in> active_plan_states" by (simp add: active_plan_states_def)
    have sx: "s = x" "started" using out by simp_all
    have "s \<in> set (own_steps db' ?plan)" "in_progress s" using x pid sx by (simp_all add: own_step_mem)
    note c = core[OF plan' act this]
    have "filter in_progress (own_steps db plan) = []" using none unfolding filter_empty_conv .
    moreover have "\<exists>q \<in> set (own_steps db plan). ts_id q = ts_id s \<and> ts_state q = StQueued \<and> ts_attempts s = Suc (ts_attempts q)"
      using q sx by metis
    moreover have "tp_user plan = user" by (rule plan(2))
    ultimately show ?thesis using plan(1) plan' act c sx(2) by metis
  qed
qed

theorem tp_begin_starts_one_ready_step_witness:
  "\<exists>plan plan' s. tbl_get tp_id ''p1'' (tp_plans tp_demo_db) = Some plan \<and>
     filter in_progress (own_steps (run tp_exec [TpBegin 1 ''p1'' ''ann'' :: string tp_op] tp_demo_db) plan') = [s] \<and> ts_id s = ''s0''"
proof -
  let ?out = "tp_begin_next_step 1 ''p1'' ''ann'' tp_demo_db :: string tp_error + (ts_row \<times> bool) option \<times> tp_db"
  have 1: "isl ?out = False" by code_simp
  have 2: "map_option (\<lambda>x. ts_id (fst x)) (fst (projr ?out)) = Some ''s0''" by code_simp
  obtain o' db' where out: "?out = Inr (o', db')" using returns[OF 1] by blast
  then obtain s b where o': "o' = Some (s, b)" and id: "ts_id s = ''s0''" using 2 by auto
  have "run tp_exec [TpBegin 1 ''p1'' ''ann'' :: string tp_op] tp_demo_db = db'"
    using out by (simp add: tp_done_def)
  then show ?thesis
    using tp_begin_starts_one_ready_step[OF tp_demo_inv out[unfolded o']] id by blast
qed

text \<open>
  If every dependency of a step is an earlier step of the plan, then the store hands the owner of an
  active plan a step to work on, or all steps have succeeded and the plan can be completed.
\<close>

lemma tp_work_or_done:
  assumes inv: "tp_inv db" and plan: "tbl_get tp_id p (tp_plans db) = Some plan"
    and act: "tp_state plan \<in> active_plan_states" and deps: "deps_earlier (own_steps db plan)"
  shows "(\<exists>s b db'. tp_begin_next_step now p (tp_user plan) db = (Inr (Some (s, b), db') :: 'e tp_error + (ts_row \<times> bool) option \<times> tp_db)) \<or>
    (\<forall>s \<in> set (own_steps db plan). ts_state s = StSucceeded) \<and>
    tp_begin_next_step now p (tp_user plan) db = (Inr (None, db) :: 'e tp_error + (ts_row \<times> bool) option \<times> tp_db) \<and>
    (\<exists>sn db'. tp_complete now' p (tp_user plan) reason False eff db = (Inr (sn, db') :: 'e tp_error + tp_snapshot \<times> tp_db) \<and>
       tp_state (sn_plan sn) = PlSucceeded)"
proof (cases "\<forall>s \<in> set (own_steps db plan). ts_state s = StSucceeded")
  case True
  then show ?thesis
    using tp_begin_idle[OF plan refl inv act] by blast
next
  case False
  then obtain s where s: "s \<in> set (own_steps db plan)" "ts_state s \<noteq> StSucceeded" by blast
  have "(\<exists>t \<in> set (own_steps db plan). in_progress t) \<or>
      (\<exists>t \<in> set (own_steps db plan). step_ready (sort_key ts_ordinal (own_steps db plan)) t)"
    using first_queued_ready[OF tp_inv_plan_ok[OF inv plan] act _ deps s] by blast
  from tp_begin_returns[OF inv plan refl act this] show ?thesis by blast
qed

text \<open>
  C10: A commitment and a cancellation exclude each other. After the guard has marked a plan for an
  operation, and whatever is executed then except putting a step of this plan back to
  waiting for its user, a cancellation of the plan is refused or writes nothing, and the plan is
  never in the canceled state. Conversely the guard refuses a plan that was canceled.
\<close>

theorem tp_commit_excludes_cancel:
  assumes inv: "tp_inv db" and plan: "authorized_plan a user db = Some row"
    and run: "tp_guard now a user oid v db = (Inr db1 :: 'e tp_error + tp_db)" and oid: "oid \<noteq> []"
    and ops: "list_all (\<lambda>op. \<not> clears_marker op (tp_id row)) ops"
  shows "((\<exists>e. tp_cancel now' (tp_id row) user' reason (run tp_exec ops db1) = (Inl e :: 'e tp_error + tp_snapshot \<times> tp_db)) \<or>
       (\<exists>sn. tp_cancel now' (tp_id row) user' reason (run tp_exec ops db1) =
          (Inr (sn, run tp_exec ops db1) :: 'e tp_error + tp_snapshot \<times> tp_db))) \<and>
      (\<exists>r. tbl_get tp_id (tp_id row) (tp_plans (run tp_exec ops db1)) = Some r \<and> tp_state r \<noteq> PlCanceled)"
proof -
  have inv1: "tp_inv db1" using tp_guard_change[OF inv run] tp_change_moved[OF inv] by blast
  from tp_guard_Inr[OF run] plan
  have db1: "tp_plans db1 = tbl_update (\<lambda>r. tp_id r = tp_id row)
      (\<lambda>r. r\<lparr>tp_commit_operation := Some oid, tp_state := PlRunning, tp_updated_at := now\<rparr>) (tp_plans db)" by auto
  have "tp_committed (tp_id row) db1"
    using authorized_plan_row[OF inv plan] oid by (simp add: tp_committed_def db1 tbl_get_update filled_def)
  from tp_committed_run[OF inv1 this ops] have c: "tp_committed (tp_id row) (run tp_exec ops db1)" .
  then show ?thesis
    using tp_committed_cancel[OF c] unfolding tp_committed_def by blast
qed

text \<open>The demonstration plan waits for the authorization \<open>a1\<close> of its first step.\<close>

definition tp_demo_waiting :: tp_db where
  "tp_demo_waiting = run (tp_exec :: string tp_op \<Rightarrow> _)
     [TpBegin 1 ''p1'' ''ann'',
      TpRegister ''i1'' (in_demo_request\<lparr>in_type := ''execution_authorization'', in_resource := ''a1''\<rparr>),
      TpWaiting 2 ''p1'' ''ann'' ''a'' ''op1'' ''i1'' None] tp_demo_db"

theorem tp_commit_excludes_cancel_witness:
  "\<exists>row db1. authorized_plan ''a1'' ''ann'' tp_demo_waiting = Some row \<and> tp_id row = ''p1'' \<and>
     tp_guard 3 ''a1'' ''ann'' ''op1'' (\<lambda>_. Inr ()) tp_demo_waiting = (Inr db1 :: string tp_error + tp_db) \<and>
     (\<exists>r. tbl_get tp_id ''p1'' (tp_plans (run tp_exec [TpCancel 4 ''p1'' ''ann'' ''stop'' :: string tp_op] db1)) = Some r \<and>
        tp_state r \<noteq> PlCanceled)"
proof -
  have inv: "tp_inv tp_demo_waiting" unfolding tp_demo_waiting_def by (rule tp_ledger.inv_run[OF tp_demo_inv])
  have 1: "map_option tp_id (authorized_plan ''a1'' ''ann'' tp_demo_waiting) = Some ''p1''" by code_simp
  then obtain row where row: "authorized_plan ''a1'' ''ann'' tp_demo_waiting = Some row" "tp_id row = ''p1''" by auto
  have 2: "isl (tp_guard 3 ''a1'' ''ann'' ''op1'' (\<lambda>_. Inr ()) tp_demo_waiting :: string tp_error + tp_db) = False" by code_simp
  then obtain db1 where out: "tp_guard 3 ''a1'' ''ann'' ''op1'' (\<lambda>_. Inr ()) tp_demo_waiting = (Inr db1 :: string tp_error + tp_db)"
    by (cases "tp_guard 3 ''a1'' ''ann'' ''op1'' (\<lambda>_. Inr ()) tp_demo_waiting :: string tp_error + tp_db") auto
  have ops: "list_all (\<lambda>op. \<not> clears_marker op (tp_id row)) [TpCancel 4 ''p1'' ''ann'' ''stop'' :: string tp_op]" by simp
  from tp_commit_excludes_cancel[OF inv row(1) out _ ops]
  have "\<exists>r. tbl_get tp_id ''p1'' (tp_plans (run tp_exec [TpCancel 4 ''p1'' ''ann'' ''stop'' :: string tp_op] db1)) = Some r \<and>
     tp_state r \<noteq> PlCanceled" unfolding row(2) by blast
  then show ?thesis using row out by blast
qed

text \<open>
  Retrying a step never repeats an idempotency key, and different steps never share one: two
  steps of one plan have the same idempotency key only if they have the same step key and the same number of attempts.
\<close>

theorem tp_step_keys_are_injective:
  "step_idempotency_key plan s = step_idempotency_key plan t \<longleftrightarrow> ts_key s = ts_key t \<and> ts_attempts s = ts_attempts t"
proof
  show "step_idempotency_key plan s = step_idempotency_key plan t \<Longrightarrow> ts_key s = ts_key t \<and> ts_attempts s = ts_attempts t"
    by (rule step_idempotency_key_split)
qed (simp add: step_idempotency_key_def)

lemma tp_create_store:
  assumes "tp_create now uuid uuids req db = (Inr out :: 'e tp_error + (tp_snapshot \<times> bool) \<times> tp_db)"
  shows "\<exists>user task source goal h key. (\<forall>now uuid uuids db.
    tp_create now uuid uuids req db =
      (tp_store now uuid uuids user task source goal h key req db :: 'e tp_error + (tp_snapshot \<times> bool) \<times> tp_db)) \<and>
    key = (if py_strip (or_text (tq_key req) []) = [] then None else Some (py_strip (or_text (tq_key req) [])))"
proof -
  let ?t = "py_strip (or_text (tq_key req) [])"
  let ?key = "if ?t = [] then None else Some ?t"
  from assms obtain user task source goal h u1 u2 u3 where
    f: "required_text (Some (tq_user req)) 256 = (Inr user :: 'e tp_error + string)"
      "required_text (Some (tq_task req)) 128 = (Inr task :: 'e tp_error + string)"
      "required_text (Some (tq_source req)) 80 = (Inr source :: 'e tp_error + string)"
      "required_text (Some (cp_goal (tq_plan req))) 500 = (Inr goal :: 'e tp_error + string)"
      "required_text (Some (cp_hash (tq_plan req))) 64 = (Inr h :: 'e tp_error + string)"
    and g: "raise_if (source \<notin> {''agent_host'', ''template'', ''central_planner''}) TpValueError = (Inr u1 :: 'e tp_error + unit)"
      "raise_if (cp_steps (tq_plan req) = []) TpValueError = (Inr u2 :: 'e tp_error + unit)"
      "raise_if (?key \<noteq> None \<and> length ?t > 256) TpValueError = (Inr u3 :: 'e tp_error + unit)"
    unfolding tp_create_def Let_def ebind_eq_Inr by blast
  have "tp_create now uuid uuids req db =
      (tp_store now uuid uuids user task source goal h ?key req db :: 'e tp_error + (tp_snapshot \<times> bool) \<times> tp_db)" for now uuid uuids db
    unfolding tp_create_def Let_def f g ebind_Inr by (rule refl)
  then show ?thesis by blast
qed

lemma tp_store_keyed:
  assumes "tp_store now uuid uuids user task source goal h (Some k) req db = (Inr ((sn, reused), db') :: 'e tp_error + (tp_snapshot \<times> bool) \<times> tp_db)"
  shows "\<exists>r \<in> set (tp_plans db'). tp_user r = user \<and> tp_task r = task \<and> tp_key r = Some k \<and> tp_hash r = h \<and> sn_plan sn = r"
proof (cases "List.find (\<lambda>r. tp_user r = user \<and> tp_task r = task \<and> tp_key r = Some k) (tp_plans db)")
  case (Some e)
  have "tp_hash e = h" "db' = db" "sn = tp_snapshot_of db e"
    using assms Some unfolding tp_store_def by (auto split: if_splits)
  then show ?thesis using find_Some_mem[OF Some] by (simp add: tp_snapshot_of_def Let_def)
next
  case None
  let ?new = "tp_new_row now uuid (tp_next_revision task (tp_plans db)) user task source goal h (Some k) req"
  have new: "tp_id ?new = uuid" "tp_user ?new = user" "tp_task ?new = task" "tp_key ?new = Some k" "tp_hash ?new = h"
    by (simp_all add: tp_new_row_def)
  from assms None have rest: 
      "(case tbl_insert tp_id ?new (tp_plans db) of
                  None \<Rightarrow> Inl TpSqlIntegrityError
                | Some plans \<Rightarrow>
                    ebind (ts_insert_all now uuid uuids (cp_steps (tq_plan req)) (tp_steps db)) (\<lambda>steps.
                    let db' = db\<lparr>tp_plans := plans, tp_steps := steps\<rparr> in
                    ebind (tp_select uuid db') (\<lambda>row. Inr ((tp_snapshot_of db' row, False), db'))))
        = (Inr ((sn, reused), db') :: 'e tp_error + (tp_snapshot \<times> bool) \<times> tp_db)"
    unfolding tp_store_def by (simp_all split: if_splits)
  then obtain steps row where db': "tp_plans db' = tp_plans db @ [?new]" and fresh: "uuid \<notin> set (map tp_id (tp_plans db))"
    and row: "tbl_get tp_id uuid (tp_plans db') = Some row" "sn = tp_snapshot_of db' row"
    by (auto simp: tbl_insert_Some outcome_simps tp_select_def Let_def new split: option.splits)
  have "row = ?new" using row(1) fresh unfolding db' by (auto simp: tbl_get_append new split: option.splits dest: tbl_get_mem)
  then have "sn_plan sn = ?new" unfolding row(2) by (simp add: tp_snapshot_of_def Let_def)
  moreover have "?new \<in> set (tp_plans db')" unfolding db' by simp
  ultimately show ?thesis using new by blast
qed

text \<open>
  A plan key stands for one plan for good. When a request with a plan key was answered with a
  plan, then after any further transactions the same request is answered with that plan,
  marked as reused, and writes nothing, whatever has become of the plan since.
\<close>

theorem tp_plan_key_stands:
  assumes inv: "tp_inv db" and keys: "compiled_keys_ok (tq_plan req)"
    and run: "tp_create now uuid uuids req db = (Inr ((sn, reused), db0) :: 'e tp_error + (tp_snapshot \<times> bool) \<times> tp_db)"
    and key: "py_strip (or_text (tq_key req) []) \<noteq> []"
  shows "\<exists>r. tbl_get tp_id (tp_id (sn_plan sn)) (tp_plans (run tp_exec ops db0)) = Some r \<and>
    tp_create now' uuid' uuids' req (run (tp_exec :: 'e tp_op \<Rightarrow> _) ops db0) =
      (Inr ((tp_snapshot_of (run tp_exec ops db0) r, True), run tp_exec ops db0) :: 'e tp_error + (tp_snapshot \<times> bool) \<times> tp_db)"
proof -
  let ?db = "run (tp_exec :: 'e tp_op \<Rightarrow> _) ops db0" and ?k = "py_strip (or_text (tq_key req) [])"
  have inv0: "tp_inv db0" using tp_create_inv[OF inv keys run] by blast
  from tp_create_store[OF run] key obtain user task source goal h where
    st: "\<And>now uuid uuids db. tp_create now uuid uuids req db =
      (tp_store now uuid uuids user task source goal h (Some ?k) req db :: 'e tp_error + (tp_snapshot \<times> bool) \<times> tp_db)"
    by auto
  from tp_store_keyed[OF run[unfolded st]] obtain r0 where r0: "r0 \<in> set (tp_plans db0)" "tp_user r0 = user" "tp_task r0 = task"
    "tp_key r0 = Some ?k" "tp_hash r0 = h" "sn_plan sn = r0" by blast
  have "tp_status db0 (tp_id r0) = Some (tp_view_of r0 (own_steps db0 r0))"
    using tp_inv_get[OF inv0 r0(1)] by (simp add: tp_status_def)
  from tp_ledger.status_run[OF inv0 this, of ops] obtain r where r: "tbl_get tp_id (tp_id r0) (tp_plans ?db) = Some r"
    and c: "tp_contract r = tp_contract r0"
    by (auto simp: tp_status_def tp_view_of_def dest!: tp_edge_contract)
  have cols: "tp_user r = user" "tp_task r = task" "tp_key r = Some ?k" "tp_hash r = h"
    using c r0 by (simp_all add: tp_contract_def)
  have mem: "r \<in> set (tp_plans ?db)" using tbl_get_mem[OF r] by simp
  have inv1: "tp_inv ?db" by (rule tp_ledger.inv_run[OF inv0])
  have "List.find (\<lambda>r. tp_user r = user \<and> tp_task r = task \<and> tp_key r = Some ?k) (tp_plans ?db) \<noteq> None"
    using mem cols unfolding find_None_iff by blast
  then obtain q where q: "List.find (\<lambda>r. tp_user r = user \<and> tp_task r = task \<and> tp_key r = Some ?k) (tp_plans ?db) = Some q" by blast
  have qm: "q \<in> set (tp_plans ?db)" "tp_keyed q r" using find_Some_mem[OF q] cols by (simp_all add: tp_keyed_def)
  have "tp_id q = tp_id r" using inv1 qm mem unfolding tp_inv_def tp_exclusive_def by blast
  then have "q = r" by (rule tp_plan_unique[OF inv1 qm(1) mem])
  then have "tp_create now' uuid' uuids' req ?db = (Inr ((tp_snapshot_of ?db r, True), ?db) :: 'e tp_error + (tp_snapshot \<times> bool) \<times> tp_db)"
    unfolding st tp_store_def using q cols by simp
  then show ?thesis using r r0(6) by blast
qed

end
