(* ===== verification/Planning.thy ===== *)
theory Planning
  imports InputValidation
begin

text \<open>
  What planning knows of the things a plan can call: the capability registry of
  \<open>agentbridge/core/capability.py\<close>, the part of a transform's registration that planning reads
  (\<open>agentbridge/core/transforms.py\<close>) and the planning descriptors of
  \<open>agentbridge/core/planning_policy.py\<close>, with the members the code looks at.
\<close>

section \<open>Capabilities\<close>

record cap_spec =
  cap_name :: string
  cap_version :: string
  cap_description :: string
  cap_input :: schema
  cap_output :: schema
  cap_effect :: string
  cap_adapter :: string
  cap_workflow :: string

datatype cap_error = CapValueError | CapKeyError

definition lower_letter :: "char \<Rightarrow> bool" where
  "lower_letter c = (let n = of_char c :: nat in 97 \<le> n \<and> n \<le> 122)"

definition name_part_ok :: "string \<Rightarrow> bool" where
  "name_part_ok part = (case part of [] \<Rightarrow> False
     | c # cs \<Rightarrow> lower_letter c \<and>
         list_all (\<lambda>d. lower_letter d \<or> is_digit_char d \<or> d = CHR ''_'' \<or> d = CHR ''-'') cs)"

text \<open>\<open>[a-z][a-z0-9_-]*(?:\.[a-z][a-z0-9_-]*)+\<close>, matched in full.\<close>

definition capability_name_ok :: "string \<Rightarrow> bool" where
  "capability_name_ok name =
     (let parts = split_char (CHR ''.'') name in 2 \<le> length parts \<and> list_all name_part_ok parts)"

definition version_number_ok :: "string \<Rightarrow> bool" where
  "version_number_ok part = (part \<noteq> [] \<and> list_all is_digit_char part \<and> (part = ''0'' \<or> hd part \<noteq> CHR ''0''))"

definition semver_ok :: "string \<Rightarrow> bool" where
  "semver_ok v = (let parts = split_char (CHR ''.'') v in length parts = 3 \<and> list_all version_number_ok parts)"

text \<open>\<open>__post_init__\<close>; that the schemas are objects is their type here.\<close>

definition cap_make :: "cap_spec \<Rightarrow> cap_error + cap_spec" where
  "cap_make spec =
     (if \<not> capability_name_ok (cap_name spec) then Inl CapValueError
      else if \<not> semver_ok (cap_version spec) then Inl CapValueError
      else if cap_effect spec \<notin> {''read'', ''reversible_write'', ''controlled_write''} then Inl CapValueError
      else if cap_adapter spec = [] \<or> cap_workflow spec = [] then Inl CapValueError
      else Inr spec)"

definition cap_system :: "cap_spec \<Rightarrow> string" where
  "cap_system spec = hd (split_char (CHR ''.'') (cap_name spec))"

type_synonym registry = "(string \<times> cap_spec) list"

definition registry_register :: "cap_spec \<Rightarrow> registry \<Rightarrow> cap_error + registry" where
  "registry_register spec reg =
     (case map_of reg (cap_name spec) of
        Some existing \<Rightarrow> if existing \<noteq> spec then Inl CapValueError
          else Inr (AList.update (cap_name spec) spec reg)
      | None \<Rightarrow> Inr (AList.update (cap_name spec) spec reg))"

definition registry_get :: "string \<Rightarrow> registry \<Rightarrow> cap_error + cap_spec" where
  "registry_get name reg = (case map_of reg name of None \<Rightarrow> Inl CapKeyError | Some s \<Rightarrow> Inr s)"

text \<open>Sorted by name and version; the names of a registry are distinct.\<close>

definition registry_list :: "string option \<Rightarrow> registry \<Rightarrow> cap_spec list" where
  "registry_list system reg =
     (let specs = map snd reg;
          chosen = (if filled system then filter (\<lambda>s. Some (cap_system s) = system) specs else specs)
      in sort_key cap_name (sort_key cap_version chosen))"

section \<open>Transforms\<close>

record transform_spec =
  tf_name :: string
  tf_description :: string
  tf_input :: schema
  tf_output :: schema
  tf_result_projection :: "string option"
  tf_required_bound :: "string list"

definition tf_version :: "transform_spec \<Rightarrow> string" where
  "tf_version spec = (case split_last ''.v'' (tf_name spec) of None \<Rightarrow> tf_name spec | Some (_, v) \<Rightarrow> v)"

type_synonym transforms = "(string \<times> transform_spec) list"

definition transform_get :: "string \<Rightarrow> transforms \<Rightarrow> cap_error + transform_spec" where
  "transform_get name ts = (case map_of ts name of None \<Rightarrow> Inl CapKeyError | Some s \<Rightarrow> Inr s)"

section \<open>Planning descriptors\<close>

record descriptor =
  pd_tool :: "string option"
  pd_roles :: "string list"
  pd_dates :: "string list"
  pd_date_basis :: string
  pd_provenance :: "(string \<times> string) list"

definition descriptors :: "(string \<times> descriptor) list" where
  "descriptors =
    [(''oa.workflow.pending.list'',
       \<lparr>pd_tool = None, pd_roles = [''selector''], pd_dates = [], pd_date_basis = [], pd_provenance = []\<rparr>),
     (''oa.workflow.done.list'',
       \<lparr>pd_tool = Some ''oa_workflow_done_list'', pd_roles = [''business_source''],
        pd_dates = [''start_date'', ''end_date''], pd_date_basis = ''processed_at'', pd_provenance = []\<rparr>),
     (''oa.workflow.sent.list'',
       \<lparr>pd_tool = Some ''oa_workflow_sent_list'', pd_roles = [''business_source''],
        pd_dates = [''start_date'', ''end_date''], pd_date_basis = ''initiated_at'', pd_provenance = []\<rparr>),
     (''taihua.work_log.create.prepare'',
       \<lparr>pd_tool = Some ''taihua_work_log_create_prepare'', pd_roles = [''write_sink''],
        pd_dates = [], pd_date_basis = [],
        pd_provenance = [(''content'', ''user_or_bound_transform''), (''hours'', ''user_decision''),
          (''log_date'', ''user_constraint''), (''project'', ''user_decision'')]\<rparr>)]"

definition planning_descriptor :: "string \<Rightarrow> descriptor option" where
  "planning_descriptor name = map_of descriptors name"

definition planning_role :: "string \<Rightarrow> string option" where
  "planning_role name = (case planning_descriptor name of None \<Rightarrow> None
     | Some d \<Rightarrow> (case pd_roles d of [] \<Rightarrow> None | r # _ \<Rightarrow> Some r))"

definition planning_capability_for_tool :: "string option \<Rightarrow> string option" where
  "planning_capability_for_tool tool =
     map_option fst (List.find (\<lambda>(n, d). pd_tool d = tool \<and> filled tool) descriptors)"

section \<open>Lemmas\<close>

lemma lower_letter_not_dot: "lower_letter c \<Longrightarrow> c \<noteq> CHR ''.''"
  by (auto simp: lower_letter_def Let_def)

lemma registry_register_get:
  assumes "registry_register spec reg = Inr reg'"
  shows "registry_get (cap_name spec) reg' = Inr spec \<and>
    (\<forall>n. n \<noteq> cap_name spec \<longrightarrow> registry_get n reg' = registry_get n reg)"
  using assms
  by (auto simp: registry_register_def registry_get_def update_conv split: option.splits if_splits)

text \<open>What is registered stays: no later registration replaces the capability of a name.\<close>

lemma registry_stands:
  "registry_register spec reg = Inr reg' \<Longrightarrow> registry_get n reg = Inr s \<Longrightarrow> registry_get n reg' = Inr s"
  by (auto simp: registry_register_def registry_get_def update_conv split: option.splits if_splits)

end
