(* ===== verification/PlanValidation.thy ===== *)
theory PlanValidation
  imports Planning TaskPlans
begin

text \<open>
  The compiler of plan proposals, \<open>agentbridge/core/task_plan_validation.py\<close>: a proposal that a
  model wrote is checked step by step, its steps are put in dependency order, the bindings between
  steps are checked against the schemas, and the compiled plan that the plan store accepts comes
  out. A rejection carries its code and the key of the step it is about; its message is not modelled.
\<close>

section \<open>Errors and texts\<close>

text \<open>
  \<open>PlanError\<close> is \<open>PlanValidationError\<close>. The others are the exceptions of Python itself:
  a list or an object tested for membership in a set, a missing key of a dictionary, \<open>int()\<close> of
  a text that is not a number.
\<close>

datatype pv_error = PlanError string "string option" | PvTypeError | PvKeyError | PvValueError

abbreviation schema_invalid :: "string option \<Rightarrow> pv_error" where
  "schema_invalid \<equiv> PlanError ''PLAN_SCHEMA_INVALID''"

abbreviation binding_invalid :: "string option \<Rightarrow> pv_error" where
  "binding_invalid \<equiv> PlanError ''PLAN_BINDING_INVALID''"

definition pv_required_text :: "json \<Rightarrow> nat \<Rightarrow> pv_error + string" where
  "pv_required_text v maximum =
     (case v of
        JStr s \<Rightarrow>
          let t = py_strip s in
          if t = [] then Inl (schema_invalid None)
          else if length t > maximum then Inl (schema_invalid None) else Inr t
      | _ \<Rightarrow> Inl (schema_invalid None))"

definition step_key_ok :: "string \<Rightarrow> bool" where
  "step_key_ok key = (case key of [] \<Rightarrow> False
     | c # cs \<Rightarrow> lower_letter c \<and> length cs \<le> 63 \<and>
         list_all (\<lambda>d. lower_letter d \<or> is_digit_char d \<or> d = CHR ''_'') cs)"

text \<open>\<open>v in {...}\<close> hashes \<open>v\<close>; lists and objects have no hash.\<close>

definition in_texts :: "json \<Rightarrow> string list \<Rightarrow> pv_error + bool" where
  "in_texts v texts = (case v of JList _ \<Rightarrow> Inl PvTypeError | JDict _ \<Rightarrow> Inl PvTypeError
     | JStr s \<Rightarrow> Inr (s \<in> set texts) | _ \<Rightarrow> Inr False)"

definition only_keys :: "(string \<times> json) list \<Rightarrow> string list \<Rightarrow> bool" where
  "only_keys d allowed = list_all (\<lambda>k. k \<in> set allowed) (json_keys d)"

section \<open>JSON pointers\<close>

definition pointer_token :: "string \<Rightarrow> string" where
  "pointer_token encoded = replace_all ''~0'' ''~'' (replace_all ''~1'' ''/'' encoded)"

definition pointer_tokens :: "string \<Rightarrow> string list" where
  "pointer_tokens pointer = map pointer_token (tl (split_char (CHR ''/'') pointer))"

fun resolve_tokens :: "string list \<Rightarrow> json \<Rightarrow> pv_error + json" where
  "resolve_tokens [] v = Inr v"
| "resolve_tokens (t # ts) v =
     (case v of
        JDict d \<Rightarrow> (case map_of d t of None \<Rightarrow> Inl (binding_invalid None) | Some w \<Rightarrow> resolve_tokens ts w)
      | JList xs \<Rightarrow>
          if py_isdigit t then
            (case int_of_digits t of
               None \<Rightarrow> Inl PvValueError
             | Some i \<Rightarrow> if i \<ge> length xs then Inl (binding_invalid None) else resolve_tokens ts (xs ! i))
          else Inl (binding_invalid None)
      | _ \<Rightarrow> Inl (binding_invalid None))"

definition resolve_json_pointer :: "json \<Rightarrow> string \<Rightarrow> pv_error + json" where
  "resolve_json_pointer v pointer =
     (if pointer = [] then Inr v
      else if \<not> startswith pointer ''/'' then Inl (binding_invalid None)
      else resolve_tokens (pointer_tokens pointer) v)"

text \<open>The type that a schema declares at a pointer; \<open>None\<close> when it declares none.\<close>

fun schema_at_tokens :: "string list \<Rightarrow> schema \<Rightarrow> schema option" where
  "schema_at_tokens [] s = Some s"
| "schema_at_tokens (t # ts) s =
     (if sc_type s = Some (TName ''object'') \<or> sc_properties s \<noteq> None
      then (case map_of (properties_of s) t of None \<Rightarrow> None | Some p \<Rightarrow> schema_at_tokens ts p)
      else if sc_type s = Some (TName ''array'') \<and> py_isdigit t
      then (case sc_items s of None \<Rightarrow> None | Some p \<Rightarrow> schema_at_tokens ts p)
      else None)"

definition schema_type_at_pointer :: "schema \<Rightarrow> string \<Rightarrow> schema_type option" where
  "schema_type_at_pointer s pointer =
     (if pointer = [] then sc_type s
      else if \<not> startswith pointer ''/'' then None
      else (case schema_at_tokens (pointer_tokens pointer) s of None \<Rightarrow> None | Some p \<Rightarrow> sc_type p))"

definition property_schema :: "schema \<Rightarrow> string \<Rightarrow> schema" where
  "property_schema s name = (case map_of (properties_of s) name of None \<Rightarrow> any_schema | Some p \<Rightarrow> p)"

fun type_names :: "schema_type \<Rightarrow> string list" where
  "type_names (TName t) = [t]"
| "type_names (TAny ts) = ts"

definition types_compatible :: "schema_type \<Rightarrow> schema_type \<Rightarrow> bool" where
  "types_compatible source target \<longleftrightarrow>
     list_ex (\<lambda>t. t \<in> set (type_names target)) (type_names source) \<or>
     ''integer'' \<in> set (type_names source) \<and> ''number'' \<in> set (type_names target)"

section \<open>Bindings\<close>

record binding_ref =
  br_step :: string
  br_pointer :: string

text \<open>A binding of the first proposal version has no mode.\<close>

datatype binding = BPlain binding_ref | BSingle binding_ref | BMany "binding_ref list"

definition binding_references :: "binding \<Rightarrow> binding_ref list" where
  "binding_references b = (case b of BMany refs \<Rightarrow> refs | BPlain r \<Rightarrow> [r] | BSingle r \<Rightarrow> [r])"

definition normalize_binding_reference :: "(string \<times> json) list \<Rightarrow> string \<Rightarrow> pv_error + binding_ref" where
  "normalize_binding_reference raw key =
     ebind (pv_required_text (dget raw ''step'') 64) (\<lambda>source.
     case dget raw ''pointer'' of
       JStr p \<Rightarrow> if p \<noteq> [] \<and> \<not> startswith p ''/'' then Inl (binding_invalid (Some key))
                else Inr \<lparr>br_step = source, br_pointer = p\<rparr>
     | _ \<Rightarrow> Inl (binding_invalid (Some key)))"

definition normalize_binding_item :: "string \<Rightarrow> json \<Rightarrow> pv_error + binding_ref" where
  "normalize_binding_item key item =
     (case item of
        JDict d \<Rightarrow> if \<not> only_keys d [''step'', ''pointer''] then Inl (binding_invalid (Some key))
                  else normalize_binding_reference d key
      | _ \<Rightarrow> Inl (binding_invalid (Some key)))"

definition normalize_binding :: "string \<Rightarrow> string \<Rightarrow> string \<times> json \<Rightarrow> pv_error + (string \<times> binding)" where
  "normalize_binding key version entry =
     (case entry of (name, value) \<Rightarrow>
        if name = [] then Inl (binding_invalid (Some key))
        else (case value of
          JDict raw \<Rightarrow>
            if endswith version ''.v1'' then
              if \<not> only_keys raw [''step'', ''pointer''] \<or> ''mode'' \<in> set (json_keys raw)
              then Inl (binding_invalid (Some key))
              else ebind (normalize_binding_reference raw key) (\<lambda>r. Inr (name, BPlain r))
            else if dget raw ''mode'' = JStr ''single'' then
              if \<not> only_keys raw [''mode'', ''step'', ''pointer''] then Inl (binding_invalid (Some key))
              else ebind (normalize_binding_reference raw key) (\<lambda>r. Inr (name, BSingle r))
            else if dget raw ''mode'' \<noteq> JStr ''many'' \<or> \<not> only_keys raw [''mode'', ''items'']
            then Inl (binding_invalid (Some key))
            else (case dget raw ''items'' of
                JList items \<Rightarrow>
                  if items = [] \<or> length items > 8 then Inl (binding_invalid (Some key))
                  else ebind (mapE (normalize_binding_item key) items) (\<lambda>refs. Inr (name, BMany refs))
              | _ \<Rightarrow> Inl (binding_invalid (Some key)))
        | _ \<Rightarrow> Inl (binding_invalid (Some key))))"

definition normalize_bindings :: "json \<Rightarrow> string \<Rightarrow> string \<Rightarrow> pv_error + (string \<times> binding) list" where
  "normalize_bindings v key version =
     (case v of JDict d \<Rightarrow> mapE (normalize_binding key version) d | _ \<Rightarrow> Inl (schema_invalid (Some key)))"

section \<open>Constraints and static inputs\<close>

definition normalize_constraints :: "json \<Rightarrow> string \<Rightarrow> pv_error + (string \<times> json) list" where
  "normalize_constraints v version =
     (if endswith version ''.v1'' then (if v \<noteq> JNull then Inl (schema_invalid None) else Inr [])
      else if v = JNull then Inr []
      else (case v of
        JDict c \<Rightarrow>
          if \<not> only_keys c [''temporal''] then Inl (schema_invalid None)
          else if dget c ''temporal'' = JNull then Inr []
          else (case dget c ''temporal'' of
            JDict t \<Rightarrow>
              if \<not> only_keys t [''kind'', ''start'', ''end''] then Inl (schema_invalid None)
              else ebind (in_texts (dget t ''kind'')
                  [''previous_day'', ''day_before_yesterday'', ''previous_calendar_week'', ''absolute_range'']) (\<lambda>known.
              if \<not> known then Inl (schema_invalid None)
              else if dget t ''kind'' \<noteq> JStr ''absolute_range'' \<and> (dget t ''start'' \<noteq> JNull \<or> dget t ''end'' \<noteq> JNull)
              then Inl (schema_invalid None)
              else if dget t ''kind'' = JStr ''absolute_range'' \<and> \<not> truthy (dget t ''start'') then Inl (schema_invalid None)
              else if dget t ''kind'' = JStr ''absolute_range'' \<and> \<not> truthy (dget t ''end'') then Inl (schema_invalid None)
              else Inr [(''temporal'', JDict t)])
          | _ \<Rightarrow> Inl (schema_invalid None))
      | _ \<Rightarrow> Inl (schema_invalid None)))"

definition raise_input_issue :: "schema_issue \<Rightarrow> string \<Rightarrow> pv_error" where
  "raise_input_issue issue key =
     (if si_kind issue = Overlap then binding_invalid (Some key) else schema_invalid (Some key))"

definition validate_partial_input ::
  "(string \<times> json) list \<Rightarrow> string list \<Rightarrow> schema \<Rightarrow> string \<Rightarrow> pv_error + unit" where
  "validate_partial_input arguments bound s key =
     (case sc_type s of
        Some (TAny _) \<Rightarrow> Inl PvTypeError
      | t \<Rightarrow>
        if t \<notin> {None, Some (TName ''object'')} then Inl (PlanError ''PLAN_SCHEMA_INCOMPATIBLE'' (Some key))
        else (case object_input_issue PlanProfile bound s arguments of
                None \<Rightarrow> Inr () | Some issue \<Rightarrow> Inl (raise_input_issue issue key)))"

definition validate_runtime_arguments :: "(string \<times> json) list \<Rightarrow> schema \<Rightarrow> string \<Rightarrow> pv_error + unit" where
  "validate_runtime_arguments arguments s key = validate_partial_input arguments [] s key"

section \<open>Steps\<close>

record planning =
  pl_registry :: registry
  pl_transforms :: transforms
  pl_prepares :: "string list"
  pl_hidden :: "string list"
  pl_scopes :: "string \<Rightarrow> string list"
  pl_granted :: "string list option"
  pl_temporal :: json
  pl_env :: py_env

record pv_step =
  vs_key :: string
  vs_kind :: string
  vs_capability :: "string option"
  vs_transform :: "string option"
  vs_version :: string
  vs_title :: string
  vs_depends :: "string list"
  vs_arguments :: "(string \<times> json) list"
  vs_bindings :: "(string \<times> binding) list"
  vs_effect :: string
  vs_system :: string
  vs_input :: schema
  vs_output :: schema

text \<open>What the branch for the kind of the step contributes.\<close>

record step_target =
  st_capability :: "string option"
  st_transform :: "string option"
  st_input :: schema
  st_output :: schema
  st_effect :: string
  st_system :: string
  st_title :: string
  st_version :: string

definition capability_target :: "planning \<Rightarrow> (string \<times> json) list \<Rightarrow> string \<Rightarrow> pv_error + step_target" where
  "capability_target pl raw key =
     ebind (pv_required_text (dget raw ''capabilityName'') 160) (\<lambda>name.
     if dget raw ''transformName'' \<noteq> JNull then Inl (schema_invalid (Some key))
     else if name \<in> set (pl_hidden pl) then Inl (PlanError ''PLAN_CAPABILITY_NOT_ALLOWED'' (Some key))
     else (case registry_get name (pl_registry pl) of
        Inl _ \<Rightarrow> Inl (PlanError ''PLAN_CAPABILITY_NOT_ALLOWED'' (Some key))
      | Inr spec \<Rightarrow>
          if cap_effect spec \<noteq> ''read'' \<and> name \<notin> set (pl_prepares pl)
          then Inl (PlanError ''PLAN_CAPABILITY_NOT_ALLOWED'' (Some key))
          else Inr \<lparr>st_capability = Some name, st_transform = None, st_input = cap_input spec,
                    st_output = cap_output spec, st_effect = cap_effect spec, st_system = cap_system spec,
                    st_title = cap_description spec, st_version = cap_version spec\<rparr>))"

definition transform_target ::
  "planning \<Rightarrow> (string \<times> json) list \<Rightarrow> string \<Rightarrow> (string \<times> binding) list \<Rightarrow> pv_error + step_target" where
  "transform_target pl raw key bindings =
     ebind (pv_required_text (dget raw ''transformName'') 160) (\<lambda>name.
     if dget raw ''capabilityName'' \<noteq> JNull then Inl (schema_invalid (Some key))
     else (case transform_get name (pl_transforms pl) of
        Inl _ \<Rightarrow> Inl (PlanError ''PLAN_TRANSFORM_NOT_ALLOWED'' (Some key))
      | Inr spec \<Rightarrow>
          if list_ex (\<lambda>f. f \<notin> fst ` set bindings) (tf_required_bound spec)
          then Inl (PlanError ''PLAN_PROVENANCE_REQUIRED'' (Some key))
          else Inr \<lparr>st_capability = None, st_transform = Some name, st_input = tf_input spec,
                    st_output = tf_output spec, st_effect = ''read'', st_system = ''agentbridge'',
                    st_title = tf_description spec, st_version = tf_version spec\<rparr>))"

definition depends_texts :: "json \<Rightarrow> string \<Rightarrow> pv_error + string list" where
  "depends_texts v key =
     (if \<not> truthy v then Inr []
      else (case v of
        JList xs \<Rightarrow>
          if list_ex (\<lambda>x. case x of JStr s \<Rightarrow> is_blank s | _ \<Rightarrow> True) xs then Inl (schema_invalid (Some key))
          else Inr (py_fromkeys (map (\<lambda>x. case x of JStr s \<Rightarrow> py_strip s | _ \<Rightarrow> []) xs))
      | _ \<Rightarrow> Inl (schema_invalid (Some key))))"

definition object_or_empty :: "json \<Rightarrow> string \<Rightarrow> pv_error + (string \<times> json) list" where
  "object_or_empty v key =
     (if \<not> truthy v then Inr [] else (case v of JDict d \<Rightarrow> Inr d | _ \<Rightarrow> Inl (schema_invalid (Some key))))"

definition normalized_step ::
  "string \<Rightarrow> json \<Rightarrow> string list \<Rightarrow> (string \<times> json) list \<Rightarrow> (string \<times> binding) list \<Rightarrow> step_target \<Rightarrow> pv_step" where
  "normalized_step key kind depends arguments bindings target =
     \<lparr>vs_key = key, vs_kind = (if kind = JStr ''capability'' then ''capability'' else ''transform''),
      vs_capability = st_capability target, vs_transform = st_transform target,
      vs_version = st_version target, vs_title = take 240 (st_title target),
      vs_depends = depends, vs_arguments = arguments, vs_bindings = bindings,
      vs_effect = st_effect target, vs_system = st_system target,
      vs_input = st_input target, vs_output = st_output target\<rparr>"

definition normalize_step :: "planning \<Rightarrow> string \<Rightarrow> string list \<Rightarrow> json \<Rightarrow> pv_error + pv_step" where
  "normalize_step pl version seen raw_step =
     (case raw_step of
        JDict raw \<Rightarrow>
          if \<not> only_keys raw [''stepKey'', ''kind'', ''capabilityName'', ''transformName'', ''dependsOn'',
                ''arguments'', ''bindings''] then Inl (schema_invalid None)
          else ebind (pv_required_text (dget raw ''stepKey'') 64) (\<lambda>key.
          if \<not> step_key_ok key then Inl (schema_invalid (Some key))
          else if key \<in> set seen then Inl (PlanError ''PLAN_DUPLICATE_STEP_KEY'' (Some key))
          else ebind (in_texts (dget raw ''kind'') [''capability'', ''transform'']) (\<lambda>known.
          if \<not> known then Inl (PlanError ''PLAN_STEP_KIND_NOT_ALLOWED'' (Some key))
          else ebind (depends_texts (dget raw ''dependsOn'') key) (\<lambda>depends.
          ebind (object_or_empty (dget raw ''arguments'') key) (\<lambda>arguments.
          ebind (normalize_bindings (if truthy (dget raw ''bindings'') then dget raw ''bindings'' else JDict [])
             key version) (\<lambda>bindings.
          ebind (if dget raw ''kind'' = JStr ''capability'' then capability_target pl raw key
                 else transform_target pl raw key bindings) (\<lambda>target.
          ebind (validate_partial_input arguments (map fst bindings) (st_input target) key) (\<lambda>_.
          Inr (normalized_step key (dget raw ''kind'') depends arguments bindings target))))))))
      | _ \<Rightarrow> Inl (schema_invalid None))"

fun normalize_steps :: "planning \<Rightarrow> string \<Rightarrow> pv_step list \<Rightarrow> json list \<Rightarrow> pv_error + pv_step list" where
  "normalize_steps pl version done [] = Inr done"
| "normalize_steps pl version done (raw # raws) =
     ebind (normalize_step pl version (map vs_key done) raw) (\<lambda>s. normalize_steps pl version (done @ [s]) raws)"

text \<open>The steps that prepare a write, and the scopes that the capabilities ask for.\<close>

definition write_steps :: "planning \<Rightarrow> pv_step list \<Rightarrow> string list" where
  "write_steps pl steps = map vs_key (filter (\<lambda>s. case vs_capability s of None \<Rightarrow> False
     | Some c \<Rightarrow> c \<in> set (pl_prepares pl)) steps)"

definition required_scopes :: "planning \<Rightarrow> pv_step list \<Rightarrow> string list" where
  "required_scopes pl steps =
     sorted_set (concat (map (\<lambda>s. case vs_capability s of None \<Rightarrow> [] | Some c \<Rightarrow> pl_scopes pl c) steps))"

section \<open>Dependency order\<close>

text \<open>\<open>dict[key]\<close> on the normalized steps.\<close>

definition step_at :: "pv_step list \<Rightarrow> string \<Rightarrow> pv_error + pv_step" where
  "step_at steps key = (case tbl_get vs_key key steps of None \<Rightarrow> Inl PvKeyError | Some s \<Rightarrow> Inr s)"

definition check_depends :: "string list \<Rightarrow> pv_step \<Rightarrow> pv_error + unit" where
  "check_depends keys s =
     (if list_ex (\<lambda>d. d \<notin> set keys) (vs_depends s) then Inl (PlanError ''PLAN_DEPENDENCY_MISSING'' (Some (vs_key s)))
      else if vs_key s \<in> set (vs_depends s) then Inl (PlanError ''PLAN_CYCLE_DETECTED'' (Some (vs_key s)))
      else Inr ())"

text \<open>
  \<open>remaining\<close> holds the steps not yet placed with what they still wait for. A round places, in
  the order of the proposal, the steps that wait for nothing.
\<close>

definition ready_keys :: "(string \<Rightarrow> nat) \<Rightarrow> (string \<times> string list) list \<Rightarrow> string list" where
  "ready_keys source_order remaining =
     sort_key source_order (map fst (filter (\<lambda>(k, ds). ds = []) remaining))"

definition place_ready :: "string list \<Rightarrow> (string \<times> string list) list \<Rightarrow> (string \<times> string list) list" where
  "place_ready ready remaining =
     map (\<lambda>(k, ds). (k, filter (\<lambda>d. d \<notin> set ready) ds)) (filter (\<lambda>(k, ds). k \<notin> set ready) remaining)"

lemma place_ready_shorter:
  assumes "ready_keys source_order remaining \<noteq> []"
  shows "length (place_ready (ready_keys source_order remaining) remaining) < length remaining"
proof -
  obtain k where k: "k \<in> set (ready_keys source_order remaining)" using assms by (cases "ready_keys source_order remaining") auto
  then obtain ds where "(k, ds) \<in> set remaining" by (auto simp: ready_keys_def)
  then have "length (filter (\<lambda>(k, ds). k \<notin> set (ready_keys source_order remaining)) remaining) < length remaining"
    using k by (intro length_filter_less) auto
  then show ?thesis by (simp add: place_ready_def)
qed

function place_all :: "(string \<Rightarrow> nat) \<Rightarrow> (string \<times> string list) list \<Rightarrow> pv_error + string list" where
  "place_all source_order remaining =
     (if remaining = [] then Inr []
      else if ready_keys source_order remaining = [] then Inl (PlanError ''PLAN_CYCLE_DETECTED'' None)
      else ebind (place_all source_order (place_ready (ready_keys source_order remaining) remaining))
             (\<lambda>rest. Inr (ready_keys source_order remaining @ rest)))"
  by pat_completeness auto
termination
  by (relation "measure (\<lambda>(f, remaining). length remaining)") (auto simp: place_ready_shorter)

declare place_all.simps [simp del]

definition source_position :: "pv_step list \<Rightarrow> string \<Rightarrow> nat" where
  "source_position steps key = get_default 0 (zip (map vs_key steps) [1..<Suc (length steps)]) key"

definition topological_order :: "pv_step list \<Rightarrow> pv_error + string list" where
  "topological_order steps =
     ebind (forE (check_depends (map vs_key steps)) steps) (\<lambda>_.
     place_all (source_position steps) (map (\<lambda>s. (vs_key s, vs_depends s)) steps))"

text \<open>The ancestors of the steps, computed along the order.\<close>

definition ancestors_of_step ::
  "pv_step list \<Rightarrow> (string \<times> string list) list \<Rightarrow> string \<Rightarrow> pv_error + string list" where
  "ancestors_of_step steps result key =
     ebind (step_at steps key) (\<lambda>s.
     foldE (\<lambda>d acc. case map_of result d of None \<Rightarrow> Inl PvKeyError | Some up \<Rightarrow> Inr (acc @ d # up)) (vs_depends s) [])"

definition dependency_ancestors :: "pv_step list \<Rightarrow> string list \<Rightarrow> pv_error + (string \<times> string list) list" where
  "dependency_ancestors steps ordered =
     foldE (\<lambda>key result. ebind (ancestors_of_step steps result key) (\<lambda>up. Inr (result @ [(key, up)]))) ordered []"

section \<open>Bindings between steps\<close>

definition check_reference ::
  "pv_step list \<Rightarrow> string list \<Rightarrow> string \<Rightarrow> schema_type option \<Rightarrow> binding_ref \<Rightarrow> pv_error + unit" where
  "check_reference steps ancestors key target_type ref =
     (case tbl_get vs_key (br_step ref) steps of
        None \<Rightarrow> Inl (binding_invalid (Some key))
      | Some source \<Rightarrow>
          if br_step ref \<notin> set ancestors then Inl (binding_invalid (Some key))
          else (case (schema_type_at_pointer (vs_output source) (br_pointer ref), target_type) of
              (Some st, Some tt) \<Rightarrow>
                if types_compatible st tt then Inr () else Inl (PlanError ''PLAN_SCHEMA_INCOMPATIBLE'' (Some key))
            | _ \<Rightarrow> Inl (PlanError ''PLAN_SCHEMA_INCOMPATIBLE'' (Some key))))"

definition binding_target_type :: "schema \<Rightarrow> string \<Rightarrow> binding \<Rightarrow> schema_type option" where
  "binding_target_type input name b =
     (case b of
        BMany _ \<Rightarrow> (case sc_items (property_schema input name) of None \<Rightarrow> None | Some i \<Rightarrow> sc_type i)
      | _ \<Rightarrow> sc_type (property_schema input name))"

definition check_binding :: "pv_step list \<Rightarrow> string list \<Rightarrow> pv_step \<Rightarrow> string \<times> binding \<Rightarrow> pv_error + unit" where
  "check_binding steps ancestors s entry =
     (case entry of (name, b) \<Rightarrow>
        ebind (raise_if ((case b of BMany _ \<Rightarrow> True | _ \<Rightarrow> False) \<and>
             sc_type (property_schema (vs_input s) name) \<noteq> Some (TName ''array''))
           (PlanError ''PLAN_SCHEMA_INCOMPATIBLE'' (Some (vs_key s)))) (\<lambda>_.
        forE (check_reference steps ancestors (vs_key s) (binding_target_type (vs_input s) name b))
          (binding_references b)))"

definition check_step_bindings ::
  "pv_step list \<Rightarrow> (string \<times> string list) list \<Rightarrow> string \<Rightarrow> pv_error + unit" where
  "check_step_bindings steps ancestors key =
     ebind (step_at steps key) (\<lambda>s.
     forE (\<lambda>entry. case map_of ancestors key of
             None \<Rightarrow> Inl PvKeyError | Some up \<Rightarrow> check_binding steps up s entry) (vs_bindings s))"

section \<open>Provenance\<close>

definition is_business_source :: "pv_step \<Rightarrow> bool" where
  "is_business_source s \<longleftrightarrow> vs_kind s = ''capability'' \<and>
     (case planning_descriptor (or_text (vs_capability s) []) of
        None \<Rightarrow> False | Some d \<Rightarrow> ''business_source'' \<in> set (pd_roles d))"

definition descriptor_dates :: "pv_step \<Rightarrow> string list" where
  "descriptor_dates s = (case planning_descriptor (or_text (vs_capability s) []) of None \<Rightarrow> [] | Some d \<Rightarrow> pd_dates d)"

definition has_temporal :: "(string \<times> json) list \<Rightarrow> bool" where
  "has_temporal constraints = (case dget constraints ''temporal'' of JDict _ \<Rightarrow> True | _ \<Rightarrow> False)"

text \<open>The business sources that reach a step through bindings.\<close>

definition step_lineage :: "(string \<times> string list) list \<Rightarrow> pv_step \<Rightarrow> string list" where
  "step_lineage lineage s =
     (if is_business_source s then [vs_key s] else []) @
     concat (map (\<lambda>r. get_default [] lineage (br_step r)) (concat (map (binding_references \<circ> snd) (vs_bindings s))))"

definition lineage_of :: "pv_step list \<Rightarrow> string list \<Rightarrow> pv_error + (string \<times> string list) list" where
  "lineage_of steps ordered =
     foldE (\<lambda>key lineage. ebind (step_at steps key) (\<lambda>s. Inr (lineage @ [(key, step_lineage lineage s)]))) ordered []"

definition projection_of :: "planning \<Rightarrow> pv_step \<Rightarrow> pv_error + string option" where
  "projection_of pl s = (case transform_get (or_text (vs_transform s) []) (pl_transforms pl) of
     Inl _ \<Rightarrow> Inl PvKeyError | Inr t \<Rightarrow> Inr (tf_result_projection t))"

definition check_draft_reference :: "planning \<Rightarrow> pv_step list \<Rightarrow> string \<Rightarrow> binding_ref \<Rightarrow> pv_error + unit" where
  "check_draft_reference pl steps sink_key ref =
     ebind (step_at steps (br_step ref)) (\<lambda>source.
     if vs_kind source \<noteq> ''transform'' then Inl (PlanError ''PLAN_PROVENANCE_REQUIRED'' (Some sink_key))
     else ebind (projection_of pl source) (\<lambda>p.
     if p \<noteq> Some ''private_draft'' then Inl (PlanError ''PLAN_PROVENANCE_REQUIRED'' (Some sink_key)) else Inr ()))"

definition check_sink_field :: "planning \<Rightarrow> pv_step list \<Rightarrow> pv_step \<Rightarrow> string \<times> string \<Rightarrow> pv_error + unit" where
  "check_sink_field pl steps sink field =
     (case field of (name, rule) \<Rightarrow>
        if rule \<noteq> ''user_or_bound_transform'' then Inr ()
        else (case map_of (vs_bindings sink) name of
            None \<Rightarrow> Inl (PlanError ''PLAN_PROVENANCE_REQUIRED'' (Some (vs_key sink)))
          | Some b \<Rightarrow> forE (check_draft_reference pl steps (vs_key sink)) (binding_references b)))"

definition check_sources_reach :: "pv_step list \<Rightarrow> (string \<times> string list) list \<Rightarrow> string \<Rightarrow> pv_error + unit" where
  "check_sources_reach steps lineage terminal =
     raise_if (list_ex (\<lambda>s. is_business_source s \<and> vs_key s \<notin> set (get_default [] lineage terminal)) steps)
       (PlanError ''PLAN_PROVENANCE_INCOMPLETE'' (Some terminal))"

definition validate_v2_provenance ::
  "planning \<Rightarrow> pv_step list \<Rightarrow> string list \<Rightarrow> (string \<times> json) list \<Rightarrow> pv_error + unit" where
  "validate_v2_provenance pl steps ordered constraints =
     ebind (raise_if (\<not> list_ex is_business_source steps) (PlanError ''PLAN_NOT_COMPOSED'' None)) (\<lambda>_.
     ebind (forE (\<lambda>s. raise_if (descriptor_dates s \<noteq> [] \<and> \<not> has_temporal constraints)
                  (PlanError ''PLAN_TEMPORAL_CONSTRAINT_REQUIRED'' (Some (vs_key s))))
              (sort_key vs_key (filter is_business_source steps))) (\<lambda>_.
     ebind (lineage_of steps ordered) (\<lambda>lineage.
     let terminal_key = last ordered in
     (case write_steps pl steps of
        [] \<Rightarrow>
          ebind (check_sources_reach steps lineage terminal_key) (\<lambda>_.
          ebind (step_at steps terminal_key) (\<lambda>terminal.
          if vs_kind terminal \<noteq> ''transform'' then Inl (PlanError ''PLAN_RESULT_PROJECTION_REQUIRED'' (Some terminal_key))
          else ebind (projection_of pl terminal) (\<lambda>p.
          raise_if (\<not> filled p) (PlanError ''PLAN_RESULT_PROJECTION_REQUIRED'' (Some terminal_key)))))
      | sink_key # _ \<Rightarrow>
          ebind (step_at steps sink_key) (\<lambda>sink.
          ebind (forE (check_sink_field pl steps sink)
             (case planning_descriptor (or_text (vs_capability sink) []) of None \<Rightarrow> [] | Some d \<Rightarrow> pd_provenance d)) (\<lambda>_.
          check_sources_reach steps lineage terminal_key))))))"

section \<open>Compiling\<close>

fun binding_json :: "binding \<Rightarrow> json" where
  "binding_json (BPlain r) = JDict [(''step'', JStr (br_step r)), (''pointer'', JStr (br_pointer r))]"
| "binding_json (BSingle r) =
     JDict [(''mode'', JStr ''single''), (''step'', JStr (br_step r)), (''pointer'', JStr (br_pointer r))]"
| "binding_json (BMany rs) = JDict [(''mode'', JStr ''many''),
     (''items'', JList (map (\<lambda>r. JDict [(''step'', JStr (br_step r)), (''pointer'', JStr (br_pointer r))]) rs))]"

definition text_or_null :: "string option \<Rightarrow> json" where
  "text_or_null v = (case v of None \<Rightarrow> JNull | Some s \<Rightarrow> JStr s)"

definition compile_step :: "nat \<Rightarrow> pv_step \<Rightarrow> compiled_step" where
  "compile_step ordinal s =
     \<lparr>cs_key = vs_key s, cs_ordinal = int ordinal, cs_kind = vs_kind s, cs_title = Some (vs_title s),
      cs_capability = vs_capability s, cs_transform = vs_transform s, cs_version = Some (vs_version s),
      cs_depends = vs_depends s, cs_arguments = JDict (vs_arguments s),
      cs_bindings = JDict (map (\<lambda>(n, b). (n, binding_json b)) (vs_bindings s)),
      cs_effect = vs_effect s, cs_system = vs_system s\<rparr>"

definition compile_steps :: "pv_step list \<Rightarrow> compiled_step list" where
  "compile_steps ordered_steps = map (\<lambda>(n, s). compile_step n s) (enumerate 1 ordered_steps)"

definition compiled_step_json :: "compiled_step \<Rightarrow> json" where
  "compiled_step_json s = JDict
     [(''stepKey'', JStr (cs_key s)), (''kind'', JStr (cs_kind s)),
      (''capabilityName'', text_or_null (cs_capability s)), (''transformName'', text_or_null (cs_transform s)),
      (''version'', text_or_null (cs_version s)), (''title'', text_or_null (cs_title s)),
      (''dependsOn'', JList (map JStr (cs_depends s))), (''arguments'', cs_arguments s),
      (''bindings'', cs_bindings s), (''effect'', JStr (cs_effect s)), (''systemId'', JStr (cs_system s)),
      (''ordinal'', JInt (cs_ordinal s))]"

definition hash_input ::
  "planning \<Rightarrow> string \<Rightarrow> string \<Rightarrow> (string \<times> json) list \<Rightarrow> compiled_step list \<Rightarrow> string list \<Rightarrow> json" where
  "hash_input pl version goal constraints steps scopes = JDict
     [(''schemaVersion'', JStr (if endswith version ''.v2'' then ''agentbridge.task-plan.compiled.v2''
                               else ''agentbridge.task-plan.compiled.v1'')),
      (''proposalSchemaVersion'', JStr version), (''goal'', JStr goal), (''constraints'', JDict constraints),
      (''temporalContext'', pl_temporal pl), (''steps'', JList (map compiled_step_json steps)),
      (''requiredScopes'', JList (map JStr scopes))]"

definition risk_summary :: "planning \<Rightarrow> pv_step list \<Rightarrow> compiled_step list \<Rightarrow> json" where
  "risk_summary pl steps compiled = JDict
     [(''systems'', JList (map JStr (sorted_set (filter (\<lambda>x. x \<noteq> ''agentbridge'') (map cs_system compiled))))),
      (''requiredScopes'', JList (map JStr (required_scopes pl steps))),
      (''writeSinkCount'', JInt (int (length (write_steps pl steps)))),
      (''writeSinkStepKey'', (case write_steps pl steps of [] \<Rightarrow> JNull | k # _ \<Rightarrow> JStr k)),
      (''writeSinkCapability'', (case write_steps pl steps of [] \<Rightarrow> JNull
         | k # _ \<Rightarrow> (case tbl_get vs_key k steps of None \<Rightarrow> JNull | Some s \<Rightarrow> text_or_null (vs_capability s))))]"

text \<open>The parts of the proposal that are checked before its steps.\<close>

definition proposal_head ::
  "json \<Rightarrow> pv_error + (string \<times> (string \<times> json) list \<times> string \<times> json list)" where
  "proposal_head proposal =
     (case proposal of
        JDict p \<Rightarrow>
          if \<not> only_keys p [''schemaVersion'', ''goal'', ''constraints'', ''steps''] then Inl (schema_invalid None)
          else ebind (in_texts (dget p ''schemaVersion'')
              [''agentbridge.task-plan.proposal.v1'', ''agentbridge.task-plan.proposal.v2'']) (\<lambda>known.
          case (if known then dget p ''schemaVersion'' else JNull) of
            JStr version \<Rightarrow>
              ebind (normalize_constraints (dget p ''constraints'') version) (\<lambda>constraints.
              ebind (pv_required_text (dget p ''goal'') 500) (\<lambda>goal.
              case dget p ''steps'' of
                JList raws \<Rightarrow>
                  if raws = [] then Inl (schema_invalid None)
                  else if length raws > 12 then Inl (schema_invalid None)
                  else Inr (version, constraints, goal, raws)
              | _ \<Rightarrow> Inl (schema_invalid None)))
          | _ \<Rightarrow> Inl (schema_invalid None))
      | _ \<Rightarrow> Inl (schema_invalid None))"

text \<open>The checks on the normalized steps, with the order that results.\<close>

definition check_steps ::
  "planning \<Rightarrow> string \<Rightarrow> (string \<times> json) list \<Rightarrow> pv_step list \<Rightarrow> pv_error + string list" where
  "check_steps pl version constraints steps =
     ebind (raise_if (length (write_steps pl steps) > 1) (PlanError ''PLAN_MULTIPLE_WRITE_SINKS'' None)) (\<lambda>_.
     ebind (topological_order steps) (\<lambda>ordered.
     ebind (dependency_ancestors steps ordered) (\<lambda>ancestors.
     ebind (forE (check_step_bindings steps ancestors) ordered) (\<lambda>_.
     ebind (case write_steps pl steps of [] \<Rightarrow> Inr ()
        | k # _ \<Rightarrow> raise_if (last ordered \<noteq> k) (PlanError ''PLAN_WRITE_SINK_NOT_FINAL'' (Some k))) (\<lambda>_.
     ebind (if endswith version ''.v2'' then validate_v2_provenance pl steps ordered constraints else Inr ()) (\<lambda>_.
     ebind (case pl_granted pl of None \<Rightarrow> Inr ()
        | Some granted \<Rightarrow> raise_if (list_ex (\<lambda>x. x \<notin> set granted) (required_scopes pl steps))
            (PlanError ''PLAN_SCOPE_MISSING'' None)) (\<lambda>_.
     Inr ordered)))))))"

definition compiled_plan_of ::
  "planning \<Rightarrow> string \<Rightarrow> (string \<times> json) list \<Rightarrow> string \<Rightarrow> pv_step list \<Rightarrow> pv_step list \<Rightarrow> compiled_plan" where
  "compiled_plan_of pl version constraints goal steps ordered_steps =
     (let compiled = compile_steps ordered_steps in
      \<lparr>cp_goal = goal,
       cp_hash = sha_json (pl_env pl)
         (canon (hash_input pl version goal constraints compiled (required_scopes pl steps))),
       cp_steps = compiled, cp_risk = risk_summary pl steps compiled, cp_schema = Some version,
       cp_temporal = pl_temporal pl, cp_authority = JNull\<rparr>)"

definition validate_and_compile_task_plan :: "planning \<Rightarrow> json \<Rightarrow> pv_error + compiled_plan" where
  "validate_and_compile_task_plan pl proposal =
     ebind (proposal_head proposal) (\<lambda>(version, constraints, goal, raws).
     ebind (normalize_steps pl version [] raws) (\<lambda>steps.
     ebind (check_steps pl version constraints steps) (\<lambda>ordered.
     ebind (mapE (step_at steps) ordered) (\<lambda>ordered_steps.
     Inr (compiled_plan_of pl version constraints goal steps ordered_steps)))))"

end
