(* ===== verification/PlanCompiler.thy ===== *)
theory PlanCompiler imports PlanValidation begin

text \<open>
  What the compiler of plan proposals guarantees: the order it finds, the ancestors it computes,
  the bindings it lets through, and what holds of every compiled plan.
\<close>

section \<open>Dependency order\<close>

text \<open>\<open>(d, k)\<close>: step \<open>k\<close> depends on \<open>d\<close>.\<close>

definition depends_on :: "pv_step list \<Rightarrow> (string \<times> string) set" where
  "depends_on steps = {(d, vs_key s) | d s. s \<in> set steps \<and> d \<in> set (vs_depends s)}"

definition waits_for :: "(string \<times> string list) list \<Rightarrow> (string \<times> string) set" where
  "waits_for rem = {(d, k) | d k ds. (k, ds) \<in> set rem \<and> d \<in> set ds}"

lemma finite_waits_for: "finite (waits_for rem)"
proof -
  have "waits_for rem = (\<Union>(k, ds) \<in> set rem. (\<lambda>d. (d, k)) ` set ds)" by (auto simp: waits_for_def)
  then show ?thesis by auto
qed

lemma waits_for_depends_on: "waits_for (map (\<lambda>s. (vs_key s, vs_depends s)) steps) = depends_on steps"
  by (auto simp: waits_for_def depends_on_def)

lemma set_ready_keys: "set (ready_keys f rem) = {k. (k, []) \<in> set rem}"
  by (force simp: ready_keys_def)

lemma fst_place_ready: "fst ` set (place_ready ready rem) = fst ` set rem - set ready"
  by (force simp: place_ready_def)

lemma place_ready_mem:
  "(k, ds) \<in> set (place_ready ready rem) \<longleftrightarrow>
   (\<exists>ds0. (k, ds0) \<in> set rem \<and> k \<notin> set ready \<and> ds = filter (\<lambda>d. d \<notin> set ready) ds0)"
  by (force simp: place_ready_def)

lemma distinct_place_ready: "distinct (map fst rem) \<Longrightarrow> distinct (map fst (place_ready ready rem))"
  by (induction rem) (auto simp: place_ready_def image_iff)

text \<open>Every step is placed once, after everything it waits for.\<close>

definition after_all :: "string list \<Rightarrow> string \<Rightarrow> string list \<Rightarrow> bool" where
  "after_all ordered k ds \<longleftrightarrow> (\<exists>pre post. ordered = pre @ k # post \<and> set ds \<subseteq> set pre)"

lemma place_all_sound:
  assumes "place_all f rem = Inr ordered" and "distinct (map fst rem)"
  shows "distinct ordered \<and> set ordered = fst ` set rem \<and> (\<forall>(k, ds) \<in> set rem. after_all ordered k ds)"
  using assms
proof (induction f rem arbitrary: ordered rule: place_all.induct)
  case (1 f rem)
  let ?ready = "ready_keys f rem"
  show ?case
  proof (cases "rem = []")
    case True
    then show ?thesis using "1.prems"(1) by (simp add: place_all.simps)
  next
    case False
    then have ready: "?ready \<noteq> []" using "1.prems"(1) by (subst (asm) place_all.simps) auto
    obtain rest where rest: "place_all f (place_ready ?ready rem) = Inr rest" and o': "ordered = ?ready @ rest"
      using "1.prems"(1) False ready by (subst (asm) place_all.simps) (auto simp: outcome_simps)
    have IH: "distinct rest" "set rest = fst ` set rem - set ?ready"
      "\<And>k ds. (k, ds) \<in> set (place_ready ?ready rem) \<Longrightarrow> after_all rest k ds"
      using "1.IH"[OF False ready rest distinct_place_ready[OF "1.prems"(2)]] by (auto simp: fst_place_ready)
    have dr: "distinct ?ready" using "1.prems"(2) by (auto simp: ready_keys_def distinct_map_filter)
    have sub: "set ?ready \<subseteq> fst ` set rem" by (auto simp: set_ready_keys intro: rev_image_eqI)
    have "after_all ordered k ds" if m: "(k, ds) \<in> set rem" for k ds
    proof (cases "k \<in> set ?ready")
      case True
      then have "(k, []) \<in> set rem" by (simp add: set_ready_keys)
      then have "ds = []" using m "1.prems"(2) by (metis eq_key_imp_eq_value)
      moreover obtain pre post where "?ready = pre @ k # post" using True by (meson split_list)
      ultimately show ?thesis unfolding after_all_def o' by (metis append.assoc append_Cons empty_subsetI list.set(1))
    next
      case False
      then have "(k, filter (\<lambda>d. d \<notin> set ?ready) ds) \<in> set (place_ready ?ready rem)"
        using m by (auto simp: place_ready_mem)
      from IH(3)[OF this] obtain pre post where "rest = pre @ k # post" "set ds - set ?ready \<subseteq> set pre"
        by (auto simp: after_all_def)
      then have "ordered = (?ready @ pre) @ k # post" "set ds \<subseteq> set (?ready @ pre)" using o' by auto
      then show ?thesis unfolding after_all_def by blast
    qed
    then show ?thesis using IH(1,2) dr sub o' by auto
  qed
qed

lemma ready_when_acyclic:
  assumes "rem \<noteq> []" and "acyclic (waits_for rem)" and "\<And>k ds. (k, ds) \<in> set rem \<Longrightarrow> set ds \<subseteq> fst ` set rem"
  shows "ready_keys f rem \<noteq> []"
proof -
  have wf: "wf (waits_for rem)" using assms(2) finite_waits_for by (rule finite_acyclic_wf[rotated])
  obtain x where "x \<in> fst ` set rem" using assms(1) by (cases rem) auto
  then obtain k where k: "k \<in> fst ` set rem" and least: "\<And>d. (d, k) \<in> waits_for rem \<Longrightarrow> d \<notin> fst ` set rem"
    using wf by (meson wfE_min)
  then obtain ds where ds: "(k, ds) \<in> set rem" by auto
  have "ds = []"
  proof (rule ccontr)
    assume "ds \<noteq> []"
    then have "hd ds \<in> set ds" by simp
    then show False using least[of "hd ds"] ds assms(3)[OF ds] by (auto simp: waits_for_def)
  qed
  then have "k \<in> set (ready_keys f rem)" using ds by (simp add: set_ready_keys)
  then show ?thesis by auto
qed

lemma place_all_complete:
  assumes "acyclic (waits_for rem)" and "\<And>k ds. (k, ds) \<in> set rem \<Longrightarrow> set ds \<subseteq> fst ` set rem"
  shows "\<exists>ordered. place_all f rem = Inr ordered"
  using assms
proof (induction f rem rule: place_all.induct)
  case (1 f rem)
  let ?ready = "ready_keys f rem"
  show ?case
  proof (cases "rem = []")
    case True
    then show ?thesis by (simp add: place_all.simps)
  next
    case False
    then have ready: "?ready \<noteq> []" using ready_when_acyclic "1.prems" by blast
    have "waits_for (place_ready ?ready rem) \<subseteq> waits_for rem"
      by (force simp: waits_for_def place_ready_mem)
    then have ac: "acyclic (waits_for (place_ready ?ready rem))" using "1.prems"(1) acyclic_subset by blast
    have deps: "set ds \<subseteq> fst ` set (place_ready ?ready rem)" if "(k, ds) \<in> set (place_ready ?ready rem)" for k ds
      using that "1.prems"(2) unfolding fst_place_ready by (fastforce simp: place_ready_mem)
    have "\<exists>rest. place_all f (place_ready ?ready rem) = Inr rest"
      by (rule "1.IH"[OF False ready ac]) (rule deps)
    then obtain rest where "place_all f (place_ready ?ready rem) = Inr rest" by blast
    then show ?thesis using False ready by (subst place_all.simps) simp
  qed
qed

lemma check_depends_ok:
  "check_depends keys s = Inr () \<longleftrightarrow> set (vs_depends s) \<subseteq> set keys \<and> vs_key s \<notin> set (vs_depends s)"
  by (auto simp: check_depends_def list_ex_iff)

lemma topological_orderD:
  assumes "topological_order steps = Inr ordered" and "distinct (map vs_key steps)"
  shows "distinct ordered \<and> set ordered = vs_key ` set steps \<and>
    (\<forall>s \<in> set steps. after_all ordered (vs_key s) (vs_depends s))"
proof -
  have "place_all (source_position steps) (map (\<lambda>s. (vs_key s, vs_depends s)) steps) = Inr ordered"
    using assms(1) by (auto simp: topological_order_def outcome_simps)
  from place_all_sound[OF this] show ?thesis using assms(2) by (auto simp: comp_def image_iff)
qed

text \<open>The place of a key in a list.\<close>

lemma after_all_place:
  assumes "after_all ordered k ds" and "distinct ordered" and "d \<in> set ds"
  shows "\<exists>i j. i < j \<and> j < length ordered \<and> ordered ! i = d \<and> ordered ! j = k"
proof -
  obtain pre post where o': "ordered = pre @ k # post" and "d \<in> set pre" using assms(1,3) by (auto simp: after_all_def)
  then obtain i where "i < length pre" "pre ! i = d" by (auto simp: in_set_conv_nth)
  then have "i < length pre \<and> length pre < length ordered \<and> ordered ! i = d \<and> ordered ! length pre = k"
    using o' by (simp add: nth_append)
  then show ?thesis by blast
qed

lemma ordered_acyclic:
  assumes ord: "distinct ordered" "\<And>s. s \<in> set steps \<Longrightarrow> after_all ordered (vs_key s) (vs_depends s)"
  shows "acyclic (depends_on steps)"
proof -
  define place where "place k = (THE i. i < length ordered \<and> ordered ! i = k)" for k
  have place: "place (ordered ! i) = i" if "i < length ordered" for i
    unfolding place_def using that ord(1) by (auto simp: nth_eq_iff_index_eq)
  have "place d < place k" if "(d, k) \<in> depends_on steps" for d k
  proof -
    obtain s where "s \<in> set steps" "d \<in> set (vs_depends s)" "k = vs_key s" using \<open>(d, k) \<in> depends_on steps\<close>
      by (auto simp: depends_on_def)
    then obtain i j where "i < j" "j < length ordered" "ordered ! i = d" "ordered ! j = k"
      using after_all_place[OF ord(2) ord(1)] by blast
    then show ?thesis using place[of i] place[of j] by auto
  qed
  then have "depends_on steps \<subseteq> measure place" by auto
  then show ?thesis using wf_acyclic wf_measure acyclic_subset by blast
qed

lemma acyclic_irreflD: "acyclic r \<Longrightarrow> (x, x) \<notin> r"
  by (auto simp: acyclic_def)

text \<open>
  C15: The compiler orders exactly the proposals that can be ordered: \<open>topological_order\<close> succeeds
  if and only if every dependency names a step of the proposal and no step depends on itself,
  directly or through others.
\<close>

theorem topological_order_iff:
  assumes "distinct (map vs_key steps)"
  shows "(\<exists>ordered. topological_order steps = Inr ordered) \<longleftrightarrow>
    fst ` depends_on steps \<subseteq> vs_key ` set steps \<and> acyclic (depends_on steps)"
proof
  assume "\<exists>ordered. topological_order steps = Inr ordered"
  then obtain ordered where t: "topological_order steps = Inr ordered" by blast
  then have "set (vs_depends s) \<subseteq> vs_key ` set steps" if "s \<in> set steps" for s
    using that by (auto simp: topological_order_def outcome_simps check_depends_ok)
  then have "fst ` depends_on steps \<subseteq> vs_key ` set steps" unfolding depends_on_def by fastforce
  then show "fst ` depends_on steps \<subseteq> vs_key ` set steps \<and> acyclic (depends_on steps)"
    using topological_orderD[OF t assms] ordered_acyclic[of ordered steps] by blast
next
  assume ok: "fst ` depends_on steps \<subseteq> vs_key ` set steps \<and> acyclic (depends_on steps)"
  then have deps: "set (vs_depends s) \<subseteq> vs_key ` set steps" if "s \<in> set steps" for s
    using that by (force simp: depends_on_def)
  have "vs_key s \<notin> set (vs_depends s)" if "s \<in> set steps" for s
    using that acyclic_irreflD[of "depends_on steps" "vs_key s"] ok by (auto simp: depends_on_def)
  then have "forE (check_depends (map vs_key steps)) steps = Inr ()" using deps by (simp add: forE_eq_Inr check_depends_ok)
  moreover have "\<exists>ordered. place_all (source_position steps) (map (\<lambda>s. (vs_key s, vs_depends s)) steps) = Inr ordered"
    using ok deps by (intro place_all_complete) (auto simp: waits_for_depends_on image_image)
  ultimately show "\<exists>ordered. topological_order steps = Inr ordered" by (simp add: topological_order_def)
qed


definition demo_steps :: "(string \<times> string list) list \<Rightarrow> pv_step list" where
  "demo_steps = map (\<lambda>(k, ds). \<lparr>vs_key = k, vs_kind = ''capability'', vs_capability = Some ''oa.x'', vs_transform = None,
     vs_version = ''1.0.0'', vs_title = [], vs_depends = ds, vs_arguments = [], vs_bindings = [], vs_effect = ''read'',
     vs_system = ''oa'', vs_input = any_schema, vs_output = any_schema\<rparr>)"

theorem topological_order_iff_witness:
  "acyclic (depends_on (demo_steps [(''log'', [''read'']), (''read'', [])])) \<and>
   \<not> acyclic (depends_on (demo_steps [(''a'', [''b'']), (''b'', [''a''])]))"
proof -
  let ?s = "demo_steps [(''log'', [''read'']), (''read'', [])]" and ?c = "demo_steps [(''a'', [''b'']), (''b'', [''a''])]"
  have d: "distinct (map vs_key ?s)" "distinct (map vs_key ?c)" by code_simp+
  have "topological_order ?s = Inr [''read'', ''log'']" "topological_order ?c = Inl (PlanError ''PLAN_CYCLE_DETECTED'' None)"
    by code_simp+
  then have "acyclic (depends_on ?s)" "\<not> (fst ` depends_on ?c \<subseteq> vs_key ` set ?c \<and> acyclic (depends_on ?c))"
    using topological_order_iff[OF d(1)] topological_order_iff[OF d(2)] by auto
  moreover have "fst ` depends_on ?c \<subseteq> vs_key ` set ?c" by (auto simp: depends_on_def demo_steps_def)
  ultimately show ?thesis by blast
qed

section \<open>Ancestors\<close>

lemma tbl_step:
  "distinct (map vs_key steps) \<Longrightarrow> s \<in> set steps \<Longrightarrow> step_at steps (vs_key s) = Inr s"
  using tbl_get_eqI[of vs_key steps s "vs_key s"] by (simp add: step_at_def)

lemma step_at_Inr: "step_at steps k = Inr s \<Longrightarrow> s \<in> set steps \<and> vs_key s = k"
  using tbl_get_mem[of vs_key k steps s] by (auto simp: step_at_def split: option.splits)

lemma step_at_known: "distinct (map vs_key steps) \<Longrightarrow> k \<in> vs_key ` set steps \<Longrightarrow> \<exists>s \<in> set steps. vs_key s = k \<and> step_at steps k = Inr s"
  using tbl_step by fastforce

lemma depends_on_step:
  "distinct (map vs_key steps) \<Longrightarrow> s \<in> set steps \<Longrightarrow> (d, vs_key s) \<in> depends_on steps \<longleftrightarrow> d \<in> set (vs_depends s)"
  unfolding depends_on_def using distinct_same_key by fastforce

abbreviation collect_up :: "(string \<times> string list) list \<Rightarrow> string \<Rightarrow> string list \<Rightarrow> pv_error + string list" where
  "collect_up result \<equiv> \<lambda>d acc. case map_of result d of None \<Rightarrow> Inl PvKeyError | Some up \<Rightarrow> Inr (acc @ d # up)"

lemma collect_up_set:
  "foldE (collect_up result) ds acc = Inr out \<Longrightarrow>
   set out = set acc \<union> (\<Union>d \<in> set ds. insert d (set (get_default [] result d))) \<and> set ds \<subseteq> dom (map_of result)"
  by (induction ds arbitrary: acc) (auto simp: outcome_simps get_default_def split: option.splits)

lemma collect_up_returns: "set ds \<subseteq> dom (map_of result) \<Longrightarrow> \<exists>out. foldE (collect_up result) ds acc = Inr out"
proof (induction ds arbitrary: acc)
  case (Cons d ds)
  then obtain up where "map_of result d = Some up" by auto
  then show ?case using Cons by simp
qed simp

definition ancestors_right :: "pv_step list \<Rightarrow> (string \<times> string list) list \<Rightarrow> bool" where
  "ancestors_right steps result \<longleftrightarrow> (\<forall>(k, up) \<in> set result. set up = {x. (x, k) \<in> (depends_on steps)\<^sup>+})"

lemma ancestors_rightD:
  "ancestors_right steps result \<Longrightarrow> map_of result k = Some up \<Longrightarrow> set up = {x. (x, k) \<in> (depends_on steps)\<^sup>+}"
  unfolding ancestors_right_def by (drule map_of_SomeD) blast

lemma trancl_last: "(x, k) \<in> r\<^sup>+ \<longleftrightarrow> (\<exists>d. (d, k) \<in> r \<and> (x = d \<or> (x, d) \<in> r\<^sup>+))"
proof
  assume "(x, k) \<in> r\<^sup>+"
  then show "\<exists>d. (d, k) \<in> r \<and> (x = d \<or> (x, d) \<in> r\<^sup>+)" by (rule tranclE) blast+
qed (auto intro: trancl_into_trancl)

lemma ancestors_of_step_right:
  assumes d: "distinct (map vs_key steps)" and right: "ancestors_right steps result"
    and up: "ancestors_of_step steps result k = Inr up"
  shows "set up = {x. (x, k) \<in> (depends_on steps)\<^sup>+}"
proof -
  obtain s where s: "s \<in> set steps" "vs_key s = k" and "foldE (collect_up result) (vs_depends s) [] = Inr up"
    using up step_at_Inr by (fastforce simp: ancestors_of_step_def outcome_simps)
  from collect_up_set[OF this(3)] have "set up = (\<Union>d \<in> set (vs_depends s). insert d (set (get_default [] result d)))"
    and dom: "set (vs_depends s) \<subseteq> dom (map_of result)" by auto
  moreover have "set (get_default [] result x) = {y. (y, x) \<in> (depends_on steps)\<^sup>+}" if "x \<in> set (vs_depends s)" for x
    using that dom ancestors_rightD[OF right] by (auto simp: get_default_def)
  ultimately have "set up = (\<Union>d \<in> set (vs_depends s). insert d {y. (y, d) \<in> (depends_on steps)\<^sup>+})" by simp
  moreover have "(x, k) \<in> (depends_on steps)\<^sup>+ \<longleftrightarrow> (\<exists>y \<in> set (vs_depends s). x = y \<or> (x, y) \<in> (depends_on steps)\<^sup>+)" for x
    using trancl_last[of x k] depends_on_step[OF d s(1)] s(2) by auto
  ultimately show ?thesis by auto
qed

abbreviation add_ancestors :: "pv_step list \<Rightarrow> string \<Rightarrow> (string \<times> string list) list \<Rightarrow> pv_error + (string \<times> string list) list" where
  "add_ancestors steps \<equiv> \<lambda>key result. ebind (ancestors_of_step steps result key) (\<lambda>up. Inr (result @ [(key, up)]))"

lemma dependency_ancestors_right:
  assumes "distinct (map vs_key steps)" and "dependency_ancestors steps ordered = Inr result"
  shows "ancestors_right steps result"
  using assms(2) unfolding dependency_ancestors_def
proof (rule foldE_invariant)
  show "ancestors_right steps []" by (simp add: ancestors_right_def)
next
  fix k t t'
  assume t: "ancestors_right steps t" and "ebind (ancestors_of_step steps t k) (\<lambda>up. Inr (t @ [(k, up)])) = Inr t'"
  then obtain up where up: "ancestors_of_step steps t k = Inr up" "t' = t @ [(k, up)]" by (auto simp: outcome_simps)
  show "ancestors_right steps t'"
    using t ancestors_of_step_right[OF assms(1) t up(1)] unfolding up(2) ancestors_right_def by auto
qed

text \<open>Along an order that respects the dependencies the computation never misses a key.\<close>

definition dependency_ordered :: "pv_step list \<Rightarrow> string list \<Rightarrow> bool" where
  "dependency_ordered steps ordered \<longleftrightarrow> distinct ordered \<and> set ordered = vs_key ` set steps \<and>
     (\<forall>s \<in> set steps. after_all ordered (vs_key s) (vs_depends s))"

lemma ordered_prefix:
  assumes "dependency_ordered steps (pre @ k # post)" and "s \<in> set steps" and "vs_key s = k"
  shows "set (vs_depends s) \<subseteq> set pre"
proof -
  obtain pre' post' where "pre @ k # post = pre' @ k # post'" "set (vs_depends s) \<subseteq> set pre'"
    using assms unfolding dependency_ordered_def after_all_def by blast
  moreover have "distinct (pre @ k # post)" using assms(1) by (simp add: dependency_ordered_def)
  ultimately show ?thesis by (metis append_Cons_eq_iff distinct.simps(2) distinct_append not_distinct_conv_prefix)
qed

lemma add_ancestors_returns:
  assumes d: "distinct (map vs_key steps)" and "dependency_ordered steps (pre @ suf)" and "fst ` set result = set pre"
  shows "\<exists>result'. foldE (add_ancestors steps) suf result = Inr result' \<and> fst ` set result' = set (pre @ suf)"
  using assms(2,3)
proof (induction suf arbitrary: pre result)
  case (Cons k suf)
  have "k \<in> vs_key ` set steps" using Cons.prems(1) by (auto simp: dependency_ordered_def)
  then obtain s where s: "s \<in> set steps" "vs_key s = k" "step_at steps k = Inr s" using step_at_known[OF d] by blast
  have "set (vs_depends s) \<subseteq> dom (map_of result)"
    using ordered_prefix[OF Cons.prems(1) s(1,2)] Cons.prems(2) by (simp add: dom_map_of_conv_image_fst)
  then obtain up where "foldE (collect_up result) (vs_depends s) [] = Inr up" using collect_up_returns by blast
  then have "ancestors_of_step steps result k = Inr up" using s(3) by (simp add: ancestors_of_step_def)
  moreover have "\<exists>result'. foldE (add_ancestors steps) suf (result @ [(k, up)]) = Inr result' \<and>
      fst ` set result' = set ((pre @ [k]) @ suf)"
    by (rule Cons.IH) (use Cons.prems in simp_all)
  ultimately show ?case by simp
qed simp

lemma dependency_ancestors_returns:
  assumes "distinct (map vs_key steps)" and "dependency_ordered steps ordered"
  shows "\<exists>result. dependency_ancestors steps ordered = Inr result \<and> fst ` set result = set ordered"
  using add_ancestors_returns[OF assms(1), of "[]" ordered "[]"] assms(2) by (simp add: dependency_ancestors_def)

lemma topological_order_ordered:
  "topological_order steps = Inr ordered \<Longrightarrow> distinct (map vs_key steps) \<Longrightarrow> dependency_ordered steps ordered"
  using topological_orderD unfolding dependency_ordered_def by blast

lemma ebindE: "ebind m f = Inr y \<Longrightarrow> (\<And>x. m = Inr x \<Longrightarrow> f x = Inr y \<Longrightarrow> P) \<Longrightarrow> P"
  by (auto simp: outcome_simps)

lemma if_InlE: "(if c then Inl e else m) = Inr x \<Longrightarrow> (\<not> c \<Longrightarrow> m = Inr x \<Longrightarrow> P) \<Longrightarrow> P"
  by (simp split: if_splits)

section \<open>Normalized steps\<close>

text \<open>What a step that the compiler accepted is.\<close>

definition capability_step :: "planning \<Rightarrow> pv_step \<Rightarrow> bool" where
  "capability_step pl s \<longleftrightarrow> vs_kind s = ''capability'' \<and> vs_transform s = None \<and>
     (\<exists>c spec. vs_capability s = Some c \<and> c \<notin> set (pl_hidden pl) \<and> registry_get c (pl_registry pl) = Inr spec \<and>
        (cap_effect spec = ''read'' \<or> c \<in> set (pl_prepares pl)) \<and> vs_effect s = cap_effect spec \<and>
        vs_input s = cap_input spec \<and> vs_output s = cap_output spec)"

definition transform_step :: "planning \<Rightarrow> pv_step \<Rightarrow> bool" where
  "transform_step pl s \<longleftrightarrow> vs_kind s = ''transform'' \<and> vs_capability s = None \<and> vs_effect s = ''read'' \<and>
     (\<exists>t spec. vs_transform s = Some t \<and> t \<noteq> [] \<and> transform_get t (pl_transforms pl) = Inr spec \<and>
        set (tf_required_bound spec) \<subseteq> fst ` set (vs_bindings s) \<and>
        vs_input s = tf_input spec \<and> vs_output s = tf_output spec)"

definition step_normal :: "planning \<Rightarrow> pv_step \<Rightarrow> bool" where
  "step_normal pl s \<longleftrightarrow> step_key_ok (vs_key s) \<and> distinct (vs_depends s) \<and>
     (capability_step pl s \<or> transform_step pl s) \<and>
     object_input_issue PlanProfile (map fst (vs_bindings s)) (vs_input s) (vs_arguments s) = None"

lemma pv_required_text_filled: "pv_required_text v n = Inr t \<Longrightarrow> t \<noteq> []"
  by (auto simp: pv_required_text_def Let_def split: json.splits if_splits)

lemma pv_required_text_not_Nil [simp]: "pv_required_text v n \<noteq> Inr []"
  using pv_required_text_filled by blast

lemma capability_targetD:
  "capability_target pl raw key = Inr t \<Longrightarrow>
   st_transform t = None \<and> (\<exists>c spec. st_capability t = Some c \<and> c \<notin> set (pl_hidden pl) \<and>
     registry_get c (pl_registry pl) = Inr spec \<and> (cap_effect spec = ''read'' \<or> c \<in> set (pl_prepares pl)) \<and>
     st_effect t = cap_effect spec \<and> st_input t = cap_input spec \<and> st_output t = cap_output spec)"
  by (unfold capability_target_def ebind_eq_Inr, elim exE conjE) (auto split: sum.split_asm if_split_asm)

lemma transform_targetD:
  "transform_target pl raw key bindings = Inr t \<Longrightarrow>
   st_capability t = None \<and> st_effect t = ''read'' \<and> (\<exists>n spec. st_transform t = Some n \<and> n \<noteq> [] \<and>
     transform_get n (pl_transforms pl) = Inr spec \<and> set (tf_required_bound spec) \<subseteq> fst ` set bindings \<and>
     st_input t = tf_input spec \<and> st_output t = tf_output spec)"
  by (unfold transform_target_def ebind_eq_Inr, elim exE conjE)
    (auto simp: list_ex_iff dest: pv_required_text_filled split: sum.split_asm if_split_asm)

lemma validate_partial_inputD:
  "validate_partial_input arguments bound s key = Inr u \<Longrightarrow> object_input_issue PlanProfile bound s arguments = None"
  by (auto simp: validate_partial_input_def split: option.splits schema_type.splits if_splits)

lemma depends_texts_distinct: "depends_texts v key = Inr ds \<Longrightarrow> distinct ds"
  by (auto simp: depends_texts_def split: json.splits if_splits)

lemma normalize_stepD:
  assumes "normalize_step pl version seen raw = Inr s"
  shows "step_normal pl s \<and> vs_key s \<notin> set seen"
proof -
  have "\<exists>d key depends arguments bindings target u. step_key_ok key \<and> key \<notin> set seen \<and>
      depends_texts (dget d ''dependsOn'') key = Inr depends \<and>
      (if dget d ''kind'' = JStr ''capability'' then capability_target pl d key
       else transform_target pl d key bindings) = Inr target \<and>
      validate_partial_input arguments (map fst bindings) (st_input target) key = Inr u \<and>
      Inr (normalized_step key (dget d ''kind'') depends arguments bindings target) = (Inr s :: pv_error + pv_step)"
  proof (cases raw)
    case (JDict d)
    show ?thesis
      using assms unfolding normalize_step_def JDict json.simps
      by (elim ebindE if_InlE) (intro exI conjI; (assumption | erule notnotD))
  qed (use assms in \<open>simp_all add: normalize_step_def\<close>)
  then obtain d key depends arguments bindings target u where
    k: "step_key_ok key" "key \<notin> set seen"
    and dep: "depends_texts (dget d ''dependsOn'') key = Inr depends"
    and target: "(if dget d ''kind'' = JStr ''capability'' then capability_target pl d key
                 else transform_target pl d key bindings) = Inr target"
    and input: "validate_partial_input arguments (map fst bindings) (st_input target) key = Inr u"
    and "Inr (normalized_step key (dget d ''kind'') depends arguments bindings target) = (Inr s :: pv_error + pv_step)" by blast
  from this(6) have s: "s = normalized_step key (dget d ''kind'') depends arguments bindings target" by simp
  have "capability_step pl s \<or> transform_step pl s"
  proof (cases "dget d ''kind'' = JStr ''capability''")
    case True
    then show ?thesis using target capability_targetD[of pl d key target] by (simp add: s normalized_step_def capability_step_def)
  next
    case False
    then show ?thesis using target transform_targetD[of pl d key bindings target] by (simp add: s normalized_step_def transform_step_def)
  qed
  then show ?thesis
    using k depends_texts_distinct[OF dep] validate_partial_inputD[OF input] by (simp add: step_normal_def s normalized_step_def)
qed

lemma normalize_stepsD:
  assumes "normalize_steps pl version done raws = Inr steps" and "distinct (map vs_key done)"
  shows "\<exists>new. steps = done @ new \<and> length new = length raws \<and> distinct (map vs_key steps) \<and> (\<forall>s \<in> set new. step_normal pl s)"
  using assms
proof (induction raws arbitrary: "done")
  case (Cons raw raws)
  then obtain s where s: "normalize_step pl version (map vs_key done) raw = Inr s"
    and rest: "normalize_steps pl version (done @ [s]) raws = Inr steps" by (auto simp: outcome_simps)
  have "distinct (map vs_key (done @ [s]))" using normalize_stepD[OF s] Cons.prems(2) by auto
  from Cons.IH[OF rest this] obtain new where "steps = (done @ [s]) @ new" "length new = length raws"
    "distinct (map vs_key steps)" "\<forall>s \<in> set new. step_normal pl s" by blast
  then have "steps = done @ (s # new) \<and> length (s # new) = length (raw # raws) \<and> distinct (map vs_key steps) \<and>
      (\<forall>x \<in> set (s # new). step_normal pl x)" using normalize_stepD[OF s] by simp
  then show ?case by blast
qed auto

lemma proposal_headD:
  "proposal_head proposal = Inr (version, constraints, goal, raws) \<Longrightarrow> raws \<noteq> [] \<and> length raws \<le> 12 \<and> goal \<noteq> []"
  by (cases proposal) (auto simp: proposal_head_def elim!: ebindE dest: pv_required_text_filled split: if_split_asm json.split_asm)

section \<open>Checked steps\<close>

text \<open>What the compiler works with when no check has failed.\<close>

definition normal_steps :: "planning \<Rightarrow> pv_step list \<Rightarrow> bool" where
  "normal_steps pl steps \<longleftrightarrow> distinct (map vs_key steps) \<and> steps \<noteq> [] \<and> length steps \<le> 12 \<and> (\<forall>s \<in> set steps. step_normal pl s)"

lemma compile_normal:
  assumes "proposal_head proposal = Inr (version, constraints, goal, raws)" and "normalize_steps pl version [] raws = Inr steps"
  shows "normal_steps pl steps"
  using normalize_stepsD[OF assms(2)] proposal_headD[OF assms(1)] by (auto simp: normal_steps_def)

lemma normal_step_key: "step_normal pl s \<Longrightarrow> vs_key s \<noteq> []"
  by (auto simp: step_normal_def step_key_ok_def)

lemma compileD:
  assumes "validate_and_compile_task_plan pl proposal = Inr cp"
  shows "\<exists>version constraints goal steps ordered ordered_steps. normal_steps pl steps \<and> goal \<noteq> [] \<and>
    check_steps pl version constraints steps = Inr ordered \<and> dependency_ordered steps ordered \<and>
    mapE (step_at steps) ordered = Inr ordered_steps \<and>
    cp = compiled_plan_of pl version constraints goal steps ordered_steps"
proof -
  obtain version constraints goal raws steps ordered ordered_steps where
    1: "proposal_head proposal = Inr (version, constraints, goal, raws)" "normalize_steps pl version [] raws = Inr steps"
    and 2: "check_steps pl version constraints steps = Inr ordered" "mapE (step_at steps) ordered = Inr ordered_steps"
      "cp = compiled_plan_of pl version constraints goal steps ordered_steps"
    using assms by (auto simp: validate_and_compile_task_plan_def outcome_simps)
  have "topological_order steps = Inr ordered" using 2(1) by (auto simp: check_steps_def outcome_simps)
  then have "dependency_ordered steps ordered"
    using topological_order_ordered compile_normal[OF 1] unfolding normal_steps_def by blast
  then show ?thesis using 2 compile_normal[OF 1] proposal_headD[OF 1(1)] by blast
qed

lemma mapE_step_at:
  assumes "mapE (step_at steps) ordered = Inr ss"
  shows "map vs_key ss = ordered \<and> set ss \<subseteq> set steps"
proof -
  have *: "list_all2 (\<lambda>k s. step_at steps k = Inr s) ordered ss" using assms by (simp add: mapE_eq_Inr)
  then show ?thesis by (induction ordered ss rule: list_all2_induct) (use step_at_Inr in fastforce)+
qed

lemma mapE_step_at_returns:
  "distinct (map vs_key steps) \<Longrightarrow> set ordered \<subseteq> vs_key ` set steps \<Longrightarrow> \<exists>ss. mapE (step_at steps) ordered = Inr ss"
proof (induction ordered)
  case (Cons k ordered)
  obtain s where "step_at steps k = Inr s" using step_at_known[OF Cons.prems(1)] Cons.prems(2) by auto
  then show ?case using Cons by auto
qed simp

section \<open>Compiled plans\<close>

text \<open>\<open>ss\<close> are the checked steps in their order.\<close>

definition ordered_steps_of :: "pv_step list \<Rightarrow> pv_step list \<Rightarrow> bool" where
  "ordered_steps_of steps ss \<longleftrightarrow> set ss = set steps \<and> dependency_ordered steps (map vs_key ss)"

lemma ordered_steps:
  assumes "dependency_ordered steps ordered" and "mapE (step_at steps) ordered = Inr ss" and "distinct (map vs_key steps)"
  shows "ordered_steps_of steps ss"
proof -
  have k: "map vs_key ss = ordered" and sub: "set ss \<subseteq> set steps" using mapE_step_at[OF assms(2)] by auto
  have "s \<in> set ss" if s: "s \<in> set steps" for s
  proof -
    have "vs_key s \<in> vs_key ` set ss" using assms(1) s k unfolding dependency_ordered_def by (metis image_eqI set_map)
    then obtain x where "x \<in> set ss" "vs_key x = vs_key s" by fastforce
    then show ?thesis using distinct_same_key[OF assms(3)] sub s by (metis subsetD)
  qed
  then show ?thesis using k sub assms(1) unfolding ordered_steps_of_def by auto
qed

lemma cp_steps_compiled [simp]: "cp_steps (compiled_plan_of pl version constraints goal steps ss) = compile_steps ss"
  by (simp add: compiled_plan_of_def Let_def)

lemma length_compile_steps [simp]: "length (compile_steps ss) = length ss"
  by (simp add: compile_steps_def)

lemma compiled_nth: "i < length ss \<Longrightarrow> compile_steps ss ! i = compile_step (Suc i) (ss ! i)"
  by (simp add: compile_steps_def nth_enumerate_eq)

lemma compiled_step_fields [simp]:
  "cs_key (compile_step n s) = vs_key s" "cs_depends (compile_step n s) = vs_depends s"
  "cs_kind (compile_step n s) = vs_kind s" "cs_effect (compile_step n s) = vs_effect s"
  "cs_capability (compile_step n s) = vs_capability s" "cs_transform (compile_step n s) = vs_transform s"
  by (simp_all add: compile_step_def)

lemma compiled_keys: "map cs_key (compile_steps ss) = map vs_key ss"
  by (rule nth_equalityI) (simp_all add: compiled_nth)

lemma compiled_ordinals: "map cs_ordinal (compile_steps ss) = map int [1..<Suc (length ss)]"
proof (rule nth_equalityI)
  fix i assume i: "i < length (map cs_ordinal (compile_steps ss))"
  then have "map cs_ordinal (compile_steps ss) ! i = int (Suc i)" by (simp add: compiled_nth compile_step_def)
  moreover have "map int [1..<Suc (length ss)] ! i = int (Suc i)" using i nth_upt[of 1 i "Suc (length ss)"] by (simp del: upt_Suc)
  ultimately show "map cs_ordinal (compile_steps ss) ! i = map int [1..<Suc (length ss)] ! i" by simp
qed (simp del: upt_Suc)

lemma compiled_step_of: "c \<in> set (compile_steps ss) \<Longrightarrow> \<exists>n. \<exists>s \<in> set ss. c = compile_step n s"
  unfolding in_set_conv_nth by (metis compiled_nth length_compile_steps nth_mem)

lemma compiled_ordered:
  assumes "validate_and_compile_task_plan pl proposal = Inr cp"
  shows "\<exists>version constraints steps ss. normal_steps pl steps \<and> ordered_steps_of steps ss \<and>
    check_steps pl version constraints steps = Inr (map vs_key ss) \<and>
    cp_steps cp = compile_steps ss \<and> cp_goal cp \<noteq> []"
proof -
  obtain version constraints goal steps ordered ss where c: "normal_steps pl steps" "goal \<noteq> []"
    "check_steps pl version constraints steps = Inr ordered" "dependency_ordered steps ordered"
    "mapE (step_at steps) ordered = Inr ss" "cp = compiled_plan_of pl version constraints goal steps ss"
    using compileD[OF assms] by blast
  have "ordered_steps_of steps ss" using ordered_steps[OF c(4,5)] c(1) by (simp add: normal_steps_def)
  moreover have "map vs_key ss = ordered" using mapE_step_at[OF c(5)] by blast
  ultimately show ?thesis using c(1,2,3,6) by (auto simp: compiled_plan_of_def Let_def)
qed

lemma ordered_length:
  assumes "ordered_steps_of steps ss" and "normal_steps pl steps"
  shows "length ss = length steps"
proof -
  have "distinct ss" "distinct steps"
    using assms by (auto simp: ordered_steps_of_def dependency_ordered_def normal_steps_def distinct_map)
  then show ?thesis using assms(1) by (metis distinct_card ordered_steps_of_def)
qed

lemma ordered_nth: "ordered_steps_of steps ss \<Longrightarrow> i < length ss \<Longrightarrow> ss ! i \<in> set steps"
  unfolding ordered_steps_of_def by (metis nth_mem)

lemma ordered_depends:
  assumes "ordered_steps_of steps ss" and "i < length ss"
  shows "set (vs_depends (ss ! i)) \<subseteq> vs_key ` set (take i ss)"
proof -
  have "map vs_key ss = map vs_key (take i ss) @ vs_key (ss ! i) # map vs_key (drop (Suc i) ss)"
    using arg_cong[OF id_take_nth_drop[OF assms(2)], of "map vs_key"] by simp
  then have "dependency_ordered steps (map vs_key (take i ss) @ vs_key (ss ! i) # map vs_key (drop (Suc i) ss))"
    using assms(1) by (simp only: ordered_steps_of_def)
  moreover have "ss ! i \<in> set steps" by (rule ordered_nth[OF assms])
  ultimately have "set (vs_depends (ss ! i)) \<subseteq> set (map vs_key (take i ss))" by (rule ordered_prefix[OF _ _ refl])
  then show ?thesis by simp
qed

text \<open>
  C16: Every plan that the compiler produces is well formed: it has between one and twelve steps and
  a goal, the steps are numbered from 1 in the order they are stored, their keys are distinct
  and have the form that step keys must have, and each step depends only on steps before it.
\<close>

theorem compiled_plan_well_formed:
  assumes "validate_and_compile_task_plan pl proposal = Inr cp"
  shows "cp_goal cp \<noteq> [] \<and> 1 \<le> length (cp_steps cp) \<and> length (cp_steps cp) \<le> 12 \<and>
    map cs_ordinal (cp_steps cp) = map int [1..<Suc (length (cp_steps cp))] \<and>
    distinct (map cs_key (cp_steps cp)) \<and> list_all (\<lambda>s. step_key_ok (cs_key s)) (cp_steps cp) \<and>
    (\<forall>i < length (cp_steps cp). set (cs_depends (cp_steps cp ! i)) \<subseteq> cs_key ` set (take i (cp_steps cp)))"
proof -
  obtain version constraints steps ss where c: "normal_steps pl steps" "ordered_steps_of steps ss"
    "cp_steps cp = compile_steps ss" "cp_goal cp \<noteq> []"
    using compiled_ordered[OF assms] by blast
  have len: "1 \<le> length ss" "length ss \<le> 12"
    using c(1) ordered_length[OF c(2,1)] by (simp_all add: normal_steps_def Suc_le_eq)
  have keys: "distinct (map vs_key ss)" using c(2) by (simp add: ordered_steps_of_def dependency_ordered_def)
  have ok: "step_key_ok (vs_key s)" if "s \<in> set ss" for s
    using that c(1,2) by (auto simp: ordered_steps_of_def normal_steps_def step_normal_def)
  have "set (cs_depends (cp_steps cp ! i)) \<subseteq> cs_key ` set (take i (cp_steps cp))" if i: "i < length ss" for i
  proof -
    have "map cs_key (take i (cp_steps cp)) = map vs_key (take i ss)" by (simp only: c(3) take_map[symmetric] compiled_keys)
    then have "cs_key ` set (take i (cp_steps cp)) = vs_key ` set (take i ss)" by (metis set_map)
    then show ?thesis using ordered_depends[OF c(2) i] i by (simp add: c(3) compiled_nth)
  qed
  moreover have "list_all (\<lambda>s. step_key_ok (cs_key s)) (cp_steps cp)"
    using ok compiled_step_of[of _ ss] unfolding list_all_iff c(3) by fastforce
  ultimately show ?thesis
    using len keys c(4) unfolding c(3) compiled_keys compiled_ordinals by simp
qed

lemma check_stepsD:
  assumes "check_steps pl version constraints steps = Inr ordered"
  shows "length (write_steps pl steps) \<le> 1 \<and> (write_steps pl steps \<noteq> [] \<longrightarrow> last ordered = hd (write_steps pl steps)) \<and>
    (\<forall>granted. pl_granted pl = Some granted \<longrightarrow> set (required_scopes pl steps) \<subseteq> set granted) \<and>
    (\<exists>ancestors. dependency_ancestors steps ordered = Inr ancestors \<and>
       (\<forall>k \<in> set ordered. check_step_bindings steps ancestors k = Inr ())) \<and>
    (endswith version ''.v2'' \<longrightarrow> validate_v2_provenance pl steps ordered constraints = Inr ())"
  using assms unfolding check_steps_def
  by (elim ebindE) (auto simp: outcome_simps forE_eq_Inr list_ex_iff split: list.split_asm option.split_asm if_split_asm)

lemma write_steps_mem:
  "k \<in> set (write_steps pl steps) \<longleftrightarrow> (\<exists>s \<in> set steps. vs_key s = k \<and> (\<exists>c \<in> set (pl_prepares pl). vs_capability s = Some c))"
proof -
  have "(case vs_capability s of None \<Rightarrow> False | Some c \<Rightarrow> c \<in> set (pl_prepares pl)) \<longleftrightarrow>
      (\<exists>c \<in> set (pl_prepares pl). vs_capability s = Some c)" for s by (simp split: option.split)
  then show ?thesis by (auto simp: write_steps_def)
qed

lemma required_scopes_mem:
  "s \<in> set steps \<Longrightarrow> vs_capability s = Some c \<Longrightarrow> set (pl_scopes pl c) \<subseteq> set (required_scopes pl steps)"
  by (force simp: required_scopes_def)

lemma prepare_is_last:
  assumes "normal_steps pl steps" and "ordered_steps_of steps ss" and "check_steps pl version constraints steps = Inr (map vs_key ss)"
    and "i < length ss" and "vs_capability (ss ! i) = Some c" and "c \<in> set (pl_prepares pl)"
  shows "Suc i = length ss"
proof -
  have "ss ! i \<in> set steps" by (rule ordered_nth[OF assms(2,4)])
  then have "vs_key (ss ! i) \<in> set (write_steps pl steps)" using assms(5,6) write_steps_mem by blast
  then have "write_steps pl steps = [vs_key (ss ! i)]"
    using check_stepsD[OF assms(3)] by (cases "write_steps pl steps") auto
  then have "last (map vs_key ss) = map vs_key ss ! i" using check_stepsD[OF assms(3)] assms(4) by simp
  then have "map vs_key ss ! (length ss - 1) = map vs_key ss ! i" using assms(4) by (metis last_conv_nth length_map list.size(3) not_less_zero)
  moreover have "distinct (map vs_key ss)" using assms(2) by (simp add: ordered_steps_of_def dependency_ordered_def)
  ultimately show ?thesis using assms(4) nth_eq_iff_index_eq[of "map vs_key ss" "length ss - 1" i] by simp
qed

text \<open>
  C11: A compiled plan can do only what it may do. Every capability step names a registered capability
  that is not a hidden commit; it only reads, or it is a trusted preparation of a write and then
  it is the last step of the plan; and the caller has been granted every scope it asks for. All
  other steps are transforms, which read.
\<close>

theorem compiled_plan_least_privilege:
  assumes "validate_and_compile_task_plan pl proposal = Inr cp" and "i < length (cp_steps cp)"
  shows "(case cs_capability (cp_steps cp ! i) of
      None \<Rightarrow> cs_kind (cp_steps cp ! i) = ''transform'' \<and> cs_effect (cp_steps cp ! i) = ''read''
    | Some c \<Rightarrow> (\<exists>spec. registry_get c (pl_registry pl) = Inr spec \<and> cs_effect (cp_steps cp ! i) = cap_effect spec) \<and>
        c \<notin> set (pl_hidden pl) \<and>
        (if c \<in> set (pl_prepares pl) then Suc i = length (cp_steps cp) else cs_effect (cp_steps cp ! i) = ''read'') \<and>
        set (pl_scopes pl c) \<subseteq> (case pl_granted pl of None \<Rightarrow> UNIV | Some granted \<Rightarrow> set granted))"
proof -
  obtain version constraints steps ss where c: "normal_steps pl steps" "ordered_steps_of steps ss"
    "check_steps pl version constraints steps = Inr (map vs_key ss)"
    "cp_steps cp = compile_steps ss"
    using compiled_ordered[OF assms(1)] by blast
  have i: "i < length ss" using assms(2) c(4) by simp
  then have m: "ss ! i \<in> set steps" by (rule ordered_nth[OF c(2)])
  then have "capability_step pl (ss ! i) \<or> transform_step pl (ss ! i)" using c(1) by (simp add: normal_steps_def step_normal_def)
  moreover have "set (pl_scopes pl x) \<subseteq> set g" if "vs_capability (ss ! i) = Some x" "pl_granted pl = Some g" for x g
    using required_scopes_mem[OF m that(1)] check_stepsD[OF c(3)] that(2) by blast
  ultimately show ?thesis
    using prepare_is_last[OF c(1,2,3) i] i
    by (auto simp: c(4) compiled_nth capability_step_def transform_step_def split: option.splits)
qed

section \<open>A proposal of the second version\<close>

definition demo_planning :: planning where
  "demo_planning =
    \<lparr>pl_registry =
       [(''oa.workflow.done.list'', \<lparr>cap_name = ''oa.workflow.done.list'', cap_version = ''1.0.0'', cap_description = ''done'',
          cap_input = Schema (Some (TName ''object'')) (Some [(''start_date'', typed_schema ''string'')]) [] False None 0 None None None None,
          cap_output = Schema (Some (TName ''object'')) (Some [(''items'',
             Schema (Some (TName ''array'')) None [] False None 0 None None None (Some (typed_schema ''string'')))]) [] False None 0 None None None None,
          cap_effect = ''read'', cap_adapter = ''a'', cap_workflow = ''w''\<rparr>),
        (''taihua.work_log.create.prepare'', \<lparr>cap_name = ''taihua.work_log.create.prepare'', cap_version = ''1.0.0'',
          cap_description = ''log'',
          cap_input = Schema (Some (TName ''object'')) (Some [(''content'', typed_schema ''string''), (''hours'', typed_schema ''number'')])
             [''content''] True None 0 None None None None,
          cap_output = typed_schema ''object'', cap_effect = ''controlled_write'', cap_adapter = ''a'', cap_workflow = ''w''\<rparr>)],
     pl_transforms = [(''draft.v1'', \<lparr>tf_name = ''draft.v1'', tf_description = ''draft'',
          tf_input = Schema (Some (TName ''object'')) (Some [(''first'', typed_schema ''string'')]) [''first''] True None 0 None None None None,
          tf_output = Schema (Some (TName ''object'')) (Some [(''draft'', typed_schema ''string'')]) [''draft''] False None 0 None None None None,
          tf_result_projection = Some ''private_draft'', tf_required_bound = [''first'']\<rparr>)],
     pl_prepares = [''taihua.work_log.create.prepare''], pl_hidden = [''taihua.work_log.create''],
     pl_scopes = (\<lambda>_. [''oa'']), pl_granted = Some [''oa'', ''taihua''], pl_temporal = JNull,
     pl_env = \<lparr>sha_text = (\<lambda>s. ''t'' @ s), sha_json = (\<lambda>_. replicate 64 CHR ''0''), ip_literal = (\<lambda>_. False)\<rparr>\<rparr>"

definition demo_binding :: "string \<Rightarrow> string \<Rightarrow> json" where
  "demo_binding step pointer = JDict [(''mode'', JStr ''single''), (''step'', JStr step), (''pointer'', JStr pointer)]"

text \<open>The steps are proposed in reverse.\<close>

definition demo_proposal :: json where
  "demo_proposal = JDict
    [(''schemaVersion'', JStr ''agentbridge.task-plan.proposal.v2''), (''goal'', JStr '' log the day ''),
     (''constraints'', JDict [(''temporal'', JDict [(''kind'', JStr ''previous_day'')])]),
     (''steps'', JList
        [JDict [(''stepKey'', JStr ''log''), (''kind'', JStr ''capability''), (''capabilityName'', JStr ''taihua.work_log.create.prepare''),
           (''dependsOn'', JList [JStr ''draft'']), (''bindings'', JDict [(''content'', demo_binding ''draft'' ''/draft'')])],
         JDict [(''stepKey'', JStr ''draft''), (''kind'', JStr ''transform''), (''transformName'', JStr ''draft.v1''),
           (''dependsOn'', JList [JStr ''read'']), (''bindings'', JDict [(''first'', demo_binding ''read'' ''/items/0'')])],
         JDict [(''stepKey'', JStr ''read''), (''kind'', JStr ''capability''), (''capabilityName'', JStr ''oa.workflow.done.list'')]])]"

lemma demo_compiles: "isl (validate_and_compile_task_plan demo_planning demo_proposal) = False"
  by code_simp

lemma demo_compiled:
  "map (\<lambda>s. (cs_key s, cs_kind s, cs_capability s, cs_depends s))
     (cp_steps (projr (validate_and_compile_task_plan demo_planning demo_proposal))) =
   [(''read'', ''capability'', Some ''oa.workflow.done.list'', []), (''draft'', ''transform'', None, [''read'']),
    (''log'', ''capability'', Some ''taihua.work_log.create.prepare'', [''draft''])]"
  by code_simp

definition demo_compiled_plan :: compiled_plan where
  "demo_compiled_plan = projr (validate_and_compile_task_plan demo_planning demo_proposal)"

lemma demo_compiles_to: "validate_and_compile_task_plan demo_planning demo_proposal = Inr demo_compiled_plan"
  using demo_compiles unfolding demo_compiled_plan_def by (cases "validate_and_compile_task_plan demo_planning demo_proposal") auto

lemma demo_compiled_steps:
  "\<exists>x y z. cp_steps demo_compiled_plan = [x, y, z] \<and> cs_key x = ''read'' \<and> cs_kind x = ''capability'' \<and>
     cs_capability x = Some ''oa.workflow.done.list'' \<and> cs_key y = ''draft'' \<and> cs_key z = ''log''"
  using demo_compiled unfolding demo_compiled_plan_def by (auto simp: map_eq_Cons_conv)

theorem compiled_plan_well_formed_witness:
  "map cs_ordinal (cp_steps demo_compiled_plan) = [1, 2, 3] \<and> distinct (map cs_key (cp_steps demo_compiled_plan))"
proof -
  obtain x y z where "cp_steps demo_compiled_plan = [x, y, z]" using demo_compiled_steps by blast
  then show ?thesis using compiled_plan_well_formed[OF demo_compiles_to] by (simp add: upt_rec)
qed

theorem compiled_plan_least_privilege_witness:
  "cs_effect (cp_steps demo_compiled_plan ! 0) = ''read''"
proof -
  have c: "cs_capability (cp_steps demo_compiled_plan ! 0) = Some ''oa.workflow.done.list''" "0 < length (cp_steps demo_compiled_plan)"
    using demo_compiled_steps by auto
  have "''oa.workflow.done.list'' \<notin> set (pl_prepares demo_planning)" by code_simp
  then show ?thesis using compiled_plan_least_privilege[OF demo_compiles_to c(2)] unfolding c(1) by simp
qed

section \<open>Bindings\<close>

text \<open>Along the pointer, whatever declares properties is declared to be an object.\<close>

fun typed_path :: "string list \<Rightarrow> schema \<Rightarrow> bool" where
  "typed_path [] s = True"
| "typed_path (t # ts) s =
     ((sc_properties s \<noteq> None \<longrightarrow> sc_type s = Some (TName ''object'')) \<and>
      (if sc_type s = Some (TName ''object'')
       then (case map_of (properties_of s) t of None \<Rightarrow> True | Some p \<Rightarrow> typed_path ts p)
       else (case sc_items s of None \<Rightarrow> True | Some p \<Rightarrow> typed_path ts p)))"

lemma resolved_conforms:
  "conforms s v \<Longrightarrow> resolve_tokens ts v = Inr w \<Longrightarrow> schema_at_tokens ts s = Some p \<Longrightarrow> typed_path ts s \<Longrightarrow> conforms p w"
proof (induction ts v arbitrary: s rule: resolve_tokens.induct)
  case (2 t ts v)
  show ?case
  proof (cases "sc_type s = Some (TName ''object'')")
    case True
    obtain d where v: "v = JDict d"
      using "2.prems"(1) True by (subst (asm) conforms.simps) (auto simp: matches_type_name_def split: json.splits)
    obtain x where x: "map_of d t = Some x" "resolve_tokens ts x = Inr w"
      using "2.prems"(2) v by (auto split: option.splits)
    obtain q where q: "map_of (properties_of s) t = Some q" "schema_at_tokens ts q = Some p"
      using "2.prems"(3) True by (auto split: option.splits)
    have "typed_path ts q" using "2.prems"(4) True q(1) by simp
    moreover have "conforms q x"
      using "2.prems"(1) map_of_SomeD[OF x(1)] q(1) unfolding v
      by (subst (asm) conforms.simps) (auto simp: list_all_iff)
    ultimately show ?thesis using "2.IH"(2)[OF v x(1) _ x(2) q(2)] by blast
  next
    case False
    then have a: "sc_type s = Some (TName ''array'')" "py_isdigit t" "sc_properties s = None"
      using "2.prems"(3,4) by (auto split: if_splits)
    obtain xs where v: "v = JList xs"
      using "2.prems"(1) a(1) by (subst (asm) conforms.simps) (auto simp: matches_type_name_def split: json.splits)
    obtain i where i: "int_of_digits t = Some i" "i < length xs" "resolve_tokens ts (xs ! i) = Inr w"
      using "2.prems"(2) v by (auto split: option.splits if_splits)
    obtain q where q: "sc_items s = Some q" "schema_at_tokens ts q = Some p"
      using "2.prems"(3) a by (auto split: option.splits)
    have "typed_path ts q" using "2.prems"(4) a q(1) by simp
    moreover have "conforms q (xs ! i)"
      using "2.prems"(1) i(2) q(1) unfolding v by (subst (asm) conforms.simps) (auto simp: list_all_iff)
    ultimately show ?thesis using "2.IH"(1)[OF v a(2) i(1) _ _ i(3) q(2)] i(2) by (simp add: not_le)
  qed
qed simp

lemma conforms_type: "conforms s v \<Longrightarrow> sc_type s = Some t \<Longrightarrow> matches_json_type v t"
  by (subst (asm) conforms.simps) simp

lemma resolved_type:
  assumes "conforms s v" and "resolve_json_pointer v pointer = Inr w" and "schema_type_at_pointer s pointer = Some t"
    and "typed_path (pointer_tokens pointer) s"
  shows "matches_json_type w t"
  using assms conforms_type resolved_conforms[of s v "pointer_tokens pointer" w]
  by (auto simp: resolve_json_pointer_def schema_type_at_pointer_def split: if_splits option.splits)

lemma compatible_type:
  assumes "matches_type_name v t" and "types_compatible (TName t) u"
  shows "matches_json_type v u"
proof -
  have "matches_type_name v ''number''" if "matches_type_name v ''integer''" using that by (cases v) (auto simp: matches_type_name_def)
  then have "\<exists>n \<in> set (type_names u). matches_type_name v n" using assms by (auto simp: types_compatible_def)
  then show ?thesis by (cases u) (auto simp: list_ex_iff)
qed

lemma check_referenceD:
  assumes "check_reference steps ancestors key target ref = Inr ()"
  shows "br_step ref \<in> set ancestors \<and> (\<exists>source st tt. tbl_get vs_key (br_step ref) steps = Some source \<and>
    schema_type_at_pointer (vs_output source) (br_pointer ref) = Some st \<and> target = Some tt \<and> types_compatible st tt)"
  using assms by (auto simp: check_reference_def split: option.splits if_splits)

lemma checked_reference:
  assumes d: "distinct (map vs_key steps)" and s: "s \<in> set steps" and "check_step_bindings steps ancestors (vs_key s) = Inr ()"
    and b: "(name, b) \<in> set (vs_bindings s)" and r: "ref \<in> set (binding_references b)"
  shows "\<exists>up. map_of ancestors (vs_key s) = Some up \<and>
    check_reference steps up (vs_key s) (binding_target_type (vs_input s) name b) ref = Inr ()"
proof -
  have "(case map_of ancestors (vs_key s) of None \<Rightarrow> Inl PvKeyError | Some up \<Rightarrow> check_binding steps up s (name, b)) = Inr ()"
    using assms(3) b tbl_step[OF d s] by (auto simp: check_step_bindings_def forE_eq_Inr)
  then obtain up where "map_of ancestors (vs_key s) = Some up" "check_binding steps up s (name, b) = Inr ()"
    by (auto split: option.splits)
  then show ?thesis using r by (auto simp: check_binding_def forE_eq_Inr elim!: ebindE)
qed

lemma check_steps_binding:
  assumes check: "check_steps pl version constraints steps = Inr ordered" and d: "distinct (map vs_key steps)"
    and s: "s \<in> set steps" and b: "(name, b) \<in> set (vs_bindings s)" and r: "ref \<in> set (binding_references b)"
  shows "(br_step ref, vs_key s) \<in> (depends_on steps)\<^sup>+ \<and> (\<exists>source st tt. tbl_get vs_key (br_step ref) steps = Some source \<and>
    schema_type_at_pointer (vs_output source) (br_pointer ref) = Some st \<and>
    binding_target_type (vs_input s) name b = Some tt \<and> types_compatible st tt)"
proof -
  obtain ancestors where an: "dependency_ancestors steps ordered = Inr ancestors"
    and all: "\<forall>k \<in> set ordered. check_step_bindings steps ancestors k = Inr ()"
    using check_stepsD[OF check] by blast
  have "topological_order steps = Inr ordered" using check unfolding check_steps_def by (elim ebindE) simp
  then have "vs_key s \<in> set ordered" using topological_orderD[OF _ d] s by blast
  then have "check_step_bindings steps ancestors (vs_key s) = Inr ()" using all by blast
  then obtain up where up: "map_of ancestors (vs_key s) = Some up"
    "check_reference steps up (vs_key s) (binding_target_type (vs_input s) name b) ref = Inr ()"
    using checked_reference[OF d s _ b r] by blast
  then show ?thesis
    using check_referenceD[OF up(2)] ancestors_rightD[OF dependency_ancestors_right[OF d an] up(1)] by blast
qed

lemma type_names_matches: "matches_json_type v st \<longleftrightarrow> (\<exists>t \<in> set (type_names st). matches_type_name v t)"
  by (cases st) (auto simp: list_ex_iff)

lemma types_compatible_names: "types_compatible st u \<longleftrightarrow> (\<exists>t \<in> set (type_names st). types_compatible (TName t) u)"
  by (auto simp: types_compatible_def list_ex_iff)

text \<open>
  C13: What a binding that the compiler let through delivers. Its source is a step that the bound step depends on, directly
  or through others; the output schema of the source declares a type at the pointer, the input schema declares one for the
  field (for its items, when the field collects several sources), and some alternative of the one is admitted by the
  other. When the output of the source conforms to its schema and the pointer finds a value there, the value has the type declared at the
  pointer; and it has the type that the field expects if that admits every alternative, so always when the type at the pointer is a
  single one. (A type that admits null, say, is accepted for a field that does not.) This asks of the
  output schema that it declares properties only for objects on the path.
\<close>

theorem bindings_deliver_typed_values:
  assumes "check_steps pl version constraints steps = Inr ordered" and "distinct (map vs_key steps)"
    and "s \<in> set steps" and "(name, b) \<in> set (vs_bindings s)" and "ref \<in> set (binding_references b)"
    and "source \<in> set steps" and "vs_key source = br_step ref"
    and "typed_path (pointer_tokens (br_pointer ref)) (vs_output source)"
    and "conforms (vs_output source) v" and "resolve_json_pointer v (br_pointer ref) = Inr w"
  shows "(vs_key source, vs_key s) \<in> (depends_on steps)\<^sup>+ \<and>
    (\<exists>st u. schema_type_at_pointer (vs_output source) (br_pointer ref) = Some st \<and> binding_target_type (vs_input s) name b = Some u \<and>
       (\<exists>t \<in> set (type_names st). types_compatible (TName t) u) \<and> matches_json_type w st \<and>
       ((\<forall>t \<in> set (type_names st). types_compatible (TName t) u) \<longrightarrow> matches_json_type w u))"
proof -
  have "tbl_get vs_key (br_step ref) steps = Some source" by (rule tbl_get_eqI[OF assms(2,6,7)])
  then obtain st u where tt: "(br_step ref, vs_key s) \<in> (depends_on steps)\<^sup>+" "binding_target_type (vs_input s) name b = Some u"
    "schema_type_at_pointer (vs_output source) (br_pointer ref) = Some st" "types_compatible st u"
    using check_steps_binding[OF assms(1-5)] by auto
  have w: "matches_json_type w st" by (rule resolved_type[OF assms(9,10) tt(3) assms(8)])
  then obtain t where "t \<in> set (type_names st)" "matches_type_name w t" unfolding type_names_matches by blast
  then have "(\<forall>t \<in> set (type_names st). types_compatible (TName t) u) \<longrightarrow> matches_json_type w u" using compatible_type by blast
  then show ?thesis using tt w assms(7) types_compatible_names by metis
qed

definition demo_normal :: "pv_step list" where
  "demo_normal = projr (ebind (proposal_head demo_proposal) (\<lambda>(version, constraints, goal, raws).
     normalize_steps demo_planning version [] raws))"

theorem bindings_deliver_typed_values_witness:
  "\<exists>u. binding_target_type (vs_input (demo_normal ! 1)) ''first'' (BSingle \<lparr>br_step = ''read'', br_pointer = ''/items/0''\<rparr>) = Some u \<and>
     matches_json_type (JStr ''signed'') u"
proof -
  let ?r = "\<lparr>br_step = ''read'', br_pointer = ''/items/0''\<rparr>" and ?s = "demo_normal ! 1" and ?src = "demo_normal ! 2"
    and ?v = "JDict [(''items'', JList [JStr ''signed''])]" and ?c = "[(''temporal'', JDict [(''kind'', JStr ''previous_day'')])]"
  have "length demo_normal = 3" by code_simp
  then have m: "?s \<in> set demo_normal" "?src \<in> set demo_normal" by simp_all
  have "isl (check_steps demo_planning ''agentbridge.task-plan.proposal.v2'' ?c demo_normal) = False" by code_simp
  then obtain ordered where o': "check_steps demo_planning ''agentbridge.task-plan.proposal.v2'' ?c demo_normal = Inr ordered"
    by (metis isl_def sum.exhaust)
  have d: "distinct (map vs_key demo_normal)" by code_simp
  have b: "(''first'', BSingle ?r) \<in> set (vs_bindings ?s)" by code_simp
  have r: "?r \<in> set (binding_references (BSingle ?r))" by code_simp
  have k: "vs_key ?src = br_step ?r" by code_simp
  have t: "schema_type_at_pointer (vs_output ?src) (br_pointer ?r) = Some (TName ''string'')" by code_simp
  have p: "typed_path (pointer_tokens (br_pointer ?r)) (vs_output ?src)" by code_simp
  have v: "conforms (vs_output ?src) ?v" by code_simp
  have w: "resolve_json_pointer ?v (br_pointer ?r) = Inr (JStr ''signed'')" by code_simp
  show ?thesis using bindings_deliver_typed_values[OF o' d m(1) b r m(2) k p v w] t by auto
qed

section \<open>Provenance\<close>

text \<open>\<open>(k, k')\<close>: a field of step \<open>k'\<close> is bound to the output of \<open>k\<close>.\<close>

definition binding_edges :: "pv_step list \<Rightarrow> (string \<times> string) set" where
  "binding_edges steps = {(br_step r, vs_key s) | r s n b. s \<in> set steps \<and> (n, b) \<in> set (vs_bindings s) \<and> r \<in> set (binding_references b)}"

definition lineage_right :: "pv_step list \<Rightarrow> (string \<times> string list) list \<Rightarrow> bool" where
  "lineage_right steps lineage \<longleftrightarrow> (\<forall>(k, up) \<in> set lineage. \<forall>x \<in> set up. (x, k) \<in> (binding_edges steps)\<^sup>*)"

lemma lineage_rightD:
  assumes "lineage_right steps lineage" and "x \<in> set (get_default [] lineage k)"
  shows "(x, k) \<in> (binding_edges steps)\<^sup>*"
proof (cases "map_of lineage k")
  case (Some up)
  then show ?thesis using assms map_of_SomeD[OF Some] unfolding lineage_right_def by (auto simp: get_default_def)
qed (use assms(2) in \<open>simp add: get_default_def\<close>)

lemma lineage_right_append:
  "lineage_right steps (t @ [(k, up)]) \<longleftrightarrow> lineage_right steps t \<and> (\<forall>x \<in> set up. (x, k) \<in> (binding_edges steps)\<^sup>*)"
  by (auto simp: lineage_right_def)

lemma step_lineage_right:
  assumes "lineage_right steps lineage" and s: "s \<in> set steps" and x: "x \<in> set (step_lineage lineage s)"
  shows "(x, vs_key s) \<in> (binding_edges steps)\<^sup>*"
proof (cases "x = vs_key s")
  case False
  then obtain n b r where b: "(n, b) \<in> set (vs_bindings s)" "r \<in> set (binding_references b)"
    and g: "x \<in> set (get_default [] lineage (br_step r))"
    using x by (auto simp: step_lineage_def split: if_splits)
  have "(x, br_step r) \<in> (binding_edges steps)\<^sup>*" by (rule lineage_rightD[OF assms(1) g])
  moreover have "(br_step r, vs_key s) \<in> binding_edges steps" unfolding binding_edges_def using b s by blast
  ultimately show ?thesis by simp
qed simp

lemma lineage_of_right:
  assumes "lineage_of steps ordered = Inr lineage"
  shows "lineage_right steps lineage"
  using assms unfolding lineage_of_def
proof (rule foldE_invariant)
  show "lineage_right steps []" by (simp add: lineage_right_def)
next
  fix k t t'
  assume t: "lineage_right steps t" and "ebind (step_at steps k) (\<lambda>s. Inr (t @ [(k, step_lineage t s)])) = Inr t'"
  then obtain s where s: "step_at steps k = Inr s" "t' = t @ [(k, step_lineage t s)]" by (auto simp: outcome_simps)
  then have "s \<in> set steps" "k = vs_key s" using step_at_Inr by auto
  then show "lineage_right steps t'"
    using t step_lineage_right[OF t] unfolding s(2) lineage_right_append by blast
qed

lemma provenance_reaches:
  assumes "validate_v2_provenance pl steps ordered constraints = Inr u" and "s \<in> set steps" and "is_business_source s"
  shows "(vs_key s, last ordered) \<in> (binding_edges steps)\<^sup>* \<and> (descriptor_dates s \<noteq> [] \<longrightarrow> has_temporal constraints)"
proof -
  obtain lineage where lin: "lineage_of steps ordered = Inr lineage" and reach: "check_sources_reach steps lineage (last ordered) = Inr ()"
    and dates: "forE (\<lambda>s. raise_if (descriptor_dates s \<noteq> [] \<and> \<not> has_temporal constraints)
                  (PlanError ''PLAN_TEMPORAL_CONSTRAINT_REQUIRED'' (Some (vs_key s))))
              (sort_key vs_key (filter is_business_source steps)) = Inr ()"
    using assms(1) unfolding validate_v2_provenance_def Let_def
    by (elim ebindE) (auto split: list.splits elim!: ebindE)
  have "vs_key s \<in> set (get_default [] lineage (last ordered))"
    using reach assms(2,3) by (auto simp: check_sources_reach_def outcome_simps list_ex_iff)
  then have "(vs_key s, last ordered) \<in> (binding_edges steps)\<^sup>*"
    by (rule lineage_rightD[OF lineage_of_right[OF lin]])
  moreover have "descriptor_dates s \<noteq> [] \<longrightarrow> has_temporal constraints"
    using dates assms(2,3) by (auto simp: forE_eq_Inr raise_if_def split: if_splits)
  ultimately show ?thesis by blast
qed

text \<open>The sources that a compiled binding names.\<close>

definition reference_source :: "json \<Rightarrow> string list" where
  "reference_source v = (case v of JDict d \<Rightarrow> (case dget d ''step'' of JStr k \<Rightarrow> [k] | _ \<Rightarrow> []) | _ \<Rightarrow> [])"

definition binding_sources :: "json \<Rightarrow> string list" where
  "binding_sources v = (case v of
     JDict d \<Rightarrow> (case dget d ''items'' of JList items \<Rightarrow> concat (map reference_source items) | _ \<Rightarrow> reference_source v) | _ \<Rightarrow> [])"

definition compiled_edges :: "compiled_step list \<Rightarrow> (string \<times> string) set" where
  "compiled_edges steps = {(k, cs_key s) | k s d n v. s \<in> set steps \<and> cs_bindings s = JDict d \<and> (n, v) \<in> set d \<and> k \<in> set (binding_sources v)}"

lemma binding_sources_json: "binding_sources (binding_json b) = map br_step (binding_references b)"
  by (cases b) (simp_all add: binding_sources_def reference_source_def binding_references_def dget_def comp_def)

lemma binding_edges_compiled:
  assumes "set ss = set steps"
  shows "binding_edges steps \<subseteq> compiled_edges (compile_steps ss)"
proof
  fix e assume "e \<in> binding_edges steps"
  then obtain r s n b where e: "e = (br_step r, vs_key s)" "s \<in> set steps" "(n, b) \<in> set (vs_bindings s)" "r \<in> set (binding_references b)"
    unfolding binding_edges_def by blast
  obtain i where i: "i < length ss" "ss ! i = s" using e(2) assms by (metis in_set_conv_nth)
  have "compile_step (Suc i) s \<in> set (compile_steps ss)" using i by (metis compiled_nth length_compile_steps nth_mem)
  moreover have "cs_bindings (compile_step (Suc i) s) = JDict (map (\<lambda>(n, b). (n, binding_json b)) (vs_bindings s))"
    by (simp add: compile_step_def)
  moreover have "(n, binding_json b) \<in> set (map (\<lambda>(n, b). (n, binding_json b)) (vs_bindings s))" using e(3) by force
  moreover have "br_step r \<in> set (binding_sources (binding_json b))" using e(4) by (simp add: binding_sources_json)
  moreover have "e = (br_step r, cs_key (compile_step (Suc i) s))" using e(1) by simp
  ultimately show "e \<in> compiled_edges (compile_steps ss)" unfolding compiled_edges_def by blast
qed

text \<open>
  C14: A compiled plan of the second version uses every business source it reads. From each step that
  reads a business source a chain of bindings leads to the last step of the plan, so no source is
  queried whose data does not flow into the result.
\<close>

theorem sources_flow_into_the_result:
  assumes "validate_and_compile_task_plan pl proposal = Inr cp" and "cp_schema cp = Some ''agentbridge.task-plan.proposal.v2''"
    and "s \<in> set (cp_steps cp)" and "cs_kind s = ''capability''" and "cs_capability s = Some c"
    and "planning_descriptor c = Some desc" and "''business_source'' \<in> set (pd_roles desc)"
  shows "(cs_key s, cs_key (last (cp_steps cp))) \<in> (compiled_edges (cp_steps cp))\<^sup>*"
proof -
  obtain version constraints goal steps ordered ss where n: "normal_steps pl steps" "dependency_ordered steps ordered"
    "check_steps pl version constraints steps = Inr ordered" "mapE (step_at steps) ordered = Inr ss"
    "cp = compiled_plan_of pl version constraints goal steps ss"
    using compileD[OF assms(1)] by blast
  have os: "ordered_steps_of steps ss" "map vs_key ss = ordered"
    using ordered_steps[OF n(2,4)] mapE_step_at[OF n(4)] n(1) by (auto simp: normal_steps_def)
  have "version = ''agentbridge.task-plan.proposal.v2''" using assms(2) n(5) by (simp add: compiled_plan_of_def Let_def)
  moreover have "endswith ''agentbridge.task-plan.proposal.v2'' ''.v2''" by code_simp
  ultimately have prov: "validate_v2_provenance pl steps ordered constraints = Inr ()" using check_stepsD[OF n(3)] by blast
  obtain k x where x: "x \<in> set ss" "s = compile_step k x" using assms(3) n(5) compiled_step_of by (metis cp_steps_compiled)
  have "c \<noteq> []" using assms(6) by (auto simp: planning_descriptor_def descriptors_def)
  then have "is_business_source x" using assms(4-7) x(2) by (simp add: is_business_source_def or_text_def)
  moreover have "x \<in> set steps" using x(1) os(1) unfolding ordered_steps_of_def by blast
  ultimately have "(vs_key x, last ordered) \<in> (binding_edges steps)\<^sup>*" using provenance_reaches[OF prov] by blast
  moreover have "binding_edges steps \<subseteq> compiled_edges (compile_steps ss)"
    using os(1) by (intro binding_edges_compiled) (simp add: ordered_steps_of_def)
  ultimately have "(vs_key x, last ordered) \<in> (compiled_edges (compile_steps ss))\<^sup>*" using rtrancl_mono by blast
  moreover have "last ordered = cs_key (last (compile_steps ss))"
    using x(1) os(2) compiled_keys[of ss] by (metis last_map length_compile_steps length_pos_if_in_set list.size(3) not_less_zero)
  ultimately show ?thesis using x(2) n(5) by simp
qed

theorem sources_flow_into_the_result_witness:
  "(''read'', ''log'') \<in> (compiled_edges (cp_steps demo_compiled_plan))\<^sup>*"
proof -
  obtain x y z where cp: "cp_steps demo_compiled_plan = [x, y, z]" "cs_key x = ''read''" "cs_kind x = ''capability''"
    "cs_capability x = Some ''oa.workflow.done.list''" "cs_key z = ''log''" using demo_compiled_steps by blast
  have v: "cp_schema demo_compiled_plan = Some ''agentbridge.task-plan.proposal.v2''" unfolding demo_compiled_plan_def by code_simp
  have d: "planning_descriptor ''oa.workflow.done.list'' =
      Some \<lparr>pd_tool = Some ''oa_workflow_done_list'', pd_roles = [''business_source''],
        pd_dates = [''start_date'', ''end_date''], pd_date_basis = ''processed_at'', pd_provenance = []\<rparr>" by code_simp
  have "x \<in> set (cp_steps demo_compiled_plan)" using cp(1) by simp
  from sources_flow_into_the_result[OF demo_compiles_to v this cp(3,4) d] show ?thesis using cp by simp
qed

section \<open>Errors\<close>

text \<open>A failure that is not one of the program's own lookups or conversions.\<close>

definition sound_failure :: "pv_error + 'a \<Rightarrow> bool" where
  "sound_failure m \<longleftrightarrow> m \<noteq> Inl PvKeyError \<and> m \<noteq> Inl PvValueError"

lemma sound_failure_simps [simp]:
  "sound_failure (Inr x)" "sound_failure (Inl (PlanError c k))" "sound_failure (Inl PvTypeError)"
  by (simp_all add: sound_failure_def)

lemma sound_failure_raise_if [simp]: "sound_failure (raise_if c (PlanError e k))"
  by (cases c) simp_all

lemma sound_ebind [intro]:
  "sound_failure m \<Longrightarrow> (\<And>x. m = Inr x \<Longrightarrow> sound_failure (f x)) \<Longrightarrow> sound_failure (ebind m f)"
  by (cases m) (auto simp: sound_failure_def)

lemma sound_if: "(c \<Longrightarrow> sound_failure m) \<Longrightarrow> (\<not> c \<Longrightarrow> sound_failure n) \<Longrightarrow> sound_failure (if c then m else n)"
  by simp

lemma sound_forE: "(\<And>x. x \<in> set xs \<Longrightarrow> sound_failure (f x)) \<Longrightarrow> sound_failure (forE f xs)"
  by (induction xs) auto

lemma sound_mapE: "(\<And>x. x \<in> set xs \<Longrightarrow> sound_failure (f x)) \<Longrightarrow> sound_failure (mapE f xs)"
proof (induction xs)
  case (Cons x xs)
  then show ?case unfolding mapE.simps by (intro sound_ebind) simp_all
qed simp

lemma sound_pv_required_text [simp]: "sound_failure (pv_required_text v n)"
  by (simp add: pv_required_text_def Let_def split: json.split)

lemma sound_in_texts [simp]: "sound_failure (in_texts v ts)"
  by (simp add: in_texts_def split: json.split)

lemma sound_reference [simp]: "sound_failure (normalize_binding_reference d key)"
  unfolding normalize_binding_reference_def by (rule sound_ebind) (simp_all split: json.split)

lemma sound_binding_item [simp]: "sound_failure (normalize_binding_item key item)"
  by (simp add: normalize_binding_item_def split: json.split)

lemma sound_binding [simp]: "sound_failure (normalize_binding key version entry)"
proof -
  have "sound_failure (ebind (normalize_binding_reference d key) (\<lambda>r. Inr (f r)))" for d and f :: "binding_ref \<Rightarrow> string \<times> binding"
    by (rule sound_ebind) simp_all
  moreover have "sound_failure (ebind (mapE (normalize_binding_item key) items) (\<lambda>r. Inr (f r)))" for items and f :: "binding_ref list \<Rightarrow> string \<times> binding"
    by (rule sound_ebind) (simp_all add: sound_mapE)
  ultimately show ?thesis by (cases entry) (simp add: normalize_binding_def split: json.split)
qed

lemma sound_bindings [simp]: "sound_failure (normalize_bindings v key version)"
  by (simp add: normalize_bindings_def sound_mapE split: json.split)

lemma sound_constraints [simp]: "sound_failure (normalize_constraints v version)"
proof -
  have "sound_failure (ebind (in_texts w ts) (\<lambda>k. if \<not> k then Inl (schema_invalid None) else if c then Inl (schema_invalid None)
      else if c' then Inl (schema_invalid None) else if c'' then Inl (schema_invalid None) else Inr r))"
    for w ts c c' c'' and r :: "(string \<times> json) list"
    by (rule sound_ebind) simp_all
  then show ?thesis by (simp add: normalize_constraints_def split: json.split)
qed

lemma sound_partial_input [simp]: "sound_failure (validate_partial_input arguments bound s key)"
  by (simp add: validate_partial_input_def raise_input_issue_def split: option.split schema_type.split)

lemma sound_capability_target [simp]: "sound_failure (capability_target pl raw key)"
  unfolding capability_target_def by (rule sound_ebind) (simp_all split: sum.split)

lemma sound_transform_target [simp]: "sound_failure (transform_target pl raw key bindings)"
  unfolding transform_target_def by (rule sound_ebind) (simp_all split: sum.split)

lemma sound_depends_texts [simp]: "sound_failure (depends_texts v key)"
  by (simp add: depends_texts_def split: json.split)

lemma sound_object_or_empty [simp]: "sound_failure (object_or_empty v key)"
  by (simp add: object_or_empty_def split: json.split)

lemma sound_normalize_step [simp]: "sound_failure (normalize_step pl version seen raw)"
  unfolding normalize_step_def by (cases raw) (auto simp only: json.simps intro!: sound_if sound_ebind; simp)+

lemma sound_normalize_steps [simp]: "sound_failure (normalize_steps pl version done raws)"
  by (induction raws arbitrary: "done") auto

lemma sound_proposal_head [simp]: "sound_failure (proposal_head proposal)"
proof -
  have "sound_failure (case dget p ''steps'' of JList raws \<Rightarrow> if raws = [] then Inl (schema_invalid None)
      else if length raws > 12 then Inl (schema_invalid None) else Inr (f raws) | _ \<Rightarrow> Inl (schema_invalid None))"
    for p and f :: "json list \<Rightarrow> string \<times> (string \<times> json) list \<times> string \<times> json list"
    by (simp split: json.split)
  then have "sound_failure (ebind (normalize_constraints c version) (\<lambda>constraints. ebind (pv_required_text g 500) (\<lambda>goal.
      case dget p ''steps'' of JList raws \<Rightarrow> if raws = [] then Inl (schema_invalid None)
      else if length raws > 12 then Inl (schema_invalid None) else Inr (version, constraints, goal, raws)
      | _ \<Rightarrow> Inl (schema_invalid None))))" for p c g version
    by (intro sound_ebind) simp_all
  then show ?thesis unfolding proposal_head_def
    by (cases proposal) (auto simp only: json.simps sound_failure_simps intro!: sound_if sound_ebind sound_in_texts split: json.split)
qed


lemma sound_check_depends [simp]: "sound_failure (check_depends keys s)"
  by (simp add: check_depends_def)

lemma sound_place_all [simp]: "sound_failure (place_all f rem)"
proof (induction f rem rule: place_all.induct)
  case (1 f rem)
  show ?case
  proof (cases "rem = [] \<or> ready_keys f rem = []")
    case False
    have "sound_failure (ebind (place_all f (place_ready (ready_keys f rem) rem)) (\<lambda>rest. Inr (ready_keys f rem @ rest)))"
      by (rule sound_ebind) (use 1 False in auto)
    then show ?thesis using False by (subst place_all.simps) simp
  next
    case True
    then show ?thesis by (subst place_all.simps) auto
  qed
qed

lemma sound_topological_order [simp]: "sound_failure (topological_order steps)"
  unfolding topological_order_def by (rule sound_ebind) (simp_all add: sound_forE)

lemma sound_check_reference [simp]: "sound_failure (check_reference steps ancestors key target ref)"
  by (simp add: check_reference_def split: option.split)

lemma sound_check_binding [simp]: "sound_failure (check_binding steps ancestors s entry)"
  unfolding check_binding_def by (cases entry) (simp, rule sound_ebind; simp add: sound_forE)

lemma sound_check_step_bindings:
  assumes "distinct (map vs_key steps)" and "k \<in> vs_key ` set steps" and "k \<in> fst ` set ancestors"
  shows "sound_failure (check_step_bindings steps ancestors k)"
proof -
  obtain s where s: "step_at steps k = Inr s" using step_at_known[OF assms(1,2)] by blast
  obtain up where "map_of ancestors k = Some up" using assms(3) by (metis domD dom_map_of_conv_image_fst)
  then show ?thesis by (simp add: check_step_bindings_def s sound_forE)
qed

lemma step_at_sound: "distinct (map vs_key steps) \<Longrightarrow> k \<in> vs_key ` set steps \<Longrightarrow> sound_failure (step_at steps k)"
  using step_at_known by fastforce

lemma sound_lineage_of:
  assumes "distinct (map vs_key steps)" and "set ordered \<subseteq> vs_key ` set steps"
  shows "sound_failure (lineage_of steps ordered)"
proof -
  have "sound_failure (foldE (\<lambda>key lineage. ebind (step_at steps key) (\<lambda>s. Inr (lineage @ [(key, step_lineage lineage s)]))) ks acc)"
    if "set ks \<subseteq> vs_key ` set steps" for ks acc
    using that
  proof (induction ks arbitrary: acc)
    case (Cons k ks)
    obtain s where "step_at steps k = Inr s" using step_at_known[OF assms(1)] Cons.prems by auto
    then show ?case using Cons by simp
  qed simp
  then show ?thesis using assms(2) by (simp add: lineage_of_def)
qed

text \<open>A step of kind transform names a registered transform.\<close>

lemma projection_sound:
  assumes "step_normal pl s" and "vs_kind s = ''transform''"
  shows "sound_failure (projection_of pl s)"
  using assms by (auto simp: step_normal_def capability_step_def transform_step_def projection_of_def or_text_def)

lemma sound_draft_reference:
  assumes n: "normal_steps pl steps" and "br_step ref \<in> vs_key ` set steps"
  shows "sound_failure (check_draft_reference pl steps key ref)"
proof -
  obtain s where s: "s \<in> set steps" "step_at steps (br_step ref) = Inr s"
    using step_at_known[of steps] assms unfolding normal_steps_def by blast
  have "sound_failure (ebind (projection_of pl s) (\<lambda>p. if p \<noteq> Some ''private_draft''
      then Inl (PlanError ''PLAN_PROVENANCE_REQUIRED'' (Some key)) else Inr ()))" if "vs_kind s = ''transform''"
    using projection_sound[of pl s] n s(1) that by (intro sound_ebind) (auto simp: normal_steps_def)
  then show ?thesis by (simp add: check_draft_reference_def s(2))
qed

lemma sound_provenance:
  assumes n: "normal_steps pl steps" and ord: "dependency_ordered steps ordered"
    and refs: "\<And>s name b ref. s \<in> set steps \<Longrightarrow> (name, b) \<in> set (vs_bindings s) \<Longrightarrow> ref \<in> set (binding_references b) \<Longrightarrow> br_step ref \<in> vs_key ` set steps"
  shows "sound_failure (validate_v2_provenance pl steps ordered constraints)"
proof -
  have d: "distinct (map vs_key steps)" and set_ord: "set ordered = vs_key ` set steps" "ordered \<noteq> []"
    using n ord by (auto simp: normal_steps_def dependency_ordered_def)
  then have "last ordered \<in> vs_key ` set steps" by (metis last_in_set)
  then obtain t where t: "t \<in> set steps" "step_at steps (last ordered) = Inr t" using step_at_known[OF d] by blast
  have final: "sound_failure (projection_of pl t)" if "vs_kind t = ''transform''"
    using projection_sound[of pl t] n t(1) that by (simp add: normal_steps_def)
  have sink: "sound_failure (forE (check_sink_field pl steps s) fields)" if s: "s \<in> set steps" for s fields
  proof (rule sound_forE)
    fix field :: "string \<times> string"
    obtain name rule where f: "field = (name, rule)" by (cases field)
    show "sound_failure (check_sink_field pl steps s field)"
    proof (cases "map_of (vs_bindings s) name")
      case (Some b)
      have "sound_failure (forE (check_draft_reference pl steps (vs_key s)) (binding_references b))"
        using refs[OF s map_of_SomeD[OF Some]] by (intro sound_forE sound_draft_reference[OF n])
      then show ?thesis by (simp add: check_sink_field_def f Some)
    qed (simp add: check_sink_field_def f)
  qed
  have reach: "sound_failure (check_sources_reach steps lineage k)" for lineage k by (simp add: check_sources_reach_def)
  have rest: "sound_failure (case write_steps pl steps of
        [] \<Rightarrow> ebind (check_sources_reach steps lineage (last ordered)) (\<lambda>_. ebind (step_at steps (last ordered)) (\<lambda>terminal.
          if vs_kind terminal \<noteq> ''transform'' then Inl (PlanError ''PLAN_RESULT_PROJECTION_REQUIRED'' (Some (last ordered)))
          else ebind (projection_of pl terminal) (\<lambda>p.
            raise_if (\<not> filled p) (PlanError ''PLAN_RESULT_PROJECTION_REQUIRED'' (Some (last ordered))))))
      | sink_key # _ \<Rightarrow> ebind (step_at steps sink_key) (\<lambda>sink. ebind (forE (check_sink_field pl steps sink)
             (case planning_descriptor (or_text (vs_capability sink) []) of None \<Rightarrow> [] | Some d \<Rightarrow> pd_provenance d)) (\<lambda>_.
          check_sources_reach steps lineage (last ordered))))" for lineage
  proof (cases "write_steps pl steps")
    case Nil
    then show ?thesis using final t(2) reach by (auto intro!: sound_ebind)
  next
    case (Cons k ks)
    then have "k \<in> vs_key ` set steps" using write_steps_mem[of k pl steps] by auto
    then obtain s where "s \<in> set steps" "step_at steps k = Inr s" using step_at_known[OF d] by blast
    then show ?thesis using sink reach Cons by (auto intro!: sound_ebind)
  qed
  show ?thesis unfolding validate_v2_provenance_def Let_def
    by (intro sound_ebind sound_forE sound_lineage_of[OF d] rest) (use set_ord in simp_all)
qed

lemma sound_check_steps:
  assumes n: "normal_steps pl steps"
  shows "sound_failure (check_steps pl version constraints steps)"
proof -
  have d: "distinct (map vs_key steps)" using n by (simp add: normal_steps_def)
  have tail: "sound_failure (ebind (forE (check_step_bindings steps ancestors) ordered) (\<lambda>_.
     ebind (case write_steps pl steps of [] \<Rightarrow> Inr ()
        | k # _ \<Rightarrow> raise_if (last ordered \<noteq> k) (PlanError ''PLAN_WRITE_SINK_NOT_FINAL'' (Some k))) (\<lambda>_.
     ebind (if endswith version ''.v2'' then validate_v2_provenance pl steps ordered constraints else Inr ()) (\<lambda>_.
     ebind (case pl_granted pl of None \<Rightarrow> Inr ()
        | Some granted \<Rightarrow> raise_if (list_ex (\<lambda>x. x \<notin> set granted) (required_scopes pl steps))
            (PlanError ''PLAN_SCOPE_MISSING'' None)) (\<lambda>_.
     Inr ordered)))))"
    if ord: "dependency_ordered steps ordered" and an: "dependency_ancestors steps ordered = Inr ancestors" for ordered ancestors
  proof (intro sound_ebind sound_forE sound_if)
    have "fst ` set ancestors = set ordered" using dependency_ancestors_returns[OF d ord] an by auto
    then show "sound_failure (check_step_bindings steps ancestors k)" if "k \<in> set ordered" for k
      using that ord by (intro sound_check_step_bindings[OF d]) (auto simp: dependency_ordered_def)
    fix u assume checked: "forE (check_step_bindings steps ancestors) ordered = Inr u"
    have "br_step ref \<in> vs_key ` set steps"
      if "s \<in> set steps" "(name, b) \<in> set (vs_bindings s)" "ref \<in> set (binding_references b)" for s name b ref
    proof -
      have "vs_key s \<in> set ordered" using ord that(1) unfolding dependency_ordered_def by blast
      then have "check_step_bindings steps ancestors (vs_key s) = Inr ()" using checked by (simp add: forE_eq_Inr)
      from checked_reference[OF d that(1) this that(2,3)]
      obtain up where "check_reference steps up (vs_key s) (binding_target_type (vs_input s) name b) ref = Inr ()" by blast
      from check_referenceD[OF this] obtain source where "tbl_get vs_key (br_step ref) steps = Some source" by blast
      from tbl_get_mem[OF this] show ?thesis by (metis image_eqI)
    qed
    then show "sound_failure (validate_v2_provenance pl steps ordered constraints)" by (rule sound_provenance[OF n ord])
  qed (simp_all split: list.split option.split)
  have ord: "dependency_ordered steps ordered" if "topological_order steps = Inr ordered" for ordered
    using topological_order_ordered[OF that d] .
  have anc: "sound_failure (dependency_ancestors steps ordered)" if "topological_order steps = Inr ordered" for ordered
    using dependency_ancestors_returns[OF d ord[OF that]] by auto
  show ?thesis unfolding check_steps_def
    apply (rule sound_ebind, simp)
    apply (rule sound_ebind, simp)
    apply (rule sound_ebind, erule anc)
    apply (rule tail, erule ord, assumption)
    done
qed

text \<open>
  The compiler never fails on its own lookups. Whatever a model proposes, the compiler returns a
  plan, rejects the proposal with a code, or meets a list or an object where it tests a text for
  membership; it never asks its tables for a key that is not there and never converts a text that is no
  number.
\<close>

theorem compiler_lookups_never_fail:
  "validate_and_compile_task_plan pl proposal \<noteq> Inl PvKeyError \<and> validate_and_compile_task_plan pl proposal \<noteq> Inl PvValueError"
proof -
  have "sound_failure (validate_and_compile_task_plan pl proposal)"
    unfolding validate_and_compile_task_plan_def
  proof (intro sound_ebind sound_proposal_head, clarify)
    fix version constraints goal raws assume head: "proposal_head proposal = Inr (version, constraints, goal, raws)"
    show "sound_failure (ebind (normalize_steps pl version [] raws) (\<lambda>steps.
        ebind (check_steps pl version constraints steps) (\<lambda>ordered. ebind (mapE (step_at steps) ordered) (\<lambda>ordered_steps.
        Inr (compiled_plan_of pl version constraints goal steps ordered_steps)))))"
    proof (intro sound_ebind sound_normalize_steps)
      fix steps assume "normalize_steps pl version [] raws = Inr steps"
      then have n: "normal_steps pl steps" by (rule compile_normal[OF head])
      then show "sound_failure (check_steps pl version constraints steps)" by (rule sound_check_steps)
      fix ordered assume "check_steps pl version constraints steps = Inr ordered"
      then have "topological_order steps = Inr ordered" unfolding check_steps_def by (elim ebindE) simp
      then have "dependency_ordered steps ordered" using topological_order_ordered n unfolding normal_steps_def by blast
      then show "sound_failure (mapE (step_at steps) ordered)"
        using n by (intro sound_mapE step_at_sound) (auto simp: dependency_ordered_def normal_steps_def)
    qed simp
  qed
  then show ?thesis by (simp add: sound_failure_def)
qed


text \<open>
  An array index that is not decimal slips through the compiler and fails at run time. The
  superscript digits satisfy \<open>str.isdigit\<close>, so the compiler finds a type at the pointer and accepts a
  binding through it, but \<open>int\<close> rejects them: resolving the pointer raises Python's ValueError
  for every array, not the binding error that other bad pointers give.
\<close>

theorem superscript_index_slips_through:
  "schema_type_at_pointer (Schema (Some (TName ''array'')) None [] False None 0 None None None (Some (typed_schema ''string'')))
     [CHR ''/'', CHR 0xB2] = Some (TName ''string'') \<and>
   (\<forall>xs. resolve_json_pointer (JList xs) [CHR ''/'', CHR 0xB2] = Inl PvValueError)"
proof
  have "pointer_tokens [CHR ''/'', CHR 0xB2] = [[CHR 0xB2]]" by code_simp
  moreover have "py_isdigit [CHR 0xB2]" "int_of_digits [CHR 0xB2] = None" by code_simp+
  ultimately show "\<forall>xs. resolve_json_pointer (JList xs) [CHR ''/'', CHR 0xB2] = Inl PvValueError"
    by (simp add: resolve_json_pointer_def)
qed code_simp

lemma compiled_keys_of_compiler:
  "validate_and_compile_task_plan pl proposal = Inr cp \<Longrightarrow> compiled_keys_ok cp"
  using compiled_ordered[of pl proposal cp] compiled_step_of normal_step_key
  unfolding compiled_keys_ok_def list_all_iff normal_steps_def ordered_steps_of_def by fastforce

lemma compiled_depends_earlier:
  assumes "validate_and_compile_task_plan pl proposal = Inr cp" and "s \<in> set (cp_steps cp)" and "d \<in> set (cs_depends s)"
  shows "\<exists>t \<in> set (cp_steps cp). cs_key t = d \<and> cs_ordinal t < cs_ordinal s"
proof -
  obtain version constraints steps ss where c: "normal_steps pl steps" "ordered_steps_of steps ss"
    "cp_steps cp = compile_steps ss" using compiled_ordered[OF assms(1)] by blast
  obtain i where i: "i < length ss" "s = compile_step (Suc i) (ss ! i)"
    using assms(2) unfolding c(3) in_set_conv_nth by (metis compiled_nth length_compile_steps)
  have "d \<in> vs_key ` set (take i ss)" using ordered_depends[OF c(2) i(1)] assms(3) i(2) by auto
  then obtain j where j: "j < i" "vs_key (ss ! j) = d" using i(1) by (auto simp: in_set_conv_nth)
  then have "compile_step (Suc j) (ss ! j) \<in> set (compile_steps ss)"
    using i(1) by (metis compiled_nth length_compile_steps nth_mem order_less_trans)
  then show ?thesis using j i(2) c(3) by (intro bexI[of _ "compile_step (Suc j) (ss ! j)"]) (simp_all add: compile_step_def)
qed

lemma compiled_rows_deps:
  assumes "validate_and_compile_task_plan pl proposal = Inr cp"
  shows "deps_earlier (compiled_rows now uuid uuids (cp_steps cp))"
proof -
  have new: "\<exists>r \<in> set (compiled_rows now uuid uuids cs). ts_key r = cs_key c \<and> ts_ordinal r = cs_ordinal c" if "c \<in> set cs" for c cs
  proof -
    obtain n where "n < length cs" "cs ! n = c" using \<open>c \<in> set cs\<close> by (metis in_set_conv_nth)
    then have "(n, c) \<in> set (enumerate 0 cs)" by (simp add: in_set_enumerate_eq)
    then show ?thesis unfolding compiled_rows_def by (intro bexI[of _ "ts_new_row now (uuids n) uuid c"]) force+
  qed
  show ?thesis unfolding deps_earlier_def
  proof (intro ballI)
    fix s d assume s: "s \<in> set (compiled_rows now uuid uuids (cp_steps cp))" "d \<in> set (ts_depends s)"
    obtain n c where c: "c \<in> set (cp_steps cp)" "s = ts_new_row now (uuids n) uuid c" using compiled_row[OF s(1)] by blast
    have "d \<in> set (cs_depends c)" using s(2) c(2) by (simp add: ts_new_row_def)
    then obtain t where t: "t \<in> set (cp_steps cp)" "cs_key t = d" "cs_ordinal t < cs_ordinal c"
      using compiled_depends_earlier[OF assms c(1)] by blast
    then show "\<exists>t \<in> set (compiled_rows now uuid uuids (cp_steps cp)). ts_key t = d \<and> ts_ordinal t < ts_ordinal s"
      using new[OF t(1)] c(2) by auto
  qed
qed

lemma deps_earlier_contract:
  assumes "map ts_contract xs = map ts_contract ys" and "deps_earlier ys"
  shows "deps_earlier xs"
proof -
  have k: "map (\<lambda>s. (ts_key s, ts_ordinal s, ts_depends s)) zs = map (\<lambda>c. (fst c ! 2, fst (snd c), fst (snd (snd (snd c))))) (map ts_contract zs)" for zs
    by (simp add: ts_contract_def)
  have img: "(\<lambda>s. (ts_key s, ts_ordinal s, ts_depends s)) ` set xs = (\<lambda>s. (ts_key s, ts_ordinal s, ts_depends s)) ` set ys"
    using arg_cong[OF assms(1), of "\<lambda>cs. set (map (\<lambda>c. (fst c ! 2, fst (snd c), fst (snd (snd (snd c))))) cs)"]
    unfolding k[symmetric] by simp
  have char: "deps_earlier zs \<longleftrightarrow> (\<forall>(k, n, ds) \<in> (\<lambda>s. (ts_key s, ts_ordinal s, ts_depends s)) ` set zs. \<forall>d \<in> set ds.
      \<exists>(k', n', ds') \<in> (\<lambda>s. (ts_key s, ts_ordinal s, ts_depends s)) ` set zs. k' = d \<and> n' < n)" for zs
    unfolding deps_earlier_def by auto
  show ?thesis using assms(2) by (simp only: char img)
qed

text \<open>
  C12: A plan that was compiled and stored never gets stuck. When the store created a plan from a
  proposal that the compiler accepted, then after any further transactions, as long as the plan is
  active, the store hands its owner a step to work on, or all its steps have succeeded, nothing is
  written, and the plan can be completed.
\<close>

theorem compiled_plan_is_never_stuck:
  assumes "validate_and_compile_task_plan pl proposal = Inr (tq_plan req)" and "tp_inv db"
    and "tp_create now uuid uuids req db = (Inr ((sn, False), db1) :: 'e tp_error + (tp_snapshot \<times> bool) \<times> tp_db)"
    and "db2 = run (tp_exec :: 'e tp_op \<Rightarrow> _) ops db1"
    and "tbl_get tp_id uuid (tp_plans db2) = Some plan" and "tp_state plan \<in> active_plan_states"
  shows "(\<exists>s b db'. tp_begin_next_step t uuid (tp_user plan) db2 = (Inr (Some (s, b), db') :: 'e tp_error + (ts_row \<times> bool) option \<times> tp_db)) \<or>
    (\<forall>s \<in> set (own_steps db2 plan). ts_state s = StSucceeded) \<and>
    tp_begin_next_step t uuid (tp_user plan) db2 = (Inr (None, db2) :: 'e tp_error + (ts_row \<times> bool) option \<times> tp_db) \<and>
    (\<exists>sn db'. tp_complete t' uuid (tp_user plan) reason False eff db2 = (Inr (sn, db') :: 'e tp_error + tp_snapshot \<times> tp_db) \<and>
       tp_state (sn_plan sn) = PlSucceeded)"
proof -
  have inv1: "tp_inv db1" using tp_create_inv[OF assms(2) compiled_keys_of_compiler[OF assms(1)] assms(3)] by blast
  obtain r where r: "tbl_get tp_id uuid (tp_plans db1) = Some r"
    "own_steps db1 r = compiled_rows now uuid uuids (cp_steps (tq_plan req))"
    using tp_created[OF assms(2,3)] by blast
  obtain plan' where "tbl_get tp_id uuid (tp_plans db2) = Some plan'"
    "tp_edge\<^sup>*\<^sup>* (tp_view_of r (own_steps db1 r)) (tp_view_of plan' (own_steps db2 plan'))"
    using tp_view_stands[OF inv1 r(1), of ops] unfolding assms(4) by blast
  then have "tp_edge\<^sup>*\<^sup>* (tp_view_of r (own_steps db1 r)) (tp_view_of plan (own_steps db2 plan))" using assms(5) by simp
  from tp_edge_contract[OF this] have "map ts_contract (own_steps db2 plan) = map ts_contract (own_steps db1 r)" by (simp add: tp_view_of_def)
  then have "deps_earlier (own_steps db2 plan)" using deps_earlier_contract compiled_rows_deps[OF assms(1)] r(2) by metis
  moreover have "tp_inv db2" unfolding assms(4) by (rule tp_ledger.inv_run[OF inv1])
  ultimately show ?thesis using tp_work_or_done[OF _ assms(5,6)] by blast
qed


definition compiled_request :: tp_request where
  "compiled_request = tp_demo_request\<lparr>tq_plan := demo_compiled_plan\<rparr>"

theorem compiled_plan_is_never_stuck_witness:
  "\<exists>s b db db'. tp_begin_next_step 1 ''p9'' (py_strip (tq_user compiled_request)) db =
     (Inr (Some (s, b), db') :: string tp_error + (ts_row \<times> bool) option \<times> tp_db)"
proof -
  let ?out = "tp_create 0 ''p9'' nat_text compiled_request tp_empty :: string tp_error + (tp_snapshot \<times> bool) \<times> tp_db"
  have "map_sum (\<lambda>e. e = TpValueError) (\<lambda>((sn, reused), db). (reused, map (\<lambda>r. (tp_id r, tp_state r)) (tp_plans db),
      map ts_state (tp_steps db), map ts_plan (tp_steps db))) ?out =
      Inr (False, [(''p9'', PlValidated)], [StQueued, StQueued, StQueued], [''p9'', ''p9'', ''p9''])"
    unfolding compiled_request_def demo_compiled_plan_def by code_simp
  then obtain sn db1 where out: "?out = Inr ((sn, False), db1)" and cols: "map (\<lambda>r. (tp_id r, tp_state r)) (tp_plans db1) = [(''p9'', PlValidated)]"
    "map ts_state (tp_steps db1) = [StQueued, StQueued, StQueued]" "map ts_plan (tp_steps db1) = [''p9'', ''p9'', ''p9'']"
    by (cases ?out) (auto split: prod.splits)
  obtain plan where plan: "tbl_get tp_id ''p9'' (tp_plans db1) = Some plan" "tp_user plan = py_strip (tq_user compiled_request)"
    using tp_created[OF tp_inv_empty out] by blast
  then have id: "tp_id plan = ''p9''" "tp_state plan \<in> active_plan_states"
    using cols(1) tbl_get_mem[OF plan(1)] by (auto simp: active_plan_states_def map_eq_Cons_conv)
  have c: "validate_and_compile_task_plan demo_planning demo_proposal = Inr (tq_plan compiled_request)"
    using demo_compiles_to by (simp add: compiled_request_def)
  have "\<exists>s \<in> set (own_steps db1 plan). ts_state s = StQueued"
    using cols(2,3) by (auto simp: own_steps_def id map_eq_Cons_conv)
  then have "\<not> (\<forall>s \<in> set (own_steps db1 plan). ts_state s = StSucceeded)" by force
  moreover have "db1 = run (tp_exec :: string tp_op \<Rightarrow> _) [] db1" by simp
  ultimately show ?thesis
    using compiled_plan_is_never_stuck[OF c tp_inv_empty out _ plan(1) id(2), of "[]" 1] plan(2) by metis
qed

end
