(* ===== verification/CapabilityEngine.thy ===== *)
theory CapabilityEngine
  imports Planning Operations
begin

text \<open>
  The execution of capabilities, \<open>agentbridge/core/capability_runtime.py\<close>: the engine checks
  the arguments, creates an operation, runs the registered handler and records how it ended.
  A handler is a function on an arbitrary state \<open>'s\<close>, the world outside the operation store.
\<close>

section \<open>Handlers\<close>

record cap_context =
  cx_user :: string
  cx_request :: string
  cx_operation :: string
  cx_spec :: cap_spec
  cx_trace :: "string option"
  cx_task :: "string option"

text \<open>
  How a handler ends: it returns, or raises \<open>RequiresUserAction\<close>, \<open>OutcomeUnknown\<close>,
  \<open>CapabilityRejected\<close> or another exception, of which the engine uses the class name and the text.
\<close>

datatype handler_exit =
    HxReturn json
  | HxUserAction string string json
  | HxUnknown string string
  | HxRejected string string
  | HxError string string

type_synonym 's handler = "cap_context \<Rightarrow> (string \<times> json) list \<Rightarrow> 's \<Rightarrow> handler_exit \<times> 's"

record 's engine =
  en_registry :: registry
  en_handlers :: "(string \<times> 's handler) list"

datatype en_error = EnKeyError | EnValueError | EnOperation op_error

definition register_handler :: "string \<Rightarrow> 's handler \<Rightarrow> 's engine \<Rightarrow> en_error + 's engine" where
  "register_handler name h en =
     (case registry_get name (en_registry en) of
        Inl _ \<Rightarrow> Inl EnKeyError
      | Inr _ \<Rightarrow> Inr (en\<lparr>en_handlers := AList.update name h (en_handlers en)\<rparr>))"

section \<open>Arguments\<close>

definition validate_json_object :: "json \<Rightarrow> schema \<Rightarrow> en_error + (string \<times> json) list" where
  "validate_json_object v s =
     (case v of
        JDict d \<Rightarrow>
          if sc_type s \<notin> {None, Some (TName ''object'')} then Inl EnValueError
          else (case object_input_issue CapabilityProfile [] s d of None \<Rightarrow> Inr d | Some _ \<Rightarrow> Inl EnValueError)
      | _ \<Rightarrow> Inl EnValueError)"

text \<open>What the operation store keeps of the arguments; the values of a write are redacted.\<close>

definition redacted :: "json \<Rightarrow> json" where
  "redacted v = (case v of
      JStr s \<Rightarrow> JDict [(''redacted'', JBool True), (''present'', JBool (s \<noteq> [])), (''length'', JInt (int (length s)))]
    | JList xs \<Rightarrow> JDict [(''redacted'', JBool True), (''item_count'', JInt (int (length xs)))]
    | JDict d \<Rightarrow> JDict [(''redacted'', JBool True), (''field_count'', JInt (int (length d)))]
    | _ \<Rightarrow> v)"

definition operation_input_summary :: "(string \<times> json) list \<Rightarrow> string \<Rightarrow> json" where
  "operation_input_summary arguments effect =
     (if effect = ''read'' then JDict arguments else JDict (map (\<lambda>(n, v). (n, redacted v)) arguments))"

section \<open>Invocation\<close>

record response =
  rs_request :: string
  rs_operation :: string
  rs_status :: op_status
  rs_result :: "json option"
  rs_error :: "(string \<times> string) option"
  rs_next_action :: "json option"
  rs_interaction :: "json option"
  rs_reused :: bool

definition response_interaction :: "json option \<Rightarrow> json option" where
  "response_interaction next_action =
     (case next_action of
        Some (JDict d) \<Rightarrow> (case dget d ''interaction'' of JDict i \<Rightarrow> Some (JDict i) | _ \<Rightarrow> None)
      | _ \<Rightarrow> None)"

definition operation_response :: "op_view \<Rightarrow> bool \<Rightarrow> response" where
  "operation_response v reused =
     \<lparr>rs_request = op_request (ov_row v), rs_operation = op_id (ov_row v), rs_status = op_status (ov_row v),
      rs_result = op_result (ov_row v), rs_error = ov_error v, rs_next_action = op_next_action (ov_row v),
      rs_interaction = response_interaction (op_next_action (ov_row v)), rs_reused = reused\<rparr>"

record cap_call =
  cc_user :: string
  cc_capability :: string
  cc_arguments :: json
  cc_key :: "string option"
  cc_request :: "string option"
  cc_trace :: "string option"
  cc_task :: "string option"

text \<open>The readings of the clock and the fresh identifiers of one call.\<close>

record cap_draws =
  dr_created :: time
  dr_started :: time
  dr_ended :: time
  dr_operation :: string
  dr_request :: string
  dr_request2 :: string

definition call_request :: "cap_draws \<Rightarrow> cap_call \<Rightarrow> cap_spec \<Rightarrow> (string \<times> json) list \<Rightarrow> op_request" where
  "call_request dr call spec arguments =
     \<lparr>oq_user = cc_user call, oq_capability = cap_name spec, oq_version = cap_version spec,
      oq_summary = operation_input_summary arguments (cap_effect spec), oq_identity = Some (JDict arguments),
      oq_key = cc_key call, oq_request = Some (or_text (cc_request call) (dr_request dr))\<rparr>"

definition record_exit :: "time \<Rightarrow> string \<Rightarrow> handler_exit \<Rightarrow> op_db \<Rightarrow> op_error + (op_view \<times> op_db)" where
  "record_exit now i x db =
     (case x of
        HxReturn result \<Rightarrow> op_mark_succeeded now i result db
      | HxUserAction code msg next_action \<Rightarrow> op_mark_requires_user_action now i code msg next_action db
      | HxUnknown code msg \<Rightarrow> op_mark_unknown now i code msg db
      | HxRejected code msg \<Rightarrow> op_mark_failed now i code msg db
      | HxError cls msg \<Rightarrow> op_mark_failed now i ''CAPABILITY_EXECUTION_FAILED'' (if msg = [] then cls else msg) db)"

text \<open>
  The result with the operation table and the world after the call. What a call wrote before an
  exception of the operation store stays: every method of the store is a transaction of its own.
\<close>

definition call_context :: "cap_call \<Rightarrow> cap_spec \<Rightarrow> op_row \<Rightarrow> cap_context" where
  "call_context call spec row =
     \<lparr>cx_user = cc_user call, cx_request = op_request row, cx_operation = op_id row, cx_spec = spec,
      cx_trace = cc_trace call, cx_task = cc_task call\<rparr>"

definition engine_run ::
  "'s handler \<Rightarrow> cap_draws \<Rightarrow> cap_call \<Rightarrow> cap_spec \<Rightarrow> (string \<times> json) list \<Rightarrow> op_row \<Rightarrow> op_db \<Rightarrow> 's
   \<Rightarrow> (en_error + response) \<times> op_db \<times> 's" where
  "engine_run h dr call spec arguments row db st =
     (case op_mark_running (dr_started dr) (op_id row) db of
        Inl e \<Rightarrow> (Inl (EnOperation e), db, st)
      | Inr (_, db2) \<Rightarrow>
          let (x, st') = h (call_context call spec row) arguments st
          in (case record_exit (dr_ended dr) (op_id row) x db2 of
                Inl e \<Rightarrow> (Inl (EnOperation e), db2, st')
              | Inr (v, db3) \<Rightarrow> (Inr (operation_response v False), db3, st')))"

definition engine_invoke ::
  "py_env \<Rightarrow> 's engine \<Rightarrow> op_db \<Rightarrow> cap_draws \<Rightarrow> cap_call \<Rightarrow> op_db \<Rightarrow> 's \<Rightarrow> (en_error + response) \<times> op_db \<times> 's" where
  "engine_invoke env en seen dr call db st =
     (case registry_get (cc_capability call) (en_registry en) of
        Inl _ \<Rightarrow> (Inl EnKeyError, db, st)
      | Inr spec \<Rightarrow>
          (case validate_json_object (cc_arguments call) (cap_input spec) of
             Inl e \<Rightarrow> (Inl e, db, st)
           | Inr arguments \<Rightarrow>
               (case op_create env seen (dr_created dr) (dr_operation dr) (dr_request2 dr)
                       (call_request dr call spec arguments) db of
                  Inl e \<Rightarrow> (Inl (EnOperation e), db, st)
                | Inr ((v, reused), db1) \<Rightarrow>
                    if reused then (Inr (operation_response v True), db1, st)
                    else (case map_of (en_handlers en) (cc_capability call) of
                        None \<Rightarrow>
                          (case op_mark_failed (dr_ended dr) (op_id (ov_row v)) ''HANDLER_NOT_REGISTERED''
                                  (''No handler is registered for '' @ cc_capability call @ ''.'') db1 of
                             Inl e \<Rightarrow> (Inl (EnOperation e), db1, st)
                           | Inr (v', db2) \<Rightarrow> (Inr (operation_response v' False), db2, st))
                      | Some h \<Rightarrow> engine_run h dr call spec arguments (ov_row v) db1 st))))"

section \<open>Lemmas\<close>

definition exit_status :: "handler_exit \<Rightarrow> op_status" where
  "exit_status x = (case x of HxReturn _ \<Rightarrow> OpSucceeded | HxUserAction _ _ _ \<Rightarrow> OpRequiresUserAction
     | HxUnknown _ _ \<Rightarrow> OpUnknown | HxRejected _ _ \<Rightarrow> OpFailed | HxError _ _ \<Rightarrow> OpFailed)"

definition exit_result :: "handler_exit \<Rightarrow> json option" where
  "exit_result x = (case x of HxReturn v \<Rightarrow> Some (canon v) | _ \<Rightarrow> None)"

lemma op_update_returns:
  assumes inv: "op_inv db" and r: "r \<in> set db" "op_id r = i" and f: "\<And>r. op_id (f r) = op_id r"
  shows "op_update i f db = Inr (operation_from_row (f r), tbl_update (\<lambda>r. op_id r = i) f db)"
proof -
  have d: "distinct (map op_id db)" using inv unfolding op_inv_def by blast
  have "filter (\<lambda>r. op_id r = i) db = [r]"
    using distinct_same_key[OF d] d r by (intro filter_single) (auto simp: distinct_map)
  then have "tbl_count (\<lambda>r. op_id r = i) db = 1" by (simp add: tbl_count_def)
  moreover have "tbl_get op_id i (tbl_update (\<lambda>r. op_id r = i) f db) = Some (f r)"
    using tbl_get_eqI[OF d r] r(2) f by (simp add: tbl_get_update)
  ultimately show ?thesis by (simp add: op_update_def)
qed

lemma op_set_id [simp]: "op_id (op_set now st res code msg na fin r) = op_id r"
  by (simp add: op_set_def)

lemma record_exit_set:
  "\<exists>code msg na. record_exit now i x = op_update i (op_set now (exit_status x) (exit_result x) code msg na True)"
  unfolding record_exit_def op_mark_succeeded_def op_mark_failed_def op_mark_unknown_def
    op_mark_requires_user_action_def exit_status_def exit_result_def
  by (cases x) (auto split: handler_exit.split)

text \<open>The moves of one operation from its creation to its end.\<close>

lemma engine_run_ends:
  fixes h :: "'s handler"
  assumes inv: "op_inv db" and row: "row \<in> set db"
    and h: "h (call_context call spec row) arguments st = (x, st')"
  shows "\<exists>resp db'. engine_run h dr call spec arguments row db st = (Inr resp, db', st') \<and>
    rs_operation resp = op_id row \<and> rs_status resp = exit_status x \<and> rs_result resp = exit_result x \<and> \<not> rs_reused resp \<and>
    (\<exists>r \<in> set db'. op_id r = op_id row \<and> op_status r = exit_status x \<and> op_result r = exit_result x \<and> op_finished_at r \<noteq> None) \<and>
    filter (\<lambda>r. op_id r \<noteq> op_id row) db' = filter (\<lambda>r. op_id r \<noteq> op_id row) db"
proof -
  let ?run = "op_set (dr_started dr) OpRunning None None None None False"
  let ?db2 = "tbl_update (\<lambda>r. op_id r = op_id row) ?run db"
  have running: "op_mark_running (dr_started dr) (op_id row) db = Inr (operation_from_row (?run row), ?db2)"
    unfolding op_mark_running_def by (rule op_update_returns[OF inv row refl]) simp
  have inv2: "op_inv ?db2" by (rule op_update_inv[OF inv]) (simp, simp add: op_set_def op_row_ok_def)
  have row2: "?run row \<in> set ?db2" using row by (force simp: set_tbl_update)
  obtain code msg na where
    rec: "record_exit (dr_ended dr) (op_id row) x = op_update (op_id row) (op_set (dr_ended dr) (exit_status x) (exit_result x) code msg na True)"
    using record_exit_set by blast
  let ?fin = "op_set (dr_ended dr) (exit_status x) (exit_result x) code msg na True"
  let ?db3 = "tbl_update (\<lambda>r. op_id r = op_id row) ?fin ?db2"
  have ended: "record_exit (dr_ended dr) (op_id row) x ?db2 = Inr (operation_from_row (?fin (?run row)), ?db3)"
    unfolding rec by (rule op_update_returns[OF inv2 row2]) simp_all
  have mem: "?fin (?run row) \<in> set ?db3" using row2 by (force simp: set_tbl_update)
  have out: "engine_run h dr call spec arguments row db st = (Inr (operation_response (operation_from_row (?fin (?run row))) False), ?db3, st')"
    unfolding engine_run_def running by (simp add: h ended)
  have "filter (\<lambda>r. op_id r \<noteq> op_id row) (tbl_update (\<lambda>r. op_id r = op_id row) f db) = filter (\<lambda>r. op_id r \<noteq> op_id row) db"
    if "\<And>r. op_id (f r) = op_id r" for f and db :: op_db
    using that by (induction db) (auto simp: tbl_update_def)
  then have others: "filter (\<lambda>r. op_id r \<noteq> op_id row) ?db3 = filter (\<lambda>r. op_id r \<noteq> op_id row) db" by simp
  have cols: "op_id (?fin (?run row)) = op_id row" "op_status (?fin (?run row)) = exit_status x"
    "op_result (?fin (?run row)) = exit_result x" "op_finished_at (?fin (?run row)) \<noteq> None" by (simp_all add: op_set_def)
  let ?resp = "operation_response (operation_from_row (?fin (?run row))) False"
  have "rs_operation ?resp = op_id row" "rs_status ?resp = exit_status x" "rs_result ?resp = exit_result x" "\<not> rs_reused ?resp"
    using cols by (simp_all add: operation_response_def operation_from_row_def)
  then show ?thesis using out mem cols others by blast
qed

text \<open>A call that gets as far as its operation.\<close>

lemma engine_invoke_created:
  assumes "registry_get (cc_capability call) (en_registry en) = Inr spec"
    and "validate_json_object (cc_arguments call) (cap_input spec) = Inr arguments"
    and "op_create env seen (dr_created dr) (dr_operation dr) (dr_request2 dr) (call_request dr call spec arguments) db = Inr ((v, reused), db1)"
  shows "engine_invoke env en seen dr call db st =
    (if reused then (Inr (operation_response v True), db1, st)
     else case map_of (en_handlers en) (cc_capability call) of
        None \<Rightarrow> (case op_mark_failed (dr_ended dr) (op_id (ov_row v)) ''HANDLER_NOT_REGISTERED''
                     (''No handler is registered for '' @ cc_capability call @ ''.'') db1 of
             Inl e \<Rightarrow> (Inl (EnOperation e), db1, st) | Inr (v', db2) \<Rightarrow> (Inr (operation_response v' False), db2, st))
      | Some h \<Rightarrow> engine_run h dr call spec arguments (ov_row v) db1 st)"
  using assms by (simp add: engine_invoke_def)

section \<open>Properties\<close>

text \<open>
  C22: The engine records how a handler ended. When a call passes its checks and creates an operation, the
  handler runs once in the context of that operation, and the call answers with an operation that is over
  and that was moved to the status of the handler's exit: succeeded with the returned value,
  waiting for its user, unknown when the outcome is unknown, failed otherwise. The row in the store says the
  same, and no other operation is touched.
\<close>

theorem engine_records_the_exit:
  fixes h :: "'s handler"
  assumes inv: "op_inv db"
    and spec: "registry_get (cc_capability call) (en_registry en) = Inr spec"
    and args: "validate_json_object (cc_arguments call) (cap_input spec) = Inr arguments"
    and new: "op_create env seen (dr_created dr) (dr_operation dr) (dr_request2 dr) (call_request dr call spec arguments) db = Inr ((v, False), db1)"
    and h: "map_of (en_handlers en) (cc_capability call) = Some h"
      "h (call_context call spec (ov_row v)) arguments st = (x, st')"
  shows "\<exists>resp db'. engine_invoke env en seen dr call db st = (Inr resp, db', st') \<and>
    rs_operation resp = op_id (ov_row v) \<and> rs_status resp = exit_status x \<and> rs_result resp = exit_result x \<and> \<not> rs_reused resp \<and>
    (\<exists>r \<in> set db'. op_id r = op_id (ov_row v) \<and> op_status r = exit_status x \<and> op_result r = exit_result x \<and> op_finished_at r \<noteq> None) \<and>
    filter (\<lambda>r. op_id r \<noteq> op_id (ov_row v)) db' = filter (\<lambda>r. op_id r \<noteq> op_id (ov_row v)) db"
proof -
  have c: "op_inv db1" "db1 = db @ [ov_row v]" using op_create_Inr[OF inv new] by auto
  have "op_id (ov_row v) \<notin> op_id ` set db" using c unfolding op_inv_def by auto
  then have "filter (\<lambda>r. op_id r \<noteq> op_id (ov_row v)) db1 = filter (\<lambda>r. op_id r \<noteq> op_id (ov_row v)) db"
    by (simp add: c(2))
  moreover have "ov_row v \<in> set db1" by (simp add: c(2))
  ultimately show ?thesis
    unfolding engine_invoke_created[where st = st, OF spec args new]
    using engine_run_ends[of db1 "ov_row v" h call spec arguments st x st' dr, OF c(1) _ h(2)] h(1) by simp
qed

definition same_shape :: "json \<Rightarrow> json \<Rightarrow> bool" where
  "same_shape v w = (case (v, w) of
      (JStr s, JStr t) \<Rightarrow> length s = length t
    | (JList xs, JList ys) \<Rightarrow> length xs = length ys
    | (JDict d, JDict e) \<Rightarrow> length d = length e
    | _ \<Rightarrow> v = w)"

lemma returns_value: "isl m = False \<Longrightarrow> m = Inr (projr m)"
  by (cases m) auto

lemma redacted_shape: "redacted v = redacted w \<longleftrightarrow> same_shape v w"
  by (cases v; cases w) (auto simp: redacted_def same_shape_def)

text \<open>
  What the store keeps of the arguments of a write is exactly their shape. Two sets of arguments with
  the same names leave the same summary if and only if they agree in everything but the characters of
  their texts and the contents of their lists and objects, of which only the lengths are kept.
\<close>

theorem summary_keeps_the_shape:
  assumes "cap_effect spec \<noteq> ''read''" and "map fst a = map fst b"
  shows "oq_summary (call_request dr call spec a) = oq_summary (call_request dr call spec b) \<longleftrightarrow>
    list_all2 same_shape (map snd a) (map snd b)"
proof -
  have "map (\<lambda>(n, v). (n, redacted v)) a = map (\<lambda>(n, v). (n, redacted v)) b \<longleftrightarrow> list_all2 same_shape (map snd a) (map snd b)"
    using assms(2)
  proof (induction a arbitrary: b)
    case (Cons x a)
    then obtain y b' where b: "b = y # b'" "fst x = fst y" "map fst a = map fst b'" by (cases b) auto
    then show ?case using Cons.IH[OF b(3)] redacted_shape by (cases x; cases y) auto
  qed simp
  then show ?thesis using assms(1) by (simp add: call_request_def operation_input_summary_def)
qed

text \<open>The transactions on the operation table that a call made after its creation.\<close>

lemma record_exit_op: "\<exists>opn. \<forall>db v db'. record_exit now i x db = Inr (v, db') \<longrightarrow> commit (op_exec env opn db) db = db'"
proof -
  have mark: "commit (op_wrap out) db = db'" if "out = Inr (v, db')" for out and v :: op_view and db db'
    using that by (simp add: op_wrap_def)
  show ?thesis
  proof (cases x)
    case (HxReturn r)
    then show ?thesis by (intro exI[of _ "OpMarkSucceeded now i r"]) (simp add: record_exit_def mark)
  next
    case (HxUserAction c m na)
    then show ?thesis by (intro exI[of _ "OpMarkRequiresUserAction now i c m na"]) (simp add: record_exit_def mark)
  next
    case (HxUnknown c m)
    then show ?thesis by (intro exI[of _ "OpMarkUnknown now i c m"]) (simp add: record_exit_def mark)
  next
    case (HxRejected c m)
    then show ?thesis by (intro exI[of _ "OpMarkFailed now i c m"]) (simp add: record_exit_def mark)
  next
    case (HxError c m)
    then show ?thesis
      by (intro exI[of _ "OpMarkFailed now i ''CAPABILITY_EXECUTION_FAILED'' (if m = [] then c else m)"]) (simp add: record_exit_def mark)
  qed
qed

lemma op_update_view: "op_update i f db = Inr (v, db') \<Longrightarrow> op_id (ov_row v) = i"
  by (auto simp: op_update_def Let_def operation_from_row_def split: if_splits option.splits dest!: tbl_get_mem)

lemma engine_run_ops:
  assumes "engine_run h dr call spec arguments row db st = (Inr resp, db', st')"
  shows "rs_operation resp = op_id row \<and> (\<exists>ops. db' = run (op_exec env) ops db)"
proof -
  obtain v2 db2 x st2 v3 where 1: "op_mark_running (dr_started dr) (op_id row) db = Inr (v2, db2)"
    and 2: "record_exit (dr_ended dr) (op_id row) x db2 = Inr (v3, db')" "resp = operation_response v3 False"
    using assms by (auto simp: engine_run_def Let_def split: sum.splits prod.splits)
  obtain opn where "commit (op_exec env opn db2) db2 = db'" using record_exit_op 2(1) by blast
  then have "db' = run (op_exec env) [OpMarkRunning (dr_started dr) (op_id row), opn] db"
    using 1 by (simp add: op_wrap_def)
  moreover have "op_id (ov_row v3) = op_id row"
    using record_exit_set[of "dr_ended dr" "op_id row" x] 2(1) op_update_view by metis
  moreover have "rs_operation resp = op_id (ov_row v3)" using 2(2) by (simp add: operation_response_def)
  ultimately show ?thesis by metis
qed

lemma engine_invoke_Inr:
  assumes "engine_invoke env en seen dr call db st = (Inr resp, db', st')"
  shows "\<exists>spec arguments v reused db1 ops. registry_get (cc_capability call) (en_registry en) = Inr spec \<and>
    validate_json_object (cc_arguments call) (cap_input spec) = Inr arguments \<and>
    op_create env seen (dr_created dr) (dr_operation dr) (dr_request2 dr) (call_request dr call spec arguments) db = Inr ((v, reused), db1) \<and>
    rs_operation resp = op_id (ov_row v) \<and> db' = run (op_exec env) ops db1"
proof -
  obtain spec where 1: "registry_get (cc_capability call) (en_registry en) = Inr spec"
    using assms by (auto simp: engine_invoke_def split: sum.splits)
  obtain arguments where 2: "validate_json_object (cc_arguments call) (cap_input spec) = Inr arguments"
    using assms 1 by (auto simp: engine_invoke_def split: sum.splits)
  obtain v reused db1 where
    3: "op_create env seen (dr_created dr) (dr_operation dr) (dr_request2 dr) (call_request dr call spec arguments) db = Inr ((v, reused), db1)"
    using assms 1 2 by (auto simp: engine_invoke_def split: sum.splits)
  note run = assms[unfolded engine_invoke_created[OF 1 2 3]]
  have "rs_operation resp = op_id (ov_row v) \<and> (\<exists>ops. db' = run (op_exec env) ops db1)"
  proof (cases reused)
    case True
    then have "db' = run (op_exec env) [] db1" "rs_operation resp = op_id (ov_row v)"
      using run True by (auto simp: operation_response_def)
    then show ?thesis by blast
  next
    case False
    show ?thesis
    proof (cases "map_of (en_handlers en) (cc_capability call)")
      case None
      let ?m = "''No handler is registered for '' @ cc_capability call @ ''.''"
      obtain v' where m: "op_mark_failed (dr_ended dr) (op_id (ov_row v)) ''HANDLER_NOT_REGISTERED'' ?m db1 = Inr (v', db')"
        "resp = operation_response v' False"
        using run False None by (auto split: sum.splits)
      then have "db' = run (op_exec env) [OpMarkFailed (dr_ended dr) (op_id (ov_row v)) ''HANDLER_NOT_REGISTERED'' ?m] db1"
        by (simp add: op_wrap_def)
      moreover have "op_id (ov_row v') = op_id (ov_row v)" using m(1) op_update_view by (simp add: op_mark_failed_def)
      moreover have "rs_operation resp = op_id (ov_row v')" using m(2) by (simp add: operation_response_def)
      ultimately show ?thesis by metis
    next
      case (Some h)
      then show ?thesis using run False engine_run_ops[of h dr call spec arguments "ov_row v" db1 st resp db' st' env] by simp
    qed
  qed
  then show ?thesis using 1 2 3 by blast
qed


text \<open>
  C21: A call with an idempotency key acts at most once. When a call with a key was answered, then after
  any further transactions a call of the same user, capability and key changes neither the operation
  table nor the world: no handler runs. It is answered with the operation of the first call,
  marked as reused, when its arguments have the same digest, and refused as a conflict
  otherwise. This also holds when its early lookup did not see the operation yet.
\<close>

theorem keyed_call_acts_once:
  fixes st :: 's
  assumes inv: "op_inv db"
    and first: "engine_invoke env en db dr call db st = (Inr resp, db1, st1)"
    and key: "normalized_key (cc_key call) = Some k" and user: "cc_user call \<noteq> []"
    and same: "cc_user call' = cc_user call" "cc_capability call' = cc_capability call" "normalized_key (cc_key call') = Some k"
    and spec: "registry_get (cc_capability call) (en_registry en) = Inr spec"
    and valid: "validate_json_object (cc_arguments call) (cap_input spec) = Inr a" "validate_json_object (cc_arguments call') (cap_input spec) = Inr a'"
    and db2: "db2 = run (op_exec env) ops db1"
    and stale: "op_find_row (cc_user call) (cap_name spec) (cap_version spec) (Some k) seen
        \<in> {None, op_find_row (cc_user call) (cap_name spec) (cap_version spec) (Some k) db2}"
  shows "\<exists>resp'. rs_operation resp' = rs_operation resp \<and> rs_reused resp' \<and>
    engine_invoke env en seen dr' call' db2 st2 =
      ((if sha_json env (canon (JDict a')) = sha_json env (canon (JDict a)) then Inr resp' else Inl (EnOperation OpConflict)), db2, st2)"
proof -
  let ?req = "call_request dr call spec a" and ?req' = "call_request dr' call' spec a'"
  obtain v reused db0 ops0 where c: "op_create env db (dr_created dr) (dr_operation dr) (dr_request2 dr) ?req db = Inr ((v, reused), db0)"
    "rs_operation resp = op_id (ov_row v)" "db1 = run (op_exec env) ops0 db0"
    using engine_invoke_Inr[OF first] spec valid(1) by auto
  have r: "db2 = run (op_exec env) (ops0 @ ops) db0" by (simp add: db2 c(3))
  have cols: "oq_user ?req = cc_user call" "oq_capability ?req = cap_name spec" "oq_version ?req = cap_version spec"
    "normalized_key (oq_key ?req) = Some k" "oq_user ?req' = oq_user ?req" "oq_capability ?req' = oq_capability ?req"
    "oq_version ?req' = oq_version ?req" "normalized_key (oq_key ?req') = Some k"
    "op_input_hash_of env ?req = sha_json env (canon (JDict a))" "op_input_hash_of env ?req' = sha_json env (canon (JDict a'))"
    using same key by (simp_all add: call_request_def op_input_hash_of_def)
  have user': "oq_user ?req \<noteq> []" using user unfolding cols(1) .
  have stale': "op_find_row (oq_user ?req) (oq_capability ?req) (oq_version ?req) (Some k) seen
      \<in> {None, op_find_row (oq_user ?req) (oq_capability ?req) (oq_version ?req) (Some k) (run (op_exec env) (ops0 @ ops) db0)}"
    using stale unfolding cols(1-3) r .
  obtain row where row: "op_id row = op_id (ov_row v)"
    "op_create env seen (dr_created dr') (dr_operation dr') (dr_request2 dr') ?req' db2 =
      (if sha_json env (canon (JDict a')) = sha_json env (canon (JDict a))
       then Inr ((operation_from_row row, True), db2) else Inl OpConflict)"
    using op_idempotency_key_stands[OF inv c(1) cols(4) cols(5-8) user' stale', where now' = "dr_created dr'"
      and uuid' = "dr_operation dr'" and uuid2' = "dr_request2 dr'"]
    unfolding cols(9,10) r by blast
  have spec': "registry_get (cc_capability call') (en_registry en) = Inr spec" using spec same(2) by simp
  show ?thesis
  proof (intro exI[of _ "operation_response (operation_from_row row) True"] conjI)
    show "rs_operation (operation_response (operation_from_row row) True) = rs_operation resp"
      by (simp add: operation_response_def operation_from_row_def row(1) c(2))
    show "rs_reused (operation_response (operation_from_row row) True)" by (simp add: operation_response_def)
    show "engine_invoke env en seen dr' call' db2 st2 =
      ((if sha_json env (canon (JDict a')) = sha_json env (canon (JDict a))
        then Inr (operation_response (operation_from_row row) True) else Inl (EnOperation OpConflict)), db2, st2)"
      using spec' valid(2) row(2) by (simp add: engine_invoke_def)
  qed
qed


definition demo_spec :: cap_spec where
  "demo_spec = \<lparr>cap_name = ''oa.leave.submit'', cap_version = ''1.0.0'', cap_description = ''leave'',
     cap_input = typed_schema ''object'', cap_output = typed_schema ''object'', cap_effect = ''controlled_write'',
     cap_adapter = ''a'', cap_workflow = ''w''\<rparr>"

text \<open>A handler that counts its calls.\<close>

definition demo_engine :: "nat engine" where
  "demo_engine = \<lparr>en_registry = [(''oa.leave.submit'', demo_spec)],
     en_handlers = [(''oa.leave.submit'', \<lambda>_ _ n. (HxUnknown ''RESULT_UNKNOWN'' ''lost'', Suc n))]\<rparr>"

definition demo_call :: cap_call where
  "demo_call = \<lparr>cc_user = ''ann'', cc_capability = ''oa.leave.submit'', cc_arguments = JDict [(''reason'', JStr ''ill'')],
     cc_key = Some '' k1 '', cc_request = None, cc_trace = None, cc_task = None\<rparr>"

definition demo_draws :: cap_draws where
  "demo_draws = \<lparr>dr_created = 0, dr_started = 1, dr_ended = 2, dr_operation = ''o1'', dr_request = ''r1'', dr_request2 = ''r2''\<rparr>"

lemma demo_call_valid:
  "registry_get (cc_capability demo_call) (en_registry demo_engine) = Inr demo_spec"
  "validate_json_object (cc_arguments demo_call) (cap_input demo_spec) = Inr [(''reason'', JStr ''ill'')]"
  by code_simp+

theorem engine_records_the_exit_witness:
  "\<exists>resp db'. engine_invoke op_demo_env demo_engine [] demo_draws demo_call [] 0 = (Inr resp, db', Suc 0) \<and> rs_status resp = OpUnknown"
proof -
  let ?create = "op_create op_demo_env [] (dr_created demo_draws) (dr_operation demo_draws) (dr_request2 demo_draws)
    (call_request demo_draws demo_call demo_spec [(''reason'', JStr ''ill'')]) []"
  have 1: "isl ?create = False" "snd (fst (projr ?create)) = False" by code_simp+
  then obtain v db1 where new: "?create = Inr ((v, False), db1)" by (cases ?create) auto
  have h: "map_of (en_handlers demo_engine) (cc_capability demo_call) = Some (\<lambda>_ _ n. (HxUnknown ''RESULT_UNKNOWN'' ''lost'', Suc n))"
    by (simp add: demo_engine_def demo_call_def)
  from engine_records_the_exit[OF op_inv_empty demo_call_valid new h refl, of 0]
  show ?thesis unfolding exit_status_def handler_exit.case by blast
qed

theorem keyed_call_acts_once_witness:
  "\<exists>resp resp' db1. engine_invoke op_demo_env demo_engine [] demo_draws demo_call [] 0 = (Inr resp, db1, Suc 0) \<and>
     engine_invoke op_demo_env demo_engine [] demo_draws demo_call db1 5 = (Inr resp', db1, 5) \<and> rs_reused resp'"
proof -
  let ?out = "engine_invoke op_demo_env demo_engine [] demo_draws demo_call [] 0"
  have 1: "isl (fst ?out) = False" "snd (snd ?out) = Suc 0" by code_simp+
  then obtain resp db1 where out: "?out = (Inr resp, db1, Suc 0)"
    using returns_value[of "fst ?out"] by (metis prod.collapse)
  have k: "normalized_key (cc_key demo_call) = Some ''k1''" "cc_user demo_call \<noteq> []" by code_simp+
  have db: "db1 = run (op_exec op_demo_env) [] db1" by simp
  have s: "op_find_row (cc_user demo_call) (cap_name demo_spec) (cap_version demo_spec) (Some ''k1'') [] \<in>
      {None, op_find_row (cc_user demo_call) (cap_name demo_spec) (cap_version demo_spec) (Some ''k1'') db1}"
    by (simp add: op_find_row_def)
  from keyed_call_acts_once[OF op_inv_empty out k refl refl k(1) demo_call_valid demo_call_valid(2) db s, of demo_draws 5] out
  show ?thesis by auto
qed

end
