(* ===== verification/UserGrants.thy ===== *)
theory UserGrants
  imports PermissionCatalog PyValues Ledger
begin

text \<open>
  The business permissions of the users, \<open>agentbridge/core/user_grants.py\<close>: the grants with their
  revisions, the log of their changes, and the checks that every tool and capability passes.
  The type parameter is the rest of the database, in which the audit callback of a change writes inside
  the same transaction.
\<close>

section \<open>The tables made of the catalog\<close>

text \<open>A dictionary comprehension: a repeated key keeps its place and takes the last value.\<close>

definition py_dict :: "('k \<times> 'v) list \<Rightarrow> ('k \<times> 'v) list" where
  "py_dict items = foldl (\<lambda>d (k, v). AList.update k v d) [] items"

definition permissions_table :: "(string \<times> permission) list" where
  "permissions_table =
     py_dict (map (\<lambda>p. (pm_id p, p)) (filter (\<lambda>p. \<not> startswith (pm_id p) ''database.'') catalog_permissions))"

definition capability_permissions :: "(string \<times> string) list" where
  "capability_permissions = py_dict (concat (map (\<lambda>(_, p). map (\<lambda>c. (c, pm_id p)) (pm_capabilities p)) permissions_table))"

definition tool_permissions :: "(string \<times> string) list" where
  "tool_permissions =
     py_dict (concat (map (\<lambda>(_, p). map (\<lambda>t. (t, pm_id p)) (pm_tools p @ pm_private_tools p)) permissions_table))"

section \<open>Tables\<close>

record ug_row =
  ug_user :: string
  ug_permissions :: "string list"
  ug_revision :: int
  ug_updated_at :: time

record ug_event =
  ue_id :: string
  ue_user :: string
  ue_actor :: string
  ue_reason :: string
  ue_before :: "string list"
  ue_after :: "string list"
  ue_revision :: int
  ue_at :: time

record 'x ug_db =
  ug_grants :: "ug_row list"
  ug_events :: "ug_event list"
  ug_other :: 'x

text \<open>
  \<open>UgConflict\<close> is \<open>UserGrantConflict\<close>, \<open>UgIntegrity\<close> is sqlite3's IntegrityError, \<open>UgCallback\<close> what
  the audit callback raised; the others are exceptions of Python itself.
\<close>

datatype 'e ug_error = UgValueError | UgConflict | UgPermissionError | UgTypeError | UgKeyError
  | UgAttributeError | UgIntegrity | UgCallback 'e

record grant =
  gr_user :: string
  gr_permissions :: "string list"
  gr_revision :: int

section \<open>Reading and saving a grant\<close>

definition ug_get :: "string \<Rightarrow> 'x ug_db \<Rightarrow> grant option" where
  "ug_get subject db =
     map_option (\<lambda>r. \<lparr>gr_user = subject, gr_permissions = ug_permissions r, gr_revision = ug_revision r\<rparr>)
       (tbl_get ug_user subject (ug_grants db))"

definition nonblank_text :: "json \<Rightarrow> 'e ug_error + string" where
  "nonblank_text v = (case v of JStr s \<Rightarrow> if is_blank s then Inl UgValueError else Inr s | _ \<Rightarrow> Inl UgValueError)"

definition revision_of :: "json \<Rightarrow> 'e ug_error + int" where
  "revision_of v = (case v of JInt n \<Rightarrow> if n < 0 then Inl UgValueError else Inr n | _ \<Rightarrow> Inl UgValueError)"

definition known_permission :: "json \<Rightarrow> 'e ug_error + string" where
  "known_permission v =
     (case v of JStr s \<Rightarrow> if s \<in> set (map fst permissions_table) then Inr s else Inl UgValueError | _ \<Rightarrow> Inl UgValueError)"

definition permission_list :: "json \<Rightarrow> 'e ug_error + string list" where
  "permission_list v = (case v of JList xs \<Rightarrow> mapE known_permission xs | _ \<Rightarrow> Inl UgValueError)"

definition reason_text :: "json \<Rightarrow> 'e ug_error + string" where
  "reason_text v = (case v of JStr s \<Rightarrow> if is_blank s \<or> length s > 1000 then Inl UgValueError else Inr s | _ \<Rightarrow> Inl UgValueError)"

text \<open>\<open>INSERT ... ON CONFLICT(user_subject) DO UPDATE\<close>.\<close>

definition ug_upsert :: "ug_row \<Rightarrow> ug_row list \<Rightarrow> ug_row list" where
  "ug_upsert row rows =
     (if ug_user row \<in> set (map ug_user rows)
      then tbl_update (\<lambda>r. ug_user r = ug_user row)
             (\<lambda>r. r\<lparr>ug_permissions := ug_permissions row, ug_revision := ug_revision row, ug_updated_at := ug_updated_at row\<rparr>) rows
      else rows @ [row])"

record 'c save_request =
  sq_subject :: json
  sq_permissions :: json
  sq_expected :: json
  sq_actor :: json
  sq_reason :: json
  sq_audit :: "'c option"

text \<open>The audit callback gets the grant before and after the change and writes in the other tables.\<close>

type_synonym ('x, 'e) audit = "string list \<times> int \<Rightarrow> grant \<Rightarrow> 'x \<Rightarrow> 'e + 'x"

definition ug_write ::
  "time \<Rightarrow> string \<Rightarrow> string \<Rightarrow> string list \<Rightarrow> int \<Rightarrow> string \<Rightarrow> string \<Rightarrow> ('x, 'e) audit option \<Rightarrow> 'x ug_db
   \<Rightarrow> 'e ug_error + (grant \<times> 'x ug_db)" where
  "ug_write now uuid subject normalized expected actor reason audit db =
     (let row = tbl_get ug_user subject (ug_grants db);
          old = (case row of None \<Rightarrow> [] | Some r \<Rightarrow> ug_permissions r);
          revision = (case row of None \<Rightarrow> 0 | Some r \<Rightarrow> ug_revision r);
          after = \<lparr>gr_user = subject, gr_permissions = normalized, gr_revision = revision + 1\<rparr>
      in if revision \<noteq> expected then Inl UgConflict
         else (case tbl_insert ue_id
                 \<lparr>ue_id = uuid, ue_user = subject, ue_actor = py_strip actor, ue_reason = py_strip reason, ue_before = old,
                  ue_after = normalized, ue_revision = revision + 1, ue_at = now\<rparr> (ug_events db) of
                 None \<Rightarrow> Inl UgIntegrity
               | Some events \<Rightarrow>
                   let db' = db\<lparr>ug_grants := ug_upsert \<lparr>ug_user = subject, ug_permissions = normalized,
                                  ug_revision = revision + 1, ug_updated_at = now\<rparr> (ug_grants db),
                                ug_events := events\<rparr>
                   in (case audit of
                         None \<Rightarrow> Inr (after, db')
                       | Some f \<Rightarrow> (case f (old, revision) after (ug_other db) of
                             Inl e \<Rightarrow> Inl (UgCallback e) | Inr x \<Rightarrow> Inr (after, db'\<lparr>ug_other := x\<rparr>)))))"

definition ug_save ::
  "time \<Rightarrow> string \<Rightarrow> ('x, 'e) audit save_request \<Rightarrow> 'x ug_db \<Rightarrow> 'e ug_error + (grant \<times> 'x ug_db)" where
  "ug_save now uuid req db =
     ebind (nonblank_text (sq_subject req)) (\<lambda>subject.
     ebind (revision_of (sq_expected req)) (\<lambda>expected.
     ebind (permission_list (sq_permissions req)) (\<lambda>permissions.
     ebind (reason_text (sq_reason req)) (\<lambda>reason.
     ebind (nonblank_text (sq_actor req)) (\<lambda>actor.
       ug_write now uuid subject (sorted_set permissions) expected actor reason (sq_audit req) db)))))"

section \<open>Checks\<close>

definition selected :: "string \<Rightarrow> 'x ug_db \<Rightarrow> string list" where
  "selected subject db = (case ug_get subject db of None \<Rightarrow> [] | Some g \<Rightarrow> gr_permissions g)"

definition require_permission :: "string \<Rightarrow> string \<Rightarrow> 'x ug_db \<Rightarrow> 'e ug_error + unit" where
  "require_permission subject permission db =
     (case ug_get subject db of None \<Rightarrow> Inl UgPermissionError
      | Some g \<Rightarrow> raise_if (permission \<notin> set (gr_permissions g)) UgPermissionError)"

text \<open>A value as an element of a set or a key of a dictionary of texts; lists and objects have no hash.\<close>

definition hashed :: "json \<Rightarrow> 'e ug_error + string option" where
  "hashed v = (case v of JList _ \<Rightarrow> Inl UgTypeError | JDict _ \<Rightarrow> Inl UgTypeError | JStr s \<Rightarrow> Inr (Some s) | _ \<Rightarrow> Inr None)"

definition certificate_tools :: "string list" where
  "certificate_tools = [''oa_certificate_prepare_download'', ''oa_certificate_prepare_downloads'']"

definition check_groups :: "string \<Rightarrow> (string \<times> json) list \<Rightarrow> string list \<Rightarrow> 'e ug_error + unit" where
  "check_groups tool args sel =
     (if tool \<notin> {''oa_addressbook_group_list'', ''oa_addressbook_group_members''} then Inr ()
      else let group_type = dget args ''group_type'' in
        if group_type = JNull \<and> endswith tool ''group_list''
        then raise_if (\<not> {''oa.addressbook.read'', ''oa.addressbook.private.read''} \<subseteq> set sel) UgPermissionError
        else ebind (hashed group_type) (\<lambda>g.
          raise_if (g \<notin> {Some ''private'', Some ''personal'', Some ''system'', Some ''project''} \<or>
            (if group_type = JStr ''private'' then ''oa.addressbook.private.read'' else ''oa.addressbook.read'') \<notin> set sel)
            UgPermissionError))"

definition check_addressbook_export :: "string \<Rightarrow> (string \<times> json) list \<Rightarrow> string list \<Rightarrow> 'e ug_error + unit" where
  "check_addressbook_export tool args sel =
     raise_if (tool = ''oa_addressbook_export'' \<and>
       (if dget args ''source'' = JStr ''private_contacts'' \<or>
           dget args ''source'' = JStr ''group_members'' \<and> dget args ''group_type'' = JStr ''private''
        then ''oa.addressbook.private.read'' else ''oa.addressbook.read'') \<notin> set sel) UgPermissionError"

definition check_report_export :: "string \<Rightarrow> (string \<times> json) list \<Rightarrow> string list \<Rightarrow> 'e ug_error + unit" where
  "check_report_export tool args sel =
     (if tool \<noteq> ''smartlight_report_export'' then Inr ()
      else ebind (hashed (dget args ''report_type'')) (\<lambda>report.
        case Option.bind report (map_of report_dependencies) of
          None \<Rightarrow> Inl UgPermissionError
        | Some required \<Rightarrow> raise_if (required \<notin> set sel) UgPermissionError))"

definition session_tool :: "string \<Rightarrow> bool" where
  "session_tool tool \<longleftrightarrow> endswith tool ''_session_status'' \<or> endswith tool ''_session_login''"

definition has_system :: "string \<Rightarrow> string list \<Rightarrow> bool" where
  "has_system tool sel \<longleftrightarrow> list_ex (\<lambda>p. startswith p (hd (split_char (CHR ''_'') tool) @ ''.'')) sel"

definition creates_forms :: "string list \<Rightarrow> bool" where
  "creates_forms sel \<longleftrightarrow> list_ex (\<lambda>p. startswith p ''oa.'' \<and> (endswith p ''.draft'' \<or> endswith p ''.submit'')) sel"

definition check_special :: "string \<Rightarrow> string list \<Rightarrow> 'e ug_error + unit" where
  "check_special tool sel =
     ebind (raise_if (tool = ''oa_template_list'' \<and> \<not> creates_forms sel) UgPermissionError) (\<lambda>_.
     ebind (raise_if (tool = ''oa_workflow_pending_batch_prepare'' \<and> ''oa.workflow.read'' \<notin> set sel) UgPermissionError) (\<lambda>_.
       raise_if (session_tool tool \<and> \<not> has_system tool sel) UgPermissionError))"

definition require_tool ::
  "string \<Rightarrow> string \<Rightarrow> (string \<times> json) list option \<Rightarrow> 'x ug_db \<Rightarrow> 'e ug_error + unit" where
  "require_tool subject tool arguments db =
     (if startswith tool ''agentbridge_'' then Inr ()
      else let sel = selected subject db;
               args = (case arguments of None \<Rightarrow> [] | Some a \<Rightarrow> a);
               permission = map_of tool_permissions tool
      in ebind (raise_if (filled permission \<and> the permission \<notin> set sel) UgPermissionError) (\<lambda>_.
         ebind (raise_if (tool \<in> set certificate_tools \<and> ''oa.certificate.read'' \<notin> set sel) UgPermissionError) (\<lambda>_.
         ebind (check_groups tool args sel) (\<lambda>_.
         ebind (check_addressbook_export tool args sel) (\<lambda>_.
         ebind (check_report_export tool args sel) (\<lambda>_.
           if tool \<in> set special_tools then check_special tool sel
           else raise_if (tool \<notin> set (map fst tool_permissions)) UgPermissionError))))))"

definition underscored :: "string \<Rightarrow> string" where
  "underscored name = map (\<lambda>c. if c = CHR ''.'' then CHR ''_'' else c) name"

definition require_capability ::
  "string \<Rightarrow> string \<Rightarrow> (string \<times> json) list option \<Rightarrow> 'x ug_db \<Rightarrow> 'e ug_error + unit" where
  "require_capability subject capability arguments db =
     (let permission = map_of capability_permissions capability in
      ebind (if filled permission then require_permission subject (the permission) db
             else if capability = ''oa.template.list'' then require_tool subject ''oa_template_list'' None db
             else if capability = ''oa.workflow.pending.batch.prepare'' then require_permission subject ''oa.workflow.read'' db
             else if capability \<in> {''oa.addressbook.group.list'', ''oa.addressbook.group.members''}
             then require_tool subject (underscored capability) arguments db
             else Inl UgPermissionError) (\<lambda>_.
        if capability \<in> {''oa.addressbook.export'', ''smartlight.report.export''}
        then require_tool subject (underscored capability) arguments db else Inr ()))"

section \<open>What a user sees\<close>

definition tool_advertised :: "string list \<Rightarrow> string \<Rightarrow> bool" where
  "tool_advertised sel tool \<longleftrightarrow>
     startswith tool ''agentbridge_'' \<or> startswith tool ''database_'' \<or>
     (case map_of tool_permissions tool of None \<Rightarrow> False | Some p \<Rightarrow> p \<in> set sel \<and>
        \<not> (tool \<in> set certificate_tools \<and> ''oa.certificate.read'' \<notin> set sel)) \<or>
     session_tool tool \<and> has_system tool sel \<or>
     tool = ''oa_addressbook_group_list'' \<and> {''oa.addressbook.read'', ''oa.addressbook.private.read''} \<subseteq> set sel \<or>
     tool = ''oa_addressbook_group_members'' \<and> set sel \<inter> {''oa.addressbook.read'', ''oa.addressbook.private.read''} \<noteq> {} \<or>
     tool = ''oa_workflow_pending_batch_prepare'' \<and> ''oa.workflow.read'' \<in> set sel \<or>
     tool = ''oa_template_list'' \<and> creates_forms sel"

definition available_tools :: "string \<Rightarrow> 'x ug_db \<Rightarrow> string list" where
  "available_tools subject db =
     (let available = filter (tool_advertised (selected subject db)) (map fst tool_permissions @ special_tools)
      in sorted_set (filter (\<lambda>t. t \<in> set (map fst agent_facing_tool_scope_requirements)) available))"

text \<open>
  The templates a user may start: an item names its template by two values, whose \<open>str\<close> is compared with
  the known identifiers. Those are digits with a sign, so only a text and a whole number can match.
\<close>

definition known_templates :: "((string \<times> string) \<times> string list) list" where
  "known_templates =
    [((''2668910351205287097'', ''4948077657800057670''), [''oa.business_trip.draft'', ''oa.business_trip.submit'']),
     ((''-7765568933726502821'', ''6773919591095560889''), [''oa.leave.draft'', ''oa.leave.submit'']),
     ((''-8494358180075582561'', ''-3950641196724501449''), [''oa.missed_punch.draft''])]"

definition id_text :: "json \<Rightarrow> string" where
  "id_text v = (case v of JStr s \<Rightarrow> s
     | JInt n \<Rightarrow> if n < 0 then CHR ''-'' # nat_text (nat (- n)) else nat_text (nat n)
     | _ \<Rightarrow> [])"

definition template_allowed :: "string list \<Rightarrow> json \<Rightarrow> 'e ug_error + bool" where
  "template_allowed sel item =
     (case item of
        JDict d \<Rightarrow> Inr (set sel \<inter> set (get_default [] known_templates (id_text (dget d ''template_id''), id_text (dget d ''form_app_id''))) \<noteq> {})
      | _ \<Rightarrow> Inl UgAttributeError)"

text \<open>\<open>for item in result.get("items", [])\<close>: what iterating over a value yields.\<close>

definition iterated :: "json \<Rightarrow> 'e ug_error + json list" where
  "iterated v = (case v of JList xs \<Rightarrow> Inr xs | JStr s \<Rightarrow> Inr (map (\<lambda>c. JStr [c]) s)
     | JDict d \<Rightarrow> Inr (map (\<lambda>(k, _). JStr k) d) | _ \<Rightarrow> Inl UgTypeError)"

fun allowed_templates :: "string list \<Rightarrow> json list \<Rightarrow> 'e ug_error + json list" where
  "allowed_templates sel [] = Inr []"
| "allowed_templates sel (item # items) =
     ebind (template_allowed sel item) (\<lambda>keep.
     ebind (allowed_templates sel items) (\<lambda>rest. Inr (if keep then item # rest else rest)))"

definition filter_templates :: "string \<Rightarrow> (string \<times> json) list \<Rightarrow> 'x ug_db \<Rightarrow> 'e ug_error + json" where
  "filter_templates subject result db =
     (let sel = selected subject db in
      ebind (case map_of result ''items'' of None \<Rightarrow> Inr [] | Some v \<Rightarrow> iterated v) (\<lambda>all.
      ebind (allowed_templates sel all) (\<lambda>items.
        Inr (JDict [(''items'', JList items), (''count'', JInt (int (length items))), (''total'', JInt (int (length items))),
                    (''permission_filtered'', JBool True)]))))"

definition permission_scopes :: "string \<Rightarrow> 'e ug_error + string list" where
  "permission_scopes permission =
     (case map_of permissions_table permission of None \<Rightarrow> Inl UgKeyError | Some p \<Rightarrow> Inr (pm_scopes p))"

definition system_scopes :: "string list \<Rightarrow> string list" where
  "system_scopes permissions =
     map (\<lambda>s. s @ '':read'') (filter (\<lambda>s. list_ex (\<lambda>p. startswith p (s @ ''.'')) permissions)
       [''oa'', ''taihua'', ''smartlight'', ''yuque''])"

definition effective_scopes :: "string \<Rightarrow> 'x ug_db \<Rightarrow> 'e ug_error + string list" where
  "effective_scopes subject db =
     (let permissions = selected subject db in
      ebind (mapE permission_scopes permissions) (\<lambda>scopes.
        Inr (sorted_set (''agentbridge:connect'' # concat scopes @ system_scopes permissions))))"

section \<open>Facts about the catalog\<close>

lemma map_of_foldl_update: "map_of (foldl (\<lambda>d (k, v). AList.update k v d) d items) = map_of d ++ map_of (rev items)"
  by (induction items arbitrary: d) (auto simp: update_conv' map_add_def fun_eq_iff split: option.splits)

lemma map_of_py_dict: "map_of (py_dict items) = map_of (rev items)"
  by (simp add: py_dict_def map_of_foldl_update)

lemma py_dict_keys: "fst ` set (py_dict items) = fst ` set items"
  by (metis dom_map_of_conv_image_fst map_of_py_dict set_rev)

lemma py_dict_value: "map_of (py_dict items) k = Some v \<Longrightarrow> (k, v) \<in> set items"
  by (auto simp: map_of_py_dict dest: map_of_SomeD)

lemma permissions_table_entry: "map_of permissions_table i = Some p \<Longrightarrow> p \<in> set catalog_permissions \<and> pm_id p = i"
  by (auto simp: permissions_table_def dest!: py_dict_value)

lemma permissions_table_mem: "(i, p) \<in> set permissions_table \<Longrightarrow> p \<in> set catalog_permissions"
proof -
  have "set (foldl (\<lambda>d (k, v). AList.update k v d) d items) \<subseteq> set d \<union> set items" for d items :: "('a \<times> 'b) list"
  proof (induction items arbitrary: d)
    case (Cons x xs)
    have "set (AList.update k v d) \<subseteq> insert (k, v) (set d)" for k v by (induction d) auto
    then show ?case using Cons.IH[of "AList.update (fst x) (snd x) d"] by (cases x) fastforce
  qed simp
  then show "(i, p) \<in> set permissions_table \<Longrightarrow> ?thesis"
    unfolding permissions_table_def py_dict_def by fastforce
qed

lemma tool_permissions_keys:
  "t \<in> fst ` set tool_permissions \<Longrightarrow> \<exists>p \<in> set catalog_permissions. t \<in> set (pm_tools p @ pm_private_tools p)"
  unfolding tool_permissions_def py_dict_keys by (auto dest: permissions_table_mem)

lemma tool_permission_known:
  "map_of tool_permissions t = Some i \<Longrightarrow> \<exists>p \<in> set catalog_permissions. pm_id p = i"
  unfolding tool_permissions_def by (auto dest!: py_dict_value permissions_table_mem)

lemma permission_ids_filled: "p \<in> set catalog_permissions \<Longrightarrow> pm_id p \<noteq> []"
proof -
  have "list_all (\<lambda>p. pm_id p \<noteq> []) catalog_permissions" by code_simp
  then show "p \<in> set catalog_permissions \<Longrightarrow> ?thesis" by (simp add: list_all_iff)
qed

text \<open>The tools with a rule of their own are not tools of a permission.\<close>

lemma tools_of_permissions:
  assumes "t \<in> fst ` set tool_permissions"
  shows "\<not> session_tool t \<and> \<not> startswith t ''database_'' \<and> t \<noteq> ''oa_template_list'' \<and> t \<noteq> ''oa_workflow_pending_batch_prepare'' \<and>
    t \<noteq> ''oa_addressbook_group_list'' \<and> t \<noteq> ''oa_addressbook_group_members''"
proof -
  have "list_all (\<lambda>p. list_all (\<lambda>t. \<not> session_tool t \<and> \<not> startswith t ''database_'' \<and> t \<noteq> ''oa_template_list'' \<and>
      t \<noteq> ''oa_workflow_pending_batch_prepare'' \<and> t \<noteq> ''oa_addressbook_group_list'' \<and> t \<noteq> ''oa_addressbook_group_members'')
    (pm_tools p @ pm_private_tools p)) catalog_permissions"
    by code_simp
  then show ?thesis using tool_permissions_keys[OF assms] unfolding list_all_iff by blast
qed

lemma special_tools_kinds:
  assumes "t \<in> set special_tools"
  shows "startswith t ''agentbridge_'' \<or> t = ''database_capabilities'' \<or> t = ''database_execute'' \<or> t = ''oa_template_list'' \<or>
    t = ''oa_workflow_pending_batch_prepare'' \<or> t = ''oa_addressbook_group_list'' \<or> t = ''oa_addressbook_group_members'' \<or> session_tool t"
proof -
  have "list_all (\<lambda>t. startswith t ''agentbridge_'' \<or> t = ''database_capabilities'' \<or> t = ''database_execute'' \<or> t = ''oa_template_list'' \<or>
    t = ''oa_workflow_pending_batch_prepare'' \<or> t = ''oa_addressbook_group_list'' \<or> t = ''oa_addressbook_group_members'' \<or> session_tool t)
    special_tools"
    by code_simp
  then show ?thesis using assms by (simp add: list_all_iff)
qed

section \<open>Checks\<close>

lemma session_tools_apart:
  assumes "session_tool t"
  shows "t \<noteq> ''oa_template_list'' \<and> t \<noteq> ''oa_workflow_pending_batch_prepare'' \<and> t \<noteq> ''oa_addressbook_group_list'' \<and>
    t \<noteq> ''oa_addressbook_group_members'' \<and> t \<notin> set certificate_tools \<and> t \<noteq> ''database_capabilities'' \<and> t \<noteq> ''database_execute'' \<and>
    t \<noteq> ''oa_addressbook_export'' \<and> t \<noteq> ''smartlight_report_export''"
  using assms by (auto simp: session_tool_def certificate_tools_def suffix_def append_eq_Cons_conv)

lemma require_tool_of_permission:
  assumes "map_of tool_permissions t = Some p" and "\<not> startswith t ''agentbridge_''"
    and "t \<notin> {''oa_addressbook_export'', ''smartlight_report_export''}"
  shows "(require_tool subject t args db :: 'e ug_error + unit) = Inr () \<longleftrightarrow> tool_advertised (selected subject db) t"
proof -
  have k: "t \<in> fst ` set tool_permissions" using assms(1) by (force dest: map_of_SomeD)
  note apart = tools_of_permissions[OF k]
  have "t \<notin> set special_tools" using special_tools_kinds[of t] assms(2) apart by (auto simp: prefix_def)
  moreover have "p \<noteq> []" using tool_permission_known[OF assms(1)] permission_ids_filled by auto
  ultimately show ?thesis using assms k apart
    by (auto simp: require_tool_def Let_def filled_def outcome_simps check_groups_def check_addressbook_export_def
      check_report_export_def tool_advertised_def)
qed

lemma special_session_tools:
  assumes "t \<in> set special_tools" and "session_tool t"
  shows "\<not> startswith t ''database_''"
proof -
  have "list_all (\<lambda>t. session_tool t \<longrightarrow> \<not> startswith t ''database_'') special_tools" by code_simp
  then show ?thesis using assms by (simp add: list_all_iff)
qed

lemma disj_cases_8:
  "a \<or> b \<or> c \<or> d \<or> e \<or> f \<or> g \<or> h \<Longrightarrow> (a \<Longrightarrow> P) \<Longrightarrow> (b \<Longrightarrow> P) \<Longrightarrow> (c \<Longrightarrow> P) \<Longrightarrow> (d \<Longrightarrow> P) \<Longrightarrow>
   (e \<Longrightarrow> P) \<Longrightarrow> (f \<Longrightarrow> P) \<Longrightarrow> (g \<Longrightarrow> P) \<Longrightarrow> (h \<Longrightarrow> P) \<Longrightarrow> P"
  by blast

lemma special_tools_plain:
  assumes "t \<in> set special_tools" and "\<not> startswith t ''agentbridge_''"
  shows "map_of tool_permissions t = None \<and> t \<notin> set certificate_tools \<and> t \<noteq> ''oa_addressbook_export'' \<and> t \<noteq> ''smartlight_report_export''"
proof -
  have "t \<notin> fst ` set tool_permissions"
  proof
    assume "t \<in> fst ` set tool_permissions"
    from tools_of_permissions[OF this] show False using special_tools_kinds[OF assms(1)] assms(2) by (auto simp: prefix_def)
  qed
  moreover have "t \<notin> set certificate_tools \<and> t \<noteq> ''oa_addressbook_export'' \<and> t \<noteq> ''smartlight_report_export''"
  proof -
    have "session_tool t \<Longrightarrow> ?thesis" using session_tools_apart[of t] by simp
    then show ?thesis using special_tools_kinds[OF assms(1)]
      by (elim disjE; (assumption | simp add: certificate_tools_def assms(2)))
  qed
  ultimately show ?thesis by (simp add: map_of_eq_None_iff)
qed

lemma require_tool_special:
  assumes "t \<in> set special_tools" and "\<not> startswith t ''agentbridge_''"
  shows "require_tool subject t args db =
    ebind (check_groups t (case args of None \<Rightarrow> [] | Some a \<Rightarrow> a) (selected subject db)) (\<lambda>_. check_special t (selected subject db))"
  using special_tools_plain[OF assms] assms
  by (simp add: require_tool_def Let_def filled_def check_addressbook_export_def check_report_export_def)

lemma group_members_usable:
  "(\<exists>args. (check_groups ''oa_addressbook_group_members'' args sel :: 'e ug_error + unit) = Inr ()) \<longleftrightarrow>
    set sel \<inter> {''oa.addressbook.read'', ''oa.addressbook.private.read''} \<noteq> {}"
proof
  assume "set sel \<inter> {''oa.addressbook.read'', ''oa.addressbook.private.read''} \<noteq> {}"
  then consider "''oa.addressbook.read'' \<in> set sel" | "''oa.addressbook.private.read'' \<in> set sel" by blast
  then show "\<exists>args. (check_groups ''oa_addressbook_group_members'' args sel :: 'e ug_error + unit) = Inr ()"
  proof cases
    case 1
    then have "(check_groups ''oa_addressbook_group_members'' [(''group_type'', JStr ''system'')] sel :: 'e ug_error + unit) = Inr ()"
      by (simp add: check_groups_def dget_def hashed_def)
    then show ?thesis by blast
  next
    case 2
    then have "(check_groups ''oa_addressbook_group_members'' [(''group_type'', JStr ''private'')] sel :: 'e ug_error + unit) = Inr ()"
      by (simp add: check_groups_def dget_def hashed_def)
    then show ?thesis by blast
  qed
qed (auto simp: check_groups_def Let_def outcome_simps split: if_splits)

lemma require_special_tool:
  assumes "t \<in> set special_tools" and "\<not> startswith t ''agentbridge_''" and "t \<noteq> ''oa_addressbook_group_list''"
  shows "(\<exists>args. (require_tool subject t args db :: 'e ug_error + unit) = Inr ()) \<longleftrightarrow> tool_advertised (selected subject db) t"
proof -
  let ?sel = "selected subject db"
  note plain = special_tools_plain[OF assms(1,2)]
  have ex: "(\<exists>args. (require_tool subject t args db :: 'e ug_error + unit) = Inr ()) \<longleftrightarrow>
    (\<exists>args. (check_groups t args ?sel :: 'e ug_error + unit) = Inr ()) \<and> (check_special t ?sel :: 'e ug_error + unit) = Inr ()"
    unfolding require_tool_special[OF assms(1,2)] by (auto simp: outcome_simps intro: exI[of _ "Some a" for a])
  have no_group: "check_groups t args ?sel = (Inr () :: 'e ug_error + unit)"
    if "t \<noteq> ''oa_addressbook_group_members''" "t \<noteq> ''oa_addressbook_group_list''" for t args
    using that by (simp add: check_groups_def)
  have adv: "tool_advertised ?sel t \<longleftrightarrow> startswith t ''database_'' \<or> session_tool t \<and> has_system t ?sel \<or>
     t = ''oa_addressbook_group_members'' \<and> set ?sel \<inter> {''oa.addressbook.read'', ''oa.addressbook.private.read''} \<noteq> {} \<or>
     t = ''oa_workflow_pending_batch_prepare'' \<and> ''oa.workflow.read'' \<in> set ?sel \<or> t = ''oa_template_list'' \<and> creates_forms ?sel"
    using plain assms(2,3) by (simp add: tool_advertised_def)
  have names: "\<not> session_tool ''database_capabilities''" "\<not> session_tool ''database_execute''" "\<not> session_tool ''oa_template_list''"
    "\<not> session_tool ''oa_workflow_pending_batch_prepare''" "\<not> session_tool ''oa_addressbook_group_members''"
    by code_simp+
  consider "startswith t ''agentbridge_''" | "t = ''database_capabilities''" | "t = ''database_execute''" | "t = ''oa_template_list''"
    | "t = ''oa_workflow_pending_batch_prepare''" | "t = ''oa_addressbook_group_list''"
    | (members) "t = ''oa_addressbook_group_members''" | (session) "session_tool t"
    by (rule disj_cases_8[OF special_tools_kinds[OF assms(1)]])
  then show ?thesis
  proof cases
    case members
    show ?thesis unfolding ex adv unfolding members group_members_usable by (simp add: check_special_def names)
  next
    case session
    have "\<not> startswith t ''database_''" using special_session_tools assms(1) session by simp
    moreover have "(check_special t ?sel :: 'e ug_error + unit) = Inr () \<longleftrightarrow> has_system t ?sel"
      using session session_tools_apart[OF session] by (simp add: check_special_def outcome_simps)
    moreover note session_tools_apart[OF session]
    ultimately show ?thesis unfolding ex adv using session assms(3) no_group[of t] by simp
  qed (unfold ex adv, use assms(2,3) in \<open>simp_all add: check_special_def names no_group outcome_simps\<close>)
qed

text \<open>
  C40: The tools a user sees are the tools a user can use. For every tool other than the platform tools (\<open>agentbridge_\<close>), which check
  for themselves, the two exports and the list of groups, whose arguments decide which further permission they need: it is shown to a user
  exactly when it faces agents and the check of the tool lets the user through with some arguments.
\<close>

theorem advertised_iff_usable:
  assumes "\<not> startswith tool ''agentbridge_''"
    and "tool \<notin> {''oa_addressbook_export'', ''smartlight_report_export'', ''oa_addressbook_group_list''}"
  shows "tool \<in> set (available_tools subject db) \<longleftrightarrow>
    tool \<in> set (map fst agent_facing_tool_scope_requirements) \<and>
    (\<exists>args. (require_tool subject tool args db :: 'e ug_error + unit) = Inr ())"
proof (cases "tool \<in> set special_tools")
  case True
  then show ?thesis using require_special_tool[OF True assms(1), of subject db] assms(2)
    by (auto simp: available_tools_def Let_def)
next
  case special: False
  show ?thesis
  proof (cases "map_of tool_permissions tool")
    case None
    then have "tool \<notin> fst ` set tool_permissions" by (simp add: map_of_eq_None_iff)
    then have "(require_tool subject tool args db :: 'e ug_error + unit) \<noteq> Inr ()" for args
      using special assms(1) by (auto simp: require_tool_def Let_def outcome_simps)
    moreover have "tool \<notin> set (available_tools subject db)"
      using special \<open>tool \<notin> fst ` set tool_permissions\<close> by (auto simp: available_tools_def Let_def)
    ultimately show ?thesis by blast
  next
    case (Some p)
    then have "tool \<in> fst ` set tool_permissions" by (force dest: map_of_SomeD)
    then have "tool \<in> set (available_tools subject db) \<longleftrightarrow>
      tool \<in> set (map fst agent_facing_tool_scope_requirements) \<and> tool_advertised (selected subject db) tool"
      by (auto simp: available_tools_def Let_def)
    then show ?thesis using require_tool_of_permission[OF Some assms(1), where subject = subject and db = db and 'e = 'e] assms(2) by auto
  qed
qed

lemma systems_mono:
  assumes "set sel \<subseteq> set sel'"
  shows "creates_forms sel \<Longrightarrow> creates_forms sel'" "has_system t sel \<Longrightarrow> has_system t sel'"
  using assms by (auto simp: creates_forms_def has_system_def list_ex_iff)

text \<open>A check that lets through what another one lets through.\<close>

definition allows :: "'e + unit \<Rightarrow> 'e + unit \<Rightarrow> bool" where
  "allows m m' \<longleftrightarrow> (m = Inr () \<longrightarrow> m' = Inr ())"

lemma allows_refl: "allows m m"
  by (simp add: allows_def)

lemma allows_ebind: "allows m m' \<Longrightarrow> allows k k' \<Longrightarrow> allows (ebind m (\<lambda>_. k)) (ebind m' (\<lambda>_. k'))"
  by (simp add: allows_def outcome_simps)

lemma allows_bound: "(\<And>x. allows (f x) (f' x)) \<Longrightarrow> allows (ebind m f) (ebind m f')"
  by (cases m) (simp_all add: allows_def)

lemma allows_raise_and: "(d' \<Longrightarrow> d) \<Longrightarrow> allows (raise_if (c \<and> d) e) (raise_if (c \<and> d') e)"
  by (auto simp: allows_def outcome_simps)

lemma allows_raise_if: "(c' \<Longrightarrow> c) \<Longrightarrow> allows (raise_if c e) (raise_if c' e)"
  by (auto simp: allows_def outcome_simps)

lemma allows_raise_lacks:
  assumes "A \<subseteq> B"
  shows "allows (raise_if (x \<notin> A) e) (raise_if (x \<notin> B) e)"
    "allows (raise_if (\<not> X \<subseteq> A) e) (raise_if (\<not> X \<subseteq> B) e)"
    "allows (raise_if (c \<or> x \<notin> A) e) (raise_if (c \<or> x \<notin> B) e)"
    "allows (raise_if (c \<and> x \<notin> A) e) (raise_if (c \<and> x \<notin> B) e)"
  using assms by (auto simp: allows_def outcome_simps)

lemma allows_if: "allows a a' \<Longrightarrow> allows b b' \<Longrightarrow> allows (if c then a else b) (if c then a' else b')"
  by simp

lemmas allows_rules = allows_if allows_refl allows_ebind allows_raise_if

lemma checks_mono:
  assumes "set sel \<subseteq> set sel'"
  shows "allows (check_groups t a sel :: 'e ug_error + unit) (check_groups t a sel')"
    "allows (check_addressbook_export t a sel :: 'e ug_error + unit) (check_addressbook_export t a sel')"
    "allows (check_report_export t a sel :: 'e ug_error + unit) (check_report_export t a sel')"
    "allows (check_special t sel :: 'e ug_error + unit) (check_special t sel')"
proof goal_cases
  case 1
  show ?case unfolding check_groups_def Let_def
    by (intro allows_if allows_refl allows_bound allows_raise_lacks[OF assms])
next
  case 2
  show ?case unfolding check_addressbook_export_def by (intro allows_raise_lacks[OF assms])
next
  case 3
  have "allows (case b of None \<Rightarrow> Inl e | Some r \<Rightarrow> raise_if (r \<notin> set sel) e) (case b of None \<Rightarrow> Inl e | Some r \<Rightarrow> raise_if (r \<notin> set sel') e)"
    for b :: "string option" and e :: "'e ug_error"
    using assms by (cases b) (auto simp: allows_def outcome_simps)
  then show ?case unfolding check_report_export_def by (intro allows_if allows_refl allows_bound)
next
  case 4
  show ?case unfolding check_special_def
    by (intro allows_ebind allows_raise_lacks[OF assms] allows_raise_and; erule contrapos_nn; erule systems_mono[OF assms])
qed

lemma require_tool_mono:
  assumes "set (selected subject db) \<subseteq> set (selected subject db')"
  shows "allows (require_tool subject t a db :: 'e ug_error + unit) (require_tool subject t a db')"
  unfolding require_tool_def Let_def
  by (intro allows_if allows_refl allows_ebind checks_mono[OF assms] allows_raise_lacks[OF assms])

lemma require_permission_selected:
  "(require_permission subject p db :: 'e ug_error + unit) = Inr () \<longleftrightarrow> p \<in> set (selected subject db)"
  by (auto simp: require_permission_def selected_def outcome_simps split: option.splits)

lemma require_permission_mono:
  assumes "set (selected subject db) \<subseteq> set (selected subject db')"
  shows "allows (require_permission subject p db :: 'e ug_error + unit) (require_permission subject p db')"
  using assms by (auto simp: allows_def require_permission_def selected_def outcome_simps split: option.splits)

text \<open>
  Granting more never takes anything away: whatever the checks allow a user, and whatever tools the user sees,
  stays allowed and visible when permissions are added.
\<close>

theorem more_permissions_allow_more:
  assumes "set (selected subject db) \<subseteq> set (selected subject db')"
  shows "((require_tool subject tool args db :: 'e ug_error + unit) = Inr () \<longrightarrow>
      (require_tool subject tool args db' :: 'e ug_error + unit) = Inr ()) \<and>
    ((require_capability subject capability args db :: 'e ug_error + unit) = Inr () \<longrightarrow>
      (require_capability subject capability args db' :: 'e ug_error + unit) = Inr ()) \<and>
    set (available_tools subject db) \<subseteq> set (available_tools subject db')"
proof -
  have "tool_advertised (selected subject db) t \<Longrightarrow> tool_advertised (selected subject db') t" for t
    unfolding tool_advertised_def
    by (elim disj_forward conj_forward)
      (use assms systems_mono[OF assms] in \<open>auto split: option.splits\<close>)
  then have "set (available_tools subject db) \<subseteq> set (available_tools subject db')"
    by (auto simp: available_tools_def Let_def)
  moreover have "allows (require_capability subject capability args db :: 'e ug_error + unit) (require_capability subject capability args db')"
    unfolding require_capability_def Let_def
    by (intro allows_ebind allows_if allows_refl require_tool_mono[OF assms] require_permission_mono[OF assms])
  ultimately show ?thesis using require_tool_mono[OF assms, where 'e = 'e] unfolding allows_def by blast
qed

section \<open>The log of changes\<close>

definition ug_history :: "string \<Rightarrow> 'x ug_db \<Rightarrow> ug_event list" where
  "ug_history u db = filter (\<lambda>e. ue_user e = u) (ug_events db)"

text \<open>Each event continues where the one before it ended, with the next revision.\<close>

fun ug_chain :: "string list \<Rightarrow> int \<Rightarrow> ug_event list \<Rightarrow> bool" where
  "ug_chain before n [] = True"
| "ug_chain before n (e # es) = (ue_before e = before \<and> ue_revision e = n + 1 \<and> ug_chain (ue_after e) (n + 1) es)"

definition grant_of_log :: "string \<Rightarrow> ug_event list \<Rightarrow> grant option" where
  "grant_of_log u es = (if es = [] then None
     else Some \<lparr>gr_user = u, gr_permissions = ue_after (last es), gr_revision = ue_revision (last es)\<rparr>)"

definition current_revision :: "string \<Rightarrow> 'x ug_db \<Rightarrow> int" where
  "current_revision u db = (case ug_get u db of None \<Rightarrow> 0 | Some g \<Rightarrow> gr_revision g)"

definition permission_set_ok :: "string list \<Rightarrow> bool" where
  "permission_set_ok ps \<longleftrightarrow> sorted ps \<and> distinct ps \<and> set ps \<subseteq> fst ` set permissions_table"

definition ug_inv :: "'x ug_db \<Rightarrow> bool" where
  "ug_inv db \<longleftrightarrow> distinct (map ug_user (ug_grants db)) \<and> distinct (map ue_id (ug_events db)) \<and>
     (\<forall>e \<in> set (ug_events db). permission_set_ok (ue_after e)) \<and>
     (\<forall>u. ug_chain [] 0 (ug_history u db) \<and> ug_get u db = grant_of_log u (ug_history u db))"

lemma ug_chain_append:
  "ug_chain b n (es @ [e]) \<longleftrightarrow> ug_chain b n es \<and>
     ue_before e = (if es = [] then b else ue_after (last es)) \<and> ue_revision e = n + int (length es) + 1"
  by (induction es arbitrary: b n) (auto simp: algebra_simps)

lemma ug_chain_last: "ug_chain b n es \<Longrightarrow> es \<noteq> [] \<Longrightarrow> ue_revision (last es) = n + int (length es)"
  by (induction es arbitrary: b n) (auto simp: algebra_simps)

lemma ug_upsert_get:
  "tbl_get ug_user u (ug_upsert row rows) = (if u = ug_user row then Some row else tbl_get ug_user u rows)"
proof (cases "ug_user row \<in> set (map ug_user rows)")
  case True
  let ?f = "\<lambda>r. r\<lparr>ug_permissions := ug_permissions row, ug_revision := ug_revision row, ug_updated_at := ug_updated_at row\<rparr>"
  have f: "ug_user (?f r) = ug_user r" for r by simp
  have row: "?f r = row" if "ug_user r = ug_user row" for r using that by (cases r; cases row) simp
  have "tbl_get ug_user u (ug_upsert row rows) =
    map_option (\<lambda>r. if ug_user r = ug_user row then ?f r else r) (tbl_get ug_user u rows)"
    using True tbl_get_update[of ug_user ?f u "\<lambda>r. ug_user r = ug_user row" rows] by (simp add: ug_upsert_def)
  moreover have "tbl_get ug_user (ug_user row) rows \<noteq> None" using True unfolding tbl_get_None by simp
  ultimately show ?thesis
  proof (cases "tbl_get ug_user u rows")
    case (Some r)
    then have "ug_user r = u" using tbl_get_mem[of ug_user u rows r] by simp
    then show ?thesis using Some row[of r] \<open>tbl_get ug_user u (ug_upsert row rows) = _\<close> by (cases "u = ug_user row") simp_all
  qed (cases "u = ug_user row", simp_all)
next
  case False
  then have "tbl_get ug_user (ug_user row) rows = None" unfolding tbl_get_None .
  then show ?thesis using False by (auto simp: ug_upsert_def tbl_get_append split: option.splits)
qed

lemma ug_upsert_users: "distinct (map ug_user rows) \<Longrightarrow> distinct (map ug_user (ug_upsert row rows))"
  by (auto simp: ug_upsert_def keys_tbl_update)

text \<open>What a change that went through has done.\<close>

lemma ug_save_effect:
  assumes "ug_save now uuid req db = (Inr (g, db') :: 'e ug_error + grant \<times> 'x ug_db)"
  obtains u ps where "sq_subject req = JStr u" "sq_expected req = JInt (current_revision u db)" "permission_set_ok ps"
    "g = \<lparr>gr_user = u, gr_permissions = ps, gr_revision = current_revision u db + 1\<rparr>"
    "\<exists>e. ug_events db' = ug_events db @ [e] \<and> ue_id e \<notin> set (map ue_id (ug_events db)) \<and> ue_user e = u \<and>
       ue_before e = selected u db \<and> ue_after e = ps \<and> ue_revision e = current_revision u db + 1"
    "\<And>v. ug_get v db' = (if v = u then Some g else ug_get v db)"
    "distinct (map ug_user (ug_grants db)) \<Longrightarrow> distinct (map ug_user (ug_grants db'))"
proof -
  from assms obtain subject expected permissions reason actor where
    v: "(nonblank_text (sq_subject req) :: 'e ug_error + string) = Inr subject"
      "(revision_of (sq_expected req) :: 'e ug_error + int) = Inr expected"
      "(permission_list (sq_permissions req) :: 'e ug_error + string list) = Inr permissions"
    and w: "ug_write now uuid subject (sorted_set permissions) expected actor reason (sq_audit req) db = Inr (g, db')"
    by (auto simp: ug_save_def outcome_simps)
  have u: "sq_subject req = JStr subject" and n: "sq_expected req = JInt expected"
    using v(1,2) by (auto simp: nonblank_text_def revision_of_def split: json.splits if_splits)
  have "(known_permission v :: 'e ug_error + string) = Inr p \<Longrightarrow> p \<in> fst ` set permissions_table" for v p
    by (auto simp: known_permission_def split: json.splits if_splits)
  then have ps: "permission_set_ok (sorted_set permissions)"
    using v(3) by (fastforce simp: permission_list_def permission_set_ok_def mapE_eq_Inr list_all2_conv_all_nth in_set_conv_nth split: json.splits)
  let ?row = "tbl_get ug_user subject (ug_grants db)"
  have cur: "(case ?row of None \<Rightarrow> 0 | Some r \<Rightarrow> ug_revision r) = current_revision subject db"
    "(case ?row of None \<Rightarrow> [] | Some r \<Rightarrow> ug_permissions r) = selected subject db"
    by (auto simp: current_revision_def selected_def ug_get_def split: option.splits)
  let ?new = "\<lparr>ug_user = subject, ug_permissions = sorted_set permissions, ug_revision = current_revision subject db + 1, ug_updated_at = now\<rparr>"
  let ?e = "\<lparr>ue_id = uuid, ue_user = subject, ue_actor = py_strip actor, ue_reason = py_strip reason, ue_before = selected subject db,
                  ue_after = sorted_set permissions, ue_revision = current_revision subject db + 1, ue_at = now\<rparr>"
  from w have out: "expected = current_revision subject db" "uuid \<notin> set (map ue_id (ug_events db))"
    "g = \<lparr>gr_user = subject, gr_permissions = sorted_set permissions, gr_revision = current_revision subject db + 1\<rparr>"
    "ug_grants db' = ug_upsert ?new (ug_grants db)" "ug_events db' = ug_events db @ [?e]"
    unfolding ug_write_def Let_def cur
    by (auto simp: table_simps split: if_splits option.splits sum.splits)
  have get: "ug_get v db' = (if v = subject then Some g else ug_get v db)" for v
    by (simp add: ug_get_def out(3,4) ug_upsert_get)
  show thesis
    by (rule that[OF u _ ps out(3) _ get]) (use n out in \<open>auto intro!: ug_upsert_users\<close>)
qed

lemma ug_save_inv:
  assumes inv: "ug_inv db" and save: "ug_save now uuid req db = (Inr (g, db') :: 'e ug_error + grant \<times> 'x ug_db)"
  shows "ug_inv db'"
proof -
  from save obtain u ps e where e: "ug_events db' = ug_events db @ [e]" "ue_id e \<notin> set (map ue_id (ug_events db))" "ue_user e = u"
      "ue_before e = selected u db" "ue_after e = ps" "ue_revision e = current_revision u db + 1"
    and g: "g = \<lparr>gr_user = u, gr_permissions = ps, gr_revision = current_revision u db + 1\<rparr>" and ps: "permission_set_ok ps"
    and get: "\<And>v. ug_get v db' = (if v = u then Some g else ug_get v db)"
    and d: "distinct (map ug_user (ug_grants db')) "
    using inv by (elim ug_save_effect) (auto simp: ug_inv_def)
  have hist: "ug_history v db' = (if v = u then ug_history v db @ [e] else ug_history v db)" for v
    using e(1,3) by (simp add: ug_history_def)
  have log: "ug_chain [] 0 (ug_history v db)" "ug_get v db = grant_of_log v (ug_history v db)" for v
    using inv by (simp_all add: ug_inv_def)
  have sel: "selected u db = (if ug_history u db = [] then [] else ue_after (last (ug_history u db)))"
    "current_revision u db = int (length (ug_history u db))"
    using log(2)[of u] ug_chain_last[OF log(1)] by (auto simp: selected_def current_revision_def grant_of_log_def)
  have "ug_chain [] 0 (ug_history v db') \<and> ug_get v db' = grant_of_log v (ug_history v db')" for v
    using log[of v] e sel by (auto simp: hist get g ug_chain_append grant_of_log_def)
  moreover have "distinct (map ue_id (ug_events db'))" "\<forall>e \<in> set (ug_events db'). permission_set_ok (ue_after e)"
    using inv e ps by (auto simp: ug_inv_def)
  ultimately show ?thesis using d unfolding ug_inv_def by blast
qed

section \<open>Runs\<close>

text \<open>The transactions on the database: changes of grants, and those of other components in the other tables.\<close>

datatype ('x, 'e) ug_op = UgSave time string "('x, 'e) audit save_request" | UgOther "'x \<Rightarrow> 'x"

fun ug_exec :: "('x, 'e) ug_op \<Rightarrow> 'x ug_db \<Rightarrow> 'e ug_error + (grant option \<times> 'x ug_db)" where
  "ug_exec (UgSave now uuid req) db = ebind (ug_save now uuid req db) (\<lambda>(g, db'). Inr (Some g, db'))"
| "ug_exec (UgOther f) db = Inr (None, db\<lparr>ug_other := f (ug_other db)\<rparr>)"

definition ug_empty :: "'x \<Rightarrow> 'x ug_db" where
  "ug_empty x = \<lparr>ug_grants = [], ug_events = [], ug_other = x\<rparr>"

text \<open>Where the revision of a user stands relative to an expected one.\<close>

datatype rev_position = Ahead | Current | Passed

definition revision_position :: "'x ug_db \<Rightarrow> string \<times> int \<Rightarrow> rev_position option" where
  "revision_position db k = Some (if current_revision (fst k) db < snd k then Ahead
     else if current_revision (fst k) db = snd k then Current else Passed)"

fun rev_edge :: "rev_position \<Rightarrow> rev_position \<Rightarrow> bool" where
  "rev_edge Ahead Current = True"
| "rev_edge Current Passed = True"
| "rev_edge _ _ = False"

definition saves_at :: "('x, 'e) ug_op \<Rightarrow> string \<times> int \<Rightarrow> bool" where
  "saves_at op k = (case op of UgSave _ _ req \<Rightarrow> sq_subject req = JStr (fst k) \<and> sq_expected req = JInt (snd k) | UgOther _ \<Rightarrow> False)"

lemma ug_inv_empty: "ug_inv (ug_empty x)"
  by (simp add: ug_inv_def ug_empty_def ug_history_def ug_get_def grant_of_log_def)

lemma ug_other_same:
  "ug_get v (db\<lparr>ug_other := y\<rparr>) = ug_get v db" "ug_history v (db\<lparr>ug_other := y\<rparr>) = ug_history v db"
  "current_revision v (db\<lparr>ug_other := y\<rparr>) = current_revision v db"
  by (simp_all add: ug_get_def ug_history_def current_revision_def)

lemma ug_exec_inv: "ug_inv db \<Longrightarrow> ug_exec op db = Inr (r, db') \<Longrightarrow> ug_inv db'"
proof (cases op)
  case (UgSave now uuid req)
  assume "ug_inv db" "ug_exec op db = Inr (r, db')"
  then show ?thesis using UgSave by (auto simp: outcome_simps elim: ug_save_inv)
qed (auto simp: ug_inv_def ug_other_same)

lemma saves_at_once: "saves_at op k \<Longrightarrow> saves_at op k' \<Longrightarrow> k = k'"
  by (cases op; cases k; cases k') (simp_all add: saves_at_def)

lemma ug_exec_revision:
  assumes "ug_exec op db = (Inr (r, db') :: 'e ug_error + grant option \<times> 'x ug_db)"
  shows "(\<exists>u. saves_at op (u, current_revision u db) \<and> (\<forall>v. current_revision v db' = current_revision v db + (if v = u then 1 else 0))) \<or>
    (\<forall>k. \<not> saves_at op k) \<and> (\<forall>v. current_revision v db' = current_revision v db)"
proof (cases op)
  case (UgSave now uuid req)
  then obtain g where "ug_save now uuid req db = (Inr (g, db') :: 'e ug_error + grant \<times> 'x ug_db)"
    using assms by (auto simp: outcome_simps)
  then show ?thesis
    by (rule ug_save_effect) (auto simp: saves_at_def UgSave current_revision_def)
qed (use assms in \<open>auto simp: saves_at_def ug_other_same\<close>)

lemma position_step:
  fixes a a' n :: int
  defines "pos \<equiv> \<lambda>m. if m < n then Ahead else if m = n then Current else Passed"
  assumes "a' = a \<or> a' = a + 1"
  shows "pos a' = pos a \<or> pos a = Ahead \<and> pos a' = Current \<or> pos a = Current \<and> pos a' = Passed"
  using assms(2) by (elim disjE) (simp_all add: pos_def)

interpretation ug_ledger: one_shot "ug_exec :: ('x, 'e) ug_op \<Rightarrow> _" ug_inv revision_position rev_edge saves_at Current "\<lambda>s. s = Passed"
proof (unfold_locales, goal_cases)
  case (1 db op r db')
  then show ?case by (rule ug_exec_inv)
next
  case (2 db op r db' k s)
  have step: "rev_edge\<^sup>*\<^sup>* Ahead Current" "rev_edge\<^sup>*\<^sup>* Current Passed" by (auto intro: r_into_rtranclp)
  have "current_revision (fst k) db' = current_revision (fst k) db \<or> current_revision (fst k) db' = current_revision (fst k) db + 1"
    using ug_exec_revision[OF 2(2)] by (elim disjE exE conjE) (auto split: if_splits dest: spec[of _ "fst k"])
  then have "\<exists>s'. revision_position db' k = Some s' \<and> (s' = s \<or> s = Ahead \<and> s' = Current \<or> s = Current \<and> s' = Passed)"
    using 2(3) position_step[of "current_revision (fst k) db'" "current_revision (fst k) db" "snd k"] unfolding revision_position_def by simp
  then show ?case using step by (metis rtranclp.rtrancl_refl)
next
  case (3 db op k r db')
  have "current_revision (fst k) db = snd k \<and> current_revision (fst k) db' = current_revision (fst k) db + 1"
    using ug_exec_revision[OF 3(3)] 3(2) saves_at_once[of op k] by (metis fst_conv snd_conv)
  then show ?case by (simp add: revision_position_def)
next
  case (4 s t)
  then show ?case by (cases t) auto
qed simp

section \<open>Properties\<close>

text \<open>
  C39: The log of changes accounts for every permission. After any run of changes, also refused and rolled back ones, the
  events of a user form a chain, each starting from what the one before it ended with, numbered 1, 2, 3 and so on; the grant
  in force is what the last event left, there is none without an event, and its revision is the number of events.
\<close>

theorem grants_are_their_history:
  fixes ops :: "('x, 'e) ug_op list" and x :: 'x
  defines "db \<equiv> run ug_exec ops (ug_empty x)"
  shows "ug_chain [] 0 (ug_history u db) \<and> ug_get u db = grant_of_log u (ug_history u db) \<and>
    current_revision u db = int (length (ug_history u db))"
proof -
  have "ug_inv db" unfolding db_def by (rule ug_ledger.inv_run[OF ug_inv_empty])
  then have log: "ug_chain [] 0 (ug_history u db)" "ug_get u db = grant_of_log u (ug_history u db)" by (simp_all add: ug_inv_def)
  then show ?thesis using ug_chain_last[OF log(1)] by (auto simp: current_revision_def grant_of_log_def)
qed

text \<open>
  No lost update. Of all the changes of a user's permissions that were made against the same revision,
  at most one goes through, in any interleaving with changes of this and other users.
\<close>

theorem one_change_per_revision:
  "successes ug_exec (\<lambda>op. saves_at op (u, n)) ops (run ug_exec ops0 (ug_empty x)) \<le> 1"
  by (rule ug_ledger.spent_at_most_once[OF ug_ledger.inv_run[OF ug_inv_empty]])

text \<open>
  The scopes of a user can always be computed: the catalog still knows every permission that was stored, and the scopes are
  the base scope, those of the granted permissions and the read scopes of their systems. Nothing else grants a scope.
\<close>

theorem effective_scopes_defined:
  fixes ops :: "('x, 'e) ug_op list" and x :: 'x
  defines "db \<equiv> run ug_exec ops (ug_empty x)"
  shows "set (selected u db) \<subseteq> fst ` set permissions_table \<and>
    (\<exists>scopes. (effective_scopes u db :: 'e ug_error + string list) = Inr scopes \<and> sorted scopes \<and> distinct scopes \<and>
      set scopes = {''agentbridge:connect''} \<union> (\<Union>i \<in> set (selected u db). set (pm_scopes (the (map_of permissions_table i)))) \<union>
        set (system_scopes (selected u db)))"
proof -
  have inv: "ug_inv db" unfolding db_def by (rule ug_ledger.inv_run[OF ug_inv_empty])
  have known: "set (selected u db) \<subseteq> fst ` set permissions_table"
  proof (cases "ug_history u db = []")
    case True
    then show ?thesis using inv by (simp add: ug_inv_def selected_def grant_of_log_def)
  next
    case False
    then have "last (ug_history u db) \<in> set (ug_events db)" by (metis last_in_set filter_is_subset subsetD ug_history_def)
    then show ?thesis using False inv by (auto simp: ug_inv_def selected_def grant_of_log_def permission_set_ok_def)
  qed
  have "(mapE permission_scopes ps :: 'e ug_error + string list list) = Inr (map (\<lambda>i. pm_scopes (the (map_of permissions_table i))) ps)"
    if "set ps \<subseteq> fst ` set permissions_table" for ps
    using that
  proof (induction ps)
    case (Cons i ps)
    then obtain p where "map_of permissions_table i = Some p"
      by (metis list.set_intros(1) map_of_eq_None_iff not_Some_eq subsetD)
    with Cons show ?case by (auto simp: permission_scopes_def)
  qed simp
  from this[OF known] have "(effective_scopes u db :: 'e ug_error + string list) = Inr (sorted_set (''agentbridge:connect'' #
      concat (map (\<lambda>i. pm_scopes (the (map_of permissions_table i))) (selected u db)) @ system_scopes (selected u db)))"
    by (simp add: effective_scopes_def Let_def)
  then show ?thesis using known by (auto simp del: remdups.simps)
qed

section \<open>Examples\<close>

definition ug_demo :: "unit ug_db" where
  "ug_demo = \<lparr>ug_grants = [\<lparr>ug_user = ''ann'', ug_permissions = [''oa.workflow.read''], ug_revision = 1, ug_updated_at = 0\<rparr>],
     ug_events = [], ug_other = ()\<rparr>"

theorem advertised_iff_usable_witness:
  "\<exists>args. (require_tool ''ann'' ''oa_workflow_pending_batch_prepare'' args ug_demo :: unit ug_error + unit) = Inr ()"
proof -
  let ?t = "''oa_workflow_pending_batch_prepare''"
  have 1: "\<not> startswith ?t ''agentbridge_''" by simp
  have 2: "?t \<notin> {''oa_addressbook_export'', ''smartlight_report_export'', ''oa_addressbook_group_list''}" by simp
  have "?t \<in> set special_tools" "?t \<in> set (map fst agent_facing_tool_scope_requirements)" by code_simp+
  moreover have "''oa.workflow.read'' \<in> set (selected ''ann'' ug_demo)" by code_simp
  then have "tool_advertised (selected ''ann'' ug_demo) ?t" unfolding tool_advertised_def by simp
  ultimately have 3: "?t \<in> set (available_tools ''ann'' ug_demo)" by (simp add: available_tools_def Let_def)
  show ?thesis by (rule conjunct2[OF iffD1[OF advertised_iff_usable[OF 1 2] 3]])
qed

end
