(* ===== verification/GovernancePolicies.thy ===== *)
theory GovernancePolicies
  imports Ledger
begin

text \<open>
  The governance policies that pause writes, \<open>GovernancePolicyStore\<close> of \<open>agentbridge/admin/stores.py\<close>.
  A pause looks for the policy of its scope before it writes: \<open>seen\<close> is the table at that moment, \<open>db\<close> the
  table when the row is written.
\<close>

section \<open>Table\<close>

datatype gp_state = GpPaused | GpActive

record gp_row =
  gp_id :: string
  gp_type :: string
  gp_value :: string
  gp_version :: string
  gp_state :: gp_state
  gp_reason :: string
  gp_created_by :: string
  gp_created_at :: time
  gp_updated_by :: string
  gp_updated_at :: time

type_synonym gp_db = "gp_row list"

text \<open>\<open>GpDenied\<close> is \<open>GovernancePolicyDenied\<close> with its policy, \<open>GpIntegrity\<close> sqlite3's IntegrityError.\<close>

datatype gp_error = GpValueError | GpKeyError | GpIntegrity | GpDenied gp_row

section \<open>Operations\<close>

definition policy_scope_types :: "string list" where
  "policy_scope_types = [''global'', ''system'', ''user'', ''capability'']"

definition validate_policy_scope :: "string \<Rightarrow> string \<Rightarrow> string \<Rightarrow> gp_error + string \<times> string \<times> string" where
  "validate_policy_scope scope_type scope_value capability_version =
     (let t = py_lower (py_strip scope_type) in
      if t \<notin> set policy_scope_types then Inl GpValueError
      else let v = (if t = ''global'' then ''*'' else py_strip scope_value) in
      if v = [] \<or> length v > 256 then Inl GpValueError
      else let stripped = py_strip capability_version;
               version = (if t \<noteq> ''capability'' \<or> stripped = [] then ''*'' else stripped) in
      if length version > 64 then Inl GpValueError else Inr (t, v, version))"

definition normalize_reason :: "string option \<Rightarrow> bool \<Rightarrow> gp_error + string option" where
  "normalize_reason value required =
     (let r = py_strip (or_text value []) in
      if required \<and> length r < 3 then Inl GpValueError
      else if length r > 500 \<or> list_ex (\<lambda>c. (of_char c :: nat) < 32) r then Inl GpValueError
      else Inr (if r = [] then None else Some r))"

definition gp_get :: "string \<Rightarrow> gp_db \<Rightarrow> gp_error + gp_row" where
  "gp_get i db = (case tbl_get gp_id i db of None \<Rightarrow> Inl GpKeyError | Some r \<Rightarrow> Inr r)"

definition gp_scope_row :: "string \<times> string \<times> string \<Rightarrow> gp_db \<Rightarrow> gp_row option" where
  "gp_scope_row scope db = List.find (\<lambda>r. (gp_type r, gp_value r, gp_version r) = scope) db"

definition gp_insert :: "gp_row \<Rightarrow> gp_db \<Rightarrow> gp_db option" where
  "gp_insert row db =
     (if gp_scope_row (gp_type row, gp_value row, gp_version row) db \<noteq> None then None else tbl_insert gp_id row db)"

definition gp_set :: "time \<Rightarrow> gp_state \<Rightarrow> string \<Rightarrow> string \<Rightarrow> string \<Rightarrow> gp_db \<Rightarrow> gp_db" where
  "gp_set now st reason actor i db =
     tbl_update (\<lambda>r. gp_id r = i) (\<lambda>r. r\<lparr>gp_state := st, gp_reason := reason, gp_updated_by := actor, gp_updated_at := now\<rparr>) db"

record gp_pause =
  pq_type :: string
  pq_value :: string
  pq_reason :: "string option"
  pq_actor :: "string option"
  pq_version :: string

definition gp_pause_write ::
  "gp_db \<Rightarrow> time \<Rightarrow> string \<Rightarrow> gp_pause \<Rightarrow> gp_db \<Rightarrow> gp_error + (gp_row \<times> gp_db)" where
  "gp_pause_write seen now uuid req db =
     ebind (validate_policy_scope (pq_type req) (pq_value req) (pq_version req)) (\<lambda>(t, v, version).
     ebind (normalize_reason (pq_reason req) True) (\<lambda>reason.
       let actor = py_strip (or_text (pq_actor req) []); text = or_text reason [] in
       if actor = [] then Inl GpValueError
       else (case gp_scope_row (t, v, version) seen of
           None \<Rightarrow>
             (case gp_insert \<lparr>gp_id = uuid, gp_type = t, gp_value = v, gp_version = version, gp_state = GpPaused, gp_reason = text,
                   gp_created_by = actor, gp_created_at = now, gp_updated_by = actor, gp_updated_at = now\<rparr> db of
                None \<Rightarrow> Inl GpIntegrity
              | Some db' \<Rightarrow> ebind (gp_get uuid db') (\<lambda>r. Inr (r, db')))
         | Some existing \<Rightarrow>
             let db' = gp_set now GpPaused text actor (gp_id existing) db
             in ebind (gp_get (gp_id existing) db') (\<lambda>r. Inr (r, db')))))"

definition gp_resume :: "time \<Rightarrow> string \<Rightarrow> string option \<Rightarrow> string option \<Rightarrow> gp_db \<Rightarrow> gp_error + (gp_row \<times> gp_db)" where
  "gp_resume now i reason actor db =
     ebind (normalize_reason reason True) (\<lambda>reason.
       let actor = py_strip (or_text actor []) in
       if actor = [] then Inl GpValueError
       else if tbl_count (\<lambda>r. gp_id r = i) db \<noteq> 1 then Inl GpKeyError
       else let db' = gp_set now GpActive (or_text reason []) actor i db
            in ebind (gp_get i db') (\<lambda>r. Inr (r, db')))"

text \<open>Paused policies first, then the latest change first.\<close>

definition gp_list :: "gp_state option \<Rightarrow> gp_db \<Rightarrow> gp_row list" where
  "gp_list st db =
     sort_key (\<lambda>r. if gp_state r = GpPaused then 0 else 1 :: nat)
       (sort_key (\<lambda>r. - gp_updated_at r) (filter (\<lambda>r. st = None \<or> Some (gp_state r) = st) db))"

record write_scope =
  ws_system :: string
  ws_user :: string
  ws_capability :: string
  ws_version :: string

definition policy_covers :: "gp_row \<Rightarrow> write_scope \<Rightarrow> bool" where
  "policy_covers r w \<longleftrightarrow>
     gp_type r = ''global'' \<and> gp_value r = ''*'' \<or>
     gp_type r = ''system'' \<and> gp_value r = ws_system w \<or>
     gp_type r = ''user'' \<and> gp_value r = ws_user w \<or>
     gp_type r = ''capability'' \<and> gp_value r = ws_capability w \<and> gp_version r \<in> {''*'', ws_version w}"

definition scope_rank :: "gp_row \<Rightarrow> nat" where
  "scope_rank r = (if gp_type r = ''capability'' then 0 else if gp_type r = ''user'' then 1
     else if gp_type r = ''system'' then 2 else 3)"

definition matching_pause :: "write_scope \<Rightarrow> gp_db \<Rightarrow> gp_row option" where
  "matching_pause w db =
     (case sort_key scope_rank (sort_key (\<lambda>r. - gp_updated_at r)
             (filter (\<lambda>r. gp_state r = GpPaused \<and> policy_covers r w) db)) of
        [] \<Rightarrow> None | r # _ \<Rightarrow> Some r)"

definition assert_write_allowed :: "write_scope \<Rightarrow> gp_db \<Rightarrow> gp_error + unit" where
  "assert_write_allowed w db = (case matching_pause w db of None \<Rightarrow> Inr () | Some r \<Rightarrow> Inl (GpDenied r))"

section \<open>The store as a transition system\<close>

datatype gp_op = GpPause gp_db time string gp_pause | GpResume time string "string option" "string option"

fun gp_exec :: "gp_op \<Rightarrow> gp_db \<Rightarrow> gp_error + (gp_row \<times> gp_db)" where
  "gp_exec (GpPause seen now uuid req) db = gp_pause_write seen now uuid req db"
| "gp_exec (GpResume now i reason actor) db = gp_resume now i reason actor db"

section \<open>Lemmas\<close>

lemma matching_pause_None: "matching_pause w db = None \<longleftrightarrow> \<not> (\<exists>r \<in> set db. gp_state r = GpPaused \<and> policy_covers r w)"
proof -
  let ?xs = "filter (\<lambda>r. gp_state r = GpPaused \<and> policy_covers r w) db"
  let ?ys = "sort_key scope_rank (sort_key (\<lambda>r. - gp_updated_at r) ?xs)"
  have "matching_pause w db = None \<longleftrightarrow> ?ys = []" unfolding matching_pause_def by (cases ?ys) simp_all
  also have "\<dots> \<longleftrightarrow> set ?ys = {}" by (simp only: set_empty)
  also have "set ?ys = set ?xs" by (simp only: set_sort)
  finally show ?thesis by (simp only: set_filter) blast
qed

lemma matching_pause_Some:
  assumes "matching_pause w db = Some r"
  shows "r \<in> set db \<and> gp_state r = GpPaused \<and> policy_covers r w \<and>
    (\<forall>s \<in> set db. gp_state s = GpPaused \<longrightarrow> policy_covers s w \<longrightarrow> scope_rank r \<le> scope_rank s)"
proof -
  let ?xs = "sort_key scope_rank (sort_key (\<lambda>r. - gp_updated_at r) (filter (\<lambda>r. gp_state r = GpPaused \<and> policy_covers r w) db))"
  obtain rs where xs: "?xs = r # rs" using assms by (auto simp: matching_pause_def split: list.splits)
  have "sorted (map scope_rank ?xs)" by (rule sorted_sort_key)
  then have "\<forall>s \<in> set ?xs. scope_rank r \<le> scope_rank s" unfolding xs by simp
  moreover have "r \<in> set ?xs" unfolding xs by simp
  ultimately show ?thesis by auto
qed

lemma assert_write_allowed_iff:
  "assert_write_allowed w db = Inr () \<longleftrightarrow> \<not> (\<exists>r \<in> set db. gp_state r = GpPaused \<and> policy_covers r w)"
  using matching_pause_None[of w db] by (cases "matching_pause w db") (simp_all add: assert_write_allowed_def)

definition same_scope :: "gp_row \<Rightarrow> gp_row \<Rightarrow> bool" where
  "same_scope r r' \<longleftrightarrow> gp_id r' = gp_id r \<and> gp_type r' = gp_type r \<and> gp_value r' = gp_value r \<and> gp_version r' = gp_version r"

lemma same_scope_covers: "same_scope r r' \<Longrightarrow> policy_covers r' w = policy_covers r w"
  by (simp add: same_scope_def policy_covers_def)

lemma same_scope_refl: "same_scope r r"
  by (simp add: same_scope_def)

lemma same_scope_trans: "same_scope r s \<Longrightarrow> same_scope s t \<Longrightarrow> same_scope r t"
  by (simp add: same_scope_def)

lemma gp_set_get:
  "tbl_get gp_id j (gp_set now st reason actor i db) =
     map_option (\<lambda>r. if gp_id r = i then r\<lparr>gp_state := st, gp_reason := reason, gp_updated_by := actor, gp_updated_at := now\<rparr> else r)
       (tbl_get gp_id j db)"
  unfolding gp_set_def by (rule tbl_get_update) simp

lemma gp_pause_write_Inr:
  assumes "gp_pause_write seen now uuid req db = Inr (row, db')"
  shows "(\<exists>new. db' = db @ [new] \<and> gp_id new \<notin> set (map gp_id db) \<and> gp_state new = GpPaused \<and> gp_get (gp_id new) db' = Inr row) \<or>
    (\<exists>reason actor j. db' = gp_set now GpPaused reason actor j db \<and> gp_get j db' = Inr row)"
proof -
  from assms obtain t v version reason where
    w: "(case gp_scope_row (t, v, version) seen of
           None \<Rightarrow>
             (case gp_insert \<lparr>gp_id = uuid, gp_type = t, gp_value = v, gp_version = version, gp_state = GpPaused, gp_reason = or_text reason [],
                   gp_created_by = py_strip (or_text (pq_actor req) []), gp_created_at = now, gp_updated_by = py_strip (or_text (pq_actor req) []),
                   gp_updated_at = now\<rparr> db of
                None \<Rightarrow> Inl GpIntegrity | Some db' \<Rightarrow> ebind (gp_get uuid db') (\<lambda>r. Inr (r, db')))
         | Some existing \<Rightarrow>
             let db' = gp_set now GpPaused (or_text reason []) (py_strip (or_text (pq_actor req) [])) (gp_id existing) db
             in ebind (gp_get (gp_id existing) db') (\<lambda>r. Inr (r, db'))) = Inr (row, db')"
    unfolding gp_pause_write_def by (auto simp: outcome_simps Let_def split: if_splits)
  show ?thesis
  proof (cases "gp_scope_row (t, v, version) seen")
    case None
    then show ?thesis using w
      by (intro disjI1) (auto simp: gp_insert_def tbl_insert_def outcome_simps split: option.splits if_splits)
  next
    case (Some existing)
    then show ?thesis using w by (intro disjI2) (auto simp: Let_def outcome_simps)
  qed
qed

text \<open>What an operation can do to a paused policy, unless it resumes that one.\<close>

lemma gp_exec_keeps_pause:
  assumes get: "tbl_get gp_id i db = Some r" and paused: "gp_state r = GpPaused"
    and op: "\<And>now reason actor. op \<noteq> GpResume now i reason actor"
  shows "\<exists>r'. tbl_get gp_id i (commit (gp_exec op db) db) = Some r' \<and> gp_state r' = GpPaused \<and> same_scope r r'"
proof (cases "gp_exec op db")
  case (Inl e)
  then show ?thesis using get paused same_scope_refl by simp
next
  case (Inr p)
  then obtain row db' where out: "gp_exec op db = Inr (row, db')" by (cases p) auto
  have "(\<exists>new. db' = db @ [new]) \<or> (\<exists>now st reason actor j. db' = gp_set now st reason actor j db \<and> (st = GpPaused \<or> j \<noteq> i))"
  proof (cases op)
    case (GpPause seen now uuid req)
    with out have "gp_pause_write seen now uuid req db = Inr (row, db')" by simp
    from gp_pause_write_Inr[OF this] show ?thesis by blast
  next
    case (GpResume now j reason actor)
    moreover have "j \<noteq> i" using op GpResume by blast
    ultimately show ?thesis using out by (auto simp: gp_resume_def outcome_simps Let_def split: if_splits)
  qed
  then consider (new) new where "db' = db @ [new]"
    | (set) now st reason actor j where "db' = gp_set now st reason actor j db" "st = GpPaused \<or> j \<noteq> i" by blast
  then show ?thesis
  proof cases
    case new
    then show ?thesis using out get paused same_scope_refl by (simp add: tbl_get_append)
  next
    case set
    have "gp_id r = i" using tbl_get_mem[OF get] by simp
    then show ?thesis using out get paused set(2) unfolding set(1) by (auto simp: gp_set_get same_scope_def)
  qed
qed

lemma gp_run_keeps_pause:
  assumes "tbl_get gp_id i db = Some r" and "gp_state r = GpPaused"
    and "\<forall>op \<in> set ops. \<forall>now reason actor. op \<noteq> GpResume now i reason actor"
  shows "\<exists>r'. tbl_get gp_id i (run gp_exec ops db) = Some r' \<and> gp_state r' = GpPaused \<and> same_scope r r'"
  using assms
proof (induction ops arbitrary: db r)
  case (Cons op ops)
  have "\<And>now reason actor. op \<noteq> GpResume now i reason actor" using Cons.prems(3) by simp
  from gp_exec_keeps_pause[OF Cons.prems(1,2) this] obtain r1 where
    r1: "tbl_get gp_id i (commit (gp_exec op db) db) = Some r1" "gp_state r1 = GpPaused" "same_scope r r1" by blast
  from Cons.IH[OF r1(1,2)] Cons.prems(3) r1(3) show ?case by (auto intro: same_scope_trans)
qed (auto intro: same_scope_refl)

lemma gp_pause_returns:
  assumes "gp_pause_write seen now uuid req db = Inr (row, db')"
  shows "tbl_get gp_id (gp_id row) db' = Some row \<and> gp_state row = GpPaused"
proof -
  have get: "tbl_get gp_id (gp_id row) db' = Some row" if "gp_get i db' = Inr row" for i
    using that tbl_get_mem[of gp_id i db' row] by (auto simp: gp_get_def split: option.splits)
  from gp_pause_write_Inr[OF assms] show ?thesis
  proof (elim disjE exE conjE)
    fix new assume new: "db' = db @ [new]" "gp_id new \<notin> set (map gp_id db)" "gp_state new = GpPaused" "gp_get (gp_id new) db' = Inr row"
    then have "tbl_get gp_id (gp_id new) db = None" unfolding tbl_get_None by blast
    then have "row = new" using new by (simp add: gp_get_def tbl_get_append)
    then show ?thesis using get new by blast
  next
    fix reason actor j
    assume old: "db' = gp_set now GpPaused reason actor j db" "gp_get j db' = Inr row"
    then have "gp_state row = GpPaused"
      using tbl_get_mem[of gp_id j db] by (auto simp: gp_get_def gp_set_get split: option.splits)
    then show ?thesis using get old by blast
  qed
qed

section \<open>Properties\<close>

text \<open>
  C24: A pause holds. After a policy was paused, every write that it covers is refused, by this or a more specific policy,
  whatever other policies are paused or resumed, until that policy itself is resumed.
\<close>

theorem pause_holds_until_resumed:
  assumes "gp_exec (GpPause seen now uuid req) db = Inr (row, db1)" and "policy_covers row w"
    and "\<forall>op \<in> set ops. \<forall>now reason actor. op \<noteq> GpResume now (gp_id row) reason actor"
  shows "\<exists>r. assert_write_allowed w (run gp_exec ops db1) = Inl (GpDenied r) \<and> scope_rank r \<le> scope_rank row"
proof -
  have p: "tbl_get gp_id (gp_id row) db1 = Some row" "gp_state row = GpPaused"
    using gp_pause_returns assms(1) by auto
  from gp_run_keeps_pause[OF p assms(3)] obtain r' where r':
    "tbl_get gp_id (gp_id row) (run gp_exec ops db1) = Some r'" "gp_state r' = GpPaused" "same_scope row r'" by blast
  have mem: "r' \<in> set (run gp_exec ops db1)" using tbl_get_mem[OF r'(1)] by simp
  have cov: "policy_covers r' w" using same_scope_covers[OF r'(3)] assms(2) by simp
  then obtain r where r: "matching_pause w (run gp_exec ops db1) = Some r"
    using matching_pause_None[of w "run gp_exec ops db1"] mem r'(2) by blast
  have "scope_rank r \<le> scope_rank r'" using matching_pause_Some[OF r] mem r'(2) cov by blast
  moreover have "scope_rank r' = scope_rank row" using r'(3) by (simp add: same_scope_def scope_rank_def)
  ultimately show ?thesis using r by (simp add: assert_write_allowed_def)
qed

definition gp_demo_pause :: gp_pause where
  "gp_demo_pause = \<lparr>pq_type = '' System'', pq_value = ''oa'', pq_reason = Some ''audit'', pq_actor = Some ''root'', pq_version = ''*''\<rparr>"

definition gp_demo_write :: write_scope where
  "gp_demo_write = \<lparr>ws_system = ''oa'', ws_user = ''ann'', ws_capability = ''oa.leave.submit'', ws_version = ''1.0.0''\<rparr>"

theorem pause_holds_until_resumed_witness:
  "\<exists>r. assert_write_allowed gp_demo_write
     (run gp_exec [GpPause [] 1 ''p2'' (gp_demo_pause\<lparr>pq_type := ''global''\<rparr>), GpResume 2 ''p2'' (Some ''done'') (Some ''root'')]
       (snd (projr (gp_exec (GpPause [] 0 ''p1'' gp_demo_pause) [])))) = Inl (GpDenied r)"
proof -
  let ?out = "gp_exec (GpPause [] 0 ''p1'' gp_demo_pause) []"
  have 1: "isl ?out = False" by code_simp
  obtain row db1 where out: "?out = Inr (row, db1)" using returns[OF 1] by blast
  have "policy_covers (fst (projr ?out)) gp_demo_write" "gp_id (fst (projr ?out)) = ''p1''" by code_simp+
  then have cov: "policy_covers row gp_demo_write" and i: "gp_id row = ''p1''" unfolding out by simp_all
  have ops: "\<forall>op \<in> set [GpPause [] 1 ''p2'' (gp_demo_pause\<lparr>pq_type := ''global''\<rparr>), GpResume 2 ''p2'' (Some ''done'') (Some ''root'')].
      \<forall>now reason actor. op \<noteq> GpResume now (gp_id row) reason actor" by (simp add: i)
  from pause_holds_until_resumed[OF out cov ops] show ?thesis unfolding out sum.sel snd_conv by blast
qed

end
