(* ===== verification/ControlledWrites.thy ===== *)
theory ControlledWrites
  imports CapabilityEngine WriteAuthorizations FieldSubmissions TaskPlans UserGrants GovernancePolicies
begin

text \<open>
  The executor of trusted writes, \<open>agentbridge/core/controlled_write_executor.py\<close>: it asks for the fields of a
  write, freezes a plan and asks for its authorization, and commits an authorized plan. The commit function of an adapter is
  a program that acts on the business system and calls back to enter the commit boundary, where the
  authorization is consumed; what it does before, between and after is arbitrary.
\<close>

section \<open>Exceptions and commit functions\<close>

text \<open>
  The exceptions as the executor tells them apart, in the order of its \<open>except\<close> clauses; a
  class named by the definition of the write (\<open>outcome_error\<close>, \<open>contract_error\<close>) comes with its name. The three
  signals to the engine and \<open>ExOther\<close> fall into the last clause.
\<close>

datatype commit_exn =
    ExValidation "(string \<times> json) list"
  | ExOutcome string string
  | ExBusinessRule string string
  | ExContract string string
  | ExAuthAccess string
  | ExAuthState string
  | ExPlanInvalid string string
  | ExUserAction string string json
  | ExUnknown string string
  | ExRejected string string
  | ExOther string string

text \<open>
  A commit function: it ends with a value or an exception, acts on the world, or enters the boundary and goes on with the
  exception that this raised, if any.
\<close>

datatype 'w commit_program =
    CpReturn json
  | CpRaise commit_exn
  | CpAct "'w \<Rightarrow> 'w \<times> 'w commit_program"
  | CpEnter "commit_exn option \<Rightarrow> 'w commit_program"

section \<open>Collaborators and state\<close>

text \<open>Fixed texts of the executor, which users read; they hold characters outside of the model.\<close>

record cw_texts =
  tx_contract :: string
  tx_no_result :: "string \<Rightarrow> string"
  tx_continue_title :: "string \<Rightarrow> string"
  tx_default_title :: string
  tx_continue_effect :: string
  tx_continue_notice :: string
  tx_continue_label :: string
  tx_validation_label :: string
  tx_changed_label :: string
  tx_changed_value :: string
  tx_changed_notice :: string
  tx_batch_title :: "json \<Rightarrow> json \<Rightarrow> json \<Rightarrow> string"

text \<open>
  The tables: the authorizations share their database with what the skill guard reads (\<open>'k\<close>) and with the plans; \<open>'i\<close>
  is the rest of the stores that the callbacks use, \<open>'w\<close> the business system.
\<close>

record ('k, 'y, 'g, 'i, 'w) cw_state =
  cw_auths :: "('k \<times> tp_db) wa_db"
  cw_forms :: "'y fs_db"
  cw_grants :: "'g ug_db"
  cw_policies :: gp_db
  cw_rest :: 'i
  cw_world :: 'w

record ('k, 'i) cw_deps =
  dp_env :: py_env
  dp_registry :: registry
  dp_base_url :: string
  dp_texts :: cw_texts
  dp_auth_card :: "wa_view \<Rightarrow> 'i \<Rightarrow> (commit_exn + json) \<times> 'i"
  dp_field_card :: "fs_view \<Rightarrow> 'i \<Rightarrow> (commit_exn + json) \<times> 'i"
  dp_batch_commit :: "string \<Rightarrow> string \<Rightarrow> json \<Rightarrow> 'i \<Rightarrow> commit_exn + string"
  dp_batch_place :: "string option \<Rightarrow> string \<Rightarrow> 'i \<Rightarrow> commit_exn + json \<times> json"
  dp_skill_guard :: "string \<Rightarrow> string \<Rightarrow> 'k \<Rightarrow> commit_exn + 'k"
  dp_validate_plan :: "tp_snapshot \<Rightarrow> commit_exn + unit"

record session =
  se_id :: string
  se_user :: string
  se_system :: string
  se_expected :: json
  se_downstream :: json
  se_verified :: json

text \<open>The members of a write definition; a function that cannot be resolved is \<open>None\<close>.\<close>

record 'w write_def =
  wd_prepare :: "((string \<times> json) list \<Rightarrow> 'w \<Rightarrow> (commit_exn + (string \<times> json) list \<times> (string \<times> json) list) \<times> 'w) option"
  wd_commit :: "(json \<Rightarrow> 'w commit_program) option"
  wd_context_fields :: "string list"
  wd_field_schema :: "(string \<times> json) list option"
  wd_commit_capability :: string
  wd_authorization_message :: string
  wd_field_message :: string

text \<open>
  What one call draws: the clock, fresh identifiers, and the transactions of other callers that run on the authorizations
  and the grants before the adapter's \<open>n\<close>-th call of the boundary.
\<close>

record ('k, 'g) cw_draws =
  cd_now :: time
  cd_token :: string
  cd_clock :: "nat \<Rightarrow> time \<times> time \<times> time"
  cd_auth_ops :: "nat \<Rightarrow> ('k \<times> tp_db, commit_exn) wa_op list"
  cd_grant_ops :: "nat \<Rightarrow> ('g, commit_exn) ug_op list"

section \<open>Helpers\<close>

text \<open>The exit of a handler that an exception ends.\<close>

fun exn_exit :: "commit_exn \<Rightarrow> handler_exit" where
  "exn_exit (ExUserAction code msg next) = HxUserAction code msg next"
| "exn_exit (ExUnknown code msg) = HxUnknown code msg"
| "exn_exit (ExRejected code msg) = HxRejected code msg"
| "exn_exit (ExValidation v) = HxError ''SeeyonBusinessValidationRequired'' []"
| "exn_exit (ExOutcome cls msg) = HxError cls msg"
| "exn_exit (ExBusinessRule code msg) = HxError ''AdapterBusinessRuleRejected'' msg"
| "exn_exit (ExContract cls msg) = HxError cls msg"
| "exn_exit (ExAuthAccess msg) = HxError ''WriteAuthorizationAccessDenied'' msg"
| "exn_exit (ExAuthState msg) = HxError ''WriteAuthorizationStateError'' msg"
| "exn_exit (ExPlanInvalid code msg) = HxError ''PlanValidationError'' msg"
| "exn_exit (ExOther cls msg) = HxError cls msg"

definition wa_exn :: "commit_exn wa_error \<Rightarrow> commit_exn" where
  "wa_exn e = (case e of
      WaAccessDenied \<Rightarrow> ExAuthAccess ''write authorization is not bound to this user, session, or capability''
    | WaStateError \<Rightarrow> ExAuthState ''write authorization is not approved''
    | WaNotFound \<Rightarrow> ExOther ''WriteAuthorizationNotFound'' []
    | WaIntegrityError \<Rightarrow> ExOther ''WriteAuthorizationIntegrityError'' []
    | WaSqlIntegrityError \<Rightarrow> ExOther ''IntegrityError'' []
    | WaValueError \<Rightarrow> ExOther ''ValueError'' []
    | WaTypeError \<Rightarrow> ExOther ''TypeError'' []
    | WaCallback x \<Rightarrow> x)"

definition tp_exn :: "commit_exn tp_error \<Rightarrow> commit_exn" where
  "tp_exn e = (case e of
      TpValueError \<Rightarrow> ExOther ''ValueError'' []
    | TpNotFound \<Rightarrow> ExOther ''TaskPlanNotFound'' []
    | TpConflict \<Rightarrow> ExOther ''TaskPlanConflict'' []
    | TpIntegrityError \<Rightarrow> ExOther ''TaskPlanIntegrityError'' []
    | TpCommitInProgress \<Rightarrow> ExOther ''TaskPlanCommitInProgress'' []
    | TpSqlIntegrityError \<Rightarrow> ExOther ''IntegrityError'' []
    | TpValidation x \<Rightarrow> x)"

definition ug_exn :: "commit_exn ug_error \<Rightarrow> commit_exn" where
  "ug_exn e = (case e of UgPermissionError \<Rightarrow> ExOther ''PermissionError'' [] | UgCallback x \<Rightarrow> x
     | UgTypeError \<Rightarrow> ExOther ''TypeError'' [] | UgKeyError \<Rightarrow> ExOther ''KeyError'' []
     | UgAttributeError \<Rightarrow> ExOther ''AttributeError'' [] | UgConflict \<Rightarrow> ExOther ''UserGrantConflict'' []
     | UgIntegrity \<Rightarrow> ExOther ''IntegrityError'' [] | UgValueError \<Rightarrow> ExOther ''ValueError'' [])"

text \<open>
  \<open>str(v or "").strip()\<close> of an argument; the schema of the capability has made sure that it is a text when it is there.
\<close>

definition text_arg :: "json \<Rightarrow> string" where
  "text_arg v = (case v of JStr s \<Rightarrow> py_strip s | _ \<Rightarrow> [])"

definition text_or :: "json \<Rightarrow> string \<Rightarrow> string" where
  "text_or v d = (case v of JStr s \<Rightarrow> if s = [] then d else s | _ \<Rightarrow> d)"

text \<open>\<open>dict(v or {})\<close>; \<open>dict\<close> of a list of pairs does not occur here.\<close>

definition dict_or_empty :: "json \<Rightarrow> commit_exn + (string \<times> json) list" where
  "dict_or_empty v = (if \<not> truthy v then Inr [] else case v of JDict d \<Rightarrow> Inr d | _ \<Rightarrow> Inl (ExOther ''TypeError'' []))"

text \<open>\<open>list(v or [])\<close> of a member of a summary.\<close>

definition list_or_empty :: "json \<Rightarrow> commit_exn + json list" where
  "list_or_empty v = (if \<not> truthy v then Inr [] else case v of JList xs \<Rightarrow> Inr xs | _ \<Rightarrow> Inl (ExOther ''TypeError'' []))"

definition dput :: "string \<Rightarrow> json \<Rightarrow> (string \<times> json) list \<Rightarrow> (string \<times> json) list" where
  "dput = AList.update"

definition supersession_key :: "py_env \<Rightarrow> (string \<times> json) list \<Rightarrow> string" where
  "supersession_key env arguments = json_hash env (canon (JDict arguments))"

definition pending_batch_capability :: string where
  "pending_batch_capability = ''oa.workflow.pending.batch.prepare''"

definition session_binding_matches :: "(string \<times> json) list \<Rightarrow> session \<Rightarrow> bool" where
  "session_binding_matches plan se =
     (let b = (case dget plan ''session_binding'' of JDict b \<Rightarrow> b | _ \<Rightarrow> []) in
      py_eq (dget plan ''user_subject'') (JStr (se_user se)) \<and> py_eq (dget b ''session_id'') (JStr (se_id se)) \<and>
      py_eq (dget b ''expected_principal_ref'') (se_expected se) \<and>
      py_eq (dget b ''downstream_principal_ref'') (se_downstream se) \<and>
      py_eq (dget b ''last_verified_at'') (se_verified se))"

definition write_allowed :: "cap_context \<Rightarrow> string \<Rightarrow> gp_db \<Rightarrow> commit_exn + unit" where
  "write_allowed cx system policies =
     (if cap_effect (cx_spec cx) = ''read'' then Inr ()
      else case assert_write_allowed \<lparr>ws_system = system, ws_user = cx_user cx, ws_capability = cap_name (cx_spec cx),
               ws_version = cap_version (cx_spec cx)\<rparr> policies of
             Inr u \<Rightarrow> Inr u
           | Inl (GpDenied r) \<Rightarrow> Inl (ExRejected ''WRITE_PAUSED''
               (''Write operation is paused by governance policy '' @ gp_type r @ '':'' @ gp_value r @ ''. Reason: '' @ gp_reason r))
           | Inl _ \<Rightarrow> Inr ())"

section \<open>The commit boundary\<close>

definition se_binding :: "cap_context \<Rightarrow> session \<Rightarrow> wa_binding" where
  "se_binding cx se = \<lparr>wb_user = se_user se, wb_system = se_system se, wb_session = se_id se,
     wb_capability = cap_name (cx_spec cx), wb_version = cap_version (cx_spec cx)\<rparr>"

text \<open>What runs inside of the transaction that consumes the authorization.\<close>

definition before_consume ::
  "('k, 'i) cw_deps \<Rightarrow> cap_context \<Rightarrow> session \<Rightarrow> string \<Rightarrow> time \<Rightarrow> 'k \<times> tp_db \<Rightarrow> commit_exn + 'k \<times> tp_db" where
  "before_consume dp cx se i now x =
     ebind (dp_skill_guard dp i (se_user se) (fst x)) (\<lambda>k.
     case tp_guard now i (se_user se) (cx_operation cx) (dp_validate_plan dp) (snd x) of
       Inl e \<Rightarrow> Inl (tp_exn e) | Inr p \<Rightarrow> Inr (k, p))"

definition interfere :: "('k, 'i) cw_deps \<Rightarrow> ('k, 'g) cw_draws \<Rightarrow> nat \<Rightarrow> ('k, 'y, 'g, 'i, 'w) cw_state \<Rightarrow> ('k, 'y, 'g, 'i, 'w) cw_state" where
  "interfere dp dr n st = st\<lparr>cw_auths := run (wa_exec (dp_env dp)) (cd_auth_ops dr n) (cw_auths st),
     cw_grants := run ug_exec (cd_grant_ops dr n) (cw_grants st)\<rparr>"

definition enter_commit_boundary ::
  "('k, 'i) cw_deps \<Rightarrow> ('k, 'g) cw_draws \<Rightarrow> cap_context \<Rightarrow> session \<Rightarrow> (string \<times> json) list \<Rightarrow> string \<Rightarrow> nat
   \<Rightarrow> ('k, 'y, 'g, 'i, 'w) cw_state \<Rightarrow> (commit_exn + unit) \<times> ('k, 'y, 'g, 'i, 'w) cw_state" where
  "enter_commit_boundary dp dr cx se arguments i n st0 =
     (let st = interfere dp dr n st0 in
      case require_capability (cx_user cx) (cap_name (cx_spec cx)) (Some arguments) (cw_grants st) of
        Inl e \<Rightarrow> (Inl (ug_exn e), st)
      | Inr _ \<Rightarrow>
          let (now, now2, now3) = cd_clock dr n
          in (case wa_consume (dp_env dp) now now2 i (se_binding cx se) (cx_operation cx)
                     (Some (before_consume dp cx se i now3)) (cw_auths st) of
                Inl e \<Rightarrow> (Inl (wa_exn e), st)
              | Inr (_, auths) \<Rightarrow> (Inr (), st\<lparr>cw_auths := auths\<rparr>)))"

text \<open>A run of a commit function: the state, how often the boundary was called and how often it was entered.\<close>

record ('k, 'y, 'g, 'i, 'w) cw_run =
  rn_state :: "('k, 'y, 'g, 'i, 'w) cw_state"
  rn_calls :: nat
  rn_entered :: nat

primrec run_program ::
  "(nat \<Rightarrow> ('k, 'y, 'g, 'i, 'w) cw_state \<Rightarrow> (commit_exn + unit) \<times> ('k, 'y, 'g, 'i, 'w) cw_state) \<Rightarrow> 'w commit_program
   \<Rightarrow> ('k, 'y, 'g, 'i, 'w) cw_run \<Rightarrow> (commit_exn + json) \<times> ('k, 'y, 'g, 'i, 'w) cw_run" where
  "run_program enter (CpReturn v) rn = (Inr v, rn)"
| "run_program enter (CpRaise e) rn = (Inl e, rn)"
| "run_program enter (CpAct f) rn =
     (let (w, go) = map_prod id (run_program enter) (f (cw_world (rn_state rn)))
      in go (rn\<lparr>rn_state := (rn_state rn)\<lparr>cw_world := w\<rparr>\<rparr>))"
| "run_program enter (CpEnter k) rn =
     (let (out, st) = enter (rn_calls rn) (rn_state rn)
      in case out of
           Inl e \<Rightarrow> run_program enter (k (Some e)) (rn\<lparr>rn_state := st, rn_calls := Suc (rn_calls rn)\<rparr>)
         | Inr _ \<Rightarrow> run_program enter (k None)
             (rn\<lparr>rn_state := st, rn_calls := Suc (rn_calls rn), rn_entered := Suc (rn_entered rn)\<rparr>))"

section \<open>Committing an authorized write\<close>

definition wa_state_text :: "wa_state \<Rightarrow> string" where
  "wa_state_text s = (case s of WaPending \<Rightarrow> ''pending'' | WaApproved \<Rightarrow> ''approved'' | WaRejected \<Rightarrow> ''rejected''
     | WaConsumed \<Rightarrow> ''consumed'' | WaExpired \<Rightarrow> ''expired'' | WaSuperseded \<Rightarrow> ''superseded'')"

text \<open>\<open>v[k]\<close> of a value that a callback returned.\<close>

definition member :: "json \<Rightarrow> string \<Rightarrow> commit_exn + json" where
  "member v k = (case v of
      JDict d \<Rightarrow> (case map_of d k of None \<Rightarrow> Inl (ExOther ''KeyError'' k) | Some x \<Rightarrow> Inr x)
    | _ \<Rightarrow> Inl (ExOther ''TypeError'' []))"

text \<open>The members of the answer that opens the card of an authorization; an instant is shown as its number.\<close>

definition card_members :: "wa_row \<Rightarrow> json \<Rightarrow> json \<Rightarrow> (string \<times> json) list" where
  "card_members row interaction interaction_id =
     [(''type'', JStr ''open_write_authorization_card''), (''interactionId'', interaction_id),
      (''authorizationId'', JStr (wa_id row)), (''cardUrl'', JStr (wa_card_url row)), (''planHash'', JStr (wa_plan_hash row)),
      (''expiresAt'', JInt (wa_expires_at row))]"

definition then_members :: "string \<Rightarrow> wa_row \<Rightarrow> json" where
  "then_members capability row =
     JDict [(''capability'', JStr capability), (''arguments'', JDict [(''authorization_id'', JStr (wa_id row))])]"

definition pending_action ::
  "('k, 'i) cw_deps \<Rightarrow> wa_view \<Rightarrow> ('k, 'y, 'g, 'i, 'w) cw_state \<Rightarrow> handler_exit \<times> ('k, 'y, 'g, 'i, 'w) cw_state" where
  "pending_action dp v st =
     (let (out, rest) = dp_auth_card dp v (cw_rest st); st' = st\<lparr>cw_rest := rest\<rparr> in
      case ebind out (\<lambda>interaction. ebind (member interaction ''interactionId'') (\<lambda>i. Inr (interaction, i))) of
        Inl e \<Rightarrow> (exn_exit e, st')
      | Inr (interaction, i) \<Rightarrow>
          (HxUserAction ''WRITE_AUTHORIZATION_REQUIRED'' ''The trusted action card has not been approved.''
             (JDict (card_members (wv_row v) interaction i @ [(''interaction'', interaction)])), st'))"

definition earlier_validations :: "(string \<times> json) list \<Rightarrow> (string \<times> json) list list" where
  "earlier_validations plan =
     (let items = (case dget plan ''business_validation_overrides'' of
             JList xs \<Rightarrow> xs
           | _ \<Rightarrow> (case dget plan ''business_validation_override'' of JDict d \<Rightarrow> [JDict d] | _ \<Rightarrow> []))
      in concat (map (\<lambda>v. case v of JDict d \<Rightarrow> [d] | _ \<Rightarrow> []) items))"

definition has_hash :: "json \<Rightarrow> bool" where
  "has_hash v = (case v of JList _ \<Rightarrow> False | JDict _ \<Rightarrow> False | _ \<Rightarrow> True)"

text \<open>The plan that carries one more confirmed warning, refused for a repeated one and after five.\<close>

definition continued_plan :: "(string \<times> json) list \<Rightarrow> (string \<times> json) list \<Rightarrow> commit_exn + (string \<times> json) list" where
  "continued_plan plan validation =
     (let earlier = earlier_validations plan in
      case map_of validation ''fingerprint'' of
        None \<Rightarrow> Inl (ExOther ''KeyError'' ''fingerprint'')
      | Some fp \<Rightarrow>
          if \<not> list_all (\<lambda>d. has_hash (dget d ''fingerprint'')) earlier \<or> \<not> has_hash fp then Inl (ExOther ''TypeError'' [])
          else if list_ex (\<lambda>d. py_eq (dget d ''fingerprint'') fp) earlier
          then Inl (ExOther ''ValueError'' ''the OA confirmation was already authorized'')
          else if length earlier \<ge> 5 then Inl (ExOther ''ValueError'' ''too many chained OA confirmations'')
          else Inr (dput ''business_validation_overrides'' (JList (map JDict earlier @ [JDict validation]))
                      (AList.delete ''business_validation_override'' plan)))"

definition continued_summary ::
  "cw_texts \<Rightarrow> (string \<times> json) list \<Rightarrow> (string \<times> json) list \<Rightarrow> commit_exn + (string \<times> json) list" where
  "continued_summary tx summary validation =
     (let title = py_strip (text_or (dget summary ''title'') (tx_default_title tx));
          s = dput ''authorize_label'' (JStr (tx_continue_label tx)) (dput ''authorization_notice'' (JStr (tx_continue_notice tx))
                (dput ''effect'' (JStr (tx_continue_effect tx)) (dput ''title'' (JStr (tx_continue_title tx title)) summary)))
      in ebind (list_or_empty (dget s ''fields'')) (\<lambda>fields.
         ebind (member (JDict validation) ''message'') (\<lambda>message.
           Inr (dput ''fields'' (JList (fields @
             [JDict [(''label'', JStr (tx_validation_label tx)), (''value'', message)]])) s))))"

definition items_of :: "json \<Rightarrow> (string \<times> json) list" where
  "items_of v = (case v of JDict d \<Rightarrow> d | _ \<Rightarrow> [])"

text \<open>
  The business system asked for a confirmation: the executor asks the user for an authorization of the continued plan.
\<close>

definition ask_to_continue ::
  "('k, 'i) cw_deps \<Rightarrow> ('k, 'g) cw_draws \<Rightarrow> cap_context \<Rightarrow> session \<Rightarrow> wa_row \<Rightarrow> (string \<times> json) list \<Rightarrow> (string \<times> json) list
   \<Rightarrow> ('k, 'y, 'g, 'i, 'w) cw_state \<Rightarrow> handler_exit \<times> ('k, 'y, 'g, 'i, 'w) cw_state" where
  "ask_to_continue dp dr cx se row plan validation st =
     (case ebind (continued_plan plan validation) (\<lambda>p.
           ebind (continued_summary (dp_texts dp) (items_of (wa_summary row)) validation) (\<lambda>s.
           ebind (dict_or_empty (dget p ''resume_arguments'')) (\<lambda>r. Inr (p, s, r)))) of
        Inl e \<Rightarrow> (exn_exit e, st)
      | Inr (p, s, r) \<Rightarrow>
          (case wa_create (dp_env dp) (cd_now dr) (cd_token dr)
                  \<lparr>wr_user = se_user se, wr_system = se_system se, wr_session = se_id se,
                   wr_capability = cap_name (cx_spec cx), wr_version = cap_version (cx_spec cx),
                   wr_prepare_operation = cx_operation cx, wr_supersession_key = supersession_key (dp_env dp) r,
                   wr_plan = JDict p, wr_summary = JDict s, wr_card_base_url = dp_base_url dp, wr_ttl_seconds = 1800\<rparr>
                  (cw_auths st) of
             Inl e \<Rightarrow> (exn_exit (wa_exn e), st)
           | Inr (v, auths) \<Rightarrow>
               let (out, rest) = dp_auth_card dp v (cw_rest st);
                   st' = st\<lparr>cw_auths := auths, cw_rest := rest\<rparr>
               in (case ebind out (\<lambda>interaction. ebind (member interaction ''interactionId'') (\<lambda>i.
                         ebind (member (JDict validation) ''code'') (\<lambda>code. Inr (interaction, i, code)))) of
                     Inl e \<Rightarrow> (exn_exit e, st')
                   | Inr (interaction, i, code) \<Rightarrow>
                       (HxUserAction ''OA_BUSINESS_VALIDATION_CONFIRMATION_REQUIRED''
                          ''OA returned a continuable business-validation warning.''
                          (JDict (card_members (wv_row v) interaction i @
                             [(''display'', JDict [(''title'', dget s ''title''), (''effect'', dget s ''effect''),
                                 (''fieldCount'', JInt (case dget s ''fields'' of JList xs \<Rightarrow> int (length xs) | _ \<Rightarrow> 0)),
                                 (''validationCode'', code)]),
                              (''then'', then_members (cap_name (cx_spec cx)) (wv_row v)), (''interaction'', interaction)])), st'))))"

text \<open>The \<open>except\<close> clauses around the commit function.\<close>

definition commit_failure ::
  "('k, 'i) cw_deps \<Rightarrow> ('k, 'g) cw_draws \<Rightarrow> cap_context \<Rightarrow> session \<Rightarrow> wa_row \<Rightarrow> (string \<times> json) list \<Rightarrow> bool \<Rightarrow> commit_exn
   \<Rightarrow> ('k, 'y, 'g, 'i, 'w) cw_state \<Rightarrow> handler_exit \<times> ('k, 'y, 'g, 'i, 'w) cw_state" where
  "commit_failure dp dr cx se row plan entered e st =
     (let unknown = (\<lambda>cls. HxUnknown ''RESULT_UNKNOWN'' (tx_no_result (dp_texts dp) cls));
          other = (\<lambda>cls. if entered then unknown cls else exn_exit e)
      in case e of
        ExValidation v \<Rightarrow> ask_to_continue dp dr cx se row plan v st
      | ExOutcome _ msg \<Rightarrow> (HxUnknown ''RESULT_UNKNOWN'' msg, st)
      | ExBusinessRule code msg \<Rightarrow> (HxRejected code msg, st)
      | ExContract _ msg \<Rightarrow>
          (if entered then HxUnknown ''RESULT_UNKNOWN'' (tx_contract (dp_texts dp)) else HxError ''ValueError'' msg, st)
      | ExAuthAccess msg \<Rightarrow> (HxError ''ValueError'' msg, st)
      | ExAuthState msg \<Rightarrow> (HxError ''ValueError'' msg, st)
      | ExPlanInvalid code msg \<Rightarrow> (HxRejected code msg, st)
      | ExUserAction _ _ _ \<Rightarrow> (other ''RequiresUserAction'', st)
      | ExUnknown _ _ \<Rightarrow> (other ''OutcomeUnknown'', st)
      | ExRejected _ _ \<Rightarrow> (other ''CapabilityRejected'', st)
      | ExOther cls _ \<Rightarrow> (other cls, st))"

text \<open>The checks of a plan that is no longer pending.\<close>

definition check_plan ::
  "('k, 'i) cw_deps \<Rightarrow> cap_context \<Rightarrow> session \<Rightarrow> string \<Rightarrow> wa_row \<Rightarrow> (string \<times> json) list \<Rightarrow> 'i \<Rightarrow> gp_db \<Rightarrow> handler_exit + unit" where
  "check_plan dp cx se prepare row plan rest policies =
     (let resume = dget plan ''resume_arguments'';
          trusted = text_or (dget plan ''prepare_capability'') prepare;
          batch = (if trusted \<noteq> pending_batch_capability then Inr ()
            else ebind (dp_batch_commit dp (wa_prepare_operation row) (se_user se) (if truthy resume then resume else JDict []) rest)
                   (\<lambda>c. raise_if (c \<noteq> cap_name (cx_spec cx)) (ExRejected ''BATCH_CAPABILITY_MISMATCH'' [])))
      in case batch of
           Inl e \<Rightarrow> Inl (exn_exit e)
         | Inr _ \<Rightarrow>
             if wa_state row \<noteq> WaApproved
             then (case dict_or_empty resume of
                 Inl e \<Rightarrow> Inl (exn_exit e)
               | Inr r \<Rightarrow> Inl (HxUserAction ''WRITE_AUTHORIZATION_UNAVAILABLE''
                   (''The write authorization is '' @ wa_state_text (wa_state row) @ ''.'')
                   (JDict [(''type'', JStr ''prepare_again''), (''capability'', JStr trusted), (''arguments'', JDict r)])))
             else if \<not> session_binding_matches plan se
             then Inl (HxError ''ValueError'' ''the downstream session changed after the write plan was authorized'')
             else (case write_allowed cx (se_system se) policies of Inl e \<Rightarrow> Inl (exn_exit e) | Inr _ \<Rightarrow> Inr ()))"

text \<open>The checks before the commit function runs: the authorization and its plan, or how the call ends.\<close>

definition check_commit ::
  "('k, 'i) cw_deps \<Rightarrow> ('k, 'g) cw_draws \<Rightarrow> cap_context \<Rightarrow> session \<Rightarrow> string \<Rightarrow> string
   \<Rightarrow> ('k, 'y, 'g, 'i, 'w) cw_state \<Rightarrow> (handler_exit + wa_row \<times> (string \<times> json) list) \<times> ('k, 'y, 'g, 'i, 'w) cw_state" where
  "check_commit dp dr cx se i prepare st =
     (let not_found = HxError ''KeyError'' ''write authorization not found'' in
      if i = [] then (Inl (HxError ''ValueError'' ''authorization_id is required''), st)
      else case wa_get (cd_now dr) i True (cw_auths st) of
        Inl e \<Rightarrow> (Inl (if e = WaNotFound then not_found else exn_exit (wa_exn e)), st)
      | Inr (v, auths) \<Rightarrow>
          let row = wv_row v; st1 = st\<lparr>cw_auths := auths\<rparr> in
          if wa_user row \<noteq> se_user se then (Inl not_found, st1)
          else if wa_state row = WaPending then (let (x, st2) = pending_action dp v st1 in (Inl x, st2))
          else (case wv_plan v of
            Some (JDict plan) \<Rightarrow>
              (case check_plan dp cx se prepare row plan (cw_rest st1) (cw_policies st1) of
                 Inl x \<Rightarrow> (Inl x, st1) | Inr _ \<Rightarrow> (Inr (row, plan), st1))
          | _ \<Rightarrow> (Inl (HxError ''AttributeError'' []), st1)))"

definition start_run :: "('k, 'y, 'g, 'i, 'w) cw_state \<Rightarrow> ('k, 'y, 'g, 'i, 'w) cw_run" where
  "start_run st = \<lparr>rn_state = st, rn_calls = 0, rn_entered = 0\<rparr>"

text \<open>The exit of a commit with the state after it and how often the boundary was entered.\<close>

definition cw_commit_counted ::
  "('k, 'i) cw_deps \<Rightarrow> ('k, 'g) cw_draws \<Rightarrow> session \<Rightarrow> string \<Rightarrow> 'w write_def \<Rightarrow> cap_context \<Rightarrow> (string \<times> json) list
   \<Rightarrow> ('k, 'y, 'g, 'i, 'w) cw_state \<Rightarrow> handler_exit \<times> ('k, 'y, 'g, 'i, 'w) cw_state \<times> nat" where
  "cw_commit_counted dp dr se prepare wd cx arguments st =
     (let i = text_arg (dget arguments ''authorization_id'');
          (checked, st1) = check_commit dp dr cx se i prepare st
      in case checked of
        Inl x \<Rightarrow> (x, st1, 0)
      | Inr (row, plan) \<Rightarrow>
          (case wd_commit wd of
             None \<Rightarrow> (HxError ''RuntimeError'' ''trusted write commit function is unavailable'', st1, 0)
           | Some f \<Rightarrow>
               let (out, rn) = run_program (enter_commit_boundary dp dr cx se arguments i) (f (JDict plan)) (start_run st1)
               in (case out of
                     Inr v \<Rightarrow> (HxReturn v, rn_state rn, rn_entered rn)
                   | Inl e \<Rightarrow>
                       let (x, st2) = commit_failure dp dr cx se row plan (rn_entered rn > 0) e (rn_state rn)
                       in (x, st2, rn_entered rn))))"

definition cw_commit ::
  "('k, 'i) cw_deps \<Rightarrow> ('k, 'g) cw_draws \<Rightarrow> session \<Rightarrow> string \<Rightarrow> 'w write_def \<Rightarrow> ('k, 'y, 'g, 'i, 'w) cw_state handler" where
  "cw_commit dp dr se prepare wd cx arguments st =
     (let (x, st', _) = cw_commit_counted dp dr se prepare wd cx arguments st in (x, st'))"

section \<open>Lemmas\<close>

lemma run_program_keeps:
  fixes enter :: "nat \<Rightarrow> ('k, 'y, 'g, 'i, 'w) cw_state \<Rightarrow> (commit_exn + unit) \<times> ('k, 'y, 'g, 'i, 'w) cw_state"
  assumes "run_program enter p rn = (out, rn')" and "Q rn"
    and act: "\<And>rn w. Q rn \<Longrightarrow> Q (rn\<lparr>rn_state := (rn_state rn)\<lparr>cw_world := w\<rparr>\<rparr>)"
    and fail: "\<And>rn e st. Q rn \<Longrightarrow> enter (rn_calls rn) (rn_state rn) = (Inl e, st) \<Longrightarrow> Q (rn\<lparr>rn_state := st, rn_calls := Suc (rn_calls rn)\<rparr>)"
    and ok: "\<And>rn st. Q rn \<Longrightarrow> enter (rn_calls rn) (rn_state rn) = (Inr (), st) \<Longrightarrow>
      Q (rn\<lparr>rn_state := st, rn_calls := Suc (rn_calls rn), rn_entered := Suc (rn_entered rn)\<rparr>)"
  shows "Q rn'"
  using assms(1,2)
proof (induction p arbitrary: rn)
  case (CpAct f)
  obtain w p where f: "f (cw_world (rn_state rn)) = (w, p)" by (cases "f (cw_world (rn_state rn))")
  have "(w, p) \<in> range f" by (metis f rangeI)
  moreover have "p \<in> Basic_BNFs.snds (w, p)" by (simp add: prod_set_defs)
  ultimately show ?case using CpAct.IH[of "(w, p)" p "rn\<lparr>rn_state := (rn_state rn)\<lparr>cw_world := w\<rparr>\<rparr>"] CpAct.prems act f by simp
next
  case (CpEnter k)
  obtain r st where e: "enter (rn_calls rn) (rn_state rn) = (r, st)" by (cases "enter (rn_calls rn) (rn_state rn)")
  show ?case
  proof (cases r)
    case (Inl x)
    then show ?thesis using CpEnter.IH[of "k (Some x)"] CpEnter.prems fail[of rn x st] e by simp
  next
    case (Inr u)
    then show ?thesis using CpEnter.IH[of "k None"] CpEnter.prems ok[of rn st] e by (cases u) simp
  qed
qed auto

lemma enter_Inl:
  assumes "enter_commit_boundary dp dr cx se arguments i n st0 = (Inl e, st)"
  shows "st = interfere dp dr n st0"
  using assms by (auto simp: enter_commit_boundary_def Let_def split: sum.splits prod.splits)

lemma enter_Inr:
  assumes "enter_commit_boundary dp dr cx se arguments i n st0 = (Inr (), st)"
  shows "\<exists>now now2 now3 v auths. cd_clock dr n = (now, now2, now3) \<and> (require_capability (cx_user cx) (cap_name (cx_spec cx)) (Some arguments)
        (cw_grants (interfere dp dr n st0)) :: commit_exn ug_error + unit) = Inr () \<and>
    wa_consume (dp_env dp) now now2 i (se_binding cx se) (cx_operation cx) (Some (before_consume dp cx se i now3))
      (cw_auths (interfere dp dr n st0)) = Inr (v, auths) \<and> st = (interfere dp dr n st0)\<lparr>cw_auths := auths\<rparr>"
proof -
  obtain now now2 now3 where clock: "cd_clock dr n = (now, now2, now3)" by (cases "cd_clock dr n")
  have "(require_capability (cx_user cx) (cap_name (cx_spec cx)) (Some arguments)
        (cw_grants (interfere dp dr n st0)) :: commit_exn ug_error + unit) = Inr () \<and> (\<exists>v auths.
    wa_consume (dp_env dp) now now2 i (se_binding cx se) (cx_operation cx) (Some (before_consume dp cx se i now3))
      (cw_auths (interfere dp dr n st0)) = Inr (v, auths) \<and> st = (interfere dp dr n st0)\<lparr>cw_auths := auths\<rparr>)"
    using assms by (auto simp: enter_commit_boundary_def Let_def clock split: sum.splits)
  then show ?thesis using clock by blast
qed

lemma wa_consume_exec:
  "wa_consume env now now2 i b oid cb db = Inr (v, db') \<Longrightarrow> wa_exec env (WaConsume now now2 i b oid cb) db = Inr (WaAuth v, db')"
  by (simp add: wa_wrap_def)

lemma interfere_inv:
  "wa_inv (dp_env dp) (cw_auths st) \<Longrightarrow> wa_inv (dp_env dp) (cw_auths (interfere dp dr n st))"
  by (simp add: interfere_def wa.inv_run)

lemma interfere_consumed:
  "wa_inv (dp_env dp) (cw_auths st) \<Longrightarrow> wa_status (cw_auths st) i = Some WaConsumed \<Longrightarrow>
   wa_status (cw_auths (interfere dp dr n st)) i = Some WaConsumed"
  by (simp add: interfere_def) (rule wa.final_run, auto)

text \<open>
  What others have executed before the first \<open>n\<close> calls of the boundary, and the state in which call \<open>n\<close> finds the authorization and
  the permissions when no call before has entered.
\<close>

definition meanwhile :: "(nat \<Rightarrow> 'o list) \<Rightarrow> nat \<Rightarrow> 'o list" where
  "meanwhile f n = concat (map f [0..<n])"

lemma meanwhile_Suc [simp]: "meanwhile f (Suc n) = meanwhile f n @ f n" and meanwhile_0 [simp]: "meanwhile f 0 = []"
  by (simp_all add: meanwhile_def)

definition may_enter ::
  "('k, 'i) cw_deps \<Rightarrow> ('k, 'g) cw_draws \<Rightarrow> cap_context \<Rightarrow> (string \<times> json) list \<Rightarrow> string \<Rightarrow> wa_row \<Rightarrow> ('k, 'y, 'g, 'i, 'w) cw_state \<Rightarrow> nat \<Rightarrow> bool" where
  "may_enter dp dr cx arguments i row st n \<longleftrightarrow>
     (require_capability (cx_user cx) (cap_name (cx_spec cx)) (Some arguments)
        (run ug_exec (meanwhile (cd_grant_ops dr) (Suc n)) (cw_grants st)) :: commit_exn ug_error + unit) = Inr () \<and>
     wa_status (run (wa_exec (dp_env dp)) (meanwhile (cd_auth_ops dr) (Suc n)) (cw_auths st)) i = Some WaApproved \<and>
     fst (snd (cd_clock dr n)) < wa_expires_at row"

text \<open>What holds of every run of a commit function that starts with an authorization in \<open>row\<close>.\<close>

definition crossing_ok ::
  "('k, 'i) cw_deps \<Rightarrow> ('k, 'g) cw_draws \<Rightarrow> cap_context \<Rightarrow> session \<Rightarrow> (string \<times> json) list \<Rightarrow> string \<Rightarrow> wa_row
   \<Rightarrow> ('k, 'y, 'g, 'i, 'w) cw_state \<Rightarrow> ('k, 'y, 'g, 'i, 'w) cw_run \<Rightarrow> bool" where
  "crossing_ok dp dr cx se arguments i row st rn \<longleftrightarrow>
     wa_inv (dp_env dp) (cw_auths (rn_state rn)) \<and>
     (\<exists>r. tbl_get wa_id i (wa_auths (cw_auths (rn_state rn))) = Some r \<and> wa_contract r = wa_contract row) \<and>
     cw_grants (rn_state rn) = run ug_exec (meanwhile (cd_grant_ops dr) (rn_calls rn)) (cw_grants st) \<and> rn_entered rn \<le> 1 \<and>
     (rn_entered rn = 0 \<longrightarrow> cw_auths (rn_state rn) = run (wa_exec (dp_env dp)) (meanwhile (cd_auth_ops dr) (rn_calls rn)) (cw_auths st)) \<and>
     (rn_entered rn > 0 \<longrightarrow> wa_status (cw_auths (rn_state rn)) i = Some WaConsumed \<and> wa_bound_to row (se_binding cx se) \<and>
        (\<exists>n. may_enter dp dr cx arguments i row st n))"

lemma bound_contract: "wa_contract r = wa_contract row \<Longrightarrow> wa_bound_to r b = wa_bound_to row b"
  by (simp add: wa_contract_def wa_bound_to_def)

lemma run_contract:
  assumes inv: "wa_inv env db" and r: "tbl_get wa_id i (wa_auths db) = Some r"
  shows "\<exists>r'. tbl_get wa_id i (wa_auths (run (wa_exec env) ops db)) = Some r' \<and> wa_contract r' = wa_contract r"
  using inv r
proof (induction ops arbitrary: db r)
  case (Cons op ops)
  obtain r1 where r1: "tbl_get wa_id i (wa_auths (commit (wa_exec env op db) db)) = Some r1" "wa_contract r1 = wa_contract r"
  proof (cases "wa_exec env op db")
    case (Inr p)
    then have e: "wa_exec env op db = Inr (fst p, snd p)" by simp
    from wa_exec_row[OF e Cons.prems(2)] that e show ?thesis unfolding Inr by (cases p) (auto simp: wa_moves_def)
  qed (use that Cons.prems(2) in simp)
  from Cons.IH[OF wa.inv_commit[OF Cons.prems(1)] r1(1)] r1(2) show ?case by auto
qed auto

lemma crossing_interfere:
  fixes st :: "('k, 'y, 'g, 'i, 'w) cw_state" and rn :: "('k, 'y, 'g, 'i, 'w) cw_run"
  assumes "crossing_ok dp dr cx se arguments i row st rn"
  shows "crossing_ok dp dr cx se arguments i row st
    (rn\<lparr>rn_state := interfere dp dr (rn_calls rn) (rn_state rn), rn_calls := Suc (rn_calls rn)\<rparr>)"
proof -
  let ?mid = "interfere dp dr (rn_calls rn) (rn_state rn)"
  obtain r where r: "tbl_get wa_id i (wa_auths (cw_auths (rn_state rn))) = Some r" "wa_contract r = wa_contract row"
    and inv: "wa_inv (dp_env dp) (cw_auths (rn_state rn))"
    using assms unfolding crossing_ok_def by blast
  have "\<exists>r. tbl_get wa_id i (wa_auths (cw_auths ?mid)) = Some r \<and> wa_contract r = wa_contract row"
    using run_contract[OF inv r(1), of "cd_auth_ops dr (rn_calls rn)"] r(2) by (simp add: interfere_def)
  moreover have "wa_status (cw_auths ?mid) i = Some WaConsumed" if "rn_entered rn > 0"
    using interfere_consumed[OF inv] assms that by (simp add: crossing_ok_def)
  moreover have "cw_grants ?mid = run ug_exec (cd_grant_ops dr (rn_calls rn)) (cw_grants (rn_state rn))"
    "cw_auths ?mid = run (wa_exec (dp_env dp)) (cd_auth_ops dr (rn_calls rn)) (cw_auths (rn_state rn))" by (simp_all add: interfere_def)
  moreover note interfere_inv[OF inv, of dr "rn_calls rn"]
  ultimately show ?thesis using assms unfolding crossing_ok_def by simp
qed

lemma crossing_run:
  fixes st :: "('k, 'y, 'g, 'i, 'w) cw_state" and rn :: "('k, 'y, 'g, 'i, 'w) cw_run"
  assumes run: "run_program (enter_commit_boundary dp dr cx se arguments i) p rn = (out, rn')"
    and ok: "crossing_ok dp dr cx se arguments i row st rn"
  shows "crossing_ok dp dr cx se arguments i row st rn'"
proof (rule run_program_keeps[OF run, where Q = "crossing_ok dp dr cx se arguments i row st", OF ok], goal_cases)
  case (1 rn w)
  then show ?case by (simp add: crossing_ok_def)
next
  case (2 rn e st1)
  show ?case unfolding enter_Inl[OF 2(2)] by (rule crossing_interfere[OF 2(1)])
next
  case (3 rn st1)
  let ?mid = "interfere dp dr (rn_calls rn) (rn_state rn)"
  from enter_Inr[OF 3(2)] obtain now now2 now3 v auths where clock: "cd_clock dr (rn_calls rn) = (now, now2, now3)"
    and grant: "(require_capability (cx_user cx) (cap_name (cx_spec cx)) (Some arguments) (cw_grants ?mid) :: commit_exn ug_error + unit) = Inr ()"
    and c: "wa_consume (dp_env dp) now now2 i (se_binding cx se) (cx_operation cx) (Some (before_consume dp cx se i now3)) (cw_auths ?mid) = Inr (v, auths)"
    and st1: "st1 = ?mid\<lparr>cw_auths := auths\<rparr>" by blast
  note mid = crossing_interfere[OF 3(1)]
  have inv: "wa_inv (dp_env dp) (cw_auths ?mid)" using mid by (simp add: crossing_ok_def)
  from wa_consume_Inr[OF c] obtain r where r: "tbl_get wa_id i (wa_auths (cw_auths ?mid)) = Some r" "wa_state r = WaApproved"
    "wa_bound_to r (se_binding cx se)" "now2 < wa_expires_at r" by blast
  have zero: "rn_entered rn = 0"
  proof (rule ccontr)
    assume "rn_entered rn \<noteq> 0"
    then have "wa_status (cw_auths ?mid) i = Some WaConsumed" using mid by (simp add: crossing_ok_def)
    then show False using r by (simp add: wa_status_def)
  qed
  have inv': "wa_inv (dp_env dp) auths" by (rule wa_exec_inv[OF inv wa_consume_exec[OF c]])
  have consumed: "wa_status auths i = Some WaConsumed"
    using wa.spend_exec[OF inv _ wa_consume_exec[OF c], of i] by simp
  obtain r' where r': "tbl_get wa_id i (wa_auths auths) = Some r'" "wa_contract r' = wa_contract r"
    using wa_exec_row[OF wa_consume_exec[OF c] r(1)] by (auto simp: wa_moves_def)
  have row: "wa_contract r = wa_contract row" using mid r(1) by (simp add: crossing_ok_def)
  then have "wa_expires_at r = wa_expires_at row" by (simp add: wa_contract_def)
  moreover have "cw_grants ?mid = run ug_exec (meanwhile (cd_grant_ops dr) (Suc (rn_calls rn))) (cw_grants st)"
    "cw_auths ?mid = run (wa_exec (dp_env dp)) (meanwhile (cd_auth_ops dr) (Suc (rn_calls rn))) (cw_auths st)"
    using mid zero by (simp_all add: crossing_ok_def)
  ultimately have "may_enter dp dr cx arguments i row st (rn_calls rn)"
    using grant r clock unfolding may_enter_def by (simp add: wa_status_def del: meanwhile_Suc)
  then show ?case using mid zero inv' consumed r' row r(3) bound_contract[OF row]
    unfolding st1 crossing_ok_def by auto
qed

lemma check_commit_Inr:
  assumes "check_commit dp dr cx se i prepare st = (Inr (row, plan), st1)"
  shows "st1 = st \<and> (\<exists>r. tbl_get wa_id i (wa_auths (cw_auths st)) = Some r \<and> row = r\<lparr>wa_plan := JNull, wa_csrf_hash := None\<rparr> \<and>
    wa_state r = WaApproved \<and> cd_now dr < wa_expires_at r \<and> wa_user r = se_user se \<and> wa_plan r = JDict plan \<and>
    session_binding_matches plan se \<and> write_allowed cx (se_system se) (cw_policies st) = Inr ())"
proof -
  from assms obtain v auths where get: "wa_get (cd_now dr) i True (cw_auths st) = (Inr (v, auths) :: commit_exn wa_error + _)"
    unfolding check_commit_def Let_def by (auto split: if_splits sum.splits)
  then obtain r where cur: "wa_current (cd_now dr) i (cw_auths st) = (Inr (r, auths) :: commit_exn wa_error + _)"
    and v: "v = authorization_from_row True r" by (auto simp: wa_get_def outcome_simps)
  have wv: "wv_row v = r\<lparr>wa_plan := JNull, wa_csrf_hash := None\<rparr>" "wv_plan v = Some (wa_plan r)"
    by (simp_all add: v authorization_from_row_def)
  have facts: "wa_user r = se_user se \<and> wa_plan r = JDict plan \<and> row = wv_row v \<and> st1 = st\<lparr>cw_auths := auths\<rparr> \<and>
      check_plan dp cx se prepare row plan (cw_rest st) (cw_policies st) = Inr ()"
    using assms unfolding check_commit_def Let_def get
    by (auto simp: wv split: if_splits sum.splits prod.splits json.splits option.splits)
  then have p: "wa_state r = WaApproved \<and> session_binding_matches plan se \<and> write_allowed cx (se_system se) (cw_policies st) = Inr ()"
    unfolding check_plan_def Let_def by (auto simp: wv split: if_splits sum.splits)
  then have "wa_live r" by (simp add: wa_live_def)
  from wa_current_live[OF cur this] facts p wv show ?thesis by simp
qed





lemma crossing_start:
  fixes st :: "('k, 'y, 'g, 'i, 'w) cw_state"
  assumes "wa_inv (dp_env dp) (cw_auths st)" and "tbl_get wa_id i (wa_auths (cw_auths st)) = Some row"
  shows "crossing_ok dp dr cx se arguments i row st (start_run st)"
  using assms by (simp add: crossing_ok_def start_run_def)

section \<open>Properties\<close>



text \<open>The exceptions that leave open whether the business system took the write.\<close>

definition loses_result :: "commit_exn \<Rightarrow> bool" where
  "loses_result e = (case e of ExOutcome _ _ \<Rightarrow> True | ExContract _ _ \<Rightarrow> True | ExUserAction _ _ _ \<Rightarrow> True
     | ExUnknown _ _ \<Rightarrow> True | ExRejected _ _ \<Rightarrow> True | ExOther _ _ \<Rightarrow> True | _ \<Rightarrow> False)"

lemma lost_result_exit:
  "loses_result e \<Longrightarrow> \<exists>msg. commit_failure dp dr cx se row plan True e st = (HxUnknown ''RESULT_UNKNOWN'' msg, st)"
  by (cases e) (simp_all add: loses_result_def commit_failure_def Let_def)

text \<open>
  C6: A write whose result was lost is neither reported as failed nor tried again. When a call of the engine runs a commit
  whose commit function entered the boundary and then ended with an exception that leaves its result open, then the call
  is answered with an operation in the status unknown, the row of the store says the same, and
  the authorization is consumed and stays so under all further transactions.
\<close>

theorem lost_result_is_unknown_and_spent:
  fixes st st' :: "('k, 'y, 'g, 'i, 'w) cw_state"
  assumes inv: "op_inv db" "wa_inv (dp_env dp) (cw_auths st)"
    and spec: "registry_get (cc_capability call) (en_registry en) = Inr spec"
    and args: "validate_json_object (cc_arguments call) (cap_input spec) = Inr arguments"
    and new: "op_create env seen (dr_created dr) (dr_operation dr) (dr_request2 dr) (call_request dr call spec arguments) db = Inr ((v, False), db1)"
    and h: "map_of (en_handlers en) (cc_capability call) = Some (cw_commit dp cd se prepare wd)"
    and cx: "cx = call_context call spec (ov_row v)" and i: "i = text_arg (dget arguments ''authorization_id'')"
    and checks: "check_commit dp cd cx se i prepare st = (Inr (row, plan), st1)" "wd_commit wd = Some f"
    and out: "run_program (enter_commit_boundary dp cd cx se arguments i) (f (JDict plan)) (start_run st1) = (Inl e, rn)"
    and lost: "rn_entered rn > 0" "loses_result e"
  shows "\<exists>resp db' st'. engine_invoke env en seen dr call db st = (Inr resp, db', st') \<and> rs_operation resp = op_id (ov_row v) \<and>
    rs_status resp = OpUnknown \<and> (\<exists>r \<in> set db'. op_id r = op_id (ov_row v) \<and> op_status r = OpUnknown) \<and>
    (\<forall>ops :: ('k \<times> tp_db, commit_exn) wa_op list. wa_status (run (wa_exec (dp_env dp)) ops (cw_auths st')) i = Some WaConsumed)"
proof -
  from check_commit_Inr[OF checks(1)] obtain r where r: "tbl_get wa_id i (wa_auths (cw_auths st)) = Some r" and st1: "st1 = st" by blast
  have ok: "crossing_ok dp cd cx se arguments i r st rn"
    by (rule crossing_run[OF out[unfolded st1] crossing_start[OF inv(2) r]])
  obtain msg where msg: "commit_failure dp cd cx se row plan True e (rn_state rn) = (HxUnknown ''RESULT_UNKNOWN'' msg, rn_state rn)"
    using lost_result_exit[OF lost(2)] by blast
  have x: "cw_commit dp cd se prepare wd cx arguments st = (HxUnknown ''RESULT_UNKNOWN'' msg, rn_state rn)"
    using lost(1) unfolding cw_commit_def cw_commit_counted_def Let_def i[symmetric] by (simp add: checks out msg)
  have c: "op_inv db1" "ov_row v \<in> set db1" using op_create_Inr[OF inv(1) new] by auto
  note ends = engine_run_ends[where dr = dr and h = "cw_commit dp cd se prepare wd" and arguments = arguments, OF c x[unfolded cx], unfolded exit_status_def handler_exit.case]
  have spent: "wa_status (run (wa_exec (dp_env dp)) ops (cw_auths (rn_state rn))) i = Some WaConsumed"
    for ops :: "('k \<times> tp_db, commit_exn) wa_op list"
    using ok lost(1) by (intro wa.final_run) (auto simp: crossing_ok_def)
  show ?thesis
    unfolding engine_invoke_created[where st = st, OF spec args new] using ends spent h by (simp add: Bex_def) blast
qed

text \<open>A demonstration: an approved leave request.\<close>

definition cw_demo_texts :: cw_texts where
  "cw_demo_texts = \<lparr>tx_contract = ''not confirmed'', tx_no_result = (\<lambda>cls. ''no result: '' @ cls), tx_continue_title = id,
     tx_default_title = ''write'', tx_continue_effect = [], tx_continue_notice = [], tx_continue_label = ''go on'',
     tx_validation_label = ''warning'', tx_changed_label = ''changed'', tx_changed_value = [], tx_changed_notice = [],
     tx_batch_title = (\<lambda>_ _ _. [])\<rparr>"

definition cw_demo_deps :: "(unit, unit) cw_deps" where
  "cw_demo_deps = \<lparr>dp_env = wa_demo_env, dp_registry = [(''oa.leave.submit'', demo_spec)], dp_base_url = ''https://h/card/'',
     dp_texts = cw_demo_texts, dp_auth_card = (\<lambda>_ i. (Inr (JDict [(''interactionId'', JStr ''i1'')]), i)),
     dp_field_card = (\<lambda>_ i. (Inr (JDict [(''interactionId'', JStr ''i2'')]), i)),
     dp_batch_commit = (\<lambda>_ _ _ _. Inr []), dp_batch_place = (\<lambda>_ _ _. Inr (JInt 1, JInt 1)),
     dp_skill_guard = (\<lambda>_ _ k. Inr k), dp_validate_plan = (\<lambda>_. Inr ())\<rparr>"

definition cw_demo_session :: session where
  "cw_demo_session = \<lparr>se_id = ''s'', se_user = ''ann'', se_system = ''oa'', se_expected = JStr ''A7'', se_downstream = JNull, se_verified = JNull\<rparr>"

definition cw_demo_plan :: "(string \<times> json) list" where
  "cw_demo_plan = [(''days'', JInt 3),
     (''session_binding'', JDict [(''expected_principal_ref'', JStr ''A7''), (''session_id'', JStr ''s'')]),
     (''user_subject'', JStr ''ann'')]"

text \<open>A commit function that enters the boundary, acts, and then gets no answer.\<close>

definition cw_demo_program :: "json \<Rightarrow> nat commit_program" where
  "cw_demo_program _ = CpEnter (\<lambda>r. case r of None \<Rightarrow> CpAct (\<lambda>w. (Suc w, CpRaise (ExOther ''TimeoutError'' []))) | Some e \<Rightarrow> CpRaise e)"

definition cw_demo_write :: "nat write_def" where
  "cw_demo_write = \<lparr>wd_prepare = None, wd_commit = Some cw_demo_program, wd_context_fields = [], wd_field_schema = None,
     wd_commit_capability = ''oa.leave.submit'', wd_authorization_message = [], wd_field_message = []\<rparr>"

definition cw_demo_auths :: "(unit \<times> tp_db) wa_db" where
  "cw_demo_auths = run (wa_exec wa_demo_env :: (unit \<times> tp_db, commit_exn) wa_op \<Rightarrow> _)
     [WaCreate 0 ''a'' (wa_demo_request\<lparr>wr_capability := ''oa.leave.submit'', wr_version := ''1.0.0'', wr_plan := JDict cw_demo_plan\<rparr>),
      WaIssueCsrf ''tok'' 1 1 ''sid'' ''a'' None, WaDecide 2 2 ''a'' ''approve'' ''tok'' ''tok'' None] (wa_empty ((), tp_empty))"

definition cw_demo_state :: "(unit, unit, unit, unit, nat) cw_state" where
  "cw_demo_state = \<lparr>cw_auths = cw_demo_auths, cw_forms = fs_empty (),
     cw_grants = \<lparr>ug_grants = [\<lparr>ug_user = ''ann'', ug_permissions = [''oa.leave.submit''], ug_revision = 1, ug_updated_at = 0\<rparr>],
       ug_events = [], ug_other = ()\<rparr>,
     cw_policies = [], cw_rest = (), cw_world = 0\<rparr>"

definition cw_demo_draws :: "(unit, unit) cw_draws" where
  "cw_demo_draws = \<lparr>cd_now = 3, cd_token = ''a2'', cd_clock = (\<lambda>_. (3, 3, 3)), cd_auth_ops = (\<lambda>_. []), cd_grant_ops = (\<lambda>_. [])\<rparr>"

definition cw_demo_context :: cap_context where
  "cw_demo_context = \<lparr>cx_user = ''ann'', cx_request = ''r1'', cx_operation = ''o1'', cx_spec = demo_spec, cx_trace = None, cx_task = None\<rparr>"

abbreviation cw_demo_arguments :: "(string \<times> json) list" where
  "cw_demo_arguments \<equiv> [(''authorization_id'', JStr ''a'')]"

lemma demo_permission: "map_of capability_permissions ''oa.leave.submit'' = Some ''oa.leave.submit''"
  unfolding capability_permissions_def map_of_py_dict by code_simp

lemma cw_demo_granted:
  "(require_capability ''ann'' ''oa.leave.submit'' args (cw_grants cw_demo_state) :: commit_exn ug_error + unit) = Inr ()"
proof -
  have "(require_permission ''ann'' ''oa.leave.submit'' (cw_grants cw_demo_state) :: commit_exn ug_error + unit) = Inr ()" by code_simp
  then show ?thesis by (simp add: require_capability_def demo_permission filled_def ebind_def)
qed

lemma cw_demo_check: "check_commit cw_demo_deps cw_demo_draws cw_demo_context cw_demo_session ''a'' [] cw_demo_state =
   (Inr ((the (tbl_get wa_id ''a'' (wa_auths cw_demo_auths)))\<lparr>wa_plan := JNull, wa_csrf_hash := None\<rparr>, cw_demo_plan), cw_demo_state)"
  by code_simp

lemma cw_demo_inv: "wa_inv (dp_env cw_demo_deps) (cw_auths cw_demo_state)"
proof -
  have "wa_inv wa_demo_env cw_demo_auths" unfolding cw_demo_auths_def by (rule wa.inv_run[OF wa_inv_empty])
  then show ?thesis by (simp add: cw_demo_state_def cw_demo_deps_def)
qed

lemma cw_demo_enter:
  "\<exists>auths. enter_commit_boundary cw_demo_deps cw_demo_draws cw_demo_context cw_demo_session args ''a'' 0 cw_demo_state =
     (Inr (), cw_demo_state\<lparr>cw_auths := auths\<rparr>)"
proof -
  let ?c = "wa_consume (dp_env cw_demo_deps) 3 3 ''a'' (se_binding cw_demo_context cw_demo_session) (cx_operation cw_demo_context)
    (Some (before_consume cw_demo_deps cw_demo_context cw_demo_session ''a'' 3)) (cw_auths cw_demo_state)"
  have "isl ?c = False" by code_simp
  then obtain v auths where c: "?c = Inr (v, auths)" using returns_value by (metis surj_pair)
  have i: "interfere cw_demo_deps cw_demo_draws 0 cw_demo_state = cw_demo_state"
    by (simp add: interfere_def cw_demo_draws_def)
  have n: "cx_user cw_demo_context = ''ann''" "cap_name (cx_spec cw_demo_context) = ''oa.leave.submit''"
    "cd_clock cw_demo_draws 0 = (3, 3, 3)" by (simp_all add: cw_demo_context_def demo_spec_def cw_demo_draws_def)
  show ?thesis by (intro exI[of _ auths]) (simp add: enter_commit_boundary_def i n cw_demo_granted c)
qed

text \<open>The demonstration commit enters the boundary, acts once and loses its result.\<close>

lemma cw_demo_run:
  "\<exists>rn. run_program (enter_commit_boundary cw_demo_deps cw_demo_draws cw_demo_context cw_demo_session args ''a'')
      (cw_demo_program (JDict cw_demo_plan)) (start_run cw_demo_state) = (Inl (ExOther ''TimeoutError'' []), rn) \<and>
    rn_entered rn = 1 \<and> cw_world (rn_state rn) = 1"
proof -
  obtain auths where e: "enter_commit_boundary cw_demo_deps cw_demo_draws cw_demo_context cw_demo_session args ''a'' 0 cw_demo_state =
     (Inr (), cw_demo_state\<lparr>cw_auths := auths\<rparr>)" using cw_demo_enter by blast
  show ?thesis by (simp add: cw_demo_program_def start_run_def e) (simp add: cw_demo_state_def)
qed


theorem lost_result_is_unknown_and_spent_witness:
  "\<exists>resp db' st'. engine_invoke op_demo_env \<lparr>en_registry = [(''oa.leave.submit'', demo_spec)],
       en_handlers = [(''oa.leave.submit'', cw_commit cw_demo_deps cw_demo_draws cw_demo_session [] cw_demo_write)]\<rparr>
      [] demo_draws (demo_call\<lparr>cc_arguments := JDict cw_demo_arguments\<rparr>) [] cw_demo_state = (Inr resp, db', st') \<and>
    rs_status resp = OpUnknown \<and> wa_status (cw_auths st') ''a'' = Some WaConsumed"
proof -
  let ?call = "demo_call\<lparr>cc_arguments := JDict cw_demo_arguments\<rparr>"
  let ?en = "\<lparr>en_registry = [(''oa.leave.submit'', demo_spec)],
       en_handlers = [(''oa.leave.submit'', cw_commit cw_demo_deps cw_demo_draws cw_demo_session [] cw_demo_write)]\<rparr>"
  let ?create = "op_create op_demo_env [] (dr_created demo_draws) (dr_operation demo_draws) (dr_request2 demo_draws)
    (call_request demo_draws ?call demo_spec cw_demo_arguments) []"
  have 1: "registry_get (cc_capability ?call) (en_registry ?en) = Inr demo_spec" by (simp add: registry_get_def demo_call_def)
  have 2: "validate_json_object (cc_arguments ?call) (cap_input demo_spec) = Inr cw_demo_arguments" by code_simp
  have "isl ?create = False" "snd (fst (projr ?create)) = False" by code_simp+
  then obtain v db1 where new: "?create = Inr ((v, False), db1)" by (cases ?create) auto
  have v: "op_request (ov_row (fst (fst (projr ?create)))) = ''r1''" "op_id (ov_row (fst (fst (projr ?create)))) = ''o1''" by code_simp+
  have cx: "cw_demo_context = call_context ?call demo_spec (ov_row v)"
    using v unfolding new by (simp add: call_context_def cw_demo_context_def demo_call_def)
  have h: "map_of (en_handlers ?en) (cc_capability ?call) = Some (cw_commit cw_demo_deps cw_demo_draws cw_demo_session [] cw_demo_write)"
    by (simp add: demo_call_def)
  have i: "''a'' = text_arg (dget cw_demo_arguments ''authorization_id'')" by code_simp
  have f: "wd_commit cw_demo_write = Some cw_demo_program" by (simp add: cw_demo_write_def)
  obtain rn where rn: "run_program (enter_commit_boundary cw_demo_deps cw_demo_draws cw_demo_context cw_demo_session cw_demo_arguments ''a'')
      (cw_demo_program (JDict cw_demo_plan)) (start_run cw_demo_state) = (Inl (ExOther ''TimeoutError'' []), rn)" "rn_entered rn > 0"
    using cw_demo_run by force
  have lost: "loses_result (ExOther ''TimeoutError'' [])" by (simp add: loses_result_def)
  obtain resp db' st' where fin: "engine_invoke op_demo_env ?en [] demo_draws ?call [] cw_demo_state = (Inr resp, db', st')"
      "rs_status resp = OpUnknown"
      "\<forall>ops :: (unit \<times> tp_db, commit_exn) wa_op list. wa_status (run (wa_exec (dp_env cw_demo_deps)) ops (cw_auths st')) ''a'' = Some WaConsumed"
    using lost_result_is_unknown_and_spent[OF op_inv_empty cw_demo_inv 1 2 new h cx i cw_demo_check f rn lost] by blast
  have "wa_status (cw_auths st') ''a'' = Some WaConsumed" using fin(3)[rule_format, of "[]"] by simp
  then show ?thesis using fin(1,2) by blast
qed

end
