(* ===== verification/ControlledPreparation.thy ===== *)
theory ControlledPreparation
  imports ControlledWrites
begin

text \<open>
  The first half of a trusted write (\<open>controlled_write_executor.py\<close>): a form for the fields that the user has to fill in,
  and the plan with the authorization that the user has to give. Both end with a request to the user.
\<close>

section \<open>Field input\<close>

definition fs_exn :: "commit_exn fs_error \<Rightarrow> commit_exn" where
  "fs_exn e = (case e of
      FsValueError \<Rightarrow> ExOther ''ValueError'' []
    | FsTypeError \<Rightarrow> ExOther ''TypeError'' []
    | FsNotFound \<Rightarrow> ExOther ''FieldSubmissionNotFound'' []
    | FsStateError \<Rightarrow> ExOther ''FieldSubmissionStateError'' []
    | FsAccessDenied \<Rightarrow> ExOther ''FieldSubmissionAccessDenied'' []
    | FsIntegrityError \<Rightarrow> ExOther ''FieldSubmissionIntegrityError'' []
    | FsSqlIntegrityError \<Rightarrow> ExOther ''IntegrityError'' []
    | FsCallback x \<Rightarrow> x)"

definition fs_state_text :: "fs_state \<Rightarrow> string" where
  "fs_state_text s = (case s of FsPending \<Rightarrow> ''pending'' | FsSubmitted \<Rightarrow> ''submitted''
     | FsConsumed \<Rightarrow> ''consumed'' | FsExpired \<Rightarrow> ''expired'' | FsSuperseded \<Rightarrow> ''superseded'')"

text \<open>\<open>{name: arguments[name] for name in fields if name in arguments}\<close>\<close>

definition context_arguments :: "string list \<Rightarrow> (string \<times> json) list \<Rightarrow> (string \<times> json) list" where
  "context_arguments names arguments =
     foldl (\<lambda>d n. case map_of arguments n of None \<Rightarrow> d | Some v \<Rightarrow> dput n v d) [] names"

text \<open>\<open>{**a, **b}\<close>\<close>

definition dmerge :: "(string \<times> json) list \<Rightarrow> (string \<times> json) list \<Rightarrow> (string \<times> json) list" where
  "dmerge a b = foldl (\<lambda>d (k, v). dput k v d) a b"

definition prefill_field :: "(string \<times> json) list \<Rightarrow> json \<Rightarrow> json" where
  "prefill_field arguments field = (case field of
      JDict fd \<Rightarrow>
        if ''value'' \<in> set (map fst fd) then field
        else let name = text_or (dget fd ''name'') [] in
          if name \<noteq> [] \<and> dget arguments name \<noteq> JNull then JDict (dput ''value'' (dget arguments name) fd) else field
    | _ \<Rightarrow> field)"

text \<open>Iterating over the keys of an object or the characters of a text changes nothing; a number cannot be iterated.\<close>

definition prefill_trusted_field_schema :: "(string \<times> json) list \<Rightarrow> (string \<times> json) list \<Rightarrow> commit_exn + (string \<times> json) list" where
  "prefill_trusted_field_schema schema arguments =
     (let fields = dget schema ''fields'' in
      if \<not> truthy fields then Inr schema
      else case fields of
        JList xs \<Rightarrow> Inr (dput ''fields'' (JList (map (prefill_field arguments) xs)) schema)
      | JDict _ \<Rightarrow> Inr schema
      | JStr _ \<Rightarrow> Inr schema
      | _ \<Rightarrow> Inl (ExOther ''TypeError'' []))"

definition form_schema_of :: "fs_view \<Rightarrow> (string \<times> json) list" where
  "form_schema_of v = items_of (fs_schema (fv_row v))"

definition resume_key :: string where
  "resume_key = ''_agentbridge_resume_arguments''"

definition field_input_required ::
  "('k, 'i) cw_deps \<Rightarrow> 'w write_def \<Rightarrow> fs_view \<Rightarrow> ('k, 'y, 'g, 'i, 'w) cw_state \<Rightarrow> handler_exit \<times> ('k, 'y, 'g, 'i, 'w) cw_state" where
  "field_input_required dp wd v st =
     (let (out, rest) = dp_field_card dp v (cw_rest st); st' = st\<lparr>cw_rest := rest\<rparr>; form = fv_row v in
      case ebind out (\<lambda>interaction. ebind (dict_or_empty (dget (form_schema_of v) resume_key)) (\<lambda>r.
             ebind (member interaction ''interactionId'') (\<lambda>i. Inr (interaction, r, i)))) of
        Inl e \<Rightarrow> (exn_exit e, st')
      | Inr (interaction, r, i) \<Rightarrow>
          (HxUserAction ''FIELD_INPUT_REQUIRED'' (wd_field_message wd)
             (JDict [(''type'', JStr ''open_field_input_card''), (''interactionId'', i), (''inputSubmissionId'', JStr (fs_id form)),
                (''cardUrl'', JStr (fs_card_url form)), (''expiresAt'', JInt (fs_expires_at form)),
                (''then'', JDict [(''capability'', JStr (fs_capability form)),
                    (''arguments'', JDict (dput ''input_submission_id'' (JStr (fs_id form)) r))]),
                (''interaction'', interaction)]), st'))"

definition field_input_unavailable :: "string \<Rightarrow> string \<Rightarrow> (string \<times> json) list \<Rightarrow> handler_exit" where
  "field_input_unavailable state capability resume =
     HxUserAction ''FIELD_INPUT_UNAVAILABLE'' (''The trusted field submission is unavailable: '' @ state @ ''.'')
       (JDict [(''type'', JStr ''prepare_again''), (''capability'', JStr capability), (''arguments'', JDict resume)])"

text \<open>There is no submission yet: the executor opens a form for the fields and asks the user to fill it in.\<close>

definition open_field_form ::
  "('k, 'i) cw_deps \<Rightarrow> ('k, 'g) cw_draws \<Rightarrow> cap_context \<Rightarrow> session \<Rightarrow> (string \<times> json) list \<Rightarrow> 'w write_def \<Rightarrow> (string \<times> json) list option
   \<Rightarrow> (string \<times> json) list \<Rightarrow> ('k, 'y, 'g, 'i, 'w) cw_state \<Rightarrow> handler_exit \<times> ('k, 'y, 'g, 'i, 'w) cw_state" where
  "open_field_form dp dr cx se arguments wd form_schema context st =
     (let chosen = (if form_schema \<noteq> None then form_schema else wd_field_schema wd) in
      case (case chosen of None \<Rightarrow> Inl (ExOther ''KeyError'' ''field_schema'') | Some s \<Rightarrow> prefill_trusted_field_schema s arguments) of
        Inl e \<Rightarrow> (exn_exit e, st)
      | Inr s \<Rightarrow>
          (case fs_create (dp_env dp) (cd_now dr) (cd_token dr)
                  \<lparr>fr_user = se_user se, fr_system = se_system se, fr_session = se_id se,
                   fr_capability = cap_name (cx_spec cx), fr_version = cap_version (cx_spec cx),
                   fr_create_operation = cx_operation cx, fr_supersession_key = supersession_key (dp_env dp) context,
                   fr_schema = JDict (dput resume_key (JDict context) s), fr_card_base_url = dp_base_url dp, fr_ttl_seconds = 1800\<rparr>
                  (cw_forms st) of
             Inl e \<Rightarrow> (exn_exit (fs_exn e), st)
           | Inr (v, forms) \<Rightarrow> field_input_required dp wd v (st\<lparr>cw_forms := forms\<rparr>)))"

definition form_bound_here :: "fs_view \<Rightarrow> cap_context \<Rightarrow> session \<Rightarrow> (string \<times> json) list \<Rightarrow> bool" where
  "form_bound_here v cx se context =
     (let form = fv_row v in
      fs_user form = se_user se \<and> fs_system form = se_system se \<and> fs_session form = se_id se \<and>
      fs_capability form = cap_name (cx_spec cx) \<and> fs_version form = cap_version (cx_spec cx) \<and>
      py_eq (dget (form_schema_of v) resume_key) (JDict context))"

text \<open>The submission with the arguments it completes, or how the call ends.\<close>

definition resolve_field_input ::
  "('k, 'i) cw_deps \<Rightarrow> ('k, 'g) cw_draws \<Rightarrow> cap_context \<Rightarrow> session \<Rightarrow> (string \<times> json) list \<Rightarrow> 'w write_def \<Rightarrow> (string \<times> json) list option
   \<Rightarrow> ('k, 'y, 'g, 'i, 'w) cw_state \<Rightarrow> (handler_exit + fs_view \<times> (string \<times> json) list) \<times> ('k, 'y, 'g, 'i, 'w) cw_state" where
  "resolve_field_input dp dr cx se arguments wd form_schema st =
     (let i = text_arg (dget arguments ''input_submission_id'');
          context = context_arguments (wd_context_fields wd) arguments;
          unavailable = (\<lambda>s. Inl (field_input_unavailable s (cap_name (cx_spec cx)) context))
      in if length context \<noteq> length (wd_context_fields wd)
         then (Inl (HxError ''ValueError'' ''trusted field input is missing its workflow target context''), st)
         else if i = [] then (let (x, st') = open_field_form dp dr cx se arguments wd form_schema context st in (Inl x, st'))
         else case fs_get (dp_env dp) (cd_now dr) i True (cw_forms st) of
           Inl e \<Rightarrow> (if e \<in> {FsNotFound, FsIntegrityError} then unavailable ''not_found'' else Inl (exn_exit (fs_exn e)), st)
         | Inr (v, forms) \<Rightarrow>
             let st1 = st\<lparr>cw_forms := forms\<rparr> in
             if \<not> form_bound_here v cx se context then (unavailable ''binding_mismatch'', st1)
             else if fs_state (fv_row v) = FsPending then (let (x, st2) = field_input_required dp wd v st1 in (Inl x, st2))
             else (case fv_values v of
               Some (JDict values) \<Rightarrow>
                 if fs_state (fv_row v) \<noteq> FsSubmitted then (unavailable (fs_state_text (fs_state (fv_row v))), st1)
                 else (Inr (v, dmerge context values), st1)
             | _ \<Rightarrow> (unavailable (fs_state_text (fs_state (fv_row v))), st1)))"

section \<open>Plan and authorization\<close>

text \<open>The digests of what the user saw when filling in the form and of what was prepared now.\<close>

definition review_changed :: "fs_view option \<Rightarrow> (string \<times> json) list \<Rightarrow> commit_exn + bool" where
  "review_changed sub plan = (case sub of
      None \<Rightarrow> Inr False
    | Some v \<Rightarrow>
        ebind (case map_of plan ''target'' of None \<Rightarrow> Inr [] | Some (JDict t) \<Rightarrow> Inr t | Some _ \<Rightarrow> Inl (ExOther ''AttributeError'' [])) (\<lambda>target.
        let expected = text_arg (dget (form_schema_of v) ''_agentbridge_review_fingerprint'');
            actual = text_arg (dget target ''review_fingerprint'')
        in Inr (expected \<noteq> [] \<and> actual \<noteq> [] \<and> expected \<noteq> actual)))"

definition resume_arguments :: "fs_view option \<Rightarrow> 'w write_def \<Rightarrow> (string \<times> json) list \<Rightarrow> commit_exn + (string \<times> json) list" where
  "resume_arguments sub wd arguments = (case sub of
      None \<Rightarrow> (let r = context_arguments (wd_context_fields wd) arguments in
        if length r \<noteq> length (wd_context_fields wd)
        then Inl (ExOther ''ValueError'' ''trusted write is missing its target context'') else Inr r)
    | Some v \<Rightarrow> dict_or_empty (dget (form_schema_of v) resume_key))"

definition bound_plan :: "cap_context \<Rightarrow> session \<Rightarrow> (string \<times> json) list \<Rightarrow> (string \<times> json) list \<Rightarrow> (string \<times> json) list" where
  "bound_plan cx se resume plan =
     dput ''session_binding'' (JDict [(''session_id'', JStr (se_id se)), (''expected_principal_ref'', se_expected se),
         (''downstream_principal_ref'', se_downstream se), (''last_verified_at'', se_verified se)])
       (dput ''resume_arguments'' (JDict resume)
          (dput ''prepare_capability'' (JStr (cap_name (cx_spec cx)))
             (dput ''user_subject'' (JStr (se_user se)) plan)))"

definition either_or :: "json \<Rightarrow> json \<Rightarrow> json" where
  "either_or a b = (if truthy a then a else b)"

definition shown_summary :: "'w write_def \<Rightarrow> session \<Rightarrow> (string \<times> json) list \<Rightarrow> (string \<times> json) list" where
  "shown_summary wd se summary =
     dput ''principal'' (either_or (se_downstream se) (either_or (se_expected se) (JStr (se_user se))))
       (dput ''system'' (either_or (dget (case wd_field_schema wd of None \<Rightarrow> [] | Some s \<Rightarrow> s) ''system'')
            (either_or (dget summary ''system'') (JStr (se_system se)))) summary)"

definition changed_summary :: "cw_texts \<Rightarrow> (string \<times> json) list \<Rightarrow> commit_exn + (string \<times> json) list" where
  "changed_summary tx summary =
     ebind (list_or_empty (dget summary ''fields'')) (\<lambda>fields.
     Inr (dput ''authorization_notice'' (JStr (tx_changed_notice tx))
       (dput ''fields'' (JList (JDict [(''label'', JStr (tx_changed_label tx)), (''value'', JStr (tx_changed_value tx))] # fields)) summary)))"

text \<open>A task of a batch shows its place in the title.\<close>

definition batch_summary ::
  "('k, 'i) cw_deps \<Rightarrow> cap_context \<Rightarrow> session \<Rightarrow> (string \<times> json) list \<Rightarrow> 'i \<Rightarrow> commit_exn + (string \<times> json) list" where
  "batch_summary dp cx se summary rest =
     (if cap_name (cx_spec cx) \<noteq> pending_batch_capability then Inr summary
      else ebind (dp_batch_place dp (cx_task cx) (se_user se) rest) (\<lambda>(ordinal, total).
        ebind (member (JDict summary) ''title'') (\<lambda>title.
        Inr (dput ''title'' (JStr (tx_batch_title (dp_texts dp) title ordinal total)) summary))))"

definition len_or_empty :: "json \<Rightarrow> commit_exn + int" where
  "len_or_empty v = (if \<not> truthy v then Inr 0 else case v of
      JList xs \<Rightarrow> Inr (int (length xs)) | JDict d \<Rightarrow> Inr (int (length d)) | JStr s \<Rightarrow> Inr (int (length s))
    | _ \<Rightarrow> Inl (ExOther ''TypeError'' []))"

text \<open>What is frozen: the arguments to resume with, the plan and the summary that the card shows.\<close>

definition write_documents ::
  "('k, 'i) cw_deps \<Rightarrow> cap_context \<Rightarrow> session \<Rightarrow> (string \<times> json) list \<Rightarrow> fs_view option \<Rightarrow> 'w write_def
   \<Rightarrow> (string \<times> json) list \<times> (string \<times> json) list \<Rightarrow> 'i
   \<Rightarrow> commit_exn + (string \<times> json) list \<times> (string \<times> json) list \<times> (string \<times> json) list" where
  "write_documents dp cx se arguments sub wd prepared rest =
     ebind (review_changed sub (fst prepared)) (\<lambda>changed.
     ebind (resume_arguments sub wd arguments) (\<lambda>resume.
     ebind (if changed then changed_summary (dp_texts dp) (shown_summary wd se (snd prepared)) else Inr (shown_summary wd se (snd prepared))) (\<lambda>s.
     ebind (batch_summary dp cx se s rest) (\<lambda>summary.
     Inr (resume, bound_plan cx se resume (fst prepared), summary)))))"

text \<open>The form that was used is consumed; the errors of its store become a \<open>ValueError\<close>.\<close>

definition consume_form ::
  "('k, 'i) cw_deps \<Rightarrow> ('k, 'g) cw_draws \<Rightarrow> cap_context \<Rightarrow> session \<Rightarrow> fs_view option \<Rightarrow> 'y fs_db \<Rightarrow> commit_exn + 'y fs_db" where
  "consume_form dp dr cx se sub forms = (case sub of
      None \<Rightarrow> Inr forms
    | Some v \<Rightarrow>
        let (now, now2, _) = cd_clock dr 0 in
        (case fs_consume (dp_env dp) now now2 (fs_id (fv_row v))
               \<lparr>fb_user = se_user se, fb_system = se_system se, fb_session = se_id se,
                fb_capability = cap_name (cx_spec cx), fb_version = cap_version (cx_spec cx)\<rparr> (cx_operation cx) forms of
           Inl e \<Rightarrow> Inl (if e \<in> {FsAccessDenied, FsIntegrityError, FsStateError} then ExOther ''ValueError'' [] else fs_exn e)
         | Inr (_, forms') \<Rightarrow> Inr forms'))"

text \<open>The request that a prepared write makes to the store.\<close>

definition prepared_request ::
  "('k, 'i) cw_deps \<Rightarrow> cap_context \<Rightarrow> session \<Rightarrow> cap_spec \<Rightarrow> (string \<times> json) list \<Rightarrow> (string \<times> json) list \<Rightarrow> (string \<times> json) list \<Rightarrow> wa_request" where
  "prepared_request dp cx se spec resume plan summary =
     \<lparr>wr_user = se_user se, wr_system = se_system se, wr_session = se_id se,
      wr_capability = cap_name spec, wr_version = cap_version spec,
      wr_prepare_operation = cx_operation cx, wr_supersession_key = supersession_key (dp_env dp) resume,
      wr_plan = JDict plan, wr_summary = JDict summary, wr_card_base_url = dp_base_url dp, wr_ttl_seconds = 1800\<rparr>"

definition request_authorization ::
  "('k, 'i) cw_deps \<Rightarrow> ('k, 'g) cw_draws \<Rightarrow> cap_context \<Rightarrow> session \<Rightarrow> fs_view option \<Rightarrow> 'w write_def
   \<Rightarrow> (string \<times> json) list \<Rightarrow> (string \<times> json) list \<Rightarrow> (string \<times> json) list
   \<Rightarrow> ('k, 'y, 'g, 'i, 'w) cw_state \<Rightarrow> handler_exit \<times> ('k, 'y, 'g, 'i, 'w) cw_state" where
  "request_authorization dp dr cx se sub wd resume plan summary st =
     (case registry_get (wd_commit_capability wd) (dp_registry dp) of
        Inl _ \<Rightarrow> (HxError ''KeyError'' [], st)
      | Inr spec \<Rightarrow>
          (case wa_create (dp_env dp) (cd_now dr) (cd_token dr) (prepared_request dp cx se spec resume plan summary)
                  (cw_auths st) of
             Inl e \<Rightarrow> (exn_exit (wa_exn e), st)
           | Inr (v, auths) \<Rightarrow>
               let (out, rest) = dp_auth_card dp v (cw_rest st);
                   st1 = st\<lparr>cw_auths := auths, cw_rest := rest\<rparr>
               in (case out of
                     Inl e \<Rightarrow> (exn_exit e, st1)
                   | Inr interaction \<Rightarrow>
                       (case consume_form dp dr cx se sub (cw_forms st1) of
                          Inl e \<Rightarrow> (exn_exit e, st1)
                        | Inr forms \<Rightarrow>
                            let st2 = st1\<lparr>cw_forms := forms\<rparr> in
                            (case ebind (member interaction ''interactionId'') (\<lambda>i. ebind (len_or_empty (dget summary ''fields'')) (\<lambda>n. Inr (i, n))) of
                               Inl e \<Rightarrow> (exn_exit e, st2)
                             | Inr (i, n) \<Rightarrow>
                                 (HxUserAction ''WRITE_AUTHORIZATION_REQUIRED'' (wd_authorization_message wd)
                                    (JDict (card_members (wv_row v) interaction i @
                                       [(''display'', JDict [(''title'', dget summary ''title''), (''effect'', dget summary ''effect''), (''fieldCount'', JInt n)]),
                                        (''then'', then_members (cap_name spec) (wv_row v)), (''interaction'', interaction)])), st2))))))"

definition cw_prepare ::
  "('k, 'i) cw_deps \<Rightarrow> ('k, 'g) cw_draws \<Rightarrow> cap_context \<Rightarrow> session \<Rightarrow> (string \<times> json) list \<Rightarrow> fs_view option \<Rightarrow> 'w write_def
   \<Rightarrow> ('k, 'y, 'g, 'i, 'w) cw_state \<Rightarrow> handler_exit \<times> ('k, 'y, 'g, 'i, 'w) cw_state" where
  "cw_prepare dp dr cx se arguments sub wd st =
     (case wd_prepare wd of
        None \<Rightarrow> (HxError ''RuntimeError'' ''trusted write prepare function is unavailable'', st)
      | Some f \<Rightarrow>
          (case write_allowed cx (se_system se) (cw_policies st) of
             Inl e \<Rightarrow> (exn_exit e, st)
           | Inr _ \<Rightarrow>
               let (out, w) = f arguments (cw_world st); st1 = st\<lparr>cw_world := w\<rparr> in
               (case ebind out (\<lambda>prepared. write_documents dp cx se arguments sub wd prepared (cw_rest st1)) of
                  Inl e \<Rightarrow> (exn_exit e, st1)
                | Inr (resume, plan, summary) \<Rightarrow> request_authorization dp dr cx se sub wd resume plan summary st1)))"

section \<open>Lemmas\<close>

definition null_or_text :: "json \<Rightarrow> bool" where
  "null_or_text v = (case v of JNull \<Rightarrow> True | JStr _ \<Rightarrow> True | _ \<Rightarrow> False)"

lemma null_or_text_same [simp]: "null_or_text v \<Longrightarrow> py_eq v v \<and> canon v = v"
  by (cases v) (simp_all add: null_or_text_def)

lemma dget_dput: "dget (dput k v d) n = (if n = k then v else dget d n)"
  by (simp add: dget_def dput_def update_conv')

lemma dput_distinct: "distinct (map fst d) \<Longrightarrow> distinct (map fst (dput k v d))"
  by (simp add: dput_def distinct_update)

lemma dget_canon:
  "distinct (map fst d) \<Longrightarrow> canon (JDict d) = JDict d' \<Longrightarrow> dget d' k = canon (dget d k)"
  by (simp only: dget_def canon_lookup) (simp split: option.split)

lemma bound_plan_distinct: "distinct (map fst p) \<Longrightarrow> distinct (map fst (bound_plan cx se r p))"
  by (simp add: bound_plan_def dput_distinct)

text \<open>A plan that was bound to a session, stored and read back, passes the check against this session.\<close>

lemma bound_plan_matches:
  assumes "distinct (map fst p)" and "null_or_text (se_expected se)" "null_or_text (se_downstream se)" "null_or_text (se_verified se)"
    and c: "canon (JDict (bound_plan cx se r p)) = JDict plan"
  shows "session_binding_matches plan se" "dget plan ''prepare_capability'' = JStr (cap_name (cx_spec cx))"
proof -
  note d = dget_canon[OF bound_plan_distinct[OF assms(1)] c]
  have b: "dget plan ''session_binding'' = JDict [(''downstream_principal_ref'', se_downstream se),
      (''expected_principal_ref'', se_expected se), (''last_verified_at'', se_verified se), (''session_id'', JStr (se_id se))]"
    using assms(2-4) unfolding d by (simp add: bound_plan_def dget_dput)
  have "dget plan ''user_subject'' = JStr (se_user se)" unfolding d by (simp add: bound_plan_def dget_dput)
  then show "session_binding_matches plan se"
    using assms(2-4) by (simp add: session_binding_matches_def b) (simp add: dget_def)
  show "dget plan ''prepare_capability'' = JStr (cap_name (cx_spec cx))" unfolding d by (simp add: bound_plan_def dget_dput)
qed

lemma request_authorization_creates:
  assumes "request_authorization dp dr cx se sub wd resume plan summary st = (x, st')"
  shows "cw_auths st' = cw_auths st \<or> (\<exists>spec v. registry_get (wd_commit_capability wd) (dp_registry dp) = Inr spec \<and>
    wa_create (dp_env dp) (cd_now dr) (cd_token dr) (prepared_request dp cx se spec resume plan summary) (cw_auths st) =
      (Inr (v, cw_auths st') :: commit_exn wa_error + _))"
  using assms unfolding request_authorization_def prepared_request_def Let_def
  by (auto split: sum.splits prod.splits)

lemma wa_create_keys:
  assumes "wa_create env now token req db = Inr (v, db')" and "tbl_get wa_id i (wa_auths db) = None" "tbl_get wa_id i (wa_auths db') = Some row"
  shows "\<exists>base. i = token \<and> row = wa_new_row env now token base req"
proof -
  let ?db1 = "wa_supersede_matching now (wr_user req) (wr_capability req) (py_strip (wr_supersession_key req)) db"
  from wa_create_Inr[OF assms(1)] obtain base where db': "wa_auths db' = wa_auths ?db1 @ [wa_new_row env now token base req]"
    by (auto simp: Let_def)
  have "map wa_id (wa_auths ?db1) = map wa_id (wa_auths db)" by (simp add: wa_supersede_matching_rows table_simps)
  then have ids: "wa_id ` set (wa_auths ?db1) = wa_id ` set (wa_auths db)" by (metis list.set_map)
  have "i \<notin> wa_id ` set (wa_auths db)" using assms(2) by (auto simp: find_None_iff)
  then have "tbl_get wa_id i (wa_auths ?db1) = None" unfolding ids[symmetric] by (auto simp: find_None_iff)
  then show ?thesis using assms(3) by (auto simp: db' tbl_get_append split: if_splits)
qed

lemma cw_prepare_creates:
  assumes "cw_prepare dp dr cx se arguments sub wd st = (x, st')"
    and i: "tbl_get wa_id i (wa_auths (cw_auths st)) = None" "tbl_get wa_id i (wa_auths (cw_auths st')) = Some row"
  shows "\<exists>f p s w resume summary spec base v. wd_prepare wd = Some f \<and> f arguments (cw_world st) = (Inr (p, s), w) \<and>
    registry_get (wd_commit_capability wd) (dp_registry dp) = Inr spec \<and>
    wa_create (dp_env dp) (cd_now dr) (cd_token dr) (prepared_request dp cx se spec resume (bound_plan cx se resume p) summary) (cw_auths st) =
      (Inr (v, cw_auths st') :: commit_exn wa_error + _) \<and>
    row = wa_new_row (dp_env dp) (cd_now dr) i base (prepared_request dp cx se spec resume (bound_plan cx se resume p) summary)"
proof -
  have differ: "cw_auths st' \<noteq> cw_auths st" using i by auto
  obtain f where f: "wd_prepare wd = Some f" using assms(1) differ by (cases "wd_prepare wd") (auto simp: cw_prepare_def)
  obtain out w where fo: "f arguments (cw_world st) = (out, w)" by (cases "f arguments (cw_world st)")
  have "\<exists>p s. out = Inr (p, s) \<and> (\<exists>resume plan summary. write_documents dp cx se arguments sub wd (p, s) (cw_rest st) = Inr (resume, plan, summary) \<and>
      request_authorization dp dr cx se sub wd resume plan summary (st\<lparr>cw_world := w\<rparr>) = (x, st'))"
    using assms(1) differ unfolding cw_prepare_def f Let_def by (auto simp: fo ebind_def split: sum.splits)
  then obtain p s resume plan summary where out: "out = Inr (p, s)"
    and docs: "write_documents dp cx se arguments sub wd (p, s) (cw_rest st) = Inr (resume, plan, summary)"
    and ask: "request_authorization dp dr cx se sub wd resume plan summary (st\<lparr>cw_world := w\<rparr>) = (x, st')" by blast
  have plan: "plan = bound_plan cx se resume p" using docs by (auto simp: write_documents_def ebind_def split: sum.splits)
  from request_authorization_creates[OF ask] differ obtain spec v where
    spec: "registry_get (wd_commit_capability wd) (dp_registry dp) = Inr spec" and
    c: "wa_create (dp_env dp) (cd_now dr) (cd_token dr) (prepared_request dp cx se spec resume plan summary) (cw_auths st) =
      (Inr (v, cw_auths st') :: commit_exn wa_error + _)" by auto
  show ?thesis using wa_create_keys[OF c i] f fo out spec c unfolding plan by blast
qed

lemma check_commit_approved:
  assumes r: "tbl_get wa_id i (wa_auths (cw_auths st)) = Some r" "wa_state r = WaApproved" "cd_now dr < wa_expires_at r"
    and i: "i \<noteq> []" and user: "wa_user r = se_user se" and plan: "wa_plan r = JDict plan"
    and trusted: "text_or (dget plan ''prepare_capability'') prepare \<noteq> pending_batch_capability"
    and se: "session_binding_matches plan se" and pol: "write_allowed cx (se_system se) (cw_policies st) = Inr ()"
  shows "check_commit dp dr cx se i prepare st = (Inr (r\<lparr>wa_plan := JNull, wa_csrf_hash := None\<rparr>, plan), st)"
proof -
  have "wa_get (cd_now dr) i True (cw_auths st) = (Inr (authorization_from_row True r, cw_auths st) :: commit_exn wa_error + _)"
    using r by (simp add: wa_get_def wa_current_def wa_select_def wa_expire_if_needed_def ebind_def)
  then show ?thesis
    using assms by (simp add: check_commit_def check_plan_def Let_def authorization_from_row_def)
qed

lemma resolve_field_input_Inr:
  assumes "resolve_field_input dp dr cx se arguments wd schema st = (Inr (v, whole), st1)"
  defines "i \<equiv> text_arg (dget arguments ''input_submission_id'')" and "context \<equiv> context_arguments (wd_context_fields wd) arguments"
  shows "st1 = st \<and> form_bound_here v cx se context \<and> (\<exists>row vals. tbl_get fs_id i (fs_forms (cw_forms st)) = Some row \<and>
    fs_state row = FsSubmitted \<and> cd_now dr < fs_expires_at row \<and> v = submission_from_row True row \<and>
    fs_values row = Some (JDict vals) \<and> whole = dmerge context vals)"
proof -
  from assms(1) obtain forms where get: "fs_get (dp_env dp) (cd_now dr) i True (cw_forms st) = (Inr (v, forms) :: commit_exn fs_error + _)"
    and facts: "form_bound_here v cx se context" "fs_state (fv_row v) = FsSubmitted" "st1 = st\<lparr>cw_forms := forms\<rparr>"
      "\<exists>vals. fv_values v = Some (JDict vals) \<and> whole = dmerge context vals"
    unfolding resolve_field_input_def Let_def i_def[symmetric] context_def[symmetric]
    by (auto split: if_splits sum.splits prod.splits option.splits json.splits)
  from get obtain row where cur: "fs_current (cd_now dr) i (cw_forms st) = (Inr (row, forms) :: commit_exn fs_error + _)"
    and v: "v = submission_from_row True row" by (auto simp: fs_get_def outcome_simps)
  have "fs_live row" using facts(2) by (simp add: v submission_from_row_def fs_live_def)
  from fs_current_live[OF cur this] facts v show ?thesis by (auto simp: submission_from_row_def)
qed

lemma consume_form_spends:
  fixes forms :: "'y fs_db"
  assumes "consume_form dp dr cx se (Some v) forms = Inr forms'" and "fs_inv (dp_env dp) forms"
  shows "fs_inv (dp_env dp) forms' \<and> fs_status forms' (fs_id (fv_row v)) = Some FsConsumed"
proof -
  obtain now now2 now3 where clock: "cd_clock dr 0 = (now, now2, now3)" by (cases "cd_clock dr 0")
  obtain b oid w where c: "fs_consume (dp_env dp) now now2 (fs_id (fv_row v)) b oid forms = (Inr (w, forms') :: commit_exn fs_error + _)"
    using assms(1) by (auto simp: consume_form_def clock split: sum.splits)
  have e: "fs_exec (dp_env dp) (FsConsume now now2 (fs_id (fv_row v)) b oid :: ('y, commit_exn) fs_op) forms = Inr (FsForm w, forms')"
    using c by (simp add: fs_wrap_def)
  show ?thesis using fs_exec_inv[OF assms(2) e] fs.spend_exec[OF assms(2) _ e, of "fs_id (fv_row v)"] by simp
qed

section \<open>Properties\<close>

text \<open>
  C7: What was prepared can be committed. When a preparation created the authorization \<open>i\<close>, and later, after any
  transactions on the authorizations, it is approved and has not expired, and governance allows the write, then
  a commit in the same session passes all the checks before the commit function, with the plan that
  the adapter prepared, bound to the session, as it was stored. (The members of a session are texts
  or absent; a batch has a further check of its own.)
\<close>

theorem prepared_write_can_be_committed:
  fixes st st' st2 :: "('k, 'y, 'g, 'i, 'w) cw_state"
  assumes inv: "wa_inv (dp_env dp) (cw_auths st)" and i: "i \<noteq> []"
    and prep: "cw_prepare dp dr cx se arguments sub wd st = (x, st')" "wd_prepare wd = Some f" "f arguments (cw_world st) = (Inr (p, s), w)"
    and new: "tbl_get wa_id i (wa_auths (cw_auths st)) = None" "tbl_get wa_id i (wa_auths (cw_auths st')) = Some row"
    and later: "cw_auths st2 = run (wa_exec (dp_env dp)) ops (cw_auths st')"
    and approved: "wa_status (cw_auths st2) i = Some WaApproved" "cd_now dr2 < wa_expires_at row"
    and allowed: "write_allowed cx2 (se_system se) (cw_policies st2) = Inr ()"
    and texts: "distinct (map fst p)" "null_or_text (se_expected se)" "null_or_text (se_downstream se)" "null_or_text (se_verified se)"
    and single: "cap_name (cx_spec cx) \<noteq> pending_batch_capability"
  shows "\<exists>row2 resume plan. check_commit dp dr2 cx2 se i (cap_name (cx_spec cx)) st2 = (Inr (row2, plan), st2) \<and>
    wa_id row2 = i \<and> wa_plan_hash row2 = wa_plan_hash row \<and> canon (JDict (bound_plan cx se resume p)) = JDict plan"
proof -
  from cw_prepare_creates[OF prep(1) new] prep(2,3) obtain resume summary spec base v where
    c: "wa_create (dp_env dp) (cd_now dr) (cd_token dr) (prepared_request dp cx se spec resume (bound_plan cx se resume p) summary) (cw_auths st) =
      (Inr (v, cw_auths st') :: commit_exn wa_error + _)"
    and row: "row = wa_new_row (dp_env dp) (cd_now dr) i base (prepared_request dp cx se spec resume (bound_plan cx se resume p) summary)"
    by auto
  have "wa_exec (dp_env dp) (WaCreate (cd_now dr) (cd_token dr) (prepared_request dp cx se spec resume (bound_plan cx se resume p) summary) :: (_, commit_exn) wa_op)
      (cw_auths st) = Inr (WaAuth v, cw_auths st')" using c by (simp add: wa_wrap_def)
  then have inv': "wa_inv (dp_env dp) (cw_auths st')" by (rule wa_exec_inv[OF inv])
  obtain r2 where r2: "tbl_get wa_id i (wa_auths (cw_auths st2)) = Some r2" "wa_contract r2 = wa_contract row"
    using run_contract[OF inv' new(2), of ops] unfolding later by blast
  obtain plan where plan: "canon (JDict (bound_plan cx se resume p)) = JDict plan" by simp
  have cols: "wa_user r2 = se_user se" "wa_plan r2 = JDict plan" "wa_expires_at r2 = wa_expires_at row" "wa_plan_hash r2 = wa_plan_hash row"
    using r2(2) plan unfolding row by (simp_all add: wa_contract_def wa_new_row_def prepared_request_def)
  note b = bound_plan_matches[OF texts plan]
  have "text_or (dget plan ''prepare_capability'') (cap_name (cx_spec cx)) = cap_name (cx_spec cx)" by (simp add: b(2) text_or_def)
  moreover have "wa_state r2 = WaApproved" using approved(1) r2(1) by (simp add: wa_status_def)
  moreover have "wa_id r2 = i" using tbl_get_mem[OF r2(1)] by simp
  ultimately have "check_commit dp dr2 cx2 se i (cap_name (cx_spec cx)) st2 = (Inr (r2\<lparr>wa_plan := JNull, wa_csrf_hash := None\<rparr>, plan), st2)"
    using r2 cols b single approved allowed i by (intro check_commit_approved) simp_all
  then show ?thesis using plan cols(4) \<open>wa_id r2 = i\<close> by fastforce
qed

text \<open>
  C8: A filled form serves one write. When a call is completed from a form, the form was submitted and not expired, it
  belongs to this user, system, session, capability and version and to the target that the call names, and the arguments are that
  target with the values that the user submitted. Once a preparation has consumed it, after any further transactions
  no call of anybody is completed from it again.
\<close>

theorem form_fills_one_write:
  fixes st :: "('k, 'y, 'g, 'i, 'w) cw_state" and wd :: "'w write_def" and dr :: "('k, 'g) cw_draws"
  assumes inv: "fs_inv (dp_env dp) (cw_forms st)"
    and res: "resolve_field_input dp dr cx se arguments wd schema st = (Inr (v, whole), st1)"
    and used: "consume_form dp dr2 cx2 se2 (Some v) (run (fs_exec (dp_env dp)) ops (cw_forms st1)) = Inr forms"
  defines "i \<equiv> text_arg (dget arguments ''input_submission_id'')" and "context \<equiv> context_arguments (wd_context_fields wd) arguments"
  shows "form_bound_here v cx se context \<and> (\<exists>row vals. tbl_get fs_id i (fs_forms (cw_forms st)) = Some row \<and>
      fs_state row = FsSubmitted \<and> cd_now dr < fs_expires_at row \<and> fs_values row = Some (JDict vals) \<and> whole = dmerge context vals) \<and>
    (\<forall>(ops' :: ('y, commit_exn) fs_op list) (st4 :: ('k, 'y, 'g, 'i, 'w) cw_state) (dr4 :: ('k, 'g) cw_draws) cx4 se4 args4 (wd4 :: 'w write_def) schema4.
       cw_forms st4 = run (fs_exec (dp_env dp)) ops' forms \<longrightarrow> text_arg (dget args4 ''input_submission_id'') = i \<longrightarrow>
       isl (fst (resolve_field_input dp dr4 cx4 se4 args4 wd4 schema4 st4)))"
proof -
  note r = resolve_field_input_Inr[OF res, folded i_def context_def]
  then obtain row vals where row: "tbl_get fs_id i (fs_forms (cw_forms st)) = Some row" "v = submission_from_row True row" by blast
  have i: "fs_id (fv_row v) = i" using tbl_get_mem[OF row(1)] by (simp add: row(2) submission_from_row_def)
  have "fs_inv (dp_env dp) (run (fs_exec (dp_env dp)) ops (cw_forms st1))" using inv r by (intro fs.inv_run) simp
  from consume_form_spends[OF used this] have spent: "fs_inv (dp_env dp) forms" "fs_status forms i = Some FsConsumed" by (simp_all add: i)
  have "isl (fst (resolve_field_input dp dr4 cx4 se4 args4 wd4 schema4 st4))"
    if forms4: "cw_forms st4 = run (fs_exec (dp_env dp)) ops' forms" and i4: "text_arg (dget args4 ''input_submission_id'') = i"
    for ops' :: "('y, commit_exn) fs_op list" and st4 :: "('k, 'y, 'g, 'i, 'w) cw_state" and dr4 :: "('k, 'g) cw_draws"
      and cx4 se4 args4 and wd4 :: "'w write_def" and schema4
  proof (rule ccontr)
    assume "\<not> isl (fst (resolve_field_input dp dr4 cx4 se4 args4 wd4 schema4 st4))"
    then obtain v4 whole4 st5 where "resolve_field_input dp dr4 cx4 se4 args4 wd4 schema4 st4 = (Inr (v4, whole4), st5)"
      by (cases "resolve_field_input dp dr4 cx4 se4 args4 wd4 schema4 st4"; cases "fst (resolve_field_input dp dr4 cx4 se4 args4 wd4 schema4 st4)") auto
    from resolve_field_input_Inr[OF this, unfolded i4] have "fs_status (cw_forms st4) i = Some FsSubmitted" by (auto simp: fs_status_def)
    moreover have "fs_status (cw_forms st4) i = Some FsConsumed"
      unfolding forms4 by (rule fs.final_run[OF spent]) (auto elim: fs_edge.cases)
    ultimately show False by simp
  qed
  then show ?thesis using r by blast
qed

text \<open>A leave request, prepared from the beginning.\<close>

definition cw_demo_blank :: "(unit, unit, unit, unit, nat) cw_state" where
  "cw_demo_blank = cw_demo_state\<lparr>cw_auths := wa_empty ((), tp_empty)\<rparr>"

definition cw_demo_prepare :: "(string \<times> json) list \<Rightarrow> nat \<Rightarrow> (commit_exn + (string \<times> json) list \<times> (string \<times> json) list) \<times> nat" where
  "cw_demo_prepare _ w = (Inr ([(''days'', JInt 3)], [(''title'', JStr ''leave'')]), w)"

definition cw_demo_approve :: "(unit \<times> tp_db, commit_exn) wa_op list" where
  "cw_demo_approve = [WaIssueCsrf ''tok'' 4 4 ''sid'' ''a2'' None, WaDecide 5 5 ''a2'' ''approve'' ''tok'' ''tok'' None]"

definition cw_demo_prepared :: "handler_exit \<times> (unit, unit, unit, unit, nat) cw_state" where
  "cw_demo_prepared = cw_prepare cw_demo_deps cw_demo_draws cw_demo_context cw_demo_session [] None
     (cw_demo_write\<lparr>wd_prepare := Some cw_demo_prepare\<rparr>) cw_demo_blank"

theorem prepared_write_can_be_committed_witness:
  "\<exists>row plan. check_commit cw_demo_deps cw_demo_draws cw_demo_context cw_demo_session ''a2'' ''oa.leave.submit''
     (cw_demo_blank\<lparr>cw_auths := run (wa_exec wa_demo_env) cw_demo_approve (cw_auths (snd cw_demo_prepared))\<rparr>) = (Inr (row, plan),
     cw_demo_blank\<lparr>cw_auths := run (wa_exec wa_demo_env) cw_demo_approve (cw_auths (snd cw_demo_prepared))\<rparr>)"
proof -
  let ?wd = "cw_demo_write\<lparr>wd_prepare := Some cw_demo_prepare\<rparr>"
  let ?st2 = "cw_demo_blank\<lparr>cw_auths := run (wa_exec wa_demo_env) cw_demo_approve (cw_auths (snd cw_demo_prepared))\<rparr>"
  have 1: "wa_inv (dp_env cw_demo_deps) (cw_auths cw_demo_blank)" by (simp add: cw_demo_blank_def wa_inv_empty)
  have 2: "''a2'' \<noteq> []" by simp
  have 3: "cw_prepare cw_demo_deps cw_demo_draws cw_demo_context cw_demo_session [] None ?wd cw_demo_blank = (fst cw_demo_prepared, snd cw_demo_prepared)"
    by (simp add: cw_demo_prepared_def)
  have 4: "wd_prepare ?wd = Some cw_demo_prepare" by simp
  have 5: "cw_demo_prepare [] (cw_world cw_demo_blank) = (Inr ([(''days'', JInt 3)], [(''title'', JStr ''leave'')]), cw_world cw_demo_blank)"
    by (simp add: cw_demo_prepare_def)
  have 6: "tbl_get wa_id ''a2'' (wa_auths (cw_auths cw_demo_blank)) = None" by (simp add: cw_demo_blank_def wa_empty_def)
  have "map_option wa_expires_at (tbl_get wa_id ''a2'' (wa_auths (cw_auths (snd cw_demo_prepared)))) = Some 1800000003" by code_simp
  then obtain row where 7: "tbl_get wa_id ''a2'' (wa_auths (cw_auths (snd cw_demo_prepared))) = Some row" "wa_expires_at row = 1800000003" by auto
  have env: "dp_env cw_demo_deps = wa_demo_env" by (simp add: cw_demo_deps_def)
  have 8: "cw_auths ?st2 = run (wa_exec (dp_env cw_demo_deps)) cw_demo_approve (cw_auths (snd cw_demo_prepared))" by (simp add: env)
  have 9: "wa_status (cw_auths ?st2) ''a2'' = Some WaApproved" by code_simp
  have 10: "cd_now cw_demo_draws < wa_expires_at row" by (simp add: cw_demo_draws_def 7(2))
  have 11: "write_allowed cw_demo_context (se_system cw_demo_session) (cw_policies ?st2) = Inr ()" by code_simp
  have 12: "distinct (map fst [(''days'', JInt 3)])" by simp
  have 13: "null_or_text (se_expected cw_demo_session)" "null_or_text (se_downstream cw_demo_session)" "null_or_text (se_verified cw_demo_session)"
    by code_simp+
  have 14: "cap_name (cx_spec cw_demo_context) \<noteq> pending_batch_capability" by code_simp
  have name: "cap_name (cx_spec cw_demo_context) = ''oa.leave.submit''" by code_simp
  from prepared_write_can_be_committed[OF 1 2 3 4 5 6 7(1) 8 9 10 11 12 13 14] show ?thesis unfolding name by blast
qed

definition cw_demo_form :: fs_request where
  "cw_demo_form = \<lparr>fr_user = ''ann'', fr_system = ''oa'', fr_session = ''s'', fr_capability = ''oa.leave.submit'',
     fr_version = ''1.0.0'', fr_create_operation = ''op'', fr_supersession_key = [],
     fr_schema = JDict [(resume_key, JDict []), (''fields'', JList [JStr ''days''])], fr_card_base_url = ''https://h/card'',
     fr_ttl_seconds = 600\<rparr>"

definition cw_demo_filled :: "(unit, unit, unit, unit, nat) cw_state" where
  "cw_demo_filled = cw_demo_blank\<lparr>cw_forms := run (fs_exec wa_demo_env :: (unit, commit_exn) fs_op \<Rightarrow> _)
     [FsCreate 0 ''f'' cw_demo_form, FsIssueCsrf ''tok'' 1 1 ''sid'' ''f'' None,
      FsSubmit 2 2 ''f'' ''tok'' ''tok'' (JDict [(''days'', JInt 3)]) None] (fs_empty ())\<rparr>"

theorem form_fills_one_write_witness:
  "\<exists>v forms. fst (resolve_field_input cw_demo_deps cw_demo_draws cw_demo_context cw_demo_session [(''input_submission_id'', JStr ''f'')]
       cw_demo_write None cw_demo_filled) = Inr (v, [(''days'', JInt 3)]) \<and>
     consume_form cw_demo_deps cw_demo_draws cw_demo_context cw_demo_session (Some v) (cw_forms cw_demo_filled) = Inr forms \<and>
     isl (fst (resolve_field_input cw_demo_deps cw_demo_draws cw_demo_context cw_demo_session [(''input_submission_id'', JStr ''f'')]
       cw_demo_write None (cw_demo_filled\<lparr>cw_forms := forms\<rparr>)))"
proof -
  let ?args = "[(''input_submission_id'', JStr ''f'')]"
  let ?res = "resolve_field_input cw_demo_deps cw_demo_draws cw_demo_context cw_demo_session ?args cw_demo_write None cw_demo_filled"
  let ?use = "consume_form cw_demo_deps cw_demo_draws cw_demo_context cw_demo_session (Some (fst (projr (fst ?res)))) (cw_forms (snd ?res))"
  have "isl (fst ?res) = False" "snd (projr (fst ?res)) = [(''days'', JInt 3)]" by code_simp+
  then obtain v st1 where res: "?res = (Inr (v, [(''days'', JInt 3)]), st1)"
    by (cases ?res; cases "fst ?res") auto
  have "isl ?use = False" by code_simp
  then have ok: "isl (consume_form cw_demo_deps cw_demo_draws cw_demo_context cw_demo_session (Some v) (cw_forms st1)) = False" by (simp add: res)
  obtain forms where used: "consume_form cw_demo_deps cw_demo_draws cw_demo_context cw_demo_session (Some v) (cw_forms st1) = Inr forms"
    using returns_value[OF ok] by metis
  then have use: "consume_form cw_demo_deps cw_demo_draws cw_demo_context cw_demo_session (Some v)
      (run (fs_exec (dp_env cw_demo_deps)) ([] :: (unit, commit_exn) fs_op list) (cw_forms st1)) = Inr forms" by simp
  have env: "dp_env cw_demo_deps = wa_demo_env" by (simp add: cw_demo_deps_def)
  have inv: "fs_inv (dp_env cw_demo_deps) (cw_forms cw_demo_filled)"
    by (simp add: env cw_demo_filled_def del: run.simps) (rule fs.inv_run[OF fs_inv_empty])
  have i: "text_arg (dget ?args ''input_submission_id'') = ''f''" by code_simp
  have forms4: "cw_forms (cw_demo_filled\<lparr>cw_forms := forms\<rparr>) = run (fs_exec (dp_env cw_demo_deps)) ([] :: (unit, commit_exn) fs_op list) forms" by simp
  have "isl (fst (resolve_field_input cw_demo_deps cw_demo_draws cw_demo_context cw_demo_session ?args cw_demo_write None (cw_demo_filled\<lparr>cw_forms := forms\<rparr>)))"
    using form_fills_one_write[OF inv res use] forms4 i by blast
  moreover have "st1 = cw_demo_filled" using resolve_field_input_Inr[OF res] by blast
  ultimately show ?thesis using res used by auto
qed

end
