(* ===== verification/SkillJobs.thy ===== *)
theory SkillJobs
  imports Ledger PyValues Urls "HOL-Library.AList"
begin

text \<open>
  The queue of background jobs, \<open>agentbridge/core/skill_job_queue.py\<close>, over its tables from
  \<open>skill_workbench.py\<close>. A worker claims a job with a fresh token and a lease; whoever holds the token may report
  progress and the end. \<open>cancel\<close> and \<open>active\<close> read a row before their transaction begins (only the
  update takes the write lock), so they come with the tables as they were \<open>seen\<close>. Instants are written in ISO format, which
  sorts like the time.
\<close>

section \<open>Tables\<close>

datatype sj_state = SjQueued | SjRunning | SjSucceeded | SjFailed | SjCanceled

record sj_row =
  sj_id :: string
  sj_owner :: string
  sj_kind :: string
  sj_state :: sj_state
  sj_request_key :: string
  sj_input_hash :: string
  sj_payload :: "(string \<times> json) list"
  sj_result :: "json option"
  sj_progress :: "json list"
  sj_attempts :: int
  sj_token :: "string option"
  sj_lease :: "time option"
  sj_error :: "string option"
  sj_created_at :: time
  sj_updated_at :: time

text \<open>The jobs with the tables that decide about automatic jobs; \<open>'x\<close> is the rest of the database.\<close>

record 'x sj_db =
  sj_jobs :: "sj_row list"
  sj_prefs :: "(string \<times> (string \<times> json) list) list"
  sj_scopes :: "((string \<times> string) \<times> bool) list"
  sj_other :: 'x

datatype 'e sj_error = SjConflict | SjPermission | SjValueError | SjKeyError | SjTypeError | SjSqlIntegrityError | SjCallback 'e

type_synonym ('x, 'e) sj_event = "string \<Rightarrow> string \<Rightarrow> string \<Rightarrow> (string \<times> json) list \<Rightarrow> 'x \<Rightarrow> 'e + 'x"

definition canon_items :: "(string \<times> json) list \<Rightarrow> (string \<times> json) list" where
  "canon_items d = (case canon (JDict d) of JDict e \<Rightarrow> e | _ \<Rightarrow> [])"

section \<open>Operations\<close>

record sj_public =
  pu_id :: string
  pu_kind :: string
  pu_state :: sj_state
  pu_attempts :: int
  pu_error :: "string option"
  pu_created_at :: time
  pu_updated_at :: time
  pu_draft :: json
  pu_revision :: json
  pu_automatic :: json
  pu_scope :: json
  pu_progress :: nat
  pu_result :: "json option"

definition sj_view :: "sj_row \<Rightarrow> sj_public" where
  "sj_view r =
     \<lparr>pu_id = sj_id r, pu_kind = sj_kind r, pu_state = sj_state r, pu_attempts = sj_attempts r, pu_error = sj_error r,
      pu_created_at = sj_created_at r, pu_updated_at = sj_updated_at r,
      pu_draft = dget (sj_payload r) ''draft_id'', pu_revision = dget (sj_payload r) ''revision'',
      pu_automatic = (case map_of (sj_payload r) ''automatic'' of None \<Rightarrow> JBool False | Some v \<Rightarrow> v),
      pu_scope = dget (sj_payload r) ''scope'', pu_progress = length (sj_progress r), pu_result = sj_result r\<rparr>"

text \<open>\<open>auto_allowed\<close>; a scope that is not a text matches no row.\<close>

definition auto_allowed :: "string \<Rightarrow> json \<Rightarrow> 'x sj_db \<Rightarrow> bool" where
  "auto_allowed owner scope db =
     (case map_of (sj_prefs db) owner of
        None \<Rightarrow> False
      | Some pref \<Rightarrow> truthy (dget pref ''auto_draft'') \<and>
          (case scope of JStr s \<Rightarrow> map_of (sj_scopes db) (owner, s) = Some True | _ \<Rightarrow> False))"

text \<open>The check that an automatic job makes before it is stored, retried or reported on.\<close>

definition check_automatic :: "string \<Rightarrow> (string \<times> json) list \<Rightarrow> 'x sj_db \<Rightarrow> 'e sj_error + unit" where
  "check_automatic owner payload db =
     (if \<not> truthy (dget payload ''automatic'') then Inr ()
      else case map_of payload ''scope'' of
        None \<Rightarrow> Inl SjKeyError
      | Some scope \<Rightarrow> raise_if (\<not> auto_allowed owner scope db) SjPermission)"

definition day_start :: "time \<Rightarrow> time" where
  "day_start now = now - now mod 86400000000"

definition created_today :: "time \<Rightarrow> string \<Rightarrow> (sj_row \<Rightarrow> bool) \<Rightarrow> 'x sj_db \<Rightarrow> nat" where
  "created_today now owner P db = tbl_count (\<lambda>r. sj_owner r = owner \<and> day_start now \<le> sj_created_at r \<and> P r) (sj_jobs db)"

definition active_jobs :: "string \<Rightarrow> 'x sj_db \<Rightarrow> nat" where
  "active_jobs owner db = tbl_count (\<lambda>r. sj_owner r = owner \<and> sj_state r \<in> {SjQueued, SjRunning}) (sj_jobs db)"

text \<open>\<open>json_extract(payload_json,'$.automatic')=1\<close>\<close>

definition extracts_one :: "(string \<times> json) list \<Rightarrow> bool" where
  "extracts_one payload \<longleftrightarrow> num_value (dget payload ''automatic'') = Some 1"

definition sj_keyed :: "string \<Rightarrow> string \<Rightarrow> 'x sj_db \<Rightarrow> sj_row option" where
  "sj_keyed owner key db = List.find (\<lambda>r. sj_owner r = owner \<and> sj_request_key r = key) (sj_jobs db)"

definition sj_owned :: "string \<Rightarrow> string \<Rightarrow> 'x sj_db \<Rightarrow> 'e sj_error + sj_row" where
  "sj_owned owner i db = (case List.find (\<lambda>r. sj_id r = i \<and> sj_owner r = owner) (sj_jobs db) of
     None \<Rightarrow> Inl SjKeyError | Some r \<Rightarrow> Inr r)"

definition sj_digest :: "py_env \<Rightarrow> string \<Rightarrow> (string \<times> json) list \<Rightarrow> string" where
  "sj_digest env kind payload = sha_json env (canon (JDict [(''kind'', JStr kind), (''payload'', JDict payload)]))"

record sj_request =
  sq_owner :: string
  sq_kind :: string
  sq_payload :: "(string \<times> json) list"
  sq_key :: string

definition sj_new_row :: "py_env \<Rightarrow> time \<Rightarrow> time \<Rightarrow> string \<Rightarrow> sj_request \<Rightarrow> sj_row" where
  "sj_new_row env created updated uuid q =
     \<lparr>sj_id = uuid, sj_owner = sq_owner q, sj_kind = sq_kind q, sj_state = SjQueued, sj_request_key = sq_key q,
      sj_input_hash = sj_digest env (sq_kind q) (sq_payload q), sj_payload = canon_items (sq_payload q), sj_result = None,
      sj_progress = [], sj_attempts = 0, sj_token = None, sj_lease = None, sj_error = None,
      sj_created_at = created, sj_updated_at = updated\<rparr>"

text \<open>The clock is read up to four times: \<open>clock 0\<close> to \<open>clock 3\<close>.\<close>

definition sj_enqueue ::
  "py_env \<Rightarrow> ('x, 'e) sj_event \<Rightarrow> (nat \<Rightarrow> time) \<Rightarrow> string \<Rightarrow> sj_request \<Rightarrow> 'x sj_db \<Rightarrow> 'e sj_error + (sj_public \<times> 'x sj_db)" where
  "sj_enqueue env event clock uuid q db =
     ebind (raise_if (length (sq_key q) > 128 \<or> is_blank (sq_key q)) SjValueError) (\<lambda>_.
     case sj_keyed (sq_owner q) (sq_key q) db of
       Some old \<Rightarrow> if sj_input_hash old \<noteq> sj_digest env (sq_kind q) (sq_payload q) then Inl SjConflict else Inr (sj_view old, db)
     | None \<Rightarrow>
         ebind (check_automatic (sq_owner q) (sq_payload q) db) (\<lambda>_.
         ebind (raise_if (truthy (dget (sq_payload q) ''automatic'') \<and>
             created_today (clock 0) (sq_owner q) (\<lambda>r. extracts_one (sj_payload r)) db \<ge> 3) SjValueError) (\<lambda>_.
         ebind (raise_if (created_today (clock 1) (sq_owner q) (\<lambda>_. True) db \<ge> 20 \<or> active_jobs (sq_owner q) db \<ge> 3) SjValueError) (\<lambda>_.
         let row = sj_new_row env (clock 2) (clock 3) uuid q in
         case tbl_insert sj_id row (sj_jobs db) of
           None \<Rightarrow> Inl SjSqlIntegrityError
         | Some rows \<Rightarrow>
             (case event (sq_owner q) ''job.queued'' uuid [(''kind'', JStr (sq_kind q))] (sj_other db) of
                Inl e \<Rightarrow> Inl (SjCallback e)
              | Inr x \<Rightarrow> Inr (sj_view row, db\<lparr>sj_jobs := rows, sj_other := x\<rparr>))))))"

definition sj_get :: "string \<Rightarrow> string \<Rightarrow> 'x sj_db \<Rightarrow> 'e sj_error + sj_public" where
  "sj_get owner i db = ebind (sj_owned owner i db) (\<lambda>r. Inr (sj_view r))"

definition sj_list :: "string \<Rightarrow> 'x sj_db \<Rightarrow> sj_public list" where
  "sj_list owner db =
     map sj_view (take 50 (sort_key (\<lambda>r. - sj_created_at r) (filter (\<lambda>r. sj_owner r = owner) (sj_jobs db))))"

definition sj_set :: "(sj_row \<Rightarrow> bool) \<Rightarrow> (sj_row \<Rightarrow> sj_row) \<Rightarrow> 'x sj_db \<Rightarrow> 'x sj_db" where
  "sj_set P f db = db\<lparr>sj_jobs := tbl_update P f (sj_jobs db)\<rparr>"

definition sj_cancel ::
  "('x, 'e) sj_event \<Rightarrow> 'x sj_db \<Rightarrow> time \<Rightarrow> string \<Rightarrow> string \<Rightarrow> 'x sj_db \<Rightarrow> 'e sj_error + (sj_public \<times> 'x sj_db)" where
  "sj_cancel event seen now owner i db =
     ebind (sj_owned owner i seen) (\<lambda>row.
     ebind (if sj_state row \<notin> {SjQueued, SjRunning} then Inr db
            else let db1 = sj_set (\<lambda>r. sj_id r = i) (\<lambda>r. r\<lparr>sj_state := SjCanceled, sj_token := None, sj_updated_at := now\<rparr>) db in
              (case event owner ''job.canceled'' i [] (sj_other db1) of
                 Inl e \<Rightarrow> Inl (SjCallback e) | Inr x \<Rightarrow> Inr (db1\<lparr>sj_other := x\<rparr>))) (\<lambda>db'.
     ebind (sj_get owner i db') (\<lambda>v. Inr (v, db'))))"

definition sj_retry :: "time \<Rightarrow> string \<Rightarrow> string \<Rightarrow> 'x sj_db \<Rightarrow> 'e sj_error + (sj_public \<times> 'x sj_db)" where
  "sj_retry now owner i db =
     ebind (sj_owned owner i db) (\<lambda>row.
     ebind (raise_if (sj_state row \<noteq> SjFailed \<or> sj_attempts row \<ge> 3) SjValueError) (\<lambda>_.
     ebind (check_automatic owner (sj_payload row) db) (\<lambda>_.
     let db' = sj_set (\<lambda>r. sj_id r = i) (\<lambda>r. r\<lparr>sj_state := SjQueued, sj_error := None, sj_token := None, sj_updated_at := now\<rparr>) db
     in ebind (sj_get owner i db') (\<lambda>v. Inr (v, db')))))"

definition lease_over :: "time \<Rightarrow> sj_row \<Rightarrow> bool" where
  "lease_over now r \<longleftrightarrow> (case sj_lease r of None \<Rightarrow> False | Some l \<Rightarrow> l < now)"

definition sj_give_up :: "time \<Rightarrow> string \<Rightarrow> 'x sj_db \<Rightarrow> 'x sj_db" where
  "sj_give_up now msg = sj_set (\<lambda>r. sj_state r = SjRunning \<and> lease_over now r \<and> sj_attempts r \<ge> 3)
     (\<lambda>r. r\<lparr>sj_state := SjFailed, sj_error := Some msg, sj_token := None\<rparr>)"

definition claimable :: "time \<Rightarrow> sj_row \<Rightarrow> bool" where
  "claimable now r \<longleftrightarrow> sj_state r = SjQueued \<or> sj_state r = SjRunning \<and> lease_over now r \<and> sj_attempts r < 3"

text \<open>The oldest job that waits or whose worker is gone; \<open>msg\<close> is the fixed text of a job that is given up.\<close>

definition sj_claim :: "(nat \<Rightarrow> time) \<Rightarrow> string \<Rightarrow> string \<Rightarrow> 'x sj_db \<Rightarrow> sj_row option \<times> 'x sj_db" where
  "sj_claim clock msg token db =
     (let db1 = sj_give_up (clock 0) msg db in
      case sort_key sj_created_at (filter (claimable (clock 1)) (sj_jobs db1)) of
        [] \<Rightarrow> (None, db1)
      | row # _ \<Rightarrow>
          let f = (\<lambda>r. r\<lparr>sj_state := SjRunning, sj_attempts := sj_attempts r + 1, sj_token := Some token,
                sj_lease := Some (clock 2 + 300000000), sj_updated_at := clock 3\<rparr>);
              db2 = sj_set (\<lambda>r. sj_id r = sj_id row) f db1
          in (tbl_get sj_id (sj_id row) (sj_jobs db2), db2))"

definition sj_held :: "string \<Rightarrow> string option \<Rightarrow> 'x sj_db \<Rightarrow> sj_row option" where
  "sj_held i token db = List.find (\<lambda>r. sj_id r = i \<and> token \<noteq> None \<and> sj_token r = token \<and> sj_state r = SjRunning) (sj_jobs db)"

definition sj_active ::
  "'x sj_db \<Rightarrow> time \<Rightarrow> time \<Rightarrow> string \<Rightarrow> string option \<Rightarrow> json list option \<Rightarrow> 'x sj_db \<Rightarrow> 'e sj_error + 'x sj_db" where
  "sj_active seen now now2 i token progress db =
     (case sj_held i token seen of
        None \<Rightarrow> Inl SjConflict
      | Some row \<Rightarrow>
          ebind (check_automatic (sj_owner row) (sj_payload row) seen) (\<lambda>_.
          Inr (sj_set (\<lambda>r. sj_id r = i) (\<lambda>r. r\<lparr>sj_lease := Some (now + 300000000),
                sj_progress := (case progress of Some p \<Rightarrow> map canon p | None \<Rightarrow> sj_progress row), sj_updated_at := now2\<rparr>) db)))"

definition sj_finish :: "time \<Rightarrow> string \<Rightarrow> string option \<Rightarrow> json option \<Rightarrow> string option \<Rightarrow> 'x sj_db \<Rightarrow> 'x sj_db" where
  "sj_finish now i token result error =
     sj_set (\<lambda>r. sj_id r = i \<and> token \<noteq> None \<and> sj_token r = token \<and> sj_state r = SjRunning)
       (\<lambda>r. r\<lparr>sj_state := (if filled error then SjFailed else SjSucceeded), sj_result := map_option canon result,
              sj_error := error, sj_token := None, sj_updated_at := now\<rparr>)"

text \<open>
  What the worker hands to \<open>SkillAuthoring.save\<close> with its job. \<open>jv_draft\<close> is the part of the method on the tables of drafts: it
  raises, or answers with the result of an earlier command of the same key (\<open>None\<close>: nothing is written), or with that of the
  draft it has stored.
\<close>

record ('x, 'e) job_save =
  jv_automatic :: bool
  jv_scope :: json
  jv_metadata :: "(string \<times> json) list"
  jv_draft :: "'x \<Rightarrow> 'e + (string \<times> json) list \<times> 'x option"

definition saved_result :: "(string \<times> json) list \<Rightarrow> (string \<times> json) list \<Rightarrow> json" where
  "saved_result metadata result =
     JDict (foldl (\<lambda>d (k, v). AList.update k v d) [(''saved'', JBool True), (''classification'', JStr ''method'')] (metadata @ result))"

text \<open>\<open>SkillAuthoring.save\<close> of a job: a new draft and the end of the job are one transaction; an earlier command leaves the job running.\<close>

definition sj_save ::
  "time \<Rightarrow> string \<Rightarrow> string \<Rightarrow> string option \<Rightarrow> ('x, 'e) job_save \<Rightarrow> 'x sj_db \<Rightarrow> 'e sj_error + (json \<times> 'x sj_db)" where
  "sj_save now owner i token save db =
     ebind (raise_if (case sj_held i token db of None \<Rightarrow> True | Some r \<Rightarrow> sj_owner r \<noteq> owner) SjConflict) (\<lambda>_.
     ebind (raise_if (jv_automatic save \<and> \<not> auto_allowed owner (jv_scope save) db) SjPermission) (\<lambda>_.
     case jv_draft save (sj_other db) of
       Inl e \<Rightarrow> Inl (SjCallback e)
     | Inr (result, None) \<Rightarrow> Inr (JDict result, db)
     | Inr (result, Some x) \<Rightarrow>
         Inr (JDict result, sj_set (\<lambda>r. sj_id r = i)
           (\<lambda>r. r\<lparr>sj_state := SjSucceeded, sj_result := Some (canon (saved_result (jv_metadata save) result)), sj_token := None,
                  sj_updated_at := now\<rparr>) (db\<lparr>sj_other := x\<rparr>))))"

definition latest_report :: "string \<Rightarrow> json \<Rightarrow> json \<Rightarrow> 'x sj_db \<Rightarrow> 'e sj_error + json option" where
  "latest_report owner draft revision db =
     (case sort_key (\<lambda>r. - sj_created_at r) (filter (\<lambda>r. sj_owner r = owner \<and> sj_kind r = ''evaluation'' \<and> sj_state r = SjSucceeded \<and>
           draft \<noteq> JNull \<and> revision \<noteq> JNull \<and> py_eq (dget (sj_payload r) ''draft_id'') draft \<and> py_eq (dget (sj_payload r) ''revision'') revision)
         (sj_jobs db)) of
        [] \<Rightarrow> Inr None | r # _ \<Rightarrow> (case sj_result r of None \<Rightarrow> Inl SjTypeError | Some v \<Rightarrow> Inr (Some v)))"

section \<open>The queue as a transition system\<close>

text \<open>\<open>SjSettings\<close> stands for other users of the database, who change settings and other tables.\<close>

datatype ('x, 'e) sj_op =
    SjEnqueue "('x, 'e) sj_event" "nat \<Rightarrow> time" string sj_request
  | SjCancel "('x, 'e) sj_event" "'x sj_db" time string string
  | SjRetry time string string
  | SjClaim "nat \<Rightarrow> time" string string
  | SjActive "'x sj_db" time time string "string option" "json list option"
  | SjFinish time string "string option" "json option" "string option"
  | SjSave time string string "string option" "('x, 'e) job_save"
  | SjSettings "(string \<times> (string \<times> json) list) list" "((string \<times> string) \<times> bool) list" 'x

datatype sj_out = SjJob sj_public | SjClaimed "sj_row option" | SjSaved json | SjUnit

definition sj_wrap :: "('a \<Rightarrow> sj_out) \<Rightarrow> 'e sj_error + ('a \<times> 'x sj_db) \<Rightarrow> 'e sj_error + (sj_out \<times> 'x sj_db)" where
  "sj_wrap f out = (case out of Inl e \<Rightarrow> Inl e | Inr (a, db) \<Rightarrow> Inr (f a, db))"

fun sj_exec :: "py_env \<Rightarrow> ('x, 'e) sj_op \<Rightarrow> 'x sj_db \<Rightarrow> 'e sj_error + (sj_out \<times> 'x sj_db)" where
  "sj_exec env (SjEnqueue event clock uuid q) db = sj_wrap SjJob (sj_enqueue env event clock uuid q db)"
| "sj_exec env (SjCancel event seen now owner i) db = sj_wrap SjJob (sj_cancel event seen now owner i db)"
| "sj_exec env (SjRetry now owner i) db = sj_wrap SjJob (sj_retry now owner i db)"
| "sj_exec env (SjClaim clock msg token) db = (let (r, db') = sj_claim clock msg token db in Inr (SjClaimed r, db'))"
| "sj_exec env (SjActive seen now now2 i token progress) db = ebind (sj_active seen now now2 i token progress db) (\<lambda>db'. Inr (SjUnit, db'))"
| "sj_exec env (SjFinish now i token result error) db = Inr (SjUnit, sj_finish now i token result error db)"
| "sj_exec env (SjSave now owner i token save) db = sj_wrap SjSaved (sj_save now owner i token save db)"
| "sj_exec env (SjSettings prefs scopes x) db = Inr (SjUnit, db\<lparr>sj_prefs := prefs, sj_scopes := scopes, sj_other := x\<rparr>)"

definition sj_empty :: "'x \<Rightarrow> 'x sj_db" where
  "sj_empty x = \<lparr>sj_jobs = [], sj_prefs = [], sj_scopes = [], sj_other = x\<rparr>"

section \<open>What the operations do to the rows\<close>

text \<open>The state machine of a job. A cancellation decides on the state it has seen, so it may also reach a job that has ended since.\<close>

inductive sj_edge :: "sj_state \<Rightarrow> sj_state \<Rightarrow> bool" where
  claim: "sj_edge SjQueued SjRunning"
| succeed: "sj_edge SjRunning SjSucceeded"
| fail: "sj_edge SjRunning SjFailed"
| retry: "sj_edge SjFailed SjQueued"
| cancel: "s \<noteq> SjCanceled \<Longrightarrow> sj_edge s SjCanceled"

inductive_simps canceled_final [simp]: "sj_edge SjCanceled s"

definition sj_contract :: "sj_row \<Rightarrow> string list \<times> (string \<times> json) list \<times> time" where
  "sj_contract r = ([sj_id r, sj_owner r, sj_kind r, sj_request_key r, sj_input_hash r], sj_payload r, sj_created_at r)"

text \<open>A token and a lease exist while the job runs; a job that waits has an attempt left.\<close>

definition sj_row_ok :: "sj_row \<Rightarrow> bool" where
  "sj_row_ok r \<longleftrightarrow> 0 \<le> sj_attempts r \<and> sj_attempts r \<le> 3 \<and> (sj_token r \<noteq> None \<longleftrightarrow> sj_state r = SjRunning) \<and>
     (sj_state r = SjRunning \<longrightarrow> sj_lease r \<noteq> None) \<and> (sj_state r = SjQueued \<longrightarrow> sj_attempts r \<le> 2) \<and>
     (sj_state r \<in> {SjRunning, SjSucceeded, SjFailed} \<longrightarrow> 1 \<le> sj_attempts r)"

definition sj_inv :: "'x sj_db \<Rightarrow> bool" where
  "sj_inv db \<longleftrightarrow> distinct (map sj_id (sj_jobs db)) \<and> distinct (map (\<lambda>r. (sj_owner r, sj_request_key r)) (sj_jobs db)) \<and>
     list_all sj_row_ok (sj_jobs db)"

definition sj_moves :: "string set \<Rightarrow> sj_row \<Rightarrow> sj_row \<Rightarrow> bool" where
  "sj_moves T r r' \<longleftrightarrow> sj_contract r' = sj_contract r \<and> sj_attempts r \<le> sj_attempts r' \<and> sj_edge\<^sup>*\<^sup>* (sj_state r) (sj_state r') \<and>
     (sj_row_ok r \<longrightarrow> sj_row_ok r') \<and>
     sj_token r' \<in> {sj_token r, None} \<union> Some ` T"

definition sj_rewrites :: "string set \<Rightarrow> 'x sj_db \<Rightarrow> 'x sj_db \<Rightarrow> bool" where
  "sj_rewrites T db db' \<longleftrightarrow> (\<exists>f. sj_jobs db' = map f (sj_jobs db) \<and> (\<forall>r \<in> set (sj_jobs db). sj_moves T r (f r)))"

lemma sj_moves_refl [simp]: "sj_moves T r r"
  by (simp add: sj_moves_def)

lemma sj_moves_trans: "sj_moves T r s \<Longrightarrow> sj_moves T s t \<Longrightarrow> sj_moves T r t"
  by (auto simp: sj_moves_def)

lemma sj_moves_contract: "sj_moves T r r' \<Longrightarrow> sj_id r' = sj_id r \<and> sj_owner r' = sj_owner r \<and> sj_request_key r' = sj_request_key r \<and>
    sj_input_hash r' = sj_input_hash r \<and> sj_attempts r \<le> sj_attempts r'"
  by (simp add: sj_moves_def sj_contract_def)

lemma sj_rewrites_refl [simp]: "sj_jobs db' = sj_jobs db \<Longrightarrow> sj_rewrites T db db'"
  unfolding sj_rewrites_def by (rule exI[of _ id]) simp

lemma sj_rewrites_trans: "sj_rewrites T a b \<Longrightarrow> sj_rewrites T b c \<Longrightarrow> sj_rewrites T a c"
proof -
  assume "sj_rewrites T a b" "sj_rewrites T b c"
  then obtain f g where "sj_jobs b = map f (sj_jobs a)" "\<forall>r \<in> set (sj_jobs a). sj_moves T r (f r)"
    "sj_jobs c = map g (sj_jobs b)" "\<forall>r \<in> set (sj_jobs b). sj_moves T r (g r)" unfolding sj_rewrites_def by blast
  then show ?thesis unfolding sj_rewrites_def by (intro exI[of _ "g \<circ> f"]) (auto intro: sj_moves_trans)
qed

lemma sj_set_sel [simp]:
  "sj_jobs (sj_set P f db) = tbl_update P f (sj_jobs db)" "sj_other (sj_set P f db) = sj_other db"
  "sj_prefs (sj_set P f db) = sj_prefs db" "sj_scopes (sj_set P f db) = sj_scopes db"
  by (simp_all add: sj_set_def)

lemma sj_set_rewrites:
  "(\<And>r. r \<in> set (sj_jobs db) \<Longrightarrow> P r \<Longrightarrow> sj_moves T r (f r)) \<Longrightarrow> sj_rewrites T db (sj_set P f db)"
  unfolding sj_rewrites_def sj_set_sel tbl_update_def by (rule exI[of _ "\<lambda>r. if P r then f r else r"]) simp

lemma sj_rewrites_inv:
  assumes inv: "sj_inv db" and "sj_rewrites T db db'"
  shows "sj_inv db'"
proof -
  obtain f where f: "sj_jobs db' = map f (sj_jobs db)" "\<forall>r \<in> set (sj_jobs db). sj_moves T r (f r)"
    using assms(2) unfolding sj_rewrites_def by blast
  have "map sj_id (sj_jobs db') = map sj_id (sj_jobs db)"
    "map (\<lambda>r. (sj_owner r, sj_request_key r)) (sj_jobs db') = map (\<lambda>r. (sj_owner r, sj_request_key r)) (sj_jobs db)"
    using f by (auto simp: sj_moves_contract)
  moreover have "list_all sj_row_ok (sj_jobs db')" using inv f by (auto simp: sj_inv_def sj_moves_def list_all_iff)
  ultimately show ?thesis using inv by (simp add: sj_inv_def)
qed

lemma sj_rewrites_get:
  assumes "sj_rewrites T db db'" and "tbl_get sj_id k (sj_jobs db) = Some r"
  shows "\<exists>r'. tbl_get sj_id k (sj_jobs db') = Some r' \<and> sj_moves T r r'"
proof -
  obtain f where f: "sj_jobs db' = map f (sj_jobs db)" "\<forall>r \<in> set (sj_jobs db). sj_moves T r (f r)"
    using assms(1) unfolding sj_rewrites_def by blast
  have "tbl_get sj_id k (map f rows) = map_option f (tbl_get sj_id k rows)" if "\<forall>r \<in> set rows. sj_moves T r (f r)" for rows
    using that by (induction rows) (auto simp: sj_moves_contract)
  then show ?thesis using f assms(2) tbl_get_mem[OF assms(2)] by auto
qed

lemma sj_row_unique: "sj_inv db \<Longrightarrow> r \<in> set (sj_jobs db) \<Longrightarrow> s \<in> set (sj_jobs db) \<Longrightarrow> sj_id r = sj_id s \<Longrightarrow> r = s"
  unfolding sj_inv_def by (blast intro: distinct_same_key)

lemma sj_owned_Inr [outcome_simps]:
  "sj_owned owner i db = Inr r \<longleftrightarrow> List.find (\<lambda>r. sj_id r = i \<and> sj_owner r = owner) (sj_jobs db) = Some r"
  by (simp add: sj_owned_def split: option.splits)

text \<open>One lemma per operation.\<close>

lemmas move_defs = sj_moves_def sj_contract_def sj_row_ok_def

lemma sj_edges [simp]:
  "sj_edge\<^sup>*\<^sup>* SjQueued SjRunning" "sj_edge\<^sup>*\<^sup>* SjRunning SjSucceeded" "sj_edge\<^sup>*\<^sup>* SjRunning SjFailed"
  "sj_edge\<^sup>*\<^sup>* SjFailed SjQueued" "sj_edge\<^sup>*\<^sup>* s SjCanceled"
proof -
  show "sj_edge\<^sup>*\<^sup>* s SjCanceled" by (cases "s = SjCanceled") (auto intro: sj_edge.cancel)
qed (auto intro: sj_edge.intros)

lemma cancel_moves:
  "sj_moves T r (r\<lparr>sj_state := SjCanceled, sj_token := None, sj_updated_at := now\<rparr>)"
  by (cases "sj_state r = SjCanceled") (auto simp: move_defs)

lemma sj_cancel_rewrites:
  assumes "sj_cancel event seen now owner i db = Inr (v, db')"
  shows "sj_rewrites T db db'"
proof -
  let ?db1 = "sj_set (\<lambda>r. sj_id r = i) (\<lambda>r. r\<lparr>sj_state := SjCanceled, sj_token := None, sj_updated_at := now\<rparr>) db"
  have "db' = db \<or> (\<exists>x. db' = ?db1\<lparr>sj_other := x\<rparr>)"
    using assms by (auto simp: sj_cancel_def Let_def outcome_simps split: if_splits sum.splits)
  moreover have "sj_rewrites T db ?db1" by (rule sj_set_rewrites) (rule cancel_moves)
  ultimately show ?thesis by (auto intro: sj_rewrites_trans)
qed

lemma sj_retry_rewrites:
  assumes "sj_inv db" and "sj_retry now owner i db = Inr (v, db')"
  shows "sj_rewrites T db db'"
proof -
  obtain row where row: "List.find (\<lambda>r. sj_id r = i \<and> sj_owner r = owner) (sj_jobs db) = Some row" "sj_state row = SjFailed" "sj_attempts row < 3"
    and db': "db' = sj_set (\<lambda>r. sj_id r = i) (\<lambda>r. r\<lparr>sj_state := SjQueued, sj_error := None, sj_token := None, sj_updated_at := now\<rparr>) db"
    using assms(2) by (auto simp: sj_retry_def Let_def outcome_simps)
  show ?thesis unfolding db'
  proof (rule sj_set_rewrites)
    fix r assume "r \<in> set (sj_jobs db)" "sj_id r = i"
    then have "r = row" using sj_row_unique[OF assms(1)] find_Some_mem[OF row(1)] by blast
    then show "sj_moves T r (r\<lparr>sj_state := SjQueued, sj_error := None, sj_token := None, sj_updated_at := now\<rparr>)"
      using row(2,3) by (auto simp: move_defs)
  qed
qed

lemma sj_give_up_rewrites: "sj_rewrites T db (sj_give_up now msg db)"
  unfolding sj_give_up_def
  by (rule sj_set_rewrites) (auto simp: move_defs)

lemma sj_claim_cases:
  assumes inv: "sj_inv db" and claim: "sj_claim clock msg token db = (out, db')"
  obtains (None) "out = None" "db' = sj_give_up (clock 0) msg db" "\<forall>r \<in> set (sj_jobs db'). \<not> claimable (clock 1) r"
  | (Some) row where "row \<in> set (sj_jobs (sj_give_up (clock 0) msg db))" "claimable (clock 1) row"
      "out = Some (row\<lparr>sj_state := SjRunning, sj_attempts := sj_attempts row + 1, sj_token := Some token,
                sj_lease := Some (clock 2 + 300000000), sj_updated_at := clock 3\<rparr>)"
      "db' = sj_set (\<lambda>r. sj_id r = sj_id row) (\<lambda>r. r\<lparr>sj_state := SjRunning, sj_attempts := sj_attempts r + 1, sj_token := Some token,
                sj_lease := Some (clock 2 + 300000000), sj_updated_at := clock 3\<rparr>) (sj_give_up (clock 0) msg db)"
proof (cases "sort_key sj_created_at (filter (claimable (clock 1)) (sj_jobs (sj_give_up (clock 0) msg db)))")
  case Nil
  then have "set (filter (claimable (clock 1)) (sj_jobs (sj_give_up (clock 0) msg db))) = {}" by (metis set_empty set_sort)
  then have "\<forall>r \<in> set (sj_jobs (sj_give_up (clock 0) msg db)). \<not> claimable (clock 1) r" by (simp add: filter_empty_conv)
  moreover have "out = None" "db' = sj_give_up (clock 0) msg db" using claim unfolding sj_claim_def Let_def Nil by auto
  ultimately show ?thesis using None by blast
next
  case (Cons row rest)
  let ?db1 = "sj_give_up (clock 0) msg db"
  let ?f = "\<lambda>r. r\<lparr>sj_state := SjRunning, sj_attempts := sj_attempts r + 1, sj_token := Some token,
                sj_lease := Some (clock 2 + 300000000), sj_updated_at := clock 3\<rparr>"
  have "row \<in> set (filter (claimable (clock 1)) (sj_jobs ?db1))" by (metis Cons list.set_intros(1) set_sort)
  then have row: "row \<in> set (sj_jobs ?db1)" "claimable (clock 1) row" by auto
  have "distinct (map sj_id (sj_jobs ?db1))"
    using sj_rewrites_inv[OF inv sj_give_up_rewrites] unfolding sj_inv_def by blast
  then have "tbl_get sj_id (sj_id row) (sj_jobs ?db1) = Some row" using row(1) by (rule tbl_get_eqI) simp
  then have "tbl_get sj_id (sj_id row) (sj_jobs (sj_set (\<lambda>r. sj_id r = sj_id row) ?f ?db1)) = Some (?f row)"
    by (simp add: tbl_get_update)
  then show ?thesis using claim row unfolding sj_claim_def Let_def Cons list.case by (intro Some[of row]) auto
qed

lemma sj_claim_rewrites:
  assumes inv: "sj_inv db" and claim: "sj_claim clock msg token db = (out, db')" and T: "token \<in> T"
  shows "sj_rewrites T db db'"
  using inv claim
proof (cases rule: sj_claim_cases)
  case None
  then show ?thesis using sj_give_up_rewrites by simp
next
  case (Some row)
  let ?db1 = "sj_give_up (clock 0) msg db"
  have inv1: "sj_inv ?db1" by (rule sj_rewrites_inv[OF inv sj_give_up_rewrites])
  have "sj_rewrites T ?db1 db'" unfolding Some(4)
  proof (rule sj_set_rewrites)
    fix r assume r: "r \<in> set (sj_jobs ?db1)" "sj_id r = sj_id row"
    then have "r = row" using sj_row_unique[OF inv1] Some(1) by blast
    then show "sj_moves T r (r\<lparr>sj_state := SjRunning, sj_attempts := sj_attempts r + 1, sj_token := Some token,
                sj_lease := Some (clock 2 + 300000000), sj_updated_at := clock 3\<rparr>)"
      using Some(2) T by (auto simp: move_defs claimable_def)
  qed
  then show ?thesis using sj_give_up_rewrites sj_rewrites_trans by blast
qed

lemma sj_held_Some: "sj_held i token db = Some r \<Longrightarrow>
   r \<in> set (sj_jobs db) \<and> sj_id r = i \<and> token \<noteq> None \<and> sj_token r = token \<and> sj_state r = SjRunning"
  unfolding sj_held_def by (drule find_Some_mem) simp

lemma sj_active_rewrites: "sj_active seen now now2 i token progress db = Inr db' \<Longrightarrow> sj_rewrites T db db'"
  by (auto simp: sj_active_def outcome_simps split: option.splits intro!: sj_set_rewrites) (auto simp: move_defs)

lemma sj_finish_rewrites: "sj_rewrites T db (sj_finish now i token result error db)"
  unfolding sj_finish_def
  by (rule sj_set_rewrites) (auto simp: move_defs)

lemma sj_save_Inr:
  assumes "sj_save now owner i token save db = Inr (v, db')"
  shows "\<exists>row result. sj_held i token db = Some row \<and> sj_owner row = owner \<and> v = JDict result \<and>
    (jv_automatic save \<longrightarrow> auto_allowed owner (jv_scope save) db) \<and>
    (jv_draft save (sj_other db) = Inr (result, None) \<and> db' = db \<or>
     (\<exists>x. jv_draft save (sj_other db) = Inr (result, Some x) \<and>
       db' = sj_set (\<lambda>r. sj_id r = i) (\<lambda>r. r\<lparr>sj_state := SjSucceeded, sj_result := Some (canon (saved_result (jv_metadata save) result)),
           sj_token := None, sj_updated_at := now\<rparr>) (db\<lparr>sj_other := x\<rparr>)))"
  using assms by (auto simp: sj_save_def outcome_simps split: option.splits sum.splits)

lemma sj_save_rewrites:
  assumes inv: "sj_inv db" and "sj_save now owner i token save db = Inr (v, db')"
  shows "sj_rewrites T db db'"
proof -
  from sj_save_Inr[OF assms(2)] obtain row result where h: "sj_held i token db = Some row" and
    "db' = db \<or> (\<exists>x. db' = sj_set (\<lambda>r. sj_id r = i) (\<lambda>r. r\<lparr>sj_state := SjSucceeded,
       sj_result := Some (canon (saved_result (jv_metadata save) result)), sj_token := None, sj_updated_at := now\<rparr>) (db\<lparr>sj_other := x\<rparr>))" by blast
  then show ?thesis
  proof (elim disjE exE)
    fix x
    assume db': "db' = sj_set (\<lambda>r. sj_id r = i) (\<lambda>r. r\<lparr>sj_state := SjSucceeded,
       sj_result := Some (canon (saved_result (jv_metadata save) result)), sj_token := None, sj_updated_at := now\<rparr>) (db\<lparr>sj_other := x\<rparr>)"
    have "sj_rewrites T (db\<lparr>sj_other := x\<rparr>) db'" unfolding db'
    proof (rule sj_set_rewrites)
      fix r assume r: "r \<in> set (sj_jobs (db\<lparr>sj_other := x\<rparr>))" "sj_id r = i"
      then have "r = row" using sj_row_unique[OF inv] sj_held_Some[OF h] by simp
      then show "sj_moves T r (r\<lparr>sj_state := SjSucceeded, sj_result := Some (canon (saved_result (jv_metadata save) result)),
          sj_token := None, sj_updated_at := now\<rparr>)"
        using sj_held_Some[OF h] by (auto simp: move_defs)
    qed
    then show ?thesis by (rule sj_rewrites_trans[rotated]) simp
  qed (simp add: sj_rewrites_refl)
qed

definition sj_adds :: "'x sj_db \<Rightarrow> 'x sj_db \<Rightarrow> bool" where
  "sj_adds db db' \<longleftrightarrow> (\<exists>row. sj_jobs db' = sj_jobs db @ [row] \<and> sj_id row \<notin> set (map sj_id (sj_jobs db)) \<and>
     (sj_owner row, sj_request_key row) \<notin> set (map (\<lambda>r. (sj_owner r, sj_request_key r)) (sj_jobs db)) \<and> sj_row_ok row \<and>
     sj_state row = SjQueued \<and> sj_attempts row = 0)"

lemma sj_enqueue_Inr:
  assumes "sj_enqueue env event clock uuid q db = Inr (v, db')"
  shows "(\<exists>old. sj_keyed (sq_owner q) (sq_key q) db = Some old \<and> sj_input_hash old = sj_digest env (sq_kind q) (sq_payload q) \<and>
      v = sj_view old \<and> db' = db) \<or>
    (\<exists>x. sj_keyed (sq_owner q) (sq_key q) db = None \<and> uuid \<notin> set (map sj_id (sj_jobs db)) \<and>
      active_jobs (sq_owner q) db < 3 \<and> created_today (clock 1) (sq_owner q) (\<lambda>_. True) db < 20 \<and>
      v = sj_view (sj_new_row env (clock 2) (clock 3) uuid q) \<and>
      db' = db\<lparr>sj_jobs := sj_jobs db @ [sj_new_row env (clock 2) (clock 3) uuid q], sj_other := x\<rparr>)"
proof (cases "sj_keyed (sq_owner q) (sq_key q) db")
  case (Some old)
  then show ?thesis using assms by (auto simp: sj_enqueue_def outcome_simps split: if_splits)
next
  case None
  have "sj_id (sj_new_row env (clock 2) (clock 3) uuid q) = uuid" by (simp add: sj_new_row_def)
  then show ?thesis using assms None
    by (auto simp: sj_enqueue_def outcome_simps Let_def table_simps split: option.splits sum.splits)
qed

lemma sj_enqueue_change:
  assumes "sj_enqueue env event clock uuid q db = Inr (v, db')"
  shows "sj_rewrites T db db' \<or> sj_adds db db'"
  using sj_enqueue_Inr[OF assms]
  by (fastforce simp: sj_adds_def sj_new_row_def sj_row_ok_def sj_keyed_def find_None_iff)

lemma sj_wrap_Inr [outcome_simps]: "sj_wrap f out = Inr (v, db) \<longleftrightarrow> (\<exists>a. out = Inr (a, db) \<and> v = f a)"
  by (auto simp: sj_wrap_def split: sum.splits)

fun draws :: "('x, 'e) sj_op \<Rightarrow> string set" where
  "draws (SjClaim clock msg token) = {token}"
| "draws _ = {}"

lemma sj_exec_change:
  assumes inv: "sj_inv db" and e: "sj_exec env op db = Inr (out, db')"
  shows "sj_rewrites (draws op) db db' \<or> sj_adds db db'"
proof (cases op)
  case (SjClaim clock msg token)
  then show ?thesis using e sj_claim_rewrites[OF inv, of clock msg token] by (cases "sj_claim clock msg token db") auto
qed (use e in \<open>auto simp: outcome_simps dest: sj_enqueue_change sj_cancel_rewrites sj_retry_rewrites[OF inv] sj_active_rewrites
       sj_save_rewrites[OF inv] intro: sj_finish_rewrites\<close>)

lemma sj_exec_inv: "sj_inv db \<Longrightarrow> sj_exec env op db = Inr (out, db') \<Longrightarrow> sj_inv db'"
  using sj_exec_change[of db env op out db'] sj_rewrites_inv[of db "draws op" db']
  by (auto simp: sj_adds_def sj_inv_def)

lemma sj_exec_get:
  assumes "sj_inv db" and "sj_exec env op db = Inr (out, db')" and "tbl_get sj_id k (sj_jobs db) = Some r"
  shows "\<exists>r'. tbl_get sj_id k (sj_jobs db') = Some r' \<and> sj_moves (draws op) r r'"
  using sj_exec_change[OF assms(1,2)] sj_rewrites_get[OF _ assms(3)] assms(3)
  by (auto simp: sj_adds_def tbl_get_append)

section \<open>Contracts\<close>

definition sj_status :: "'x sj_db \<Rightarrow> string \<Rightarrow> sj_state option" where
  "sj_status db k = map_option sj_state (tbl_get sj_id k (sj_jobs db))"

definition sj_contract_of :: "'x sj_db \<Rightarrow> string \<Rightarrow> (string list \<times> (string \<times> json) list \<times> time) option" where
  "sj_contract_of db k = map_option sj_contract (tbl_get sj_id k (sj_jobs db))"

definition sj_meter :: "'x sj_db \<Rightarrow> string \<Rightarrow> nat" where
  "sj_meter db k = (case tbl_get sj_id k (sj_jobs db) of None \<Rightarrow> 0 | Some r \<Rightarrow> nat (sj_attempts r))"

definition starts :: "sj_out \<Rightarrow> string \<Rightarrow> bool" where
  "starts out k \<longleftrightarrow> (case out of SjClaimed (Some r) \<Rightarrow> sj_id r = k | _ \<Rightarrow> False)"

interpretation sj: ledger "sj_exec env" sj_inv sj_status sj_edge
proof (unfold_locales, goal_cases)
  case (1 db op r db')
  then show ?case by (rule sj_exec_inv)
next
  case (2 db op out db' k s)
  then obtain r where r: "tbl_get sj_id k (sj_jobs db) = Some r" "sj_state r = s" by (auto simp: sj_status_def)
  from sj_exec_get[OF 2(1,2) r(1)] r(2) show ?case by (auto simp: sj_status_def sj_moves_def)
qed

interpretation sj_fixed: ledger "sj_exec env" sj_inv sj_contract_of "\<lambda>_ _. False"
  by unfold_locales (auto simp: sj_contract_of_def sj_moves_def dest: sj_exec_get)

lemma sj_meter_grows:
  assumes "sj_inv db" and "sj_exec env op db = Inr (out, db')"
  shows "sj_meter db k \<le> sj_meter db' k"
proof (cases "tbl_get sj_id k (sj_jobs db)")
  case (Some r)
  from sj_exec_get[OF assms Some] Some show ?thesis by (auto simp: sj_meter_def sj_moves_def)
qed (simp add: sj_meter_def)

lemma sj_inv_get: "sj_inv db \<Longrightarrow> tbl_get sj_id k (sj_jobs db) = Some r \<Longrightarrow> sj_row_ok r \<and> sj_id r = k"
  by (auto simp: sj_inv_def list_all_iff dest!: tbl_get_mem)

lemma claim_raises_meter:
  assumes inv: "sj_inv db" and claim: "sj_claim clock msg token db = (Some r, db')"
  shows "sj_meter db (sj_id r) + 1 \<le> sj_meter db' (sj_id r) \<and> tbl_get sj_id (sj_id r) (sj_jobs db') = Some r \<and>
    sj_token r = Some token \<and> sj_state r = SjRunning"
  using inv claim
proof (cases rule: sj_claim_cases)
  case (Some row)
  let ?db1 = "sj_give_up (clock 0) msg db"
  have inv1: "sj_inv ?db1" by (rule sj_rewrites_inv[OF inv sj_give_up_rewrites])
  have d: "distinct (map sj_id (sj_jobs ?db1))" using inv1 unfolding sj_inv_def by blast
  have row: "tbl_get sj_id (sj_id row) (sj_jobs ?db1) = Some row" by (rule tbl_get_eqI[OF d Some(1) refl])
  have got: "tbl_get sj_id (sj_id r) (sj_jobs db') = Some r" using row Some(3,4) by (simp add: tbl_get_update)
  have "sj_meter db (sj_id row) \<le> sj_meter ?db1 (sj_id row)"
  proof (cases "tbl_get sj_id (sj_id row) (sj_jobs db)")
    case (Some r0)
    obtain r1 where "tbl_get sj_id (sj_id row) (sj_jobs ?db1) = Some r1" "sj_moves {} r0 r1"
      using sj_rewrites_get[OF sj_give_up_rewrites Some] by blast
    then show ?thesis using row Some by (auto simp: sj_meter_def sj_moves_def intro: nat_mono)
  qed (simp add: sj_meter_def)
  moreover have "0 \<le> sj_attempts row" using sj_inv_get[OF inv1 row] by (simp add: sj_row_ok_def)
  ultimately show ?thesis using row got Some(3) by (auto simp: sj_meter_def)
qed simp

interpretation sj_attempts: metered "sj_exec env" sj_inv sj_meter "\<lambda>_. starts" 3
proof (unfold_locales, goal_cases)
  case (1 db op out db' k)
  show ?case
  proof (cases "starts out k")
    case True
    then obtain r where out: "out = SjClaimed (Some r)" "sj_id r = k" by (auto simp: starts_def split: sj_out.splits option.splits)
    then obtain clock msg token where "op = SjClaim clock msg token" "sj_claim clock msg token db = (Some r, db')"
      using 1(2) by (cases op) (auto simp: outcome_simps split: prod.splits)
    with claim_raises_meter[OF 1(1)] out True show ?thesis by force
  qed (use sj_meter_grows[OF 1] in simp)
next
  case (2 db k)
  show ?case
  proof (cases "tbl_get sj_id k (sj_jobs db)")
    case (Some r)
    then show ?thesis using sj_inv_get[OF 2 Some] by (simp add: sj_meter_def sj_row_ok_def nat_le_iff)
  qed (simp add: sj_meter_def)
qed

text \<open>A token that a row does not hold comes back only when it is drawn.\<close>

lemma sj_exec_not_held:
  assumes inv: "sj_inv db" and e: "sj_exec env op db = Inr (out, db')" and t: "t \<notin> draws op"
    and free: "\<forall>r. tbl_get sj_id k (sj_jobs db) = Some r \<longrightarrow> sj_token r \<noteq> Some t"
  shows "\<forall>r. tbl_get sj_id k (sj_jobs db') = Some r \<longrightarrow> sj_token r \<noteq> Some t"
proof (cases "tbl_get sj_id k (sj_jobs db)")
  case (Some r)
  from sj_exec_get[OF inv e Some] free Some t show ?thesis by (auto simp: sj_moves_def)
next
  case None
  from sj_exec_change[OF inv e] show ?thesis
  proof
    assume "sj_rewrites (draws op) db db'"
    then obtain f where "sj_jobs db' = map f (sj_jobs db)" "\<forall>r \<in> set (sj_jobs db). sj_moves (draws op) r (f r)"
      unfolding sj_rewrites_def by blast
    then have "map sj_id (sj_jobs db') = map sj_id (sj_jobs db)" by (auto simp: sj_moves_contract)
    then have "k \<notin> set (map sj_id (sj_jobs db'))" using iffD1[OF tbl_get_None None] by argo
    then have "tbl_get sj_id k (sj_jobs db') = None" by (rule iffD2[OF tbl_get_None])
    then show ?thesis by simp
  next
    assume "sj_adds db db'"
    then show ?thesis using None by (auto simp: sj_adds_def tbl_get_append sj_row_ok_def split: if_splits)
  qed
qed

lemma sj_run_not_held:
  assumes "sj_inv db" and "\<forall>op \<in> set ops. t \<notin> draws op"
    and "\<forall>r. tbl_get sj_id k (sj_jobs db) = Some r \<longrightarrow> sj_token r \<noteq> Some t"
  shows "\<forall>r. tbl_get sj_id k (sj_jobs (run (sj_exec env) ops db)) = Some r \<longrightarrow> sj_token r \<noteq> Some t"
  using assms
proof (induction ops arbitrary: db)
  case (Cons op ops)
  show ?case
  proof (cases "sj_exec env op db")
    case (Inr p)
    then obtain out db' where e: "sj_exec env op db = Inr (out, db')" by (cases p) auto
    have t: "t \<notin> draws op" using Cons.prems(2) by simp
    show ?thesis using Cons.IH[OF sj_exec_inv[OF Cons.prems(1) e] _ sj_exec_not_held[OF Cons.prems(1) e t Cons.prems(3)]] Cons.prems(2) e by simp
  next
    case (Inl x)
    then show ?thesis using Cons.IH[OF Cons.prems(1) _ Cons.prems(3)] Cons.prems(2) by simp
  qed
qed simp

lemma not_held_None:
  assumes "sj_inv db" and "\<forall>r. tbl_get sj_id k (sj_jobs db) = Some r \<longrightarrow> sj_token r \<noteq> Some t"
  shows "sj_held k (Some t) db = None" "sj_finish now k (Some t) result err db = db"
proof -
  have d: "distinct (map sj_id (sj_jobs db))" using assms(1) unfolding sj_inv_def by blast
  have no: "sj_id r = k \<Longrightarrow> sj_token r \<noteq> Some t" if "r \<in> set (sj_jobs db)" for r
    using assms(2) tbl_get_eqI[OF d that] by blast
  show "sj_held k (Some t) db = None" using no by (auto simp: sj_held_def find_None_iff)
  have "tbl_update (\<lambda>r. sj_id r = k \<and> Some t \<noteq> None \<and> sj_token r = Some t \<and> sj_state r = SjRunning) f (sj_jobs db) = sj_jobs db" for f
    unfolding tbl_update_def using no by (intro map_idI) auto
  then show "sj_finish now k (Some t) result err db = db" by (simp add: sj_finish_def sj_set_def)
qed

lemma sj_inv_empty: "sj_inv (sj_empty x)"
  by (simp add: sj_inv_def sj_empty_def)

section \<open>Properties\<close>

text \<open>
  In every state that the queue can reach, whatever its callers have seen before they write, identifiers and
  request keys are unique, a claim token and a lease exist exactly while a job runs, a job has at most three attempts
  behind it, and one that waits has at most two.
\<close>

theorem sj_reachable_states_sound:
  "sj_inv (run (sj_exec env) ops (sj_empty x))"
  by (rule sj.inv_run[OF sj_inv_empty])

text \<open>
  C31: A job is started at most three times, in any sequence of transactions: claims, lapsed leases, retries by its owner and all.
\<close>

theorem job_starts_at_most_three_times:
  "worked (sj_exec env) (\<lambda>_ out. starts out k) ops (sj_empty x) \<le> 3"
  by (rule add_leD2[OF sj_attempts.metered_work[OF sj_inv_empty]])

text \<open>
  C32: A worker that has lost its claim writes nothing, if what it reads is read after the loss. When job \<open>k\<close> no longer holds the
  token \<open>t\<close> (it was claimed by another worker, canceled or ended), then after any transactions \<open>ops\<close> and \<open>more\<close> that do not draw
  \<open>t\<close> again, an end that is reported with \<open>t\<close> changes nothing, a draft is not saved, and a report of progress
  that read the row after \<open>ops\<close> and writes after \<open>more\<close> is refused. (A report that read its row before the
  claim was lost writes in spite of it, see \<open>stale_report_renews_lease\<close>.)
\<close>

theorem lost_claim_writes_nothing:
  fixes db :: "'x sj_db" and ops more :: "('x, 'e) sj_op list"
  assumes inv: "sj_inv db" and lost: "\<forall>r. tbl_get sj_id k (sj_jobs db) = Some r \<longrightarrow> sj_token r \<noteq> Some t"
    and fresh: "\<forall>op \<in> set (ops @ more). t \<notin> draws op"
    and seen: "seen = run (sj_exec env) ops db" and later: "db' = run (sj_exec env) more seen"
  shows "sj_finish now k (Some t) result err db' = db' \<and>
    sj_active seen now now2 k (Some t) progress db' = (Inl SjConflict :: 'e sj_error + 'x sj_db) \<and>
    sj_save now owner k (Some t) save db' = (Inl SjConflict :: 'e sj_error + json \<times> 'x sj_db)"
proof -
  have i: "sj_inv seen" unfolding seen by (rule sj.inv_run[OF inv])
  have i': "sj_inv db'" unfolding later by (rule sj.inv_run[OF i])
  have fresh': "\<forall>op \<in> set ops. t \<notin> draws op" "\<forall>op \<in> set more. t \<notin> draws op" using fresh by auto
  note free = sj_run_not_held[OF inv fresh'(1) lost, of env, folded seen]
  note free' = sj_run_not_held[OF i fresh'(2) free, of env, folded later]
  show ?thesis using not_held_None[OF i free] not_held_None[OF i' free'] by (simp add: sj_active_def sj_save_def)
qed

text \<open>
  The report writes by the identifier of the job alone: one that read the row while its worker held the job renews the lease and
  overwrites the progress of whoever holds the job by then.
\<close>

lemma stale_report_renews_lease:
  assumes held: "sj_held k (Some t) seen = Some row" "\<not> truthy (dget (sj_payload row) ''automatic'')"
    and now: "tbl_get sj_id k (sj_jobs db) = Some r"
  shows "\<exists>db' r'. sj_active seen now now2 k (Some t) (Some progress) db = (Inr db' :: 'e sj_error + 'x sj_db) \<and>
    tbl_get sj_id k (sj_jobs db') = Some r' \<and> sj_token r' = sj_token r \<and> sj_lease r' = Some (now + 300000000) \<and> sj_progress r' = map canon progress"
  using held now tbl_get_mem[OF now] by (simp add: sj_active_def check_automatic_def tbl_get_update)

text \<open>
  A request key stands for one job. After a job was enqueued with a key, whatever transactions follow, enqueuing with the same
  owner and key changes nothing: it answers with that job as it is by then when kind and payload have the
  same digest, and is refused as a conflict otherwise.
\<close>

theorem job_key_stands:
  fixes db :: "'x sj_db" and ops :: "('x, 'e) sj_op list"
  assumes inv: "sj_inv db"
    and first: "sj_enqueue env event clock uuid q db = (Inr (v, db1) :: 'e sj_error + sj_public \<times> 'x sj_db)"
    and same: "sq_owner q' = sq_owner q" "sq_key q' = sq_key q" and later: "db2 = run (sj_exec env) ops db1"
  shows "\<exists>row \<in> set (sj_jobs db2). sj_id row = pu_id v \<and>
    sj_enqueue env event' clock' uuid' q' db2 =
      (if sj_digest env (sq_kind q') (sq_payload q') = sj_digest env (sq_kind q) (sq_payload q)
       then Inr (sj_view row, db2) else Inl SjConflict :: 'e sj_error + sj_public \<times> 'x sj_db)"
proof -
  have e: "sj_exec env (SjEnqueue event clock uuid q) db = Inr (SjJob v, db1)" using first by (simp add: sj_wrap_def)
  have inv1: "sj_inv db1" by (rule sj_exec_inv[OF inv e])
  have key: "\<not> (length (sq_key q) > 128 \<or> is_blank (sq_key q))"
    using first by (auto simp: sj_enqueue_def outcome_simps)
  have "\<exists>r \<in> set (sj_jobs db1). sj_id r = pu_id v \<and> sj_owner r = sq_owner q \<and> sj_request_key r = sq_key q \<and>
      sj_input_hash r = sj_digest env (sq_kind q) (sq_payload q)"
    using sj_enqueue_Inr[OF first]
    by (fastforce simp: sj_keyed_def sj_view_def sj_new_row_def dest: find_Some_mem)
  then obtain r where r: "r \<in> set (sj_jobs db1)" "sj_id r = pu_id v" "sj_owner r = sq_owner q" "sj_request_key r = sq_key q"
    "sj_input_hash r = sj_digest env (sq_kind q) (sq_payload q)" by blast
  have "tbl_get sj_id (pu_id v) (sj_jobs db1) = Some r"
    using inv1 r(1,2) unfolding sj_inv_def by (blast intro: tbl_get_eqI)
  then have "sj_contract_of db1 (pu_id v) = Some (sj_contract r)" by (simp add: sj_contract_of_def)
  then have "sj_contract_of db2 (pu_id v) = Some (sj_contract r)" unfolding later by (rule sj_fixed.final_run[OF inv1]) simp
  then obtain row where row: "tbl_get sj_id (pu_id v) (sj_jobs db2) = Some row" "sj_contract row = sj_contract r"
    by (auto simp: sj_contract_of_def)
  have inv2: "sj_inv db2" unfolding later by (rule sj.inv_run[OF inv1])
  have cols: "sj_owner row = sq_owner q'" "sj_request_key row = sq_key q'" "sj_input_hash row = sj_digest env (sq_kind q) (sq_payload q)"
    using row(2) r same by (simp_all add: sj_contract_def)
  have mem: "row \<in> set (sj_jobs db2)" "sj_id row = pu_id v" using tbl_get_mem[OF row(1)] by auto
  have d: "distinct (map (\<lambda>r. (sj_owner r, sj_request_key r)) (sj_jobs db2))" using inv2 unfolding sj_inv_def by blast
  have "tbl_get (\<lambda>r. (sj_owner r, sj_request_key r)) (sq_owner q', sq_key q') (sj_jobs db2) = Some row"
    by (rule tbl_get_eqI[OF d mem(1)]) (simp add: cols)
  then have "sj_keyed (sq_owner q') (sq_key q') db2 = Some row" by (simp add: sj_keyed_def)
  moreover have "\<not> (length (sq_key q') > 128 \<or> is_blank (sq_key q'))" using key same by simp
  ultimately show ?thesis using mem cols(3) by (intro bexI[of _ row]) (auto simp: sj_enqueue_def ebind_def)
qed

text \<open>How many jobs of an owner a day has.\<close>

definition jobs_on :: "time \<Rightarrow> string \<Rightarrow> 'x sj_db \<Rightarrow> nat" where
  "jobs_on day owner db = tbl_count (\<lambda>r. sj_owner r = owner \<and> day \<le> sj_created_at r \<and> sj_created_at r < day + 86400000000) (sj_jobs db)"

fun clock_runs :: "('x, 'e) sj_op \<Rightarrow> bool" where
  "clock_runs (SjEnqueue event clock uuid q) \<longleftrightarrow> clock 1 \<le> clock 2"
| "clock_runs _ \<longleftrightarrow> True"

lemma jobs_on_rewrites: "sj_rewrites T db db' \<Longrightarrow> jobs_on day owner db' = jobs_on day owner db"
proof -
  assume "sj_rewrites T db db'"
  then obtain f where f: "sj_jobs db' = map f (sj_jobs db)" "\<forall>r \<in> set (sj_jobs db). sj_moves T r (f r)"
    unfolding sj_rewrites_def by blast
  have "length (filter P (map f rows)) = length (filter P rows)" if "\<forall>r \<in> set rows. P (f r) = P r" for P and rows :: "sj_row list"
    using that by (induction rows) auto
  then show ?thesis unfolding jobs_on_def tbl_count_def f(1) using f(2) by (auto simp: sj_moves_def sj_contract_def)
qed

lemma sj_exec_cases:
  assumes inv: "sj_inv db" and e: "sj_exec env op db = Inr (out, db')"
  shows "(\<exists>T. sj_rewrites T db db') \<or>
    (\<exists>event clock uuid q v. op = SjEnqueue event clock uuid q \<and> sj_enqueue env event clock uuid q db = Inr (v, db') \<and> sj_adds db db')"
proof (cases op)
  case (SjEnqueue event clock uuid q)
  then show ?thesis using e sj_exec_change[OF inv e] by (auto simp: outcome_simps)
next
  case (SjClaim clock msg token)
  then show ?thesis using e sj_claim_rewrites[OF inv, of clock msg token] by (cases "sj_claim clock msg token db") auto
qed (use e in \<open>auto simp: outcome_simps dest: sj_cancel_rewrites sj_retry_rewrites[OF inv] sj_active_rewrites
       sj_save_rewrites[OF inv] intro: sj_finish_rewrites\<close>)

lemma tbl_count_mono: "(\<And>r. r \<in> set rows \<Longrightarrow> P r \<Longrightarrow> Q r) \<Longrightarrow> tbl_count P rows \<le> tbl_count Q rows"
proof (induction rows)
  case (Cons r rows)
  have "tbl_count P rows \<le> tbl_count Q rows" using Cons by simp
  then show ?case using Cons.prems[of r] by (auto simp: tbl_count_def)
qed (simp add: tbl_count_def)

lemma block_start_le:
  fixes c day size :: int
  assumes "0 < size" and "day mod size = 0" and "c < day + size"
  shows "c - c mod size \<le> day"
proof -
  obtain p where p: "day = size * p" using assms(2) by auto
  define q where "q = c div size"
  define r where "r = c mod size"
  have q: "c mod size = r" "c = size * q + r" "0 \<le> r" using assms(1) by (simp_all add: q_def r_def)
  then have "size * q < size * (p + 1)" using assms(3) p q(2,3) by (simp add: distrib_left)
  then have "q \<le> p" using assms(1) by simp
  then have "size * q \<le> size * p" using assms(1) by simp
  then show ?thesis using p q(2) unfolding q(1) by linarith
qed

lemma jobs_on_exec:
  assumes inv: "sj_inv db" and e: "sj_exec env op db = Inr (out, db')" and runs: "clock_runs op"
    and day: "day mod 86400000000 = 0" and le: "jobs_on day owner db \<le> 20"
  shows "jobs_on day owner db' \<le> 20"
  using sj_exec_cases[OF inv e]
proof (elim disjE exE conjE)
  fix T assume "sj_rewrites T db db'"
  then show ?thesis using jobs_on_rewrites[of T db db' day owner] le by simp
next
  fix event clock uuid q v
  assume op: "op = SjEnqueue event clock uuid q" and q: "sj_enqueue env event clock uuid q db = Inr (v, db')" and "sj_adds db db'"
  let ?row = "sj_new_row env (clock 2) (clock 3) uuid q"
  have jobs: "sj_jobs db' = sj_jobs db @ [?row]" and quota: "created_today (clock 1) (sq_owner q) (\<lambda>_. True) db < 20"
    using sj_enqueue_Inr[OF q] \<open>sj_adds db db'\<close> by (auto simp: sj_adds_def)
  show ?thesis
  proof (cases "owner = sq_owner q \<and> day \<le> clock 2 \<and> clock 2 < day + 86400000000")
    case True
    have "day_start (clock 1) \<le> day" 
    proof -
      have "clock 1 < day + 86400000000" using runs True by (simp add: op)
      then show ?thesis unfolding day_start_def by (rule block_start_le[rotated 2]) (simp_all add: day)
    qed
    then have "jobs_on day owner db \<le> created_today (clock 1) (sq_owner q) (\<lambda>_. True) db"
      unfolding jobs_on_def created_today_def using True by (intro tbl_count_mono) auto
    then show ?thesis using quota by (simp add: jobs_on_def tbl_count_def jobs)
  qed (use le in \<open>auto simp: jobs_on_def tbl_count_def jobs sj_new_row_def\<close>)
qed

text \<open>
  C33: No owner gets more than twenty jobs a day, in any sequence of transactions in which the clock does not run backwards
  while a job is being enqueued.
\<close>

theorem at_most_twenty_jobs_a_day:
  assumes "day mod 86400000000 = 0" and "list_all clock_runs ops"
  shows "jobs_on day owner (run (sj_exec env) ops (sj_empty x)) \<le> 20"
proof -
  have "jobs_on day owner (run (sj_exec env) ops db) \<le> 20" if "sj_inv db" "jobs_on day owner db \<le> 20" for db :: "'a sj_db"
    using assms(2) that
  proof (induction ops arbitrary: db)
    case (Cons op ops)
    show ?case
    proof (cases "sj_exec env op db")
      case (Inr p)
      then obtain out db' where e: "sj_exec env op db = Inr (out, db')" by (cases p) auto
      then show ?thesis using Cons sj_exec_inv[OF Cons.prems(2) e] jobs_on_exec[OF Cons.prems(2) e _ assms(1)] by simp
    qed (use Cons in simp)
  qed simp
  from this[OF sj_inv_empty] show ?thesis by (simp add: jobs_on_def sj_empty_def tbl_count_def)
qed

end
