(* ===== verification/SkillJobWorker.thy ===== *)
theory SkillJobWorker
  imports SkillJobs
begin

text \<open>
  The worker of background jobs, \<open>agentbridge/core/skill_job_executor.py\<close>: one round claims a job, runs its handler and
  records the end; the loop of \<open>skill_workbench.py\<close> repeats it until nothing is left to claim. A handler is an arbitrary
  program that may report progress and save a draft. Before each access of the worker to the queue, other callers may run any
  transactions.
\<close>

section \<open>Handlers\<close>

text \<open>\<open>JxSafe\<close>: a \<open>ValueError\<close>, \<open>UserGrantConflict\<close> or \<open>PermissionError\<close> with its text; other exceptions are not shown.\<close>

datatype job_exn = JxSafe string | JxOther

datatype 'x job_program =
    JpReturn "(string \<times> json) list"
  | JpRaise job_exn
  | JpActive "json list option" "job_exn option \<Rightarrow> 'x job_program"
  | JpSave "('x, job_exn) job_save" "job_exn + json \<Rightarrow> 'x job_program"

text \<open>The fixed texts that users see; they hold characters outside of the model.\<close>

record wk_texts =
  wt_conflict :: string
  wt_closed :: string
  wt_value :: string
  wt_unavailable :: string
  wt_interrupted :: string

text \<open>What one round draws: the clock, the token, and what others do before each access.\<close>

record 'x wk_round =
  wr_claim_clock :: "nat \<Rightarrow> time"
  wr_token :: string
  wr_clock :: "nat \<Rightarrow> time \<times> time"
  wr_others :: "nat \<Rightarrow> ('x, job_exn) sj_op list"

record 'x wk_handlers =
  wh_generation :: "sj_row \<Rightarrow> 'x job_program"
  wh_evaluation :: "sj_row \<Rightarrow> 'x job_program"

definition queue_exn :: "wk_texts \<Rightarrow> job_exn sj_error \<Rightarrow> job_exn" where
  "queue_exn tx e = (case e of SjConflict \<Rightarrow> JxSafe (wt_conflict tx) | SjPermission \<Rightarrow> JxSafe (wt_closed tx)
     | SjValueError \<Rightarrow> JxSafe (wt_value tx) | SjCallback x \<Rightarrow> x | _ \<Rightarrow> JxOther)"

definition wk_meanwhile :: "py_env \<Rightarrow> 'x wk_round \<Rightarrow> nat \<Rightarrow> 'x sj_db \<Rightarrow> 'x sj_db" where
  "wk_meanwhile env rd n db = run (sj_exec env) (wr_others rd n) db"

text \<open>\<open>active\<close> reads the row, others come in between, and then it writes.\<close>

definition wk_active ::
  "py_env \<Rightarrow> wk_texts \<Rightarrow> 'x wk_round \<Rightarrow> sj_row \<Rightarrow> nat \<Rightarrow> json list option \<Rightarrow> 'x sj_db \<Rightarrow> (job_exn + unit) \<times> 'x sj_db" where
  "wk_active env tx rd job n progress db =
     (let db1 = wk_meanwhile env rd n db; (now, now2) = wr_clock rd n in
      case sj_active db now now2 (sj_id job) (sj_token job) progress db1 of
        Inl e \<Rightarrow> (Inl (queue_exn tx e), db1)
      | Inr db2 \<Rightarrow> (Inr (), db2))"

definition wk_save ::
  "py_env \<Rightarrow> wk_texts \<Rightarrow> 'x wk_round \<Rightarrow> sj_row \<Rightarrow> nat \<Rightarrow> ('x, job_exn) job_save \<Rightarrow> 'x sj_db \<Rightarrow> (job_exn + json) \<times> 'x sj_db" where
  "wk_save env tx rd job n save db =
     (let db1 = wk_meanwhile env rd n db in
      case sj_save (fst (wr_clock rd n)) (sj_owner job) (sj_id job) (sj_token job) save db1 of
        Inl e \<Rightarrow> (Inl (queue_exn tx e), db1)
      | Inr (v, db2) \<Rightarrow> (Inr v, db2))"

primrec run_job ::
  "py_env \<Rightarrow> wk_texts \<Rightarrow> 'x wk_round \<Rightarrow> sj_row \<Rightarrow> 'x job_program \<Rightarrow> nat \<Rightarrow> 'x sj_db \<Rightarrow> (job_exn + (string \<times> json) list) \<times> nat \<times> 'x sj_db" where
  "run_job env tx rd job (JpReturn v) n db = (Inr v, n, db)"
| "run_job env tx rd job (JpRaise e) n db = (Inl e, n, db)"
| "run_job env tx rd job (JpActive progress k) n db =
     (let (out, db') = wk_active env tx rd job n progress db
      in run_job env tx rd job (k (case out of Inl e \<Rightarrow> Some e | Inr _ \<Rightarrow> None)) (Suc n) db')"
| "run_job env tx rd job (JpSave save k) n db =
     (let (out, db') = wk_save env tx rd job n save db in run_job env tx rd job (k out) (Suc n) db')"

section \<open>One round\<close>

text \<open>
  The \<open>try\<close> block up to the end of the job: an exception, \<open>Some\<close> result to record, or \<open>None\<close> when the handler has saved a
  draft, which has ended the job already.
\<close>

definition wk_body ::
  "py_env \<Rightarrow> wk_texts \<Rightarrow> 'x wk_handlers \<Rightarrow> 'x wk_round \<Rightarrow> sj_row \<Rightarrow> 'x sj_db
   \<Rightarrow> (job_exn + (string \<times> json) list option) \<times> nat \<times> 'x sj_db" where
  "wk_body env tx wh rd job db =
     (case wk_active env tx rd job 0 None db of
        (Inl e, db1) \<Rightarrow> (Inl e, 1, db1)
      | (Inr _, db1) \<Rightarrow>
          (case run_job env tx rd job (if sj_kind job = ''generation'' then wh_generation wh job else wh_evaluation wh job) 1 db1 of
             (Inl e, n, db2) \<Rightarrow> (Inl e, n, db2)
           | (Inr result, n, db2) \<Rightarrow>
               if sj_kind job \<noteq> ''generation'' \<or> \<not> truthy (dget result ''saved'')
               then (case wk_active env tx rd job n None db2 of
                   (Inl e, db3) \<Rightarrow> (Inl e, Suc n, db3)
                 | (Inr _, db3) \<Rightarrow> (Inr (Some result), Suc n, db3))
               else (Inr None, n, db2)))"

definition safe_text :: "wk_texts \<Rightarrow> job_exn \<Rightarrow> string" where
  "safe_text tx e = take 500 (case e of JxSafe msg \<Rightarrow> msg | JxOther \<Rightarrow> wt_unavailable tx)"

definition wk_finish ::
  "py_env \<Rightarrow> 'x wk_round \<Rightarrow> sj_row \<Rightarrow> nat \<Rightarrow> json option \<Rightarrow> string option \<Rightarrow> 'x sj_db \<Rightarrow> 'x sj_db" where
  "wk_finish env rd job n result error db =
     sj_finish (fst (wr_clock rd n)) (sj_id job) (sj_token job) result error (wk_meanwhile env rd n db)"

definition run_once ::
  "py_env \<Rightarrow> wk_texts \<Rightarrow> 'x wk_handlers \<Rightarrow> 'x wk_round \<Rightarrow> 'x sj_db \<Rightarrow> bool \<times> 'x sj_db" where
  "run_once env tx wh rd db =
     (case sj_claim (wr_claim_clock rd) (wt_interrupted tx) (wr_token rd) db of
        (None, db1) \<Rightarrow> (False, db1)
      | (Some job, db1) \<Rightarrow>
          (case wk_body env tx wh rd job db1 of
             (Inl e, n, db2) \<Rightarrow> (True, wk_finish env rd job n None (Some (safe_text tx e)) db2)
           | (Inr (Some result), n, db2) \<Rightarrow> (True, wk_finish env rd job n (Some (JDict result)) None db2)
           | (Inr None, n, db2) \<Rightarrow> (True, db2)))"

text \<open>The busy part of the loop: rounds until there is nothing to claim. It might not end.\<close>

partial_function (option) work_off ::
  "py_env \<Rightarrow> wk_texts \<Rightarrow> 'x wk_handlers \<Rightarrow> (nat \<Rightarrow> 'x wk_round) \<Rightarrow> nat \<Rightarrow> 'x sj_db \<Rightarrow> (nat \<times> 'x sj_db) option" where
  "work_off env tx wh rounds n db =
     (let (again, db') = run_once env tx wh (rounds n) db
      in if again then work_off env tx wh rounds (Suc n) db' else Some (n, db'))"

section \<open>Lemmas\<close>

text \<open>A relation between tables that every access of the worker keeps, whoever else writes in between.\<close>

locale worker_step =
  fixes Q :: "'x sj_db \<Rightarrow> bool" and env :: py_env and rd :: "'x wk_round"
  assumes others: "Q db \<Longrightarrow> Q (wk_meanwhile env rd n db)"
    and report: "Q db \<Longrightarrow> sj_active seen now now2 i token progress db = (Inr db' :: job_exn sj_error + 'x sj_db) \<Longrightarrow> Q db'"
    and save: "Q db \<Longrightarrow> sj_save now owner i token f db = (Inr (v, db') :: job_exn sj_error + json \<times> 'x sj_db) \<Longrightarrow> Q db'"
    and finish: "Q db \<Longrightarrow> Q (sj_finish now i token result error db)"
begin

lemma keeps_active: "Q db \<Longrightarrow> wk_active env tx rd job n progress db = (out, db') \<Longrightarrow> Q db'"
  by (auto simp: wk_active_def Let_def split: prod.splits sum.splits intro: others report)

lemma keeps_save: "Q db \<Longrightarrow> wk_save env tx rd job n f db = (out, db') \<Longrightarrow> Q db'"
  by (auto simp: wk_save_def Let_def split: prod.splits sum.splits intro: others save)

lemma keeps_job: "Q db \<Longrightarrow> run_job env tx rd job p n db = (out, n', db') \<Longrightarrow> Q db'"
proof (induction p arbitrary: n db)
  case (JpActive progress k)
  obtain r db1 where a: "wk_active env tx rd job n progress db = (r, db1)" by (cases "wk_active env tx rd job n progress db")
  then have "Q db1" by (rule keeps_active[OF JpActive.prems(1)])
  then show ?case using JpActive.IH[OF rangeI] JpActive.prems(2) a by simp
next
  case (JpSave f k)
  obtain r db1 where a: "wk_save env tx rd job n f db = (r, db1)" by (cases "wk_save env tx rd job n f db")
  then have "Q db1" by (rule keeps_save[OF JpSave.prems(1)])
  then show ?case using JpSave.IH[OF rangeI] JpSave.prems(2) a by simp
qed auto

lemma keeps_body:
  assumes "Q db" and "wk_body env tx wh rd job db = (out, n, db')"
  shows "Q db'"
proof -
  obtain r1 db1 where a1: "wk_active env tx rd job 0 None db = (r1, db1)" by (cases "wk_active env tx rd job 0 None db")
  let ?p = "if sj_kind job = ''generation'' then wh_generation wh job else wh_evaluation wh job"
  obtain r2 m db2 where a2: "run_job env tx rd job ?p 1 db1 = (r2, m, db2)" by (cases "run_job env tx rd job ?p 1 db1") auto
  obtain r3 db3 where a3: "wk_active env tx rd job m None db2 = (r3, db3)" by (cases "wk_active env tx rd job m None db2")
  have "Q db1" by (rule keeps_active[OF assms(1) a1])
  moreover from this have "Q db2" using a2 by (rule keeps_job)
  moreover from this have "Q db3" using a3 by (rule keeps_active)
  moreover have "db' \<in> {db1, db2, db3}"
    using assms(2) unfolding wk_body_def a1 by (auto simp: a2 a3 simp del: One_nat_def split: sum.splits if_splits)
  ultimately show ?thesis by auto
qed

lemma keeps_finish: "Q db \<Longrightarrow> Q (wk_finish env rd job n result error db)"
  unfolding wk_finish_def by (intro finish others)

end

interpretation wk: worker_step sj_inv env rd
proof (unfold_locales, goal_cases)
  case (1 db n)
  then show ?case unfolding wk_meanwhile_def by (rule sj.inv_run)
qed (blast intro: sj_rewrites_inv sj_active_rewrites sj_save_rewrites sj_finish_rewrites)+

lemma finish_releases:
  assumes inv: "sj_inv db" and r: "tbl_get sj_id i (sj_jobs (sj_finish now i (Some t) result error db)) = Some r"
  shows "sj_token r \<noteq> Some t"
proof -
  obtain r0 where r0: "tbl_get sj_id i (sj_jobs db) = Some r0"
    and r1: "r = (if sj_id r0 = i \<and> sj_token r0 = Some t \<and> sj_state r0 = SjRunning
       then r0\<lparr>sj_state := (if filled error then SjFailed else SjSucceeded), sj_result := map_option canon result,
              sj_error := error, sj_token := None, sj_updated_at := now\<rparr> else r0)"
    using r by (auto simp: sj_finish_def tbl_get_update)
  have "sj_row_ok r0" using sj_inv_get[OF inv r0] by blast
  then show ?thesis using r1 tbl_get_mem[OF r0] by (auto simp: sj_row_ok_def split: if_splits)
qed

section \<open>Properties\<close>

text \<open>
  A round leaves no claim behind. When a round of the worker has claimed job \<open>k\<close> with token \<open>t\<close> and is over, then the job
  does not hold that token any more, whatever the handler did and whatever others did meanwhile, unless the
  handler claims to have saved a draft, which ends the job on its own.
\<close>

theorem worker_leaves_no_claim:
  assumes inv: "sj_inv db" and round: "run_once env tx wh rd db = (True, db')"
    and claim: "sj_claim (wr_claim_clock rd) (wt_interrupted tx) (wr_token rd) db = (Some job, db1)"
    and body: "wk_body env tx wh rd job db1 = (out, n, db2)" "out \<noteq> Inr None"
  shows "\<forall>r. tbl_get sj_id (sj_id job) (sj_jobs db') = Some r \<longrightarrow> sj_token r \<noteq> Some (wr_token rd)"
proof -
  note c = claim_raises_meter[OF inv claim]
  have inv1: "sj_inv db1" by (rule sj_rewrites_inv[OF inv sj_claim_rewrites[OF inv claim, of "{wr_token rd}"]]) simp
  have inv2: "sj_inv (wk_meanwhile env rd n db2)" by (rule wk.others[OF wk.keeps_body[OF inv1 body(1)]])
  obtain now result error where "db' = sj_finish now (sj_id job) (Some (wr_token rd)) result error (wk_meanwhile env rd n db2)"
    using round claim body c by (cases out) (auto simp: run_once_def wk_finish_def split: option.splits)
  then show ?thesis using finish_releases[OF inv2] by blast
qed

text \<open>The attempts that are left to all jobs.\<close>

definition attempts_left :: "'x sj_db \<Rightarrow> nat" where
  "attempts_left db = sum_list (map (\<lambda>r. 3 - nat (sj_attempts r)) (sj_jobs db))"

fun enqueues :: "('x, 'e) sj_op \<Rightarrow> bool" where
  "enqueues (SjEnqueue event clock uuid q) \<longleftrightarrow> True"
| "enqueues _ \<longleftrightarrow> False"

lemma attempts_left_mono: "sj_rewrites T db db' \<Longrightarrow> attempts_left db' \<le> attempts_left db"
proof -
  assume "sj_rewrites T db db'"
  then obtain f where f: "sj_jobs db' = map f (sj_jobs db)" "\<forall>r \<in> set (sj_jobs db). sj_moves T r (f r)"
    unfolding sj_rewrites_def by blast
  have "3 - nat (sj_attempts (f r)) \<le> 3 - nat (sj_attempts r)" if "r \<in> set (sj_jobs db)" for r
    using f(2) that by (intro diff_le_mono2 nat_mono) (auto dest: sj_moves_contract)
  then show ?thesis unfolding attempts_left_def f(1) map_map comp_def by (rule sum_list_mono)
qed

lemma attempts_left_claim:
  assumes inv: "sj_inv db" and claim: "sj_claim clock msg token db = (Some job, db')"
  shows "attempts_left db' < attempts_left db"
  using inv claim
proof (cases rule: sj_claim_cases)
  case (Some row)
  let ?db1 = "sj_give_up (clock 0) msg db"
  let ?f = "\<lambda>r. r\<lparr>sj_state := SjRunning, sj_attempts := sj_attempts r + 1, sj_token := Some token,
     sj_lease := Some (clock 2 + 300000000), sj_updated_at := clock 3\<rparr>"
  have inv1: "sj_inv ?db1" by (rule sj_rewrites_inv[OF inv sj_give_up_rewrites])
  have ok: "sj_row_ok row" using inv1 Some(1) by (simp add: sj_inv_def list_all_iff)
  then have less: "3 - nat (sj_attempts (?f row)) < 3 - nat (sj_attempts row)"
    using Some(2) by (auto simp: sj_row_ok_def claimable_def)
  have "sum_list (map (\<lambda>r. 3 - nat (sj_attempts r)) (tbl_update (\<lambda>r. sj_id r = sj_id row) ?f rows))
      < sum_list (map (\<lambda>r. 3 - nat (sj_attempts r)) rows)" if "row \<in> set rows" "distinct (map sj_id rows)" for rows
    using that
  proof (induction rows)
    case (Cons r rows)
    show ?case
    proof (cases "r = row")
      case True
      then have "\<forall>s \<in> set rows. sj_id s \<noteq> sj_id row" using Cons.prems(2) by (auto, metis image_eqI)
      then have "tbl_update (\<lambda>r. sj_id r = sj_id row) ?f rows = rows" unfolding tbl_update_def by (intro map_idI) auto
      then show ?thesis using less True by (simp add: tbl_update_def)
    next
      case False
      then have "row \<in> set rows" "sj_id r \<noteq> sj_id row" using Cons.prems by auto
      then show ?thesis using Cons by (simp add: tbl_update_def)
    qed
  qed simp
  then have "attempts_left db' < attempts_left ?db1" using Some(1,4) inv1 by (simp add: attempts_left_def sj_inv_def)
  moreover have "attempts_left ?db1 \<le> attempts_left db" by (rule attempts_left_mono[OF sj_give_up_rewrites])
  ultimately show ?thesis by linarith
qed simp

lemma attempts_left_run:
  assumes "sj_inv db" and "\<forall>op \<in> set ops. \<not> enqueues op"
  shows "sj_inv (run (sj_exec env) ops db) \<and> attempts_left (run (sj_exec env) ops db) \<le> attempts_left db"
  using assms
proof (induction ops arbitrary: db)
  case (Cons op ops)
  show ?case
  proof (cases "sj_exec env op db")
    case (Inr p)
    then obtain out db' where e: "sj_exec env op db = Inr (out, db')" by (cases p) auto
    have "\<exists>T. sj_rewrites T db db'" using sj_exec_cases[OF Cons.prems(1) e] Cons.prems(2) by auto
    then have "attempts_left db' \<le> attempts_left db" using attempts_left_mono by blast
    then show ?thesis using Cons.IH[OF sj_exec_inv[OF Cons.prems(1) e]] Cons.prems(2) e by (auto intro: order_trans)
  next
    case (Inl x)
    then show ?thesis using Cons.IH[OF Cons.prems(1)] Cons.prems(2) by simp
  qed
qed simp

lemma worker_bounded:
  assumes quiet: "\<forall>k. \<forall>op \<in> set (wr_others rd k). \<not> enqueues op"
  shows "worker_step (\<lambda>db. sj_inv db \<and> attempts_left db \<le> m) env rd"
proof (unfold_locales, goal_cases)
  case (1 db n)
  then show ?case using attempts_left_run[of db "wr_others rd n" env] quiet unfolding wk_meanwhile_def by (auto intro: order_trans)
next
  case (2 db seen now now2 i token progress db')
  have r: "sj_rewrites {} db db'" by (rule sj_active_rewrites[OF 2(2)])
  then show ?case using 2(1) sj_rewrites_inv[OF _ r] attempts_left_mono[OF r] by auto
next
  case (3 db now owner i token f v db')
  have r: "sj_rewrites {} db db'" using 3 by (auto intro: sj_save_rewrites)
  then show ?case using 3(1) sj_rewrites_inv[OF _ r] attempts_left_mono[OF r] by auto
next
  case (4 db now i token result error)
  have r: "sj_rewrites {} db (sj_finish now i token result error db)" by (rule sj_finish_rewrites)
  then show ?case using 4 sj_rewrites_inv[OF _ r] attempts_left_mono[OF r] by auto
qed

lemma run_once_uses_attempt:
  assumes inv: "sj_inv db" and quiet: "\<forall>k. \<forall>op \<in> set (wr_others rd k). \<not> enqueues op"
    and round: "run_once env tx wh rd db = (True, db')"
  shows "sj_inv db' \<and> attempts_left db' < attempts_left db"
proof -
  obtain job db1 where claim: "sj_claim (wr_claim_clock rd) (wt_interrupted tx) (wr_token rd) db = (Some job, db1)"
    using round by (auto simp: run_once_def split: prod.splits option.splits)
  obtain out n db2 where body: "wk_body env tx wh rd job db1 = (out, n, db2)" by (cases "wk_body env tx wh rd job db1")
  have q1: "sj_inv db1 \<and> attempts_left db1 \<le> attempts_left db1"
    using sj_rewrites_inv[OF inv sj_claim_rewrites[OF inv claim, of "{wr_token rd}"]] by simp
  note step = worker_bounded[OF quiet, of "attempts_left db1" env]
  note q2 = worker_step.keeps_body[OF step q1 body]
  have "sj_inv db' \<and> attempts_left db' \<le> attempts_left db1"
    using round claim body q2 worker_step.keeps_finish[OF step q2]
    by (auto simp: run_once_def split: sum.splits option.splits)
  then show ?thesis using attempts_left_claim[OF inv claim] by linarith
qed

lemma run_once_idle:
  assumes "sj_inv db" and "run_once env tx wh rd db = (False, db')"
  shows "sj_inv db' \<and> (\<forall>r \<in> set (sj_jobs db'). sj_state r \<noteq> SjQueued)"
proof -
  obtain job db1 where c: "sj_claim (wr_claim_clock rd) (wt_interrupted tx) (wr_token rd) db = (job, db1)"
    by (cases "sj_claim (wr_claim_clock rd) (wt_interrupted tx) (wr_token rd) db")
  have j: "job = None" "db' = db1" using assms(2) c by (auto simp: run_once_def split: prod.splits option.splits sum.splits)
  from assms(1) c have "\<forall>r \<in> set (sj_jobs db1). \<not> claimable (wr_claim_clock rd 1) r"
    by (cases rule: sj_claim_cases) (use j in auto)
  moreover have "sj_inv db1" by (rule sj_rewrites_inv[OF assms(1) sj_claim_rewrites[OF assms(1) c, of "{wr_token rd}"]]) simp
  ultimately show ?thesis unfolding j(2) claimable_def by blast
qed

text \<open>
  C34: The busy worker comes to rest. As long as nobody enqueues new jobs, the loop over rounds ends, whatever the handlers do and
  however else others work on the queue, after at most as many rounds as there are attempts left; no job waits then.
\<close>

theorem work_off_ends:
  assumes "sj_inv db" and quiet: "\<forall>m k. \<forall>op \<in> set (wr_others (rounds m) k). \<not> enqueues op"
  shows "\<exists>m db'. work_off env tx wh rounds n db = Some (m, db') \<and> m \<le> n + attempts_left db \<and>
    sj_inv db' \<and> (\<forall>r \<in> set (sj_jobs db'). sj_state r \<noteq> SjQueued)"
  using assms(1)
proof (induction "attempts_left db" arbitrary: n db rule: less_induct)
  case less
  obtain again db1 where r: "run_once env tx wh (rounds n) db = (again, db1)" by (cases "run_once env tx wh (rounds n) db")
  show ?case
  proof (cases again)
    case True
    have q: "\<forall>k. \<forall>op \<in> set (wr_others (rounds n) k). \<not> enqueues op" using quiet by blast
    have s: "sj_inv db1 \<and> attempts_left db1 < attempts_left db"
      by (rule run_once_uses_attempt[OF less.prems q]) (use r True in simp)
    obtain m db' where "work_off env tx wh rounds (Suc n) db1 = Some (m, db')" "m \<le> Suc n + attempts_left db1"
      "sj_inv db'" "\<forall>r \<in> set (sj_jobs db'). sj_state r \<noteq> SjQueued" using less.hyps[of db1 "Suc n"] s by blast
    then show ?thesis using r True s by (subst work_off.simps) auto
  next
    case False
    then show ?thesis using r run_once_idle[OF less.prems, of env tx wh "rounds n" db1] by (subst work_off.simps) auto
  qed
qed

text \<open>
  A cancellation can overrule a job that has ended. When \<open>cancel\<close> has read a job while it was running, and the
  worker then saves its draft, which ends the job in the same transaction, and then the update of \<open>cancel\<close> is written, the
  job is shown as canceled although its draft is stored and its result is kept.
\<close>

theorem cancel_overrules_saved_draft:
  assumes inv: "sj_inv db" and held: "sj_held i (Some t) db = Some r"
    and save: "sj_save now (sj_owner r) i (Some t) f db = (Inr (JDict result, db1) :: 'e sj_error + json \<times> 'x sj_db)"
    and stored: "jv_draft f (sj_other db) = Inr (result, Some y)"
    and event: "event (sj_owner r) ''job.canceled'' i [] (sj_other db1) = (Inr x :: 'e + 'x)"
  shows "\<exists>v db2. sj_cancel event db now2 (sj_owner r) i db1 = (Inr (v, db2) :: 'e sj_error + sj_public \<times> 'x sj_db) \<and>
    sj_status db1 i = Some SjSucceeded \<and> sj_status db2 i = Some SjCanceled \<and> pu_result v = Some (canon (saved_result (jv_metadata f) result)) \<and> sj_other db2 = x"
proof -
  note h = sj_held_Some[OF held]
  let ?ended = "\<lambda>r. r\<lparr>sj_state := SjSucceeded, sj_result := Some (canon (saved_result (jv_metadata f) result)), sj_token := None, sj_updated_at := now\<rparr>"
  from sj_save_Inr[OF save] stored have db1: "db1 = sj_set (\<lambda>r. sj_id r = i) ?ended (db\<lparr>sj_other := y\<rparr>)" by auto
  have d: "distinct (map sj_id (sj_jobs db))" using inv unfolding sj_inv_def by blast
  have get: "tbl_get sj_id i (sj_jobs db) = Some r" using h by (intro tbl_get_eqI[OF d]) auto
  have get1: "tbl_get sj_id i (sj_jobs db1) = Some (?ended r)" using h by (simp add: db1 tbl_get_update get)
  have find: "List.find (\<lambda>s. sj_id s = i \<and> sj_owner s = sj_owner r) rows = Some s"
    if "tbl_get sj_id i rows = Some s" "sj_owner s = sj_owner r" "distinct (map sj_id rows)" for rows s
    using that by (induction rows) (auto dest: tbl_get_mem split: if_splits)
  have d1: "distinct (map sj_id (sj_jobs db1))" using d by (simp add: db1 keys_tbl_update)
  let ?cut = "\<lambda>r. r\<lparr>sj_state := SjCanceled, sj_token := None, sj_updated_at := now2\<rparr>"
  let ?db2 = "sj_set (\<lambda>r. sj_id r = i) ?cut db1\<lparr>sj_other := x\<rparr>"
  have get2: "tbl_get sj_id i (sj_jobs ?db2) = Some (?cut (?ended r))" using h by (simp add: tbl_get_update get1)
  have d2: "distinct (map sj_id (sj_jobs ?db2))" using d1 by (simp add: keys_tbl_update)
  have own: "(sj_owned (sj_owner r) i db :: 'e sj_error + sj_row) = Inr r" using find[OF get refl d] by (simp add: sj_owned_Inr)
  have own2: "(sj_owned (sj_owner r) i ?db2 :: 'e sj_error + sj_row) = Inr (?cut (?ended r))"
    unfolding sj_owned_Inr by (rule find[OF get2 _ d2]) simp
  have "sj_cancel event db now2 (sj_owner r) i db1 = (Inr (sj_view (?cut (?ended r)), ?db2) :: 'e sj_error + sj_public \<times> 'x sj_db)"
    using h event own2 by (simp add: sj_cancel_def own ebind_def sj_get_def Let_def)
  moreover have "sj_status ?db2 i = Some SjCanceled" using get2 by (simp add: sj_status_def)
  moreover have "pu_result (sj_view (?cut (?ended r))) = Some (canon (saved_result (jv_metadata f) result))" by (simp add: sj_view_def)
  ultimately show ?thesis using get1 by (intro exI[of _ "sj_view (?cut (?ended r))"] exI[of _ ?db2]) (simp add: sj_status_def)
qed

text \<open>A queue with one job, and its worker.\<close>

definition sj_demo_env :: py_env where
  "sj_demo_env = \<lparr>sha_text = id, sha_json = (\<lambda>_. ''d''), ip_literal = (\<lambda>_. False)\<rparr>"

definition sj_demo_event :: "(nat, job_exn) sj_event" where
  "sj_demo_event _ _ _ _ x = Inr (Suc x)"

definition sj_demo_request :: sj_request where
  "sj_demo_request = \<lparr>sq_owner = ''ann'', sq_kind = ''generation'', sq_payload = [(''draft_id'', JNull)], sq_key = ''k1''\<rparr>"

definition sj_demo_enqueue :: "(nat, job_exn) sj_op" where
  "sj_demo_enqueue = SjEnqueue sj_demo_event (\<lambda>_. 0) ''j1'' sj_demo_request"

definition sj_demo_queue :: "nat sj_db" where
  "sj_demo_queue = run (sj_exec sj_demo_env) [sj_demo_enqueue] (sj_empty 0)"

definition sj_demo_claimed :: "nat sj_db" where
  "sj_demo_claimed = run (sj_exec sj_demo_env) [SjClaim (\<lambda>_. 1) [] ''t1'' :: (nat, job_exn) sj_op] sj_demo_queue"

definition wk_demo_texts :: wk_texts where
  "wk_demo_texts = \<lparr>wt_conflict = ''conflict'', wt_closed = ''closed'', wt_value = ''invalid'', wt_unavailable = ''unavailable'', wt_interrupted = ''interrupted''\<rparr>"

definition wk_demo_round :: "nat wk_round" where
  "wk_demo_round = \<lparr>wr_claim_clock = (\<lambda>_. 1), wr_token = ''t1'', wr_clock = (\<lambda>_. (2, 2)), wr_others = (\<lambda>_. [])\<rparr>"

definition wk_failing :: "string \<Rightarrow> nat wk_handlers" where
  "wk_failing msg = \<lparr>wh_generation = (\<lambda>_. JpRaise (JxSafe msg)), wh_evaluation = (\<lambda>_. JpRaise (JxSafe msg))\<rparr>"

text \<open>
  A failure without a text is recorded as a success. When the handler raises a \<open>ValueError\<close>, \<open>UserGrantConflict\<close> or
  \<open>PermissionError\<close> whose text is empty, then the round ends the job in the state succeeded, without a result, because
  \<open>finish\<close> takes an empty text for no error. With any text the job fails.
\<close>

theorem failure_without_text_succeeds:
  "map (\<lambda>msg. let (worked, db) = run_once sj_demo_env wk_demo_texts (wk_failing msg) wk_demo_round sj_demo_queue
      in (worked, sj_status db ''j1'', map_option sj_result (tbl_get sj_id ''j1'' (sj_jobs db)))) [[], ''bad input'']
   = [(True, Some SjSucceeded, Some None), (True, Some SjFailed, Some None)]"
  by code_simp

lemma sj_demo_inv: "sj_inv sj_demo_queue" "sj_inv sj_demo_claimed"
proof -
  show q: "sj_inv sj_demo_queue" unfolding sj_demo_queue_def by (rule sj.inv_run[OF sj_inv_empty])
  show "sj_inv sj_demo_claimed" unfolding sj_demo_claimed_def by (rule sj.inv_run[OF q])
qed

theorem lost_claim_writes_nothing_witness:
  "sj_active sj_demo_queue 9 9 ''j1'' (Some ''t0'') None sj_demo_claimed = (Inl SjConflict :: job_exn sj_error + nat sj_db)"
proof -
  have 1: "\<forall>r. tbl_get sj_id ''j1'' (sj_jobs sj_demo_queue) = Some r \<longrightarrow> sj_token r \<noteq> Some ''t0''"
  proof -
    have "map_option sj_token (tbl_get sj_id ''j1'' (sj_jobs sj_demo_queue)) = Some None" by code_simp
    then show ?thesis by auto
  qed
  have 2: "\<forall>op \<in> set ([] @ [SjClaim (\<lambda>_. 1) [] ''t1'' :: (nat, job_exn) sj_op]). ''t0'' \<notin> draws op" by simp
  have 3: "sj_demo_queue = run (sj_exec sj_demo_env) ([] :: (nat, job_exn) sj_op list) sj_demo_queue" by simp
  show ?thesis by (rule conjunct1[OF conjunct2[OF lost_claim_writes_nothing[OF sj_demo_inv(1) 1 2 3 sj_demo_claimed_def]]])
qed

theorem job_key_stands_witness:
  "\<exists>row. sj_enqueue sj_demo_env sj_demo_event (\<lambda>_. 7) ''j2'' sj_demo_request sj_demo_claimed = Inr (sj_view row, sj_demo_claimed) \<and> sj_id row = ''j1''"
proof -
  let ?first = "sj_enqueue sj_demo_env sj_demo_event (\<lambda>_. 0) ''j1'' sj_demo_request (sj_empty 0)"
  have 1: "isl ?first = False" "pu_id (fst (projr ?first)) = ''j1''" by code_simp+
  obtain v db1 where first: "?first = Inr (v, db1)" using returns[OF 1(1)] by blast
  have v: "pu_id v = ''j1''" using 1(2) by (simp add: first)
  have db1: "sj_demo_queue = db1" by (simp add: sj_demo_queue_def sj_demo_enqueue_def sj_wrap_def first)
  from job_key_stands[OF sj_inv_empty first refl refl sj_demo_claimed_def[unfolded db1], of sj_demo_event "\<lambda>_. 7" "''j2''"] v show ?thesis by auto
qed

theorem at_most_twenty_jobs_a_day_witness:
  "jobs_on 0 ''ann'' (run (sj_exec sj_demo_env) [sj_demo_enqueue] (sj_empty 0)) \<le> 20"
  by (rule at_most_twenty_jobs_a_day) (simp_all add: sj_demo_enqueue_def)

theorem work_off_ends_witness:
  "\<exists>m db'. work_off sj_demo_env wk_demo_texts (wk_failing ''bad'') (\<lambda>_. wk_demo_round) 0 sj_demo_queue = Some (m, db')"
proof -
  have "\<forall>m k. \<forall>op \<in> set (wr_others ((\<lambda>_ :: nat. wk_demo_round) m) k). \<not> enqueues op" by (simp add: wk_demo_round_def)
  from work_off_ends[OF sj_demo_inv(1) this, of sj_demo_env wk_demo_texts "wk_failing ''bad''" 0] show ?thesis by blast
qed

end
