(* ===== verification/Transforms.thy ===== *)
theory Transforms
  imports Planning Urls "HOL-Library.List_Lexorder" "HOL-Library.Char_ord"
begin

text \<open>
  The built-in transforms, \<open>agentbridge/core/transforms.py\<close>: the registry, the three registered transforms with
  their schemas and item counters, and \<open>invoke\<close> with its checks before and after the handler. The fixed texts of a draft
  (quotation marks, separators, words for what was done, markers of automatic items) are Chinese and come as the record
  \<open>draft_texts\<close>; \<open>casefold\<close> and the \<open>repr\<close> of floats, lists and dictionaries are its functions. A
  handler reads arguments that passed its input schema; on arguments of another shape the model answers \<open>TxShape\<close>,
  which the lemmas show to be out of reach of \<open>invoke\<close>.
\<close>

section \<open>Registry\<close>

datatype tx_error = TxRejected string string | TxKeyError | TxValueError | TxShape

type_synonym items = "(string \<times> json) list"
type_synonym tx_handler = "items \<Rightarrow> tx_error + json"

text \<open>The two functions that are registered as \<open>input_item_counter\<close>.\<close>

datatype tx_counter = CountSources | CountBundle

record tx_spec = transform_spec +
  tf_maximum_items :: int
  tf_maximum_chars :: int
  tf_halts_on_empty :: bool
  tf_halts_on_incomplete :: bool
  tf_counter :: "tx_counter option"

record tx_registry =
  tr_specs :: "(string \<times> tx_spec) list"
  tr_handlers :: "(string \<times> tx_handler) list"

definition tx_register :: "tx_spec \<Rightarrow> tx_handler \<Rightarrow> tx_registry \<Rightarrow> tx_error + tx_registry" where
  "tx_register spec handler reg =
     (if (case map_of (tr_specs reg) (tf_name spec) of None \<Rightarrow> False | Some s \<Rightarrow> s \<noteq> spec) then Inl TxValueError
      else Inr \<lparr>tr_specs = AList.update (tf_name spec) spec (tr_specs reg),
                tr_handlers = AList.update (tf_name spec) handler (tr_handlers reg)\<rparr>)"

definition tx_get :: "string \<Rightarrow> tx_registry \<Rightarrow> tx_error + tx_spec" where
  "tx_get name reg = (case map_of (tr_specs reg) name of None \<Rightarrow> Inl TxKeyError | Some s \<Rightarrow> Inr s)"

definition tx_list :: "tx_registry \<Rightarrow> tx_spec list" where
  "tx_list reg = map (\<lambda>name. the (map_of (tr_specs reg) name)) (sort (map fst (tr_specs reg)))"

text \<open>\<open>value or []\<close> for a list.\<close>

definition items_or_none :: "json \<Rightarrow> tx_error + json list" where
  "items_or_none v = (if \<not> truthy v then Inr [] else case v of JList xs \<Rightarrow> Inr xs | _ \<Rightarrow> Inl TxShape)"

fun count_input_items :: "json \<Rightarrow> nat" where
  "count_input_items (JList xs) = length xs + sum_list (map count_input_items xs)"
| "count_input_items (JDict d) = sum_list (map (\<lambda>(k, v). count_input_items v) d)"
| "count_input_items _ = 0"

fun count_merged_source_items :: "json list \<Rightarrow> tx_error + nat" where
  "count_merged_source_items [] = Inr 0"
| "count_merged_source_items (JDict d # rest) =
     ebind (items_or_none (dget d ''items'')) (\<lambda>xs. ebind (count_merged_source_items rest) (\<lambda>n. Inr (length xs + n)))"
| "count_merged_source_items (_ # rest) = count_merged_source_items rest"

definition count_with :: "tx_counter \<Rightarrow> items \<Rightarrow> tx_error + nat" where
  "count_with c arguments = (case c of
     CountSources \<Rightarrow> ebind (items_or_none (dget arguments ''sources'')) count_merged_source_items
   | CountBundle \<Rightarrow>
       (case dget arguments ''bundle'' of
          JDict b \<Rightarrow> ebind (items_or_none (dget b ''items'')) (\<lambda>xs. Inr (length xs))
        | v \<Rightarrow> if truthy v then Inl TxShape else Inr 0))"

fun joined :: "string \<Rightarrow> string list \<Rightarrow> string" where
  "joined sep [] = []"
| "joined sep [x] = x"
| "joined sep (x # y # xs) = x @ sep @ joined sep (y # xs)"

text \<open>The type a value was expected to have, as it is printed: a list of type names by its \<open>repr\<close>.\<close>

fun expected_text :: "schema_type \<Rightarrow> string" where
  "expected_text (TName t) = t"
| "expected_text (TAny ts) = ''['' @ joined '', '' (map (\<lambda>t. [CHR 0x27] @ t @ [CHR 0x27]) ts) @ '']''"

definition validate_schema_value :: "json \<Rightarrow> schema \<Rightarrow> string \<Rightarrow> string \<Rightarrow> tx_error + unit" where
  "validate_schema_value v schema path code =
     (case schema_value_issue TransformProfile path schema v of
        None \<Rightarrow> Inr ()
      | Some i \<Rightarrow>
          let expected = (case si_expected i of None \<Rightarrow> ''None'' | Some t \<Rightarrow> expected_text t) in
          (case si_kind i of
             TypeIssue \<Rightarrow> Inl (TxRejected code (si_path i @ '' must be '' @ expected))
           | EnumIssue \<Rightarrow> Inl (TxRejected code (si_path i @ '' is outside the allowed values''))
           | Missing \<Rightarrow> Inl (TxRejected code (si_path i @ '' is missing required fields: '' @ joined '', '' (si_fields i)))
           | Unexpected \<Rightarrow> Inl (TxRejected code (si_path i @ '' has unexpected fields: '' @ joined '', '' (si_fields i)))
           | _ \<Rightarrow> Inl TxKeyError))"

definition int_text :: "int \<Rightarrow> string" where
  "int_text n = (if n < 0 then ''-'' else []) @ nat_text (nat \<bar>n\<bar>)"

definition draft_too_long :: "tx_spec \<Rightarrow> items \<Rightarrow> bool" where
  "draft_too_long spec result \<longleftrightarrow>
     (case dget result ''draft'' of JStr s \<Rightarrow> int (length s) > tf_maximum_chars spec | _ \<Rightarrow> False)"

definition tx_invoke :: "tx_registry \<Rightarrow> string \<Rightarrow> json \<Rightarrow> tx_error + items" where
  "tx_invoke reg name arguments =
     ebind (tx_get name reg) (\<lambda>spec.
     case arguments of
       JDict args \<Rightarrow>
         ebind (validate_schema_value arguments (tf_input spec) ''input'' ''TRANSFORM_INPUT_INVALID'') (\<lambda>_.
         ebind (case tf_counter spec of Some c \<Rightarrow> count_with c args | None \<Rightarrow> Inr (count_input_items arguments)) (\<lambda>count.
         ebind (raise_if (int count > tf_maximum_items spec)
             (TxRejected ''TRANSFORM_INPUT_TOO_LARGE'' (''transform accepts at most '' @ int_text (tf_maximum_items spec) @ '' items''))) (\<lambda>_.
         case map_of (tr_handlers reg) name of
           None \<Rightarrow> Inl TxKeyError
         | Some handler \<Rightarrow>
             ebind (handler args) (\<lambda>result.
             case result of
               JDict r \<Rightarrow>
                 ebind (validate_schema_value result (tf_output spec) ''output'' ''TRANSFORM_OUTPUT_INVALID'') (\<lambda>_.
                 ebind (raise_if (draft_too_long spec r) (TxRejected ''TRANSFORM_OUTPUT_TOO_LARGE''
                   (''transform output exceeds '' @ int_text (tf_maximum_chars spec) @ '' characters''))) (\<lambda>_. Inr r))
             | _ \<Rightarrow> Inl (TxRejected ''TRANSFORM_OUTPUT_INVALID'' ''transform output must be an object'')))))
     | _ \<Rightarrow> Inl (TxRejected ''TRANSFORM_INPUT_INVALID'' ''transform input must be an object''))"

section \<open>Schemas\<close>

definition object_schema :: "(string \<times> schema) list \<Rightarrow> string list \<Rightarrow> bool \<Rightarrow> schema" where
  "object_schema props required shut = Schema (Some (TName ''object'')) (Some props) required shut None 0 None None None None"

definition array_schema :: "schema \<Rightarrow> schema" where
  "array_schema item = Schema (Some (TName ''array'')) None [] False None 0 None None None (Some item)"

abbreviation text_schema :: schema where "text_schema \<equiv> typed_schema ''string''"
abbreviation int_schema :: schema where "int_schema \<equiv> typed_schema ''integer''"
abbreviation bool_schema :: schema where "bool_schema \<equiv> typed_schema ''boolean''"

definition nullable :: "string \<Rightarrow> schema" where
  "nullable t = Schema (Some (TAny [t, ''null''])) None [] False None 0 None None None None"

definition history_query_evidence :: "(string \<times> schema) list" where
  "history_query_evidence =
     [(''serverFilterApplied'', bool_schema), (''sourceQueryTotal'', nullable ''integer''),
      (''sourceQueryPages'', nullable ''integer''), (''pagesFetched'', int_schema), (''scanBudget'', int_schema)]"

definition log_draft_input :: schema where
  "log_draft_input = object_schema [(''items'', array_schema (object_schema
      [(''affair_id'', text_schema), (''title'', text_schema), (''date'', text_schema), (''category'', text_schema), (''status'', text_schema)]
      [''title''] False))] [''items''] True"

definition log_draft_output :: schema where
  "log_draft_output = object_schema
     [(''draft'', text_schema), (''empty'', bool_schema), (''source_count'', int_schema), (''included_count'', int_schema),
      (''excluded_count'', int_schema), (''excluded_automatic_count'', int_schema), (''excluded_duplicate_count'', int_schema),
      (''included_items'', array_schema (object_schema
         [(''title'', text_schema), (''date'', text_schema), (''category'', text_schema)] [''title'', ''date'', ''category''] True))]
     [''draft'', ''empty'', ''source_count'', ''included_count'', ''excluded_count'', ''excluded_automatic_count'',
      ''excluded_duplicate_count'', ''included_items''] True"

definition coverage_schema :: schema where
  "coverage_schema = object_schema
     (history_query_evidence @
      [(''status'', Schema (Some (TName ''string'')) None [] False (Some [JStr ''complete'', JStr ''partial'', JStr ''unknown'']) 0 None None None None),
       (''queryApplied'', bool_schema), (''dateBasis'', text_schema),
       (''requestedRange'', object_schema [(''start'', nullable ''string''), (''end'', nullable ''string'')] [''start'', ''end''] False),
       (''scannedCount'', int_schema), (''matchedCount'', int_schema), (''hasMore'', bool_schema), (''completionReason'', text_schema),
       (''observedAt'', text_schema), (''queryHash'', text_schema)])
     [''status'', ''queryApplied'', ''dateBasis'', ''requestedRange'', ''scannedCount'', ''matchedCount'', ''hasMore'',
      ''completionReason'', ''observedAt'', ''queryHash''] True"

definition source_result_schema :: schema where
  "source_result_schema = object_schema
     [(''collection'', text_schema), (''items'', array_schema (typed_schema ''object'')), (''coverage'', coverage_schema)]
     [''collection'', ''items'', ''coverage''] False"

definition merged_item_schema :: schema where
  "merged_item_schema = object_schema
     [(''source_collection'', text_schema), (''source_affair_id'', text_schema), (''title'', text_schema), (''date'', text_schema),
      (''category'', text_schema), (''status'', text_schema)]
     [''source_collection'', ''source_affair_id'', ''title'', ''date'', ''category'', ''status''] True"

definition source_summary_schema :: schema where
  "source_summary_schema = object_schema
     [(''coverage'', coverage_schema), (''collection'', text_schema), (''status'', text_schema), (''scanned_count'', int_schema),
      (''matched_count'', int_schema), (''included_count'', int_schema), (''query_hash'', text_schema)]
     [''collection'', ''status'', ''scanned_count'', ''matched_count'', ''included_count'', ''query_hash''] True"

definition merge_input :: schema where
  "merge_input = object_schema [(''sources'', array_schema source_result_schema)] [''sources''] True"

definition merge_output :: schema where
  "merge_output = object_schema
     [(''items'', array_schema merged_item_schema), (''source_summaries'', array_schema source_summary_schema),
      (''coverage'', coverage_schema), (''source_incomplete'', bool_schema), (''empty'', bool_schema),
      (''source_count'', int_schema), (''item_count'', int_schema), (''duplicate_count'', int_schema)]
     [''items'', ''source_summaries'', ''coverage'', ''empty'', ''source_count'', ''item_count'', ''duplicate_count''] True"

definition log_draft_v2_input :: schema where
  "log_draft_v2_input = object_schema [(''bundle'', merge_output)] [''bundle''] True"

definition log_draft_v2_output :: schema where
  "log_draft_v2_output = object_schema
     [(''draft'', text_schema), (''empty'', bool_schema), (''source_incomplete'', bool_schema), (''source_count'', int_schema),
      (''included_count'', int_schema), (''excluded_count'', int_schema), (''excluded_automatic_count'', int_schema),
      (''excluded_duplicate_count'', int_schema), (''source_summaries'', array_schema source_summary_schema),
      (''coverage'', coverage_schema), (''included_items'', array_schema merged_item_schema)]
     [''draft'', ''empty'', ''source_incomplete'', ''source_count'', ''included_count'', ''excluded_count'',
      ''excluded_automatic_count'', ''excluded_duplicate_count'', ''source_summaries'', ''coverage'', ''included_items''] True"

section \<open>Texts\<close>

record draft_texts =
  dt_repr :: "json \<Rightarrow> string"
  dt_casefold :: "string \<Rightarrow> string"
  dt_markers :: "string list"
  dt_comma :: string
  dt_open :: string
  dt_close :: string
  dt_quote :: string
  dt_unquote :: string
  dt_stop :: string
  dt_handled :: string
  dt_started :: string
  dt_processed :: string
  dt_descriptions :: "string \<times> string \<times> string"

text \<open>\<open>str(v)\<close>\<close>

fun py_str :: "draft_texts \<Rightarrow> json \<Rightarrow> string" where
  "py_str tx JNull = ''None''"
| "py_str tx (JBool b) = (if b then ''True'' else ''False'')"
| "py_str tx (JInt n) = int_text n"
| "py_str tx (JStr s) = s"
| "py_str tx v = dt_repr tx v"

definition str_or_empty :: "draft_texts \<Rightarrow> json \<Rightarrow> string" where
  "str_or_empty tx v = (if truthy v then py_str tx v else [])"

text \<open>\<open>s.split()\<close>: the words between runs of white space.\<close>

function py_words :: "string \<Rightarrow> string list" where
  "py_words s = (case dropWhile is_space s of [] \<Rightarrow> []
     | c # cs \<Rightarrow> takeWhile (\<lambda>c. \<not> is_space c) (c # cs) # py_words (dropWhile (\<lambda>c. \<not> is_space c) (c # cs)))"
  by pat_completeness auto
termination
proof (relation "measure length")
  fix s c cs assume e: "dropWhile is_space s = c # cs"
  then have "\<not> is_space c" by (metis hd_dropWhile list.distinct(1) list.sel(1))
  moreover have "length (c # cs) \<le> length s" unfolding e[symmetric] by (rule length_dropWhile_le)
  ultimately show "(dropWhile (\<lambda>c. \<not> is_space c) (c # cs), s) \<in> measure length"
    using length_dropWhile_le[of "\<lambda>c. \<not> is_space c" cs] by simp
qed simp

declare py_words.simps [simp del]

definition clean_text :: "draft_texts \<Rightarrow> nat \<Rightarrow> json \<Rightarrow> string" where
  "clean_text tx maximum v = take maximum (joined '' '' (py_words (str_or_empty tx v)))"

definition is_automatic_item :: "draft_texts \<Rightarrow> string \<Rightarrow> string \<Rightarrow> bool" where
  "is_automatic_item tx title category =
     list_ex (\<lambda>marker. sublist marker (dt_casefold tx (title @ '' '' @ category))) (dt_markers tx)"

text \<open>The line of a draft for its \<open>n\<close>-th item.\<close>

definition draft_line :: "draft_texts \<Rightarrow> nat \<Rightarrow> string \<Rightarrow> string \<Rightarrow> string \<Rightarrow> string \<Rightarrow> string" where
  "draft_line tx n action title category date =
     (let context = joined (dt_comma tx) (filter (\<lambda>v. v \<noteq> []) [category, date]);
          suffix = (if context \<noteq> [] then dt_open tx @ context @ dt_close tx else [])
      in nat_text n @ ''. '' @ action @ dt_quote tx @ title @ dt_unquote tx @ suffix @ dt_stop tx)"

definition lines_text :: "string list \<Rightarrow> string" where
  "lines_text = joined [CHR 0x0A]"

section \<open>The log draft of a list of items\<close>

text \<open>What a draft says of one item: its title, date and category.\<close>

type_synonym draft_note = "string \<times> string \<times> string"

fun log_notes :: "draft_texts \<Rightarrow> json list \<Rightarrow> string list \<Rightarrow> draft_note list \<times> nat \<times> nat" where
  "log_notes tx [] seen = ([], 0, 0)"
| "log_notes tx (JDict raw # rest) seen =
     (let title = clean_text tx 240 (dget raw ''title'');
          category = clean_text tx 120 (dget raw ''category'');
          date = clean_text tx 40 (dget raw ''date'')
      in if title = [] then log_notes tx rest seen
         else if is_automatic_item tx title category then
           (let (notes, automatic, duplicates) = log_notes tx rest seen in (notes, automatic + 1, duplicates))
         else
           let affair = clean_text tx 256 (dget raw ''affair_id'');
               key = (if affair \<noteq> [] then affair else dt_casefold tx title @ [CHR 0x0A] @ date)
           in if key \<in> set seen then
                (let (notes, automatic, duplicates) = log_notes tx rest seen in (notes, automatic, duplicates + 1))
              else
                (let (notes, automatic, duplicates) = log_notes tx rest (key # seen) in ((title, date, category) # notes, automatic, duplicates)))"
| "log_notes tx (_ # rest) seen = log_notes tx rest seen"

fun log_lines :: "draft_texts \<Rightarrow> string list \<Rightarrow> draft_note list \<Rightarrow> string list" where
  "log_lines tx lines [] = lines"
| "log_lines tx lines ((title, date, category) # notes) =
     (let candidate = draft_line tx (length lines + 1) (dt_handled tx) title category date
      in if length (lines_text (lines @ [candidate])) > 4000 then lines else log_lines tx (lines @ [candidate]) notes)"

fun note_json :: "draft_note \<Rightarrow> json" where
  "note_json (title, date, category) = JDict [(''title'', JStr title), (''date'', JStr date), (''category'', JStr category)]"

definition jnat :: "nat \<Rightarrow> json" where
  "jnat n = JInt (int n)"

definition work_items_to_log_draft :: "draft_texts \<Rightarrow> tx_handler" where
  "work_items_to_log_draft tx arguments =
     ebind (items_or_none (dget arguments ''items'')) (\<lambda>source_items.
     let (notes, automatic, duplicates) = log_notes tx source_items [];
         lines = log_lines tx [] notes;
         included = (if length lines < length notes then take (length lines) notes else notes);
         draft = lines_text lines
     in Inr (JDict
          [(''draft'', JStr draft), (''empty'', JBool (draft = [])), (''source_count'', jnat (length source_items)),
           (''included_count'', jnat (length included)),
           (''excluded_count'', JInt (max 0 (int (length source_items) - int (length included)))),
           (''excluded_automatic_count'', jnat automatic), (''excluded_duplicate_count'', jnat duplicates),
           (''included_items'', JList (map note_json included))]))"

section \<open>Merging sources\<close>

text \<open>\<open>d[k]\<close>, and the shapes that the handlers read.\<close>

definition need :: "items \<Rightarrow> string \<Rightarrow> tx_error + json" where
  "need d k = (case map_of d k of None \<Rightarrow> Inl TxKeyError | Some v \<Rightarrow> Inr v)"

definition as_dict :: "json \<Rightarrow> tx_error + items" where
  "as_dict v = (case v of JDict d \<Rightarrow> Inr d | _ \<Rightarrow> Inl TxShape)"

definition as_int :: "json \<Rightarrow> tx_error + int" where
  "as_int v = (case v of JInt n \<Rightarrow> Inr n | _ \<Rightarrow> Inl TxShape)"

definition as_list :: "json \<Rightarrow> tx_error + json list" where
  "as_list v = (case v of JList xs \<Rightarrow> Inr xs | _ \<Rightarrow> Inl TxShape)"

record merged_item =
  mi_collection :: string
  mi_affair :: string
  mi_title :: string
  mi_date :: string
  mi_category :: string
  mi_status :: string

definition merged_json :: "merged_item \<Rightarrow> json" where
  "merged_json m = JDict [(''source_collection'', JStr (mi_collection m)), (''source_affair_id'', JStr (mi_affair m)),
     (''title'', JStr (mi_title m)), (''date'', JStr (mi_date m)), (''category'', JStr (mi_category m)), (''status'', JStr (mi_status m))]"

record merge_acc =
  ma_merged :: "merged_item list"
  ma_summaries :: "json list"
  ma_seen :: "string list"
  ma_duplicates :: nat
  ma_statuses :: "string list"
  ma_scanned :: int
  ma_matched :: int
  ma_hashes :: "string list"
  ma_ranges :: "items list"
  ma_bases :: "string list"

definition merge_item :: "draft_texts \<Rightarrow> string \<Rightarrow> json \<Rightarrow> merge_acc \<Rightarrow> tx_error + merge_acc" where
  "merge_item tx collection v acc =
     ebind (as_dict v) (\<lambda>raw.
     let affair = clean_text tx 256 (dget raw ''affair_id'');
         title = clean_text tx 240 (dget raw ''title'');
         key = (if affair \<noteq> [] then collection @ '':'' @ affair else [])
     in Inr
       (if title = [] then acc
        else if key \<noteq> [] \<and> key \<in> set (ma_seen acc) then acc\<lparr>ma_duplicates := ma_duplicates acc + 1\<rparr>
        else acc\<lparr>ma_seen := (if key \<noteq> [] then key # ma_seen acc else ma_seen acc),
                 ma_merged := ma_merged acc @
                   [\<lparr>mi_collection = collection, mi_affair = affair, mi_title = title, mi_date = clean_text tx 40 (dget raw ''date''),
                     mi_category = clean_text tx 120 (dget raw ''category''), mi_status = clean_text tx 120 (dget raw ''status'')\<rparr>]\<rparr>))"

definition merge_source :: "draft_texts \<Rightarrow> json \<Rightarrow> merge_acc \<Rightarrow> tx_error + merge_acc" where
  "merge_source tx v acc =
     ebind (as_dict v) (\<lambda>source.
     let collection = clean_text tx 80 (dget source ''collection'') in
     ebind (ebind (need source ''coverage'') as_dict) (\<lambda>coverage.
     ebind (need coverage ''status'') (\<lambda>status.
     ebind (ebind (need coverage ''scannedCount'') as_int) (\<lambda>scanned.
     ebind (ebind (need coverage ''matchedCount'') as_int) (\<lambda>matched.
     ebind (need coverage ''queryHash'') (\<lambda>hash.
     ebind (ebind (need coverage ''requestedRange'') as_dict) (\<lambda>range.
     ebind (need coverage ''dateBasis'') (\<lambda>basis.
     ebind (items_or_none (dget source ''items'')) (\<lambda>raws.
     ebind (foldE (merge_item tx collection) raws
         (acc\<lparr>ma_statuses := ma_statuses acc @ [py_str tx status], ma_scanned := ma_scanned acc + scanned,
              ma_matched := ma_matched acc + matched, ma_hashes := ma_hashes acc @ [py_str tx hash],
              ma_ranges := ma_ranges acc @ [range], ma_bases := ma_bases acc @ [py_str tx basis]\<rparr>)) (\<lambda>acc'.
     Inr (acc'\<lparr>ma_summaries := ma_summaries acc' @ [JDict
       [(''collection'', JStr collection), (''status'', JStr (py_str tx status)), (''scanned_count'', JInt scanned),
        (''matched_count'', JInt matched), (''included_count'', JInt (int (length (ma_merged acc')) - int (length (ma_merged acc)))),
        (''query_hash'', JStr (py_str tx hash)), (''coverage'', JDict coverage)]]\<rparr>)))))))))))"

definition aggregate_status :: "string list \<Rightarrow> string" where
  "aggregate_status statuses =
     (if statuses \<noteq> [] \<and> list_all (\<lambda>s. s = ''complete'') statuses then ''complete''
      else if list_ex (\<lambda>s. s = ''partial'') statuses then ''partial'' else ''unknown'')"

definition same_range :: "items list \<Rightarrow> json" where
  "same_range ranges = (case ranges of
     r # _ \<Rightarrow> if list_all (\<lambda>v. py_eq (JDict v) (JDict r)) ranges then JDict r else JDict [(''start'', JNull), (''end'', JNull)]
   | [] \<Rightarrow> JDict [(''start'', JNull), (''end'', JNull)])"

definition coverage_field :: "string \<Rightarrow> json \<Rightarrow> tx_error + json" where
  "coverage_field k v = ebind (as_dict v) (\<lambda>source. ebind (ebind (need source ''coverage'') as_dict) (\<lambda>c. need c k))"

definition merge_start :: merge_acc where
  "merge_start = \<lparr>ma_merged = [], ma_summaries = [], ma_seen = [], ma_duplicates = 0, ma_statuses = [], ma_scanned = 0, ma_matched = 0,
     ma_hashes = [], ma_ranges = [], ma_bases = []\<rparr>"

definition merge_work_items :: "py_env \<Rightarrow> draft_texts \<Rightarrow> tx_handler" where
  "merge_work_items env tx arguments =
     ebind (ebind (need arguments ''sources'') as_list) (\<lambda>sources.
     ebind (foldE (merge_source tx) sources merge_start) (\<lambda>acc.
     let status = aggregate_status (ma_statuses acc) in
     ebind (mapE (coverage_field ''queryApplied'') sources) (\<lambda>applied.
     ebind (mapE (coverage_field ''hasMore'') sources) (\<lambda>more.
     ebind (mapE (coverage_field ''observedAt'') sources) (\<lambda>observed.
     ebind (case map (py_str tx) observed of [] \<Rightarrow> Inl TxValueError | t # ts \<Rightarrow> Inr (fold max ts t)) (\<lambda>latest.
     Inr (JDict
       [(''items'', JList (map merged_json (ma_merged acc))), (''source_summaries'', JList (ma_summaries acc)),
        (''coverage'', JDict
           [(''status'', JStr status), (''queryApplied'', JBool (ma_statuses acc \<noteq> [] \<and> list_all truthy applied)),
            (''dateBasis'', JStr (joined ''+'' (ma_bases acc))), (''requestedRange'', same_range (ma_ranges acc)),
            (''scannedCount'', JInt (ma_scanned acc)), (''matchedCount'', JInt (ma_matched acc)),
            (''hasMore'', JBool (list_ex truthy more)),
            (''completionReason'', JStr (if status = ''complete'' then ''all_sources_complete'' else ''source_incomplete'')),
            (''observedAt'', JStr latest),
            (''queryHash'', JStr (''sha256:'' @ sha_text env (joined [CHR 0x0A] (ma_hashes acc))))]),
        (''source_incomplete'', JBool (status \<noteq> ''complete'')), (''empty'', JBool (ma_merged acc = [])),
        (''source_count'', jnat (length sources)), (''item_count'', jnat (length (ma_merged acc))),
        (''duplicate_count'', jnat (ma_duplicates acc))])))))))"

section \<open>The log draft of a merged bundle\<close>

text \<open>The lines and items of a draft, with the numbers of automatic and repeated items met before the draft was full.\<close>

record bundle_draft =
  bd_seen :: "string list"
  bd_lines :: "string list"
  bd_included :: "merged_item list"
  bd_automatic :: nat
  bd_duplicates :: nat

definition draft_action :: "draft_texts \<Rightarrow> string \<Rightarrow> string" where
  "draft_action tx collection = get_default (dt_processed tx) [(''done'', dt_handled tx), (''sent'', dt_started tx)] collection"

definition normalized_item :: "draft_texts \<Rightarrow> items \<Rightarrow> merged_item" where
  "normalized_item tx item =
     \<lparr>mi_collection = str_or_empty tx (dget item ''source_collection''), mi_affair = str_or_empty tx (dget item ''source_affair_id''),
      mi_title = str_or_empty tx (dget item ''title''), mi_date = str_or_empty tx (dget item ''date''),
      mi_category = str_or_empty tx (dget item ''category''), mi_status = str_or_empty tx (dget item ''status'')\<rparr>"

definition item_line :: "draft_texts \<Rightarrow> nat \<Rightarrow> string \<Rightarrow> merged_item \<Rightarrow> string" where
  "item_line tx n title m = draft_line tx n (draft_action tx (mi_collection m)) title (mi_category m) (mi_date m)"

fun bundle_lines :: "draft_texts \<Rightarrow> json list \<Rightarrow> bundle_draft \<Rightarrow> tx_error + bundle_draft" where
  "bundle_lines tx [] b = Inr b"
| "bundle_lines tx (v # rest) b =
     ebind (as_dict v) (\<lambda>item.
     let title = clean_text tx 240 (dget item ''title''); category = clean_text tx 120 (dget item ''category'') in
     if is_automatic_item tx title category then bundle_lines tx rest (b\<lparr>bd_automatic := bd_automatic b + 1\<rparr>)
     else
       let collection = py_str tx (dget item ''source_collection'');
           key = (if truthy (dget item ''source_affair_id'') then collection @ '':'' @ py_str tx (dget item ''source_affair_id'')
                  else collection @ '':'' @ title @ '':'' @ py_str tx (dget item ''date''))
       in if key \<in> set (bd_seen b) then bundle_lines tx rest (b\<lparr>bd_duplicates := bd_duplicates b + 1\<rparr>)
          else
            let m = normalized_item tx item;
                candidate = item_line tx (length (bd_lines b) + 1) title m
            in if length (lines_text (bd_lines b @ [candidate])) > 4000 then Inr (b\<lparr>bd_seen := key # bd_seen b\<rparr>)
               else bundle_lines tx rest (b\<lparr>bd_seen := key # bd_seen b, bd_lines := bd_lines b @ [candidate], bd_included := bd_included b @ [m]\<rparr>))"

definition bundle_start :: bundle_draft where
  "bundle_start = \<lparr>bd_seen = [], bd_lines = [], bd_included = [], bd_automatic = 0, bd_duplicates = 0\<rparr>"

definition work_items_to_log_draft_v2 :: "draft_texts \<Rightarrow> tx_handler" where
  "work_items_to_log_draft_v2 tx arguments =
     ebind (ebind (need arguments ''bundle'') as_dict) (\<lambda>bundle.
     ebind (ebind (need bundle ''items'') as_list) (\<lambda>source_items.
     ebind (bundle_lines tx source_items bundle_start) (\<lambda>b.
     ebind (need bundle ''coverage'') (\<lambda>coverage.
     ebind (ebind (as_dict coverage) (\<lambda>c. need c ''status'')) (\<lambda>status.
     ebind (need bundle ''source_summaries'') (\<lambda>summaries.
     let draft = lines_text (bd_lines b) in
     Inr (JDict
       [(''draft'', JStr draft), (''empty'', JBool (draft = [])), (''source_incomplete'', JBool (\<not> py_eq status (JStr ''complete''))),
        (''source_count'', jnat (length source_items)), (''included_count'', jnat (length (bd_included b))),
        (''excluded_count'', JInt (max 0 (int (length source_items) - int (length (bd_included b))))),
        (''excluded_automatic_count'', jnat (bd_automatic b)), (''excluded_duplicate_count'', jnat (bd_duplicates b)),
        (''source_summaries'', summaries), (''coverage'', coverage),
        (''included_items'', JList (map merged_json (bd_included b)))])))))))"

section \<open>The built-in registry\<close>

definition log_draft_spec :: "draft_texts \<Rightarrow> tx_spec" where
  "log_draft_spec tx = \<lparr>tf_name = ''work_items_to_log_draft.v1'', tf_description = fst (dt_descriptions tx), tf_input = log_draft_input,
     tf_output = log_draft_output, tf_result_projection = None, tf_required_bound = [''items''], tf_maximum_items = 100,
     tf_maximum_chars = 4000, tf_halts_on_empty = True, tf_halts_on_incomplete = False, tf_counter = None\<rparr>"

definition merge_spec :: "draft_texts \<Rightarrow> tx_spec" where
  "merge_spec tx = \<lparr>tf_name = ''merge_work_items.v1'', tf_description = fst (snd (dt_descriptions tx)), tf_input = merge_input,
     tf_output = merge_output, tf_result_projection = Some ''source_summary'', tf_required_bound = [''sources''], tf_maximum_items = 200,
     tf_maximum_chars = 8000, tf_halts_on_empty = True, tf_halts_on_incomplete = True, tf_counter = Some CountSources\<rparr>"

definition log_draft_v2_spec :: "draft_texts \<Rightarrow> tx_spec" where
  "log_draft_v2_spec tx = \<lparr>tf_name = ''work_items_to_log_draft.v2'', tf_description = snd (snd (dt_descriptions tx)), tf_input = log_draft_v2_input,
     tf_output = log_draft_v2_output, tf_result_projection = Some ''private_draft'', tf_required_bound = [''bundle''], tf_maximum_items = 100,
     tf_maximum_chars = 4000, tf_halts_on_empty = True, tf_halts_on_incomplete = True, tf_counter = Some CountBundle\<rparr>"

definition build_transform_registry :: "py_env \<Rightarrow> draft_texts \<Rightarrow> tx_error + tx_registry" where
  "build_transform_registry env tx =
     ebind (tx_register (log_draft_spec tx) (work_items_to_log_draft tx) \<lparr>tr_specs = [], tr_handlers = []\<rparr>) (\<lambda>r1.
     ebind (tx_register (merge_spec tx) (merge_work_items env tx) r1) (\<lambda>r2.
     tx_register (log_draft_v2_spec tx) (work_items_to_log_draft_v2 tx) r2))"

end
