(* ===== verification/TransformLaws.thy ===== *)
theory TransformLaws
  imports Transforms
begin

text \<open>
  What the built-in transforms do: on valid arguments their handlers answer, and their answers are valid (a \<open>locale\<close>
  states what \<open>invoke\<close> relies on, and every transform is an interpretation of it); what a merge keeps of its sources; which
  items and lines a draft holds; and what a draft that is made from a merge says of the sources.
\<close>

section \<open>Shapes\<close>

lemma conforms_name [simp]:
  "conforms text_schema v \<longleftrightarrow> (\<exists>s. v = JStr s)" "conforms int_schema v \<longleftrightarrow> (\<exists>n. v = JInt n)"
  "conforms bool_schema v \<longleftrightarrow> (\<exists>b. v = JBool b)" "conforms (typed_schema ''object'') v \<longleftrightarrow> (\<exists>d. v = JDict d)"
  by (cases v; simp add: conforms.simps typed_schema_def matches_type_name_def properties_of_def case_prod_beta list_all_iff)+

lemma conforms_object:
  "conforms (object_schema ps req shut) v \<longleftrightarrow>
     (\<exists>d. v = JDict d \<and> set req \<subseteq> fst ` set d \<and> (shut \<longrightarrow> fst ` set d \<subseteq> fst ` set ps) \<and>
       list_all (\<lambda>(k, x). case map_of ps k of None \<Rightarrow> True | Some t \<Rightarrow> conforms t x) d)"
  unfolding object_schema_def
  by (subst conforms.simps) (cases v; simp add: matches_type_name_def properties_of_def)

lemma conforms_array: "conforms (array_schema t) v \<longleftrightarrow> (\<exists>xs. v = JList xs \<and> list_all (conforms t) xs)"
  unfolding array_schema_def
  by (subst conforms.simps) (cases v; simp add: matches_type_name_def)

lemma conforms_nullable: "conforms (nullable t) JNull"
  by (simp add: conforms.simps nullable_def matches_type_name_def)

lemma conforms_need:
  assumes "conforms (object_schema ps req shut) (JDict d)" and "k \<in> set req" and "map_of ps k = Some t"
  shows "\<exists>v. need d k = Inr v \<and> map_of d k = Some v \<and> conforms t v"
proof -
  from assms(1,2) obtain v where "(k, v) \<in> set d" by (auto simp: conforms_object)
  then obtain w where w: "map_of d k = Some w" by (cases "map_of d k") (auto simp: map_of_eq_None_iff image_iff)
  then have "conforms t w" using assms(1,3) map_of_SomeD[OF w] by (auto simp: conforms_object list_all_iff)
  then show ?thesis using w by (simp add: need_def)
qed

lemma foldE_prefix:
  assumes "P [] s" and "\<And>pre x post s. xs = pre @ x # post \<Longrightarrow> P pre s \<Longrightarrow> \<exists>s'. f x s = Inr s' \<and> P (pre @ [x]) s'"
  shows "\<exists>s'. foldE f xs s = Inr s' \<and> P xs s'"
proof -
  have "\<exists>s'. foldE f ys s = Inr s' \<and> P xs s'" if "xs = pre @ ys" "P pre s" for pre ys s
    using that
  proof (induction ys arbitrary: pre s)
    case (Cons y ys)
    then obtain s' where "f y s = Inr s'" "P (pre @ [y]) s'" using assms(2) by blast
    then show ?case using Cons.IH[of "pre @ [y]" s'] Cons.prems(1) by (simp add: ebind_def)
  qed simp
  from this[of "[]" xs s] assms(1) show ?thesis by simp
qed

lemma transform_issue_kind:
  "schema_value_issue TransformProfile path s v = Some i \<Longrightarrow> si_kind i \<in> {TypeIssue, EnumIssue, Missing, Unexpected}"
proof (induction v arbitrary: path s i)
  case (JList xs)
  have "list_items_issue TransformProfile path j t ys = Some i \<Longrightarrow> set ys \<subseteq> set xs \<Longrightarrow> si_kind i \<in> {TypeIssue, EnumIssue, Missing, Unexpected}" for j t ys i
    using JList by (induction ys arbitrary: j) (auto simp: or_issue_def split: option.splits)
  then show ?case using JList.prems
    by (subst (asm) schema_value_issue.simps)
       (auto simp: or_issue_def type_issue_def enum_issue_def field_issue_def split: option.splits if_splits)
next
  case (JDict d)
  have "dict_items_issue TransformProfile pp t ys = Some i \<Longrightarrow> set ys \<subseteq> set d \<Longrightarrow> si_kind i \<in> {TypeIssue, EnumIssue, Missing, Unexpected}" for pp t ys i
    using JDict.IH by (induction ys) (force simp: or_issue_def split: option.splits)+
  then show ?case using JDict.prems
    by (subst (asm) schema_value_issue.simps)
       (auto simp: or_issue_def type_issue_def enum_issue_def field_issue_def object_fields_issue_def Let_def split: option.splits if_splits)
qed (auto simp: schema_value_issue.simps or_issue_def type_issue_def enum_issue_def field_issue_def split: option.splits if_splits)

lemma validate_cases:
  "(conforms s v \<and> validate_schema_value v s path code = Inr ()) \<or>
   (\<not> conforms s v \<and> (\<exists>msg. validate_schema_value v s path code = Inl (TxRejected code msg)))"
proof (cases "schema_value_issue TransformProfile path s v")
  case None
  then have "conforms s v" by (simp flip: transform_validation_iff_conforms[of path])
  then show ?thesis by (simp add: validate_schema_value_def None)
next
  case (Some i)
  have "\<not> conforms s v" using Some by (simp flip: transform_validation_iff_conforms[of path])
  then show ?thesis using transform_issue_kind[OF Some] by (auto simp: validate_schema_value_def Some Let_def)
qed

section \<open>What a merge keeps\<close>

text \<open>The first element with every key; the empty text is no key.\<close>

definition first_by :: "('a \<Rightarrow> string) \<Rightarrow> 'a list \<Rightarrow> 'a list" where
  "first_by key xs = nths xs {i. key (xs ! i) = [] \<or> (\<forall>j < i. key (xs ! j) \<noteq> key (xs ! i))}"

lemma first_by_Nil [simp]: "first_by key [] = []"
  by (simp add: first_by_def)

lemma first_by_snoc: "first_by key (xs @ [x]) = first_by key xs @ (if key x = [] \<or> key x \<notin> key ` set xs then [x] else [])"
proof -
  have cong: "nths ys A = nths ys B" if "\<And>i. i < length ys \<Longrightarrow> i \<in> A \<longleftrightarrow> i \<in> B" for ys :: "'a list" and A B
    using that by (auto simp: nths_def intro!: arg_cong[of _ _ "map fst"] filter_cong dest: set_zip_rightD)
  have "nths xs {i. key ((xs @ [x]) ! i) = [] \<or> (\<forall>j < i. key ((xs @ [x]) ! j) \<noteq> key ((xs @ [x]) ! i))} = first_by key xs"
    unfolding first_by_def by (rule cong) (simp add: nth_append)
  moreover have "(\<forall>j < length xs. key ((xs @ [x]) ! j) \<noteq> key x) \<longleftrightarrow> key x \<notin> key ` set xs"
    by (simp add: nth_append) (metis image_iff in_set_conv_nth)
  ultimately show ?thesis by (simp add: first_by_def[of _ "xs @ [x]"] nths_append nths_singleton)
qed

lemma first_by_keys: "key ` set (first_by key xs) = key ` set xs"
  by (induction xs rule: rev_induct) (auto simp: first_by_snoc)

lemma first_by_distinct: "distinct (filter (\<lambda>k. k \<noteq> []) (map key (first_by key xs)))"
proof (induction xs rule: rev_induct)
  case (snoc x xs)
  have "key x \<notin> key ` set (first_by key xs) \<or> key x \<in> key ` set xs" by (simp add: first_by_keys)
  with snoc show ?case by (auto simp: first_by_snoc) (metis image_eqI)
qed simp

lemma length_first_by: "length (first_by key xs) \<le> length xs"
  by (induction xs rule: rev_induct) (auto simp: first_by_snoc)

definition jget :: "json \<Rightarrow> string \<Rightarrow> json" where
  "jget v k = (case v of JDict d \<Rightarrow> dget d k | _ \<Rightarrow> JNull)"

definition jlist :: "json \<Rightarrow> json list" where
  "jlist v = (case v of JList xs \<Rightarrow> xs | _ \<Rightarrow> [])"

lemma jget_simps [simp]: "jget (JDict d) k = dget d k" "jlist (JList xs) = xs"
  by (simp_all add: jget_def jlist_def)

text \<open>An item of a source as the merge would list it, and its stable key.\<close>

definition cleaned_item :: "draft_texts \<Rightarrow> string \<Rightarrow> json \<Rightarrow> merged_item" where
  "cleaned_item tx collection raw =
     \<lparr>mi_collection = collection, mi_affair = clean_text tx 256 (jget raw ''affair_id''), mi_title = clean_text tx 240 (jget raw ''title''),
      mi_date = clean_text tx 40 (jget raw ''date''), mi_category = clean_text tx 120 (jget raw ''category''),
      mi_status = clean_text tx 120 (jget raw ''status'')\<rparr>"

definition stable_key :: "merged_item \<Rightarrow> string" where
  "stable_key m = (if mi_affair m \<noteq> [] then mi_collection m @ '':'' @ mi_affair m else [])"

definition titled_items :: "draft_texts \<Rightarrow> string \<Rightarrow> json list \<Rightarrow> merged_item list" where
  "titled_items tx collection raws = filter (\<lambda>m. mi_title m \<noteq> []) (map (cleaned_item tx collection) raws)"

definition source_items :: "draft_texts \<Rightarrow> json \<Rightarrow> merged_item list" where
  "source_items tx source = titled_items tx (clean_text tx 80 (jget source ''collection'')) (jlist (jget source ''items''))"

definition all_items :: "draft_texts \<Rightarrow> json list \<Rightarrow> merged_item list" where
  "all_items tx sources = concat (map (source_items tx) sources)"

text \<open>The state of the merge after the items \<open>ms\<close>.\<close>

definition merged_so_far :: "merged_item list \<Rightarrow> merge_acc \<Rightarrow> bool" where
  "merged_so_far ms acc \<longleftrightarrow> ma_merged acc = first_by stable_key ms \<and> length (ma_merged acc) + ma_duplicates acc = length ms \<and>
     set (ma_seen acc) = stable_key ` set ms - {[]}"

definition acc_rest :: "merge_acc \<Rightarrow> json list \<times> string list \<times> items list" where
  "acc_rest acc = (ma_summaries acc, ma_statuses acc, ma_ranges acc)"

lemma merged_so_far_update [simp]:
  "merged_so_far ms (acc\<lparr>ma_summaries := a\<rparr>) = merged_so_far ms acc" "merged_so_far ms (acc\<lparr>ma_statuses := ss\<rparr>) = merged_so_far ms acc"
  "merged_so_far ms (acc\<lparr>ma_scanned := n\<rparr>) = merged_so_far ms acc" "merged_so_far ms (acc\<lparr>ma_matched := n\<rparr>) = merged_so_far ms acc"
  "merged_so_far ms (acc\<lparr>ma_hashes := ss\<rparr>) = merged_so_far ms acc" "merged_so_far ms (acc\<lparr>ma_ranges := rs\<rparr>) = merged_so_far ms acc"
  "merged_so_far ms (acc\<lparr>ma_bases := ss\<rparr>) = merged_so_far ms acc"
  by (simp_all add: merged_so_far_def)

lemma merge_item_step:
  assumes "merged_so_far ms acc"
  shows "\<exists>acc'. merge_item tx collection (JDict raw) acc = Inr acc' \<and>
    merged_so_far (ms @ titled_items tx collection [JDict raw]) acc' \<and> acc_rest acc' = acc_rest acc"
  using assms
  by (auto simp: merge_item_def as_dict_def Let_def merged_so_far_def titled_items_def cleaned_item_def stable_key_def
      first_by_snoc acc_rest_def)

lemma merge_items_run:
  assumes "merged_so_far ms acc" and "list_all (\<lambda>v. \<exists>d. v = JDict d) raws"
  shows "\<exists>acc'. foldE (merge_item tx collection) raws acc = Inr acc' \<and>
    merged_so_far (ms @ titled_items tx collection raws) acc' \<and> acc_rest acc' = acc_rest acc"
  using assms
proof (induction raws arbitrary: ms acc)
  case (Cons v raws)
  then obtain d where v: "v = JDict d" by auto
  obtain acc1 where 1: "merge_item tx collection v acc = Inr acc1"
    "merged_so_far (ms @ titled_items tx collection [v]) acc1" "acc_rest acc1 = acc_rest acc"
    using merge_item_step[OF Cons.prems(1)] v by blast
  have "titled_items tx collection (v # raws) = titled_items tx collection [v] @ titled_items tx collection raws"
    by (simp add: titled_items_def)
  then show ?case using Cons.IH[OF 1(2)] Cons.prems(2) 1 by auto
qed (simp add: titled_items_def)


text \<open>The fields of a source's coverage, once it is valid.\<close>

abbreviation range_schema :: schema where
  "range_schema \<equiv> object_schema [(''start'', nullable ''string''), (''end'', nullable ''string'')] [''start'', ''end''] False"

abbreviation status_schema :: schema where
  "status_schema \<equiv> Schema (Some (TName ''string'')) None [] False (Some [JStr ''complete'', JStr ''partial'', JStr ''unknown'']) 0 None None None None"

lemma conforms_status: "conforms status_schema v \<longleftrightarrow> (\<exists>s \<in> {''complete'', ''partial'', ''unknown''}. v = JStr s)"
  by (subst conforms.simps) (cases v; auto simp: matches_type_name_def)

lemma coverage_need:
  assumes "conforms coverage_schema (JDict c)"
  shows "\<exists>s \<in> {''complete'', ''partial'', ''unknown''}. need c ''status'' = Inr (JStr s)"
    "\<exists>n. need c ''scannedCount'' = Inr (JInt n)" "\<exists>n. need c ''matchedCount'' = Inr (JInt n)"
    "\<exists>s. need c ''queryHash'' = Inr (JStr s)" "\<exists>s. need c ''dateBasis'' = Inr (JStr s)" "\<exists>s. need c ''observedAt'' = Inr (JStr s)"
    "\<exists>b. need c ''queryApplied'' = Inr (JBool b)" "\<exists>b. need c ''hasMore'' = Inr (JBool b)"
    "\<exists>r. need c ''requestedRange'' = Inr (JDict r) \<and> conforms range_schema (JDict r)"
proof -
  note n = conforms_need[OF assms[unfolded coverage_schema_def history_query_evidence_def]]
  show "\<exists>s \<in> {''complete'', ''partial'', ''unknown''}. need c ''status'' = Inr (JStr s)"
    using n[of "''status''" status_schema] by (auto simp: conforms_status)
  show "\<exists>n. need c ''scannedCount'' = Inr (JInt n)" "\<exists>n. need c ''matchedCount'' = Inr (JInt n)"
    using n[of "''scannedCount''" int_schema] n[of "''matchedCount''" int_schema] by auto
  show "\<exists>s. need c ''queryHash'' = Inr (JStr s)" "\<exists>s. need c ''dateBasis'' = Inr (JStr s)" "\<exists>s. need c ''observedAt'' = Inr (JStr s)"
    using n[of "''queryHash''" text_schema] n[of "''dateBasis''" text_schema] n[of "''observedAt''" text_schema] by auto
  show "\<exists>b. need c ''queryApplied'' = Inr (JBool b)" "\<exists>b. need c ''hasMore'' = Inr (JBool b)"
    using n[of "''queryApplied''" bool_schema] n[of "''hasMore''" bool_schema] by auto
  show "\<exists>r. need c ''requestedRange'' = Inr (JDict r) \<and> conforms range_schema (JDict r)"
    using n[of "''requestedRange''" range_schema] by (auto simp: conforms_object[of _ _ False])
qed

lemma source_need:
  assumes "conforms source_result_schema v"
  shows "\<exists>source c xs. v = JDict source \<and> need source ''coverage'' = Inr (JDict c) \<and> conforms coverage_schema (JDict c) \<and>
    map_of source ''items'' = Some (JList xs) \<and> list_all (\<lambda>v. \<exists>d. v = JDict d) xs"
proof -
  obtain source where v: "v = JDict source" using assms by (auto simp: source_result_schema_def conforms_object)
  note n = conforms_need[OF assms[unfolded v source_result_schema_def]]
  obtain cov where "need source ''coverage'' = Inr cov" "conforms coverage_schema cov"
    using n[of "''coverage''" coverage_schema] by auto
  moreover from this(2) obtain c where "cov = JDict c" by (auto simp: coverage_schema_def conforms_object)
  moreover obtain xs where "map_of source ''items'' = Some (JList xs)" "list_all (\<lambda>v. \<exists>d. v = JDict d) xs"
    using n[of "''items''" "array_schema (typed_schema ''object'')"] by (auto simp: conforms_array list_all_iff)
  ultimately show ?thesis using v by blast
qed


text \<open>The state of the merge after the sources \<open>pre\<close>.\<close>

definition status_of :: "draft_texts \<Rightarrow> json \<Rightarrow> string" where
  "status_of tx source = py_str tx (jget (jget source ''coverage'') ''status'')"

definition sources_so_far :: "draft_texts \<Rightarrow> json list \<Rightarrow> merge_acc \<Rightarrow> bool" where
  "sources_so_far tx pre acc \<longleftrightarrow> merged_so_far (all_items tx pre) acc \<and> ma_statuses acc = map (status_of tx) pre \<and>
     list_all (conforms source_summary_schema) (ma_summaries acc) \<and> length (ma_summaries acc) = length pre \<and>
     list_all (\<lambda>r. conforms range_schema (JDict r)) (ma_ranges acc)"

lemma need_map_of: "need d k = Inr v \<longleftrightarrow> map_of d k = Some v"
  by (simp add: need_def split: option.splits)

lemma items_or_none_list [simp]: "items_or_none (JList xs) = Inr xs"
  by (simp add: items_or_none_def)

lemma summary_conforms:
  assumes "conforms coverage_schema (JDict c)"
  shows "conforms source_summary_schema (JDict
       [(''collection'', JStr collection), (''status'', JStr status), (''scanned_count'', JInt scanned),
        (''matched_count'', JInt matched), (''included_count'', JInt n), (''query_hash'', JStr hash), (''coverage'', JDict c)])"
  using assms by (simp add: source_summary_schema_def conforms_object[of "(''coverage'', coverage_schema) # _"])

lemma merge_source_step:
  assumes v: "conforms source_result_schema v" and acc: "sources_so_far tx pre acc"
  shows "\<exists>acc'. merge_source tx v acc = Inr acc' \<and> sources_so_far tx (pre @ [v]) acc'"
proof -
  obtain source c xs where s: "v = JDict source" "need source ''coverage'' = Inr (JDict c)" "conforms coverage_schema (JDict c)"
    "map_of source ''items'' = Some (JList xs)" "list_all (\<lambda>v. \<exists>d. v = JDict d) xs" using source_need[OF v] by blast
  obtain st sc mc h b r where c: "need c ''status'' = Inr (JStr st)" "need c ''scannedCount'' = Inr (JInt sc)"
    "need c ''matchedCount'' = Inr (JInt mc)" "need c ''queryHash'' = Inr (JStr h)" "need c ''dateBasis'' = Inr (JStr b)"
    "need c ''requestedRange'' = Inr (JDict r)" "conforms range_schema (JDict r)" using coverage_need[OF s(3)] by blast
  let ?collection = "clean_text tx 80 (dget source ''collection'')"
  let ?acc = "acc\<lparr>ma_statuses := ma_statuses acc @ [st], ma_scanned := ma_scanned acc + sc,
              ma_matched := ma_matched acc + mc, ma_hashes := ma_hashes acc @ [h],
              ma_ranges := ma_ranges acc @ [r], ma_bases := ma_bases acc @ [b]\<rparr>"
  have "merged_so_far (all_items tx pre) ?acc" using acc by (simp add: sources_so_far_def)
  from merge_items_run[OF this s(5), of tx ?collection] obtain acc' where
    acc': "foldE (merge_item tx ?collection) xs ?acc = Inr acc'" "merged_so_far (all_items tx pre @ titled_items tx ?collection xs) acc'"
      "acc_rest acc' = acc_rest ?acc" by blast
  have items: "all_items tx (pre @ [v]) = all_items tx pre @ titled_items tx ?collection xs"
    by (simp add: all_items_def source_items_def s dget_def)
  have st: "status_of tx v = st" using s(2) c(1) by (simp add: status_of_def s(1) dget_def need_map_of)
  have d: "dget source ''items'' = JList xs" using s(4) by (simp add: dget_def)
  have run: "merge_source tx v acc = Inr (acc'\<lparr>ma_summaries := ma_summaries acc' @ [JDict
       [(''collection'', JStr ?collection), (''status'', JStr st), (''scanned_count'', JInt sc),
        (''matched_count'', JInt mc), (''included_count'', JInt (int (length (ma_merged acc')) - int (length (ma_merged acc)))),
        (''query_hash'', JStr h), (''coverage'', JDict c)]]\<rparr>)"
    by (simp add: merge_source_def as_dict_def as_int_def Let_def s c acc'(1) d)
  show ?thesis unfolding run using acc acc'(2,3) c(7) summary_conforms[OF s(3)]
    by (simp add: sources_so_far_def acc_rest_def items st)
qed

lemma merge_sources_run:
  assumes "list_all (conforms source_result_schema) sources"
  shows "\<exists>acc. foldE (merge_source tx) sources merge_start = Inr acc \<and> sources_so_far tx sources acc"
proof (rule foldE_prefix)
  show "sources_so_far tx [] merge_start"
    by (simp add: sources_so_far_def merged_so_far_def merge_start_def all_items_def)
  fix pre v post acc assume "sources = pre @ v # post" "sources_so_far tx pre acc"
  then show "\<exists>acc'. merge_source tx v acc = Inr acc' \<and> sources_so_far tx (pre @ [v]) acc'"
    using assms merge_source_step by simp
qed


lemma coverage_fields_run:
  assumes "list_all (conforms source_result_schema) sources" and "\<And>c. conforms coverage_schema (JDict c) \<Longrightarrow> \<exists>v. need c k = Inr v \<and> P v"
  shows "\<exists>vs. mapE (coverage_field k) sources = Inr vs \<and> length vs = length sources \<and> list_all P vs"
  using assms(1)
proof (induction sources)
  case (Cons v sources)
  then obtain source c where s: "v = JDict source" "need source ''coverage'' = Inr (JDict c)" "conforms coverage_schema (JDict c)"
    using source_need[of v] by auto
  obtain x where x: "need c k = Inr x" "P x" using assms(2)[OF s(3)] by blast
  then have "coverage_field k v = Inr x" by (simp add: coverage_field_def as_dict_def s)
  then show ?case using Cons x by auto
qed simp

lemma same_range_conforms:
  assumes "list_all (\<lambda>r. conforms range_schema (JDict r)) ranges"
  shows "conforms range_schema (same_range ranges)"
proof -
  have "conforms range_schema (JDict [(''start'', JNull), (''end'', JNull)])" by (simp add: conforms_object conforms_nullable)
  then show ?thesis using assms by (auto simp: same_range_def split: list.split)
qed

lemma aggregate_status_cases: "aggregate_status ss \<in> {''complete'', ''partial'', ''unknown''}"
  by (simp add: aggregate_status_def)

lemma coverage_conforms:
  assumes "st \<in> {''complete'', ''partial'', ''unknown''}" and "conforms range_schema r"
  shows "conforms coverage_schema (JDict
           [(''status'', JStr st), (''queryApplied'', JBool qa), (''dateBasis'', JStr b), (''requestedRange'', r), (''scannedCount'', JInt sc),
            (''matchedCount'', JInt mc), (''hasMore'', JBool hm), (''completionReason'', JStr cr), (''observedAt'', JStr ob),
            (''queryHash'', JStr h)])"
proof -
  have "conforms status_schema (JStr st)" using assms(1) by (simp add: conforms_status)
  then show ?thesis using assms(2) unfolding coverage_schema_def
    by (subst conforms_object) (simp add: history_query_evidence_def)
qed

lemma merged_json_conforms [simp]: "conforms merged_item_schema (merged_json m)"
  by (simp add: merged_item_schema_def merged_json_def conforms_object)

text \<open>What the merge answers for valid sources.\<close>

definition merge_answer :: "draft_texts \<Rightarrow> json list \<Rightarrow> items \<Rightarrow> bool" where
  "merge_answer tx sources r \<longleftrightarrow>
     (let ms = first_by stable_key (all_items tx sources); st = aggregate_status (map (status_of tx) sources) in
      conforms merge_output (JDict r) \<and> dget r ''items'' = JList (map merged_json ms) \<and>
      dget r ''empty'' = JBool (ms = []) \<and> dget r ''item_count'' = jnat (length ms) \<and> dget r ''source_count'' = jnat (length sources) \<and>
      dget r ''duplicate_count'' = jnat (length (all_items tx sources) - length ms) \<and>
      jget (dget r ''coverage'') ''status'' = JStr st \<and> dget r ''source_incomplete'' = JBool (st \<noteq> ''complete''))"

lemma merge_work_items_run:
  assumes args: "conforms merge_input (JDict args)" and sources: "dget args ''sources'' = JList sources"
  shows "if sources = [] then merge_work_items env tx args = Inl TxValueError
    else \<exists>r. merge_work_items env tx args = Inr (JDict r) \<and> merge_answer tx sources r"
proof -
  from conforms_need[OF args[unfolded merge_input_def], of "''sources''" "array_schema source_result_schema"]
  have need: "need args ''sources'' = Inr (JList sources)" and valid: "list_all (conforms source_result_schema) sources"
    using sources by (auto simp: dget_def conforms_array)
  obtain acc where acc: "foldE (merge_source tx) sources merge_start = Inr acc" "sources_so_far tx sources acc"
    using merge_sources_run[OF valid] by blast
  obtain qa where qa: "mapE (coverage_field ''queryApplied'') sources = Inr qa"
    using coverage_fields_run[OF valid, of "''queryApplied''" "\<lambda>_. True"] coverage_need(7) by blast
  obtain hm where hm: "mapE (coverage_field ''hasMore'') sources = Inr hm"
    using coverage_fields_run[OF valid, of "''hasMore''" "\<lambda>_. True"] coverage_need(8) by blast
  obtain ob where ob: "mapE (coverage_field ''observedAt'') sources = Inr ob" "length ob = length sources"
    using coverage_fields_run[OF valid, of "''observedAt''" "\<lambda>_. True"] coverage_need(6) by blast
  note run = merge_work_items_def need as_list_def acc(1) Let_def qa hm ob(1)
  show ?thesis
  proof (cases ob)
    case Nil
    then show ?thesis using ob(2) by (simp add: run)
  next
    case (Cons v vs)
    then have ne: "sources \<noteq> []" using ob(2) by auto
    let ?ms = "first_by stable_key (all_items tx sources)"
    let ?st = "aggregate_status (map (status_of tx) sources)"
    have a: "ma_merged acc = ?ms" "ma_statuses acc = map (status_of tx) sources"
      "list_all (conforms source_summary_schema) (ma_summaries acc)" "list_all (\<lambda>r. conforms range_schema (JDict r)) (ma_ranges acc)"
      "ma_duplicates acc = length (all_items tx sources) - length ?ms"
      using acc(2) by (auto simp: sources_so_far_def merged_so_far_def)
    let ?coverage = "JDict
       [(''status'', JStr ?st), (''queryApplied'', JBool (map (status_of tx) sources \<noteq> [] \<and> list_all truthy qa)),
        (''dateBasis'', JStr (joined ''+'' (ma_bases acc))), (''requestedRange'', same_range (ma_ranges acc)),
        (''scannedCount'', JInt (ma_scanned acc)), (''matchedCount'', JInt (ma_matched acc)), (''hasMore'', JBool (list_ex truthy hm)),
        (''completionReason'', JStr (if ?st = ''complete'' then ''all_sources_complete'' else ''source_incomplete'')),
        (''observedAt'', JStr (fold max (map (py_str tx) vs) (py_str tx v))),
        (''queryHash'', JStr (''sha256:'' @ sha_text env (joined [CHR 0x0A] (ma_hashes acc))))]"
    let ?r = "[(''items'', JList (map merged_json ?ms)), (''source_summaries'', JList (ma_summaries acc)), (''coverage'', ?coverage),
        (''source_incomplete'', JBool (?st \<noteq> ''complete'')), (''empty'', JBool (?ms = [])),
        (''source_count'', jnat (length sources)), (''item_count'', jnat (length ?ms)), (''duplicate_count'', jnat (ma_duplicates acc))]"
    have "merge_work_items env tx args = Inr (JDict ?r)" by (simp only: run Cons a(1,2) ebind_Inr sum.case json.case list.map list.case)
    moreover have "conforms coverage_schema ?coverage"
      by (rule coverage_conforms[OF aggregate_status_cases same_range_conforms[OF a(4)]])
    then have "conforms merge_output (JDict ?r)" unfolding merge_output_def
      by (subst conforms_object) (simp add: conforms_array list_all_iff a(3)[unfolded list_all_iff] jnat_def)
    then have "merge_answer tx sources ?r" unfolding merge_answer_def Let_def by (simp add: dget_def a(5))
    ultimately show ?thesis using ne by auto
  qed
qed

section \<open>What a draft holds\<close>

lemma first_by_append: "\<exists>zs. first_by key (xs @ ys) = first_by key xs @ zs"
proof (induction ys rule: rev_induct)
  case (snoc y ys)
  then show ?case using first_by_snoc[of key "xs @ ys" y] by auto
qed simp

lemma first_by_Cons: "first_by key (x # xs) = x # filter (\<lambda>y. key x = [] \<or> key y \<noteq> key x) (first_by key xs)"
proof (induction xs rule: rev_induct)
  case Nil
  show ?case using first_by_snoc[of key "[]" x] by simp
next
  case (snoc y ys)
  have "first_by key (x # ys @ [y]) = first_by key (x # ys) @ (if key y = [] \<or> key y \<notin> key ` set (x # ys) then [y] else [])"
    using first_by_snoc[of key "x # ys" y] by simp
  then show ?case using snoc by (auto simp: first_by_snoc)
qed

definition numbered :: "(nat \<Rightarrow> 'a \<Rightarrow> string) \<Rightarrow> 'a list \<Rightarrow> string list" where
  "numbered mk xs = map (case_prod mk) (enumerate 1 xs)"

lemma length_numbered [simp]: "length (numbered mk xs) = length xs"
  by (simp add: numbered_def)

lemma numbered_simps [simp]: "numbered mk [] = []" "numbered mk (xs @ [x]) = numbered mk xs @ [mk (length xs + 1) x]"
  by (simp_all add: numbered_def enumerate_append_eq)

text \<open>The first \<open>n\<close> elements fill a draft: their lines fit, and with the next one they would not.\<close>

definition fills :: "(nat \<Rightarrow> 'a \<Rightarrow> string) \<Rightarrow> 'a list \<Rightarrow> nat \<Rightarrow> bool" where
  "fills mk xs n \<longleftrightarrow> n \<le> length xs \<and> length (lines_text (numbered mk (take n xs))) \<le> 4000 \<and>
     (n < length xs \<longrightarrow> length (lines_text (numbered mk (take (n + 1) xs))) > 4000)"

text \<open>A titled item of a list that is not automatic, with the key that identifies it.\<close>

definition item_note :: "draft_texts \<Rightarrow> json \<Rightarrow> draft_note" where
  "item_note tx raw = (clean_text tx 240 (jget raw ''title''), clean_text tx 40 (jget raw ''date''), clean_text tx 120 (jget raw ''category''))"

definition item_key :: "draft_texts \<Rightarrow> json \<Rightarrow> string" where
  "item_key tx raw =
     (let affair = clean_text tx 256 (jget raw ''affair_id''); (title, date, category) = item_note tx raw
      in if affair \<noteq> [] then affair else dt_casefold tx title @ [CHR 0x0A] @ date)"

definition log_entries :: "draft_texts \<Rightarrow> json list \<Rightarrow> (string \<times> draft_note) list" where
  "log_entries tx raws = filter (\<lambda>(key, title, date, category). title \<noteq> [] \<and> \<not> is_automatic_item tx title category)
     (map (\<lambda>raw. (item_key tx raw, item_note tx raw)) raws)"

lemma filter_first_by_Cons:
  assumes "key x \<noteq> []"
  shows "filter (\<lambda>e. key e \<notin> S) (first_by key (x # xs)) =
    (if key x \<in> S then filter (\<lambda>e. key e \<notin> S) (first_by key xs) else x # filter (\<lambda>e. key e \<notin> insert (key x) S) (first_by key xs))"
  using assms by (auto simp: first_by_Cons intro: filter_cong)

lemma log_notes_entries:
  assumes "list_all (\<lambda>v. \<exists>d. v = JDict d) raws"
  shows "fst (log_notes tx raws seen) = map snd (filter (\<lambda>e. fst e \<notin> set seen) (first_by fst (log_entries tx raws)))"
  using assms
proof (induction raws arbitrary: seen)
  case (Cons v raws)
  then obtain raw where v: "v = JDict raw" by auto
  let ?title = "clean_text tx 240 (dget raw ''title'')" and ?category = "clean_text tx 120 (dget raw ''category'')"
  let ?date = "clean_text tx 40 (dget raw ''date'')" and ?affair = "clean_text tx 256 (dget raw ''affair_id'')"
  let ?key = "if ?affair \<noteq> [] then ?affair else dt_casefold tx ?title @ [CHR 0x0A] @ ?date"
  have IH: "fst (log_notes tx raws seen) = map snd (filter (\<lambda>e. fst e \<notin> set seen) (first_by fst (log_entries tx raws)))" for seen
    using Cons by simp
  have e: "log_entries tx (v # raws) =
      (if ?title \<noteq> [] \<and> \<not> is_automatic_item tx ?title ?category then [(?key, ?title, ?date, ?category)] else []) @ log_entries tx raws"
    by (simp add: log_entries_def item_note_def item_key_def v)
  show ?case
  proof (cases "?title = [] \<or> is_automatic_item tx ?title ?category")
    case True
    then show ?thesis unfolding e using IH[of seen] by (auto simp: v Let_def case_prod_beta)
  next
    case False
    have "?key \<noteq> []" by simp
    then show ?thesis unfolding e using False IH[of seen] IH[of "?key # seen"] filter_first_by_Cons[of fst "(?key, ?title, ?date, ?category)"]
      by (simp add: v Let_def case_prod_beta)
  qed
qed (simp add: log_entries_def)

lemma log_lines_fill:
  assumes "n \<le> length xs" and "length (lines_text (numbered mk (take n xs))) \<le> 4000"
    and mk: "mk = (\<lambda>k (title, date, category). draft_line tx k (dt_handled tx) title category date)"
  shows "\<exists>m. log_lines tx (numbered mk (take n xs)) (drop n xs) = numbered mk (take m xs) \<and> fills mk xs m"
  using assms(1,2)
proof (induction "drop n xs" arbitrary: n)
  case Nil
  then show ?case by (auto simp: fills_def intro!: exI[of _ n])
next
  case (Cons x rest)
  then have n: "n < length xs" "x = xs ! n" "rest = drop (Suc n) xs"
    by (metis drop_all linorder_not_less list.distinct(1), metis Cons.hyps(2) nth_via_drop, metis Cons.hyps(2) drop_Suc list.sel(3) tl_drop)
  have t: "take (Suc n) xs = take n xs @ [x]" using n by (simp add: take_Suc_conv_app_nth)
  obtain title date category where x: "x = (title, date, category)" by (cases x) auto
  have c: "numbered mk (take n xs) @ [draft_line tx (length (numbered mk (take n xs)) + 1) (dt_handled tx) title category date] = numbered mk (take (Suc n) xs)"
    using n(1) by (simp add: t mk x)
  show ?case
  proof (cases "length (lines_text (numbered mk (take (Suc n) xs))) > 4000")
    case True
    then show ?thesis using c Cons.prems n(1) unfolding Cons.hyps(2)[symmetric] x
      by (intro exI[of _ n]) (simp add: fills_def Let_def)
  next
    case False
    then show ?thesis using Cons.hyps(1)[OF n(3)] n(1) c unfolding Cons.hyps(2)[symmetric] x n(3) by (simp add: Let_def)
  qed
qed

lemma log_notes_counts:
  assumes "list_all (\<lambda>v. \<exists>d. v = JDict d) raws" and "log_notes tx raws seen = (kept, automatic, duplicates)"
  shows "length kept + duplicates = length (log_entries tx raws)"
    and "automatic + length (log_entries tx raws) \<le> length raws"
  using assms
proof (induction raws arbitrary: seen kept automatic duplicates)
  case (Cons v raws)
  case 1
  from 1(1) obtain raw where v: "v = JDict raw" by auto
  show ?case using 1 Cons.IH(1) unfolding v
    by (fastforce simp: Let_def log_entries_def item_note_def split: if_splits prod.splits)
next
  case (Cons v raws)
  case 2
  from 2(1) obtain raw where v: "v = JDict raw" by auto
  show ?case using 2 Cons.IH(2) unfolding v
    by (fastforce simp: Let_def log_entries_def item_note_def split: if_splits prod.splits)
qed (simp_all add: log_entries_def)

lemma log_draft_run:
  assumes args: "conforms log_draft_input (JDict args)" and items: "dget args ''items'' = JList raws"
    and ks: "kept = map snd (first_by fst (log_entries tx raws))"
    and mk: "mk = (\<lambda>k (title, date, category). draft_line tx k (dt_handled tx) title category date)"
  shows "\<exists>n r. work_items_to_log_draft tx args = Inr (JDict r) \<and> fills mk kept n \<and> conforms log_draft_output (JDict r) \<and>
    dget r ''draft'' = JStr (lines_text (numbered mk (take n kept))) \<and> dget r ''included_items'' = JList (map note_json (take n kept)) \<and>
    dget r ''excluded_count'' = JInt (int (length raws) - int n) \<and>
    dget r ''excluded_duplicate_count'' = JInt (int (length (log_entries tx raws)) - int (length kept))"
proof -
  have objects: "list_all (\<lambda>v. \<exists>d. v = JDict d) raws"
    using conforms_need[OF args[unfolded log_draft_input_def], of "''items''"] items
    by (auto simp: dget_def conforms_array conforms_object list_all_iff)
  obtain kept' automatic duplicates where c: "log_notes tx raws [] = (kept', automatic, duplicates)" by (cases "log_notes tx raws []") auto
  have n: "kept' = kept" using log_notes_entries[OF objects, of tx "[]"] by (simp add: c ks)
  note counts = log_notes_counts[OF objects c, unfolded n]
  obtain m where m: "log_lines tx [] kept = numbered mk (take m kept)" "fills mk kept m"
    using log_lines_fill[of 0 kept mk tx] by (auto simp: mk lines_text_def)
  then have le: "m \<le> length kept" by (simp add: fills_def)
  let ?included = "if m < length kept then take m kept else kept"
  have i: "?included = take m kept" using le by simp
  let ?draft = "lines_text (numbered mk (take m kept))"
  let ?r = "[(''draft'', JStr ?draft), (''empty'', JBool (?draft = [])), (''source_count'', jnat (length raws)),
           (''included_count'', jnat m), (''excluded_count'', JInt (max 0 (int (length raws) - int m))),
           (''excluded_automatic_count'', jnat automatic), (''excluded_duplicate_count'', jnat duplicates),
           (''included_items'', JList (map note_json (take m kept)))]"
  have "work_items_to_log_draft tx args = Inr (JDict ?r)"
    using le by (simp add: work_items_to_log_draft_def items c n m(1) i Let_def min_absorb2)
  moreover have "conforms log_draft_output (JDict ?r)" unfolding log_draft_output_def
    by (subst conforms_object) (auto simp: conforms_array list_all_iff jnat_def conforms_object)
  moreover have "m \<le> length raws" using le counts by linarith
  ultimately show ?thesis using m(2) counts(1)
    by (intro exI[of _ m] exI[of _ ?r]) (simp add: dget_def jnat_def)
qed

text \<open>The items of a bundle that are not automatic, with their keys and cleaned titles.\<close>

definition bundle_key :: "draft_texts \<Rightarrow> json \<Rightarrow> string" where
  "bundle_key tx v =
     (let collection = py_str tx (jget v ''source_collection'') in
      if truthy (jget v ''source_affair_id'') then collection @ '':'' @ py_str tx (jget v ''source_affair_id'')
      else collection @ '':'' @ clean_text tx 240 (jget v ''title'') @ '':'' @ py_str tx (jget v ''date''))"

definition bundle_entry :: "draft_texts \<Rightarrow> json \<Rightarrow> string \<times> string \<times> merged_item" where
  "bundle_entry tx v = (bundle_key tx v, clean_text tx 240 (jget v ''title''), normalized_item tx (case v of JDict d \<Rightarrow> d | _ \<Rightarrow> []))"

definition bundle_entries :: "draft_texts \<Rightarrow> json list \<Rightarrow> (string \<times> string \<times> merged_item) list" where
  "bundle_entries tx vs = map (bundle_entry tx)
     (filter (\<lambda>v. \<not> is_automatic_item tx (clean_text tx 240 (jget v ''title'')) (clean_text tx 120 (jget v ''category''))) vs)"

lemma bundle_key_filled [simp]: "bundle_key tx v \<noteq> []"
  by (simp add: bundle_key_def Let_def)

definition drafted_so_far :: "draft_texts \<Rightarrow> (string \<times> string \<times> merged_item) list \<Rightarrow> bundle_draft \<Rightarrow> bool" where
  "drafted_so_far tx es b \<longleftrightarrow> set (bd_seen b) = fst ` set es \<and> bd_included b = map (snd \<circ> snd) (first_by fst es) \<and>
     bd_lines b = numbered (\<lambda>k (title, m). item_line tx k title m) (map snd (first_by fst es)) \<and>
     length (lines_text (bd_lines b)) \<le> 4000"

lemma drafted_so_far_update [simp]:
  "drafted_so_far tx es (b\<lparr>bd_automatic := n\<rparr>) = drafted_so_far tx es b" "drafted_so_far tx es (b\<lparr>bd_duplicates := n\<rparr>) = drafted_so_far tx es b"
  by (simp_all add: drafted_so_far_def)

lemma bundle_lines_run:
  assumes "list_all (\<lambda>v. \<exists>d. v = JDict d) vs" and "drafted_so_far tx es b"
    and mk: "mk = (\<lambda>k (title, m). item_line tx k title m)"
  shows "\<exists>b' n. bundle_lines tx vs b = Inr b' \<and> fills mk (map snd (first_by fst (es @ bundle_entries tx vs))) n \<and>
    bd_lines b' = numbered mk (take n (map snd (first_by fst (es @ bundle_entries tx vs)))) \<and>
    bd_included b' = map (snd \<circ> snd) (take n (first_by fst (es @ bundle_entries tx vs)))"
  using assms(1,2)
proof (induction vs arbitrary: es b)
  case Nil
  then show ?case
    by (intro exI[of _ b] exI[of _ "length (first_by fst es)"]) (auto simp: bundle_entries_def fills_def drafted_so_far_def mk)
next
  case (Cons v vs)
  from Cons.prems(1) obtain item where v: "v = JDict item" and vs: "list_all (\<lambda>v. \<exists>d. v = JDict d) vs" by auto
  let ?title = "clean_text tx 240 (dget item ''title'')" and ?category = "clean_text tx 120 (dget item ''category'')"
  show ?case
  proof (cases "is_automatic_item tx ?title ?category")
    case True
    have "bundle_entries tx (v # vs) = bundle_entries tx vs" using True by (simp add: bundle_entries_def v)
    then show ?thesis using Cons.IH[OF vs, of es "b\<lparr>bd_automatic := bd_automatic b + 1\<rparr>"] Cons.prems(2) True
      by (simp add: v as_dict_def Let_def)
  next
    case False
    let ?e = "bundle_entry tx v"
    have e: "bundle_entries tx (v # vs) = ?e # bundle_entries tx vs" using False by (simp add: bundle_entries_def v)
    have key: "fst ?e = bundle_key tx v" "snd ?e = (?title, normalized_item tx item)" by (simp_all add: bundle_entry_def v)
    let ?line = "item_line tx (length (bd_lines b) + 1) ?title (normalized_item tx item)"
    let ?b = "b\<lparr>bd_seen := bundle_key tx v # bd_seen b, bd_lines := bd_lines b @ [?line], bd_included := bd_included b @ [normalized_item tx item]\<rparr>"
    have step: "bundle_lines tx (v # vs) b =
      (if bundle_key tx v \<in> set (bd_seen b) then bundle_lines tx vs (b\<lparr>bd_duplicates := bd_duplicates b + 1\<rparr>)
       else if length (lines_text (bd_lines b @ [?line])) > 4000 then Inr (b\<lparr>bd_seen := bundle_key tx v # bd_seen b\<rparr>)
       else bundle_lines tx vs ?b)"
      using False by (simp add: v as_dict_def Let_def bundle_key_def)
    have snoc: "es @ ?e # bundle_entries tx vs = (es @ [?e]) @ bundle_entries tx vs" by simp
    show ?thesis
    proof (cases "bundle_key tx v \<in> set (bd_seen b)")
      case True
      then have "drafted_so_far tx (es @ [?e]) (b\<lparr>bd_duplicates := bd_duplicates b + 1\<rparr>)"
        using Cons.prems(2) by (auto simp: drafted_so_far_def first_by_snoc key)
      from Cons.IH[OF vs this] show ?thesis unfolding step e snoc using True by simp
    next
      case new: False
      then have f: "first_by fst (es @ [?e]) = first_by fst es @ [?e]"
        using Cons.prems(2) by (simp add: first_by_snoc key drafted_so_far_def)
      have lines: "bd_lines b @ [?line] = numbered mk (map snd (first_by fst (es @ [?e])))"
        using Cons.prems(2) by (simp add: f key mk drafted_so_far_def)
      show ?thesis
      proof (cases "length (lines_text (bd_lines b @ [?line])) > 4000")
        case True
        obtain zs where "first_by fst (es @ ?e # bundle_entries tx vs) = (first_by fst es @ [?e]) @ zs"
          using first_by_append[of fst "es @ [?e]" "bundle_entries tx vs"] unfolding snoc f by blast
        moreover have "length (lines_text (numbered mk (map snd (first_by fst es)))) \<le> 4000"
          using Cons.prems(2) by (auto simp: drafted_so_far_def mk)
        ultimately show ?thesis unfolding step e using True new Cons.prems(2) lines
          by (intro exI[of _ "b\<lparr>bd_seen := bundle_key tx v # bd_seen b\<rparr>"] exI[of _ "length (first_by fst es)"])
             (simp add: fills_def drafted_so_far_def f mk)
      next
        case fit: False
        have "drafted_so_far tx (es @ [?e]) ?b"
          using Cons.prems(2) fit lines unfolding drafted_so_far_def mk[symmetric] by (simp add: f key)
        from Cons.IH[OF vs this] show ?thesis unfolding step e snoc using new fit by simp
      qed
    qed
  qed
qed

lemma merge_output_need:
  assumes "conforms merge_output (JDict bundle)"
  shows "\<exists>vs. need bundle ''items'' = Inr (JList vs) \<and> list_all (conforms merged_item_schema) vs"
    "\<exists>c s. need bundle ''coverage'' = Inr (JDict c) \<and> conforms coverage_schema (JDict c) \<and> need c ''status'' = Inr (JStr s)"
    "\<exists>ss. need bundle ''source_summaries'' = Inr (JList ss) \<and> list_all (conforms source_summary_schema) ss"
proof -
  note n = conforms_need[OF assms[unfolded merge_output_def]]
  show "\<exists>vs. need bundle ''items'' = Inr (JList vs) \<and> list_all (conforms merged_item_schema) vs"
    using n[of "''items''" "array_schema merged_item_schema"] by (auto simp: conforms_array)
  show "\<exists>ss. need bundle ''source_summaries'' = Inr (JList ss) \<and> list_all (conforms source_summary_schema) ss"
    using n[of "''source_summaries''" "array_schema source_summary_schema"] by (auto simp: conforms_array)
  obtain cov where cov: "need bundle ''coverage'' = Inr cov" "conforms coverage_schema cov" using n[of "''coverage''" coverage_schema] by auto
  then obtain c where "cov = JDict c" by (auto simp: coverage_schema_def conforms_object)
  then show "\<exists>c s. need bundle ''coverage'' = Inr (JDict c) \<and> conforms coverage_schema (JDict c) \<and> need c ''status'' = Inr (JStr s)"
    using cov coverage_need(1)[of c] by auto
qed

lemma draft_v2_run:
  assumes got: "need args ''bundle'' = Inr (JDict bundle)" and valid: "conforms merge_output (JDict bundle)"
    and items: "need bundle ''items'' = Inr (JList vs)"
    and es: "es = first_by fst (bundle_entries tx vs)" and mk: "mk = (\<lambda>k (title, m). item_line tx k title m)"
  shows "\<exists>n d. work_items_to_log_draft_v2 tx args = Inr (JDict d) \<and> fills mk (map snd es) n \<and> conforms log_draft_v2_output (JDict d) \<and>
    dget d ''draft'' = JStr (lines_text (numbered mk (take n (map snd es)))) \<and>
    dget d ''included_items'' = JList (map merged_json (map (snd \<circ> snd) (take n es))) \<and>
    dget d ''source_incomplete'' = JBool (jget (dget bundle ''coverage'') ''status'' \<noteq> JStr ''complete'')"
proof -
  obtain c st ss where c: "need bundle ''coverage'' = Inr (JDict c)" "conforms coverage_schema (JDict c)" "need c ''status'' = Inr (JStr st)"
    and ss: "need bundle ''source_summaries'' = Inr (JList ss)" "list_all (conforms source_summary_schema) ss"
    using merge_output_need[OF valid] by blast
  have objects: "list_all (\<lambda>v. \<exists>d. v = JDict d) vs"
    using merge_output_need(1)[OF valid] items by (auto simp: list_all_iff merged_item_schema_def conforms_object)
  have "drafted_so_far tx [] bundle_start" by (simp add: drafted_so_far_def bundle_start_def lines_text_def)
  from bundle_lines_run[OF objects this mk] obtain b n where b: "bundle_lines tx vs bundle_start = Inr b" "fills mk (map snd es) n"
    "bd_lines b = numbered mk (take n (map snd es))" "bd_included b = map (snd \<circ> snd) (take n es)" by (auto simp: es)
  let ?draft = "lines_text (bd_lines b)"
  let ?d = "[(''draft'', JStr ?draft), (''empty'', JBool (?draft = [])), (''source_incomplete'', JBool (\<not> py_eq (JStr st) (JStr ''complete''))),
        (''source_count'', jnat (length vs)), (''included_count'', jnat (length (bd_included b))),
        (''excluded_count'', JInt (max 0 (int (length vs) - int (length (bd_included b))))),
        (''excluded_automatic_count'', jnat (bd_automatic b)), (''excluded_duplicate_count'', jnat (bd_duplicates b)),
        (''source_summaries'', JList ss), (''coverage'', JDict c), (''included_items'', JList (map merged_json (bd_included b)))]"
  have 1: "work_items_to_log_draft_v2 tx args = Inr (JDict ?d)"
    by (simp add: work_items_to_log_draft_v2_def got items c as_dict_def as_list_def b(1) ss(1) Let_def)
  have 2: "conforms log_draft_v2_output (JDict ?d)" unfolding log_draft_v2_output_def
    by (subst conforms_object) (use c(2) ss(2) in \<open>auto simp: conforms_array list_all_iff jnat_def\<close>)
  have 3: "jget (dget bundle ''coverage'') ''status'' = JStr st" using c(1,3) by (simp add: need_map_of dget_def)
  show ?thesis
    by (intro exI[of _ n] exI[of _ ?d] conjI, rule 1, rule b(2), rule 2) (auto simp: dget_def b(3,4) 3[unfolded dget_def])
qed

section \<open>Invocation\<close>

lemma registry_built:
  "build_transform_registry env tx = Inr
     \<lparr>tr_specs = [(''work_items_to_log_draft.v1'', log_draft_spec tx), (''merge_work_items.v1'', merge_spec tx),
                  (''work_items_to_log_draft.v2'', log_draft_v2_spec tx)],
      tr_handlers = [(''work_items_to_log_draft.v1'', work_items_to_log_draft tx), (''merge_work_items.v1'', merge_work_items env tx),
                     (''work_items_to_log_draft.v2'', work_items_to_log_draft_v2 tx)]\<rparr>"
  by (simp add: build_transform_registry_def tx_register_def log_draft_spec_def merge_spec_def log_draft_v2_spec_def)

text \<open>
  What \<open>invoke\<close> relies on: the transform is registered, and on valid arguments its items can be counted and its handler answers
  with an output that is valid and not too long, or raises. Then \<open>invoke\<close> never refuses an output.
\<close>

locale checked_transform =
  fixes reg :: tx_registry and name :: string and spec :: tx_spec and handler :: tx_handler
  assumes registered: "tx_get name reg = Inr spec" "map_of (tr_handlers reg) name = Some handler"
    and counted: "conforms (tf_input spec) (JDict args) \<Longrightarrow>
      \<exists>n. (case tf_counter spec of Some c \<Rightarrow> count_with c args | None \<Rightarrow> Inr (count_input_items (JDict args))) = Inr n"
    and answers: "conforms (tf_input spec) (JDict args) \<Longrightarrow>
      (\<exists>e. handler args = Inl e) \<or> (\<exists>r. handler args = Inr (JDict r) \<and> conforms (tf_output spec) (JDict r) \<and> \<not> draft_too_long spec r)"
begin

lemma invoke_cases:
  obtains (invalid) msg where "tx_invoke reg name arguments = Inl (TxRejected ''TRANSFORM_INPUT_INVALID'' msg)"
      "\<not> (conforms (tf_input spec) arguments \<and> (\<exists>d. arguments = JDict d))"
  | (large) msg where "tx_invoke reg name arguments = Inl (TxRejected ''TRANSFORM_INPUT_TOO_LARGE'' msg)" "conforms (tf_input spec) arguments"
  | (failed) args e where "arguments = JDict args" "conforms (tf_input spec) arguments" "handler args = Inl e" "tx_invoke reg name arguments = Inl e"
  | (answered) args r where "arguments = JDict args" "conforms (tf_input spec) arguments" "handler args = Inr (JDict r)"
      "conforms (tf_output spec) (JDict r)" "tx_invoke reg name arguments = Inr r"
proof (cases "conforms (tf_input spec) arguments \<and> (\<exists>d. arguments = JDict d)")
  case False
  then show ?thesis
    using validate_cases[of "tf_input spec" arguments "''input''" "''TRANSFORM_INPUT_INVALID''"] registered(1) invalid
    by (cases arguments) (auto simp: tx_invoke_def)
next
  case True
  then obtain args where args: "arguments = JDict args" "conforms (tf_input spec) arguments" by blast
  have v: "validate_schema_value arguments (tf_input spec) ''input'' ''TRANSFORM_INPUT_INVALID'' = Inr ()"
    using validate_cases[of "tf_input spec" arguments] args(2) by blast
  from counted[OF args(2)[unfolded args(1)]] obtain n where
    n: "(case tf_counter spec of Some c \<Rightarrow> count_with c args | None \<Rightarrow> Inr (count_input_items (JDict args))) = Inr n" by blast
  have start: "tx_invoke reg name arguments =
      (if int n > tf_maximum_items spec then Inl (TxRejected ''TRANSFORM_INPUT_TOO_LARGE'' (''transform accepts at most '' @ int_text (tf_maximum_items spec) @ '' items''))
       else ebind (handler args) (\<lambda>result.
             case result of
               JDict r \<Rightarrow>
                 ebind (validate_schema_value result (tf_output spec) ''output'' ''TRANSFORM_OUTPUT_INVALID'') (\<lambda>_.
                 ebind (raise_if (draft_too_long spec r) (TxRejected ''TRANSFORM_OUTPUT_TOO_LARGE''
                   (''transform output exceeds '' @ int_text (tf_maximum_chars spec) @ '' characters''))) (\<lambda>_. Inr r))
             | _ \<Rightarrow> Inl (TxRejected ''TRANSFORM_OUTPUT_INVALID'' ''transform output must be an object'')))"
    unfolding args(1) by (simp add: tx_invoke_def registered v[unfolded args(1)] n raise_if_def)
  show ?thesis
  proof (cases "int n > tf_maximum_items spec")
    case True
    then show ?thesis using large args(2) by (simp add: start)
  next
    case fit: False
    from answers[OF args(2)[unfolded args(1)]] show ?thesis
    proof (elim disjE exE conjE)
      fix e assume e: "handler args = Inl e"
      show ?thesis by (rule failed[OF args e]) (simp add: start fit e)
    next
      fix r assume r: "handler args = Inr (JDict r)" "conforms (tf_output spec) (JDict r)" "\<not> draft_too_long spec r"
      have "validate_schema_value (JDict r) (tf_output spec) ''output'' ''TRANSFORM_OUTPUT_INVALID'' = Inr ()"
        using validate_cases[of "tf_output spec" "JDict r"] r(2) by blast
      then show ?thesis using answered[OF args r(1,2)] r fit by (simp add: start)
    qed
  qed
qed

lemma invoke_Inr:
  assumes "tx_invoke reg name arguments = Inr r"
  shows "\<exists>args. arguments = JDict args \<and> conforms (tf_input spec) arguments \<and> handler args = Inr (JDict r)"
  by (cases rule: invoke_cases[of arguments]) (use assms in auto)

lemma invoke_few:
  assumes "arguments = JDict args" and "conforms (tf_input spec) (JDict args)"
    and "\<exists>n. (case tf_counter spec of Some c \<Rightarrow> count_with c args | None \<Rightarrow> Inr (count_input_items (JDict args))) = Inr n \<and> int n \<le> tf_maximum_items spec"
    and "handler args = Inr (JDict r)"
  shows "tx_invoke reg name arguments = Inr r"
proof -
  obtain n where n: "(case tf_counter spec of Some c \<Rightarrow> count_with c args | None \<Rightarrow> Inr (count_input_items (JDict args))) = Inr n" "int n \<le> tf_maximum_items spec"
    using assms(3) by blast
  have v: "validate_schema_value (JDict args) (tf_input spec) ''input'' ''TRANSFORM_INPUT_INVALID'' = Inr ()"
    using validate_cases[of "tf_input spec" "JDict args"] assms(2) by blast
  from answers[OF assms(2)] assms(4) have r: "conforms (tf_output spec) (JDict r)" "\<not> draft_too_long spec r" by auto
  have w: "validate_schema_value (JDict r) (tf_output spec) ''output'' ''TRANSFORM_OUTPUT_INVALID'' = Inr ()"
    using validate_cases[of "tf_output spec" "JDict r"] r(1) by blast
  show ?thesis using n(2) r(2) by (simp add: tx_invoke_def assms(1,4) registered v w n(1) raise_if_def)
qed

end

lemma merge_input_sources:
  assumes "conforms merge_input (JDict args)"
  shows "\<exists>sources. dget args ''sources'' = JList sources \<and> list_all (conforms source_result_schema) sources"
  using conforms_need[OF assms[unfolded merge_input_def], of "''sources''" "array_schema source_result_schema"]
  by (auto simp: dget_def conforms_array)

lemma count_sources_run:
  assumes "list_all (conforms source_result_schema) sources"
  shows "count_merged_source_items sources = Inr (sum_list (map (\<lambda>s. length (jlist (jget s ''items''))) sources))"
  using assms
proof (induction sources)
  case (Cons v sources)
  then obtain source xs where "v = JDict source" "map_of source ''items'' = Some (JList xs)" using source_need[of v] by auto
  then show ?case using Cons by (simp add: dget_def)
qed simp

lemma log_draft_input_items:
  assumes "conforms log_draft_input (JDict args)"
  shows "\<exists>raws. dget args ''items'' = JList raws"
  using conforms_need[OF assms[unfolded log_draft_input_def], of "''items''"] by (auto simp: dget_def conforms_array)

lemma draft_v2_input_bundle:
  assumes "conforms log_draft_v2_input (JDict args)"
  shows "\<exists>b. need args ''bundle'' = Inr (JDict b) \<and> conforms merge_output (JDict b)"
proof -
  obtain v where v: "need args ''bundle'' = Inr v" "conforms merge_output v"
    using conforms_need[OF assms[unfolded log_draft_v2_input_def], of "''bundle''"] by auto
  then obtain b where "v = JDict b" by (auto simp: merge_output_def conforms_object)
  then show ?thesis using v by blast
qed

lemma draft_fits:
  "fills mk xs n \<Longrightarrow> dget r ''draft'' = JStr (lines_text (numbered mk (take n xs))) \<Longrightarrow> tf_maximum_chars spec = 4000 \<Longrightarrow> \<not> draft_too_long spec r"
  by (simp add: draft_too_long_def fills_def)

definition log_line :: "draft_texts \<Rightarrow> nat \<Rightarrow> draft_note \<Rightarrow> string" where
  "log_line tx k = (\<lambda>(title, date, category). draft_line tx k (dt_handled tx) title category date)"

definition bundle_line :: "draft_texts \<Rightarrow> nat \<Rightarrow> string \<times> merged_item \<Rightarrow> string" where
  "bundle_line tx k = (\<lambda>(title, m). item_line tx k title m)"

lemma draft_line_eqs:
  "log_line tx = (\<lambda>k (title, date, category). draft_line tx k (dt_handled tx) title category date)"
  "bundle_line tx = (\<lambda>k (title, m). item_line tx k title m)"
  by (simp_all add: fun_eq_iff log_line_def bundle_line_def)

lemmas log_draft_answer = log_draft_run[OF _ _ refl draft_line_eqs(1)]
lemmas draft_v2_answer = draft_v2_run[OF _ _ _ refl draft_line_eqs(2)]

definition builtin :: "py_env \<Rightarrow> draft_texts \<Rightarrow> tx_registry" where
  "builtin env tx = projr (build_transform_registry env tx)"

lemma builtin_registered:
  "tx_get ''work_items_to_log_draft.v1'' (builtin env tx) = Inr (log_draft_spec tx)"
  "map_of (tr_handlers (builtin env tx)) ''work_items_to_log_draft.v1'' = Some (work_items_to_log_draft tx)"
  "tx_get ''merge_work_items.v1'' (builtin env tx) = Inr (merge_spec tx)"
  "map_of (tr_handlers (builtin env tx)) ''merge_work_items.v1'' = Some (merge_work_items env tx)"
  "tx_get ''work_items_to_log_draft.v2'' (builtin env tx) = Inr (log_draft_v2_spec tx)"
  "map_of (tr_handlers (builtin env tx)) ''work_items_to_log_draft.v2'' = Some (work_items_to_log_draft_v2 tx)"
  by (simp_all add: builtin_def registry_built tx_get_def)

lemma spec_schemas [simp]:
  "tf_input (log_draft_spec tx) = log_draft_input" "tf_output (log_draft_spec tx) = log_draft_output"
  "tf_input (merge_spec tx) = merge_input" "tf_output (merge_spec tx) = merge_output"
  "tf_input (log_draft_v2_spec tx) = log_draft_v2_input" "tf_output (log_draft_v2_spec tx) = log_draft_v2_output"
  by (simp_all add: log_draft_spec_def merge_spec_def log_draft_v2_spec_def)

interpretation log_draft: checked_transform "builtin env tx" "''work_items_to_log_draft.v1''" "log_draft_spec tx" "work_items_to_log_draft tx"
proof (unfold_locales, goal_cases)
  case (4 args)
  then have valid: "conforms log_draft_input (JDict args)" by simp
  then obtain raws where items: "dget args ''items'' = JList raws" using log_draft_input_items by blast
  obtain n r where r: "work_items_to_log_draft tx args = Inr (JDict r)" "fills (log_line tx) (map snd (first_by fst (log_entries tx raws))) n"
    "conforms log_draft_output (JDict r)"
    "dget r ''draft'' = JStr (lines_text (numbered (log_line tx) (take n (map snd (first_by fst (log_entries tx raws))))))"
    using log_draft_answer[OF valid items, of tx] by blast
  have "\<not> draft_too_long (log_draft_spec tx) r" by (rule draft_fits[OF r(2,4)]) (simp add: log_draft_spec_def)
  then show ?case using r(1,3) by simp
qed (simp_all add: builtin_registered log_draft_spec_def)

interpretation merge: checked_transform "builtin env tx" "''merge_work_items.v1''" "merge_spec tx" "merge_work_items env tx"
proof (unfold_locales, goal_cases)
  case (3 args)
  then obtain sources where s: "dget args ''sources'' = JList sources" "list_all (conforms source_result_schema) sources"
    using merge_input_sources by auto
  show ?case using count_sources_run[OF s(2)] by (simp add: merge_spec_def count_with_def s(1))
next
  case (4 args)
  then have valid: "conforms merge_input (JDict args)" by simp
  then obtain sources where s: "dget args ''sources'' = JList sources" using merge_input_sources by blast
  show ?case
  proof (cases "sources = []")
    case False
    then obtain r where r: "merge_work_items env tx args = Inr (JDict r)" "merge_answer tx sources r"
      using merge_work_items_run[OF valid s, of env tx] by auto
    have out: "conforms merge_output (JDict r)" using r(2) by (simp add: merge_answer_def Let_def)
    then have "''draft'' \<notin> fst ` set r" by (auto simp: merge_output_def conforms_object[of _ _ True])
    then have "\<not> draft_too_long (merge_spec tx) r" by (simp add: draft_too_long_def dget_absent)
    then show ?thesis using r(1) out by simp
  qed (use merge_work_items_run[OF valid s, of env tx] in simp)
qed (simp_all add: builtin_registered)

interpretation draft_v2: checked_transform "builtin env tx" "''work_items_to_log_draft.v2''" "log_draft_v2_spec tx" "work_items_to_log_draft_v2 tx"
proof (unfold_locales, goal_cases)
  case (3 args)
  then obtain b where b: "need args ''bundle'' = Inr (JDict b)" "conforms merge_output (JDict b)" using draft_v2_input_bundle by auto
  from merge_output_need(1)[OF b(2)] obtain vs where vs: "need b ''items'' = Inr (JList vs)" by blast
  show ?case using b(1) vs by (simp add: log_draft_v2_spec_def count_with_def need_map_of dget_def)
next
  case (4 args)
  then obtain b where b: "need args ''bundle'' = Inr (JDict b)" "conforms merge_output (JDict b)" using draft_v2_input_bundle by auto
  from merge_output_need(1)[OF b(2)] obtain vs where vs: "need b ''items'' = Inr (JList vs)" by blast
  obtain n r where r: "work_items_to_log_draft_v2 tx args = Inr (JDict r)" "fills (bundle_line tx) (map snd (first_by fst (bundle_entries tx vs))) n"
    "conforms log_draft_v2_output (JDict r)"
    "dget r ''draft'' = JStr (lines_text (numbered (bundle_line tx) (take n (map snd (first_by fst (bundle_entries tx vs))))))"
    using draft_v2_answer[OF b vs, of tx] by blast
  have "\<not> draft_too_long (log_draft_v2_spec tx) r" by (rule draft_fits[OF r(2,4)]) (simp add: log_draft_v2_spec_def)
  then show ?case using r(1,3) by simp
qed (simp_all add: builtin_registered)

lemma merge_invoked:
  obtains (rejected) code msg where "tx_invoke (builtin env tx) ''merge_work_items.v1'' arguments = Inl (TxRejected code msg)"
      "code \<in> {''TRANSFORM_INPUT_INVALID'', ''TRANSFORM_INPUT_TOO_LARGE''}"
  | (nothing) "tx_invoke (builtin env tx) ''merge_work_items.v1'' arguments = Inl TxValueError" "jget arguments ''sources'' = JList []"
  | (answered) sources r where "jget arguments ''sources'' = JList sources" "sources \<noteq> []" "conforms merge_input arguments"
      "tx_invoke (builtin env tx) ''merge_work_items.v1'' arguments = Inr r" "merge_answer tx sources r"
proof (rule merge.invoke_cases[of env tx arguments])
  fix args e assume a: "arguments = JDict args" "conforms (tf_input (merge_spec tx)) arguments" "merge_work_items env tx args = Inl e"
    "tx_invoke (builtin env tx) ''merge_work_items.v1'' arguments = Inl e"
  then have valid: "conforms merge_input (JDict args)" by simp
  then obtain sources where s: "dget args ''sources'' = JList sources" using merge_input_sources by blast
  show thesis by (rule nothing) (use merge_work_items_run[OF valid s, of env tx] a s in \<open>auto split: if_splits\<close>)
next
  fix args r assume a: "arguments = JDict args" "conforms (tf_input (merge_spec tx)) arguments" "merge_work_items env tx args = Inr (JDict r)"
    "tx_invoke (builtin env tx) ''merge_work_items.v1'' arguments = Inr r"
  then have valid: "conforms merge_input (JDict args)" by simp
  then obtain sources where s: "dget args ''sources'' = JList sources" using merge_input_sources by blast
  then show thesis using merge_work_items_run[OF valid s, of env tx] a answered valid by (auto split: if_splits)
qed (use rejected in blast)+

lemma merge_invoked_Inr:
  assumes "tx_invoke (builtin env tx) ''merge_work_items.v1'' (JDict [(''sources'', JList sources)]) = Inr r"
  shows "sources \<noteq> []" "merge_answer tx sources r"
proof -
  have "sources \<noteq> [] \<and> merge_answer tx sources r"
    by (cases rule: merge_invoked[of env tx "JDict [(''sources'', JList sources)]"]) (use assms in \<open>auto simp: dget_def\<close>)
  then show "sources \<noteq> []" "merge_answer tx sources r" by simp_all
qed

lemma subseq_first_by: "subseq (first_by key xs) xs"
proof (induction xs rule: rev_induct)
  case (snoc x xs)
  show ?case unfolding first_by_snoc by (rule list_emb_append_mono[OF snoc]) simp
qed simp

lemma subseq_take: "subseq (take n xs) xs"
  by (metis append_take_drop_id prefix_imp_subseq prefixI)

lemma bundle_entries_merged:
  "map (snd \<circ> snd) (bundle_entries tx (map merged_json ms)) =
     filter (\<lambda>m. \<not> is_automatic_item tx (clean_text tx 240 (JStr (mi_title m))) (clean_text tx 120 (JStr (mi_category m)))) ms"
proof -
  have str: "str_or_empty tx (JStr s) = s" for s by (simp add: str_or_empty_def)
  have "normalized_item tx (case merged_json m of JDict d \<Rightarrow> d | _ \<Rightarrow> []) = m" for m
    by (simp add: merged_json_def normalized_item_def dget_def str)
  moreover have "jget (merged_json m) ''title'' = JStr (mi_title m)" "jget (merged_json m) ''category'' = JStr (mi_category m)" for m
    by (simp_all add: merged_json_def dget_def)
  ultimately show ?thesis by (simp add: bundle_entries_def bundle_entry_def filter_map comp_def)
qed

section \<open>Properties\<close>

text \<open>
  C35: A built-in transform answers or says what is wrong with its input. Whatever the arguments, invoking one of the three transforms
  either returns a value of its output schema for arguments of its input schema, or rejects the arguments as invalid or as too many
  items, or is the merge of no sources at all, whose \<open>max\<close> of an empty sequence raises \<open>ValueError\<close>: no output is
  refused and no handler meets a missing key or a value of another type.
\<close>

theorem transforms_answer_or_reject_input:
  assumes "name \<in> {''work_items_to_log_draft.v1'', ''merge_work_items.v1'', ''work_items_to_log_draft.v2''}"
    and "build_transform_registry env tx = Inr reg"
  shows "case tx_invoke reg name arguments of
      Inr r \<Rightarrow> \<exists>spec. tx_get name reg = Inr spec \<and> conforms (tf_input spec) arguments \<and> conforms (tf_output spec) (JDict r)
    | Inl (TxRejected code msg) \<Rightarrow> code \<in> {''TRANSFORM_INPUT_INVALID'', ''TRANSFORM_INPUT_TOO_LARGE''}
    | Inl TxValueError \<Rightarrow> name = ''merge_work_items.v1'' \<and> jget arguments ''sources'' = JList []
    | Inl _ \<Rightarrow> False"
proof -
  have reg: "reg = builtin env tx" using assms(2) by (simp add: builtin_def)
  from assms(1) consider "name = ''work_items_to_log_draft.v1''" | "name = ''merge_work_items.v1''" | "name = ''work_items_to_log_draft.v2''" by blast
  then show ?thesis
  proof cases
    case 1
    note here = reg 1
    show ?thesis
    proof (cases rule: log_draft.invoke_cases[of env tx arguments])
      case (failed args e)
      then have valid: "conforms log_draft_input (JDict args)" by simp
      from log_draft_input_items[OF valid] obtain raws where "dget args ''items'' = JList raws" by blast
      from log_draft_answer[OF valid this, of tx] failed show ?thesis by (simp add: here)
    qed (simp_all add: here builtin_registered)
  next
    case 2
    note here = reg 2
    show ?thesis
    proof (cases rule: merge_invoked[of env tx arguments])
      case (answered sources r)
      then show ?thesis by (simp add: here builtin_registered merge_answer_def Let_def)
    qed (simp_all add: here)
  next
    case 3
    note here = reg 3
    show ?thesis
    proof (cases rule: draft_v2.invoke_cases[of env tx arguments])
      case (failed args e)
      then have "conforms log_draft_v2_input (JDict args)" by simp
      from draft_v2_input_bundle[OF this] obtain b where b: "need args ''bundle'' = Inr (JDict b)" "conforms merge_output (JDict b)" by blast
      from merge_output_need(1)[OF b(2)] obtain vs where vs: "need b ''items'' = Inr (JList vs)" by blast
      show ?thesis using draft_v2_answer[OF b vs, of tx] failed by (simp add: here)
    qed (simp_all add: here builtin_registered)
  qed
qed

text \<open>
  C36: What a merge keeps. When the merge of some sources answers, its items are the titled items of the sources in their order, cleaned,
  without the later ones of every stable key (the items without a key are all kept), so no two have the same key; what is
  left out is what is counted as duplicate; and the answer is marked incomplete exactly when a source is not complete.
\<close>

theorem merge_keeps_first_of_every_key:
  assumes "build_transform_registry env tx = Inr reg"
    and "tx_invoke reg ''merge_work_items.v1'' (JDict [(''sources'', JList sources)]) = Inr r"
  shows "dget r ''items'' = JList (map merged_json (first_by stable_key (all_items tx sources))) \<and>
     distinct (filter (\<lambda>k. k \<noteq> []) (map stable_key (first_by stable_key (all_items tx sources)))) \<and>
     dget r ''duplicate_count'' = JInt (int (length (all_items tx sources)) - int (length (first_by stable_key (all_items tx sources)))) \<and>
     dget r ''source_incomplete'' = JBool (\<exists>s \<in> set sources. status_of tx s \<noteq> ''complete'')"
proof -
  have reg: "reg = builtin env tx" using assms(1) by (simp add: builtin_def)
  note * = merge_invoked_Inr[OF assms(2)[unfolded reg]]
  let ?ms = "first_by stable_key (all_items tx sources)"
  have le: "length ?ms \<le> length (all_items tx sources)" by (rule length_first_by)
  have st: "aggregate_status (map (status_of tx) sources) = ''complete'' \<longleftrightarrow> (\<forall>s \<in> set sources. status_of tx s = ''complete'')"
    using *(1) by (simp add: aggregate_status_def list_all_iff)
  have "dget r ''items'' = JList (map merged_json ?ms)" using *(2) by (simp add: merge_answer_def Let_def)
  moreover have "distinct (filter (\<lambda>k. k \<noteq> []) (map stable_key ?ms))" by (rule first_by_distinct)
  moreover have "dget r ''duplicate_count'' = JInt (int (length (all_items tx sources)) - int (length ?ms))"
    using *(2) le by (simp add: merge_answer_def Let_def jnat_def of_nat_diff)
  moreover have "dget r ''source_incomplete'' = JBool (\<exists>s \<in> set sources. status_of tx s \<noteq> ''complete'')"
    using *(2) st by (simp add: merge_answer_def Let_def)
  ultimately show ?thesis by blast
qed

text \<open>
  C37: The draft of a list of items is the longest one that fits. When the transform answers, then for the titled items that are not
  automatic, the first of every identity in the order of the list, the draft consists of the numbered lines of as many of them
  from the front as fit into 4,000 characters, the included items are these, and all others are counted as excluded.
\<close>

theorem log_draft_is_longest_that_fits:
  assumes "build_transform_registry env tx = Inr reg"
    and "tx_invoke reg ''work_items_to_log_draft.v1'' (JDict [(''items'', JList raws)]) = Inr r"
    and "eligible = map snd (first_by fst (log_entries tx raws))"
  shows "\<exists>n \<le> length eligible.
     dget r ''draft'' = JStr (lines_text (numbered (log_line tx) (take n eligible))) \<and>
     length (lines_text (numbered (log_line tx) (take n eligible))) \<le> 4000 \<and>
     (n < length eligible \<longrightarrow> 4000 < length (lines_text (numbered (log_line tx) (take (n + 1) eligible)))) \<and>
     dget r ''included_items'' = JList (map note_json (take n eligible)) \<and>
     dget r ''excluded_count'' = JInt (int (length raws) - int n)"
proof -
  have reg: "reg = builtin env tx" using assms(1) by (simp add: builtin_def)
  from log_draft.invoke_Inr[OF assms(2)[unfolded reg]] have "conforms log_draft_input (JDict [(''items'', JList raws)])"
    "work_items_to_log_draft tx [(''items'', JList raws)] = Inr (JDict r)" by auto
  moreover have "dget [(''items'', JList raws)] ''items'' = JList raws" by (simp add: dget_def)
  ultimately show ?thesis using log_draft_answer[of "[(''items'', JList raws)]" raws tx]
    unfolding assms(3)[symmetric] fills_def by auto
qed

text \<open>
  C38: From sources to a draft nothing incomplete is passed off as complete. When the sources are merged and the answer is drafted,
  then the items of the draft are some of the merged ones in their order, one line each, in at most 4,000 characters; the
  draft is marked incomplete exactly when a source did not cover its range; and a merge of at most 100 items is never refused.
\<close>

theorem merged_sources_can_be_drafted:
  assumes "build_transform_registry env tx = Inr reg"
    and merged: "tx_invoke reg ''merge_work_items.v1'' (JDict [(''sources'', JList sources)]) = Inr r"
    and few: "length (first_by stable_key (all_items tx sources)) \<le> 100"
  shows "\<exists>d included lines. tx_invoke reg ''work_items_to_log_draft.v2'' (JDict [(''bundle'', JDict r)]) = Inr d \<and>
     dget d ''included_items'' = JList (map merged_json included) \<and> subseq included (first_by stable_key (all_items tx sources)) \<and>
     dget d ''draft'' = JStr (lines_text lines) \<and> length lines = length included \<and> length (lines_text lines) \<le> 4000 \<and>
     dget d ''source_incomplete'' = JBool (\<exists>s \<in> set sources. status_of tx s \<noteq> ''complete'')"
proof -
  have reg: "reg = builtin env tx" using assms(1) by (simp add: builtin_def)
  note * = merge_invoked_Inr[OF merged[unfolded reg]]
  let ?ms = "first_by stable_key (all_items tx sources)"
  have valid: "conforms merge_output (JDict r)" and items: "dget r ''items'' = JList (map merged_json ?ms)"
    and st: "jget (dget r ''coverage'') ''status'' = JStr (aggregate_status (map (status_of tx) sources))"
    using *(2) by (simp_all add: merge_answer_def Let_def)
  have need: "need r ''items'' = Inr (JList (map merged_json ?ms))"
    using merge_output_need(1)[OF valid] items by (auto simp: dget_def need_map_of)
  let ?args = "[(''bundle'', JDict r)]"
  have got: "need ?args ''bundle'' = Inr (JDict r)" by (simp add: need_def)
  have args: "conforms log_draft_v2_input (JDict ?args)" unfolding log_draft_v2_input_def by (subst conforms_object) (simp add: valid)
  let ?es = "first_by fst (bundle_entries tx (map merged_json ?ms))"
  from draft_v2_answer[OF got valid need, of tx] obtain n d where d:
    "work_items_to_log_draft_v2 tx ?args = Inr (JDict d)" "fills (bundle_line tx) (map snd ?es) n"
    "dget d ''draft'' = JStr (lines_text (numbered (bundle_line tx) (take n (map snd ?es))))"
    "dget d ''included_items'' = JList (map merged_json (map (snd \<circ> snd) (take n ?es)))"
    "dget d ''source_incomplete'' = JBool (jget (dget r ''coverage'') ''status'' \<noteq> JStr ''complete'')" by blast
  have run: "tx_invoke reg ''work_items_to_log_draft.v2'' (JDict ?args) = Inr d"
    unfolding reg by (rule draft_v2.invoke_few[OF _ _ _ d(1)]) (use args few in \<open>simp_all add: log_draft_v2_spec_def count_with_def items dget_def[of ?args]\<close>)
  have "subseq (map (snd \<circ> snd) (take n ?es)) (map (snd \<circ> snd) (bundle_entries tx (map merged_json ?ms)))"
    by (intro subseq_map subseq_order.trans[OF subseq_take subseq_first_by])
  then have "subseq (map (snd \<circ> snd) (take n ?es)) ?ms"
    unfolding bundle_entries_merged by (rule subseq_order.trans) (rule subseq_filter_left)
  moreover have "JStr (aggregate_status (map (status_of tx) sources)) \<noteq> JStr ''complete'' \<longleftrightarrow> (\<exists>s \<in> set sources. status_of tx s \<noteq> ''complete'')"
    using *(1) by (auto simp: aggregate_status_def list_all_iff)
  ultimately show ?thesis using run d(2-5) unfolding st fills_def
    by (intro exI[of _ d] exI[of _ "map (snd \<circ> snd) (take n ?es)"] exI[of _ "numbered (bundle_line tx) (take n (map snd ?es))"]) simp
qed

section \<open>Examples\<close>

definition tx_demo_texts :: draft_texts where
  "tx_demo_texts = \<lparr>dt_repr = (\<lambda>_. ''?''), dt_casefold = py_lower, dt_markers = [''auto-start''], dt_comma = '','', dt_open = ''('',
     dt_close = '')'', dt_quote = ''<'', dt_unquote = ''>'', dt_stop = ''.'', dt_handled = ''handled '', dt_started = ''started '',
     dt_processed = ''processed '', dt_descriptions = ([], [], [])\<rparr>"

definition tx_demo_env :: py_env where
  "tx_demo_env = \<lparr>sha_text = (\<lambda>_. ''h''), sha_json = (\<lambda>_. ''d''), ip_literal = (\<lambda>_. False)\<rparr>"

definition tx_demo_coverage :: json where
  "tx_demo_coverage = JDict [(''status'', JStr ''complete''), (''queryApplied'', JBool True), (''dateBasis'', JStr ''processed_at''),
     (''requestedRange'', JDict [(''start'', JNull), (''end'', JNull)]), (''scannedCount'', JInt 2), (''matchedCount'', JInt 2),
     (''hasMore'', JBool False), (''completionReason'', JStr ''x''), (''observedAt'', JStr ''t''), (''queryHash'', JStr ''q'')]"

definition tx_demo_items :: "json list" where
  "tx_demo_items = [JDict [(''affair_id'', JStr ''1''), (''title'', JStr ''a'')], JDict [(''affair_id'', JStr ''1''), (''title'', JStr ''b'')]]"

definition tx_demo_sources :: "json list" where
  "tx_demo_sources = [JDict [(''collection'', JStr ''done''), (''items'', JList tx_demo_items), (''coverage'', tx_demo_coverage)]]"

lemma tx_demo_built: "build_transform_registry tx_demo_env tx_demo_texts = Inr (builtin tx_demo_env tx_demo_texts)"
  by (simp add: builtin_def registry_built)

lemma tx_demo_runs:
  "\<exists>r. tx_invoke (builtin tx_demo_env tx_demo_texts) ''merge_work_items.v1'' (JDict [(''sources'', JList tx_demo_sources)]) = Inr r"
  "\<exists>r. tx_invoke (builtin tx_demo_env tx_demo_texts) ''work_items_to_log_draft.v1'' (JDict [(''items'', JList tx_demo_items)]) = Inr r"
proof -
  have 1: "\<not> isl (tx_invoke (builtin tx_demo_env tx_demo_texts) ''merge_work_items.v1'' (JDict [(''sources'', JList tx_demo_sources)]))" by code_simp
  have 2: "\<not> isl (tx_invoke (builtin tx_demo_env tx_demo_texts) ''work_items_to_log_draft.v1'' (JDict [(''items'', JList tx_demo_items)]))" by code_simp
  show "\<exists>r. tx_invoke (builtin tx_demo_env tx_demo_texts) ''merge_work_items.v1'' (JDict [(''sources'', JList tx_demo_sources)]) = Inr r"
    using 1 by (cases "tx_invoke (builtin tx_demo_env tx_demo_texts) ''merge_work_items.v1'' (JDict [(''sources'', JList tx_demo_sources)])") auto
  show "\<exists>r. tx_invoke (builtin tx_demo_env tx_demo_texts) ''work_items_to_log_draft.v1'' (JDict [(''items'', JList tx_demo_items)]) = Inr r"
    using 2 by (cases "tx_invoke (builtin tx_demo_env tx_demo_texts) ''work_items_to_log_draft.v1'' (JDict [(''items'', JList tx_demo_items)])") auto
qed

text \<open>The merge of no sources passes its input schema and raises.\<close>

lemma merge_of_nothing_raises:
  "tx_invoke (builtin tx_demo_env tx_demo_texts) ''merge_work_items.v1'' (JDict [(''sources'', JList [])]) = Inl TxValueError"
  by code_simp

theorem transforms_answer_or_reject_input_witness:
  "\<exists>spec r. tx_get ''merge_work_items.v1'' (builtin tx_demo_env tx_demo_texts) = Inr spec \<and> conforms (tf_output spec) (JDict r) \<and>
     tx_invoke (builtin tx_demo_env tx_demo_texts) ''merge_work_items.v1'' (JDict [(''sources'', JList tx_demo_sources)]) = Inr r"
proof -
  obtain r where r: "tx_invoke (builtin tx_demo_env tx_demo_texts) ''merge_work_items.v1'' (JDict [(''sources'', JList tx_demo_sources)]) = Inr r"
    using tx_demo_runs(1) by blast
  from transforms_answer_or_reject_input[OF _ tx_demo_built, of "''merge_work_items.v1''" "JDict [(''sources'', JList tx_demo_sources)]"] r
  show ?thesis by auto
qed

lemma first_by_two: "map f xs = [a, b] \<Longrightarrow> map key xs = [c, c] \<Longrightarrow> c \<noteq> [] \<Longrightarrow> map f (first_by key xs) = [a]"
  by (auto simp: map_eq_Cons_conv first_by_Cons)

theorem merge_keeps_first_of_every_key_witness:
  "\<exists>r. dget r ''items'' = JList (map merged_json (first_by stable_key (all_items tx_demo_texts tx_demo_sources))) \<and>
     map mi_title (first_by stable_key (all_items tx_demo_texts tx_demo_sources)) = [''a'']"
proof -
  obtain r where r: "tx_invoke (builtin tx_demo_env tx_demo_texts) ''merge_work_items.v1'' (JDict [(''sources'', JList tx_demo_sources)]) = Inr r"
    using tx_demo_runs(1) by blast
  have "map mi_title (all_items tx_demo_texts tx_demo_sources) = [''a'', ''b'']"
    "map stable_key (all_items tx_demo_texts tx_demo_sources) = [''done:1'', ''done:1'']" by code_simp+
  from first_by_two[OF this] have "map mi_title (first_by stable_key (all_items tx_demo_texts tx_demo_sources)) = [''a'']" by simp
  from conjI[OF conjunct1[OF merge_keeps_first_of_every_key[OF tx_demo_built r]] this] show ?thesis by (rule exI[of _ r])
qed

theorem log_draft_is_longest_that_fits_witness:
  "\<exists>r n. dget r ''excluded_count'' = JInt (2 - int n) \<and> n \<le> length (map snd (first_by fst (log_entries tx_demo_texts tx_demo_items)))"
proof -
  obtain r where r: "tx_invoke (builtin tx_demo_env tx_demo_texts) ''work_items_to_log_draft.v1'' (JDict [(''items'', JList tx_demo_items)]) = Inr r"
    using tx_demo_runs(2) by blast
  from log_draft_is_longest_that_fits[OF tx_demo_built r refl] show ?thesis by (auto simp: tx_demo_items_def)
qed

theorem merged_sources_can_be_drafted_witness:
  "\<exists>r d. tx_invoke (builtin tx_demo_env tx_demo_texts) ''work_items_to_log_draft.v2'' (JDict [(''bundle'', JDict r)]) = Inr d \<and>
     dget d ''source_incomplete'' = JBool False"
proof -
  obtain r where r: "tx_invoke (builtin tx_demo_env tx_demo_texts) ''merge_work_items.v1'' (JDict [(''sources'', JList tx_demo_sources)]) = Inr r"
    using tx_demo_runs(1) by blast
  have "length (all_items tx_demo_texts tx_demo_sources) = 2" by code_simp
  then have "length (first_by stable_key (all_items tx_demo_texts tx_demo_sources)) \<le> 100"
    using length_first_by[of stable_key "all_items tx_demo_texts tx_demo_sources"] by linarith
  from merged_sources_can_be_drafted[OF tx_demo_built r this] obtain d where
    d: "tx_invoke (builtin tx_demo_env tx_demo_texts) ''work_items_to_log_draft.v2'' (JDict [(''bundle'', JDict r)]) = Inr d"
      "dget d ''source_incomplete'' = JBool (\<exists>s \<in> set tx_demo_sources. status_of tx_demo_texts s \<noteq> ''complete'')" by blast
  have "list_all (\<lambda>s. status_of tx_demo_texts s = ''complete'') tx_demo_sources" by code_simp
  then show ?thesis using d by (auto simp: list_all_iff)
qed

end
