(* ===== verification/PlanRuntime.thy ===== *)
theory PlanRuntime
  imports TaskPlans CapabilityEngine PlanValidation Transforms
begin

text \<open>
  The coordinator of task plans, \<open>agentbridge/core/task_plan_runtime.py\<close>, with the projections it stores and answers
  (\<open>task_projections.py\<close>, \<open>task_plans.py\<close>). It drives the plan store, runs capabilities through the central
  service and transforms under operations of their own. The service, the task ledger and the interactions behind it are functions on
  the state of the deployment (\<open>rt_service\<close>), which may raise and may use the stores themselves. The lock of a
  plan keeps other calls of the runtime for the same plan out.
\<close>

section \<open>State and exceptions\<close>

text \<open>The plan and operation stores, and everything else (\<open>'x\<close>). Readings of the clock and fresh identifiers are numbered.\<close>

record 'x rt_db =
  rt_plans :: tp_db
  rt_operations :: op_db
  rt_tick :: nat
  rt_other :: 'x

text \<open>
  \<open>RxCoded\<close> is a \<open>PlanValidationError\<close> of the service or of the runtime, with its code and message; \<open>RxValidation\<close> one
  of the validator.
\<close>

datatype rt_exn =
    RxCoded string string
  | RxPlans "unit tp_error"
  | RxOperations op_error
  | RxRegistry cap_error
  | RxTransform tx_error
  | RxValidation pv_error
  | RxService string
  | RxShape
  | RxStopIteration

type_synonym ('x, 'a) rt = "'x rt_db \<Rightarrow> (rt_exn + 'a) \<times> 'x rt_db"

definition rt_return :: "'a \<Rightarrow> ('x, 'a) rt" where
  "rt_return a db = (Inr a, db)"

definition rt_raise :: "rt_exn \<Rightarrow> ('x, 'a) rt" where
  "rt_raise e db = (Inl e, db)"

definition rt_bind :: "('x, 'a) rt \<Rightarrow> ('a \<Rightarrow> ('x, 'b) rt) \<Rightarrow> ('x, 'b) rt" where
  "rt_bind m f db = (case m db of (Inl e, db') \<Rightarrow> (Inl e, db') | (Inr a, db') \<Rightarrow> f a db')"

text \<open>\<open>try: ... except Exception\<close>; what the body has written stays.\<close>

definition rt_catch :: "('x, 'a) rt \<Rightarrow> (rt_exn \<Rightarrow> ('x, 'a) rt) \<Rightarrow> ('x, 'a) rt" where
  "rt_catch m h db = (case m db of (Inl e, db') \<Rightarrow> h e db' | (Inr a, db') \<Rightarrow> (Inr a, db'))"

definition rt_swallow :: "('x, unit) rt \<Rightarrow> ('x, unit) rt" where
  "rt_swallow m = rt_catch m (\<lambda>_. rt_return ())"

definition rt_when :: "bool \<Rightarrow> ('x, unit) rt \<Rightarrow> ('x, unit) rt" where
  "rt_when c m = (if c then m else rt_return ())"

definition rt_lift :: "('e \<Rightarrow> rt_exn) \<Rightarrow> 'e + 'a \<Rightarrow> ('x, 'a) rt" where
  "rt_lift f out = (case out of Inl e \<Rightarrow> rt_raise (f e) | Inr a \<Rightarrow> rt_return a)"

section \<open>Responses\<close>

record step_view =
  vs_key :: string
  vs_ordinal :: int
  vs_kind :: string
  vs_title :: string
  vs_capability :: "string option"
  vs_transform :: "string option"
  vs_system :: string
  vs_effect :: string
  vs_state :: ts_state
  vs_operation :: "string option"
  vs_interaction :: "string option"
  vs_error :: "string option"

record plan_view =
  vp_schema :: string
  vp_plan :: string
  vp_task :: string
  vp_goal :: string
  vp_revision :: nat
  vp_state :: tp_state
  vp_current :: "string option"
  vp_risk :: json
  vp_terminal_reason :: "string option"
  vp_effect_outcome :: "string option"
  vp_temporal :: "json option"
  vp_projection :: "json option"
  vp_created :: time
  vp_updated :: time
  vp_finished :: "time option"
  vp_counts :: "(ts_state \<times> nat) list"
  vp_steps :: "step_view list"

definition step_response :: "ts_row \<Rightarrow> step_view" where
  "step_response s =
     \<lparr>vs_key = ts_key s, vs_ordinal = ts_ordinal s, vs_kind = ts_kind s, vs_title = ts_title s, vs_capability = ts_capability s,
      vs_transform = ts_transform s, vs_system = ts_system s, vs_effect = ts_effect s, vs_state = ts_state s,
      vs_operation = ts_operation s, vs_interaction = ts_interaction s, vs_error = ts_error_code s\<rparr>"

definition task_plan_response :: "tp_snapshot \<Rightarrow> plan_view" where
  "task_plan_response sn = (let p = sn_plan sn in
     \<lparr>vp_schema = or_text (tp_schema p) ''agentbridge.task-plan.proposal.v1'', vp_plan = tp_id p, vp_task = tp_task p, vp_goal = tp_goal p,
      vp_revision = tp_revision p, vp_state = tp_state p, vp_current = tp_current p, vp_risk = tp_risk p,
      vp_terminal_reason = tp_terminal_reason p, vp_effect_outcome = tp_effect_outcome p, vp_temporal = tp_temporal p,
      vp_projection = tp_projection p, vp_created = tp_created_at p, vp_updated = tp_updated_at p, vp_finished = tp_finished_at p,
      vp_counts = sn_counts sn, vp_steps = map step_response (sn_steps sn)\<rparr>)"

record rt_response =
  rr_status :: string
  rr_operation :: "string option"
  rr_interaction :: "json option"
  rr_error :: "(string \<times> string) option"
  rr_next_action :: "json option"
  rr_plan :: plan_view

definition report_failure :: json where
  "report_failure = JDict [(''type'', JStr ''report_plan_failure''), (''doNotRetryAtomicTools'', JBool True), (''businessWriteOccurred'', JBool False),
     (''source'', JStr ''plan.resultProjection.result.source_summaries'')]"

definition wait_for_verification :: json where
  "wait_for_verification = JDict [(''type'', JStr ''wait_for_verification''), (''doNotRetry'', JBool True)]"

definition plan_status :: "tp_state \<Rightarrow> string" where
  "plan_status st = (case st of PlSucceeded \<Rightarrow> ''succeeded'' | PlFailed \<Rightarrow> ''failed'' | PlOutcomeUnknown \<Rightarrow> ''outcome_unknown''
     | PlCanceled \<Rightarrow> ''canceled'' | PlWaitingUser \<Rightarrow> ''requires_user_action'' | _ \<Rightarrow> ''running'')"

definition plan_result_response :: "tp_snapshot \<Rightarrow> rt_response" where
  "plan_result_response sn = (let p = sn_plan sn;
       status = plan_status (tp_state p) in
     \<lparr>rr_status = status, rr_operation = None, rr_interaction = None, rr_error = None,
      rr_next_action =
        (if tp_terminal_reason p = Some ''PLAN_SOURCE_INCOMPLETE'' then Some report_failure
         else if status = ''succeeded'' \<and> (case tp_projection p of None \<Rightarrow> False | Some v \<Rightarrow> truthy v)
         then Some (JDict [(''type'', JStr ''report_plan_result''), (''source'', JStr ''plan.resultProjection.result''), (''doNotQueryOperations'', JBool True)])
         else None),
      rr_plan = task_plan_response sn\<rparr>)"

section \<open>The service and its calls\<close>

text \<open>What the runtime asks of the task ledger.\<close>

datatype task_call =
    TkEvent tp_plan string items "string option"
  | TkLinkOperation tp_plan op_row string
  | TkLinkInteraction tp_plan string json
  | TkComplete tp_plan
  | TkUnknown tp_plan string "string option"
  | TkFail tp_plan string string "string option"
  | TkCancel tp_plan

text \<open>
  A call of the service: it may raise, it changes its own state, and it reaches the stores through their operations only, any number of
  transactions of any kind, its own or those of others that run in the meantime.
\<close>

type_synonym ('x, 'a) svc = "'x rt_db \<Rightarrow> (rt_exn + 'a) \<times> unit tp_op list \<times> op_op list \<times> 'x"

record 'x rt_service =
  sv_registry :: registry
  sv_transforms :: tx_registry
  sv_invoke :: "cap_call \<Rightarrow> string \<Rightarrow> ('x, response) svc"
  sv_authority :: "tp_snapshot \<Rightarrow> ('x, unit) svc"
  sv_load :: "string \<Rightarrow> string \<Rightarrow> ('x, json) svc"
  sv_tasks :: "task_call \<Rightarrow> ('x, unit) svc"
  sv_retire :: "tp_snapshot \<Rightarrow> json option \<Rightarrow> ('x, unit) svc"

text \<open>
  The digests, the clock, the fresh identifiers, the texts of exceptions (\<open>str(exc) or exc.__class__.__name__\<close>), the repr of
  a value that is not a text, and the fixed messages.
\<close>

record rt_env =
  re_py :: py_env
  re_clock :: "nat \<Rightarrow> time"
  re_uuid :: "nat \<Rightarrow> string"
  re_started_at :: time
  re_exception :: "rt_exn \<Rightarrow> string"
  re_repr :: "json \<Rightarrow> string"
  re_validation :: "pv_error \<Rightarrow> string"
  re_message :: "string \<Rightarrow> string"

definition rt_call :: "rt_env \<Rightarrow> ('x, 'a) svc \<Rightarrow> ('x, 'a) rt" where
  "rt_call env f db = (case f db of (out, plan_ops, op_ops, x) \<Rightarrow>
     (out, db\<lparr>rt_plans := run tp_exec plan_ops (rt_plans db), rt_operations := run (op_exec (re_py env)) op_ops (rt_operations db), rt_other := x\<rparr>))"

definition rt_tick_now :: "('x, nat) rt" where
  "rt_tick_now db = (Inr (rt_tick db), db\<lparr>rt_tick := Suc (rt_tick db)\<rparr>)"

text \<open>One transaction of a store; on an exception it is rolled back.\<close>

definition on_plans :: "rt_env \<Rightarrow> (time \<Rightarrow> tp_db \<Rightarrow> unit tp_error + ('a \<times> tp_db)) \<Rightarrow> ('x, 'a) rt" where
  "on_plans env f = rt_bind rt_tick_now (\<lambda>n db.
     case f (re_clock env n) (rt_plans db) of
       Inl e \<Rightarrow> (Inl (RxPlans e), db)
     | Inr (a, plans) \<Rightarrow> (Inr a, db\<lparr>rt_plans := plans\<rparr>))"

definition read_plans :: "(tp_db \<Rightarrow> unit tp_error + 'a) \<Rightarrow> ('x, 'a) rt" where
  "read_plans f db = (case f (rt_plans db) of Inl e \<Rightarrow> (Inl (RxPlans e), db) | Inr a \<Rightarrow> (Inr a, db))"

definition on_operations :: "rt_env \<Rightarrow> (time \<Rightarrow> op_db \<Rightarrow> op_error + ('a \<times> op_db)) \<Rightarrow> ('x, 'a) rt" where
  "on_operations env f = rt_bind rt_tick_now (\<lambda>n db.
     case f (re_clock env n) (rt_operations db) of
       Inl e \<Rightarrow> (Inl (RxOperations e), db)
     | Inr (a, ops) \<Rightarrow> (Inr a, db\<lparr>rt_operations := ops\<rparr>))"

definition read_operation :: "string \<Rightarrow> ('x, op_view) rt" where
  "read_operation i db = (case op_get i (rt_operations db) of Inl e \<Rightarrow> (Inl (RxOperations e), db) | Inr v \<Rightarrow> (Inr v, db))"

text \<open>A coded exception keeps its code; every other is an execution failure of the step.\<close>

definition plan_error_of :: "rt_env \<Rightarrow> rt_exn \<Rightarrow> (string \<times> string) option" where
  "plan_error_of env e =
     (case e of
        RxCoded code msg \<Rightarrow> Some (code, msg)
      | RxValidation (PlanError code k) \<Rightarrow> Some (code, re_validation env (PlanError code k))
      | _ \<Rightarrow> None)"

definition coded :: "rt_env \<Rightarrow> string \<Rightarrow> rt_exn \<Rightarrow> string \<times> string" where
  "coded env other e =
     (case plan_error_of env e of
        Some x \<Rightarrow> x
      | None \<Rightarrow> (case e of RxTransform (TxRejected code msg) \<Rightarrow> (code, msg) | _ \<Rightarrow> (other, re_exception env e)))"

section \<open>Outcomes of a step\<close>

definition rt_get :: "tp_plan \<Rightarrow> ('x, tp_snapshot) rt" where
  "rt_get p = read_plans (tp_get (tp_id p) (tp_user p))"

definition step_event_payload :: "tp_plan \<Rightarrow> ts_row \<Rightarrow> items" where
  "step_event_payload p s = [(''planId'', JStr (tp_id p)), (''stepKey'', JStr (ts_key s)), (''ordinal'', JInt (ts_ordinal s)),
     (''systemId'', JStr (ts_system s)), (''kind'', JStr (ts_kind s))]"

definition rt_tasks :: "rt_env \<Rightarrow> 'x rt_service \<Rightarrow> task_call \<Rightarrow> ('x, unit) rt" where
  "rt_tasks env sv c = rt_call env (sv_tasks sv c)"

definition rt_event :: "rt_env \<Rightarrow> 'x rt_service \<Rightarrow> tp_plan \<Rightarrow> string \<Rightarrow> items \<Rightarrow> string option \<Rightarrow> ('x, unit) rt" where
  "rt_event env sv p type payload cause = rt_tasks env sv (TkEvent p type payload cause)"

text \<open>\<open>_complete_plan\<close>; the plan is named by its identifier and its user.\<close>

definition completion_effect :: "string \<Rightarrow> tp_snapshot \<Rightarrow> string" where
  "completion_effect reason current =
     (if reason = ''no_eligible_source_items'' then ''no_effect''
      else if list_ex (\<lambda>s. ts_effect s \<noteq> ''read'' \<and> ts_state s = StSucceeded) (sn_steps current) then ''write_verified''
      else ''preview_ready'')"

definition complete_plan :: "rt_env \<Rightarrow> 'x rt_service \<Rightarrow> string \<Rightarrow> string \<Rightarrow> string \<Rightarrow> bool \<Rightarrow> ('x, rt_response) rt" where
  "complete_plan env sv pid user reason skip =
     rt_bind (read_plans (tp_get pid user)) (\<lambda>current.
     rt_bind (on_plans env (\<lambda>now. tp_complete now pid user reason skip (Some (completion_effect reason current)))) (\<lambda>done_plan.
     let p = sn_plan done_plan in
     rt_bind (rt_event env sv p ''plan.completed'' [(''planId'', JStr pid), (''status'', JStr ''succeeded''), (''reason'', JStr reason)] (Some pid)) (\<lambda>_.
     rt_bind (rt_swallow (rt_tasks env sv (TkComplete p))) (\<lambda>_.
     rt_return (plan_result_response done_plan)))))"

text \<open>\<open>_fail_plan\<close>; \<open>unknown\<close> says that the state is \<open>outcome_unknown\<close> and not \<open>failed\<close>.\<close>

definition failure_effect :: "string \<Rightarrow> bool \<Rightarrow> string option" where
  "failure_effect code unknown =
     (if code = ''PLAN_SOURCE_INCOMPLETE'' then Some ''source_incomplete'' else if unknown then Some ''outcome_unknown'' else None)"

definition fail_active_plan ::
  "rt_env \<Rightarrow> 'x rt_service \<Rightarrow> tp_plan \<Rightarrow> ts_row \<Rightarrow> string option \<Rightarrow> bool \<Rightarrow> string \<Rightarrow> string \<Rightarrow> tp_snapshot \<Rightarrow> ('x, rt_response) rt" where
  "fail_active_plan env sv p s operation unknown code msg current =
     (let state = (if unknown then ''outcome_unknown'' else ''failed'') in
     rt_bind (on_plans env (\<lambda>now. tp_mark_step_failed now (tp_id p) (tp_user p) (ts_key s) operation state code msg (failure_effect code unknown))) (\<lambda>updated.
     rt_bind (rt_event env sv (sn_plan updated) (if unknown then ''plan.outcome_unknown'' else ''plan.step.failed'')
        (step_event_payload (sn_plan updated) s @ [(''errorCode'', JStr code)]) (Some (or_text operation (tp_id p)))) (\<lambda>_.
     rt_bind (rt_swallow (rt_tasks env sv (if unknown then TkUnknown p code operation else TkFail p code (take 500 msg) operation))) (\<lambda>_.
     rt_bind (rt_call env (sv_retire sv current None)) (\<lambda>_.
     rt_return \<lparr>rr_status = state, rr_operation = operation, rr_interaction = None, rr_error = Some (code, take 500 msg),
       rr_next_action = (if code = ''PLAN_SOURCE_INCOMPLETE'' then Some report_failure else None),
       rr_plan = task_plan_response updated\<rparr>)))))"

definition fail_plan ::
  "rt_env \<Rightarrow> 'x rt_service \<Rightarrow> tp_plan \<Rightarrow> ts_row \<Rightarrow> string option \<Rightarrow> bool \<Rightarrow> string \<Rightarrow> string \<Rightarrow> ('x, rt_response) rt" where
  "fail_plan env sv p s operation unknown code msg =
     rt_bind (rt_get p) (\<lambda>current.
     if tp_state (sn_plan current) \<notin> active_plan_states then rt_return (plan_result_response current)
     else fail_active_plan env sv p s operation unknown code msg current)"

definition waiting_result :: "rt_env \<Rightarrow> 'x rt_service \<Rightarrow> tp_snapshot \<Rightarrow> ts_row \<Rightarrow> ('x, rt_response) rt" where
  "waiting_result env sv plan s =
     rt_bind (if filled (ts_interaction s)
              then rt_bind (rt_call env (sv_load sv (tp_user (sn_plan plan)) (or_text (ts_interaction s) []))) (\<lambda>i. rt_return (Some i)) else rt_return None) (\<lambda>i.
     rt_return \<lparr>rr_status = ''requires_user_action'', rr_operation = ts_operation s, rr_interaction = i, rr_error = None,
       rr_next_action = None, rr_plan = task_plan_response plan\<rparr>)"

text \<open>\<open>_has_write_sink\<close>: a capability that is no longer registered is passed over.\<close>

definition has_write_sink :: "'x rt_service \<Rightarrow> tp_snapshot \<Rightarrow> bool" where
  "has_write_sink sv plan = list_ex (\<lambda>s. filled (ts_capability s) \<and>
     (case registry_get (or_text (ts_capability s) []) (sv_registry sv) of Inl _ \<Rightarrow> False | Inr spec \<Rightarrow> cap_effect spec \<noteq> ''read'')) (sn_steps plan)"

text \<open>The references of a binding: one, or the items of a binding of mode \<open>many\<close>.\<close>

definition reference_list :: "json \<Rightarrow> rt_exn + items list" where
  "reference_list v =
     (case v of
        JDict b \<Rightarrow>
          if dget b ''mode'' = JStr ''many'' then
            (if \<not> truthy (dget b ''items'') then Inr []
             else case dget b ''items'' of
                JList xs \<Rightarrow> mapE (\<lambda>x. case x of JDict d \<Rightarrow> Inr d | _ \<Rightarrow> Inl RxShape) xs
              | _ \<Rightarrow> Inl RxShape)
          else Inr [b]
      | _ \<Rightarrow> Inl RxShape)"

definition text_at :: "items \<Rightarrow> string \<Rightarrow> rt_exn + string" where
  "text_at d k = (case map_of d k of Some (JStr s) \<Rightarrow> Inr s | _ \<Rightarrow> Inl RxShape)"

definition binding_items :: "ts_row \<Rightarrow> rt_exn + items" where
  "binding_items s = (if \<not> truthy (ts_bindings s) then Inr [] else case ts_bindings s of JDict d \<Rightarrow> Inr d | _ \<Rightarrow> Inl RxShape)"

definition projected_keys :: "string \<Rightarrow> string list" where
  "projected_keys kind =
     (if kind = ''private_draft''
      then [''draft'', ''empty'', ''source_incomplete'', ''source_count'', ''included_count'', ''excluded_count'',
            ''excluded_automatic_count'', ''excluded_duplicate_count'', ''source_summaries'', ''coverage'']
      else [''items'', ''source_summaries'', ''coverage'', ''source_incomplete'', ''empty'', ''source_count'', ''item_count'', ''duplicate_count''])"

definition build_plan_result_projection :: "rt_env \<Rightarrow> string \<Rightarrow> ts_row \<Rightarrow> string \<Rightarrow> items \<Rightarrow> rt_exn + items" where
  "build_plan_result_projection env kind s operation result =
     ebind (binding_items s) (\<lambda>bindings.
     ebind (mapE (\<lambda>(k, b). ebind (reference_list b) (mapE (\<lambda>r. text_at r ''step''))) bindings) (\<lambda>steps.
     Inr [(''schemaVersion'', JStr ''agentbridge.plan-result-projection.v1''), (''visibility'', JStr ''user_private''), (''kind'', JStr kind),
       (''stepKey'', JStr (ts_key s)), (''operationId'', JStr operation), (''resultHash'', JStr (sha_json (re_py env) (canon (JDict result)))),
       (''sourceSteps'', JList (map JStr (sorted_set (concat steps)))),
       (''result'', JDict (map (\<lambda>k. (k, dget result k)) (projected_keys kind)))]))"

definition int_or_zero :: "json \<Rightarrow> rt_exn + int" where
  "int_or_zero v = (if \<not> truthy v then Inr 0 else case v of JInt n \<Rightarrow> Inr n | _ \<Rightarrow> Inl RxShape)"

definition store_result_projection ::
  "rt_env \<Rightarrow> 'x rt_service \<Rightarrow> tp_snapshot \<Rightarrow> ts_row \<Rightarrow> string \<Rightarrow> items \<Rightarrow> ('x, unit) rt" where
  "store_result_projection env sv plan s operation result =
     (let p = sn_plan plan in
     rt_bind (rt_lift RxTransform (tx_get (or_text (ts_transform s) []) (sv_transforms sv))) (\<lambda>spec.
     if \<not> filled (tf_result_projection spec) then rt_return ()
     else let kind = or_text (tf_result_projection spec) [] in
       rt_bind (rt_lift id (build_plan_result_projection env kind s operation result)) (\<lambda>projection.
       rt_bind (on_plans env (\<lambda>now. tp_set_result_projection now (tp_id p) (tp_user p) (JDict projection))) (\<lambda>updated.
       if kind = ''private_draft'' then
         rt_bind (rt_lift id (int_or_zero (dget result ''included_count''))) (\<lambda>included.
         rt_bind (rt_lift id (int_or_zero (dget result ''excluded_count''))) (\<lambda>excluded.
         rt_event env sv (sn_plan updated) ''plan.result.ready''
           [(''planId'', JStr (tp_id p)), (''stepKey'', JStr (ts_key s)), (''kind'', JStr kind), (''resultHash'', dget projection ''resultHash''),
            (''includedCount'', JInt included), (''excludedCount'', JInt excluded)] (Some operation)))
       else rt_return ()))))"

text \<open>\<open>result.get("source_incomplete") is True or (result.get("coverage") or {}).get("status") != "complete"\<close>\<close>

definition result_incomplete :: "items \<Rightarrow> rt_exn + bool" where
  "result_incomplete result =
     (if dget result ''source_incomplete'' = JBool True then Inr True
      else let c = dget result ''coverage'' in
        if \<not> truthy c then Inr True
        else case c of JDict d \<Rightarrow> Inr (\<not> py_eq (dget d ''status'') (JStr ''complete'')) | _ \<Rightarrow> Inl RxShape)"

definition dict_of :: "json option \<Rightarrow> items option" where
  "dict_of v = (case v of Some (JDict d) \<Rightarrow> Some d | _ \<Rightarrow> None)"

definition step_succeeded_now ::
  "rt_env \<Rightarrow> 'x rt_service \<Rightarrow> tp_snapshot \<Rightarrow> ts_row \<Rightarrow> string \<Rightarrow> op_row \<Rightarrow> ('x, rt_response option) rt" where
  "step_succeeded_now env sv plan s oid operation =
     (let p = sn_plan plan; result = op_result operation in
     rt_bind (on_plans env (\<lambda>now. tp_mark_step_succeeded now (tp_id p) (tp_user p) (ts_key s) oid (Some (op_input_hash operation))
         (Some (sha_json (re_py env) (canon (case result of None \<Rightarrow> JNull | Some v \<Rightarrow> v)))))) (\<lambda>updated.
     rt_bind (rt_event env sv (sn_plan updated) ''plan.step.succeeded'' (step_event_payload (sn_plan updated) s) (Some oid)) (\<lambda>_.
     if ts_kind s = ''transform'' then
       rt_bind (rt_lift RxTransform (tx_get (or_text (ts_transform s) []) (sv_transforms sv))) (\<lambda>spec.
       if tf_halts_on_empty spec \<and> (case dict_of result of None \<Rightarrow> False | Some d \<Rightarrow> dget d ''empty'' = JBool True)
       then rt_bind (complete_plan env sv (tp_id p) (tp_user p) ''no_eligible_source_items'' True) (\<lambda>r. rt_return (Some r))
       else rt_return None)
     else rt_return None)))"

definition step_waits ::
  "rt_env \<Rightarrow> 'x rt_service \<Rightarrow> tp_snapshot \<Rightarrow> ts_row \<Rightarrow> string \<Rightarrow> op_row \<Rightarrow> response \<Rightarrow> items \<Rightarrow> ('x, rt_response) rt" where
  "step_waits env sv plan s oid operation resp interaction =
     (let p = sn_plan plan;
          iid = (case dget interaction ''interactionId'' of JStr i \<Rightarrow> i | v \<Rightarrow> re_repr env v) in
     rt_bind (on_plans env (\<lambda>now. tp_mark_step_waiting now (tp_id p) (tp_user p) (ts_key s) oid iid (Some (op_input_hash operation)))) (\<lambda>updated.
     rt_bind (rt_call env (sv_load sv (tp_user p) iid)) (\<lambda>envelope.
     rt_bind (rt_tasks env sv (TkLinkInteraction p iid envelope)) (\<lambda>_.
     let kind = (case envelope of JDict d \<Rightarrow> dget d ''type'' | _ \<Rightarrow> JNull) in
     rt_bind (rt_event env sv (sn_plan updated) (if py_eq kind (JStr ''execution_authorization'') then ''plan.authorization.waiting'' else ''plan.step.waiting'')
        (step_event_payload (sn_plan updated) s @ [(''interactionId'', JStr iid), (''interactionType'', kind)]) (Some iid)) (\<lambda>_.
     rt_return \<lparr>rr_status = ''requires_user_action'', rr_operation = Some oid, rr_interaction = Some (JDict interaction), rr_error = None,
       rr_next_action = rs_next_action resp, rr_plan = task_plan_response updated\<rparr>)))))"

text \<open>\<open>_consume_step_response\<close>: \<open>None\<close> lets the plan go on.\<close>

definition consume_step_response ::
  "rt_env \<Rightarrow> 'x rt_service \<Rightarrow> tp_snapshot \<Rightarrow> ts_row \<Rightarrow> response \<Rightarrow> ('x, rt_response option) rt" where
  "consume_step_response env sv plan s resp =
     (let p = sn_plan plan; oid = py_strip (rs_operation resp);
          fail = (\<lambda>operation unknown code msg. rt_bind (fail_plan env sv p s operation unknown code msg) (\<lambda>r. rt_return (Some r))) in
     if oid = [] then fail None False ''PLAN_OPERATION_MISSING'' (re_message env ''PLAN_OPERATION_MISSING'')
     else
       rt_bind (read_operation oid) (\<lambda>v.
       let operation = ov_row v in
       rt_bind (rt_tasks env sv (TkLinkOperation p operation (ts_key s))) (\<lambda>_.
       case rs_status resp of
         OpPending \<Rightarrow> rt_bind (rt_get p) (\<lambda>sn. rt_return (Some \<lparr>rr_status = ''running'', rr_operation = Some oid, rr_interaction = None,
             rr_error = None, rr_next_action = None, rr_plan = task_plan_response sn\<rparr>))
       | OpRunning \<Rightarrow> rt_bind (rt_get p) (\<lambda>sn. rt_return (Some \<lparr>rr_status = ''running'', rr_operation = Some oid, rr_interaction = None,
             rr_error = None, rr_next_action = None, rr_plan = task_plan_response sn\<rparr>))
       | OpRequiresUserAction \<Rightarrow>
           (case dict_of (rs_interaction resp) of
              Some i \<Rightarrow> if truthy (dget i ''interactionId'') then rt_bind (step_waits env sv plan s oid operation resp i) (\<lambda>r. rt_return (Some r))
                else fail (Some oid) False ''PLAN_INTERACTION_MISSING'' (re_message env ''PLAN_INTERACTION_MISSING'')
            | None \<Rightarrow> fail (Some oid) False ''PLAN_INTERACTION_MISSING'' (re_message env ''PLAN_INTERACTION_MISSING''))
       | OpSucceeded \<Rightarrow>
           (case (if ts_kind s = ''transform'' then dict_of (op_result operation) else None) of
              None \<Rightarrow> step_succeeded_now env sv plan s oid operation
            | Some result \<Rightarrow>
                rt_bind (store_result_projection env sv plan s oid result) (\<lambda>_.
                rt_bind (rt_lift RxTransform (tx_get (or_text (ts_transform s) []) (sv_transforms sv))) (\<lambda>spec.
                rt_bind (if tf_halts_on_incomplete spec then rt_lift id (result_incomplete result) else rt_return False) (\<lambda>incomplete.
                if incomplete \<and> has_write_sink sv plan
                then fail (Some oid) False ''PLAN_SOURCE_INCOMPLETE'' (re_message env ''PLAN_SOURCE_INCOMPLETE'')
                else step_succeeded_now env sv plan s oid operation))))
       | _ \<Rightarrow>
           let error = (case rs_error resp of Some e \<Rightarrow> Some e | None \<Rightarrow> ov_error v) in
           fail (Some oid) (rs_status resp = OpUnknown) (case error of None \<Rightarrow> ''PLAN_STEP_FAILED'' | Some (code, _) \<Rightarrow> or_text (Some code) ''PLAN_STEP_FAILED'')
             (case error of None \<Rightarrow> re_message env ''PLAN_STEP_FAILED'' | Some (_, msg) \<Rightarrow> or_text (Some msg) (re_message env ''PLAN_STEP_FAILED'')))))"

section \<open>Running a step\<close>

definition validate_versions :: "rt_env \<Rightarrow> 'x rt_service \<Rightarrow> tp_snapshot \<Rightarrow> rt_exn + unit" where
  "validate_versions env sv plan = forE (\<lambda>s.
     let version = (if ts_kind s = ''capability''
           then (case registry_get (or_text (ts_capability s) []) (sv_registry sv) of Inl _ \<Rightarrow> None | Inr spec \<Rightarrow> Some (cap_version spec))
           else (case tx_get (or_text (ts_transform s) []) (sv_transforms sv) of Inl _ \<Rightarrow> None | Inr spec \<Rightarrow> Some (tf_version (transform_spec.truncate spec))))
     in (case version of
          None \<Rightarrow> Inl (RxCoded ''PLAN_VERSION_MISMATCH'' (re_message env ''PLAN_VERSION_MISMATCH''))
        | Some v \<Rightarrow> raise_if (v \<noteq> ts_version s)
            (RxCoded ''PLAN_VERSION_MISMATCH'' (re_message env (''PLAN_VERSION_MISMATCH:'' @ ts_key s @ '':'' @ ts_version s @ '':'' @ v))))) (sn_steps plan)"

text \<open>The value that a reference points to: an output of a step that has succeeded, of the same user.\<close>

definition bound_value :: "tp_plan \<Rightarrow> items \<Rightarrow> ('x, json) rt" where
  "bound_value p reference =
     rt_bind (rt_lift id (text_at reference ''step'')) (\<lambda>step.
     rt_bind (read_plans (tp_step_output_operation (tp_id p) (tp_user p) step)) (\<lambda>oid.
     rt_bind (read_operation oid) (\<lambda>v.
     if op_user (ov_row v) \<noteq> tp_user p then rt_raise (RxPlans TpIntegrityError)
     else
       rt_bind (rt_lift id (text_at reference ''pointer'')) (\<lambda>pointer.
       rt_lift RxValidation (resolve_json_pointer (case op_result (ov_row v) of None \<Rightarrow> JNull | Some r \<Rightarrow> r) pointer)))))"

fun rt_map :: "('a \<Rightarrow> ('x, 'b) rt) \<Rightarrow> 'a list \<Rightarrow> ('x, 'b list) rt" where
  "rt_map f [] = rt_return []"
| "rt_map f (x # xs) = rt_bind (f x) (\<lambda>y. rt_bind (rt_map f xs) (\<lambda>ys. rt_return (y # ys)))"

definition is_many :: "json \<Rightarrow> bool" where
  "is_many v = (case v of JDict b \<Rightarrow> dget b ''mode'' = JStr ''many'' | _ \<Rightarrow> False)"

fun bind_arguments :: "tp_plan \<Rightarrow> items \<Rightarrow> items \<Rightarrow> ('x, items) rt" where
  "bind_arguments p [] arguments = rt_return arguments"
| "bind_arguments p ((target, binding) # rest) arguments =
     rt_bind (rt_lift id (reference_list binding)) (\<lambda>references.
     rt_bind (rt_map (bound_value p) references) (\<lambda>values.
     bind_arguments p rest (AList.update target (if is_many binding then JList values else hd values) arguments)))"

definition resolve_step_arguments :: "tp_plan \<Rightarrow> ts_row \<Rightarrow> ('x, items) rt" where
  "resolve_step_arguments p s =
     rt_bind (rt_lift id (if \<not> truthy (ts_arguments s) then Inr [] else case ts_arguments s of JDict d \<Rightarrow> Inr d | _ \<Rightarrow> Inl RxShape)) (\<lambda>arguments.
     rt_bind (rt_lift id (binding_items s)) (\<lambda>bindings.
     bind_arguments p bindings arguments))"

definition invoke_capability :: "rt_env \<Rightarrow> 'x rt_service \<Rightarrow> tp_plan \<Rightarrow> ts_row \<Rightarrow> items \<Rightarrow> ('x, response) rt" where
  "invoke_capability env sv p s arguments =
     (let name = or_text (ts_capability s) [] in
     rt_bind (rt_lift RxRegistry (registry_get name (sv_registry sv))) (\<lambda>spec.
     rt_bind (rt_lift RxValidation (validate_runtime_arguments arguments (cap_input spec) (ts_key s))) (\<lambda>_.
     rt_call env (sv_invoke sv \<lparr>cc_user = tp_user p, cc_capability = name, cc_arguments = JDict arguments, cc_key = Some (step_idempotency_key p s),
       cc_request = None, cc_trace = None, cc_task = Some (tp_task p)\<rparr> (tp_id p)))))"

definition transform_item_count :: "tx_spec \<Rightarrow> items \<Rightarrow> tx_error + nat" where
  "transform_item_count spec arguments =
     (case tf_counter spec of Some c \<Rightarrow> count_with c arguments
      | None \<Rightarrow> ebind (items_or_none (dget arguments ''items'')) (\<lambda>xs. Inr (length xs)))"

text \<open>How an operation of a transform ends: with its result, with the code of a rejection, or as an execution failure.\<close>

definition record_transform :: "rt_env \<Rightarrow> string \<Rightarrow> tx_error + items \<Rightarrow> ('x, op_view) rt" where
  "record_transform env oid out =
     on_operations env (\<lambda>now. case out of
        Inr r \<Rightarrow> op_mark_succeeded now oid (JDict r)
      | Inl (TxRejected code msg) \<Rightarrow> op_mark_failed now oid code msg
      | Inl e \<Rightarrow> op_mark_failed now oid ''TRANSFORM_EXECUTION_FAILED'' (re_exception env (RxTransform e)))"

definition invoke_transform :: "rt_env \<Rightarrow> 'x rt_service \<Rightarrow> tp_plan \<Rightarrow> ts_row \<Rightarrow> items \<Rightarrow> ('x, response) rt" where
  "invoke_transform env sv p s arguments =
     (let name = or_text (ts_transform s) [] in
     rt_bind (rt_lift RxTransform (tx_get name (sv_transforms sv))) (\<lambda>spec.
     rt_bind (rt_lift RxValidation (validate_runtime_arguments arguments (tf_input spec) (ts_key s))) (\<lambda>_.
     rt_bind (rt_lift RxTransform (transform_item_count spec arguments)) (\<lambda>count.
     rt_bind rt_tick_now (\<lambda>n.
     rt_bind (on_operations env (\<lambda>now ops. op_create (re_py env) ops now (re_uuid env (2 * n)) (re_uuid env (2 * n + 1))
        \<lparr>oq_user = tp_user p, oq_capability = ''transform.'' @ name, oq_version = tf_version (transform_spec.truncate spec),
         oq_summary = JDict [(''transform'', JStr name), (''itemCount'', jnat count)], oq_identity = Some (JDict arguments),
         oq_key = Some (step_idempotency_key p s), oq_request = None\<rparr> ops)) (\<lambda>(v, reused).
     let oid = op_id (ov_row v) in
     rt_bind (if reused then read_operation oid
              else rt_bind (on_operations env (\<lambda>now. op_mark_running now oid)) (\<lambda>_. record_transform env oid (tx_invoke (sv_transforms sv) name (JDict arguments)))) (\<lambda>w.
     rt_return \<lparr>rs_request = [], rs_operation = op_id (ov_row w), rs_status = op_status (ov_row w), rs_result = op_result (ov_row w),
       rs_error = ov_error w, rs_next_action = op_next_action (ov_row w), rs_interaction = None, rs_reused = reused\<rparr>)))))))"

section \<open>Advancing a plan\<close>

text \<open>What the step's \<open>try\<close> block does, from the check of the authority to the response.\<close>

definition run_step :: "rt_env \<Rightarrow> 'x rt_service \<Rightarrow> tp_snapshot \<Rightarrow> ts_row \<Rightarrow> ('x, rt_response option) rt" where
  "run_step env sv plan s =
     (let p = sn_plan plan in
     rt_bind (rt_call env (sv_authority sv plan)) (\<lambda>_.
     rt_bind (rt_lift id (validate_versions env sv plan)) (\<lambda>_.
     rt_bind (resolve_step_arguments p s) (\<lambda>arguments.
     rt_bind (if ts_kind s = ''capability'' then invoke_capability env sv p s arguments else invoke_transform env sv p s arguments) (\<lambda>resp.
     consume_step_response env sv plan s resp)))))"

text \<open>
  One round of the loop of \<open>advance\<close>: \<open>None\<close> when it goes around again. The second part begins the next step and runs it; an
  exception of its \<open>try\<close> block fails the plan.
\<close>

definition round_step :: "rt_env \<Rightarrow> 'x rt_service \<Rightarrow> string \<Rightarrow> string \<Rightarrow> tp_snapshot \<Rightarrow> ('x, rt_response option) rt" where
  "round_step env sv pid user plan =
     (let p = sn_plan plan; answer = (\<lambda>m. rt_bind m (\<lambda>r. rt_return (Some r))) in
     rt_bind (on_plans env (\<lambda>now. tp_begin_next_step now pid user)) (\<lambda>step.
     case step of
       None \<Rightarrow> answer (complete_plan env sv pid user ''all_steps_succeeded'' False)
     | Some (s, just_started) \<Rightarrow>
         if ts_state s = StWaitingUser then answer (waiting_result env sv plan s)
         else
           rt_bind (rt_when just_started (rt_event env sv p ''plan.step.started'' (step_event_payload p s) None)) (\<lambda>_.
           rt_catch (run_step env sv plan s) (\<lambda>e.
             let (code, msg) = coded env ''PLAN_STEP_EXECUTION_FAILED'' e in
             answer (fail_plan env sv p s None False code msg)))))"

definition advance_round :: "rt_env \<Rightarrow> 'x rt_service \<Rightarrow> string \<Rightarrow> string \<Rightarrow> ('x, rt_response option) rt" where
  "advance_round env sv pid user =
     rt_bind (read_plans (tp_get pid user)) (\<lambda>plan.
     let p = sn_plan plan in
     if tp_state p \<notin> active_plan_states then rt_return (Some (plan_result_response plan))
     else if filled (tp_commit_operation p) then
       (if list_all (\<lambda>s. ts_state s \<in> {StSucceeded, StSkipped}) (sn_steps plan)
        then rt_bind (complete_plan env sv pid user ''all_steps_succeeded'' False) (\<lambda>r. rt_return (Some r))
        else rt_return (Some \<lparr>rr_status = ''running'', rr_operation = tp_commit_operation p, rr_interaction = None, rr_error = None,
          rr_next_action = Some wait_for_verification, rr_plan = task_plan_response plan\<rparr>))
     else round_step env sv pid user plan)"

partial_function (option) advance ::
  "rt_env \<Rightarrow> 'x rt_service \<Rightarrow> string \<Rightarrow> string \<Rightarrow> 'x rt_db \<Rightarrow> ((rt_exn + rt_response) \<times> 'x rt_db) option" where
  "advance env sv pid user db =
     (let (out, db') = advance_round env sv pid user db in
      if out = Inr None then advance env sv pid user db'
      else Some ((case out of Inl e \<Rightarrow> Inl e | Inr r \<Rightarrow> Inr (the r)), db'))"

text \<open>A computation that may not return, after one that does.\<close>

definition rt_then :: "('x, 'a) rt \<Rightarrow> ('a \<Rightarrow> 'x rt_db \<Rightarrow> ((rt_exn + 'b) \<times> 'x rt_db) option) \<Rightarrow> 'x rt_db \<Rightarrow> ((rt_exn + 'b) \<times> 'x rt_db) option" where
  "rt_then m f db = (case m db of (Inl e, db') \<Rightarrow> Some (Inl e, db') | (Inr a, db') \<Rightarrow> f a db')"

definition rt_done :: "'a \<Rightarrow> 'x rt_db \<Rightarrow> ((rt_exn + 'a) \<times> 'x rt_db) option" where
  "rt_done a db = Some (Inr a, db)"

definition start :: "rt_env \<Rightarrow> 'x rt_service \<Rightarrow> string \<Rightarrow> string \<Rightarrow> 'x rt_db \<Rightarrow> ((rt_exn + rt_response) \<times> 'x rt_db) option" where
  "start env sv pid user =
     rt_then (rt_bind (read_plans (tp_get pid user)) (\<lambda>plan. rt_event env sv (sn_plan plan) ''plan.started'' [(''status'', JStr ''running'')] None))
       (\<lambda>_. advance env sv pid user)"

section \<open>Interactions\<close>

definition some_response :: "((rt_exn + rt_response) \<times> 'x rt_db) option \<Rightarrow> ((rt_exn + rt_response option) \<times> 'x rt_db) option" where
  "some_response out = map_option (\<lambda>(r, db). (case r of Inl e \<Rightarrow> Inl e | Inr x \<Rightarrow> Inr (Some x), db)) out"

definition resume_after_session ::
  "rt_env \<Rightarrow> 'x rt_service \<Rightarrow> string \<Rightarrow> string \<Rightarrow> 'x rt_db \<Rightarrow> ((rt_exn + rt_response option) \<times> 'x rt_db) option" where
  "resume_after_session env sv user iid =
     rt_then (read_plans (tp_step_for_interaction iid user)) (\<lambda>bound.
     case bound of
       None \<Rightarrow> rt_done None
     | Some (bound_plan, s) \<Rightarrow>
         rt_then (rt_get (sn_plan bound_plan)) (\<lambda>plan.
         let p = sn_plan plan in
         if tp_state p \<notin> active_plan_states then rt_done (Some (plan_result_response plan))
         else
           rt_then (rt_bind (on_plans env (\<lambda>now. tp_reset_step_after_session now (tp_id p) user iid)) (\<lambda>_.
             rt_event env sv p ''plan.step.resumed''
               [(''planId'', JStr (tp_id p)), (''stepKey'', JStr (ts_key s)), (''reason'', JStr ''session_ready'')] (Some iid)))
           (\<lambda>_ db. some_response (advance env sv (tp_id p) user db))))"

definition resume_after_capability ::
  "rt_env \<Rightarrow> 'x rt_service \<Rightarrow> string \<Rightarrow> string \<Rightarrow> response \<Rightarrow> 'x rt_db \<Rightarrow> ((rt_exn + rt_response option) \<times> 'x rt_db) option" where
  "resume_after_capability env sv user iid resp =
     rt_then (read_plans (tp_step_for_interaction iid user)) (\<lambda>bound.
     case bound of
       None \<Rightarrow> rt_done None
     | Some (bound_plan, s) \<Rightarrow>
         rt_then (rt_get (sn_plan bound_plan)) (\<lambda>plan.
         if tp_state (sn_plan plan) \<notin> active_plan_states
         then rt_then (rt_call env (sv_retire sv plan (rs_interaction resp))) (\<lambda>_. rt_done (Some (plan_result_response plan)))
         else
           rt_then (consume_step_response env sv plan s resp) (\<lambda>r.
           case r of Some x \<Rightarrow> rt_done (Some x) | None \<Rightarrow> (\<lambda>db. some_response (advance env sv (tp_id (sn_plan plan)) user db)))))"

text \<open>A plan whose commit has begun is not canceled.\<close>

definition try_cancel :: "rt_env \<Rightarrow> string \<Rightarrow> string \<Rightarrow> string \<Rightarrow> ('x, tp_snapshot option) rt" where
  "try_cancel env pid user reason =
     rt_catch (rt_bind (on_plans env (\<lambda>now. tp_cancel now pid user reason)) (\<lambda>sn. rt_return (Some sn)))
       (\<lambda>e. if e = RxPlans TpCommitInProgress then rt_return None else rt_raise e)"

definition cancel_plan :: "rt_env \<Rightarrow> 'x rt_service \<Rightarrow> string \<Rightarrow> string \<Rightarrow> string \<Rightarrow> ('x, rt_response) rt" where
  "cancel_plan env sv pid user reason =
     rt_bind (read_plans (tp_get pid user)) (\<lambda>current.
     if tp_state (sn_plan current) \<notin> active_plan_states then rt_return (plan_result_response current)
     else
       rt_bind (try_cancel env pid user reason) (\<lambda>canceled.
       case canceled of
         None \<Rightarrow> rt_bind (read_plans (tp_get pid user)) (\<lambda>sn. rt_return ((plan_result_response sn)\<lparr>rr_status := ''running'',
             rr_error := Some (''PLAN_COMMIT_IN_PROGRESS'', re_exception env (RxPlans TpCommitInProgress)),
             rr_next_action := Some wait_for_verification\<rparr>))
       | Some plan \<Rightarrow>
           rt_bind (rt_event env sv (sn_plan plan) ''plan.canceled'' [(''planId'', JStr pid), (''status'', JStr ''canceled'')] None) (\<lambda>_.
           rt_bind (rt_swallow (rt_tasks env sv (TkCancel (sn_plan plan)))) (\<lambda>_.
           rt_bind (rt_call env (sv_retire sv current None)) (\<lambda>_.
           rt_return (plan_result_response plan))))))"

definition handle_terminal_interaction ::
  "rt_env \<Rightarrow> 'x rt_service \<Rightarrow> string \<Rightarrow> string \<Rightarrow> string \<Rightarrow> ('x, rt_response option) rt" where
  "handle_terminal_interaction env sv user iid istate =
     rt_bind (read_plans (tp_step_for_interaction iid user)) (\<lambda>bound.
     case bound of
       None \<Rightarrow> rt_return None
     | Some (bound_plan, s) \<Rightarrow>
         rt_bind (rt_get (sn_plan bound_plan)) (\<lambda>plan.
         let p = sn_plan plan; answer = (\<lambda>m. rt_bind m (\<lambda>r. rt_return (Some r))) in
         if tp_state p \<notin> active_plan_states then rt_return (Some (plan_result_response plan))
         else if istate = ''declined'' then answer (cancel_plan env sv (tp_id p) user ''interaction_declined'')
         else answer (fail_plan env sv p s (ts_operation s) False
           (get_default ''INTERACTION_NOT_READY'' [(''declined'', ''INTERACTION_DECLINED''), (''expired'', ''INTERACTION_EXPIRED''),
              (''failed'', ''INTERACTION_FAILED''), (''superseded'', ''INTERACTION_SUPERSEDED'')] istate)
           (re_message env (''INTERACTION:'' @ istate)))))"

definition reject_plan :: "rt_env \<Rightarrow> 'x rt_service \<Rightarrow> tp_plan \<Rightarrow> string \<Rightarrow> string \<Rightarrow> ('x, rt_response) rt" where
  "reject_plan env sv p code msg =
     rt_bind (rt_get p) (\<lambda>current.
     if tp_state (sn_plan current) \<notin> active_plan_states then rt_return (plan_result_response current)
     else (case List.find (\<lambda>s. ts_state s \<in> active_step_states) (sn_steps current) of
             None \<Rightarrow> rt_raise RxStopIteration
           | Some s \<Rightarrow> fail_plan env sv (sn_plan current) s (ts_operation s) False code msg))"

section \<open>Recovery\<close>

record recovery =
  rc_candidates :: nat
  rc_advanced :: nat
  rc_restarted :: nat
  rc_waiting :: nat
  rc_completed :: nat
  rc_canceled :: nat
  rc_failed :: nat
  rc_deferred :: nat
  rc_issues :: "(string \<times> rt_exn) list"

definition rc_empty :: recovery where
  "rc_empty = \<lparr>rc_candidates = 0, rc_advanced = 0, rc_restarted = 0, rc_waiting = 0, rc_completed = 0, rc_canceled = 0, rc_failed = 0,
     rc_deferred = 0, rc_issues = []\<rparr>"

type_synonym count = "recovery \<Rightarrow> recovery"

definition waiting_one :: count where "waiting_one r = r\<lparr>rc_waiting := rc_waiting r + 1\<rparr>"
definition completed_one :: count where "completed_one r = r\<lparr>rc_completed := rc_completed r + 1\<rparr>"
definition canceled_one :: count where "canceled_one r = r\<lparr>rc_canceled := rc_canceled r + 1\<rparr>"
definition failed_one :: count where "failed_one r = r\<lparr>rc_failed := rc_failed r + 1\<rparr>"
definition deferred_one :: count where "deferred_one r = r\<lparr>rc_deferred := rc_deferred r + 1\<rparr>"
definition restarted_one :: count where "restarted_one r = r\<lparr>rc_restarted := rc_restarted r + 1\<rparr>"
definition advanced_one :: count where "advanced_one r = r\<lparr>rc_advanced := rc_advanced r + 1\<rparr>"

definition find_step_operation :: "tp_plan \<Rightarrow> ts_row \<Rightarrow> ('x, op_row option) rt" where
  "find_step_operation p s db =
     (Inr (map_option ov_row (op_find_idempotent (tp_user p)
        (if ts_kind s = ''capability'' then or_text (ts_capability s) [] else ''transform.'' @ or_text (ts_transform s) [])
        (ts_version s) (step_idempotency_key p s) (rt_operations db))), db)"

definition current_running_step :: "tp_snapshot \<Rightarrow> ts_row option" where
  "current_running_step plan = List.find (\<lambda>s. Some (ts_key s) = tp_current (sn_plan plan) \<and> ts_state s = StRunning) (sn_steps plan)"

text \<open>A plan whose commit has begun: the operation of the commit decides.\<close>

definition recover_commit ::
  "rt_env \<Rightarrow> 'x rt_service \<Rightarrow> tp_snapshot \<Rightarrow> 'x rt_db \<Rightarrow> ((rt_exn + count) \<times> 'x rt_db) option" where
  "recover_commit env sv plan =
     (let p = sn_plan plan; cid = or_text (tp_commit_operation p) [] in
      case List.find (\<lambda>s. Some (ts_key s) = tp_current p \<or> ts_operation s = tp_commit_operation p) (sn_steps plan) of
        None \<Rightarrow> (\<lambda>db. Some (Inl RxStopIteration, db))
      | Some s \<Rightarrow>
          if ts_state s = StSucceeded then
            rt_then (complete_plan env sv (tp_id p) (tp_user p) ''all_steps_succeeded'' False) (\<lambda>_. rt_done completed_one)
          else
            rt_then (read_operation cid) (\<lambda>v.
            if op_status (ov_row v) \<in> {OpPending, OpRunning} \<and> \<not> op_updated_at (ov_row v) < re_started_at env then rt_done deferred_one
            else
              rt_then (if op_status (ov_row v) \<in> {OpPending, OpRunning}
                then on_operations env (\<lambda>now. op_mark_unknown now (op_id (ov_row v)) ''RESULT_UNKNOWN'' (re_message env ''RESULT_UNKNOWN'')) else rt_return v) (\<lambda>w.
              rt_then (consume_step_response env sv plan s
                \<lparr>rs_request = [], rs_operation = op_id (ov_row w), rs_status = op_status (ov_row w), rs_result = None, rs_error = ov_error w,
                  rs_next_action = None, rs_interaction = response_interaction (op_next_action (ov_row w)), rs_reused = False\<rparr>) (\<lambda>r.
              (\<lambda>db.
                map_option (\<lambda>(out, db'). (case out of Inl e \<Rightarrow> Inl e | Inr x \<Rightarrow> Inr (if rr_status x = ''succeeded'' then completed_one else failed_one), db'))
                  (case r of Some x \<Rightarrow> Some (Inr x, db) | None \<Rightarrow> advance env sv (tp_id p) (tp_user p) db))))))"

definition recover_waiting :: "rt_env \<Rightarrow> 'x rt_service \<Rightarrow> tp_snapshot \<Rightarrow> ('x, count) rt" where
  "recover_waiting env sv plan =
     (let p = sn_plan plan in
      case List.find (\<lambda>s. ts_state s = StWaitingUser) (sn_steps plan) of
        None \<Rightarrow> rt_return waiting_one
      | Some s \<Rightarrow>
          if \<not> filled (ts_interaction s) then rt_return waiting_one
          else let iid = or_text (ts_interaction s) [] in
            rt_bind (rt_call env (sv_load sv (tp_user p) iid)) (\<lambda>interaction.
            case (case interaction of JDict d \<Rightarrow> map_of d ''state'' | _ \<Rightarrow> None) of
              None \<Rightarrow> rt_raise RxShape
            | Some (JStr st) \<Rightarrow>
                if st \<in> {''declined'', ''expired'', ''failed'', ''superseded''} then
                  rt_bind (handle_terminal_interaction env sv (tp_user p) iid st) (\<lambda>r.
                  rt_return (case r of None \<Rightarrow> waiting_one | Some x \<Rightarrow> if rr_status x = ''canceled'' then canceled_one else failed_one))
                else rt_return waiting_one
            | _ \<Rightarrow> rt_return waiting_one))"

text \<open>
  The step that a previous runtime was running is queued again, with the next attempt, unless its operation has ended; the answer says
  whether it was.
\<close>

definition requeue_lost_step :: "rt_env \<Rightarrow> 'x rt_service \<Rightarrow> tp_snapshot \<Rightarrow> ('x, bool) rt" where
  "requeue_lost_step env sv plan =
     (let p = sn_plan plan in
      case current_running_step plan of
        None \<Rightarrow> rt_return False
      | Some s \<Rightarrow>
          if \<not> ts_updated_at s < re_started_at env then rt_return False
          else
            rt_bind (find_step_operation p s) (\<lambda>operation.
            if (case operation of None \<Rightarrow> False | Some r \<Rightarrow> op_status r \<notin> {OpPending, OpRunning}) then rt_return False
            else
              rt_bind (case operation of None \<Rightarrow> rt_return ()
                | Some r \<Rightarrow> rt_bind (on_operations env (\<lambda>now. op_mark_failed now (op_id r) ''PLAN_RECOVERY_REPLACED'' (re_message env ''PLAN_RECOVERY_REPLACED''))) (\<lambda>_. rt_return ())) (\<lambda>_.
              rt_bind (on_plans env (\<lambda>now. tp_reset_running_step_for_recovery now (tp_id p) (tp_user p) (ts_key s) (ts_attempts s))) (\<lambda>_.
              rt_bind (rt_event env sv p ''plan.step.recovered'' (step_event_payload p s @ [(''previousAttempt'', JInt (int (ts_attempts s)))])
                (Some (case operation of None \<Rightarrow> tp_id p | Some r \<Rightarrow> op_id r))) (\<lambda>_.
              rt_return True)))))"

definition count_status :: "string \<Rightarrow> count" where
  "count_status status = (if status = ''requires_user_action'' then waiting_one else if status = ''succeeded'' then completed_one
     else if status \<in> {''failed'', ''outcome_unknown''} then failed_one else deferred_one)"

definition validate_plan :: "rt_env \<Rightarrow> 'x rt_service \<Rightarrow> tp_snapshot \<Rightarrow> ('x, unit) rt" where
  "validate_plan env sv plan = rt_bind (rt_lift id (validate_versions env sv plan)) (\<lambda>_. rt_call env (sv_authority sv plan))"

text \<open>One candidate: what is counted, and what was counted before an exception.\<close>

definition recover_plan ::
  "rt_env \<Rightarrow> 'x rt_service \<Rightarrow> string \<Rightarrow> string \<Rightarrow> 'x rt_db \<Rightarrow> ((rt_exn + count) \<times> count \<times> 'x rt_db) option" where
  "recover_plan env sv pid user db =
     (let no_count = (\<lambda>out. map_option (\<lambda>(r, db'). (r, id, db')) out) in
      case read_plans (tp_get pid user) db of
        (Inl e, db1) \<Rightarrow> Some (Inl e, id, db1)
      | (Inr plan, db1) \<Rightarrow>
          let p = sn_plan plan in
          if filled (tp_commit_operation p) then no_count (recover_commit env sv plan db1)
          else
            (case validate_plan env sv plan db1 of
               (Inl e, db2) \<Rightarrow>
                 (case plan_error_of env e of
                    Some (code, msg) \<Rightarrow> no_count (rt_then (reject_plan env sv p code msg) (\<lambda>_. rt_done failed_one) db2)
                  | None \<Rightarrow> Some (Inl e, id, db2))
             | (Inr _, db2) \<Rightarrow>
                 if tp_state p = PlWaitingUser then no_count (rt_then (recover_waiting env sv plan) rt_done db2)
                 else if tp_state p \<notin> {PlValidated, PlRunning} then Some (Inr deferred_one, id, db2)
                 else
                   (case requeue_lost_step env sv plan db2 of
                      (Inl e, db3) \<Rightarrow> Some (Inl e, id, db3)
                    | (Inr again, db3) \<Rightarrow>
                        let before = (if again then restarted_one else id) in
                        map_option (\<lambda>(out, db4). case out of
                            Inl e \<Rightarrow> (Inl e, before, db4)
                          | Inr x \<Rightarrow> (Inr (count_status (rr_status x) \<circ> advanced_one), before, db4))
                          (advance env sv (tp_id p) (tp_user p) db3))))"

fun recover_all :: "rt_env \<Rightarrow> 'x rt_service \<Rightarrow> (string \<times> string) list \<Rightarrow> recovery \<Rightarrow> 'x rt_db \<Rightarrow> (recovery \<times> 'x rt_db) option" where
  "recover_all env sv [] rc db = Some (rc, db)"
| "recover_all env sv ((pid, user) # rest) rc db =
     (let rc1 = rc\<lparr>rc_candidates := rc_candidates rc + 1\<rparr> in
      case recover_plan env sv pid user db of
        None \<Rightarrow> None
      | Some (Inl e, before, db') \<Rightarrow>
          let rc2 = failed_one (before rc1) in recover_all env sv rest (rc2\<lparr>rc_issues := rc_issues rc2 @ [(pid, e)]\<rparr>) db'
      | Some (Inr after, before, db') \<Rightarrow> recover_all env sv rest (after (before rc1)) db')"

definition recover :: "rt_env \<Rightarrow> 'x rt_service \<Rightarrow> int \<Rightarrow> 'x rt_db \<Rightarrow> (recovery \<times> 'x rt_db) option" where
  "recover env sv limit db =
     recover_all env sv (map (\<lambda>sn. (tp_id (sn_plan sn), tp_user (sn_plan sn))) (tp_recovery_candidates limit (rt_plans db))) rc_empty db"

end
