(* ===== verification/PlanWork.thy ===== *)
theory PlanWork
  imports TaskPlans
begin

text \<open>
  The work left in a stored plan: the steps that have not succeeded. Every transaction of the plan store keeps or lowers it, apart from
  the two that put a step of the plan back into the queue.
\<close>

section \<open>The work left in a plan\<close>

text \<open>The steps that have not succeeded, while the plan is active.\<close>

definition plan_work :: "string \<Rightarrow> tp_db \<Rightarrow> nat" where
  "plan_work p db = (case tbl_get tp_id p (tp_plans db) of None \<Rightarrow> 0
     | Some r \<Rightarrow> if tp_state r \<in> active_plan_states then Suc (length (filter (\<lambda>s. ts_state s \<noteq> StSucceeded) (own_steps db r))) else 0)"

fun resets :: "string \<Rightarrow> 'e tp_op \<Rightarrow> bool" where
  "resets p (TpResetSession now q user iid) = (q = p)"
| "resets p (TpResetRecovery now q user k n) = (q = p)"
| "resets p _ = False"

lemma length_filter_map_le:
  "(\<And>s. s \<in> set xs \<Longrightarrow> P (h s) \<Longrightarrow> P s) \<Longrightarrow> length (filter P (map h xs)) \<le> length (filter P xs)"
  by (induction xs) (auto simp: le_Suc_eq)

lemma length_filter_map_less:
  assumes "\<And>s. s \<in> set xs \<Longrightarrow> P (h s) \<Longrightarrow> P s" and "s \<in> set xs" "P s" "\<not> P (h s)"
  shows "length (filter P (map h xs)) < length (filter P xs)"
  using assms
proof (induction xs)
  case (Cons x xs)
  have le: "length (filter P (map h xs)) \<le> length (filter P xs)" by (rule length_filter_map_le) (use Cons.prems(1) in auto)
  show ?case
  proof (cases "s = x")
    case True
    then show ?thesis using le Cons.prems by (simp add: less_Suc_eq_le)
  next
    case False
    then have "length (filter P (map h xs)) < length (filter P xs)" using Cons by simp
    then show ?thesis using Cons.prems(1)[of x] by auto
  qed
qed simp

lemma own_steps_update:
  assumes "\<And>s. ts_plan (g s) = ts_plan s" and "tp_id r' = tp_id r"
  shows "own_steps (tp_set_plan p f (tp_set_steps P g db)) r' = map (\<lambda>s. if P s then g s else s) (own_steps db r)"
proof -
  have "filter (\<lambda>s. ts_plan s = k) (map (\<lambda>s. if P s then g s else s) xs) = map (\<lambda>s. if P s then g s else s) (filter (\<lambda>s. ts_plan s = k) xs)"
    for k xs by (induction xs) (auto simp: assms(1))
  then show ?thesis by (simp add: own_steps_def assms(2) tbl_update_def)
qed

lemma plan_work_update:
  assumes get: "tbl_get tp_id p (tp_plans db) = Some r" and f: "\<And>r. tp_id (f r) = tp_id r" and g: "\<And>s. ts_plan (g s) = ts_plan s"
    and act: "tp_state r \<in> active_plan_states"
    and keep: "\<And>s. s \<in> set (own_steps db r) \<Longrightarrow> P s \<Longrightarrow> ts_state s = StSucceeded \<Longrightarrow> ts_state (g s) = StSucceeded"
  shows "plan_work p (tp_set_plan p f (tp_set_steps P g db)) \<le> plan_work p db \<and>
    (s \<in> set (own_steps db r) \<and> P s \<and> ts_state s \<noteq> StSucceeded \<and> ts_state (g s) = StSucceeded \<longrightarrow>
       plan_work p (tp_set_plan p f (tp_set_steps P g db)) < plan_work p db)"
proof -
  let ?db = "tp_set_plan p f (tp_set_steps P g db)" and ?h = "\<lambda>s. if P s then g s else s"
  have pid: "tp_id r = p" using tbl_get_mem[OF get] by simp
  have get': "tbl_get tp_id p (tp_plans ?db) = Some (f r)" using get f pid by (simp add: tbl_get_update)
  note own = own_steps_update[where g = g and P = P and p = p and f = f and db = db, OF g f]
  have down: "ts_state t \<noteq> StSucceeded" if "t \<in> set (own_steps db r)" "ts_state (?h t) \<noteq> StSucceeded" for t
    using keep[OF that(1)] that(2) by (cases "P t") auto
  have "length (filter (\<lambda>s. ts_state s \<noteq> StSucceeded) (own_steps ?db (f r))) \<le> length (filter (\<lambda>s. ts_state s \<noteq> StSucceeded) (own_steps db r))"
    unfolding own by (rule length_filter_map_le) (rule down)
  moreover have "length (filter (\<lambda>s. ts_state s \<noteq> StSucceeded) (own_steps ?db (f r))) < length (filter (\<lambda>s. ts_state s \<noteq> StSucceeded) (own_steps db r))"
    if "s \<in> set (own_steps db r)" "P s" "ts_state s \<noteq> StSucceeded" "ts_state (g s) = StSucceeded"
    unfolding own by (rule length_filter_map_less[of _ _ _ s]) (use down that in auto)
  ultimately show ?thesis
    using get get' act by (simp add: plan_work_def)
qed

lemma plan_work_ended:
  "tbl_get tp_id p (tp_plans db) = Some r \<Longrightarrow> tp_state r \<notin> active_plan_states \<Longrightarrow> plan_work p db = 0"
  by (simp add: plan_work_def)

lemma plan_work_set_ended:
  assumes "tbl_get tp_id p (tp_plans db) = Some r" "\<And>r. tp_id (f r) = tp_id r" "tp_state (f r) \<notin> active_plan_states" "tp_plans db1 = tp_plans db"
  shows "plan_work p (tp_set_plan p f db1) = 0"
  by (rule plan_work_ended[of _ _ "f r"]) (use assms tbl_get_mem[OF assms(1)] in \<open>simp_all add: tbl_get_update\<close>)

lemma plan_work_other:
  assumes inv: "tp_inv db" and ch: "tp_change b q db db'" and p: "q \<noteq> p"
  shows "plan_work p db' = plan_work p db"
  using ch unfolding tp_change_def
proof (elim disjE exE conjE)
  fix r r' h assume q: "tp_id r = q" and t: "tp_touch db r r' h db'"
  have plans: "tp_plans db' = map (\<lambda>x. if tp_id x = q then r' else x) (tp_plans db)" and r': "tp_id r' = q"
    using t q tp_contract_sel(1)[of r' r] unfolding tp_touch_def plan_move_def by auto
  have get: "tbl_get tp_id p (map (\<lambda>x. if tp_id x = q then r' else x) rows) = tbl_get tp_id p rows" for rows
    using p r' by (induction rows) auto
  have own: "own_steps db' x = own_steps db x" if "tbl_get tp_id p (tp_plans db) = Some x" for x
    using tp_touch_own[OF t, of x] tbl_get_mem[OF that] p q by simp
  show ?thesis unfolding plan_work_def plans get by (auto split: option.splits simp: own)
qed simp

lemma plan_work_elsewhere:
  assumes "q \<noteq> p" and f: "\<And>r. tp_id (f r) = tp_id r" and g: "\<And>s. ts_plan (g s) = ts_plan s"
    and P: "\<And>s. P s \<Longrightarrow> ts_plan s \<noteq> p"
  shows "plan_work p (tp_set_plan q f (tp_set_steps P g db)) = plan_work p db"
proof -
  have "filter (\<lambda>s. ts_plan s = p) (tbl_update P g xs) = filter (\<lambda>s. ts_plan s = p) xs" for xs
    using P by (induction xs) (auto simp: g tbl_update_def)
  then have "own_steps (tp_set_plan q f (tp_set_steps P g db)) r = own_steps db r" if "tp_id r = p" for r
    using that by (simp add: own_steps_def)
  then show ?thesis
    using assms(1) by (auto simp: plan_work_def tbl_get_update f split: option.splits dest: tbl_get_mem)
qed

lemma plan_work_projection:
  assumes run: "tp_set_result_projection now q user v db = (Inr (sn, db') :: 'e tp_error + tp_snapshot \<times> tp_db)"
  shows "plan_work p db' = plan_work p db"
proof -
  have "own_steps (tp_set_plan q f db) r = own_steps db r" for f r by (simp add: own_steps_def)
  then show ?thesis
    unfolding tp_projection_Inr[OF run] plan_work_def
    by (auto simp: tbl_get_update own_steps_def split: option.splits)
qed

text \<open>No transaction adds work to a plan, except putting one of its steps back.\<close>

lemma plan_work_begin:
  assumes inv: "tp_inv db"
    and run: "tp_begin_next_step now p user db = (Inr (out, db') :: 'e tp_error + (ts_row \<times> bool) option \<times> tp_db)"
  shows "plan_work p db' \<le> plan_work p db"
proof (cases "db' = db")
  case False
  from tp_begin_Inr[OF inv run] False obtain plan s where plan: "tbl_get tp_id p (tp_plans db) = Some plan"
    and act: "tp_state plan \<in> active_plan_states" and none: "\<forall>t \<in> set (own_steps db plan). \<not> in_progress t"
    and s: "s \<in> set (own_steps db plan)" "ts_state s = StQueued" "\<forall>d \<in> set (ts_depends s). step_succeeded (own_steps db plan) d"
    and db': "db' = tp_set_plan p
          (\<lambda>r. r\<lparr>tp_state := PlRunning, tp_current := Some (ts_key s), tp_updated_at := now\<rparr>)
          (tp_set_steps (\<lambda>t. ts_id t = ts_id s \<and> ts_state t = StQueued)
             (\<lambda>t. t\<lparr>ts_state := StRunning, ts_attempts := Suc (ts_attempts t),
                     ts_started_at := (case ts_started_at t of None \<Rightarrow> Some now | Some u \<Rightarrow> Some u),
                     ts_updated_at := now, ts_error_code := None, ts_error_message := None\<rparr>) db)"
    by blast
  show ?thesis unfolding db' by (rule conjunct1[OF plan_work_update[OF plan _ _ act]]) simp_all
qed simp

lemma plan_work_step:
  assumes inv: "tp_inv db" and st: "state \<in> {StSucceeded, StWaitingUser}"
    and run: "tp_update_step now p user k state plan_state oid interaction ih oh fin clear db
      = (Inr (sn, db') :: 'e tp_error + tp_snapshot \<times> tp_db)"
  shows "plan_work p db' \<le> plan_work p db \<and> (state = StSucceeded \<and> 0 < plan_work p db \<longrightarrow> plan_work p db' < plan_work p db)"
proof -
  obtain plan where plan: "tbl_get tp_id p (tp_plans db) = Some plan"
    using run by (auto simp: tp_update_step_def outcome_simps)
  have pid: "tp_id plan = p" using tbl_get_mem[OF plan] by simp
  show ?thesis
  proof (cases "tp_state plan \<in> terminal_plan_states")
    case True
    then have "db' = db" using run plan by (auto simp: tp_update_step_def outcome_simps)
    then show ?thesis using True plan_work_ended[OF plan] by (simp add: terminal_iff)
  next
    case False
    then have act: "tp_state plan \<in> active_plan_states" by (simp add: terminal_iff)
    let ?g = "\<lambda>s. s\<lparr>ts_state := state, ts_operation := Some oid, ts_interaction := interaction,
                        ts_input_hash := coalesce ih (ts_input_hash s),
                        ts_output_hash := coalesce oh (ts_output_hash s),
                        ts_error_code := None, ts_error_message := None, ts_updated_at := now,
                        ts_finished_at := (if fin then Some now else None)\<rparr>"
    let ?f = "\<lambda>r. r\<lparr>tp_state := plan_state, tp_current := (if clear then None else Some k),
                        tp_updated_at := now,
                        tp_commit_operation := (if state = StWaitingUser then None else tp_commit_operation r)\<rparr>"
    from run plan False obtain step where step: "ts_select p k db = (Inr step :: 'e tp_error + ts_row)"
      and prog: "in_progress step" and db': "db' = tp_set_plan p ?f (tp_set_steps (\<lambda>s. ts_id s = ts_id step) ?g db)"
      by (auto simp: tp_update_step_def outcome_simps Let_def split: if_splits)
    note own = conjunct1[OF own_step_select[OF step pid]]
    have "ts_state (?g s) = StSucceeded" if "s \<in> set (own_steps db plan)" "ts_id s = ts_id step" "ts_state s = StSucceeded" for s
      using ts_row_unique[OF inv, of s step] that own prog by (simp add: own_step_mem)
    note w = plan_work_update[where f = ?f and g = ?g and P = "\<lambda>s. ts_id s = ts_id step" and s = step, OF plan _ _ act this]
    have "plan_work p db' \<le> plan_work p db" unfolding db' by (rule conjunct1[OF w]) simp_all
    moreover have "plan_work p db' < plan_work p db" if "state = StSucceeded"
      unfolding db' by (rule conjunct2[OF w, THEN mp]) (use that own prog in auto)
    ultimately show ?thesis by blast
  qed
qed

lemma plan_work_failed:
  assumes run: "tp_mark_step_failed now p user k oid st code msg eff db = (Inr (sn, db') :: 'e tp_error + tp_snapshot \<times> tp_db)"
  shows "plan_work p db' = 0"
proof -
  obtain plan where plan: "tbl_get tp_id p (tp_plans db) = Some plan"
    using run by (auto simp: tp_mark_step_failed_def outcome_simps split: if_splits)
  let ?f = "(\<lambda>r. r\<lparr>tp_state := (if st = ''failed'' then PlFailed else PlOutcomeUnknown),
        tp_terminal_reason := Some (take 120 code), tp_current := Some k, tp_effect_outcome := short_effect eff, tp_updated_at := now,
        tp_finished_at := Some now\<rparr>)"
  show ?thesis
  proof (cases "tp_state plan \<in> terminal_plan_states")
    case True
    then have "db' = db" using run plan by (auto simp: tp_mark_step_failed_def outcome_simps split: if_splits)
    then show ?thesis using True plan_work_ended[OF plan] by (simp add: terminal_iff)
  next
    case False
    with run plan obtain db1 where "db' = tp_set_plan p ?f db1" "tp_plans db1 = tp_plans db"
      by (auto simp: tp_mark_step_failed_def outcome_simps Let_def terminal_plan_states_def split: if_splits)
    then show ?thesis
      using plan_work_set_ended[where f = ?f, OF plan] by (simp add: active_plan_states_def)
  qed
qed

lemma plan_work_complete:
  assumes run: "tp_complete now p user reason skip eff db = (Inr (sn, db') :: 'e tp_error + tp_snapshot \<times> tp_db)"
  shows "plan_work p db' = 0"
proof -
  obtain plan where plan: "tbl_get tp_id p (tp_plans db) = Some plan"
    using run by (auto simp: tp_complete_def outcome_simps split: if_splits)
  let ?f = "\<lambda>r. r\<lparr>tp_state := PlSucceeded, tp_terminal_reason := Some (take 120 reason),
        tp_effect_outcome := short_effect eff, tp_current := None, tp_updated_at := now, tp_finished_at := Some now\<rparr>"
  show ?thesis
  proof (cases "tp_state plan \<in> terminal_plan_states")
    case True
    then have "db' = db" using run plan by (auto simp: tp_complete_def outcome_simps split: if_splits)
    then show ?thesis using True plan_work_ended[OF plan] by (simp add: terminal_iff)
  next
    case False
    with run plan obtain db1 where "db' = tp_set_plan p ?f db1" "tp_plans db1 = tp_plans db"
      by (auto simp: tp_complete_def outcome_simps Let_def terminal_plan_states_def split: if_splits)
    then show ?thesis
      using plan_work_set_ended[where f = ?f, OF plan] by (simp add: active_plan_states_def)
  qed
qed

lemma plan_work_cancel:
  assumes run: "tp_cancel now p user reason db = (Inr (sn, db') :: 'e tp_error + tp_snapshot \<times> tp_db)"
  shows "plan_work p db' = 0"
proof -
  obtain plan where plan: "tbl_get tp_id p (tp_plans db) = Some plan"
    using run by (auto simp: tp_cancel_def outcome_simps split: if_splits)
  let ?f = "\<lambda>r. r\<lparr>tp_state := PlCanceled, tp_terminal_reason := Some (take 120 reason), tp_current := None,
        tp_updated_at := now, tp_finished_at := Some now\<rparr>"
  show ?thesis
  proof (cases "tp_state plan \<in> terminal_plan_states")
    case True
    then have "db' = db" using run plan by (auto simp: tp_cancel_def outcome_simps split: if_splits)
    then show ?thesis using True plan_work_ended[OF plan] by (simp add: terminal_iff)
  next
    case False
    with run plan obtain db1 where "db' = tp_set_plan p ?f db1" "tp_plans db1 = tp_plans db"
      by (auto simp: tp_cancel_def outcome_simps Let_def terminal_plan_states_def split: if_splits)
    then show ?thesis
      using plan_work_set_ended[where f = ?f, OF plan] by (simp add: active_plan_states_def)
  qed
qed

lemma plan_work_guard:
  assumes inv: "tp_inv db" and run: "tp_guard now a user oid v db = (Inr db' :: 'e tp_error + tp_db)"
  shows "plan_work p db' \<le> plan_work p db"
  using tp_guard_Inr[OF run]
proof (elim disjE exE conjE)
  fix row assume row: "authorized_plan a user db = Some row" and act: "tp_state row \<in> active_plan_states"
    and db': "db' = tp_set_plan (tp_id row)
               (\<lambda>r. r\<lparr>tp_commit_operation := Some oid, tp_state := PlRunning, tp_updated_at := now\<rparr>)
             (tp_set_steps (\<lambda>s. ts_plan s = tp_id row \<and> Some (ts_key s) = tp_current row)
               (\<lambda>s. s\<lparr>ts_state := StRunning, ts_updated_at := now\<rparr>) db)"
  show ?thesis
  proof (cases "tp_id row = p")
    case True
    have get: "tbl_get tp_id p (tp_plans db) = Some row" using authorized_plan_row[OF inv row] True by blast
    note ok = tp_inv_plan_ok[OF inv get]
    have "\<not> ts_state s = StSucceeded" if "s \<in> set (own_steps db row)" "Some (ts_key s) = tp_current row" for s
    proof -
      from ok act that obtain t where t: "t \<in> set (own_steps db row)" "ts_key t = ts_key s" "in_progress t"
        unfolding plan_ok_def one_in_progress_def by metis
      then show ?thesis using plan_step_unique[OF ok t(1) that(1)] by auto
    qed
    then show ?thesis
      unfolding db' True by (intro conjunct1[OF plan_work_update[OF get _ _ act]]) auto
  next
    case False
    then show ?thesis
      unfolding db' by (subst plan_work_elsewhere) auto
  qed
qed simp

lemma plan_work_exec:
  fixes op :: "'e tp_op"
  assumes inv: "tp_inv db" and plan: "tbl_get tp_id p (tp_plans db) = Some r" and run: "tp_exec op db = Inr (u, db')" and op: "\<not> resets p op"
  shows "plan_work p db' \<le> plan_work p db"
proof (cases op)
  case (TpCreate now uuid uuids req)
  with run obtain sn reused where c: "compiled_keys_ok (tq_plan req)"
    "tp_create now uuid uuids req db = (Inr ((sn, reused), db') :: 'e tp_error + (tp_snapshot \<times> bool) \<times> tp_db)"
    by (auto dest!: tp_done_Inr split: if_splits)
  note kept = tp_create_inv[OF inv c]
  have r: "r \<in> set (tp_plans db)" "tp_id r = p" using tbl_get_mem[OF plan] by auto
  have "tbl_get tp_id p (tp_plans db') = Some r"
    using tp_inv_get[OF conjunct1[OF kept], of r] kept r by auto
  then show ?thesis using plan kept r by (simp add: plan_work_def)
next
  case (TpRegister token req)
  then have "tp_register token req db = (Inr (u, db') :: 'e tp_error + unit \<times> tp_db)" using run by simp
  from tp_register_Inr[OF inv this] have "tp_plans db' = tp_plans db" "own_steps db' = own_steps db"
    by (auto simp: own_steps_def)
  then show ?thesis by (simp add: plan_work_def split: option.split)
next
  case (TpBegin now q user)
  with run obtain out where w: "tp_begin_next_step now q user db = (Inr (out, db') :: 'e tp_error + (ts_row \<times> bool) option \<times> tp_db)"
    by (auto dest!: tp_done_Inr)
  show ?thesis using plan_work_other[OF inv tp_begin_change[OF inv w]] plan_work_begin[OF inv w] by (cases "q = p") auto
next
  case (TpWaiting now q user k oid iid h)
  with run obtain sn where w: "tp_mark_step_waiting now q user k oid iid h db = (Inr (sn, db') :: 'e tp_error + tp_snapshot \<times> tp_db)"
    by (auto dest!: tp_done_Inr)
  show ?thesis
    using plan_work_other[OF inv tp_waiting_change[OF inv w]] plan_work_step[OF inv _ w[unfolded tp_mark_step_waiting_def]] by (cases "q = p") auto
next
  case (TpSucceeded now q user k oid h h')
  with run obtain sn where w: "tp_mark_step_succeeded now q user k oid h h' db = (Inr (sn, db') :: 'e tp_error + tp_snapshot \<times> tp_db)"
    by (auto dest!: tp_done_Inr)
  show ?thesis
    using plan_work_other[OF inv tp_succeeded_change[OF inv w]] plan_work_step[OF inv _ w[unfolded tp_mark_step_succeeded_def]] by (cases "q = p") auto
next
  case (TpFailed now q user k oid st code msg eff)
  with run obtain sn where w: "tp_mark_step_failed now q user k oid st code msg eff db = (Inr (sn, db') :: 'e tp_error + tp_snapshot \<times> tp_db)"
    by (auto dest!: tp_done_Inr)
  show ?thesis using plan_work_other[OF inv tp_failed_change[OF inv w]] plan_work_failed[OF w] by (cases "q = p") auto
next
  case (TpResetSession now q user iid)
  with run op obtain sn where w: "tp_reset_step_after_session now q user iid db = (Inr (sn, db') :: 'e tp_error + tp_snapshot \<times> tp_db)" "q \<noteq> p"
    by (auto dest!: tp_done_Inr)
  then show ?thesis using plan_work_other[OF inv tp_reset_session_change[OF inv w(1)]] by simp
next
  case (TpResetRecovery now q user k n)
  with run op obtain sn where w: "tp_reset_running_step_for_recovery now q user k n db = (Inr (sn, db') :: 'e tp_error + tp_snapshot \<times> tp_db)" "q \<noteq> p"
    by (auto dest!: tp_done_Inr)
  then show ?thesis using plan_work_other[OF inv tp_reset_recovery_change[OF inv w(1)]] by simp
next
  case (TpComplete now q user reason skip eff)
  with run obtain sn where w: "tp_complete now q user reason skip eff db = (Inr (sn, db') :: 'e tp_error + tp_snapshot \<times> tp_db)"
    by (auto dest!: tp_done_Inr)
  show ?thesis using plan_work_other[OF inv tp_complete_change[OF inv w]] plan_work_complete[OF w] by (cases "q = p") auto
next
  case (TpProjection now q user v)
  with run show ?thesis using plan_work_projection by (fastforce dest!: tp_done_Inr)
next
  case (TpCancel now q user reason)
  with run obtain sn where w: "tp_cancel now q user reason db = (Inr (sn, db') :: 'e tp_error + tp_snapshot \<times> tp_db)"
    by (auto dest!: tp_done_Inr)
  show ?thesis using plan_work_other[OF inv tp_cancel_change[OF inv w]] plan_work_cancel[OF w] by (cases "q = p") auto
next
  case (TpGuard now a user oid v)
  with run have "tp_guard now a user oid v db = (Inr db' :: 'e tp_error + tp_db)" by (auto simp: outcome_simps)
  then show ?thesis by (rule plan_work_guard[OF inv])
qed

end
