(* ===== verification/PlanRuntimeLaws.thy ===== *)
theory PlanRuntimeLaws
  imports PlanRuntime PlanWork
begin

text \<open>
  What the coordinator of plans guarantees, whatever the service behind it does: it changes the stores by their operations only, its
  loop ends, its answers agree with the stored plan, and an incomplete source keeps a plan from writing.
\<close>

named_theorems stays_intros "calls of the runtime that change the stores by transactions"

section \<open>Only transactions\<close>

text \<open>A database is reached by transactions of the stores, those of the plan store among the allowed ones.\<close>

definition reaches :: "(unit tp_op \<Rightarrow> bool) \<Rightarrow> rt_env \<Rightarrow> 'x rt_db \<Rightarrow> 'x rt_db \<Rightarrow> bool" where
  "reaches A env db db' \<longleftrightarrow> (\<exists>ops ops'. list_all A ops \<and> rt_plans db' = run tp_exec ops (rt_plans db) \<and>
     rt_operations db' = run (op_exec (re_py env)) ops' (rt_operations db))"

definition stays :: "(unit tp_op \<Rightarrow> bool) \<Rightarrow> rt_env \<Rightarrow> ('x, 'a) rt \<Rightarrow> bool" where
  "stays A env m \<longleftrightarrow> (\<forall>db. reaches A env db (snd (m db)))"

definition svc_allows :: "(unit tp_op \<Rightarrow> bool) \<Rightarrow> ('x, 'a) svc \<Rightarrow> bool" where
  "svc_allows A f \<longleftrightarrow> (\<forall>db. case f db of (_, ops, _) \<Rightarrow> list_all A ops)"

definition service_allows :: "(unit tp_op \<Rightarrow> bool) \<Rightarrow> 'x rt_service \<Rightarrow> bool" where
  "service_allows A sv \<longleftrightarrow> (\<forall>c k. svc_allows A (sv_invoke sv c k)) \<and> (\<forall>sn. svc_allows A (sv_authority sv sn)) \<and>
     (\<forall>u i. svc_allows A (sv_load sv u i)) \<and> (\<forall>c. svc_allows A (sv_tasks sv c)) \<and> (\<forall>sn i. svc_allows A (sv_retire sv sn i))"

lemma reaches_refl [simp]: "reaches A env db db"
  unfolding reaches_def by (intro exI[of _ "[]"]) simp

lemma reaches_trans: "reaches A env db1 db2 \<Longrightarrow> reaches A env db2 db3 \<Longrightarrow> reaches A env db1 db3"
  unfolding reaches_def by (metis list_all_append run_append)

lemma reaches_same: "rt_plans db' = rt_plans db \<Longrightarrow> rt_operations db' = rt_operations db \<Longrightarrow> reaches A env db db'"
  unfolding reaches_def by (intro exI[of _ "[]"]) simp

lemma staysD: "stays A env m \<Longrightarrow> m db = (out, db') \<Longrightarrow> reaches A env db db'"
  unfolding stays_def by (metis snd_conv)

lemma staysI: "(\<And>db out db'. m db = (out, db') \<Longrightarrow> reaches A env db db') \<Longrightarrow> stays A env m"
  unfolding stays_def by (metis prod.collapse)

lemma stays_return [stays_intros]: "stays A env (rt_return a)"
  by (simp add: stays_def rt_return_def)

lemma stays_raise [stays_intros]: "stays A env (rt_raise e)"
  by (simp add: stays_def rt_raise_def)

lemma stays_bind [stays_intros]:
  assumes "stays A env m" and "\<And>a. stays A env (f a)"
  shows "stays A env (rt_bind m f)"
proof (rule staysI)
  fix db out db' assume run: "rt_bind m f db = (out, db')"
  show "reaches A env db db'"
  proof (cases "m db")
    case (Pair o1 db1)
    then show ?thesis
      using run staysD[OF assms(1) Pair] staysD[OF assms(2)] reaches_trans by (fastforce simp: rt_bind_def split: sum.splits)
  qed
qed

lemma stays_catch [stays_intros]:
  assumes "stays A env m" and "\<And>e. stays A env (h e)"
  shows "stays A env (rt_catch m h)"
proof (rule staysI)
  fix db out db' assume run: "rt_catch m h db = (out, db')"
  show "reaches A env db db'"
  proof (cases "m db")
    case (Pair o1 db1)
    then show ?thesis
      using run staysD[OF assms(1) Pair] staysD[OF assms(2)] reaches_trans by (fastforce simp: rt_catch_def split: sum.splits)
  qed
qed

lemma stays_swallow [stays_intros]: "stays A env m \<Longrightarrow> stays A env (rt_swallow m)"
  unfolding rt_swallow_def by (intro stays_intros)

lemma stays_when [stays_intros]: "stays A env m \<Longrightarrow> stays A env (rt_when c m)"
  by (simp add: rt_when_def stays_return)

lemma stays_lift [stays_intros]: "stays A env (rt_lift f out)"
  by (simp add: rt_lift_def stays_return stays_raise split: sum.split)

lemma stays_if [stays_intros]: "stays A env m \<Longrightarrow> stays A env m' \<Longrightarrow> stays A env (if c then m else m')"
  by simp

lemma stays_option [stays_intros]:
  "stays A env m \<Longrightarrow> (\<And>a. stays A env (f a)) \<Longrightarrow> stays A env (case x of None \<Rightarrow> m | Some a \<Rightarrow> f a)"
  by (simp split: option.split)

lemma stays_prod [stays_intros]: "(\<And>a b. stays A env (f a b)) \<Longrightarrow> stays A env (case x of (a, b) \<Rightarrow> f a b)"
  by (simp split: prod.split)

lemma stays_read [stays_intros]: "stays A env (read_plans f)" "stays A env (read_operation i)" "stays A env (rt_get p)"
  "stays A env rt_tick_now"
  by (auto simp: stays_def read_plans_def read_operation_def rt_get_def rt_tick_now_def intro: reaches_same split: sum.splits)

lemma stays_call [stays_intros]: "svc_allows A f \<Longrightarrow> stays A env (rt_call env f)"
proof (rule staysI)
  fix db out db' assume a: "svc_allows A f" and run: "rt_call env f db = (out, db')"
  obtain r ops ops' x where f: "f db = (r, ops, ops', x)" by (cases "f db") auto
  have "list_all A ops" using a f unfolding svc_allows_def by (auto dest: spec[of _ db])
  then show "reaches A env db db'" using run unfolding reaches_def
    by (intro exI[of _ ops] exI[of _ ops'] conjI) (auto simp: rt_call_def f)
qed

lemma run_one: "f op db = Inr (u, db') \<Longrightarrow> run f [op] db = db'"
  by (simp add: commit_def)

lemma stays_plans:
  assumes op: "\<And>now. A (op now)" "\<And>now db. tp_done (f now db) = tp_exec (op now) db"
  shows "stays A env (on_plans env f)"
proof (rule staysI)
  fix db out db' assume run: "on_plans env f db = (out, db')"
  let ?now = "re_clock env (rt_tick db)"
  show "reaches A env db db'"
  proof (cases "f ?now (rt_plans db)")
    case (Inl e)
    then show ?thesis using run by (auto simp: on_plans_def rt_bind_def rt_tick_now_def intro: reaches_same)
  next
    case (Inr r)
    then obtain a plans where r: "f ?now (rt_plans db) = Inr (a, plans)" by (cases r) auto
    then have "tp_exec (op ?now) (rt_plans db) = Inr ((), plans)" using op(2)[of ?now "rt_plans db"] by (simp add: tp_done_def)
    from run_one[of tp_exec, OF this] r run op(1)[of ?now] show ?thesis
      unfolding reaches_def
      by (intro exI[of _ "[op ?now]"] exI[of _ "[]"]) (auto simp: on_plans_def rt_bind_def rt_tick_now_def)
  qed
qed

lemma stays_operations:
  assumes op: "\<And>now db a db'. f now db = Inr (a, db') \<Longrightarrow> \<exists>op u. op_exec (re_py env) op db = Inr (u, db')"
  shows "stays A env (on_operations env f)"
proof (rule staysI)
  fix db out db' assume run: "on_operations env f db = (out, db')"
  let ?now = "re_clock env (rt_tick db)"
  show "reaches A env db db'"
  proof (cases "f ?now (rt_operations db)")
    case (Inl e)
    then show ?thesis using run by (auto simp: on_operations_def rt_bind_def rt_tick_now_def intro: reaches_same)
  next
    case (Inr r)
    then obtain a ops where r: "f ?now (rt_operations db) = Inr (a, ops)" by (cases r) auto
    from op[OF r] obtain p u where "op_exec (re_py env) p (rt_operations db) = Inr (u, ops)" by blast
    from run_one[of "op_exec (re_py env)", OF this] r run show ?thesis
      unfolding reaches_def
      by (intro exI[of _ "[]"] exI[of _ "[p]"]) (auto simp: on_operations_def rt_bind_def rt_tick_now_def)
  qed
qed

lemma op_wrap_Inr: "op_wrap (Inr (v, db)) = Inr ((v, True), db)"
  by (simp add: op_wrap_def)

lemma stays_marks [stays_intros]:
  "stays A env (on_operations env (\<lambda>now. op_mark_running now i))"
  "stays A env (on_operations env (\<lambda>now. op_mark_failed now i code msg))"
  "stays A env (on_operations env (\<lambda>now. op_mark_unknown now i code msg))"
  "stays A env (on_operations env (\<lambda>now ops. op_create (re_py env) ops now u u' req ops))"
  "stays A env (record_transform env i res)"
proof -
  show "stays A env (on_operations env (\<lambda>now. op_mark_running now i))"
    by (rule stays_operations) (metis op_exec.simps op_wrap_Inr)
  show "stays A env (on_operations env (\<lambda>now. op_mark_failed now i code msg))"
    by (rule stays_operations) (metis op_exec.simps op_wrap_Inr)
  show "stays A env (on_operations env (\<lambda>now. op_mark_unknown now i code msg))"
    by (rule stays_operations) (metis op_exec.simps op_wrap_Inr)
  show "stays A env (on_operations env (\<lambda>now ops. op_create (re_py env) ops now u u' req ops))"
    by (rule stays_operations) (metis op_exec.simps(1))
  show "stays A env (record_transform env i res)"
    unfolding record_transform_def
  proof (rule stays_operations)
    fix now db a db'
    assume r: "(case res of Inr r \<Rightarrow> op_mark_succeeded now i (JDict r) | Inl (TxRejected code msg) \<Rightarrow> op_mark_failed now i code msg
        | Inl e \<Rightarrow> op_mark_failed now i ''TRANSFORM_EXECUTION_FAILED'' (re_exception env (RxTransform e))) db = Inr (a, db')"
    have "\<exists>op. op_exec (re_py env) op db = op_wrap (Inr (a, db'))"
    proof (cases res)
      case (Inr x)
      then show ?thesis using r by (intro exI[of _ "OpMarkSucceeded now i (JDict x)"]) simp
    next
      case (Inl e)
      then obtain code msg where "op_mark_failed now i code msg db = Inr (a, db')" using r by (cases e) auto
      then show ?thesis by (intro exI[of _ "OpMarkFailed now i code msg"]) simp
    qed
    then show "\<exists>op u. op_exec (re_py env) op db = Inr (u, db')" by (auto simp: op_wrap_def)
  qed
qed

section \<open>What the runtime may do to the plan store\<close>

text \<open>The transactions that the steps of a running plan use; the service may use the same ones, and more.\<close>

locale plan_discipline =
  fixes A :: "unit tp_op \<Rightarrow> bool"
  assumes begins: "A (TpBegin now p user)"
    and waits: "A (TpWaiting now p user k oid iid h)"
    and succeeds: "A (TpSucceeded now p user k oid h h')"
    and fails: "A (TpFailed now p user k o' st code msg eff)"
    and completes: "A (TpComplete now p user reason skip e')"
    and projects: "A (TpProjection now p user v)"
begin

lemma stays_steps:
  "stays A env (on_plans env (\<lambda>now. tp_begin_next_step now p user))"
  "stays A env (on_plans env (\<lambda>now. tp_mark_step_waiting now p user k oid iid h))"
  "stays A env (on_plans env (\<lambda>now. tp_mark_step_succeeded now p user k oid h h'))"
  "stays A env (on_plans env (\<lambda>now. tp_mark_step_failed now p user k o' st code msg eff))"
  "stays A env (on_plans env (\<lambda>now. tp_complete now p user reason skip e'))"
  "stays A env (on_plans env (\<lambda>now. tp_set_result_projection now p user v))"
proof -
  show "stays A env (on_plans env (\<lambda>now. tp_begin_next_step now p user))"
    by (rule stays_plans[of _ "\<lambda>now. TpBegin now p user"]) (simp_all add: begins)
  show "stays A env (on_plans env (\<lambda>now. tp_mark_step_waiting now p user k oid iid h))"
    by (rule stays_plans[of _ "\<lambda>now. TpWaiting now p user k oid iid h"]) (simp_all add: waits)
  show "stays A env (on_plans env (\<lambda>now. tp_mark_step_succeeded now p user k oid h h'))"
    by (rule stays_plans[of _ "\<lambda>now. TpSucceeded now p user k oid h h'"]) (simp_all add: succeeds)
  show "stays A env (on_plans env (\<lambda>now. tp_mark_step_failed now p user k o' st code msg eff))"
    by (rule stays_plans[of _ "\<lambda>now. TpFailed now p user k o' st code msg eff"]) (simp_all add: fails)
  show "stays A env (on_plans env (\<lambda>now. tp_complete now p user reason skip e'))"
    by (rule stays_plans[of _ "\<lambda>now. TpComplete now p user reason skip e'"]) (simp_all add: completes)
  show "stays A env (on_plans env (\<lambda>now. tp_set_result_projection now p user v))"
    by (rule stays_plans[of _ "\<lambda>now. TpProjection now p user v"]) (simp_all add: projects)
qed

lemma stays_service:
  assumes "service_allows A sv"
  shows "stays A env (rt_call env (sv_invoke sv c k))" "stays A env (rt_call env (sv_authority sv sn))"
    "stays A env (rt_call env (sv_load sv u i))" "stays A env (rt_tasks env sv t)" "stays A env (rt_call env (sv_retire sv sn j))"
    "stays A env (rt_event env sv p type payload cause)"
  using assms unfolding service_allows_def rt_tasks_def rt_event_def by (auto intro!: stays_call)

lemma stays_endings:
  assumes sv: "service_allows A sv"
  shows "stays A env (complete_plan env sv pid user reason skip)" "stays A env (fail_plan env sv p s oid unknown code msg)"
    "stays A env (waiting_result env sv sn s)"
proof -
  show "stays A env (complete_plan env sv pid user reason skip)"
    unfolding complete_plan_def Let_def by (intro stays_intros stays_steps stays_service[OF sv])
  show "stays A env (fail_plan env sv p s oid unknown code msg)"
    unfolding fail_plan_def fail_active_plan_def Let_def by (intro stays_intros stays_steps stays_service[OF sv])
  show "stays A env (waiting_result env sv sn s)"
    unfolding waiting_result_def Let_def by (intro stays_intros stays_steps stays_service[OF sv])
qed

lemma stays_outcomes:
  assumes sv: "service_allows A sv"
  shows "stays A env (store_result_projection env sv sn s oid result)" "stays A env (step_succeeded_now env sv sn s oid row)"
    "stays A env (step_waits env sv sn s oid row resp i)"
proof -
  show "stays A env (store_result_projection env sv sn s oid result)"
    unfolding store_result_projection_def Let_def by (intro stays_intros stays_steps stays_service[OF sv])
  show "stays A env (step_succeeded_now env sv sn s oid row)"
    unfolding step_succeeded_now_def Let_def by (intro stays_intros stays_steps stays_service[OF sv] stays_endings[OF sv])
  show "stays A env (step_waits env sv sn s oid row resp i)"
    unfolding step_waits_def Let_def by (intro stays_intros stays_steps stays_service[OF sv])
qed

lemma stays_response:
  assumes sv: "service_allows A sv"
  shows "stays A env (consume_step_response env sv sn s resp)"
  unfolding consume_step_response_def Let_def
  by (cases "rs_status resp"; simp only: op_status.case; intro stays_intros stays_steps stays_service[OF sv] stays_endings[OF sv] stays_outcomes[OF sv])

lemma stays_arguments: "stays A env (resolve_step_arguments p s)"
proof -
  have map: "stays A env (rt_map (bound_value p) refs)" for p :: tp_plan and refs
    by (induction refs) (auto simp: bound_value_def Let_def intro!: stays_intros)
  have "stays A env (bind_arguments p bs args)" for p bs args
    by (induction p bs args rule: bind_arguments.induct) (auto intro!: stays_intros map)
  then show ?thesis
    unfolding resolve_step_arguments_def by (intro stays_intros)
qed

lemma stays_invocations:
  assumes sv: "service_allows A sv"
  shows "stays A env (if ts_kind s = k then invoke_capability env sv p s args else invoke_transform env sv p s args)"
  unfolding invoke_capability_def invoke_transform_def Let_def
  by (intro stays_intros stays_service[OF sv])

lemma stays_step:
  assumes sv: "service_allows A sv"
  shows "stays A env (run_step env sv sn s)"
  unfolding run_step_def Let_def
  by (intro stays_intros stays_arguments stays_invocations[OF sv] stays_service[OF sv] stays_response[OF sv])

lemma stays_round:
  assumes sv: "service_allows A sv"
  shows "stays A env (advance_round env sv pid user)"
  unfolding advance_round_def round_step_def Let_def
  by (intro stays_intros stays_steps stays_service[OF sv] stays_endings[OF sv] stays_step[OF sv])

lemma advance_reaches:
  assumes sv: "service_allows A sv" and run: "advance env sv pid user db = Some (out, db')"
  shows "reaches A env db db'"
proof -
  have "service_allows A sv \<longrightarrow> (case y of (out, db') \<Rightarrow> reaches A env db db')" if "advance env sv pid user db = Some y" for y
  proof (rule advance.raw_induct[where P = "\<lambda>env sv pid user db y. service_allows A sv \<longrightarrow> (case y of (out, db') \<Rightarrow> reaches A env db db')",
        OF _ that], intro impI)
    fix f env sv pid user db y
    assume IH: "\<And>env sv pid user db y. f env sv pid user db = Some y \<Longrightarrow> service_allows A sv \<longrightarrow> (case y of (out, db') \<Rightarrow> reaches A env db db')"
      and run: "(let (out, db') = advance_round env sv pid user db in
          if out = Inr None then f env sv pid user db' else Some ((case out of Inl e \<Rightarrow> Inl e | Inr r \<Rightarrow> Inr (the r)), db')) = Some y"
      and sv: "service_allows A sv"
    obtain o1 db1 where r: "advance_round env sv pid user db = (o1, db1)" by (cases "advance_round env sv pid user db") auto
    note step = staysD[OF stays_round[OF sv] r]
    show "case y of (out, db') \<Rightarrow> reaches A env db db'"
      using run IH[of env sv pid user db1 y] sv reaches_trans[OF step] step by (auto simp: r split: if_splits)
  qed
  from this[OF run] sv show ?thesis by simp
qed

end

interpretation any_op: plan_discipline "\<lambda>_. True"
  by unfold_locales simp_all

interpretation no_reset: plan_discipline "\<lambda>op. \<not> resets p op" for p
  by unfold_locales simp_all

section \<open>Triples\<close>

definition rt_valid :: "('x rt_db \<Rightarrow> bool) \<Rightarrow> ('x, 'a) rt \<Rightarrow> ('a \<Rightarrow> 'x rt_db \<Rightarrow> bool) \<Rightarrow> bool" where
  "rt_valid P m Q \<longleftrightarrow> (\<forall>db a db'. P db \<longrightarrow> m db = (Inr a, db') \<longrightarrow> Q a db')"

lemma rt_bind_Inr: "rt_bind m f db = (Inr b, db') \<longleftrightarrow> (\<exists>a db1. m db = (Inr a, db1) \<and> f a db1 = (Inr b, db'))"
  by (auto simp: rt_bind_def split: prod.splits sum.splits)

lemma rt_validD: "rt_valid P m Q \<Longrightarrow> P db \<Longrightarrow> m db = (Inr a, db') \<Longrightarrow> Q a db'"
  unfolding rt_valid_def by blast

lemma valid_bind: "rt_valid P m Q \<Longrightarrow> (\<And>a. rt_valid (Q a) (f a) R) \<Longrightarrow> rt_valid P (rt_bind m f) R"
  unfolding rt_valid_def rt_bind_Inr by blast

lemma valid_return: "(\<And>db. P db \<Longrightarrow> Q a db) \<Longrightarrow> rt_valid P (rt_return a) Q"
  unfolding rt_valid_def rt_return_def by blast

lemma valid_pre: "rt_valid P m Q \<Longrightarrow> (\<And>db. P' db \<Longrightarrow> P db) \<Longrightarrow> rt_valid P' m Q"
  unfolding rt_valid_def by blast

lemma valid_stays:
  assumes "stays A env m" and "\<And>db db'. P db \<Longrightarrow> reaches A env db db' \<Longrightarrow> P db'"
  shows "rt_valid P m (\<lambda>_. P)"
  unfolding rt_valid_def using staysD[OF assms(1)] assms(2) by blast

text \<open>A call whose answer does not matter.\<close>

lemma valid_skip:
  assumes "stays A env m" and "\<And>db db'. P db \<Longrightarrow> reaches A env db db' \<Longrightarrow> P db'" and "\<And>a. rt_valid P (f a) Q"
  shows "rt_valid P (rt_bind m f) Q"
  by (rule valid_bind[OF valid_stays]) (rule assms; assumption)+

lemma valid_catch:
  assumes "stays A env m" and "\<And>db db'. P db \<Longrightarrow> reaches A env db db' \<Longrightarrow> P db'"
    and "rt_valid P m Q" and "\<And>e. rt_valid P (h e) Q"
  shows "rt_valid P (rt_catch m h) Q"
  unfolding rt_valid_def
proof (intro allI impI)
  fix db a db' assume P: "P db" and run: "rt_catch m h db = (Inr a, db')"
  obtain o1 db1 where m: "m db = (o1, db1)" by (cases "m db") auto
  show "Q a db'"
  proof (cases o1)
    case (Inl e)
    then have "h e db1 = (Inr a, db')" using run by (simp add: rt_catch_def m)
    then show ?thesis using rt_validD[OF assms(4)] assms(2)[OF P staysD[OF assms(1) m]] by blast
  next
    case (Inr x)
    then have "m db = (Inr a, db')" using run by (simp add: rt_catch_def m)
    then show ?thesis using rt_validD[OF assms(3) P] by blast
  qed
qed

section \<open>The loop ends\<close>

text \<open>A sound store that has the plan, with at most so much work left in it.\<close>

definition budget :: "string \<Rightarrow> nat \<Rightarrow> 'x rt_db \<Rightarrow> bool" where
  "budget p n db \<longleftrightarrow> tp_inv (rt_plans db) \<and> tbl_get tp_id p (tp_plans (rt_plans db)) \<noteq> None \<and> plan_work p (rt_plans db) \<le> n"

lemma plan_work_run:
  assumes "tp_inv db" "tbl_get tp_id p (tp_plans db) \<noteq> None" "list_all (\<lambda>op. \<not> resets p op) ops"
  shows "tp_inv (run tp_exec ops db) \<and> tbl_get tp_id p (tp_plans (run tp_exec ops db)) \<noteq> None \<and>
    plan_work p (run (tp_exec :: 'e tp_op \<Rightarrow> _) ops db) \<le> plan_work p db"
  using assms
proof (induction ops arbitrary: db)
  case (Cons op ops)
  have one: "tp_inv (commit (tp_exec op db) db) \<and> tbl_get tp_id p (tp_plans (commit (tp_exec op db) db)) \<noteq> None \<and>
    plan_work p (commit (tp_exec op db) db) \<le> plan_work p db"
  proof (cases "tp_exec op db")
    case (Inl e)
    then show ?thesis using Cons.prems by (simp add: commit_def)
  next
    case (Inr r)
    then obtain u db' where run: "tp_exec op db = Inr (u, db')" by (cases r) auto
    obtain row where get: "tbl_get tp_id p (tp_plans db) = Some row" using Cons.prems(2) by blast
    from tp_exec_moved[OF Cons.prems(1) run] have m: "tp_inv db'" "tp_moved (clears_marker op) db db'" by blast+
    have "plan_work p db' \<le> plan_work p db" using plan_work_exec[OF Cons.prems(1) get run] Cons.prems(3) by simp
    then show ?thesis using tp_moved_get[OF m get] m(1) by (auto simp: run commit_def)
  qed
  have "list_all (\<lambda>op. \<not> resets p op) ops" using Cons.prems(3) by simp
  from Cons.IH[OF _ _ this, of "commit (tp_exec op db) db"] one show ?case by (auto intro: le_trans)
qed simp

lemma budget_stays: "budget p n db \<Longrightarrow> reaches (\<lambda>op. \<not> resets p op) env db db' \<Longrightarrow> budget p n db'"
proof -
  assume b: "budget p n db" and "reaches (\<lambda>op. \<not> resets p op) env db db'"
  then obtain ops :: "unit tp_op list" where ops: "list_all (\<lambda>op. \<not> resets p op) ops" "rt_plans db' = run tp_exec ops (rt_plans db)"
    unfolding reaches_def by blast
  have "tp_inv (rt_plans db)" "tbl_get tp_id p (tp_plans (rt_plans db)) \<noteq> None" using b unfolding budget_def by blast+
  from plan_work_run[OF this ops(1)] show ?thesis using b unfolding budget_def ops(2) by linarith
qed

lemma on_plans_Inr:
  assumes "on_plans env f db = (Inr a, db')"
  shows "f (re_clock env (rt_tick db)) (rt_plans db) = Inr (a, rt_plans db')"
  using assms by (auto simp: on_plans_def rt_bind_def rt_tick_now_def split: sum.splits prod.splits)

lemma budget_succeeded:
  "rt_valid (budget p (Suc n)) (on_plans env (\<lambda>now. tp_mark_step_succeeded now p user k oid h h')) (\<lambda>_. budget p n)"
  unfolding rt_valid_def
proof (intro allI impI)
  fix db :: "'x rt_db" and sn db' assume b: "budget p (Suc n) db"
    and run: "on_plans env (\<lambda>now. tp_mark_step_succeeded now p user k oid h h') db = (Inr sn, db')"
  have "budget p (Suc n) db'" using staysD[OF no_reset.stays_steps(3) run] b budget_stays by blast
  moreover have "tp_inv (rt_plans db)" using b by (simp add: budget_def)
  note w = plan_work_step[OF this _ on_plans_Inr[OF run, unfolded tp_mark_step_succeeded_def]]
  have "plan_work p (rt_plans db') \<le> n" using w b by (cases "plan_work p (rt_plans db)") (auto simp: budget_def)
  ultimately show "budget p n db'" by (simp add: budget_def)
qed

text \<open>An answer ends the loop.\<close>

lemma valid_answer: "rt_valid P (rt_bind m (\<lambda>r. rt_return (Some r))) (\<lambda>x db. x = None \<longrightarrow> R db)"
  by (auto simp: rt_valid_def rt_bind_Inr rt_return_def)

lemma budget_step_succeeded:
  assumes sv: "service_allows (\<lambda>op. \<not> resets p op) sv" and p: "tp_id (sn_plan plan) = p"
  shows "rt_valid (budget p (Suc n)) (step_succeeded_now env sv plan s oid row) (\<lambda>x db. x = None \<longrightarrow> budget p n db)"
proof -
  note skip = valid_skip[where P = "budget p n" and A = "\<lambda>op. \<not> resets p op" and env = env]
  have end_step: "rt_valid (budget p n) (if b then rt_bind m (\<lambda>r. rt_return (Some r)) else rt_return None) (\<lambda>x db. x = None \<longrightarrow> budget p n db)"
    for b and m :: "('b, rt_response) rt" by (simp add: valid_answer valid_return)
  show ?thesis
    unfolding step_succeeded_now_def Let_def p
    by (rule valid_bind[OF budget_succeeded])
       (rule skip[OF no_reset.stays_service(6)[OF sv] budget_stays], assumption, assumption,
        auto intro!: valid_return skip[OF stays_lift budget_stays] end_step)
qed

lemma budget_response:
  assumes sv: "service_allows (\<lambda>op. \<not> resets p op) sv" and p: "tp_id (sn_plan plan) = p"
  shows "rt_valid (budget p (Suc n)) (consume_step_response env sv plan s resp) (\<lambda>x db. x = None \<longrightarrow> budget p n db)"
proof -
  note skip = valid_skip[where P = "budget p (Suc n)" and A = "\<lambda>op. \<not> resets p op" and env = env, OF _ budget_stays]
  note step = budget_step_succeeded[OF sv p]
  have get: "rt_valid P (rt_bind m (\<lambda>sn. rt_return (Some (f sn)))) (\<lambda>x db. x = None \<longrightarrow> R db)"
    for P R m and f :: "tp_snapshot \<Rightarrow> rt_response" by (auto simp: rt_valid_def rt_bind_Inr rt_return_def)
  have succeeded: "rt_valid (budget p (Suc n)) (case x of None \<Rightarrow> step_succeeded_now env sv plan s oid row
      | Some result \<Rightarrow>
          rt_bind (store_result_projection env sv plan s oid result) (\<lambda>_.
          rt_bind (rt_lift RxTransform t) (\<lambda>spec.
          rt_bind (if c spec then rt_lift id (result_incomplete result) else rt_return False) (\<lambda>incomplete.
          if d incomplete then rt_bind m (\<lambda>r. rt_return (Some r)) else step_succeeded_now env sv plan s oid row))))
      (\<lambda>x db. x = None \<longrightarrow> budget p n db)" for x oid row t c d m
    by (auto split: option.split intro!: step skip no_reset.stays_outcomes[OF sv] stays_intros valid_answer)
  show ?thesis
    unfolding consume_step_response_def Let_def
    by (cases "rs_status resp")
      (auto intro!: valid_answer skip stays_intros no_reset.stays_service[OF sv] get succeeded split: option.split)
qed

lemma tp_get_Inr:
  "tp_get p user db = (Inr sn :: 'e tp_error + tp_snapshot) \<longleftrightarrow>
     (\<exists>r. tbl_get tp_id p (tp_plans db) = Some r \<and> tp_user r = user \<and> sn = tp_snapshot_of db r)"
  by (auto simp: tp_get_def outcome_simps)

lemma snapshot_plan [simp]: "sn_plan (tp_snapshot_of db r) = r"
  by (simp add: tp_snapshot_of_def Let_def)

lemma read_plans_Inr: "read_plans f db = (Inr a, db') \<longleftrightarrow> f (rt_plans db) = Inr a \<and> db' = db"
  by (auto simp: read_plans_def split: sum.splits)

lemma round_lowers_work:
  assumes sv: "service_allows (\<lambda>op. \<not> resets p op) sv" and inv: "tp_inv (rt_plans db)"
    and run: "advance_round env sv p user db = (Inr None, db')"
  shows "plan_work p (rt_plans db') < plan_work p (rt_plans db) \<and> tp_inv (rt_plans db')"
proof -
  obtain r where r: "tbl_get tp_id p (tp_plans (rt_plans db)) = Some r" "tp_id r = p"
    and act: "tp_state r \<in> active_plan_states"
    and rest: "\<not> filled (tp_commit_operation r)"
    using run tbl_get_mem
    by (fastforce simp: advance_round_def rt_bind_Inr read_plans_Inr tp_get_Inr Let_def rt_return_def split: if_splits)
  let ?sn = "tp_snapshot_of (rt_plans db) r"
  from r act obtain n where n: "plan_work p (rt_plans db) = Suc n" by (simp add: plan_work_def)
  have b: "budget p (Suc n) db" using inv r n by (simp add: budget_def)
  note skip = valid_skip[where P = "budget p (Suc n)" and A = "\<lambda>op. \<not> resets p op" and env = env, OF _ budget_stays]
  have step: "rt_valid (budget p (Suc n)) (run_step env sv ?sn s) (\<lambda>x db. x = None \<longrightarrow> budget p n db)" for s
    unfolding run_step_def Let_def
    by (rule skip[OF no_reset.stays_service(2)[OF sv]], assumption, assumption,
        rule skip[OF stays_lift], assumption, assumption,
        rule skip[OF no_reset.stays_arguments], assumption, assumption,
        rule skip[OF no_reset.stays_invocations[OF sv]], assumption, assumption,
        rule budget_response[OF sv]) (simp add: r)
  have rest_valid: "rt_valid (budget p (Suc n)) (round_step env sv p user ?sn) (\<lambda>x db. x = None \<longrightarrow> budget p n db)"
    unfolding round_step_def Let_def
    by (rule skip[OF no_reset.stays_steps(1)], assumption, assumption)
       (auto split: option.split prod.split intro!: valid_answer skip stays_when no_reset.stays_service[OF sv]
         valid_catch[OF no_reset.stays_step[OF sv] budget_stays] step)
  have "round_step env sv p user ?sn db = (Inr None, db')"
    using run r act rest by (simp add: advance_round_def rt_bind_Inr read_plans_Inr tp_get_Inr Let_def)
  from rt_validD[OF rest_valid b this] show ?thesis unfolding n budget_def by simp
qed

theorem advance_returns:
  assumes inv: "tp_inv (rt_plans db)" and sv: "service_allows (\<lambda>op. \<not> resets p op) sv"
  shows "\<exists>out db'. advance env sv p user db = Some (out, db')"
  using inv
proof (induction "plan_work p (rt_plans db)" arbitrary: db rule: less_induct)
  case less
  obtain out db1 where r: "advance_round env sv p user db = (out, db1)" by (cases "advance_round env sv p user db") auto
  show ?case
  proof (cases "out = Inr None")
    case True
    from round_lowers_work[OF sv less.prems r[unfolded True]] less.hyps[of db1]
    show ?thesis by (subst advance.simps) (simp add: r True)
  next
    case False
    then show ?thesis by (subst advance.simps) (simp add: r)
  qed
qed

section \<open>Answers\<close>

text \<open>An answer that says how the plan ended, and the stored plan.\<close>

definition final_statuses :: "string set" where
  "final_statuses = {''succeeded'', ''failed'', ''outcome_unknown'', ''canceled''}"

definition agrees :: "string \<Rightarrow> rt_response \<Rightarrow> 'x rt_db \<Rightarrow> bool" where
  "agrees p r db \<longleftrightarrow> tp_inv (rt_plans db) \<and> (rr_status r \<in> final_statuses \<longrightarrow>
     (\<exists>row. tbl_get tp_id p (tp_plans (rt_plans db)) = Some row \<and> plan_status (tp_state row) = rr_status r))"

definition answers_agree :: "string \<Rightarrow> rt_response option \<Rightarrow> 'x rt_db \<Rightarrow> bool" where
  "answers_agree p x db \<longleftrightarrow> tp_inv (rt_plans db) \<and> (\<forall>r. x = Some r \<longrightarrow> agrees p r db)"

abbreviation sound_store :: "'x rt_db \<Rightarrow> bool" where
  "sound_store db \<equiv> tp_inv (rt_plans db)"

lemma final_status: "plan_status st \<in> final_statuses \<longleftrightarrow> st \<notin> active_plan_states"
  by (cases st) (simp_all add: plan_status_def final_statuses_def active_plan_states_def)

lemma sound_stays: "sound_store db \<Longrightarrow> reaches A env db db' \<Longrightarrow> sound_store db'"
  unfolding reaches_def using tp_ledger.inv_run by metis

lemma ended_stays:
  assumes inv: "tp_inv db" and plan: "tbl_get tp_id p (tp_plans db) = Some r" and e: "tp_state r \<notin> active_plan_states"
  shows "\<exists>r'. tbl_get tp_id p (tp_plans (run (tp_exec :: 'e tp_op \<Rightarrow> _) ops db)) = Some r' \<and> tp_state r' = tp_state r \<and>
    tp_terminal_reason r' = tp_terminal_reason r \<and> own_steps (run (tp_exec :: 'e tp_op \<Rightarrow> _) ops db) r' = own_steps db r"
proof -
  let ?db = "run (tp_exec :: 'e tp_op \<Rightarrow> _) ops db" and ?v = "tp_view_of r (own_steps db r)"
  obtain r' where r': "tbl_get tp_id p (tp_plans ?db) = Some r'" "tp_edge\<^sup>*\<^sup>* ?v (tp_view_of r' (own_steps ?db r'))"
    using tp_view_stands[OF inv plan, of ops] by blast
  have "tp_view_of r' (own_steps ?db r') = ?v"
    using tp_ledger.final_stuck[OF r'(2)] e by (simp add: tp_edge_def tp_view_of_def terminal_iff)
  then show ?thesis using r'(1) by (auto simp: tp_view_of_def)
qed

lemma agrees_stays:
  assumes a: "agrees p r db" and re: "reaches A env db db'"
  shows "agrees p r db'"
proof -
  obtain ops :: "unit tp_op list" where ops: "rt_plans db' = run tp_exec ops (rt_plans db)" using re unfolding reaches_def by blast
  have inv: "sound_store db" and inv': "sound_store db'" using a sound_stays[OF _ re] unfolding agrees_def by blast+
  show ?thesis
    unfolding agrees_def
  proof (intro conjI impI inv')
    assume f: "rr_status r \<in> final_statuses"
    with a obtain row where row: "tbl_get tp_id p (tp_plans (rt_plans db)) = Some row" "plan_status (tp_state row) = rr_status r"
      unfolding agrees_def by blast
    have "tp_state row \<notin> active_plan_states" using f final_status[of "tp_state row"] unfolding row(2) by blast
    from ended_stays[OF inv row(1) this, of ops] show "\<exists>row. tbl_get tp_id p (tp_plans (rt_plans db')) = Some row \<and> plan_status (tp_state row) = rr_status r"
      using row(2) unfolding ops by auto
  qed
qed

lemma agrees_open: "tp_inv (rt_plans db) \<Longrightarrow> rr_status r \<notin> final_statuses \<Longrightarrow> agrees p r db"
  by (simp add: agrees_def)

lemma agrees_row:
  "tp_inv (rt_plans db) \<Longrightarrow> tbl_get tp_id p (tp_plans (rt_plans db)) = Some row \<Longrightarrow> sn_plan sn = row \<Longrightarrow>
   agrees p (plan_result_response sn) db"
  by (simp add: agrees_def plan_result_response_def Let_def)

lemma tp_complete_row:
  assumes run: "tp_complete now p user reason skip eff db = (Inr (sn, db') :: 'e tp_error + tp_snapshot \<times> tp_db)"
  shows "\<exists>row. tbl_get tp_id p (tp_plans db') = Some row \<and> sn_plan sn = row \<and> tp_state row = PlSucceeded"
proof -
  obtain plan where plan: "tbl_get tp_id p (tp_plans db) = Some plan"
    using run by (auto simp: tp_complete_def outcome_simps split: if_splits)
  have pid: "tp_id plan = p" using tbl_get_mem[OF plan] by simp
  let ?f = "\<lambda>r. r\<lparr>tp_state := PlSucceeded, tp_terminal_reason := Some (take 120 reason),
        tp_effect_outcome := short_effect eff, tp_current := None, tp_updated_at := now, tp_finished_at := Some now\<rparr>"
  show ?thesis
  proof (cases "tp_state plan \<in> terminal_plan_states")
    case True
    then show ?thesis using run plan by (auto simp: tp_complete_def outcome_simps split: if_splits)
  next
    case False
    with run plan obtain db1 where db': "db' = tp_set_plan p ?f db1" "tp_plans db1 = tp_plans db"
      and res: "tp_result p (tp_set_plan p ?f db1) = (Inr (sn, db') :: 'e tp_error + tp_snapshot \<times> tp_db)"
      by (auto simp: tp_complete_def outcome_simps Let_def terminal_plan_states_def split: if_splits)
    have "tbl_get tp_id p (tp_plans db') = Some (?f plan)" using plan pid by (simp add: db' tbl_get_update)
    then show ?thesis using res by (auto simp: tp_result_Inr)
  qed
qed

text \<open>The step has failed, and no other step is left to be run.\<close>

definition steps_over :: "string \<Rightarrow> bool \<Rightarrow> string \<Rightarrow> ts_row list \<Rightarrow> bool" where
  "steps_over k unknown code rows \<longleftrightarrow> (\<exists>s \<in> set rows. ts_key s = k) \<and>
     (\<forall>s \<in> set rows. ts_state s \<noteq> StQueued \<and>
        (ts_key s = k \<longrightarrow> ts_state s = (if unknown then StOutcomeUnknown else StFailed) \<and> ts_error_code s = Some (take 120 code)))"

lemma tp_failed_row:
  assumes run: "tp_mark_step_failed now p user k oid st code msg eff db = (Inr (sn, db') :: 'e tp_error + tp_snapshot \<times> tp_db)"
    and plan: "tbl_get tp_id p (tp_plans db) = Some plan" and act: "tp_state plan \<in> active_plan_states"
  shows "\<exists>row. tbl_get tp_id p (tp_plans db') = Some row \<and> sn_plan sn = row \<and> tp_terminal_reason row = Some (take 120 code) \<and>
    tp_state row = (if st = ''failed'' then PlFailed else PlOutcomeUnknown) \<and> steps_over k (st \<noteq> ''failed'') code (own_steps db' row)"
proof -
  have pid: "tp_id plan = p" using tbl_get_mem[OF plan] by simp
  let ?g = "\<lambda>s. s\<lparr>ts_state := (if st = ''failed'' then StFailed else StOutcomeUnknown),
                    ts_operation := coalesce oid (ts_operation s), ts_interaction := None,
                    ts_error_code := Some (take 120 code), ts_error_message := Some (take 500 msg),
                    ts_updated_at := now, ts_finished_at := Some now\<rparr>"
  let ?f = "\<lambda>r. r\<lparr>tp_state := (if st = ''failed'' then PlFailed else PlOutcomeUnknown),
        tp_terminal_reason := Some (take 120 code), tp_current := Some k, tp_effect_outcome := short_effect eff, tp_updated_at := now,
        tp_finished_at := Some now\<rparr>"
  let ?db1 = "tp_set_steps (\<lambda>s. ts_plan s = p \<and> ts_state s = StQueued)
      (\<lambda>s. s\<lparr>ts_state := StCanceled, ts_updated_at := now, ts_finished_at := Some now\<rparr>) (tp_set_steps (\<lambda>s. ts_plan s = p \<and> ts_key s = k) ?g db)"
  from run plan act obtain s where db': "db' = tp_set_plan p ?f ?db1" and s: "ts_select p k db = (Inr s :: 'e tp_error + ts_row)"
      and res: "tp_result p (tp_set_plan p ?f ?db1) = (Inr (sn, db') :: 'e tp_error + tp_snapshot \<times> tp_db)"
    by (auto simp: tp_mark_step_failed_def outcome_simps Let_def terminal_iff split: if_splits)
  have row: "tbl_get tp_id p (tp_plans db') = Some (?f plan)" using plan pid by (simp add: db' tbl_get_update)
  have s_in: "s \<in> set (tp_steps db)" "ts_plan s = p" "ts_key s = k" using find_Some_mem[OF s[unfolded ts_select_Inr]] by simp_all
  define h :: "ts_row \<Rightarrow> ts_row" where "h = (\<lambda>s. if ts_plan s = p \<and> ts_state s = StQueued then s\<lparr>ts_state := StCanceled, ts_updated_at := now, ts_finished_at := Some now\<rparr> else s)
    \<circ> (\<lambda>s. if ts_plan s = p \<and> ts_key s = k then ?g s else s)"
  have steps: "tp_steps db' = map h (tp_steps db)" unfolding db' h_def by (simp only: tp_set_sel tbl_update_def map_map)
  have h: "ts_plan (h t) = ts_plan t" "ts_key (h t) = ts_key t" for t by (simp_all add: h_def)
  have over: "ts_state (h t) \<noteq> StQueued \<and> (ts_key t = k \<longrightarrow> ts_state (h t) = (if st = ''failed'' then StFailed else StOutcomeUnknown) \<and>
      ts_error_code (h t) = Some (take 120 code))" if "ts_plan t = p" for t
    using that by (simp add: h_def)
  have own: "own_steps db' (?f plan) = map h (filter (\<lambda>t. ts_plan t = p) (tp_steps db))"
    by (simp add: own_steps_def steps pid filter_map comp_def h)
  have "steps_over k (st \<noteq> ''failed'') code (own_steps db' (?f plan))"
    unfolding own steps_over_def using s_in over by (auto simp: h)
  then show ?thesis using res row by (auto simp: tp_result_Inr)
qed

lemma agrees_complete:
  assumes sv: "service_allows (\<lambda>_. True) sv"
  shows "rt_valid sound_store (complete_plan env sv p user reason skip) (agrees p)"
proof -
  note keep = sound_stays[where A = "\<lambda>_. True" and env = env] and hold = agrees_stays[where A = "\<lambda>_. True" and env = env]
  have done_row: "rt_valid sound_store (on_plans env (\<lambda>now. tp_complete now p user reason skip e)) (\<lambda>sn. agrees p (plan_result_response sn))" for e
    unfolding rt_valid_def
  proof (intro allI impI)
    fix db :: "'x rt_db" and sn db'
    assume inv: "sound_store db" and run: "on_plans env (\<lambda>now. tp_complete now p user reason skip e) db = (Inr sn, db')"
    have "sound_store db'" using keep[OF inv staysD[OF any_op.stays_steps(5) run]] .
    with tp_complete_row[OF on_plans_Inr[OF run]] show "agrees p (plan_result_response sn) db'" by (auto intro: agrees_row)
  qed
  show ?thesis
    unfolding complete_plan_def Let_def
    by (rule valid_skip[OF stays_read(1) keep], assumption, assumption, rule valid_bind[OF done_row],
        rule valid_skip[OF any_op.stays_service(6)[OF sv] hold], assumption, assumption,
        rule valid_skip[OF stays_swallow[OF any_op.stays_service(4)[OF sv]] hold], assumption, assumption)
       (rule valid_return)
qed

lemma valid_get:
  "(\<And>row db. P db \<Longrightarrow> tbl_get tp_id p (tp_plans (rt_plans db)) = Some row \<Longrightarrow> tp_user row = user \<Longrightarrow> Q (tp_snapshot_of (rt_plans db) row) db) \<Longrightarrow>
   rt_valid P (read_plans (tp_get p user)) Q"
  by (auto simp: rt_valid_def read_plans_Inr tp_get_Inr)

lemma service_any: "service_allows (\<lambda>_. True) sv"
  by (simp add: service_allows_def svc_allows_def list_all_iff split: prod.split)

text \<open>The answer of a plan that has just failed, and its row.\<close>

definition failed_with :: "string \<Rightarrow> string \<Rightarrow> bool \<Rightarrow> string \<Rightarrow> string \<Rightarrow> rt_response \<Rightarrow> 'x rt_db \<Rightarrow> bool" where
  "failed_with p k unknown code msg r db \<longleftrightarrow>
     rr_status r = (if unknown then ''outcome_unknown'' else ''failed'') \<and> rr_error r = Some (code, take 500 msg) \<and>
     (\<exists>row. tbl_get tp_id p (tp_plans (rt_plans db)) = Some row \<and> tp_state row = (if unknown then PlOutcomeUnknown else PlFailed) \<and>
        tp_terminal_reason row = Some (take 120 code) \<and> steps_over k unknown code (own_steps (rt_plans db) row))"

lemma failed_stays:
  assumes f: "sound_store db \<and> failed_with p k unknown code msg r db" and re: "reaches A env db db'"
  shows "sound_store db' \<and> failed_with p k unknown code msg r db'"
proof -
  obtain ops :: "unit tp_op list" where ops: "rt_plans db' = run tp_exec ops (rt_plans db)" using re unfolding reaches_def by blast
  from f obtain row where row: "tbl_get tp_id p (tp_plans (rt_plans db)) = Some row"
    "tp_state row = (if unknown then PlOutcomeUnknown else PlFailed)" "tp_terminal_reason row = Some (take 120 code)"
    "steps_over k unknown code (own_steps (rt_plans db) row)"
    unfolding failed_with_def by blast
  have "tp_state row \<notin> active_plan_states" using row(2) by (simp add: active_plan_states_def)
  from ended_stays[OF _ row(1) this, of ops] f sound_stays[OF _ re] row(2-4) show ?thesis
    unfolding failed_with_def ops by auto
qed

lemma fail_active:
  "rt_valid (\<lambda>db. sound_store db \<and> tbl_get tp_id (tp_id p) (tp_plans (rt_plans db)) = Some row \<and> tp_state row \<in> active_plan_states)
     (fail_active_plan env sv p s oid unknown code msg current) (\<lambda>r db. sound_store db \<and> failed_with (tp_id p) (ts_key s) unknown code msg r db)"
proof -
  note hold = failed_stays[where A = "\<lambda>_. True" and env = env] and sv = service_any[of sv]
  let ?state = "if unknown then ''outcome_unknown'' else ''failed''"
  define answer where "answer u = \<lparr>rr_status = ?state, rr_operation = oid, rr_interaction = None, rr_error = Some (code, take 500 msg),
         rr_next_action = (if code = ''PLAN_SOURCE_INCOMPLETE'' then Some report_failure else None),
         rr_plan = task_plan_response u\<rparr>" for u
  have fail: "rt_valid (\<lambda>db. sound_store db \<and> tbl_get tp_id (tp_id p) (tp_plans (rt_plans db)) = Some row \<and> tp_state row \<in> active_plan_states)
      (on_plans env (\<lambda>now. tp_mark_step_failed now (tp_id p) (tp_user p) (ts_key s) oid ?state code msg e))
      (\<lambda>u db. sound_store db \<and> failed_with (tp_id p) (ts_key s) unknown code msg (answer u) db)" for e
    unfolding rt_valid_def
  proof (intro allI impI, elim conjE)
    fix db u db'
    assume inv: "sound_store db" and row: "tbl_get tp_id (tp_id p) (tp_plans (rt_plans db)) = Some row" "tp_state row \<in> active_plan_states"
      and run: "on_plans env (\<lambda>now. tp_mark_step_failed now (tp_id p) (tp_user p) (ts_key s) oid ?state code msg e) db = (Inr u, db')"
    have "sound_store db'" using sound_stays[OF inv staysD[OF any_op.stays_steps(4) run]] .
    then show "sound_store db' \<and> failed_with (tp_id p) (ts_key s) unknown code msg (answer u) db'"
      using tp_failed_row[OF on_plans_Inr[OF run] row] by (auto simp: failed_with_def answer_def)
  qed
  show ?thesis
    unfolding fail_active_plan_def Let_def answer_def[symmetric]
    by (rule valid_bind[OF fail], rule valid_skip[OF any_op.stays_service(6)[OF sv] hold], assumption, assumption,
        rule valid_skip[OF stays_swallow[OF any_op.stays_service(4)[OF sv]] hold], assumption, assumption,
        rule valid_skip[OF any_op.stays_service(5)[OF sv] hold], assumption, assumption) (rule valid_return)
qed

lemma fail_plan_outcome:
  assumes inv: "sound_store db" and run: "fail_plan env sv p s oid unknown code msg db = (Inr r, db')"
  shows "sound_store db' \<and> (\<exists>row. tbl_get tp_id (tp_id p) (tp_plans (rt_plans db)) = Some row \<and>
    (if tp_state row \<in> active_plan_states then failed_with (tp_id p) (ts_key s) unknown code msg r db'
     else r = plan_result_response (tp_snapshot_of (rt_plans db) row) \<and> db' = db))"
proof -
  from run obtain row where row: "tbl_get tp_id (tp_id p) (tp_plans (rt_plans db)) = Some row"
    and rest: "(if tp_state row \<notin> active_plan_states then rt_return (plan_result_response (tp_snapshot_of (rt_plans db) row))
       else fail_active_plan env sv p s oid unknown code msg (tp_snapshot_of (rt_plans db) row)) db = (Inr r, db')"
    by (auto simp: fail_plan_def rt_get_def rt_bind_Inr read_plans_Inr tp_get_Inr)
  show ?thesis
  proof (cases "tp_state row \<in> active_plan_states")
    case True
    with rest have "fail_active_plan env sv p s oid unknown code msg (tp_snapshot_of (rt_plans db) row) db = (Inr r, db')" by simp
    from rt_validD[OF fail_active[where row = row] _ this] inv row True show ?thesis by simp
  next
    case False
    then show ?thesis using rest row inv by (auto simp: rt_return_def)
  qed
qed

lemma agrees_fail: "rt_valid sound_store (fail_plan env sv p s oid unknown code msg) (agrees (tp_id p))"
  unfolding rt_valid_def
proof (intro allI impI)
  fix db r db' assume inv: "sound_store db" and run: "fail_plan env sv p s oid unknown code msg db = (Inr r, db')"
  from fail_plan_outcome[OF inv run] show "agrees (tp_id p) r db'"
    by (auto simp: agrees_def failed_with_def plan_status_def plan_result_response_def Let_def split: if_splits)
qed

text \<open>The answers of a step, and of a round.\<close>

lemma answers_some: "rt_valid P m (agrees p) \<Longrightarrow> rt_valid P (rt_bind m (\<lambda>r. rt_return (Some r))) (answers_agree p)"
  by (auto simp: rt_valid_def rt_bind_Inr rt_return_def answers_agree_def agrees_def)

lemma answers_none: "rt_valid sound_store (rt_return None) (answers_agree p)"
  by (auto simp: rt_valid_def rt_return_def answers_agree_def)

lemma answers_open: "(\<And>a. rr_status (f a) \<notin> final_statuses) \<Longrightarrow> stays (\<lambda>_. True) env m \<Longrightarrow>
   rt_valid sound_store (rt_bind m (\<lambda>a. rt_return (Some (f a)))) (answers_agree p)"
  by (rule valid_skip[OF _ sound_stays]) (auto intro!: valid_return simp: answers_agree_def agrees_open)

lemma agrees_waiting:
  assumes sv: "service_allows (\<lambda>_. True) sv"
  shows "rt_valid sound_store (waiting_result env sv sn s) (agrees p)"
  unfolding waiting_result_def
  by (rule valid_skip[OF _ sound_stays[where A = "\<lambda>_. True" and env = env]])
     (auto intro!: valid_return agrees_open stays_intros any_op.stays_service[OF sv] simp: final_statuses_def)

lemma agrees_waits:
  assumes sv: "service_allows (\<lambda>_. True) sv"
  shows "rt_valid sound_store (step_waits env sv sn s oid row resp i) (agrees p)"
proof -
  note skip = valid_skip[OF _ sound_stays[where A = "\<lambda>_. True" and env = env]]
  show ?thesis
    unfolding step_waits_def Let_def
    by (rule skip[OF any_op.stays_steps(2)], assumption, assumption,
        rule skip[OF any_op.stays_service(3)[OF sv]], assumption, assumption,
        rule skip[OF any_op.stays_service(4)[OF sv]], assumption, assumption,
        rule skip[OF any_op.stays_service(6)[OF sv]], assumption, assumption)
       (auto intro!: valid_return agrees_open simp: final_statuses_def)
qed

lemma answers_succeeded:
  assumes sv: "service_allows (\<lambda>_. True) sv" and p: "tp_id (sn_plan sn) = p"
  shows "rt_valid sound_store (step_succeeded_now env sv sn s oid row) (answers_agree p)"
proof -
  note skip = valid_skip[OF _ sound_stays[where A = "\<lambda>_. True" and env = env]]
  show ?thesis
    unfolding step_succeeded_now_def Let_def p
    by (rule skip[OF any_op.stays_steps(3)], assumption, assumption,
        rule skip[OF any_op.stays_service(6)[OF sv]], assumption, assumption)
       (auto intro!: answers_none answers_some skip[OF stays_lift] agrees_complete[OF sv])
qed

lemma answers_response:
  assumes sv: "service_allows (\<lambda>_. True) sv" and p: "tp_id (sn_plan sn) = p"
  shows "rt_valid sound_store (consume_step_response env sv sn s resp) (answers_agree p)"
proof -
  note skip = valid_skip[OF _ sound_stays[where A = "\<lambda>_. True" and env = env]]
  note step = answers_succeeded[OF sv p] and fail = answers_some[OF agrees_fail[where p = "sn_plan sn", unfolded p]]
  have get: "rt_valid sound_store (rt_bind (rt_get q) (\<lambda>sn. rt_return (Some \<lparr>rr_status = ''running'', rr_operation = oid, rr_interaction = None,
             rr_error = None, rr_next_action = None, rr_plan = task_plan_response sn\<rparr>))) (answers_agree p)" for q oid
    by (rule answers_open[OF _ stays_read(3)]) (simp add: final_statuses_def)
  have succeeded: "rt_valid sound_store (case x of None \<Rightarrow> step_succeeded_now env sv sn s oid row
      | Some result \<Rightarrow>
          rt_bind (store_result_projection env sv sn s oid result) (\<lambda>_.
          rt_bind (rt_lift RxTransform t) (\<lambda>spec.
          rt_bind (if c spec then rt_lift id (result_incomplete result) else rt_return False) (\<lambda>incomplete.
          if d incomplete then rt_bind (fail_plan env sv (sn_plan sn) s oid' u code msg) (\<lambda>r. rt_return (Some r))
          else step_succeeded_now env sv sn s oid row))))
      (answers_agree p)" for x oid row t c d oid' u code msg
    by (auto split: option.split intro!: step fail skip any_op.stays_outcomes[OF sv] stays_intros)
  show ?thesis
    unfolding consume_step_response_def Let_def
    by (cases "rs_status resp")
      (auto intro!: fail skip stays_intros any_op.stays_service[OF sv] get succeeded answers_some[OF agrees_waits[OF sv]] split: option.split)
qed

lemma answers_run_step:
  assumes sv: "service_allows (\<lambda>_. True) sv" and p: "tp_id (sn_plan sn) = p"
  shows "rt_valid sound_store (run_step env sv sn s) (answers_agree p)"
proof -
  note skip = valid_skip[OF _ sound_stays[where A = "\<lambda>_. True" and env = env]]
  show ?thesis
    unfolding run_step_def Let_def
    by (rule skip[OF any_op.stays_service(2)[OF sv]], assumption, assumption,
        rule skip[OF stays_lift], assumption, assumption,
        rule skip[OF any_op.stays_arguments], assumption, assumption,
        rule skip[OF any_op.stays_invocations[OF sv]], assumption, assumption,
        rule answers_response[OF sv p])
qed

lemma answers_round:
  assumes sv: "service_allows (\<lambda>_. True) sv"
  shows "rt_valid sound_store (advance_round env sv p user) (answers_agree p)"
proof -
  note skip = valid_skip[OF _ sound_stays[where A = "\<lambda>_. True" and env = env]]
  note complete = answers_some[OF agrees_complete[OF sv]]
  let ?has = "\<lambda>sn db. sound_store db \<and> tbl_get tp_id p (tp_plans (rt_plans db)) = Some (sn_plan sn)"
  have step: "rt_valid sound_store (round_step env sv p user sn) (answers_agree p)" if p: "tp_id (sn_plan sn) = p" for sn
    unfolding round_step_def Let_def
    by (rule skip[OF any_op.stays_steps(1)], assumption, assumption)
       (auto split: option.split prod.split intro!: complete answers_some[OF agrees_waiting[OF sv]] skip stays_when any_op.stays_service[OF sv]
         valid_catch[OF any_op.stays_step[OF sv] sound_stays] answers_run_step[OF sv p] answers_some[OF agrees_fail[where p = "sn_plan sn", unfolded p]])
  show ?thesis
    unfolding advance_round_def Let_def
  proof (rule valid_bind[OF valid_get[where Q = ?has]])
    fix sn
    have row: "rt_valid (?has sn) (rt_return (Some (plan_result_response sn))) (answers_agree p)"
      by (auto intro!: valid_return agrees_row simp: answers_agree_def)
    have wait: "rt_valid sound_store (rt_return (Some \<lparr>rr_status = ''running'', rr_operation = oid, rr_interaction = None, rr_error = None,
          rr_next_action = na, rr_plan = v\<rparr>)) (answers_agree p)" for oid na v
      by (auto intro!: valid_return agrees_open simp: answers_agree_def final_statuses_def)
    have go: "rt_valid (?has sn) (round_step env sv p user sn) (answers_agree p)"
    proof (cases "tp_id (sn_plan sn) = p")
      case True
      show ?thesis by (rule valid_pre[OF step[OF True]]) blast
    next
      case False
      then show ?thesis by (auto simp: rt_valid_def dest: tbl_get_mem)
    qed
    have sound: "rt_valid (?has sn) m (answers_agree p)" if "rt_valid sound_store m (answers_agree p)" for m
      using that by (rule valid_pre) blast
    show "rt_valid (?has sn) (if tp_state (sn_plan sn) \<notin> active_plan_states then rt_return (Some (plan_result_response sn))
     else if filled (tp_commit_operation (sn_plan sn)) then
       (if list_all (\<lambda>s. ts_state s \<in> {StSucceeded, StSkipped}) (sn_steps sn)
        then rt_bind (complete_plan env sv p user ''all_steps_succeeded'' False) (\<lambda>r. rt_return (Some r))
        else rt_return (Some \<lparr>rr_status = ''running'', rr_operation = tp_commit_operation (sn_plan sn), rr_interaction = None, rr_error = None,
          rr_next_action = Some wait_for_verification, rr_plan = task_plan_response sn\<rparr>))
     else round_step env sv p user sn) (answers_agree p)"
      by (simp add: row go sound wait complete)
  qed auto
qed

lemma agrees_advance:
  fixes sv :: "'x rt_service"
  assumes sv: "service_allows (\<lambda>_. True) sv" and inv: "sound_store db" and run: "advance env sv p user db = Some (Inr r, db')"
  shows "agrees p r db'"
proof -
  let ?P = "\<lambda>env (sv :: 'x rt_service) p (user :: string) db (y :: (rt_exn + rt_response) \<times> 'x rt_db). service_allows (\<lambda>_. True) sv \<longrightarrow> sound_store db \<longrightarrow> (case y of (out, db') \<Rightarrow> \<forall>r. out = Inr r \<longrightarrow> agrees p r db')"
  have "?P env sv p user db (Inr r, db')"
  proof (rule advance.raw_induct[where P = ?P, OF _ run], intro impI)
    fix f env sv p user db y
    assume IH: "\<And>env sv p user db y. f env sv p user db = Some y \<Longrightarrow> ?P env sv p user db y"
      and run: "(let (out, db') = advance_round env sv p user db in
          if out = Inr None then f env sv p user db' else Some ((case out of Inl e \<Rightarrow> Inl e | Inr r \<Rightarrow> Inr (the r)), db')) = Some y"
      and sv: "service_allows (\<lambda>_. True) sv" and inv: "sound_store db"
    obtain o1 db1 where r: "advance_round env sv p user db = (o1, db1)" by (cases "advance_round env sv p user db") auto
    show "case y of (out, db') \<Rightarrow> \<forall>r. out = Inr r \<longrightarrow> agrees p r db'"
    proof (cases o1)
      case (Inl e)
      then show ?thesis using run by (auto simp: r)
    next
      case (Inr x)
      have a: "answers_agree p x db1" by (rule rt_validD[OF answers_round[OF sv] inv r[unfolded Inr]])
      show ?thesis
      proof (cases x)
        case None
        then show ?thesis using run IH[of env sv p user db1 y] sv a by (simp add: r Inr answers_agree_def)
      next
        case (Some z)
        then show ?thesis using run a by (auto simp: r Inr answers_agree_def)
      qed
    qed
  qed
  then show ?thesis using sv inv by simp
qed

lemma tp_cancel_row:
  assumes run: "tp_cancel now p user reason db = (Inr (sn, db') :: 'e tp_error + tp_snapshot \<times> tp_db)"
  shows "tbl_get tp_id p (tp_plans db') = Some (sn_plan sn)"
proof -
  obtain plan where plan: "tbl_get tp_id p (tp_plans db) = Some plan"
    using run by (auto simp: tp_cancel_def outcome_simps split: if_splits)
  show ?thesis
    using run plan by (cases "tp_state plan \<in> terminal_plan_states") (auto simp: tp_cancel_def outcome_simps split: if_splits)
qed

lemma stays_try_cancel: "stays (\<lambda>_. True) env (try_cancel env pid user reason)"
  unfolding try_cancel_def
  by (intro stays_intros stays_plans[of _ "\<lambda>now. TpCancel now pid user reason"]) simp_all

lemma rt_catch_Inr:
  "rt_catch m h db = (Inr a, db') \<longleftrightarrow> m db = (Inr a, db') \<or> (\<exists>e db1. m db = (Inl e, db1) \<and> h e db1 = (Inr a, db'))"
  by (auto simp: rt_catch_def split: prod.splits sum.splits)

lemma agrees_canceled:
  "rt_valid sound_store (try_cancel env p user reason)
     (\<lambda>x db. sound_store db \<and> (\<forall>sn. x = Some sn \<longrightarrow> agrees p (plan_result_response sn) db))"
  unfolding rt_valid_def
proof (intro allI impI)
  fix db x db' assume inv: "sound_store db" and run: "try_cancel env p user reason db = (Inr x, db')"
  have inv': "sound_store db'" using sound_stays[OF inv staysD[OF stays_try_cancel run]] .
  show "sound_store db' \<and> (\<forall>sn. x = Some sn \<longrightarrow> agrees p (plan_result_response sn) db')"
  proof (intro conjI inv' allI impI)
    fix sn assume "x = Some sn"
    with run have "on_plans env (\<lambda>now. tp_cancel now p user reason) db = (Inr sn, db')"
      by (auto simp: try_cancel_def rt_catch_Inr rt_bind_Inr rt_return_def rt_raise_def split: if_splits)
    from agrees_row[OF inv' tp_cancel_row[OF on_plans_Inr[OF this]] refl] show "agrees p (plan_result_response sn) db'" .
  qed
qed

lemma agrees_cancel:
  assumes inv: "sound_store db" and run: "cancel_plan env sv p user reason db = (Inr r, db')"
  shows "agrees p r db'"
proof -
  note hold = agrees_stays[where A = "\<lambda>_. True" and env = env] and sv = service_any[of sv]
  obtain row where row: "tbl_get tp_id p (tp_plans (rt_plans db)) = Some row"
    and rest: "(if tp_state row \<notin> active_plan_states then rt_return (plan_result_response (tp_snapshot_of (rt_plans db) row))
       else rt_bind (try_cancel env p user reason) (\<lambda>canceled.
         case canceled of
           None \<Rightarrow> rt_bind (read_plans (tp_get p user)) (\<lambda>sn. rt_return ((plan_result_response sn)\<lparr>rr_status := ''running'',
             rr_error := Some (''PLAN_COMMIT_IN_PROGRESS'', re_exception env (RxPlans TpCommitInProgress)),
             rr_next_action := Some wait_for_verification\<rparr>))
         | Some plan \<Rightarrow>
             rt_bind (rt_event env sv (sn_plan plan) ''plan.canceled'' [(''planId'', JStr p), (''status'', JStr ''canceled'')] None) (\<lambda>_.
             rt_bind (rt_swallow (rt_tasks env sv (TkCancel (sn_plan plan)))) (\<lambda>_.
             rt_bind (rt_call env (sv_retire sv (tp_snapshot_of (rt_plans db) row) None)) (\<lambda>_.
             rt_return (plan_result_response plan)))))) db = (Inr r, db')"
    using run by (auto simp: cancel_plan_def rt_bind_Inr read_plans_Inr tp_get_Inr)
  show ?thesis
  proof (cases "tp_state row \<in> active_plan_states")
    case False
    then show ?thesis using rest row inv by (auto simp: rt_return_def intro: agrees_row)
  next
    case True
    with rest obtain x db1 where x: "try_cancel env p user reason db = (Inr x, db1)"
      and then_run: "(case x of
           None \<Rightarrow> rt_bind (read_plans (tp_get p user)) (\<lambda>sn. rt_return ((plan_result_response sn)\<lparr>rr_status := ''running'',
             rr_error := Some (''PLAN_COMMIT_IN_PROGRESS'', re_exception env (RxPlans TpCommitInProgress)),
             rr_next_action := Some wait_for_verification\<rparr>))
         | Some plan \<Rightarrow>
             rt_bind (rt_event env sv (sn_plan plan) ''plan.canceled'' [(''planId'', JStr p), (''status'', JStr ''canceled'')] None) (\<lambda>_.
             rt_bind (rt_swallow (rt_tasks env sv (TkCancel (sn_plan plan)))) (\<lambda>_.
             rt_bind (rt_call env (sv_retire sv (tp_snapshot_of (rt_plans db) row) None)) (\<lambda>_.
             rt_return (plan_result_response plan))))) db1 = (Inr r, db')"
      unfolding rt_bind_Inr by (simp only: not_not simp_thms if_False rt_bind_Inr) blast
    from rt_validD[OF agrees_canceled inv x] have s1: "sound_store db1"
      and a1: "\<And>sn. x = Some sn \<Longrightarrow> agrees p (plan_result_response sn) db1" by blast+
    show ?thesis
    proof (cases x)
      case None
      then show ?thesis
        using then_run s1 by (auto simp: rt_bind_Inr read_plans_Inr rt_return_def intro!: agrees_open simp: final_statuses_def)
    next
      case (Some plan)
      have "rt_valid (agrees p (plan_result_response plan))
         (rt_bind (rt_event env sv (sn_plan plan) ''plan.canceled'' [(''planId'', JStr p), (''status'', JStr ''canceled'')] None) (\<lambda>_.
          rt_bind (rt_swallow (rt_tasks env sv (TkCancel (sn_plan plan)))) (\<lambda>_.
          rt_bind (rt_call env (sv_retire sv (tp_snapshot_of (rt_plans db) row) None)) (\<lambda>_.
          rt_return (plan_result_response plan))))) (agrees p)"
        by (rule valid_skip[OF any_op.stays_service(6)[OF sv] hold], assumption, assumption,
            rule valid_skip[OF stays_swallow[OF any_op.stays_service(4)[OF sv]] hold], assumption, assumption,
            rule valid_skip[OF any_op.stays_service(5)[OF sv] hold], assumption, assumption) (rule valid_return)
      from rt_validD[OF this a1[OF Some]] then_run Some show ?thesis by simp
    qed
  qed
qed

section \<open>Every call of the runtime\<close>

lemma stays_cancel: "stays (\<lambda>_. True) env (cancel_plan env sv pid user reason)"
  unfolding cancel_plan_def Let_def
  by (intro stays_intros stays_try_cancel any_op.stays_service[OF service_any])

lemma stays_terminal: "stays (\<lambda>_. True) env (handle_terminal_interaction env sv user iid st)"
  unfolding handle_terminal_interaction_def Let_def
  by (intro stays_intros stays_cancel any_op.stays_endings[OF service_any])

definition stays_opt :: "rt_env \<Rightarrow> ('x rt_db \<Rightarrow> ((rt_exn + 'a) \<times> 'x rt_db) option) \<Rightarrow> bool" where
  "stays_opt env g \<longleftrightarrow> (\<forall>db out db'. g db = Some (out, db') \<longrightarrow> reaches (\<lambda>_. True) env db db')"

lemma stays_then [stays_intros]:
  assumes "stays (\<lambda>_. True) env m" and "\<And>a. stays_opt env (f a)"
  shows "stays_opt env (rt_then m f)"
  unfolding stays_opt_def
proof (intro allI impI)
  fix db out db' assume run: "rt_then m f db = Some (out, db')"
  obtain o1 db1 where m: "m db = (o1, db1)" by (cases "m db") auto
  note step = staysD[OF assms(1) m]
  show "reaches (\<lambda>_. True) env db db'"
    using run step assms(2) reaches_trans[OF step] unfolding stays_opt_def rt_then_def m by (fastforce split: sum.splits)
qed

lemma stays_done [stays_intros]: "stays_opt env (rt_done a)"
  by (simp add: stays_opt_def rt_done_def)

lemma stays_advance [stays_intros]: "stays_opt env (advance env sv pid user)"
  unfolding stays_opt_def using any_op.advance_reaches[OF service_any] by blast

lemma stays_some_advance [stays_intros]: "stays_opt env (\<lambda>db. some_response (advance env sv pid user db))"
  unfolding stays_opt_def some_response_def using any_op.advance_reaches[OF service_any] by (auto split: prod.splits)

lemma stays_opt_cases [stays_intros]:
  "stays_opt env g \<Longrightarrow> stays_opt env g' \<Longrightarrow> stays_opt env (if c then g else g')"
  "stays_opt env g \<Longrightarrow> (\<And>a. stays_opt env (h a)) \<Longrightarrow> stays_opt env (case x of None \<Rightarrow> g | Some a \<Rightarrow> h a)"
  "(\<And>a b. stays_opt env (k a b)) \<Longrightarrow> stays_opt env (case y of (a, b) \<Rightarrow> k a b)"
  by (auto split: option.split prod.split)

lemma stays_start: "stays_opt env (start env sv pid user)"
  unfolding start_def by (intro stays_intros any_op.stays_service[OF service_any])

lemma stays_session: "stays_opt env (resume_after_session env sv user iid)"
  unfolding resume_after_session_def Let_def
  by (intro stays_intros any_op.stays_service[OF service_any]
      stays_plans[where f = "\<lambda>now. tp_reset_step_after_session now p u iid" and op = "\<lambda>now. TpResetSession now p u iid" for p u]) simp_all

lemma stays_capability: "stays_opt env (resume_after_capability env sv user iid resp)"
  unfolding resume_after_capability_def
  by (intro stays_intros any_op.stays_service[OF service_any] any_op.stays_response[OF service_any])

lemma stays_requeue: "stays (\<lambda>_. True) env (requeue_lost_step env sv plan)"
proof -
  have find: "stays (\<lambda>_. True) env (find_step_operation p s)" for p s
    by (rule staysI) (auto simp: find_step_operation_def intro: reaches_same)
  show ?thesis
    unfolding requeue_lost_step_def Let_def
    by (intro stays_intros find any_op.stays_service[OF service_any]
      stays_plans[where f = "\<lambda>now. tp_reset_running_step_for_recovery now p u k n" and op = "\<lambda>now. TpResetRecovery now p u k n" for p u k n]) simp_all
qed

lemma stays_recover_waiting: "stays (\<lambda>_. True) env (recover_waiting env sv plan)"
proof -
  note i = stays_intros any_op.stays_service[OF service_any] stays_terminal
  show ?thesis
    unfolding recover_waiting_def Let_def by (auto intro!: i split: option.split json.split)
qed

lemma stays_after_advance [stays_intros]:
  "stays_opt env (\<lambda>db. map_option (\<lambda>(out, db'). (g out, db')) (case r of Some x \<Rightarrow> Some (Inr x, db) | None \<Rightarrow> advance env sv pid user db))"
  unfolding stays_opt_def using any_op.advance_reaches[OF service_any] by (auto split: option.splits prod.splits)

lemma stays_recover_commit: "stays_opt env (recover_commit env sv plan)"
proof -
  have raise: "stays_opt env (\<lambda>db. Some (Inl e, db))" for e by (simp add: stays_opt_def)
  show ?thesis
    unfolding recover_commit_def Let_def
    by (intro stays_intros raise any_op.stays_endings[OF service_any] any_op.stays_response[OF service_any])
qed

lemma stays_reject: "stays (\<lambda>_. True) env (reject_plan env sv p code msg)"
  unfolding reject_plan_def by (intro stays_intros any_op.stays_endings[OF service_any])

lemma stays_validate: "stays (\<lambda>_. True) env (validate_plan env sv plan)"
  unfolding validate_plan_def by (intro stays_intros any_op.stays_service[OF service_any])

lemma stays_optD: "stays_opt env g \<Longrightarrow> g db = Some (out, db') \<Longrightarrow> reaches (\<lambda>_. True) env db db'"
  unfolding stays_opt_def by blast

lemma recover_plan_reaches:
  assumes run: "recover_plan env sv pid user db = Some (out, before, db')"
  shows "reaches (\<lambda>_. True) env db db'"
proof -
  let ?R = "reaches (\<lambda>_. True) env"
  have opt: "?R d d'" if "stays_opt env g" "map_option (\<lambda>(r, db'). (r, b, db')) (g d) = Some (o', b', d')" for g d b o' b' d'
    using that unfolding stays_opt_def by auto
  obtain o1 db1 where r1: "read_plans (tp_get pid user) db = (o1, db1)" by (cases "read_plans (tp_get pid user) db") auto
  note s1 = staysD[OF stays_read(1) r1]
  show ?thesis
  proof (cases o1)
    case (Inl e)
    then show ?thesis using run s1 by (simp add: recover_plan_def r1)
  next
    case (Inr plan)
    show ?thesis
    proof (cases "filled (tp_commit_operation (sn_plan plan))")
      case True
      then have "map_option (\<lambda>(r, db'). (r, id, db')) (recover_commit env sv plan db1) = Some (out, before, db')"
        using run by (simp add: recover_plan_def r1 Inr Let_def)
      from reaches_trans[OF s1 opt[OF stays_recover_commit this]] show ?thesis .
    next
      case False
      obtain o2 db2 where r2: "validate_plan env sv plan db1 = (o2, db2)" by (cases "validate_plan env sv plan db1") auto
      note s2 = reaches_trans[OF s1 staysD[OF stays_validate r2]]
      show ?thesis
      proof (cases o2)
        case (Inl e)
        have rej: "stays_opt env (rt_then (reject_plan env sv (sn_plan plan) code msg) (\<lambda>_. rt_done failed_one))" for code msg
          by (intro stays_intros stays_reject)
        show ?thesis
          using run stays_optD[OF rej] reaches_trans[OF s2] s2 False
          by (cases "plan_error_of env e") (auto simp: recover_plan_def r1 Inr r2 Inl Let_def)
      next
        case ok: (Inr u)
        have wait: "stays_opt env (rt_then (recover_waiting env sv plan) rt_done)"
          by (intro stays_intros stays_recover_waiting)
        obtain o3 db3 where r3: "requeue_lost_step env sv plan db2 = (o3, db3)" by (cases "requeue_lost_step env sv plan db2") auto
        note s3 = reaches_trans[OF s2 staysD[OF stays_requeue r3]]
        have go: "?R d d'" if "map_option (\<lambda>(out, db4). case out of Inl e \<Rightarrow> (Inl e, b, db4) | Inr x \<Rightarrow> (Inr (h x), b, db4))
            (advance env sv p u d) = Some (o', b', d')" for p u b and h :: "rt_response \<Rightarrow> count" and d o' b' d'
        proof (cases "advance env sv p u d")
          case (Some y)
          then obtain o1 d1 where y: "advance env sv p u d = Some (o1, d1)" by (cases y) auto
          have "d1 = d'" using that by (cases o1) (simp_all add: y)
          then show ?thesis using any_op.advance_reaches[OF service_any y] by simp
        qed (use that in simp)
        show ?thesis
        proof (cases "tp_state (sn_plan plan) \<in> {PlValidated, PlRunning}")
          case True
          then have w: "tp_state (sn_plan plan) \<noteq> PlWaitingUser" "(tp_state (sn_plan plan) \<notin> {PlValidated, PlRunning}) = False" by auto
          show ?thesis
          proof (cases o3)
            case (Inl e)
            then show ?thesis using run s3 False by (simp only: recover_plan_def r1 Inr r2 ok r3 Let_def w prod.case sum.case if_False if_True) simp
          next
            case again: (Inr again)
            have "map_option (\<lambda>(out, db4). case out of Inl e \<Rightarrow> (Inl e, if again then restarted_one else id, db4)
                | Inr x \<Rightarrow> (Inr (count_status (rr_status x) \<circ> advanced_one), if again then restarted_one else id, db4))
              (advance env sv (tp_id (sn_plan plan)) (tp_user (sn_plan plan)) db3) = Some (out, before, db')"
              using run False by (simp only: recover_plan_def r1 Inr r2 ok r3 again Let_def w prod.case sum.case if_False if_True)
            from reaches_trans[OF s3 go[OF this]] show ?thesis .
          qed
        next
          case other: False
          then show ?thesis
            using run stays_optD[OF wait] reaches_trans[OF s2] s2 False
            by (auto simp: recover_plan_def r1 Inr r2 ok Let_def split: if_splits)
        qed
      qed
    qed
  qed
qed

lemma recover_all_reaches: "recover_all env sv plans rc db = Some (rc', db') \<Longrightarrow> reaches (\<lambda>_. True) env db db'"
proof (induction env sv plans rc db rule: recover_all.induct)
  case (2 env sv pid user rest rc db)
  then obtain out before db1 where r: "recover_plan env sv pid user db = Some (out, before, db1)"
    by (auto simp: Let_def split: option.splits)
  have "reaches (\<lambda>_. True) env db1 db'"
    using 2 by (cases out) (simp_all add: r Let_def)
  then show ?case using reaches_trans[OF recover_plan_reaches[OF r]] by blast
qed simp

text \<open>The public methods of the runtime, as steps of the deployment.\<close>

inductive plan_runtime_step :: "rt_env \<Rightarrow> 'x rt_service \<Rightarrow> 'x rt_db \<Rightarrow> 'x rt_db \<Rightarrow> bool" for env sv where
  started: "start env sv pid user db = Some (out, db') \<Longrightarrow> plan_runtime_step env sv db db'"
| advanced: "advance env sv pid user db = Some (out, db') \<Longrightarrow> plan_runtime_step env sv db db'"
| session_ready: "resume_after_session env sv user iid db = Some (out, db') \<Longrightarrow> plan_runtime_step env sv db db'"
| capability_answered: "resume_after_capability env sv user iid resp db = Some (out, db') \<Longrightarrow> plan_runtime_step env sv db db'"
| interaction_ended: "handle_terminal_interaction env sv user iid st db = (out, db') \<Longrightarrow> plan_runtime_step env sv db db'"
| canceled: "cancel_plan env sv pid user reason db = (out, db') \<Longrightarrow> plan_runtime_step env sv db db'"
| recovered: "recover env sv limit db = Some (rc, db') \<Longrightarrow> plan_runtime_step env sv db db'"
| service_called: "rt_call env f db = ((out :: rt_exn + unit), db') \<Longrightarrow> plan_runtime_step env sv db db'"

lemma plan_runtime_step_reaches:
  assumes "plan_runtime_step env sv db db'"
  shows "reaches (\<lambda>_. True) env db db'"
  using assms
proof cases
  case started then show ?thesis using stays_start unfolding stays_opt_def by blast
next
  case advanced then show ?thesis by (rule any_op.advance_reaches[OF service_any])
next
  case session_ready then show ?thesis using stays_session unfolding stays_opt_def by blast
next
  case capability_answered then show ?thesis using stays_capability unfolding stays_opt_def by blast
next
  case interaction_ended then show ?thesis by (rule staysD[OF stays_terminal])
next
  case canceled then show ?thesis by (rule staysD[OF stays_cancel])
next
  case recovered then show ?thesis using recover_all_reaches unfolding recover_def by blast
next
  case (service_called f out)
  have "svc_allows (\<lambda>_. True) f" by (simp add: svc_allows_def list_all_iff split: prod.split)
  from staysD[OF stays_call[OF this] service_called] show ?thesis .
qed

section \<open>Ending a plan\<close>

definition ended_now :: "string \<Rightarrow> rt_response \<Rightarrow> 'x rt_db \<Rightarrow> bool" where
  "ended_now p r db \<longleftrightarrow> (\<exists>row. tbl_get tp_id p (tp_plans (rt_plans db)) = Some row \<and> tp_state row \<notin> active_plan_states \<and>
     plan_status (tp_state row) = rr_status r)"

lemma fail_plan_ended:
  assumes "sound_store db" "fail_plan env sv p s oid unknown code msg db = (Inr r, db')"
  shows "ended_now (tp_id p) r db'"
  using fail_plan_outcome[OF assms]
  by (auto simp: ended_now_def failed_with_def plan_status_def active_plan_states_def plan_result_response_def Let_def split: if_splits)

section \<open>Arguments\<close>

text \<open>The value is an output of a step of the plan that has succeeded, kept in an operation of the same user.\<close>

definition delivered :: "tp_plan \<Rightarrow> 'x rt_db \<Rightarrow> items \<Rightarrow> json \<Rightarrow> bool" where
  "delivered p db reference v \<longleftrightarrow> (\<exists>s ptr oid row.
     text_at reference ''step'' = Inr (ts_key s) \<and> text_at reference ''pointer'' = Inr ptr \<and>
     s \<in> set (tp_steps (rt_plans db)) \<and> ts_plan s = tp_id p \<and> ts_state s = StSucceeded \<and> ts_operation s = Some oid \<and>
     tbl_get op_id oid (rt_operations db) = Some row \<and> op_user row = tp_user p \<and>
     resolve_json_pointer (case op_result row of None \<Rightarrow> JNull | Some r \<Rightarrow> r) ptr = Inr v)"

lemma rt_lift_Inr: "rt_lift f out db = (Inr a, db') \<longleftrightarrow> out = Inr a \<and> db' = db"
  by (auto simp: rt_lift_def rt_return_def rt_raise_def split: sum.splits)

lemma tp_step_output_Inr:
  assumes "tp_step_output_operation p user k db = (Inr oid :: 'e tp_error + string)"
  shows "\<exists>s \<in> set (tp_steps db). ts_plan s = p \<and> ts_key s = k \<and> ts_state s = StSucceeded \<and> ts_operation s = Some oid"
proof -
  from assms obtain s where s: "List.find (\<lambda>s. ts_plan s = p \<and> ts_key s = k) (tp_steps db) = Some s" "ts_state s = StSucceeded"
    "filled (ts_operation s)" "or_text (ts_operation s) [] = oid"
    by (auto simp: tp_step_output_operation_def outcome_simps split: if_splits)
  have "ts_operation s = Some oid" using s(3,4) by (cases "ts_operation s") (auto simp: filled_def or_text_def)
  then show ?thesis using find_Some_mem[OF s(1)] s(2) by blast
qed

lemma bound_value_Inr:
  assumes "bound_value p reference db = (Inr v, db')"
  shows "db' = db \<and> delivered p db reference v"
proof -
  from assms obtain k oid w ptr where k: "text_at reference ''step'' = Inr k" "text_at reference ''pointer'' = Inr ptr"
    and oid: "tp_step_output_operation (tp_id p) (tp_user p) k (rt_plans db) = (Inr oid :: unit tp_error + string)"
    and w: "op_get oid (rt_operations db) = Inr w" "op_user (ov_row w) = tp_user p"
    and v: "resolve_json_pointer (case op_result (ov_row w) of None \<Rightarrow> JNull | Some r \<Rightarrow> r) ptr = Inr v" "db' = db"
    by (auto simp: bound_value_def rt_bind_Inr rt_lift_Inr read_plans_Inr read_operation_def rt_raise_def split: if_splits sum.splits)
  from tp_step_output_Inr[OF oid] obtain s where s: "s \<in> set (tp_steps (rt_plans db))" "ts_plan s = tp_id p" "ts_key s = k"
    "ts_state s = StSucceeded" "ts_operation s = Some oid" by blast
  have "tbl_get op_id oid (rt_operations db) = Some (ov_row w)"
    using w(1) by (auto simp: op_get_def operation_from_row_def split: option.splits)
  then show ?thesis using k s v w(2) unfolding delivered_def by blast
qed

lemma bound_values_Inr:
  "rt_map (bound_value p) refs db = (Inr vs, db') \<Longrightarrow> db' = db \<and> list_all2 (delivered p db) refs vs"
proof (induction refs arbitrary: vs db')
  case (Cons r refs)
  then obtain v db1 ws where v: "bound_value p r db = (Inr v, db1)" and ws: "rt_map (bound_value p) refs db1 = (Inr ws, db')" "vs = v # ws"
    by (auto simp: rt_bind_Inr rt_return_def)
  from bound_value_Inr[OF v] have "db1 = db" "delivered p db r v" by blast+
  then show ?case using Cons.IH[of ws db'] ws by simp
qed (simp add: rt_return_def)

section \<open>Properties\<close>

text \<open>A plan whose first step is a transform with an incomplete result, and whose second step writes.\<close>

definition rt_demo_env :: rt_env where
  "rt_demo_env = \<lparr>re_py = op_demo_env, re_clock = int, re_uuid = (\<lambda>n. ''u'' @ nat_text n), re_started_at = 0,
     re_exception = (\<lambda>_. ''error''), re_repr = (\<lambda>_. []), re_validation = (\<lambda>_. ''invalid''), re_message = (\<lambda>m. m)\<rparr>"

definition rt_demo_transform :: tx_spec where
  "rt_demo_transform = \<lparr>tf_name = ''merge.v1'', tf_description = [], tf_input = typed_schema ''object'', tf_output = typed_schema ''object'',
     tf_result_projection = None, tf_required_bound = [], tf_maximum_items = 9, tf_maximum_chars = 9, tf_halts_on_empty = True,
     tf_halts_on_incomplete = True, tf_counter = None\<rparr>"

definition rt_demo_service :: "unit rt_service" where
  "rt_demo_service = \<lparr>sv_registry = [(''oa.leave.submit'', demo_spec)],
     sv_transforms = \<lparr>tr_specs = [(''merge.v1'', rt_demo_transform)], tr_handlers = [(''merge.v1'', \<lambda>d. Inr (JDict d))]\<rparr>,
     sv_invoke = (\<lambda>_ _ _. (Inl (RxService ''down''), [], [], ())), sv_authority = (\<lambda>_ _. (Inr (), [], [], ())),
     sv_load = (\<lambda>_ _ _. (Inl (RxService ''down''), [], [], ())), sv_tasks = (\<lambda>_ _. (Inr (), [], [], ())),
     sv_retire = (\<lambda>_ _ _. (Inr (), [], [], ()))\<rparr>"

definition rt_demo_request :: tp_request where
  "rt_demo_request = tp_demo_request\<lparr>tq_plan := (tq_plan tp_demo_request)\<lparr>cp_steps :=
     [(tp_demo_step ''a'' 1 [])\<lparr>cs_kind := ''transform'', cs_capability := None, cs_transform := Some ''merge.v1'', cs_effect := ''read''\<rparr>,
      (tp_demo_step ''b'' 2 [''a''])\<lparr>cs_capability := Some ''oa.leave.submit''\<rparr>]\<rparr>\<rparr>"

definition rt_demo_plans :: tp_db where
  "rt_demo_plans = run (tp_exec :: unit tp_op \<Rightarrow> _)
     [TpCreate 0 ''p1'' (\<lambda>n. if n = 0 then ''s0'' else ''s1'') rt_demo_request, TpBegin 1 ''p1'' ''ann''] tp_empty"

definition rt_demo_operations :: op_db where
  "rt_demo_operations = run (op_exec op_demo_env)
     [OpCreate [] 1 ''o1'' ''r1'' op_demo_request, OpMarkRunning 2 ''o1'', OpMarkSucceeded 3 ''o1'' (JDict [(''source_incomplete'', JBool True)])] []"

definition rt_demo_db :: "unit rt_db" where
  "rt_demo_db = \<lparr>rt_plans = rt_demo_plans, rt_operations = rt_demo_operations, rt_tick = 4, rt_other = ()\<rparr>"

lemma rt_demo_sound: "sound_store rt_demo_db" "op_inv (rt_operations rt_demo_db)"
  unfolding rt_demo_db_def rt_demo_plans_def rt_demo_operations_def
  by (simp_all only: rt_db.select_convs) (rule tp_ledger.inv_run[OF tp_inv_empty] op_ledger.inv_run[OF op_inv_empty])+

lemma rt_demo_quiet: "service_allows (\<lambda>op. \<not> resets p op) rt_demo_service"
  by (simp add: service_allows_def svc_allows_def rt_demo_service_def)

text \<open>
  The runtime keeps the stores sound. Whatever its service does, and whatever sequence of its public methods is called (starting,
  advancing, resuming, ending interactions, canceling, recovering) with other callers in between: the invariants of the plan and
  operation stores hold, a plan keeps what was compiled of it and of its steps, and a plan that had ended keeps its state and
  all its steps.
\<close>

lemma runtime_keeps_the_stores:
  assumes steps: "(plan_runtime_step env sv)\<^sup>*\<^sup>* db db'" and inv: "tp_inv (rt_plans db)" "op_inv (rt_operations db)"
    and plan: "tbl_get tp_id p (tp_plans (rt_plans db)) = Some r"
  shows "tp_inv (rt_plans db') \<and> op_inv (rt_operations db') \<and>
    (\<exists>r'. tbl_get tp_id p (tp_plans (rt_plans db')) = Some r' \<and> tp_contract r' = tp_contract r \<and>
       map ts_contract (own_steps (rt_plans db') r') = map ts_contract (own_steps (rt_plans db) r) \<and>
       (tp_state r \<notin> active_plan_states \<longrightarrow> tp_state r' = tp_state r \<and> own_steps (rt_plans db') r' = own_steps (rt_plans db) r))"
proof -
  have "reaches (\<lambda>_. True) env db db'"
    using steps by induction (auto intro: reaches_trans plan_runtime_step_reaches)
  then obtain ops :: "unit tp_op list" and ops' where
    ops: "rt_plans db' = run tp_exec ops (rt_plans db)" "rt_operations db' = run (op_exec (re_py env)) ops' (rt_operations db)"
    unfolding reaches_def by blast
  obtain r' where r': "tbl_get tp_id p (tp_plans (rt_plans db')) = Some r'"
    "tp_edge\<^sup>*\<^sup>* (tp_view_of r (own_steps (rt_plans db) r)) (tp_view_of r' (own_steps (rt_plans db') r'))"
    using tp_view_stands[OF inv(1) plan, of ops] unfolding ops by blast
  have "tp_view_of r' (own_steps (rt_plans db') r') = tp_view_of r (own_steps (rt_plans db) r)" if "tp_state r \<notin> active_plan_states"
    using tp_ledger.final_stuck[OF r'(2)] that by (simp add: tp_edge_def tp_view_of_def)
  then show ?thesis
    using r'(1) tp_edge_contract[OF r'(2)] tp_ledger.inv_run[OF inv(1)] op_ledger.inv_run[OF inv(2)] unfolding ops
    by (auto simp: tp_view_of_def)
qed

text \<open>
  C26: The loop of \<open>advance\<close> ends. As long as nobody puts the plan's steps back into the queue meanwhile (the runtime does so itself,
  under the lock of the plan), advancing a plan of a sound store returns, whatever the service answers: each round that goes on has
  either completed one more step or found the plan ended.
\<close>

theorem advancing_a_plan_ends:
  assumes inv: "tp_inv (rt_plans db)" and sv: "service_allows (\<lambda>op. \<not> resets p op) sv"
  shows "\<exists>out db'. advance env sv p user db = Some (out, db')"
  using advance_returns[OF inv sv] .

theorem advancing_a_plan_ends_witness:
  "\<exists>out db'. advance rt_demo_env rt_demo_service ''p1'' ''ann'' rt_demo_db = Some (out, db')"
  by (rule advancing_a_plan_ends[OF rt_demo_sound(1) rt_demo_quiet])

text \<open>
  C27: The answers of the runtime are true. When \<open>advance\<close> or a cancellation answers that the plan has succeeded, failed, was canceled
  or has an unknown outcome, the stored plan is in that state when the call returns; and if it has succeeded, none of its steps is
  still to be done.
\<close>

theorem final_answers_are_true:
  assumes inv: "tp_inv (rt_plans db)"
    and run: "advance env sv p user db = Some (Inr r, db') \<or> cancel_plan env sv p user reason db = (Inr r, db')"
    and final: "rr_status r \<in> {''succeeded'', ''failed'', ''outcome_unknown'', ''canceled''}"
  shows "\<exists>row. tbl_get tp_id p (tp_plans (rt_plans db')) = Some row \<and> plan_status (tp_state row) = rr_status r \<and>
    (tp_state row = PlSucceeded \<longrightarrow> (\<forall>s \<in> set (own_steps (rt_plans db') row). ts_state s \<notin> active_step_states))"
proof -
  have a: "agrees p r db'"
    using run agrees_advance[OF service_any inv] agrees_cancel[OF inv] by blast
  then obtain row where row: "tbl_get tp_id p (tp_plans (rt_plans db')) = Some row" "plan_status (tp_state row) = rr_status r"
    using final unfolding agrees_def final_statuses_def by blast
  have "plan_ok row (own_steps (rt_plans db') row)" using a row(1) tp_inv_plan_ok unfolding agrees_def by blast
  then show ?thesis using row unfolding plan_ok_def by blast
qed

theorem final_answers_are_true_witness:
  "\<exists>r db' row. cancel_plan rt_demo_env rt_demo_service ''p1'' ''ann'' ''stop'' rt_demo_db = (Inr r, db') \<and> rr_status r = ''canceled'' \<and>
     tbl_get tp_id ''p1'' (tp_plans (rt_plans db')) = Some row \<and> plan_status (tp_state row) = ''canceled''"
proof -
  let ?out = "cancel_plan rt_demo_env rt_demo_service ''p1'' ''ann'' ''stop'' rt_demo_db"
  have 1: "isl (fst ?out) = False" by code_simp
  have 2: "rr_status (projr (fst ?out)) = ''canceled''" by code_simp
  obtain r db' where out: "?out = (Inr r, db')" using 1 by (cases ?out; cases "fst ?out") auto
  then have st: "rr_status r = ''canceled''" using 2 by simp
  from final_answers_are_true[OF rt_demo_sound(1) disjI2[OF out]] st out show ?thesis by auto
qed

text \<open>
  C28: Nothing is written from an incomplete source. A transform that halts on incomplete results has succeeded with one, and
  the plan has a step that writes. If the plan is still active when its operation has been linked and its result kept (\<open>db2\<close>), then
  consuming the response fails it with \<open>PLAN_SOURCE_INCOMPLETE\<close>: the step of the transform has failed with this code, no step of the plan is left
  to be run, and the answer says so. If the plan has ended by then, nothing more is written and the answer shows the plan as it ended.
\<close>

theorem incomplete_source_ends_the_plan:
  assumes inv: "tp_inv (rt_plans db)" and run: "consume_step_response env sv plan s resp db = (Inr out, db')"
    and resp: "rs_status resp = OpSucceeded" "py_strip (rs_operation resp) = oid" "oid \<noteq> []"
    and read: "op_get oid (rt_operations db) = Inr v" "op_result (ov_row v) = Some (JDict result)"
    and transform: "ts_kind s = ''transform''" "tx_get (or_text (ts_transform s) []) (sv_transforms sv) = Inr spec"
    and incomplete: "tf_halts_on_incomplete spec" "result_incomplete result = Inr True" and writes: "has_write_sink sv plan"
    and linked: "rt_tasks env sv (TkLinkOperation (sn_plan plan) (ov_row v) (ts_key s)) db = (Inr (), db1)"
    and kept: "store_result_projection env sv plan s oid result db1 = (Inr (), db2)"
  shows "\<exists>r q row. out = Some r \<and> tbl_get tp_id (tp_id (sn_plan plan)) (tp_plans (rt_plans db2)) = Some q \<and>
    tbl_get tp_id (tp_id (sn_plan plan)) (tp_plans (rt_plans db')) = Some row \<and>
    (if tp_state q \<in> active_plan_states
     then tp_state row = PlFailed \<and> tp_terminal_reason row = Some ''PLAN_SOURCE_INCOMPLETE'' \<and>
       (\<exists>t \<in> set (own_steps (rt_plans db') row). ts_key t = ts_key s) \<and>
       (\<forall>t \<in> set (own_steps (rt_plans db') row). ts_state t \<noteq> StQueued \<and>
          (ts_key t = ts_key s \<longrightarrow> ts_state t = StFailed \<and> ts_error_code t = Some ''PLAN_SOURCE_INCOMPLETE'')) \<and>
       rr_status r = ''failed'' \<and> rr_error r = Some (''PLAN_SOURCE_INCOMPLETE'', take 500 (re_message env ''PLAN_SOURCE_INCOMPLETE''))
     else db' = db2 \<and> r = plan_result_response (tp_snapshot_of (rt_plans db2) q))"
proof -
  let ?fail = "fail_plan env sv (sn_plan plan) s (Some oid) False ''PLAN_SOURCE_INCOMPLETE'' (re_message env ''PLAN_SOURCE_INCOMPLETE'')"
  from run have "rt_bind ?fail (\<lambda>r. rt_return (Some r)) db2 = (Inr out, db')"
    using resp read transform incomplete writes linked kept
    by (auto simp: consume_step_response_def rt_bind_Inr read_operation_def dict_of_def rt_lift_Inr Let_def)
  then obtain r where fail: "?fail db2 = (Inr r, db')" and out: "out = Some r" by (auto simp: rt_bind_Inr rt_return_def)
  note sv = service_any[of sv]
  have "sound_store db2"
    using sound_stays[OF sound_stays[OF inv staysD[OF any_op.stays_service(4)[OF sv] linked]] staysD[OF any_op.stays_outcomes(1)[OF sv] kept]] .
  from fail_plan_outcome[OF this fail] obtain q where q: "tbl_get tp_id (tp_id (sn_plan plan)) (tp_plans (rt_plans db2)) = Some q"
    "if tp_state q \<in> active_plan_states
     then failed_with (tp_id (sn_plan plan)) (ts_key s) False ''PLAN_SOURCE_INCOMPLETE'' (re_message env ''PLAN_SOURCE_INCOMPLETE'') r db'
     else r = plan_result_response (tp_snapshot_of (rt_plans db2) q) \<and> db' = db2" by blast
  show ?thesis
  proof (cases "tp_state q \<in> active_plan_states")
    case True
    then show ?thesis using q out by (auto simp: failed_with_def steps_over_def)
  next
    case False
    then show ?thesis using q out by auto
  qed
qed

theorem incomplete_source_ends_the_plan_witness:
  "\<exists>plan s r db' row. consume_step_response rt_demo_env rt_demo_service plan s
       \<lparr>rs_request = [], rs_operation = ''o1'', rs_status = OpSucceeded, rs_result = None, rs_error = None, rs_next_action = None,
         rs_interaction = None, rs_reused = False\<rparr> rt_demo_db = (Inr (Some r), db') \<and> rr_status r = ''failed'' \<and>
     tbl_get tp_id ''p1'' (tp_plans (rt_plans db')) = Some row \<and> tp_state row = PlFailed \<and>
     (\<forall>t \<in> set (own_steps (rt_plans db') row). ts_key t = ts_key s \<longrightarrow> ts_state t = StFailed)"
proof -
  define plan where "plan = projr (tp_get ''p1'' ''ann'' (rt_plans rt_demo_db) :: unit tp_error + tp_snapshot)"
  define s where "s = hd (sn_steps plan)"
  define resp where "resp = \<lparr>rs_request = [], rs_operation = ''o1'', rs_status = OpSucceeded, rs_result = None, rs_error = None :: (string \<times> string) option,
         rs_next_action = None, rs_interaction = None, rs_reused = False\<rparr>"
  let ?out = "consume_step_response rt_demo_env rt_demo_service plan s resp rt_demo_db"
  let ?v = "projr (op_get ''o1'' (rt_operations rt_demo_db))"
  define linked where "linked = rt_tasks rt_demo_env rt_demo_service (TkLinkOperation (sn_plan plan) (ov_row ?v) (ts_key s)) rt_demo_db"
  define kept where "kept = store_result_projection rt_demo_env rt_demo_service plan s ''o1'' [(''source_incomplete'', JBool True)] (snd linked)"
  have 1: "isl (fst ?out) = False" unfolding plan_def s_def resp_def by code_simp
  have 2: "op_get ''o1'' (rt_operations rt_demo_db) = Inr ?v" "op_result (ov_row ?v) = Some (JDict [(''source_incomplete'', JBool True)])" by code_simp+
  have 3: "ts_kind s = ''transform''" "or_text (ts_transform s) [] = ''merge.v1''" "tp_id (sn_plan plan) = ''p1''"
    "has_write_sink rt_demo_service plan" unfolding plan_def s_def by code_simp+
  have 4: "tx_get (or_text (ts_transform s) []) (sv_transforms rt_demo_service) = Inr rt_demo_transform"
    unfolding 3 by (simp add: tx_get_def rt_demo_service_def)
  have 5: "tf_halts_on_incomplete rt_demo_transform" "result_incomplete [(''source_incomplete'', JBool True)] = Inr True" by code_simp+
  have 6: "rs_status resp = OpSucceeded" "py_strip (rs_operation resp) = ''o1''" unfolding resp_def by code_simp+
  have 7: "isl (fst linked) = False" unfolding linked_def plan_def s_def by code_simp
  have 8: "isl (fst kept) = False" "map_option tp_state (tbl_get tp_id ''p1'' (tp_plans (rt_plans (snd kept)))) = Some PlRunning"
    unfolding kept_def linked_def plan_def s_def by code_simp+
  obtain x db' where out: "?out = (Inr x, db')" using 1 by (cases ?out; cases "fst ?out") auto
  have l: "linked = (Inr (), snd linked)" using 7 by (cases linked; cases "fst linked") auto
  have k: "kept = (Inr (), snd kept)" using 8(1) by (cases kept; cases "fst kept") auto
  from incomplete_source_ends_the_plan[OF rt_demo_sound(1) out 6 _ 2 3(1) 4 5 3(4) l[unfolded linked_def] k[unfolded kept_def linked_def]]
  obtain r q row where r: "x = Some r" "tbl_get tp_id ''p1'' (tp_plans (rt_plans (snd kept))) = Some q"
    "tbl_get tp_id ''p1'' (tp_plans (rt_plans db')) = Some row" and
    "if tp_state q \<in> active_plan_states then tp_state row = PlFailed \<and> rr_status r = ''failed'' \<and>
       (\<forall>t \<in> set (own_steps (rt_plans db') row). ts_key t = ts_key s \<longrightarrow> ts_state t = StFailed) else db' = snd kept"
    unfolding 3(3) kept_def linked_def by (auto split: if_splits)
  moreover have "tp_state q \<in> active_plan_states" using 8(2) r(2) by (simp add: active_plan_states_def)
  ultimately have "tp_state row = PlFailed" "rr_status r = ''failed''" "\<forall>t \<in> set (own_steps (rt_plans db') row). ts_key t = ts_key s \<longrightarrow> ts_state t = StFailed"
    by simp_all
  then show ?thesis using out r unfolding resp_def by blast
qed

text \<open>
  C29: A step whose execution raises fails its plan. When the runtime has begun a step and anything in its \<open>try\<close> block raises, the
  round does not go on: the plan has ended when it answers; and if the plan was still active it has failed with the code of the
  exception, or with \<open>PLAN_STEP_EXECUTION_FAILED\<close>, as its reason and in the answer.
\<close>

theorem raising_step_fails_the_plan:
  assumes inv: "tp_inv (rt_plans db)"
    and begun: "on_plans env (\<lambda>now. tp_begin_next_step now p user) db = (Inr (Some (s, started)), db1)" "ts_state s \<noteq> StWaitingUser"
    and event: "rt_when started (rt_event env sv (sn_plan plan) ''plan.step.started'' (step_event_payload (sn_plan plan) s) None) db1 = (Inr (), db2)"
    and raised: "run_step env sv plan s db2 = (Inl e, db3)" "coded env ''PLAN_STEP_EXECUTION_FAILED'' e = (code, msg)"
    and run: "round_step env sv p user plan db = (Inr out, db')"
  shows "\<exists>r row. out = Some r \<and> tbl_get tp_id (tp_id (sn_plan plan)) (tp_plans (rt_plans db')) = Some row \<and>
    tp_state row \<notin> active_plan_states \<and> plan_status (tp_state row) = rr_status r \<and>
    (case tbl_get tp_id (tp_id (sn_plan plan)) (tp_plans (rt_plans db3)) of None \<Rightarrow> False | Some q \<Rightarrow>
       tp_state q \<in> active_plan_states \<longrightarrow>
         rr_error r = Some (code, take 500 msg) \<and> tp_state row = PlFailed \<and> tp_terminal_reason row = Some (take 120 code))"
proof -
  let ?fail = "fail_plan env sv (sn_plan plan) s None False code msg"
  note sv = service_any[of sv]
  from run begun event raised obtain r where fail: "?fail db3 = (Inr r, db')" and out: "out = Some r"
    by (auto simp: round_step_def Let_def rt_bind_Inr rt_catch_Inr rt_return_def)
  have s1: "sound_store db1" using sound_stays[OF inv staysD[OF any_op.stays_steps(1) begun(1)]] .
  have s2: "sound_store db2" using sound_stays[OF s1 staysD[OF stays_when[OF any_op.stays_service(6)[OF sv]] event]] .
  have s3: "sound_store db3" using sound_stays[OF s2 staysD[OF any_op.stays_step[OF sv] raised(1)]] .
  from fail_plan_ended[OF s3 fail] fail_plan_outcome[OF s3 fail] out show ?thesis
    by (auto simp: ended_now_def failed_with_def)
qed

theorem raising_step_fails_the_plan_witness:
  "\<exists>r db' row. round_step rt_demo_env rt_demo_service ''p1'' ''ann'' (projr (tp_get ''p1'' ''ann'' tp_demo_db :: unit tp_error + tp_snapshot))
       (rt_demo_db\<lparr>rt_plans := tp_demo_db\<rparr>) = (Inr (Some r), db') \<and>
     tbl_get tp_id ''p1'' (tp_plans (rt_plans db')) = Some row \<and> tp_state row \<notin> active_plan_states"
proof -
  define db where "db = rt_demo_db\<lparr>rt_plans := tp_demo_db\<rparr>"
  define plan where "plan = projr (tp_get ''p1'' ''ann'' tp_demo_db :: unit tp_error + tp_snapshot)"
  define begun where "begun = on_plans rt_demo_env (\<lambda>now. tp_begin_next_step now ''p1'' ''ann'') db"
  define s where "s = fst (the (projr (fst begun)))"
  define told where "told = rt_when True (rt_event rt_demo_env rt_demo_service (sn_plan plan) ''plan.step.started''
      (step_event_payload (sn_plan plan) s) None) (snd begun)"
  define raised where "raised = run_step rt_demo_env rt_demo_service plan s (snd told)"
  let ?out = "round_step rt_demo_env rt_demo_service ''p1'' ''ann'' plan db"
  note defs = db_def plan_def begun_def s_def told_def raised_def
  have 1: "isl (fst begun) = False" "projr (fst begun) = Some (s, True)" "ts_state s \<noteq> StWaitingUser" unfolding defs by code_simp+
  have 2: "isl (fst told) = False" unfolding defs by code_simp
  have 3: "isl (fst raised) = True" unfolding defs by code_simp
  have 4: "isl (fst ?out) = False" unfolding defs by code_simp
  have 5: "tp_id (sn_plan plan) = ''p1''" unfolding defs by code_simp
  have inv: "tp_inv (rt_plans db)" using tp_demo_inv by (simp add: db_def)
  have b: "begun = (Inr (Some (s, True)), snd begun)" using 1 by (cases begun; cases "fst begun") auto
  have t: "told = (Inr (), snd told)" using 2 by (cases told; cases "fst told") auto
  obtain e where r: "raised = (Inl e, snd raised)" using 3 by (cases raised; cases "fst raised") auto
  obtain x db' where out: "?out = (Inr x, db')" using 4 by (cases ?out; cases "fst ?out") auto
  obtain code msg where c: "coded rt_demo_env ''PLAN_STEP_EXECUTION_FAILED'' e = (code, msg)" by (cases "coded rt_demo_env ''PLAN_STEP_EXECUTION_FAILED'' e")
  from raising_step_fails_the_plan[OF inv b[unfolded begun_def] 1(3) t[unfolded told_def begun_def] r[unfolded raised_def told_def begun_def] c out]
  show ?thesis unfolding 5 using out unfolding db_def plan_def by blast
qed

text \<open>
  C30: A step is given only what earlier steps have delivered. Resolving the bindings of a step changes nothing in the stores; arguments without a
  binding stay as the plan has them; and every bound argument holds the values its references point to, each of them in the result of an operation of the
  same user that a succeeded step of the same plan left, one value, or the list of all of them for a binding of mode \<open>many\<close>.
\<close>

theorem arguments_come_from_succeeded_steps:
  assumes run: "bind_arguments p bindings arguments db = (Inr args, db')" and keys: "distinct (map fst bindings)"
  shows "db' = db \<and> (\<forall>t. t \<notin> set (map fst bindings) \<longrightarrow> map_of args t = map_of arguments t) \<and>
    (\<forall>(t, b) \<in> set bindings. \<exists>refs vs. reference_list b = Inr refs \<and> list_all2 (delivered p db) refs vs \<and>
       map_of args t = Some (if is_many b then JList vs else hd vs))"
  using run keys
proof (induction p bindings arguments arbitrary: db rule: bind_arguments.induct)
  case (1 p arguments)
  then show ?case by (simp add: rt_return_def)
next
  case (2 p target binding rest arguments)
  from 2(2) obtain refs vs db1 where refs: "reference_list binding = Inr refs" and vs: "rt_map (bound_value p) refs db = (Inr vs, db1)"
    and rest: "bind_arguments p rest (AList.update target (if is_many binding then JList vs else hd vs) arguments) db1 = (Inr args, db')"
    by (auto simp: rt_bind_Inr rt_lift_Inr)
  from bound_values_Inr[OF vs] have db1: "db1 = db" and got: "list_all2 (delivered p db) refs vs" by blast+
  have d: "distinct (map fst rest)" "target \<notin> set (map fst rest)" using 2(3) by simp_all
  from 2(1)[OF rest[unfolded db1] d(1)] have ih: "db' = db"
    "\<And>t. t \<notin> set (map fst rest) \<Longrightarrow> map_of args t = map_of (AList.update target (if is_many binding then JList vs else hd vs) arguments) t"
    "\<And>t b. (t, b) \<in> set rest \<Longrightarrow> \<exists>refs vs. reference_list b = Inr refs \<and> list_all2 (delivered p db) refs vs \<and>
       map_of args t = Some (if is_many b then JList vs else hd vs)"
    by blast+
  let ?good = "\<lambda>t b. \<exists>refs vs. reference_list b = Inr refs \<and> list_all2 (delivered p db) refs vs \<and>
       map_of args t = Some (if is_many b then JList vs else hd vs)"
  have here: "?good target binding"
    using refs got ih(2)[OF d(2)] by (auto simp: update_conv')
  have "?good t b" if "(t, b) \<in> set ((target, binding) # rest)" for t b
    using that here ih(3) by (metis prod.inject set_ConsD)
  moreover have "map_of args t = map_of arguments t" if "t \<notin> set (map fst ((target, binding) # rest))" for t
    using that ih(2)[of t] by (simp add: update_conv')
  ultimately show ?case using ih(1) by blast
qed

text \<open>The second step of the demonstration plan, bound to the result of the first.\<close>

definition rt_demo_bindings :: items where
  "rt_demo_bindings = [(''reason'', JDict [(''step'', JStr ''a''), (''pointer'', JStr ''/source_incomplete'')])]"

theorem arguments_come_from_succeeded_steps_witness:
  "\<exists>p (db :: unit rt_db) args refs vs. bind_arguments p rt_demo_bindings [] db = (Inr args, db) \<and> list_all2 (delivered p db) refs vs \<and>
     map_of args ''reason'' = Some (hd vs) \<and> hd vs = JBool True"
proof -
  define db where "db = rt_demo_db\<lparr>rt_plans := run (tp_exec :: unit tp_op \<Rightarrow> _) [TpSucceeded 5 ''p1'' ''ann'' ''a'' ''o1'' None None] rt_demo_plans\<rparr>"
  define p where "p = sn_plan (projr (tp_get ''p1'' ''ann'' (rt_plans db) :: unit tp_error + tp_snapshot))"
  let ?out = "bind_arguments p rt_demo_bindings [] db"
  have 1: "isl (fst ?out) = False" "projr (fst ?out) = [(''reason'', JBool True)]" unfolding db_def p_def by code_simp+
  obtain db' where out: "?out = (Inr [(''reason'', JBool True)], db')" using 1 by (cases ?out; cases "fst ?out") auto
  have "distinct (map fst rt_demo_bindings)" by (simp add: rt_demo_bindings_def)
  from arguments_come_from_succeeded_steps[OF out this] have same: "db' = db"
    and "\<exists>refs vs. list_all2 (delivered p db) refs vs \<and> map_of [(''reason'', JBool True)] ''reason'' = Some (hd vs)"
    unfolding rt_demo_bindings_def by (auto simp: is_many_def dget_def)
  then obtain refs vs where vs: "list_all2 (delivered p db) refs vs" "map_of [(''reason'', JBool True)] ''reason'' = Some (hd vs)" by blast
  then have "hd vs = JBool True" by simp
  then show ?thesis using out vs unfolding same by blast
qed

end
