(* ===== verification/TaskLedger.thy ===== *)
theory TaskLedger
  imports TaskStateRules Urls "HOL-Library.AList"
begin

text \<open>
  The ledger of tasks, \<open>TaskHubStore\<close> in \<open>agentbridge/core/tasks.py\<close>: the endpoints of a user, the tasks with their
  operations and interactions, and the events that become notifications. A row is returned as it is stored, because a column of
  JSON text holds the value that the projections of \<open>task_projections.py\<close> read from it. The values of
  \<open>uuid4\<close> are an arbitrary sequence; \<open>hub_draws\<close> counts how many were drawn. Rows selected without an \<open>ORDER BY\<close> come in
  insertion order.
\<close>

section \<open>Tables\<close>

record endpoint_row =
  ep_id :: string
  ep_user :: string
  ep_token :: string
  ep_host :: string
  ep_key :: string
  ep_client_type :: string
  ep_external :: string
  ep_account :: "string option"
  ep_conversation :: string
  ep_label :: "string option"
  ep_capabilities :: "string list"
  ep_route :: json
  ep_state :: string
  ep_created_at :: time
  ep_updated_at :: time
  ep_last_seen :: time

record task_row =
  tk_id :: string
  tk_user :: string
  tk_host :: string
  tk_key :: string
  tk_origin :: string
  tk_title :: string
  tk_status :: string
  tk_summary :: json
  tk_operation :: "string option"
  tk_interaction :: "string option"
  tk_conversation :: string
  tk_version :: int
  tk_created_at :: time
  tk_updated_at :: time
  tk_finished_at :: "time option"

record event_row =
  ev_id :: string
  ev_task :: string
  ev_user :: string
  ev_type :: string
  ev_payload :: json
  ev_cause :: "string option"
  ev_created_at :: time

record operation_link =
  ol_task :: string
  ol_operation :: string
  ol_user :: string
  ol_linked_at :: time

record interaction_link =
  il_task :: string
  il_interaction :: string
  il_user :: string
  il_linked_at :: time
  il_state :: "string option"
  il_observed_at :: "time option"

record subscription_row =
  su_id :: string
  su_task :: string
  su_endpoint :: string
  su_user :: string
  su_filters :: "string list"
  su_state :: string
  su_created_at :: time
  su_updated_at :: time

text \<open>The states of a delivery; \<open>Undelivered\<close> is the state \<open>failed\<close>.\<close>

datatype delivery_state = Pending | Delivering | Acknowledged | Deferred | Undelivered | Archived

record delivery_row =
  dl_id :: string
  dl_event :: string
  dl_task :: string
  dl_endpoint :: string
  dl_user :: string
  dl_type :: string
  dl_payload :: json
  dl_state :: delivery_state
  dl_attempts :: int
  dl_next_at :: time
  dl_created_at :: time
  dl_updated_at :: time
  dl_acknowledged_at :: "time option"

record timeline_row =
  tl_sequence :: nat
  tl_id :: string
  tl_user :: string
  tl_type :: string
  tl_dedupe :: string
  tl_source :: "string option"
  tl_task :: "string option"
  tl_role :: "string option"
  tl_text :: "string option"
  tl_payload :: json
  tl_created_at :: time

record batch_row =
  ba_id :: string
  ba_task :: string
  ba_user :: string
  ba_system :: string
  ba_capability :: string
  ba_selection :: json
  ba_snapshot_hash :: string
  ba_failure_policy :: string
  ba_state :: string
  ba_current :: int
  ba_total :: int
  ba_succeeded :: int
  ba_failed :: int
  ba_skipped :: int
  ba_version :: int
  ba_created_at :: time
  ba_updated_at :: time
  ba_finished_at :: "time option"

record item_row =
  bi_id :: string
  bi_batch :: string
  bi_ordinal :: int
  bi_ref :: string
  bi_ref_hash :: string
  bi_display :: json
  bi_fingerprint :: string
  bi_state :: string
  bi_operation :: "string option"
  bi_interaction :: "string option"
  bi_result :: json
  bi_error :: "string option"
  bi_created_at :: time
  bi_updated_at :: time
  bi_finished_at :: "time option"

record hub =
  hub_endpoints :: "endpoint_row list"
  hub_tasks :: "task_row list"
  hub_events :: "event_row list"
  hub_operations :: "operation_link list"
  hub_interactions :: "interaction_link list"
  hub_subscriptions :: "subscription_row list"
  hub_outbox :: "delivery_row list"
  hub_timeline :: "timeline_row list"
  hub_batches :: "batch_row list"
  hub_items :: "item_row list"
  hub_draws :: nat

definition hub_empty :: hub where
  "hub_empty = \<lparr>hub_endpoints = [], hub_tasks = [], hub_events = [], hub_operations = [], hub_interactions = [],
     hub_subscriptions = [], hub_outbox = [], hub_timeline = [], hub_batches = [], hub_items = [], hub_draws = 0\<rparr>"

text \<open>The standard library: digests, the values of \<open>uuid4\<close>, the ISO text of an instant.\<close>

record hub_env = py_env +
  uuid :: "nat \<Rightarrow> string"
  iso :: "time \<Rightarrow> string"

datatype hub_error = HubNotFound | HubIntegrity | HubValueError | HubTypeError | HubSqlIntegrity

type_synonym 'a hub_result = "hub_error + ('a \<times> hub)"

section \<open>Texts\<close>

definition hub_required_text :: "nat \<Rightarrow> string option \<Rightarrow> hub_error + string" where
  "hub_required_text maximum v =
     (let t = py_strip (or_text v []) in
      if t = [] \<or> length t > maximum \<or> list_ex (\<lambda>c. (of_char c :: nat) < 32) t then Inl HubValueError else Inr t)"

definition optional_text :: "nat \<Rightarrow> string option \<Rightarrow> hub_error + string option" where
  "optional_text maximum v =
     (case v of None \<Rightarrow> Inr None
      | Some s \<Rightarrow> if py_strip s = [] then Inr None
          else ebind (hub_required_text maximum (Some (py_strip s))) (\<lambda>t. Inr (Some t)))"

definition timeline_text :: "string \<Rightarrow> hub_error + string" where
  "timeline_text v =
     (let t = py_strip (filter (\<lambda>c. c \<noteq> char_of (0::nat)) v) in
      if t = [] \<or> length t > 50000 then Inl HubValueError else Inr t)"

definition json_column :: "(string \<times> json) list option \<Rightarrow> json" where
  "json_column v = canon (JDict (case v of None \<Rightarrow> [] | Some d \<Rightarrow> d))"

definition hub_text_or_null :: "string option \<Rightarrow> json" where
  "hub_text_or_null v = (case v of None \<Rightarrow> JNull | Some s \<Rightarrow> JStr s)"

definition dict_items :: "json \<Rightarrow> (string \<times> json) list" where
  "dict_items v = (case v of JDict d \<Rightarrow> d | _ \<Rightarrow> [])"

section \<open>Selecting rows\<close>

definition select_endpoint :: "string \<Rightarrow> hub \<Rightarrow> hub_error + endpoint_row" where
  "select_endpoint i db = (case tbl_get ep_id i (hub_endpoints db) of None \<Rightarrow> Inl HubNotFound | Some r \<Rightarrow> Inr r)"

definition select_active_endpoint :: "string \<Rightarrow> string \<Rightarrow> hub \<Rightarrow> hub_error + endpoint_row" where
  "select_active_endpoint i user db =
     ebind (select_endpoint i db) (\<lambda>r.
       if ep_user r \<noteq> user \<or> ep_state r \<noteq> ''active'' then Inl HubNotFound else Inr r)"

definition select_task :: "string \<Rightarrow> hub \<Rightarrow> hub_error + task_row" where
  "select_task i db = (case tbl_get tk_id i (hub_tasks db) of None \<Rightarrow> Inl HubNotFound | Some r \<Rightarrow> Inr r)"

definition select_owned_task :: "string \<Rightarrow> string \<Rightarrow> hub \<Rightarrow> hub_error + task_row" where
  "select_owned_task i user db =
     ebind (select_task i db) (\<lambda>r. if tk_user r \<noteq> user then Inl HubNotFound else Inr r)"

definition batch_of_task :: "string \<Rightarrow> hub \<Rightarrow> batch_row option" where
  "batch_of_task t db = tbl_get ba_task t (hub_batches db)"

definition is_pull_based :: "endpoint_row \<Rightarrow> bool" where
  "is_pull_based r \<longleftrightarrow> py_lower (ep_client_type r) \<in> {''web'', ''webchat''}"

section \<open>Notifications\<close>

text \<open>\<open>INSERT OR IGNORE\<close>: a row that violates a unique key is dropped.\<close>

definition insert_delivery :: "delivery_row \<Rightarrow> hub \<Rightarrow> hub" where
  "insert_delivery r db =
     (if list_ex (\<lambda>x. dl_id x = dl_id r \<or> (dl_event x, dl_endpoint x, dl_type x) = (dl_event r, dl_endpoint r, dl_type r)) (hub_outbox db)
      then db else db\<lparr>hub_outbox := hub_outbox db @ [r]\<rparr>)"

definition insert_timeline :: "timeline_row \<Rightarrow> hub \<Rightarrow> hub option" where
  "insert_timeline r db =
     (if list_ex (\<lambda>x. tl_id x = tl_id r \<or> (tl_user x, tl_dedupe x) = (tl_user r, tl_dedupe r)) (hub_timeline db)
      then None
      else Some (db\<lparr>hub_timeline := hub_timeline db @ [r\<lparr>tl_sequence := Suc (fold max (map tl_sequence (hub_timeline db)) 0)\<rparr>]\<rparr>))"

definition new_delivery :: "string \<Rightarrow> string \<Rightarrow> string \<Rightarrow> string \<Rightarrow> string \<Rightarrow> string \<Rightarrow> json \<Rightarrow> time \<Rightarrow> delivery_row" where
  "new_delivery i event task endpoint user ty payload now =
     \<lparr>dl_id = i, dl_event = event, dl_task = task, dl_endpoint = endpoint, dl_user = user, dl_type = ty, dl_payload = payload,
      dl_state = Pending, dl_attempts = 0, dl_next_at = now, dl_created_at = now, dl_updated_at = now, dl_acknowledged_at = None\<rparr>"

definition notify :: "hub_env \<Rightarrow> string \<Rightarrow> string \<Rightarrow> string \<Rightarrow> string \<Rightarrow> json \<Rightarrow> time \<Rightarrow> string \<Rightarrow> hub \<Rightarrow> hub" where
  "notify env ty event task user payload now endpoint db =
     insert_delivery (new_delivery (uuid env (hub_draws db)) event task endpoint user ty payload now)
       (db\<lparr>hub_draws := Suc (hub_draws db)\<rparr>)"

definition wants :: "string \<Rightarrow> subscription_row \<Rightarrow> bool" where
  "wants event_type s \<longleftrightarrow> ''*'' \<in> set (su_filters s) \<or> event_type \<in> set (su_filters s)"

definition subscribers :: "string \<Rightarrow> string \<Rightarrow> string \<Rightarrow> hub \<Rightarrow> string list" where
  "subscribers task user event_type db =
     map su_endpoint (filter (\<lambda>s. su_task s = task \<and> su_user s = user \<and> su_state s = ''active'' \<and> wants event_type s)
       (hub_subscriptions db))"

definition event_entry :: "string \<Rightarrow> string \<Rightarrow> string \<Rightarrow> string \<Rightarrow> (string \<times> json) list \<Rightarrow> time \<Rightarrow> timeline_row" where
  "event_entry event task user event_type payload now =
     \<lparr>tl_sequence = 0, tl_id = event, tl_user = user, tl_type = ''task_event'', tl_dedupe = ''task-event:'' @ event,
      tl_source = None, tl_task = Some task, tl_role = None, tl_text = None,
      tl_payload = canon (JDict [(''eventId'', JStr event), (''eventType'', JStr event_type), (''payload'', JDict payload)]),
      tl_created_at = now\<rparr>"

definition event_notice :: "string \<Rightarrow> string \<Rightarrow> string \<Rightarrow> (string \<times> json) list \<Rightarrow> json" where
  "event_notice event task event_type payload =
     canon (JDict [(''eventId'', JStr event), (''taskId'', JStr task), (''eventType'', JStr event_type), (''payload'', JDict payload)])"

definition append_event ::
  "hub_env \<Rightarrow> string \<Rightarrow> string \<Rightarrow> string \<Rightarrow> (string \<times> json) list \<Rightarrow> string option \<Rightarrow> time \<Rightarrow> hub \<Rightarrow> string hub_result" where
  "append_event env task user event_type payload cause now db =
     (let event = uuid env (hub_draws db) in
      case tbl_insert ev_id
          \<lparr>ev_id = event, ev_task = task, ev_user = user, ev_type = event_type, ev_payload = canon (JDict payload),
           ev_cause = cause, ev_created_at = now\<rparr> (hub_events db) of
        None \<Rightarrow> Inl HubSqlIntegrity
      | Some events \<Rightarrow>
          (let db1 = db\<lparr>hub_events := events, hub_draws := Suc (hub_draws db)\<rparr>;
               db2 = (case insert_timeline (event_entry event task user event_type payload now) db1 of None \<Rightarrow> db1 | Some db' \<Rightarrow> db')
           in Inr (event,
                fold (notify env ''task_event'' event task user (event_notice event task event_type payload) now)
                  (subscribers task user event_type db2) db2)))"

definition companion_filters :: "string list" where
  "companion_filters =
     [''task.created'', ''task.operation.linked'', ''task.operation.running'', ''task.interaction.waiting'',
      ''task.interaction.completed'', ''task.interaction.expired'', ''task.interaction.failed'', ''task.interaction.superseded'',
      ''task.canceled'', ''task.artifact.ready'', ''task.completed'', ''task.operation.succeeded'', ''task.operation.failed'',
      ''task.failed'', ''task.operation.outcome_unknown'', ''plan.result.ready'', ''plan.step.waiting'',
      ''plan.authorization.waiting'', ''plan.completed'', ''plan.canceled'', ''plan.step.failed'', ''plan.outcome_unknown'']"

definition insert_subscription :: "subscription_row \<Rightarrow> hub \<Rightarrow> hub_error + hub" where
  "insert_subscription r db =
     (if su_id r \<in> set (map su_id (hub_subscriptions db)) then Inl HubSqlIntegrity
      else if list_ex (\<lambda>x. (su_task x, su_endpoint x) = (su_task r, su_endpoint r)) (hub_subscriptions db) then Inl HubSqlIntegrity
      else Inr (db\<lparr>hub_subscriptions := hub_subscriptions db @ [r]\<rparr>))"

definition upsert_subscription :: "subscription_row \<Rightarrow> hub \<Rightarrow> hub_error + hub" where
  "upsert_subscription r db =
     (let same = (\<lambda>x. (su_task x, su_endpoint x) = (su_task r, su_endpoint r)) in
      if su_id r \<in> set (map su_id (hub_subscriptions db)) then Inl HubSqlIntegrity
      else if list_ex same (hub_subscriptions db)
      then Inr (db\<lparr>hub_subscriptions := tbl_update same
             (\<lambda>x. x\<lparr>su_filters := su_filters r, su_state := ''active'', su_updated_at := su_updated_at r\<rparr>) (hub_subscriptions db)\<rparr>)
      else Inr (db\<lparr>hub_subscriptions := hub_subscriptions db @ [r]\<rparr>))"

definition new_subscription :: "string \<Rightarrow> string \<Rightarrow> string \<Rightarrow> string \<Rightarrow> string list \<Rightarrow> time \<Rightarrow> subscription_row" where
  "new_subscription i task endpoint user filters now =
     \<lparr>su_id = i, su_task = task, su_endpoint = endpoint, su_user = user, su_filters = filters, su_state = ''active'',
      su_created_at = now, su_updated_at = now\<rparr>"

definition companions :: "string \<Rightarrow> hub \<Rightarrow> endpoint_row list" where
  "companions user db =
     filter (\<lambda>e. ep_user e = user \<and> ep_state e = ''active'' \<and> \<not> is_pull_based e \<and>
         list_ex (\<lambda>c. c \<in> {''direct_status'', ''trusted_interaction'', ''workspace.task.read''}) (ep_capabilities e))
       (hub_endpoints db)"

definition subscribe_companions :: "hub_env \<Rightarrow> string \<Rightarrow> string \<Rightarrow> time \<Rightarrow> hub \<Rightarrow> hub_error + hub" where
  "subscribe_companions env task user now db =
     foldE (\<lambda>e db. upsert_subscription (new_subscription (uuid env (hub_draws db)) task (ep_id e) user companion_filters now)
              (db\<lparr>hub_draws := Suc (hub_draws db)\<rparr>))
       (companions user db) db"

text \<open>\<open>list(v or [])\<close>\<close>

definition hub_list_or_empty :: "json \<Rightarrow> hub_error + json list" where
  "hub_list_or_empty v =
     (if \<not> truthy v then Inr []
      else case v of JList xs \<Rightarrow> Inr xs | JDict d \<Rightarrow> Inr (map (\<lambda>(k, _). JStr k) d) | JStr s \<Rightarrow> Inr (map (\<lambda>c. JStr [c]) s)
        | _ \<Rightarrow> Inl HubTypeError)"

definition message_targets :: "string \<Rightarrow> string \<Rightarrow> bool \<Rightarrow> hub \<Rightarrow> endpoint_row list" where
  "message_targets user source notify_source db =
     filter (\<lambda>e. ep_user e = user \<and> ep_state e = ''active'' \<and> (ep_id e \<noteq> source \<or> notify_source) \<and>
         ep_client_type e \<notin> {''web'', ''webchat''} \<and>
         list_ex (\<lambda>c. c \<in> {''direct_status'', ''timeline_message''}) (ep_capabilities e))
       (hub_endpoints db)"

definition enqueue_message :: "hub_env \<Rightarrow> timeline_row \<Rightarrow> string \<Rightarrow> bool \<Rightarrow> hub \<Rightarrow> hub_error + hub" where
  "enqueue_message env entry source notify_source db =
     ebind (hub_list_or_empty (dget (dict_items (tl_payload entry)) ''attachments'')) (\<lambda>attachments.
     let sender = tbl_get ep_id source (hub_endpoints db);
         payload = canon (JDict
           [(''entryId'', JStr (tl_id entry)), (''sequence'', JInt (int (tl_sequence entry))), (''role'', hub_text_or_null (tl_role entry)),
            (''text'', hub_text_or_null (tl_text entry)), (''attachments'', JList attachments),
            (''createdAt'', JStr (iso env (tl_created_at entry))),
            (''source'', JDict [(''endpointId'', JStr source),
               (''clientType'', JStr (case sender of None \<Rightarrow> ''unknown'' | Some e \<Rightarrow> ep_client_type e)),
               (''label'', (case sender of None \<Rightarrow> JNull | Some e \<Rightarrow> hub_text_or_null (ep_label e)))])])
     in Inr (fold (notify env ''timeline_message'' (tl_id entry) (or_text (tl_task entry) []) (tl_user entry) payload (tl_created_at entry))
          (map ep_id (message_targets (tl_user entry) source notify_source db)) db))"

section \<open>Endpoints\<close>

record endpoint_request =
  rq_user :: string
  rq_token :: string
  rq_host :: string
  rq_key :: string
  rq_client_type :: string
  rq_external :: string
  rq_conversation :: string
  rq_account :: "string option"
  rq_label :: "string option"
  rq_capabilities :: "string list"
  rq_route :: "(string \<times> json) list option"

text \<open>The normalized row, as it is inserted.\<close>

definition endpoint_values :: "string \<Rightarrow> time \<Rightarrow> endpoint_request \<Rightarrow> hub_error + endpoint_row" where
  "endpoint_values i now q =
     ebind (hub_required_text 256 (Some (rq_user q))) (\<lambda>user.
     ebind (hub_required_text 256 (Some (rq_token q))) (\<lambda>token.
     ebind (hub_required_text 80 (Some (rq_host q))) (\<lambda>host.
     ebind (hub_required_text 768 (Some (rq_key q))) (\<lambda>key.
     ebind (hub_required_text 80 (Some (rq_client_type q))) (\<lambda>client_type.
     ebind (hub_required_text 768 (Some (rq_external q))) (\<lambda>external.
     ebind (hub_required_text 1024 (Some (rq_conversation q))) (\<lambda>conversation.
     ebind (optional_text 512 (rq_account q)) (\<lambda>account.
     ebind (optional_text 120 (rq_label q)) (\<lambda>label.
     ebind (mapE (\<lambda>c. hub_required_text 120 (Some c)) (rq_capabilities q)) (\<lambda>capabilities.
     Inr \<lparr>ep_id = i, ep_user = user, ep_token = token, ep_host = host, ep_key = key, ep_client_type = client_type,
          ep_external = external, ep_account = account, ep_conversation = conversation, ep_label = label,
          ep_capabilities = sorted_set capabilities, ep_route = json_column (rq_route q), ep_state = ''active'',
          ep_created_at = now, ep_updated_at = now, ep_last_seen = now\<rparr>))))))))))"

definition ensure_endpoint :: "hub_env \<Rightarrow> time \<Rightarrow> endpoint_request \<Rightarrow> hub \<Rightarrow> (endpoint_row \<times> bool) hub_result" where
  "ensure_endpoint env now q db =
     ebind (endpoint_values (uuid env (hub_draws db)) now q) (\<lambda>v.
     case List.find (\<lambda>r. ep_host r = ep_host v \<and> ep_key r = ep_key v) (hub_endpoints db) of
       Some old \<Rightarrow>
         if ep_user old \<noteq> ep_user v then Inl HubIntegrity
         else (let db' = db\<lparr>hub_endpoints := tbl_update (\<lambda>r. ep_id r = ep_id old)
                  (\<lambda>r. r\<lparr>ep_token := ep_token v, ep_client_type := ep_client_type v, ep_external := ep_external v,
                         ep_account := ep_account v, ep_conversation := ep_conversation v, ep_label := ep_label v,
                         ep_capabilities := sorted_set (ep_capabilities old @ ep_capabilities v), ep_route := ep_route v,
                         ep_state := ''active'', ep_updated_at := now, ep_last_seen := now\<rparr>) (hub_endpoints db)\<rparr>
               in ebind (select_endpoint (ep_id old) db') (\<lambda>r. Inr ((r, True), db')))
     | None \<Rightarrow>
         (case tbl_insert ep_id v (hub_endpoints db) of
            None \<Rightarrow> Inl HubSqlIntegrity
          | Some rows \<Rightarrow> Inr ((v, False), db\<lparr>hub_endpoints := rows, hub_draws := Suc (hub_draws db)\<rparr>)))"

definition touch_endpoint :: "time \<Rightarrow> string \<Rightarrow> string \<Rightarrow> hub \<Rightarrow> endpoint_row hub_result" where
  "touch_endpoint now endpoint_id user_subject db =
     ebind (hub_required_text 256 (Some endpoint_id)) (\<lambda>i.
     ebind (hub_required_text 256 (Some user_subject)) (\<lambda>user.
     let mine = (\<lambda>r. ep_id r = i \<and> ep_user r = user \<and> ep_state r = ''active'');
         db' = db\<lparr>hub_endpoints := tbl_update mine (\<lambda>r. r\<lparr>ep_updated_at := now, ep_last_seen := now\<rparr>) (hub_endpoints db)\<rparr>
     in ebind (raise_if (tbl_count mine (hub_endpoints db) \<noteq> 1) HubNotFound) (\<lambda>_.
        ebind (select_endpoint i db') (\<lambda>r. Inr (r, db')))))"

definition get_endpoint :: "string \<Rightarrow> string \<Rightarrow> hub \<Rightarrow> hub_error + endpoint_row" where
  "get_endpoint endpoint_id user_subject db =
     ebind (hub_required_text 256 (Some endpoint_id)) (\<lambda>i.
     ebind (hub_required_text 256 (Some user_subject)) (\<lambda>user.
     case List.find (\<lambda>r. ep_id r = i \<and> ep_user r = user \<and> ep_state r = ''active'') (hub_endpoints db) of
       None \<Rightarrow> Inl HubNotFound | Some r \<Rightarrow> Inr r))"

definition endpoint_for_key :: "string \<Rightarrow> string \<Rightarrow> string \<Rightarrow> hub \<Rightarrow> hub_error + endpoint_row" where
  "endpoint_for_key user host key db =
     (case List.find (\<lambda>r. ep_user r = user \<and> ep_host r = host \<and> ep_key r = key \<and> ep_state r = ''active'') (hub_endpoints db) of
        None \<Rightarrow> Inl HubNotFound | Some r \<Rightarrow> Inr r)"

section \<open>Tasks\<close>

definition update_task_state ::
  "string \<Rightarrow> string \<Rightarrow> string option \<Rightarrow> string option \<Rightarrow> time \<Rightarrow> hub \<Rightarrow> hub_error + hub" where
  "update_task_state task status operation interaction now db =
     (case task_finished_at status now of
        Inl _ \<Rightarrow> Inl HubValueError
      | Inr finished \<Rightarrow> Inr (db\<lparr>hub_tasks := tbl_update (\<lambda>t. tk_id t = task)
          (\<lambda>t. t\<lparr>tk_status := status, tk_operation := operation, tk_interaction := interaction, tk_version := tk_version t + 1,
                 tk_updated_at := now, tk_finished_at := finished\<rparr>) (hub_tasks db)\<rparr>))"

definition set_summary :: "string \<Rightarrow> (string \<times> json) list \<Rightarrow> hub \<Rightarrow> hub" where
  "set_summary task summary db =
     db\<lparr>hub_tasks := tbl_update (\<lambda>t. tk_id t = task) (\<lambda>t. t\<lparr>tk_summary := canon (JDict summary)\<rparr>) (hub_tasks db)\<rparr>"

definition view_of_task :: "task_row \<Rightarrow> task_view" where
  "view_of_task t = \<lparr>tv_status = tk_status t, tv_current_operation_id = tk_operation t, tv_current_interaction_id = tk_interaction t\<rparr>"

record task_request =
  tr_user :: string
  tr_host :: string
  tr_key :: string
  tr_origin :: string
  tr_conversation :: string
  tr_title :: string
  tr_summary :: "(string \<times> json) list option"

definition task_values :: "string \<Rightarrow> time \<Rightarrow> task_request \<Rightarrow> hub_error + task_row" where
  "task_values i now q =
     ebind (hub_required_text 256 (Some (tr_user q))) (\<lambda>user.
     ebind (hub_required_text 80 (Some (tr_host q))) (\<lambda>host.
     ebind (hub_required_text 1024 (Some (tr_key q))) (\<lambda>key.
     ebind (hub_required_text 1024 (Some (tr_conversation q))) (\<lambda>conversation.
     ebind (hub_required_text 240 (Some (tr_title q))) (\<lambda>title.
     Inr \<lparr>tk_id = i, tk_user = user, tk_host = host, tk_key = key, tk_origin = tr_origin q, tk_title = title,
          tk_status = ''active'', tk_summary = json_column (tr_summary q), tk_operation = None, tk_interaction = None,
          tk_conversation = conversation, tk_version = 1, tk_created_at = now, tk_updated_at = now, tk_finished_at = None\<rparr>)))))"

definition find_host_task :: "string \<Rightarrow> string \<Rightarrow> string \<Rightarrow> hub \<Rightarrow> task_row option" where
  "find_host_task user host key db =
     List.find (\<lambda>t. tk_user t = user \<and> tk_host t = host \<and> tk_key t = key) (hub_tasks db)"

definition create_task :: "hub_env \<Rightarrow> time \<Rightarrow> task_row \<Rightarrow> endpoint_row \<Rightarrow> hub \<Rightarrow> (task_row \<times> bool) hub_result" where
  "create_task env now t endpoint db =
     (case tbl_insert tk_id t (hub_tasks db) of
        None \<Rightarrow> Inl HubSqlIntegrity
      | Some tasks \<Rightarrow>
          (let db1 = db\<lparr>hub_tasks := tasks, hub_draws := Suc (hub_draws db)\<rparr> in
           ebind (if is_pull_based endpoint then Inr db1
                  else insert_subscription
                    (new_subscription (uuid env (hub_draws db1)) (tk_id t) (tk_origin t) (tk_user t) [''*''] now)
                    (db1\<lparr>hub_draws := Suc (hub_draws db1)\<rparr>)) (\<lambda>db2.
           ebind (subscribe_companions env (tk_id t) (tk_user t) now db2) (\<lambda>db3.
           ebind (append_event env (tk_id t) (tk_user t) ''task.created''
                    [(''status'', JStr ''active''), (''title'', JStr (tk_title t))] (Some (tk_key t)) now db3) (\<lambda>(_, db4).
           ebind (select_task (tk_id t) db4) (\<lambda>r. Inr ((r, False), db4)))))))"

definition ensure_task :: "hub_env \<Rightarrow> time \<Rightarrow> task_request \<Rightarrow> hub \<Rightarrow> (task_row \<times> bool) hub_result" where
  "ensure_task env now q db =
     ebind (task_values (uuid env (hub_draws db)) now q) (\<lambda>v.
     ebind (select_endpoint (tk_origin v) db) (\<lambda>endpoint.
     ebind (raise_if (ep_user endpoint \<noteq> tk_user v) HubIntegrity) (\<lambda>_.
     ebind (raise_if (ep_host endpoint \<noteq> tk_host v) HubIntegrity) (\<lambda>_.
     case find_host_task (tk_user v) (tk_host v) (tk_key v) db of
       Some old \<Rightarrow>
         if tk_origin old \<noteq> tk_origin v then Inl HubIntegrity
         else (let db' = db\<lparr>hub_tasks := tbl_update (\<lambda>t. tk_id t = tk_id old)
                  (\<lambda>t. t\<lparr>tk_conversation := tk_conversation v, tk_updated_at := now\<rparr>) (hub_tasks db)\<rparr>
               in ebind (select_task (tk_id old) db') (\<lambda>r. Inr ((r, True), db')))
     | None \<Rightarrow> create_task env now v endpoint db))))"

definition get_task :: "string \<Rightarrow> string \<Rightarrow> hub \<Rightarrow> hub_error + task_row" where
  "get_task i user db = select_owned_task i user db"

section \<open>Operations and interactions of a task\<close>

text \<open>What the ledger reads of an operation (a row of the operation store) and of an interaction.\<close>

record operation_info =
  oi_id :: "string option"
  oi_user :: "string option"
  oi_status :: "string option"
  oi_capability :: json
  oi_effect :: json
  oi_error :: "(string \<times> json) list option"

record interaction_info =
  ii_id :: "string option"
  ii_user :: "string option"
  ii_resume_task :: json
  ii_state :: "string option"
  ii_type :: "string option"

definition operation_payload :: "string \<Rightarrow> operation_info \<Rightarrow> (string \<times> json) list" where
  "operation_payload i info =
     [(''operationId'', JStr i), (''capability'', oi_capability info)] @
     (if truthy (oi_effect info) then [(''capabilityEffect'', oi_effect info)] else [])"

definition linked_operation :: "string \<Rightarrow> string \<Rightarrow> hub \<Rightarrow> hub_error + bool" where
  "linked_operation task operation db =
     (case tbl_get ol_operation operation (hub_operations db) of
        None \<Rightarrow> Inr False
      | Some l \<Rightarrow> if ol_task l \<noteq> task then Inl HubIntegrity else Inr True)"

definition insert_operation_link :: "string \<Rightarrow> string \<Rightarrow> string \<Rightarrow> time \<Rightarrow> hub \<Rightarrow> hub" where
  "insert_operation_link task operation user now db =
     db\<lparr>hub_operations := hub_operations db @ [\<lparr>ol_task = task, ol_operation = operation, ol_user = user, ol_linked_at = now\<rparr>]\<rparr>"

definition link_operation :: "hub_env \<Rightarrow> time \<Rightarrow> string \<Rightarrow> string \<Rightarrow> operation_info \<Rightarrow> hub \<Rightarrow> task_row hub_result" where
  "link_operation env now task_id user info db =
     ebind (hub_required_text 256 (oi_id info)) (\<lambda>i.
     ebind (raise_if (oi_user info \<noteq> Some user) HubIntegrity) (\<lambda>_.
     let status = or_text (oi_status info) [] in
     ebind (select_owned_task task_id user db) (\<lambda>task.
     ebind (linked_operation task_id i db) (\<lambda>linked.
     let decision = operation_observation (tk_status task) status (map_option ba_state (batch_of_task task_id db)) (\<not> linked) in
     ebind (if linked then Inr db
            else ebind (append_event env task_id user ''task.operation.linked'' (operation_payload i info) (Some i) now
                          (insert_operation_link task_id i user now db)) (\<lambda>(_, db1). Inr db1)) (\<lambda>db1.
     ebind (if d_update_task decision
            then update_task_state task_id (d_status decision) (Some i) (tk_interaction task) now db1 else Inr db1) (\<lambda>db2.
     ebind (if d_emit_event decision
            then ebind (append_event env task_id user (d_event_type decision)
                   (operation_payload i info @ [(''status'', JStr status),
                      (''errorCode'', dget (case oi_error info of None \<Rightarrow> [] | Some e \<Rightarrow> e) ''code'')]) (Some i) now db2) (\<lambda>(_, db3). Inr db3)
            else Inr db2) (\<lambda>db3.
     ebind (select_task task_id db3) (\<lambda>r. Inr (r, db3)))))))))"

definition link_plan_operation ::
  "hub_env \<Rightarrow> time \<Rightarrow> string \<Rightarrow> string \<Rightarrow> operation_info \<Rightarrow> string \<Rightarrow> string \<Rightarrow> hub \<Rightarrow> task_row hub_result" where
  "link_plan_operation env now task_id user info plan_id step_key db =
     ebind (hub_required_text 256 (oi_id info)) (\<lambda>i.
     ebind (raise_if (oi_user info \<noteq> Some user) HubIntegrity) (\<lambda>_.
     ebind (hub_required_text 128 (Some plan_id)) (\<lambda>plan.
     ebind (hub_required_text 80 (Some step_key)) (\<lambda>step.
     ebind (select_owned_task task_id user db) (\<lambda>task.
     ebind (linked_operation task_id i db) (\<lambda>linked.
     ebind (if linked then Inr db
            else ebind (append_event env task_id user ''task.operation.linked''
                   [(''operationId'', JStr i), (''capability'', oi_capability info), (''planId'', JStr plan), (''stepKey'', JStr step)]
                   (Some i) now (insert_operation_link task_id i user now db)) (\<lambda>(_, db1). Inr db1)) (\<lambda>db1.
     ebind (case plan_task_status (tk_status task) None of
              None \<Rightarrow> Inr db1
            | Some status \<Rightarrow> update_task_state task_id status (Some i) (tk_interaction task) now db1) (\<lambda>db2.
     ebind (select_task task_id db2) (\<lambda>r. Inr (r, db2))))))))))"

definition operation_ids_for_task :: "string \<Rightarrow> string \<Rightarrow> hub \<Rightarrow> hub_error + string list" where
  "operation_ids_for_task task_id user db =
     ebind (select_owned_task task_id user db) (\<lambda>_.
     Inr (map ol_operation (filter (\<lambda>l. ol_task l = task_id \<and> ol_user l = user) (hub_operations db))))"

definition record_plan_event ::
  "hub_env \<Rightarrow> time \<Rightarrow> string \<Rightarrow> string \<Rightarrow> string \<Rightarrow> (string \<times> json) list \<Rightarrow> string option \<Rightarrow> hub \<Rightarrow> task_row hub_result" where
  "record_plan_event env now task_id user event_type payload cause db =
     ebind (raise_if (\<not> startswith event_type ''plan.'') HubValueError) (\<lambda>_.
     ebind (select_owned_task task_id user db) (\<lambda>task.
     ebind (append_event env task_id user event_type payload cause now db) (\<lambda>(_, db1).
     ebind (case plan_task_status (tk_status task) (Some event_type) of
              None \<Rightarrow> Inr db1
            | Some status \<Rightarrow> update_task_state task_id status (tk_operation task) (tk_interaction task) now db1) (\<lambda>db2.
     ebind (select_task task_id db2) (\<lambda>r. Inr (r, db2))))))"

text \<open>The task is read before the transaction begins: \<open>seen\<close> is the ledger at that moment.\<close>

definition record_analysis_phase ::
  "hub_env \<Rightarrow> hub \<Rightarrow> time \<Rightarrow> string \<Rightarrow> string \<Rightarrow> string \<Rightarrow> string \<Rightarrow> hub \<Rightarrow> unit hub_result" where
  "record_analysis_phase env seen now task_id user phase request_id db =
     ebind (raise_if (phase \<notin> {''identity'', ''visibility'', ''query'', ''verify'', ''deliver''}) HubValueError) (\<lambda>_.
     ebind (select_owned_task task_id user seen) (\<lambda>task.
     ebind (raise_if (tk_status task \<notin> set active_task_statuses) HubIntegrity) (\<lambda>_.
     ebind (append_event env task_id user ''task.analysis.progress'' [(''phase'', JStr phase)]
              (Some (request_id @ '':'' @ phase)) now db) (\<lambda>(_, db'). Inr ((), db')))))"

definition link_interaction :: "hub_env \<Rightarrow> time \<Rightarrow> string \<Rightarrow> string \<Rightarrow> interaction_info \<Rightarrow> hub \<Rightarrow> task_row hub_result" where
  "link_interaction env now task_id user info db =
     ebind (hub_required_text 256 (ii_id info)) (\<lambda>i.
     ebind (raise_if (ii_user info \<noteq> Some user) HubIntegrity) (\<lambda>_.
     ebind (raise_if (truthy (ii_resume_task info) \<and> ii_resume_task info \<noteq> JStr task_id) HubIntegrity) (\<lambda>_.
     let state = or_text (ii_state info) [] in
     ebind (select_owned_task task_id user db) (\<lambda>task.
     let old = tbl_get il_interaction i (hub_interactions db) in
     ebind (raise_if (case old of None \<Rightarrow> False | Some l \<Rightarrow> il_task l \<noteq> task_id) HubIntegrity) (\<lambda>_.
     let decision = interaction_observation (view_of_task task) i state (or_text (ii_type info) []) (old = None)
           (case old of None \<Rightarrow> None | Some l \<Rightarrow> il_state l);
         db1 = (if old = None
           then db\<lparr>hub_interactions := hub_interactions db @
                  [\<lparr>il_task = task_id, il_interaction = i, il_user = user, il_linked_at = now, il_state = Some state,
                    il_observed_at = Some now\<rparr>]\<rparr>
           else if d_observation_changed decision
           then db\<lparr>hub_interactions := tbl_update (\<lambda>l. il_interaction l = i)
                  (\<lambda>l. l\<lparr>il_state := Some state, il_observed_at := Some now\<rparr>) (hub_interactions db)\<rparr>
           else db) in
     ebind (if d_update_task decision
            then update_task_state task_id (d_status decision) (tk_operation task) (Some i) now db1 else Inr db1) (\<lambda>db2.
     ebind (if d_emit_event decision
            then ebind (if d_event_type decision = ''task.interaction.waiting''
                        then subscribe_companions env task_id user now db2 else Inr db2) (\<lambda>db3.
                 ebind (append_event env task_id user (d_event_type decision)
                   [(''interactionId'', JStr i), (''interactionType'', hub_text_or_null (ii_type info)), (''state'', JStr state)]
                   (Some i) now db3) (\<lambda>(_, db4). Inr db4))
            else Inr db2) (\<lambda>db3.
     ebind (select_task task_id db3) (\<lambda>r. Inr (r, db3)))))))))"

section \<open>Ends of a task\<close>

text \<open>The common course of \<open>complete_task\<close>, \<open>fail_task\<close> and \<open>mark_task_outcome_unknown\<close>; \<open>addition\<close> is what failing adds to the summary.\<close>

definition end_task ::
  "hub_env \<Rightarrow> time \<Rightarrow> string \<Rightarrow> string \<Rightarrow> string \<Rightarrow> string \<Rightarrow> (string \<times> json) list \<Rightarrow>
     (string \<times> json) option \<Rightarrow> string option \<Rightarrow> hub \<Rightarrow> task_row hub_result" where
  "end_task env now task_id user target event_type payload addition cause db =
     ebind (select_owned_task task_id user db) (\<lambda>task.
     case terminal_transition (tk_status task) target of
       Reuse \<Rightarrow> Inr (task, db)
     | Reject \<Rightarrow> Inl HubIntegrity
     | Apply \<Rightarrow>
         (let db1 = (case addition of None \<Rightarrow> db
                | Some (k, v) \<Rightarrow> set_summary task_id (AList.update k v (dict_items (tk_summary task))) db) in
          ebind (subscribe_companions env task_id user now db1) (\<lambda>db2.
          ebind (update_task_state task_id target (tk_operation task) (tk_interaction task) now db2) (\<lambda>db3.
          ebind (append_event env task_id user event_type payload cause now db3) (\<lambda>(_, db4).
          ebind (select_task task_id db4) (\<lambda>r. Inr (r, db4)))))))"

definition complete_task :: "hub_env \<Rightarrow> time \<Rightarrow> string \<Rightarrow> string \<Rightarrow> string \<Rightarrow> string option \<Rightarrow> hub \<Rightarrow> task_row hub_result" where
  "complete_task env now task_id user reason cause db =
     ebind (hub_required_text 120 (Some reason)) (\<lambda>reason.
     end_task env now task_id user ''succeeded'' ''task.completed''
       [(''status'', JStr ''succeeded''), (''reason'', JStr reason)] None cause db)"

definition fail_task :: "hub_env \<Rightarrow> time \<Rightarrow> string \<Rightarrow> string \<Rightarrow> string \<Rightarrow> string \<Rightarrow> string option \<Rightarrow> hub \<Rightarrow> task_row hub_result" where
  "fail_task env now task_id user error_code message cause db =
     ebind (hub_required_text 120 (Some error_code)) (\<lambda>code.
     ebind (hub_required_text 500 (Some message)) (\<lambda>message.
     end_task env now task_id user ''failed'' ''task.failed'' [(''status'', JStr ''failed''), (''errorCode'', JStr code)]
       (Some (''failure'', JDict [(''code'', JStr code), (''message'', JStr message)])) cause db))"

definition mark_task_outcome_unknown ::
  "hub_env \<Rightarrow> time \<Rightarrow> string \<Rightarrow> string \<Rightarrow> string \<Rightarrow> string option \<Rightarrow> hub \<Rightarrow> task_row hub_result" where
  "mark_task_outcome_unknown env now task_id user error_code cause db =
     ebind (hub_required_text 120 (Some error_code)) (\<lambda>code.
     end_task env now task_id user ''outcome_unknown'' ''task.operation.outcome_unknown''
       [(''status'', JStr ''outcome_unknown''), (''errorCode'', JStr code)] None cause db)"

section \<open>Messages of the timeline\<close>

record message_request =
  mr_user :: string
  mr_source :: string
  mr_key :: string
  mr_role :: string
  mr_text :: string
  mr_task :: "string option"
  mr_payload :: "(string \<times> json) list option"
  mr_notify_source :: bool

definition message_entry ::
  "string \<Rightarrow> time \<Rightarrow> string \<Rightarrow> string \<Rightarrow> string \<Rightarrow> string option \<Rightarrow> message_request \<Rightarrow> timeline_row" where
  "message_entry i now user key text task q =
     \<lparr>tl_sequence = 0, tl_id = i, tl_user = user, tl_type = ''chat_message'', tl_dedupe = ''message:'' @ key,
      tl_source = Some (mr_source q), tl_task = task, tl_role = Some (mr_role q), tl_text = Some text,
      tl_payload = json_column (mr_payload q), tl_created_at = now\<rparr>"

definition append_message :: "hub_env \<Rightarrow> time \<Rightarrow> message_request \<Rightarrow> hub \<Rightarrow> (timeline_row \<times> bool) hub_result" where
  "append_message env now q db =
     ebind (hub_required_text 256 (Some (mr_user q))) (\<lambda>user.
     ebind (hub_required_text 768 (Some (mr_key q))) (\<lambda>key.
     ebind (raise_if (mr_role q \<notin> {''user'', ''assistant''}) HubValueError) (\<lambda>_.
     ebind (timeline_text (mr_text q)) (\<lambda>text.
     ebind (if filled (mr_task q) then ebind (hub_required_text 128 (mr_task q)) (\<lambda>t. Inr (Some t)) else Inr None) (\<lambda>task.
     ebind (select_active_endpoint (mr_source q) user db) (\<lambda>_.
     ebind (case task of None \<Rightarrow> Inr () | Some t \<Rightarrow> ebind (select_owned_task t user db) (\<lambda>_. Inr ())) (\<lambda>_.
     case List.find (\<lambda>r. tl_user r = user \<and> tl_dedupe r = ''message:'' @ key) (hub_timeline db) of
       Some old \<Rightarrow> Inr ((old, True), db)
     | None \<Rightarrow>
         (let i = uuid env (hub_draws db) in
          case insert_timeline (message_entry i now user key text task q) (db\<lparr>hub_draws := Suc (hub_draws db)\<rparr>) of
            None \<Rightarrow> Inl HubSqlIntegrity
          | Some db1 \<Rightarrow>
              (case tbl_get tl_id i (hub_timeline db1) of
                 None \<Rightarrow> Inl HubTypeError
               | Some row \<Rightarrow>
                   ebind (enqueue_message env row (mr_source q) (mr_notify_source q) db1) (\<lambda>db2. Inr ((row, False), db2)))))))))))"

definition get_timeline_message :: "string \<Rightarrow> string \<Rightarrow> hub \<Rightarrow> hub_error + timeline_row" where
  "get_timeline_message user_subject message_key db =
     ebind (hub_required_text 256 (Some user_subject)) (\<lambda>user.
     ebind (hub_required_text 768 (Some message_key)) (\<lambda>key.
     case List.find (\<lambda>r. tl_user r = user \<and> tl_dedupe r = ''message:'' @ key \<and> tl_type r = ''chat_message'') (hub_timeline db) of
       None \<Rightarrow> Inl HubNotFound | Some r \<Rightarrow> Inr r))"

definition list_timeline ::
  "string \<Rightarrow> int option \<Rightarrow> int option \<Rightarrow> string option \<Rightarrow> int \<Rightarrow> hub \<Rightarrow> hub_error + timeline_row list" where
  "list_timeline user after before entry_type limit db =
     ebind (raise_if (after \<noteq> None \<and> before \<noteq> None) HubValueError) (\<lambda>_.
     ebind (raise_if (entry_type \<notin> {None, Some ''chat_message'', Some ''task_event''}) HubValueError) (\<lambda>_.
     let n = nat (min (max limit 1) 1000);
         rows = (\<lambda>P. sort_key tl_sequence (filter (\<lambda>r. tl_user r = user \<and> P (int (tl_sequence r)) \<and>
                   (case entry_type of None \<Rightarrow> True | Some t \<Rightarrow> tl_type r = t)) (hub_timeline db)));
         last_of = (\<lambda>rs. rev (take n (rev rs)))
     in Inr (case after of
          Some a \<Rightarrow> take n (rows (\<lambda>s. s > max a 0))
        | None \<Rightarrow> (case before of
              Some b \<Rightarrow> last_of (rows (\<lambda>s. s < max b 1))
            | None \<Rightarrow> last_of (rows (\<lambda>_. True))))))"

definition latest_timeline_sequence :: "string \<Rightarrow> hub \<Rightarrow> nat" where
  "latest_timeline_sequence user db =
     fold max (map tl_sequence (filter (\<lambda>r. tl_user r = user) (hub_timeline db))) 0"

end
