(* ===== verification/TaskDeliveries.thy ===== *)
theory TaskDeliveries
  imports TaskLedger
begin

text \<open>
  The delivery of notifications (\<open>core/tasks.py\<close>): an agent host claims the deliveries of one of its endpoints for a lease and
  acknowledges each; a delivery is tried at most five times, may be deferred until its user is active again, requeued or archived
  by an administrator.
\<close>

section \<open>Operations\<close>

definition clamp :: "int \<Rightarrow> int \<Rightarrow> int \<Rightarrow> int" where
  "clamp lowest highest n = min (max n lowest) highest"

definition seconds :: "int \<Rightarrow> time" where
  "seconds n = n * 1000000"

definition set_deliveries :: "(delivery_row \<Rightarrow> bool) \<Rightarrow> (delivery_row \<Rightarrow> delivery_row) \<Rightarrow> hub \<Rightarrow> hub" where
  "set_deliveries P f db = db\<lparr>hub_outbox := tbl_update P f (hub_outbox db)\<rparr>"

definition list_outbox :: "string \<Rightarrow> string option \<Rightarrow> int \<Rightarrow> bool \<Rightarrow> hub \<Rightarrow> delivery_row list" where
  "list_outbox user endpoint limit newest_first db =
     (let rows = sort_key dl_created_at (filter (\<lambda>r. dl_user r = user \<and> (filled endpoint \<longrightarrow> endpoint = Some (dl_endpoint r)))
                   (hub_outbox db))
      in take (nat (clamp 1 500 limit)) (if newest_first then rev rows else rows))"

definition due :: "time \<Rightarrow> delivery_row \<Rightarrow> bool" where
  "due now r \<longleftrightarrow> dl_attempts r < 5 \<and> dl_state r \<in> {Pending, Delivering} \<and> dl_next_at r \<le> now"

definition given_up :: "time \<Rightarrow> delivery_row \<Rightarrow> bool" where
  "given_up now r \<longleftrightarrow> dl_state r = Delivering \<and> 5 \<le> dl_attempts r \<and> dl_next_at r \<le> now"

definition for_endpoint :: "string \<Rightarrow> string \<Rightarrow> delivery_row \<Rightarrow> bool" where
  "for_endpoint user endpoint r \<longleftrightarrow> dl_user r = user \<and> dl_endpoint r = endpoint"

definition claimed :: "time \<Rightarrow> time \<Rightarrow> delivery_row \<Rightarrow> delivery_row" where
  "claimed lease_until now r =
     r\<lparr>dl_state := Delivering, dl_attempts := dl_attempts r + 1, dl_next_at := lease_until, dl_updated_at := now\<rparr>"

fun claim_rows :: "time \<Rightarrow> time \<Rightarrow> delivery_row list \<Rightarrow> hub \<Rightarrow> delivery_row list \<times> hub" where
  "claim_rows lease_until now [] db = ([], db)"
| "claim_rows lease_until now (row # rows) db =
     (let hit = (\<lambda>r. dl_id r = dl_id row \<and> due now r);
          db1 = set_deliveries hit (claimed lease_until now) db;
          (rest, db2) = claim_rows lease_until now rows db1
      in ((if tbl_count hit (hub_outbox db) = 1
           then (case tbl_get dl_id (dl_id row) (hub_outbox db1) of None \<Rightarrow> [] | Some r \<Rightarrow> [r]) else []) @ rest, db2))"

text \<open>
  The candidates are looked up before the write lock is taken, on the ledger \<open>seen\<close>; the clock is read once for \<open>now\<close> and
  once for the lease.
\<close>

definition claim_outbox ::
  "hub \<Rightarrow> time \<Rightarrow> time \<Rightarrow> string \<Rightarrow> string \<Rightarrow> int \<Rightarrow> int \<Rightarrow> hub \<Rightarrow> delivery_row list hub_result" where
  "claim_outbox seen now now2 user endpoint limit lease_seconds db =
     (let lease_until = now2 + seconds (clamp 5 300 lease_seconds) in
      ebind (select_active_endpoint endpoint user seen) (\<lambda>_.
      if \<not> list_ex (\<lambda>r. for_endpoint user endpoint r \<and> (due now r \<or> given_up now r)) (hub_outbox seen) then Inr ([], db)
      else
        ebind (select_active_endpoint endpoint user db) (\<lambda>_.
        let db1 = set_deliveries (\<lambda>r. for_endpoint user endpoint r \<and> given_up now r)
              (\<lambda>r. r\<lparr>dl_state := Undelivered, dl_updated_at := now\<rparr>) db;
            rows = take (nat (clamp 1 100 limit))
              (sort_key dl_created_at (filter (\<lambda>r. for_endpoint user endpoint r \<and> due now r) (hub_outbox db1)))
        in Inr (claim_rows lease_until now rows db1))))"

definition delivery_after :: "string \<Rightarrow> hub \<Rightarrow> delivery_row hub_result" where
  "delivery_after i db = (case tbl_get dl_id i (hub_outbox db) of None \<Rightarrow> Inl HubTypeError | Some r \<Rightarrow> Inr (r, db))"

definition acknowledged_row :: "time \<Rightarrow> time \<Rightarrow> bool \<Rightarrow> bool \<Rightarrow> delivery_row \<Rightarrow> delivery_row" where
  "acknowledged_row now retry_at succeeded defer r =
     (if succeeded then r\<lparr>dl_state := Acknowledged, dl_updated_at := now, dl_acknowledged_at := Some now\<rparr>
      else if defer then r\<lparr>dl_state := Deferred, dl_next_at := now, dl_updated_at := now, dl_acknowledged_at := None\<rparr>
      else if 5 \<le> dl_attempts r then r\<lparr>dl_state := Undelivered, dl_updated_at := now, dl_acknowledged_at := None\<rparr>
      else r\<lparr>dl_state := Pending, dl_next_at := retry_at, dl_updated_at := now, dl_acknowledged_at := None\<rparr>)"

definition acknowledge_outbox ::
  "time \<Rightarrow> time \<Rightarrow> string \<Rightarrow> string \<Rightarrow> string \<Rightarrow> bool \<Rightarrow> int \<Rightarrow> bool \<Rightarrow> hub \<Rightarrow> delivery_row hub_result" where
  "acknowledge_outbox now now2 user endpoint i succeeded retry_after defer db =
     ebind (raise_if (succeeded \<and> defer) HubValueError) (\<lambda>_.
     case List.find (\<lambda>r. dl_id r = i \<and> for_endpoint user endpoint r) (hub_outbox db) of
       None \<Rightarrow> Inl HubNotFound
     | Some row \<Rightarrow> delivery_after i
         (set_deliveries (\<lambda>r. dl_id r = i)
            (acknowledged_row now (now2 + seconds (clamp 1 300 retry_after)) succeeded defer) db))"

definition is_wechat :: "endpoint_row \<Rightarrow> bool" where
  "is_wechat e \<longleftrightarrow> py_lower (ep_client_type e) \<in> {''openclaw-weixin'', ''wechat'', ''weixin''}"

definition stale_notice :: "string \<Rightarrow> hub \<Rightarrow> delivery_row \<Rightarrow> bool" where
  "stale_notice user db r \<longleftrightarrow> dl_type r = ''task_event'' \<and>
     (case dget (dict_items (dl_payload r)) ''eventType'' of
        JStr t \<Rightarrow> t \<in> {''task.operation.failed'', ''task.operation.succeeded'', ''task.completed'', ''task.canceled'', ''plan.completed''}
      | _ \<Rightarrow> False) \<and>
     list_ex (\<lambda>t. tk_id t = dl_task r \<and> tk_user t = user \<and> tk_status t \<in> set terminal_task_statuses) (hub_tasks db)"

definition reactivated_row :: "time \<Rightarrow> time \<Rightarrow> delivery_row \<Rightarrow> delivery_row" where
  "reactivated_row now next_at r =
     r\<lparr>dl_state := Pending, dl_attempts := 0, dl_next_at := next_at, dl_updated_at := now, dl_acknowledged_at := None\<rparr>"

definition reactivate_deferred_outbox ::
  "time \<Rightarrow> time \<Rightarrow> string \<Rightarrow> string \<Rightarrow> int \<Rightarrow> hub \<Rightarrow> nat hub_result" where
  "reactivate_deferred_outbox now now2 user endpoint delay db =
     ebind (select_active_endpoint endpoint user db) (\<lambda>e.
     let deferred = (\<lambda>r. for_endpoint user endpoint r \<and> dl_state r = Deferred);
         archive = (\<lambda>r. r\<lparr>dl_state := Archived, dl_updated_at := now\<rparr>);
         db1 = (if is_wechat e then set_deliveries (\<lambda>r. deferred r \<and> dl_type r = ''timeline_message'') archive db else db);
         db2 = (if is_wechat e then set_deliveries (\<lambda>r. deferred r \<and> stale_notice user db1 r) archive db1 else db1)
     in Inr (tbl_count deferred (hub_outbox db2),
          set_deliveries deferred (reactivated_row now (now2 + seconds (clamp 0 300 delay))) db2))"

definition get_delivery :: "string \<Rightarrow> hub \<Rightarrow> hub_error + delivery_row" where
  "get_delivery i db = (case tbl_get dl_id i (hub_outbox db) of None \<Rightarrow> Inl HubNotFound | Some r \<Rightarrow> Inr r)"

definition requeue_delivery :: "time \<Rightarrow> string \<Rightarrow> hub \<Rightarrow> delivery_row hub_result" where
  "requeue_delivery now i db =
     ebind (get_delivery i db) (\<lambda>row.
     ebind (raise_if (dl_state row \<notin> {Undelivered, Deferred, Archived}) HubIntegrity) (\<lambda>_.
     delivery_after i (set_deliveries (\<lambda>r. dl_id r = i) (reactivated_row now now) db)))"

definition archive_delivery :: "time \<Rightarrow> string \<Rightarrow> hub \<Rightarrow> delivery_row hub_result" where
  "archive_delivery now i db =
     ebind (get_delivery i db) (\<lambda>row.
     ebind (raise_if (dl_state row \<notin> {Undelivered, Acknowledged}) HubIntegrity) (\<lambda>_.
     delivery_after i (set_deliveries (\<lambda>r. dl_id r = i) (\<lambda>r. r\<lparr>dl_state := Archived, dl_updated_at := now\<rparr>) db)))"

section \<open>Maintenance at startup\<close>

text \<open>The first and the last of the four repairs; the state of an interaction that was linked before its state was recorded is that of its last event.\<close>

definition state_of_event :: "string \<Rightarrow> string option" where
  "state_of_event = map_of
     [(''task.interaction.waiting'', ''pending''), (''task.interaction.completed'', ''completed''), (''task.canceled'', ''declined''),
      (''task.interaction.expired'', ''expired''), (''task.interaction.failed'', ''failed''), (''task.interaction.superseded'', ''superseded'')]"

definition last_interaction_event :: "string \<Rightarrow> hub \<Rightarrow> event_row option" where
  "last_interaction_event i db =
     (case rev (sort_key ev_created_at (filter (\<lambda>e. ev_cause e = Some i \<and>
          (startswith (py_lower (ev_type e)) ''task.interaction.'' \<or> ev_type e = ''task.canceled'')) (hub_events db))) of
        [] \<Rightarrow> None | e # _ \<Rightarrow> Some e)"

definition backfill_observation :: "string \<Rightarrow> hub \<Rightarrow> hub" where
  "backfill_observation i db =
     (case last_interaction_event i db of
        None \<Rightarrow> db
      | Some e \<Rightarrow> (case state_of_event (ev_type e) of
            None \<Rightarrow> db
          | Some s \<Rightarrow> db\<lparr>hub_interactions := tbl_update (\<lambda>l. il_interaction l = i)
               (\<lambda>l. l\<lparr>il_state := Some s, il_observed_at := Some (ev_created_at e)\<rparr>) (hub_interactions db)\<rparr>))"

definition backfill_observations :: "hub \<Rightarrow> hub" where
  "backfill_observations db =
     fold backfill_observation (map il_interaction (filter (\<lambda>l. il_state l = None) (hub_interactions db))) db"

definition pull_endpoint :: "hub \<Rightarrow> string \<Rightarrow> bool" where
  "pull_endpoint db i = list_ex (\<lambda>e. ep_id e = i \<and> is_pull_based e) (hub_endpoints db)"

definition reconcile_pull_based :: "time \<Rightarrow> hub \<Rightarrow> hub" where
  "reconcile_pull_based now db =
     db\<lparr>hub_subscriptions := tbl_update (\<lambda>s. su_state s = ''active'' \<and> pull_endpoint db (su_endpoint s))
            (\<lambda>s. s\<lparr>su_state := ''inactive'', su_updated_at := now\<rparr>) (hub_subscriptions db),
        hub_outbox := tbl_update (\<lambda>r. dl_type r = ''task_event'' \<and> dl_state r \<in> {Pending, Delivering, Undelivered} \<and>
              pull_endpoint db (dl_endpoint r))
            (\<lambda>r. r\<lparr>dl_state := Acknowledged, dl_updated_at := now,
               dl_acknowledged_at := (case dl_acknowledged_at r of None \<Rightarrow> Some now | Some t \<Rightarrow> Some t)\<rparr>) (hub_outbox db)\<rparr>"

end
