(* ===== verification/TaskBatches.thy ===== *)
theory TaskBatches
  imports TaskLedger
begin

text \<open>
  Batches (\<open>core/tasks.py\<close>): a task may run one capability over up to a hundred frozen targets, strictly one after the other;
  the first failure ends the batch. Cancelling a task cancels its batch.
\<close>

section \<open>The summary of a batch\<close>

definition batch_task_summary :: "task_row \<Rightarrow> batch_row \<Rightarrow> item_row \<Rightarrow> (string \<times> json) list" where
  "batch_task_summary task batch item =
     AList.update ''batch'' (JDict
       [(''batchId'', JStr (ba_id batch)), (''systemId'', JStr (ba_system batch)), (''capability'', JStr (ba_capability batch)),
        (''state'', JStr (ba_state batch)), (''currentOrdinal'', JInt (ba_current batch)), (''totalCount'', JInt (ba_total batch)),
        (''succeededCount'', JInt (ba_succeeded batch)), (''failedCount'', JInt (ba_failed batch)),
        (''skippedCount'', JInt (ba_skipped batch)), (''failurePolicy'', JStr (ba_failure_policy batch)),
        (''currentItem'', JDict [(''ordinal'', JInt (bi_ordinal item)), (''state'', JStr (bi_state item)), (''display'', bi_display item)])])
       (dict_items (tk_summary task))"

definition find_item :: "string \<Rightarrow> int \<Rightarrow> hub \<Rightarrow> item_row option" where
  "find_item batch ordinal db = List.find (\<lambda>r. bi_batch r = batch \<and> bi_ordinal r = ordinal) (hub_items db)"

definition current_item :: "batch_row \<Rightarrow> hub \<Rightarrow> hub_error + item_row" where
  "current_item batch db =
     (case find_item (ba_id batch) (ba_current batch) db of None \<Rightarrow> Inl HubIntegrity | Some r \<Rightarrow> Inr r)"

definition or_else :: "string option \<Rightarrow> string option \<Rightarrow> string option" where
  "or_else a b = (case a of None \<Rightarrow> b | Some x \<Rightarrow> Some x)"

definition sync_batch_task_summary ::
  "time \<Rightarrow> task_row \<Rightarrow> batch_row \<Rightarrow> string option \<Rightarrow> string option \<Rightarrow> string option \<Rightarrow> hub \<Rightarrow> hub_error + hub" where
  "sync_batch_task_summary now task batch status operation interaction db =
     ebind (current_item batch db) (\<lambda>item.
     update_task_state (tk_id task) (case status of None \<Rightarrow> batch_task_status (ba_state batch) | Some s \<Rightarrow> s)
       (or_else operation (tk_operation task)) (or_else interaction (tk_interaction task)) now
       (set_summary (tk_id task) (batch_task_summary task batch item) db))"

text \<open>A snapshot: the batch with its items, each with its target when that is included.\<close>

type_synonym batch_snapshot = "batch_row \<times> (string option \<times> item_row) list"

definition item_view :: "bool \<Rightarrow> item_row \<Rightarrow> string option \<times> item_row" where
  "item_view include_ref r = (if include_ref then (Some (bi_ref r), r) else (None, r\<lparr>bi_ref := []\<rparr>))"

definition batch_snapshot :: "bool \<Rightarrow> batch_row \<Rightarrow> hub \<Rightarrow> batch_snapshot" where
  "batch_snapshot include_refs batch db =
     (batch, map (item_view include_refs) (sort_key bi_ordinal (filter (\<lambda>r. bi_batch r = ba_id batch) (hub_items db))))"

definition stored_batch :: "string \<Rightarrow> hub \<Rightarrow> hub_error + batch_row" where
  "stored_batch i db = (case tbl_get ba_id i (hub_batches db) of None \<Rightarrow> Inl HubTypeError | Some b \<Rightarrow> Inr b)"

definition set_batch :: "string \<Rightarrow> (batch_row \<Rightarrow> batch_row) \<Rightarrow> hub \<Rightarrow> hub" where
  "set_batch i f db = db\<lparr>hub_batches := tbl_update (\<lambda>b. ba_id b = i) f (hub_batches db)\<rparr>"

definition set_items :: "(item_row \<Rightarrow> bool) \<Rightarrow> (item_row \<Rightarrow> item_row) \<Rightarrow> hub \<Rightarrow> hub" where
  "set_items P f db = db\<lparr>hub_items := tbl_update P f (hub_items db)\<rparr>"

section \<open>Creating a batch\<close>

record item_source =
  is_ref :: "string option"
  is_display :: "(string \<times> json) list option"
  is_fingerprint :: "string option"

record batch_request =
  br_task :: string
  br_user :: string
  br_system :: string
  br_capability :: string
  br_selection :: "(string \<times> json) list option"
  br_policy :: string
  br_items :: "item_source list"

definition source_fingerprint :: "hub_env \<Rightarrow> item_source \<Rightarrow> string" where
  "source_fingerprint env s =
     (let f = py_strip (or_text (is_fingerprint s) []) in
      take 256 (if f = [] then sha_json env (json_column (is_display s)) else f))"

text \<open>The rows of the items, with the fields that the insertion adds still empty.\<close>

fun normalize_items :: "hub_env \<Rightarrow> time \<Rightarrow> int \<Rightarrow> string list \<Rightarrow> item_source list \<Rightarrow> hub_error + item_row list" where
  "normalize_items env now n seen [] = Inr []"
| "normalize_items env now n seen (s # ss) =
     ebind (hub_required_text 512 (is_ref s)) (\<lambda>ref.
     ebind (raise_if (sha_text env ref \<in> set seen) HubValueError) (\<lambda>_.
     ebind (normalize_items env now (n + 1) (sha_text env ref # seen) ss) (\<lambda>rest.
     Inr (\<lparr>bi_id = [], bi_batch = [], bi_ordinal = n, bi_ref = ref, bi_ref_hash = sha_text env ref,
           bi_display = json_column (is_display s), bi_fingerprint = source_fingerprint env s, bi_state = ''queued'',
           bi_operation = None, bi_interaction = None, bi_result = JDict [], bi_error = None,
           bi_created_at = now, bi_updated_at = now, bi_finished_at = None\<rparr> # rest))))"

definition snapshot_hash :: "hub_env \<Rightarrow> item_row list \<Rightarrow> string" where
  "snapshot_hash env items = sha_json env (canon (JList (map (\<lambda>r.
     JDict [(''ordinal'', JInt (bi_ordinal r)), (''resourceRefHash'', JStr (bi_ref_hash r)), (''sourceFingerprint'', JStr (bi_fingerprint r))])
     items)))"

text \<open>The targets that an active batch of the user on the system still owns.\<close>

definition owns_target :: "item_row \<Rightarrow> bool" where
  "owns_target r \<longleftrightarrow> bi_state r \<notin> {''succeeded'', ''skipped'', ''canceled''}"

definition target_taken :: "string \<Rightarrow> string \<Rightarrow> hub \<Rightarrow> item_row \<Rightarrow> bool" where
  "target_taken user system db item = list_ex (\<lambda>r. bi_ref_hash r = bi_ref_hash item \<and> owns_target r \<and>
     list_ex (\<lambda>b. ba_id b = bi_batch r \<and> ba_user b = user \<and> ba_system b = system \<and> ba_state b \<in> set active_batch_states) (hub_batches db))
     (hub_items db)"

definition insert_item :: "hub_env \<Rightarrow> string \<Rightarrow> item_row \<Rightarrow> hub \<Rightarrow> hub_error + hub" where
  "insert_item env batch item db =
     (let r = item\<lparr>bi_id := uuid env (hub_draws db), bi_batch := batch\<rparr> in
      if list_ex (\<lambda>x. bi_id x = bi_id r \<or> (bi_batch x, bi_ordinal x) = (bi_batch r, bi_ordinal r) \<or>
           (bi_batch x, bi_ref_hash x) = (bi_batch r, bi_ref_hash r)) (hub_items db)
      then Inl HubSqlIntegrity
      else Inr (db\<lparr>hub_items := hub_items db @ [r], hub_draws := Suc (hub_draws db)\<rparr>))"

definition insert_batch :: "batch_row \<Rightarrow> hub \<Rightarrow> hub_error + hub" where
  "insert_batch b db =
     (if list_ex (\<lambda>x. ba_id x = ba_id b \<or> ba_task x = ba_task b) (hub_batches db) then Inl HubSqlIntegrity
      else Inr (db\<lparr>hub_batches := hub_batches db @ [b], hub_draws := Suc (hub_draws db)\<rparr>))"

definition new_batch :: "hub_env \<Rightarrow> time \<Rightarrow> string \<Rightarrow> batch_request \<Rightarrow> string \<Rightarrow> string \<Rightarrow> string \<Rightarrow> item_row list \<Rightarrow> batch_row" where
  "new_batch env now i q user system capability items =
     \<lparr>ba_id = i, ba_task = br_task q, ba_user = user, ba_system = system, ba_capability = capability,
      ba_selection = json_column (br_selection q), ba_snapshot_hash = snapshot_hash env items,
      ba_failure_policy = ''stop_on_failure'', ba_state = ''running'', ba_current = 1, ba_total = int (length items),
      ba_succeeded = 0, ba_failed = 0, ba_skipped = 0, ba_version = 1, ba_created_at = now, ba_updated_at = now,
      ba_finished_at = None\<rparr>"

definition store_batch :: "hub_env \<Rightarrow> time \<Rightarrow> task_row \<Rightarrow> batch_row \<Rightarrow> item_row list \<Rightarrow> hub \<Rightarrow> (batch_snapshot \<times> bool) hub_result" where
  "store_batch env now task b items db =
     ebind (insert_batch b db) (\<lambda>db1.
     ebind (foldE (insert_item env (ba_id b)) items db1) (\<lambda>db2.
     ebind (stored_batch (ba_id b) db2) (\<lambda>batch.
     ebind (sync_batch_task_summary now task batch None None None db2) (\<lambda>db3.
     ebind (append_event env (ba_task b) (ba_user b) ''batch.created''
       [(''batchId'', JStr (ba_id b)), (''systemId'', JStr (ba_system b)), (''capability'', JStr (ba_capability b)),
        (''totalCount'', JInt (int (length items))), (''failurePolicy'', JStr (ba_failure_policy b))] (Some (ba_id b)) now db3) (\<lambda>(_, db4).
     ebind (append_event env (ba_task b) (ba_user b) ''batch.candidates.frozen''
       [(''batchId'', JStr (ba_id b)), (''totalCount'', JInt (int (length items))),
        (''sourceSnapshotHash'', JStr (ba_snapshot_hash b))] (Some (ba_id b)) now db4) (\<lambda>(_, db5).
     ebind (stored_batch (ba_id b) db5) (\<lambda>stored. Inr ((batch_snapshot True stored db5, False), db5))))))))"

definition create_batch :: "hub_env \<Rightarrow> time \<Rightarrow> batch_request \<Rightarrow> hub \<Rightarrow> (batch_snapshot \<times> bool) hub_result" where
  "create_batch env now q db =
     ebind (raise_if (br_items q = []) HubValueError) (\<lambda>_.
     ebind (raise_if (length (br_items q) > 100) HubValueError) (\<lambda>_.
     ebind (hub_required_text 80 (Some (br_policy q))) (\<lambda>policy.
     ebind (raise_if (policy \<noteq> ''stop_on_failure'') HubValueError) (\<lambda>_.
     ebind (hub_required_text 256 (Some (br_user q))) (\<lambda>user.
     ebind (hub_required_text 80 (Some (br_system q))) (\<lambda>system.
     ebind (hub_required_text 200 (Some (br_capability q))) (\<lambda>capability.
     ebind (normalize_items env now 1 [] (br_items q)) (\<lambda>items.
     ebind (select_owned_task (br_task q) user db) (\<lambda>task.
     case batch_of_task (br_task q) db of
       Some old \<Rightarrow> Inr ((batch_snapshot True old db, True), db)
     | None \<Rightarrow>
         ebind (raise_if (list_ex (\<lambda>b. ba_user b = user \<and> ba_system b = system \<and> ba_capability b = capability \<and>
             ba_state b \<in> set active_batch_states) (hub_batches db)) HubIntegrity) (\<lambda>_.
         ebind (raise_if (list_ex (target_taken user system db) items) HubIntegrity) (\<lambda>_.
         store_batch env now task (new_batch env now (uuid env (hub_draws db)) q user system capability items) items db)))))))))))"

definition get_batch_for_task :: "string \<Rightarrow> string \<Rightarrow> bool \<Rightarrow> hub \<Rightarrow> hub_error + batch_snapshot option" where
  "get_batch_for_task task user include_refs db =
     ebind (select_owned_task task user db) (\<lambda>_.
     Inr (map_option (\<lambda>b. batch_snapshot include_refs b db) (batch_of_task task db)))"

section \<open>Running a batch\<close>

definition record_activity ::
  "hub_env \<Rightarrow> time \<Rightarrow> string \<Rightarrow> string option \<Rightarrow> string option \<Rightarrow> task_row \<Rightarrow> batch_row \<Rightarrow> item_row \<Rightarrow> hub \<Rightarrow> batch_snapshot option hub_result" where
  "record_activity env now user operation interaction task batch item db =
     (let waits = filled interaction;
          db1 = set_items (\<lambda>r. bi_id r = bi_id item)
            (\<lambda>r. r\<lparr>bi_state := (if waits then ''waiting_user'' else ''preparing''), bi_operation := or_else operation (bi_operation r),
                   bi_interaction := or_else interaction (bi_interaction r), bi_updated_at := now\<rparr>) db;
          db2 = set_batch (ba_id batch) (\<lambda>b. b\<lparr>ba_state := (if waits then ''waiting_user'' else ''running''),
                   ba_version := ba_version b + 1, ba_updated_at := now\<rparr>) db1
      in ebind (stored_batch (ba_id batch) db2) (\<lambda>refreshed.
         ebind (sync_batch_task_summary now task refreshed (Some (if waits then ''waiting_user'' else ''running''))
                  operation interaction db2) (\<lambda>db3.
         ebind (if bi_state item = ''queued''
                then ebind (append_event env (tk_id task) user ''batch.item.started''
                       [(''batchId'', JStr (ba_id batch)), (''ordinal'', JInt (ba_current batch)), (''totalCount'', JInt (ba_total batch))]
                       (if filled operation then operation else interaction) now db3) (\<lambda>(_, db4). Inr db4)
                else Inr db3) (\<lambda>db4.
         ebind (stored_batch (ba_id batch) db4) (\<lambda>stored. Inr (Some (batch_snapshot True stored db4), db4))))))"

definition record_batch_item_activity ::
  "hub_env \<Rightarrow> time \<Rightarrow> string \<Rightarrow> string \<Rightarrow> string option \<Rightarrow> string option \<Rightarrow> hub \<Rightarrow> batch_snapshot option hub_result" where
  "record_batch_item_activity env now task_id user operation interaction db =
     ebind (select_owned_task task_id user db) (\<lambda>task.
     case batch_of_task task_id db of
       None \<Rightarrow> Inr (None, db)
     | Some batch \<Rightarrow>
         if ba_state batch \<notin> set active_batch_states then Inr (None, db)
         else ebind (current_item batch db) (\<lambda>item.
           if filled operation \<and>
              (case sort_key bi_ordinal (filter (\<lambda>r. bi_batch r = ba_id batch \<and> bi_operation r = operation) (hub_items db)) of
                 [] \<Rightarrow> False | previous # _ \<Rightarrow> bi_ordinal previous \<noteq> bi_ordinal item)
           then Inr (Some (batch_snapshot True batch db), db)
           else record_activity env now user operation interaction task batch item db))"

record item_completion =
  ic_batch :: batch_snapshot
  ic_next :: "item_row option"
  ic_reused :: bool

definition next_queued :: "batch_row \<Rightarrow> hub \<Rightarrow> item_row option" where
  "next_queued batch db =
     (case sort_key bi_ordinal (filter (\<lambda>r. bi_batch r = ba_id batch \<and> ba_current batch < bi_ordinal r \<and> bi_state r = ''queued'')
         (hub_items db)) of [] \<Rightarrow> None | r # _ \<Rightarrow> Some r)"

definition completion_events ::
  "hub_env \<Rightarrow> time \<Rightarrow> string \<Rightarrow> string \<Rightarrow> string \<Rightarrow> batch_row \<Rightarrow> item_row \<Rightarrow> bool \<Rightarrow> hub \<Rightarrow> hub_error + hub" where
  "completion_events env now task user operation batch item terminal db =
     (let count = JInt (ba_succeeded batch + 1) in
      ebind (append_event env task user ''batch.item.succeeded''
        [(''batchId'', JStr (ba_id batch)), (''ordinal'', JInt (bi_ordinal item)), (''totalCount'', JInt (ba_total batch)),
         (''succeededCount'', count)] (Some operation) now db) (\<lambda>(_, db1).
      if \<not> terminal then Inr db1
      else
        ebind (append_event env task user ''batch.completed''
          [(''batchId'', JStr (ba_id batch)), (''status'', JStr ''succeeded''), (''totalCount'', JInt (ba_total batch)),
           (''succeededCount'', count), (''failedCount'', JInt (ba_failed batch)), (''skippedCount'', JInt (ba_skipped batch))]
          (Some operation) now db1) (\<lambda>(_, db2).
        ebind (append_event env task user ''task.completed''
          [(''status'', JStr ''succeeded''), (''reason'', JStr ''batch_completed'')] (Some operation) now db2) (\<lambda>(_, db3). Inr db3))))"

text \<open>The writes of a completed item: the next queued item, if there is one, becomes the current one.\<close>

definition advance_batch ::
  "time \<Rightarrow> string \<Rightarrow> (string \<times> json) list option \<Rightarrow> batch_row \<Rightarrow> item_row \<Rightarrow> hub \<Rightarrow> item_row option \<times> hub" where
  "advance_batch now operation result batch item db =
     (let db1 = set_items (\<lambda>r. bi_id r = bi_id item)
            (\<lambda>r. r\<lparr>bi_state := ''succeeded'', bi_operation := Some operation, bi_result := json_column result, bi_error := None,
                   bi_updated_at := now, bi_finished_at := Some now\<rparr>) db;
          next_item = next_queued batch db1;
          db2 = set_batch (ba_id batch) (\<lambda>b. b\<lparr>ba_state := (if next_item = None then ''succeeded'' else ''running''),
                   ba_current := (case next_item of None \<Rightarrow> ba_current batch | Some r \<Rightarrow> bi_ordinal r),
                   ba_succeeded := ba_succeeded batch + 1, ba_version := ba_version b + 1, ba_updated_at := now,
                   ba_finished_at := (if next_item = None then Some now else None)\<rparr>) db1
      in (next_item,
          case next_item of None \<Rightarrow> db2
          | Some n \<Rightarrow> set_items (\<lambda>r. bi_id r = bi_id n) (\<lambda>r. r\<lparr>bi_state := ''preparing'', bi_updated_at := now\<rparr>) db2))"

definition complete_item ::
  "hub_env \<Rightarrow> time \<Rightarrow> string \<Rightarrow> string \<Rightarrow> (string \<times> json) list option \<Rightarrow> task_row \<Rightarrow> batch_row \<Rightarrow> item_row \<Rightarrow> hub \<Rightarrow> item_completion hub_result" where
  "complete_item env now user operation result task batch item db =
     (let (next_item, db3) = advance_batch now operation result batch item db; terminal = (next_item = None)
      in ebind (stored_batch (ba_id batch) db3) (\<lambda>refreshed.
         ebind (sync_batch_task_summary now task refreshed (Some (if terminal then ''succeeded'' else ''running'')) (Some operation)
                  (if terminal then tk_interaction task else None) db3) (\<lambda>db4.
         ebind (completion_events env now (tk_id task) user operation batch item terminal db4) (\<lambda>db5.
         ebind (stored_batch (ba_id batch) db5) (\<lambda>stored.
         Inr (\<lparr>ic_batch = batch_snapshot True stored db5,
               ic_next = (case next_item of None \<Rightarrow> None | Some n \<Rightarrow> tbl_get bi_id (bi_id n) (hub_items db5)),
               ic_reused = False\<rparr>, db5))))))"

definition batch_of_owned_task :: "string \<Rightarrow> string \<Rightarrow> hub \<Rightarrow> hub_error + batch_row" where
  "batch_of_owned_task task user db =
     (case List.find (\<lambda>b. ba_task b = task \<and> ba_user b = user) (hub_batches db) of None \<Rightarrow> Inl HubNotFound | Some b \<Rightarrow> Inr b)"

definition complete_current_batch_item ::
  "hub_env \<Rightarrow> time \<Rightarrow> string \<Rightarrow> string \<Rightarrow> string \<Rightarrow> int \<Rightarrow> (string \<times> json) list option \<Rightarrow> hub \<Rightarrow> item_completion hub_result" where
  "complete_current_batch_item env now task_id user operation ordinal result db =
     ebind (select_owned_task task_id user db) (\<lambda>task.
     ebind (batch_of_owned_task task_id user db) (\<lambda>batch.
     case find_item (ba_id batch) ordinal db of
       None \<Rightarrow> Inl HubIntegrity
     | Some item \<Rightarrow>
         if bi_state item = ''succeeded''
         then ebind (if ba_state batch \<in> set active_batch_states \<and> ordinal < ba_current batch
                     then ebind (current_item batch db) (\<lambda>n. Inr (Some n)) else Inr None) (\<lambda>n.
              Inr (\<lparr>ic_batch = batch_snapshot True batch db, ic_next = n, ic_reused = True\<rparr>, db))
         else ebind (raise_if (ba_state batch \<notin> set active_batch_states) HubIntegrity) (\<lambda>_.
              ebind (raise_if (ba_current batch \<noteq> ordinal) HubIntegrity) (\<lambda>_.
              complete_item env now user operation result task batch item db))))"

definition fail_item ::
  "hub_env \<Rightarrow> time \<Rightarrow> string \<Rightarrow> string option \<Rightarrow> string \<Rightarrow> string \<Rightarrow> task_row \<Rightarrow> batch_row \<Rightarrow> item_row \<Rightarrow> hub \<Rightarrow> batch_snapshot hub_result" where
  "fail_item env now user operation item_state error_code task batch item db =
     ebind (hub_required_text 120 (Some error_code)) (\<lambda>code.
     let db1 = set_items (\<lambda>r. bi_id r = bi_id item)
           (\<lambda>r. r\<lparr>bi_state := item_state, bi_operation := or_else operation (bi_operation r), bi_error := Some code,
                  bi_updated_at := now, bi_finished_at := Some now\<rparr>) db;
         state = batch_failure_status item_state (ba_succeeded batch);
         db2 = set_batch (ba_id batch) (\<lambda>b. b\<lparr>ba_state := state, ba_failed := ba_failed batch + 1, ba_version := ba_version b + 1,
                  ba_updated_at := now, ba_finished_at := Some now\<rparr>) db1
     in ebind (stored_batch (ba_id batch) db2) (\<lambda>refreshed.
        ebind (sync_batch_task_summary now task refreshed (Some state) operation (tk_interaction task) db2) (\<lambda>db3.
        ebind (append_event env (tk_id task) user
          (''batch.item.'' @ (if item_state = ''outcome_unknown'' then ''outcome_unknown'' else ''failed''))
          [(''batchId'', JStr (ba_id batch)), (''ordinal'', JInt (bi_ordinal item)), (''totalCount'', JInt (ba_total batch)),
           (''errorCode'', JStr error_code)] operation now db3) (\<lambda>(_, db4).
        ebind (append_event env (tk_id task) user ''batch.completed''
          [(''batchId'', JStr (ba_id batch)), (''status'', JStr state), (''totalCount'', JInt (ba_total batch)),
           (''succeededCount'', JInt (ba_succeeded batch)), (''failedCount'', JInt (ba_failed batch + 1)),
           (''skippedCount'', JInt (ba_skipped batch)), (''errorCode'', JStr error_code)] operation now db4) (\<lambda>(_, db5).
        ebind (stored_batch (ba_id batch) db5) (\<lambda>stored. Inr (batch_snapshot True stored db5, db5)))))))"

definition fail_current_batch_item ::
  "hub_env \<Rightarrow> time \<Rightarrow> string \<Rightarrow> string \<Rightarrow> string option \<Rightarrow> int \<Rightarrow> string \<Rightarrow> string \<Rightarrow> hub \<Rightarrow> batch_snapshot hub_result" where
  "fail_current_batch_item env now task_id user operation ordinal item_state error_code db =
     ebind (raise_if (item_state \<notin> {''failed'', ''outcome_unknown'', ''canceled'', ''expired'', ''superseded''}) HubValueError) (\<lambda>_.
     ebind (select_owned_task task_id user db) (\<lambda>task.
     ebind (batch_of_owned_task task_id user db) (\<lambda>batch.
     if ba_state batch \<notin> set active_batch_states then Inr (batch_snapshot True batch db, db)
     else case find_item (ba_id batch) ordinal db of
       None \<Rightarrow> Inl HubIntegrity
     | Some item \<Rightarrow>
         if ba_current batch \<noteq> ordinal
         then (if bi_state item \<notin> {''queued'', ''preparing'', ''waiting_user''} then Inr (batch_snapshot True batch db, db)
               else Inl HubIntegrity)
         else fail_item env now user operation item_state error_code task batch item db)))"

section \<open>Cancelling a task with its batch\<close>

definition cancel_batch :: "time \<Rightarrow> task_row \<Rightarrow> string \<Rightarrow> batch_row \<Rightarrow> hub \<Rightarrow> hub_error + hub" where
  "cancel_batch now task user batch db =
     (let db1 = set_items (\<lambda>r. bi_batch r = ba_id batch \<and> bi_state r \<in> {''queued'', ''preparing'', ''waiting_user''})
            (\<lambda>r. r\<lparr>bi_state := ''canceled'', bi_updated_at := now, bi_finished_at := Some now\<rparr>) db;
          db2 = set_batch (ba_id batch) (\<lambda>b. b\<lparr>ba_state := ''canceled'', ba_version := ba_version b + 1, ba_updated_at := now,
                   ba_finished_at := Some now\<rparr>) db1
      in ebind (batch_of_owned_task (tk_id task) user db2) (\<lambda>refreshed.
         sync_batch_task_summary now task refreshed (Some ''canceled'') (tk_operation task) (tk_interaction task) db2))"

definition cancel_task :: "hub_env \<Rightarrow> time \<Rightarrow> string \<Rightarrow> string \<Rightarrow> string \<Rightarrow> string option \<Rightarrow> hub \<Rightarrow> task_row hub_result" where
  "cancel_task env now task_id user reason cause db =
     ebind (hub_required_text 120 (Some reason)) (\<lambda>reason.
     ebind (select_owned_task task_id user db) (\<lambda>task.
     case terminal_transition (tk_status task) ''canceled'' of
       Reuse \<Rightarrow> Inr (task, db)
     | Reject \<Rightarrow> Inl HubIntegrity
     | Apply \<Rightarrow>
         ebind (subscribe_companions env task_id user now db) (\<lambda>db1.
         ebind (update_task_state task_id ''canceled'' (tk_operation task) (tk_interaction task) now db1) (\<lambda>db2.
         ebind (case List.find (\<lambda>b. ba_task b = task_id \<and> ba_user b = user) (hub_batches db2) of
                  None \<Rightarrow> Inr db2
                | Some batch \<Rightarrow> if ba_state batch \<in> set active_batch_states then cancel_batch now task user batch db2 else Inr db2) (\<lambda>db3.
         ebind (append_event env task_id user ''task.canceled'' [(''status'', JStr ''canceled''), (''reason'', JStr reason)] cause now db3) (\<lambda>(_, db4).
         ebind (select_task task_id db4) (\<lambda>r. Inr (r, db4))))))))"

end
