(* ===== verification/TaskRuns.thy ===== *)
theory TaskRuns
  imports Ledger TaskDeliveries TaskBatches
begin

text \<open>
  The ledger of tasks as a transition system, a calculus for the course of its operations, and the invariant of what is communicated:
  every notification belongs to the user of its endpoint, its task and its message.
\<close>

section \<open>The ledger as a transition system\<close>

datatype hub_op =
    HubEndpoint time endpoint_request
  | HubTouch time string string
  | HubTask time task_request
  | HubLinkOperation time string string operation_info
  | HubLinkPlanOperation time string string operation_info string string
  | HubPlanEvent time string string string "(string \<times> json) list" "string option"
  | HubAnalysis string time string string string string
  | HubLinkInteraction time string string interaction_info
  | HubComplete time string string string "string option"
  | HubFail time string string string string "string option"
  | HubUnknown time string string string "string option"
  | HubCancel time string string string "string option"
  | HubMessage time message_request
  | HubClaim hub time time string string int int
  | HubAcknowledge time time string string string bool int bool
  | HubReactivate time time string string int
  | HubRequeue time string
  | HubArchive time string
  | HubStartup time
  | HubBatch time batch_request
  | HubActivity time string string "string option" "string option"
  | HubItemDone time string string string int "(string \<times> json) list option"
  | HubItemFailed time string string "string option" int string string

datatype hub_out = OutUnit | OutEndpoint endpoint_row | OutTask task_row | OutMessage timeline_row bool
  | OutDeliveries "delivery_row list" | OutDelivery delivery_row | OutBatch "batch_snapshot option" | OutItem item_completion

definition hub_wrap :: "('a \<Rightarrow> hub_out) \<Rightarrow> 'a hub_result \<Rightarrow> hub_out hub_result" where
  "hub_wrap f out = (case out of Inl e \<Rightarrow> Inl e | Inr (a, db) \<Rightarrow> Inr (f a, db))"

text \<open>
  What an analysis phase has seen of its task before the transaction: the status at that moment. The task and its owner were the
  same, as no operation removes a task or changes its owner.
\<close>

definition task_seen_as :: "string \<Rightarrow> string \<Rightarrow> hub \<Rightarrow> hub" where
  "task_seen_as t status db = db\<lparr>hub_tasks := tbl_update (\<lambda>r. tk_id r = t) (\<lambda>r. r\<lparr>tk_status := status\<rparr>) (hub_tasks db)\<rparr>"

fun hub_exec :: "hub_env \<Rightarrow> hub_op \<Rightarrow> hub \<Rightarrow> hub_out hub_result" where
  "hub_exec env (HubEndpoint now q) db = hub_wrap (OutEndpoint \<circ> fst) (ensure_endpoint env now q db)"
| "hub_exec env (HubTouch now i u) db = hub_wrap OutEndpoint (touch_endpoint now i u db)"
| "hub_exec env (HubTask now q) db = hub_wrap (OutTask \<circ> fst) (ensure_task env now q db)"
| "hub_exec env (HubLinkOperation now t u info) db = hub_wrap OutTask (link_operation env now t u info db)"
| "hub_exec env (HubLinkPlanOperation now t u info p s) db = hub_wrap OutTask (link_plan_operation env now t u info p s db)"
| "hub_exec env (HubPlanEvent now t u ty payload c) db = hub_wrap OutTask (record_plan_event env now t u ty payload c db)"
| "hub_exec env (HubAnalysis seen now t u phase r) db =
     hub_wrap (\<lambda>_. OutUnit) (record_analysis_phase env (task_seen_as t seen db) now t u phase r db)"
| "hub_exec env (HubLinkInteraction now t u info) db = hub_wrap OutTask (link_interaction env now t u info db)"
| "hub_exec env (HubComplete now t u reason c) db = hub_wrap OutTask (complete_task env now t u reason c db)"
| "hub_exec env (HubFail now t u code message c) db = hub_wrap OutTask (fail_task env now t u code message c db)"
| "hub_exec env (HubUnknown now t u code c) db = hub_wrap OutTask (mark_task_outcome_unknown env now t u code c db)"
| "hub_exec env (HubCancel now t u reason c) db = hub_wrap OutTask (cancel_task env now t u reason c db)"
| "hub_exec env (HubMessage now q) db = hub_wrap (\<lambda>(r, reused). OutMessage r reused) (append_message env now q db)"
| "hub_exec env (HubClaim seen now now2 u e limit lease) db = hub_wrap OutDeliveries (claim_outbox seen now now2 u e limit lease db)"
| "hub_exec env (HubAcknowledge now now2 u e i ok retry defer) db =
     hub_wrap OutDelivery (acknowledge_outbox now now2 u e i ok retry defer db)"
| "hub_exec env (HubReactivate now now2 u e delay) db = hub_wrap (\<lambda>_. OutUnit) (reactivate_deferred_outbox now now2 u e delay db)"
| "hub_exec env (HubRequeue now i) db = hub_wrap OutDelivery (requeue_delivery now i db)"
| "hub_exec env (HubArchive now i) db = hub_wrap OutDelivery (archive_delivery now i db)"
| "hub_exec env (HubStartup now) db = Inr (OutUnit, reconcile_pull_based now (backfill_observations db))"
| "hub_exec env (HubBatch now q) db = hub_wrap (\<lambda>(s, _). OutBatch (Some s)) (create_batch env now q db)"
| "hub_exec env (HubActivity now t u operation interaction) db =
     hub_wrap OutBatch (record_batch_item_activity env now t u operation interaction db)"
| "hub_exec env (HubItemDone now t u operation n result) db =
     hub_wrap OutItem (complete_current_batch_item env now t u operation n result db)"
| "hub_exec env (HubItemFailed now t u operation n s code) db =
     hub_wrap (OutBatch \<circ> Some) (fail_current_batch_item env now t u operation n s code db)"

lemma hub_wrap_Inr [outcome_simps]: "hub_wrap f out = Inr (x, db') \<longleftrightarrow> (\<exists>a. out = Inr (a, db') \<and> x = f a)"
  by (cases out) (auto simp: hub_wrap_def)

section \<open>Owners, and the soundness of what is communicated\<close>

definition ep_owner :: "hub \<Rightarrow> string \<Rightarrow> string option" where
  "ep_owner db i = map_option ep_user (tbl_get ep_id i (hub_endpoints db))"

definition tk_owner :: "hub \<Rightarrow> string \<Rightarrow> string option" where
  "tk_owner db i = map_option tk_user (tbl_get tk_id i (hub_tasks db))"

definition hub_status :: "hub \<Rightarrow> string \<Rightarrow> string option" where
  "hub_status db i = map_option tk_status (tbl_get tk_id i (hub_tasks db))"

text \<open>A delivery goes to an endpoint of its user and carries an event of a task, or a message, of that user.\<close>

definition delivery_ok :: "hub \<Rightarrow> delivery_row \<Rightarrow> bool" where
  "delivery_ok db r \<longleftrightarrow> ep_owner db (dl_endpoint r) = Some (dl_user r) \<and> 0 \<le> dl_attempts r \<and> dl_attempts r \<le> 5 \<and>
     (if dl_type r = ''task_event''
      then tk_owner db (dl_task r) = Some (dl_user r) \<and>
           (\<exists>e \<in> set (hub_events db). ev_id e = dl_event r \<and> ev_user e = dl_user r \<and> ev_task e = dl_task r)
      else \<exists>m \<in> set (hub_timeline db). tl_id m = dl_event r \<and> tl_user m = dl_user r \<and> tl_type m = ''chat_message'')"

definition timeline_ok :: "timeline_row list \<Rightarrow> bool" where
  "timeline_ok rows \<longleftrightarrow> distinct (map tl_id rows) \<and> distinct (map (\<lambda>r. (tl_user r, tl_dedupe r)) rows) \<and>
     (\<forall>r \<in> set rows. prefix ''message:'' (tl_dedupe r) \<longrightarrow> tl_type r = ''chat_message'')"

definition delivery_key :: "delivery_row \<Rightarrow> string \<times> string \<times> string" where
  "delivery_key r = (dl_event r, dl_endpoint r, dl_type r)"

definition comms_ok :: "hub \<Rightarrow> bool" where
  "comms_ok db \<longleftrightarrow> distinct (map ep_id (hub_endpoints db)) \<and> distinct (map tk_id (hub_tasks db)) \<and>
     distinct (map dl_id (hub_outbox db)) \<and> distinct (map delivery_key (hub_outbox db)) \<and> timeline_ok (hub_timeline db) \<and>
     (\<forall>s \<in> set (hub_subscriptions db). ep_owner db (su_endpoint s) = Some (su_user s)) \<and>
     (\<forall>r \<in> set (hub_outbox db). delivery_ok db r)"

text \<open>
  What almost every operation may do, when it is about one task: endpoints, tasks and their owners stay, the timeline and the outbox
  only grow, no other task changes its status.
\<close>

definition posts :: "hub \<Rightarrow> hub \<Rightarrow> bool" where
  "posts db db' \<longleftrightarrow> (\<exists>new. hub_outbox db' = hub_outbox db @ new \<and> (\<forall>r \<in> set new. dl_state r = Pending \<and> dl_attempts r = 0))"

definition owners_stay :: "hub \<Rightarrow> hub \<Rightarrow> bool" where
  "owners_stay db db' \<longleftrightarrow> ep_owner db \<subseteq>\<^sub>m ep_owner db' \<and> tk_owner db \<subseteq>\<^sub>m tk_owner db'"

lemma owner_cong:
  "hub_endpoints db' = hub_endpoints db \<Longrightarrow> ep_owner db' = ep_owner db"
  "hub_tasks db' = hub_tasks db \<Longrightarrow> tk_owner db' = tk_owner db"
  by (simp_all add: ep_owner_def tk_owner_def fun_eq_iff)

definition talks :: "string \<Rightarrow> string \<Rightarrow> hub \<Rightarrow> hub \<Rightarrow> bool" where
  "talks t u db db' \<longleftrightarrow> owners_stay db db' \<and> prefix (hub_timeline db) (hub_timeline db') \<and> posts db db' \<and>
     (\<forall>i s. i \<noteq> t \<longrightarrow> hub_status db i = Some s \<longrightarrow> hub_status db' i = Some s) \<and>
     (comms_ok db \<longrightarrow> tk_owner db t = Some u \<longrightarrow> comms_ok db')"

lemma posts_refl [simp]: "hub_outbox db' = hub_outbox db \<Longrightarrow> posts db db'"
  by (simp add: posts_def)

lemma posts_trans: "posts a b \<Longrightarrow> posts b c \<Longrightarrow> posts a c"
  unfolding posts_def by (metis (no_types, lifting) Un_iff append.assoc set_append)

lemma owners_stay_refl [simp]: "hub_endpoints db' = hub_endpoints db \<Longrightarrow> hub_tasks db' = hub_tasks db \<Longrightarrow> owners_stay db db'"
  unfolding owners_stay_def by (drule owner_cong(1), drule owner_cong(2)) simp

lemma owners_stay_trans: "owners_stay a b \<Longrightarrow> owners_stay b c \<Longrightarrow> owners_stay a c"
  by (auto simp: owners_stay_def intro: map_le_trans)

lemma owners_stayD:
  "owners_stay db db' \<Longrightarrow> ep_owner db i = Some u \<Longrightarrow> ep_owner db' i = Some u"
  "owners_stay db db' \<Longrightarrow> tk_owner db j = Some v \<Longrightarrow> tk_owner db' j = Some v"
  by (auto simp: owners_stay_def map_le_def dom_def)

lemma talks_refl [simp]: "talks t u db db"
  by (simp add: talks_def)

lemma talks_trans: "talks t u a b \<Longrightarrow> talks t u b c \<Longrightarrow> talks t u a c"
  unfolding talks_def by (meson owners_stay_trans owners_stayD(2) posts_trans prefix_order.trans)

lemma delivery_ok_mono:
  assumes "delivery_ok db r" and "owners_stay db db'" and "set (hub_events db) \<subseteq> set (hub_events db')"
    and "set (hub_timeline db) \<subseteq> set (hub_timeline db')"
  shows "delivery_ok db' r"
  using assms unfolding delivery_ok_def by (auto dest: owners_stayD split: if_splits)

text \<open>Changing tables that carry no communication.\<close>

lemma talks_frame:
  assumes "hub_endpoints db' = hub_endpoints db" "hub_tasks db' = hub_tasks db" "hub_outbox db' = hub_outbox db"
    "hub_timeline db' = hub_timeline db" "hub_subscriptions db' = hub_subscriptions db" "hub_events db' = hub_events db"
  shows "talks t u db db'"
proof -
  have "ep_owner db' = ep_owner db" "tk_owner db' = tk_owner db" using assms by (simp_all add: ep_owner_def tk_owner_def fun_eq_iff)
  then have "comms_ok db' = comms_ok db" using assms by (simp add: comms_ok_def delivery_ok_def)
  then show ?thesis using assms by (simp add: talks_def hub_status_def)
qed

lemma tk_owner_update [simp]:
  "(\<And>t. tk_id (f t) = tk_id t) \<Longrightarrow> (\<And>t. tk_user (f t) = tk_user t) \<Longrightarrow>
   tk_owner (db\<lparr>hub_tasks := tbl_update P f (hub_tasks db)\<rparr>) = tk_owner db"
  by (rule ext) (simp add: tk_owner_def table_simps option.map_comp comp_def if_distrib[of tk_user] cong: if_cong)

lemma comms_ok_tasks:
  assumes "comms_ok db" and "hub_endpoints db' = hub_endpoints db" "hub_outbox db' = hub_outbox db"
    "hub_timeline db' = hub_timeline db" "hub_subscriptions db' = hub_subscriptions db" "hub_events db' = hub_events db"
    and "map tk_id (hub_tasks db') = map tk_id (hub_tasks db)" and "tk_owner db' = tk_owner db"
  shows "comms_ok db'"
proof -
  have "ep_owner db' = ep_owner db" using assms by (simp add: ep_owner_def fun_eq_iff)
  then show ?thesis using assms by (simp add: comms_ok_def delivery_ok_def)
qed

lemma talks_task_update:
  assumes f: "\<And>r. tk_id (f r) = tk_id r" "\<And>r. tk_user (f r) = tk_user r"
  shows "talks t u db (db\<lparr>hub_tasks := tbl_update (\<lambda>r. tk_id r = t) f (hub_tasks db)\<rparr>)"
proof -
  have "comms_ok db \<Longrightarrow> comms_ok (db\<lparr>hub_tasks := tbl_update (\<lambda>r. tk_id r = t) f (hub_tasks db)\<rparr>)"
    by (erule comms_ok_tasks) (simp_all add: f keys_tbl_update)
  moreover have "hub_status (db\<lparr>hub_tasks := tbl_update (\<lambda>r. tk_id r = t) f (hub_tasks db)\<rparr>) i = Some s"
    if "i \<noteq> t" "hub_status db i = Some s" for i s
    using that by (cases "tbl_get tk_id i (hub_tasks db)") (auto simp: hub_status_def table_simps f dest: tbl_get_mem)
  moreover have "owners_stay db (db\<lparr>hub_tasks := tbl_update (\<lambda>r. tk_id r = t) f (hub_tasks db)\<rparr>)"
    using f by (simp add: owners_stay_def map_le_def ep_owner_def)
  ultimately show ?thesis by (simp add: talks_def)
qed

lemma update_task_state_talks: "update_task_state t s o' i now db = Inr db' \<Longrightarrow> talks t u db db'"
  by (auto simp: update_task_state_def intro!: talks_task_update split: sum.splits)

lemma set_summary_talks: "talks t u db (set_summary t summary db)"
  unfolding set_summary_def by (rule talks_task_update) simp_all

section \<open>Notifying\<close>

text \<open>A delivery of something that is stored is sound.\<close>

definition carries :: "hub \<Rightarrow> string \<Rightarrow> string \<Rightarrow> string \<Rightarrow> string \<Rightarrow> bool" where
  "carries db ty event task user \<longleftrightarrow>
     (if ty = ''task_event''
      then tk_owner db task = Some user \<and> (\<exists>e \<in> set (hub_events db). ev_id e = event \<and> ev_user e = user \<and> ev_task e = task)
      else \<exists>m \<in> set (hub_timeline db). tl_id m = event \<and> tl_user m = user \<and> tl_type m = ''chat_message'')"

definition only_outbox :: "hub \<Rightarrow> hub \<Rightarrow> bool" where
  "only_outbox db db' \<longleftrightarrow> posts db db' \<and> hub_endpoints db' = hub_endpoints db \<and> hub_tasks db' = hub_tasks db \<and>
     hub_timeline db' = hub_timeline db \<and> hub_events db' = hub_events db \<and> hub_subscriptions db' = hub_subscriptions db \<and>
     hub_batches db' = hub_batches db \<and> hub_items db' = hub_items db"

lemma only_outbox_same:
  assumes "only_outbox db db'"
  shows "hub_endpoints db' = hub_endpoints db" "hub_tasks db' = hub_tasks db" "hub_timeline db' = hub_timeline db"
    "hub_events db' = hub_events db" "hub_subscriptions db' = hub_subscriptions db" "hub_batches db' = hub_batches db"
    "hub_items db' = hub_items db" "ep_owner db' = ep_owner db" "tk_owner db' = tk_owner db"
  using assms owner_cong[of db' db] by (auto simp: only_outbox_def)

lemma only_outbox_carries: "only_outbox db db' \<Longrightarrow> carries db' = carries db"
  by (simp add: carries_def only_outbox_same fun_eq_iff)

lemma only_outbox_trans: "only_outbox a b \<Longrightarrow> only_outbox b c \<Longrightarrow> only_outbox a c"
  unfolding only_outbox_def using posts_trans[of a b c] by presburger

lemma only_outbox_talks:
  "only_outbox db db' \<Longrightarrow> (comms_ok db \<Longrightarrow> tk_owner db t = Some u \<Longrightarrow> comms_ok db') \<Longrightarrow> talks t u db db'"
  unfolding only_outbox_def talks_def hub_status_def by simp

lemma notify_only: "only_outbox db (notify env ty event task user payload now e db)"
  by (auto simp: only_outbox_def posts_def notify_def insert_delivery_def new_delivery_def)

lemma notify_all_only: "only_outbox db (fold (notify env ty event task user payload now) es db)"
proof (induction es arbitrary: db)
  case (Cons e es)
  show ?case using only_outbox_trans[OF notify_only Cons.IH] by simp
qed (simp add: only_outbox_def)

lemma notify_comms:
  assumes "comms_ok db" and "ep_owner db e = Some user" and "carries db ty event task user"
  shows "comms_ok (notify env ty event task user payload now e db)"
proof -
  let ?r = "new_delivery (uuid env (hub_draws db)) event task e user ty payload now"
  let ?db' = "notify env ty event task user payload now e db"
  note same = only_outbox_same[OF notify_only[where db = db and env = env and ty = ty and event = event and task = task and user = user and payload = payload and now = now and e = e]]
  have ok: "delivery_ok ?db' = delivery_ok db" unfolding delivery_ok_def same ..
  have new: "delivery_ok db ?r"
    using assms by (auto simp: delivery_ok_def carries_def new_delivery_def)
  have ob: "hub_outbox ?db' = hub_outbox db \<or> hub_outbox ?db' = hub_outbox db @ [?r] \<and>
      dl_id ?r \<notin> set (map dl_id (hub_outbox db)) \<and> delivery_key ?r \<notin> set (map delivery_key (hub_outbox db))"
    by (auto simp: notify_def insert_delivery_def list_ex_iff delivery_key_def)
  show ?thesis using assms(1) ok new ob unfolding comms_ok_def same by auto
qed

lemma notify_all_comms:
  "comms_ok db \<Longrightarrow> \<forall>e \<in> set es. ep_owner db e = Some user \<Longrightarrow> carries db ty event task user \<Longrightarrow>
   comms_ok (fold (notify env ty event task user payload now) es db)"
proof (induction es arbitrary: db)
  case (Cons e es)
  note same = only_outbox_same(8)[OF notify_only] only_outbox_carries[OF notify_only]
  show ?case using Cons.IH[OF notify_comms[OF Cons.prems(1)]] Cons.prems(2,3) by (simp add: same)
qed simp

definition same_batches :: "hub \<Rightarrow> hub \<Rightarrow> bool" where
  "same_batches db db' \<longleftrightarrow> hub_batches db' = hub_batches db \<and> hub_items db' = hub_items db"

lemma same_batches_refl [simp]: "same_batches db db"
  by (simp add: same_batches_def)

lemma same_batches_trans: "same_batches a b \<Longrightarrow> same_batches b c \<Longrightarrow> same_batches a c"
  by (simp add: same_batches_def)

lemma comms_ok_grow:
  assumes "comms_ok db" and "hub_endpoints db' = hub_endpoints db" "hub_tasks db' = hub_tasks db" "hub_outbox db' = hub_outbox db"
    "hub_subscriptions db' = hub_subscriptions db" and "timeline_ok (hub_timeline db')"
    and "set (hub_events db) \<subseteq> set (hub_events db')" "set (hub_timeline db) \<subseteq> set (hub_timeline db')"
  shows "comms_ok db'"
proof -
  have "owners_stay db db'" using assms by simp
  then have "\<forall>r \<in> set (hub_outbox db). delivery_ok db' r"
    using assms by (auto simp: comms_ok_def intro: delivery_ok_mono)
  moreover have "ep_owner db' = ep_owner db" by (rule owner_cong(1)) (rule assms)
  ultimately show ?thesis using assms by (simp add: comms_ok_def)
qed

lemma insert_timeline_Some:
  assumes "insert_timeline r db = Some db'"
  obtains n where "db' = db\<lparr>hub_timeline := hub_timeline db @ [r\<lparr>tl_sequence := n\<rparr>]\<rparr>"
    "tl_id r \<notin> set (map tl_id (hub_timeline db))" "(tl_user r, tl_dedupe r) \<notin> set (map (\<lambda>r. (tl_user r, tl_dedupe r)) (hub_timeline db))"
  using assms that by (force simp: insert_timeline_def list_ex_iff split: if_splits)

lemma timeline_ok_append:
  "timeline_ok rows \<Longrightarrow> tl_id r \<notin> set (map tl_id rows) \<Longrightarrow> (tl_user r, tl_dedupe r) \<notin> set (map (\<lambda>r. (tl_user r, tl_dedupe r)) rows) \<Longrightarrow>
   (prefix ''message:'' (tl_dedupe r) \<Longrightarrow> tl_type r = ''chat_message'') \<Longrightarrow> timeline_ok (rows @ [r\<lparr>tl_sequence := n\<rparr>])"
  by (auto simp: timeline_ok_def)

lemma append_event_cases:
  assumes "append_event env t u ty payload c now db = Inr (e, db')"
  obtains rest content db2 where
    "hub_events db2 = hub_events db @ [\<lparr>ev_id = e, ev_task = t, ev_user = u, ev_type = ty, ev_payload = canon (JDict payload), ev_cause = c, ev_created_at = now\<rparr>]"
    "hub_timeline db2 = hub_timeline db @ rest" "timeline_ok (hub_timeline db) \<longrightarrow> timeline_ok (hub_timeline db2)"
    "hub_endpoints db2 = hub_endpoints db" "hub_tasks db2 = hub_tasks db" "hub_outbox db2 = hub_outbox db"
    "hub_subscriptions db2 = hub_subscriptions db" "hub_batches db2 = hub_batches db" "hub_items db2 = hub_items db"
    "db' = fold (notify env ''task_event'' e t u content now) (subscribers t u ty db2) db2"
proof -
  let ?ev = "\<lparr>ev_id = e, ev_task = t, ev_user = u, ev_type = ty, ev_payload = canon (JDict payload), ev_cause = c, ev_created_at = now\<rparr>"
  let ?db1 = "db\<lparr>hub_events := hub_events db @ [?ev], hub_draws := Suc (hub_draws db)\<rparr>"
  let ?r = "event_entry e t u ty payload now"
  let ?db2 = "case insert_timeline ?r ?db1 of None \<Rightarrow> ?db1 | Some db' \<Rightarrow> db'"
  let ?content = "event_notice e t ty payload"
  have db': "db' = fold (notify env ''task_event'' e t u ?content now) (subscribers t u ty ?db2) ?db2"
    using assms by (auto simp: append_event_def Let_def table_simps split: option.splits)
  show thesis
  proof (cases "insert_timeline ?r ?db1")
    case None
    show thesis by (rule that[of ?db1 "[]" ?content]) (simp_all add: db' None del: canon.simps)
  next
    case (Some x)
    then obtain n where n: "x = ?db1\<lparr>hub_timeline := hub_timeline ?db1 @ [?r\<lparr>tl_sequence := n\<rparr>]\<rparr>"
      "tl_id ?r \<notin> set (map tl_id (hub_timeline ?db1))"
      "(tl_user ?r, tl_dedupe ?r) \<notin> set (map (\<lambda>r. (tl_user r, tl_dedupe r)) (hub_timeline ?db1))"
      by (rule insert_timeline_Some)
    have "timeline_ok (hub_timeline db) \<Longrightarrow> timeline_ok (hub_timeline db @ [?r\<lparr>tl_sequence := n\<rparr>])"
      by (rule timeline_ok_append) (use n(2,3) in \<open>simp_all add: event_entry_def\<close>)
    then show thesis by (intro that[of x "[?r\<lparr>tl_sequence := n\<rparr>]" ?content]) (simp_all add: db' Some n(1) del: canon.simps)
  qed
qed

lemma append_event_talks:
  assumes "append_event env t u ty payload c now db = Inr (e, db')"
  shows "talks t u db db'" "same_batches db db'" "hub_tasks db' = hub_tasks db"
proof -
  from assms obtain rest content db2 where
    ev: "hub_events db2 = hub_events db @ [\<lparr>ev_id = e, ev_task = t, ev_user = u, ev_type = ty, ev_payload = canon (JDict payload), ev_cause = c, ev_created_at = now\<rparr>]"
    and tl: "hub_timeline db2 = hub_timeline db @ rest" "timeline_ok (hub_timeline db) \<longrightarrow> timeline_ok (hub_timeline db2)"
    and same: "hub_endpoints db2 = hub_endpoints db" "hub_tasks db2 = hub_tasks db" "hub_outbox db2 = hub_outbox db"
    "hub_subscriptions db2 = hub_subscriptions db" "hub_batches db2 = hub_batches db" "hub_items db2 = hub_items db"
    and db': "db' = fold (notify env ''task_event'' e t u content now) (subscribers t u ty db2) db2"
    by (rule append_event_cases)
  note owners = owner_cong(1)[OF same(1)] owner_cong(2)[OF same(2)]
  have ok2: "comms_ok db2" if "comms_ok db"
    by (rule comms_ok_grow[OF that]) (use that tl ev same in \<open>auto simp: comms_ok_def\<close>)
  have ok: "comms_ok db'" if "comms_ok db" "tk_owner db t = Some u"
    unfolding db'
  proof (rule notify_all_comms[OF ok2[OF that(1)]])
    show "\<forall>i \<in> set (subscribers t u ty db2). ep_owner db2 i = Some u"
      using ok2[OF that(1)] by (auto simp: subscribers_def comms_ok_def)
    show "carries db2 ''task_event'' e t u"
      using that(2) owners ev by (auto simp: carries_def)
  qed
  have only: "only_outbox db2 db'" unfolding db' by (rule notify_all_only)
  then show "talks t u db db'" "same_batches db db'" "hub_tasks db' = hub_tasks db"
    using ok owners same tl(1) unfolding talks_def same_batches_def only_outbox_def
    by (simp_all add: hub_status_def posts_def)
qed

section \<open>Subscribing\<close>

definition only_subscriptions :: "hub \<Rightarrow> hub \<Rightarrow> bool" where
  "only_subscriptions db db' \<longleftrightarrow> hub_endpoints db' = hub_endpoints db \<and> hub_tasks db' = hub_tasks db \<and>
     hub_timeline db' = hub_timeline db \<and> hub_events db' = hub_events db \<and> hub_outbox db' = hub_outbox db \<and>
     hub_batches db' = hub_batches db \<and> hub_items db' = hub_items db"

lemma only_subscriptions_trans: "only_subscriptions a b \<Longrightarrow> only_subscriptions b c \<Longrightarrow> only_subscriptions a c"
  by (simp add: only_subscriptions_def)

lemma only_subscriptions_talks:
  "only_subscriptions db db' \<Longrightarrow> (comms_ok db \<Longrightarrow> tk_owner db t = Some u \<Longrightarrow> comms_ok db') \<Longrightarrow> talks t u db db'"
  unfolding only_subscriptions_def talks_def hub_status_def by simp

lemma only_subscriptions_batches: "only_subscriptions db db' \<Longrightarrow> same_batches db db'"
  by (simp add: only_subscriptions_def same_batches_def)

lemma only_subscriptions_comms:
  assumes "only_subscriptions db db'" and "comms_ok db"
    and "\<forall>s \<in> set (hub_subscriptions db'). ep_owner db (su_endpoint s) = Some (su_user s)"
  shows "comms_ok db'"
proof -
  have "ep_owner db' = ep_owner db" "tk_owner db' = tk_owner db"
    by (rule owner_cong, use assms(1) in \<open>simp add: only_subscriptions_def\<close>)+
  then show ?thesis using assms by (simp add: comms_ok_def delivery_ok_def only_subscriptions_def)
qed

lemma upsert_subscription_only: "upsert_subscription r db = Inr db' \<Longrightarrow> only_subscriptions db db'"
  by (auto simp: upsert_subscription_def only_subscriptions_def Let_def split: if_splits)

lemma insert_subscription_only: "insert_subscription r db = Inr db' \<Longrightarrow> only_subscriptions db db'"
  by (auto simp: insert_subscription_def only_subscriptions_def split: if_splits)

lemma upsert_subscription_comms:
  assumes "upsert_subscription r db = Inr db'" and "comms_ok db" and "ep_owner db (su_endpoint r) = Some (su_user r)"
  shows "comms_ok db'"
proof (rule only_subscriptions_comms[OF upsert_subscription_only[OF assms(1)] assms(2)])
  have "\<forall>s \<in> set (hub_subscriptions db). ep_owner db (su_endpoint s) = Some (su_user s)" using assms(2) by (simp add: comms_ok_def)
  moreover from this have "su_user x = su_user r" if "x \<in> set (hub_subscriptions db)" "su_endpoint x = su_endpoint r" for x
    using that assms(3) by fastforce
  ultimately show "\<forall>s \<in> set (hub_subscriptions db'). ep_owner db (su_endpoint s) = Some (su_user s)"
    using assms(1,3) by (auto simp: upsert_subscription_def Let_def table_simps split: if_splits)
qed

lemma insert_subscription_comms:
  assumes "insert_subscription r db = Inr db'" and "comms_ok db" and "ep_owner db (su_endpoint r) = Some (su_user r)"
  shows "comms_ok db'"
  by (rule only_subscriptions_comms[OF insert_subscription_only[OF assms(1)] assms(2)])
    (use assms in \<open>auto simp: insert_subscription_def comms_ok_def split: if_splits\<close>)

lemma ep_owner_row: "comms_ok db \<Longrightarrow> e \<in> set (hub_endpoints db) \<Longrightarrow> ep_owner db (ep_id e) = Some (ep_user e)"
  using tbl_get_eqI[of ep_id "hub_endpoints db" e "ep_id e"] by (simp add: ep_owner_def comms_ok_def)

lemma draws_comms [simp]: "comms_ok (db\<lparr>hub_draws := n\<rparr>) = comms_ok db" "ep_owner (db\<lparr>hub_draws := n\<rparr>) = ep_owner db"
  "tk_owner (db\<lparr>hub_draws := n\<rparr>) = tk_owner db"
  by (simp_all add: comms_ok_def delivery_ok_def ep_owner_def tk_owner_def fun_eq_iff)

lemma subscribe_companions_only:
  assumes "subscribe_companions env t u now db = Inr db'"
  shows "only_subscriptions db db'"
  by (rule foldE_invariant[OF assms[unfolded subscribe_companions_def], where P = "only_subscriptions db"])
    (auto simp: only_subscriptions_def dest: upsert_subscription_only)

lemma subscribe_companions_comms:
  assumes e: "subscribe_companions env t u now db = Inr db'" and ok: "comms_ok db"
  shows "comms_ok db'"
proof -
  have "comms_ok db' \<and> hub_endpoints db' = hub_endpoints db"
  proof (rule foldE_invariant[OF e[unfolded subscribe_companions_def], where P = "\<lambda>x. comms_ok x \<and> hub_endpoints x = hub_endpoints db"])
    fix c a b
    assume c: "c \<in> set (companions u db)" and a: "comms_ok a \<and> hub_endpoints a = hub_endpoints db"
      and up: "upsert_subscription (new_subscription (uuid env (hub_draws a)) t (ep_id c) u companion_filters now)
        (a\<lparr>hub_draws := Suc (hub_draws a)\<rparr>) = Inr b"
    have "ep_owner a (ep_id c) = Some u" using c ep_owner_row[of a c] a by (simp add: companions_def)
    then have "comms_ok b" by (intro upsert_subscription_comms[OF up]) (use a in \<open>auto simp: new_subscription_def\<close>)
    then show "comms_ok b \<and> hub_endpoints b = hub_endpoints db"
      using upsert_subscription_only[OF up] a by (simp add: only_subscriptions_def)
  qed (use ok in simp)
  then show ?thesis by simp
qed

lemma subscribe_companions_talks:
  "subscribe_companions env t u now db = Inr db' \<Longrightarrow> talks t u db db'"
  by (rule only_subscriptions_talks[OF subscribe_companions_only]) (auto dest: subscribe_companions_comms)

section \<open>Operations that are about one task\<close>

lemma insert_operation_link_talks: "talks t u db (insert_operation_link t i u now db)" "same_batches db (insert_operation_link t i u now db)"
  by (auto simp: insert_operation_link_def same_batches_def intro: talks_frame)

lemma select_owned_task_Inr [outcome_simps]:
  "select_owned_task t u db = Inr r \<longleftrightarrow> tbl_get tk_id t (hub_tasks db) = Some r \<and> tk_user r = u"
  by (auto simp: select_owned_task_def select_task_def outcome_simps split: option.splits if_splits)

lemma select_task_Inr [outcome_simps]: "select_task t db = Inr r \<longleftrightarrow> tbl_get tk_id t (hub_tasks db) = Some r"
  by (auto simp: select_task_def split: option.splits)

lemma select_endpoint_Inr [outcome_simps]: "select_endpoint e db = Inr r \<longleftrightarrow> tbl_get ep_id e (hub_endpoints db) = Some r"
  by (auto simp: select_endpoint_def split: option.splits)

lemma select_active_endpoint_Inr [outcome_simps]:
  "select_active_endpoint e u db = Inr r \<longleftrightarrow> tbl_get ep_id e (hub_endpoints db) = Some r \<and> ep_user r = u \<and> ep_state r = ''active''"
  by (auto simp: select_active_endpoint_def outcome_simps split: if_splits)

text \<open>Both facts about an operation that ends in one task.\<close>

definition plain_talk :: "string \<Rightarrow> string \<Rightarrow> hub \<Rightarrow> hub \<Rightarrow> bool" where
  "plain_talk t u db db' \<longleftrightarrow> talks t u db db' \<and> same_batches db db'"

lemma plain_talk_refl [simp]: "plain_talk t u db db"
  by (simp add: plain_talk_def)

lemma plain_talk_trans [trans]: "plain_talk t u a b \<Longrightarrow> plain_talk t u b c \<Longrightarrow> plain_talk t u a c"
  unfolding plain_talk_def by (blast intro: talks_trans same_batches_trans)

section \<open>A calculus for the course of an operation\<close>

text \<open>\<open>leads P m\<close>: when \<open>m\<close> returns, \<open>P\<close> holds of the ledger it leaves; \<open>goes\<close> is the same for a step without a result.\<close>

definition leads :: "(hub \<Rightarrow> bool) \<Rightarrow> 'a hub_result \<Rightarrow> bool" where
  "leads P m \<longleftrightarrow> (\<forall>x db'. m = Inr (x, db') \<longrightarrow> P db')"

definition goes :: "(hub \<Rightarrow> bool) \<Rightarrow> hub_error + hub \<Rightarrow> bool" where
  "goes P m \<longleftrightarrow> (\<forall>db'. m = Inr db' \<longrightarrow> P db')"

lemma leads_Inr: "P db \<Longrightarrow> leads P (Inr (x, db))"
  and leads_Inl: "leads P (Inl e)"
  and goes_Inr: "P db \<Longrightarrow> goes P (Inr db)"
  and goes_Inl: "goes P (Inl e)"
  by (simp_all add: leads_def goes_def)

lemma leads_bind: "leads P m \<Longrightarrow> (\<And>x db. P db \<Longrightarrow> leads P (f x db)) \<Longrightarrow> leads P (ebind m (\<lambda>(x, db). f x db))"
  and goes_bind: "leads P m \<Longrightarrow> (\<And>x db. P db \<Longrightarrow> goes P (g x db)) \<Longrightarrow> goes P (ebind m (\<lambda>(x, db). g x db))"
  by (cases m; auto simp: leads_def goes_def)+

lemma leads_bind_goes: "goes P m \<Longrightarrow> (\<And>db. P db \<Longrightarrow> leads P (f db)) \<Longrightarrow> leads P (ebind m f)"
  and goes_bind_goes: "goes P m \<Longrightarrow> (\<And>db. P db \<Longrightarrow> goes P (g db)) \<Longrightarrow> goes P (ebind m g)"
  by (cases m; auto simp: leads_def goes_def)+

lemma leads_bind_read: "(\<And>x. m = Inr x \<Longrightarrow> leads P (f x)) \<Longrightarrow> leads P (ebind m f)"
  by (cases m) (auto simp: leads_def)

lemma goes_bind_read: "(\<And>x. m = Inr x \<Longrightarrow> goes P (f x)) \<Longrightarrow> goes P (ebind m f)"
  by (cases m) (auto simp: goes_def)

lemma leads_if: "(c \<Longrightarrow> leads P a) \<Longrightarrow> (\<not> c \<Longrightarrow> leads P b) \<Longrightarrow> leads P (if c then a else b)"
  and goes_if: "(c \<Longrightarrow> goes P x) \<Longrightarrow> (\<not> c \<Longrightarrow> goes P y) \<Longrightarrow> goes P (if c then x else y)"
  by simp_all

lemma leads_option: "(v = None \<Longrightarrow> leads P a) \<Longrightarrow> (\<And>y. v = Some y \<Longrightarrow> leads P (b y)) \<Longrightarrow> leads P (case v of None \<Rightarrow> a | Some y \<Rightarrow> b y)"
  and goes_option: "(v = None \<Longrightarrow> goes P c) \<Longrightarrow> (\<And>y. v = Some y \<Longrightarrow> goes P (d y)) \<Longrightarrow> goes P (case v of None \<Rightarrow> c | Some y \<Rightarrow> d y)"
  by (cases v; simp)+

lemmas leads_read =
  leads_bind_read[where 'a = string] leads_bind_read[where 'a = unit] leads_bind_read[where 'a = bool]
  leads_bind_read[where 'a = task_row] leads_bind_read[where 'a = endpoint_row] leads_bind_read[where 'a = batch_row]
  leads_bind_read[where 'a = item_row] leads_bind_read[where 'a = "string option"] leads_bind_read[where 'a = "item_row option"]

lemmas course = leads_Inr leads_Inl goes_Inr goes_Inl leads_if goes_if leads_option goes_option leads_read
  leads_bind goes_bind leads_bind_goes goes_bind_goes


lemma plain_append_event: "plain_talk t u db a \<Longrightarrow> leads (plain_talk t u db) (append_event env t u ty payload c now a)"
  unfolding leads_def plain_talk_def by (metis append_event_talks(1,2) talks_trans same_batches_trans)

lemma plain_subscribe: "plain_talk t u db a \<Longrightarrow> goes (plain_talk t u db) (subscribe_companions env t u now a)"
  unfolding goes_def using plain_talk_trans[of t u db a] subscribe_companions_talks[of env t u now a]
    only_subscriptions_batches[OF subscribe_companions_only[of env t u now a]] by (simp add: plain_talk_def)

lemma plain_update: "plain_talk t u db a \<Longrightarrow> goes (plain_talk t u db) (update_task_state t s p i now a)"
  unfolding goes_def using plain_talk_trans[of t u db a] update_task_state_talks[of t s p i now a]
  by (auto simp: plain_talk_def same_batches_def update_task_state_def split: sum.splits)

lemma plain_tables:
  "plain_talk t u a (set_summary t summary a)" "plain_talk t u a (insert_operation_link t i u now a)"
  "plain_talk t u a (a\<lparr>hub_interactions := l\<rparr>)"
proof -
  have "same_batches a (set_summary t summary a)" "same_batches a (a\<lparr>hub_interactions := l\<rparr>)"
    by (simp_all add: same_batches_def set_summary_def)
  moreover have "talks t u a (a\<lparr>hub_interactions := l\<rparr>)" by (rule talks_frame) simp_all
  ultimately show "plain_talk t u a (set_summary t summary a)" "plain_talk t u a (insert_operation_link t i u now a)"
    "plain_talk t u a (a\<lparr>hub_interactions := l\<rparr>)"
    unfolding plain_talk_def using set_summary_talks insert_operation_link_talks by blast+
qed

lemmas plain_step = plain_tables[THEN plain_talk_trans[rotated]]

lemma plain_if: "plain_talk t u db a \<Longrightarrow> plain_talk t u db b \<Longrightarrow> plain_talk t u db (if c then a else b)"
  by simp

lemma leads_transition:
  "leads P a \<Longrightarrow> leads P b \<Longrightarrow> leads P c \<Longrightarrow> leads P (case x of Apply \<Rightarrow> a | Reuse \<Rightarrow> b | Reject \<Rightarrow> c)"
  by (cases x) simp_all

lemmas plain_course = course plain_append_event plain_subscribe plain_update plain_step plain_talk_refl plain_if leads_transition

lemma link_operation_plain: "leads (plain_talk t u db) (link_operation env now t u info db)"
  unfolding link_operation_def Let_def by (intro plain_course) (assumption | simp)+

lemma link_plan_operation_plain: "leads (plain_talk t u db) (link_plan_operation env now t u info p s db)"
  unfolding link_plan_operation_def by (intro plain_course) (assumption | simp)+


lemma record_plan_event_plain: "leads (plain_talk t u db) (record_plan_event env now t u ty p c db)"
  unfolding record_plan_event_def by (intro plain_course) (assumption | simp)+

lemma record_analysis_phase_plain:
  "leads (plain_talk t u db) (record_analysis_phase env seen now t u phase request db)"
  unfolding record_analysis_phase_def by (intro plain_course) (assumption | simp)+

lemma link_interaction_plain: "leads (plain_talk t u db) (link_interaction env now t u info db)"
  unfolding link_interaction_def Let_def by (intro plain_course) (assumption | simp)+

lemma plain_addition: "plain_talk t u db (case addition of None \<Rightarrow> db | Some (k, v) \<Rightarrow> set_summary t (f k v) db)"
  by (auto split: option.split intro: plain_tables)

lemma end_task_plain: "leads (plain_talk t u db) (end_task env now t u target ty p addition c db)"
  unfolding end_task_def Let_def by (intro plain_course plain_addition) assumption+

lemma ends_plain:
  "leads (plain_talk t u db) (complete_task env now t u reason c db)"
  "leads (plain_talk t u db) (fail_task env now t u code message c db)"
  "leads (plain_talk t u db) (mark_task_outcome_unknown env now t u code c db)"
  unfolding complete_task_def fail_task_def mark_task_outcome_unknown_def by (intro leads_read end_task_plain)+

section \<open>Operations that bring in a row\<close>

text \<open>What every operation does to what is communicated, apart from the state of the deliveries.\<close>

definition grows :: "hub \<Rightarrow> hub \<Rightarrow> bool" where
  "grows db db' \<longleftrightarrow> owners_stay db db' \<and> prefix (hub_timeline db) (hub_timeline db') \<and> comms_ok db'"

lemma talks_grows: "talks t u db db' \<Longrightarrow> comms_ok db \<Longrightarrow> tk_owner db t = Some u \<Longrightarrow> grows db db' \<and> posts db db'"
  by (simp add: talks_def grows_def)

lemma grows_refl [simp]: "grows db db \<longleftrightarrow> comms_ok db"
  by (simp add: grows_def)

lemma tbl_get_insert: "tbl_insert key r rows = Some rows' \<Longrightarrow> tbl_get key k rows' = (if key r = k then Some r else tbl_get key k rows)"
  by (auto simp: table_simps split: option.splits dest!: tbl_get_mem)

lemma insert_task_grows:
  assumes "comms_ok db" and "tbl_insert tk_id t (hub_tasks db) = Some tasks" and db': "db' = db\<lparr>hub_tasks := tasks, hub_draws := n\<rparr>"
  shows "comms_ok db'" "owners_stay db db'" "tk_owner db' (tk_id t) = Some (tk_user t)" "ep_owner db' = ep_owner db"
    "\<forall>i s. hub_status db i = Some s \<longrightarrow> hub_status db' i = Some s"
proof -
  have new: "tk_id t \<notin> set (map tk_id (hub_tasks db))" "tasks = hub_tasks db @ [t]" using assms(2) by (simp_all add: table_simps)
  have get: "tbl_get tk_id i tasks = (if tk_id t = i then Some t else tbl_get tk_id i (hub_tasks db))" for i
    by (rule tbl_get_insert[OF assms(2)])
  have kept: "tbl_get tk_id i (hub_tasks db) = Some r \<Longrightarrow> tbl_get tk_id i tasks = Some r" for i r
    using new by (auto simp: table_simps)
  show ep: "ep_owner db' = ep_owner db" unfolding db' by (rule owner_cong(1)) simp
  show "tk_owner db' (tk_id t) = Some (tk_user t)" by (simp add: db' tk_owner_def get)
  show stay: "owners_stay db db'"
  proof -
    have "tk_owner db' i = tk_owner db i" if "tk_owner db i \<noteq> None" for i
      using that kept[of i] by (auto simp: db' tk_owner_def)
    then show ?thesis by (simp add: owners_stay_def ep map_le_def dom_def)
  qed
  show "\<forall>i s. hub_status db i = Some s \<longrightarrow> hub_status db' i = Some s" by (auto simp: db' hub_status_def dest!: kept)
  have "\<forall>r \<in> set (hub_outbox db). delivery_ok db' r"
    using assms(1) stay delivery_ok_mono[OF _ stay] by (auto simp: comms_ok_def db')
  then show "comms_ok db'" using assms(1) new ep by (auto simp: comms_ok_def db')
qed


lemma create_task_moves:
  assumes e: "create_task env now t endpoint db = Inr (r, db')" and ok: "comms_ok db"
    and origin: "tbl_get ep_id (tk_origin t) (hub_endpoints db) = Some endpoint" "ep_user endpoint = tk_user t"
  shows "grows db db'" "posts db db'" "same_batches db db'" "\<forall>i s. hub_status db i = Some s \<longrightarrow> hub_status db' i = Some s"
proof -
  let ?i = "tk_id t" and ?u = "tk_user t"
  let ?sub = "\<lambda>x. new_subscription (uuid env (hub_draws x)) ?i (tk_origin t) ?u [''*''] now"
  let ?fresh = "\<lambda>x. x\<lparr>hub_draws := Suc (hub_draws x)\<rparr>"
  obtain tasks where tasks: "tbl_insert tk_id t (hub_tasks db) = Some tasks"
    using e by (auto simp: create_task_def split: option.splits)
  define db1 where "db1 = db\<lparr>hub_tasks := tasks, hub_draws := Suc (hub_draws db)\<rparr>"
  note one = insert_task_grows[OF ok tasks db1_def]
  have "leads (plain_talk ?i ?u db1) (create_task env now t endpoint db)"
  proof -
    have sub: "plain_talk ?i ?u db1 x" if "insert_subscription (?sub db1) (?fresh db1) = Inr x" for x
    proof -
      have only: "only_subscriptions db1 x" using insert_subscription_only[OF that] by (simp add: only_subscriptions_def)
      have "ep_owner db1 (tk_origin t) = Some ?u" using origin one(4) by (simp add: ep_owner_def)
      then have "comms_ok x" by (intro insert_subscription_comms[OF that]) (use one in \<open>simp_all add: new_subscription_def\<close>)
      then show ?thesis unfolding plain_talk_def using only_subscriptions_talks[OF only] only_subscriptions_batches[OF only] by simp
    qed
    then have "goes (plain_talk ?i ?u db1) (insert_subscription (?sub db1) (?fresh db1))"
      by (simp add: goes_def)
    then show ?thesis
      unfolding create_task_def tasks option.case Let_def db1_def[symmetric] by (intro plain_course) assumption+
  qed
  then have talk: "talks ?i ?u db1 db'" and batches: "same_batches db1 db'" using e by (auto simp: leads_def plain_talk_def)
  from talks_grows[OF talk one(1,3)] have g: "grows db1 db'" "posts db1 db'" by auto
  have same: "hub_timeline db1 = hub_timeline db" "hub_outbox db1 = hub_outbox db" "same_batches db db1"
    by (simp_all add: db1_def same_batches_def)
  show "grows db db'" using g(1) owners_stay_trans[OF one(2)] same by (simp add: grows_def)
  show "posts db db'" using g(2) same by (simp add: posts_def)
  show "same_batches db db'" by (rule same_batches_trans[OF same(3) batches])
  have "hub_status db ?i = None" using tasks by (auto simp: hub_status_def tbl_get_None table_simps)
  then show "\<forall>i s. hub_status db i = Some s \<longrightarrow> hub_status db' i = Some s"
    using talk one(5) unfolding talks_def by (metis option.distinct(1))
qed

lemma ensure_task_moves:
  assumes e: "ensure_task env now q db = Inr (r, db')" and ok: "comms_ok db"
  shows "grows db db'" "posts db db'" "same_batches db db'" "\<forall>i s. hub_status db i = Some s \<longrightarrow> hub_status db' i = Some s"
proof -
  obtain v endpoint where v: "tbl_get ep_id (tk_origin v) (hub_endpoints db) = Some endpoint" "ep_user endpoint = tk_user v"
    and rest: "(case find_host_task (tk_user v) (tk_host v) (tk_key v) db of
       Some old \<Rightarrow>
         if tk_origin old \<noteq> tk_origin v then Inl HubIntegrity
         else (let db' = db\<lparr>hub_tasks := tbl_update (\<lambda>t. tk_id t = tk_id old)
                  (\<lambda>t. t\<lparr>tk_conversation := tk_conversation v, tk_updated_at := now\<rparr>) (hub_tasks db)\<rparr>
               in ebind (select_task (tk_id old) db') (\<lambda>r. Inr ((r, True), db')))
     | None \<Rightarrow> create_task env now v endpoint db) = Inr (r, db')"
    using e by (auto simp: ensure_task_def outcome_simps)
  have "grows db db' \<and> posts db db' \<and> same_batches db db' \<and> (\<forall>i s. hub_status db i = Some s \<longrightarrow> hub_status db' i = Some s)"
  proof (cases "find_host_task (tk_user v) (tk_host v) (tk_key v) db")
    case None
    then show ?thesis using create_task_moves[OF _ ok v] rest by simp
  next
    case (Some old)
    then have db': "db' = db\<lparr>hub_tasks := tbl_update (\<lambda>t. tk_id t = tk_id old)
        (\<lambda>t. t\<lparr>tk_conversation := tk_conversation v, tk_updated_at := now\<rparr>) (hub_tasks db)\<rparr>"
      and old: "tbl_get tk_id (tk_id old) (hub_tasks db) \<noteq> None"
      using rest by (auto simp: Let_def outcome_simps table_simps split: if_splits)
    have "talks (tk_id old) u db db'" for u unfolding db' by (rule talks_task_update) simp_all
    then have "talks (tk_id old) (the (tk_owner db (tk_id old))) db db'" .
    with talks_grows[OF this ok] old have "grows db db' \<and> posts db db'" by (auto simp: tk_owner_def)
    moreover have "hub_status db' i = hub_status db i" for i
      by (cases "tbl_get tk_id i (hub_tasks db)") (auto simp: db' hub_status_def table_simps)
    ultimately show ?thesis by (simp add: db' same_batches_def)
  qed
  then show "grows db db'" "posts db db'" "same_batches db db'" "\<forall>i s. hub_status db i = Some s \<longrightarrow> hub_status db' i = Some s" by auto
qed


section \<open>Operations on batches, as far as they communicate\<close>

lemma talks_append_event: "talks t u db a \<Longrightarrow> leads (talks t u db) (append_event env t u ty payload c now a)"
  unfolding leads_def by (metis append_event_talks(1) talks_trans)

lemma talks_subscribe: "talks t u db a \<Longrightarrow> goes (talks t u db) (subscribe_companions env t u now a)"
  unfolding goes_def by (metis subscribe_companions_talks talks_trans)

lemma talks_update: "talks t u db a \<Longrightarrow> goes (talks t u db) (update_task_state t s p i now a)"
  unfolding goes_def by (metis update_task_state_talks talks_trans)

lemma talks_tables:
  "talks t u a (set_summary t summary a)" "talks t u a (set_items P f a)" "talks t u a (set_batch i g a)"
  by (simp_all add: set_summary_talks set_items_def set_batch_def talks_frame)

lemmas talks_step = talks_tables[THEN talks_trans[rotated]]

lemma talks_if: "talks t u db a \<Longrightarrow> talks t u db b \<Longrightarrow> talks t u db (if c then a else b)"
  and talks_option: "talks t u db a \<Longrightarrow> (\<And>x. talks t u db (g x)) \<Longrightarrow> talks t u db (case v of None \<Rightarrow> a | Some x \<Rightarrow> g x)"
  by (auto split: option.split)

lemmas talks_course = course talks_append_event talks_subscribe talks_update talks_step talks_refl talks_if talks_option leads_transition

lemma talks_sync: "talks (tk_id task) u db a \<Longrightarrow> goes (talks (tk_id task) u db) (sync_batch_task_summary now task b s p i a)"
  unfolding sync_batch_task_summary_def by (rule goes_bind_read) (intro talks_course)

lemma insert_batch_talks: "insert_batch b a = Inr c \<Longrightarrow> talks t u a c"
  by (auto simp: insert_batch_def intro!: talks_frame split: if_splits)

lemma insert_item_talks: "insert_item env i r a = Inr c \<Longrightarrow> talks t u a c"
  by (auto simp: insert_item_def Let_def intro!: talks_frame split: if_splits)

lemma talks_inserts:
  "talks t u db a \<Longrightarrow> goes (talks t u db) (insert_batch b a)"
  "talks t u db a \<Longrightarrow> goes (talks t u db) (insert_item env i r a)"
  unfolding goes_def by (metis insert_batch_talks insert_item_talks talks_trans)+

lemma talks_insert_items: "talks t u db a \<Longrightarrow> goes (talks t u db) (foldE (insert_item env i) rows a)"
  by (induction rows arbitrary: a) (auto simp: goes_def outcome_simps dest: talks_inserts(2)[unfolded goes_def, rule_format])

lemma store_batch_talks:
  "tk_id task = ba_task b \<Longrightarrow> leads (talks (ba_task b) (ba_user b) db) (store_batch env now task b rows db)"
  using talks_sync[of task "ba_user b" db] unfolding store_batch_def
  by (auto intro!: talks_course talks_inserts talks_insert_items)

text \<open>The operations start by selecting the task, which makes it one of the user's.\<close>

lemma create_batch_talks:
  assumes "create_batch env now q db = Inr (r, db')"
  shows "\<exists>u. tk_owner db (br_task q) = Some u \<and> talks (br_task q) u db db'"
proof -
  obtain user system capability rows task where task: "select_owned_task (br_task q) user db = Inr task"
    and rest: "db' = db \<or> store_batch env now task (new_batch env now (uuid env (hub_draws db)) q user system capability rows) rows db = Inr (r, db')"
    using assms by (auto simp: create_batch_def outcome_simps split: option.splits)
  have own: "tk_owner db (br_task q) = Some user" "tk_id task = br_task q"
    using task tbl_get_mem by (fastforce simp: outcome_simps tk_owner_def)+
  let ?b = "new_batch env now (uuid env (hub_draws db)) q user system capability rows"
  have "ba_task ?b = br_task q" "ba_user ?b = user" by (simp_all add: new_batch_def)
  then have "leads (talks (br_task q) user db) (store_batch env now task ?b rows db)"
    using store_batch_talks[of task ?b db env now rows] own(2) by simp
  with rest have "talks (br_task q) user db db'" unfolding leads_def by (metis talks_refl)
  then show ?thesis using own(1) by blast
qed

lemma record_activity_talks: "leads (talks (tk_id task) u db) (record_activity env now u p i task b item db)"
  unfolding record_activity_def Let_def by (intro talks_sync talks_course) assumption+

lemma completion_events_talks: "talks t u db a \<Longrightarrow> goes (talks t u db) (completion_events env now t u p b item terminal a)"
  unfolding completion_events_def Let_def by (intro talks_course) assumption+

lemma advance_batch_talks: "talks t u db (snd (advance_batch now p result b item db))"
  unfolding advance_batch_def Let_def snd_conv by (intro talks_course)

lemma complete_item_talks: "leads (talks (tk_id task) u db) (complete_item env now u p result task b item db)"
proof -
  obtain n db3 where adv: "advance_batch now p result b item db = (n, db3)" by (cases "advance_batch now p result b item db")
  have "talks (tk_id task) u db db3" using advance_batch_talks[of "tk_id task" u db now p result b item] adv by simp
  then show ?thesis
    unfolding complete_item_def adv Let_def prod.case by (intro talks_sync completion_events_talks talks_course) assumption+
qed

lemma fail_item_talks: "leads (talks (tk_id task) u db) (fail_item env now u p s code task b item db)"
  unfolding fail_item_def Let_def by (intro talks_sync talks_course) assumption+

lemma cancel_batch_talks: "talks (tk_id task) u db a \<Longrightarrow> goes (talks (tk_id task) u db) (cancel_batch now task u b a)"
  unfolding cancel_batch_def Let_def by (rule goes_bind_read) (intro talks_sync talks_course)


lemma owned_task: "select_owned_task t u db = Inr task \<Longrightarrow> tk_owner db t = Some u \<and> tk_id task = t"
  using tbl_get_mem by (fastforce simp: outcome_simps tk_owner_def)

text \<open>An operation about a task of the user that keeps to \<open>talks\<close>.\<close>

definition about_task :: "string \<Rightarrow> string \<Rightarrow> hub \<Rightarrow> 'a hub_result \<Rightarrow> bool" where
  "about_task t u db m \<longleftrightarrow> leads (\<lambda>db'. tk_owner db t = Some u \<and> talks t u db db') m"

lemma about_task_bind:
  "(\<And>task. select_owned_task t u db = Inr task \<Longrightarrow> tk_id task = t \<Longrightarrow> leads (talks (tk_id task) u db) (f task)) \<Longrightarrow>
   about_task t u db (ebind (select_owned_task t u db) f)"
  by (cases "select_owned_task t u db") (auto simp: about_task_def leads_def dest: owned_task)

lemma about_task_read: "(\<And>x. m = Inr x \<Longrightarrow> about_task t u db (f x)) \<Longrightarrow> about_task t u db (ebind m f)"
  by (cases m) (auto simp: about_task_def leads_def)

lemma about_taskD: "about_task t u db m \<Longrightarrow> m = Inr (x, db') \<Longrightarrow> tk_owner db t = Some u \<and> talks t u db db'"
  by (simp add: about_task_def leads_def)

lemma record_batch_item_activity_about: "about_task t u db (record_batch_item_activity env now t u p i db)"
  unfolding record_batch_item_activity_def
  by (rule about_task_bind) (intro record_activity_talks talks_course)

lemma complete_current_batch_item_about: "about_task t u db (complete_current_batch_item env now t u p n result db)"
  unfolding complete_current_batch_item_def
  by (rule about_task_bind) (intro complete_item_talks talks_course)

lemma fail_current_batch_item_about: "about_task t u db (fail_current_batch_item env now t u p n s code db)"
  unfolding fail_current_batch_item_def
  by (rule about_task_read, rule about_task_bind) (intro fail_item_talks talks_course)

lemma cancel_task_about: "about_task t u db (cancel_task env now t u reason c db)"
  unfolding cancel_task_def
proof (rule about_task_read, rule about_task_bind, goal_cases)
  case (1 x task)
  note course = cancel_batch_talks[of task u db, unfolded 1(3)] talks_course
  show ?case unfolding 1(3) by (intro course) assumption+
qed

text \<open>For the other operations about a task it remains to see that they check the owner.\<close>

definition checks_owner :: "string \<Rightarrow> string \<Rightarrow> hub \<Rightarrow> 'a hub_result \<Rightarrow> bool" where
  "checks_owner t u db m \<longleftrightarrow> leads (\<lambda>_. tk_owner db t = Some u) m"

lemma checks_here: "checks_owner t u db (ebind (select_owned_task t u db) f)"
  using owned_task[of t u db] by (cases "select_owned_task t u db") (auto simp: checks_owner_def leads_def)

lemma checks_later: "(\<And>x. checks_owner t u db (f x)) \<Longrightarrow> checks_owner t u db (ebind m f)"
  by (cases m) (auto simp: checks_owner_def leads_def)

lemma about_plain: "checks_owner t u db m \<Longrightarrow> leads (plain_talk t u db) m \<Longrightarrow> about_task t u db m"
  by (simp add: checks_owner_def about_task_def leads_def plain_talk_def)

lemma link_operation_about: "about_task t u db (link_operation env now t u info db)"
  by (rule about_plain[OF _ link_operation_plain]) (unfold link_operation_def Let_def, intro checks_here checks_later)

lemma link_plan_operation_about: "about_task t u db (link_plan_operation env now t u info p s db)"
  by (rule about_plain[OF _ link_plan_operation_plain]) (unfold link_plan_operation_def, intro checks_here checks_later)

lemma record_plan_event_about: "about_task t u db (record_plan_event env now t u ty p c db)"
  by (rule about_plain[OF _ record_plan_event_plain]) (unfold record_plan_event_def, intro checks_here checks_later)

lemma link_interaction_about: "about_task t u db (link_interaction env now t u info db)"
  by (rule about_plain[OF _ link_interaction_plain]) (unfold link_interaction_def Let_def, intro checks_here checks_later)

lemma end_task_about: "about_task t u db (end_task env now t u target ty p addition c db)"
  by (rule about_plain[OF _ end_task_plain]) (unfold end_task_def, rule checks_here)

lemma ends_about:
  "about_task t u db (complete_task env now t u reason c db)"
  "about_task t u db (fail_task env now t u code message c db)"
  "about_task t u db (mark_task_outcome_unknown env now t u code c db)"
  unfolding complete_task_def fail_task_def mark_task_outcome_unknown_def by (intro about_task_read end_task_about)+

lemma record_analysis_phase_about:
  "about_task t u db (record_analysis_phase env (task_seen_as t seen db) now t u phase request db)"
proof (rule about_plain[OF _ record_analysis_phase_plain])
  have "tk_owner (task_seen_as t seen db) = tk_owner db" unfolding task_seen_as_def by (rule tk_owner_update) simp_all
  then have "checks_owner t u (task_seen_as t seen db) m \<Longrightarrow> checks_owner t u db m" for m :: "unit hub_result"
    by (simp add: checks_owner_def)
  then show "checks_owner t u db (record_analysis_phase env (task_seen_as t seen db) now t u phase request db)"
    unfolding record_analysis_phase_def by (blast intro: checks_here checks_later)
qed

section \<open>Messages and endpoints\<close>

lemma enqueue_message_only: "enqueue_message env m source notify_source db = Inr db' \<Longrightarrow> only_outbox db db'"
  by (auto simp: enqueue_message_def Let_def outcome_simps intro: notify_all_only)

lemma enqueue_message_comms:
  assumes "enqueue_message env m source notify_source db = Inr db'" and ok: "comms_ok db"
    and m: "m \<in> set (hub_timeline db)" "tl_type m = ''chat_message''"
  shows "comms_ok db'"
proof -
  obtain payload where db': "db' = fold (notify env ''timeline_message'' (tl_id m) (or_text (tl_task m) []) (tl_user m) payload (tl_created_at m))
      (map ep_id (message_targets (tl_user m) source notify_source db)) db"
    using assms(1) by (auto simp: enqueue_message_def Let_def outcome_simps)
  show ?thesis unfolding db'
    by (rule notify_all_comms[OF ok]) (use m ep_owner_row[OF ok] in \<open>auto simp: message_targets_def carries_def\<close>)
qed

lemma append_message_cases:
  assumes "append_message env now q db = Inr ((row, reused), db')"
  obtains (Old) user key where "reused" "db' = db" "hub_required_text 256 (Some (mr_user q)) = Inr user" "hub_required_text 768 (Some (mr_key q)) = Inr key"
      "List.find (\<lambda>r. tl_user r = user \<and> tl_dedupe r = ''message:'' @ key) (hub_timeline db) = Some row"
  | (New) user key db1 where "\<not> reused" "hub_required_text 256 (Some (mr_user q)) = Inr user" "hub_required_text 768 (Some (mr_key q)) = Inr key"
      "tl_user row = user" "tl_dedupe row = ''message:'' @ key" "tl_type row = ''chat_message''"
      "db1 = db\<lparr>hub_timeline := hub_timeline db @ [row], hub_draws := Suc (hub_draws db)\<rparr>"
      "timeline_ok (hub_timeline db) \<longrightarrow> timeline_ok (hub_timeline db1)"
      "enqueue_message env row (mr_source q) (mr_notify_source q) db1 = Inr db'"
proof -
  obtain user key body task where q: "hub_required_text 256 (Some (mr_user q)) = Inr user" "hub_required_text 768 (Some (mr_key q)) = Inr key"
    and rest: "(case List.find (\<lambda>r. tl_user r = user \<and> tl_dedupe r = ''message:'' @ key) (hub_timeline db) of
       Some old \<Rightarrow> Inr ((old, True), db)
     | None \<Rightarrow>
         (let i = uuid env (hub_draws db) in
          case insert_timeline (message_entry i now user key body task q) (db\<lparr>hub_draws := Suc (hub_draws db)\<rparr>) of
            None \<Rightarrow> Inl HubSqlIntegrity
          | Some db1 \<Rightarrow>
              (case tbl_get tl_id i (hub_timeline db1) of
                 None \<Rightarrow> Inl HubTypeError
               | Some row \<Rightarrow>
                   ebind (enqueue_message env row (mr_source q) (mr_notify_source q) db1) (\<lambda>db2. Inr ((row, False), db2))))) = Inr ((row, reused), db')"
    using assms unfolding append_message_def by (simp only: outcome_simps) blast
  show thesis
  proof (cases "List.find (\<lambda>r. tl_user r = user \<and> tl_dedupe r = ''message:'' @ key) (hub_timeline db)")
    case (Some old)
    then show thesis using Old q rest by simp
  next
    case None
    let ?i = "uuid env (hub_draws db)" and ?db0 = "db\<lparr>hub_draws := Suc (hub_draws db)\<rparr>"
    let ?r = "message_entry ?i now user key body task q"
    obtain db1 where ins: "insert_timeline ?r ?db0 = Some db1" and get: "tbl_get tl_id ?i (hub_timeline db1) = Some row"
      and enq: "enqueue_message env row (mr_source q) (mr_notify_source q) db1 = Inr db'" and "\<not> reused"
      using rest None by (auto simp: Let_def outcome_simps split: option.splits)
    from ins obtain n where n: "db1 = ?db0\<lparr>hub_timeline := hub_timeline ?db0 @ [?r\<lparr>tl_sequence := n\<rparr>]\<rparr>"
      "tl_id ?r \<notin> set (map tl_id (hub_timeline ?db0))"
      "(tl_user ?r, tl_dedupe ?r) \<notin> set (map (\<lambda>r. (tl_user r, tl_dedupe r)) (hub_timeline ?db0))"
      by (rule insert_timeline_Some)
    have row: "row = ?r\<lparr>tl_sequence := n\<rparr>"
      using tbl_get_mem[OF get] n(1,2) by (force simp: message_entry_def)
    have ok: "timeline_ok (hub_timeline db) \<Longrightarrow> timeline_ok (hub_timeline db @ [?r\<lparr>tl_sequence := n\<rparr>])"
      by (rule timeline_ok_append) (use n(2,3) in \<open>simp_all add: message_entry_def\<close>)
    show thesis
      by (rule New[OF \<open>\<not> reused\<close> q _ _ _ _ _ enq]) (use n(1) row ok in \<open>simp_all add: message_entry_def\<close>)
  qed
qed


text \<open>The rows of tasks, batches and items stay.\<close>

lemma append_message_moves:
  assumes e: "append_message env now q db = Inr (r, db')" and ok: "comms_ok db"
  shows "grows db db'" "posts db db'" "same_batches db db'" "hub_tasks db' = hub_tasks db"
proof -
  obtain row reused where r: "r = (row, reused)" by (cases r)
  have "grows db db' \<and> posts db db' \<and> same_batches db db' \<and> hub_tasks db' = hub_tasks db"
  proof (rule append_message_cases[OF e[unfolded r]])
    fix user key db1
    assume row: "tl_type row = ''chat_message''"
      and db1: "db1 = db\<lparr>hub_timeline := hub_timeline db @ [row], hub_draws := Suc (hub_draws db)\<rparr>"
      and tl: "timeline_ok (hub_timeline db) \<longrightarrow> timeline_ok (hub_timeline db1)"
      and enq: "enqueue_message env row (mr_source q) (mr_notify_source q) db1 = Inr db'"
    have same: "hub_endpoints db1 = hub_endpoints db" "hub_tasks db1 = hub_tasks db" "hub_outbox db1 = hub_outbox db"
      "hub_subscriptions db1 = hub_subscriptions db" "hub_events db1 = hub_events db" "hub_batches db1 = hub_batches db"
      "hub_items db1 = hub_items db" "hub_timeline db1 = hub_timeline db @ [row]" by (simp_all add: db1)
    have "comms_ok db1"
      by (rule comms_ok_grow[OF ok]) (use ok tl same in \<open>auto simp: comms_ok_def\<close>)
    then have "comms_ok db'" by (rule enqueue_message_comms[OF enq]) (use row same in simp_all)
    then show ?thesis
      using enqueue_message_only[OF enq] same by (simp add: grows_def only_outbox_def posts_def same_batches_def)
  qed (use ok in simp)
  then show "grows db db'" "posts db db'" "same_batches db db'" "hub_tasks db' = hub_tasks db" by auto
qed

text \<open>A change of the endpoints that keeps the users of those there are.\<close>

lemma endpoints_moves:
  assumes ok: "comms_ok db" and db': "db' = db\<lparr>hub_endpoints := rows\<rparr> \<or> db' = db\<lparr>hub_endpoints := rows, hub_draws := n\<rparr>"
    and rows: "distinct (map ep_id rows)" "\<And>i r. tbl_get ep_id i (hub_endpoints db) = Some r \<Longrightarrow> \<exists>r'. tbl_get ep_id i rows = Some r' \<and> ep_user r' = ep_user r"
  shows "grows db db'" "posts db db'" "same_batches db db'" "hub_tasks db' = hub_tasks db"
proof -
  have same: "hub_endpoints db' = rows" "hub_tasks db' = hub_tasks db" "hub_outbox db' = hub_outbox db" "hub_timeline db' = hub_timeline db"
    "hub_subscriptions db' = hub_subscriptions db" "hub_events db' = hub_events db" "same_batches db db'"
    using db' by (auto simp: same_batches_def)
  have "ep_owner db \<subseteq>\<^sub>m ep_owner db'" using rows(2) by (fastforce simp: map_le_def dom_def ep_owner_def same)
  then have stay: "owners_stay db db'" using owner_cong(2)[OF same(2)] by (simp add: owners_stay_def)
  have "\<forall>r \<in> set (hub_outbox db). delivery_ok db' r"
    using ok delivery_ok_mono[OF _ stay] same by (auto simp: comms_ok_def)
  moreover have "\<forall>s \<in> set (hub_subscriptions db). ep_owner db' (su_endpoint s) = Some (su_user s)"
    using ok owners_stayD(1)[OF stay] by (auto simp: comms_ok_def)
  ultimately have "comms_ok db'" using ok rows(1) same by (simp add: comms_ok_def)
  then show "grows db db'" "posts db db'" "same_batches db db'" "hub_tasks db' = hub_tasks db"
    using stay same by (simp_all add: grows_def)
qed

lemma endpoints_updated:
  assumes "\<And>r. ep_id (f r) = ep_id r" "\<And>r. ep_user (f r) = ep_user r" and "distinct (map ep_id rows)"
  shows "distinct (map ep_id (tbl_update P f rows))"
    "tbl_get ep_id i rows = Some r \<Longrightarrow> \<exists>r'. tbl_get ep_id i (tbl_update P f rows) = Some r' \<and> ep_user r' = ep_user r"
  using assms by (simp_all add: table_simps)

lemma ensure_endpoint_moves:
  assumes e: "ensure_endpoint env now q db = Inr (r, db')" and ok: "comms_ok db"
  shows "grows db db'" "posts db db'" "same_batches db db'" "hub_tasks db' = hub_tasks db"
proof -
  have dist: "distinct (map ep_id (hub_endpoints db))" using ok by (simp add: comms_ok_def)
  obtain v where rest: "(case List.find (\<lambda>r. ep_host r = ep_host v \<and> ep_key r = ep_key v) (hub_endpoints db) of
       Some old \<Rightarrow>
         if ep_user old \<noteq> ep_user v then Inl HubIntegrity
         else (let db' = db\<lparr>hub_endpoints := tbl_update (\<lambda>r. ep_id r = ep_id old)
                  (\<lambda>r. r\<lparr>ep_token := ep_token v, ep_client_type := ep_client_type v, ep_external := ep_external v,
                         ep_account := ep_account v, ep_conversation := ep_conversation v, ep_label := ep_label v,
                         ep_capabilities := sorted_set (ep_capabilities old @ ep_capabilities v), ep_route := ep_route v,
                         ep_state := ''active'', ep_updated_at := now, ep_last_seen := now\<rparr>) (hub_endpoints db)\<rparr>
               in ebind (select_endpoint (ep_id old) db') (\<lambda>r. Inr ((r, True), db')))
     | None \<Rightarrow>
         (case tbl_insert ep_id v (hub_endpoints db) of
            None \<Rightarrow> Inl HubSqlIntegrity
          | Some rows \<Rightarrow> Inr ((v, False), db\<lparr>hub_endpoints := rows, hub_draws := Suc (hub_draws db)\<rparr>))) = Inr (r, db')"
    using e unfolding ensure_endpoint_def by (simp only: outcome_simps) blast
  have "grows db db' \<and> posts db db' \<and> same_batches db db' \<and> hub_tasks db' = hub_tasks db"
  proof (cases "List.find (\<lambda>r. ep_host r = ep_host v \<and> ep_key r = ep_key v) (hub_endpoints db)")
    case None
    then obtain rows where rows: "tbl_insert ep_id v (hub_endpoints db) = Some rows"
      and db': "db' = db\<lparr>hub_endpoints := rows, hub_draws := Suc (hub_draws db)\<rparr>"
      using rest by (auto split: option.splits)
    have "distinct (map ep_id rows)" using rows dist by (auto simp: table_simps)
    moreover have "tbl_get ep_id i (hub_endpoints db) = Some r \<Longrightarrow> \<exists>r'. tbl_get ep_id i rows = Some r' \<and> ep_user r' = ep_user r" for i r
      using rows by (auto simp: table_simps)
    ultimately show ?thesis using endpoints_moves[OF ok disjI2[OF db']] by blast
  next
    case (Some old)
    then obtain P f where db': "db' = db\<lparr>hub_endpoints := tbl_update P f (hub_endpoints db)\<rparr>"
      and f: "\<And>r. ep_id (f r) = ep_id r" "\<And>r. ep_user (f r) = ep_user r"
      using rest by (auto simp: Let_def outcome_simps split: if_splits)
    show ?thesis using endpoints_moves[OF ok disjI1[OF db']] endpoints_updated[OF f dist] by blast
  qed
  then show "grows db db'" "posts db db'" "same_batches db db'" "hub_tasks db' = hub_tasks db" by auto
qed

lemma touch_endpoint_moves:
  assumes e: "touch_endpoint now i u db = Inr (r, db')" and ok: "comms_ok db"
  shows "grows db db'" "posts db db'" "same_batches db db'" "hub_tasks db' = hub_tasks db"
proof -
  obtain P where db': "db' = db\<lparr>hub_endpoints := tbl_update P (\<lambda>r. r\<lparr>ep_updated_at := now, ep_last_seen := now\<rparr>) (hub_endpoints db)\<rparr>"
    using e by (auto simp: touch_endpoint_def Let_def outcome_simps)
  have dist: "distinct (map ep_id (hub_endpoints db))" using ok by (simp add: comms_ok_def)
  note new = endpoints_updated[where f = "\<lambda>r. r\<lparr>ep_updated_at := now, ep_last_seen := now\<rparr>" and P = P, OF _ _ dist]
  show "grows db db'" "posts db db'" "same_batches db db'" "hub_tasks db' = hub_tasks db"
    using endpoints_moves[OF ok disjI1[OF db']] new by simp_all
qed

section \<open>Deliveries\<close>

text \<open>What a delivery is about; the operations on deliveries change only its state.\<close>

definition delivery_contract :: "delivery_row \<Rightarrow> string list \<times> json \<times> time" where
  "delivery_contract r = ([dl_id r, dl_event r, dl_task r, dl_endpoint r, dl_user r, dl_type r], dl_payload r, dl_created_at r)"

lemma set_deliveries_comms:
  assumes ok: "comms_ok db" and f: "\<And>r. delivery_contract (f r) = delivery_contract r"
    "\<And>r. r \<in> set (hub_outbox db) \<Longrightarrow> P r \<Longrightarrow> 0 \<le> dl_attempts r \<Longrightarrow> dl_attempts r \<le> 5 \<Longrightarrow> 0 \<le> dl_attempts (f r) \<and> dl_attempts (f r) \<le> 5"
  shows "comms_ok (set_deliveries P f db)"
proof -
  let ?g = "\<lambda>r. if P r then f r else r" and ?db' = "set_deliveries P f db"
  have g: "delivery_contract (?g r) = delivery_contract r" for r using f by simp
  have sel: "dl_id (?g r) = dl_id r" "delivery_key (?g r) = delivery_key r" "dl_user (?g r) = dl_user r" "dl_task (?g r) = dl_task r"
    "dl_endpoint (?g r) = dl_endpoint r" "dl_type (?g r) = dl_type r" "dl_event (?g r) = dl_event r" for r
    using g[of r] by (simp_all add: delivery_contract_def delivery_key_def)
  have ob: "hub_outbox ?db' = map ?g (hub_outbox db)" by (simp add: set_deliveries_def tbl_update_def)
  have own: "ep_owner ?db' = ep_owner db" "tk_owner ?db' = tk_owner db"
    by (rule owner_cong, simp add: set_deliveries_def)+
  have "delivery_ok ?db' (?g r)" if "r \<in> set (hub_outbox db)" for r
  proof -
    have "delivery_ok db r" using ok that by (simp add: comms_ok_def)
    then show ?thesis using f(2)[OF that] unfolding delivery_ok_def sel own by (simp add: set_deliveries_def)
  qed
  then have "\<forall>r \<in> set (hub_outbox ?db'). delivery_ok ?db' r" unfolding ob set_map by blast
  moreover have "map dl_id (hub_outbox ?db') = map dl_id (hub_outbox db)" "map delivery_key (hub_outbox ?db') = map delivery_key (hub_outbox db)"
    unfolding ob by (simp_all add: sel)
  moreover have "hub_endpoints ?db' = hub_endpoints db" "hub_tasks ?db' = hub_tasks db" "hub_timeline ?db' = hub_timeline db"
    "hub_subscriptions ?db' = hub_subscriptions db" by (simp_all add: set_deliveries_def)
  ultimately show ?thesis using ok unfolding comms_ok_def own by presburger
qed

definition delivery_of :: "hub \<Rightarrow> string \<Rightarrow> delivery_row option" where
  "delivery_of db k = tbl_get dl_id k (hub_outbox db)"

lemma contract_id: "delivery_contract (f r) = delivery_contract r \<Longrightarrow> dl_id (f r) = dl_id r"
  by (simp add: delivery_contract_def)

lemma delivery_of_set:
  "(\<And>r. delivery_contract (f r) = delivery_contract r) \<Longrightarrow>
   delivery_of (set_deliveries P f db) k = map_option (\<lambda>r. if P r then f r else r) (delivery_of db k)"
  unfolding delivery_of_def set_deliveries_def by (simp add: table_simps contract_id)

lemma delivery_of_posts:
  assumes "posts db db'" and "delivery_of db k = Some r"
  shows "delivery_of db' k = Some r"
proof -
  have "tbl_get dl_id k (xs @ ys) = Some r" if "tbl_get dl_id k xs = Some r" for xs ys
    using that by (induction xs) (auto split: if_splits)
  then show ?thesis using assms by (auto simp: posts_def delivery_of_def)
qed

lemma set_deliveries_grows:
  assumes "comms_ok (set_deliveries P f db)"
  shows "grows db (set_deliveries P f db)"
  using assms by (simp add: grows_def set_deliveries_def)

lemma claimed_contract [simp]: "delivery_contract (claimed l now r) = delivery_contract r"
  by (simp add: delivery_contract_def claimed_def)

lemma set_deliveries_twice:
  assumes "\<And>r. Q (f r) = Q r" and "\<And>r. \<not> (P r \<and> Q r)"
  shows "set_deliveries Q f (set_deliveries P f db) = set_deliveries (\<lambda>r. P r \<or> Q r) f db"
proof -
  have "tbl_update Q f (tbl_update P f rows) = tbl_update (\<lambda>r. P r \<or> Q r) f rows" for rows
    using assms by (induction rows) (auto simp: tbl_update_def)
  then show ?thesis by (simp add: set_deliveries_def)
qed

lemma set_deliveries_cong:
  "(\<And>r. r \<in> set (hub_outbox db) \<Longrightarrow> P r = Q r) \<Longrightarrow> set_deliveries P f db = set_deliveries Q f db"
  by (simp add: set_deliveries_def tbl_update_def cong: map_cong)

lemma claim_rows_all:
  assumes "claim_rows l now rows db = (out, db')" and "distinct (map dl_id rows)" and "distinct (map dl_id (hub_outbox db))"
    and "\<forall>r \<in> set rows. r \<in> set (hub_outbox db) \<and> due now r"
  shows "out = map (claimed l now) rows \<and> db' = set_deliveries (\<lambda>r. dl_id r \<in> dl_id ` set rows) (claimed l now) db"
  using assms
proof (induction rows arbitrary: db out db')
  case Nil
  then show ?case by (simp add: set_deliveries_def tbl_update_def)
next
  case (Cons row rows)
  let ?hit = "\<lambda>r. dl_id r = dl_id row \<and> due now r" and ?db1 = "set_deliveries (\<lambda>r. dl_id r = dl_id row) (claimed l now) db"
  have row: "row \<in> set (hub_outbox db)" "due now row" using Cons.prems(4) by auto
  have only: "r = row" if "r \<in> set (hub_outbox db)" "dl_id r = dl_id row" for r
    by (rule distinct_same_key[OF Cons.prems(3) that(1) row(1) that(2)])
  have db1: "set_deliveries ?hit (claimed l now) db = ?db1"
    by (rule set_deliveries_cong) (use only row(2) in blast)
  have "filter ?hit (hub_outbox db) = [row]"
    by (rule filter_single) (use Cons.prems(3) row only in \<open>auto simp: distinct_map\<close>)
  then have count: "tbl_count ?hit (hub_outbox db) = 1" by (simp add: tbl_count_def)
  have get: "tbl_get dl_id (dl_id row) (hub_outbox db) = Some row" by (rule tbl_get_eqI[OF Cons.prems(3) row(1) refl])
  have got: "tbl_get dl_id (dl_id row) (hub_outbox ?db1) = Some (claimed l now row)"
    using get by (simp add: set_deliveries_def table_simps claimed_def)
  obtain rest db2 where rest: "claim_rows l now rows ?db1 = (rest, db2)" by (cases "claim_rows l now rows ?db1")
  have out: "out = claimed l now row # rest" "db' = db2"
    using Cons.prems(1) count got by (simp_all add: Let_def db1 rest)
  have "rest = map (claimed l now) rows \<and> db2 = set_deliveries (\<lambda>r. dl_id r \<in> dl_id ` set rows) (claimed l now) ?db1"
  proof (rule Cons.IH[OF rest])
    show "distinct (map dl_id rows)" using Cons.prems(2) by simp
    show "distinct (map dl_id (hub_outbox ?db1))"
      using Cons.prems(3) by (simp add: set_deliveries_def table_simps claimed_def)
    show "\<forall>r \<in> set rows. r \<in> set (hub_outbox ?db1) \<and> due now r"
      using Cons.prems(2,4) by (auto simp: set_deliveries_def table_simps image_iff)
  qed
  moreover have "set_deliveries (\<lambda>r. dl_id r \<in> dl_id ` set rows) (claimed l now) ?db1 =
      set_deliveries (\<lambda>r. dl_id r = dl_id row \<or> dl_id r \<in> dl_id ` set rows) (claimed l now) db"
    by (rule set_deliveries_twice) (use Cons.prems(2) in \<open>auto simp: claimed_def\<close>)
  ultimately show ?case using out by simp
qed


definition give_up :: "time \<Rightarrow> string \<Rightarrow> string \<Rightarrow> hub \<Rightarrow> hub" where
  "give_up now u e db = set_deliveries (\<lambda>r. for_endpoint u e r \<and> given_up now r) (\<lambda>r. r\<lparr>dl_state := Undelivered, dl_updated_at := now\<rparr>) db"

lemma give_up_contract [simp]: "delivery_contract (r\<lparr>dl_state := s, dl_updated_at := now\<rparr>) = delivery_contract r"
  by (simp add: delivery_contract_def)

lemma give_up_comms: "comms_ok db \<Longrightarrow> comms_ok (give_up now u e db)"
  unfolding give_up_def by (erule set_deliveries_comms) simp_all

lemma claim_outbox_cases:
  assumes e: "claim_outbox seen now now2 u e limit lease db = Inr (out, db')" and ok: "comms_ok db"
  obtains (None) "out = []" "db' = db"
  | (Some) rows where "out = map (claimed (now2 + seconds (clamp 5 300 lease)) now) rows"
      "db' = set_deliveries (\<lambda>r. dl_id r \<in> dl_id ` set rows) (claimed (now2 + seconds (clamp 5 300 lease)) now) (give_up now u e db)"
      "\<forall>r \<in> set rows. r \<in> set (hub_outbox (give_up now u e db)) \<and> for_endpoint u e r \<and> due now r"
      "distinct (map dl_id rows)" "ep_owner db e = Some u"
proof -
  let ?l = "now2 + seconds (clamp 5 300 lease)" and ?db1 = "give_up now u e db"
  define found where "found = sort_key dl_created_at (filter (\<lambda>r. for_endpoint u e r \<and> due now r) (hub_outbox ?db1))"
  define rows where "rows = take (nat (clamp 1 100 limit)) found"
  have dist: "distinct (map dl_id (hub_outbox ?db1))" using give_up_comms[OF ok] by (simp add: comms_ok_def)
  from e consider "out = []" "db' = db" | "claim_rows ?l now rows ?db1 = (out, db')" "ep_owner db e = Some u"
    by (auto simp: claim_outbox_def Let_def outcome_simps give_up_def ep_owner_def rows_def found_def split: if_splits)
  then show thesis
  proof cases
    case 2
    have mem: "\<forall>r \<in> set rows. r \<in> set (hub_outbox ?db1) \<and> for_endpoint u e r \<and> due now r"
      using set_take_subset[of "nat (clamp 1 100 limit)" found] by (auto simp: rows_def found_def)
    have "distinct rows" using dist by (simp add: rows_def found_def distinct_map)
    moreover have "set rows \<subseteq> set (hub_outbox ?db1)" using mem by blast
    ultimately have ids: "distinct (map dl_id rows)" using dist unfolding distinct_map by (meson inj_on_subset)
    have "out = map (claimed ?l now) rows \<and> db' = set_deliveries (\<lambda>r. dl_id r \<in> dl_id ` set rows) (claimed ?l now) ?db1"
      by (rule claim_rows_all[OF 2(1) ids dist]) (use mem in blast)
    then show thesis using Some[OF _ _ mem ids 2(2)] by blast
  qed (use None in blast)
qed

lemma claim_outbox_comms:
  assumes e: "claim_outbox seen now now2 u e limit lease db = Inr (out, db')" and ok: "comms_ok db"
  shows "comms_ok db'"
proof (rule claim_outbox_cases[OF e ok])
  fix rows
  let ?db1 = "give_up now u e db"
  assume db': "db' = set_deliveries (\<lambda>r. dl_id r \<in> dl_id ` set rows) (claimed (now2 + seconds (clamp 5 300 lease)) now) ?db1"
    and rows: "\<forall>r \<in> set rows. r \<in> set (hub_outbox ?db1) \<and> for_endpoint u e r \<and> due now r"
  have ok1: "comms_ok ?db1" by (rule give_up_comms[OF ok])
  then have dist: "distinct (map dl_id (hub_outbox ?db1))" by (simp add: comms_ok_def)
  show ?thesis unfolding db'
  proof (rule set_deliveries_comms[OF ok1])
    fix r assume r: "r \<in> set (hub_outbox ?db1)" "dl_id r \<in> dl_id ` set rows"
    then have "r \<in> set rows" using rows distinct_same_key[OF dist] by fastforce
    then have "dl_attempts r < 5" using rows by (simp add: due_def)
    moreover assume "0 \<le> dl_attempts r"
    ultimately show "0 \<le> dl_attempts (claimed (now2 + seconds (clamp 5 300 lease)) now r) \<and> dl_attempts (claimed (now2 + seconds (clamp 5 300 lease)) now r) \<le> 5"
      by (simp add: claimed_def)
  qed simp
qed (use ok in simp)

lemma set_deliveries_again:
  assumes "\<And>r. f (f r) = f r"
  shows "set_deliveries Q f (set_deliveries P f db) = set_deliveries (\<lambda>r. P r \<or> Q r) f db"
proof -
  have "tbl_update Q f (tbl_update P f rows) = tbl_update (\<lambda>r. P r \<or> Q r) f rows" for rows
    using assms by (induction rows) (auto simp: tbl_update_def)
  then show ?thesis by (simp add: set_deliveries_def)
qed

lemma delivery_states_comms [simp]:
  "delivery_contract (acknowledged_row now tm s d r) = delivery_contract r"
  "delivery_contract (reactivated_row now tm r) = delivery_contract r"
  by (simp_all add: acknowledged_row_def reactivated_row_def delivery_contract_def)

text \<open>The other operations on deliveries.\<close>

lemma delivery_after_Inr [outcome_simps]: "delivery_after i db = Inr (r, db') \<longleftrightarrow> db' = db \<and> delivery_of db i = Some r"
  by (auto simp: delivery_after_def delivery_of_def split: option.splits)

lemma acknowledge_outbox_cases:
  assumes "acknowledge_outbox now now2 u e i ok' retry defer db = Inr (r, db')"
  obtains tm where "db' = set_deliveries (\<lambda>r. dl_id r = i) (acknowledged_row now tm ok' defer) db" "delivery_of db' i = Some r"
    "\<exists>row. delivery_of db i = Some row"
  using assms that by (auto simp: acknowledge_outbox_def outcome_simps delivery_of_set split: option.splits)

lemma delivery_states_attempts [simp]:
  "dl_attempts (acknowledged_row now tm s d r) = dl_attempts r" "dl_attempts (reactivated_row now tm r) = 0"
  by (simp_all add: acknowledged_row_def reactivated_row_def)

lemma reactivate_cases:
  assumes "reactivate_deferred_outbox now now2 u e delay db = Inr (n, db')"
  obtains P tm where "db' = set_deliveries (\<lambda>r. for_endpoint u e r \<and> dl_state r = Deferred) (reactivated_row now tm)
      (set_deliveries P (\<lambda>r. r\<lparr>dl_state := Archived, dl_updated_at := now\<rparr>) db)" "\<And>r. P r \<Longrightarrow> dl_state r = Deferred"
proof -
  let ?arch = "\<lambda>r. r\<lparr>dl_state := Archived, dl_updated_at := now\<rparr>" and ?def = "\<lambda>r. for_endpoint u e r \<and> dl_state r = Deferred"
  let ?P1 = "\<lambda>r. ?def r \<and> dl_type r = ''timeline_message''"
  obtain ep tm where db': "db' = (let db1 = (if is_wechat ep then set_deliveries ?P1 ?arch db else db);
         db2 = (if is_wechat ep then set_deliveries (\<lambda>r. ?def r \<and> stale_notice u db1 r) ?arch db1 else db1)
     in set_deliveries ?def (reactivated_row now tm) db2)"
    using assms unfolding reactivate_deferred_outbox_def by (auto simp: Let_def outcome_simps)
  show thesis
  proof (cases "is_wechat ep")
    case True
    let ?P2 = "\<lambda>r. ?def r \<and> stale_notice u (set_deliveries ?P1 ?arch db) r"
    have "set_deliveries ?P2 ?arch (set_deliveries ?P1 ?arch db) = set_deliveries (\<lambda>r. ?P1 r \<or> ?P2 r) ?arch db"
      by (rule set_deliveries_again) simp
    then show thesis using True by (intro that[of tm "\<lambda>r. ?P1 r \<or> ?P2 r"]) (simp add: db' Let_def, blast)
  next
    case False
    have "set_deliveries (\<lambda>_. False) ?arch db = db" by (simp add: set_deliveries_def tbl_update_def)
    then show thesis using False by (intro that[of tm "\<lambda>_. False"]) (simp_all add: db' Let_def)
  qed
qed

lemma requeue_cases:
  assumes "requeue_delivery now i db = Inr (r, db')"
  shows "db' = set_deliveries (\<lambda>r. dl_id r = i) (reactivated_row now now) db"
    "\<exists>row. delivery_of db i = Some row \<and> dl_state row \<in> {Undelivered, Deferred, Archived}"
  using assms by (auto simp: requeue_delivery_def get_delivery_def delivery_of_def outcome_simps split: option.splits)

lemma archive_cases:
  assumes "archive_delivery now i db = Inr (r, db')"
  shows "db' = set_deliveries (\<lambda>r. dl_id r = i) (\<lambda>r. r\<lparr>dl_state := Archived, dl_updated_at := now\<rparr>) db"
    "\<exists>row. delivery_of db i = Some row \<and> dl_state row \<in> {Undelivered, Acknowledged}"
  using assms by (auto simp: archive_delivery_def get_delivery_def delivery_of_def outcome_simps split: option.splits)

lemma delivery_comms:
  assumes ok: "comms_ok db"
  shows "acknowledge_outbox now now2 u e i s retry defer db = Inr (r, db') \<Longrightarrow> comms_ok db'"
    "reactivate_deferred_outbox now now2 u e delay db = Inr (n, db') \<Longrightarrow> comms_ok db'"
    "requeue_delivery now i db = Inr (r, db') \<Longrightarrow> comms_ok db'"
    "archive_delivery now i db = Inr (r, db') \<Longrightarrow> comms_ok db'"
  by (auto elim!: acknowledge_outbox_cases reactivate_cases dest!: requeue_cases(1) archive_cases(1)
      intro!: set_deliveries_comms ok)


lemma backfill_talks: "talks t u db (backfill_observation i db)" "same_batches db (backfill_observation i db)"
  "posts db (backfill_observation i db)" "hub_tasks (backfill_observation i db) = hub_tasks db"
  by (auto simp: backfill_observation_def same_batches_def posts_def intro: talks_frame split: option.splits)

lemma backfill_observations_frame:
  "hub_endpoints (backfill_observations db) = hub_endpoints db" "hub_tasks (backfill_observations db) = hub_tasks db"
  "hub_outbox (backfill_observations db) = hub_outbox db" "hub_timeline (backfill_observations db) = hub_timeline db"
  "hub_subscriptions (backfill_observations db) = hub_subscriptions db" "hub_events (backfill_observations db) = hub_events db"
  "same_batches db (backfill_observations db)"
proof -
  have "hub_endpoints (fold backfill_observation ls db) = hub_endpoints db \<and> hub_tasks (fold backfill_observation ls db) = hub_tasks db \<and>
    hub_outbox (fold backfill_observation ls db) = hub_outbox db \<and> hub_timeline (fold backfill_observation ls db) = hub_timeline db \<and>
    hub_subscriptions (fold backfill_observation ls db) = hub_subscriptions db \<and> hub_events (fold backfill_observation ls db) = hub_events db \<and>
    same_batches db (fold backfill_observation ls db)" for ls
    by (induction ls arbitrary: db) (auto simp: backfill_observation_def same_batches_def split: option.splits)
  then show "hub_endpoints (backfill_observations db) = hub_endpoints db" "hub_tasks (backfill_observations db) = hub_tasks db"
  "hub_outbox (backfill_observations db) = hub_outbox db" "hub_timeline (backfill_observations db) = hub_timeline db"
  "hub_subscriptions (backfill_observations db) = hub_subscriptions db" "hub_events (backfill_observations db) = hub_events db"
  "same_batches db (backfill_observations db)"
    unfolding backfill_observations_def by simp_all
qed

lemma backfill_comms: "comms_ok db \<Longrightarrow> comms_ok (backfill_observations db)"
  by (erule comms_ok_tasks) (simp_all add: backfill_observations_frame owner_cong(2)[OF backfill_observations_frame(2)])

definition settled_row :: "time \<Rightarrow> delivery_row \<Rightarrow> delivery_row" where
  "settled_row now r = r\<lparr>dl_state := Acknowledged, dl_updated_at := now,
     dl_acknowledged_at := (case dl_acknowledged_at r of None \<Rightarrow> Some now | Some t \<Rightarrow> Some t)\<rparr>"

lemma settled_row_sel [simp]: "delivery_contract (settled_row now r) = delivery_contract r" "dl_attempts (settled_row now r) = dl_attempts r"
  by (simp_all add: settled_row_def delivery_contract_def)

lemma reconcile_cases:
  obtains subs P where "reconcile_pull_based now db = set_deliveries P (settled_row now) (db\<lparr>hub_subscriptions := subs\<rparr>)"
    "map (\<lambda>s. (su_endpoint s, su_user s)) subs = map (\<lambda>s. (su_endpoint s, su_user s)) (hub_subscriptions db)"
proof
  show "reconcile_pull_based now db =
      set_deliveries (\<lambda>r. dl_type r = ''task_event'' \<and> dl_state r \<in> {Pending, Delivering, Undelivered} \<and> pull_endpoint db (dl_endpoint r)) (settled_row now)
        (db\<lparr>hub_subscriptions := tbl_update (\<lambda>s. su_state s = ''active'' \<and> pull_endpoint db (su_endpoint s))
            (\<lambda>s. s\<lparr>su_state := ''inactive'', su_updated_at := now\<rparr>) (hub_subscriptions db)\<rparr>)"
    by (simp add: reconcile_pull_based_def set_deliveries_def settled_row_def[abs_def])
qed (simp add: keys_tbl_update)

lemma reconcile_comms:
  assumes "comms_ok db"
  shows "comms_ok (reconcile_pull_based now db)"
proof -
  obtain subs P where eq: "reconcile_pull_based now db = set_deliveries P (settled_row now) (db\<lparr>hub_subscriptions := subs\<rparr>)"
    and subs: "map (\<lambda>s. (su_endpoint s, su_user s)) subs = map (\<lambda>s. (su_endpoint s, su_user s)) (hub_subscriptions db)"
    by (rule reconcile_cases)
  have "set (map (\<lambda>s. (su_endpoint s, su_user s)) subs) = set (map (\<lambda>s. (su_endpoint s, su_user s)) (hub_subscriptions db))"
    by (simp only: subs)
  then have "\<forall>s \<in> set subs. ep_owner db (su_endpoint s) = Some (su_user s)"
    using assms by (auto simp: comms_ok_def image_def set_eq_iff) metis
  then have "comms_ok (db\<lparr>hub_subscriptions := subs\<rparr>)"
    by (intro only_subscriptions_comms[OF _ assms]) (simp_all add: only_subscriptions_def)
  then show ?thesis unfolding eq by (rule set_deliveries_comms) simp_all
qed

section \<open>Every operation\<close>

definition moves_deliveries :: "hub_op \<Rightarrow> bool" where
  "moves_deliveries op = (case op of HubClaim _ _ _ _ _ _ _ \<Rightarrow> True | HubAcknowledge _ _ _ _ _ _ _ _ \<Rightarrow> True
     | HubReactivate _ _ _ _ _ \<Rightarrow> True | HubRequeue _ _ \<Rightarrow> True | HubArchive _ _ \<Rightarrow> True | HubStartup _ \<Rightarrow> True | _ \<Rightarrow> False)"

lemma about_task_grows:
  "about_task t u db m \<Longrightarrow> m = Inr (x, db') \<Longrightarrow> comms_ok db \<Longrightarrow> grows db db' \<and> posts db db'"
  using about_taskD[of t u db m x db'] talks_grows[of t u db db'] by simp

lemmas about_lemmas = link_operation_about link_plan_operation_about record_plan_event_about record_analysis_phase_about
  link_interaction_about ends_about cancel_task_about record_batch_item_activity_about complete_current_batch_item_about
  fail_current_batch_item_about

lemmas about_grows = about_lemmas[THEN about_task_grows]

lemma hub_exec_talks:
  assumes e: "hub_exec env op db = Inr (out, db')" and ok: "comms_ok db" and op: "\<not> moves_deliveries op"
  shows "grows db db' \<and> posts db db'"
proof (cases op)
  case (HubEndpoint now q)
  then show ?thesis using e ensure_endpoint_moves(1,2)[OF _ ok] by (auto simp: outcome_simps)
next
  case (HubTouch now i u)
  then show ?thesis using e touch_endpoint_moves(1,2)[OF _ ok] by (auto simp: outcome_simps)
next
  case (HubTask now q)
  then show ?thesis using e ensure_task_moves(1,2)[OF _ ok] by (auto simp: outcome_simps)
next
  case (HubMessage now q)
  then show ?thesis using e append_message_moves(1,2)[OF _ ok] by (auto simp: outcome_simps)
next
  case (HubBatch now q)
  then obtain r where "create_batch env now q db = Inr (r, db')" using e by (auto simp: outcome_simps)
  from create_batch_talks[OF this] talks_grows[OF _ ok] show ?thesis by blast
qed (use e op ok in \<open>auto simp: outcome_simps moves_deliveries_def dest: about_grows\<close>)


lemma grows_trans: "grows a b \<Longrightarrow> grows b c \<Longrightarrow> grows a c"
  unfolding grows_def by (blast intro: owners_stay_trans prefix_order.trans)

lemma hub_exec_grows:
  assumes e: "hub_exec env op db = Inr (out, db')" and ok: "comms_ok db"
  shows "grows db db'"
proof (cases "moves_deliveries op")
  case False
  then show ?thesis using hub_exec_talks[OF e ok] by blast
next
  case True
  have frame: "hub_endpoints db' = hub_endpoints db \<and> hub_tasks db' = hub_tasks db \<and> hub_timeline db' = hub_timeline db \<and> comms_ok db'"
  proof (cases op)
    case (HubClaim seen now now2 u ep limit lease)
    then obtain rows where c: "claim_outbox seen now now2 u ep limit lease db = Inr (rows, db')" using e by (auto simp: outcome_simps)
    show ?thesis
      by (rule claim_outbox_cases[OF c ok]) (use claim_outbox_comms[OF c ok] ok in \<open>simp_all add: set_deliveries_def give_up_def\<close>)
  next
    case (HubAcknowledge now now2 u ep i s retry later)
    then obtain r where c: "acknowledge_outbox now now2 u ep i s retry later db = Inr (r, db')" using e by (auto simp: outcome_simps)
    show ?thesis
      by (rule acknowledge_outbox_cases[OF c]) (use delivery_comms(1)[OF ok c] in \<open>simp add: set_deliveries_def\<close>)
  next
    case (HubReactivate now now2 u ep delay)
    then obtain n where c: "reactivate_deferred_outbox now now2 u ep delay db = Inr (n, db')" using e by (auto simp: outcome_simps)
    show ?thesis
      by (rule reactivate_cases[OF c]) (use delivery_comms(2)[OF ok c] in \<open>simp add: set_deliveries_def\<close>)
  next
    case (HubRequeue now i)
    then obtain r where c: "requeue_delivery now i db = Inr (r, db')" using e by (auto simp: outcome_simps)
    show ?thesis using requeue_cases(1)[OF c] delivery_comms(3)[OF ok c] by (simp add: set_deliveries_def)
  next
    case (HubArchive now i)
    then obtain r where c: "archive_delivery now i db = Inr (r, db')" using e by (auto simp: outcome_simps)
    show ?thesis using archive_cases(1)[OF c] delivery_comms(4)[OF ok c] by (simp add: set_deliveries_def)
  next
    case (HubStartup now)
    then have "db' = reconcile_pull_based now (backfill_observations db)" using e by simp
    then show ?thesis using reconcile_comms[OF backfill_comms[OF ok]]
      by (simp add: backfill_observations_frame) (simp add: reconcile_pull_based_def backfill_observations_frame)
  qed (use True in \<open>simp_all add: moves_deliveries_def\<close>)
  then show ?thesis by (simp add: grows_def)
qed

lemma hub_empty_comms: "comms_ok hub_empty"
  by (simp add: comms_ok_def hub_empty_def timeline_ok_def)

interpretation hub: transactional "hub_exec env" comms_ok
  by unfold_locales (use hub_exec_grows in \<open>auto simp: grows_def\<close>)

lemma hub_run_grows: "comms_ok db \<Longrightarrow> grows db (run (hub_exec env) ops db)"
proof (induction ops arbitrary: db)
  case (Cons op ops)
  show ?case
  proof (cases "hub_exec env op db")
    case (Inr p)
    then obtain out db' where e: "hub_exec env op db = Inr (out, db')" by (cases p) auto
    from hub_exec_grows[OF e Cons.prems] have g: "grows db db'" .
    then have "comms_ok db'" by (simp add: grows_def)
    from grows_trans[OF g Cons.IH[OF this]] show ?thesis by (simp add: e)
  qed (use Cons in simp)
qed simp

end
