(* ===== verification/TaskDeliveryLaws.thy ===== *)
theory TaskDeliveryLaws
  imports TaskRuns
begin

text \<open>
  What the ledger of tasks guarantees about notifications and messages, over any run of its operations.
\<close>

section \<open>Attempts\<close>

text \<open>The operations that let a delivery start over.\<close>

definition starts_over :: "hub_op \<Rightarrow> bool" where
  "starts_over op = (case op of HubReactivate _ _ _ _ _ \<Rightarrow> True | HubRequeue _ _ \<Rightarrow> True | _ \<Rightarrow> False)"

definition hands_out :: "hub_out \<Rightarrow> string \<Rightarrow> bool" where
  "hands_out out k = (case out of OutDeliveries rows \<Rightarrow> k \<in> dl_id ` set rows | _ \<Rightarrow> False)"

definition attempts_of :: "hub \<Rightarrow> string \<Rightarrow> nat" where
  "attempts_of db k = (case delivery_of db k of None \<Rightarrow> 0 | Some r \<Rightarrow> nat (dl_attempts r))"

definition calm_exec :: "hub_env \<Rightarrow> hub_op \<Rightarrow> hub \<Rightarrow> hub_out hub_result" where
  "calm_exec env op db = (if starts_over op then Inl HubIntegrity else hub_exec env op db)"

lemma comms_delivery_of:
  assumes "comms_ok db" and "delivery_of db k = Some r"
  shows "0 \<le> dl_attempts r" "dl_attempts r \<le> 5" "dl_id r = k" "r \<in> set (hub_outbox db)"
  using assms tbl_get_mem[of dl_id k "hub_outbox db" r] by (auto simp: delivery_of_def comms_ok_def delivery_ok_def)

lemma attempts_posts: "posts db db' \<Longrightarrow> comms_ok db' \<Longrightarrow> attempts_of db k \<le> attempts_of db' k"
  by (auto simp: attempts_of_def dest: delivery_of_posts split: option.splits)

text \<open>What claiming does to one delivery.\<close>

lemma claim_outbox_row:
  assumes c: "claim_outbox seen now now2 u e limit lease db = Inr (out, db')" and ok: "comms_ok db"
    and r: "delivery_of db k = Some r"
  obtains (kept) "k \<notin> dl_id ` set out" "delivery_of db' k = Some r"
  | (given_up) "k \<notin> dl_id ` set out" "given_up now r" "for_endpoint u e r" "delivery_of db' k = Some (r\<lparr>dl_state := Undelivered, dl_updated_at := now\<rparr>)"
  | (claimed) "k \<in> dl_id ` set out" "due now r" "for_endpoint u e r"
      "delivery_of db' k = Some (claimed (now2 + seconds (clamp 5 300 lease)) now r)"
proof (rule claim_outbox_cases[OF c ok])
  assume "out = []" "db' = db"
  then show thesis using kept r by simp
next
  fix rows
  let ?l = "now2 + seconds (clamp 5 300 lease)" and ?db1 = "give_up now u e db"
  assume out: "out = map (claimed ?l now) rows" and db': "db' = set_deliveries (\<lambda>r. dl_id r \<in> dl_id ` set rows) (claimed ?l now) ?db1"
    and rows: "\<forall>r \<in> set rows. r \<in> set (hub_outbox ?db1) \<and> for_endpoint u e r \<and> due now r"
  have dist: "distinct (map dl_id (hub_outbox ?db1))" using give_up_comms[OF ok] by (simp add: comms_ok_def)
  let ?lost = "for_endpoint u e r \<and> given_up now r"
  let ?r1 = "if ?lost then r\<lparr>dl_state := Undelivered, dl_updated_at := now\<rparr> else r"
  have r1: "delivery_of ?db1 k = Some ?r1" unfolding give_up_def using r by (subst delivery_of_set) simp_all
  have id: "dl_id ?r1 = k" using comms_delivery_of(3)[OF give_up_comms[OF ok] r1] .
  have ids: "dl_id ` set out = dl_id ` set rows" unfolding out by (simp add: image_image claimed_def)
  have after: "delivery_of db' k = Some (if k \<in> dl_id ` set rows then claimed ?l now ?r1 else ?r1)"
    unfolding db' using r1 id by (subst delivery_of_set) simp_all
  show thesis
  proof (cases "k \<in> dl_id ` set rows")
    case True
    then obtain x where x: "x \<in> set rows" "dl_id x = k" by auto
    have "x = ?r1" by (rule distinct_same_key[OF dist]) (use x rows r1 id comms_delivery_of(4)[OF give_up_comms[OF ok] r1] in auto)
    with x(1) rows have "due now ?r1" "for_endpoint u e ?r1" by auto
    have same: "?r1 = r" using \<open>due now ?r1\<close> by (auto simp: due_def)
    show thesis
    proof (rule claimed)
      show "k \<in> dl_id ` set out" using True ids by simp
      show "due now r" "for_endpoint u e r" using \<open>due now ?r1\<close> \<open>for_endpoint u e ?r1\<close> unfolding same by blast+
      show "delivery_of db' k = Some (claimed ?l now r)" using after True unfolding same by (simp only: if_True)
    qed
  next
    case False
    then show thesis using kept given_up after ids by (cases ?lost) simp_all
  qed
qed

lemma attempts_set:
  assumes "\<And>r. delivery_contract (f r) = delivery_contract r" and "\<And>r. dl_attempts (f r) = dl_attempts r"
  shows "attempts_of (set_deliveries P f db) k = attempts_of db k"
  using assms by (auto simp: attempts_of_def delivery_of_set split: option.splits)

lemma attempts_same_outbox: "hub_outbox db' = hub_outbox db \<Longrightarrow> attempts_of db' = attempts_of db"
  by (simp add: attempts_of_def delivery_of_def fun_eq_iff)

lemma calm_exec_attempts:
  assumes e: "calm_exec env op db = Inr (out, db')" and ok: "comms_ok db"
  shows "attempts_of db k + (if hands_out out k then 1 else 0) \<le> attempts_of db' k"
proof -
  have calm: "\<not> starts_over op" and e': "hub_exec env op db = Inr (out, db')"
    using e by (auto simp: calm_exec_def split: if_splits)
  have ok': "comms_ok db'" using hub_exec_grows[OF e' ok] by (simp add: grows_def)
  show ?thesis
  proof (cases op)
    case (HubClaim seen now now2 u ep limit lease)
    then obtain rows where c: "claim_outbox seen now now2 u ep limit lease db = Inr (rows, db')" and out: "out = OutDeliveries rows"
      using e' by (auto simp: outcome_simps)
    show ?thesis
    proof (cases "delivery_of db k")
      case (Some r)
      show ?thesis using comms_delivery_of(1)[OF ok Some]
        by (cases rule: claim_outbox_row[OF c ok Some]) (auto simp: out hands_out_def attempts_of_def Some claimed_def nat_add_distrib)
    next
      case None
      have "k \<notin> dl_id ` set rows"
      proof (rule claim_outbox_cases[OF c ok])
        fix found assume found: "rows = map (claimed (now2 + seconds (clamp 5 300 lease)) now) found"
          "\<forall>r \<in> set found. r \<in> set (hub_outbox (give_up now u ep db)) \<and> for_endpoint u ep r \<and> due now r"
        have "k \<notin> set (map dl_id (hub_outbox (give_up now u ep db)))"
          using None unfolding tbl_get_None[symmetric] delivery_of_def[symmetric] give_up_def by (subst delivery_of_set) simp_all
        then show ?thesis using found by (auto simp: claimed_def)
      qed simp
      then show ?thesis using None by (simp add: out hands_out_def attempts_of_def)
    qed
  next
    case (HubAcknowledge now now2 u ep i s retry later)
    then obtain r where c: "acknowledge_outbox now now2 u ep i s retry later db = Inr (r, db')" and "out = OutDelivery r"
      using e' by (auto simp: outcome_simps)
    then show ?thesis by (auto elim!: acknowledge_outbox_cases simp: attempts_set hands_out_def)
  next
    case (HubArchive now i)
    then obtain r where c: "archive_delivery now i db = Inr (r, db')" and "out = OutDelivery r" using e' by (auto simp: outcome_simps)
    then show ?thesis by (auto dest!: archive_cases(1) simp: attempts_set hands_out_def)
  next
    case (HubStartup now)
    obtain subs P where eq: "reconcile_pull_based now (backfill_observations db) =
        set_deliveries P (settled_row now) (backfill_observations db\<lparr>hub_subscriptions := subs\<rparr>)"
      by (rule reconcile_cases)
    have "attempts_of (backfill_observations db\<lparr>hub_subscriptions := subs\<rparr>) = attempts_of db"
      by (rule attempts_same_outbox) (simp add: backfill_observations_frame)
    then show ?thesis using HubStartup e' by (auto simp: eq attempts_set hands_out_def)
  qed (use calm hub_exec_talks[OF e' ok] attempts_posts[OF _ ok', of db k] e' in
      \<open>auto simp: moves_deliveries_def starts_over_def hands_out_def outcome_simps split: prod.splits\<close>)
qed

interpretation hub_attempts: metered "calm_exec env" comms_ok attempts_of "\<lambda>_. hands_out" 5
proof (unfold_locales, goal_cases)
  case (1 db op out db')
  then show ?case using hub_exec_grows[of env op db out db'] by (auto simp: calm_exec_def grows_def split: if_splits)
next
  case (2 db op out db' k)
  from calm_exec_attempts[OF 2(2,1)] show ?case .
next
  case (3 db k)
  then show ?case by (auto simp: attempts_of_def dest: comms_delivery_of(2) split: option.splits)
qed

lemma worked_calm: "\<forall>op \<in> set ops. \<not> starts_over op \<Longrightarrow> worked (hub_exec env) p ops db = worked (calm_exec env) p ops db"
  by (induction ops arbitrary: db) (auto simp: calm_exec_def split: sum.splits)

section \<open>Leases\<close>

text \<open>While nobody acknowledges the delivery and every claim comes before its lease ends.\<close>

definition keeps_lease :: "string \<Rightarrow> time \<Rightarrow> hub_op \<Rightarrow> bool" where
  "keeps_lease k until op = (case op of HubAcknowledge _ _ _ _ i _ _ _ \<Rightarrow> i \<noteq> k | HubStartup _ \<Rightarrow> False
     | HubClaim _ now _ _ _ _ _ \<Rightarrow> now < until | _ \<Rightarrow> True)"

definition leased :: "string \<Rightarrow> time \<Rightarrow> hub \<Rightarrow> bool" where
  "leased k until db \<longleftrightarrow> (\<exists>r. delivery_of db k = Some r \<and> dl_state r = Delivering \<and> dl_next_at r = until)"

lemma leasedE:
  assumes "leased k until db"
  obtains r where "delivery_of db k = Some r" "dl_state r = Delivering" "dl_next_at r = until"
  using assms by (auto simp: leased_def)

lemma leased_set:
  assumes "leased k until db" and "\<And>r. delivery_contract (f r) = delivery_contract r"
    and "\<And>r. delivery_of db k = Some r \<Longrightarrow> dl_state r = Delivering \<Longrightarrow> \<not> P r"
  shows "leased k until (set_deliveries P f db)"
  using assms by (auto simp: leased_def delivery_of_set)

lemma leased_claim:
  assumes "leased k until db" and c: "claim_outbox seen now now2 u e limit lease db = Inr (out, db')" and ok: "comms_ok db" and "now < until"
  shows "leased k until db'" "k \<notin> dl_id ` set out"
proof -
  obtain r where r: "delivery_of db k = Some r" "dl_state r = Delivering" "dl_next_at r = until" by (rule leasedE[OF assms(1)])
  show "leased k until db'" "k \<notin> dl_id ` set out"
    using r assms(4) by (cases rule: claim_outbox_row[OF c ok r(1)]; auto simp: leased_def due_def given_up_def)+
qed

lemma leased_exec:
  assumes l: "leased k until db" and e: "hub_exec env op db = Inr (out, db')" and ok: "comms_ok db" and op: "keeps_lease k until op"
  shows "leased k until db'"
proof (cases op)
  case (HubClaim seen now now2 u ep limit lease)
  then obtain rows where c: "claim_outbox seen now now2 u ep limit lease db = Inr (rows, db')" using e by (auto simp: outcome_simps)
  show ?thesis by (rule leased_claim(1)[OF l c ok]) (use op HubClaim in \<open>simp add: keeps_lease_def\<close>)
next
  case (HubAcknowledge now now2 u ep i s retry later)
  then obtain r where c: "acknowledge_outbox now now2 u ep i s retry later db = Inr (r, db')" using e by (auto simp: outcome_simps)
  show ?thesis
  proof (rule acknowledge_outbox_cases[OF c])
    fix tm assume "db' = set_deliveries (\<lambda>r. dl_id r = i) (acknowledged_row now tm s later) db"
    then show ?thesis using op HubAcknowledge l comms_delivery_of(3)[OF ok]
      by (auto intro!: leased_set simp: keeps_lease_def)
  qed
next
  case (HubReactivate now now2 u ep delay)
  then obtain n where c: "reactivate_deferred_outbox now now2 u ep delay db = Inr (n, db')" using e by (auto simp: outcome_simps)
  show ?thesis
  proof (rule reactivate_cases[OF c])
    fix P tm
    let ?db1 = "set_deliveries P (\<lambda>r. r\<lparr>dl_state := Archived, dl_updated_at := now\<rparr>) db"
    assume db': "db' = set_deliveries (\<lambda>r. for_endpoint u ep r \<and> dl_state r = Deferred) (reactivated_row now tm) ?db1"
      and P: "\<And>r. P r \<Longrightarrow> dl_state r = Deferred"
    have "leased k until ?db1" by (rule leased_set[OF l]) (use P in fastforce)+
    then show ?thesis unfolding db' by (rule leased_set) auto
  qed
next
  case (HubRequeue now i)
  then obtain r where c: "requeue_delivery now i db = Inr (r, db')" using e by (auto simp: outcome_simps)
  obtain row where row: "delivery_of db i = Some row" "dl_state row \<in> {Undelivered, Deferred, Archived}" using requeue_cases(2)[OF c] by blast
  show ?thesis unfolding requeue_cases(1)[OF c]
    by (rule leased_set[OF l]) (use row comms_delivery_of(3)[OF ok] in fastforce)+
next
  case (HubArchive now i)
  then obtain r where c: "archive_delivery now i db = Inr (r, db')" using e by (auto simp: outcome_simps)
  obtain row where row: "delivery_of db i = Some row" "dl_state row \<in> {Undelivered, Acknowledged}" using archive_cases(2)[OF c] by blast
  show ?thesis unfolding archive_cases(1)[OF c]
    by (rule leased_set[OF l]) (use row comms_delivery_of(3)[OF ok] in fastforce)+
next
  case (HubStartup now)
  then show ?thesis using op by (simp add: keeps_lease_def)
qed (use l hub_exec_talks[OF e ok] delivery_of_posts[of db db' k] in \<open>auto simp: moves_deliveries_def leased_def\<close>)

lemma leased_run:
  "leased k until db \<Longrightarrow> comms_ok db \<Longrightarrow> \<forall>op \<in> set ops. keeps_lease k until op \<Longrightarrow> leased k until (run (hub_exec env) ops db)"
proof (induction ops arbitrary: db)
  case (Cons op ops)
  show ?case
  proof (cases "hub_exec env op db")
    case (Inr p)
    then obtain out db' where e: "hub_exec env op db = Inr (out, db')" by (cases p) auto
    have "comms_ok db'" using hub_exec_grows[OF e Cons.prems(2)] by (simp add: grows_def)
    with leased_exec[OF Cons.prems(1) e Cons.prems(2)] Cons e show ?thesis by simp
  qed (use Cons in simp)
qed simp

section \<open>Messages\<close>

lemma find_unique:
  assumes "row \<in> set rows" and "P row" and only: "\<And>r. r \<in> set rows \<Longrightarrow> P r \<Longrightarrow> r = row"
  shows "List.find P rows = Some row"
proof (cases "List.find P rows")
  case None
  with assms(1,2) show ?thesis by (auto simp: find_None_iff)
next
  case (Some x)
  from only[of x] find_Some_mem[OF Some] have "x = row" by blast
  with Some show ?thesis by simp
qed

lemma timeline_find:
  assumes "timeline_ok rows" and "row \<in> set rows" and "tl_user row = u" "tl_dedupe row = d"
  shows "List.find (\<lambda>r. tl_user r = u \<and> tl_dedupe r = d) rows = Some row"
    "tl_type row = ty \<Longrightarrow> List.find (\<lambda>r. tl_user r = u \<and> tl_dedupe r = d \<and> tl_type r = ty) rows = Some row"
proof -
  have same: "r = row" if "r \<in> set rows" "tl_user r = u" "tl_dedupe r = d" for r
    using assms that distinct_same_key[of "\<lambda>r. (tl_user r, tl_dedupe r)" rows r row] by (simp add: timeline_ok_def)
  show "List.find (\<lambda>r. tl_user r = u \<and> tl_dedupe r = d) rows = Some row"
    by (rule find_unique[OF assms(2)]) (use assms(3,4) same in blast)+
  show "tl_type row = ty \<Longrightarrow> List.find (\<lambda>r. tl_user r = u \<and> tl_dedupe r = d \<and> tl_type r = ty) rows = Some row"
    by (rule find_unique[OF assms(2)]) (use assms(3,4) same in blast)+
qed

lemma append_message_stores:
  assumes e: "append_message env now q db = Inr ((row, reused), db')" and ok: "comms_ok db"
  obtains user key where "hub_required_text 256 (Some (mr_user q)) = Inr user" "hub_required_text 768 (Some (mr_key q)) = Inr key"
    "row \<in> set (hub_timeline db')" "tl_user row = user" "tl_dedupe row = ''message:'' @ key" "tl_type row = ''chat_message''"
proof (rule append_message_cases[OF e])
  fix user key
  assume q: "hub_required_text 256 (Some (mr_user q)) = Inr user" "hub_required_text 768 (Some (mr_key q)) = Inr key" and "db' = db"
    and found: "List.find (\<lambda>r. tl_user r = user \<and> tl_dedupe r = ''message:'' @ key) (hub_timeline db) = Some row"
  note row = find_Some_mem[OF found]
  then have "prefix ''message:'' (tl_dedupe row)" by simp
  then have "tl_type row = ''chat_message''" using row ok by (simp add: comms_ok_def timeline_ok_def)
  then show thesis using row \<open>db' = db\<close> by (intro that[OF q]) simp_all
next
  fix user key db1
  assume q: "hub_required_text 256 (Some (mr_user q)) = Inr user" "hub_required_text 768 (Some (mr_key q)) = Inr key"
    and row: "tl_user row = user" "tl_dedupe row = ''message:'' @ key" "tl_type row = ''chat_message''"
    and db1: "db1 = db\<lparr>hub_timeline := hub_timeline db @ [row], hub_draws := Suc (hub_draws db)\<rparr>"
    and enq: "enqueue_message env row (mr_source q) (mr_notify_source q) db1 = Inr db'"
  have "hub_timeline db' = hub_timeline db @ [row]" using enqueue_message_only[OF enq] by (simp add: only_outbox_def db1)
  then show thesis using row by (intro that[OF q]) simp_all
qed

section \<open>An example\<close>

definition demo_hub_env :: hub_env where
  "demo_hub_env = \<lparr>sha_text = (\<lambda>s. s), sha_json = (\<lambda>_. ''h''), ip_literal = (\<lambda>_. False),
     uuid = (\<lambda>n. replicate (Suc n) (CHR ''i'')), iso = (\<lambda>_. ''now'')\<rparr>"

definition demo_endpoint :: endpoint_request where
  "demo_endpoint = \<lparr>rq_user = ''u'', rq_token = ''t'', rq_host = ''h'', rq_key = ''k'', rq_client_type = ''telegram'', rq_external = ''x'',
     rq_conversation = ''c'', rq_account = None, rq_label = None, rq_capabilities = [''direct_status''], rq_route = None\<rparr>"

definition demo_task :: task_request where
  "demo_task = \<lparr>tr_user = ''u'', tr_host = ''h'', tr_key = ''tk'', tr_origin = ''i'', tr_conversation = ''c'', tr_title = ''T'', tr_summary = None\<rparr>"

definition demo_history :: "hub_op list" where
  "demo_history = [HubEndpoint 1 demo_endpoint, HubTask 2 demo_task]"

definition demo_claim :: "time \<Rightarrow> hub_op" where
  "demo_claim now = HubClaim (run (hub_exec demo_hub_env) demo_history hub_empty) now now ''u'' ''i'' 10 30"

definition demo_hub :: hub where
  "demo_hub = run (hub_exec demo_hub_env) demo_history hub_empty"

lemma demo_hub_claim:
  "case hub_exec demo_hub_env (demo_claim 3) demo_hub of Inr (OutDeliveries [r], db) \<Rightarrow> dl_id r = ''iiiiii'' \<and> dl_next_at r = 30000003 | _ \<Rightarrow> False"
  by code_simp

section \<open>Properties\<close>

text \<open>
  C25: Notifications stay with their user. Whatever endpoint claims its deliveries after any run of the ledger, it is an endpoint of that
  user, and everything it is handed is an event of a task of that user or a message from the timeline of that user.
\<close>

theorem notifications_stay_with_their_user:
  assumes claim: "hub_exec env (HubClaim seen now now2 user endpoint limit lease) (run (hub_exec env) ops hub_empty) = Inr (OutDeliveries rows, db)"
    and r: "r \<in> set rows"
  shows "ep_owner db endpoint = Some user \<and> dl_endpoint r = endpoint \<and> dl_user r = user \<and>
    (if dl_type r = ''task_event''
     then tk_owner db (dl_task r) = Some user \<and> (\<exists>e \<in> set (hub_events db). ev_id e = dl_event r \<and> ev_task e = dl_task r \<and> ev_user e = user)
     else \<exists>m \<in> set (hub_timeline db). tl_id m = dl_event r \<and> tl_user m = user \<and> tl_type m = ''chat_message'')"
proof -
  let ?db0 = "run (hub_exec env) ops hub_empty"
  have ok0: "comms_ok ?db0" by (rule hub.inv_run[OF hub_empty_comms])
  have c: "claim_outbox seen now now2 user endpoint limit lease ?db0 = Inr (rows, db)" using claim by (auto simp: outcome_simps)
  have ok: "comms_ok db" by (rule claim_outbox_comms[OF c ok0])
  show ?thesis
  proof (rule claim_outbox_cases[OF c ok0])
    fix found
    let ?l = "now2 + seconds (clamp 5 300 lease)"
    assume rows: "rows = map (claimed ?l now) found"
      and db: "db = set_deliveries (\<lambda>r. dl_id r \<in> dl_id ` set found) (claimed ?l now) (give_up now user endpoint ?db0)"
      and found: "\<forall>r \<in> set found. r \<in> set (hub_outbox (give_up now user endpoint ?db0)) \<and> for_endpoint user endpoint r \<and> due now r"
    from r rows obtain x where x: "x \<in> set found" "r = claimed ?l now x" by auto
    then have "r \<in> set (hub_outbox db)" using found by (force simp: db set_deliveries_def table_simps)
    then have "delivery_ok db r" using ok by (simp add: comms_ok_def)
    moreover have "dl_user r = user" "dl_endpoint r = endpoint" using x found by (auto simp: for_endpoint_def claimed_def)
    ultimately show ?thesis by (auto simp: delivery_ok_def)
  qed (use r in simp)
qed

theorem notifications_stay_with_their_user_witness:
  "\<exists>rows db. hub_exec demo_hub_env (demo_claim 3) demo_hub = Inr (OutDeliveries rows, db) \<and> rows \<noteq> [] \<and>
     dl_user (hd rows) = ''u'' \<and> ep_owner db ''i'' = Some ''u''"
proof -
  obtain r db where c: "hub_exec demo_hub_env (demo_claim 3) demo_hub = Inr (OutDeliveries [r], db)"
    using demo_hub_claim by (auto split: sum.splits prod.splits hub_out.splits list.splits)
  from notifications_stay_with_their_user[OF c[unfolded demo_claim_def demo_hub_def], of r]
  show ?thesis using c by auto
qed

text \<open>
  A delivery is handed out at most five times, however often it fails, however its leases run out and whoever claims it, unless it is
  reactivated or requeued. \<open>before\<close> is any history of the ledger.
\<close>

lemma delivery_is_tried_five_times:
  assumes "\<forall>op \<in> set ops. \<not> starts_over op"
  shows "worked (hub_exec env) (\<lambda>_ out. hands_out out k) ops (run (hub_exec env) before hub_empty) \<le> 5"
proof -
  have "comms_ok (run (hub_exec env) before hub_empty)" by (rule hub.inv_run[OF hub_empty_comms])
  from hub_attempts.metered_work[OF this, of k env ops] show ?thesis using worked_calm[OF assms] by simp
qed

text \<open>
  One holder at a time. After a claim has handed out a delivery, no claim hands it out again before the lease ends, whoever makes it
  and whatever else the ledger does, unless the delivery is acknowledged (or the service is restarted); the lease is at
  least five seconds.
\<close>

lemma lease_is_exclusive:
  assumes first: "hub_exec env (HubClaim seen now now2 user endpoint limit lease) (run (hub_exec env) before hub_empty) = Inr (OutDeliveries rows, db)"
    and r: "r \<in> set rows" and ops: "\<forall>op \<in> set ops. keeps_lease (dl_id r) (dl_next_at r) op"
    and again: "hub_exec env (HubClaim seen' t t2 user' endpoint' limit' lease') (run (hub_exec env) ops db) = Inr (OutDeliveries rows', db')"
    and early: "t < dl_next_at r"
  shows "dl_id r \<notin> dl_id ` set rows' \<and> now2 + 5000000 \<le> dl_next_at r"
proof -
  let ?db0 = "run (hub_exec env) before hub_empty" and ?l = "now2 + seconds (clamp 5 300 lease)"
  have ok0: "comms_ok ?db0" by (rule hub.inv_run[OF hub_empty_comms])
  have c: "claim_outbox seen now now2 user endpoint limit lease ?db0 = Inr (rows, db)" using first by (auto simp: outcome_simps)
  have ok: "comms_ok db" by (rule claim_outbox_comms[OF c ok0])
  have "dl_next_at r = ?l \<and> leased (dl_id r) ?l db"
  proof (rule claim_outbox_cases[OF c ok0])
    fix found
    let ?db1 = "give_up now user endpoint ?db0"
    assume rows: "rows = map (claimed ?l now) found" and db: "db = set_deliveries (\<lambda>r. dl_id r \<in> dl_id ` set found) (claimed ?l now) ?db1"
      and found: "\<forall>r \<in> set found. r \<in> set (hub_outbox ?db1) \<and> for_endpoint user endpoint r \<and> due now r"
    from r rows obtain x where x: "x \<in> set found" "r = claimed ?l now x" by auto
    have "delivery_of ?db1 (dl_id x) = Some x"
      unfolding delivery_of_def by (rule tbl_get_eqI) (use x found give_up_comms[OF ok0] in \<open>simp_all add: comms_ok_def\<close>)
    then have "delivery_of db (dl_id x) = Some r" unfolding db using x by (subst delivery_of_set) simp_all
    then show ?thesis using x by (simp add: leased_def claimed_def)
  qed (use r in simp)
  then have until: "dl_next_at r = ?l" and l: "leased (dl_id r) (dl_next_at r) db" by simp_all
  have c': "claim_outbox seen' t t2 user' endpoint' limit' lease' (run (hub_exec env) ops db) = Inr (rows', db')" using again by (auto simp: outcome_simps)
  have "dl_id r \<notin> dl_id ` set rows'"
    by (rule leased_claim(2)[OF leased_run[OF l ok ops] c' hub.inv_run[OF ok] early])
  then show ?thesis using until by (simp add: seconds_def clamp_def)
qed

text \<open>
  A message is stored once and can be read back. Whatever happens in the ledger afterwards, reading the message by its key returns the
  row that the first request stored, and sending a message with the same key again returns that row and changes nothing.
\<close>

lemma message_is_stored_once:
  assumes first: "append_message env now q (run (hub_exec env) before hub_empty) = Inr ((row, reused), db)"
    and later: "db' = run (hub_exec env) ops db"
  shows "get_timeline_message (mr_user q) (mr_key q) db' = Inr row \<and>
    (mr_user q' = mr_user q \<longrightarrow> mr_key q' = mr_key q \<longrightarrow> append_message env now' q' db' = Inr (out, db'') \<longrightarrow> out = (row, True) \<and> db'' = db')"
proof -
  have ok0: "comms_ok (run (hub_exec env) before hub_empty)" by (rule hub.inv_run[OF hub_empty_comms])
  have ok: "comms_ok db" using append_message_moves(1)[OF first ok0] by (simp add: grows_def)
  have g: "grows db db'" unfolding later by (rule hub_run_grows[OF ok])
  obtain user key where q: "hub_required_text 256 (Some (mr_user q)) = Inr user" "hub_required_text 768 (Some (mr_key q)) = Inr key"
    and row: "row \<in> set (hub_timeline db)" "tl_user row = user" "tl_dedupe row = ''message:'' @ key" "tl_type row = ''chat_message''"
    by (rule append_message_stores[OF first ok0])
  have tl: "timeline_ok (hub_timeline db')" "row \<in> set (hub_timeline db')"
    using g row(1) set_mono_prefix by (auto simp: grows_def comms_ok_def)
  note find = timeline_find[OF tl row(2,3)]
  have "get_timeline_message (mr_user q) (mr_key q) db' = Inr row"
    using q find(2)[OF row(4)] by (simp add: get_timeline_message_def)
  moreover have "out = (row, True) \<and> db'' = db'" if "mr_user q' = mr_user q" "mr_key q' = mr_key q" "append_message env now' q' db' = Inr (out, db'')"
  proof -
    obtain r reused' where out: "out = (r, reused')" by (cases out)
    show ?thesis
    proof (rule append_message_cases[OF that(3)[unfolded out]])
      fix user' key' db1
      assume "hub_required_text 256 (Some (mr_user q')) = Inr user'" "hub_required_text 768 (Some (mr_key q')) = Inr key'"
        and r: "tl_user r = user'" "tl_dedupe r = ''message:'' @ key'"
        and "db1 = db'\<lparr>hub_timeline := hub_timeline db' @ [r], hub_draws := Suc (hub_draws db')\<rparr>"
        and "timeline_ok (hub_timeline db') \<longrightarrow> timeline_ok (hub_timeline db1)"
      then have "distinct (map (\<lambda>r. (tl_user r, tl_dedupe r)) (hub_timeline db' @ [r]))" "user' = user" "key' = key"
        using tl(1) q that(1,2) by (simp_all add: timeline_ok_def)
      then show ?thesis using tl(2) row(2,3) r by force
    qed (use q that(1,2) find(1) out in auto)
  qed
  ultimately show ?thesis by blast
qed

end
