(* ===== verification/BatchRuns.thy ===== *)
theory BatchRuns
  imports TaskDeliveryLaws
begin

text \<open>
  What the ledger of tasks guarantees about batches and about tasks that have ended: a batch runs its items strictly in order, no target
  is owned by two active batches, and a cancelled task stays cancelled with its batch.
\<close>

section \<open>Sound batches\<close>

text \<open>The state that an item may have, given the place of its ordinal in the batch.\<close>

definition working_states :: "string list" where
  "working_states = [''queued'', ''preparing'', ''waiting_user'']"

definition failed_states :: "string list" where
  "failed_states = [''failed'', ''outcome_unknown'', ''canceled'', ''expired'', ''superseded'']"

definition place :: "batch_row \<Rightarrow> int \<Rightarrow> string \<Rightarrow> bool" where
  "place b n s =
     (if n < ba_current b then s = ''succeeded''
      else if ba_state b \<in> set active_batch_states then (if n = ba_current b then s \<in> set working_states else s = ''queued'')
      else if ba_state b = ''succeeded'' then s = ''succeeded''
      else if ba_failed b = 0 then ba_state b = ''canceled'' \<and> s = ''canceled''
      else if n = ba_current b then s \<in> set failed_states \<and> ba_state b = batch_failure_status s (ba_succeeded b)
      else s = ''queued'')"

definition counts_ok :: "batch_row \<Rightarrow> bool" where
  "counts_ok b \<longleftrightarrow> 1 \<le> ba_current b \<and> ba_current b \<le> ba_total b \<and> ba_skipped b = 0 \<and>
     (if ba_state b = ''succeeded'' then ba_current b = ba_total b \<and> ba_succeeded b = ba_total b \<and> ba_failed b = 0
      else ba_succeeded b = ba_current b - 1 \<and> (if ba_state b \<in> set active_batch_states then ba_failed b = 0 else ba_failed b \<in> {0, 1}))"

definition batch_items :: "hub \<Rightarrow> string \<Rightarrow> item_row list" where
  "batch_items db i = filter (\<lambda>r. bi_batch r = i) (hub_items db)"

definition batch_ok :: "hub \<Rightarrow> batch_row \<Rightarrow> bool" where
  "batch_ok db b \<longleftrightarrow> counts_ok b \<and> map bi_ordinal (batch_items db (ba_id b)) = map int [1..<Suc (nat (ba_total b))] \<and>
     (\<forall>r \<in> set (batch_items db (ba_id b)). place b (bi_ordinal r) (bi_state r))"

text \<open>Two active batches of a user on a system run different capabilities and share no target that is not done.\<close>

definition apart :: "hub \<Rightarrow> batch_row \<Rightarrow> batch_row \<Rightarrow> bool" where
  "apart db b c \<longleftrightarrow> (ba_state b \<in> set active_batch_states \<longrightarrow> ba_state c \<in> set active_batch_states \<longrightarrow> ba_user b = ba_user c \<longrightarrow>
     ba_system b = ba_system c \<longrightarrow> ba_id b \<noteq> ba_id c \<longrightarrow>
     ba_capability b \<noteq> ba_capability c \<and>
     (\<forall>r \<in> set (batch_items db (ba_id b)). \<forall>s \<in> set (batch_items db (ba_id c)). owns_target r \<longrightarrow> owns_target s \<longrightarrow> bi_ref_hash r \<noteq> bi_ref_hash s))"

definition batches_ok :: "hub \<Rightarrow> bool" where
  "batches_ok db \<longleftrightarrow> distinct (map ba_id (hub_batches db)) \<and> distinct (map ba_task (hub_batches db)) \<and> distinct (map bi_id (hub_items db)) \<and>
     (\<forall>r \<in> set (hub_items db). bi_batch r \<in> set (map ba_id (hub_batches db))) \<and>
     (\<forall>b \<in> set (hub_batches db). batch_ok db b \<and> tk_owner db (ba_task b) = Some (ba_user b)) \<and>
     (\<forall>b \<in> set (hub_batches db). \<forall>c \<in> set (hub_batches db). apart db b c)"

lemma batches_ok_same:
  assumes "batches_ok db" and "same_batches db db'" and "owners_stay db db'"
  shows "batches_ok db'"
proof -
  have "batch_items db' = batch_items db" using assms(2) by (simp add: batch_items_def same_batches_def fun_eq_iff)
  then have "batch_ok db' = batch_ok db" "apart db' = apart db" by (simp_all add: batch_ok_def apart_def fun_eq_iff)
  then show ?thesis using assms owners_stayD(2)[OF assms(3)] by (simp add: batches_ok_def same_batches_def)
qed

text \<open>One batch moves on.\<close>

definition frozen :: "batch_row \<Rightarrow> string list \<times> int" where
  "frozen b = ([ba_id b, ba_task b, ba_user b, ba_system b, ba_capability b], ba_total b)"

definition target_of :: "item_row \<Rightarrow> string list \<times> int" where
  "target_of r = ([bi_id r, bi_batch r, bi_ref r, bi_ref_hash r], bi_ordinal r)"

lemma batch_moves:
  assumes ok: "batches_ok db" and stay: "owners_stay db db'" and b: "b \<in> set (hub_batches db)"
    and batches: "hub_batches db' = tbl_update (\<lambda>x. ba_id x = ba_id b) g (hub_batches db)"
    and rows: "hub_items db' = map h (hub_items db)"
    and g: "frozen (g b) = frozen b" "counts_ok (g b)" "ba_state (g b) \<in> set active_batch_states \<Longrightarrow> ba_state b \<in> set active_batch_states"
    and h: "\<And>r. target_of (h r) = target_of r" "\<And>r. r \<in> set (hub_items db) \<Longrightarrow> bi_batch r \<noteq> ba_id b \<Longrightarrow> h r = r"
    and place: "\<And>r. r \<in> set (batch_items db (ba_id b)) \<Longrightarrow> place (g b) (bi_ordinal r) (bi_state (h r))"
    and owns: "\<And>r. r \<in> set (batch_items db (ba_id b)) \<Longrightarrow> ba_state (g b) \<in> set active_batch_states \<Longrightarrow> owns_target (h r) \<Longrightarrow> owns_target r"
  shows "batches_ok db'"
proof -
  have hs: "bi_id (h r) = bi_id r" "bi_batch (h r) = bi_batch r" "bi_ref_hash (h r) = bi_ref_hash r" "bi_ordinal (h r) = bi_ordinal r" for r
    using h(1)[of r] by (simp_all add: target_of_def)
  have gs: "ba_id (g b) = ba_id b" "ba_task (g b) = ba_task b" "ba_user (g b) = ba_user b" "ba_system (g b) = ba_system b"
    "ba_capability (g b) = ba_capability b" "ba_total (g b) = ba_total b"
    using g(1) by (simp_all add: frozen_def)
  have only: "x = b" if "x \<in> set (hub_batches db)" "ba_id x = ba_id b" for x
    using that b ok distinct_same_key[of ba_id "hub_batches db" x b] by (simp add: batches_ok_def)
  let ?g = "\<lambda>x. if x = b then g b else x"
  have bs: "hub_batches db' = map ?g (hub_batches db)"
    unfolding batches tbl_update_def by (rule map_cong[OF refl]) (use only in auto)
  have ids: "map ba_id (hub_batches db') = map ba_id (hub_batches db)" "map ba_task (hub_batches db') = map ba_task (hub_batches db)"
    "map bi_id (hub_items db') = map bi_id (hub_items db)"
    by (simp_all add: bs rows hs gs)
  have its: "batch_items db' i = map h (batch_items db i)" for i
    by (simp add: batch_items_def rows filter_map comp_def hs)
  have unmoved: "batch_items db' (ba_id x) = batch_items db (ba_id x)" if "x \<in> set (hub_batches db)" "x \<noteq> b" for x
  proof -
    have "ba_id x \<noteq> ba_id b" using only that by blast
    then show ?thesis unfolding its by (intro map_idI h(2)) (auto simp: batch_items_def)
  qed
  have one: "batch_ok db' (?g x) \<and> tk_owner db' (ba_task (?g x)) = Some (ba_user (?g x))" if x: "x \<in> set (hub_batches db)" for x
  proof -
    have old: "batch_ok db x" "tk_owner db' (ba_task x) = Some (ba_user x)"
      using ok x owners_stayD(2)[OF stay] by (simp_all add: batches_ok_def)
    show ?thesis
    proof (cases "x = b")
      case True
      then show ?thesis using old g(2) place by (simp add: batch_ok_def gs its comp_def hs)
    next
      case False
      then show ?thesis using old unmoved[OF x False] by (simp add: batch_ok_def)
    qed
  qed
  have two: "apart db' (?g x) (?g y)" if xy: "x \<in> set (hub_batches db)" "y \<in> set (hub_batches db)" for x y
  proof -
    have *: "ba_id (?g z) = ba_id z \<and> ba_user (?g z) = ba_user z \<and> ba_system (?g z) = ba_system z \<and> ba_capability (?g z) = ba_capability z \<and>
        (ba_state (?g z) \<in> set active_batch_states \<longrightarrow> ba_state z \<in> set active_batch_states)" for z
      using g(3) by (simp add: gs)
    have owned: "\<exists>r0 \<in> set (batch_items db (ba_id z)). owns_target r0 \<and> bi_ref_hash r0 = bi_ref_hash r"
      if "z \<in> set (hub_batches db)" "ba_state (?g z) \<in> set active_batch_states" "r \<in> set (batch_items db' (ba_id z))" "owns_target r" for z r
    proof (cases "z = b")
      case True
      from that(3) obtain r0 where "r0 \<in> set (batch_items db (ba_id z))" "r = h r0" unfolding its by auto
      then show ?thesis using True owns[of r0] that(2,4) hs by auto
    next
      case False
      then show ?thesis using that unmoved[OF that(1) False] by auto
    qed
    have "apart db x y" using ok xy by (simp add: batches_ok_def)
    then show ?thesis using * owned[OF xy(1)] owned[OF xy(2)] unfolding apart_def by (metis (no_types, lifting))
  qed
  have "\<forall>x \<in> set (hub_batches db'). batch_ok db' x \<and> tk_owner db' (ba_task x) = Some (ba_user x)"
    "\<forall>x \<in> set (hub_batches db'). \<forall>y \<in> set (hub_batches db'). apart db' x y"
    unfolding bs set_map using one two by blast+
  moreover have "\<forall>r \<in> set (hub_items db'). bi_batch r \<in> set (map ba_id (hub_batches db'))"
    unfolding ids using ok by (auto simp: rows hs batches_ok_def)
  ultimately show ?thesis using ok unfolding batches_ok_def ids by blast
qed


section \<open>The items of a batch\<close>

lemma batch_okD:
  assumes "batches_ok db" and "b \<in> set (hub_batches db)"
  shows "batch_ok db b" "counts_ok b" "map bi_ordinal (batch_items db (ba_id b)) = map int [1..<Suc (nat (ba_total b))]"
    "r \<in> set (batch_items db (ba_id b)) \<Longrightarrow> place b (bi_ordinal r) (bi_state r)" "tk_owner db (ba_task b) = Some (ba_user b)"
  using assms by (auto simp: batches_ok_def batch_ok_def)

lemma item_ordinals:
  assumes ok: "batches_ok db" and b: "b \<in> set (hub_batches db)"
  shows "\<And>r. r \<in> set (batch_items db (ba_id b)) \<Longrightarrow> 1 \<le> bi_ordinal r \<and> bi_ordinal r \<le> ba_total b"
    "\<And>r s. r \<in> set (batch_items db (ba_id b)) \<Longrightarrow> s \<in> set (batch_items db (ba_id b)) \<Longrightarrow> bi_ordinal r = bi_ordinal s \<Longrightarrow> r = s"
    "\<And>n. 1 \<le> n \<Longrightarrow> n \<le> ba_total b \<Longrightarrow> \<exists>r \<in> set (batch_items db (ba_id b)). bi_ordinal r = n"
proof -
  note ords = batch_okD(3)[OF ok b]
  have "bi_ordinal ` set (batch_items db (ba_id b)) = int ` {1..<Suc (nat (ba_total b))}"
    using arg_cong[OF ords, of set] by (simp del: upt_Suc)
  also have "\<dots> = {1..ba_total b}"
  proof (intro set_eqI iffI)
    fix n assume "n \<in> {1..ba_total b}"
    then show "n \<in> int ` {1..<Suc (nat (ba_total b))}" by (intro image_eqI[of _ _ "nat n"]) auto
  qed auto
  finally have image: "bi_ordinal ` set (batch_items db (ba_id b)) = {1..ba_total b}" .
  show "1 \<le> bi_ordinal r \<and> bi_ordinal r \<le> ba_total b" if "r \<in> set (batch_items db (ba_id b))" for r
    using imageI[OF that, of bi_ordinal] unfolding image by simp
  show "\<exists>r \<in> set (batch_items db (ba_id b)). bi_ordinal r = n" if "1 \<le> n" "n \<le> ba_total b" for n
  proof -
    have "n \<in> bi_ordinal ` set (batch_items db (ba_id b))" unfolding image using that by simp
    then show ?thesis by auto
  qed
  have "distinct (map bi_ordinal (batch_items db (ba_id b)))" unfolding ords by (simp add: distinct_map)
  then show "r = s" if "r \<in> set (batch_items db (ba_id b))" "s \<in> set (batch_items db (ba_id b))" "bi_ordinal r = bi_ordinal s" for r s
    by (rule distinct_same_key) (use that in auto)
qed

lemma find_item_in:
  assumes "find_item i n db = Some item"
  shows "item \<in> set (batch_items db i)" "bi_ordinal item = n"
  using find_Some_mem[OF assms[unfolded find_item_def]] by (simp_all add: batch_items_def)

lemma item_same_id: "batches_ok db \<Longrightarrow> r \<in> set (hub_items db) \<Longrightarrow> s \<in> set (hub_items db) \<Longrightarrow> bi_id r = bi_id s \<Longrightarrow> r = s"
  unfolding batches_ok_def by (blast intro: distinct_same_key)

lemma batch_items_in: "r \<in> set (batch_items db i) \<longleftrightarrow> r \<in> set (hub_items db) \<and> bi_batch r = i"
  by (auto simp: batch_items_def)

section \<open>Effects of the operations on batches\<close>

lemma same_append_event: "same_batches a x \<Longrightarrow> leads (same_batches a) (append_event env t u ty p c now x)"
  unfolding leads_def using append_event_talks(2) same_batches_trans by blast

lemma same_update: "same_batches a x \<Longrightarrow> goes (same_batches a) (update_task_state t s p i now x)"
  by (cases "task_finished_at s now") (auto simp: goes_def update_task_state_def same_batches_def)

lemma same_sync: "same_batches a x \<Longrightarrow> goes (same_batches a) (sync_batch_task_summary now task b s p i x)"
  unfolding sync_batch_task_summary_def
  by (rule goes_bind_read, rule same_update) (simp add: same_batches_def set_summary_def)

lemma same_completion_events: "same_batches a x \<Longrightarrow> goes (same_batches a) (completion_events env now t u p b item terminal x)"
  unfolding completion_events_def Let_def by (intro same_append_event course) assumption+

lemmas same_course = same_append_event same_sync same_completion_events course same_batches_refl

lemma record_activity_effect:
  "leads (same_batches (set_batch (ba_id b) (\<lambda>b. b\<lparr>ba_state := (if filled i then ''waiting_user'' else ''running''), ba_version := ba_version b + 1, ba_updated_at := now\<rparr>)
      (set_items (\<lambda>r. bi_id r = bi_id item)
        (\<lambda>r. r\<lparr>bi_state := (if filled i then ''waiting_user'' else ''preparing''), bi_operation := or_else p (bi_operation r),
               bi_interaction := or_else i (bi_interaction r), bi_updated_at := now\<rparr>) db)))
    (record_activity env now u p i task b item db)"
  unfolding record_activity_def Let_def by (intro same_course) assumption+

lemma fail_item_effect:
  assumes "fail_item env now u p s code task b item db = Inr (x, db')"
  obtains c where "same_batches (set_batch (ba_id b) (\<lambda>x. x\<lparr>ba_state := batch_failure_status s (ba_succeeded b), ba_failed := ba_failed b + 1, ba_version := ba_version x + 1,
                  ba_updated_at := now, ba_finished_at := Some now\<rparr>)
      (set_items (\<lambda>r. bi_id r = bi_id item)
        (\<lambda>r. r\<lparr>bi_state := s, bi_operation := or_else p (bi_operation r), bi_error := Some c, bi_updated_at := now, bi_finished_at := Some now\<rparr>) db)) db'"
proof -
  obtain c where c: "hub_required_text 120 (Some code) = Inr c" using assms by (auto simp: fail_item_def outcome_simps)
  have "leads (same_batches (set_batch (ba_id b) (\<lambda>x. x\<lparr>ba_state := batch_failure_status s (ba_succeeded b), ba_failed := ba_failed b + 1, ba_version := ba_version x + 1,
                  ba_updated_at := now, ba_finished_at := Some now\<rparr>)
      (set_items (\<lambda>r. bi_id r = bi_id item)
        (\<lambda>r. r\<lparr>bi_state := s, bi_operation := or_else p (bi_operation r), bi_error := Some c, bi_updated_at := now, bi_finished_at := Some now\<rparr>) db)))
    (fail_item env now u p s code task b item db)"
    unfolding fail_item_def c ebind_Inr Let_def by (intro same_course) assumption+
  then show thesis using assms that by (simp add: leads_def)
qed

lemma cancel_batch_effect:
  assumes "cancel_batch now task u b db = Inr db'"
  shows "same_batches (set_batch (ba_id b) (\<lambda>b. b\<lparr>ba_state := ''canceled'', ba_version := ba_version b + 1, ba_updated_at := now, ba_finished_at := Some now\<rparr>)
      (set_items (\<lambda>r. bi_batch r = ba_id b \<and> bi_state r \<in> {''queued'', ''preparing'', ''waiting_user''})
        (\<lambda>r. r\<lparr>bi_state := ''canceled'', bi_updated_at := now, bi_finished_at := Some now\<rparr>) db)) db'"
proof -
  have "goes (same_batches (set_batch (ba_id b) (\<lambda>b. b\<lparr>ba_state := ''canceled'', ba_version := ba_version b + 1, ba_updated_at := now, ba_finished_at := Some now\<rparr>)
      (set_items (\<lambda>r. bi_batch r = ba_id b \<and> bi_state r \<in> {''queued'', ''preparing'', ''waiting_user''})
        (\<lambda>r. r\<lparr>bi_state := ''canceled'', bi_updated_at := now, bi_finished_at := Some now\<rparr>) db))) (cancel_batch now task u b db)"
    unfolding cancel_batch_def Let_def by (rule goes_bind_read) (intro same_course)
  then show ?thesis using assms by (simp add: goes_def)
qed

section \<open>Every operation on a batch keeps it sound\<close>

lemma set_batch_frame [simp]:
  "hub_batches (set_batch i g db) = tbl_update (\<lambda>b. ba_id b = i) g (hub_batches db)" "hub_items (set_batch i g db) = hub_items db"
  "hub_batches (set_items P h db) = hub_batches db" "hub_items (set_items P h db) = tbl_update P h (hub_items db)"
  by (simp_all add: set_batch_def set_items_def)

text \<open>The current item of an active batch moves on, and the batch with it.\<close>

lemma current_item_moves:
  assumes ok: "batches_ok db" and stay: "owners_stay db db'" and b: "b \<in> set (hub_batches db)" "ba_state b \<in> set active_batch_states"
    and item: "item \<in> set (batch_items db (ba_id b))" "bi_ordinal item = ba_current b"
    and same: "hub_batches db' = tbl_update (\<lambda>x. ba_id x = ba_id b) g (hub_batches db)"
      "hub_items db' = tbl_update (\<lambda>r. bi_id r = bi_id item) f (hub_items db)"
    and g: "frozen (g b) = frozen b" "counts_ok (g b)" and f: "\<And>r. target_of (f r) = target_of r"
    and here: "place (g b) (ba_current b) (bi_state (f item))"
    and rest: "\<And>n s. n \<noteq> ba_current b \<Longrightarrow> place b n s \<Longrightarrow> 1 \<le> n \<Longrightarrow> n \<le> ba_total b \<Longrightarrow> place (g b) n s"
  shows "batches_ok db'"
proof -
  let ?h = "\<lambda>r. if bi_id r = bi_id item then f r else r"
  have rows: "hub_items db' = map ?h (hub_items db)" using same(2) by (simp add: tbl_update_def)
  have others: "bi_id r \<noteq> bi_id item" if "r \<in> set (hub_items db)" "r \<noteq> item" for r
    using item_same_id[OF ok that(1), of item] that(2) item(1) by (auto simp: batch_items_in)
  have "bi_state item \<in> set working_states" using batch_okD(4)[OF ok b(1) item(1)] b(2) item(2) by (simp add: place_def)
  then have owns: "owns_target item" by (auto simp: owns_target_def working_states_def)
  show ?thesis
  proof (rule batch_moves[OF ok stay b(1) same(1) rows g b(2)])
    show "target_of (?h r) = target_of r" for r using f by simp
    show "?h r = r" if "r \<in> set (hub_items db)" "bi_batch r \<noteq> ba_id b" for r
    proof -
      have "r \<noteq> item" using that(2) item(1) by (auto simp: batch_items_in)
      then show ?thesis using others[OF that(1)] by simp
    qed
    show "place (g b) (bi_ordinal r) (bi_state (?h r))" if r: "r \<in> set (batch_items db (ba_id b))" for r
    proof (cases "r = item")
      case True
      then show ?thesis using here item(2) by simp
    next
      case False
      then have "bi_id r \<noteq> bi_id item" "bi_ordinal r \<noteq> ba_current b"
        using others[of r] r item_ordinals(2)[OF ok b(1) r item(1)] item(2) by (auto simp: batch_items_in)
      then show ?thesis using rest[OF _ batch_okD(4)[OF ok b(1) r]] item_ordinals(1)[OF ok b(1) r] by simp
    qed
    show "owns_target r" if "r \<in> set (batch_items db (ba_id b))" "owns_target (?h r)" for r
    proof (cases "r = item")
      case False
      then have "bi_id r \<noteq> bi_id item" using others[of r] that(1) by (simp add: batch_items_in)
      then show ?thesis using that(2) by simp
    qed (use owns in simp)
  qed
qed

lemma current_item_in:
  "current_item b db = Inr item \<Longrightarrow> item \<in> set (batch_items db (ba_id b)) \<and> bi_ordinal item = ba_current b"
  using find_item_in by (auto simp: current_item_def split: option.splits)

lemma record_activity_ok:
  assumes ok: "batches_ok db" and e: "record_activity env now u p i task b item db = Inr (x, db')" and stay: "owners_stay db db'"
    and b: "b \<in> set (hub_batches db)" "ba_state b \<in> set active_batch_states" and item: "current_item b db = Inr item"
  shows "batches_ok db'"
proof -
  let ?g = "\<lambda>b. b\<lparr>ba_state := (if filled i then ''waiting_user'' else ''running''), ba_version := ba_version b + 1, ba_updated_at := now\<rparr>"
  let ?f = "\<lambda>r. r\<lparr>bi_state := (if filled i then ''waiting_user'' else ''preparing''), bi_operation := or_else p (bi_operation r),
               bi_interaction := or_else i (bi_interaction r), bi_updated_at := now\<rparr>"
  have "same_batches (set_batch (ba_id b) ?g (set_items (\<lambda>r. bi_id r = bi_id item) ?f db)) db'"
    using record_activity_effect e unfolding leads_def by blast
  then have same: "hub_batches db' = tbl_update (\<lambda>x. ba_id x = ba_id b) ?g (hub_batches db)"
      "hub_items db' = tbl_update (\<lambda>r. bi_id r = bi_id item) ?f (hub_items db)"
    by (simp_all add: same_batches_def)
  have active: "ba_state (?g b) \<in> set active_batch_states" by (simp add: active_batch_states_def)
  show ?thesis
    by (rule current_item_moves[OF ok stay b _ _ same])
      (use current_item_in[OF item] batch_okD(2)[OF ok b(1)] b(2) active in
        \<open>auto simp: frozen_def target_of_def place_def working_states_def counts_ok_def active_batch_states_def\<close>)
qed

lemma fail_item_ok:
  assumes ok: "batches_ok db" and e: "fail_item env now u p s code task b item db = Inr (x, db')" and stay: "owners_stay db db'"
    and b: "b \<in> set (hub_batches db)" "ba_state b \<in> set active_batch_states"
    and item: "item \<in> set (batch_items db (ba_id b))" "bi_ordinal item = ba_current b" and s: "s \<in> set failed_states"
  shows "batches_ok db'"
proof (rule fail_item_effect[OF e])
  fix c
  let ?state = "batch_failure_status s (ba_succeeded b)"
  let ?g = "\<lambda>x. x\<lparr>ba_state := ?state, ba_failed := ba_failed b + 1, ba_version := ba_version x + 1,
                  ba_updated_at := now, ba_finished_at := Some now\<rparr>"
  let ?f = "\<lambda>r. r\<lparr>bi_state := s, bi_operation := or_else p (bi_operation r), bi_error := Some c, bi_updated_at := now, bi_finished_at := Some now\<rparr>"
  assume "same_batches (set_batch (ba_id b) ?g (set_items (\<lambda>r. bi_id r = bi_id item) ?f db)) db'"
  then have same: "hub_batches db' = tbl_update (\<lambda>x. ba_id x = ba_id b) ?g (hub_batches db)"
      "hub_items db' = tbl_update (\<lambda>r. bi_id r = bi_id item) ?f (hub_items db)"
    by (simp_all add: same_batches_def)
  have counts: "counts_ok b" by (rule batch_okD(2)[OF ok b(1)])
  have over: "?state \<notin> set active_batch_states" "?state \<noteq> ''succeeded''"
    using s by (auto simp: batch_failure_status_def active_batch_states_def failed_states_def)
  have old: "ba_state b \<noteq> ''succeeded''" using b(2) by (auto simp: active_batch_states_def)
  have zero: "ba_failed b = 0" "ba_succeeded b = ba_current b - 1" using counts b(2) old by (simp_all add: counts_ok_def)
  show ?thesis
  proof (rule current_item_moves[OF ok stay b item same])
    show "counts_ok (?g b)" using counts over zero by (simp add: counts_ok_def)
    show "place (?g b) (ba_current b) (bi_state (?f item))" using over zero s by (simp add: place_def)
    show "place (?g b) n t" if "n \<noteq> ba_current b" "place b n t" for n t
      using that over zero b(2) by (auto simp: place_def)
  qed (simp_all add: frozen_def target_of_def)
qed


lemma complete_item_effect:
  assumes "complete_item env now u p result task b item db = Inr (x, db')"
  shows "same_batches (snd (advance_batch now p result b item db)) db'"
proof -
  obtain n db3 where adv: "advance_batch now p result b item db = (n, db3)" by (cases "advance_batch now p result b item db")
  have "leads (same_batches db3) (complete_item env now u p result task b item db)"
    unfolding complete_item_def adv Let_def prod.case by (intro same_course) assumption+
  then show ?thesis using assms adv by (simp add: leads_def)
qed

lemma sort_key_head: "sort_key f xs = y # ys \<Longrightarrow> x \<in> set xs \<Longrightarrow> f y \<le> (f x :: int)"
proof -
  assume s: "sort_key f xs = y # ys" and x: "x \<in> set xs"
  have "sorted (map f (y # ys))" using sorted_sort_key[of f xs] unfolding s .
  moreover have "x \<in> set (y # ys)" using x set_sort[of f xs] unfolding s by simp
  ultimately show ?thesis by auto
qed

lemma next_queued_cases:
  assumes ok: "batches_ok db" and b: "b \<in> set (hub_batches db)" "ba_state b \<in> set active_batch_states"
  shows "(case next_queued b db of None \<Rightarrow> ba_current b = ba_total b
    | Some n \<Rightarrow> n \<in> set (batch_items db (ba_id b)) \<and> bi_ordinal n = ba_current b + 1 \<and> ba_current b < ba_total b)"
proof -
  let ?Q = "\<lambda>r. bi_batch r = ba_id b \<and> ba_current b < bi_ordinal r \<and> bi_state r = ''queued''"
  have counts: "1 \<le> ba_current b" "ba_current b \<le> ba_total b" using batch_okD(2)[OF ok b(1)] by (simp_all add: counts_ok_def)
  have later: "\<exists>r. r \<in> set (filter ?Q (hub_items db)) \<and> bi_ordinal r = ba_current b + 1" if "ba_current b < ba_total b"
  proof -
    have "\<exists>r \<in> set (batch_items db (ba_id b)). bi_ordinal r = ba_current b + 1"
      by (rule item_ordinals(3)[OF ok b(1)]) (use counts that in simp_all)
    then obtain r where r: "r \<in> set (batch_items db (ba_id b))" "bi_ordinal r = ba_current b + 1" by blast
    have "bi_state r = ''queued''" using batch_okD(4)[OF ok b(1) r(1)] b(2) r(2) by (simp add: place_def)
    then have "r \<in> set (filter ?Q (hub_items db))" using r by (simp add: batch_items_in)
    then show ?thesis using r(2) by blast
  qed
  show ?thesis
  proof (cases "sort_key bi_ordinal (filter ?Q (hub_items db))")
    case Nil
    then have none: "set (filter ?Q (hub_items db)) = {}" using set_sort[of bi_ordinal "filter ?Q (hub_items db)"] by (simp only: list.set)
    have "\<not> ba_current b < ba_total b"
    proof
      assume "ba_current b < ba_total b"
      from later[OF this] obtain r where "r \<in> set (filter ?Q (hub_items db))" by blast
      then show False unfolding none by simp
    qed
    then show ?thesis using Nil counts by (simp add: next_queued_def)
  next
    case (Cons n ns)
    then have n: "n \<in> set (filter ?Q (hub_items db))" using set_sort[of bi_ordinal "filter ?Q (hub_items db)"] list.set_intros(1)[of n ns] by (simp only:)
    then have n_in: "n \<in> set (batch_items db (ba_id b))" by (simp add: batch_items_in)
    have lt: "ba_current b < ba_total b" using item_ordinals(1)[OF ok b(1) n_in] n by simp
    then obtain r where r: "r \<in> set (filter ?Q (hub_items db))" "bi_ordinal r = ba_current b + 1" using later by blast
    have "bi_ordinal n \<le> ba_current b + 1" using sort_key_head[OF Cons r(1)] r(2) by simp
    then show ?thesis using n n_in lt Cons by (simp add: next_queued_def)
  qed
qed

lemma next_queued_other:
  assumes "hub_items db' = tbl_update (\<lambda>r. bi_id r = i) f (hub_items db)" and "\<And>r. r \<in> set (hub_items db) \<Longrightarrow> bi_id r = i \<Longrightarrow> \<not> ba_current b < bi_ordinal r"
    and "\<And>r. bi_ordinal (f r) = bi_ordinal r"
  shows "next_queued b db' = next_queued b db"
proof -
  let ?Q = "\<lambda>r. bi_batch r = ba_id b \<and> ba_current b < bi_ordinal r \<and> bi_state r = ''queued''"
  have "filter ?Q (tbl_update (\<lambda>r. bi_id r = i) f rows) = filter ?Q rows" if "set rows \<subseteq> set (hub_items db)" for rows
    using that assms(2,3) by (induction rows) (auto simp: tbl_update_def)
  then show ?thesis by (simp add: next_queued_def assms(1))
qed

lemma advance_batch_ok:
  assumes ok: "batches_ok db" and b: "b \<in> set (hub_batches db)" "ba_state b \<in> set active_batch_states"
    and item: "item \<in> set (batch_items db (ba_id b))" "bi_ordinal item = ba_current b"
  shows "batches_ok (snd (advance_batch now p result b item db))"
proof -
  let ?f = "\<lambda>r. r\<lparr>bi_state := ''succeeded'', bi_operation := Some p, bi_result := json_column result, bi_error := None,
                   bi_updated_at := now, bi_finished_at := Some now\<rparr>"
  let ?db1 = "set_items (\<lambda>r. bi_id r = bi_id item) ?f db"
  let ?n = "next_queued b db"
  let ?g = "\<lambda>x. x\<lparr>ba_state := (if ?n = None then ''succeeded'' else ''running''),
                   ba_current := (case ?n of None \<Rightarrow> ba_current b | Some r \<Rightarrow> bi_ordinal r),
                   ba_succeeded := ba_succeeded b + 1, ba_version := ba_version x + 1, ba_updated_at := now,
                   ba_finished_at := (if ?n = None then Some now else None)\<rparr>"
  let ?db2 = "set_batch (ba_id b) ?g ?db1"
  have counts: "counts_ok b" by (rule batch_okD(2)[OF ok b(1)])
  have old: "ba_state b \<noteq> ''succeeded''" using b(2) by (auto simp: active_batch_states_def)
  have zero: "ba_failed b = 0" "ba_succeeded b = ba_current b - 1" using counts b(2) old by (simp_all add: counts_ok_def)
  have nq: "next_queued b ?db1 = ?n"
  proof (rule next_queued_other)
    show "\<not> ba_current b < bi_ordinal r" if "r \<in> set (hub_items db)" "bi_id r = bi_id item" for r
      using item_same_id[OF ok that(1) _ that(2)] item by (simp add: batch_items_in)
  qed (rule set_batch_frame(4), simp)
  note n = next_queued_cases[OF ok b]
  have ok2: "batches_ok ?db2"
  proof (rule current_item_moves[OF ok _ b item])
    show "hub_batches ?db2 = tbl_update (\<lambda>x. ba_id x = ba_id b) ?g (hub_batches db)"
      "hub_items ?db2 = tbl_update (\<lambda>r. bi_id r = bi_id item) ?f (hub_items db)" by simp_all
    show "owners_stay db ?db2" by (rule owners_stay_refl) (simp_all add: set_batch_def set_items_def)
    show "counts_ok (?g b)" using counts zero n by (auto simp: counts_ok_def active_batch_states_def split: option.splits)
    show "place (?g b) (ba_current b) (bi_state (?f item))"
      using n by (auto simp: place_def active_batch_states_def split: option.splits)
    show "place (?g b) m t" if "m \<noteq> ba_current b" "place b m t" "1 \<le> m" "m \<le> ba_total b" for m t
      using that n b(2) by (auto simp: place_def active_batch_states_def working_states_def split: option.splits)
  qed (simp_all add: frozen_def target_of_def)
  show ?thesis
  proof (cases ?n)
    case None
    then show ?thesis using ok2 by (simp add: advance_batch_def Let_def nq)
  next
    case (Some x)
    let ?db3 = "set_items (\<lambda>r. bi_id r = bi_id x) (\<lambda>r. r\<lparr>bi_state := ''preparing'', bi_updated_at := now\<rparr>) ?db2"
    have x: "x \<in> set (batch_items db (ba_id b))" "bi_ordinal x = ba_current b + 1" using n Some by simp_all
    have "x \<noteq> item" using x(2) item(2) by auto
    then have "bi_id x \<noteq> bi_id item" using item_same_id[OF ok, of x item] x(1) item(1) by (auto simp: batch_items_in)
    then have x2: "x \<in> set (batch_items ?db2 (ba_id (?g b)))" using x(1) by (auto simp: batch_items_in table_simps image_iff)
    have gb: "?g b \<in> set (hub_batches ?db2)" using b(1) by (auto simp: table_simps)
    have "batches_ok ?db3"
    proof (rule current_item_moves[OF ok2 _ gb _ x2])
      show "owners_stay ?db2 ?db3" by (rule owners_stay_refl) (simp_all add: set_batch_def set_items_def)
      show "hub_batches ?db3 = tbl_update (\<lambda>y. ba_id y = ba_id (?g b)) id (hub_batches ?db2)"
        by (simp add: tbl_update_def)
      show "hub_items ?db3 = tbl_update (\<lambda>r. bi_id r = bi_id x) (\<lambda>r. r\<lparr>bi_state := ''preparing'', bi_updated_at := now\<rparr>) (hub_items ?db2)" by simp
      show "counts_ok (id (?g b))" using batch_okD(2)[OF ok2 gb] by simp
    qed (use Some x in \<open>simp_all add: target_of_def place_def active_batch_states_def working_states_def\<close>)
    then show ?thesis using Some by (simp add: advance_batch_def Let_def nq)
  qed
qed


lemma cancel_batch_ok:
  assumes ok: "batches_ok db" and stay: "owners_stay db db'" and b: "b \<in> set (hub_batches db)" "ba_state b \<in> set active_batch_states"
    and same: "hub_batches db' = tbl_update (\<lambda>x. ba_id x = ba_id b)
        (\<lambda>b. b\<lparr>ba_state := ''canceled'', ba_version := ba_version b + 1, ba_updated_at := now, ba_finished_at := Some now\<rparr>) (hub_batches db)"
      "hub_items db' = tbl_update (\<lambda>r. bi_batch r = ba_id b \<and> bi_state r \<in> {''queued'', ''preparing'', ''waiting_user''})
        (\<lambda>r. r\<lparr>bi_state := ''canceled'', bi_updated_at := now, bi_finished_at := Some now\<rparr>) (hub_items db)"
  shows "batches_ok db'"
proof -
  let ?g = "\<lambda>b. b\<lparr>ba_state := ''canceled'', ba_version := ba_version b + 1, ba_updated_at := now, ba_finished_at := Some now\<rparr>"
  let ?open = "\<lambda>r. bi_batch r = ba_id b \<and> bi_state r \<in> {''queued'', ''preparing'', ''waiting_user''}"
  let ?f = "\<lambda>r. r\<lparr>bi_state := ''canceled'', bi_updated_at := now, bi_finished_at := Some now\<rparr>"
  have counts: "counts_ok b" by (rule batch_okD(2)[OF ok b(1)])
  have old: "ba_state b \<noteq> ''succeeded''" using b(2) by (auto simp: active_batch_states_def)
  have zero: "ba_failed b = 0" "ba_succeeded b = ba_current b - 1" using counts b(2) old by (simp_all add: counts_ok_def)
  have rows: "hub_items db' = map (\<lambda>r. if ?open r then ?f r else r) (hub_items db)" using same(2) by (simp add: tbl_update_def)
  have over: "ba_state (?g b) \<notin> set active_batch_states" by (simp add: active_batch_states_def)
  show ?thesis
  proof (rule batch_moves[OF ok stay b(1) same(1) rows])
    show "counts_ok (?g b)" using counts zero over by (simp add: counts_ok_def)
    show "place (?g b) (bi_ordinal r) (bi_state (if ?open r then ?f r else r))" if r: "r \<in> set (batch_items db (ba_id b))" for r
    proof -
      have "bi_batch r = ba_id b" using r by (simp add: batch_items_in)
      then show ?thesis using batch_okD(4)[OF ok b(1) r] b(2) zero
        by (auto simp: place_def active_batch_states_def working_states_def split: if_splits)
    qed
  qed (use over in \<open>auto simp: frozen_def target_of_def\<close>)
qed

section \<open>A new batch\<close>

definition item_core :: "item_row \<Rightarrow> int \<times> string \<times> string" where
  "item_core r = (bi_ordinal r, bi_ref_hash r, bi_state r)"

lemma normalize_items_rows:
  "normalize_items env now n seen ss = Inr rows \<Longrightarrow>
   length rows = length ss \<and> map bi_ordinal rows = map (\<lambda>k. n + int k) [0..<length rows] \<and> (\<forall>r \<in> set rows. bi_state r = ''queued'')"
proof (induction ss arbitrary: n seen rows)
  case (Cons s ss)
  then obtain r rest seen' where rows: "rows = r # rest" and r: "bi_ordinal r = n" "bi_state r = ''queued''"
    and rest: "normalize_items env now (n + 1) seen' ss = Inr rest" by (auto simp: outcome_simps Let_def split: if_splits)
  from rest Cons.IH have ih: "length rest = length ss" "map bi_ordinal rest = map (\<lambda>k. n + 1 + int k) [0..<length rest]"
    "\<forall>r \<in> set rest. bi_state r = ''queued''" by blast+
  have "map bi_ordinal rows = map (\<lambda>k. n + int k) (0 # map Suc [0..<length rest])"
    using ih(2) r(1) by (simp add: rows comp_def)
  also have "0 # map Suc [0..<length rest] = [0..<length rows]" by (simp add: rows map_Suc_upt upt_conv_Cons del: upt_Suc)
  finally have "map bi_ordinal rows = map (\<lambda>k. n + int k) [0..<length rows]" .
  then show ?case using ih(1,3) r by (simp add: rows)
qed simp

lemma insert_items_effect:
  "foldE (insert_item env i) rows db = Inr db' \<Longrightarrow>
   \<exists>new. hub_items db' = hub_items db @ new \<and> map item_core new = map item_core rows \<and> (\<forall>r \<in> set new. bi_batch r = i) \<and>
     hub_batches db' = hub_batches db \<and> (distinct (map bi_id (hub_items db)) \<longrightarrow> distinct (map bi_id (hub_items db')))"
proof (induction rows arbitrary: db)
  case (Cons r rows)
  then obtain db1 where ins: "insert_item env i r db = Inr db1" and rest: "foldE (insert_item env i) rows db1 = Inr db'"
    by (auto simp: outcome_simps)
  let ?r = "r\<lparr>bi_id := uuid env (hub_draws db), bi_batch := i\<rparr>"
  have one: "hub_items db1 = hub_items db @ [?r]" "hub_batches db1 = hub_batches db" "bi_id ?r \<notin> set (map bi_id (hub_items db))"
    using ins by (auto simp: insert_item_def Let_def list_ex_iff split: if_splits)
  from Cons.IH[OF rest] obtain new where "hub_items db' = hub_items db1 @ new" "map item_core new = map item_core rows"
    "\<forall>r \<in> set new. bi_batch r = i" "hub_batches db' = hub_batches db1"
    "distinct (map bi_id (hub_items db1)) \<longrightarrow> distinct (map bi_id (hub_items db'))" by blast
  moreover have "item_core ?r = item_core r" by (simp add: item_core_def)
  ultimately show ?case using one by (intro exI[of _ "?r # new"]) auto
qed simp

lemma store_batch_effect:
  assumes e: "store_batch env now task b rows db = Inr (x, db')" and ids: "distinct (map bi_id (hub_items db))"
  obtains new where "hub_batches db' = hub_batches db @ [b]" "hub_items db' = hub_items db @ new" "map item_core new = map item_core rows"
    "\<forall>r \<in> set new. bi_batch r = ba_id b" "distinct (map bi_id (hub_items db'))"
    "ba_id b \<notin> set (map ba_id (hub_batches db))" "ba_task b \<notin> set (map ba_task (hub_batches db))"
proof -
  obtain db1 db2 where 1: "insert_batch b db = Inr db1" and 2: "foldE (insert_item env (ba_id b)) rows db1 = Inr db2"
    using e by (auto simp: store_batch_def outcome_simps)
  have "leads (same_batches db2) (store_batch env now task b rows db)"
    unfolding store_batch_def 1 2 ebind_Inr by (intro same_course) assumption+
  then have same: "same_batches db2 db'" using e by (simp add: leads_def)
  have one: "hub_batches db1 = hub_batches db @ [b]" "hub_items db1 = hub_items db" "ba_id b \<notin> set (map ba_id (hub_batches db))"
    "ba_task b \<notin> set (map ba_task (hub_batches db))"
    using 1 by (auto simp: insert_batch_def list_ex_iff split: if_splits)
  from insert_items_effect[OF 2] obtain new where "hub_items db2 = hub_items db1 @ new" "map item_core new = map item_core rows"
    "\<forall>r \<in> set new. bi_batch r = ba_id b" "hub_batches db2 = hub_batches db1"
    "distinct (map bi_id (hub_items db1)) \<longrightarrow> distinct (map bi_id (hub_items db2))" by blast
  then show thesis using one same ids by (intro that[of new]) (simp_all add: same_batches_def)
qed

lemma apart_sym: "apart db b c \<Longrightarrow> apart db c b"
  unfolding apart_def by metis

lemma create_batch_ok:
  assumes ok: "batches_ok db" and e: "create_batch env now q db = Inr (x, db')" and stay: "owners_stay db db'"
  shows "batches_ok db'"
proof -
  obtain user system capability rows task where task: "select_owned_task (br_task q) user db = Inr task"
    and rows: "normalize_items env now 1 [] (br_items q) = Inr rows" "br_items q \<noteq> []"
    and rest: "db' = db \<or> (\<not> list_ex (\<lambda>b. ba_user b = user \<and> ba_system b = system \<and> ba_capability b = capability \<and>
             ba_state b \<in> set active_batch_states) (hub_batches db) \<and> \<not> list_ex (target_taken user system db) rows \<and>
        store_batch env now task (new_batch env now (uuid env (hub_draws db)) q user system capability rows) rows db = Inr (x, db'))"
    using e by (auto simp: create_batch_def outcome_simps split: option.splits)
  define b where "b = new_batch env now (uuid env (hub_draws db)) q user system capability rows"
  have bs: "ba_user b = user" "ba_system b = system" "ba_capability b = capability" "ba_task b = br_task q" "ba_state b = ''running''"
    "ba_total b = int (length rows)" "ba_current b = 1" "ba_succeeded b = 0" "ba_failed b = 0" "ba_skipped b = 0"
    by (simp_all add: b_def new_batch_def)
  show ?thesis
  proof (cases "db' = db")
    case False
    with rest have free: "\<not> list_ex (\<lambda>c. ba_user c = user \<and> ba_system c = system \<and> ba_capability c = capability \<and>
             ba_state c \<in> set active_batch_states) (hub_batches db)" "\<not> list_ex (target_taken user system db) rows"
      and store: "store_batch env now task b rows db = Inr (x, db')" by (simp_all add: b_def)
    have "distinct (map bi_id (hub_items db))" using ok by (simp add: batches_ok_def)
    from store_batch_effect[OF store this] obtain new where new: "hub_batches db' = hub_batches db @ [b]" "hub_items db' = hub_items db @ new"
      "map item_core new = map item_core rows" "\<forall>r \<in> set new. bi_batch r = ba_id b" "distinct (map bi_id (hub_items db'))"
      "ba_id b \<notin> set (map ba_id (hub_batches db))" "ba_task b \<notin> set (map ba_task (hub_batches db))" .
    have mine: "batch_items db' (ba_id b) = new"
    proof -
      have "bi_batch r \<noteq> ba_id b" if "r \<in> set (hub_items db)" for r
      proof -
        have "bi_batch r \<in> ba_id ` set (hub_batches db)" using ok that unfolding batches_ok_def set_map by blast
        then show ?thesis using new(6) unfolding set_map by metis
      qed
      then have "filter (\<lambda>r. bi_batch r = ba_id b) (hub_items db) = []" by (simp add: filter_empty_conv)
      then show ?thesis using new(4) by (simp add: batch_items_def new(2) filter_id_conv)
    qed
    have theirs: "batch_items db' (ba_id c) = batch_items db (ba_id c)" if "c \<in> set (hub_batches db)" for c
    proof -
      have "ba_id c \<noteq> ba_id b" using that new(6) unfolding set_map by (metis imageI)
      then have "filter (\<lambda>r. bi_batch r = ba_id c) new = []" using new(4) by (auto simp: filter_empty_conv)
      then show ?thesis by (simp add: batch_items_def new(2))
    qed
    have core: "bi_ordinal r = fst (item_core r)" "bi_ref_hash r = fst (snd (item_core r))" "bi_state r = snd (snd (item_core r))" for r
      by (simp_all add: item_core_def)
    note norm = normalize_items_rows[OF rows(1)]
    have ords: "map bi_ordinal new = map bi_ordinal rows"
      using arg_cong[OF new(3), of "map fst"] by (simp add: comp_def core(1)[symmetric])
    have hashes: "map bi_ref_hash new = map bi_ref_hash rows"
      using arg_cong[OF new(3), of "map (fst \<circ> snd)"] by (simp add: comp_def core(2)[symmetric])
    have states: "map bi_state new = map bi_state rows"
      using arg_cong[OF new(3), of "map (snd \<circ> snd)"] by (simp add: comp_def core(3)[symmetric])
    have n: "length rows = length (br_items q)" "length new = length rows" using norm arg_cong[OF new(3), of length] by simp_all
    have seq: "map bi_ordinal rows = map int [1..<Suc (length rows)]"
    proof -
      have "map int [1..<Suc (length rows)] = map (\<lambda>k. 1 + int k) [0..<length rows]"
        by (rule nth_equalityI) (simp_all del: upt_Suc)
      then show ?thesis using norm by simp
    qed
    have queued: "\<forall>r \<in> set new. bi_state r = ''queued''"
    proof
      fix r assume "r \<in> set new"
      then have "bi_state r \<in> set (map bi_state rows)" unfolding states[symmetric] by simp
      then show "bi_state r = ''queued''" using norm by auto
    qed
    have "counts_ok b" using rows(2) n(1) by (simp add: counts_ok_def bs active_batch_states_def Suc_le_eq)
    moreover have "place b (bi_ordinal r) (bi_state r)" if "r \<in> set new" for r
    proof -
      have "bi_ordinal r \<in> set (map int [1..<Suc (length rows)])" using that unfolding seq[symmetric] ords[symmetric] by simp
      then have "1 \<le> bi_ordinal r" by (auto simp del: upt_Suc)
      then show ?thesis using queued that by (simp add: place_def bs active_batch_states_def working_states_def)
    qed
    ultimately have b_ok: "batch_ok db' b" using ords seq by (simp add: batch_ok_def mine bs)
    have c_ok: "batch_ok db' c \<and> tk_owner db' (ba_task c) = Some (ba_user c)" if "c \<in> set (hub_batches db)" for c
      using batch_okD(1,5)[OF ok that] theirs[OF that] owners_stayD(2)[OF stay] by (simp add: batch_ok_def)
    have b_own: "tk_owner db' (ba_task b) = Some (ba_user b)"
      using owned_task[OF task] owners_stayD(2)[OF stay] by (simp add: bs)
    have old: "apart db' c d" if "c \<in> set (hub_batches db)" "d \<in> set (hub_batches db)" for c d
      using ok that theirs by (simp add: batches_ok_def apart_def)
    have new_old: "apart db' b c" if c: "c \<in> set (hub_batches db)" for c
      unfolding apart_def
    proof (intro impI conjI ballI)
      assume c': "ba_state c \<in> set active_batch_states" "ba_user b = ba_user c" "ba_system b = ba_system c"
      show "ba_capability b \<noteq> ba_capability c" using free(1) c c' bs by (auto simp: list_ex_iff)
      fix r s assume rs: "r \<in> set (batch_items db' (ba_id b))" "s \<in> set (batch_items db' (ba_id c))" "owns_target r" "owns_target s"
      have "bi_ref_hash r \<in> set (map bi_ref_hash rows)" using rs(1) unfolding mine hashes[symmetric] by simp
      then obtain r0 where r0: "r0 \<in> set rows" "bi_ref_hash r0 = bi_ref_hash r" by auto
      have "s \<in> set (hub_items db)" "bi_batch s = ba_id c" using rs(2) theirs[OF c] by (simp_all add: batch_items_in)
      then show "bi_ref_hash r \<noteq> bi_ref_hash s" using free(2) r0 rs(4) c c' bs by (fastforce simp: list_ex_iff target_taken_def)
    qed
    have "apart db' b b" by (simp add: apart_def)
    then have "\<forall>c \<in> set (hub_batches db'). \<forall>d \<in> set (hub_batches db'). apart db' c d"
      using old new_old apart_sym[OF new_old] by (auto simp: new(1))
    moreover have "\<forall>r \<in> set (hub_items db'). bi_batch r \<in> set (map ba_id (hub_batches db'))"
      using ok new(4) by (auto simp: new(1,2) batches_ok_def)
    ultimately show ?thesis using ok new b_ok c_ok b_own by (auto simp: batches_ok_def)
  qed (use ok in simp)
qed


section \<open>Every operation keeps batches sound\<close>

definition moves_batches :: "hub_op \<Rightarrow> bool" where
  "moves_batches op = (case op of HubCancel _ _ _ _ _ \<Rightarrow> True | HubBatch _ _ \<Rightarrow> True | HubActivity _ _ _ _ _ \<Rightarrow> True
     | HubItemDone _ _ _ _ _ _ \<Rightarrow> True | HubItemFailed _ _ _ _ _ _ _ \<Rightarrow> True | _ \<Rightarrow> False)"

lemma leads_plain_same: "leads (plain_talk t u db) m \<Longrightarrow> m = Inr (x, db') \<Longrightarrow> same_batches db db'"
  by (simp add: leads_def plain_talk_def)

lemma ends_plain_same:
  "complete_task env now t u reason c db = Inr (x, db') \<Longrightarrow> same_batches db db'"
  "fail_task env now t u code message c db = Inr (x, db') \<Longrightarrow> same_batches db db'"
  "mark_task_outcome_unknown env now t u code c db = Inr (x, db') \<Longrightarrow> same_batches db db'"
  by (rule leads_plain_same, rule ends_plain, assumption)+

lemmas plain_same = link_operation_plain[THEN leads_plain_same] link_plan_operation_plain[THEN leads_plain_same]
  record_plan_event_plain[THEN leads_plain_same] record_analysis_phase_plain[THEN leads_plain_same]
  link_interaction_plain[THEN leads_plain_same] ends_plain_same

lemma set_deliveries_same [simp]: "same_batches db (set_deliveries P f a) = same_batches db a"
  by (simp add: same_batches_def set_deliveries_def)

lemma hub_exec_same_batches:
  assumes e: "hub_exec env op db = Inr (out, db')" and ok: "comms_ok db" and op: "\<not> moves_batches op"
  shows "same_batches db db'"
proof (cases op)
  case (HubEndpoint now q)
  then show ?thesis using e ensure_endpoint_moves(3)[OF _ ok] by (auto simp: outcome_simps)
next
  case (HubTouch now i u)
  then show ?thesis using e touch_endpoint_moves(3)[OF _ ok] by (auto simp: outcome_simps)
next
  case (HubTask now q)
  then show ?thesis using e ensure_task_moves(3)[OF _ ok] by (auto simp: outcome_simps)
next
  case (HubMessage now q)
  then show ?thesis using e append_message_moves(3)[OF _ ok] by (auto simp: outcome_simps)
next
  case (HubClaim seen now now2 u ep limit lease)
  then obtain rows where c: "claim_outbox seen now now2 u ep limit lease db = Inr (rows, db')" using e by (auto simp: outcome_simps)
  show ?thesis by (rule claim_outbox_cases[OF c ok]) (simp_all add: give_up_def)
next
  case (HubAcknowledge now now2 u ep i s retry later)
  then obtain r where c: "acknowledge_outbox now now2 u ep i s retry later db = Inr (r, db')" using e by (auto simp: outcome_simps)
  show ?thesis by (rule acknowledge_outbox_cases[OF c]) simp
next
  case (HubReactivate now now2 u ep delay)
  then obtain n where c: "reactivate_deferred_outbox now now2 u ep delay db = Inr (n, db')" using e by (auto simp: outcome_simps)
  show ?thesis by (rule reactivate_cases[OF c]) simp
next
  case (HubRequeue now i)
  then show ?thesis using e requeue_cases(1) by (fastforce simp: outcome_simps)
next
  case (HubArchive now i)
  then show ?thesis using e archive_cases(1) by (fastforce simp: outcome_simps)
next
  case (HubStartup now)
  then have "db' = reconcile_pull_based now (backfill_observations db)" using e by simp
  moreover have "same_batches a (reconcile_pull_based now a)" for a by (simp add: reconcile_pull_based_def same_batches_def)
  ultimately show ?thesis using backfill_observations_frame(7) same_batches_trans by blast
qed (use e op in \<open>auto simp: outcome_simps moves_batches_def dest: plain_same\<close>)


lemma batch_found:
  "batch_of_task t db = Some b \<Longrightarrow> b \<in> set (hub_batches db) \<and> ba_task b = t"
  "batch_of_owned_task t u db = Inr b \<Longrightarrow> b \<in> set (hub_batches db) \<and> ba_task b = t \<and> ba_user b = u"
  using find_Some_mem by (fastforce simp: batch_of_task_def batch_of_owned_task_def split: option.splits)+

text \<open>What the operations on a batch come down to: nothing, or one move of an active batch.\<close>

lemma activity_cases:
  assumes "record_batch_item_activity env now t u p i db = Inr (x, db')"
  obtains "db' = db" | task b item where "b \<in> set (hub_batches db)" "ba_state b \<in> set active_batch_states"
    "current_item b db = Inr item" "record_activity env now u p i task b item db = Inr (x, db')"
proof (cases "batch_of_task t db")
  case None
  then show thesis using assms that(1) by (auto simp: record_batch_item_activity_def outcome_simps)
next
  case (Some b)
  show thesis using assms batch_found(1)[OF Some] that
    by (auto simp: record_batch_item_activity_def Some outcome_simps split: if_split_asm)
qed

lemma item_done_cases:
  assumes "complete_current_batch_item env now t u p n result db = Inr (x, db')"
  obtains "db' = db" | task b item where "b \<in> set (hub_batches db)" "ba_state b \<in> set active_batch_states" "ba_task b = t" "ba_user b = u"
    "item \<in> set (batch_items db (ba_id b))" "bi_ordinal item = ba_current b" "ba_current b = n"
    "complete_item env now u p result task b item db = Inr (x, db')"
proof -
  obtain b where b: "batch_of_owned_task t u db = Inr b" using assms by (auto simp: complete_current_batch_item_def outcome_simps)
  show thesis
  proof (cases "find_item (ba_id b) n db")
    case None
    then show thesis using assms by (auto simp: complete_current_batch_item_def b outcome_simps)
  next
    case (Some item)
    show thesis using assms batch_found(2)[OF b] find_item_in[OF Some] that
      by (auto simp: complete_current_batch_item_def b Some outcome_simps split: if_split_asm)
  qed
qed

lemma item_failed_cases:
  assumes "fail_current_batch_item env now t u p n s code db = Inr (x, db')"
  obtains "db' = db" | task b item where "b \<in> set (hub_batches db)" "ba_state b \<in> set active_batch_states"
    "item \<in> set (batch_items db (ba_id b))" "bi_ordinal item = ba_current b" "s \<in> set failed_states"
    "fail_item env now u p s code task b item db = Inr (x, db')"
proof -
  have s: "s \<in> set failed_states" using assms by (auto simp: fail_current_batch_item_def outcome_simps failed_states_def)
  obtain b where b: "batch_of_owned_task t u db = Inr b" using assms by (auto simp: fail_current_batch_item_def outcome_simps)
  show thesis
  proof (cases "find_item (ba_id b) n db")
    case None
    then show thesis using assms that(1) by (auto simp: fail_current_batch_item_def b outcome_simps split: if_split_asm)
  next
    case (Some item)
    show thesis using assms batch_found(2)[OF b] find_item_in[OF Some] s that
      by (auto simp: fail_current_batch_item_def b Some outcome_simps split: if_split_asm)
  qed
qed


text \<open>An item that is done stays done.\<close>

definition item_done :: "hub \<Rightarrow> string \<Rightarrow> string \<Rightarrow> int \<Rightarrow> bool" where
  "item_done db t u n \<longleftrightarrow> (\<exists>b \<in> set (hub_batches db). ba_task b = t \<and> ba_user b = u \<and>
     (\<exists>r \<in> set (batch_items db (ba_id b)). bi_ordinal r = n \<and> bi_state r = ''succeeded''))"

definition keeps_done :: "hub \<Rightarrow> hub \<Rightarrow> bool" where
  "keeps_done db db' \<longleftrightarrow> (\<forall>t u n. item_done db t u n \<longrightarrow> item_done db' t u n)"

lemma keeps_done_refl [simp]: "keeps_done db db"
  by (simp add: keeps_done_def)

lemma keeps_done_trans: "keeps_done a b \<Longrightarrow> keeps_done b c \<Longrightarrow> keeps_done a c"
  by (simp add: keeps_done_def)

lemma keeps_done_same: "same_batches db db' \<Longrightarrow> keeps_done db db'"
  by (simp add: keeps_done_def item_done_def batch_items_def same_batches_def)

lemma keeps_done_rows:
  assumes "\<And>b. b \<in> set (hub_batches db) \<Longrightarrow> \<exists>c \<in> set (hub_batches db'). frozen c = frozen b"
    and "\<And>r. r \<in> set (hub_items db) \<Longrightarrow> bi_state r = ''succeeded'' \<Longrightarrow>
      \<exists>s \<in> set (hub_items db'). target_of s = target_of r \<and> bi_state s = ''succeeded''"
  shows "keeps_done db db'"
  unfolding keeps_done_def
proof (intro allI impI)
  fix t u n assume "item_done db t u n"
  then obtain b r where b: "b \<in> set (hub_batches db)" "ba_task b = t" "ba_user b = u"
    and r: "r \<in> set (hub_items db)" "bi_batch r = ba_id b" "bi_ordinal r = n" "bi_state r = ''succeeded''"
    by (auto simp: item_done_def batch_items_in)
  from assms(1)[OF b(1)] obtain c where c: "c \<in> set (hub_batches db')" "frozen c = frozen b" by blast
  from assms(2)[OF r(1,4)] obtain s where "s \<in> set (hub_items db')" "target_of s = target_of r" "bi_state s = ''succeeded''" by blast
  then show "item_done db' t u n" using b r c by (auto simp: item_done_def batch_items_in frozen_def target_of_def intro!: bexI[of _ c] bexI[of _ s])
qed

lemma keeps_done_moves:
  assumes "hub_batches db' = tbl_update P g (hub_batches db)" and "hub_items db' = tbl_update Q f (hub_items db)"
    and g: "\<And>b. frozen (g b) = frozen b" and f: "\<And>r. target_of (f r) = target_of r"
    and safe: "\<And>r. r \<in> set (hub_items db) \<Longrightarrow> Q r \<Longrightarrow> bi_state r = ''succeeded'' \<Longrightarrow> bi_state (f r) = ''succeeded''"
  shows "keeps_done db db'"
proof (rule keeps_done_rows)
  show "\<exists>c \<in> set (hub_batches db'). frozen c = frozen b" if "b \<in> set (hub_batches db)" for b
  proof
    show "(if P b then g b else b) \<in> set (hub_batches db')" unfolding assms(1) tbl_update_def set_map using that by (rule imageI)
  qed (use g in simp)
  show "\<exists>s \<in> set (hub_items db'). target_of s = target_of r \<and> bi_state s = ''succeeded''"
    if "r \<in> set (hub_items db)" "bi_state r = ''succeeded''" for r
  proof
    show "(if Q r then f r else r) \<in> set (hub_items db')" unfolding assms(2) tbl_update_def set_map using that(1) by (rule imageI)
  qed (use f safe that in simp)
qed

lemma keeps_done_set:
  assumes "same_batches (set_batch i g (set_items Q f db)) db'" and "\<And>b. frozen (g b) = frozen b" and "\<And>r. target_of (f r) = target_of r"
    and "\<And>r. r \<in> set (hub_items db) \<Longrightarrow> Q r \<Longrightarrow> bi_state r = ''succeeded'' \<Longrightarrow> bi_state (f r) = ''succeeded''"
  shows "keeps_done db db'"
proof (rule keeps_done_trans[OF _ keeps_done_same[OF assms(1)]])
  show "keeps_done db (set_batch i g (set_items Q f db))"
    by (rule keeps_done_moves[where P = "\<lambda>b. ba_id b = i" and g = g and Q = Q and f = f]) (simp_all add: assms(2-4))
qed

lemma current_working:
  assumes ok: "batches_ok db" and b: "b \<in> set (hub_batches db)" "ba_state b \<in> set active_batch_states"
    and item: "item \<in> set (batch_items db (ba_id b))" "bi_ordinal item = ba_current b"
    and r: "r \<in> set (hub_items db)" "bi_id r = bi_id item"
  shows "r = item" "bi_state r \<noteq> ''succeeded''"
proof -
  show "r = item" using item_same_id[OF ok r(1) _ r(2)] item(1) by (simp add: batch_items_in)
  then show "bi_state r \<noteq> ''succeeded''" using batch_okD(4)[OF ok b(1) item(1)] b(2) item(2) by (auto simp: place_def working_states_def)
qed

lemma current_item_done:
  assumes ok: "batches_ok db" and b: "b \<in> set (hub_batches db)" "ba_state b \<in> set active_batch_states"
    and item: "item \<in> set (batch_items db (ba_id b))" "bi_ordinal item = ba_current b"
    and same: "same_batches (set_batch i g (set_items (\<lambda>r. bi_id r = bi_id item) f db)) db'"
    and frame: "\<And>x. frozen (g x) = frozen x" "\<And>r. target_of (f r) = target_of r"
  shows "keeps_done db db'"
proof (rule keeps_done_set[OF same frame])
  show "bi_state (f r) = ''succeeded''" if "r \<in> set (hub_items db)" "bi_id r = bi_id item" "bi_state r = ''succeeded''" for r
    using current_working(2)[OF ok b item that(1,2)] that(3) by simp
qed

lemma record_activity_done:
  assumes ok: "batches_ok db" and e: "record_activity env now u p i task b item db = Inr (x, db')"
    and b: "b \<in> set (hub_batches db)" "ba_state b \<in> set active_batch_states" and item: "current_item b db = Inr item"
  shows "keeps_done db db'"
proof (rule current_item_done[OF ok b])
  show "same_batches (set_batch (ba_id b) (\<lambda>b. b\<lparr>ba_state := (if filled i then ''waiting_user'' else ''running''), ba_version := ba_version b + 1, ba_updated_at := now\<rparr>)
      (set_items (\<lambda>r. bi_id r = bi_id item)
        (\<lambda>r. r\<lparr>bi_state := (if filled i then ''waiting_user'' else ''preparing''), bi_operation := or_else p (bi_operation r),
               bi_interaction := or_else i (bi_interaction r), bi_updated_at := now\<rparr>) db)) db'"
    using record_activity_effect e unfolding leads_def by blast
qed (use current_item_in[OF item] in \<open>simp_all add: frozen_def target_of_def\<close>)

lemma fail_item_done:
  assumes ok: "batches_ok db" and e: "fail_item env now u p s code task b item db = Inr (x, db')"
    and b: "b \<in> set (hub_batches db)" "ba_state b \<in> set active_batch_states"
    and item: "item \<in> set (batch_items db (ba_id b))" "bi_ordinal item = ba_current b"
  shows "keeps_done db db'"
  by (rule fail_item_effect[OF e], erule current_item_done[OF ok b item]) (simp_all add: frozen_def target_of_def)

lemma next_queued_later: "next_queued b db = Some r \<Longrightarrow> ba_current b < bi_ordinal r"
proof -
  let ?rows = "filter (\<lambda>r. bi_batch r = ba_id b \<and> ba_current b < bi_ordinal r \<and> bi_state r = ''queued'') (hub_items db)"
  assume "next_queued b db = Some r"
  then obtain rs where "sort_key bi_ordinal ?rows = r # rs" by (auto simp: next_queued_def split: list.splits)
  then have "r \<in> set (sort_key bi_ordinal ?rows)" by simp
  then show ?thesis unfolding set_sort by simp
qed

lemma advance_batch_completes:
  assumes ok: "batches_ok db" and b: "b \<in> set (hub_batches db)" "ba_state b \<in> set active_batch_states"
    and item: "item \<in> set (batch_items db (ba_id b))" "bi_ordinal item = ba_current b"
  shows "item_done (snd (advance_batch now p result b item db)) (ba_task b) (ba_user b) (ba_current b)"
proof -
  let ?db = "snd (advance_batch now p result b item db)"
  have ok': "batches_ok ?db" by (rule advance_batch_ok[OF ok b item])
  define n where "n = next_queued b (set_items (\<lambda>r. bi_id r = bi_id item)
     (\<lambda>r. r\<lparr>bi_state := ''succeeded'', bi_operation := Some p, bi_result := json_column result, bi_error := None,
       bi_updated_at := now, bi_finished_at := Some now\<rparr>) db)"
  let ?g = "\<lambda>x. x\<lparr>ba_state := (if n = None then ''succeeded'' else ''running''),
                   ba_current := (case n of None \<Rightarrow> ba_current b | Some r \<Rightarrow> bi_ordinal r),
                   ba_succeeded := ba_succeeded b + 1, ba_version := ba_version x + 1, ba_updated_at := now,
                   ba_finished_at := (if n = None then Some now else None)\<rparr>"
  have "hub_batches ?db = tbl_update (\<lambda>x. ba_id x = ba_id b) ?g (hub_batches db)"
    unfolding advance_batch_def Let_def n_def[symmetric] by (cases n) simp_all
  then have "?g b \<in> set (hub_batches ?db)" using b(1) by (auto simp: table_simps)
  moreover have "frozen (?g b) = frozen b" by (simp add: frozen_def)
  moreover have "ba_current b < ba_current (?g b) \<or> ba_state (?g b) = ''succeeded''"
    using next_queued_later n_def by (cases n) fastforce+
  ultimately have "\<exists>c \<in> set (hub_batches ?db). frozen c = frozen b \<and> (ba_current b < ba_current c \<or> ba_state c = ''succeeded'')" by blast
  then obtain c where c: "c \<in> set (hub_batches ?db)" "frozen c = frozen b" "ba_current b < ba_current c \<or> ba_state c = ''succeeded''" by blast
  have cols: "ba_id c = ba_id b" "ba_task c = ba_task b" "ba_user c = ba_user b" "ba_total c = ba_total b" using c(2) by (simp_all add: frozen_def)
  have "1 \<le> ba_current b" "ba_current b \<le> ba_total b" using batch_okD(2)[OF ok b(1)] by (simp_all add: counts_ok_def)
  then obtain r where r: "r \<in> set (batch_items ?db (ba_id c))" "bi_ordinal r = ba_current b"
    using item_ordinals(3)[OF ok' c(1)] cols(4) by metis
  have "bi_state r = ''succeeded''" using batch_okD(4)[OF ok' c(1) r(1)] c(3) r(2)
    by (auto simp: place_def active_batch_states_def split: if_splits)
  then show ?thesis using c(1) cols r unfolding item_done_def by blast
qed

lemma cancel_batch_done:
  assumes "cancel_batch now task u b db = Inr db'"
  shows "keeps_done db db'"
  by (rule keeps_done_set[OF cancel_batch_effect[OF assms]]) (auto simp: frozen_def target_of_def)

lemma advance_batch_done:
  assumes ok: "batches_ok db" and b: "b \<in> set (hub_batches db)" "ba_state b \<in> set active_batch_states"
    and item: "item \<in> set (batch_items db (ba_id b))" "bi_ordinal item = ba_current b"
  shows "keeps_done db (snd (advance_batch now p result b item db))"
proof -
  let ?f = "\<lambda>r. r\<lparr>bi_state := ''succeeded'', bi_operation := Some p, bi_result := json_column result, bi_error := None,
                   bi_updated_at := now, bi_finished_at := Some now\<rparr>"
  let ?db1 = "set_items (\<lambda>r. bi_id r = bi_id item) ?f db"
  have nq: "next_queued b ?db1 = next_queued b db"
  proof (rule next_queued_other)
    show "\<not> ba_current b < bi_ordinal r" if "r \<in> set (hub_items db)" "bi_id r = bi_id item" for r
      using current_working(1)[OF ok b item that] item(2) by simp
  qed (rule set_batch_frame(4), simp)
  have one: "keeps_done db (set_batch (ba_id b) g ?db1)" if "\<And>x. frozen (g x) = frozen x" for g
    by (rule keeps_done_set[OF same_batches_refl that]) (simp_all add: target_of_def)
  show ?thesis
  proof (cases "next_queued b db")
    case None
    then show ?thesis by (simp add: advance_batch_def nq Let_def one frozen_def)
  next
    case (Some n)
    with next_queued_cases[OF ok b] have n: "n \<in> set (batch_items db (ba_id b))" "bi_ordinal n = ba_current b + 1" by simp_all
    have queued: "bi_state n \<noteq> ''succeeded''" using batch_okD(4)[OF ok b(1) n(1)] n(2) b(2) by (simp add: place_def)
    have "n \<noteq> item" using n(2) item(2) by auto
    then have other: "bi_id n \<noteq> bi_id item" using current_working(1)[OF ok b item, of n] n(1) by (auto simp: batch_items_in)
    have two: "keeps_done (set_batch (ba_id b) g ?db1)
        (set_items (\<lambda>r. bi_id r = bi_id n) (\<lambda>r. r\<lparr>bi_state := ''preparing'', bi_updated_at := now\<rparr>) (set_batch (ba_id b) g ?db1))" for g
    proof (rule keeps_done_moves[where P = "\<lambda>_. False" and g = id, OF _ set_batch_frame(4)])
      fix r assume r: "r \<in> set (hub_items (set_batch (ba_id b) g ?db1))" "bi_id r = bi_id n" "bi_state r = ''succeeded''"
      then obtain r0 where r0: "r0 \<in> set (hub_items db)" "r = (if bi_id r0 = bi_id item then ?f r0 else r0)" by (auto simp: tbl_update_def)
      then have "bi_id r0 = bi_id n" using r(2) by (simp split: if_splits)
      then have "r0 = n" using item_same_id[OF ok r0(1), of n] n(1) by (simp add: batch_items_in)
      then show "bi_state (r\<lparr>bi_state := ''preparing'', bi_updated_at := now\<rparr>) = ''succeeded''" using r(3) r0(2) queued other by simp
    qed (simp_all add: target_of_def tbl_update_def)
    show ?thesis unfolding advance_batch_def nq Let_def Some option.case snd_conv
      by (rule keeps_done_trans[OF one two]) (simp add: frozen_def)
  qed
qed


lemma cancel_task_cases:
  assumes "cancel_task env now t u reason c db = Inr (x, db')"
  obtains "same_batches db db'"
  | task b db2 db3 where "same_batches db db2" "b \<in> set (hub_batches db2)" "ba_state b \<in> set active_batch_states"
      "cancel_batch now task u b db2 = Inr db3" "same_batches db3 db'"
proof -
  obtain reason' task where start: "hub_required_text 120 (Some reason) = Inr reason'" "select_owned_task t u db = Inr task"
    using assms by (auto simp: cancel_task_def outcome_simps)
  show thesis
  proof (cases "terminal_transition (tk_status task) ''canceled''")
    case Apply
    from assms obtain db1 db2 db3 y where sub: "subscribe_companions env t u now db = Inr db1"
      and upd: "update_task_state t ''canceled'' (tk_operation task) (tk_interaction task) now db1 = Inr db2"
      and mid: "(case List.find (\<lambda>b. ba_task b = t \<and> ba_user b = u) (hub_batches db2) of
                  None \<Rightarrow> Inr db2
                | Some batch \<Rightarrow> if ba_state batch \<in> set active_batch_states then cancel_batch now task u batch db2 else Inr db2) = Inr db3"
      and app: "append_event env t u ''task.canceled'' [(''status'', JStr ''canceled''), (''reason'', JStr reason')] c now db3 = Inr (y, db')"
      unfolding cancel_task_def start ebind_Inr Apply transition.case by (auto simp: outcome_simps)
    have "same_batches db db1" using plain_subscribe[OF plain_talk_refl] sub by (simp add: goes_def plain_talk_def)
    moreover have "same_batches db1 db2" using same_update[OF same_batches_refl] upd unfolding goes_def by blast
    ultimately have 2: "same_batches db db2" by (rule same_batches_trans)
    have 3: "same_batches db3 db'" by (rule append_event_talks(2)[OF app])
    show thesis
    proof (cases "db3 = db2")
      case True
      then show thesis using that(1) same_batches_trans[OF 2] 3 by blast
    next
      case False
      then obtain b where b: "List.find (\<lambda>b. ba_task b = t \<and> ba_user b = u) (hub_batches db2) = Some b"
        "ba_state b \<in> set active_batch_states" "cancel_batch now task u b db2 = Inr db3"
        using mid by (auto split: option.splits if_splits)
      show thesis using that(2)[OF 2 _ b(2,3) 3] find_Some_mem[OF b(1)] by blast
    qed
  qed (use assms that(1) in \<open>auto simp: cancel_task_def start\<close>)
qed

lemma batches_ok_both: "batches_ok db \<Longrightarrow> owners_stay db db' \<Longrightarrow> same_batches db db' \<Longrightarrow> batches_ok db' \<and> keeps_done db db'"
  using batches_ok_same keeps_done_same by blast


lemma create_batch_done:
  assumes ok: "batches_ok db" and e: "create_batch env now q db = Inr (x, db')"
  shows "keeps_done db db'"
proof -
  have "db' = db \<or> (\<exists>user system capability rows task.
        store_batch env now task (new_batch env now (uuid env (hub_draws db)) q user system capability rows) rows db = Inr (x, db'))"
    using e by (auto simp: create_batch_def outcome_simps split: option.splits)
  then show ?thesis
  proof (elim disjE exE)
    fix user system capability rows task
    assume store: "store_batch env now task (new_batch env now (uuid env (hub_draws db)) q user system capability rows) rows db = Inr (x, db')"
    have "distinct (map bi_id (hub_items db))" using ok by (simp add: batches_ok_def)
    from store_batch_effect[OF store this] obtain new where new: "set (hub_batches db) \<subseteq> set (hub_batches db')"
      "hub_items db' = hub_items db @ new" by (metis set_append sup_ge1)
    show ?thesis by (rule keeps_done_rows) (use new in auto)
  qed simp
qed

lemma complete_item_ok:
  assumes ok: "batches_ok db" and stay: "owners_stay db db'" and e: "complete_item env now u p result task b item db = Inr (x, db')"
    and b: "b \<in> set (hub_batches db)" "ba_state b \<in> set active_batch_states"
    and item: "item \<in> set (batch_items db (ba_id b))" "bi_ordinal item = ba_current b"
  shows "batches_ok db'" "keeps_done db db'"
proof -
  let ?mid = "snd (advance_batch now p result b item db)"
  have same: "same_batches ?mid db'" by (rule complete_item_effect[OF e])
  show "keeps_done db db'" by (rule keeps_done_trans[OF advance_batch_done[OF ok b item] keeps_done_same[OF same]])
  have "hub_tasks ?mid = hub_tasks db \<and> hub_endpoints ?mid = hub_endpoints db"
    by (simp add: advance_batch_def Let_def set_batch_def set_items_def split: option.splits)
  then have "ep_owner ?mid = ep_owner db" "tk_owner ?mid = tk_owner db" using owner_cong[of ?mid db] by blast+
  then have "owners_stay ?mid db'" using stay by (simp add: owners_stay_def)
  then show "batches_ok db'" by (rule batches_ok_same[OF advance_batch_ok[OF ok b item] same])
qed

lemma cancel_task_ok:
  assumes ok: "batches_ok db" and stay: "owners_stay db db'" and e: "cancel_task env now t u reason c db = Inr (x, db')"
  shows "batches_ok db' \<and> keeps_done db db'"
proof (rule cancel_task_cases[OF e])
  fix task b db2 db3
  assume 2: "same_batches db db2" and b: "b \<in> set (hub_batches db2)" "ba_state b \<in> set active_batch_states"
    and cancel: "cancel_batch now task u b db2 = Inr db3" and 3: "same_batches db3 db'"
  have b_in: "b \<in> set (hub_batches db)" using b(1) 2 by (simp add: same_batches_def)
  have same: "hub_batches db' = tbl_update (\<lambda>x. ba_id x = ba_id b)
        (\<lambda>b. b\<lparr>ba_state := ''canceled'', ba_version := ba_version b + 1, ba_updated_at := now, ba_finished_at := Some now\<rparr>) (hub_batches db)"
      "hub_items db' = tbl_update (\<lambda>r. bi_batch r = ba_id b \<and> bi_state r \<in> {''queued'', ''preparing'', ''waiting_user''})
        (\<lambda>r. r\<lparr>bi_state := ''canceled'', bi_updated_at := now, bi_finished_at := Some now\<rparr>) (hub_items db)"
    using 2 3 cancel_batch_effect[OF cancel] by (simp_all add: same_batches_def)
  have "keeps_done db db'" using keeps_done_same[OF 2] cancel_batch_done[OF cancel] keeps_done_same[OF 3] keeps_done_trans by blast
  then show ?thesis using cancel_batch_ok[OF ok stay b_in b(2) same] by simp
qed (rule batches_ok_both[OF ok stay])

lemma hub_exec_batches:
  assumes e: "hub_exec env op db = Inr (out, db')" and ok: "comms_ok db" and sound: "batches_ok db"
  shows "batches_ok db' \<and> keeps_done db db'"
proof -
  have stay: "owners_stay db db'" using hub_exec_grows[OF e ok] by (simp add: grows_def)
  show ?thesis
  proof (cases op)
    case (HubCancel now t u reason c)
    then show ?thesis using e cancel_task_ok[OF sound stay] by (auto simp: outcome_simps)
  next
    case (HubBatch now q)
    then obtain x where c: "create_batch env now q db = Inr (x, db')" using e by (auto simp: outcome_simps)
    show ?thesis using create_batch_ok[OF sound c stay] create_batch_done[OF sound c] by simp
  next
    case (HubActivity now t u p i)
    then obtain x where c: "record_batch_item_activity env now t u p i db = Inr (x, db')" using e by (auto simp: outcome_simps)
    show ?thesis
      by (rule activity_cases[OF c]) (use sound in simp, blast intro: record_activity_ok[OF sound _ stay] record_activity_done[OF sound])
  next
    case (HubItemDone now t u p n result)
    then obtain x where c: "complete_current_batch_item env now t u p n result db = Inr (x, db')" using e by (auto simp: outcome_simps)
    show ?thesis
      by (rule item_done_cases[OF c]) (use sound in simp, blast intro: complete_item_ok[OF sound stay])
  next
    case (HubItemFailed now t u p n s code)
    then obtain x where c: "fail_current_batch_item env now t u p n s code db = Inr (x, db')" using e by (auto simp: outcome_simps)
    show ?thesis
      by (rule item_failed_cases[OF c]) (use sound in simp, blast intro: fail_item_ok[OF sound _ stay] fail_item_done[OF sound])
  qed (use hub_exec_same_batches[OF e ok] batches_ok_both[OF sound stay] in \<open>auto simp: moves_batches_def\<close>)
qed


interpretation hub_batch: transactional "hub_exec env" "\<lambda>db. comms_ok db \<and> batches_ok db"
  by unfold_locales (use hub_exec_batches hub.inv_exec in blast)


lemma hub_run_done: "comms_ok db \<Longrightarrow> batches_ok db \<Longrightarrow> keeps_done db (run (hub_exec env) ops db)"
proof (induction ops arbitrary: db)
  case (Cons op ops)
  show ?case
  proof (cases "hub_exec env op db")
    case (Inr p)
    then obtain out db' where e: "hub_exec env op db = Inr (out, db')" by (cases p) auto
    have "comms_ok db'" by (rule hub.inv_exec[OF Cons.prems(1) e])
    then have "keeps_done db' (run (hub_exec env) ops db')" using Cons.IH hub_exec_batches[OF e Cons.prems] by blast
    then show ?thesis using hub_exec_batches[OF e Cons.prems] e by (auto intro: keeps_done_trans)
  qed (use Cons in simp)
qed simp


section \<open>An example\<close>




section \<open>Properties\<close>



text \<open>
  An item is completed once. After an item was completed, whatever the ledger executes, a further completion of
  the same item is answered as a reuse and changes nothing.
\<close>

lemma completed_item_done:
  assumes ok: "batches_ok db" and e: "complete_current_batch_item env now t u p n result db = Inr (x, db')"
  shows "item_done db' t u n"
proof -
  obtain b where b: "batch_of_owned_task t u db = Inr b" using e by (auto simp: complete_current_batch_item_def outcome_simps)
  then have b_in: "b \<in> set (hub_batches db)" "ba_task b = t" "ba_user b = u" using batch_found(2)[OF b] by simp_all
  obtain item where item: "find_item (ba_id b) n db = Some item"
    using e by (auto simp: complete_current_batch_item_def b outcome_simps split: option.splits)
  note i = find_item_in[OF item]
  show ?thesis
  proof (cases "bi_state item = ''succeeded''")
    case True
    then have "db' = db" using e by (auto simp: complete_current_batch_item_def b item outcome_simps split: if_splits)
    then show ?thesis using b_in i True unfolding item_done_def by blast
  next
    case False
    then obtain task where act: "ba_state b \<in> set active_batch_states" "ba_current b = n"
      and c: "complete_item env now u p result task b item db = Inr (x, db')"
      using e by (auto simp: complete_current_batch_item_def b item outcome_simps)
    have same: "same_batches (snd (advance_batch now p result b item db)) db'" by (rule complete_item_effect[OF c])
    have cur: "bi_ordinal item = ba_current b" using i(2) act(2) by simp
    have "item_done (snd (advance_batch now p result b item db)) t u n"
      by (rule advance_batch_completes[OF ok b_in(1) act(1) i(1) cur, unfolded b_in(2,3) act(2)])
    then show ?thesis using keeps_done_same[OF same] unfolding keeps_done_def by blast
  qed
qed

lemma item_is_completed_once:
  assumes ok: "comms_ok db" "batches_ok db"
    and first: "complete_current_batch_item env now t u p n result db = Inr (x, db1)"
    and again: "complete_current_batch_item env now' t u p' n result' (run (hub_exec env) ops db1) = Inr (y, db2)"
  shows "ic_reused y \<and> db2 = run (hub_exec env) ops db1"
proof -
  have e: "hub_exec env (HubItemDone now t u p n result) db = Inr (OutItem x, db1)" using first by (simp add: hub_wrap_def)
  have ok1: "comms_ok db1" "batches_ok db1" using hub_batch.inv_exec[OF _ e] ok by simp_all
  let ?db = "run (hub_exec env) ops db1"
  have ok2: "batches_ok ?db" using hub_batch.inv_run[of db1 env ops] ok1 by simp
  have "item_done ?db t u n" using completed_item_done[OF ok(2) first] hub_run_done[OF ok1, of env ops] unfolding keeps_done_def by blast
  then obtain c r where c: "c \<in> set (hub_batches ?db)" "ba_task c = t" and r: "r \<in> set (batch_items ?db (ba_id c))" "bi_ordinal r = n"
    "bi_state r = ''succeeded''" unfolding item_done_def by blast
  obtain b where b: "batch_of_owned_task t u ?db = Inr b" using again by (auto simp: complete_current_batch_item_def outcome_simps)
  have d: "distinct (map ba_task (hub_batches ?db))" using ok2 by (simp add: batches_ok_def)
  have "b = c" using batch_found(2)[OF b] c distinct_same_key[OF d, of b c] by simp
  obtain item where item: "find_item (ba_id b) n ?db = Some item"
    using again by (auto simp: complete_current_batch_item_def b outcome_simps split: option.splits)
  have "item = r" using item_ordinals(2)[OF ok2 c(1) _ r(1)] find_item_in[OF item] r(2) \<open>b = c\<close> by simp
  then show ?thesis using again r(3) by (auto simp: complete_current_batch_item_def b item outcome_simps)
qed

end
