(* ===== verification/Spec2Isabelle.thy ===== *)
theory Spec2Isabelle
  imports InputValidation TaskStateRules AuthChallenges FieldSubmissions WriteAuthorizations Operations
    Interactions TaskPlans PlanCompiler CapabilityEngine UserGrants ControlledPreparation SkillJobWorker TransformLaws PlanRuntimeLaws BatchRuns
begin

text \<open>
  A model of the execution core of AgentBridge (\<open>src/agentbridge/core\<close>), the service through which
  an agent host runs capabilities of business systems for a user. The parts modelled are the
  persistent stores and pure decisions that make an execution trustworthy: what a user has
  to approve or fill in, that it is used once and as approved, that a repeated request does not
  act twice, and that a plan runs its steps one at a time and in order.

  How the parts interact. What a user may do is granted and logged in \<open>user_grants.py\<close>. The engine
  (\<open>capability_runtime.py\<close>) creates an operation (\<open>operations.py\<close>) for each call of
  a capability, runs its handler and records how it ended. A call that needs its user creates a card: a login
  (\<open>auth_challenges.py\<close>), a form (\<open>field_submissions.py\<close>) or an execution
  authorization (\<open>write_authorizations.py\<close>), and registers it as an interaction
  (\<open>interactions.py\<close>), whose state is projected from the state of the card. A task may have a plan
  (\<open>task_plans.py\<close>), compiled from the proposal of a model (\<open>task_plan_validation.py\<close>) and driven by the runtime
  (\<open>task_plan_runtime.py\<close>) over the registered capabilities and transforms, whose steps wait for such interactions; consuming the authorization of a step
  runs the guard of the plan store in the same transaction. The status that a task shows is decided from
  these facts by \<open>task_state_rules.py\<close>; inputs are checked by \<open>input_validation.py\<close>. A trusted write
  goes through \<open>controlled_write_executor.py\<close>, which ties these stores together: a form for its fields, a
  frozen plan with its authorization, and a commit that consumes the authorization at the boundary to the business system,
  unless a policy of the administrators (\<open>admin/stores.py\<close>) pauses it. The ledger of tasks (\<open>tasks.py\<close>) links
  operations and interactions to the task of a user, runs batches over many targets, and turns the events of a task and the messages
  of a user into notifications for the user's endpoints. Apart from all this, skills are generated and evaluated by
  background jobs (\<open>skill_job_queue.py\<close>, \<open>skill_job_executor.py\<close>).

  Theories.
  \<^item> \<open>Prelude\<close>: results that may be an exception, tables, Python strings and
    lists, runs of transactions. \<open>PyValues\<close>: JSON values as Python compares and tests them.
    \<open>Urls\<close>: \<open>urllib.parse\<close>, \<open>hmac\<close> and the address checks of the cards.
  \<^item> \<open>Ledger\<close>: the contracts of the stores as locales, \<open>transactional\<close> (an invariant that
    operations keep), \<open>ledger\<close> (records whose status moves along the edges of a state
    machine), \<open>one_shot\<close> (an operation that spends a record) and \<open>metered\<close> (work that a meter bounds). Every store interprets them on its own
    operations; the properties over whole runs come from these interpretations.
  \<^item> \<open>WriteAuthorizations\<close>, \<open>FieldSubmissions\<close>, \<open>AuthChallenges\<close>,
    \<open>Operations\<close>, \<open>Interactions\<close>, \<open>TaskPlans\<close>: one theory per store. A row is a record
    with the columns of the table, the database a record of tables, and each public method a
    definition \<open>db \<Rightarrow> error + (result \<times> db)\<close> with the guards in the order of the code. A
    datatype of operations with an \<open>exec\<close> function makes the store a transition system; any interleaving of
    callers is a list of operations, because each method is one SQLite transaction that holds the write lock.
  \<^item> \<open>InputValidation\<close>, \<open>TaskStateRules\<close>: the pure modules.
  \<^item> \<open>Planning\<close>: the capability registry (\<open>capability.py\<close>), the registration of transforms and the
    planning descriptors. \<open>PlanValidation\<close>: the compiler of proposals, one definition per stage of
    \<open>validate_and_compile_task_plan\<close>; the table of normalized steps is the list of its rows in
    insertion order. \<open>PlanCompiler\<close>: what the compiler guarantees.
  \<^item> \<open>Transforms\<close>: the transforms between steps (\<open>transforms.py\<close>): their engine with the
    validation of schemas, and the three built-in ones. \<open>TransformLaws\<close>: what they guarantee; the locale
    \<open>checked_transform\<close> is interpreted on all three.
  \<^item> \<open>CapabilityEngine\<close>: the engine over the registry and the operation store; a handler is a
    function on an arbitrary state and its exceptions are the constructors of \<open>handler_exit\<close>.
  \<^item> \<open>PermissionCatalog\<close>: the data of the business permissions, transcribed. \<open>UserGrants\<close>: the grants, their
    log and the checks; \<open>one_shot\<close> is interpreted with the revision a change expects as the thing that is spent.
  \<^item> \<open>GovernancePolicies\<close>: the pauses of the administrators. \<open>ControlledWrites\<close>: the
    commit of an authorized write; the commit function of an adapter is an arbitrary program that may call back to
    enter the boundary, and other callers may run any transactions in between.
    \<open>ControlledPreparation\<close>: the form and the authorization that come before it.
  \<^item> \<open>SkillJobs\<close>: the queue of background jobs; a transaction that decides on an earlier read gets the tables it
    read as an argument. \<open>SkillJobWorker\<close>: the worker, whose handlers
    are arbitrary programs, and its loop, a partial function that is proved to return.
  \<^item> \<open>PlanRuntime\<close>: the coordinator of plans (\<open>task_plan_runtime.py\<close>) with the projections it stores and
    answers (\<open>task_projections.py\<close>, \<open>task_plan_response\<close>), on the state of both stores; its \<open>while True\<close> is a partial
    function. The service behind it is a parameter: a call may raise, changes a state of its own and reaches the stores by lists
    of their transactions. \<open>PlanWork\<close>: the work left in a plan. \<open>PlanRuntimeLaws\<close>: triples over the runtime's monad
    and what it guarantees; the locale \<open>plan_discipline\<close> is interpreted for all transactions and for those that put no step back.
  \<^item> \<open>TaskLedger\<close>, \<open>TaskDeliveries\<close>, \<open>TaskBatches\<close>: the ledger of tasks (\<open>TaskHubStore\<close>), its
    tables and the operations on endpoints, tasks, messages, deliveries and batches, on one record \<open>hub\<close> whose generated
    identifiers are an arbitrary sequence. \<open>TaskRuns\<close>: the ledger as a transition system, and a calculus for what an operation may do
    to tasks, notifications and batches. \<open>TaskDeliveryLaws\<close>, \<open>BatchRuns\<close>: what it guarantees about notifications,
    messages and batches; \<open>transactional\<close> and \<open>metered\<close> are interpreted on it.
  \<^item> This theory: the properties that span components.

  What the lemmas show. For each store an invariant over rows and tables (\<open>wa_inv\<close>, \<open>fs_inv\<close>,
  \<open>ac_inv\<close>, \<open>op_inv\<close>, \<open>in_inv\<close>, \<open>tp_inv\<close>, \<open>ug_inv\<close>, \<open>comms_ok\<close>, \<open>batches_ok\<close>) and that every operation preserves it;
  the moves of a single row under every operation; the functional behaviour of the
  operations that decide, submit, claim and consume on every branch; and from these, over runs, that
  decisions and consumptions happen at most once, that contracts never change, that
  idempotency keys stand, that plans make progress and that a commit and a cancellation exclude each other.
  For the transforms: they answer or refuse with their own errors, a merge keeps the first record of every
  key, and a draft is the longest prefix of lines that fits. For the compiler: the order it finds exists exactly when the dependencies are acyclic, the
  ancestors it computes are the transitive dependencies, bindings are typed, compiled plans are well formed
  and within what the caller may do, and the stored plan of a compiled proposal never gets stuck.
  For the runtime, whatever the service does: it keeps both stores sound, its loop returns unless the service puts steps of the plan back, its final answers agree with the
  stored plan, incomplete sources and raising steps end the plan, and bound arguments are outputs of succeeded steps.
  For the ledger of tasks: a notification reaches only endpoints of the user whose task or message it is about, a delivery is handed out at most
  five times and to one holder at a time, a message is stored once, a batch runs its items strictly in order and completes each once.

  Conventions. Exceptions are values \<open>Inl e\<close>. A clock reading, a random token and a fresh
  identifier are arguments of the operation that draws them. SHA-256 digests and the test for an IP
  literal are fields of \<open>py_env\<close>, about which nothing is assumed. A JSON column holds the value
  that the code would read back from it. Strings are lists of characters up to U+00FF. Recursion is structural or has
  a termination proof, apart from the loops of the worker and of the runtime, which are proved to return; no definition uses fuel.

  The operation \<open>TpCreate\<close> of the transition system of plans carries the guard \<open>compiled_keys_ok\<close> (no step of the plan has an
  empty key); \<open>tp_create\<close> itself has no such guard, and the compiler is proved to satisfy it.

  Not modelled: schema migrations of the SQLite files; of the ledger of tasks the artifacts, continuations, diagnostic queries and two of the
  repairs at startup (the runtime takes its calls of the ledger as part of its service); the central service that wires the stores; adapters, browsers, sessions, the MCP and web surfaces, which are wiring and I/O around the core.
\<close>

section \<open>Consuming the authorization of a plan step\<close>





text \<open>
  An ended or already committing plan blocks the consumption. When a plan of the user waits
  for an authorization and is no longer active, or is marked by another commit, then consuming that
  authorization with the guard raises, and the transaction leaves both tables as they were.
\<close>

theorem ended_plan_blocks_consumption:
  fixes db :: "tp_db wa_db" and v :: "tp_snapshot \<Rightarrow> 'e + unit"
  assumes plan: "authorized_plan i (wb_user b) (wa_other db) = Some row"
    and over: "tp_state row \<in> terminal_plan_states \<or> filled (tp_commit_operation row)"
  shows "commit (wa_consume env now now2 i b oid (Some (tp_guard now3 i (wb_user b) oid v)) db) db = db \<and>
    isl (wa_consume env now now2 i b oid (Some (tp_guard now3 i (wb_user b) oid v)) db)"
proof (cases "wa_consume env now now2 i b oid (Some (tp_guard now3 i (wb_user b) oid v)) db")
  case (Inr p)
  then obtain view db' where "wa_consume env now now2 i b oid (Some (tp_guard now3 i (wb_user b) oid v)) db = Inr (view, db')"
    by (cases p) auto
  from wa_consume_Inr[OF this] obtain x where
    "wa_run_callback (Some (tp_guard now3 i (wb_user b) oid v)) db = (Inr (db\<lparr>wa_other := x\<rparr>) :: 'e tp_error wa_error + tp_db wa_db)"
    by blast
  then have "tp_guard now3 i (wb_user b) oid v (wa_other db) = Inr x"
    by (cases db) (auto simp: wa_run_callback_def split: sum.splits)
  from tp_guard_Inr[OF this] plan over show ?thesis by (auto simp: terminal_iff)
qed simp

end
